(* ===== verification/Prelude.thy ===== *)
theory Prelude
  imports Main "HOL-Library.Word"
begin

text \<open>
  Shared vocabulary of the development: the machine types of the Go sources, results that
  carry an error, little- and big-endian encodings of machine words, and the byte readers
  that \<^verbatim>\<open>io.ReadFull\<close> over an \<^verbatim>\<open>io.Reader\<close> amounts to. The lemmas here are generic; the
  component theories get them through the simplifier or through the collections below.
\<close>

unbundle bit_operations_syntax

section \<open>Machine types\<close>

type_synonym byte = "8 word"
type_synonym bytes = "byte list"
type_synonym u16 = "16 word"
type_synonym u32 = "32 word"
type_synonym u64 = "64 word"

named_theorems word_nat "conversions of word arithmetic to naturals"
named_theorems codec_simps "encoder and decoder equations used by round-trip proofs"

declare unat_word_ariths [word_nat] word_less_nat_alt [word_nat] word_le_nat_alt [word_nat]

lemma unat_drop_bit: "unat (drop_bit n w) = unat w div 2 ^ n"
  unfolding unat_drop_bit_eq by (simp add: drop_bit_eq_div)

text \<open>The overflow test \<^verbatim>\<open>x+y < x\<close> of the sources, and sums that pass it.\<close>

lemma word_add_overflow: "x + y < x \<longleftrightarrow> 2 ^ LENGTH('a) \<le> unat x + unat y" for x y :: "'a::len word"
proof (cases "unat x + unat y < 2 ^ LENGTH('a)")
  case True
  then have "unat (x + y) = unat x + unat y" by (simp add: unat_word_ariths)
  with True show ?thesis by (simp add: word_less_nat_alt)
next
  case False
  have xy: "unat x < 2 ^ LENGTH('a)" "unat y < 2 ^ LENGTH('a)" by (rule unsigned_less)+
  then have "unat x + unat y < 2 * 2 ^ LENGTH('a)" by linarith
  then have "unat (x + y) = unat x + unat y - 2 ^ LENGTH('a)"
    using False by (simp add: unat_word_ariths le_mod_geq not_less)
  then have "unat (x + y) < unat x" using False xy(2) by linarith
  with False show ?thesis by (simp add: word_less_nat_alt)
qed

lemma unat_add_no_overflow: "\<not> x + y < x \<Longrightarrow> unat (x + y) = unat x + unat y" for x y :: "'a::len word"
  by (simp add: word_add_overflow unat_word_ariths)

section \<open>Results\<close>

text \<open>
  A Go function that returns \<^verbatim>\<open>(T, error)\<close> is a function into \<open>'e + 'a\<close>: \<open>Inl\<close> is the
  error. \<open>rbind\<close> is the \<^verbatim>\<open>if err != nil { return err }\<close> idiom and \<open>ensure\<close> the guard
  \<^verbatim>\<open>if !cond { return err }\<close>.
\<close>

definition rbind :: "'e + 'a \<Rightarrow> ('a \<Rightarrow> 'e + 'b) \<Rightarrow> 'e + 'b" where
  "rbind m f = (case m of Inl e \<Rightarrow> Inl e | Inr x \<Rightarrow> f x)"

definition ensure :: "bool \<Rightarrow> 'e \<Rightarrow> 'e + unit" where
  "ensure c e = (if c then Inr () else Inl e)"

lemma rbind_simps [simp]:
  "rbind (Inl e) f = Inl e"
  "rbind (Inr x) f = f x"
  by (simp_all add: rbind_def)

lemma rbind_eq_Inr [simp]: "rbind m f = Inr y \<longleftrightarrow> (\<exists>x. m = Inr x \<and> f x = Inr y)"
  by (cases m) auto

lemma rbind_eq_Inl: "rbind m f = Inl e \<longleftrightarrow> m = Inl e \<or> (\<exists>x. m = Inr x \<and> f x = Inl e)"
  by (cases m) auto

lemma rbind_assoc: "rbind (rbind m f) g = rbind m (\<lambda>x. rbind (f x) g)"
  by (cases m) auto

lemma ensure_simps [simp]:
  "ensure True e = Inr ()"
  "ensure False e = Inl e"
  "ensure c e = Inr u \<longleftrightarrow> c"
  "ensure c e = Inl e' \<longleftrightarrow> \<not> c \<and> e = e'"
  by (auto simp: ensure_def)

lemma rbind_cong [fundef_cong]:
  "m = m' \<Longrightarrow> (\<And>x. m' = Inr x \<Longrightarrow> f x = f' x) \<Longrightarrow> rbind m f = rbind m' f'"
  by (cases m') auto

text \<open>\<^verbatim>\<open>fmt.Errorf\<close> around an error of a callee.\<close>

definition map_err :: "('e \<Rightarrow> 'f) \<Rightarrow> 'e + 'a \<Rightarrow> 'f + 'a" where
  "map_err f r = (case r of Inl e \<Rightarrow> Inl (f e) | Inr x \<Rightarrow> Inr x)"

lemma map_err_simps [simp]:
  "map_err f (Inl e) = Inl (f e)"
  "map_err f (Inr x) = Inr x"
  "map_err f r = Inr y \<longleftrightarrow> r = Inr y"
  by (auto simp: map_err_def split: sum.splits)

section \<open>Byte order\<close>

text \<open>
  \<open>put_le n w\<close> are the \<open>n\<close> low bytes of \<open>w\<close>, least significant first, and \<open>get_le\<close> reads
  them back; this is \<^verbatim>\<open>binary.LittleEndian\<close>. Big-endian is the reverse.
\<close>

primrec put_le :: "nat \<Rightarrow> 'a::len word \<Rightarrow> bytes" where
  "put_le 0 w = []"
| "put_le (Suc n) w = ucast w # put_le n (drop_bit 8 w)"

primrec get_le :: "bytes \<Rightarrow> 'a::len word" where
  "get_le [] = 0"
| "get_le (b # bs) = ucast b OR push_bit 8 (get_le bs)"

text \<open>The number a little-endian byte string denotes, without a width.\<close>

primrec le_nat :: "bytes \<Rightarrow> nat" where
  "le_nat [] = 0"
| "le_nat (b # bs) = unat b + 256 * le_nat bs"

lemma length_put_le [simp]: "length (put_le n w) = n"
  by (induction n arbitrary: w) simp_all

lemma put_le_eq_Nil [simp]: "put_le n w = [] \<longleftrightarrow> n = 0"
  by (cases n) simp_all

lemma bit_get_le:
  "bit (get_le bs :: 'a::len word) i \<longleftrightarrow> i < LENGTH('a) \<and> i < 8 * length bs \<and> bit (bs ! (i div 8)) (i mod 8)"
proof (induction bs arbitrary: i)
  case Nil
  show ?case by simp
next
  case (Cons b bs)
  show ?case
  proof (cases "i < 8")
    case True
    then show ?thesis by (auto simp: bit_or_iff bit_push_bit_iff bit_simps)
  next
    case False
    then have d: "i div 8 = Suc ((i - 8) div 8)" and m: "i mod 8 = (i - 8) mod 8"
      by (auto simp: le_div_geq le_mod_geq)
    from False have "\<not> bit b i"
      using bit_imp_le_length by fastforce
    with False show ?thesis
      by (auto simp: bit_or_iff bit_push_bit_iff bit_simps Cons.IH d m)
  qed
qed

lemma nth_put_le: "i < n \<Longrightarrow> put_le n w ! i = ucast (drop_bit (8 * i) w)"
  by (induction n arbitrary: w i) (auto simp: nth_Cons ac_simps split: nat.split)

lemma get_le_put_le [simp]:
  "LENGTH('a) \<le> 8 * n \<Longrightarrow> get_le (put_le n (w :: 'a::len word)) = w"
  by (rule bit_word_eqI)
    (auto simp: bit_get_le nth_put_le bit_ucast_iff bit_drop_bit_eq less_mult_imp_div_less
      mult.commute[of n 8])

lemma put_le_get_le [simp]:
  "8 * length bs \<le> LENGTH('a) \<Longrightarrow> put_le (length bs) (get_le bs :: 'a::len word) = bs"
proof (rule nth_equalityI, simp, rule bit_word_eqI)
  fix i n
  assume le: "8 * length bs \<le> LENGTH('a)"
    and i: "i < length (put_le (length bs) (get_le bs :: 'a word))" and n: "n < LENGTH(8)"
  then have "8 * i + n < LENGTH('a)" "8 * i + n < 8 * length bs"
    by auto
  with i n show "bit (put_le (length bs) (get_le bs :: 'a word) ! i) n = bit (bs ! i) n"
    by (simp add: nth_put_le bit_ucast_iff bit_drop_bit_eq bit_get_le)
qed

lemma byte_less [simp]: "unat (b :: byte) < 256"
  using unsigned_less [of b] by simp

lemma le_nat_less: "le_nat bs < 256 ^ length bs"
proof (induction bs)
  case (Cons b bs)
  have "unat b + 256 * le_nat bs < 256 * (le_nat bs + 1)" by simp
  also have "\<dots> \<le> 256 * 256 ^ length bs"
    using Cons by (intro mult_left_mono) simp_all
  finally show ?case by simp
qed simp

lemma le_nat_inj: "length bs = length cs \<Longrightarrow> le_nat bs = le_nat cs \<Longrightarrow> bs = cs"
proof (induction bs cs rule: list_induct2)
  case (Cons b bs c cs)
  from Cons.prems have "(unat b + 256 * le_nat bs) mod 256 = (unat c + 256 * le_nat cs) mod 256"
    by simp
  then have "unat b = unat c" by simp
  with Cons show ?case by (auto intro: unsigned_word_eqI [where ?'a = nat])
qed simp

lemma le_nat_append: "le_nat (bs @ cs) = le_nat bs + 256 ^ length bs * le_nat cs"
  by (induction bs) (simp_all add: algebra_simps)

lemma le_nat_zeros [simp]: "le_nat (bs @ replicate k 0) = le_nat bs"
proof -
  have "le_nat (replicate k 0) = 0" by (induction k) simp_all
  then show ?thesis by (simp add: le_nat_append)
qed

section \<open>Readers\<close>

text \<open>
  A reader takes the bytes that are left and gives a value and the rest, or an error.
  \<open>read_full n\<close> is \<^verbatim>\<open>io.ReadFull\<close> on a buffer of \<open>n\<close> bytes; \<open>read_n\<close> is the loop that
  decodes a known number of items.
\<close>

type_synonym ('e, 'a) reader = "bytes \<Rightarrow> 'e + ('a \<times> bytes)"

definition read_full :: "'e \<Rightarrow> nat \<Rightarrow> ('e, bytes) reader" where
  "read_full eof n bs = (if length bs < n then Inl eof else Inr (take n bs, drop n bs))"

primrec read_n :: "nat \<Rightarrow> ('e, 'a) reader \<Rightarrow> ('e, 'a list) reader" where
  "read_n 0 rd bs = Inr ([], bs)"
| "read_n (Suc n) rd bs =
     rbind (rd bs) (\<lambda>(x, bs'). rbind (read_n n rd bs') (\<lambda>(xs, bs''). Inr (x # xs, bs'')))"

lemma read_full_eq_Inr [simp]:
  "read_full eof n bs = Inr (x, rest) \<longleftrightarrow> length x = n \<and> bs = x @ rest"
  by (auto simp: read_full_def not_less)

lemma read_full_append [simp]: "length x = n \<Longrightarrow> read_full eof n (x @ rest) = Inr (x, rest)"
  by simp

end
