(* ===== verification/VarInt.thy ===== *)
theory VarInt
  imports Codec
begin

text \<open>
  The variable-length integers of \<^verbatim>\<open>internal/types/transaction.go\<close> (\<^verbatim>\<open>PutVarInt\<close>, \<^verbatim>\<open>ReadVarInt\<close>,
  \<^verbatim>\<open>ReadVarIntFromBytes\<close>, \<^verbatim>\<open>VarIntSize\<close>) and the two shapes the formats build with them: a counted
  sequence of items and a counted byte string, each with an upper limit on the count.
\<close>

section \<open>Definitions\<close>

definition PutVarInt :: "u64 \<Rightarrow> bytes" where
  "PutVarInt val =
     (if val < 0xFD then [ucast val]
      else if val \<le> 0xFFFF then 0xFD # put_le 2 (ucast val :: u16)
      else if val \<le> 0xFFFFFFFF then 0xFE # put_le 4 (ucast val :: u32)
      else 0xFF # put_le 8 val)"

definition ReadVarInt :: "(decode_error, u64) reader" where
  "ReadVarInt bs =
     (case bs of
        [] \<Rightarrow> Inl ErrShortRead
      | d # r \<Rightarrow>
          if d = 0xFD then rbind (read_u16 r) (\<lambda>(v, r').
            let val = (ucast v :: u64) in
            if val < 0xFD then Inl (ErrNonCanonicalVarInt val) else Inr (val, r'))
          else if d = 0xFE then rbind (read_u32 r) (\<lambda>(v, r').
            let val = (ucast v :: u64) in
            if val \<le> 0xFFFF then Inl (ErrNonCanonicalVarInt val) else Inr (val, r'))
          else if d = 0xFF then rbind (read_u64 r) (\<lambda>(val, r').
            if val \<le> 0xFFFFFFFF then Inl (ErrNonCanonicalVarInt val) else Inr (val, r'))
          else Inr (ucast d, r))"

definition ReadVarIntFromBytes :: "bytes \<Rightarrow> decode_error + u64" where
  "ReadVarIntFromBytes data =
     (case data of
        [] \<Rightarrow> Inl ErrEmptyVarInt
      | d # r \<Rightarrow>
          if d = 0xFD then
            if length data < 3 then Inl ErrVarIntTruncated
            else let val = (ucast (get_le (take 2 r) :: u16) :: u64) in
              if val < 0xFD then Inl (ErrNonCanonicalVarInt val) else Inr val
          else if d = 0xFE then
            if length data < 5 then Inl ErrVarIntTruncated
            else let val = (ucast (get_le (take 4 r) :: u32) :: u64) in
              if val \<le> 0xFFFF then Inl (ErrNonCanonicalVarInt val) else Inr val
          else if d = 0xFF then
            if length data < 9 then Inl ErrVarIntTruncated
            else let val = (get_le (take 8 r) :: u64) in
              if val \<le> 0xFFFFFFFF then Inl (ErrNonCanonicalVarInt val) else Inr val
          else Inr (ucast d))"

definition VarIntSize :: "u64 \<Rightarrow> nat" where
  "VarIntSize val =
     (if val < 0xFD then 1 else if val \<le> 0xFFFF then 3 else if val \<le> 0xFFFFFFFF then 5 else 9)"

text \<open>
  A sequence is written as its count and its items; the decoders read the count, refuse one
  above their limit, and then read that many items.
\<close>

definition enc_counted :: "('a \<Rightarrow> bytes) \<Rightarrow> 'a list \<Rightarrow> bytes" where
  "enc_counted enc xs = PutVarInt (of_nat (length xs)) @ concat (map enc xs)"

definition dec_counted ::
  "u64 \<Rightarrow> (u64 \<Rightarrow> decode_error) \<Rightarrow> (decode_error, 'a) reader \<Rightarrow> (decode_error, 'a list) reader" where
  "dec_counted limit err rd bs =
     rbind (ReadVarInt bs) (\<lambda>(n, r). if n > limit then Inl (err n) else read_n (unat n) rd r)"

definition enc_varbytes :: "bytes \<Rightarrow> bytes" where
  "enc_varbytes bs = PutVarInt (of_nat (length bs)) @ bs"

definition dec_varbytes :: "u64 \<Rightarrow> (u64 \<Rightarrow> decode_error) \<Rightarrow> (decode_error, bytes) reader" where
  "dec_varbytes limit err bs =
     rbind (ReadVarInt bs) (\<lambda>(n, r). if n > limit then Inl (err n)
       else read_full ErrShortRead (unat n) r)"

section \<open>Truncation and extension of words\<close>

lemma ucast_up_down_u16: "val \<le> 0xFFFF \<Longrightarrow> ucast (ucast (val :: u64) :: u16) = val"
  by (simp add: word_unat_eq_iff unsigned_ucast_eq unsigned_take_bit_eq take_bit_nat_eq_self word_le_nat_alt)

lemma ucast_up_down_u32: "val \<le> 0xFFFFFFFF \<Longrightarrow> ucast (ucast (val :: u64) :: u32) = val"
  by (simp add: word_unat_eq_iff unsigned_ucast_eq unsigned_take_bit_eq take_bit_nat_eq_self word_le_nat_alt)

lemma ucast_up_down_u8: "val < 0xFD \<Longrightarrow> ucast (ucast (val :: u64) :: byte) = val"
  by (simp add: word_unat_eq_iff unsigned_ucast_eq unsigned_take_bit_eq take_bit_nat_eq_self word_less_nat_alt)

lemma ucast_small_byte: "val < 0xFD \<Longrightarrow> (ucast (val :: u64) :: byte) < 0xFD"
  by (simp add: unsigned_ucast_eq unsigned_take_bit_eq take_bit_nat_eq_self word_less_nat_alt)

lemma ucast_down_up:
  "ucast (ucast (b :: byte) :: u64) = b"
  "ucast (ucast (v :: u16) :: u64) = v"
  "ucast (ucast (w :: u32) :: u64) = w"
  by (simp_all add: word_unat_eq_iff unsigned_ucast_eq unsigned_take_bit_eq take_bit_word_eq_self)

lemma ucast_u16_le: "(ucast (v :: u16) :: u64) \<le> 0xFFFF"
  using unsigned_less [of v, where ?'a = nat]
  by (simp add: word_le_nat_alt unsigned_ucast_eq unsigned_take_bit_eq take_bit_nat_eq_self)

lemma ucast_u32_le: "(ucast (v :: u32) :: u64) \<le> 0xFFFFFFFF"
  using unsigned_less [of v, where ?'a = nat]
  by (simp add: word_le_nat_alt unsigned_ucast_eq unsigned_take_bit_eq take_bit_nat_eq_self)

section \<open>Round trips\<close>

lemma VarIntSize_length: "VarIntSize val = length (PutVarInt val)"
  by (simp add: VarIntSize_def PutVarInt_def)

lemma ReadVarInt_PutVarInt: "ReadVarInt (PutVarInt val @ rest) = Inr (val, rest)"
proof -
  have e: "read_u16 (put_le 2 v @ rest) = Inr (v, rest)"
    "read_u32 (put_le 4 w @ rest) = Inr (w, rest)"
    "read_u64 (put_le 8 val @ rest) = Inr (val, rest)" for v w
    by (simp_all add: u16_codec.dec_enc u32_codec.dec_enc u64_codec.dec_enc)
  consider "val < 0xFD" | "0xFD \<le> val" "val \<le> 0xFFFF" | "0xFFFF < val" "val \<le> 0xFFFFFFFF"
    | "0xFFFFFFFF < val" by fastforce
  then show ?thesis
  proof cases
    case 1
    then have "ucast val \<noteq> (0xFD :: byte)" "ucast val \<noteq> (0xFE :: byte)" "ucast val \<noteq> (0xFF :: byte)"
      using ucast_small_byte [OF 1] by auto
    with 1 show ?thesis by (simp add: PutVarInt_def ReadVarInt_def ucast_up_down_u8)
  next
    case 2
    then have "\<not> val < 0xFD" by simp
    with 2 show ?thesis
      by (simp add: PutVarInt_def ReadVarInt_def e ucast_up_down_u16 Let_def)
  next
    case 3
    then have "\<not> val < 0xFD" "\<not> val \<le> 0xFFFF"
      by (simp_all add: word_less_nat_alt word_le_nat_alt)
    with 3 show ?thesis
      by (simp add: PutVarInt_def ReadVarInt_def e ucast_up_down_u32 Let_def)
  next
    case 4
    then have "\<not> val < 0xFD" "\<not> val \<le> 0xFFFF" "\<not> val \<le> 0xFFFFFFFF"
      by (simp_all add: word_less_nat_alt word_le_nat_alt)
    then show ?thesis
      by (simp add: PutVarInt_def ReadVarInt_def e)
  qed
qed

lemma PutVarInt_forms:
  "0xFD \<le> (ucast v :: u64) \<Longrightarrow> PutVarInt (ucast (v :: u16)) = 0xFD # put_le 2 v"
  "0xFFFF < (ucast w :: u64) \<Longrightarrow> PutVarInt (ucast (w :: u32)) = 0xFE # put_le 4 w"
  "0xFFFFFFFF < x \<Longrightarrow> PutVarInt x = 0xFF # put_le 8 x"
  using ucast_u16_le [of v] ucast_u32_le [of w]
  by (auto simp: PutVarInt_def not_less not_le word_less_nat_alt word_le_nat_alt ucast_down_up)

lemma PutVarInt_byte:
  assumes "d \<noteq> 0xFD" "d \<noteq> 0xFE" "d \<noteq> (0xFF :: byte)"
  shows "PutVarInt (ucast d) = [d]"
proof -
  have "unat d \<noteq> 253" "unat d \<noteq> 254" "unat d \<noteq> 255"
    using assms by (simp_all add: word_unat_eq_iff)
  then have "unat d < 253" using byte_less [of d] by linarith
  then show ?thesis
    by (simp add: PutVarInt_def word_less_nat_alt ucast_down_up unsigned_ucast_eq
        unsigned_take_bit_eq take_bit_nat_eq_self)
qed

lemma ReadVarInt_sound: "ReadVarInt bs = Inr (val, rest) \<Longrightarrow> bs = PutVarInt val @ rest"
  by (auto simp: ReadVarInt_def Let_def PutVarInt_byte PutVarInt_forms not_less not_le
      u16_codec.dec_iff u32_codec.dec_iff u64_codec.dec_iff
      split: list.splits if_splits)

interpretation varint_codec: codec PutVarInt ReadVarInt "\<lambda>_. True"
  by unfold_locales (simp_all add: ReadVarInt_PutVarInt ReadVarInt_sound)

lemma PutVarInt_nonempty [simp]: "PutVarInt v \<noteq> []" "0 < length (PutVarInt v)"
  by (auto simp: PutVarInt_def)

text \<open>\<open>ReadVarIntFromBytes\<close> reads the same integers from a slice and does not say how many bytes it used.\<close>

lemma ReadVarIntFromBytes_ReadVarInt:
  "(ReadVarIntFromBytes data = Inr v) \<longleftrightarrow> (\<exists>rest. ReadVarInt data = Inr (v, rest))"
  by (auto simp: ReadVarIntFromBytes_def ReadVarInt_def Let_def read_u16_def read_u32_def
      read_u64_def read_full_def split: list.splits if_splits prod.splits)

lemma ReadVarIntFromBytes_iff:
  "ReadVarIntFromBytes data = Inr v \<longleftrightarrow> (\<exists>rest. data = PutVarInt v @ rest)"
  by (simp add: ReadVarIntFromBytes_ReadVarInt varint_codec.dec_iff)

section \<open>Counted sequences keep the contract\<close>

lemma of_nat_le_unat: "n \<le> unat (limit :: u64) \<Longrightarrow> unat (of_nat n :: u64) = n"
  using unsigned_less [of limit, where ?'a = nat]
  by (simp add: unat_of_nat)

lemma of_nat_not_above: "n \<le> unat (limit :: u64) \<Longrightarrow> \<not> limit < (of_nat n :: u64)"
  by (simp add: word_less_nat_alt of_nat_le_unat)

context codec
begin

lemma counted:
  "codec (enc_counted enc) (dec_counted limit err dec)
     (\<lambda>xs. length xs \<le> unat limit \<and> (\<forall>x \<in> set xs. ok x))"
proof unfold_locales
  fix xs rest
  assume "length xs \<le> unat limit \<and> (\<forall>x \<in> set xs. ok x)"
  with of_nat_le_unat [of "length xs" limit] show "dec_counted limit err dec (enc_counted enc xs @ rest) = Inr (xs, rest)"
    by (simp add: dec_counted_def enc_counted_def ReadVarInt_PutVarInt of_nat_not_above
        read_n_iff)
next
  fix bs xs rest
  assume "dec_counted limit err dec bs = Inr (xs, rest)"
  then show "(length xs \<le> unat limit \<and> (\<forall>x \<in> set xs. ok x)) \<and> bs = enc_counted enc xs @ rest"
    by (auto simp: dec_counted_def enc_counted_def varint_codec.dec_iff read_n_iff
        word_less_nat_alt split: if_splits)
qed

end

lemma varbytes: "codec enc_varbytes (dec_varbytes limit err) (\<lambda>bs. length bs \<le> unat limit)"
proof unfold_locales
  fix xs rest :: bytes
  assume "length xs \<le> unat limit"
  with of_nat_le_unat [of "length xs" limit] show "dec_varbytes limit err (enc_varbytes xs @ rest) = Inr (xs, rest)"
    by (simp add: dec_varbytes_def enc_varbytes_def ReadVarInt_PutVarInt of_nat_not_above)
next
  fix bs xs rest :: bytes
  assume "dec_varbytes limit err bs = Inr (xs, rest)"
  then show "length xs \<le> unat limit \<and> bs = enc_varbytes xs @ rest"
    by (auto simp: dec_varbytes_def enc_varbytes_def varint_codec.dec_iff
        word_less_nat_alt split: if_splits)
qed

end
