(* ===== verification/Types.thy ===== *)
theory Types
  imports VarInt
begin

text \<open>
  The data model and canonical serialisation of \<^verbatim>\<open>internal/types\<close>: hashes (\<^verbatim>\<open>hash.go\<close>),
  transactions (\<^verbatim>\<open>transaction.go\<close>) and blocks (\<^verbatim>\<open>block.go\<close>). A Go struct is a record whose fields
  carry the struct's field names behind a short prefix; \<^verbatim>\<open>[32]byte\<close> is a type of byte lists of
  length 32. Every serialiser is shown to keep the contract of \<^theory_text>\<open>codec\<close>.
\<close>

section \<open>Hashes\<close>

abbreviation (input) HashSize :: nat where "HashSize \<equiv> 32"

typedef hash = "{bs :: bytes. length bs = 32}"
  morphisms hash_bytes Hash
proof
  show "replicate 32 0 \<in> {bs :: bytes. length bs = 32}" by simp
qed

text \<open>\<^verbatim>\<open>var h Hash; copy(h[:], b)\<close>: copy at most 32 bytes over a zeroed array.\<close>

definition hash_copy :: "bytes \<Rightarrow> hash" where
  "hash_copy b = Hash (take 32 (b @ replicate 32 0))"

lemma Hash_hash_bytes [code abstype]: "Hash (hash_bytes h) = h"
  by (fact hash_bytes_inverse)

lemma hash_bytes_copy [code abstract]: "hash_bytes (hash_copy b) = take 32 (b @ replicate 32 0)"
  by (simp add: hash_copy_def Hash_inverse)

definition ZeroHash :: hash where
  "ZeroHash = hash_copy []"

datatype hash_error = HashLengthPanic nat | InvalidHex | HexHashLength nat

definition HashFromBytes :: "bytes \<Rightarrow> hash_error + hash" where
  "HashFromBytes b =
     (if length b \<noteq> HashSize then Inl (HashLengthPanic (length b)) else Inr (hash_copy b))"

definition Hash_IsZero :: "hash \<Rightarrow> bool" where
  "Hash_IsZero h \<longleftrightarrow> h = ZeroHash"

text \<open>\<open>hash_less_at (Suc i)\<close> is the comparison loop of \<^verbatim>\<open>Less\<close> entered at index \<open>i\<close> and run down to 0.\<close>

primrec hash_less_at :: "nat \<Rightarrow> bytes \<Rightarrow> bytes \<Rightarrow> bool" where
  "hash_less_at 0 a b = False"
| "hash_less_at (Suc i) a b =
     (if a ! i < b ! i then True else if a ! i > b ! i then False else hash_less_at i a b)"

definition Hash_Less :: "hash \<Rightarrow> hash \<Rightarrow> bool" where
  "Hash_Less h other = hash_less_at HashSize (hash_bytes h) (hash_bytes other)"

definition Hash_LessOrEqual :: "hash \<Rightarrow> hash \<Rightarrow> bool" where
  "Hash_LessOrEqual h other \<longleftrightarrow> h = other \<or> Hash_Less h other"

text \<open>
  Hexadecimal text (\<^verbatim>\<open>encoding/hex\<close>): two lower-case digits per byte when printed, either case
  when parsed.
\<close>

definition hex_digit :: "nat \<Rightarrow> char" where
  "hex_digit n = ''0123456789abcdef'' ! n"

definition hex_value :: "char \<Rightarrow> nat option" where
  "hex_value = map_of (zip ''0123456789abcdefABCDEF'' ([0..<16] @ [10..<16]))"

definition hex_encode :: "bytes \<Rightarrow> string" where
  "hex_encode bs = concat (map (\<lambda>b. [hex_digit (unat b div 16), hex_digit (unat b mod 16)]) bs)"

fun hex_decode :: "string \<Rightarrow> bytes option" where
  "hex_decode [] = Some []"
| "hex_decode [c] = None"
| "hex_decode (c # d # cs) =
     (case (hex_value c, hex_value d, hex_decode cs) of
        (Some x, Some y, Some bs) \<Rightarrow> Some (of_nat (16 * x + y) # bs)
      | _ \<Rightarrow> None)"

definition HashFromHex :: "string \<Rightarrow> hash_error + hash" where
  "HashFromHex s =
     (case hex_decode s of
        None \<Rightarrow> Inl InvalidHex
      | Some b \<Rightarrow> if length b \<noteq> HashSize then Inl (HexHashLength (length b)) else HashFromBytes b)"

definition HashFromReverseHex :: "string \<Rightarrow> hash_error + hash" where
  "HashFromReverseHex s =
     (case hex_decode s of
        None \<Rightarrow> Inl InvalidHex
      | Some b \<Rightarrow> if length b \<noteq> HashSize then Inl (HexHashLength (length b))
                  else HashFromBytes (rev b))"

definition Hash_String :: "hash \<Rightarrow> string" where
  "Hash_String h = hex_encode (hash_bytes h)"

definition Hash_ReverseString :: "hash \<Rightarrow> string" where
  "Hash_ReverseString h = hex_encode (rev (hash_bytes h))"

definition read_hash :: "(decode_error, hash) reader" where
  "read_hash bs = rbind (read_full ErrShortRead HashSize bs) (\<lambda>(b, r). Inr (hash_copy b, r))"

section \<open>Transactions\<close>

record OutPoint =
  op_Hash :: hash
  op_Index :: u32

record TxInput =
  in_PreviousOutPoint :: OutPoint
  in_SignatureScript :: bytes
  in_Sequence :: u32

record TxOutput =
  out_Value :: u64
  out_PkScript :: bytes

record Transaction =
  tx_Version :: u32
  tx_Inputs :: "TxInput list"
  tx_Outputs :: "TxOutput list"
  tx_LockTime :: u32

definition CoinbaseOutPoint :: OutPoint where
  "CoinbaseOutPoint = \<lparr>op_Hash = ZeroHash, op_Index = 0xFFFFFFFF\<rparr>"

definition TxInput_IsCoinbase :: "TxInput \<Rightarrow> bool" where
  "TxInput_IsCoinbase i \<longleftrightarrow>
     Hash_IsZero (op_Hash (in_PreviousOutPoint i)) \<and> op_Index (in_PreviousOutPoint i) = 0xFFFFFFFF"

definition Transaction_IsCoinbase :: "Transaction \<Rightarrow> bool" where
  "Transaction_IsCoinbase tx \<longleftrightarrow>
     length (tx_Inputs tx) = 1 \<and> TxInput_IsCoinbase (tx_Inputs tx ! 0)"

abbreviation (input) MaxTxInputs :: u64 where "MaxTxInputs \<equiv> 10000"
abbreviation (input) MaxTxOutputs :: u64 where "MaxTxOutputs \<equiv> 10000"
abbreviation (input) MaxScriptSize :: u64 where "MaxScriptSize \<equiv> 10000"
abbreviation (input) MaxBlockTxCount :: u64 where "MaxBlockTxCount \<equiv> 50000"

definition TxInput_Serialize :: "TxInput \<Rightarrow> bytes" where
  "TxInput_Serialize i =
     hash_bytes (op_Hash (in_PreviousOutPoint i)) @ put_le 4 (op_Index (in_PreviousOutPoint i))
     @ enc_varbytes (in_SignatureScript i) @ put_le 4 (in_Sequence i)"

definition TxOutput_Serialize :: "TxOutput \<Rightarrow> bytes" where
  "TxOutput_Serialize out = put_le 8 (out_Value out) @ enc_varbytes (out_PkScript out)"

definition Transaction_Serialize :: "Transaction \<Rightarrow> bytes" where
  "Transaction_Serialize tx =
     put_le 4 (tx_Version tx) @ enc_counted TxInput_Serialize (tx_Inputs tx)
     @ enc_counted TxOutput_Serialize (tx_Outputs tx) @ put_le 4 (tx_LockTime tx)"

definition TxInput_Deserialize :: "(decode_error, TxInput) reader" where
  "TxInput_Deserialize bs =
     rbind (read_hash bs) (\<lambda>(h, bs).
     rbind (read_u32 bs) (\<lambda>(i, bs).
     rbind (dec_varbytes MaxScriptSize ErrSignatureScriptSize bs) (\<lambda>(s, bs).
     rbind (read_u32 bs) (\<lambda>(q, bs).
       Inr (\<lparr>in_PreviousOutPoint = \<lparr>op_Hash = h, op_Index = i\<rparr>,
             in_SignatureScript = s, in_Sequence = q\<rparr>, bs)))))"

definition TxOutput_Deserialize :: "(decode_error, TxOutput) reader" where
  "TxOutput_Deserialize bs =
     rbind (read_u64 bs) (\<lambda>(v, bs).
     rbind (dec_varbytes MaxScriptSize ErrPkScriptSize bs) (\<lambda>(s, bs).
       Inr (\<lparr>out_Value = v, out_PkScript = s\<rparr>, bs)))"

definition Transaction_Deserialize :: "(decode_error, Transaction) reader" where
  "Transaction_Deserialize bs =
     rbind (read_u32 bs) (\<lambda>(v, bs).
     rbind (dec_counted MaxTxInputs ErrTooManyInputs TxInput_Deserialize bs) (\<lambda>(ins, bs).
     rbind (dec_counted MaxTxOutputs ErrTooManyOutputs TxOutput_Deserialize bs) (\<lambda>(outs, bs).
     rbind (read_u32 bs) (\<lambda>(l, bs).
       Inr (\<lparr>tx_Version = v, tx_Inputs = ins, tx_Outputs = outs, tx_LockTime = l\<rparr>, bs)))))"

definition TxInput_SerializeSize :: "TxInput \<Rightarrow> nat" where
  "TxInput_SerializeSize i =
     36 + VarIntSize (of_nat (length (in_SignatureScript i))) + length (in_SignatureScript i) + 4"

definition TxOutput_SerializeSize :: "TxOutput \<Rightarrow> nat" where
  "TxOutput_SerializeSize out =
     8 + VarIntSize (of_nat (length (out_PkScript out))) + length (out_PkScript out)"

definition Transaction_SerializeSize :: "Transaction \<Rightarrow> nat" where
  "Transaction_SerializeSize tx =
     (let n = 4 + VarIntSize (of_nat (length (tx_Inputs tx)));
          n = foldl (\<lambda>n i. n + TxInput_SerializeSize i) n (tx_Inputs tx);
          n = n + VarIntSize (of_nat (length (tx_Outputs tx)));
          n = foldl (\<lambda>n out. n + TxOutput_SerializeSize out) n (tx_Outputs tx)
      in n + 4)"

section \<open>Blocks\<close>

abbreviation (input) BlockHeaderSize :: nat where "BlockHeaderSize \<equiv> 80"

record BlockHeader =
  hdr_Version :: u32
  hdr_PrevBlock :: hash
  hdr_MerkleRoot :: hash
  hdr_Timestamp :: u32
  hdr_Bits :: u32
  hdr_Nonce :: u32

record Block =
  blk_Header :: BlockHeader
  blk_Transactions :: "Transaction list"

definition BlockHeader_Serialize :: "BlockHeader \<Rightarrow> bytes" where
  "BlockHeader_Serialize h =
     put_le 4 (hdr_Version h) @ hash_bytes (hdr_PrevBlock h) @ hash_bytes (hdr_MerkleRoot h)
     @ put_le 4 (hdr_Timestamp h) @ put_le 4 (hdr_Bits h) @ put_le 4 (hdr_Nonce h)"

definition BlockHeader_Deserialize :: "(decode_error, BlockHeader) reader" where
  "BlockHeader_Deserialize bs =
     rbind (read_full ErrShortRead BlockHeaderSize bs) (\<lambda>(buf, bs).
       Inr (\<lparr>hdr_Version = get_le (take 4 buf),
             hdr_PrevBlock = hash_copy (take 32 (drop 4 buf)),
             hdr_MerkleRoot = hash_copy (take 32 (drop 36 buf)),
             hdr_Timestamp = get_le (take 4 (drop 68 buf)),
             hdr_Bits = get_le (take 4 (drop 72 buf)),
             hdr_Nonce = get_le (take 4 (drop 76 buf))\<rparr>, bs))"

definition Block_Serialize :: "Block \<Rightarrow> bytes" where
  "Block_Serialize b =
     BlockHeader_Serialize (blk_Header b) @ enc_counted Transaction_Serialize (blk_Transactions b)"

definition Block_Deserialize :: "(decode_error, Block) reader" where
  "Block_Deserialize bs =
     rbind (BlockHeader_Deserialize bs) (\<lambda>(h, bs).
     rbind (dec_counted MaxBlockTxCount ErrTooManyTransactions Transaction_Deserialize bs) (\<lambda>(txs, bs).
       Inr (\<lparr>blk_Header = h, blk_Transactions = txs\<rparr>, bs)))"

section \<open>What the decoders accept\<close>

definition TxInput_ok :: "TxInput \<Rightarrow> bool" where
  "TxInput_ok i \<longleftrightarrow> length (in_SignatureScript i) \<le> 10000"

definition TxOutput_ok :: "TxOutput \<Rightarrow> bool" where
  "TxOutput_ok out \<longleftrightarrow> length (out_PkScript out) \<le> 10000"

definition Transaction_ok :: "Transaction \<Rightarrow> bool" where
  "Transaction_ok tx \<longleftrightarrow>
     length (tx_Inputs tx) \<le> 10000 \<and> list_all TxInput_ok (tx_Inputs tx) \<and>
     length (tx_Outputs tx) \<le> 10000 \<and> list_all TxOutput_ok (tx_Outputs tx)"

definition Block_ok :: "Block \<Rightarrow> bool" where
  "Block_ok b \<longleftrightarrow>
     length (blk_Transactions b) \<le> 50000 \<and> list_all Transaction_ok (blk_Transactions b)"

section \<open>Hashes as numbers\<close>

lemma length_hash_bytes [simp]: "length (hash_bytes h) = 32"
  using hash_bytes [of h] by simp

lemma hash_bytes_hash_copy: "length b = 32 \<Longrightarrow> hash_bytes (hash_copy b) = b"
  by (simp add: hash_bytes_copy)

lemma hash_copy_hash_bytes [simp]: "hash_copy (hash_bytes h) = h"
  by (simp add: hash_bytes_inject [symmetric] hash_bytes_hash_copy)

lemma hash_eq_iff: "h = k \<longleftrightarrow> hash_bytes h = hash_bytes k"
  by (simp add: hash_bytes_inject)

definition hash_nat :: "hash \<Rightarrow> nat" where
  "hash_nat h = le_nat (hash_bytes h)"

lemma hash_nat_inject [simp]: "hash_nat h = hash_nat k \<longleftrightarrow> h = k"
  by (auto simp: hash_nat_def hash_eq_iff intro: le_nat_inj)

lemma le_nat_take_Suc:
  "i < length a \<Longrightarrow> le_nat (take (Suc i) a) = le_nat (take i a) + 256 ^ i * unat (a ! i)"
  by (simp add: take_Suc_conv_app_nth le_nat_append)

lemma hash_less_at_iff:
  "n \<le> length a \<Longrightarrow> n \<le> length b \<Longrightarrow>
     hash_less_at n a b \<longleftrightarrow> le_nat (take n a) < le_nat (take n b)"
proof (induction n)
  case (Suc i)
  have lt: "le_nat (take i a) < 256 ^ i" "le_nat (take i b) < 256 ^ i"
    using Suc.prems le_nat_less [of "take i a"] le_nat_less [of "take i b"] by (simp_all add: min_def)
  have gap: "x + 256 ^ i * p < y + 256 ^ i * q" if "p < q" "x < 256 ^ i" for x y p q :: nat
  proof -
    have "x + 256 ^ i * p < 256 ^ i * Suc p" using that by simp
    also have "\<dots> \<le> 256 ^ i * q" using that by (intro mult_left_mono) auto
    finally show ?thesis by simp
  qed
  show ?case
    using Suc gap [of "unat (a ! i)" "unat (b ! i)"] gap [of "unat (b ! i)" "unat (a ! i)"] lt
    by (auto simp: le_nat_take_Suc word_less_nat_alt word_unat_eq_iff not_less
        dest: le_antisym intro: less_imp_le)
qed simp

lemma Hash_Less_nat: "Hash_Less h k \<longleftrightarrow> hash_nat h < hash_nat k"
  by (simp add: Hash_Less_def hash_less_at_iff hash_nat_def)

lemma Hash_LessOrEqual_nat: "Hash_LessOrEqual h k \<longleftrightarrow> hash_nat h \<le> hash_nat k"
  by (auto simp: Hash_LessOrEqual_def Hash_Less_nat le_less)

instantiation hash :: linorder
begin

definition less_eq_hash :: "hash \<Rightarrow> hash \<Rightarrow> bool" where
  "less_eq_hash h k = Hash_LessOrEqual h k"

definition less_hash :: "hash \<Rightarrow> hash \<Rightarrow> bool" where
  "less_hash h k = Hash_Less h k"

instance
  by standard (auto simp: less_eq_hash_def less_hash_def Hash_LessOrEqual_nat Hash_Less_nat)

end

instantiation hash :: equal
begin

definition equal_hash :: "hash \<Rightarrow> hash \<Rightarrow> bool" where
  "equal_hash h k \<longleftrightarrow> hash_bytes h = hash_bytes k"

instance
  by standard (simp add: equal_hash_def hash_bytes_inject)

end

section \<open>Serialisation keeps the contract\<close>

interpretation hash_codec: codec hash_bytes read_hash "\<lambda>_. True"
  by unfold_locales (auto simp: read_hash_def hash_bytes_hash_copy)

interpretation sigscript_codec: codec enc_varbytes "dec_varbytes MaxScriptSize ErrSignatureScriptSize"
  "\<lambda>bs. length bs \<le> unat MaxScriptSize"
  by (rule varbytes)

interpretation pkscript_codec: codec enc_varbytes "dec_varbytes MaxScriptSize ErrPkScriptSize"
  "\<lambda>bs. length bs \<le> unat MaxScriptSize"
  by (rule varbytes)

lemmas leaf_dec_iff = hash_codec.dec_iff u32_codec.dec_iff u64_codec.dec_iff varint_codec.dec_iff
  sigscript_codec.dec_iff pkscript_codec.dec_iff

interpretation txin_codec: codec TxInput_Serialize TxInput_Deserialize TxInput_ok
proof unfold_locales
  fix i rest
  assume "TxInput_ok i"
  then show "TxInput_Deserialize (TxInput_Serialize i @ rest) = Inr (i, rest)"
    by (simp add: TxInput_Deserialize_def TxInput_Serialize_def TxInput_ok_def hash_codec.dec_enc
        u32_codec.dec_enc sigscript_codec.dec_enc)
next
  fix bs i rest
  assume "TxInput_Deserialize bs = Inr (i, rest)"
  then show "TxInput_ok i \<and> bs = TxInput_Serialize i @ rest"
    by (auto simp: TxInput_Deserialize_def TxInput_Serialize_def TxInput_ok_def leaf_dec_iff)
qed

interpretation txout_codec: codec TxOutput_Serialize TxOutput_Deserialize TxOutput_ok
proof unfold_locales
  fix out rest
  assume "TxOutput_ok out"
  then show "TxOutput_Deserialize (TxOutput_Serialize out @ rest) = Inr (out, rest)"
    by (simp add: TxOutput_Deserialize_def TxOutput_Serialize_def TxOutput_ok_def
        u64_codec.dec_enc pkscript_codec.dec_enc)
next
  fix bs out rest
  assume "TxOutput_Deserialize bs = Inr (out, rest)"
  then show "TxOutput_ok out \<and> bs = TxOutput_Serialize out @ rest"
    by (auto simp: TxOutput_Deserialize_def TxOutput_Serialize_def TxOutput_ok_def leaf_dec_iff)
qed

interpretation txins_codec: codec "enc_counted TxInput_Serialize"
  "dec_counted MaxTxInputs ErrTooManyInputs TxInput_Deserialize"
  "\<lambda>xs. length xs \<le> unat MaxTxInputs \<and> (\<forall>x \<in> set xs. TxInput_ok x)"
  by (rule txin_codec.counted)

interpretation txouts_codec: codec "enc_counted TxOutput_Serialize"
  "dec_counted MaxTxOutputs ErrTooManyOutputs TxOutput_Deserialize"
  "\<lambda>xs. length xs \<le> unat MaxTxOutputs \<and> (\<forall>x \<in> set xs. TxOutput_ok x)"
  by (rule txout_codec.counted)

interpretation tx_codec: codec Transaction_Serialize Transaction_Deserialize Transaction_ok
proof unfold_locales
  fix tx rest
  assume "Transaction_ok tx"
  then show "Transaction_Deserialize (Transaction_Serialize tx @ rest) = Inr (tx, rest)"
    by (simp add: Transaction_Deserialize_def Transaction_Serialize_def Transaction_ok_def list_all_iff
        u32_codec.dec_enc txins_codec.dec_enc txouts_codec.dec_enc)
next
  fix bs tx rest
  assume "Transaction_Deserialize bs = Inr (tx, rest)"
  then show "Transaction_ok tx \<and> bs = Transaction_Serialize tx @ rest"
    by (auto simp: Transaction_Deserialize_def Transaction_Serialize_def Transaction_ok_def list_all_iff
        u32_codec.dec_iff txins_codec.dec_iff txouts_codec.dec_iff)
qed

lemma length_BlockHeader_Serialize [simp]: "length (BlockHeader_Serialize h) = 80"
  by (simp add: BlockHeader_Serialize_def)

lemma drop_split: "drop k xs = take n (drop k xs) @ drop (n + k) xs"
  by (metis append_take_drop_id drop_drop)

lemma header_slices:
  assumes "length buf = 80"
  shows "buf = take 4 buf @ take 32 (drop 4 buf) @ take 32 (drop 36 buf) @ take 4 (drop 68 buf)
    @ take 4 (drop 72 buf) @ take 4 (drop 76 buf)"
  using drop_split [of 0 buf 4] drop_split [of 4 buf 32] drop_split [of 36 buf 32]
    drop_split [of 68 buf 4] drop_split [of 72 buf 4] drop_split [of 76 buf 4] assms
  by simp

interpretation header_codec: codec BlockHeader_Serialize BlockHeader_Deserialize "\<lambda>_. True"
proof unfold_locales
  fix h rest
  have "read_full ErrShortRead 80 (BlockHeader_Serialize h @ rest) = Inr (BlockHeader_Serialize h, rest)"
    by simp
  then show "BlockHeader_Deserialize (BlockHeader_Serialize h @ rest) = Inr (h, rest)"
    unfolding BlockHeader_Deserialize_def by (simp add: BlockHeader_Serialize_def)
next
  fix bs h rest
  assume "BlockHeader_Deserialize bs = Inr (h, rest)"
  then obtain buf where buf: "length buf = 80" "bs = buf @ rest" and h:
    "h = \<lparr>hdr_Version = get_le (take 4 buf),
          hdr_PrevBlock = hash_copy (take 32 (drop 4 buf)),
          hdr_MerkleRoot = hash_copy (take 32 (drop 36 buf)),
          hdr_Timestamp = get_le (take 4 (drop 68 buf)),
          hdr_Bits = get_le (take 4 (drop 72 buf)),
          hdr_Nonce = get_le (take 4 (drop 76 buf))\<rparr>"
    by (auto simp: BlockHeader_Deserialize_def)
  have "BlockHeader_Serialize h = buf"
    using header_slices [OF buf(1)] buf(1)
    by (simp add: h BlockHeader_Serialize_def hash_bytes_hash_copy put_le_get_le_len)
  with buf show "True \<and> bs = BlockHeader_Serialize h @ rest" by simp
qed

interpretation txs_codec: codec "enc_counted Transaction_Serialize"
  "dec_counted MaxBlockTxCount ErrTooManyTransactions Transaction_Deserialize"
  "\<lambda>xs. length xs \<le> unat MaxBlockTxCount \<and> (\<forall>x \<in> set xs. Transaction_ok x)"
  by (rule tx_codec.counted)

interpretation block_codec: codec Block_Serialize Block_Deserialize Block_ok
proof unfold_locales
  fix b rest
  assume "Block_ok b"
  then show "Block_Deserialize (Block_Serialize b @ rest) = Inr (b, rest)"
    by (simp add: Block_Deserialize_def Block_Serialize_def Block_ok_def list_all_iff
        header_codec.dec_enc txs_codec.dec_enc)
next
  fix bs b rest
  assume "Block_Deserialize bs = Inr (b, rest)"
  then show "Block_ok b \<and> bs = Block_Serialize b @ rest"
    by (auto simp: Block_Deserialize_def Block_Serialize_def Block_ok_def list_all_iff
        header_codec.dec_iff txs_codec.dec_iff)
qed

section \<open>Sizes\<close>

lemma length_enc_varbytes: "length (enc_varbytes bs) = VarIntSize (of_nat (length bs)) + length bs"
  by (simp add: enc_varbytes_def VarIntSize_length)

lemma TxInput_SerializeSize_length: "TxInput_SerializeSize i = length (TxInput_Serialize i)"
  by (simp add: TxInput_SerializeSize_def TxInput_Serialize_def length_enc_varbytes)

lemma TxOutput_SerializeSize_length: "TxOutput_SerializeSize out = length (TxOutput_Serialize out)"
  by (simp add: TxOutput_SerializeSize_def TxOutput_Serialize_def length_enc_varbytes)

lemma foldl_add_length: "foldl (\<lambda>n x. n + f x) n xs = n + sum_list (map f xs)" for n :: nat
  by (induction xs arbitrary: n) simp_all

lemma tx_size_length: "length (Transaction_Serialize tx) = Transaction_SerializeSize tx"
  by (simp add: Transaction_SerializeSize_def Transaction_Serialize_def enc_counted_def foldl_add_length
      VarIntSize_length length_concat o_def
      TxInput_SerializeSize_length TxOutput_SerializeSize_length)

section \<open>Hexadecimal text\<close>

lemma hex_value_digit: "n < 16 \<Longrightarrow> hex_value (hex_digit n) = Some n"
proof -
  have "\<forall>n \<in> set [0..<16]. hex_value (hex_digit n) = Some n"
    by (simp add: hex_value_def hex_digit_def upt_rec)
  then show "n < 16 \<Longrightarrow> ?thesis" by simp
qed

lemma hex_decode_encode: "hex_decode (hex_encode bs) = Some bs"
proof (induction bs)
  case (Cons b bs)
  have "unat b div 16 < 16" using byte_less [of b] by linarith
  with Cons show ?case by (simp add: hex_encode_def hex_value_digit)
qed (simp add: hex_encode_def)

section \<open>Properties\<close>

text \<open>C14. The wire format of blocks is canonical: \<^verbatim>\<open>Block.Deserialize\<close> accepts a byte stream exactly when it
  starts with the serialisation of a block that keeps the size limits, and then returns that block
  and leaves exactly the bytes after it. So every block within the limits round-trips, no two byte
  strings decode to one block, and a truncated or non-minimally encoded stream is refused.\<close>

theorem block_wire_canonical:
  "Block_Deserialize bs = Inr (b, rest) \<longleftrightarrow> Block_ok b \<and> bs = Block_Serialize b @ rest"
  by (rule block_codec.dec_iff)

text \<open>\<^verbatim>\<open>Transaction.SerializeSize\<close>, which computes the size without serialising, is the length of what
  \<^verbatim>\<open>Transaction.Serialize\<close> writes, for every transaction.\<close>

theorem tx_serialize_size: "Transaction_SerializeSize tx = length (Transaction_Serialize tx)"
  by (rule tx_size_length [symmetric])

text \<open>Printing a hash and parsing the text gives the hash back, in the internal and in the reversed
  (display) byte order.\<close>

theorem hash_hex_roundtrip:
  "HashFromHex (Hash_String h) = Inr h \<and> HashFromReverseHex (Hash_ReverseString h) = Inr h"
  by (simp add: HashFromHex_def Hash_String_def HashFromReverseHex_def Hash_ReverseString_def
      hex_decode_encode HashFromBytes_def)

end
