(* ===== verification/Crypto.thy ===== *)
theory Crypto
  imports Types Sha256
begin

text \<open>
  \<^verbatim>\<open>internal/crypto\<close>: the identity hash of headers and transactions (\<^verbatim>\<open>hash.go\<close>), Merkle roots
  (\<^verbatim>\<open>merkle.go\<close>), and the script templates and signature hash of \<^verbatim>\<open>keys.go\<close>. RIPEMD-160 and
  secp256k1 are third-party packages: they are the fields of \<open>ecdsa_lib\<close>, a parameter of every
  definition that calls them.
\<close>

section \<open>Hashes\<close>

text \<open>
  Serialising into a byte slice never fails, so the error results of \<^verbatim>\<open>HashTransaction\<close> and
  \<^verbatim>\<open>ComputeMerkleRoot\<close> are always nil and the model drops them.
\<close>

definition DoubleSHA256 :: "bytes \<Rightarrow> hash" where
  "DoubleSHA256 data = hash_copy (Sum256 (Sum256 data))"

definition HashBlockHeader :: "BlockHeader \<Rightarrow> hash" where
  "HashBlockHeader h = DoubleSHA256 (BlockHeader_Serialize h)"

definition HashTransaction :: "Transaction \<Rightarrow> hash" where
  "HashTransaction tx = DoubleSHA256 (Transaction_Serialize tx)"

lemma DoubleSHA256_no_panic: "HashFromBytes (Sum256 (Sum256 data)) = Inr (DoubleSHA256 data)"
  by (simp add: HashFromBytes_def DoubleSHA256_def)

section \<open>Merkle roots\<close>

definition merkle_pad :: "hash list \<Rightarrow> hash list" where
  "merkle_pad level = (if odd (length level) then level @ [level ! (length level - 1)] else level)"

fun merkle_combine :: "hash list \<Rightarrow> bytes list" where
  "merkle_combine (a # b # level) = (hash_bytes a @ hash_bytes b) # merkle_combine level"
| "merkle_combine _ = []"

definition merkle_next :: "hash list \<Rightarrow> hash list" where
  "merkle_next level = map DoubleSHA256 (merkle_combine (merkle_pad level))"

lemma length_merkle_combine: "length (merkle_combine level) = length level div 2"
  by (induction level rule: merkle_combine.induct) simp_all

lemma length_merkle_pad: "length (merkle_pad level) = (length level + 1) div 2 * 2"
  by (auto simp: merkle_pad_def elim!: oddE evenE)

lemma length_merkle_next: "length (merkle_next level) = (length level + 1) div 2"
  by (simp add: merkle_next_def length_merkle_combine length_merkle_pad)

function merkle_loop :: "hash list \<Rightarrow> hash" where
  "merkle_loop level = (if length level > 1 then merkle_loop (merkle_next level) else level ! 0)"
  by pat_completeness auto
termination
  by (relation "measure length") (simp_all add: length_merkle_next)

declare merkle_loop.simps [simp del]

definition MerkleRoot :: "hash list \<Rightarrow> hash" where
  "MerkleRoot hashes = (if length hashes = 0 then ZeroHash else merkle_loop hashes)"

definition ComputeMerkleRoot :: "Transaction list \<Rightarrow> hash" where
  "ComputeMerkleRoot txs =
     (if length txs = 0 then ZeroHash else MerkleRoot (map HashTransaction txs))"

section \<open>Keys, scripts and signature hashes\<close>

record ('sig, 'pk, 'sk) ecdsa_lib =
  ripemd160 :: "bytes \<Rightarrow> bytes"
  ParseDERSignature :: "bytes \<Rightarrow> 'sig option"
  ParsePubKey :: "bytes \<Rightarrow> 'pk option"
  ecdsa_Verify :: "'sig \<Rightarrow> bytes \<Rightarrow> 'pk \<Rightarrow> bool"
  ecdsa_Sign :: "'sk \<Rightarrow> bytes \<Rightarrow> 'sig"
  sig_Serialize :: "'sig \<Rightarrow> bytes"
  PubKey_SerializeCompressed :: "'sk \<Rightarrow> bytes"

definition Hash160 :: "('sig, 'pk, 'sk) ecdsa_lib \<Rightarrow> bytes \<Rightarrow> bytes" where
  "Hash160 L data = take 20 (ripemd160 L (Sum256 data) @ replicate 20 0)"

abbreviation (input) OpDup :: byte where "OpDup \<equiv> 0x76"
abbreviation (input) OpHash160 :: byte where "OpHash160 \<equiv> 0xa9"
abbreviation (input) OpEqualVerify :: byte where "OpEqualVerify \<equiv> 0x88"
abbreviation (input) OpCheckSig :: byte where "OpCheckSig \<equiv> 0xac"

definition MakeP2PKHScript :: "bytes \<Rightarrow> bytes" where
  "MakeP2PKHScript pubKeyHash =
     [OpDup, OpHash160, 0x14] @ take 20 (pubKeyHash @ replicate 20 0) @ [OpEqualVerify, OpCheckSig]"

definition MakeP2PKHScriptFromPubKey :: "('sig, 'pk, 'sk) ecdsa_lib \<Rightarrow> bytes \<Rightarrow> bytes" where
  "MakeP2PKHScriptFromPubKey L compressedPubKey = MakeP2PKHScript (Hash160 L compressedPubKey)"

definition MakeP2PKHSignatureScript :: "bytes \<Rightarrow> bytes \<Rightarrow> bytes" where
  "MakeP2PKHSignatureScript sig compressedPubKey =
     [of_nat (length sig)] @ sig @ [of_nat (length compressedPubKey)] @ compressedPubKey"

definition IsP2PKHScript :: "bytes \<Rightarrow> bool" where
  "IsP2PKHScript script \<longleftrightarrow>
     length script = 25 \<and> script ! 0 = OpDup \<and> script ! 1 = OpHash160 \<and> script ! 2 = 0x14 \<and>
     script ! 23 = OpEqualVerify \<and> script ! 24 = OpCheckSig"

definition ExtractP2PKHHash :: "bytes \<Rightarrow> bytes option" where
  "ExtractP2PKHHash script =
     (if \<not> IsP2PKHScript script then None else Some (take 20 (drop 3 script)))"

definition IsUnspendableScript :: "bytes \<Rightarrow> bool" where
  "IsUnspendableScript script =
     (if length script = 0 then True else if script ! 0 = 0x6a then True else False)"

definition MakeOpReturnScript :: "bytes \<Rightarrow> bytes" where
  "MakeOpReturnScript data =
     (let data = (if length data > 80 then take 80 data else data)
      in [0x6a, of_nat (length data)] @ data)"

abbreviation (input) SigHashAll :: byte where "SigHashAll \<equiv> 0x01"

datatype sighash_error = InputIndexOutOfRange int

definition sighash_inputs :: "TxInput list \<Rightarrow> nat \<Rightarrow> bytes \<Rightarrow> TxInput list" where
  "sighash_inputs ins inputIdx subscript =
     map (\<lambda>(i, inp). \<lparr>in_PreviousOutPoint = in_PreviousOutPoint inp,
                        in_SignatureScript = (if i = inputIdx then subscript else []),
                        in_Sequence = in_Sequence inp\<rparr>)
       (zip [0..<length ins] ins)"

definition ComputeSigHash :: "Transaction \<Rightarrow> int \<Rightarrow> bytes \<Rightarrow> sighash_error + hash" where
  "ComputeSigHash tx inputIdx subscript =
     (if inputIdx < 0 \<or> inputIdx \<ge> int (length (tx_Inputs tx)) then Inl (InputIndexOutOfRange inputIdx)
      else Inr (DoubleSHA256
        (Transaction_Serialize
           \<lparr>tx_Version = tx_Version tx,
            tx_Inputs = sighash_inputs (tx_Inputs tx) (nat inputIdx) subscript,
            tx_Outputs = tx_Outputs tx,
            tx_LockTime = tx_LockTime tx\<rparr>
         @ [SigHashAll, 0, 0, 0])))"

section \<open>Facts about Merkle trees\<close>

text \<open>
  The byte strings that the computation of a root hashes. A statement about roots can assume
  that DoubleSHA256 separates these, which is an assumption about finitely many inputs.
\<close>

function merkle_inputs :: "hash list \<Rightarrow> bytes set" where
  "merkle_inputs level =
     (if length level > 1
      then set (merkle_combine (merkle_pad level)) \<union> merkle_inputs (merkle_next level) else {})"
  by pat_completeness auto
termination
  by (relation "measure length") (simp_all add: length_merkle_next)

declare merkle_inputs.simps [simp del]

function merkle_depth :: "nat \<Rightarrow> nat" where
  "merkle_depth n = (if n > 1 then Suc (merkle_depth ((n + 1) div 2)) else 0)"
  by pat_completeness auto
termination
  by (relation "measure id") auto

declare merkle_depth.simps [simp del]

lemma merkle_combine_inj:
  "even (length xs) \<Longrightarrow> even (length ys) \<Longrightarrow> merkle_combine xs = merkle_combine ys \<Longrightarrow> xs = ys"
proof (induction xs arbitrary: ys rule: merkle_combine.induct)
  case (1 a b xs)
  from "1.prems" obtain c d zs where ys: "ys = c # d # zs"
    by (cases ys rule: merkle_combine.cases) auto
  with "1.prems" have "a = c" "b = d" "xs = zs"
    by (auto simp: hash_bytes_inject intro: "1.IH")
  with ys show ?case by simp
next
  case "2_1"
  then show ?case by (cases ys rule: merkle_combine.cases) auto
qed simp

lemma even_merkle_pad: "even (length (merkle_pad xs))"
  by (auto simp: merkle_pad_def)

lemma merkle_pad_inj:
  assumes "distinct xs" "distinct ys" "length xs > 1" "length ys > 1" "merkle_pad xs = merkle_pad ys"
  shows "xs = ys"
proof -
  have no_dup: False
    if "us @ [us ! (length us - 1)] = vs" "distinct vs" "length us > 1" for us vs :: "hash list"
    using that by (auto simp: distinct_append)
  show ?thesis
    using assms no_dup [of xs ys] no_dup [of ys xs]
    by (auto simp: merkle_pad_def split: if_splits)
qed

lemma merkle_pad_Cons2: "merkle_pad (a # b # xs) = a # b # merkle_pad xs"
  by (cases xs) (auto simp: merkle_pad_def)

lemma merkle_combine_heads:
  "map (take 32) (merkle_combine (merkle_pad xs)) = map (\<lambda>i. hash_bytes (xs ! (2 * i))) [0..<(length xs + 1) div 2]"
proof (induction xs rule: merkle_combine.induct)
  case (1 a b xs)
  have "[0..<(length (a # b # xs) + 1) div 2] = 0 # map Suc [0..<(length xs + 1) div 2]"
    by (simp add: map_Suc_upt upt_conv_Cons)
  with 1 show ?case by (simp add: merkle_pad_Cons2 o_def)
qed (simp_all add: merkle_pad_def)

lemma distinct_merkle_combine: "distinct xs \<Longrightarrow> distinct (merkle_combine (merkle_pad xs))"
proof -
  assume d: "distinct xs"
  have "distinct (map (\<lambda>i. hash_bytes (xs ! (2 * i))) [0..<(length xs + 1) div 2])"
    using d by (auto simp: distinct_map inj_on_def hash_bytes_inject nth_eq_iff_index_eq)
  then show ?thesis
    by (metis merkle_combine_heads distinct_map)
qed

lemma merkle_loop_binding:
  assumes "distinct xs" "distinct ys" "xs \<noteq> []" "ys \<noteq> []"
    and "merkle_depth (length xs) = merkle_depth (length ys)"
    and "inj_on DoubleSHA256 (merkle_inputs xs \<union> merkle_inputs ys)"
    and "merkle_loop xs = merkle_loop ys"
  shows "xs = ys"
  using assms
proof (induction xs arbitrary: ys rule: merkle_loop.induct)
  case (1 xs)
  show ?case
  proof (cases "length xs > 1")
    case False
    with "1.prems"(5) have "length ys \<le> 1"
      by (auto simp: merkle_depth.simps [of "length xs"] merkle_depth.simps [of "length ys"]
          split: if_splits)
    with False "1.prems"(3,4) have "length xs = 1" "length ys = 1"
      by (cases xs; cases ys; simp)+
    with "1.prems"(7) show ?thesis
      by (simp add: merkle_loop.simps [of xs] merkle_loop.simps [of ys] list_eq_iff_nth_eq)
  next
    case True
    with "1.prems"(5) have ly: "length ys > 1"
      by (auto simp: merkle_depth.simps [of "length xs"] merkle_depth.simps [of "length ys"]
          split: if_splits)
    let ?cx = "merkle_combine (merkle_pad xs)" and ?cy = "merkle_combine (merkle_pad ys)"
    have inj: "inj_on DoubleSHA256 (set ?cx \<union> set ?cy)"
      and inj': "inj_on DoubleSHA256 (merkle_inputs (merkle_next xs) \<union> merkle_inputs (merkle_next ys))"
      using "1.prems"(6) True ly
      by (auto simp: merkle_inputs.simps [of xs] merkle_inputs.simps [of ys] elim: inj_on_subset)
    have d: "distinct (merkle_next xs)" "distinct (merkle_next ys)"
      using distinct_merkle_combine [OF "1.prems"(1)] distinct_merkle_combine [OF "1.prems"(2)] inj
      by (auto simp: merkle_next_def distinct_map elim: inj_on_subset)
    have ne: "merkle_next xs \<noteq> []" "merkle_next ys \<noteq> []"
      using True ly by (auto simp: length_merkle_next simp flip: length_0_conv)
    have dep: "merkle_depth (length (merkle_next xs)) = merkle_depth (length (merkle_next ys))"
      using "1.prems"(5) True ly
      by (simp add: length_merkle_next merkle_depth.simps [of "length xs"]
          merkle_depth.simps [of "length ys"])
    have "merkle_loop (merkle_next xs) = merkle_loop (merkle_next ys)"
      using "1.prems"(7) True ly by (simp add: merkle_loop.simps [of xs] merkle_loop.simps [of ys])
    from "1.IH" [OF True d ne dep inj' this] have "?cx = ?cy"
      using inj by (simp add: merkle_next_def inj_on_map_eq_map)
    then have "merkle_pad xs = merkle_pad ys"
      by (rule merkle_combine_inj [OF even_merkle_pad even_merkle_pad])
    then show ?thesis by (rule merkle_pad_inj [OF "1.prems"(1,2) True ly])
  qed
qed

lemma merkle_loop_duplicate:
  assumes "odd (length xs)" "length xs > 1"
  shows "merkle_loop (xs @ [last xs]) = merkle_loop xs"
proof -
  have ne: "xs \<noteq> []" using assms by auto
  have "merkle_pad (xs @ [last xs]) = merkle_pad xs"
    using assms ne by (simp add: merkle_pad_def last_conv_nth)
  then have "merkle_next (xs @ [last xs]) = merkle_next xs"
    by (simp add: merkle_next_def)
  then show ?thesis
    using assms ne by (simp add: merkle_loop.simps [of xs] merkle_loop.simps [of "xs @ [last xs]"])
qed

section \<open>Facts about the script templates\<close>

lemma length_Hash160 [simp]: "length (Hash160 L data) = 20"
  by (simp add: Hash160_def)

lemma MakeP2PKHScript_20:
  "length h = 20 \<Longrightarrow> MakeP2PKHScript h = [OpDup, OpHash160, 0x14] @ h @ [OpEqualVerify, OpCheckSig]"
  by (simp add: MakeP2PKHScript_def)

lemma IsP2PKHScript_form:
  "IsP2PKHScript s \<longleftrightarrow> (\<exists>h. length h = 20 \<and> s = MakeP2PKHScript h)"
proof
  assume s: "IsP2PKHScript s"
  let ?h = "take 20 (drop 3 s)"
  have "s = MakeP2PKHScript ?h"
    by (rule nth_equalityI)
      (use s in \<open>auto simp: IsP2PKHScript_def MakeP2PKHScript_20 nth_Cons nth_append numeral_eq_Suc
         less_Suc_eq split: nat.split\<close>)
  with s show "\<exists>h. length h = 20 \<and> s = MakeP2PKHScript h"
    by (intro exI [of _ ?h]) (simp add: IsP2PKHScript_def)
next
  assume "\<exists>h. length h = 20 \<and> s = MakeP2PKHScript h"
  then show "IsP2PKHScript s"
    by (auto simp: IsP2PKHScript_def MakeP2PKHScript_20 nth_append)
qed

section \<open>Properties\<close>

text \<open>Merkle roots bind: two non-empty lists of distinct hashes whose trees have the same depth have the
  same root only if they are the same list, as long as DoubleSHA256 has no collision among the
  nodes of the two trees.\<close>

theorem merkle_root_binding:
  assumes "distinct xs" "distinct ys" "xs \<noteq> []" "ys \<noteq> []"
    and "merkle_depth (length xs) = merkle_depth (length ys)"
    and "inj_on DoubleSHA256 (merkle_inputs xs \<union> merkle_inputs ys)"
    and "MerkleRoot xs = MerkleRoot ys"
  shows "xs = ys"
  using assms by (intro merkle_loop_binding) (auto simp: MerkleRoot_def)

theorem merkle_root_binding_witness:
  "[ZeroHash, hash_copy [1]] = [ZeroHash, hash_copy [1 :: byte]]
   \<and> distinct [ZeroHash, hash_copy [1]]
   \<and> inj_on DoubleSHA256 (merkle_inputs [ZeroHash, hash_copy [1]])"
proof -
  have d: "distinct [ZeroHash, hash_copy [1]]"
    by (simp add: ZeroHash_def hash_eq_iff hash_bytes_copy list_eq_iff_nth_eq) (rule exI [of _ 0], simp)
  have i: "inj_on DoubleSHA256 (merkle_inputs [ZeroHash, hash_copy [1]])"
    by (simp add: merkle_inputs.simps merkle_next_def merkle_pad_def)
  show ?thesis
    using merkle_root_binding [OF d d _ _ refl _ refl] d i by auto
qed

text \<open>A list of odd length greater than one has the same Merkle root as the list with its last element
  repeated. Distinctness in the binding property is therefore needed: a root does not determine the
  list of transactions when duplicates are allowed.\<close>

theorem merkle_root_duplicate:
  assumes "odd (length xs)" "length xs > 1"
  shows "MerkleRoot (xs @ [last xs]) = MerkleRoot xs"
proof -
  have "xs \<noteq> []" using assms by auto
  then show ?thesis using merkle_loop_duplicate [OF assms] by (simp add: MerkleRoot_def)
qed

theorem merkle_root_duplicate_witness:
  "MerkleRoot [ZeroHash, ZeroHash, hash_copy [7], hash_copy [7]]
     = MerkleRoot [ZeroHash, ZeroHash, hash_copy [7 :: byte]]"
  using merkle_root_duplicate [of "[ZeroHash, ZeroHash, hash_copy [7]]"] by simp

end
