(* ===== verification/Protocol.thy ===== *)
theory Protocol
  imports Crypto
begin

text \<open>
  The peer-to-peer wire messages (\<^verbatim>\<open>internal/protocol\<close>): the 24-byte message header with its checksum
  and the payload of every message type. A Go string is a byte string. Decoders read from the bytes that
  are left and give the rest back; encoders give the bytes they write. Every payload format keeps the
  contract of \<^theory_text>\<open>codec\<close>.
\<close>

section \<open>Message header\<close>

definition MaxPayloadSize :: u32 where "MaxPayloadSize = 4 * 1024 * 1024"

abbreviation (input) MessageHeaderSize :: nat where "MessageHeaderSize \<equiv> 24"

record MessageHeader =
  mh_Magic :: bytes
  mh_Command :: bytes
  mh_Length :: u32
  mh_Checksum :: bytes

definition doubleSHA256Checksum :: "bytes \<Rightarrow> bytes" where
  "doubleSHA256Checksum data = (let first = Sum256 data; second = Sum256 first in take 4 second)"

text \<open>\<^verbatim>\<open>copy(dst[:], s)\<close> into a zeroed array of \<open>n\<close> bytes.\<close>

definition copy_into :: "nat \<Rightarrow> bytes \<Rightarrow> bytes" where
  "copy_into n s = take n (s @ replicate n 0)"

definition EncodeMessageHeader :: "bytes \<Rightarrow> bytes \<Rightarrow> bytes \<Rightarrow> bytes" where
  "EncodeMessageHeader magic cmd payload =
     (let hdr = \<lparr>mh_Magic = magic, mh_Command = copy_into 12 cmd, mh_Length = of_nat (length payload),
                 mh_Checksum = copy_into 4 (doubleSHA256Checksum payload)\<rparr>
      in mh_Magic hdr @ mh_Command hdr @ put_le 4 (mh_Length hdr) @ mh_Checksum hdr)"

definition DecodeMessageHeader :: "(decode_error, MessageHeader) reader" where
  "DecodeMessageHeader bs =
     rbind (read_full ErrShortRead MessageHeaderSize bs) (\<lambda>(buf, bs).
       let hdr = \<lparr>mh_Magic = take 4 buf, mh_Command = take 12 (drop 4 buf),
                  mh_Length = get_le (take 4 (drop 16 buf)), mh_Checksum = take 4 (drop 20 buf)\<rparr>
       in if mh_Length hdr > MaxPayloadSize then Inl (ErrPayloadSize (mh_Length hdr)) else Inr (hdr, bs))"

text \<open>The loop stops at the first zero byte; \<open>end\<close> is one past the last byte seen.\<close>

definition CommandString :: "MessageHeader \<Rightarrow> bytes" where
  "CommandString h = takeWhile (\<lambda>b. b \<noteq> 0) (mh_Command h)"

section \<open>Strings and inventory vectors\<close>

definition writeString :: "bytes \<Rightarrow> bytes" where
  "writeString s = PutVarInt (of_nat (length s)) @ s"

definition readString :: "(decode_error, bytes) reader" where
  "readString bs =
     rbind (ReadVarInt bs) (\<lambda>(len, bs).
       if len > 1024 then Inl (ErrStringLength len) else read_full ErrShortRead (unat len) bs)"

record InvVector =
  iv_Type :: u32
  iv_Hash :: hash

definition encodeInvVector :: "InvVector \<Rightarrow> bytes" where
  "encodeInvVector iv = put_le 4 (iv_Type iv) @ hash_bytes (iv_Hash iv)"

definition decodeInvVector :: "(decode_error, InvVector) reader" where
  "decodeInvVector bs =
     rbind (read_u32 bs) (\<lambda>(t, bs). rbind (read_hash bs) (\<lambda>(h, bs). Inr (\<lparr>iv_Type = t, iv_Hash = h\<rparr>, bs)))"

section \<open>Payloads\<close>

record VersionMsg =
  vm_Version :: u32
  vm_Services :: u64
  vm_Timestamp :: u64
  vm_AddrRecv :: bytes
  vm_AddrFrom :: bytes
  vm_Nonce :: u64
  vm_UserAgent :: bytes
  vm_StartHeight :: u32

record PingMsg =
  ping_Nonce :: u64

record PongMsg =
  pong_Nonce :: u64

record InvMsg =
  inv_Inventory :: "InvVector list"

record GetDataMsg =
  gd_Inventory :: "InvVector list"

record GetBlocksMsg =
  gb_Version :: u32
  gb_BlockLocatorHashes :: "hash list"
  gb_HashStop :: hash

record GetHeadersMsg =
  gh_Version :: u32
  gh_BlockLocatorHashes :: "hash list"
  gh_HashStop :: hash

record HeadersMsg =
  hm_Headers :: "BlockHeader list"

record AddrMsg =
  addr_Addresses :: "bytes list"

definition VersionMsg_Encode :: "VersionMsg \<Rightarrow> bytes" where
  "VersionMsg_Encode m =
     put_le 4 (vm_Version m) @ put_le 8 (vm_Services m) @ put_le 8 (vm_Timestamp m)
     @ writeString (vm_AddrRecv m) @ writeString (vm_AddrFrom m) @ put_le 8 (vm_Nonce m)
     @ writeString (vm_UserAgent m) @ put_le 4 (vm_StartHeight m)"

definition VersionMsg_Decode :: "(decode_error, VersionMsg) reader" where
  "VersionMsg_Decode bs =
     rbind (read_full ErrShortRead 20 bs) (\<lambda>(buf, bs).
     rbind (readString bs) (\<lambda>(addrRecv, bs).
     rbind (readString bs) (\<lambda>(addrFrom, bs).
     rbind (read_u64 bs) (\<lambda>(nonce, bs).
     rbind (readString bs) (\<lambda>(userAgent, bs).
     rbind (read_u32 bs) (\<lambda>(height, bs).
       Inr (\<lparr>vm_Version = get_le (take 4 buf), vm_Services = get_le (take 8 (drop 4 buf)),
             vm_Timestamp = get_le (take 8 (drop 12 buf)), vm_AddrRecv = addrRecv, vm_AddrFrom = addrFrom,
             vm_Nonce = nonce, vm_UserAgent = userAgent, vm_StartHeight = height\<rparr>, bs)))))))"

definition PingMsg_Encode :: "PingMsg \<Rightarrow> bytes" where
  "PingMsg_Encode m = put_le 8 (ping_Nonce m)"

definition PingMsg_Decode :: "(decode_error, PingMsg) reader" where
  "PingMsg_Decode bs = rbind (read_u64 bs) (\<lambda>(n, bs). Inr (\<lparr>ping_Nonce = n\<rparr>, bs))"

definition PongMsg_Encode :: "PongMsg \<Rightarrow> bytes" where
  "PongMsg_Encode m = put_le 8 (pong_Nonce m)"

definition PongMsg_Decode :: "(decode_error, PongMsg) reader" where
  "PongMsg_Decode bs = rbind (read_u64 bs) (\<lambda>(n, bs). Inr (\<lparr>pong_Nonce = n\<rparr>, bs))"

definition InvMsg_Encode :: "InvMsg \<Rightarrow> bytes" where
  "InvMsg_Encode m = enc_counted encodeInvVector (inv_Inventory m)"

definition InvMsg_Decode :: "(decode_error, InvMsg) reader" where
  "InvMsg_Decode bs =
     rbind (dec_counted 50000 ErrInvCount decodeInvVector bs) (\<lambda>(ivs, bs). Inr (\<lparr>inv_Inventory = ivs\<rparr>, bs))"

definition GetDataMsg_Encode :: "GetDataMsg \<Rightarrow> bytes" where
  "GetDataMsg_Encode m = InvMsg_Encode \<lparr>inv_Inventory = gd_Inventory m\<rparr>"

definition GetDataMsg_Decode :: "(decode_error, GetDataMsg) reader" where
  "GetDataMsg_Decode bs =
     rbind (InvMsg_Decode bs) (\<lambda>(inv, bs). Inr (\<lparr>gd_Inventory = inv_Inventory inv\<rparr>, bs))"

definition GetBlocksMsg_Encode :: "GetBlocksMsg \<Rightarrow> bytes" where
  "GetBlocksMsg_Encode m =
     put_le 4 (gb_Version m) @ enc_counted hash_bytes (gb_BlockLocatorHashes m) @ hash_bytes (gb_HashStop m)"

definition GetBlocksMsg_Decode :: "(decode_error, GetBlocksMsg) reader" where
  "GetBlocksMsg_Decode bs =
     rbind (read_u32 bs) (\<lambda>(v, bs).
     rbind (dec_counted 500 ErrLocatorCount read_hash bs) (\<lambda>(hs, bs).
     rbind (read_hash bs) (\<lambda>(stop, bs).
       Inr (\<lparr>gb_Version = v, gb_BlockLocatorHashes = hs, gb_HashStop = stop\<rparr>, bs))))"

definition GetHeadersMsg_Encode :: "GetHeadersMsg \<Rightarrow> bytes" where
  "GetHeadersMsg_Encode m =
     put_le 4 (gh_Version m) @ enc_counted hash_bytes (gh_BlockLocatorHashes m) @ hash_bytes (gh_HashStop m)"

definition GetHeadersMsg_Decode :: "(decode_error, GetHeadersMsg) reader" where
  "GetHeadersMsg_Decode bs =
     rbind (read_u32 bs) (\<lambda>(v, bs).
     rbind (dec_counted 500 ErrLocatorCount read_hash bs) (\<lambda>(hs, bs).
     rbind (read_hash bs) (\<lambda>(stop, bs).
       Inr (\<lparr>gh_Version = v, gh_BlockLocatorHashes = hs, gh_HashStop = stop\<rparr>, bs))))"

text \<open>One header of a \<^verbatim>\<open>headers\<close> message, followed by its transaction count, which must be 0.\<close>

definition encode_header_entry :: "BlockHeader \<Rightarrow> bytes" where
  "encode_header_entry h = BlockHeader_Serialize h @ PutVarInt 0"

definition decode_header_entry :: "(decode_error, BlockHeader) reader" where
  "decode_header_entry bs =
     rbind (BlockHeader_Deserialize bs) (\<lambda>(h, bs).
     rbind (ReadVarInt bs) (\<lambda>(txCount, bs).
       if txCount \<noteq> 0 then Inl (ErrHeaderTxCount txCount) else Inr (h, bs)))"

abbreviation (input) MaxHeadersPerMsg :: u64 where "MaxHeadersPerMsg \<equiv> 2000"

definition HeadersMsg_Encode :: "HeadersMsg \<Rightarrow> bytes" where
  "HeadersMsg_Encode m = enc_counted encode_header_entry (hm_Headers m)"

definition HeadersMsg_Decode :: "(decode_error, HeadersMsg) reader" where
  "HeadersMsg_Decode bs =
     rbind (dec_counted MaxHeadersPerMsg ErrHeadersCount decode_header_entry bs) (\<lambda>(hs, bs).
       Inr (\<lparr>hm_Headers = hs\<rparr>, bs))"

definition AddrMsg_Encode :: "AddrMsg \<Rightarrow> bytes" where
  "AddrMsg_Encode m = enc_counted writeString (addr_Addresses m)"

definition AddrMsg_Decode :: "(decode_error, AddrMsg) reader" where
  "AddrMsg_Decode bs =
     rbind (dec_counted 1000 ErrAddrCount readString bs) (\<lambda>(as, bs). Inr (\<lparr>addr_Addresses = as\<rparr>, bs))"

section \<open>The formats keep the contract\<close>

definition string_ok :: "bytes \<Rightarrow> bool" where
  "string_ok s \<longleftrightarrow> length s \<le> 1024"

definition VersionMsg_ok :: "VersionMsg \<Rightarrow> bool" where
  "VersionMsg_ok m \<longleftrightarrow> string_ok (vm_AddrRecv m) \<and> string_ok (vm_AddrFrom m) \<and> string_ok (vm_UserAgent m)"

definition AddrMsg_ok :: "AddrMsg \<Rightarrow> bool" where
  "AddrMsg_ok m \<longleftrightarrow> length (addr_Addresses m) \<le> 1000 \<and> list_all string_ok (addr_Addresses m)"

lemma readString_varbytes: "readString = dec_varbytes 1024 ErrStringLength"
  by (rule ext) (simp add: readString_def dec_varbytes_def)

lemma writeString_varbytes: "writeString = enc_varbytes"
  by (rule ext) (simp add: writeString_def enc_varbytes_def)

interpretation string_codec: codec writeString readString string_ok
  using varbytes [of 1024 ErrStringLength]
  by (simp add: readString_varbytes writeString_varbytes string_ok_def [abs_def])

interpretation invvec_codec: codec encodeInvVector decodeInvVector "\<lambda>_. True"
  by unfold_locales
    (auto simp: encodeInvVector_def decodeInvVector_def u32_codec.dec_enc hash_codec.dec_enc u32_codec.dec_iff hash_codec.dec_iff)

interpretation invs_codec: codec "enc_counted encodeInvVector" "dec_counted 50000 ErrInvCount decodeInvVector"
  "\<lambda>xs. length xs \<le> unat (50000 :: u64) \<and> (\<forall>x \<in> set xs. True)"
  by (rule invvec_codec.counted)

interpretation locator_codec: codec "enc_counted hash_bytes" "dec_counted 500 ErrLocatorCount read_hash"
  "\<lambda>xs. length xs \<le> unat (500 :: u64) \<and> (\<forall>x \<in> set xs. True)"
  by (rule hash_codec.counted)

interpretation header_entry_codec: codec encode_header_entry decode_header_entry "\<lambda>_. True"
  by unfold_locales
    (auto simp: encode_header_entry_def decode_header_entry_def header_codec.dec_enc varint_codec.dec_enc
      header_codec.dec_iff varint_codec.dec_iff split: if_splits)

interpretation headers_codec: codec "enc_counted encode_header_entry"
  "dec_counted MaxHeadersPerMsg ErrHeadersCount decode_header_entry"
  "\<lambda>xs. length xs \<le> unat MaxHeadersPerMsg \<and> (\<forall>x \<in> set xs. True)"
  by (rule header_entry_codec.counted)

interpretation addrs_codec: codec "enc_counted writeString" "dec_counted 1000 ErrAddrCount readString"
  "\<lambda>xs. length xs \<le> unat (1000 :: u64) \<and> (\<forall>x \<in> set xs. string_ok x)"
  by (rule string_codec.counted)

lemmas part_dec_enc = u32_codec.dec_enc u64_codec.dec_enc hash_codec.dec_enc string_codec.dec_enc invs_codec.dec_enc
  locator_codec.dec_enc headers_codec.dec_enc addrs_codec.dec_enc

lemmas part_dec_iff = u32_codec.dec_iff u64_codec.dec_iff hash_codec.dec_iff string_codec.dec_iff invs_codec.dec_iff
  locator_codec.dec_iff headers_codec.dec_iff addrs_codec.dec_iff

interpretation ping_codec: codec PingMsg_Encode PingMsg_Decode "\<lambda>_. True"
  by unfold_locales (auto simp: PingMsg_Encode_def PingMsg_Decode_def part_dec_enc part_dec_iff)

interpretation pong_codec: codec PongMsg_Encode PongMsg_Decode "\<lambda>_. True"
  by unfold_locales (auto simp: PongMsg_Encode_def PongMsg_Decode_def part_dec_enc part_dec_iff)

interpretation inv_codec: codec InvMsg_Encode InvMsg_Decode "\<lambda>m. length (inv_Inventory m) \<le> 50000"
  by unfold_locales (auto simp: InvMsg_Encode_def InvMsg_Decode_def part_dec_enc part_dec_iff)

interpretation getdata_codec: codec GetDataMsg_Encode GetDataMsg_Decode "\<lambda>m. length (gd_Inventory m) \<le> 50000"
  by unfold_locales (auto simp: GetDataMsg_Encode_def GetDataMsg_Decode_def InvMsg_Encode_def InvMsg_Decode_def part_dec_enc part_dec_iff)

interpretation getblocks_codec: codec GetBlocksMsg_Encode GetBlocksMsg_Decode "\<lambda>m. length (gb_BlockLocatorHashes m) \<le> 500"
  by unfold_locales (auto simp: GetBlocksMsg_Encode_def GetBlocksMsg_Decode_def part_dec_enc part_dec_iff)

interpretation getheaders_codec: codec GetHeadersMsg_Encode GetHeadersMsg_Decode "\<lambda>m. length (gh_BlockLocatorHashes m) \<le> 500"
  by unfold_locales (auto simp: GetHeadersMsg_Encode_def GetHeadersMsg_Decode_def part_dec_enc part_dec_iff)

interpretation headersmsg_codec: codec HeadersMsg_Encode HeadersMsg_Decode "\<lambda>m. length (hm_Headers m) \<le> 2000"
  by unfold_locales (auto simp: HeadersMsg_Encode_def HeadersMsg_Decode_def part_dec_enc part_dec_iff)

interpretation addr_codec: codec AddrMsg_Encode AddrMsg_Decode AddrMsg_ok
  by unfold_locales (auto simp: AddrMsg_Encode_def AddrMsg_Decode_def AddrMsg_ok_def list_all_iff part_dec_enc part_dec_iff)

lemma version_slices [simp]: "take 4 buf @ take 8 (drop 4 buf) @ drop 12 buf = buf"
  using drop_split [of 4 buf 8] by simp

interpretation version_codec: codec VersionMsg_Encode VersionMsg_Decode VersionMsg_ok
proof unfold_locales
  fix m rest
  assume ok: "VersionMsg_ok m"
  let ?buf = "put_le 4 (vm_Version m) @ put_le 8 (vm_Services m) @ put_le 8 (vm_Timestamp m)"
  have "read_full ErrShortRead 20 (?buf @ r) = Inr (?buf, r)" for r by simp
  with ok show "VersionMsg_Decode (VersionMsg_Encode m @ rest) = Inr (m, rest)"
    unfolding VersionMsg_Decode_def
    by (simp add: VersionMsg_Encode_def VersionMsg_ok_def part_dec_enc del: read_full_append read_full_eq_Inr)
next
  fix bs m rest
  assume "VersionMsg_Decode bs = Inr (m, rest)"
  then show "VersionMsg_ok m \<and> bs = VersionMsg_Encode m @ rest"
    by (auto simp: VersionMsg_Decode_def VersionMsg_Encode_def VersionMsg_ok_def part_dec_iff put_le_get_le_len)
qed

section \<open>Properties\<close>

text \<open>C31. Every message payload has one encoding: a decoder accepts a stream exactly when it starts with the
  encoding of a message within the limits, and returns that message and the rest, for all eight
  payload formats.\<close>

theorem protocol_messages_canonical:
  "(VersionMsg_Decode bs = Inr (v, rest) \<longleftrightarrow> VersionMsg_ok v \<and> bs = VersionMsg_Encode v @ rest) \<and>
   (PingMsg_Decode bs = Inr (pi, rest) \<longleftrightarrow> bs = PingMsg_Encode pi @ rest) \<and>
   (PongMsg_Decode bs = Inr (po, rest) \<longleftrightarrow> bs = PongMsg_Encode po @ rest) \<and>
   (InvMsg_Decode bs = Inr (iv, rest) \<longleftrightarrow> length (inv_Inventory iv) \<le> 50000 \<and> bs = InvMsg_Encode iv @ rest) \<and>
   (GetDataMsg_Decode bs = Inr (gd, rest) \<longleftrightarrow> length (gd_Inventory gd) \<le> 50000 \<and> bs = GetDataMsg_Encode gd @ rest) \<and>
   (GetBlocksMsg_Decode bs = Inr (gb, rest) \<longleftrightarrow>
      length (gb_BlockLocatorHashes gb) \<le> 500 \<and> bs = GetBlocksMsg_Encode gb @ rest) \<and>
   (GetHeadersMsg_Decode bs = Inr (gh, rest) \<longleftrightarrow>
      length (gh_BlockLocatorHashes gh) \<le> 500 \<and> bs = GetHeadersMsg_Encode gh @ rest) \<and>
   (HeadersMsg_Decode bs = Inr (hm, rest) \<longleftrightarrow> length (hm_Headers hm) \<le> 2000 \<and> bs = HeadersMsg_Encode hm @ rest) \<and>
   (AddrMsg_Decode bs = Inr (am, rest) \<longleftrightarrow> AddrMsg_ok am \<and> bs = AddrMsg_Encode am @ rest)"
  by (simp add: version_codec.dec_iff ping_codec.dec_iff pong_codec.dec_iff inv_codec.dec_iff getdata_codec.dec_iff
      getblocks_codec.dec_iff getheaders_codec.dec_iff headersmsg_codec.dec_iff addr_codec.dec_iff)

section \<open>The message header\<close>

lemma header_roundtrip:
  assumes "length magic = 4" "length cmd \<le> 12" "0 \<notin> set cmd" "length payload < 2 ^ 32"
  shows "(\<exists>hdr. DecodeMessageHeader (EncodeMessageHeader magic cmd payload @ rest) = Inr (hdr, rest)
      \<and> mh_Magic hdr = magic \<and> CommandString hdr = cmd \<and> unat (mh_Length hdr) = length payload
      \<and> mh_Checksum hdr = take 4 (hash_bytes (DoubleSHA256 payload)))
    \<longleftrightarrow> length payload \<le> 4194304"
proof -
  let ?hdr = "\<lparr>mh_Magic = magic, mh_Command = copy_into 12 cmd, mh_Length = of_nat (length payload),
    mh_Checksum = doubleSHA256Checksum payload\<rparr>"
  have sum: "length (doubleSHA256Checksum payload) = 4"
    "doubleSHA256Checksum payload = take 4 (hash_bytes (DoubleSHA256 payload))"
    by (simp_all add: doubleSHA256Checksum_def DoubleSHA256_def hash_bytes_hash_copy)
  have len: "unat (of_nat (length payload) :: u32) = length payload" using assms(4) by (simp add: unat_of_nat)
  have dec: "DecodeMessageHeader (EncodeMessageHeader magic cmd payload @ rest) =
      (if of_nat (length payload) > MaxPayloadSize then Inl (ErrPayloadSize (of_nat (length payload))) else Inr (?hdr, rest))"
  proof -
    let ?buf = "magic @ copy_into 12 cmd @ put_le 4 (of_nat (length payload) :: u32) @ doubleSHA256Checksum payload"
    have c12: "length (copy_into 12 cmd) = 12" by (simp add: copy_into_def)
    have c4: "copy_into 4 (doubleSHA256Checksum payload) = doubleSHA256Checksum payload" using sum by (simp add: copy_into_def)
    have "read_full ErrShortRead 24 (?buf @ rest) = Inr (?buf, rest)" using assms(1) sum c12 by simp
    then show ?thesis using assms(1) sum(1) c12
      by (simp add: DecodeMessageHeader_def EncodeMessageHeader_def c4 Let_def del: read_full_append read_full_eq_Inr)
  qed
  have cmd: "CommandString ?hdr = cmd"
    using assms(2,3) by (cases "length cmd = 12") (auto simp: CommandString_def copy_into_def takeWhile_append)
  have "of_nat (length payload) > MaxPayloadSize \<longleftrightarrow> \<not> length payload \<le> 4194304"
    using len by (simp add: MaxPayloadSize_def word_less_nat_alt not_le)
  then show ?thesis using dec cmd len sum by simp
qed

end
