(* ===== verification/NetAddr.thy ===== *)
theory NetAddr
  imports Types
begin

text \<open>
  Peer addresses, as \<^verbatim>\<open>internal/p2p\<close> reads them: \<^verbatim>\<open>host:port\<close> strings split by \<^verbatim>\<open>net.SplitHostPort\<close>, IP addresses parsed by
  \<^verbatim>\<open>net.ParseIP\<close> into 16 bytes, and the filters built on them, which decide whose address is stored, dialled, banned or
  counted to a subnet. The functions of the standard library follow its documented grammar; the resolver
  (\<^verbatim>\<open>net.LookupIP\<close>) is an argument.
\<close>

section \<open>Splitting\<close>

definition index_of :: "char \<Rightarrow> string \<Rightarrow> nat option" where
  "index_of c s = (if c \<in> set s then Some (length (takeWhile (\<lambda>x. x \<noteq> c) s)) else None)"

definition last_index_of :: "char \<Rightarrow> string \<Rightarrow> nat option" where
  "last_index_of c s = map_option (\<lambda>i. length s - Suc i) (index_of c (rev s))"

abbreviation (input) colon :: char where "colon \<equiv> CHR '':''"
abbreviation (input) dot :: char where "dot \<equiv> CHR ''.''"
abbreviation (input) lbracket :: char where "lbracket \<equiv> CHR ''[''"
abbreviation (input) rbracket :: char where "rbracket \<equiv> CHR '']''"

text \<open>\<^verbatim>\<open>net.SplitHostPort\<close>: the port follows the last colon; a host with colons stands in brackets. \<open>None\<close> is an error.\<close>

definition no_brackets :: "nat \<Rightarrow> nat \<Rightarrow> string \<Rightarrow> bool" where
  "no_brackets j k s \<longleftrightarrow> lbracket \<notin> set (drop j s) \<and> rbracket \<notin> set (drop k s)"

definition SplitHostPort :: "string \<Rightarrow> (string \<times> string) option" where
  "SplitHostPort s =
     (case last_index_of colon s of
        None \<Rightarrow> None
      | Some i \<Rightarrow>
          if s ! 0 = lbracket then
            (case index_of rbracket s of
               None \<Rightarrow> None
             | Some e \<Rightarrow>
                 if Suc e = i \<and> no_brackets 1 (Suc e) s then Some (take (e - 1) (drop 1 s), drop (Suc i) s) else None)
          else if colon \<in> set (take i s) then None
          else if no_brackets 0 0 s then Some (take i s, drop (Suc i) s) else None)"

section \<open>IP addresses\<close>

type_synonym ip = bytes

definition dec_value :: "char \<Rightarrow> nat option" where
  "dec_value c = (if of_char c \<in> {48 :: nat..57} then Some (of_char c - 48) else None)"

text \<open>\<^verbatim>\<open>parseIPv4Fields\<close>: \<open>first\<close> holds while no character has been read, \<open>prev_dot\<close> after a dot.\<close>

fun ipv4_fields :: "bool \<Rightarrow> bool \<Rightarrow> nat \<Rightarrow> nat \<Rightarrow> bytes \<Rightarrow> string \<Rightarrow> bytes option" where
  "ipv4_fields first prev_dot digLen val octets [] = (if length octets < 3 then None else Some (octets @ [of_nat val]))"
| "ipv4_fields first prev_dot digLen val octets (c # s) =
     (case dec_value c of
        Some d \<Rightarrow>
          if digLen = 1 \<and> val = 0 then None
          else if val * 10 + d > 255 then None
          else ipv4_fields False False (Suc digLen) (val * 10 + d) octets s
      | None \<Rightarrow>
          if c \<noteq> dot then None
          else if first \<or> s = [] \<or> prev_dot then None
          else if length octets = 3 then None
          else ipv4_fields False True 0 0 (octets @ [of_nat val]) s)"

definition parse_ipv4 :: "string \<Rightarrow> bytes option" where
  "parse_ipv4 s = ipv4_fields True False 0 0 [] s"

definition hex_run :: "string \<Rightarrow> string" where
  "hex_run s = takeWhile (\<lambda>c. hex_value c \<noteq> None) s"

definition hex_number :: "string \<Rightarrow> nat" where
  "hex_number ds = fold (\<lambda>c acc. acc * 16 + the (hex_value c)) ds 0"

text \<open>The loop of \<^verbatim>\<open>parseIPv6\<close> over the groups, at most eight; \<open>ell\<close> is the position of the ellipsis. It gives the bytes
  read, the ellipsis and the rest of the string.\<close>

primrec ipv6_groups :: "nat \<Rightarrow> bytes \<Rightarrow> nat option \<Rightarrow> string \<Rightarrow> (bytes \<times> nat option \<times> string) option" where
  "ipv6_groups 0 bs ell s = Some (bs, ell, s)"
| "ipv6_groups (Suc n) bs ell s =
     (let ds = hex_run s; rest = drop (length ds) s; acc = hex_number ds in
      if length ds > 4 \<or> ds = [] then None
      else if rest \<noteq> [] \<and> rest ! 0 = dot then
        if ell = None \<and> length bs \<noteq> 12 then None
        else if length bs + 4 > 16 then None
        else map_option (\<lambda>v4. (bs @ v4, ell, [])) (parse_ipv4 s)
      else let bs = bs @ [of_nat (acc div 256), of_nat acc] in
        if rest = [] then Some (bs, ell, [])
        else if rest ! 0 \<noteq> colon then None
        else if length rest = 1 then None
        else let s = drop 1 rest in
          if s ! 0 = colon then
            if ell \<noteq> None then None
            else if drop 1 s = [] then Some (bs, Some (length bs), [])
            else ipv6_groups n bs (Some (length bs)) (drop 1 s)
          else ipv6_groups n bs ell s)"

definition parse_ipv6 :: "string \<Rightarrow> bytes option" where
  "parse_ipv6 s =
     (let leading = take 2 s = ''::'';
          ell = (if leading then Some 0 else None);
          s = (if leading then drop 2 s else s)
      in if leading \<and> s = [] then Some (replicate 16 0)
         else (case ipv6_groups 8 [] ell s of
                 None \<Rightarrow> None
               | Some (bs, ell, rest) \<Rightarrow>
                   if rest \<noteq> [] then None
                   else if length bs < 16 then
                     (case ell of
                        None \<Rightarrow> None
                      | Some e \<Rightarrow> Some (take e bs @ replicate (16 - length bs) 0 @ drop e bs))
                   else if ell \<noteq> None then None
                   else Some bs))"

text \<open>\<^verbatim>\<open>net.ParseIP\<close>: the first dot or colon decides the form; an address with a zone is refused; an IPv4 address becomes
  its IPv4-mapped form of 16 bytes.\<close>

definition v4_prefix :: bytes where
  "v4_prefix = replicate 10 0 @ [255, 255]"

definition ParseIP :: "string \<Rightarrow> ip option" where
  "ParseIP s =
     (if CHR ''%'' \<in> set s then None
      else case filter (\<lambda>c. c = dot \<or> c = colon) s of
        [] \<Rightarrow> None
      | c # _ \<Rightarrow> if c = dot then map_option (\<lambda>v4. v4_prefix @ v4) (parse_ipv4 s) else parse_ipv6 s)"

definition To4 :: "ip \<Rightarrow> bytes option" where
  "To4 a = (if length a = 16 \<and> take 12 a = v4_prefix then Some (drop 12 a) else None)"

definition IsUnspecified :: "ip \<Rightarrow> bool" where
  "IsUnspecified a \<longleftrightarrow> a = v4_prefix @ [0, 0, 0, 0] \<or> a = replicate 16 0"

definition IsLoopback :: "ip \<Rightarrow> bool" where
  "IsLoopback a = (case To4 a of Some v4 \<Rightarrow> v4 ! 0 = 127 | None \<Rightarrow> a = replicate 15 0 @ [1])"

definition IsPrivate :: "ip \<Rightarrow> bool" where
  "IsPrivate a =
     (case To4 a of
        Some v4 \<Rightarrow> v4 ! 0 = 10 \<or> v4 ! 0 = 172 \<and> and (v4 ! 1) 0xf0 = 16 \<or> v4 ! 0 = 192 \<and> v4 ! 1 = 168
      | None \<Rightarrow> length a = 16 \<and> and (a ! 0) 0xfe = 0xfc)"

definition IsLinkLocalUnicast :: "ip \<Rightarrow> bool" where
  "IsLinkLocalUnicast a =
     (case To4 a of
        Some v4 \<Rightarrow> v4 ! 0 = 169 \<and> v4 ! 1 = 254
      | None \<Rightarrow> length a = 16 \<and> a ! 0 = 0xfe \<and> and (a ! 1) 0xc0 = 0x80)"

definition IsLinkLocalMulticast :: "ip \<Rightarrow> bool" where
  "IsLinkLocalMulticast a =
     (case To4 a of
        Some v4 \<Rightarrow> v4 ! 0 = 224 \<and> v4 ! 1 = 0 \<and> v4 ! 2 = 0
      | None \<Rightarrow> length a = 16 \<and> a ! 0 = 0xff \<and> and (a ! 1) 0x0f = 0x02)"

section \<open>Ports\<close>

text \<open>\<^verbatim>\<open>fmt.Sscanf(s, "%d", &port)\<close> into an \<^verbatim>\<open>int\<close>: leading spaces, an optional sign and the longest run of digits, whatever
  follows them. \<open>None\<close> is a scan error: no digits, a newline, or a value that does not fit.\<close>

definition scan_space :: "char \<Rightarrow> bool" where
  "scan_space c \<longleftrightarrow> c \<in> {CHR '' '', CHR 0x09, CHR 0x0B, CHR 0x0C, CHR 0x0D}"

definition scan_int :: "string \<Rightarrow> int option" where
  "scan_int s =
     (let s = dropWhile scan_space s;
          neg = (s \<noteq> [] \<and> s ! 0 = CHR ''-'');
          s = (if s \<noteq> [] \<and> s ! 0 \<in> {CHR ''-'', CHR ''+''} then drop 1 s else s);
          ds = takeWhile (\<lambda>c. dec_value c \<noteq> None) s;
          n = int (fold (\<lambda>c acc. acc * 10 + the (dec_value c)) ds 0);
          v = (if neg then - n else n)
      in if ds = [] \<or> v < - (2 ^ 63) \<or> v \<ge> 2 ^ 63 then None else Some v)"

definition port_ok :: "string \<Rightarrow> bool" where
  "port_ok s = (case scan_int s of None \<Rightarrow> False | Some port \<Rightarrow> \<not> (port < 1 \<or> port > 65535))"

section \<open>The filters of the peer-to-peer manager\<close>

datatype addr_error =
    ErrHostPort
  | ErrEmptyHost
  | ErrPort
  | ErrResolve string
  | ErrNonIP
  | ErrLoopbackAddr
  | ErrPrivateAddr
  | ErrNonRoutable

definition validatePeerAddress :: "(string \<Rightarrow> ip list) \<Rightarrow> string \<Rightarrow> addr_error + unit" where
  "validatePeerAddress lookupIP addr =
     (case SplitHostPort addr of
        None \<Rightarrow> Inl ErrHostPort
      | Some (host, portStr) \<Rightarrow>
          if host = [] then Inl ErrEmptyHost
          else if \<not> port_ok portStr then Inl ErrPort
          else (case (case ParseIP host of Some a \<Rightarrow> Some a | None \<Rightarrow> (case lookupIP host of [] \<Rightarrow> None | a # _ \<Rightarrow> Some a)) of
                  None \<Rightarrow> Inl (ErrResolve host)
                | Some a \<Rightarrow>
                    if IsLoopback a \<or> IsUnspecified a then Inl ErrLoopbackAddr
                    else if IsPrivate a \<or> IsLinkLocalUnicast a \<or> IsLinkLocalMulticast a then Inl ErrPrivateAddr
                    else Inr ()))"

definition validateGossipAddress :: "string \<Rightarrow> bool \<Rightarrow> addr_error + unit" where
  "validateGossipAddress addr isLocal =
     (case SplitHostPort addr of
        None \<Rightarrow> Inl ErrHostPort
      | Some (host, portStr) \<Rightarrow>
          if host = [] then Inl ErrEmptyHost
          else if \<not> port_ok portStr then Inl ErrPort
          else (case ParseIP host of
                  None \<Rightarrow> Inl ErrNonIP
                | Some a \<Rightarrow>
                    if IsLoopback a then if isLocal then Inr () else Inl ErrNonRoutable
                    else if IsUnspecified a \<or> IsPrivate a \<or> IsLinkLocalUnicast a \<or> IsLinkLocalMulticast a then Inl ErrNonRoutable
                    else Inr ()))"

definition listens_on_loopback :: "string \<Rightarrow> bool" where
  "listens_on_loopback listenAddr =
     (case SplitHostPort listenAddr of
        None \<Rightarrow> False
      | Some (host, _) \<Rightarrow> (case ParseIP host of None \<Rightarrow> False | Some a \<Rightarrow> IsLoopback a))"

definition extractIP :: "string \<Rightarrow> string" where
  "extractIP addr = (case SplitHostPort addr of None \<Rightarrow> addr | Some (host, _) \<Rightarrow> host)"

text \<open>\<^verbatim>\<open>%d\<close> of a byte.\<close>

definition dec_byte :: "byte \<Rightarrow> string" where
  "dec_byte b =
     (let n = unat b; d = (\<lambda>k. ''0123456789'' ! k) in
      if n < 10 then [d n] else if n < 100 then [d (n div 10), d (n mod 10)] else [d (n div 100), d (n div 10 mod 10), d (n mod 10)])"

definition subnetKey :: "string \<Rightarrow> string" where
  "subnetKey addr =
     (case ParseIP (extractIP addr) of
        None \<Rightarrow> []
      | Some a \<Rightarrow>
          (case To4 a of
             Some v4 \<Rightarrow> dec_byte (v4 ! 0) @ [dot] @ dec_byte (v4 ! 1)
           | None \<Rightarrow>
               if length a \<ge> 4 then hex_encode (take 2 a) @ [colon] @ hex_encode (take 2 (drop 2 a))
               else []))"

definition classifyNetwork :: "string \<Rightarrow> string" where
  "classifyNetwork addr =
     (case ParseIP (extractIP addr) of
        None \<Rightarrow> ''unknown''
      | Some a \<Rightarrow> if To4 a \<noteq> None then ''ipv4'' else ''ipv6'')"

section \<open>Shape of parsed addresses\<close>

lemma ipv4_fields_length: "ipv4_fields f p d v fs s = Some bs \<Longrightarrow> length fs \<le> 3 \<Longrightarrow> length bs = 4"
  by (induction f p d v fs s rule: ipv4_fields.induct) (auto split: if_splits option.splits)

lemma parse_ipv4_length: "parse_ipv4 s = Some bs \<Longrightarrow> length bs = 4"
  unfolding parse_ipv4_def by (drule ipv4_fields_length) simp_all

definition ell_ok :: "nat option \<Rightarrow> bytes \<Rightarrow> bool" where
  "ell_ok ell bs = (case ell of None \<Rightarrow> True | Some e \<Rightarrow> e \<le> length bs)"

lemma ell_ok_grow [simp]: "ell_ok ell bs \<Longrightarrow> ell_ok ell (bs @ xs)" "ell_ok (Some (Suc (Suc (length bs)))) (bs @ [x, y])"
  by (auto simp: ell_ok_def split: option.splits)

lemma ipv6_groups_shape:
  "ipv6_groups n bs ell s = Some (bs', ell', rest) \<Longrightarrow> length bs + 2 * n = 16 \<Longrightarrow> ell_ok ell bs \<Longrightarrow>
   length bs' \<le> 16 \<and> ell_ok ell' bs'"
proof (induction n arbitrary: bs ell s)
  case (Suc n)
  have go: "length bs' \<le> 16 \<and> ell_ok ell' bs'"
    if "ipv6_groups n (bs @ [x, y]) ell2 s2 = Some (bs', ell', rest)" "ell_ok ell2 (bs @ [x, y])" for x y ell2 s2
    using Suc.IH [OF that(1) _ that(2)] Suc.prems(2) by simp
  then have go': "length bs' \<le> 16" "ell_ok ell' bs'"
    if "ipv6_groups n (bs @ [x, y]) ell2 s2 = Some (bs', ell', rest)" "ell_ok ell2 (bs @ [x, y])" for x y ell2 s2
    using that by blast+
  show ?case
    using Suc.prems unfolding ipv6_groups.simps Let_def
    by (auto split: if_split_asm dest: parse_ipv4_length intro: go')
qed auto

lemma parse_ipv6_length:
  assumes "parse_ipv6 s = Some bs"
  shows "length bs = 16"
proof (cases "take 2 s = ''::'' \<and> drop 2 s = []")
  case True
  then show ?thesis using assms by (auto simp: parse_ipv6_def Let_def)
next
  case False
  let ?ell = "if take 2 s = ''::'' then Some 0 else None" and ?s = "if take 2 s = ''::'' then drop 2 s else s"
  from assms False obtain bs' ell rest where g: "ipv6_groups 8 [] ?ell ?s = Some (bs', ell, rest)"
    and r: "bs = (if length bs' < 16 then take (the ell) bs' @ replicate (16 - length bs') 0 @ drop (the ell) bs' else bs')"
    by (auto simp: parse_ipv6_def Let_def split: if_split_asm option.split_asm)
  have "length bs' \<le> 16" "ell_ok ell bs'" using ipv6_groups_shape [OF g] by (auto simp: ell_ok_def)
  then show ?thesis unfolding r by auto
qed

lemma ParseIP_length: "ParseIP s = Some a \<Longrightarrow> length a = 16"
  by (auto simp: ParseIP_def v4_prefix_def split: if_splits list.splits dest: parse_ipv4_length parse_ipv6_length)

lemma split_join:
  assumes "lbracket \<notin> set host" "rbracket \<notin> set host" "colon \<notin> set host"
    "lbracket \<notin> set port" "rbracket \<notin> set port" "colon \<notin> set port"
  shows "SplitHostPort (host @ [colon] @ port) = Some (host, port)"
proof -
  let ?s = "host @ [colon] @ port"
  have t: "takeWhile (\<lambda>x. x \<noteq> colon) (rev port @ [colon] @ rev host) = rev port"
    using assms by (subst takeWhile_append2) auto
  have i: "last_index_of colon ?s = Some (length host)"
    using t by (simp add: last_index_of_def index_of_def)
  have h: "?s ! 0 \<noteq> lbracket" using assms by (cases host) auto
  show ?thesis unfolding SplitHostPort_def i using assms h by (simp add: no_brackets_def)
qed

end
