(* ===== verification/Target.thy ===== *)
theory Target
  imports Crypto
begin

text \<open>
  Compact targets and proof-of-work arithmetic (\<^verbatim>\<open>internal/crypto/target.go\<close>). A \<^verbatim>\<open>*big.Int\<close> is an
  \<open>int\<close>; the compact form is a 32-bit word handled with the source's shifts and masks. The lemmas
  give the compact form its meaning as a base-256 floating-point number and show how much a
  target loses when it is compacted.
\<close>

section \<open>Big integers\<close>

function BitLen_nat :: "nat \<Rightarrow> nat" where
  "BitLen_nat n = (if n = 0 then 0 else Suc (BitLen_nat (n div 2)))"
  by pat_completeness auto
termination
  by (relation "measure id") auto

declare BitLen_nat.simps [simp del]

definition BitLen :: "int \<Rightarrow> nat" where
  "BitLen t = BitLen_nat (nat \<bar>t\<bar>)"

text \<open>\<^verbatim>\<open>Bytes\<close> gives the absolute value in big-endian order without leading zeros; \<^verbatim>\<open>SetBytes\<close> reads it.\<close>

function le_bytes :: "nat \<Rightarrow> bytes" where
  "le_bytes n = (if n = 0 then [] else of_nat (n mod 256) # le_bytes (n div 256))"
  by pat_completeness auto
termination
  by (relation "measure id") auto

declare le_bytes.simps [simp del]

definition big_Bytes :: "int \<Rightarrow> bytes" where
  "big_Bytes t = rev (le_bytes (nat \<bar>t\<bar>))"

definition big_SetBytes :: "bytes \<Rightarrow> int" where
  "big_SetBytes b = int (le_nat (rev b))"

section \<open>Definitions\<close>

definition CompactToBig :: "u32 \<Rightarrow> int" where
  "CompactToBig compact =
     (let mantissa = compact AND 0x007fffff;
          negative = (compact AND 0x00800000 \<noteq> 0);
          exponent = drop_bit 24 compact;
          overflow = (mantissa \<noteq> 0 \<and> (exponent > 34 \<or>
            (mantissa > 0xff \<and> exponent > 33) \<or> (mantissa > 0xffff \<and> exponent > 32)))
      in if negative \<or> overflow then 0
         else if exponent \<le> 3 then uint (drop_bit (unat (8 * (3 - exponent))) mantissa)
         else push_bit (8 * (unat exponent - 3)) (uint mantissa))"

definition BigToCompact :: "int \<Rightarrow> u32" where
  "BigToCompact target =
     (if target = 0 then 0
      else let negative = (target < 0);
               t = \<bar>target\<bar>;
               byteLen = (of_nat ((BitLen t + 7) div 8) :: u32);
               compact = (if byteLen \<le> 3
                 then push_bit (unat (8 * (3 - byteLen))) (ucast (word_of_int t :: u64) :: u32)
                 else ucast ((word_of_int (drop_bit (8 * (unat byteLen - 3)) t) :: u64) AND 0xffffff));
               (compact, byteLen) =
                 (if compact AND 0x00800000 \<noteq> 0 then (drop_bit 8 compact, byteLen + 1)
                  else (compact, byteLen));
               compact = compact OR push_bit 24 byteLen
           in if negative then compact OR 0x00800000 else compact)"

definition CompactToHash :: "u32 \<Rightarrow> hash" where
  "CompactToHash compact = hash_copy (rev (big_Bytes (CompactToBig compact)))"

definition HashToBig :: "hash \<Rightarrow> int" where
  "HashToBig h = big_SetBytes (rev (hash_bytes h))"

definition CalcWork :: "u32 \<Rightarrow> int" where
  "CalcWork bits =
     (let target = CompactToBig bits
      in if target \<le> 0 then 0 else push_bit 256 1 div (target + 1))"

datatype pow_error = ErrHashExceedsTarget hash hash

definition ValidateProofOfWork :: "hash \<Rightarrow> u32 \<Rightarrow> pow_error + unit" where
  "ValidateProofOfWork headerHash bits =
     (let target = CompactToHash bits
      in if \<not> Hash_LessOrEqual headerHash target then Inl (ErrHashExceedsTarget headerHash target)
         else Inr ())"

section \<open>Bit length and bytes\<close>

lemma BitLen_nat_bounds: "n > 0 \<Longrightarrow> 2 ^ (BitLen_nat n - 1) \<le> n \<and> n < 2 ^ BitLen_nat n \<and> BitLen_nat n > 0"
proof (induction n rule: BitLen_nat.induct)
  case (1 n)
  show ?case
  proof (cases "n = 1")
    case True
    then show ?thesis by (simp add: BitLen_nat.simps)
  next
    case False
    with "1.prems" have pos: "n div 2 > 0" by simp
    with "1.IH" "1.prems" have ih: "2 ^ (BitLen_nat (n div 2) - 1) \<le> n div 2"
      "n div 2 < 2 ^ BitLen_nat (n div 2)" "BitLen_nat (n div 2) > 0" by auto
    then obtain k where k: "BitLen_nat (n div 2) = Suc k" by (metis gr0_implies_Suc)
    with ih have "2 * 2 ^ k \<le> n" "n < 4 * 2 ^ k" by auto
    with k "1.prems" show ?thesis by (simp add: BitLen_nat.simps [of n])
  qed
qed

lemma BitLen_nat_unique: "2 ^ k \<le> n \<Longrightarrow> n < 2 ^ Suc k \<Longrightarrow> BitLen_nat n = Suc k"
proof (induction k arbitrary: n)
  case 0
  then have "n = 1" by simp
  then show ?case by (simp add: BitLen_nat.simps)
next
  case (Suc k)
  then have "2 ^ k \<le> n div 2" "n div 2 < 2 ^ Suc k" by auto
  with Suc.IH have "BitLen_nat (n div 2) = Suc k" by blast
  moreover have "n \<noteq> 0" using Suc.prems by auto
  ultimately show ?case by (simp add: BitLen_nat.simps [of n])
qed

lemma le_nat_le_bytes [simp]: "le_nat (le_bytes n) = n"
proof (induction n rule: le_bytes.induct)
  case (1 n)
  show ?case
  proof (cases "n = 0")
    case False
    with 1 have ih: "le_nat (le_bytes (n div 256)) = n div 256" by simp
    from False show ?thesis by (subst le_bytes.simps) (simp add: ih unat_of_nat)
  qed (simp add: le_bytes.simps)
qed

lemma length_le_bytes: "n < 256 ^ k \<Longrightarrow> length (le_bytes n) \<le> k"
proof (induction n arbitrary: k rule: le_bytes.induct)
  case (1 n)
  show ?case
  proof (cases "n = 0")
    case False
    with "1.prems" obtain j where k: "k = Suc j" by (cases k) auto
    with "1.prems" have "n div 256 < 256 ^ j" by simp
    with "1.IH" False k show ?thesis by (subst le_bytes.simps) simp
  qed (simp add: le_bytes.simps)
qed

lemma hash_nat_copy_le_bytes: "n < 256 ^ 32 \<Longrightarrow> hash_nat (hash_copy (le_bytes n)) = n"
proof -
  assume "n < 256 ^ 32"
  then have "length (le_bytes n) \<le> 32" by (rule length_le_bytes)
  then show ?thesis
    by (simp add: hash_nat_def hash_bytes_copy take_append min_def)
qed

lemma HashToBig_nat: "HashToBig h = int (hash_nat h)"
  by (simp add: HashToBig_def big_SetBytes_def hash_nat_def)

section \<open>The compact form as a floating-point number\<close>

text \<open>
  \<open>compact_decode m e\<close> is the number with mantissa \<open>m\<close> and exponent \<open>e\<close>; \<open>compact_len\<close>,
  \<open>compact_mant\<close> and \<open>compact_exp\<close> are the normalised fields of a number.
\<close>

definition compact_decode :: "nat \<Rightarrow> nat \<Rightarrow> nat" where
  "compact_decode m e = (if e \<le> 3 then m div 256 ^ (3 - e) else m * 256 ^ (e - 3))"

definition compact_len :: "nat \<Rightarrow> nat" where
  "compact_len t = (BitLen_nat t + 7) div 8"

definition compact_lead :: "nat \<Rightarrow> nat" where
  "compact_lead t =
     (if compact_len t \<le> 3 then t * 256 ^ (3 - compact_len t) else t div 256 ^ (compact_len t - 3))"

definition compact_mant :: "nat \<Rightarrow> nat" where
  "compact_mant t = (if compact_lead t \<ge> 2 ^ 23 then compact_lead t div 256 else compact_lead t)"

definition compact_exp :: "nat \<Rightarrow> nat" where
  "compact_exp t = (if compact_lead t \<ge> 2 ^ 23 then compact_len t + 1 else compact_len t)"

definition compact_overflow :: "nat \<Rightarrow> nat \<Rightarrow> bool" where
  "compact_overflow m e \<longleftrightarrow>
     m \<noteq> 0 \<and> (e > 34 \<or> (m > 0xff \<and> e > 33) \<or> (m > 0xffff \<and> e > 32))"

lemma unat_mask23: "unat ((c :: u32) AND 0x007fffff) = unat c mod 2 ^ 23"
proof -
  have m: "c AND 0x007fffff = take_bit 23 c" by (simp add: take_bit_eq_mask mask_eq_exp_minus_1)
  show ?thesis unfolding m unsigned_take_bit_eq by (simp add: take_bit_eq_mod)
qed

lemma bit23: "(c :: u32) AND 0x00800000 \<noteq> 0 \<longleftrightarrow> odd (unat c div 2 ^ 23)"
proof -
  have m: "(0x00800000 :: u32) = 2 ^ 23" by simp
  have "bit c 23 \<longleftrightarrow> bit (unat c) 23" by (simp add: bit_unsigned_iff)
  then show ?thesis
    unfolding m and_exp_eq_0_iff_not_bit by (simp add: bit_iff_odd)
qed

lemma CompactToBig_nat:
  "CompactToBig c =
     (let m = unat c mod 2 ^ 23; e = unat c div 2 ^ 24
      in if odd (unat c div 2 ^ 23) \<or> compact_overflow m e then 0 else int (compact_decode m e))"
proof -
  define m where "m = c AND 0x007fffff"
  define e where "e = drop_bit 24 c"
  have um: "unat m = unat c mod 2 ^ 23" and ue: "unat e = unat c div 2 ^ 24"
    by (simp_all add: m_def e_def unat_mask23 unat_drop_bit del: power_numeral)
  have ov: "(m \<noteq> 0 \<and> (e > 34 \<or> (m > 0xff \<and> e > 33) \<or> (m > 0xffff \<and> e > 32)))
     \<longleftrightarrow> compact_overflow (unat m) (unat e)"
    by (simp add: compact_overflow_def word_less_nat_alt unat_eq_zero)
  have lo: "uint (drop_bit (unat (8 * (3 - e))) m) = int (unat m div 256 ^ (3 - unat e))" if "e \<le> 3"
  proof -
    have "unat (8 * (3 - e)) = 8 * (3 - unat e)"
      using that by (simp add: unat_word_ariths unat_sub word_le_nat_alt)
    then have "unat (drop_bit (unat (8 * (3 - e))) m) = unat m div 256 ^ (3 - unat e)"
      by (simp add: unat_drop_bit power_mult)
    then show ?thesis unfolding uint_nat by (rule arg_cong)
  qed
  have hi: "push_bit (8 * (unat e - 3)) (uint m) = int (unat m * 256 ^ (unat e - 3))"
    unfolding uint_nat by (simp add: push_bit_eq_mult power_mult)
  show ?thesis
    unfolding CompactToBig_def Let_def m_def [symmetric] e_def [symmetric] bit23 ov
      um [symmetric] ue [symmetric]
    using lo by (auto simp: compact_decode_def hi word_le_nat_alt)
qed

lemma compact_len_bounds:
  assumes "0 < t"
  shows "256 ^ (compact_len t - 1) \<le> t" "t < 256 ^ compact_len t" "0 < compact_len t"
proof -
  let ?b = "BitLen_nat t" and ?n = "compact_len t"
  have b: "2 ^ (?b - 1) \<le> t" "t < 2 ^ ?b" "?b > 0" using BitLen_nat_bounds [OF assms] by auto
  have n: "?b \<le> 8 * ?n" "8 * (?n - 1) \<le> ?b - 1" "0 < ?n"
    using b(3) by (auto simp: compact_len_def)
  have "(256 :: nat) ^ (?n - 1) = 2 ^ (8 * (?n - 1))" by (simp add: power_mult)
  also have "\<dots> \<le> 2 ^ (?b - 1)" using n(2) by (intro power_increasing) auto
  finally show "256 ^ (?n - 1) \<le> t" using b(1) by linarith
  have "(2 :: nat) ^ ?b \<le> 2 ^ (8 * ?n)" using n(1) by (intro power_increasing) auto
  also have "\<dots> = 256 ^ ?n" by (simp add: power_mult)
  finally show "t < 256 ^ ?n" using b(2) by linarith
  show "0 < ?n" by (fact n(3))
qed

lemma compact_len_unique:
  assumes "256 ^ n \<le> t" "t < 256 ^ Suc n"
  shows "compact_len t = Suc n"
proof -
  have t: "0 < t" using assms(1) by (metis gr0I le_zero_eq power_not_zero zero_neq_numeral)
  note b = compact_len_bounds [OF t]
  have "compact_len t - 1 < Suc n"
    using b(1) assms(2) by (metis le_less_trans power_less_imp_less_exp one_less_numeral_iff semiring_norm(76))
  moreover have "n < compact_len t"
    using b(2) assms(1) by (metis le_less_trans power_less_imp_less_exp one_less_numeral_iff semiring_norm(76))
  ultimately show ?thesis by linarith
qed

lemma compact_lead_bounds:
  assumes "0 < t"
  shows "2 ^ 16 \<le> compact_lead t" "compact_lead t < 2 ^ 24"
proof -
  let ?n = "compact_len t"
  note b = compact_len_bounds [OF assms]
  have "2 ^ 16 \<le> compact_lead t \<and> compact_lead t < 2 ^ 24"
  proof (cases "?n \<le> 3")
    case True
    have p: "(256 :: nat) ^ (?n - 1) * 256 ^ (3 - ?n) = 256 ^ 2"
      "(256 :: nat) ^ ?n * 256 ^ (3 - ?n) = 256 ^ 3"
      using True b(3) by (simp_all flip: power_add)
    have "256 ^ 2 \<le> t * 256 ^ (3 - ?n)" "t * 256 ^ (3 - ?n) < 256 ^ 3"
      unfolding p [symmetric] using b(1,2) by simp_all
    with True show ?thesis by (simp add: compact_lead_def)
  next
    case False
    then have p: "(256 :: nat) ^ (?n - 1) = 256 ^ 2 * 256 ^ (?n - 3)"
      "(256 :: nat) ^ ?n = 256 ^ 3 * 256 ^ (?n - 3)"
      by (simp_all only: power_add [symmetric]) (rule arg_cong [of _ _ "\<lambda>n. 256 ^ n"], linarith)+
    have "256 ^ 2 \<le> t div 256 ^ (?n - 3)"
      using b(1) unfolding p by (simp add: less_eq_div_iff_mult_less_eq)
    moreover have "t div 256 ^ (?n - 3) < 256 ^ 3"
      using b(2) unfolding p by (simp add: div_less_iff_less_mult)
    ultimately show ?thesis using False by (simp add: compact_lead_def)
  qed
  then show "2 ^ 16 \<le> compact_lead t" "compact_lead t < 2 ^ 24" by auto
qed

lemma compact_len_256: "t < 2 ^ 256 \<Longrightarrow> compact_len t \<le> 32"
proof (cases "t = 0")
  case False
  assume "t < 2 ^ 256"
  then have "t < 256 ^ 32" by simp
  moreover from False have "256 ^ (compact_len t - 1) \<le> t" by (intro compact_len_bounds) simp
  ultimately have "(256 :: nat) ^ (compact_len t - 1) < 256 ^ 32" by linarith
  then have "compact_len t - 1 < 32" by (rule power_less_imp_less_exp [rotated]) simp
  then show ?thesis by simp
qed (simp add: compact_len_def BitLen_nat.simps)

lemma compact_fields_bounds:
  assumes "0 < t" "t < 2 ^ 256"
  shows "2 ^ 15 \<le> compact_mant t" "compact_mant t < 2 ^ 23" "0 < compact_exp t" "compact_exp t \<le> 33"
    "compact_exp t = 33 \<Longrightarrow> compact_mant t < 2 ^ 16"
  using compact_lead_bounds [OF assms(1)] compact_len_256 [OF assms(2)] compact_len_bounds(3) [OF assms(1)]
  by (auto simp: compact_mant_def compact_exp_def split: if_splits)

text \<open>The word that \<open>BigToCompact\<close> assembles holds the two fields side by side.\<close>

lemma or_push_bit24: "m < 2 ^ 24 \<Longrightarrow> (of_nat m OR push_bit 24 (of_nat e) :: u32) = of_nat (m + 2 ^ 24 * e)"
proof -
  assume m: "m < 2 ^ 24"
  have "of_nat m AND push_bit 24 (of_nat e) = (0 :: u32)"
  proof (rule bit_word_eqI)
    fix n assume "n < LENGTH(32)"
    have "\<not> bit m n" if "24 \<le> n"
    proof -
      have "(2 :: nat) ^ 24 \<le> 2 ^ n" using that by (intro power_increasing) auto
      with m have "m < 2 ^ n" by linarith
      then show ?thesis by (simp add: bit_iff_odd)
    qed
    then show "bit (of_nat m AND push_bit 24 (of_nat e) :: u32) n = bit (0 :: u32) n"
      by (auto simp: bit_and_iff bit_push_bit_iff bit_of_nat_iff)
  qed
  then have "(of_nat m OR push_bit 24 (of_nat e) :: u32) = of_nat m + push_bit 24 (of_nat e)"
    by (simp add: disjunctive_add_eq_or)
  then show ?thesis by (simp add: push_bit_eq_mult mult.commute)
qed

lemma compact_word_lead:
  assumes "0 < t" "t < 2 ^ 256"
  shows "(if (of_nat (compact_len t) :: u32) \<le> 3
          then push_bit (unat (8 * (3 - of_nat (compact_len t) :: u32))) (ucast (word_of_int (int t) :: u64) :: u32)
          else ucast ((word_of_int (drop_bit (8 * (unat (of_nat (compact_len t) :: u32) - 3)) (int t)) :: u64) AND 0xffffff))
       = of_nat (compact_lead t)"
proof -
  let ?n = "compact_len t"
  have n: "unat (of_nat ?n :: u32) = ?n" using compact_len_256 [OF assms(2)] by (simp add: unat_of_nat)
  have u: "(ucast (of_nat k :: u64) :: u32) = of_nat k" for k
    by (rule bit_word_eqI) (simp add: bit_ucast_iff bit_of_nat_iff)
  show ?thesis
  proof (cases "?n \<le> 3")
    case True
    then have "unat (8 * (3 - of_nat ?n :: u32)) = 8 * (3 - ?n)"
      by (simp add: unat_word_ariths unat_sub word_le_nat_alt n)
    moreover have "(of_nat ?n :: u32) \<le> 3" using True by (simp add: word_le_nat_alt n)
    ultimately show ?thesis
      using True u [of t] by (simp add: compact_lead_def push_bit_eq_mult power_mult mult.commute)
  next
    case False
    then have "\<not> (of_nat ?n :: u32) \<le> 3" by (simp add: word_le_nat_alt n)
    moreover have "drop_bit (8 * (?n - 3)) (int t) = int (compact_lead t)"
      using False by (simp add: compact_lead_def drop_bit_eq_div power_mult zdiv_int)
    moreover have "(of_nat (compact_lead t) :: u64) AND 0xffffff = of_nat (compact_lead t)"
    proof -
      have "(0xffffff :: u64) = mask 24" by (simp add: mask_eq_exp_minus_1)
      moreover have "take_bit 24 (of_nat (compact_lead t) :: u64) = of_nat (take_bit 24 (compact_lead t))"
        by (simp add: take_bit_of_nat)
      ultimately show ?thesis
        using compact_lead_bounds(2) [OF assms(1)]
        by (simp only: take_bit_eq_mask [symmetric]) (simp add: take_bit_nat_eq_self)
    qed
    ultimately show ?thesis by (simp add: n u)
  qed
qed

lemma BigToCompact_nat:
  assumes "0 < t" "t < 2 ^ 256"
  shows "BigToCompact (int t) = of_nat (compact_mant t + 2 ^ 24 * compact_exp t)"
proof -
  let ?c = "of_nat (compact_lead t) :: u32" and ?n = "of_nat (compact_len t) :: u32"
  have len: "(of_nat ((BitLen (int t) + 7) div 8) :: u32) = ?n"
    by (simp add: BitLen_def compact_len_def)
  have abs: "\<bar>int t\<bar> = int t" by simp
  have lead: "unat ?c = compact_lead t"
    using compact_lead_bounds [OF assms(1)] by (simp add: unat_of_nat)
  have high: "?c AND 0x00800000 \<noteq> 0 \<longleftrightarrow> compact_lead t \<ge> 2 ^ 23"
  proof -
    have "compact_lead t div 2 ^ 23 = (if compact_lead t \<ge> 2 ^ 23 then 1 else 0)"
      using compact_lead_bounds [OF assms(1)] by (auto intro!: div_nat_eqI)
    then show ?thesis unfolding bit23 lead by simp
  qed
  have drop: "drop_bit 8 ?c = of_nat (compact_lead t div 256)"
    by (rule unsigned_word_eqI [where ?'a = nat], unfold unat_drop_bit lead)
      (use compact_lead_bounds [OF assms(1)] in \<open>simp add: unat_of_nat\<close>)
  have "BigToCompact (int t) =
     (if compact_lead t \<ge> 2 ^ 23 then drop_bit 8 ?c OR push_bit 24 (?n + 1) else ?c OR push_bit 24 ?n)"
    using assms(1)
    unfolding BigToCompact_def Let_def abs len compact_word_lead [OF assms] high by simp
  also have "\<dots> = of_nat (compact_mant t) OR push_bit 24 (of_nat (compact_exp t))"
    by (simp add: compact_mant_def compact_exp_def drop add.commute)
  also have "\<dots> = of_nat (compact_mant t + 2 ^ 24 * compact_exp t)"
    using compact_fields_bounds(2) [OF assms] by (intro or_push_bit24) simp
  finally show ?thesis .
qed

text \<open>Compacting keeps the leading bytes: it clears the low \<open>compact_exp t - 3\<close> bytes of the number.\<close>

definition compact_floor :: "nat \<Rightarrow> nat" where
  "compact_floor t = t div 256 ^ (compact_exp t - 3) * 256 ^ (compact_exp t - 3)"

lemma compact_mant_high: "3 < compact_exp t \<Longrightarrow> compact_mant t = t div 256 ^ (compact_exp t - 3)"
proof -
  assume e: "3 < compact_exp t"
  show ?thesis
  proof (cases "compact_lead t \<ge> 2 ^ 23")
    case True
    with e have n: "compact_exp t - 3 = Suc (compact_len t - 3)" "3 \<le> compact_len t"
      by (auto simp: compact_exp_def)
    then have "compact_lead t = t div 256 ^ (compact_len t - 3)"
      by (simp add: compact_lead_def)
    with True n show ?thesis by (simp add: compact_mant_def) (simp only: div_mult2_eq [symmetric] mult.commute)
  next
    case False
    with e show ?thesis by (simp add: compact_mant_def compact_exp_def compact_lead_def)
  qed
qed

lemma compact_mant_low:
  assumes "0 < t" "compact_exp t \<le> 3"
  shows "compact_mant t = t * 256 ^ (3 - compact_exp t)"
proof (cases "compact_lead t \<ge> 2 ^ 23")
  case True
  with assms have n: "3 - compact_len t = Suc (3 - compact_exp t)" "compact_len t \<le> 3"
    by (auto simp: compact_exp_def)
  then have "compact_lead t = t * 256 ^ (3 - compact_exp t) * 256"
    by (simp add: compact_lead_def)
  with True show ?thesis by (simp add: compact_mant_def)
next
  case False
  with assms show ?thesis by (simp add: compact_mant_def compact_exp_def compact_lead_def)
qed

lemma compact_decode_floor:
  "0 < t \<Longrightarrow> compact_decode (compact_mant t) (compact_exp t) = compact_floor t"
  by (cases "compact_exp t \<le> 3")
    (simp_all add: compact_decode_def compact_floor_def compact_mant_low compact_mant_high)

lemma CompactToBig_BigToCompact:
  assumes "0 < t" "t < 2 ^ 256"
  shows "CompactToBig (BigToCompact (int t)) = int (compact_floor t)"
proof -
  let ?m = "compact_mant t" and ?e = "compact_exp t"
  note f = compact_fields_bounds [OF assms]
  have u: "unat (BigToCompact (int t)) = ?m + 2 ^ 24 * ?e"
    unfolding BigToCompact_nat [OF assms] unat_of_nat using f by simp
  have "?m + 2 ^ 24 * ?e = ?m + 2 ^ 23 * (2 * ?e)" by simp
  then have "(?m + 2 ^ 24 * ?e) mod 2 ^ 23 = ?m" "(?m + 2 ^ 24 * ?e) div 2 ^ 23 = 2 * ?e"
    using f(2) by (simp_all only: mod_mult_self2 div_mult_self2) simp_all
  moreover have "(?m + 2 ^ 24 * ?e) div 2 ^ 24 = ?e" using f(2) by simp
  moreover have "\<not> compact_overflow ?m ?e"
    using f by (auto simp: compact_overflow_def)
  ultimately show ?thesis
    by (simp add: CompactToBig_nat u Let_def compact_decode_floor assms del: power_numeral)
qed

lemma compact_floor_le: "compact_floor t \<le> t"
  by (simp add: compact_floor_def div_times_less_eq_dividend)

lemma compact_floor_error:
  assumes "0 < t" "t < 2 ^ 256"
  shows "t - compact_floor t \<le> t div 2 ^ 15"
proof (cases "compact_exp t \<le> 3")
  case True
  then show ?thesis by (simp add: compact_floor_def)
next
  case False
  let ?k = "compact_exp t - 3"
  have "2 ^ 15 \<le> t div 256 ^ ?k"
    using compact_fields_bounds(1) [OF assms] False by (simp add: compact_mant_high)
  then have "2 ^ 15 * 256 ^ ?k \<le> t"
    by (metis div_times_less_eq_dividend dual_order.trans mult_le_mono1)
  then have "256 ^ ?k \<le> t div 2 ^ 15"
    by (simp add: less_eq_div_iff_mult_less_eq mult.commute)
  moreover have "t - compact_floor t < 256 ^ ?k"
    by (simp add: compact_floor_def minus_div_mult_eq_mod)
  ultimately show ?thesis by linarith
qed

lemma compact_floor_fields:
  assumes t: "0 < t" "t < 2 ^ 256"
  shows "compact_mant (compact_floor t) = compact_mant t \<and> compact_exp (compact_floor t) = compact_exp t"
proof (cases "compact_exp t \<le> 3")
  case True
  then show ?thesis by (simp add: compact_floor_def)
next
  case False
  let ?n = "compact_len t" and ?k = "compact_exp t - 3"
  have n: "3 \<le> ?n" and k: "?k = ?n - 3 \<or> ?k = Suc (?n - 3)"
    using False by (auto simp: compact_exp_def split: if_splits)
  note b = compact_len_bounds [OF t(1)]
  have "?k \<le> ?n - 1" using n k by auto
  then have "(256 :: nat) ^ (?n - 1) = 256 ^ (?n - 1 - ?k) * 256 ^ ?k"
    by (simp flip: power_add)
  moreover from this have "256 ^ (?n - 1 - ?k) \<le> t div 256 ^ ?k"
    using b(1) by (simp add: less_eq_div_iff_mult_less_eq)
  ultimately have "256 ^ (?n - 1) \<le> compact_floor t"
    unfolding compact_floor_def by simp
  moreover have "compact_floor t < 256 ^ Suc (?n - 1)"
    using compact_floor_le [of t] b(2,3) by simp
  ultimately have len: "compact_len (compact_floor t) = ?n"
    using compact_len_unique b(3) by fastforce
  have lead: "compact_lead (compact_floor t) =
      (if ?k = ?n - 3 then compact_lead t else compact_lead t div 256 * 256)"
  proof (cases "?k = ?n - 3")
    case True
    with n show ?thesis unfolding compact_lead_def len by (auto simp: compact_floor_def)
  next
    case False
    with k have k: "?k = Suc (?n - 3)" by simp
    have "compact_floor t = t div 256 ^ (?n - 3) div 256 * 256 * 256 ^ (?n - 3)"
      unfolding compact_floor_def k by (simp add: div_mult2_eq [symmetric] mult.commute)
    with n False show ?thesis unfolding compact_lead_def len by auto
  qed
  show ?thesis
  proof (cases "compact_lead t \<ge> 2 ^ 23")
    case True
    with n have "?k \<noteq> ?n - 3" by (simp add: compact_exp_def)
    moreover have "2 ^ 23 \<le> compact_lead t div 256 * 256" using True by simp
    ultimately show ?thesis using True lead by (simp add: compact_mant_def compact_exp_def len)
  next
    case False
    then have "?k = ?n - 3" by (simp add: compact_exp_def)
    with False lead show ?thesis by (simp add: compact_mant_def compact_exp_def len)
  qed
qed

lemma compact_floor_pos: "0 < t \<Longrightarrow> t < 2 ^ 256 \<Longrightarrow> 0 < compact_floor t"
  using compact_floor_error [of t] by (cases "compact_floor t = 0") auto

lemma compact_decode_less: "\<not> compact_overflow m e \<Longrightarrow> m < 2 ^ 23 \<Longrightarrow> compact_decode m e < 2 ^ 256"
proof (cases "m = 0")
  case False
  assume ov: "\<not> compact_overflow m e" and m: "m < 2 ^ 23"
  show ?thesis
  proof (cases "e \<le> 3")
    case True
    have "m div 256 ^ (3 - e) \<le> m" by (rule div_le_dividend)
    also have "m < 2 ^ 256" using m by simp
    finally show ?thesis using True by (simp add: compact_decode_def)
  next
    case False
    from ov \<open>m \<noteq> 0\<close> m have "m * 256 ^ (e - 3) < 2 ^ 256"
    proof -
      consider "e \<le> 32" | "e = 33" | "e = 34" using ov \<open>m \<noteq> 0\<close> by (fastforce simp: compact_overflow_def)
      then show ?thesis
      proof cases
        case 1
        have "m * 256 ^ (e - 3) \<le> m * 256 ^ 29"
          using 1 by (intro mult_left_mono power_increasing) auto
        also have "\<dots> < 2 ^ 256" using m by simp
        finally show ?thesis .
      qed (use ov in \<open>auto simp: compact_overflow_def\<close>)
    qed
    with False show ?thesis by (simp add: compact_decode_def)
  qed
qed (simp add: compact_decode_def)

lemma CompactToBig_bounds: "0 \<le> CompactToBig c" "CompactToBig c < 2 ^ 256"
proof -
  have "int (compact_decode m e) < 2 ^ 256" if "\<not> compact_overflow m e" "m < 2 ^ 23" for m e
  proof -
    have "int (compact_decode m e) < int (2 ^ 256)"
      unfolding of_nat_less_iff by (rule compact_decode_less [OF that])
    then show ?thesis by simp
  qed
  then show "CompactToBig c < 2 ^ 256"
    by (auto simp: CompactToBig_nat Let_def simp del: power_numeral)
  show "0 \<le> CompactToBig c"
    by (auto simp: CompactToBig_nat Let_def)
qed

lemma big_nat_cases:
  assumes "0 \<le> t" "t < (2 :: int) ^ 256"
  obtains n where "t = int n" "n < 2 ^ 256"
proof
  show "t = int (nat t)" using assms by simp
  have "int (nat t) < int (2 ^ 256)" using assms by simp
  then show "nat t < 2 ^ 256" by (simp only: of_nat_less_iff)
qed

lemma BigToCompact_0 [simp]: "BigToCompact 0 = 0"
  by (simp add: BigToCompact_def)

lemma CompactToBig_0 [simp]: "CompactToBig 0 = 0"
  by (simp add: CompactToBig_def Let_def)

lemma compact_round_trip:
  assumes "0 \<le> t" "t < 2 ^ 256"
  shows "CompactToBig (BigToCompact t) \<le> t" "t - CompactToBig (BigToCompact t) \<le> t div 2 ^ 15"
    "0 < t \<Longrightarrow> 0 < CompactToBig (BigToCompact t)"
    "BigToCompact (CompactToBig (BigToCompact t)) = BigToCompact t"
proof -
  obtain n where n: "t = int n" "n < 2 ^ 256" using assms by (rule big_nat_cases)
  have "CompactToBig (BigToCompact t) \<le> t \<and> t - CompactToBig (BigToCompact t) \<le> t div 2 ^ 15
    \<and> (0 < t \<longrightarrow> 0 < CompactToBig (BigToCompact t))
    \<and> BigToCompact (CompactToBig (BigToCompact t)) = BigToCompact t"
  proof (cases "n = 0")
    case False
    then have pos: "0 < n" by simp
    note c = CompactToBig_BigToCompact [OF pos n(2)]
    have fl: "0 < compact_floor n" "compact_floor n < 2 ^ 256"
      using compact_floor_pos [OF pos n(2)] compact_floor_le [of n] n(2) by linarith+
    have "int (n - compact_floor n) \<le> int (n div 2 ^ 15)"
      unfolding of_nat_le_iff by (rule compact_floor_error [OF pos n(2)])
    then have "int n - int (compact_floor n) \<le> int n div 2 ^ 15"
      using compact_floor_le [of n] by (simp add: of_nat_diff zdiv_int)
    moreover have "BigToCompact (int (compact_floor n)) = BigToCompact (int n)"
      using compact_floor_fields [OF pos n(2)]
      by (simp add: BigToCompact_nat [OF fl] BigToCompact_nat [OF pos n(2)])
    ultimately show ?thesis using fl compact_floor_le [of n] by (simp add: n(1) c)
  qed (simp add: n)
  then show "CompactToBig (BigToCompact t) \<le> t" "t - CompactToBig (BigToCompact t) \<le> t div 2 ^ 15"
    "0 < t \<Longrightarrow> 0 < CompactToBig (BigToCompact t)"
    "BigToCompact (CompactToBig (BigToCompact t)) = BigToCompact t" by auto
qed

lemma hash_nat_CompactToHash: "int (hash_nat (CompactToHash c)) = CompactToBig c"
proof -
  have "0 \<le> CompactToBig c" "CompactToBig c < 2 ^ 256" by (rule CompactToBig_bounds)+
  then obtain n where n: "CompactToBig c = int n" "n < 2 ^ 256" by (rule big_nat_cases)
  have "(2 :: nat) ^ 256 = 256 ^ 32" by simp
  with n(2) have "n < 256 ^ 32" by (simp only:)
  then show ?thesis
    by (simp add: CompactToHash_def big_Bytes_def n(1) hash_nat_copy_le_bytes)
qed

lemma CalcWork_pos_iff: "0 < CalcWork b \<longleftrightarrow> 0 < CompactToBig b"
proof -
  have "0 < (2 :: int) ^ 256 div (CompactToBig b + 1)" if "0 < CompactToBig b"
    using that CompactToBig_bounds(2) [of b] by (simp add: pos_imp_zdiv_pos_iff del: power_numeral)
  then show ?thesis by (auto simp: CalcWork_def Let_def push_bit_eq_mult simp del: power_numeral)
qed

lemma CalcWork_nonneg: "0 \<le> CalcWork b"
  by (simp add: CalcWork_def Let_def push_bit_eq_mult pos_imp_zdiv_nonneg_iff del: power_numeral)

lemma CalcWork_antimono:
  assumes "0 < CompactToBig a" "CompactToBig a \<le> CompactToBig b"
  shows "CalcWork b \<le> CalcWork a"
  using assms by (simp add: CalcWork_def Let_def push_bit_eq_mult zdiv_mono2 del: power_numeral)

section \<open>Properties\<close>

text \<open>C28. A target below \<open>2 ^ 256\<close> that is compacted and expanded again never grows, loses at most one part
  in \<open>2 ^ 15\<close>, does not become zero, and compacting the result again gives the same bits: the
  compact form is a normal form.\<close>

theorem compact_target_precision:
  assumes "0 \<le> t" "t < 2 ^ 256"
  shows "CompactToBig (BigToCompact t) \<le> t \<and> t - CompactToBig (BigToCompact t) \<le> t div 2 ^ 15
     \<and> (0 < t \<longrightarrow> 0 < CompactToBig (BigToCompact t))
     \<and> BigToCompact (CompactToBig (BigToCompact t)) = BigToCompact t"
  using compact_round_trip [OF assms] by blast

theorem compact_target_precision_witness:
  "CompactToBig (BigToCompact 0x123456789a) \<le> 0x123456789a
   \<and> 0x123456789a - CompactToBig (BigToCompact 0x123456789a) \<le> 0x123456789a div 2 ^ 15
   \<and> 0 < CompactToBig (BigToCompact 0x123456789a)"
  using compact_target_precision [of "0x123456789a"] by simp

text \<open>The proof-of-work check accepts a hash exactly when the hash, read as a little-endian number, is at
  most the target the bits encode; every target lies in \<open>[0, 2 ^ 256)\<close>, so the conversion of the
  target to 32 bytes loses nothing.\<close>

theorem proof_of_work_iff:
  "(ValidateProofOfWork h bits = Inr () \<longleftrightarrow> HashToBig h \<le> CompactToBig bits)
   \<and> HashToBig (CompactToHash bits) = CompactToBig bits
   \<and> 0 \<le> CompactToBig bits \<and> CompactToBig bits < 2 ^ 256"
  using CompactToBig_bounds [of bits] hash_nat_CompactToHash [of bits]
  by (auto simp: ValidateProofOfWork_def Let_def Hash_LessOrEqual_nat HashToBig_nat)

text \<open>The work of a header is positive exactly when its target is, and a smaller positive target never
  counts for less work.\<close>

theorem work_antitone:
  "(0 < CalcWork a \<longleftrightarrow> 0 < CompactToBig a)
   \<and> (0 < CompactToBig a \<and> CompactToBig a \<le> CompactToBig b \<longrightarrow> CalcWork b \<le> CalcWork a)"
  using CalcWork_pos_iff CalcWork_antimono by blast

theorem work_antitone_witness:
  "0 < CompactToBig 0x1d00ffff \<and> CalcWork 0x207fffff \<le> CalcWork 0x1d00ffff"
proof -
  have "0 < CompactToBig 0x1d00ffff" "CompactToBig 0x1d00ffff \<le> CompactToBig 0x207fffff"
    by code_simp+
  with work_antitone [of "0x1d00ffff" "0x207fffff"] show ?thesis by blast
qed

end
