(* ===== verification/Params.thy ===== *)
theory Params
  imports Crypto "HOL-Library.Signed_Division"
begin

text \<open>
  Network parameters (\<^verbatim>\<open>internal/params\<close>): the parameter struct, the subsidy schedule, the
  genesis template and the three networks. A \<^verbatim>\<open>time.Duration\<close> is its number of nanoseconds. Seed
  addresses are not modelled.
\<close>

section \<open>Definitions\<close>

abbreviation (input) Second :: int where "Second \<equiv> 1000000000"

text \<open>Whole seconds of a duration: \<^verbatim>\<open>d / time.Second\<close>, truncated as Go truncates.\<close>

definition dur_secs :: "int \<Rightarrow> int" where
  "dur_secs d = d sdiv Second"

record ChainParams =
  par_Name :: string
  par_DataDirName :: string
  par_NetworkMagic :: bytes
  par_DefaultPort :: u16
  par_AddressPrefix :: byte
  par_GenesisBlock :: Block
  par_GenesisHash :: hash
  par_TargetBlockSpacing :: int
  par_RetargetInterval :: u32
  par_TargetTimespan :: int
  par_MaxTimeFutureDrift :: int
  par_MinTimestampRule :: string
  par_InitialBits :: u32
  par_MinBits :: u32
  par_NoRetarget :: bool
  par_AllowMinDifficultyBlocks :: bool
  par_MaxBlockSize :: u32
  par_MaxBlockTxCount :: u32
  par_InitialSubsidy :: u64
  par_SubsidyHalvingInterval :: u32
  par_CoinbaseMaturity :: u32
  par_MaxReorgDepth :: u32
  par_MaxMempoolSize :: u32
  par_MinRelayTxFee :: u64
  par_MinRelayTxFeeRate :: u64
  par_MempoolExpiry :: int
  par_ActivationHeights :: "string \<rightharpoonup> u32"

definition CalcSubsidy :: "ChainParams \<Rightarrow> u32 \<Rightarrow> u64" where
  "CalcSubsidy p height =
     (if par_SubsidyHalvingInterval p = 0 then par_InitialSubsidy p
      else let halvings = height div par_SubsidyHalvingInterval p
        in if halvings \<ge> 64 then 0 else drop_bit (unat halvings) (par_InitialSubsidy p))"

record GenesisConfig =
  gc_NetworkName :: string
  gc_CoinbaseMessage :: bytes
  gc_Timestamp :: u32
  gc_Bits :: u32
  gc_Version :: u32
  gc_Reward :: u64
  gc_RewardScript :: bytes
  gc_ExtraOutputs :: "TxOutput list"

definition BuildGenesisBlock :: "GenesisConfig \<Rightarrow> Block" where
  "BuildGenesisBlock cfg =
     (let outputs = [\<lparr>out_Value = gc_Reward cfg, out_PkScript = gc_RewardScript cfg\<rparr>] @ gc_ExtraOutputs cfg;
          coinbaseTx = \<lparr>tx_Version = 1,
            tx_Inputs = [\<lparr>in_PreviousOutPoint = CoinbaseOutPoint,
                          in_SignatureScript = gc_CoinbaseMessage cfg, in_Sequence = 0xFFFFFFFF\<rparr>],
            tx_Outputs = outputs, tx_LockTime = 0\<rparr>
      in \<lparr>blk_Header = \<lparr>hdr_Version = gc_Version cfg, hdr_PrevBlock = ZeroHash,
            hdr_MerkleRoot = ZeroHash, hdr_Timestamp = gc_Timestamp cfg,
            hdr_Bits = gc_Bits cfg, hdr_Nonce = 0\<rparr>,
          blk_Transactions = [coinbaseTx]\<rparr>)"

definition MaxMoneyValue :: u64 where
  "MaxMoneyValue = 2099999997690000"

definition MaxTxSize :: nat where
  "MaxTxSize = 100000"

definition TestnetPremineAmount :: u64 where
  "TestnetPremineAmount = MaxMoneyValue div 5"

definition str_bytes :: "string \<Rightarrow> bytes" where
  "str_bytes s = map of_char s"

definition TestnetBurnScript :: bytes where
  "TestnetBurnScript = str_bytes ''burn:testnet:premine:v1''"

text \<open>A hash given by its display form, the digits of the number it denotes.\<close>

definition display_hash :: "256 word \<Rightarrow> hash" where
  "display_hash w = hash_copy (put_le 32 w)"

definition genesis_coinbase :: "TxOutput list \<Rightarrow> Transaction" where
  "genesis_coinbase outs = \<lparr>tx_Version = 1,
     tx_Inputs = [\<lparr>in_PreviousOutPoint = CoinbaseOutPoint,
                   in_SignatureScript = str_bytes ''fairchain genesis'', in_Sequence = 0xFFFFFFFF\<rparr>],
     tx_Outputs = outs, tx_LockTime = 0\<rparr>"

definition Mainnet :: ChainParams where
  "Mainnet = \<lparr>
     par_Name = ''mainnet'', par_DataDirName = [],
     par_NetworkMagic = [0xFA, 0x1C, 0xC0, 0x01], par_DefaultPort = 19333, par_AddressPrefix = 0x00,
     par_GenesisBlock = \<lparr>
       blk_Header = \<lparr>hdr_Version = 1, hdr_PrevBlock = ZeroHash,
         hdr_MerkleRoot = display_hash 0x2fd5062d25f4216759232c8cb8657659bdf854a0f00dfa63639bea6d0a1eeac6,
         hdr_Timestamp = 1774175035, hdr_Bits = 0x1e7ce359, hdr_Nonce = 2147491670\<rparr>,
       blk_Transactions = [genesis_coinbase [\<lparr>out_Value = 5000000000, out_PkScript = [0x00]\<rparr>]]\<rparr>,
     par_GenesisHash = display_hash 0xed66675f3d5ca4cb16b1623252fbdfe49dbde4c021277ae0b026d09823a4cf56,
     par_TargetBlockSpacing = 10 * 60 * Second, par_RetargetInterval = 144,
     par_TargetTimespan = 144 * 10 * 60 * Second, par_MaxTimeFutureDrift = 2 * 3600 * Second,
     par_MinTimestampRule = ''median-11'',
     par_InitialBits = 0x1e7ce359, par_MinBits = 0x1f7fffff, par_NoRetarget = False,
     par_AllowMinDifficultyBlocks = False,
     par_MaxBlockSize = 1000000, par_MaxBlockTxCount = 10000,
     par_InitialSubsidy = 5000000000, par_SubsidyHalvingInterval = 210000,
     par_CoinbaseMaturity = 100, par_MaxReorgDepth = 288,
     par_MaxMempoolSize = 5000, par_MinRelayTxFee = 1000, par_MinRelayTxFeeRate = 1,
     par_MempoolExpiry = 336 * 3600 * Second,
     par_ActivationHeights = [''locktime'' \<mapsto> 1]\<rparr>"

definition Testnet :: ChainParams where
  "Testnet = \<lparr>
     par_Name = ''testnet'', par_DataDirName = ''testnet0'',
     par_NetworkMagic = [0xFA, 0x1C, 0xC0, 0x02], par_DefaultPort = 19334, par_AddressPrefix = 0x6F,
     par_GenesisBlock = \<lparr>
       blk_Header = \<lparr>hdr_Version = 1, hdr_PrevBlock = ZeroHash,
         hdr_MerkleRoot = display_hash 0x29dfe30c8e0e83b3bfa7a4c347fb8d969965875c77279c8280a068a45c73de6a,
         hdr_Timestamp = 1774176069, hdr_Bits = 0x2000ea44, hdr_Nonce = 268435471\<rparr>,
       blk_Transactions = [genesis_coinbase
         [\<lparr>out_Value = 50000000, out_PkScript = [0x00]\<rparr>,
          \<lparr>out_Value = TestnetPremineAmount, out_PkScript = TestnetBurnScript\<rparr>]]\<rparr>,
     par_GenesisHash = display_hash 0x2a8f71957c5911c51e45ea71fb8a68b0c8cb5e37c71b355df3dc51b321dba373,
     par_TargetBlockSpacing = 5 * Second, par_RetargetInterval = 20,
     par_TargetTimespan = 20 * 5 * Second, par_MaxTimeFutureDrift = 2 * 60 * Second,
     par_MinTimestampRule = ''median-11'',
     par_InitialBits = 0x2000ea44, par_MinBits = 0x207fffff, par_NoRetarget = False,
     par_AllowMinDifficultyBlocks = True,
     par_MaxBlockSize = 2000000, par_MaxBlockTxCount = 10000,
     par_InitialSubsidy = 50000000, par_SubsidyHalvingInterval = 21000000,
     par_CoinbaseMaturity = 10, par_MaxReorgDepth = 1000,
     par_MaxMempoolSize = 5000, par_MinRelayTxFee = 100, par_MinRelayTxFeeRate = 1,
     par_MempoolExpiry = 336 * 3600 * Second,
     par_ActivationHeights = [''locktime'' \<mapsto> 1, ''mindiffblocks'' \<mapsto> 15000]\<rparr>"

text \<open>Regtest leaves the genesis fields at their zero values until \<^verbatim>\<open>InitGenesis\<close> sets them.\<close>

definition zero_block :: Block where
  "zero_block = \<lparr>blk_Header = \<lparr>hdr_Version = 0, hdr_PrevBlock = ZeroHash, hdr_MerkleRoot = ZeroHash,
     hdr_Timestamp = 0, hdr_Bits = 0, hdr_Nonce = 0\<rparr>, blk_Transactions = []\<rparr>"

definition Regtest :: ChainParams where
  "Regtest = \<lparr>
     par_Name = ''regtest'', par_DataDirName = ''regtest'',
     par_NetworkMagic = [0xFA, 0x1C, 0xC0, 0xFF], par_DefaultPort = 19444, par_AddressPrefix = 0x6F,
     par_GenesisBlock = zero_block, par_GenesisHash = ZeroHash,
     par_TargetBlockSpacing = 1 * Second, par_RetargetInterval = 1,
     par_TargetTimespan = 1 * Second, par_MaxTimeFutureDrift = 10 * 60 * Second,
     par_MinTimestampRule = ''prev+1'',
     par_InitialBits = 0x207fffff, par_MinBits = 0x207fffff, par_NoRetarget = True,
     par_AllowMinDifficultyBlocks = False,
     par_MaxBlockSize = 4000000, par_MaxBlockTxCount = 50000,
     par_InitialSubsidy = 5000000000, par_SubsidyHalvingInterval = 150,
     par_CoinbaseMaturity = 1, par_MaxReorgDepth = 0,
     par_MaxMempoolSize = 10000, par_MinRelayTxFee = 0, par_MinRelayTxFeeRate = 0,
     par_MempoolExpiry = 1 * 3600 * Second,
     par_ActivationHeights = [''locktime'' \<mapsto> 1]\<rparr>"

definition NetworkByName :: "string \<Rightarrow> ChainParams option" where
  "NetworkByName name =
     (if name = ''mainnet'' then Some Mainnet
      else if name = ''testnet'' then Some Testnet
      else if name = ''regtest'' then Some Regtest
      else None)"

definition InitGenesis :: "ChainParams \<Rightarrow> Block \<Rightarrow> hash \<Rightarrow> ChainParams" where
  "InitGenesis p genesisBlock genesisHash =
     p\<lparr>par_GenesisBlock := genesisBlock, par_GenesisHash := genesisHash\<rparr>"

section \<open>The subsidy schedule\<close>

lemma unat_CalcSubsidy:
  assumes "par_SubsidyHalvingInterval p \<noteq> 0" "h < 2 ^ 32"
  shows "unat (CalcSubsidy p (of_nat h)) =
     (let k = h div unat (par_SubsidyHalvingInterval p)
      in if k \<ge> 64 then 0 else unat (par_InitialSubsidy p) div 2 ^ k)"
proof -
  have "unat (of_nat h :: u32) = h" using assms(2) by (simp add: unat_of_nat)
  then have k: "unat ((of_nat h :: u32) div par_SubsidyHalvingInterval p) = h div unat (par_SubsidyHalvingInterval p)"
    by (simp add: unat_div)
  show ?thesis
    using assms(1) unfolding CalcSubsidy_def Let_def word_le_nat_alt k
    by (simp add: unat_drop_bit)
qed

text \<open>Summing a step function era by era.\<close>

lemma sum_eras: "(\<Sum>h < k * i. f (h div i)) = i * (\<Sum>e < k. f e)" for f :: "nat \<Rightarrow> nat"
proof (induction k)
  case (Suc k)
  have "(\<Sum>h < Suc k * i. f (h div i)) = (\<Sum>h < k * i. f (h div i)) + (\<Sum>h = k * i..<k * i + i. f (h div i))"
    by (simp add: lessThan_atLeast0 sum.atLeastLessThan_concat add.commute)
  moreover have "(\<Sum>h = k * i..<k * i + i. f (h div i)) = (\<Sum>h = k * i..<k * i + i. f k)"
    by (rule sum.cong) (auto intro!: arg_cong [of _ _ f] div_nat_eqI simp: algebra_simps)
  ultimately show ?case using Suc by (simp add: algebra_simps)
qed simp

definition era_sum :: "ChainParams \<Rightarrow> nat" where
  "era_sum p = unat (par_SubsidyHalvingInterval p) * (\<Sum>e < 64. unat (par_InitialSubsidy p) div 2 ^ e)"

lemma subsidy_sum_le:
  assumes "par_SubsidyHalvingInterval p \<noteq> 0" "n \<le> 2 ^ 32"
  shows "(\<Sum>h < n. unat (CalcSubsidy p (of_nat h))) \<le> era_sum p"
proof -
  let ?i = "unat (par_SubsidyHalvingInterval p)"
  let ?f = "\<lambda>e. if e \<ge> 64 then 0 else unat (par_InitialSubsidy p) div 2 ^ e"
  have i: "0 < ?i" using assms(1) by (simp add: unat_gt_0)
  have "(\<Sum>h < n. unat (CalcSubsidy p (of_nat h))) = (\<Sum>h < n. ?f (h div ?i))"
    by (rule sum.cong) (use assms in \<open>simp_all add: unat_CalcSubsidy Let_def\<close>)
  also have "\<dots> \<le> (\<Sum>h < max n (64 * ?i). ?f (h div ?i))"
    by (rule sum_mono2) auto
  also have "\<dots> = (\<Sum>h < 64 * ?i. ?f (h div ?i))"
  proof (rule sum.mono_neutral_right)
    show "\<forall>h \<in> {..<max n (64 * ?i)} - {..<64 * ?i}. ?f (h div ?i) = 0"
      using i by (auto simp: not_less less_eq_div_iff_mult_less_eq)
  qed auto
  also have "\<dots> = ?i * (\<Sum>e < 64. ?f e)" by (rule sum_eras)
  also have "\<dots> = era_sum p" by (simp add: era_sum_def)
  finally show ?thesis .
qed

lemma subsidy_sum_total:
  assumes "par_SubsidyHalvingInterval p \<noteq> 0" "64 * unat (par_SubsidyHalvingInterval p) \<le> 2 ^ 32"
  shows "(\<Sum>h < 2 ^ 32. unat (CalcSubsidy p (of_nat h))) = era_sum p"
proof (rule antisym)
  show "(\<Sum>h < 2 ^ 32. unat (CalcSubsidy p (of_nat h))) \<le> era_sum p"
    by (rule subsidy_sum_le [OF assms(1)]) simp
  let ?i = "unat (par_SubsidyHalvingInterval p)"
  let ?f = "\<lambda>e. if e \<ge> 64 then 0 else unat (par_InitialSubsidy p) div 2 ^ e"
  have "era_sum p = ?i * (\<Sum>e < 64. ?f e)" by (simp add: era_sum_def)
  also have "\<dots> = (\<Sum>h < 64 * ?i. ?f (h div ?i))" by (rule sum_eras [symmetric])
  also have "\<dots> = (\<Sum>h < 64 * ?i. unat (CalcSubsidy p (of_nat h)))"
    by (rule sum.cong) (use assms in \<open>simp_all add: unat_CalcSubsidy Let_def\<close>)
  also have "\<dots> \<le> (\<Sum>h < 2 ^ 32. unat (CalcSubsidy p (of_nat h)))"
    by (rule sum_mono2) (use assms in auto)
  finally show "era_sum p \<le> (\<Sum>h < 2 ^ 32. unat (CalcSubsidy p (of_nat h)))" .
qed

lemma era_sum_networks:
  "era_sum Mainnet = unat MaxMoneyValue"
  "era_sum Testnet \<le> unat MaxMoneyValue"
  by (simp_all add: era_sum_def Mainnet_def Testnet_def MaxMoneyValue_def lessThan_nat_numeral lessThan_Suc)

section \<open>Properties\<close>

text \<open>On mainnet the subsidies of all \<open>2 ^ 32\<close> block heights add up to exactly \<^verbatim>\<open>MaxMoneyValue\<close>.\<close>

theorem mainnet_issuance: "(\<Sum>h < 2 ^ 32. unat (CalcSubsidy Mainnet (of_nat h))) = unat MaxMoneyValue"
proof -
  have "64 * unat (par_SubsidyHalvingInterval Mainnet) \<le> 2 ^ 32" "par_SubsidyHalvingInterval Mainnet \<noteq> 0"
    by (simp_all add: Mainnet_def)
  from subsidy_sum_total [OF this(2,1)] show ?thesis by (simp only: era_sum_networks)
qed

end
