(* ===== verification/Utxo.thy ===== *)
theory Utxo
  imports Params
begin

text \<open>
  The set of unspent outputs (\<^verbatim>\<open>internal/utxo/utxo.go\<close>): entries and undo data with their storage
  formats, the set and its operations, and connecting and disconnecting a block. The set is a map
  from 36-byte outpoint keys. \<^verbatim>\<open>ConnectBlock\<close> is modelled with the source's bookkeeping (what is
  spent and created inside the block, the lists of removals and additions applied at the end);
  it is shown to refine the plain reading \<open>apply_block\<close>, which runs the transactions one after
  the other on the set. Locks are not modelled: the operations are atomic.
\<close>

section \<open>Entries and undo data\<close>

record UtxoEntry =
  ue_Value :: u64
  ue_PkScript :: bytes
  ue_Height :: u32
  ue_IsCoinbase :: bool

definition UtxoEntry_Serialize :: "UtxoEntry \<Rightarrow> bytes" where
  "UtxoEntry_Serialize e =
     put_le 8 (ue_Value e) @ put_le 4 (ue_Height e) @ [if ue_IsCoinbase e then 0x01 else 0]
     @ PutVarInt (of_nat (length (ue_PkScript e))) @ ue_PkScript e"

text \<open>
  Go's \<^verbatim>\<open>int\<close> has 64 bits: \<open>go_len n\<close> is a sum of a length and an unsigned number that was
  converted to \<^verbatim>\<open>int\<close>, wrapped as Go wraps it. \<open>PanicMakeSlice\<close> and \<open>PanicSliceBounds\<close> are the
  run-time panics of a negative length and of an upper bound below the lower one.
\<close>

datatype utxo_decode_error =
    EntryTooShort nat
  | EntryVarInt decode_error
  | EntryTruncated
  | UndoVarInt decode_error
  | UndoTruncated
  | UndoEntryTruncated
  | PanicMakeSlice
  | PanicSliceBounds

definition go_add :: "nat \<Rightarrow> u64 \<Rightarrow> int" where
  "go_add n x = sint (of_nat n + x)"

definition DeserializeUtxoEntry :: "bytes \<Rightarrow> utxo_decode_error + UtxoEntry" where
  "DeserializeUtxoEntry data =
     (if length data < 13 then Inl (EntryTooShort (length data))
      else let rest = drop 13 data in
        (case ReadVarIntFromBytes rest of
           Inl e \<Rightarrow> Inl (EntryVarInt e)
         | Inr scriptLen \<Rightarrow>
             let viSize = VarIntSize scriptLen in
             if int (length rest) < go_add viSize scriptLen then Inl EntryTruncated
             else if sint scriptLen < 0 \<or> go_add viSize scriptLen < 0 then Inl PanicMakeSlice
             else Inr \<lparr>ue_Value = get_le (take 8 data),
                       ue_PkScript = take (unat scriptLen) (drop viSize rest),
                       ue_Height = get_le (take 4 (drop 8 data)),
                       ue_IsCoinbase = (data ! 12 AND 0x01 \<noteq> 0)\<rparr>))"

definition OutpointKey :: "hash \<Rightarrow> u32 \<Rightarrow> bytes" where
  "OutpointKey txHash index = hash_bytes txHash @ put_le 4 index"

record SpentOutput =
  so_OutPoint :: OutPoint
  so_Entry :: UtxoEntry

record BlockUndoData =
  undo_SpentOutputs :: "SpentOutput list"

definition SpentOutput_bytes :: "SpentOutput \<Rightarrow> bytes" where
  "SpentOutput_bytes so =
     hash_bytes (op_Hash (so_OutPoint so)) @ put_le 4 (op_Index (so_OutPoint so))
     @ (let entryBytes = UtxoEntry_Serialize (so_Entry so)
        in PutVarInt (of_nat (length entryBytes)) @ entryBytes)"

definition SerializeUndoData :: "BlockUndoData \<Rightarrow> bytes" where
  "SerializeUndoData undo =
     PutVarInt (of_nat (length (undo_SpentOutputs undo)))
     @ concat (map SpentOutput_bytes (undo_SpentOutputs undo))"

definition read_SpentOutput :: "bytes \<Rightarrow> nat \<Rightarrow> utxo_decode_error + (SpentOutput \<times> nat)" where
  "read_SpentOutput data offset =
     (if offset + 36 > length data then Inl UndoTruncated
      else let h = hash_copy (take 32 (drop offset data));
               i = get_le (take 4 (drop (offset + 32) data));
               offset = offset + 36
        in (case ReadVarIntFromBytes (drop offset data) of
              Inl e \<Rightarrow> Inl (UndoVarInt e)
            | Inr entryLen \<Rightarrow>
                let offset = offset + VarIntSize entryLen in
                if go_add offset entryLen > int (length data) then Inl UndoEntryTruncated
                else if go_add offset entryLen < int offset then Inl PanicSliceBounds
                else rbind (DeserializeUtxoEntry (take (unat entryLen) (drop offset data))) (\<lambda>entry.
                  Inr (\<lparr>so_OutPoint = \<lparr>op_Hash = h, op_Index = i\<rparr>, so_Entry = entry\<rparr>,
                       offset + unat entryLen))))"

primrec read_SpentOutputs :: "nat \<Rightarrow> bytes \<Rightarrow> nat \<Rightarrow> utxo_decode_error + SpentOutput list" where
  "read_SpentOutputs 0 data offset = Inr []"
| "read_SpentOutputs (Suc n) data offset =
     rbind (read_SpentOutput data offset) (\<lambda>(so, offset).
     rbind (read_SpentOutputs n data offset) (\<lambda>sos. Inr (so # sos)))"

definition DeserializeUndoData :: "bytes \<Rightarrow> utxo_decode_error + BlockUndoData" where
  "DeserializeUndoData data =
     (if length data = 0 then Inr \<lparr>undo_SpentOutputs = []\<rparr>
      else (case ReadVarIntFromBytes data of
          Inl e \<Rightarrow> Inl (UndoVarInt e)
        | Inr count \<Rightarrow>
            if sint count < 0 then Inl PanicMakeSlice
            else rbind (read_SpentOutputs (unat count) data (VarIntSize count)) (\<lambda>sos.
              Inr \<lparr>undo_SpentOutputs = sos\<rparr>)))"

section \<open>The set\<close>

type_synonym utxo_set = "bytes \<rightharpoonup> UtxoEntry"

definition NewSet :: utxo_set where
  "NewSet = Map.empty"

definition Set_Get :: "utxo_set \<Rightarrow> hash \<Rightarrow> u32 \<Rightarrow> UtxoEntry option" where
  "Set_Get s txHash index = s (OutpointKey txHash index)"

definition Set_Has :: "utxo_set \<Rightarrow> hash \<Rightarrow> u32 \<Rightarrow> bool" where
  "Set_Has s txHash index \<longleftrightarrow> Set_Get s txHash index \<noteq> None"

definition Set_Add :: "utxo_set \<Rightarrow> hash \<Rightarrow> u32 \<Rightarrow> UtxoEntry \<Rightarrow> utxo_set" where
  "Set_Add s txHash index entry = s(OutpointKey txHash index \<mapsto> entry)"

definition Set_Remove :: "utxo_set \<Rightarrow> hash \<Rightarrow> u32 \<Rightarrow> UtxoEntry option \<times> utxo_set" where
  "Set_Remove s txHash index =
     (let key = OutpointKey txHash index in (s key, s(key := None)))"

definition Set_Clear :: "utxo_set \<Rightarrow> utxo_set" where
  "Set_Clear s = Map.empty"

text \<open>
  Go iterates over a map in an unspecified order. \<open>Set_TotalValue\<close> takes the entries in the order in which
  the iteration delivers them.
\<close>

primrec Set_TotalValue_loop :: "u64 \<Rightarrow> UtxoEntry list \<Rightarrow> u64" where
  "Set_TotalValue_loop tot [] = tot"
| "Set_TotalValue_loop tot (e # es) =
     (if tot + ue_Value e < tot then NOT 0 else Set_TotalValue_loop (tot + ue_Value e) es)"

definition Set_TotalValue :: "UtxoEntry list \<Rightarrow> u64" where
  "Set_TotalValue entries = Set_TotalValue_loop 0 entries"

section \<open>Connecting a block\<close>

datatype utxo_error =
    ErrDuplicateInput hash OutPoint
  | ErrSpentInBlock hash OutPoint
  | ErrMissingUtxo hash OutPoint
  | PanicTxHashes nat

text \<open>
  The locals of \<^verbatim>\<open>ConnectBlock\<close>: the undo log, the keys to remove, the entries to add, and what has been
  spent and created inside the block.
\<close>

record conn_state =
  cn_undo :: "SpentOutput list"
  cn_toRemove :: "bytes list"
  cn_toAdd :: "(bytes \<times> UtxoEntry) list"
  cn_spentInBlock :: "bytes set"
  cn_createdInBlock :: "bytes \<rightharpoonup> UtxoEntry"

definition conn_init :: conn_state where
  "conn_init = \<lparr>cn_undo = [], cn_toRemove = [], cn_toAdd = [], cn_spentInBlock = {},
     cn_createdInBlock = Map.empty\<rparr>"

definition in_key :: "TxInput \<Rightarrow> bytes" where
  "in_key i = OutpointKey (op_Hash (in_PreviousOutPoint i)) (op_Index (in_PreviousOutPoint i))"

definition connect_input ::
  "utxo_set \<Rightarrow> hash \<Rightarrow> TxInput \<Rightarrow> bytes set \<Rightarrow> conn_state \<Rightarrow> utxo_error + (bytes set \<times> conn_state)" where
  "connect_input s txHash i seenInTx st =
     (let key = in_key i in
      if key \<in> seenInTx then Inl (ErrDuplicateInput txHash (in_PreviousOutPoint i))
      else let seenInTx = insert key seenInTx in
      if key \<in> cn_spentInBlock st then Inl (ErrSpentInBlock txHash (in_PreviousOutPoint i))
      else let (entry, createdInThisBlock) =
             (case cn_createdInBlock st key of Some e \<Rightarrow> (Some e, True) | None \<Rightarrow> (s key, False))
        in (case entry of
              None \<Rightarrow> Inl (ErrMissingUtxo txHash (in_PreviousOutPoint i))
            | Some e \<Rightarrow> Inr (seenInTx,
                \<lparr>cn_undo = (if \<not> createdInThisBlock
                   then cn_undo st @ [\<lparr>so_OutPoint = in_PreviousOutPoint i, so_Entry = e\<rparr>] else cn_undo st),
                 cn_toRemove = cn_toRemove st @ [key],
                 cn_toAdd = cn_toAdd st,
                 cn_spentInBlock = insert key (cn_spentInBlock st),
                 cn_createdInBlock = (cn_createdInBlock st)(key := None)\<rparr>)))"

primrec connect_inputs ::
  "utxo_set \<Rightarrow> hash \<Rightarrow> TxInput list \<Rightarrow> bytes set \<Rightarrow> conn_state \<Rightarrow> utxo_error + conn_state" where
  "connect_inputs s txHash [] seenInTx st = Inr st"
| "connect_inputs s txHash (i # ins) seenInTx st =
     rbind (connect_input s txHash i seenInTx st) (\<lambda>(seenInTx, st). connect_inputs s txHash ins seenInTx st)"

definition out_entry :: "TxOutput \<Rightarrow> u32 \<Rightarrow> bool \<Rightarrow> UtxoEntry" where
  "out_entry out height cb =
     \<lparr>ue_Value = out_Value out, ue_PkScript = out_PkScript out, ue_Height = height, ue_IsCoinbase = cb\<rparr>"

primrec connect_outputs ::
  "hash \<Rightarrow> u32 \<Rightarrow> bool \<Rightarrow> nat \<Rightarrow> TxOutput list \<Rightarrow> conn_state \<Rightarrow> conn_state" where
  "connect_outputs txHash height cb outIdx [] st = st"
| "connect_outputs txHash height cb outIdx (out # outs) st =
     (let key = OutpointKey txHash (of_nat outIdx);
          entry = out_entry out height cb
      in connect_outputs txHash height cb (Suc outIdx) outs
           (st\<lparr>cn_createdInBlock := (cn_createdInBlock st)(key \<mapsto> entry),
              cn_toAdd := cn_toAdd st @ [(key, entry)]\<rparr>))"

definition connect_tx ::
  "utxo_set \<Rightarrow> u32 \<Rightarrow> hash \<Rightarrow> Transaction \<Rightarrow> conn_state \<Rightarrow> utxo_error + conn_state" where
  "connect_tx s height txHash tx st =
     rbind (if \<not> Transaction_IsCoinbase tx then connect_inputs s txHash (tx_Inputs tx) {} st else Inr st)
       (\<lambda>st. Inr (connect_outputs txHash height (Transaction_IsCoinbase tx) 0 (tx_Outputs tx) st))"

text \<open>The hash of the transaction at an index: precomputed when the caller passes hashes.\<close>

definition tx_hash_at :: "hash list option \<Rightarrow> nat \<Rightarrow> Transaction \<Rightarrow> utxo_error + hash" where
  "tx_hash_at txHashes txIdx tx =
     (case txHashes of
        Some hs \<Rightarrow> if txIdx < length hs then Inr (hs ! txIdx) else Inl (PanicTxHashes txIdx)
      | None \<Rightarrow> Inr (HashTransaction tx))"

primrec connect_txs ::
  "utxo_set \<Rightarrow> u32 \<Rightarrow> hash list option \<Rightarrow> nat \<Rightarrow> Transaction list \<Rightarrow> conn_state \<Rightarrow> utxo_error + conn_state" where
  "connect_txs s height txHashes txIdx [] st = Inr st"
| "connect_txs s height txHashes txIdx (tx # txs) st =
     rbind (tx_hash_at txHashes txIdx tx) (\<lambda>txHash.
     rbind (connect_tx s height txHash tx st) (\<lambda>st. connect_txs s height txHashes (Suc txIdx) txs st))"

definition delete_keys :: "bytes list \<Rightarrow> utxo_set \<Rightarrow> utxo_set" where
  "delete_keys keys s = foldl (\<lambda>s key. s(key := None)) s keys"

definition add_unspent :: "bytes set \<Rightarrow> (bytes \<times> UtxoEntry) list \<Rightarrow> utxo_set \<Rightarrow> utxo_set" where
  "add_unspent spentInBlock toAdd s =
     foldl (\<lambda>s (key, entry). if key \<in> spentInBlock then s else s(key \<mapsto> entry)) s toAdd"

definition ConnectBlock ::
  "utxo_set \<Rightarrow> Block \<Rightarrow> u32 \<Rightarrow> hash list option \<Rightarrow> utxo_error + (BlockUndoData \<times> utxo_set)" where
  "ConnectBlock s block height txHashes =
     rbind (connect_txs s height txHashes 0 (blk_Transactions block) conn_init) (\<lambda>st.
       Inr (\<lparr>undo_SpentOutputs = cn_undo st\<rparr>,
            add_unspent (cn_spentInBlock st) (cn_toAdd st) (delete_keys (cn_toRemove st) s)))"

section \<open>Disconnecting a block and the genesis block\<close>

definition tx_out_keys :: "hash \<Rightarrow> Transaction \<Rightarrow> bytes list" where
  "tx_out_keys txHash tx = map (\<lambda>outIdx. OutpointKey txHash (of_nat outIdx)) [0..<length (tx_Outputs tx)]"

definition restore_spent :: "SpentOutput list \<Rightarrow> utxo_set \<Rightarrow> utxo_set" where
  "restore_spent sos s =
     foldl (\<lambda>s so. s(OutpointKey (op_Hash (so_OutPoint so)) (op_Index (so_OutPoint so)) \<mapsto> so_Entry so)) s sos"

definition DisconnectBlock :: "utxo_set \<Rightarrow> Block \<Rightarrow> BlockUndoData \<Rightarrow> utxo_set" where
  "DisconnectBlock s block undo =
     restore_spent (undo_SpentOutputs undo)
       (delete_keys (concat (map (\<lambda>tx. tx_out_keys (HashTransaction tx) tx) (rev (blk_Transactions block)))) s)"

definition isLegacyPlaceholder :: "bytes \<Rightarrow> bool" where
  "isLegacyPlaceholder pk \<longleftrightarrow> length pk = 0 \<or> (length pk = 1 \<and> pk ! 0 = 0x00)"

primrec genesis_outputs :: "hash \<Rightarrow> bool \<Rightarrow> nat \<Rightarrow> TxOutput list \<Rightarrow> utxo_set \<Rightarrow> utxo_set" where
  "genesis_outputs txHash cb outIdx [] s = s"
| "genesis_outputs txHash cb outIdx (out # outs) s =
     genesis_outputs txHash cb (Suc outIdx) outs
       (if isLegacyPlaceholder (out_PkScript out) then s
        else Set_Add s txHash (of_nat outIdx) (out_entry out 0 cb))"

definition ConnectGenesis :: "utxo_set \<Rightarrow> Block \<Rightarrow> utxo_set" where
  "ConnectGenesis s block =
     foldl (\<lambda>s tx. genesis_outputs (HashTransaction tx) (Transaction_IsCoinbase tx) 0 (tx_Outputs tx) s)
       s (blk_Transactions block)"

section \<open>The view of the set while a block is being connected\<close>

text \<open>
  \<open>conn_view s st\<close> is the set as the transactions processed so far have left it. Spending an
  input removes one entry from the view, and the final update of \<^verbatim>\<open>ConnectBlock\<close> installs the view.
\<close>

definition conn_view :: "utxo_set \<Rightarrow> conn_state \<Rightarrow> utxo_set" where
  "conn_view s st k =
     (if k \<in> cn_spentInBlock st then None
      else case cn_createdInBlock st k of Some e \<Rightarrow> Some e | None \<Rightarrow> s k)"

definition spend_key :: "utxo_set \<Rightarrow> TxInput \<Rightarrow> UtxoEntry \<Rightarrow> conn_state \<Rightarrow> conn_state" where
  "spend_key s i e st =
     \<lparr>cn_undo = (if cn_createdInBlock st (in_key i) = None
        then cn_undo st @ [\<lparr>so_OutPoint = in_PreviousOutPoint i, so_Entry = e\<rparr>] else cn_undo st),
      cn_toRemove = cn_toRemove st @ [in_key i],
      cn_toAdd = cn_toAdd st,
      cn_spentInBlock = insert (in_key i) (cn_spentInBlock st),
      cn_createdInBlock = (cn_createdInBlock st)(in_key i := None)\<rparr>"

lemma connect_input_iff:
  "connect_input s h i seen st = Inr (seen', st') \<longleftrightarrow>
     in_key i \<notin> seen \<and> seen' = insert (in_key i) seen \<and>
     (\<exists>e. conn_view s st (in_key i) = Some e \<and> st' = spend_key s i e st)"
  by (auto simp: connect_input_def conn_view_def spend_key_def Let_def split: option.splits)

lemma conn_view_init [simp]: "conn_view s conn_init = s"
  by (simp add: fun_eq_iff conn_view_def conn_init_def)

lemma spent_spend_key [simp]: "cn_spentInBlock (spend_key s i e st) = insert (in_key i) (cn_spentInBlock st)"
  by (simp add: spend_key_def)

lemma conn_view_spend: "conn_view s (spend_key s i e st) = (conn_view s st)(in_key i := None)"
  by (auto simp: fun_eq_iff conn_view_def spend_key_def)

definition conn_create :: "bytes \<Rightarrow> UtxoEntry \<Rightarrow> conn_state \<Rightarrow> conn_state" where
  "conn_create key entry st =
     st\<lparr>cn_createdInBlock := (cn_createdInBlock st)(key \<mapsto> entry), cn_toAdd := cn_toAdd st @ [(key, entry)]\<rparr>"

lemma connect_outputs_Cons:
  "connect_outputs h height cb n (out # outs) st =
     connect_outputs h height cb (Suc n) outs (conn_create (OutpointKey h (of_nat n)) (out_entry out height cb) st)"
  by (simp add: conn_create_def Let_def)

lemma conn_view_create:
  "conn_view s (conn_create key entry st) =
     (if key \<in> cn_spentInBlock st then conn_view s st else (conn_view s st)(key \<mapsto> entry))"
  by (auto simp: fun_eq_iff conn_view_def conn_create_def)

text \<open>Bookkeeping invariant: what the final update needs to know.\<close>

definition conn_inv :: "conn_state \<Rightarrow> bool" where
  "conn_inv st \<longleftrightarrow> set (cn_toRemove st) = cn_spentInBlock st \<and>
     (\<forall>k. k \<notin> cn_spentInBlock st \<longrightarrow> cn_createdInBlock st k = map_of (rev (cn_toAdd st)) k)"

lemma conn_inv_init [simp]: "conn_inv conn_init"
  by (simp add: conn_inv_def conn_init_def)

lemma conn_inv_spend: "conn_inv st \<Longrightarrow> conn_inv (spend_key s i e st)"
  by (auto simp: conn_inv_def spend_key_def)

lemma conn_inv_create: "conn_inv st \<Longrightarrow> conn_inv (conn_create k e st)"
  by (auto simp: conn_inv_def conn_create_def)

lemma delete_keys_apply: "delete_keys ks s k = (if k \<in> set ks then None else s k)"
  unfolding delete_keys_def by (induction ks arbitrary: s) auto

lemma add_unspent_snoc:
  "add_unspent X (xs @ [(k, e)]) s = (if k \<in> X then add_unspent X xs s else (add_unspent X xs s)(k \<mapsto> e))"
  by (simp add: add_unspent_def)

lemma add_unspent_apply:
  "add_unspent X xs s k = (if k \<in> X then s k else case map_of (rev xs) k of Some e \<Rightarrow> Some e | None \<Rightarrow> s k)"
proof (induction xs rule: rev_induct)
  case Nil
  show ?case by (simp add: add_unspent_def)
next
  case (snoc x xs)
  then show ?case by (cases x) (auto simp: add_unspent_snoc)
qed

lemma conn_final:
  "conn_inv st \<Longrightarrow>
     add_unspent (cn_spentInBlock st) (cn_toAdd st) (delete_keys (cn_toRemove st) s) = conn_view s st"
  by (auto simp: fun_eq_iff add_unspent_apply delete_keys_apply conn_inv_def conn_view_def split: option.splits)

section \<open>Rules for the loops\<close>

text \<open>
  A predicate on the bookkeeping that spending an input and creating an output preserve holds at the end of the
  block. The rules hand each step the facts the code has checked.
\<close>

lemma connect_inputs_rule:
  assumes "connect_inputs s h ins seen st = Inr st'" "P st"
    and "\<And>i e st. i \<in> set ins \<Longrightarrow> conn_view s st (in_key i) = Some e \<Longrightarrow> P st \<Longrightarrow> P (spend_key s i e st)"
  shows "P st'"
  using assms
proof (induction ins arbitrary: seen st)
  case (Cons i ins)
  from Cons.prems(1) obtain seen1 st1 where
    "connect_input s h i seen st = Inr (seen1, st1)" and rest: "connect_inputs s h ins seen1 st1 = Inr st'"
    by auto
  then have "P st1" using Cons.prems(2,3) by (auto simp: connect_input_iff)
  with Cons.IH [OF rest] Cons.prems(3) show ?case by auto
qed simp

lemma connect_outputs_rule:
  assumes "P st"
    and "\<And>j st. j < length outs \<Longrightarrow> P st \<Longrightarrow>
       P (conn_create (OutpointKey h (of_nat (n + j))) (out_entry (outs ! j) height cb) st)"
  shows "P (connect_outputs h height cb n outs st)"
  using assms
proof (induction outs arbitrary: n st)
  case (Cons out outs)
  have "P (conn_create (OutpointKey h (of_nat n)) (out_entry out height cb) st)"
    using Cons.prems(2) [of 0 st] Cons.prems(1) by simp
  moreover have "P (conn_create (OutpointKey h (of_nat (Suc n + j))) (out_entry (outs ! j) height cb) st)"
    if "j < length outs" "P st" for j st
    using Cons.prems(2) [of "Suc j" st] that by simp
  ultimately show ?case by (simp only: connect_outputs_Cons) (rule Cons.IH)
qed simp

text \<open>The hashes \<open>ConnectBlock\<close> uses are those of the transactions, computed here or by the caller.\<close>

definition hashes_ok :: "Transaction list \<Rightarrow> hash list option \<Rightarrow> bool" where
  "hashes_ok txs txHashes \<longleftrightarrow> txHashes = None \<or> txHashes = Some (map HashTransaction txs)"

lemma connect_txs_None:
  "(\<And>j. j < length txs \<Longrightarrow> tx_hash_at hs (n + j) (txs ! j) = Inr (HashTransaction (txs ! j))) \<Longrightarrow>
     connect_txs s height hs n txs st = connect_txs s height None n txs st"
proof (induction txs arbitrary: n st)
  case (Cons tx txs)
  have h: "tx_hash_at hs n tx = Inr (HashTransaction tx)" using Cons.prems [of 0] by simp
  have "connect_txs s height hs (Suc n) txs st = connect_txs s height None (Suc n) txs st" for st
    using Cons.prems [of "Suc _"] by (intro Cons.IH) simp
  with h show ?case by (simp add: tx_hash_at_def [of None])
qed simp

lemma ConnectBlock_hashes:
  "hashes_ok (blk_Transactions b) txHashes \<Longrightarrow> ConnectBlock s b height txHashes = ConnectBlock s b height None"
  by (auto simp: hashes_ok_def ConnectBlock_def tx_hash_at_def
      intro!: arg_cong [of _ _ "\<lambda>r. rbind r _"] connect_txs_None)

lemma connect_txs_rule:
  assumes "connect_txs s height None n txs st = Inr st'" "P st"
    and "\<And>tx i e st. tx \<in> set txs \<Longrightarrow> i \<in> set (tx_Inputs tx) \<Longrightarrow> conn_view s st (in_key i) = Some e \<Longrightarrow>
       P st \<Longrightarrow> P (spend_key s i e st)"
    and "\<And>tx j st. tx \<in> set txs \<Longrightarrow> j < length (tx_Outputs tx) \<Longrightarrow> P st \<Longrightarrow>
       P (conn_create (OutpointKey (HashTransaction tx) (of_nat j))
           (out_entry (tx_Outputs tx ! j) height (Transaction_IsCoinbase tx)) st)"
  shows "P st'"
  using assms
proof (induction txs arbitrary: n st)
  case (Cons tx txs)
  let ?h = "HashTransaction tx" and ?cb = "Transaction_IsCoinbase tx"
  from Cons.prems(1) obtain st1 where
    ins: "(if \<not> ?cb then connect_inputs s ?h (tx_Inputs tx) {} st else Inr st) = Inr st1" and
    rest: "connect_txs s height None (Suc n) txs (connect_outputs ?h height ?cb 0 (tx_Outputs tx) st1) = Inr st'"
    by (auto simp: tx_hash_at_def connect_tx_def)
  have "P st1"
  proof (cases ?cb)
    case True
    with ins Cons.prems(2) show ?thesis by simp
  next
    case False
    with ins have "connect_inputs s ?h (tx_Inputs tx) {} st = Inr st1" by simp
    then show ?thesis
      by (rule connect_inputs_rule [where P = P]) (rule Cons.prems(2,3); simp)+
  qed
  then have "P (connect_outputs ?h height ?cb 0 (tx_Outputs tx) st1)"
  proof (rule connect_outputs_rule)
    fix j st
    assume "j < length (tx_Outputs tx)" "P st"
    then show "P (conn_create (OutpointKey ?h (of_nat (0 + j))) (out_entry (tx_Outputs tx ! j) height ?cb) st)"
      using Cons.prems(4) [of tx j st] by simp
  qed
  then show ?case
    by (rule Cons.IH [OF rest]) (rule Cons.prems(3,4); simp)+
qed simp

lemma connect_txs_inv: "connect_txs s height None n txs st = Inr st' \<Longrightarrow> conn_inv st \<Longrightarrow> conn_inv st'"
  by (rule connect_txs_rule [of s height n txs st st' conn_inv]) (auto intro: conn_inv_spend conn_inv_create)

lemma connect_inputs_inv: "connect_inputs s h ins seen st = Inr st' \<Longrightarrow> conn_inv st \<Longrightarrow> conn_inv st'"
  by (rule connect_inputs_rule [of s h ins seen st st' conn_inv]) (auto intro: conn_inv_spend)

lemma connect_outputs_inv: "conn_inv st \<Longrightarrow> conn_inv (connect_outputs h height cb n outs st)"
  by (rule connect_outputs_rule [where P = conn_inv]) (auto intro: conn_inv_create)

lemma connect_txs_inv_any: "connect_txs s height hs n txs st = Inr st' \<Longrightarrow> conn_inv st \<Longrightarrow> conn_inv st'"
proof (induction txs arbitrary: n st)
  case (Cons tx txs)
  then obtain h st1 where "connect_tx s height h tx st = Inr st1"
    and rest: "connect_txs s height hs (Suc n) txs st1 = Inr st'" by auto
  then have "conn_inv st1"
    using Cons.prems(2) connect_inputs_inv
    by (auto simp: connect_tx_def intro!: connect_outputs_inv split: if_splits)
  then show ?case by (rule Cons.IH [OF rest])
qed simp

lemma ConnectBlock_None:
  "ConnectBlock s b height None = Inr (undo, s') \<longleftrightarrow>
     (\<exists>st. connect_txs s height None 0 (blk_Transactions b) conn_init = Inr st
        \<and> undo = \<lparr>undo_SpentOutputs = cn_undo st\<rparr> \<and> s' = conn_view s st)"
  using connect_txs_inv [of s height 0 "blk_Transactions b" conn_init]
  by (auto simp: ConnectBlock_def conn_final)

section \<open>Disconnecting undoes connecting\<close>

definition block_out_keys :: "Transaction list \<Rightarrow> bytes list" where
  "block_out_keys txs = concat (map (\<lambda>tx. tx_out_keys (HashTransaction tx) tx) txs)"

lemma out_key_in_block:
  assumes "tx \<in> set txs" "j < length (tx_Outputs tx)"
  shows "OutpointKey (HashTransaction tx) (of_nat j) \<in> set (block_out_keys txs)"
proof -
  have "OutpointKey (HashTransaction tx) (of_nat j) \<in> set (tx_out_keys (HashTransaction tx) tx)"
    using assms(2) by (auto simp: tx_out_keys_def)
  with assms(1) show ?thesis by (auto simp: block_out_keys_def)
qed

definition so_key :: "SpentOutput \<Rightarrow> bytes" where
  "so_key so = OutpointKey (op_Hash (so_OutPoint so)) (op_Index (so_OutPoint so))"

text \<open>Every key the block spends is one of its own outputs or recorded, with its old entry, in the undo log.\<close>

definition undo_inv :: "utxo_set \<Rightarrow> bytes set \<Rightarrow> conn_state \<Rightarrow> bool" where
  "undo_inv s outs st \<longleftrightarrow> dom (cn_createdInBlock st) \<subseteq> outs \<and>
     cn_spentInBlock st \<subseteq> outs \<union> so_key ` set (cn_undo st) \<and>
     (\<forall>so \<in> set (cn_undo st). s (so_key so) = Some (so_Entry so) \<and> so_key so \<in> cn_spentInBlock st)"

lemma so_key_input: "so_key \<lparr>so_OutPoint = in_PreviousOutPoint i, so_Entry = e\<rparr> = in_key i"
  by (simp add: so_key_def in_key_def)

lemma undo_inv_spend:
  "undo_inv s outs st \<Longrightarrow> conn_view s st (in_key i) = Some e \<Longrightarrow> undo_inv s outs (spend_key s i e st)"
  by (auto simp: undo_inv_def spend_key_def conn_view_def so_key_input split: if_splits option.splits)

lemma undo_inv_create: "undo_inv s outs st \<Longrightarrow> k \<in> outs \<Longrightarrow> undo_inv s outs (conn_create k e st)"
  by (auto simp: undo_inv_def conn_create_def)

lemma connect_txs_undo:
  assumes "connect_txs s height None 0 txs conn_init = Inr st"
  shows "undo_inv s (set (block_out_keys txs)) st"
  using assms
proof (rule connect_txs_rule)
  show "undo_inv s (set (block_out_keys txs)) conn_init"
    by (simp add: undo_inv_def conn_init_def)
next
  fix tx j st
  assume "tx \<in> set txs" "j < length (tx_Outputs tx)" "undo_inv s (set (block_out_keys txs)) st"
  then show "undo_inv s (set (block_out_keys txs)) (conn_create (OutpointKey (HashTransaction tx) (of_nat j))
      (out_entry (tx_Outputs tx ! j) height (Transaction_IsCoinbase tx)) st)"
    by (intro undo_inv_create out_key_in_block)
qed (auto intro: undo_inv_spend)

lemma restore_spent_apply:
  assumes "\<And>so. so \<in> set sos \<Longrightarrow> s (so_key so) = Some (so_Entry so)"
  shows "restore_spent sos v k = (if k \<in> so_key ` set sos then s k else v k)"
  using assms unfolding restore_spent_def so_key_def [symmetric]
  by (induction sos arbitrary: v) auto

lemma DisconnectBlock_keys:
  "DisconnectBlock v b undo = restore_spent (undo_SpentOutputs undo) (delete_keys (block_out_keys (rev (blk_Transactions b))) v)"
  by (simp add: DisconnectBlock_def block_out_keys_def)

lemma set_block_out_keys_rev: "set (block_out_keys (rev txs)) = set (block_out_keys txs)"
  by (simp add: block_out_keys_def)

lemma disconnect_connect:
  assumes "ConnectBlock s b height None = Inr (undo, s')"
    and fresh: "\<forall>k \<in> set (block_out_keys (blk_Transactions b)). s k = None"
  shows "DisconnectBlock s' b undo = s"
proof -
  let ?O = "set (block_out_keys (blk_Transactions b))"
  from assms(1) obtain st where st: "connect_txs s height None 0 (blk_Transactions b) conn_init = Inr st"
    and undo: "undo = \<lparr>undo_SpentOutputs = cn_undo st\<rparr>" and s': "s' = conn_view s st"
    by (auto simp: ConnectBlock_None)
  have inv: "undo_inv s ?O st" by (rule connect_txs_undo [OF st])
  then have log: "\<And>so. so \<in> set (cn_undo st) \<Longrightarrow> s (so_key so) = Some (so_Entry so)"
    by (simp add: undo_inv_def)
  have "DisconnectBlock s' b undo k = s k" for k
  proof (cases "k \<in> so_key ` set (cn_undo st)")
    case True
    then show ?thesis
      by (simp add: DisconnectBlock_keys undo restore_spent_apply [OF log])
  next
    case False
    with inv fresh show ?thesis
      by (auto simp: DisconnectBlock_keys undo restore_spent_apply [OF log] delete_keys_apply
          set_block_out_keys_rev s' conn_view_def undo_inv_def dom_def split: option.splits)
  qed
  then show ?thesis by (rule ext)
qed

section \<open>Value in the set\<close>

definition utxo_total :: "utxo_set \<Rightarrow> nat" where
  "utxo_total s = (\<Sum>k \<in> dom s. unat (ue_Value (the (s k))))"

lemma utxo_total_remove:
  assumes "finite (dom s)" "s k = Some e"
  shows "utxo_total (s(k := None)) + unat (ue_Value e) = utxo_total s"
proof -
  have k: "k \<in> dom s" using assms(2) by auto
  have "utxo_total s = unat (ue_Value e) + (\<Sum>j \<in> dom s - {k}. unat (ue_Value (the (s j))))"
    unfolding utxo_total_def using assms by (simp add: sum.remove [OF assms(1) k])
  moreover have "utxo_total (s(k := None)) = (\<Sum>j \<in> dom s - {k}. unat (ue_Value (the (s j))))"
    unfolding utxo_total_def by (rule sum.cong) auto
  ultimately show ?thesis by simp
qed

lemma utxo_total_add:
  assumes "finite (dom s)" "s k = None"
  shows "utxo_total (s(k \<mapsto> e)) = utxo_total s + unat (ue_Value e)"
proof -
  have "utxo_total ((s(k \<mapsto> e))(k := None)) + unat (ue_Value e) = utxo_total (s(k \<mapsto> e))"
    using assms by (intro utxo_total_remove) auto
  moreover have "(s(k \<mapsto> e))(k := None) = s" using assms(2) by auto
  ultimately show ?thesis by simp
qed

lemma utxo_total_add_le:
  assumes "finite (dom s)"
  shows "utxo_total (s(k \<mapsto> e)) \<le> utxo_total s + unat (ue_Value e)"
proof (cases "s k")
  case None
  with utxo_total_add [OF assms, of k e] show ?thesis by simp
next
  case (Some e')
  have "utxo_total ((s(k := None))(k \<mapsto> e)) = utxo_total (s(k := None)) + unat (ue_Value e)"
    using assms by (intro utxo_total_add) auto
  then show ?thesis using utxo_total_remove [OF assms Some] by simp
qed

definition outs_total :: "TxOutput list \<Rightarrow> nat" where
  "outs_total outs = sum_list (map (\<lambda>out. unat (out_Value out)) outs)"

lemma connect_outputs_total:
  assumes "finite (dom (conn_view s st))"
  shows "finite (dom (conn_view s (connect_outputs h height cb n outs st))) \<and>
     utxo_total (conn_view s (connect_outputs h height cb n outs st)) \<le> utxo_total (conn_view s st) + outs_total outs"
  using assms
proof (induction outs arbitrary: n st)
  case (Cons out outs)
  let ?k = "OutpointKey h (of_nat n)" and ?e = "out_entry out height cb"
  let ?st = "conn_create ?k ?e st"
  have fin: "finite (dom (conn_view s ?st))"
    using Cons.prems by (simp add: conn_view_create)
  have "utxo_total (conn_view s ?st) \<le> utxo_total (conn_view s st) + unat (out_Value out)"
    using utxo_total_add_le [OF Cons.prems, of ?k ?e] by (simp add: conn_view_create out_entry_def)
  with Cons.IH [OF fin, of "Suc n"] show ?case
    by (simp add: connect_outputs_Cons outs_total_def del: connect_outputs.simps)
qed (simp add: outs_total_def)

lemma Set_TotalValue_loop_spec:
  "unat (Set_TotalValue_loop tot es) =
     (if unat tot + sum_list (map (\<lambda>e. unat (ue_Value e)) es) < 2 ^ 64
      then unat tot + sum_list (map (\<lambda>e. unat (ue_Value e)) es) else 2 ^ 64 - 1)"
proof (induction es arbitrary: tot)
  case Nil
  show ?case using unsigned_less [of tot, where ?'a = nat] by simp
next
  case (Cons e es)
  have u: "tot + ue_Value e < tot \<longleftrightarrow> \<not> unat tot + unat (ue_Value e) < 2 ^ 64"
    by (auto simp: word_add_overflow)
  show ?case
  proof (cases "unat tot + unat (ue_Value e) < 2 ^ 64")
    case True
    then have "unat (tot + ue_Value e) = unat tot + unat (ue_Value e)"
      by (simp add: unat_word_ariths)
    with True Cons.IH show ?thesis by (simp add: u add.assoc)
  next
    case False
    then show ?thesis by (simp add: u unsigned_minus_1_eq_mask mask_eq_exp_minus_1)
  qed
qed

section \<open>Refinement of the sequential reading\<close>

text \<open>
  The specification: run the transactions one after the other on the set. An input removes an entry that
  must be there, an output adds one.
\<close>

primrec apply_inputs :: "TxInput list \<Rightarrow> utxo_set \<Rightarrow> utxo_set option" where
  "apply_inputs [] v = Some v"
| "apply_inputs (i # ins) v =
     (case v (in_key i) of None \<Rightarrow> None | Some _ \<Rightarrow> apply_inputs ins (v(in_key i := None)))"

primrec apply_outputs :: "hash \<Rightarrow> u32 \<Rightarrow> bool \<Rightarrow> nat \<Rightarrow> TxOutput list \<Rightarrow> utxo_set \<Rightarrow> utxo_set" where
  "apply_outputs h height cb n [] v = v"
| "apply_outputs h height cb n (out # outs) v =
     apply_outputs h height cb (Suc n) outs (v(OutpointKey h (of_nat n) \<mapsto> out_entry out height cb))"

primrec apply_txs :: "u32 \<Rightarrow> Transaction list \<Rightarrow> utxo_set \<Rightarrow> utxo_set option" where
  "apply_txs height [] v = Some v"
| "apply_txs height (tx # txs) v =
     (case (if Transaction_IsCoinbase tx then Some v else apply_inputs (tx_Inputs tx) v) of
        None \<Rightarrow> None
      | Some v \<Rightarrow> apply_txs height txs
          (apply_outputs (HashTransaction tx) height (Transaction_IsCoinbase tx) 0 (tx_Outputs tx) v))"

definition ok_view :: "utxo_set \<Rightarrow> utxo_error + conn_state \<Rightarrow> utxo_set option" where
  "ok_view s r = (case r of Inl e \<Rightarrow> None | Inr st \<Rightarrow> Some (conn_view s st))"

lemma ok_view_simps [simp]: "ok_view s (Inl e) = None" "ok_view s (Inr st) = Some (conn_view s st)"
  by (simp_all add: ok_view_def)

lemma connect_input_cases:
  assumes "seen \<subseteq> cn_spentInBlock st"
  shows "connect_input s h i seen st =
     (case conn_view s st (in_key i) of
        Some e \<Rightarrow> Inr (insert (in_key i) seen, spend_key s i e st)
      | None \<Rightarrow> (case connect_input s h i seen st of Inl er \<Rightarrow> Inl er | Inr x \<Rightarrow> Inr x))"
proof (cases "conn_view s st (in_key i)")
  case (Some e)
  then have "in_key i \<notin> seen" using assms by (auto simp: conn_view_def split: if_splits)
  with Some show ?thesis by (simp add: connect_input_iff)
qed (simp split: sum.splits)

lemma connect_inputs_apply:
  "seen \<subseteq> cn_spentInBlock st \<Longrightarrow>
     ok_view s (connect_inputs s h ins seen st) = apply_inputs ins (conn_view s st)"
proof (induction ins arbitrary: seen st)
  case (Cons i ins)
  show ?case
  proof (cases "conn_view s st (in_key i)")
    case None
    then obtain er where "connect_input s h i seen st = Inl er"
      by (cases "connect_input s h i seen st") (auto simp: connect_input_iff)
    with None show ?thesis by simp
  next
    case (Some e)
    have "connect_input s h i seen st = Inr (insert (in_key i) seen, spend_key s i e st)"
      using connect_input_cases [OF Cons.prems, of s h i] by (simp add: Some)
    moreover have "insert (in_key i) seen \<subseteq> cn_spentInBlock (spend_key s i e st)"
      using Cons.prems by (auto simp: spend_key_def)
    ultimately show ?thesis using Cons.IH Some by (simp add: conn_view_spend fun_upd_def)
  qed
qed simp

lemma spent_conn_create [simp]: "cn_spentInBlock (conn_create k e st) = cn_spentInBlock st"
  by (simp add: conn_create_def)

lemma connect_outputs_apply:
  assumes "\<And>j. j < length outs \<Longrightarrow> OutpointKey h (of_nat (n + j)) \<notin> cn_spentInBlock st"
  shows "conn_view s (connect_outputs h height cb n outs st) = apply_outputs h height cb n outs (conn_view s st)
     \<and> cn_spentInBlock (connect_outputs h height cb n outs st) = cn_spentInBlock st"
  using assms
proof (induction outs arbitrary: n st)
  case (Cons out outs)
  let ?st = "conn_create (OutpointKey h (of_nat n)) (out_entry out height cb) st"
  have "OutpointKey h (of_nat (Suc n + j)) \<notin> cn_spentInBlock ?st" if "j < length outs" for j
    using Cons.prems [of "Suc j"] that by simp
  note ih = Cons.IH [OF this]
  have "OutpointKey h (of_nat n) \<notin> cn_spentInBlock st" using Cons.prems [of 0] by simp
  then have "conn_view s ?st = (conn_view s st)(OutpointKey h (of_nat n) \<mapsto> out_entry out height cb)"
    by (simp add: conn_view_create)
  with ih show ?case by (simp only: connect_outputs_Cons apply_outputs.simps spent_conn_create)
qed simp

lemma connect_inputs_dom:
  assumes "connect_inputs s h ins seen st = Inr st'"
  shows "cn_spentInBlock st' \<subseteq> cn_spentInBlock st \<union> dom (conn_view s st) \<and>
     dom (conn_view s st') \<subseteq> dom (conn_view s st)"
  using assms
  by (rule connect_inputs_rule [where P = "\<lambda>st'. cn_spentInBlock st' \<subseteq> cn_spentInBlock st \<union> dom (conn_view s st)
      \<and> dom (conn_view s st') \<subseteq> dom (conn_view s st)"])
    (auto simp: conn_view_spend split: if_splits)

lemma dom_apply_outputs:
  "dom (apply_outputs h height cb n outs v) = dom v \<union> (\<lambda>j. OutpointKey h (of_nat (n + j))) ` {..<length outs}"
proof (induction outs arbitrary: n v)
  case (Cons out outs)
  have "(\<lambda>j. OutpointKey h (of_nat (n + j))) ` {..<Suc (length outs)}
     = insert (OutpointKey h (of_nat n)) ((\<lambda>j. OutpointKey h (of_nat (Suc n + j))) ` {..<length outs})"
    by (simp add: lessThan_Suc_eq_insert_0 image_image ac_simps)
  then show ?case
    by (simp only: apply_outputs.simps Cons.IH list.size add_Suc_right add_0_right dom_fun_upd) auto
qed simp

lemma set_tx_out_keys: "set (tx_out_keys h tx) = (\<lambda>j. OutpointKey h (of_nat (0 + j))) ` {..<length (tx_Outputs tx)}"
  by (auto simp: tx_out_keys_def)

lemma connect_txs_apply:
  assumes "distinct (block_out_keys txs)"
    and "(cn_spentInBlock st \<union> dom (conn_view s st)) \<inter> set (block_out_keys txs) = {}"
  shows "ok_view s (connect_txs s height None n txs st) = apply_txs height txs (conn_view s st)"
  using assms
proof (induction txs arbitrary: n st)
  case (Cons tx txs)
  let ?h = "HashTransaction tx" and ?cb = "Transaction_IsCoinbase tx"
  let ?r = "if \<not> ?cb then connect_inputs s ?h (tx_Inputs tx) {} st else Inr st"
  have r: "ok_view s ?r = (if ?cb then Some (conn_view s st) else apply_inputs (tx_Inputs tx) (conn_view s st))"
    by (simp add: connect_inputs_apply)
  show ?case
  proof (cases ?r)
    case (Inl er)
    have "(if ?cb then Some (conn_view s st) else apply_inputs (tx_Inputs tx) (conn_view s st)) = None"
      using r Inl by simp
    with Inl show ?thesis by (simp add: tx_hash_at_def connect_tx_def)
  next
    case (Inr st1)
    let ?st2 = "connect_outputs ?h height ?cb 0 (tx_Outputs tx) st1"
    have keys: "set (block_out_keys (tx # txs)) = set (tx_out_keys ?h tx) \<union> set (block_out_keys txs)"
      and dist: "distinct (block_out_keys txs)" "set (tx_out_keys ?h tx) \<inter> set (block_out_keys txs) = {}"
      using Cons.prems(1) by (simp_all add: block_out_keys_def)
    have st1: "cn_spentInBlock st1 \<union> dom (conn_view s st1) \<subseteq> cn_spentInBlock st \<union> dom (conn_view s st)"
      using Inr connect_inputs_dom [of s ?h "tx_Inputs tx" "{}" st st1] by (auto split: if_splits)
    then have "OutpointKey ?h (of_nat (0 + j)) \<notin> cn_spentInBlock st1" if "j < length (tx_Outputs tx)" for j
      using Cons.prems(2) that unfolding keys set_tx_out_keys by blast
    then have out: "conn_view s ?st2 = apply_outputs ?h height ?cb 0 (tx_Outputs tx) (conn_view s st1)"
      "cn_spentInBlock ?st2 = cn_spentInBlock st1"
      using connect_outputs_apply by blast+
    have "(cn_spentInBlock ?st2 \<union> dom (conn_view s ?st2)) \<inter> set (block_out_keys txs) = {}"
      using st1 Cons.prems(2) dist(2) unfolding out dom_apply_outputs set_tx_out_keys [symmetric] keys by blast
    note ih = Cons.IH [OF dist(1) this, of "Suc n"]
    have "(if ?cb then Some (conn_view s st) else apply_inputs (tx_Inputs tx) (conn_view s st)) = Some (conn_view s st1)"
      using r Inr by simp
    with ih Inr out show ?thesis by (simp add: tx_hash_at_def connect_tx_def)
  qed
qed simp

lemma ConnectBlock_apply:
  assumes "distinct (block_out_keys (blk_Transactions b))"
    and "\<forall>k \<in> set (block_out_keys (blk_Transactions b)). s k = None"
  shows "(case ConnectBlock s b height None of Inl e \<Rightarrow> None | Inr (undo, s') \<Rightarrow> Some s')
     = apply_txs height (blk_Transactions b) s"
proof -
  let ?r = "connect_txs s height None 0 (blk_Transactions b) conn_init"
  have "ok_view s ?r = apply_txs height (blk_Transactions b) s"
  proof -
    have "cn_spentInBlock conn_init = {}" by (simp add: conn_init_def)
    then have "(cn_spentInBlock conn_init \<union> dom (conn_view s conn_init)) \<inter> set (block_out_keys (blk_Transactions b)) = {}"
      using assms(2) by auto
    from connect_txs_apply [OF assms(1) this] show ?thesis by simp
  qed
  moreover have "ok_view s ?r = (case ConnectBlock s b height None of Inl e \<Rightarrow> None | Inr (undo, s') \<Rightarrow> Some s')"
    using connect_txs_inv [of s height 0 "blk_Transactions b" conn_init]
    by (cases ?r) (auto simp: ConnectBlock_def conn_final)
  ultimately show ?thesis by simp
qed

section \<open>Storage formats\<close>

lemma sint_small: "unat w < 2 ^ 63 \<Longrightarrow> sint (w :: u64) = int (unat w)"
proof -
  assume w: "unat w < 2 ^ 63"
  then have "int (unat w) < int (2 ^ 63)" by (simp only: of_nat_less_iff)
  then have "uint w < int (2 ^ 63)" by (simp only: uint_nat)
  then have "uint w < 2 ^ 63" by simp
  then have "signed_take_bit 63 (uint w) = uint w"
    by (intro signed_take_bit_int_eq_self) (simp_all add: order_trans [OF _ uint_ge_0])
  then show ?thesis by (simp add: sint_uint)
qed

lemma go_add_small: "n + unat x < 2 ^ 63 \<Longrightarrow> go_add n x = int (n + unat x)"
proof -
  assume a: "n + unat x < 2 ^ 63"
  then have "unat (of_nat n + x) = n + unat x"
    by (simp add: unat_word_ariths unat_of_nat)
  with a show ?thesis by (simp add: go_add_def sint_small)
qed

lemma ReadVarIntFromBytes_Put [simp]: "ReadVarIntFromBytes (PutVarInt v @ rest) = Inr v"
  by (auto simp: ReadVarIntFromBytes_iff)

lemma unat_of_nat_len: "n < 2 ^ 63 \<Longrightarrow> unat (of_nat n :: u64) = n"
  by (simp add: unat_of_nat)

lemma length_UtxoEntry_Serialize:
  "length (UtxoEntry_Serialize e) = 13 + VarIntSize (of_nat (length (ue_PkScript e))) + length (ue_PkScript e)"
  by (simp add: UtxoEntry_Serialize_def VarIntSize_length)

lemma DeserializeUtxoEntry_Serialize:
  assumes "length (UtxoEntry_Serialize e @ rest) < 2 ^ 63"
  shows "DeserializeUtxoEntry (UtxoEntry_Serialize e @ rest) = Inr e"
proof -
  let ?n = "length (ue_PkScript e)" and ?d = "UtxoEntry_Serialize e @ rest"
  let ?w = "of_nat ?n :: u64"
  have b: "VarIntSize ?w + ?n < 2 ^ 63"
    using assms by (simp add: length_UtxoEntry_Serialize)
  then have u: "unat ?w = ?n" by (intro unat_of_nat_len) simp
  have drop: "drop 13 ?d = PutVarInt ?w @ ue_PkScript e @ rest"
    by (simp add: UtxoEntry_Serialize_def)
  have parts: "take 8 ?d = put_le 8 (ue_Value e)" "take 4 (drop 8 ?d) = put_le 4 (ue_Height e)"
    "?d ! 12 = (if ue_IsCoinbase e then 0x01 else 0)"
    by (simp_all add: UtxoEntry_Serialize_def nth_append)
  have g: "go_add (VarIntSize ?w) ?w = int (VarIntSize ?w + ?n)" using b u by (simp add: go_add_small)
  have s: "0 \<le> sint ?w" using b u by (simp add: sint_small)
  show ?thesis
    unfolding DeserializeUtxoEntry_def Let_def drop ReadVarIntFromBytes_Put parts
    using s g by (simp add: length_UtxoEntry_Serialize VarIntSize_length u)
qed

lemma read_SpentOutput_bytes:
  assumes "drop offset data = SpentOutput_bytes so @ rest" "offset \<le> length data" "length data < 2 ^ 63"
  shows "read_SpentOutput data offset = Inr (so, offset + length (SpentOutput_bytes so))"
proof -
  let ?e = "UtxoEntry_Serialize (so_Entry so)"
  let ?w = "of_nat (length ?e) :: u64"
  have len: "length data = offset + length (SpentOutput_bytes so @ rest)"
    using assms(1,2) by (metis append_take_drop_id length_append length_take min.absorb2)
  have so: "length (SpentOutput_bytes so) = 36 + VarIntSize ?w + length ?e"
    by (simp add: SpentOutput_bytes_def Let_def VarIntSize_length)
  have b: "offset + 36 + VarIntSize ?w + length ?e < 2 ^ 63" using len so assms(3) by simp
  have u: "unat ?w = length ?e" using b by (intro unat_of_nat_len) simp
  have e: "drop (offset + 32) data = drop 32 (drop offset data)"
    "drop (offset + 36) data = drop 36 (drop offset data)"
    by (simp_all add: add.commute)
  have d1: "take 32 (drop offset data) = hash_bytes (op_Hash (so_OutPoint so))"
    "take 4 (drop (offset + 32) data) = put_le 4 (op_Index (so_OutPoint so))"
    "drop (offset + 36) data = PutVarInt ?w @ ?e @ rest"
    unfolding e assms(1) SpentOutput_bytes_def Let_def by simp_all
  have d2: "drop (offset + 36 + VarIntSize ?w) data = ?e @ rest"
    using d1(3) drop_drop [of "VarIntSize ?w" "offset + 36" data] by (simp add: VarIntSize_length add.commute)
  have g: "go_add (offset + 36 + VarIntSize ?w) ?w = int (offset + 36 + VarIntSize ?w + length ?e)"
    using b u by (simp add: go_add_small)
  have "DeserializeUtxoEntry ?e = Inr (so_Entry so)"
    using DeserializeUtxoEntry_Serialize [of "so_Entry so" "[]"] b by simp
  with d1 d2 g len so u show ?thesis
    unfolding read_SpentOutput_def Let_def by simp
qed

lemma read_SpentOutputs_bytes:
  assumes "drop offset data = concat (map SpentOutput_bytes sos)" "offset \<le> length data" "length data < 2 ^ 63"
  shows "read_SpentOutputs (length sos) data offset = Inr sos"
  using assms(1,2)
proof (induction sos arbitrary: offset)
  case (Cons so sos)
  let ?k = "length (SpentOutput_bytes so)"
  have r: "read_SpentOutput data offset = Inr (so, offset + ?k)"
    using Cons.prems assms(3) by (intro read_SpentOutput_bytes [where rest = "concat (map SpentOutput_bytes sos)"]) simp_all
  have "length data = offset + length (drop offset data)" using Cons.prems(2) by simp
  then have le: "offset + ?k \<le> length data" using Cons.prems(1) by simp
  have "drop (offset + ?k) data = concat (map SpentOutput_bytes sos)"
    using Cons.prems(1) drop_drop [of ?k offset data] by (simp add: add.commute)
  from this le have "read_SpentOutputs (length sos) data (offset + ?k) = Inr sos" by (rule Cons.IH)
  with r show ?case by simp
qed simp

lemma length_SpentOutputs: "36 * length sos \<le> length (concat (map SpentOutput_bytes sos))"
  by (induction sos) (simp_all add: SpentOutput_bytes_def Let_def)

lemma DeserializeUndoData_Serialize:
  assumes "length (SerializeUndoData undo) < 2 ^ 63"
  shows "DeserializeUndoData (SerializeUndoData undo) = Inr undo"
proof -
  let ?sos = "undo_SpentOutputs undo" and ?d = "SerializeUndoData undo"
  let ?w = "of_nat (length ?sos) :: u64"
  have len: "length ?d = VarIntSize ?w + length (concat (map SpentOutput_bytes ?sos))"
    by (simp add: SerializeUndoData_def VarIntSize_length)
  then have b: "length ?sos < 2 ^ 63" using assms length_SpentOutputs [of ?sos] by simp
  then have u: "unat ?w = length ?sos" by (rule unat_of_nat_len)
  have "read_SpentOutputs (length ?sos) ?d (VarIntSize ?w) = Inr ?sos"
    using assms len by (intro read_SpentOutputs_bytes) (simp_all add: SerializeUndoData_def VarIntSize_length)
  moreover have "ReadVarIntFromBytes ?d = Inr ?w" "?d \<noteq> []" by (simp_all add: SerializeUndoData_def)
  ultimately show ?thesis using b u by (simp add: DeserializeUndoData_def sint_small)
qed

lemma put_le_4_inject [simp]: "put_le 4 (i :: u32) = put_le 4 j \<longleftrightarrow> i = j"
proof
  assume "put_le 4 i = put_le 4 j"
  then have "(get_le (put_le 4 i) :: u32) = get_le (put_le 4 j)" by (rule arg_cong)
  then show "i = j" by simp
qed simp

lemma OutpointKey_inject [simp]: "OutpointKey h i = OutpointKey k j \<longleftrightarrow> h = k \<and> i = j"
  by (auto simp: OutpointKey_def hash_bytes_inject)

lemma length_OutpointKey [simp]: "length (OutpointKey h i) = 36"
  by (simp add: OutpointKey_def)

section \<open>Properties\<close>

text \<open>A concrete set and block for the witnesses: one output, and a transaction that spends it.\<close>

definition demo_outpoint :: OutPoint where
  "demo_outpoint = \<lparr>op_Hash = hash_copy [5], op_Index = 7\<rparr>"

definition demo_entry :: UtxoEntry where
  "demo_entry = \<lparr>ue_Value = 60, ue_PkScript = [0x51], ue_Height = 2, ue_IsCoinbase = False\<rparr>"

definition demo_set :: utxo_set where
  "demo_set = [OutpointKey (op_Hash demo_outpoint) (op_Index demo_outpoint) \<mapsto> demo_entry]"

definition demo_spend :: Transaction where
  "demo_spend = \<lparr>tx_Version = 1,
     tx_Inputs = [\<lparr>in_PreviousOutPoint = demo_outpoint, in_SignatureScript = [], in_Sequence = 0xFFFFFFFF\<rparr>],
     tx_Outputs = [\<lparr>out_Value = 50, out_PkScript = [0x51]\<rparr>], tx_LockTime = 0\<rparr>"

definition demo_block :: Block where
  "demo_block = \<lparr>blk_Header = blk_Header zero_block, blk_Transactions = [demo_spend]\<rparr>"

definition demo_connected :: utxo_set where
  "demo_connected = [OutpointKey (HashTransaction demo_spend) 0 \<mapsto> out_entry (tx_Outputs demo_spend ! 0) 10 False]"

lemma demo_not_coinbase: "\<not> Transaction_IsCoinbase demo_spend"
  by (simp add: Transaction_IsCoinbase_def TxInput_IsCoinbase_def demo_spend_def demo_outpoint_def)

lemma demo_out_keys: "block_out_keys (blk_Transactions demo_block) = [OutpointKey (HashTransaction demo_spend) 0]"
  by (simp add: block_out_keys_def tx_out_keys_def demo_block_def) (simp add: demo_spend_def)

lemma demo_fresh:
  "distinct (block_out_keys (blk_Transactions demo_block))"
  "\<forall>k \<in> set (block_out_keys (blk_Transactions demo_block)). demo_set k = None"
  by (simp_all add: demo_out_keys demo_set_def demo_outpoint_def)

lemma demo_apply: "apply_txs 10 (blk_Transactions demo_block) demo_set = Some demo_connected"
proof -
  have "in_key (tx_Inputs demo_spend ! 0) = OutpointKey (op_Hash demo_outpoint) (op_Index demo_outpoint)"
    by (simp add: in_key_def demo_spend_def)
  then have "apply_inputs (tx_Inputs demo_spend) demo_set = Some Map.empty"
    by (simp add: demo_spend_def demo_set_def)
  then have "apply_txs 10 [demo_spend] demo_set =
      Some (apply_outputs (HashTransaction demo_spend) 10 False 0 (tx_Outputs demo_spend) Map.empty)"
    by (simp add: demo_not_coinbase)
  moreover have "apply_outputs h 10 False 0 (tx_Outputs demo_spend) Map.empty
      = [OutpointKey h 0 \<mapsto> out_entry (tx_Outputs demo_spend ! 0) 10 False]" for h
    by (simp add: demo_spend_def)
  then have "apply_outputs (HashTransaction demo_spend) 10 False 0 (tx_Outputs demo_spend) Map.empty = demo_connected"
    unfolding demo_connected_def .
  ultimately show ?thesis by (simp add: demo_block_def)
qed

lemma demo_connect: "\<exists>undo. ConnectBlock demo_set demo_block 10 None = Inr (undo, demo_connected)"
  using ConnectBlock_apply [OF demo_fresh, of 10] unfolding demo_apply
  by (auto split: sum.splits prod.splits)

text \<open>Disconnecting a block with the undo data that connecting it returned restores the set of unspent
  outputs exactly, if none of the outputs the block creates was in the set before.\<close>

theorem disconnect_undoes_connect:
  assumes "hashes_ok (blk_Transactions b) txHashes"
    and "ConnectBlock s b height txHashes = Inr (undo, s')"
    and "\<forall>k \<in> set (block_out_keys (blk_Transactions b)). s k = None"
  shows "DisconnectBlock s' b undo = s"
  using assms(2) disconnect_connect [OF _ assms(3)] unfolding ConnectBlock_hashes [OF assms(1)] by blast

theorem disconnect_undoes_connect_witness:
  "\<exists>undo. ConnectBlock demo_set demo_block 10 None = Inr (undo, demo_connected)
     \<and> DisconnectBlock demo_connected demo_block undo = demo_set"
proof -
  have "hashes_ok (blk_Transactions demo_block) None" by (simp add: hashes_ok_def)
  with disconnect_undoes_connect [of demo_block None demo_set 10] demo_connect demo_fresh(2)
  show ?thesis by blast
qed

text \<open>C26. Connecting a block is what running its transactions one after the other on the set does: it succeeds
  exactly when every input finds its output, and leaves the same set. This needs the outputs of the
  block to be new and distinct.\<close>

theorem connect_block_refines:
  assumes "distinct (block_out_keys (blk_Transactions b))"
    and "\<forall>k \<in> set (block_out_keys (blk_Transactions b)). s k = None"
  shows "(case ConnectBlock s b height None of Inl e \<Rightarrow> None | Inr (undo, s') \<Rightarrow> Some s')
     = apply_txs height (blk_Transactions b) s"
  using assms by (rule ConnectBlock_apply)

theorem connect_block_refines_witness:
  "(case ConnectBlock demo_set demo_block 10 None of Inl e \<Rightarrow> None | Inr (undo, s') \<Rightarrow> Some s')
     = Some demo_connected"
  using connect_block_refines [OF demo_fresh, of 10] by (simp only: demo_apply)

text \<open>Undo data that is stored is read back unchanged.\<close>

theorem undo_data_roundtrip:
  assumes "length (SerializeUndoData undo) < 2 ^ 63"
  shows "DeserializeUndoData (SerializeUndoData undo) = Inr undo"
  using assms by (rule DeserializeUndoData_Serialize)

theorem undo_data_roundtrip_witness:
  "DeserializeUndoData (SerializeUndoData \<lparr>undo_SpentOutputs = [\<lparr>so_OutPoint = demo_outpoint, so_Entry = demo_entry\<rparr>]\<rparr>)
     = Inr \<lparr>undo_SpentOutputs = [\<lparr>so_OutPoint = demo_outpoint, so_Entry = demo_entry\<rparr>]\<rparr>"
  by (rule undo_data_roundtrip)
    (simp add: SerializeUndoData_def SpentOutput_bytes_def UtxoEntry_Serialize_def demo_entry_def PutVarInt_def Let_def)

text \<open>\<^verbatim>\<open>TotalValue\<close> is the exact sum of the values, saturated at the largest 64-bit number, so it does not
  depend on the order in which the map is iterated.\<close>

theorem total_value_saturates:
  "unat (Set_TotalValue es) = min (sum_list (map (\<lambda>e. unat (ue_Value e)) es)) (2 ^ 64 - 1)"
  by (simp add: Set_TotalValue_def Set_TotalValue_loop_spec)

text \<open>A stored entry whose script length is written as \<open>2 ^ 63\<close> passes the truncation check, because the
  conversion to \<^verbatim>\<open>int\<close> is negative, and the allocation then panics instead of an error being
  returned.\<close>

theorem utxo_entry_length_panic:
  "DeserializeUtxoEntry (replicate 13 0 @ PutVarInt (2 ^ 63)) = Inl PanicMakeSlice"
  by code_simp

end
