(* ===== verification/Script.thy ===== *)
theory Script
  imports Crypto
begin

text \<open>
  The script engine (\<^verbatim>\<open>internal/script/script.go\<close>) and input signing (\<^verbatim>\<open>internal/crypto/signature.go\<close>).
  The stack is a list with its top first. The loop of \<^verbatim>\<open>execute\<close> is a recursion on the bytes
  that are left, one \<open>exec_op\<close> per opcode; every error return is a constructor of
  \<open>script_error\<close> (byte offsets in messages are left out).
\<close>

section \<open>Definitions\<close>

datatype script_error =
    ErrEmptyPkScript
  | ErrOpReturnOutput
  | ErrScriptSize nat
  | ErrOpCount
  | ErrPushTooShort byte nat
  | ErrPushSize byte nat
  | ErrMissingLength byte
  | ErrUnderflow byte
  | ErrNotEqual
  | ErrNullFail
  | ErrHashType byte
  | ErrDERSignature
  | ErrPublicKey
  | ErrSigHash sighash_error
  | ErrVerification
  | ErrOpReturn
  | ErrOpcode byte
  | ErrStackOverflow nat
  | ErrEmptyStack
  | ErrEvalFalse
  | ErrCleanStack nat
  | ErrInSigScript script_error
  | ErrInPkScript script_error

abbreviation (input) maxStackSize :: nat where "maxStackSize \<equiv> 1000"
abbreviation (input) maxScriptSize :: nat where "maxScriptSize \<equiv> 10000"
abbreviation (input) maxOpsPerScript :: nat where "maxOpsPerScript \<equiv> 201"
abbreviation (input) maxStackElemSize :: nat where "maxStackElemSize \<equiv> 520"

abbreviation (input) OpFalse :: byte where "OpFalse \<equiv> 0x00"
abbreviation (input) OpPushData1 :: byte where "OpPushData1 \<equiv> 0x4c"
abbreviation (input) OpPushData2 :: byte where "OpPushData2 \<equiv> 0x4d"
abbreviation (input) Op1 :: byte where "Op1 \<equiv> 0x51"
abbreviation (input) OpEqual :: byte where "OpEqual \<equiv> 0x87"
abbreviation (input) OpReturn :: byte where "OpReturn \<equiv> 0x6a"

type_synonym stack = "bytes list"

record engine =
  vm_tx :: Transaction
  vm_inputIdx :: int
  vm_pkScript :: bytes

fun bytesEqual :: "bytes \<Rightarrow> bytes \<Rightarrow> bool" where
  "bytesEqual [] [] = True"
| "bytesEqual (a # as) (b # bs) = (a = b \<and> bytesEqual as bs)"
| "bytesEqual _ _ = False"

fun isTrue :: "bytes \<Rightarrow> bool" where
  "isTrue [] = False"
| "isTrue (b # bs) = (if b \<noteq> 0 then (if bs = [] \<and> b = 0x80 then False else True) else isTrue bs)"

text \<open>A push of \<open>n\<close> bytes from the script that is left.\<close>

definition exec_push :: "byte \<Rightarrow> nat \<Rightarrow> bytes \<Rightarrow> stack \<Rightarrow> script_error + (bytes \<times> stack \<times> bool)" where
  "exec_push op n rest st =
     (if length rest < n then Inl (ErrPushTooShort op n)
      else if n > maxStackElemSize then Inl (ErrPushSize op n)
      else Inr (drop n rest, take n rest # st, True))"

definition exec_checksig ::
  "('sig, 'pk, 'sk) ecdsa_lib \<Rightarrow> engine \<Rightarrow> bytes \<Rightarrow> bytes \<Rightarrow> script_error + unit" where
  "exec_checksig L vm sigBytes pubKeyBytes =
     (if length sigBytes < 2 then Inl ErrNullFail
      else let hashType = last sigBytes in
        if hashType \<noteq> SigHashAll then Inl (ErrHashType hashType)
        else (case ParseDERSignature L (butlast sigBytes) of
            None \<Rightarrow> Inl ErrDERSignature
          | Some sig \<Rightarrow> (case ParsePubKey L pubKeyBytes of
              None \<Rightarrow> Inl ErrPublicKey
            | Some pubKey \<Rightarrow> (case ComputeSigHash (vm_tx vm) (vm_inputIdx vm) (vm_pkScript vm) of
                Inl e \<Rightarrow> Inl (ErrSigHash e)
              | Inr sigHash \<Rightarrow> if ecdsa_Verify L sig (hash_bytes sigHash) pubKey then Inr ()
                  else Inl ErrVerification))))"

text \<open>
  One opcode: the script left after it, the new stack, and whether the stack-size check at the
  end of the loop body is reached (an empty signature leaves by \<^verbatim>\<open>continue\<close>).
\<close>

definition exec_op ::
  "('sig, 'pk, 'sk) ecdsa_lib \<Rightarrow> engine \<Rightarrow> byte \<Rightarrow> bytes \<Rightarrow> stack \<Rightarrow> script_error + (bytes \<times> stack \<times> bool)" where
  "exec_op L vm op rest st =
     (if op = OpFalse then Inr (rest, [] # st, True)
      else if op \<ge> 0x01 \<and> op \<le> 0x4b then exec_push op (unat op) rest st
      else if op = OpPushData1 then
        (case rest of [] \<Rightarrow> Inl (ErrMissingLength op) | n # rest' \<Rightarrow> exec_push op (unat n) rest' st)
      else if op = OpPushData2 then
        (case rest of n # m # rest' \<Rightarrow> exec_push op (unat n OR push_bit 8 (unat m)) rest' st
         | _ \<Rightarrow> Inl (ErrMissingLength op))
      else if op = Op1 then Inr (rest, [1] # st, True)
      else if op = OpDup then
        (case st of [] \<Rightarrow> Inl (ErrUnderflow op) | x # st' \<Rightarrow> Inr (rest, x # x # st', True))
      else if op = OpHash160 then
        (case st of [] \<Rightarrow> Inl (ErrUnderflow op) | data # st' \<Rightarrow> Inr (rest, Hash160 L data # st', True))
      else if op = OpEqual then
        (case st of b # a # st' \<Rightarrow> Inr (rest, (if bytesEqual a b then [1] else []) # st', True)
         | _ \<Rightarrow> Inl (ErrUnderflow op))
      else if op = OpEqualVerify then
        (case st of b # a # st' \<Rightarrow> if \<not> bytesEqual a b then Inl ErrNotEqual else Inr (rest, st', True)
         | _ \<Rightarrow> Inl (ErrUnderflow op))
      else if op = OpCheckSig then
        (case st of pubKeyBytes # sigBytes # st' \<Rightarrow>
           if length sigBytes = 0 then Inr (rest, [] # st', False)
           else rbind (exec_checksig L vm sigBytes pubKeyBytes) (\<lambda>_. Inr (rest, [1] # st', True))
         | _ \<Rightarrow> Inl (ErrUnderflow op))
      else if op = OpReturn then Inl ErrOpReturn
      else Inl (ErrOpcode op))"

lemma exec_op_rest: "exec_op L vm op rest st = Inr (rest', st', c) \<Longrightarrow> length rest' \<le> length rest"
  by (auto simp: exec_op_def exec_push_def split: if_splits list.splits)

function exec_loop ::
  "('sig, 'pk, 'sk) ecdsa_lib \<Rightarrow> engine \<Rightarrow> nat \<Rightarrow> bytes \<Rightarrow> stack \<Rightarrow> script_error + stack" where
  "exec_loop L vm numOps [] st = Inr st"
| "exec_loop L vm numOps (op # rest) st =
     (let numOps = (if op > OpPushData2 then numOps + 1 else numOps) in
      if op > OpPushData2 \<and> numOps > maxOpsPerScript then Inl ErrOpCount
      else rbind (exec_op L vm op rest st) (\<lambda>(rest', st', chk).
        if chk \<and> length st' > maxStackSize then Inl (ErrStackOverflow (length st'))
        else exec_loop L vm numOps rest' st'))"
  by pat_completeness auto
termination
  by (relation "measure (\<lambda>(L, vm, numOps, rest, st). length rest)") (auto dest: exec_op_rest)

definition execute ::
  "('sig, 'pk, 'sk) ecdsa_lib \<Rightarrow> engine \<Rightarrow> bytes \<Rightarrow> stack \<Rightarrow> script_error + stack" where
  "execute L vm script st =
     (if length script > maxScriptSize then Inl (ErrScriptSize (length script))
      else exec_loop L vm 0 script st)"

definition script_Verify ::
  "('sig, 'pk, 'sk) ecdsa_lib \<Rightarrow> bytes \<Rightarrow> bytes \<Rightarrow> Transaction \<Rightarrow> int \<Rightarrow> script_error + unit" where
  "script_Verify L sigScript pkScript tx inputIdx =
     (if length pkScript = 0 then Inl ErrEmptyPkScript
      else if pkScript ! 0 = OpReturn then Inl ErrOpReturnOutput
      else let vm = \<lparr>vm_tx = tx, vm_inputIdx = inputIdx, vm_pkScript = pkScript\<rparr> in
        rbind (map_err ErrInSigScript (execute L vm sigScript [])) (\<lambda>st.
        rbind (map_err ErrInPkScript (execute L vm pkScript st)) (\<lambda>st.
          if length st = 0 then Inl ErrEmptyStack
          else if \<not> isTrue (hd st) then Inl ErrEvalFalse
          else if length st \<noteq> 1 then Inl (ErrCleanStack (length st))
          else Inr ())))"

definition IsStandardScript :: "bytes \<Rightarrow> bool" where
  "IsStandardScript pkScript =
     (if IsP2PKHScript pkScript then True
      else if length pkScript > 0 \<and> pkScript ! 0 = OpReturn then True else False)"

definition IsLegacyUnvalidatedScript :: "bytes \<Rightarrow> bool" where
  "IsLegacyUnvalidatedScript pkScript = False"

section \<open>Signing (\<^verbatim>\<open>signature.go\<close>)\<close>

datatype signature_error =
    SigTooShort nat | SigHashType byte | SigParse | SigComputeHash sighash_error | SigVerification

definition SignTransaction ::
  "('sig, 'pk, 'sk) ecdsa_lib \<Rightarrow> Transaction \<Rightarrow> int \<Rightarrow> bytes \<Rightarrow> 'sk \<Rightarrow> sighash_error + bytes" where
  "SignTransaction L tx inputIdx subscript privKey =
     rbind (ComputeSigHash tx inputIdx subscript) (\<lambda>sigHash.
       Inr (sig_Serialize L (ecdsa_Sign L privKey (hash_bytes sigHash)) @ [SigHashAll]))"

definition VerifySignature ::
  "('sig, 'pk, 'sk) ecdsa_lib \<Rightarrow> Transaction \<Rightarrow> int \<Rightarrow> bytes \<Rightarrow> bytes \<Rightarrow> 'pk \<Rightarrow> signature_error + unit" where
  "VerifySignature L tx inputIdx subscript sigWithHashType pubKey =
     (if length sigWithHashType < 2 then Inl (SigTooShort (length sigWithHashType))
      else let hashType = last sigWithHashType in
        if hashType \<noteq> SigHashAll then Inl (SigHashType hashType)
        else (case ParseDERSignature L (butlast sigWithHashType) of
            None \<Rightarrow> Inl SigParse
          | Some sig \<Rightarrow> (case ComputeSigHash tx inputIdx subscript of
              Inl e \<Rightarrow> Inl (SigComputeHash e)
            | Inr sigHash \<Rightarrow> if \<not> ecdsa_Verify L sig (hash_bytes sigHash) pubKey
                then Inl SigVerification else Inr ())))"

definition SignInput ::
  "('sig, 'pk, 'sk) ecdsa_lib \<Rightarrow> Transaction \<Rightarrow> int \<Rightarrow> bytes \<Rightarrow> 'sk \<Rightarrow> sighash_error + bytes" where
  "SignInput L tx inputIdx prevPkScript privKey =
     rbind (SignTransaction L tx inputIdx prevPkScript privKey) (\<lambda>sig.
       Inr (MakeP2PKHSignatureScript sig (PubKey_SerializeCompressed L privKey)))"

section \<open>Lemmas\<close>

lemma bytesEqual_iff [simp]: "bytesEqual a b \<longleftrightarrow> a = b"
  by (induction a b rule: bytesEqual.induct) auto

lemma isTrue_iff:
  "isTrue data \<longleftrightarrow> \<not> (list_all (\<lambda>b. b = 0) data \<or>
     (data \<noteq> [] \<and> last data = 0x80 \<and> list_all (\<lambda>b. b = 0) (butlast data)))"
  by (induction data) auto

text \<open>\<open>exec_checksig\<close> in the script engine accepts what \<open>VerifySignature\<close> accepts.\<close>

lemma exec_checksig_iff:
  "exec_checksig L vm sig pk = Inr () \<longleftrightarrow>
     (\<exists>k. ParsePubKey L pk = Some k \<and>
       VerifySignature L (vm_tx vm) (vm_inputIdx vm) (vm_pkScript vm) sig k = Inr ())"
  by (auto simp: exec_checksig_def VerifySignature_def Let_def split: option.splits sum.splits if_splits)

lemma exec_op_push:
  "0 < length d \<Longrightarrow> length d \<le> 75 \<Longrightarrow>
     exec_op L vm (of_nat (length d)) (d @ rest) st = Inr (rest, d # st, True)"
proof -
  assume d: "0 < length d" "length d \<le> 75"
  have u: "unat (of_nat (length d) :: byte) = length d" using d by (simp add: unat_of_nat)
  then have "(of_nat (length d) :: byte) \<noteq> 0" "(of_nat (length d) :: byte) \<ge> 0x01"
    "(of_nat (length d) :: byte) \<le> 0x4b"
    using d by (auto simp: word_le_nat_alt word_unat_eq_iff Suc_le_eq)
  then show ?thesis using d by (simp add: exec_op_def exec_push_def u)
qed

lemma push_not_counted: "n \<le> 75 \<Longrightarrow> \<not> (OpPushData2 < (of_nat n :: byte))"
  by (simp add: word_less_nat_alt unat_of_nat)

lemma exec_sigscript:
  assumes "0 < length sig" "length sig \<le> 75" "0 < length pk" "length pk \<le> 75"
  shows "execute L vm (MakeP2PKHSignatureScript sig pk) [] = Inr [pk, sig]"
  using assms exec_op_push [of pk L vm "[]"]
  by (simp add: execute_def MakeP2PKHSignatureScript_def exec_op_push push_not_counted Let_def)

lemma P2PKH_not_unspendable:
  "IsP2PKHScript s \<Longrightarrow> length s \<noteq> 0 \<and> s ! 0 \<noteq> OpReturn"
  by (auto simp: IsP2PKHScript_def)

text \<open>What a P2PKH script does to a stack.\<close>

lemma exec_op_p2pkh:
  "exec_op L vm OpDup rest [] = Inl (ErrUnderflow OpDup)"
  "exec_op L vm OpDup rest (x # st) = Inr (rest, x # x # st, True)"
  "exec_op L vm OpHash160 rest (x # st) = Inr (rest, Hash160 L x # st, True)"
  "exec_op L vm OpEqualVerify rest (b # a # st) =
     (if a \<noteq> b then Inl ErrNotEqual else Inr (rest, st, True))"
  "exec_op L vm OpCheckSig rest [x] = Inl (ErrUnderflow OpCheckSig)"
  "exec_op L vm OpCheckSig rest (pk # sig # st) =
     (if sig = [] then Inr (rest, [] # st, False)
      else rbind (exec_checksig L vm sig pk) (\<lambda>_. Inr (rest, [1] # st, True)))"
  by (simp_all add: exec_op_def)

lemma exec_p2pkh:
  assumes "length h = 20"
  shows "execute L vm (MakeP2PKHScript h) st = Inr st' \<longleftrightarrow>
     (\<exists>pk sig st0. st = pk # sig # st0 \<and> Hash160 L pk = h \<and> length st < 999 \<and>
        (if sig = [] then st' = [] # st0
         else exec_checksig L vm sig pk = Inr () \<and> st' = [1] # st0))"
proof -
  have p: "exec_op L vm 0x14 (h @ rest) st = Inr (rest, h # st, True)" for rest st
    using exec_op_push [of h L vm rest st] assms by simp
  consider "st = []" | pk where "st = [pk]" | pk sig st0 where "st = pk # sig # st0"
    by (metis neq_Nil_conv)
  then show ?thesis
    by cases (auto simp: execute_def MakeP2PKHScript_20 assms p exec_op_p2pkh rbind_def split: sum.splits)
qed

text \<open>The stack bounds, as an invariant of the loop.\<close>

definition stack_ok :: "stack \<Rightarrow> bool" where
  "stack_ok st \<longleftrightarrow> length st \<le> 1000 \<and> list_all (\<lambda>d. length d \<le> 520) st"

lemma exec_op_elems:
  assumes "exec_op L vm op rest st = Inr (rest', st', chk)" "list_all (\<lambda>d. length d \<le> 520) st"
  shows "list_all (\<lambda>d. length d \<le> 520) st' \<and> (chk \<or> length st' \<le> length st)"
  using assms by (auto simp: exec_op_def exec_push_def split: if_splits list.splits)

lemma exec_loop_ok:
  "exec_loop L vm numOps script st = Inr st' \<Longrightarrow> stack_ok st \<Longrightarrow> stack_ok st'"
proof (induction L vm numOps script st rule: exec_loop.induct)
  case (2 L vm numOps op rest st)
  from "2.prems"(1) obtain rest' st1 chk where
    op: "exec_op L vm op rest st = Inr (rest', st1, chk)"
    and size: "chk \<longrightarrow> length st1 \<le> 1000"
    and loop: "exec_loop L vm (if op > OpPushData2 then numOps + 1 else numOps) rest' st1 = Inr st'"
    and ops: "\<not> (op > OpPushData2 \<and> (if op > OpPushData2 then numOps + 1 else numOps) > 201)"
    by (auto simp: Let_def not_less split: if_splits)
  have "stack_ok st1"
    using exec_op_elems [OF op] "2.prems"(2) size by (auto simp: stack_ok_def)
  with "2.IH" [OF refl ops op refl refl _ loop] size show ?case by auto
qed simp

lemma execute_ok: "execute L vm script st = Inr st' \<Longrightarrow> stack_ok st \<Longrightarrow> stack_ok st'"
  by (auto simp: execute_def intro: exec_loop_ok split: if_splits)

text \<open>A signature hash does not depend on the signature scripts of the transaction.\<close>

definition strip_scripts :: "Transaction \<Rightarrow> Transaction" where
  "strip_scripts tx = tx\<lparr>tx_Inputs := map (\<lambda>i. i\<lparr>in_SignatureScript := []\<rparr>) (tx_Inputs tx)\<rparr>"

lemma sighash_inputs_strip:
  "sighash_inputs (map (\<lambda>i. i\<lparr>in_SignatureScript := []\<rparr>) ins) n s = sighash_inputs ins n s"
  by (simp add: sighash_inputs_def zip_map2 o_def split_beta)

lemma ComputeSigHash_strip: "ComputeSigHash (strip_scripts tx) i s = ComputeSigHash tx i s"
  by (simp add: ComputeSigHash_def strip_scripts_def sighash_inputs_strip)

lemma script_Verify_p2pkh:
  assumes "ExtractP2PKHHash pkScript = Some h"
  shows "script_Verify L sigScript pkScript tx inputIdx = Inr () \<longleftrightarrow>
     (\<exists>sig pk k. execute L \<lparr>vm_tx = tx, vm_inputIdx = inputIdx, vm_pkScript = pkScript\<rparr> sigScript [] = Inr [pk, sig]
        \<and> Hash160 L pk = h \<and> ParsePubKey L pk = Some k
        \<and> VerifySignature L tx inputIdx pkScript sig k = Inr ())"
proof -
  from assms have p: "IsP2PKHScript pkScript" and h: "h = take 20 (drop 3 pkScript)"
    by (auto simp: ExtractP2PKHHash_def split: if_splits)
  then obtain h' where "length h' = 20" "pkScript = MakeP2PKHScript h'" by (auto simp: IsP2PKHScript_form)
  with h have mk: "length h = 20" "pkScript = MakeP2PKHScript h" by (simp_all add: MakeP2PKHScript_20)
  define vm where "vm = \<lparr>vm_tx = tx, vm_inputIdx = inputIdx, vm_pkScript = pkScript\<rparr>"
  have verdict: "(if length st = 0 then Inl e1 else if \<not> isTrue (hd st) then Inl e2
      else if length st \<noteq> 1 then Inl e3 else Inr ()) = Inr () \<longleftrightarrow> (\<exists>x. st = [x] \<and> isTrue x)"
    for st and e1 e2 e3 :: script_error
    by (cases st) auto
  have vs: "VerifySignature L tx inputIdx pkScript [] k \<noteq> Inr ()" for k
    by (simp add: VerifySignature_def)
  have cs: "exec_checksig L vm sig pk = Inr () \<longleftrightarrow>
      (\<exists>k. ParsePubKey L pk = Some k \<and> VerifySignature L tx inputIdx pkScript sig k = Inr ())" for sig pk
    by (simp add: exec_checksig_iff vm_def)
  have run: "execute L vm pkScript st = Inr st' \<longleftrightarrow>
     (\<exists>pk sig st0. st = pk # sig # st0 \<and> Hash160 L pk = h \<and> length st < 999 \<and>
        (if sig = [] then st' = [] # st0
         else exec_checksig L vm sig pk = Inr () \<and> st' = [1] # st0))" for st st'
    unfolding mk(2) by (rule exec_p2pkh [OF mk(1)])
  have "script_Verify L sigScript pkScript tx inputIdx = Inr () \<longleftrightarrow>
     (\<exists>st x. execute L vm sigScript [] = Inr st \<and> execute L vm pkScript st = Inr [x] \<and> isTrue x)"
    using P2PKH_not_unspendable [OF p]
    unfolding script_Verify_def vm_def [symmetric] Let_def
    by (simp add: verdict del: length_0_conv) blast
  also have "\<dots> \<longleftrightarrow> (\<exists>pk sig. execute L vm sigScript [] = Inr [pk, sig] \<and> Hash160 L pk = h
      \<and> exec_checksig L vm sig pk = Inr ())"
  proof
    assume "\<exists>pk sig. execute L vm sigScript [] = Inr [pk, sig] \<and> Hash160 L pk = h
      \<and> exec_checksig L vm sig pk = Inr ()"
    then obtain pk sig where r: "execute L vm sigScript [] = Inr [pk, sig]" "Hash160 L pk = h"
      "exec_checksig L vm sig pk = Inr ()" by blast
    then have "sig \<noteq> []" using vs by (auto simp: cs)
    with r have "execute L vm pkScript [pk, sig] = Inr [[1]]" by (auto simp: run)
    with r(1) show "\<exists>st x. execute L vm sigScript [] = Inr st \<and> execute L vm pkScript st = Inr [x] \<and> isTrue x"
      by force
  qed (auto simp: run split: if_splits)
  finally show ?thesis unfolding cs unfolding vm_def by blast
qed

lemma SignInput_verifies:
  assumes "\<And>m. length m = 32 \<Longrightarrow>
        ParseDERSignature L (sig_Serialize L (ecdsa_Sign L sk m)) = Some (ecdsa_Sign L sk m)"
    and "ParsePubKey L (PubKey_SerializeCompressed L sk) = Some pk"
    and "\<And>m. length m = 32 \<Longrightarrow> ecdsa_Verify L (ecdsa_Sign L sk m) m pk"
    and "\<And>m. length m = 32 \<Longrightarrow> sig_Serialize L (ecdsa_Sign L sk m) \<noteq> []
        \<and> length (sig_Serialize L (ecdsa_Sign L sk m)) \<le> 72"
    and "length (PubKey_SerializeCompressed L sk) = 33"
    and "0 \<le> inputIdx" "inputIdx < int (length (tx_Inputs tx))"
    and "strip_scripts tx' = strip_scripts tx"
    and "pkScript = MakeP2PKHScriptFromPubKey L (PubKey_SerializeCompressed L sk)"
  shows "\<exists>script. SignInput L tx inputIdx pkScript sk = Inr script
     \<and> script_Verify L script pkScript tx' inputIdx = Inr ()"
proof -
  let ?pub = "PubKey_SerializeCompressed L sk"
  obtain m where m: "ComputeSigHash tx inputIdx pkScript = Inr m"
    using assms(6,7) by (simp add: ComputeSigHash_def)
  then have m': "ComputeSigHash tx' inputIdx pkScript = Inr m"
    using assms(8) by (metis ComputeSigHash_strip)
  let ?sig = "sig_Serialize L (ecdsa_Sign L sk (hash_bytes m)) @ [SigHashAll]"
  have sign: "SignInput L tx inputIdx pkScript sk = Inr (MakeP2PKHSignatureScript ?sig ?pub)"
    by (simp add: SignInput_def SignTransaction_def m)
  have ex: "ExtractP2PKHHash pkScript = Some (Hash160 L ?pub)"
    using IsP2PKHScript_form [of pkScript] length_Hash160 [of L ?pub]
    by (auto simp: assms(9) MakeP2PKHScriptFromPubKey_def ExtractP2PKHHash_def MakeP2PKHScript_20)
  have "VerifySignature L tx' inputIdx pkScript ?sig pk = Inr ()"
    using assms(1,3,4) [of "hash_bytes m"] by (simp add: VerifySignature_def m' Suc_le_eq)
  then have "script_Verify L (MakeP2PKHSignatureScript ?sig ?pub) pkScript tx' inputIdx = Inr ()"
    using assms(2,5) assms(4) [of "hash_bytes m"] exec_sigscript [of ?sig ?pub]
    unfolding script_Verify_p2pkh [OF ex] by fastforce
  with sign show ?thesis by blast
qed

text \<open>A concrete signature package and transaction for the witnesses.\<close>

definition demo_lib :: "(bytes, bytes, bytes) ecdsa_lib" where
  "demo_lib = \<lparr>ripemd160 = take 20, ParseDERSignature = Some, ParsePubKey = Some,
     ecdsa_Verify = (\<lambda>sig m pk. sig = m), ecdsa_Sign = (\<lambda>sk m. m), sig_Serialize = id,
     PubKey_SerializeCompressed = (\<lambda>sk. replicate 33 2)\<rparr>"

definition demo_tx :: Transaction where
  "demo_tx = \<lparr>tx_Version = 1,
     tx_Inputs = [\<lparr>in_PreviousOutPoint = \<lparr>op_Hash = hash_copy [5], op_Index = 0\<rparr>,
                    in_SignatureScript = [], in_Sequence = 0xFFFFFFFF\<rparr>],
     tx_Outputs = [\<lparr>out_Value = 9, out_PkScript = [0x51]\<rparr>], tx_LockTime = 0\<rparr>"

section \<open>Properties\<close>

text \<open>C15. Pay-to-pubkey-hash: a P2PKH output with hash \<open>h\<close> is spent by a signature script exactly when running
  that script leaves a public key and a signature and nothing else, the public key hashes to
  \<open>h\<close> and parses, and the signature verifies for this input of this transaction.\<close>

theorem p2pkh_spend_iff:
  assumes "ExtractP2PKHHash pkScript = Some h"
  shows "script_Verify L sigScript pkScript tx inputIdx = Inr () \<longleftrightarrow>
     (\<exists>sig pk k. execute L \<lparr>vm_tx = tx, vm_inputIdx = inputIdx, vm_pkScript = pkScript\<rparr> sigScript [] = Inr [pk, sig]
        \<and> Hash160 L pk = h \<and> ParsePubKey L pk = Some k
        \<and> VerifySignature L tx inputIdx pkScript sig k = Inr ())"
  using assms by (rule script_Verify_p2pkh)

theorem p2pkh_spend_iff_witness:
  "ExtractP2PKHHash (MakeP2PKHScript (replicate 20 7)) = Some (replicate 20 7)
   \<and> script_Verify demo_lib [0x51] (MakeP2PKHScript (replicate 20 7)) demo_tx 0 \<noteq> Inr ()"
proof -
  have e: "ExtractP2PKHHash (MakeP2PKHScript (replicate 20 7)) = Some (replicate 20 7)"
    by code_simp
  have "execute demo_lib vm [0x51] [] = Inr [[1]]" for vm
    by (simp add: execute_def exec_op_def Let_def)
  with p2pkh_spend_iff [OF e, of demo_lib "[0x51]" demo_tx 0] e show ?thesis by simp
qed

text \<open>The owner of a key can spend: for an output paying to the hash of a key, \<^verbatim>\<open>SignInput\<close> produces a
  signature script that the engine accepts, also once scripts have been filled into the
  transaction's inputs. Assumed of the secp256k1 package: a serialised signature and a compressed
  public key parse back, signatures made with the key verify, and their encodings have the
  documented sizes.\<close>

theorem sign_input_spends:
  assumes "\<And>m. length m = 32 \<Longrightarrow>
        ParseDERSignature L (sig_Serialize L (ecdsa_Sign L sk m)) = Some (ecdsa_Sign L sk m)"
    and "ParsePubKey L (PubKey_SerializeCompressed L sk) = Some pk"
    and "\<And>m. length m = 32 \<Longrightarrow> ecdsa_Verify L (ecdsa_Sign L sk m) m pk"
    and "\<And>m. length m = 32 \<Longrightarrow> sig_Serialize L (ecdsa_Sign L sk m) \<noteq> []
        \<and> length (sig_Serialize L (ecdsa_Sign L sk m)) \<le> 72"
    and "length (PubKey_SerializeCompressed L sk) = 33"
    and "0 \<le> inputIdx" "inputIdx < int (length (tx_Inputs tx))"
    and "strip_scripts tx' = strip_scripts tx"
    and "pkScript = MakeP2PKHScriptFromPubKey L (PubKey_SerializeCompressed L sk)"
  shows "\<exists>script. SignInput L tx inputIdx pkScript sk = Inr script
     \<and> script_Verify L script pkScript tx' inputIdx = Inr ()"
  using assms by (rule SignInput_verifies)

theorem sign_input_spends_witness:
  "\<exists>script. SignInput demo_lib demo_tx 0 (MakeP2PKHScriptFromPubKey demo_lib (replicate 33 2)) [9] = Inr script
     \<and> script_Verify demo_lib script (MakeP2PKHScriptFromPubKey demo_lib (replicate 33 2)) demo_tx 0 = Inr ()"
  by (rule sign_input_spends [of demo_lib "[9]" "replicate 33 2" 0 demo_tx demo_tx]) (auto simp: demo_lib_def demo_tx_def)

text \<open>Executing a script keeps the stack within 1000 elements of at most 520 bytes each.\<close>

theorem execute_stack_bounds:
  assumes "execute L vm script st = Inr st'" "length st \<le> 1000" "list_all (\<lambda>d. length d \<le> 520) st"
  shows "length st' \<le> 1000 \<and> list_all (\<lambda>d. length d \<le> 520) st'"
  using execute_ok [OF assms(1)] assms(2,3) by (simp add: stack_ok_def)

theorem execute_stack_bounds_witness:
  "execute demo_lib \<lparr>vm_tx = demo_tx, vm_inputIdx = 0, vm_pkScript = []\<rparr> [2, 8, 9, 0x76] [] = Inr [[8, 9], [8, 9]]
   \<and> length [[8, 9], [8, 9 :: byte]] \<le> 1000"
proof -
  have e: "execute demo_lib \<lparr>vm_tx = demo_tx, vm_inputIdx = 0, vm_pkScript = []\<rparr> [2, 8, 9, 0x76] []
     = Inr [[8, 9], [8, 9]]"
    by (simp add: execute_def exec_op_def exec_push_def Let_def)
  with execute_stack_bounds [OF e] show ?thesis by simp
qed

text \<open>A stack element counts as false exactly when it is all zeros or negative zero (zeros with a last
  byte 0x80).\<close>

theorem isTrue_cast_to_bool:
  "\<not> isTrue data \<longleftrightarrow> list_all (\<lambda>b. b = 0) data \<or>
     (data \<noteq> [] \<and> last data = 0x80 \<and> list_all (\<lambda>b. b = 0) (butlast data))"
  using isTrue_iff by blast

end
