(* ===== verification/TxValidation.thy ===== *)
theory TxValidation
  imports Utxo Script
begin

text \<open>
  Transaction rules (\<^verbatim>\<open>internal/consensus/txvalidation.go\<close>): absolute and relative lock times, the
  validation of all inputs of a block against the set of unspent outputs, the validation of a
  single transaction for the mempool, and fees. Every error return is a constructor of
  \<open>tx_error\<close>. \<^verbatim>\<open>time.Now()\<close> is an argument. The main lemma relates the validation of a block to
  \<open>ConnectBlock\<close>: they walk the block with the same bookkeeping, so a block that validates connects,
  and the value in the set grows by at most the subsidy.
\<close>

section \<open>Lock times\<close>

datatype tx_error =
    ErrLockTimeHeight u32 u32
  | ErrLockTimeMedian u32 u32
  | ErrSeqUtxoNotFound nat
  | ErrSeqTimeBased nat
  | ErrSeqHeight nat
  | ErrSeqConfirmations nat
  | ErrCoinbaseZeroOutput nat
  | ErrNoInputs
  | ErrNoOutputs
  | ErrTxTooLarge nat
  | ErrTxDuplicateInput OutPoint
  | ErrTxDoubleSpend OutPoint
  | ErrTxMissingUtxo OutPoint
  | ErrCoinbaseFuture OutPoint
  | ErrCoinbaseImmature OutPoint
  | ErrInputOverflow
  | ErrInputMaxMoney
  | ErrInputsMaxMoney
  | ErrOutputZero nat
  | ErrOutputMaxMoney nat
  | ErrOutputOverflow nat
  | ErrOutputsMaxMoney
  | ErrInputsBelowOutputs u64 u64
  | ErrTxScript nat script_error
  | ErrFeesOverflow
  | ErrSubsidyOverflow
  | ErrCoinbaseOverflow nat
  | ErrCoinbaseTooHigh u64 u64
  | ErrIsCoinbase
  | ErrTxHashes utxo_error
  | PanicNoTransactions

abbreviation (input) SequenceLockTimeDisableFlag :: u32 where "SequenceLockTimeDisableFlag \<equiv> 0x80000000"
abbreviation (input) SequenceLockTimeTypeFlag :: u32 where "SequenceLockTimeTypeFlag \<equiv> 0x00400000"
abbreviation (input) SequenceLockTimeMask :: u32 where "SequenceLockTimeMask \<equiv> 0x0000ffff"

definition CheckTransactionFinality :: "Transaction \<Rightarrow> u32 \<Rightarrow> u32 \<Rightarrow> tx_error + unit" where
  "CheckTransactionFinality tx blockHeight blockMedianTime =
     (if tx_LockTime tx = 0 then Inr ()
      else if list_all (\<lambda>i. in_Sequence i = 0xFFFFFFFF) (tx_Inputs tx) then Inr ()
      else if tx_LockTime tx < 500000000 then
        (if tx_LockTime tx \<ge> blockHeight then Inl (ErrLockTimeHeight (tx_LockTime tx) blockHeight) else Inr ())
      else
        (if tx_LockTime tx \<ge> blockMedianTime then Inl (ErrLockTimeMedian (tx_LockTime tx) blockMedianTime)
         else Inr ()))"

definition check_sequence_lock :: "utxo_set \<Rightarrow> u32 \<Rightarrow> nat \<Rightarrow> TxInput \<Rightarrow> tx_error + unit" where
  "check_sequence_lock s blockHeight inIdx i =
     (if in_Sequence i AND SequenceLockTimeDisableFlag \<noteq> 0 then Inr ()
      else if in_PreviousOutPoint i = CoinbaseOutPoint then Inr ()
      else (case Set_Get s (op_Hash (in_PreviousOutPoint i)) (op_Index (in_PreviousOutPoint i)) of
          None \<Rightarrow> Inl (ErrSeqUtxoNotFound inIdx)
        | Some entry \<Rightarrow>
            if in_Sequence i AND SequenceLockTimeTypeFlag \<noteq> 0 then Inl (ErrSeqTimeBased inIdx)
            else if blockHeight < ue_Height entry then Inl (ErrSeqHeight inIdx)
            else if blockHeight - ue_Height entry < in_Sequence i AND SequenceLockTimeMask
              then Inl (ErrSeqConfirmations inIdx)
            else Inr ()))"

primrec check_sequence_locks :: "utxo_set \<Rightarrow> u32 \<Rightarrow> nat \<Rightarrow> TxInput list \<Rightarrow> tx_error + unit" where
  "check_sequence_locks s blockHeight inIdx [] = Inr ()"
| "check_sequence_locks s blockHeight inIdx (i # ins) =
     rbind (check_sequence_lock s blockHeight inIdx i) (\<lambda>_. check_sequence_locks s blockHeight (Suc inIdx) ins)"

definition CheckSequenceLocks :: "Transaction \<Rightarrow> u32 \<Rightarrow> u32 \<Rightarrow> utxo_set \<Rightarrow> tx_error + unit" where
  "CheckSequenceLocks tx blockHeight blockMedianTime s = check_sequence_locks s blockHeight 0 (tx_Inputs tx)"

definition check_locks :: "ChainParams \<Rightarrow> Transaction \<Rightarrow> u32 \<Rightarrow> u32 \<Rightarrow> utxo_set \<Rightarrow> tx_error + unit" where
  "check_locks p tx height medianTime s =
     (case par_ActivationHeights p ''locktime'' of
        Some locktimeHeight \<Rightarrow>
          if height \<ge> locktimeHeight
          then rbind (CheckTransactionFinality tx height medianTime) (\<lambda>_. CheckSequenceLocks tx height medianTime s)
          else Inr ()
      | None \<Rightarrow> Inr ())"

section \<open>Inputs, outputs and scripts\<close>

definition check_maturity :: "ChainParams \<Rightarrow> u32 \<Rightarrow> OutPoint \<Rightarrow> UtxoEntry \<Rightarrow> tx_error + unit" where
  "check_maturity p height out entry =
     (if ue_IsCoinbase entry then
        (if height < ue_Height entry then Inl (ErrCoinbaseFuture out)
         else if height - ue_Height entry < par_CoinbaseMaturity p then Inl (ErrCoinbaseImmature out)
         else Inr ())
      else Inr ())"

definition add_input_value :: "u64 \<Rightarrow> UtxoEntry \<Rightarrow> tx_error + u64" where
  "add_input_value totalIn entry =
     (if totalIn + ue_Value entry < totalIn then Inl ErrInputOverflow
      else if ue_Value entry > MaxMoneyValue then Inl ErrInputMaxMoney
      else if totalIn + ue_Value entry > MaxMoneyValue then Inl ErrInputsMaxMoney
      else Inr (totalIn + ue_Value entry))"

primrec sum_outputs :: "nat \<Rightarrow> TxOutput list \<Rightarrow> u64 \<Rightarrow> tx_error + u64" where
  "sum_outputs outIdx [] totalOut = Inr totalOut"
| "sum_outputs outIdx (out # outs) totalOut =
     (if out_Value out = 0 then Inl (ErrOutputZero outIdx)
      else if out_Value out > MaxMoneyValue then Inl (ErrOutputMaxMoney outIdx)
      else if totalOut + out_Value out < totalOut then Inl (ErrOutputOverflow outIdx)
      else sum_outputs (Suc outIdx) outs (totalOut + out_Value out))"

definition check_outputs :: "u64 \<Rightarrow> TxOutput list \<Rightarrow> tx_error + u64" where
  "check_outputs totalIn outs =
     rbind (sum_outputs 0 outs 0) (\<lambda>totalOut.
       if totalOut > MaxMoneyValue then Inl ErrOutputsMaxMoney
       else if totalIn < totalOut then Inl (ErrInputsBelowOutputs totalIn totalOut)
       else Inr totalOut)"

primrec check_scripts ::
  "('sig, 'pk, 'sk) ecdsa_lib \<Rightarrow> Transaction \<Rightarrow> nat \<Rightarrow> (TxInput \<times> UtxoEntry) list \<Rightarrow> tx_error + unit" where
  "check_scripts L tx inIdx [] = Inr ()"
| "check_scripts L tx inIdx (x # xs) =
     rbind (if IsLegacyUnvalidatedScript (ue_PkScript (snd x)) then Inr ()
            else map_err (ErrTxScript inIdx)
              (script_Verify L (in_SignatureScript (fst x)) (ue_PkScript (snd x)) tx (int inIdx)))
       (\<lambda>_. check_scripts L tx (Suc inIdx) xs)"

section \<open>All inputs of a block\<close>

record val_state =
  vs_spentInBlock :: "bytes set"
  vs_createdInBlock :: "bytes \<rightharpoonup> UtxoEntry"

primrec validate_inputs ::
  "utxo_set \<Rightarrow> ChainParams \<Rightarrow> u32 \<Rightarrow> TxInput list \<Rightarrow> bytes set \<Rightarrow> val_state \<Rightarrow> u64 \<Rightarrow>
     tx_error + (val_state \<times> u64 \<times> UtxoEntry list)" where
  "validate_inputs s p height [] seenInputs st totalIn = Inr (st, totalIn, [])"
| "validate_inputs s p height (i # ins) seenInputs st totalIn =
     (let opKey = in_key i; op = in_PreviousOutPoint i in
      if opKey \<in> seenInputs then Inl (ErrTxDuplicateInput op)
      else if opKey \<in> vs_spentInBlock st then Inl (ErrTxDoubleSpend op)
      else (case (case vs_createdInBlock st opKey of Some e \<Rightarrow> Some e | None \<Rightarrow> Set_Get s (op_Hash op) (op_Index op)) of
          None \<Rightarrow> Inl (ErrTxMissingUtxo op)
        | Some entry \<Rightarrow>
            rbind (check_maturity p height op entry) (\<lambda>_.
            rbind (add_input_value totalIn entry) (\<lambda>totalIn.
            rbind (validate_inputs s p height ins (insert opKey seenInputs)
                     \<lparr>vs_spentInBlock = insert opKey (vs_spentInBlock st),
                      vs_createdInBlock = (vs_createdInBlock st)(opKey := None)\<rparr> totalIn) (\<lambda>(st, totalIn, es).
              Inr (st, totalIn, entry # es))))))"

primrec register_outputs ::
  "hash \<Rightarrow> u32 \<Rightarrow> bool \<Rightarrow> nat \<Rightarrow> TxOutput list \<Rightarrow> (bytes \<rightharpoonup> UtxoEntry) \<Rightarrow> (bytes \<rightharpoonup> UtxoEntry)" where
  "register_outputs txHash height cb outIdx [] created = created"
| "register_outputs txHash height cb outIdx (out # outs) created =
     register_outputs txHash height cb (Suc outIdx) outs
       (created(OutpointKey txHash (of_nat outIdx) \<mapsto> out_entry out height cb))"

primrec check_coinbase_outputs :: "nat \<Rightarrow> TxOutput list \<Rightarrow> tx_error + unit" where
  "check_coinbase_outputs outIdx [] = Inr ()"
| "check_coinbase_outputs outIdx (out # outs) =
     (if out_Value out = 0 then Inl (ErrCoinbaseZeroOutput outIdx) else check_coinbase_outputs (Suc outIdx) outs)"

definition validate_tx ::
  "('sig, 'pk, 'sk) ecdsa_lib \<Rightarrow> utxo_set \<Rightarrow> ChainParams \<Rightarrow> u32 \<Rightarrow> u32 \<Rightarrow> hash list option \<Rightarrow> nat \<Rightarrow> Transaction \<Rightarrow>
     val_state \<Rightarrow> u64 \<Rightarrow> tx_error + (val_state \<times> u64)" where
  "validate_tx L s p height medianTime txHashes txIdx tx st totalFees =
     (if Transaction_IsCoinbase tx then
        rbind (check_coinbase_outputs 0 (tx_Outputs tx)) (\<lambda>_.
        rbind (map_err ErrTxHashes (tx_hash_at txHashes txIdx tx)) (\<lambda>cbHash.
          Inr (st\<lparr>vs_createdInBlock := register_outputs cbHash height True 0 (tx_Outputs tx) (vs_createdInBlock st)\<rparr>,
               totalFees)))
      else if length (tx_Inputs tx) = 0 then Inl ErrNoInputs
      else if length (tx_Outputs tx) = 0 then Inl ErrNoOutputs
      else if Transaction_SerializeSize tx > MaxTxSize then Inl (ErrTxTooLarge (Transaction_SerializeSize tx))
      else
        rbind (map_err ErrTxHashes (tx_hash_at txHashes txIdx tx)) (\<lambda>txHash.
        rbind (validate_inputs s p height (tx_Inputs tx) {} st 0) (\<lambda>(st, totalIn, resolvedEntries).
        rbind (check_outputs totalIn (tx_Outputs tx)) (\<lambda>totalOut.
        let st = st\<lparr>vs_createdInBlock := register_outputs txHash height False 0 (tx_Outputs tx) (vs_createdInBlock st)\<rparr> in
        rbind (check_scripts L tx 0 (zip (tx_Inputs tx) resolvedEntries)) (\<lambda>_.
        rbind (check_locks p tx height medianTime s) (\<lambda>_.
        let fee = totalIn - totalOut in
        if totalFees + fee < totalFees then Inl ErrFeesOverflow
        else Inr (st, totalFees + fee)))))))"

primrec validate_txs ::
  "('sig, 'pk, 'sk) ecdsa_lib \<Rightarrow> utxo_set \<Rightarrow> ChainParams \<Rightarrow> u32 \<Rightarrow> u32 \<Rightarrow> hash list option \<Rightarrow> nat \<Rightarrow> Transaction list \<Rightarrow>
     val_state \<Rightarrow> u64 \<Rightarrow> tx_error + (val_state \<times> u64)" where
  "validate_txs L s p height medianTime txHashes txIdx [] st totalFees = Inr (st, totalFees)"
| "validate_txs L s p height medianTime txHashes txIdx (tx # txs) st totalFees =
     rbind (validate_tx L s p height medianTime txHashes txIdx tx st totalFees) (\<lambda>(st, totalFees).
       validate_txs L s p height medianTime txHashes (Suc txIdx) txs st totalFees)"

primrec coinbase_value :: "nat \<Rightarrow> TxOutput list \<Rightarrow> u64 \<Rightarrow> tx_error + u64" where
  "coinbase_value outIdx [] v = Inr v"
| "coinbase_value outIdx (out # outs) v =
     (if v + out_Value out < v then Inl (ErrCoinbaseOverflow outIdx)
      else coinbase_value (Suc outIdx) outs (v + out_Value out))"

definition ValidateTransactionInputs ::
  "('sig, 'pk, 'sk) ecdsa_lib \<Rightarrow> Block \<Rightarrow> utxo_set \<Rightarrow> u32 \<Rightarrow> ChainParams \<Rightarrow> u32 \<Rightarrow> hash list option \<Rightarrow> tx_error + u64" where
  "ValidateTransactionInputs L block s height p medianTimePast txHashes =
     rbind (validate_txs L s p height medianTimePast txHashes 0 (blk_Transactions block)
              \<lparr>vs_spentInBlock = {}, vs_createdInBlock = Map.empty\<rparr> 0) (\<lambda>(st, totalFees).
     let subsidy = CalcSubsidy p height; maxCoinbase = subsidy + totalFees in
     if maxCoinbase < subsidy then Inl ErrSubsidyOverflow
     else (case blk_Transactions block of
         [] \<Rightarrow> Inl PanicNoTransactions
       | tx # txs \<Rightarrow>
           rbind (coinbase_value 0 (tx_Outputs tx) 0) (\<lambda>coinbaseValue.
           if coinbaseValue > maxCoinbase then Inl (ErrCoinbaseTooHigh coinbaseValue maxCoinbase)
           else Inr totalFees)))"

section \<open>Single transactions\<close>

primrec single_inputs ::
  "utxo_set \<Rightarrow> (bytes \<rightharpoonup> UtxoEntry) option \<Rightarrow> ChainParams \<Rightarrow> u32 \<Rightarrow> TxInput list \<Rightarrow> bytes set \<Rightarrow> u64 \<Rightarrow>
     tx_error + (u64 \<times> UtxoEntry list)" where
  "single_inputs s supplemental p spendHeight [] seenInputs totalIn = Inr (totalIn, [])"
| "single_inputs s supplemental p spendHeight (i # ins) seenInputs totalIn =
     (let opKey = in_key i; op = in_PreviousOutPoint i in
      if opKey \<in> seenInputs then Inl (ErrTxDuplicateInput op)
      else (case (case Set_Get s (op_Hash op) (op_Index op) of
                    Some e \<Rightarrow> Some e
                  | None \<Rightarrow> (case supplemental of None \<Rightarrow> None | Some m \<Rightarrow> m opKey)) of
          None \<Rightarrow> Inl (ErrTxMissingUtxo op)
        | Some entry \<Rightarrow>
            rbind (check_maturity p spendHeight op entry) (\<lambda>_.
            rbind (add_input_value totalIn entry) (\<lambda>totalIn.
            rbind (single_inputs s supplemental p spendHeight ins (insert opKey seenInputs) totalIn) (\<lambda>(totalIn, es).
              Inr (totalIn, entry # es))))))"

definition ValidateSingleTransaction ::
  "('sig, 'pk, 'sk) ecdsa_lib \<Rightarrow> u32 \<Rightarrow> Transaction \<Rightarrow> utxo_set \<Rightarrow> u32 \<Rightarrow> ChainParams \<Rightarrow> (bytes \<rightharpoonup> UtxoEntry) option \<Rightarrow>
     tx_error + u64" where
  "ValidateSingleTransaction L now tx s tipHeight p supplementalUtxos =
     (if Transaction_IsCoinbase tx then Inl ErrIsCoinbase
      else if length (tx_Inputs tx) = 0 then Inl ErrNoInputs
      else if length (tx_Outputs tx) = 0 then Inl ErrNoOutputs
      else if Transaction_SerializeSize tx > MaxTxSize then Inl (ErrTxTooLarge (Transaction_SerializeSize tx))
      else let spendHeight = tipHeight + 1 in
        rbind (single_inputs s supplementalUtxos p spendHeight (tx_Inputs tx) {} 0) (\<lambda>(totalIn, resolvedEntries).
        rbind (check_outputs totalIn (tx_Outputs tx)) (\<lambda>totalOut.
        rbind (check_scripts L tx 0 (zip (tx_Inputs tx) resolvedEntries)) (\<lambda>_.
        rbind (check_locks p tx spendHeight now s) (\<lambda>_.
          Inr (totalIn - totalOut))))))"

primrec fee_inputs :: "utxo_set \<Rightarrow> TxInput list \<Rightarrow> u64 \<Rightarrow> tx_error + u64" where
  "fee_inputs s [] totalIn = Inr totalIn"
| "fee_inputs s (i # ins) totalIn =
     (case Set_Get s (op_Hash (in_PreviousOutPoint i)) (op_Index (in_PreviousOutPoint i)) of
        None \<Rightarrow> Inl (ErrTxMissingUtxo (in_PreviousOutPoint i))
      | Some entry \<Rightarrow>
          if totalIn + ue_Value entry < totalIn then Inl ErrInputOverflow
          else fee_inputs s ins (totalIn + ue_Value entry))"

primrec fee_outputs :: "nat \<Rightarrow> TxOutput list \<Rightarrow> u64 \<Rightarrow> tx_error + u64" where
  "fee_outputs outIdx [] totalOut = Inr totalOut"
| "fee_outputs outIdx (out # outs) totalOut =
     (if totalOut + out_Value out < totalOut then Inl (ErrOutputOverflow outIdx)
      else fee_outputs (Suc outIdx) outs (totalOut + out_Value out))"

definition CalcTxFee :: "Transaction \<Rightarrow> utxo_set \<Rightarrow> tx_error + u64" where
  "CalcTxFee tx s =
     (if Transaction_IsCoinbase tx then Inr 0
      else rbind (fee_inputs s (tx_Inputs tx) 0) (\<lambda>totalIn.
           rbind (fee_outputs 0 (tx_Outputs tx) 0) (\<lambda>totalOut.
           if totalIn < totalOut then Inl (ErrInputsBelowOutputs totalIn totalOut)
           else Inr (totalIn - totalOut))))"

section \<open>Validation follows \<open>ConnectBlock\<close>\<close>

definition val_matches :: "val_state \<Rightarrow> conn_state \<Rightarrow> bool" where
  "val_matches v st \<longleftrightarrow> vs_spentInBlock v = cn_spentInBlock st \<and> vs_createdInBlock v = cn_createdInBlock st"

lemma unat_add_input_value:
  "add_input_value t e = Inr t' \<Longrightarrow> unat t' = unat t + unat (ue_Value e) \<and> unat t' \<le> unat MaxMoneyValue"
  by (auto simp: add_input_value_def unat_add_no_overflow word_le_nat_alt not_less split: if_splits)

lemma unat_sum_outputs: "sum_outputs n outs t = Inr t' \<Longrightarrow> unat t' = unat t + outs_total outs"
  by (induction outs arbitrary: n t)
    (auto simp: outs_total_def unat_add_no_overflow split: if_splits)

lemma unat_check_outputs:
  assumes "check_outputs tin outs = Inr tout"
  shows "unat tout = outs_total outs" "tout \<le> tin" "tout \<le> MaxMoneyValue"
  using assms unat_sum_outputs [of 0 outs 0 tout] by (auto simp: check_outputs_def not_less split: if_splits)

lemma unat_coinbase_value: "coinbase_value n outs t = Inr t' \<Longrightarrow> unat t' = unat t + outs_total outs"
  by (induction outs arbitrary: n t)
    (auto simp: outs_total_def unat_add_no_overflow split: if_splits)

lemma resolve_view:
  assumes "val_matches v st" "in_key i \<notin> vs_spentInBlock v"
  shows "(case vs_createdInBlock v (in_key i) of Some e \<Rightarrow> Some e
            | None \<Rightarrow> Set_Get s (op_Hash (in_PreviousOutPoint i)) (op_Index (in_PreviousOutPoint i)))
         = conn_view s st (in_key i)"
proof -
  have "Set_Get s (op_Hash (in_PreviousOutPoint i)) (op_Index (in_PreviousOutPoint i)) = s (in_key i)"
    by (simp add: Set_Get_def in_key_def)
  with assms show ?thesis by (simp add: val_matches_def conn_view_def split: option.split)
qed

lemma validate_inputs_connect:
  assumes "validate_inputs s p height ins seen v tin = Inr (v', tin', es)"
    and "val_matches v st" "finite (dom (conn_view s st))"
  shows "\<exists>st'. connect_inputs s h ins seen st = Inr st' \<and> val_matches v' st' \<and> finite (dom (conn_view s st'))
     \<and> utxo_total (conn_view s st') + unat tin' = utxo_total (conn_view s st) + unat tin"
  using assms
proof (induction ins arbitrary: seen v st tin es)
  case (Cons i ins)
  let ?k = "in_key i"
  from Cons.prems(1) have seen: "?k \<notin> seen" and ns: "?k \<notin> vs_spentInBlock v"
    by (auto simp: Let_def split: if_splits)
  from Cons.prems(1) obtain e t1 es1 where e: "conn_view s st ?k = Some e"
    and t1: "add_input_value tin e = Inr t1"
    and rest: "validate_inputs s p height ins (insert ?k seen)
       \<lparr>vs_spentInBlock = insert ?k (vs_spentInBlock v), vs_createdInBlock = (vs_createdInBlock v)(?k := None)\<rparr> t1
       = Inr (v', tin', es1)"
    unfolding validate_inputs.simps Let_def resolve_view [OF Cons.prems(2) ns]
    by (auto split: if_splits option.splits)
  let ?st = "spend_key s i e st"
  have step: "connect_input s h i seen st = Inr (insert ?k seen, ?st)"
    using seen e by (simp add: connect_input_iff)
  have m: "val_matches \<lparr>vs_spentInBlock = insert ?k (vs_spentInBlock v),
      vs_createdInBlock = (vs_createdInBlock v)(?k := None)\<rparr> ?st"
    using Cons.prems(2) by (simp add: val_matches_def spend_key_def)
  have fin: "finite (dom (conn_view s ?st))"
    using Cons.prems(3) by (simp only: conn_view_spend dom_fun_upd) simp
  have tot: "utxo_total (conn_view s ?st) + unat (ue_Value e) = utxo_total (conn_view s st)"
    using utxo_total_remove [of "conn_view s st" ?k e] Cons.prems(3) e by (simp only: conn_view_spend)
  from Cons.IH [OF rest m fin] step tot unat_add_input_value [OF t1] show ?case
    by auto
qed auto

lemma connect_outputs_created:
  "cn_createdInBlock (connect_outputs h height cb n outs st) = register_outputs h height cb n outs (cn_createdInBlock st)
   \<and> cn_spentInBlock (connect_outputs h height cb n outs st) = cn_spentInBlock st"
proof (induction outs arbitrary: n st)
  case (Cons out outs)
  show ?case
    by (simp only: connect_outputs_Cons register_outputs.simps Cons.IH) (simp add: conn_create_def fun_upd_def)
qed simp

text \<open>What a transaction may add: a coinbase its outputs, any other at most nothing after its fee.\<close>

lemma validate_tx_connect:
  assumes "validate_tx L s p height mt hs n tx v fees = Inr (v', fees')"
    and "val_matches v st" "finite (dom (conn_view s st))"
  shows "\<exists>h st'. tx_hash_at hs n tx = Inr h \<and> connect_tx s height h tx st = Inr st' \<and> val_matches v' st'
     \<and> finite (dom (conn_view s st'))
     \<and> utxo_total (conn_view s st') + unat fees' \<le> utxo_total (conn_view s st) + unat fees
          + (if Transaction_IsCoinbase tx then outs_total (tx_Outputs tx) else 0)"
proof (cases "Transaction_IsCoinbase tx")
  case True
  with assms(1) obtain h where h: "tx_hash_at hs n tx = Inr h"
    and v': "v' = v\<lparr>vs_createdInBlock := register_outputs h height True 0 (tx_Outputs tx) (vs_createdInBlock v)\<rparr>"
    and f: "fees' = fees"
    by (auto simp: validate_tx_def)
  let ?st = "connect_outputs h height True 0 (tx_Outputs tx) st"
  have "val_matches v' ?st" using assms(2) by (simp add: v' val_matches_def connect_outputs_created)
  with h f True connect_outputs_total [OF assms(3), of h height True 0 "tx_Outputs tx"] show ?thesis
    by (auto simp: connect_tx_def)
next
  case False
  with assms(1) obtain h v1 tin es tout where h: "tx_hash_at hs n tx = Inr h"
    and ins: "validate_inputs s p height (tx_Inputs tx) {} v 0 = Inr (v1, tin, es)"
    and outs: "check_outputs tin (tx_Outputs tx) = Inr tout"
    and v': "v' = v1\<lparr>vs_createdInBlock := register_outputs h height False 0 (tx_Outputs tx) (vs_createdInBlock v1)\<rparr>"
    and fee: "\<not> fees + (tin - tout) < fees" "fees' = fees + (tin - tout)"
    by (auto simp: validate_tx_def Let_def split: if_splits)
  from validate_inputs_connect [OF ins assms(2,3), of h] obtain st1 where
    st1: "connect_inputs s h (tx_Inputs tx) {} st = Inr st1" "val_matches v1 st1" "finite (dom (conn_view s st1))"
    and tot: "utxo_total (conn_view s st1) + unat tin = utxo_total (conn_view s st)" by auto
  let ?st = "connect_outputs h height False 0 (tx_Outputs tx) st1"
  have m: "val_matches v' ?st" using st1(2) by (simp add: v' val_matches_def connect_outputs_created)
  have "unat fees' = unat fees + (unat tin - unat tout)"
    using fee unat_check_outputs(2) [OF outs] by (simp add: unat_add_no_overflow unat_sub)
  moreover have "unat tout \<le> unat tin" using unat_check_outputs(2) [OF outs] by (simp add: word_le_nat_alt)
  ultimately have "utxo_total (conn_view s ?st) + unat fees' \<le> utxo_total (conn_view s st) + unat fees"
    using connect_outputs_total [OF st1(3), of h height False 0 "tx_Outputs tx"] tot unat_check_outputs(1) [OF outs]
    by linarith
  with h False st1 m connect_outputs_total [OF st1(3), of h height False 0 "tx_Outputs tx"] show ?thesis
    by (auto simp: connect_tx_def)
qed

definition coinbase_total :: "Transaction list \<Rightarrow> nat" where
  "coinbase_total txs = sum_list (map (\<lambda>tx. if Transaction_IsCoinbase tx then outs_total (tx_Outputs tx) else 0) txs)"

lemma validate_txs_connect:
  assumes "validate_txs L s p height mt hs n txs v fees = Inr (v', fees')"
    and "val_matches v st" "finite (dom (conn_view s st))"
  shows "\<exists>st'. connect_txs s height hs n txs st = Inr st' \<and> finite (dom (conn_view s st'))
     \<and> utxo_total (conn_view s st') + unat fees' \<le> utxo_total (conn_view s st) + unat fees + coinbase_total txs"
  using assms
proof (induction txs arbitrary: n v st fees)
  case (Cons tx txs)
  from Cons.prems(1) obtain v1 f1 where tx: "validate_tx L s p height mt hs n tx v fees = Inr (v1, f1)"
    and rest: "validate_txs L s p height mt hs (Suc n) txs v1 f1 = Inr (v', fees')"
    by auto
  from validate_tx_connect [OF tx Cons.prems(2,3)] obtain h st1 where st1:
    "tx_hash_at hs n tx = Inr h" "connect_tx s height h tx st = Inr st1" "val_matches v1 st1"
    "finite (dom (conn_view s st1))"
    "utxo_total (conn_view s st1) + unat f1 \<le> utxo_total (conn_view s st) + unat fees
          + (if Transaction_IsCoinbase tx then outs_total (tx_Outputs tx) else 0)" by blast
  from Cons.IH [OF rest st1(3,4)] st1 show ?case
    by (fastforce simp: coinbase_total_def)
qed (auto simp: coinbase_total_def)

lemma ValidateTransactionInputs_connect:
  assumes "ValidateTransactionInputs L b s height p mt hs = Inr fees" "finite (dom s)"
  shows "\<exists>st. connect_txs s height hs 0 (blk_Transactions b) conn_init = Inr st \<and> finite (dom (conn_view s st))
     \<and> utxo_total (conn_view s st) + unat fees \<le> utxo_total s + coinbase_total (blk_Transactions b)"
proof -
  from assms(1) obtain v where
    v: "validate_txs L s p height mt hs 0 (blk_Transactions b) \<lparr>vs_spentInBlock = {}, vs_createdInBlock = Map.empty\<rparr> 0
      = Inr (v, fees)"
    by (auto simp: ValidateTransactionInputs_def Let_def split: if_splits list.splits)
  have "val_matches \<lparr>vs_spentInBlock = {}, vs_createdInBlock = Map.empty\<rparr> conn_init"
    by (simp add: val_matches_def conn_init_def)
  from validate_txs_connect [OF v this] assms(2) show ?thesis by simp
qed

text \<open>The bookkeeping of \<open>ConnectBlock\<close> for any hashes the caller passes.\<close>

lemma ConnectBlock_view:
  assumes "connect_txs s height hs 0 (blk_Transactions b) conn_init = Inr st"
  shows "ConnectBlock s b height hs = Inr (\<lparr>undo_SpentOutputs = cn_undo st\<rparr>, conn_view s st)"
  using connect_txs_inv_any [OF assms conn_inv_init] assms by (simp add: ConnectBlock_def conn_final)

section \<open>Single transactions and fees\<close>

definition entries_total :: "UtxoEntry list \<Rightarrow> nat" where
  "entries_total es = sum_list (map (\<lambda>e. unat (ue_Value e)) es)"

definition mature :: "ChainParams \<Rightarrow> u32 \<Rightarrow> UtxoEntry \<Rightarrow> bool" where
  "mature p height e \<longleftrightarrow>
     (ue_IsCoinbase e \<longrightarrow> unat (ue_Height e) + unat (par_CoinbaseMaturity p) \<le> unat height)"

lemma check_maturity_iff: "check_maturity p height op e = Inr () \<longleftrightarrow> mature p height e"
proof -
  have "\<not> height - ue_Height e < par_CoinbaseMaturity p \<longleftrightarrow>
     unat (ue_Height e) + unat (par_CoinbaseMaturity p) \<le> unat height" if "\<not> height < ue_Height e"
    using that by (auto simp: word_less_nat_alt unat_sub word_le_nat_alt not_less)
  then show ?thesis
    by (auto simp: check_maturity_def mature_def word_less_nat_alt split: if_splits)
qed

lemma validate_inputs_entries:
  assumes "validate_inputs s p height ins seen v tin = Inr (v', tin', es)"
  shows "unat tin' = unat tin + entries_total es \<and> length es = length ins \<and> list_all (mature p height) es
     \<and> (ins \<noteq> [] \<longrightarrow> tin' \<le> MaxMoneyValue)"
  using assms
proof (induction ins arbitrary: seen v tin es)
  case (Cons i ins)
  from Cons.prems obtain e t1 v1 es1 where e: "mature p height e" "add_input_value tin e = Inr t1" "es = e # es1"
    and rest: "validate_inputs s p height ins (insert (in_key i) seen) v1 t1 = Inr (v', tin', es1)"
    by (auto simp: Let_def check_maturity_iff split: if_splits option.splits)
  have "ins = [] \<Longrightarrow> tin' = t1" using rest by simp
  with Cons.IH [OF rest] e unat_add_input_value [OF e(2)] show ?case
    by (auto simp: entries_total_def word_le_nat_alt)
qed (simp add: entries_total_def)

lemma single_inputs_validate:
  assumes "single_inputs s None p height ins seen t = Inr (t', es)"
    and "vs_createdInBlock v = Map.empty" "vs_spentInBlock v \<subseteq> seen"
  shows "\<exists>v'. validate_inputs s p height ins seen v t = Inr (v', t', es)"
  using assms
proof (induction ins arbitrary: seen v t es)
  case (Cons i ins)
  let ?op = "in_PreviousOutPoint i"
  let ?v = "\<lparr>vs_spentInBlock = insert (in_key i) (vs_spentInBlock v), vs_createdInBlock = (vs_createdInBlock v)(in_key i := None)\<rparr>"
  from Cons.prems(1) obtain e t1 es1 where e: "Set_Get s (op_Hash ?op) (op_Index ?op) = Some e" "in_key i \<notin> seen"
    "check_maturity p height ?op e = Inr ()" "add_input_value t e = Inr t1" "es = e # es1"
    and rest: "single_inputs s None p height ins (insert (in_key i) seen) t1 = Inr (t', es1)"
    by (auto simp: Let_def split: if_splits option.splits)
  have "vs_createdInBlock ?v = Map.empty" "vs_spentInBlock ?v \<subseteq> insert (in_key i) seen"
    using Cons.prems(2,3) by auto
  from Cons.IH [OF rest this] e Cons.prems(2,3) show ?case
    by (auto simp: Let_def)
qed simp

lemma single_inputs_fee: "single_inputs s None p height ins seen t = Inr (t', es) \<Longrightarrow> fee_inputs s ins t = Inr t'"
  by (induction ins arbitrary: seen t es)
    (auto simp: Let_def add_input_value_def split: if_splits option.splits)

lemma sum_outputs_fee: "sum_outputs n outs t = Inr t' \<Longrightarrow> fee_outputs n outs t = Inr t'"
  by (induction outs arbitrary: n t) (auto split: if_splits)

lemma finality_mono:
  assumes "CheckTransactionFinality tx h t = Inr ()" "h \<le> h'" "t \<le> t'"
  shows "CheckTransactionFinality tx h' t' = Inr ()"
  using assms by (auto simp: CheckTransactionFinality_def split: if_splits)

lemma check_locks_mono:
  assumes "check_locks p tx h t s = Inr ()" "t \<le> t'"
  shows "check_locks p tx h t' s = Inr ()"
  using assms finality_mono [of tx h t h t']
  by (auto simp: check_locks_def CheckSequenceLocks_def split: option.splits if_splits)

lemma single_validate_tx:
  assumes "ValidateSingleTransaction L now tx s tipHeight p None = Inr fee" "now \<le> mt"
    and "tx_hash_at hs n tx = Inr h"
  shows "\<exists>v'. validate_tx L s p (tipHeight + 1) mt hs n tx \<lparr>vs_spentInBlock = {}, vs_createdInBlock = Map.empty\<rparr> 0
     = Inr (v', fee)"
proof -
  let ?v = "\<lparr>vs_spentInBlock = {}, vs_createdInBlock = Map.empty\<rparr>"
  from assms(1) obtain tin es tout where
    ins: "single_inputs s None p (tipHeight + 1) (tx_Inputs tx) {} 0 = Inr (tin, es)"
    and ok: "\<not> Transaction_IsCoinbase tx" "tx_Inputs tx \<noteq> []" "tx_Outputs tx \<noteq> []"
      "Transaction_SerializeSize tx \<le> MaxTxSize" "check_outputs tin (tx_Outputs tx) = Inr tout"
      "check_scripts L tx 0 (zip (tx_Inputs tx) es) = Inr ()" "fee = tin - tout"
    and locks: "check_locks p tx (tipHeight + 1) now s = Inr ()"
    by (auto simp: ValidateSingleTransaction_def Let_def split: if_splits)
  from single_inputs_validate [OF ins, of ?v] obtain v' where
    "validate_inputs s p (tipHeight + 1) (tx_Inputs tx) {} ?v 0 = Inr (v', tin, es)" by auto
  with ok check_locks_mono [OF locks assms(2)] assms(3) show ?thesis
    by (auto simp: validate_tx_def Let_def)
qed

section \<open>Properties\<close>

text \<open>Concrete inputs for the witnesses, from the set and transaction of the UTXO theory.\<close>

lemma demo_verify: "script_Verify demo_lib [] [0x51] tx (int n) = Inr ()"
  by (simp add: script_Verify_def execute_def exec_op_def Let_def)

lemma demo_sum: "sum_outputs 0 (tx_Outputs demo_spend) 0 = Inr 50"
  by (simp add: demo_spend_def MaxMoneyValue_def)

lemma demo_single: "ValidateSingleTransaction demo_lib 0 demo_spend demo_set 9 Mainnet None = Inr 10"
  by (simp add: ValidateSingleTransaction_def demo_not_coinbase) 
    (simp add: demo_spend_def demo_set_def demo_outpoint_def demo_entry_def Let_def in_key_def Set_Get_def
      check_maturity_def add_input_value_def check_outputs_def MaxMoneyValue_def MaxTxSize_def
      Transaction_SerializeSize_def TxInput_SerializeSize_def TxOutput_SerializeSize_def VarIntSize_def
      IsLegacyUnvalidatedScript_def demo_verify [of _ 0, simplified] check_locks_def Mainnet_def
      CheckTransactionFinality_def CheckSequenceLocks_def check_sequence_lock_def)

lemma demo_validate:
  "ValidateTransactionInputs demo_lib demo_block demo_set 10 Mainnet 0 (Some [hash_copy [9]]) = Inr 10"
proof -
  have "tx_hash_at (Some [hash_copy [9]]) 0 demo_spend = Inr (hash_copy [9])" by (simp add: tx_hash_at_def)
  from single_validate_tx [OF demo_single _ this, of 0] obtain v' where
    "validate_tx demo_lib demo_set Mainnet 10 0 (Some [hash_copy [9]]) 0 demo_spend
       \<lparr>vs_spentInBlock = {}, vs_createdInBlock = Map.empty\<rparr> 0 = Inr (v', 10)" by auto
  moreover have "CalcSubsidy Mainnet 10 = 5000000000" by (simp add: CalcSubsidy_def Mainnet_def)
  moreover have "coinbase_value 0 (tx_Outputs demo_spend) 0 = Inr 50" by (simp add: demo_spend_def)
  ultimately show ?thesis by (simp add: ValidateTransactionInputs_def demo_block_def)
qed

lemma demo_finite: "finite (dom demo_set)"
  by (simp add: demo_set_def)

text \<open>C13. A block whose inputs validate connects: \<^verbatim>\<open>ConnectBlock\<close> returns no error on the set the block was
  validated against, whatever hashes the caller passed to both.\<close>

theorem validated_block_connects:
  assumes "ValidateTransactionInputs L b s height p medianTimePast txHashes = Inr fees" "finite (dom s)"
  shows "\<exists>undo s'. ConnectBlock s b height txHashes = Inr (undo, s')"
  using ValidateTransactionInputs_connect [OF assms] ConnectBlock_view by blast

theorem validated_block_connects_witness:
  "\<exists>undo s'. ConnectBlock demo_set demo_block 10 (Some [hash_copy [9]]) = Inr (undo, s')"
  using validated_block_connects [OF demo_validate demo_finite] .

text \<open>A transaction the mempool check accepts on top of a tip is accepted, with the same fee, as the first
  spending transaction of the next block on the same set, once the median time of the chain has
  reached the time the mempool used.\<close>

theorem mempool_tx_valid_in_block:
  assumes "ValidateSingleTransaction L now tx s tipHeight p None = Inr fee" "now \<le> medianTime"
  shows "\<exists>v'. validate_tx L s p (tipHeight + 1) medianTime None n tx
     \<lparr>vs_spentInBlock = {}, vs_createdInBlock = Map.empty\<rparr> 0 = Inr (v', fee)"
  using single_validate_tx [OF assms] by (simp add: tx_hash_at_def)

theorem mempool_tx_valid_in_block_witness:
  "\<exists>v'. validate_tx demo_lib demo_set Mainnet (9 + 1) 100 None 1 demo_spend
     \<lparr>vs_spentInBlock = {}, vs_createdInBlock = Map.empty\<rparr> 0 = Inr (v', 10)"
  by (rule mempool_tx_valid_in_block [OF demo_single]) simp

text \<open>The mempool check and \<^verbatim>\<open>CalcTxFee\<close> agree on the fee of a transaction whose inputs are all in the
  set.\<close>

theorem single_fee_agrees:
  assumes "ValidateSingleTransaction L now tx s tipHeight p None = Inr fee"
  shows "CalcTxFee tx s = Inr fee"
proof -
  from assms obtain tin es tout where
    ins: "single_inputs s None p (tipHeight + 1) (tx_Inputs tx) {} 0 = Inr (tin, es)"
    and ok: "\<not> Transaction_IsCoinbase tx" "check_outputs tin (tx_Outputs tx) = Inr tout" "fee = tin - tout"
    by (auto simp: ValidateSingleTransaction_def Let_def split: if_splits)
  have "fee_outputs 0 (tx_Outputs tx) 0 = Inr tout"
    using ok(2) by (intro sum_outputs_fee) (auto simp: check_outputs_def split: if_splits)
  with ok single_inputs_fee [OF ins] unat_check_outputs(2) [OF ok(2)] show ?thesis
    by (simp add: CalcTxFee_def not_less)
qed

theorem single_fee_agrees_witness: "CalcTxFee demo_spend demo_set = Inr 10"
  by (rule single_fee_agrees [OF demo_single])

text \<open>The inputs of a validated transaction: their sum is exact (no wrap-around), never above
  \<^verbatim>\<open>MaxMoneyValue\<close>, and every coinbase output among them has the required depth.\<close>

theorem validated_inputs_exact:
  assumes "validate_inputs s p height ins {} v 0 = Inr (v', totalIn, es)"
  shows "unat totalIn = sum_list (map (\<lambda>e. unat (ue_Value e)) es) \<and> totalIn \<le> MaxMoneyValue
     \<and> list_all (\<lambda>e. ue_IsCoinbase e \<longrightarrow> unat (ue_Height e) + unat (par_CoinbaseMaturity p) \<le> unat height) es"
proof -
  have "totalIn \<le> MaxMoneyValue"
    using validate_inputs_entries [OF assms] assms by (cases ins) auto
  with validate_inputs_entries [OF assms] show ?thesis
    by (simp add: entries_total_def mature_def [abs_def])
qed

theorem validated_inputs_exact_witness:
  "\<exists>v' totalIn es. validate_inputs demo_set Mainnet 10 (tx_Inputs demo_spend) {}
       \<lparr>vs_spentInBlock = {}, vs_createdInBlock = Map.empty\<rparr> 0 = Inr (v', totalIn, es)
     \<and> unat totalIn = sum_list (map (\<lambda>e. unat (ue_Value e)) es) \<and> totalIn \<le> MaxMoneyValue"
proof -
  have "single_inputs demo_set None Mainnet 10 (tx_Inputs demo_spend) {} 0 = Inr (60, [demo_entry])"
    by (simp add: demo_spend_def demo_set_def demo_outpoint_def demo_entry_def in_key_def Set_Get_def
        check_maturity_def add_input_value_def MaxMoneyValue_def)
  from single_inputs_validate [OF this, of "\<lparr>vs_spentInBlock = {}, vs_createdInBlock = Map.empty\<rparr>"]
  obtain v' where v: "validate_inputs demo_set Mainnet 10 (tx_Inputs demo_spend) {}
       \<lparr>vs_spentInBlock = {}, vs_createdInBlock = Map.empty\<rparr> 0 = Inr (v', 60, [demo_entry])"
    by auto
  from v validated_inputs_exact [OF v] show ?thesis by blast
qed

text \<open>Lock times never become unsatisfied again: a transaction that is final at a height and time is final
  at every later height and time.\<close>

theorem finality_monotone:
  assumes "CheckTransactionFinality tx h t = Inr ()" "h \<le> h'" "t \<le> t'"
  shows "CheckTransactionFinality tx h' t' = Inr ()"
  using assms by (rule finality_mono)

theorem finality_monotone_witness:
  "CheckTransactionFinality (demo_spend\<lparr>tx_LockTime := 500000007, tx_Inputs :=
     map (\<lambda>i. i\<lparr>in_Sequence := 0\<rparr>) (tx_Inputs demo_spend)\<rparr>) 12 600000000 = Inr ()"
  by (rule finality_monotone [of _ 11 "500000008"]) (simp_all add: CheckTransactionFinality_def demo_spend_def)

end
