(* ===== verification/Validation.thy ===== *)
theory Validation
  imports TxValidation "HOL-Library.Multiset"
begin

text \<open>
  Block and header rules that do not depend on the consensus engine
  (\<^verbatim>\<open>internal/consensus/validation.go\<close>): block structure, the height in the coinbase script (BIP34),
  median time past and timestamps. A lookup function \<^verbatim>\<open>getAncestor\<close> is an argument of type
  \<open>u32 \<Rightarrow> BlockHeader option\<close>. The engine is passed as its \<^verbatim>\<open>ValidateHeader\<close> method. The supply
  theorem joins the structure rules with the input rules.
\<close>

section \<open>Block structure\<close>

datatype block_error =
    ErrBlockVersion u32
  | ErrNoTransactions
  | ErrFirstNotCoinbase
  | ErrCoinbaseShort nat
  | ErrCoinbaseLong nat
  | ErrHeightPushLen nat
  | ErrHeightPushShort nat nat
  | ErrHeightMismatch u32 u32
  | ErrHeightNotMinimal nat nat
  | ErrUnexpectedCoinbase nat
  | ErrBlockTxCount nat
  | ErrDuplicateTxid hash
  | ErrMerkleMismatch hash hash
  | ErrBlockSize nat
  | ErrCoinbaseValueOverflow
  | ErrTimestampFuture u32 int
  | ErrTimestampParent u32 u32
  | ErrTimestampMedian u32 u32
  | ErrTimestampRule string

definition minimalPushLen :: "u32 \<Rightarrow> nat" where
  "minimalPushLen height =
     (if height \<le> 0xFF then 1 else if height \<le> 0xFFFF then 2 else if height \<le> 0xFFFFFF then 3 else 4)"

text \<open>\<open>decode_push\<close> is the loop that collects the height bytes, entered at index \<open>i\<close>.\<close>

primrec decode_push :: "nat \<Rightarrow> bytes \<Rightarrow> u32 \<Rightarrow> u32" where
  "decode_push i [] acc = acc"
| "decode_push i (b # bs) acc = decode_push (Suc i) bs (acc OR push_bit (8 * i) (ucast b))"

definition validateCoinbaseScriptSig :: "bytes \<Rightarrow> u32 \<Rightarrow> block_error + unit" where
  "validateCoinbaseScriptSig scriptSig height =
     (if length scriptSig < 2 then Inl (ErrCoinbaseShort (length scriptSig))
      else if length scriptSig > 100 then Inl (ErrCoinbaseLong (length scriptSig))
      else let pushLen = unat (scriptSig ! 0) in
        if pushLen < 1 \<or> pushLen > 4 then Inl (ErrHeightPushLen pushLen)
        else if length scriptSig < 1 + pushLen then Inl (ErrHeightPushShort (1 + pushLen) (length scriptSig))
        else let encodedHeight = decode_push 0 (take pushLen (drop 1 scriptSig)) 0 in
          if encodedHeight \<noteq> height then Inl (ErrHeightMismatch encodedHeight height)
          else let minimalLen = minimalPushLen height in
            if pushLen \<noteq> minimalLen then Inl (ErrHeightNotMinimal pushLen minimalLen)
            else Inr ())"

primrec find_coinbase :: "nat \<Rightarrow> Transaction list \<Rightarrow> nat option" where
  "find_coinbase i [] = None"
| "find_coinbase i (tx # txs) = (if Transaction_IsCoinbase tx then Some i else find_coinbase (Suc i) txs)"

primrec find_duplicate :: "hash set \<Rightarrow> hash list \<Rightarrow> hash option" where
  "find_duplicate seen [] = None"
| "find_duplicate seen (h # hs) = (if h \<in> seen then Some h else find_duplicate (insert h seen) hs)"

primrec coinbase_overflows :: "u64 \<Rightarrow> TxOutput list \<Rightarrow> bool" where
  "coinbase_overflows v [] = False"
| "coinbase_overflows v (out # outs) =
     (if v + out_Value out < v then True else coinbase_overflows (v + out_Value out) outs)"

definition ValidateBlockStructure ::
  "Block \<Rightarrow> u32 \<Rightarrow> ChainParams \<Rightarrow> hash list option \<Rightarrow> bytes option \<Rightarrow> block_error + unit" where
  "ValidateBlockStructure block height p txHashes serializedBytes =
     (if hdr_Version (blk_Header block) < 1 then Inl (ErrBlockVersion (hdr_Version (blk_Header block)))
      else (case blk_Transactions block of
         [] \<Rightarrow> Inl ErrNoTransactions
       | cb # txs \<Rightarrow>
         if \<not> Transaction_IsCoinbase cb then Inl ErrFirstNotCoinbase
         else rbind (if height > 0 then validateCoinbaseScriptSig (in_SignatureScript (tx_Inputs cb ! 0)) height
                     else Inr ()) (\<lambda>_.
         case find_coinbase 1 txs of Some i \<Rightarrow> Inl (ErrUnexpectedCoinbase i) | None \<Rightarrow>
         if (of_nat (length (blk_Transactions block)) :: u32) > par_MaxBlockTxCount p
           then Inl (ErrBlockTxCount (length (blk_Transactions block)))
         else let hashes = (case txHashes of Some hs \<Rightarrow> hs | None \<Rightarrow> map HashTransaction (blk_Transactions block)) in
         case find_duplicate {} hashes of Some h \<Rightarrow> Inl (ErrDuplicateTxid h) | None \<Rightarrow>
         let merkle = MerkleRoot hashes in
         if merkle \<noteq> hdr_MerkleRoot (blk_Header block)
           then Inl (ErrMerkleMismatch (hdr_MerkleRoot (blk_Header block)) merkle)
         else let bs = (case serializedBytes of Some bs \<Rightarrow> bs | None \<Rightarrow> Block_Serialize block) in
         if (of_nat (length bs) :: u32) > par_MaxBlockSize p then Inl (ErrBlockSize (length bs))
         else if coinbase_overflows 0 (tx_Outputs cb) then Inl ErrCoinbaseValueOverflow
         else Inr ())))"

section \<open>Timestamps\<close>

type_synonym ancestors = "u32 \<Rightarrow> BlockHeader option"

text \<open>
  \<open>collect_timestamps n i\<close> is the loop over \<open>i\<close>, with \<open>n\<close> iterations left; \<open>shift_in key xs\<close> is the
  inner loop of the insertion sort on the sorted prefix \<open>xs\<close>, which moves the larger elements up.
\<close>

primrec collect_timestamps :: "nat \<Rightarrow> u32 \<Rightarrow> u32 \<Rightarrow> ancestors \<Rightarrow> u32 list" where
  "collect_timestamps 0 i tipHeight getAncestor = []"
| "collect_timestamps (Suc n) i tipHeight getAncestor =
     (if tipHeight \<ge> i then
        (case getAncestor (tipHeight - i) of
           None \<Rightarrow> []
         | Some h \<Rightarrow> hdr_Timestamp h # collect_timestamps n (i + 1) tipHeight getAncestor)
      else [])"

definition shift_in :: "u32 \<Rightarrow> u32 list \<Rightarrow> u32 list" where
  "shift_in key xs = rev (dropWhile (\<lambda>x. x > key) (rev xs)) @ [key] @ rev (takeWhile (\<lambda>x. x > key) (rev xs))"

primrec insertion_sort :: "u32 list \<Rightarrow> u32 list \<Rightarrow> u32 list" where
  "insertion_sort pre [] = pre"
| "insertion_sort pre (key # rest) = insertion_sort (shift_in key pre) rest"

definition CalcMedianTimePast :: "u32 \<Rightarrow> ancestors \<Rightarrow> u32" where
  "CalcMedianTimePast tipHeight getAncestor =
     (let timestamps = collect_timestamps 11 0 tipHeight getAncestor in
      if length timestamps = 0 then 0
      else insertion_sort [] timestamps ! (length timestamps div 2))"

definition ValidateHeaderTimestamp ::
  "BlockHeader \<Rightarrow> BlockHeader \<Rightarrow> u32 \<Rightarrow> ancestors \<Rightarrow> u32 \<Rightarrow> ChainParams \<Rightarrow> block_error + unit" where
  "ValidateHeaderTimestamp header parent nowUnix getAncestor tipHeight p =
     (let maxFuture = uint nowUnix + dur_secs (par_MaxTimeFutureDrift p) in
      if uint (hdr_Timestamp header) > maxFuture then Inl (ErrTimestampFuture (hdr_Timestamp header) maxFuture)
      else if par_MinTimestampRule p = ''prev+1'' then
        (if hdr_Timestamp header \<le> hdr_Timestamp parent
         then Inl (ErrTimestampParent (hdr_Timestamp header) (hdr_Timestamp parent)) else Inr ())
      else if par_MinTimestampRule p = ''median-11'' then
        (let median = CalcMedianTimePast tipHeight getAncestor in
         if hdr_Timestamp header \<le> median then Inl (ErrTimestampMedian (hdr_Timestamp header) median) else Inr ())
      else Inl (ErrTimestampRule (par_MinTimestampRule p)))"

datatype 'e header_error = EngineError 'e | TimestampError block_error

definition FullValidateHeader ::
  "(BlockHeader \<Rightarrow> BlockHeader \<Rightarrow> u32 \<Rightarrow> ancestors \<Rightarrow> ChainParams \<Rightarrow> 'e + unit) \<Rightarrow>
     BlockHeader \<Rightarrow> BlockHeader \<Rightarrow> u32 \<Rightarrow> ancestors \<Rightarrow> u32 \<Rightarrow> u32 \<Rightarrow> ChainParams \<Rightarrow> 'e header_error + unit" where
  "FullValidateHeader validateHeader header parent height getAncestor nowUnix tipHeight p =
     rbind (map_err EngineError (validateHeader header parent height getAncestor p)) (\<lambda>_.
       map_err TimestampError (ValidateHeaderTimestamp header parent nowUnix getAncestor tipHeight p))"

section \<open>Insertion sort and the median\<close>

lemma mset_shift_in: "mset (shift_in key xs) = add_mset key (mset xs)"
proof -
  have "mset (dropWhile (\<lambda>x. x > key) (rev xs)) + mset (takeWhile (\<lambda>x. x > key) (rev xs)) = mset (rev xs)"
    by (metis mset_append takeWhile_dropWhile_id add.commute)
  then show ?thesis by (simp add: shift_in_def)
qed

lemma sorted_shift_in: "sorted xs \<Longrightarrow> sorted (shift_in key xs)"
proof -
  assume xs: "sorted xs"
  let ?P = "\<lambda>x. x > key"
  have split: "xs = rev (dropWhile ?P (rev xs)) @ rev (takeWhile ?P (rev xs))"
    by (metis rev_append rev_rev_ident takeWhile_dropWhile_id)
  have pre: "sorted (rev (dropWhile ?P (rev xs)))" "sorted (rev (takeWhile ?P (rev xs)))"
    using xs split by (metis sorted_append)+
  have le: "x \<le> key" if x: "x \<in> set (dropWhile ?P (rev xs))" for x
  proof -
    have "dropWhile ?P (rev xs) \<noteq> []" using x by (metis list.set(1) empty_iff)
    then obtain y ys where ys: "dropWhile ?P (rev xs) = y # ys" by (metis neq_Nil_conv)
    then have "y \<le> key" by (metis hd_dropWhile list.sel(1) list.distinct(1) not_less)
    moreover have "x \<le> y" using x pre(1) unfolding ys by (auto simp: sorted_append)
    ultimately show ?thesis by simp
  qed
  have gt: "key < x" if "x \<in> set (takeWhile ?P (rev xs))" for x using that by (metis set_takeWhileD)
  have "x \<le> y" if "x \<in> set (dropWhile ?P (rev xs))" "y \<in> set (takeWhile ?P (rev xs))" for x y
    using le [OF that(1)] gt [OF that(2)] by simp
  with pre le gt show ?thesis by (auto simp: shift_in_def sorted_append less_imp_le)
qed

lemma insertion_sort_spec:
  "sorted pre \<Longrightarrow> sorted (insertion_sort pre xs) \<and> mset (insertion_sort pre xs) = mset pre + mset xs"
  by (induction xs arbitrary: pre) (auto simp: sorted_shift_in mset_shift_in)

lemma insertion_sort_sort: "insertion_sort [] xs = sort xs"
  using insertion_sort_spec [of "[]" xs] by (intro properties_for_sort [symmetric]) auto

text \<open>The element at position \<open>k\<close> of a sorted list is at least \<open>m\<close> exactly when enough elements are.\<close>

lemma sort_nth_ge_iff:
  fixes xs :: "'a::linorder list"
  assumes "k < length xs"
  shows "m \<le> sort xs ! k \<longleftrightarrow> length xs - k \<le> length (filter (\<lambda>x. m \<le> x) xs)"
proof -
  let ?ys = "sort xs"
  have len: "length ?ys = length xs" by simp
  have cnt: "length (filter (\<lambda>x. m \<le> x) xs) = length (filter (\<lambda>x. m \<le> x) (take k ?ys))
      + length (filter (\<lambda>x. m \<le> x) (drop k ?ys))"
    by (metis append_take_drop_id filter_append length_append filter_sort length_sort)
  show ?thesis
  proof
    assume m: "m \<le> ?ys ! k"
    have "m \<le> x" if "x \<in> set (drop k ?ys)" for x
    proof -
      from that obtain j where "j < length (drop k ?ys)" "x = drop k ?ys ! j" by (metis in_set_conv_nth)
      then have "x = ?ys ! (k + j)" "k + j < length ?ys" using assms by auto
      then show ?thesis using m sorted_nth_mono [OF sorted_sort, of k "k + j" xs] by auto
    qed
    then have "filter (\<lambda>x. m \<le> x) (drop k ?ys) = drop k ?ys" by (simp add: filter_id_conv)
    with cnt show "length xs - k \<le> length (filter (\<lambda>x. m \<le> x) xs)" by simp
  next
    assume c: "length xs - k \<le> length (filter (\<lambda>x. m \<le> x) xs)"
    show "m \<le> ?ys ! k"
    proof (rule ccontr)
      assume lt: "\<not> m \<le> ?ys ! k"
      have "x < m" if "x \<in> set (take (Suc k) ?ys)" for x
      proof -
        from that obtain j where "j < Suc k" "j < length ?ys" "x = ?ys ! j"
          by (auto simp: in_set_conv_nth)
        then show ?thesis using lt sorted_nth_mono [OF sorted_sort, of j k xs] assms by auto
      qed
      then have "filter (\<lambda>x. m \<le> x) (take (Suc k) ?ys) = []" by (auto simp: filter_empty_conv not_le)
      then have "length (filter (\<lambda>x. m \<le> x) xs) = length (filter (\<lambda>x. m \<le> x) (drop (Suc k) ?ys))"
        by (metis append_take_drop_id filter_append append_Nil filter_sort length_sort)
      also have "\<dots> \<le> length xs - Suc k" by (metis length_filter_le length_drop length_sort)
      finally show False using c assms by simp
    qed
  qed
qed

lemma collect_take: "m \<le> n \<Longrightarrow> collect_timestamps m i t ga = take m (collect_timestamps n i t ga)"
proof (induction m arbitrary: n i)
  case (Suc m)
  then obtain k where k: "n = Suc k" "m \<le> k" by (cases n) auto
  have "collect_timestamps m (i + 1) t ga = take m (collect_timestamps k (i + 1) t ga)"
    by (rule Suc.IH [OF k(2)])
  with k(1) show ?case by (simp split: option.splits)
qed simp

lemma collect_shift:
  "unat i + n < 2 ^ 32 \<Longrightarrow> t + 1 \<noteq> 0 \<Longrightarrow>
     collect_timestamps n (i + 1) (t + 1) ga = collect_timestamps n i t ga"
proof (induction n arbitrary: i)
  case (Suc n)
  have i: "unat (i + 1) = unat i + 1" using Suc.prems(1) by (simp add: unat_word_ariths)
  have t: "unat (t + 1) = unat t + 1" using Suc.prems(2)
    by (metis unatSuc add.commute Suc_eq_plus1)
  have c: "i + 1 \<le> t + 1 \<longleftrightarrow> i \<le> t" by (simp add: word_le_nat_alt i t)
  have d: "t + 1 - (i + 1) = t - i" by simp
  have "collect_timestamps n (i + 1 + 1) (t + 1) ga = collect_timestamps n (i + 1) t ga"
    using Suc.prems i by (intro Suc.IH) auto
  then show ?case by (simp only: collect_timestamps.simps c d)
qed simp

lemma collect_next:
  assumes "t + 1 \<noteq> 0" "ga (t + 1) = Some h"
  shows "collect_timestamps 11 0 (t + 1) ga = hdr_Timestamp h # take 10 (collect_timestamps 11 0 t ga)"
proof -
  have "collect_timestamps 10 (0 + 1) (t + 1) ga = collect_timestamps 10 0 t ga"
    using assms(1) by (intro collect_shift) simp_all
  moreover have "collect_timestamps 10 0 t ga = take 10 (collect_timestamps 11 0 t ga)"
    by (rule collect_take) simp
  moreover have "(11 :: nat) = Suc 10" by simp
  then have "collect_timestamps 11 0 (t + 1) ga = hdr_Timestamp h # collect_timestamps 10 (0 + 1) (t + 1) ga"
    using assms(2) by (simp only: collect_timestamps.simps) simp
  ultimately show ?thesis by simp
qed

lemma length_collect: "length (collect_timestamps n i t ga) \<le> n"
  by (induction n arbitrary: i) (auto split: option.splits)

text \<open>Replacing elements of a window by one above its median does not lower the median.\<close>

lemma median_next:
  fixes xs :: "'a::linorder list"
  assumes "xs \<noteq> []" "length xs \<le> 11" "sort xs ! (length xs div 2) < x"
  defines "ys \<equiv> x # take 10 xs"
  shows "sort xs ! (length xs div 2) \<le> sort ys ! (length ys div 2)"
proof -
  let ?m = "sort xs ! (length xs div 2)" and ?P = "\<lambda>y. sort xs ! (length xs div 2) \<le> y"
  have k: "length xs div 2 < length xs" using assms(1) by (simp add: length_greater_0_conv)
  have c: "length xs - length xs div 2 \<le> length (filter ?P xs)"
    using sort_nth_ge_iff [OF k, of ?m] by simp
  have "length (filter ?P xs) = length (filter ?P (take 10 xs)) + length (filter ?P (drop 10 xs))"
    by (metis append_take_drop_id filter_append length_append)
  moreover have "length (filter ?P (drop 10 xs)) \<le> length xs - 10"
    by (metis length_filter_le length_drop)
  moreover have "length (filter ?P ys) = Suc (length (filter ?P (take 10 xs)))" using assms(3) by (simp add: ys_def)
  ultimately have le: "length (filter ?P xs) + 1 \<le> length (filter ?P ys) + (length xs - 10)" by linarith
  have "length ys - length ys div 2 \<le> length (filter ?P ys)"
  proof (cases "length xs \<le> 10")
    case True
    then have "length ys = Suc (length xs)" by (simp add: ys_def)
    with True le c show ?thesis by linarith
  next
    case False
    then have "length ys = 11" "length xs = 11" using assms(2) by (simp_all add: ys_def)
    with le c show ?thesis by simp
  qed
  moreover have "length ys div 2 < length ys" by (simp add: ys_def)
  ultimately show ?thesis by (simp add: sort_nth_ge_iff)
qed

lemma CalcMedianTimePast_sort:
  "CalcMedianTimePast t ga = (let ts = collect_timestamps 11 0 t ga in
     if ts = [] then 0 else sort ts ! (length ts div 2))"
  by (simp add: CalcMedianTimePast_def Let_def insertion_sort_sort)

lemma CalcMedianTimePast_next:
  assumes "t + 1 \<noteq> 0" "ga (t + 1) = Some h" "CalcMedianTimePast t ga < hdr_Timestamp h"
  shows "CalcMedianTimePast t ga \<le> CalcMedianTimePast (t + 1) ga"
proof (cases "collect_timestamps 11 0 t ga = []")
  case True
  then show ?thesis by (simp add: CalcMedianTimePast_sort)
next
  case False
  with median_next [OF False length_collect, of "hdr_Timestamp h"] assms(3) show ?thesis
    by (simp add: CalcMedianTimePast_sort [of t] CalcMedianTimePast_sort [of "t + 1"] Let_def collect_next [of t ga h, OF assms(1,2)])
qed

section \<open>The height in the coinbase\<close>

lemma get_le_snoc: "(get_le (bs @ [b]) :: u32) = get_le bs OR push_bit (8 * length bs) (ucast b)"
proof (induction bs)
  case (Cons c bs)
  then show ?case by (simp add: push_bit_or or.assoc)
qed simp

lemma decode_push_get_le:
  "decode_push i bs acc = acc OR push_bit (8 * i) (get_le bs)"
proof (induction bs arbitrary: i acc)
  case (Cons b bs)
  then show ?case by (simp add: push_bit_or or.assoc add.commute)
qed simp

lemma put_le_get_le_less:
  assumes "unat (w :: u32) < 256 ^ n"
  shows "get_le (put_le n w) = w"
proof (rule bit_word_eqI)
  fix k assume k: "k < LENGTH(32)"
  have "unat w < 2 ^ k" if "8 * n \<le> k"
  proof -
    have "(256 :: nat) ^ n = 2 ^ (8 * n)" by (simp add: power_mult)
    also have "\<dots> \<le> 2 ^ k" using that by (intro power_increasing) auto
    finally show ?thesis using assms by simp
  qed
  then have hi: "\<not> bit w k" if "8 * n \<le> k"
  proof -
    have "bit w k \<longleftrightarrow> bit (unat w) k" by (simp add: bit_unsigned_iff)
    with that \<open>8 * n \<le> k \<Longrightarrow> unat w < 2 ^ k\<close> show ?thesis by (simp add: bit_iff_odd)
  qed
  show "bit (get_le (put_le n w) :: u32) k = bit w k"
  proof (cases "k < 8 * n")
    case True
    then have "k div 8 < n" by (simp add: less_mult_imp_div_less mult.commute)
    with k True show ?thesis by (simp add: bit_get_le nth_put_le bit_ucast_iff bit_drop_bit_eq)
  next
    case False
    with hi show ?thesis by (simp add: bit_get_le)
  qed
qed

lemma minimalPushLen_bounds: "1 \<le> minimalPushLen h" "minimalPushLen h \<le> 4" "unat h < 256 ^ minimalPushLen h"
  using unsigned_less [of h, where ?'a = nat]
  by (auto simp: minimalPushLen_def word_le_nat_alt)

lemma validateCoinbaseScriptSig_iff:
  "validateCoinbaseScriptSig s h = Inr () \<longleftrightarrow>
     2 \<le> length s \<and> length s \<le> 100 \<and>
     (\<exists>extra. s = of_nat (minimalPushLen h) # put_le (minimalPushLen h) h @ extra)"
proof
  assume v: "validateCoinbaseScriptSig s h = Inr ()"
  let ?n = "minimalPushLen h"
  from v have len: "2 \<le> length s" "length s \<le> 100" and n: "unat (s ! 0) = ?n" "1 + ?n \<le> length s"
    and dec: "get_le (take ?n (drop 1 s)) = h"
    by (auto simp: validateCoinbaseScriptSig_def Let_def decode_push_get_le not_less split: if_splits)
  have "length (take ?n (drop 1 s)) = ?n" using n(2) by simp
  then have "put_le ?n (get_le (take ?n (drop 1 s)) :: u32) = take ?n (drop 1 s)"
    using minimalPushLen_bounds(2) [of h] by (intro put_le_get_le_len) simp_all
  then have "put_le ?n h = take ?n (drop 1 s)" unfolding dec .
  moreover have "s ! 0 = of_nat ?n" using arg_cong [OF n(1), of "of_nat :: nat \<Rightarrow> byte"] by simp
  moreover have "s = s ! 0 # take ?n (drop 1 s) @ drop ?n (drop 1 s)" using len(1) by (cases s) auto
  ultimately show "2 \<le> length s \<and> length s \<le> 100 \<and> (\<exists>extra. s = of_nat ?n # put_le ?n h @ extra)"
    using len by metis
next
  assume a: "2 \<le> length s \<and> length s \<le> 100 \<and>
     (\<exists>extra. s = of_nat (minimalPushLen h) # put_le (minimalPushLen h) h @ extra)"
  then obtain extra where s: "s = of_nat (minimalPushLen h) # put_le (minimalPushLen h) h @ extra" by blast
  have "unat (of_nat (minimalPushLen h) :: byte) = minimalPushLen h"
    using minimalPushLen_bounds [of h] by (simp add: unat_of_nat)
  with a s minimalPushLen_bounds [of h] put_le_get_le_less [OF minimalPushLen_bounds(3)]
  show "validateCoinbaseScriptSig s h = Inr ()"
    by (simp add: validateCoinbaseScriptSig_def Let_def decode_push_get_le not_less)
qed

section \<open>What the structure rules give\<close>

lemma find_coinbase_None: "find_coinbase i txs = None \<longleftrightarrow> list_all (\<lambda>tx. \<not> Transaction_IsCoinbase tx) txs"
  by (induction txs arbitrary: i) auto

lemma find_duplicate_None: "find_duplicate seen hs = None \<longleftrightarrow> distinct hs \<and> set hs \<inter> seen = {}"
  by (induction hs arbitrary: seen) auto

lemma ValidateBlockStructure_ok:
  assumes "ValidateBlockStructure b height p txHashes sb = Inr ()"
  defines "hashes \<equiv> (case txHashes of Some hs \<Rightarrow> hs | None \<Rightarrow> map HashTransaction (blk_Transactions b))"
  shows "\<exists>cb txs. blk_Transactions b = cb # txs \<and> Transaction_IsCoinbase cb
     \<and> list_all (\<lambda>tx. \<not> Transaction_IsCoinbase tx) txs"
    and "distinct hashes" "hdr_MerkleRoot (blk_Header b) = MerkleRoot hashes"
  using assms(1) unfolding hashes_def
  by (auto simp: ValidateBlockStructure_def Let_def find_coinbase_None find_duplicate_None
      split: if_splits list.splits option.splits)

lemma coinbase_total_single:
  assumes "blk_Transactions b = cb # txs" "Transaction_IsCoinbase cb" "list_all (\<lambda>tx. \<not> Transaction_IsCoinbase tx) txs"
  shows "coinbase_total (blk_Transactions b) = outs_total (tx_Outputs cb)"
proof -
  have "sum_list (map (\<lambda>tx. if Transaction_IsCoinbase tx then outs_total (tx_Outputs tx) else 0) txs) = 0"
    using assms(3) by (induction txs) auto
  with assms show ?thesis by (simp add: coinbase_total_def)
qed

lemma coinbase_within_subsidy:
  assumes "ValidateTransactionInputs L b s height p mt hs = Inr fees" "blk_Transactions b = cb # txs"
  shows "outs_total (tx_Outputs cb) \<le> unat (CalcSubsidy p height) + unat fees"
proof -
  from assms obtain v where "coinbase_value 0 (tx_Outputs cb) 0 = Inr v" "v \<le> CalcSubsidy p height + fees"
    "\<not> CalcSubsidy p height + fees < CalcSubsidy p height"
    by (auto simp: ValidateTransactionInputs_def Let_def not_less split: if_splits)
  then show ?thesis
    using unat_coinbase_value [of 0 "tx_Outputs cb" 0 v] by (simp add: word_le_nat_alt unat_add_no_overflow)
qed

lemma validated_block_supply:
  assumes "ValidateBlockStructure b height p txHashes sb = Inr ()"
    and "ValidateTransactionInputs L b s height p mt txHashes = Inr fees" "finite (dom s)"
  shows "\<exists>undo s'. ConnectBlock s b height txHashes = Inr (undo, s') \<and> finite (dom s')
     \<and> utxo_total s' \<le> utxo_total s + unat (CalcSubsidy p height)"
proof -
  from ValidateBlockStructure_ok(1) [OF assms(1)] obtain cb txs where
    b: "blk_Transactions b = cb # txs" "Transaction_IsCoinbase cb" "list_all (\<lambda>tx. \<not> Transaction_IsCoinbase tx) txs"
    by blast
  from ValidateTransactionInputs_connect [OF assms(2,3)] obtain st where
    st: "connect_txs s height txHashes 0 (blk_Transactions b) conn_init = Inr st" "finite (dom (conn_view s st))"
    "utxo_total (conn_view s st) + unat fees \<le> utxo_total s + coinbase_total (blk_Transactions b)" by blast
  with coinbase_total_single [OF b] coinbase_within_subsidy [OF assms(2) b(1)] ConnectBlock_view [OF st(1)]
  show ?thesis by force
qed

section \<open>Properties\<close>

text \<open>A block with a coinbase and a spending transaction, for the witnesses.\<close>

definition demo_coinbase :: Transaction where
  "demo_coinbase = \<lparr>tx_Version = 1,
     tx_Inputs = [\<lparr>in_PreviousOutPoint = CoinbaseOutPoint, in_SignatureScript = [1, 10], in_Sequence = 0xFFFFFFFF\<rparr>],
     tx_Outputs = [\<lparr>out_Value = 5000000010, out_PkScript = [0x51]\<rparr>], tx_LockTime = 0\<rparr>"

definition demo_hashes :: "hash list" where
  "demo_hashes = [hash_copy [1], hash_copy [2]]"

definition demo_full_block :: Block where
  "demo_full_block = \<lparr>blk_Header = (blk_Header zero_block)\<lparr>hdr_Version := 1, hdr_MerkleRoot := MerkleRoot demo_hashes\<rparr>,
     blk_Transactions = [demo_coinbase, demo_spend]\<rparr>"

lemma demo_coinbase_is: "Transaction_IsCoinbase demo_coinbase"
  by (simp add: Transaction_IsCoinbase_def TxInput_IsCoinbase_def demo_coinbase_def CoinbaseOutPoint_def Hash_IsZero_def)

lemma demo_structure: "ValidateBlockStructure demo_full_block 10 Mainnet (Some demo_hashes) (Some []) = Inr ()"
proof -
  have d: "find_duplicate {} demo_hashes = None"
    by (simp add: find_duplicate_None demo_hashes_def hash_eq_iff hash_bytes_copy)
  have c: "validateCoinbaseScriptSig (in_SignatureScript (tx_Inputs demo_coinbase ! 0)) 10 = Inr ()"
    by (simp add: validateCoinbaseScriptSig_def demo_coinbase_def minimalPushLen_def)
  have o: "\<not> coinbase_overflows 0 (tx_Outputs demo_coinbase)" by (simp add: demo_coinbase_def)
  show ?thesis
    using d c o by (simp add: ValidateBlockStructure_def demo_full_block_def demo_coinbase_is demo_not_coinbase Mainnet_def)
qed

lemma demo_full_validate:
  "ValidateTransactionInputs demo_lib demo_full_block demo_set 10 Mainnet 0 (Some demo_hashes) = Inr 10"
proof -
  let ?v = "\<lparr>vs_spentInBlock = {}, vs_createdInBlock = Map.empty\<rparr>"
  let ?k = "OutpointKey (hash_copy [1]) 0"
  have cb: "validate_tx demo_lib demo_set Mainnet 10 0 (Some demo_hashes) 0 demo_coinbase ?v 0 =
      Inr (\<lparr>vs_spentInBlock = {}, vs_createdInBlock = [?k \<mapsto> out_entry (tx_Outputs demo_coinbase ! 0) 10 True]\<rparr>, 0)"
    unfolding validate_tx_def by (simp add: demo_coinbase_is) (simp add: demo_coinbase_def demo_hashes_def tx_hash_at_def)
  have ins: "\<exists>v'. validate_inputs demo_set Mainnet 10 (tx_Inputs demo_spend) {}
      \<lparr>vs_spentInBlock = {}, vs_createdInBlock = [?k \<mapsto> e]\<rparr> 0 = Inr (v', 60, [demo_entry])" for e
    by (simp add: demo_spend_def demo_set_def demo_outpoint_def demo_entry_def in_key_def Set_Get_def
        check_maturity_def add_input_value_def MaxMoneyValue_def)
  have rest: "check_outputs 60 (tx_Outputs demo_spend) = Inr 50" "Transaction_SerializeSize demo_spend \<le> MaxTxSize"
    "check_scripts demo_lib demo_spend 0 (zip (tx_Inputs demo_spend) [demo_entry]) = Inr ()"
    "check_locks Mainnet demo_spend 10 0 demo_set = Inr ()" "tx_Inputs demo_spend \<noteq> []" "tx_Outputs demo_spend \<noteq> []"
    by (simp_all add: demo_spend_def demo_entry_def check_outputs_def MaxMoneyValue_def MaxTxSize_def
      Transaction_SerializeSize_def TxInput_SerializeSize_def TxOutput_SerializeSize_def VarIntSize_def
      IsLegacyUnvalidatedScript_def demo_verify [of _ 0, simplified] check_locks_def Mainnet_def
      CheckTransactionFinality_def CheckSequenceLocks_def check_sequence_lock_def)
  have "\<exists>v'. validate_tx demo_lib demo_set Mainnet 10 0 (Some demo_hashes) 1 demo_spend
      \<lparr>vs_spentInBlock = {}, vs_createdInBlock = [?k \<mapsto> e]\<rparr> 0 = Inr (v', 10)" for e
    using ins [of e] rest by (auto simp: validate_tx_def demo_not_coinbase tx_hash_at_def demo_hashes_def)
  moreover have "CalcSubsidy Mainnet 10 = 5000000000" by (simp add: CalcSubsidy_def Mainnet_def)
  moreover have "coinbase_value 0 (tx_Outputs demo_coinbase) 0 = Inr 5000000010" by (simp add: demo_coinbase_def)
  ultimately show ?thesis
    using cb by (fastforce simp: ValidateTransactionInputs_def demo_full_block_def)
qed

text \<open>C9. No inflation in a block: a block that passes the structure rules and the input rules connects, and the
  total value of the unspent outputs grows by at most the subsidy of its height.\<close>

theorem block_supply_bound:
  assumes "ValidateBlockStructure b height p txHashes serializedBytes = Inr ()"
    and "ValidateTransactionInputs L b s height p medianTimePast txHashes = Inr fees" "finite (dom s)"
  shows "\<exists>undo s'. ConnectBlock s b height txHashes = Inr (undo, s') \<and> finite (dom s')
     \<and> utxo_total s' \<le> utxo_total s + unat (CalcSubsidy p height)"
  using assms by (rule validated_block_supply)

theorem block_supply_bound_witness:
  "\<exists>undo s'. ConnectBlock demo_set demo_full_block 10 (Some demo_hashes) = Inr (undo, s') \<and> finite (dom s')
     \<and> utxo_total s' \<le> utxo_total demo_set + unat (CalcSubsidy Mainnet 10)"
  using block_supply_bound [OF demo_structure demo_full_validate demo_finite] .



text \<open>The coinbase script rule accepts exactly the scripts of 2 to 100 bytes that start with the minimal
  little-endian push of the block height, so a coinbase is valid at one height only.\<close>

theorem coinbase_height_canonical:
  "validateCoinbaseScriptSig script height = Inr () \<longleftrightarrow>
     2 \<le> length script \<and> length script \<le> 100 \<and>
     (\<exists>extra. script = of_nat (minimalPushLen height) # put_le (minimalPushLen height) height @ extra)"
  by (rule validateCoinbaseScriptSig_iff)

text \<open>\<^verbatim>\<open>CalcMedianTimePast\<close> is the middle element of the sorted timestamps of the last (at most eleven)
  headers the lookup delivers, and 0 when there are none.\<close>

theorem median_time_past_sorted:
  "CalcMedianTimePast tipHeight getAncestor =
     (let ts = collect_timestamps 11 0 tipHeight getAncestor
      in if ts = [] then 0 else sort ts ! (length ts div 2))"
  by (rule CalcMedianTimePast_sort)

text \<open>Median time past never decreases along a chain whose headers obey the \<^verbatim>\<open>median-11\<close> rule: adding a
  header whose timestamp passes \<^verbatim>\<open>ValidateHeaderTimestamp\<close> does not lower it.\<close>

theorem median_time_past_monotone:
  assumes "ValidateHeaderTimestamp header parent nowUnix getAncestor tipHeight p = Inr ()"
    and "par_MinTimestampRule p = ''median-11''"
    and "getAncestor (tipHeight + 1) = Some header" "tipHeight + 1 \<noteq> 0"
  shows "CalcMedianTimePast tipHeight getAncestor \<le> CalcMedianTimePast (tipHeight + 1) getAncestor"
  using assms(1,2) by (intro CalcMedianTimePast_next [of tipHeight getAncestor header, OF assms(4,3)])
    (auto simp: ValidateHeaderTimestamp_def Let_def not_le split: if_splits)

definition demo_chain :: ancestors where
  "demo_chain h = (if h \<le> 2 then Some ((blk_Header zero_block)\<lparr>hdr_Timestamp := 100 + h\<rparr>) else None)"

theorem median_time_past_monotone_witness:
  "CalcMedianTimePast 1 demo_chain \<le> CalcMedianTimePast (1 + 1) demo_chain"
proof (rule median_time_past_monotone)
  show "ValidateHeaderTimestamp ((blk_Header zero_block)\<lparr>hdr_Timestamp := 102\<rparr>) (blk_Header zero_block) 200 demo_chain 1 Mainnet = Inr ()"
    by code_simp
  show "par_MinTimestampRule Mainnet = ''median-11''" by (simp add: Mainnet_def)
qed (simp_all add: demo_chain_def)

end
