(* ===== verification/Difficulty.thy ===== *)
theory Difficulty
  imports Target Validation
begin

text \<open>
  The four difficulty algorithms (\<^verbatim>\<open>internal/difficulty\<close>): Bitcoin's epoch retarget, LWMA-1, Dark Gravity
  Wave and DigiShield. A result of \<open>None\<close> is the run-time panic of a division by zero. Products of
  \<^verbatim>\<open>int64\<close> values that can wrap are wrapped by \<open>i64\<close>; \<^verbatim>\<open>big.Int\<close> values are unbounded. What the
  consensus engine relies on is the locale \<open>retargeter\<close>, which each of the four is shown to satisfy.
\<close>

section \<open>Arithmetic\<close>

definition i64 :: "int \<Rightarrow> int" where
  "i64 x = sint (word_of_int x :: u64)"

text \<open>\<^verbatim>\<open>big.Int.Div\<close> is Euclidean division: the remainder is never negative.\<close>

definition big_Div :: "int \<Rightarrow> int \<Rightarrow> int" where
  "big_Div m n = (if n \<ge> 0 then m div n else - (m div (- n)))"

text \<open>
  The end all four algorithms share: divide, keep the target at least 1, cap it at the target of
  \<^verbatim>\<open>MinBits\<close>, and compact it.
\<close>

definition finish_target :: "ChainParams \<Rightarrow> int \<Rightarrow> int \<Rightarrow> u32 option" where
  "finish_target p numerator denominator =
     (if denominator = 0 then None
      else let newTarget = big_Div numerator denominator;
               newTarget = (if newTarget \<le> 0 then 1 else newTarget);
               maxTarget = CompactToBig (par_MinBits p);
               newTarget = (if newTarget > maxTarget then maxTarget else newTarget)
        in Some (BigToCompact newTarget))"

section \<open>The algorithms\<close>

definition bitcoin_CalcNextBits :: "BlockHeader \<Rightarrow> u32 \<Rightarrow> ancestors \<Rightarrow> ChainParams \<Rightarrow> u32 option" where
  "bitcoin_CalcNextBits tip tipHeight getAncestor p =
     (if par_NoRetarget p then Some (par_InitialBits p)
      else let nextHeight = tipHeight + 1 in
      if par_RetargetInterval p = 0 then None
      else if nextHeight mod par_RetargetInterval p \<noteq> 0 then Some (hdr_Bits tip)
      else let windowStart = tipHeight - (par_RetargetInterval p - 1) in
      (case getAncestor windowStart of
         None \<Rightarrow> Some (hdr_Bits tip)
       | Some firstHeader \<Rightarrow>
           let firstTS = uint (hdr_Timestamp firstHeader);
               firstMTP = uint (CalcMedianTimePast windowStart getAncestor);
               maxFirstTS = firstMTP + dur_secs (par_MaxTimeFutureDrift p);
               firstTS = (if firstTS > maxFirstTS then maxFirstTS else firstTS);
               tipTS = uint (hdr_Timestamp tip);
               mtp = uint (CalcMedianTimePast tipHeight getAncestor);
               maxRetargetTS = mtp + dur_secs (par_MaxTimeFutureDrift p);
               tipTS = (if tipTS > maxRetargetTS then maxRetargetTS else tipTS);
               actualTimespan = tipTS - firstTS;
               targetTimespan = dur_secs (par_TargetTimespan p);
               actualTimespan = (if actualTimespan < targetTimespan sdiv 4 then targetTimespan sdiv 4 else actualTimespan);
               actualTimespan = (if actualTimespan > targetTimespan * 4 then targetTimespan * 4 else actualTimespan);
               oldTarget = CompactToBig (hdr_Bits tip)
           in finish_target p (oldTarget * actualTimespan) targetTimespan))"

primrec window_headers :: "nat \<Rightarrow> u32 \<Rightarrow> ancestors \<Rightarrow> BlockHeader list option" where
  "window_headers 0 height getAncestor = Some []"
| "window_headers (Suc n) height getAncestor =
     (case getAncestor height of
        None \<Rightarrow> None
      | Some h \<Rightarrow> (case window_headers n (height + 1) getAncestor of None \<Rightarrow> None | Some hs \<Rightarrow> Some (h # hs)))"

primrec lwma_loop :: "int \<Rightarrow> int \<Rightarrow> int \<Rightarrow> int \<Rightarrow> int \<Rightarrow> BlockHeader list \<Rightarrow> int \<times> int" where
  "lwma_loop maxST i prevTS weightedSolveTimeSum sumTarget [] = (weightedSolveTimeSum, sumTarget)"
| "lwma_loop maxST i prevTS weightedSolveTimeSum sumTarget (h # hs) =
     (let thisTS = uint (hdr_Timestamp h);
          thisTS = (if thisTS \<le> prevTS then prevTS + 1 else thisTS);
          solveTime = thisTS - prevTS;
          solveTime = (if solveTime > maxST then maxST else solveTime)
      in lwma_loop maxST (i + 1) thisTS (i64 (weightedSolveTimeSum + i * solveTime))
           (sumTarget + CompactToBig (hdr_Bits h)) hs)"

definition lwma_CalcNextBits :: "BlockHeader \<Rightarrow> u32 \<Rightarrow> ancestors \<Rightarrow> ChainParams \<Rightarrow> u32 option" where
  "lwma_CalcNextBits tip tipHeight getAncestor p =
     (if par_NoRetarget p then Some (par_InitialBits p)
      else let N = par_RetargetInterval p; T = dur_secs (par_TargetBlockSpacing p) in
      if tipHeight < N then Some (par_InitialBits p)
      else let windowStart = tipHeight - N in
      (case window_headers (unat N + 1) windowStart getAncestor of
         None \<Rightarrow> Some (hdr_Bits tip)
       | Some headers \<Rightarrow>
           let maxST = 6 * T;
               (weightedSolveTimeSum, sumTarget) =
                 lwma_loop maxST 1 (uint (hdr_Timestamp (hd headers))) 0 0 (tl headers);
               minL = i64 (uint N * uint N * T) sdiv 20;
               weightedSolveTimeSum = (if weightedSolveTimeSum < minL then minL else weightedSolveTimeSum);
               numerator = sumTarget * i64 (200 * weightedSolveTimeSum);
               denominator = i64 (uint N * uint N * uint (N + 1) * T * 99)
           in finish_target p numerator denominator))"

primrec dgw_sum :: "nat \<Rightarrow> BlockHeader option \<Rightarrow> u32 \<Rightarrow> ancestors \<Rightarrow> int \<Rightarrow> int option" where
  "dgw_sum 0 current currentHeight getAncestor sumTarget = Some sumTarget"
| "dgw_sum (Suc n) current currentHeight getAncestor sumTarget =
     (case current of
        None \<Rightarrow> None
      | Some c \<Rightarrow>
          let sumTarget = sumTarget + CompactToBig (hdr_Bits c) in
          if 0 < n then dgw_sum n (getAncestor (currentHeight - 1)) (currentHeight - 1) getAncestor sumTarget
          else dgw_sum n current currentHeight getAncestor sumTarget)"

definition dgw_CalcNextBits :: "BlockHeader \<Rightarrow> u32 \<Rightarrow> ancestors \<Rightarrow> ChainParams \<Rightarrow> u32 option" where
  "dgw_CalcNextBits tip tipHeight getAncestor p =
     (if par_NoRetarget p then Some (par_InitialBits p)
      else let N = par_RetargetInterval p in
      if tipHeight < N then Some (par_InitialBits p)
      else let T = dur_secs (par_TargetBlockSpacing p) in
      (case dgw_sum (unat N) (Some tip) tipHeight getAncestor 0 of
         None \<Rightarrow> Some (hdr_Bits tip)
       | Some sumTarget \<Rightarrow>
           let windowStartHeight = tipHeight - N in
           (case getAncestor windowStartHeight of
              None \<Rightarrow> Some (hdr_Bits tip)
            | Some windowStart \<Rightarrow>
                if N = 0 then None
                else let avgTarget = big_Div sumTarget (uint N);
                    actualTimespan = uint (hdr_Timestamp tip) - uint (hdr_Timestamp windowStart);
                    expectedTimespan = i64 (uint N * T);
                    actualTimespan = (if actualTimespan < expectedTimespan sdiv 3 then expectedTimespan sdiv 3 else actualTimespan);
                    actualTimespan = (if actualTimespan > i64 (expectedTimespan * 3) then i64 (expectedTimespan * 3) else actualTimespan)
                in finish_target p (avgTarget * actualTimespan) expectedTimespan)))"

definition digishield_CalcNextBits :: "BlockHeader \<Rightarrow> u32 \<Rightarrow> ancestors \<Rightarrow> ChainParams \<Rightarrow> u32 option" where
  "digishield_CalcNextBits tip tipHeight getAncestor p =
     (if par_NoRetarget p then Some (par_InitialBits p)
      else if tipHeight < 1 then Some (par_InitialBits p)
      else let T = dur_secs (par_TargetBlockSpacing p);
               N = uint (par_RetargetInterval p);
               N = (if N < 2 then 4 else N) in
      (case getAncestor (tipHeight - 1) of
         None \<Rightarrow> Some (hdr_Bits tip)
       | Some prev \<Rightarrow>
           let actualSolveTime = uint (hdr_Timestamp tip) - uint (hdr_Timestamp prev);
               actualSolveTime = (if actualSolveTime < 1 then 1 else actualSolveTime);
               dampenedTimespan = i64 ((N - 1) * T + actualSolveTime) sdiv N;
               dampenedTimespan = (if dampenedTimespan < T sdiv 4 then T sdiv 4 else dampenedTimespan);
               dampenedTimespan = (if dampenedTimespan > T * 4 then T * 4 else dampenedTimespan);
               tipTarget = CompactToBig (hdr_Bits tip)
           in finish_target p (tipTarget * dampenedTimespan) T))"

definition GetRetargeter :: "string \<Rightarrow> (BlockHeader \<Rightarrow> u32 \<Rightarrow> ancestors \<Rightarrow> ChainParams \<Rightarrow> u32 option) option" where
  "GetRetargeter name =
     (if name = ''bitcoin'' then Some bitcoin_CalcNextBits
      else if name = ''lwma'' then Some lwma_CalcNextBits
      else if name = ''dgw'' then Some dgw_CalcNextBits
      else if name = ''digishield'' then Some digishield_CalcNextBits
      else None)"

section \<open>The contract\<close>

text \<open>
  Parameters for which no algorithm divides by zero or overflows (all three networks are among them), and targets the network
  allows.
\<close>

definition target_ok :: "ChainParams \<Rightarrow> u32 \<Rightarrow> bool" where
  "target_ok p bits \<longleftrightarrow> 0 < CompactToBig bits \<and> CompactToBig bits \<le> CompactToBig (par_MinBits p)"

definition params_ok :: "ChainParams \<Rightarrow> bool" where
  "params_ok p \<longleftrightarrow> 0 < par_RetargetInterval p \<and> par_RetargetInterval p \<le> 4096 \<and>
     0 < dur_secs (par_TargetBlockSpacing p) \<and> dur_secs (par_TargetBlockSpacing p) \<le> 86400 \<and>
     0 < dur_secs (par_TargetTimespan p) \<and> target_ok p (par_InitialBits p)"

locale retargeter =
  fixes calc :: "BlockHeader \<Rightarrow> u32 \<Rightarrow> ancestors \<Rightarrow> ChainParams \<Rightarrow> u32 option"
  assumes returns: "params_ok p \<Longrightarrow> \<exists>bits. calc tip tipHeight getAncestor p = Some bits"
    and keeps_target: "params_ok p \<Longrightarrow> target_ok p (hdr_Bits tip) \<Longrightarrow>
      calc tip tipHeight getAncestor p = Some bits \<Longrightarrow> target_ok p bits"
    and fixed: "par_NoRetarget p \<Longrightarrow> calc tip tipHeight getAncestor p = Some (par_InitialBits p)"

lemma finish_target_ok:
  assumes "finish_target p n d = Some bits" "0 < CompactToBig (par_MinBits p)"
  shows "target_ok p bits"
proof -
  let ?max = "CompactToBig (par_MinBits p)"
  from assms(1) obtain t where t: "bits = BigToCompact t" "0 < t" "t \<le> ?max"
    using assms(2) by (auto simp: finish_target_def Let_def split: if_splits)
  have "t < 2 ^ 256" using t(3) CompactToBig_bounds(2) [of "par_MinBits p"] by linarith
  with t compact_round_trip [of t] show ?thesis by (simp add: target_ok_def)
qed

lemma finish_target_Some: "d \<noteq> 0 \<Longrightarrow> \<exists>bits. finish_target p n d = Some bits"
  by (simp add: finish_target_def Let_def)

lemma params_ok_max: "params_ok p \<Longrightarrow> 0 < CompactToBig (par_MinBits p)"
  by (auto simp: params_ok_def target_ok_def)

lemma i64_small: "- (2 ^ 63) \<le> x \<Longrightarrow> x < 2 ^ 63 \<Longrightarrow> i64 x = x"
  by (simp add: i64_def sint_sbintrunc' signed_take_bit_int_eq_self)

lemma params_ok_products:
  assumes "params_ok p"
  defines "N \<equiv> uint (par_RetargetInterval p)" and "T \<equiv> dur_secs (par_TargetBlockSpacing p)"
  shows "1 \<le> N" "N \<le> 4096" "uint (par_RetargetInterval p + 1) = N + 1" "i64 (N * T) = N * T"
    "i64 (N * N * (N + 1) * T * 99) = N * N * (N + 1) * T * 99" "0 < N * N * (N + 1) * T * 99"
proof -
  have "0 < unat (par_RetargetInterval p)" "unat (par_RetargetInterval p) \<le> 4096"
    using assms(1) by (auto simp: params_ok_def word_le_nat_alt unat_gt_0 word_neq_0_conv)
  then show N: "1 \<le> N" "N \<le> 4096" unfolding N_def uint_nat by linarith+
  have "unat (par_RetargetInterval p + 1) = unat (par_RetargetInterval p) + 1"
    using \<open>unat (par_RetargetInterval p) \<le> 4096\<close> by (simp add: unat_word_ariths)
  then show "uint (par_RetargetInterval p + 1) = N + 1" unfolding N_def uint_nat by linarith
  have T: "1 \<le> T" "T \<le> 86400" using assms(1) by (auto simp: params_ok_def T_def)
  have nt: "N * T \<le> 4096 * 86400" using N T by (intro mult_mono) auto
  have "0 < N * T" using N T by simp
  with nt show "i64 (N * T) = N * T" by (intro i64_small) auto
  have nn: "N * N \<le> 4096 * 4096" using N by (intro mult_mono) auto
  then have "N * N * (N + 1) \<le> 4096 * 4096 * 4097" using N by (intro mult_mono) auto
  then have le: "N * N * (N + 1) * T \<le> 4096 * 4096 * 4097 * 86400" using N T by (intro mult_mono) auto
  show pos: "0 < N * N * (N + 1) * T * 99" using N T by simp
  show "i64 (N * N * (N + 1) * T * 99) = N * N * (N + 1) * T * 99"
  proof (rule i64_small)
    show "- (2 ^ 63) \<le> N * N * (N + 1) * T * 99" using pos zero_le_power [of "2 :: int" 63] by linarith
    have "N * N * (N + 1) * T * 99 \<le> 4096 * 4096 * 4097 * 86400 * 99" using le by linarith
    also have "\<dots> < 2 ^ 63" by simp
    finally show "N * N * (N + 1) * T * 99 < 2 ^ 63" .
  qed
qed

interpretation bitcoin_rt: retargeter bitcoin_CalcNextBits
proof unfold_locales
  fix p tip tipHeight getAncestor
  assume p: "params_ok p"
  then have "par_RetargetInterval p \<noteq> 0" "dur_secs (par_TargetTimespan p) \<noteq> 0" by (auto simp: params_ok_def)
  then show "\<exists>bits. bitcoin_CalcNextBits tip tipHeight getAncestor p = Some bits"
    by (auto simp: bitcoin_CalcNextBits_def Let_def intro: finish_target_Some split: option.splits)
next
  fix p tip tipHeight getAncestor bits
  assume "params_ok p" "target_ok p (hdr_Bits tip)" "bitcoin_CalcNextBits tip tipHeight getAncestor p = Some bits"
  then show "target_ok p bits"
    using params_ok_max [of p]
    by (auto simp: bitcoin_CalcNextBits_def Let_def params_ok_def [of p] split: if_splits option.splits
        dest: finish_target_ok)
qed (simp add: bitcoin_CalcNextBits_def)

interpretation lwma_rt: retargeter lwma_CalcNextBits
proof unfold_locales
  fix p tip tipHeight getAncestor
  assume "params_ok p"
  note P = params_ok_products [OF this]
  have "\<exists>bits. finish_target p n (uint (par_RetargetInterval p) * uint (par_RetargetInterval p) *
      (uint (par_RetargetInterval p) + 1) * dur_secs (par_TargetBlockSpacing p) * 99) = Some bits" for n
    using P(6) by (intro finish_target_Some) linarith
  then show "\<exists>bits. lwma_CalcNextBits tip tipHeight getAncestor p = Some bits"
    by (auto simp: lwma_CalcNextBits_def Let_def P(3,5) split: option.splits prod.splits)
next
  fix p tip tipHeight getAncestor bits
  assume "params_ok p" "target_ok p (hdr_Bits tip)" "lwma_CalcNextBits tip tipHeight getAncestor p = Some bits"
  then show "target_ok p bits"
    using params_ok_max [of p]
    by (auto simp: lwma_CalcNextBits_def Let_def params_ok_def [of p] split: if_splits option.splits prod.splits
        dest: finish_target_ok)
qed (simp add: lwma_CalcNextBits_def)

interpretation dgw_rt: retargeter dgw_CalcNextBits
proof unfold_locales
  fix p tip tipHeight getAncestor
  assume p: "params_ok p"
  note P = params_ok_products [OF p]
  have "par_RetargetInterval p \<noteq> 0" "uint (par_RetargetInterval p) * dur_secs (par_TargetBlockSpacing p) \<noteq> 0"
    using p P(1) by (auto simp: params_ok_def)
  then show "\<exists>bits. dgw_CalcNextBits tip tipHeight getAncestor p = Some bits"
    by (auto simp: dgw_CalcNextBits_def Let_def P(4) intro: finish_target_Some split: option.splits)
next
  fix p tip tipHeight getAncestor bits
  assume "params_ok p" "target_ok p (hdr_Bits tip)" "dgw_CalcNextBits tip tipHeight getAncestor p = Some bits"
  then show "target_ok p bits"
    using params_ok_max [of p]
    by (auto simp: dgw_CalcNextBits_def Let_def params_ok_def [of p] split: if_splits option.splits
        dest: finish_target_ok)
qed (simp add: dgw_CalcNextBits_def)

interpretation digishield_rt: retargeter digishield_CalcNextBits
proof unfold_locales
  fix p tip tipHeight getAncestor
  assume "params_ok p"
  then have "dur_secs (par_TargetBlockSpacing p) \<noteq> 0" by (auto simp: params_ok_def)
  then show "\<exists>bits. digishield_CalcNextBits tip tipHeight getAncestor p = Some bits"
    by (auto simp: digishield_CalcNextBits_def Let_def intro: finish_target_Some split: option.splits)
next
  fix p tip tipHeight getAncestor bits
  assume "params_ok p" "target_ok p (hdr_Bits tip)" "digishield_CalcNextBits tip tipHeight getAncestor p = Some bits"
  then show "target_ok p bits"
    using params_ok_max [of p]
    by (auto simp: digishield_CalcNextBits_def Let_def params_ok_def [of p] split: if_splits option.splits
        dest: finish_target_ok)
qed (simp add: digishield_CalcNextBits_def)

section \<open>Size of the adjustments\<close>

lemma sdiv_pos: "0 \<le> a \<Longrightarrow> 0 < b \<Longrightarrow> a sdiv b = a div b" for a b :: int
  by (simp add: signed_divide_int_def sgn_if)

lemma finish_target_value:
  assumes "0 < d" "0 \<le> n"
  shows "\<exists>t. finish_target p n d = Some (BigToCompact t) \<and>
     t = min (max 1 (n div d)) (CompactToBig (par_MinBits p))"
  using assms by (auto simp: finish_target_def big_Div_def Let_def min_def max_def)

text \<open>A target between \<open>lo\<close> and \<open>hi\<close> before compaction stays below \<open>hi\<close> and loses at most its \<open>2 ^ 15\<close>th part.\<close>

lemma finish_target_range:
  assumes "finish_target p n d = Some bits" "0 < d" "0 \<le> n" "lo \<le> n div d" "n div d \<le> hi" "1 \<le> hi"
    and "lo \<le> CompactToBig (par_MinBits p)" "0 \<le> lo"
  shows "lo - lo div 2 ^ 15 \<le> CompactToBig bits \<and> CompactToBig bits \<le> hi"
proof -
  let ?max = "CompactToBig (par_MinBits p)"
  define t where "t = min (max 1 (n div d)) ?max"
  have bits: "bits = BigToCompact t" using finish_target_value [OF assms(2,3)] assms(1) by (auto simp: t_def)
  have t: "lo \<le> t" "t \<le> hi" "0 \<le> t" "t < 2 ^ 256"
    using assms CompactToBig_bounds [of "par_MinBits p"] by (auto simp: t_def min_def max_def)
  have mono: "lo - lo div 2 ^ 15 \<le> t - t div 2 ^ 15"
  proof -
    have "t div 2 ^ 15 \<le> (lo + (t - lo)) div 2 ^ 15" by simp
    also have "\<dots> \<le> lo div 2 ^ 15 + (t - lo)" using t(1) assms(8) by (simp add: zdiv_mono1)
    finally show ?thesis by linarith
  qed
  show ?thesis using compact_round_trip(1,2) [OF t(3,4)] t mono unfolding bits by linarith
qed

text \<open>Solve times of blocks that arrive exactly on schedule.\<close>

lemma lwma_loop_steady:
  assumes "\<And>j. j < length hs \<Longrightarrow> uint (hdr_Timestamp (hs ! j)) = prev + (int j + 1) * T \<and> CompactToBig (hdr_Bits (hs ! j)) = t"
    and "0 < T" "0 \<le> w" "1 \<le> i" "w + T * (\<Sum>j < length hs. i + int j) < 2 ^ 63"
  shows "lwma_loop (6 * T) i prev w s hs = (w + T * (\<Sum>j < length hs. i + int j), s + int (length hs) * t)"
  using assms
proof (induction hs arbitrary: i prev w s)
  case (Cons h hs)
  have h: "uint (hdr_Timestamp h) = prev + T" "CompactToBig (hdr_Bits h) = t" using Cons.prems(1) [of 0] by simp_all
  have sum: "(\<Sum>j < length (h # hs). i + int j) = i + (\<Sum>j < length hs. i + 1 + int j)"
    by (simp add: sum.lessThan_Suc_shift algebra_simps del: sum.lessThan_Suc)
  have nn: "0 \<le> (\<Sum>j < length hs. i + 1 + int j)" using Cons.prems(4) by (intro sum_nonneg) simp
  have tot: "w + T * (\<Sum>j < length (h # hs). i + int j) = w + i * T + T * (\<Sum>j < length hs. i + 1 + int j)"
    unfolding sum by (simp add: algebra_simps)
  have "0 \<le> i * T" "0 \<le> T * (\<Sum>j < length hs. i + 1 + int j)" using Cons.prems(2,4) nn by simp_all
  with Cons.prems(3,5) tot have wr: "i64 (w + i * T) = w + i * T" by (intro i64_small) linarith+
  have "uint (hdr_Timestamp (hs ! j)) = prev + T + (int j + 1) * T \<and> CompactToBig (hdr_Bits (hs ! j)) = t"
    if "j < length hs" for j
    using Cons.prems(1) [of "Suc j"] that by (simp add: algebra_simps)
  from Cons.IH [OF this Cons.prems(2), of "w + i * T" "i + 1" "s + t"] \<open>0 \<le> i * T\<close> Cons.prems(3,4,5) tot
  have "lwma_loop (6 * T) (i + 1) (prev + T) (w + i * T) (s + t) hs
      = (w + i * T + T * (\<Sum>j < length hs. i + 1 + int j), s + t + int (length hs) * t)" by simp
  with h wr tot Cons.prems(2) show ?case by (simp add: algebra_simps)
qed simp

lemma window_headers_const:
  "window_headers n height ga = Some hs \<Longrightarrow>
     length hs = n \<and> (\<forall>j < n. ga (height + of_nat j) = Some (hs ! j))"
proof (induction n arbitrary: height hs)
  case (Suc n)
  from Suc.prems obtain h hs' where h: "ga height = Some h" "window_headers n (height + 1) ga = Some hs'" "hs = h # hs'"
    by (auto split: option.splits)
  have "ga (height + of_nat j) = Some (hs ! j)" if "j < Suc n" for j
    using Suc.IH [OF h(2)] h(1,3) that by (cases j) (auto simp: algebra_simps)
  with Suc.IH [OF h(2)] h(3) show ?case by simp
qed simp

lemma window_headers_total: "(\<And>h. ga h \<noteq> None) \<Longrightarrow> \<exists>hs. window_headers n height ga = Some hs"
proof (induction n arbitrary: height)
  case (Suc n)
  from Suc.IH [OF Suc.prems] obtain hs where "window_headers n (height + 1) ga = Some hs" by blast
  moreover obtain x where "ga height = Some x" using Suc.prems by blast
  ultimately show ?case by simp
qed simp

lemma dgw_sum_const:
  assumes "\<And>h. \<exists>x. ga h = Some x \<and> CompactToBig (hdr_Bits x) = t"
  shows "CompactToBig (hdr_Bits c) = t \<Longrightarrow> dgw_sum n (Some c) height ga s = Some (s + int n * t)"
proof (induction n arbitrary: c height s)
  case (Suc n)
  show ?case
  proof (cases "0 < n")
    case True
    obtain x where "ga (height - 1) = Some x" "CompactToBig (hdr_Bits x) = t" using assms by blast
    with True Suc show ?thesis by (simp add: algebra_simps)
  next
    case False
    with Suc.prems show ?thesis by simp
  qed
qed simp

lemma finish_clamped:
  assumes "lo \<le> hi" "finish_target p (t * (if (if x < lo then lo else x) > hi then hi else (if x < lo then lo else x))) T = Some bits"
  obtains a where "lo \<le> a" "a \<le> hi" "finish_target p (t * a) T = Some bits"
  using that [of "if (if x < lo then lo else x) > hi then hi else (if x < lo then lo else x)"] assms by auto

lemma bitcoin_CalcNextBits_cases:
  assumes "bitcoin_CalcNextBits tip tipHeight getAncestor p = Some bits" "\<not> par_NoRetarget p"
  defines "T \<equiv> dur_secs (par_TargetTimespan p)"
  shows "bits = hdr_Bits tip \<or> (\<exists>x. finish_target p (CompactToBig (hdr_Bits tip) *
     (if (if x < T sdiv 4 then T sdiv 4 else x) > T * 4 then T * 4 else (if x < T sdiv 4 then T sdiv 4 else x))) T = Some bits)"
proof (cases "(tipHeight + 1) mod par_RetargetInterval p = 0 \<and> par_RetargetInterval p \<noteq> 0")
  case True
  then show ?thesis
  proof (cases "getAncestor (tipHeight - (par_RetargetInterval p - 1))")
    case None
    with True assms(1,2) show ?thesis by (simp add: bitcoin_CalcNextBits_def Let_def)
  next
    case (Some first)
    have c: "par_NoRetarget p = False" "(par_RetargetInterval p = 0) = False"
      "((tipHeight + 1) mod par_RetargetInterval p \<noteq> 0) = False" using True assms(2) by simp_all
    from assms(1) show ?thesis
      unfolding bitcoin_CalcNextBits_def Let_def c if_False Some option.case T_def by blast
  qed
next
  case False
  with assms(1,2) show ?thesis by (auto simp: bitcoin_CalcNextBits_def Let_def split: if_splits)
qed

section \<open>Properties\<close>

lemma params_ok_networks: "params_ok Mainnet" "params_ok Testnet" "params_ok Regtest"
  by code_simp+

lemma GetRetargeter_cases:
  assumes "GetRetargeter name = Some calc"
  shows "retargeter calc"
  using assms bitcoin_rt.retargeter_axioms lwma_rt.retargeter_axioms dgw_rt.retargeter_axioms
    digishield_rt.retargeter_axioms
  by (auto simp: GetRetargeter_def split: if_splits)

text \<open>C27. Every difficulty algorithm that can be configured returns bits (no division by zero), and keeps the
  target between 1 and the target of \<^verbatim>\<open>MinBits\<close>, for parameters like those of the three networks and
  whatever the ancestor lookup delivers.\<close>

theorem retargeters_keep_target:
  assumes "GetRetargeter name = Some calc" "params_ok p" "target_ok p (hdr_Bits tip)"
  shows "\<exists>bits. calc tip tipHeight getAncestor p = Some bits \<and> target_ok p bits"
proof -
  have r: "retargeter calc" by (rule GetRetargeter_cases [OF assms(1)])
  from retargeter.returns [OF r assms(2)] obtain bits where
    "calc tip tipHeight getAncestor p = Some bits" by blast
  with retargeter.keeps_target [OF r assms(2,3) this] show ?thesis by blast
qed

definition demo_tip :: BlockHeader where
  "demo_tip = (blk_Header zero_block)\<lparr>hdr_Bits := 0x1e7ce359, hdr_Timestamp := 600\<rparr>"

theorem retargeters_keep_target_witness:
  "\<exists>bits. dgw_CalcNextBits demo_tip 200 (\<lambda>h. Some demo_tip) Mainnet = Some bits \<and> target_ok Mainnet bits"
proof (rule retargeters_keep_target [of "''dgw''"])
  show "target_ok Mainnet (hdr_Bits demo_tip)" by code_simp
qed (simp_all add: GetRetargeter_def params_ok_networks)

text \<open>Bitcoin's retarget is damped: it never raises the target by more than a factor of four and, up to the
  rounding of the compact form, never lowers it below a quarter, also when timestamps are extreme.\<close>

theorem bitcoin_retarget_damped:
  assumes "params_ok p" "target_ok p (hdr_Bits tip)" "4 dvd dur_secs (par_TargetTimespan p)" "\<not> par_NoRetarget p"
    and "bitcoin_CalcNextBits tip tipHeight getAncestor p = Some bits"
  defines "old \<equiv> CompactToBig (hdr_Bits tip)"
  shows "old div 4 - old div 4 div 2 ^ 15 \<le> CompactToBig bits \<and> CompactToBig bits \<le> 4 * old"
proof -
  define T where "T = dur_secs (par_TargetTimespan p)"
  from assms have T: "0 < T" "4 dvd T" and old: "0 < old" "old \<le> CompactToBig (par_MinBits p)"
    by (auto simp: params_ok_def target_ok_def T_def old_def)
  have keep: "old div 4 - old div 4 div 2 ^ 15 \<le> old \<and> old \<le> 4 * old"
  proof -
    have "0 \<le> old div 4 div 2 ^ 15" using old(1) by (simp add: pos_imp_zdiv_nonneg_iff)
    moreover have "old div 4 \<le> old" using old(1) by linarith
    ultimately show ?thesis using old(1) by linarith
  qed
  consider "bits = hdr_Bits tip"
    | a where "T sdiv 4 \<le> a" "a \<le> T * 4" "finish_target p (old * a) T = Some bits"
  proof -
    have le: "T sdiv 4 \<le> T * 4" using T(1) by (simp add: sdiv_pos)
    from bitcoin_CalcNextBits_cases [OF assms(5,4), folded T_def old_def] show ?thesis
      by (elim disjE exE finish_clamped [OF le]) (rule that, assumption+)+
  qed
  then show ?thesis
  proof cases
    case 1
    with keep show ?thesis by (simp add: old_def)
  next
    case 2
    from T have "T sdiv 4 * 4 = T" by (simp add: sdiv_pos)
    then have q: "T \<le> a * 4" using 2(1) by linarith
    have a: "0 < a" using q T(1) by linarith
    have lo: "old div 4 \<le> old * a div T"
    proof -
      have "old * T \<le> old * (a * 4)" using q old(1) by simp
      then have "old * T div (4 * T) \<le> old * (a * 4) div (4 * T)" using T(1) by (intro zdiv_mono1) auto
      then show ?thesis using T(1) by (simp add: mult.assoc [symmetric])
    qed
    have hi: "old * a div T \<le> 4 * old"
    proof -
      have "old * a \<le> 4 * old * T" using 2(2) old(1) by (simp add: mult.commute mult.left_commute)
      then have "old * a div T \<le> 4 * old * T div T" using T(1) by (intro zdiv_mono1) auto
      then show ?thesis using T(1) by simp
    qed
    have "old div 4 \<le> CompactToBig (par_MinBits p)" using old by linarith
    then show ?thesis using finish_target_range [OF 2(3) T(1) _ lo hi] old a by simp
  qed
qed

theorem bitcoin_retarget_damped_witness:
  "\<exists>bits. bitcoin_CalcNextBits demo_tip 143 (\<lambda>h. Some demo_tip) Mainnet = Some bits
     \<and> CompactToBig bits \<le> 4 * CompactToBig 0x1e7ce359"
proof -
  obtain bits where b: "bitcoin_CalcNextBits demo_tip 143 (\<lambda>h. Some demo_tip) Mainnet = Some bits"
    using bitcoin_rt.returns [OF params_ok_networks(1)] by blast
  have "target_ok Mainnet (hdr_Bits demo_tip)" "4 dvd dur_secs (par_TargetTimespan Mainnet)" "\<not> par_NoRetarget Mainnet"
    by code_simp+
  from bitcoin_retarget_damped [OF params_ok_networks(1) this b] b show ?thesis by (auto simp: demo_tip_def)
qed

text \<open>On a chain whose blocks arrive exactly on schedule with constant bits, Dark Gravity Wave keeps the
  bits, provided they are in the normal form of \<^verbatim>\<open>BigToCompact\<close>.\<close>

theorem dgw_steady:
  assumes "params_ok p" "target_ok p (hdr_Bits tip)" "\<not> par_NoRetarget p" "par_RetargetInterval p \<le> tipHeight"
    and "\<And>h. \<exists>x. getAncestor h = Some x \<and> hdr_Bits x = hdr_Bits tip"
    and "getAncestor (tipHeight - par_RetargetInterval p) = Some first"
    and "uint (hdr_Timestamp tip) - uint (hdr_Timestamp first)
      = uint (par_RetargetInterval p) * dur_secs (par_TargetBlockSpacing p)"
    and "BigToCompact (CompactToBig (hdr_Bits tip)) = hdr_Bits tip"
  shows "dgw_CalcNextBits tip tipHeight getAncestor p = Some (hdr_Bits tip)"
proof -
  define N where "N = uint (par_RetargetInterval p)"
  define T where "T = dur_secs (par_TargetBlockSpacing p)"
  define t where "t = CompactToBig (hdr_Bits tip)"
  note P = params_ok_products [OF assms(1), folded N_def T_def]
  have T: "0 < T" using assms(1) by (simp add: params_ok_def T_def)
  have NT: "0 < N * T" using P(1) T by simp
  have tall: "\<not> tipHeight < par_RetargetInterval p" using assms(4) by simp
  have sum: "dgw_sum (unat (par_RetargetInterval p)) (Some tip) tipHeight getAncestor 0 = Some (N * t)"
    using dgw_sum_const [of getAncestor t tip "unat (par_RetargetInterval p)" tipHeight 0] assms(5)
    by (fastforce simp: t_def N_def)
  have three: "i64 (N * T * 3) = N * T * 3"
  proof (rule i64_small)
    have "N * T \<le> 4096 * 86400" using P(1,2) T assms(1) by (intro mult_mono) (auto simp: params_ok_def T_def)
    then show "N * T * 3 < 2 ^ 63" by simp
  qed (use NT in simp)
  have "N * T div 3 \<le> N * T" using NT by linarith
  then have clamp: "\<not> N * T < N * T sdiv 3" "\<not> N * T > N * T * 3"
    using NT by (simp_all add: sdiv_pos)
  have fin: "finish_target p (t * (N * T)) (N * T) = Some (hdr_Bits tip)"
    using finish_target_value [of "N * T" "t * (N * T)" p] NT assms(2,8) by (auto simp: t_def target_ok_def)
  have avg: "big_Div (N * t) N = t" using P(1) by (simp add: big_Div_def)
  have N0: "par_RetargetInterval p \<noteq> 0" using assms(1) by (auto simp: params_ok_def)
  show ?thesis
    unfolding dgw_CalcNextBits_def Let_def T_def [symmetric] N_def [symmetric] sum
    using assms(3) tall N0 clamp fin by (simp add: assms(6,7) N_def [symmetric] T_def [symmetric] avg P(4) three)
qed

definition demo_bits :: u32 where
  "demo_bits = BigToCompact (2 ^ 200)"

lemma demo_bits_ok: "BigToCompact (CompactToBig demo_bits) = demo_bits" "target_ok Mainnet demo_bits"
proof -
  have "2 ^ 200 \<le> CompactToBig (par_MinBits Mainnet)" by code_simp
  then show "BigToCompact (CompactToBig demo_bits) = demo_bits" "target_ok Mainnet demo_bits"
    using compact_round_trip [of "2 ^ 200"] by (simp_all add: demo_bits_def target_ok_def)
qed

definition demo_header :: "u32 \<Rightarrow> BlockHeader" where
  "demo_header h = (blk_Header zero_block)\<lparr>hdr_Bits := demo_bits, hdr_Timestamp := 1000000 + 600 * h\<rparr>"

theorem dgw_steady_witness:
  "dgw_CalcNextBits (demo_header 200) 200 (\<lambda>h. Some (demo_header h)) Mainnet = Some demo_bits"
proof -
  have "dgw_CalcNextBits (demo_header 200) 200 (\<lambda>h. Some (demo_header h)) Mainnet = Some (hdr_Bits (demo_header 200))"
  proof (rule dgw_steady [OF params_ok_networks(1)])
    show "target_ok Mainnet (hdr_Bits (demo_header 200))"
      "BigToCompact (CompactToBig (hdr_Bits (demo_header 200))) = hdr_Bits (demo_header 200)"
      using demo_bits_ok by (simp_all add: demo_header_def)
    show "uint (hdr_Timestamp (demo_header 200)) - uint (hdr_Timestamp (demo_header (200 - par_RetargetInterval Mainnet)))
       = uint (par_RetargetInterval Mainnet) * dur_secs (par_TargetBlockSpacing Mainnet)"
      by (simp add: demo_header_def Mainnet_def dur_secs_def signed_divide_int_def)
  qed (simp_all add: demo_header_def Mainnet_def)
  then show ?thesis by (simp add: demo_header_def)
qed

text \<open>LWMA on a chain that is exactly on schedule with constant bits of target \<open>t\<close> asks next for the target
  \<open>100 * t div 99\<close> (up to \<^verbatim>\<open>MinBits\<close>): the factor 99/100 raises the target and so lowers the
  difficulty.\<close>

theorem lwma_on_schedule:
  assumes "params_ok p" "\<not> par_NoRetarget p" "par_RetargetInterval p \<le> tipHeight" "0 < t"
    and "\<And>h. \<exists>x. getAncestor h = Some x \<and> CompactToBig (hdr_Bits x) = t"
    and "\<And>j x. j \<le> unat (par_RetargetInterval p) \<Longrightarrow>
      getAncestor (tipHeight - par_RetargetInterval p + of_nat j) = Some x \<Longrightarrow>
      uint (hdr_Timestamp x) = start + int j * dur_secs (par_TargetBlockSpacing p)"
  shows "lwma_CalcNextBits tip tipHeight getAncestor p
     = Some (BigToCompact (min (100 * t div 99) (CompactToBig (par_MinBits p))))"
proof -
  define n where "n = unat (par_RetargetInterval p)"
  define N where "N = uint (par_RetargetInterval p)"
  define T where "T = dur_secs (par_TargetBlockSpacing p)"
  have tall: "\<not> tipHeight < par_RetargetInterval p" using assms(3) by simp
  have Nn: "N = int n" by (simp only: N_def n_def uint_nat)
  note P = params_ok_products [OF assms(1), folded N_def T_def]
  have T: "0 < T" "T \<le> 86400" using assms(1) by (auto simp: params_ok_def T_def)
  obtain hs where hs: "window_headers (n + 1) (tipHeight - par_RetargetInterval p) getAncestor = Some hs"
    using window_headers_total [of getAncestor "n + 1"] assms(5) by fastforce
  note w = window_headers_const [OF hs]
  have at: "uint (hdr_Timestamp (hs ! j)) = start + int j * T" "CompactToBig (hdr_Bits (hs ! j)) = t" if "j \<le> n" for j
  proof -
    have g: "getAncestor (tipHeight - par_RetargetInterval p + of_nat j) = Some (hs ! j)" using w that by simp
    show "uint (hdr_Timestamp (hs ! j)) = start + int j * T"
      using assms(6) [OF _ g] that by (simp add: n_def T_def)
    show "CompactToBig (hdr_Bits (hs ! j)) = t" using assms(5) g by (metis option.inject)
  qed
  have len: "length (tl hs) = n" "hs \<noteq> []" using w by auto
  have gauss: "2 * (\<Sum>j < n. 1 + int j) = N * (N + 1)"
    unfolding Nn by (induction n) (simp_all add: algebra_simps)
  define S where "S = T * (\<Sum>j < n. 1 + int j)"
  have S2: "2 * S = T * (N * (N + 1))" unfolding S_def gauss [symmetric] by simp
  have nn: "N * (N + 1) \<le> 4096 * 4097" using P(1,2) by (intro mult_mono) auto
  have LT: "T * (N * (N + 1)) \<le> 86400 * (4096 * 4097)" using mult_mono [OF T(2) nn] T(1) P(1) by simp
  have Lpos: "0 \<le> T * (N * (N + 1))" using T P(1) by simp
  have S63: "S < 2 ^ 63" using S2 LT by simp
  have loop: "lwma_loop (6 * T) 1 (uint (hdr_Timestamp (hd hs))) 0 0 (tl hs) = (T * (\<Sum>j < n. 1 + int j), N * t)"
  proof -
    have "lwma_loop (6 * T) 1 start 0 0 (tl hs)
        = (0 + T * (\<Sum>j < length (tl hs). 1 + int j), 0 + int (length (tl hs)) * t)"
    proof (rule lwma_loop_steady)
      fix j assume "j < length (tl hs)"
      then show "uint (hdr_Timestamp (tl hs ! j)) = start + (int j + 1) * T \<and> CompactToBig (hdr_Bits (tl hs ! j)) = t"
        using at [of "Suc j"] len by (simp add: nth_tl algebra_simps)
    next
      show "0 + T * (\<Sum>j < length (tl hs). 1 + int j) < 2 ^ 63" using S63 unfolding S_def len(1) by simp
    qed (use T in simp_all)
    moreover have "uint (hdr_Timestamp (hd hs)) = start" using at(1) [of 0] len(2) by (simp add: hd_conv_nth)
    ultimately show ?thesis using len by (simp add: Nn)
  qed
  have minL: "\<not> S < i64 (N * N * T) sdiv 20"
  proof -
    have "N * N * T = T * (N * N)" by simp
    also have "\<dots> \<le> T * (N * (N + 1))" using T P(1) by (intro mult_left_mono) auto
    finally have le: "N * N * T \<le> 2 * S" using S2 by simp
    have "0 \<le> N * N * T" using T P(1) by simp
    moreover have "i64 (N * N * T) = N * N * T" using le S2 LT \<open>0 \<le> N * N * T\<close> by (intro i64_small) auto
    ultimately show ?thesis using le by (simp add: sdiv_pos)
  qed
  have num: "i64 (200 * S) = 100 * (T * (N * (N + 1)))"
  proof -
    have "0 \<le> 200 * S" "200 * S \<le> 100 * (86400 * (4096 * 4097))" using S2 LT Lpos by linarith+
    then have "i64 (200 * S) = 200 * S" by (intro i64_small) simp_all
    with S2 show ?thesis by linarith
  qed
  have K: "0 < N * N * (N + 1) * T" using T P(1) by simp
  have "N * t * (100 * (T * (N * (N + 1)))) = (N * N * (N + 1) * T) * (100 * t)" by (simp add: algebra_simps)
  moreover have "(N * N * (N + 1) * T) * (100 * t) div ((N * N * (N + 1) * T) * 99) = 100 * t div 99"
    by (rule div_mult_mult1) (use K in linarith)
  ultimately have q: "N * t * (100 * (T * (N * (N + 1)))) div (N * N * (N + 1) * T * 99) = 100 * t div 99" by argo
  have fin: "finish_target p (N * t * (100 * (T * (N * (N + 1))))) (N * N * (N + 1) * T * 99)
      = Some (BigToCompact (min (100 * t div 99) (CompactToBig (par_MinBits p))))"
  proof -
    have "max 1 (100 * t div 99) = 100 * t div 99" using assms(4) by linarith
    with finish_target_value [of "N * N * (N + 1) * T * 99" "N * t * (100 * (T * (N * (N + 1))))" p] P(1,6) assms(4) T q
    show ?thesis by auto
  qed
  show ?thesis
    unfolding lwma_CalcNextBits_def Let_def T_def [symmetric] N_def [symmetric] n_def [symmetric] hs option.case loop
      S_def [symmetric]
    using assms(2) tall fin minL by (simp add: P(3,5) num)
qed

lemma demo_header_time:
  "j \<le> 144 \<Longrightarrow> uint (hdr_Timestamp (demo_header (56 + of_nat j))) = 1033600 + int j * 600"
proof -
  assume "j \<le> 144"
  then have "unat (1000000 + 600 * (56 + of_nat j) :: u32) = 1033600 + j * 600"
    by (simp add: unat_word_ariths unat_of_nat)
  then show ?thesis unfolding uint_nat by (simp add: demo_header_def)
qed

theorem lwma_on_schedule_witness:
  "lwma_CalcNextBits (demo_header 200) 200 (\<lambda>h. Some (demo_header h)) Mainnet
     = Some (BigToCompact (min (100 * CompactToBig demo_bits div 99) (CompactToBig (par_MinBits Mainnet))))"
proof (rule lwma_on_schedule [OF params_ok_networks(1), where start = 1033600])
  show "0 < CompactToBig demo_bits" using demo_bits_ok(2) by (simp add: target_ok_def)
  have w: "200 - par_RetargetInterval Mainnet = 56" "unat (par_RetargetInterval Mainnet) = 144"
    "dur_secs (par_TargetBlockSpacing Mainnet) = 600"
    by (simp_all add: Mainnet_def dur_secs_def signed_divide_int_def)
  fix j x
  assume "j \<le> unat (par_RetargetInterval Mainnet)"
    "Some (demo_header (200 - par_RetargetInterval Mainnet + of_nat j)) = Some x"
  then show "uint (hdr_Timestamp x) = 1033600 + int j * dur_secs (par_TargetBlockSpacing Mainnet)"
    using demo_header_time [of j] unfolding w by simp
qed (simp_all add: demo_header_def Mainnet_def)

end
