(* ===== verification/Peer.thy ===== *)
theory Peer
  imports Protocol NetAddr Difficulty
begin

text \<open>
  One connection (\<^verbatim>\<open>internal/p2p/peer.go\<close>) and the bounded sets of hashes (\<^verbatim>\<open>boundedHashSet\<close> of \<^verbatim>\<open>internal/p2p/manager.go\<close>):
  liveness, misbehaviour score, rate limits, known inventory, the bounded send queue and the framing of messages. Times are
  nanoseconds of the Unix clock and an argument of the operations that read it; \<^verbatim>\<open>time.Time{}\<close> is \<open>zero_time\<close>, and
  differences saturate as \<^verbatim>\<open>time.Sub\<close> does. The socket is the bytes that are left to read, or the bytes written. A
  \<^verbatim>\<open>select\<close> with several ready cases takes any of them: the choice is an argument.
\<close>

section \<open>Time\<close>

definition zero_time :: int where
  "zero_time = - 62135596800 * Second"

definition time_sub :: "int \<Rightarrow> int \<Rightarrow> int" where
  "time_sub t u = max (- (2 ^ 63)) (min (2 ^ 63 - 1) (t - u))"

definition unix_time :: "int \<Rightarrow> int" where
  "unix_time t = t div Second"

section \<open>Bounded sets of hashes\<close>

record boundedHashSet =
  bhs_items :: "hash set"
  bhs_order :: "hash list"
  bhs_cap :: nat

definition newBoundedHashSet :: "nat \<Rightarrow> boundedHashSet" where
  "newBoundedHashSet capacity = \<lparr>bhs_items = {}, bhs_order = [], bhs_cap = capacity\<rparr>"

text \<open>The loop of \<^verbatim>\<open>evictUntilSpace\<close>; the compaction after it copies the slice and changes nothing of its contents.\<close>

fun evict_loop :: "nat \<Rightarrow> hash set \<Rightarrow> hash list \<Rightarrow> hash set \<times> hash list" where
  "evict_loop limit items [] = (items, [])"
| "evict_loop limit items (h # order) =
     (if card items \<ge> limit then evict_loop limit (items - {h}) order else (items, h # order))"

definition evictUntilSpace :: "boundedHashSet \<Rightarrow> boundedHashSet" where
  "evictUntilSpace s =
     (let (items, order) = evict_loop (bhs_cap s) (bhs_items s) (bhs_order s) in s\<lparr>bhs_items := items, bhs_order := order\<rparr>)"

definition hashset_insert :: "hash \<Rightarrow> boundedHashSet \<Rightarrow> boundedHashSet" where
  "hashset_insert h s =
     (let s = evictUntilSpace s in s\<lparr>bhs_items := insert h (bhs_items s), bhs_order := bhs_order s @ [h]\<rparr>)"

definition hashset_Add :: "hash \<Rightarrow> boundedHashSet \<Rightarrow> boundedHashSet" where
  "hashset_Add h s = (if h \<in> bhs_items s then s else hashset_insert h s)"

definition hashset_Has :: "boundedHashSet \<Rightarrow> hash \<Rightarrow> bool" where
  "hashset_Has s h \<longleftrightarrow> h \<in> bhs_items s"

definition hashset_AddOrHas :: "hash \<Rightarrow> boundedHashSet \<Rightarrow> bool \<times> boundedHashSet" where
  "hashset_AddOrHas h s = (if h \<in> bhs_items s then (True, s) else (False, hashset_insert h s))"

definition hashset_Remove :: "hash \<Rightarrow> boundedHashSet \<Rightarrow> boundedHashSet" where
  "hashset_Remove h s = s\<lparr>bhs_items := bhs_items s - {h}\<rparr>"

section \<open>The connection\<close>

type_synonym outMsg = "string \<times> bytes"

record Peer =
  pr_addr :: string
  pr_inbound :: bool
  pr_magic :: bytes
  pr_id :: "32 word"
  pr_connType :: string
  pr_version :: "VersionMsg option"
  pr_connectedAt :: int
  pr_lastRecv :: int
  pr_lastSend :: int
  pr_pingNonce :: u64
  pr_pingSent :: int
  pr_lastPong :: int
  pr_pingLatency :: int
  pr_minPingLatency :: int
  pr_lastBlockTime :: int
  pr_lastTxTime :: int
  pr_syncedHeaders :: "32 word"
  pr_syncedBlocks :: "32 word"
  pr_prefersHeaders :: bool
  pr_headersReceived :: "32 word"
  pr_banScore :: "32 word"
  pr_msgCount :: "32 word"
  pr_windowStart :: int
  pr_getaddrResponded :: bool
  pr_lastGetHeadersResp :: int
  pr_lastGetBlocksResp :: int
  pr_knownInv :: boundedHashSet
  pr_sendQueue :: "outMsg list"
  pr_bytesRecv :: int
  pr_bytesSent :: int
  pr_done :: bool

abbreviation (input) peerSendQueueSize :: nat where "peerSendQueueSize \<equiv> 1024"
abbreviation (input) PongTimeout :: int where "PongTimeout \<equiv> 20 * 60 * Second"
abbreviation (input) BanThreshold :: "32 word" where "BanThreshold \<equiv> 100"
abbreviation (input) BanDuration :: int where "BanDuration \<equiv> 24 * 3600 * Second"
abbreviation (input) RateLimitWindow :: int where "RateLimitWindow \<equiv> 10 * Second"
abbreviation (input) RateLimitMaxMsgs :: "32 word" where "RateLimitMaxMsgs \<equiv> 500"
abbreviation (input) MinPeerProtoVersion :: u32 where "MinPeerProtoVersion \<equiv> 4"
abbreviation (input) MaxPeerStartHeight :: u32 where "MaxPeerStartHeight \<equiv> 100000000"

definition NewPeer :: "string \<Rightarrow> bool \<Rightarrow> bytes \<Rightarrow> int \<Rightarrow> Peer" where
  "NewPeer remoteAddr inbound magic now =
     \<lparr>pr_addr = remoteAddr, pr_inbound = inbound, pr_magic = magic, pr_id = 0,
      pr_connType = (if inbound then ''inbound'' else ''outbound-full-relay''), pr_version = None,
      pr_connectedAt = now, pr_lastRecv = unix_time now, pr_lastSend = unix_time now,
      pr_pingNonce = 0, pr_pingSent = zero_time, pr_lastPong = now, pr_pingLatency = 0, pr_minPingLatency = 0,
      pr_lastBlockTime = 0, pr_lastTxTime = 0, pr_syncedHeaders = - 1, pr_syncedBlocks = - 1, pr_prefersHeaders = False,
      pr_headersReceived = 0, pr_banScore = 0, pr_msgCount = 0, pr_windowStart = now, pr_getaddrResponded = False,
      pr_lastGetHeadersResp = zero_time, pr_lastGetBlocksResp = zero_time, pr_knownInv = newBoundedHashSet 10000,
      pr_sendQueue = [], pr_bytesRecv = 0, pr_bytesSent = 0, pr_done = False\<rparr>"

definition SetVersion :: "VersionMsg option \<Rightarrow> Peer \<Rightarrow> Peer" where
  "SetVersion v p = p\<lparr>pr_version := v\<rparr>"

definition SetStartHeightIfGreater :: "u32 \<Rightarrow> Peer \<Rightarrow> Peer" where
  "SetStartHeightIfGreater height p =
     (case pr_version p of
        None \<Rightarrow> p
      | Some v \<Rightarrow> if height > vm_StartHeight v then p\<lparr>pr_version := Some (v\<lparr>vm_StartHeight := height\<rparr>)\<rparr> else p)"

definition BestHeight :: "Peer \<Rightarrow> u32" where
  "BestHeight p = (case pr_version p of None \<Rightarrow> 0 | Some v \<Rightarrow> vm_StartHeight v)"

definition stampRecv :: "int \<Rightarrow> Peer \<Rightarrow> Peer" where
  "stampRecv now p = p\<lparr>pr_lastRecv := unix_time now\<rparr>"

definition stampSend :: "int \<Rightarrow> Peer \<Rightarrow> Peer" where
  "stampSend now p = p\<lparr>pr_lastSend := unix_time now\<rparr>"

definition SetPingNonce :: "u64 \<Rightarrow> int \<Rightarrow> Peer \<Rightarrow> Peer" where
  "SetPingNonce nonce now p = p\<lparr>pr_pingNonce := nonce, pr_pingSent := now\<rparr>"

definition HandlePong :: "u64 \<Rightarrow> int \<Rightarrow> Peer \<Rightarrow> bool \<times> Peer" where
  "HandlePong nonce now p =
     (if pr_pingNonce p = 0 \<or> nonce \<noteq> pr_pingNonce p then (False, p)
      else let latency = time_sub now (pr_pingSent p) in
        (True, p\<lparr>pr_pingLatency := latency,
                 pr_minPingLatency := (if pr_minPingLatency p = 0 \<or> latency < pr_minPingLatency p then latency else pr_minPingLatency p),
                 pr_lastPong := now, pr_pingNonce := 0\<rparr>))"

definition PongOverdue :: "int \<Rightarrow> Peer \<Rightarrow> bool" where
  "PongOverdue now p \<longleftrightarrow> pr_pingNonce p \<noteq> 0 \<and> time_sub now (pr_pingSent p) > PongTimeout"

definition SetID :: "32 word \<Rightarrow> Peer \<Rightarrow> Peer" where
  "SetID i p = p\<lparr>pr_id := i\<rparr>"

definition SetConnType :: "string \<Rightarrow> Peer \<Rightarrow> Peer" where
  "SetConnType t p = p\<lparr>pr_connType := t\<rparr>"

definition StampLastBlock :: "int \<Rightarrow> Peer \<Rightarrow> Peer" where
  "StampLastBlock now p = p\<lparr>pr_lastBlockTime := unix_time now\<rparr>"

definition StampLastTx :: "int \<Rightarrow> Peer \<Rightarrow> Peer" where
  "StampLastTx now p = p\<lparr>pr_lastTxTime := unix_time now\<rparr>"

definition SetSyncedHeaders :: "32 word \<Rightarrow> Peer \<Rightarrow> Peer" where
  "SetSyncedHeaders h p = p\<lparr>pr_syncedHeaders := h\<rparr>"

definition SetSyncedBlocks :: "32 word \<Rightarrow> Peer \<Rightarrow> Peer" where
  "SetSyncedBlocks h p = p\<lparr>pr_syncedBlocks := h\<rparr>"

definition SetPrefersHeaders :: "bool \<Rightarrow> Peer \<Rightarrow> Peer" where
  "SetPrefersHeaders v p = p\<lparr>pr_prefersHeaders := v\<rparr>"

definition AddHeadersReceived :: "32 word \<Rightarrow> Peer \<Rightarrow> 32 word \<times> Peer" where
  "AddHeadersReceived n p = (pr_headersReceived p + n, p\<lparr>pr_headersReceived := pr_headersReceived p + n\<rparr>)"

definition AddBanScore :: "32 word \<Rightarrow> Peer \<Rightarrow> 32 word \<times> Peer" where
  "AddBanScore delta p = (pr_banScore p + delta, p\<lparr>pr_banScore := pr_banScore p + delta\<rparr>)"

definition CheckRateLimit :: "int \<Rightarrow> Peer \<Rightarrow> bool \<times> Peer" where
  "CheckRateLimit now p =
     (let p = (if time_sub now (pr_windowStart p) > RateLimitWindow then p\<lparr>pr_msgCount := 0, pr_windowStart := now\<rparr> else p);
          p = p\<lparr>pr_msgCount := pr_msgCount p + 1\<rparr>
      in (pr_msgCount p \<le>s RateLimitMaxMsgs, p))"

definition MarkGetAddrResponded :: "Peer \<Rightarrow> bool \<times> Peer" where
  "MarkGetAddrResponded p = (if pr_getaddrResponded p then (False, p) else (True, p\<lparr>pr_getaddrResponded := True\<rparr>))"

definition CheckGetHeadersThrottle :: "int \<Rightarrow> Peer \<Rightarrow> bool \<times> Peer" where
  "CheckGetHeadersThrottle now p =
     (if time_sub now (pr_lastGetHeadersResp p) < 2 * Second then (False, p) else (True, p\<lparr>pr_lastGetHeadersResp := now\<rparr>))"

definition CheckGetBlocksThrottle :: "int \<Rightarrow> Peer \<Rightarrow> bool \<times> Peer" where
  "CheckGetBlocksThrottle now p =
     (if time_sub now (pr_lastGetBlocksResp p) < 5 * Second then (False, p) else (True, p\<lparr>pr_lastGetBlocksResp := now\<rparr>))"

definition AddKnownInventory :: "hash \<Rightarrow> Peer \<Rightarrow> Peer" where
  "AddKnownInventory h p = p\<lparr>pr_knownInv := hashset_Add h (pr_knownInv p)\<rparr>"

definition HasKnownInventory :: "Peer \<Rightarrow> hash \<Rightarrow> bool" where
  "HasKnownInventory p h = hashset_Has (pr_knownInv p) h"

section \<open>Sending\<close>

text \<open>A send is ready while the queue has room, and \<^verbatim>\<open>done\<close> is ready once the peer is closed. \<open>pick\<close> is what the
  \<^verbatim>\<open>select\<close> takes when both are: true for the send.\<close>

definition TrySendMessage :: "bool \<Rightarrow> string \<Rightarrow> bytes \<Rightarrow> Peer \<Rightarrow> bool \<times> Peer" where
  "TrySendMessage pick cmd payload p =
     (if length (pr_sendQueue p) < peerSendQueueSize \<and> (pr_done p \<longrightarrow> pick)
      then (True, p\<lparr>pr_sendQueue := pr_sendQueue p @ [(cmd, payload)]\<rparr>) else (False, p))"

definition SendMessage :: "bool \<Rightarrow> string \<Rightarrow> bytes \<Rightarrow> Peer \<Rightarrow> Peer" where
  "SendMessage pick cmd payload p =
     (if length (pr_sendQueue p) < peerSendQueueSize \<and> (pr_done p \<longrightarrow> pick)
      then p\<lparr>pr_sendQueue := pr_sendQueue p @ [(cmd, payload)]\<rparr> else p)"

text \<open>\<^verbatim>\<open>SendCritical\<close> waits up to two seconds for room. \<open>freed\<close> is the number of messages the writer takes off a full queue
  in that time.\<close>

definition SendCritical :: "bool \<Rightarrow> nat \<Rightarrow> string \<Rightarrow> bytes \<Rightarrow> Peer \<Rightarrow> Peer" where
  "SendCritical pick freed cmd payload p =
     (if length (pr_sendQueue p) < peerSendQueueSize then SendMessage pick cmd payload p
      else if pr_done p then p
      else SendMessage pick cmd payload (p\<lparr>pr_sendQueue := drop freed (pr_sendQueue p)\<rparr>))"

definition SendLowPriority :: "bool \<Rightarrow> string \<Rightarrow> bytes \<Rightarrow> Peer \<Rightarrow> Peer" where
  "SendLowPriority pick cmd payload p =
     (if length (pr_sendQueue p) > peerSendQueueSize div 2 then p else SendMessage pick cmd payload p)"

definition Peer_Close :: "Peer \<Rightarrow> Peer" where
  "Peer_Close p = p\<lparr>pr_done := True\<rparr>"

text \<open>One round of \<^verbatim>\<open>WriteLoop\<close>, when it takes a message: the bytes that go out if both writes work. \<open>ok\<close> is false when a
  write fails, and the peer is closed.\<close>

definition WriteLoop_round :: "bool \<Rightarrow> int \<Rightarrow> Peer \<Rightarrow> bytes \<times> Peer" where
  "WriteLoop_round ok now p =
     (case pr_sendQueue p of
        [] \<Rightarrow> ([], p)
      | (cmd, payload) # q \<Rightarrow>
          let p = p\<lparr>pr_sendQueue := q\<rparr> in
          if \<not> ok then ([], Peer_Close p)
          else (EncodeMessageHeader (pr_magic p) (str_bytes cmd) payload @ payload,
                stampSend now (p\<lparr>pr_bytesSent := pr_bytesSent p + int (MessageHeaderSize + length payload)\<rparr>)))"

section \<open>Receiving\<close>

definition doubleSHA256First4 :: "bytes \<Rightarrow> bytes" where
  "doubleSHA256First4 data = (let first = Sum256 data; second = Sum256 first in take 4 second)"

datatype read_error =
    ReadHeader decode_error
  | BadMagic bytes
  | ShortPayload nat u32
  | ChecksumMismatch

text \<open>\<open>bs\<close> are the bytes the connection still delivers before it ends or times out.\<close>

definition ReadMessage :: "int \<Rightarrow> bytes \<Rightarrow> Peer \<Rightarrow> read_error + (MessageHeader \<times> bytes \<times> bytes \<times> Peer)" where
  "ReadMessage now bs p =
     (case DecodeMessageHeader bs of
        Inl e \<Rightarrow> Inl (ReadHeader e)
      | Inr (hdr, bs) \<Rightarrow>
          if mh_Magic hdr \<noteq> pr_magic p then Inl (BadMagic (mh_Magic hdr))
          else let payload = take (unat (mh_Length hdr)) bs in
            if of_nat (length payload) \<noteq> mh_Length hdr then Inl (ShortPayload (length payload) (mh_Length hdr))
            else if mh_Checksum hdr \<noteq> doubleSHA256First4 payload then Inl ChecksumMismatch
            else Inr (hdr, payload, drop (unat (mh_Length hdr)) bs,
                      stampRecv now (p\<lparr>pr_bytesRecv := pr_bytesRecv p + int (MessageHeaderSize + length payload)\<rparr>)))"

section \<open>Snapshot\<close>

text \<open>\<^verbatim>\<open>Info\<close>, with the ping times as nanoseconds instead of floating-point seconds and without the local address of the
  socket.\<close>

record PeerInfo =
  pi_ID :: "32 word"
  pi_Addr :: string
  pi_Network :: string
  pi_Services :: u64
  pi_LastSend :: int
  pi_LastRecv :: int
  pi_LastTransaction :: int
  pi_LastBlock :: int
  pi_BytesSent :: int
  pi_BytesRecv :: int
  pi_ConnTime :: int
  pi_PingTime :: int
  pi_MinPing :: int
  pi_Version :: u32
  pi_SubVer :: bytes
  pi_Inbound :: bool
  pi_StartingHeight :: "32 word"
  pi_SyncedHeaders :: "32 word"
  pi_SyncedBlocks :: "32 word"
  pi_BanScore :: "32 word"
  pi_PrefersHeaders :: bool
  pi_ConnectionType :: string

definition Info :: "Peer \<Rightarrow> PeerInfo" where
  "Info p =
     \<lparr>pi_ID = pr_id p, pi_Addr = pr_addr p, pi_Network = classifyNetwork (pr_addr p),
      pi_Services = (case pr_version p of None \<Rightarrow> 0 | Some v \<Rightarrow> vm_Services v),
      pi_LastSend = pr_lastSend p, pi_LastRecv = pr_lastRecv p, pi_LastTransaction = pr_lastTxTime p,
      pi_LastBlock = pr_lastBlockTime p, pi_BytesSent = pr_bytesSent p, pi_BytesRecv = pr_bytesRecv p,
      pi_ConnTime = unix_time (pr_connectedAt p),
      pi_PingTime = (if pr_pingLatency p > 0 then pr_pingLatency p else 0),
      pi_MinPing = (if pr_minPingLatency p > 0 then pr_minPingLatency p else 0),
      pi_Version = (case pr_version p of None \<Rightarrow> 0 | Some v \<Rightarrow> vm_Version v),
      pi_SubVer = (case pr_version p of None \<Rightarrow> [] | Some v \<Rightarrow> vm_UserAgent v),
      pi_Inbound = pr_inbound p,
      pi_StartingHeight = (case pr_version p of None \<Rightarrow> 0 | Some v \<Rightarrow> vm_StartHeight v),
      pi_SyncedHeaders = pr_syncedHeaders p, pi_SyncedBlocks = pr_syncedBlocks p, pi_BanScore = pr_banScore p,
      pi_PrefersHeaders = pr_prefersHeaders p, pi_ConnectionType = pr_connType p\<rparr>"

section \<open>Well-formed connections\<close>

definition hs_ok :: "nat \<Rightarrow> boundedHashSet \<Rightarrow> bool" where
  "hs_ok n s \<longleftrightarrow> bhs_cap s = n \<and> 0 < n \<and> finite (bhs_items s) \<and> bhs_items s \<subseteq> set (bhs_order s) \<and> card (bhs_items s) \<le> n"

lemma hs_ok_new: "0 < n \<Longrightarrow> hs_ok n (newBoundedHashSet n)"
  by (simp add: hs_ok_def newBoundedHashSet_def)

lemma evict_loop_spec:
  "evict_loop n items order = (items', order') \<Longrightarrow> 0 < n \<Longrightarrow> finite items \<Longrightarrow> items \<subseteq> set order \<Longrightarrow>
   items' \<subseteq> items \<and> items' \<subseteq> set order' \<and> card items' < n \<and> (card items < n \<longrightarrow> items' = items)
   \<and> (card items \<le> n \<longrightarrow> card (items - items') \<le> 1)"
proof (induction n items order arbitrary: items' order' rule: evict_loop.induct)
  case (2 n items h order)
  show ?case
  proof (cases "card items \<ge> n")
    case True
    with 2 have IH: "items' \<subseteq> items - {h} \<and> items' \<subseteq> set order' \<and> card items' < n \<and> (card (items - {h}) < n \<longrightarrow> items' = items - {h})
      \<and> (card (items - {h}) \<le> n \<longrightarrow> card (items - {h} - items') \<le> 1)"
      by auto
    have "card (items - items') \<le> 1" if "card items \<le> n"
    proof (cases "h \<in> items")
      case True
      then have "card (items - {h}) < n" using that card_Diff1_less [of items h] \<open>finite items\<close> by linarith
      then have "items - items' \<subseteq> {h}" using IH by blast
      then show ?thesis using card_mono [of "{h}" "items - items'"] by simp
    next
      case False
      then have "items - {h} - items' = items - items'" "items - {h} = items" by auto
      then show ?thesis using IH that by auto
    qed
    with IH True show ?thesis by auto
  qed (use 2 in auto)
qed auto

lemma evictUntilSpace_spec:
  assumes "hs_ok n s"
  shows "bhs_items (evictUntilSpace s) \<subseteq> bhs_items s" "bhs_items (evictUntilSpace s) \<subseteq> set (bhs_order (evictUntilSpace s))"
    "card (bhs_items (evictUntilSpace s)) < n" "card (bhs_items s) < n \<Longrightarrow> bhs_items (evictUntilSpace s) = bhs_items s"
    "card (bhs_items s - bhs_items (evictUntilSpace s)) \<le> 1" "bhs_cap (evictUntilSpace s) = n"
  using evict_loop_spec [of n "bhs_items s" "bhs_order s"] assms
  by (auto simp: hs_ok_def evictUntilSpace_def split: prod.splits)

lemma hashset_insert_ok:
  assumes "hs_ok n s"
  shows "hs_ok n (hashset_insert h s)"
proof -
  note e = evictUntilSpace_spec [OF assms]
  have "finite (bhs_items (evictUntilSpace s))" using e(1) assms finite_subset by (auto simp: hs_ok_def)
  then show ?thesis using e assms by (auto simp: hs_ok_def hashset_insert_def Let_def card_insert_if)
qed

lemma hashset_ok [simp]:
  assumes "hs_ok n s"
  shows "hs_ok n (hashset_Add h s)" "hs_ok n (snd (hashset_AddOrHas h s))" "hs_ok n (hashset_Remove h s)"
  using assms hashset_insert_ok [OF assms] card_Diff1_le [of "bhs_items s" h]
  by (auto simp: hashset_Add_def hashset_AddOrHas_def hashset_Remove_def hs_ok_def)

lemma hashset_Remove_list_ok: "hs_ok n s \<Longrightarrow> hs_ok n (fold hashset_Remove hs s)"
  by (induction hs arbitrary: s) simp_all

definition peer_ok :: "Peer \<Rightarrow> bool" where
  "peer_ok p \<longleftrightarrow> hs_ok 10000 (pr_knownInv p) \<and> length (pr_sendQueue p) \<le> peerSendQueueSize"

lemma peer_ok_new: "peer_ok (NewPeer addr inb magic now)"
  by (simp add: peer_ok_def NewPeer_def hs_ok_new)

text \<open>\<open>harmless f\<close>: the operation keeps the peer well-formed and does not change its address or forget its version.\<close>

definition harmless :: "(Peer \<Rightarrow> Peer) \<Rightarrow> bool" where
  "harmless f \<longleftrightarrow> (\<forall>p. peer_ok p \<longrightarrow> peer_ok (f p) \<and> pr_addr (f p) = pr_addr p \<and> (pr_version p \<noteq> None \<longrightarrow> pr_version (f p) \<noteq> None))"

lemma harmless_comp: "harmless f \<Longrightarrow> harmless g \<Longrightarrow> harmless (\<lambda>p. f (g p))"
  by (simp add: harmless_def)

lemma harmless_fold: "(\<And>x. harmless (f x)) \<Longrightarrow> harmless (fold f xs)"
proof (induction xs)
  case (Cons x xs)
  then show ?case using harmless_comp [of "fold f xs" "f x"] by (simp add: comp_def)
qed (simp add: harmless_def)

lemma harmless_ops [simp]:
  "harmless (SetStartHeightIfGreater h)" "harmless (SetPingNonce n now)" "harmless (SetID i)" "harmless (SetConnType t)"
  "harmless (StampLastBlock now)" "harmless (StampLastTx now)" "harmless (SetSyncedHeaders w)" "harmless (SetSyncedBlocks w)"
  "harmless (SetPrefersHeaders b)" "harmless (AddKnownInventory k)" "harmless Peer_Close" "harmless (stampRecv now)"
  by (simp_all add: harmless_def peer_ok_def SetStartHeightIfGreater_def SetPingNonce_def SetID_def SetConnType_def StampLastBlock_def
      StampLastTx_def SetSyncedHeaders_def SetSyncedBlocks_def SetPrefersHeaders_def AddKnownInventory_def Peer_Close_def stampRecv_def
      split: option.splits)

lemma harmless_version [simp]: "harmless (SetVersion (Some v))"
  by (simp add: harmless_def peer_ok_def SetVersion_def)

lemma harmless_send [simp]:
  "harmless (\<lambda>p. SendMessage (pick p) cmd payload p)" "harmless (\<lambda>p. SendLowPriority (pick p) cmd payload p)"
  "harmless (\<lambda>p. SendCritical (pick p) (freed p) cmd payload p)"
  by (auto simp: harmless_def peer_ok_def SendMessage_def SendLowPriority_def SendCritical_def)

text \<open>The operations that also give a result.\<close>

lemma harmless_results:
  assumes "peer_ok p"
  shows "TrySendMessage pick cmd payload p = (b, q) \<Longrightarrow> peer_ok q \<and> pr_addr q = pr_addr p \<and> pr_version q = pr_version p"
    "AddBanScore d p = (w, q) \<Longrightarrow> peer_ok q \<and> pr_addr q = pr_addr p \<and> pr_version q = pr_version p"
    "AddHeadersReceived d p = (w, q) \<Longrightarrow> peer_ok q \<and> pr_addr q = pr_addr p \<and> pr_version q = pr_version p"
    "CheckRateLimit now p = (b, q) \<Longrightarrow> peer_ok q \<and> pr_addr q = pr_addr p \<and> pr_version q = pr_version p"
    "MarkGetAddrResponded p = (b, q) \<Longrightarrow> peer_ok q \<and> pr_addr q = pr_addr p \<and> pr_version q = pr_version p"
    "CheckGetHeadersThrottle now p = (b, q) \<Longrightarrow> peer_ok q \<and> pr_addr q = pr_addr p \<and> pr_version q = pr_version p"
    "CheckGetBlocksThrottle now p = (b, q) \<Longrightarrow> peer_ok q \<and> pr_addr q = pr_addr p \<and> pr_version q = pr_version p"
    "HandlePong n now p = (b, q) \<Longrightarrow> peer_ok q \<and> pr_addr q = pr_addr p \<and> pr_version q = pr_version p"
    "ReadMessage now bs p = Inr (hdr, payload, rest, q) \<Longrightarrow> peer_ok q \<and> pr_addr q = pr_addr p \<and> pr_version q = pr_version p"
  using assms
  by (auto simp: peer_ok_def TrySendMessage_def AddBanScore_def AddHeadersReceived_def CheckRateLimit_def MarkGetAddrResponded_def
      CheckGetHeadersThrottle_def CheckGetBlocksThrottle_def HandlePong_def ReadMessage_def stampRecv_def Let_def
      split: if_splits sum.splits prod.splits)

section \<open>Behaviour of the bounded sets\<close>

text \<open>A hash that is removed leaves its entry in the order. The order grows with every round of adding and removing, and a
  hash that is added again can be evicted through its stale entry before older ones.\<close>

lemma order_grows: "length (bhs_order (((\<lambda>s. hashset_Remove h (hashset_Add h s)) ^^ k) (newBoundedHashSet 10000))) = k"
proof -
  have "((\<lambda>s. hashset_Remove h (hashset_Add h s)) ^^ k) (newBoundedHashSet 10000) = \<lparr>bhs_items = {}, bhs_order = replicate k h, bhs_cap = 10000\<rparr>"
  proof (induction k)
    case (Suc k)
    have e: "evict_loop 10000 {} (replicate k h) = ({}, replicate k h)" by (cases k) simp_all
    show ?case
      unfolding funpow.simps comp_def Suc.IH
      by (simp add: hashset_Add_def hashset_Remove_def hashset_insert_def evictUntilSpace_def e replicate_append_same)
  qed (simp add: newBoundedHashSet_def)
  then show ?thesis by simp
qed

lemma early_eviction:
  assumes "distinct [a, b, c]"
  shows "bhs_items (hashset_Add c (hashset_Add a (hashset_Add b (hashset_Remove a (hashset_Add a (newBoundedHashSet 2)))))) = {b, c}"
  using assms
  by (auto simp: newBoundedHashSet_def hashset_Add_def hashset_Remove_def hashset_insert_def evictUntilSpace_def numeral_2_eq_2 card_insert_if)

section \<open>Framing\<close>

definition sendable :: "outMsg \<Rightarrow> bool" where
  "sendable msg \<longleftrightarrow> length (fst msg) \<le> 12 \<and> CHR 0x00 \<notin> set (fst msg) \<and> length (snd msg) \<le> 4194304"

definition wire_msg :: "bytes \<Rightarrow> outMsg \<Rightarrow> bytes" where
  "wire_msg magic msg = EncodeMessageHeader magic (str_bytes (fst msg)) (snd msg) @ snd msg"

lemma str_bytes_sel [simp]: "length (str_bytes s) = length s" "str_bytes [] = []"
  by (simp_all add: str_bytes_def)

lemma str_byte: "unat (of_char c :: byte) = of_char c"
proof -
  have "unat (of_char c :: byte) = unat (of_nat (of_char c) :: byte)" by (simp only: of_nat_of_char)
  also have "\<dots> = of_char c" using nat_of_char_less_256 [of c] by (simp only: unat_of_nat) simp
  finally show ?thesis .
qed

lemma str_bytes_zero: "0 \<in> set (str_bytes s) \<longleftrightarrow> CHR 0x00 \<in> set s"
proof -
  have "(of_char c :: byte) = 0 \<longleftrightarrow> c = CHR 0x00" for c
  proof -
    have "(of_char c :: byte) = 0 \<longleftrightarrow> (of_char c :: nat) = of_char (CHR 0x00)" by (simp add: str_byte flip: unat_eq_0)
    also have "\<dots> \<longleftrightarrow> c = CHR 0x00" by (metis char_of_char)
    finally show ?thesis .
  qed
  then show ?thesis by (auto simp: str_bytes_def image_iff)
qed

lemma read_wire:
  assumes "sendable msg" "length magic = 4" "pr_magic q = magic"
  shows "\<exists>hdr q'. ReadMessage now (wire_msg magic msg @ rest) q = Inr (hdr, snd msg, rest, q')
    \<and> CommandString hdr = str_bytes (fst msg) \<and> pr_magic q' = magic"
proof -
  let ?p = "snd msg" and ?c = "str_bytes (fst msg)"
  have "length ?c \<le> 12" "0 \<notin> set ?c" "length ?p < 2 ^ 32" "length ?p \<le> 4194304"
    using assms(1) by (auto simp: sendable_def str_bytes_zero)
  with header_roundtrip [OF assms(2) this(1-3), of "?p @ rest"] obtain hdr
    where h: "DecodeMessageHeader (EncodeMessageHeader magic ?c ?p @ ?p @ rest) = Inr (hdr, ?p @ rest)"
      "mh_Magic hdr = magic" "CommandString hdr = ?c" "unat (mh_Length hdr) = length ?p"
      "mh_Checksum hdr = take 4 (hash_bytes (DoubleSHA256 ?p))" by auto
  have l: "of_nat (length ?p) = mh_Length hdr" using h(4) by (simp flip: h(4))
  have s: "doubleSHA256First4 ?p = take 4 (hash_bytes (DoubleSHA256 ?p))"
    by (simp add: doubleSHA256First4_def DoubleSHA256_def hash_bytes_hash_copy Let_def)
  show ?thesis using h l s assms(3) by (simp add: ReadMessage_def wire_msg_def stampRecv_def Let_def)
qed

text \<open>The writer empties the queue in rounds; the reader takes messages off the stream until it cannot.\<close>

primrec write_rounds :: "int \<Rightarrow> nat \<Rightarrow> Peer \<Rightarrow> bytes \<times> Peer" where
  "write_rounds now 0 p = ([], p)"
| "write_rounds now (Suc n) p =
     (let (out, p) = WriteLoop_round True now p; (outs, p) = write_rounds now n p in (out @ outs, p))"

primrec read_rounds :: "int \<Rightarrow> nat \<Rightarrow> bytes \<Rightarrow> Peer \<Rightarrow> (bytes \<times> bytes) list" where
  "read_rounds now 0 bs q = []"
| "read_rounds now (Suc n) bs q =
     (case ReadMessage now bs q of
        Inl e \<Rightarrow> []
      | Inr (hdr, payload, rest, q) \<Rightarrow> (CommandString hdr, payload) # read_rounds now n rest q)"

lemma write_rounds_wire:
  "write_rounds now (length (pr_sendQueue p)) p = (outs, p') \<Longrightarrow>
   outs = concat (map (wire_msg (pr_magic p)) (pr_sendQueue p)) \<and> pr_sendQueue p' = []"
proof (induction "pr_sendQueue p" arbitrary: p outs)
  case (Cons msg q)
  obtain cmd payload where msg: "msg = (cmd, payload)" by fastforce
  have round: "WriteLoop_round True now p = (wire_msg (pr_magic p) msg, snd (WriteLoop_round True now p))"
    "pr_sendQueue (snd (WriteLoop_round True now p)) = q" "pr_magic (snd (WriteLoop_round True now p)) = pr_magic p"
    by (simp_all add: WriteLoop_round_def Cons.hyps(2) [symmetric] msg wire_msg_def stampSend_def Let_def)
  obtain outs' where w: "write_rounds now (length q) (snd (WriteLoop_round True now p)) = (outs', p')"
    and o: "outs = wire_msg (pr_magic p) msg @ outs'"
    using Cons.prems round(1) unfolding Cons.hyps(2) [symmetric]
    by (cases "write_rounds now (length q) (snd (WriteLoop_round True now p))") (auto split: prod.splits)
  from Cons.hyps(1) [of "snd (WriteLoop_round True now p)" outs'] w round(2,3) o Cons.hyps(2) [symmetric] show ?case by simp
qed simp

text \<open>C19. What a peer queues arrives: when the writer of one node has sent its whole queue, its queue is empty and the reader of the other node,
  with the same magic, takes exactly the queued commands and payloads off the stream, in their order, followed by whatever
  comes after.\<close>

theorem stream_roundtrip:
  assumes "\<forall>msg \<in> set (pr_sendQueue p). sendable msg" "length (pr_magic p) = 4" "pr_magic q = pr_magic p"
    and "write_rounds now (length (pr_sendQueue p)) p = (outs, p')"
  shows "pr_sendQueue p' = [] \<and>
    read_rounds now (length (pr_sendQueue p)) (outs @ rest) q = map (\<lambda>(cmd, payload). (str_bytes cmd, payload)) (pr_sendQueue p)"
proof -
  have "read_rounds now (length ms) (concat (map (wire_msg magic) ms) @ rest) q = map (\<lambda>(cmd, payload). (str_bytes cmd, payload)) ms"
    if "\<forall>msg \<in> set ms. sendable msg" "length magic = 4" "pr_magic q = magic" for ms magic q
    using that
  proof (induction ms arbitrary: q)
    case (Cons msg ms)
    from read_wire [of msg magic q now "concat (map (wire_msg magic) ms) @ rest"] Cons.prems obtain hdr q'
      where r: "ReadMessage now (wire_msg magic msg @ concat (map (wire_msg magic) ms) @ rest) q
          = Inr (hdr, snd msg, concat (map (wire_msg magic) ms) @ rest, q')"
        "CommandString hdr = str_bytes (fst msg)" "pr_magic q' = magic" by auto
    with Cons show ?case by (cases msg) simp
  qed simp
  then show ?thesis using write_rounds_wire [OF assms(4)] assms(1-3) by simp
qed

definition demo_peer :: Peer where
  "demo_peer = SendMessage True ''pong'' [1, 2] (SendMessage True ''verack'' [] (NewPeer ''1.2.3.4:5'' True [250, 191, 181, 218] 0))"

theorem stream_roundtrip_witness:
  "\<exists>outs p'. write_rounds 0 2 demo_peer = (outs, p') \<and> pr_sendQueue p' = []
     \<and> read_rounds 0 2 (outs @ [7]) demo_peer = [(str_bytes ''verack'', []), (str_bytes ''pong'', [1, 2])]"
proof -
  have q: "pr_sendQueue demo_peer = [(''verack'', []), (''pong'', [1, 2])]" "length (pr_magic demo_peer) = 4"
    by (simp_all add: demo_peer_def SendMessage_def NewPeer_def)
  obtain outs p' where w: "write_rounds 0 (length (pr_sendQueue demo_peer)) demo_peer = (outs, p')" by fastforce
  have "\<forall>msg \<in> set (pr_sendQueue demo_peer). sendable msg" by (simp add: q sendable_def)
  from stream_roundtrip [OF this q(2) refl w, of "[7]"] w show ?thesis by (simp add: q numeral_2_eq_2)
qed

end
