(* ===== verification/Pow.thy ===== *)
theory Pow
  imports Difficulty
begin

text \<open>
  The proof-of-work engine (\<^verbatim>\<open>internal/consensus/pow/engine.go\<close>). The hash algorithm and the difficulty
  algorithm are fields of the engine, as they are in the code. A result of \<open>None\<close> is a run-time panic
  (a retarget interval of zero). Headers are passed by pointer in Go; a function that changes its
  header returns the changed one.
\<close>

section \<open>Engine and expected bits\<close>

record Engine =
  eng_hasher :: "bytes \<Rightarrow> hash"
  eng_retargeter :: "BlockHeader \<Rightarrow> u32 \<Rightarrow> ancestors \<Rightarrow> ChainParams \<Rightarrow> u32 option"

definition CalcBlockWeight :: "Engine \<Rightarrow> BlockHeader \<Rightarrow> int" where
  "CalcBlockWeight e header = CalcWork (hdr_Bits header)"

text \<open>
  The backward scan over minimum-difficulty blocks; \<open>None\<close> is the \<^verbatim>\<open>scan == nil\<close> exit of the loop.
\<close>

function scan_back :: "ChainParams \<Rightarrow> ancestors \<Rightarrow> u32 \<Rightarrow> BlockHeader \<Rightarrow> BlockHeader option" where
  "scan_back p getAncestor scanHeight scan =
     (if scanHeight > 0 \<and> scanHeight mod par_RetargetInterval p \<noteq> 0 \<and> hdr_Bits scan = par_MinBits p then
        (case getAncestor (scanHeight - 1) of
           None \<Rightarrow> None
         | Some scan' \<Rightarrow> scan_back p getAncestor (scanHeight - 1) scan')
      else Some scan)"
  by pat_completeness auto
termination
proof (relation "measure (\<lambda>(p, ga, h, s). unat h)")
  fix p and getAncestor :: ancestors and scanHeight :: u32 and scan scan' :: BlockHeader
  assume "scanHeight > 0 \<and> scanHeight mod par_RetargetInterval p \<noteq> 0 \<and> hdr_Bits scan = par_MinBits p"
  then have "scanHeight \<noteq> 0" by auto
  then show "((p, getAncestor, scanHeight - 1, scan'), p, getAncestor, scanHeight, scan)
      \<in> measure (\<lambda>(p, ga, h, s). unat h)"
    by (simp add: unat_minus_one unat_gt_0)
qed simp

declare scan_back.simps [simp del]

definition calcExpectedBits ::
  "Engine \<Rightarrow> BlockHeader \<Rightarrow> BlockHeader \<Rightarrow> u32 \<Rightarrow> ancestors \<Rightarrow> ChainParams \<Rightarrow> u32 option" where
  "calcExpectedBits e header parent height getAncestor p =
     (let hasActivation = par_ActivationHeights p ''mindiffblocks'' in
      if \<not> par_AllowMinDifficultyBlocks p \<or> hasActivation = None \<or> height < the hasActivation
        then eng_retargeter e parent (height - 1) getAncestor p
      else let minDiffGap = dur_secs (par_TargetBlockSpacing p) * 2 in
      if uint (hdr_Timestamp header) - uint (hdr_Timestamp parent) > minDiffGap then Some (par_MinBits p)
      else if par_RetargetInterval p = 0 then None
      else if height mod par_RetargetInterval p = 0 then eng_retargeter e parent (height - 1) getAncestor p
      else (case scan_back p getAncestor (height - 1) parent of
              Some scan \<Rightarrow> Some (hdr_Bits scan)
            | None \<Rightarrow> Some (hdr_Bits parent)))"

section \<open>Validation\<close>

datatype engine_error =
    ErrPrevBlockMismatch hash hash
  | ErrIncorrectBits u32 u32 u32
  | ErrPow u32 pow_error
  | ErrDividePanic

definition ValidateHeader ::
  "Engine \<Rightarrow> BlockHeader \<Rightarrow> BlockHeader \<Rightarrow> u32 \<Rightarrow> ancestors \<Rightarrow> ChainParams \<Rightarrow> engine_error + unit" where
  "ValidateHeader e header parent height getAncestor p =
     (let parentHash = HashBlockHeader parent in
      if hdr_PrevBlock header \<noteq> parentHash then Inl (ErrPrevBlockMismatch (hdr_PrevBlock header) parentHash)
      else (case calcExpectedBits e header parent height getAncestor p of
         None \<Rightarrow> Inl ErrDividePanic
       | Some expectedBits \<Rightarrow>
           if hdr_Bits header \<noteq> expectedBits then Inl (ErrIncorrectBits height (hdr_Bits header) expectedBits)
           else let powHash = eng_hasher e (BlockHeader_Serialize header)
                in map_err (ErrPow height) (ValidateProofOfWork powHash (hdr_Bits header))))"

definition ValidateBlock :: "Engine \<Rightarrow> Block \<Rightarrow> u32 \<Rightarrow> ChainParams \<Rightarrow> block_error + unit" where
  "ValidateBlock e block height p = ValidateBlockStructure block height p None None"

definition CalcNextBits :: "Engine \<Rightarrow> BlockHeader \<Rightarrow> u32 \<Rightarrow> ancestors \<Rightarrow> ChainParams \<Rightarrow> u32 option" where
  "CalcNextBits e tip tipHeight getAncestor p = eng_retargeter e tip tipHeight getAncestor p"

section \<open>Mining\<close>

definition PrepareHeader ::
  "Engine \<Rightarrow> BlockHeader \<Rightarrow> BlockHeader \<Rightarrow> u32 \<Rightarrow> ancestors \<Rightarrow> ChainParams \<Rightarrow> BlockHeader option" where
  "PrepareHeader e header parent parentHeight getAncestor p =
     map_option (\<lambda>bits. header\<lparr>hdr_Bits := bits\<rparr>) (calcExpectedBits e header parent (parentHeight + 1) getAncestor p)"

text \<open>The loops of \<^verbatim>\<open>SealHeader\<close> and \<^verbatim>\<open>SealHeaderCounted\<close>, with the iterations left as first argument.\<close>

primrec seal_loop :: "nat \<Rightarrow> Engine \<Rightarrow> hash \<Rightarrow> BlockHeader \<Rightarrow> bool \<times> BlockHeader" where
  "seal_loop 0 e target header = (False, header)"
| "seal_loop (Suc n) e target header =
     (let h = eng_hasher e (BlockHeader_Serialize header) in
      if Hash_LessOrEqual h target then (True, header)
      else let header = header\<lparr>hdr_Nonce := hdr_Nonce header + 1\<rparr> in
      if hdr_Nonce header = 0 then (False, header) else seal_loop n e target header)"

definition SealHeader :: "Engine \<Rightarrow> BlockHeader \<Rightarrow> hash \<Rightarrow> u64 \<Rightarrow> bool \<times> BlockHeader" where
  "SealHeader e header target maxIterations = seal_loop (unat maxIterations) e target header"

primrec seal_counted_loop :: "nat \<Rightarrow> u64 \<Rightarrow> u64 \<Rightarrow> Engine \<Rightarrow> hash \<Rightarrow> BlockHeader \<Rightarrow> bool \<times> u64 \<times> BlockHeader" where
  "seal_counted_loop 0 i maxIterations e target header = (False, maxIterations, header)"
| "seal_counted_loop (Suc n) i maxIterations e target header =
     (let h = eng_hasher e (BlockHeader_Serialize header) in
      if Hash_LessOrEqual h target then (True, i + 1, header)
      else let header = header\<lparr>hdr_Nonce := hdr_Nonce header + 1\<rparr> in
      if hdr_Nonce header = 0 then (False, i + 1, header)
      else seal_counted_loop n (i + 1) maxIterations e target header)"

definition SealHeaderCounted :: "Engine \<Rightarrow> BlockHeader \<Rightarrow> hash \<Rightarrow> u64 \<Rightarrow> bool \<times> u64 \<times> BlockHeader" where
  "SealHeaderCounted e header target maxIterations =
     seal_counted_loop (unat maxIterations) 0 maxIterations e target header"

text \<open>The unbounded nonce loop of \<^verbatim>\<open>MineGenesis\<close>; \<open>None\<close> is the exhausted nonce space.\<close>

function mine_loop :: "Engine \<Rightarrow> hash \<Rightarrow> BlockHeader \<Rightarrow> BlockHeader option" where
  "mine_loop e target header =
     (if Hash_LessOrEqual (eng_hasher e (BlockHeader_Serialize header)) target then Some header
      else if hdr_Nonce header + 1 = 0 then None
      else mine_loop e target (header\<lparr>hdr_Nonce := hdr_Nonce header + 1\<rparr>))"
  by pat_completeness auto
termination
proof (relation "measure (\<lambda>(e, t, h). 2 ^ 32 - unat (hdr_Nonce h))")
  fix e and target :: hash and header :: BlockHeader
  assume "hdr_Nonce header + 1 \<noteq> 0"
  then have "unat (hdr_Nonce header + 1) = unat (hdr_Nonce header) + 1"
    by (metis Suc_eq_plus1 add.commute unatSuc)
  moreover have "unat (hdr_Nonce header) < 2 ^ 32" using unsigned_less [of "hdr_Nonce header"] by simp
  ultimately show "((e, target, header\<lparr>hdr_Nonce := hdr_Nonce header + 1\<rparr>), e, target, header)
      \<in> measure (\<lambda>(e, t, h). 2 ^ 32 - unat (hdr_Nonce h))" by simp
qed simp

declare mine_loop.simps [simp del]

definition MineGenesis :: "Engine \<Rightarrow> Block \<Rightarrow> string + Block" where
  "MineGenesis e block =
     (let merkle = ComputeMerkleRoot (blk_Transactions block);
          header = (blk_Header block)\<lparr>hdr_MerkleRoot := merkle\<rparr>;
          target = CompactToHash (hdr_Bits header)
      in case mine_loop e target header of
           None \<Rightarrow> Inl ''nonce space exhausted without finding valid genesis''
         | Some header \<Rightarrow> Inr (block\<lparr>blk_Header := header\<rparr>))"

section \<open>The nonce search\<close>

definition at_nonce :: "BlockHeader \<Rightarrow> nat \<Rightarrow> BlockHeader" where
  "at_nonce h k = h\<lparr>hdr_Nonce := hdr_Nonce h + of_nat k\<rparr>"

definition meets :: "Engine \<Rightarrow> hash \<Rightarrow> BlockHeader \<Rightarrow> bool" where
  "meets e target h \<longleftrightarrow> Hash_LessOrEqual (eng_hasher e (BlockHeader_Serialize h)) target"

text \<open>\<open>first_nonce e t h m k\<close>: \<open>k\<close> steps from the header's nonce is the first solution, found within \<open>m\<close>.\<close>

definition first_nonce :: "Engine \<Rightarrow> hash \<Rightarrow> BlockHeader \<Rightarrow> nat \<Rightarrow> nat \<Rightarrow> bool" where
  "first_nonce e t h m k \<longleftrightarrow> k < m \<and> meets e t (at_nonce h k) \<and> (\<forall>j < k. \<not> meets e t (at_nonce h j))"

lemma pow_ok_iff: "ValidateProofOfWork h bits = Inr () \<longleftrightarrow> HashToBig h \<le> CompactToBig bits"
  using CompactToBig_bounds [of bits] hash_nat_CompactToHash [of bits]
  by (auto simp: ValidateProofOfWork_def Let_def Hash_LessOrEqual_nat HashToBig_nat)

lemma exists_least_lt:
  fixes k :: nat
  assumes "k < m" "P k"
  shows "\<exists>k < m. P k \<and> (\<forall>j < k. \<not> P j)"
proof -
  have "(LEAST k. P k) < m" using Least_le [of P k] assms by linarith
  moreover have "P (LEAST k. P k)" using assms(2) by (rule LeastI)
  ultimately show ?thesis using not_less_Least by blast
qed

lemma hash_nat_ZeroHash: "hash_nat ZeroHash = 0"
  by code_simp

lemma at_nonce_0 [simp]: "at_nonce h 0 = h"
  by (simp add: at_nonce_def)

lemma at_nonce_step: "at_nonce (h\<lparr>hdr_Nonce := hdr_Nonce h + 1\<rparr>) k = at_nonce h (Suc k)"
  by (simp add: at_nonce_def add.assoc)

lemma first_nonce_0: "meets e t h \<Longrightarrow> first_nonce e t h m k \<longleftrightarrow> k = 0 \<and> 0 < m"
  by (cases k) (auto simp: first_nonce_def)

lemma first_nonce_Suc:
  assumes "\<not> meets e t h"
  shows "first_nonce e t h (Suc m) k \<longleftrightarrow>
     (\<exists>k'. k = Suc k' \<and> first_nonce e t (h\<lparr>hdr_Nonce := hdr_Nonce h + 1\<rparr>) m k')"
proof (cases k)
  case 0
  with assms show ?thesis by (simp add: first_nonce_def)
next
  case (Suc k')
  have "(\<forall>j < Suc k'. \<not> meets e t (at_nonce h j)) \<longleftrightarrow> (\<forall>j < k'. \<not> meets e t (at_nonce h (Suc j)))"
    using assms by (auto simp: less_Suc_eq_0_disj)
  with Suc show ?thesis by (simp add: first_nonce_def at_nonce_step)
qed

lemma nonce_room:
  fixes h :: BlockHeader
  defines "h' \<equiv> h\<lparr>hdr_Nonce := hdr_Nonce h + 1\<rparr>"
  shows "hdr_Nonce h + 1 = 0 \<Longrightarrow> 2 ^ 32 - unat (hdr_Nonce h) = Suc 0"
    "hdr_Nonce h + 1 \<noteq> 0 \<Longrightarrow> 2 ^ 32 - unat (hdr_Nonce h) = Suc (2 ^ 32 - unat (hdr_Nonce h'))"
proof -
  have lt: "unat (hdr_Nonce h) < 2 ^ 32" using unsigned_less [of "hdr_Nonce h"] by simp
  show "2 ^ 32 - unat (hdr_Nonce h) = Suc 0" if z: "hdr_Nonce h + 1 = 0"
  proof -
    have "hdr_Nonce h = - 1" using z by (simp add: eq_neg_iff_add_eq_0)
    then show ?thesis by (simp add: unsigned_minus_1_eq_mask mask_eq_exp_minus_1)
  qed
  show "2 ^ 32 - unat (hdr_Nonce h) = Suc (2 ^ 32 - unat (hdr_Nonce h'))" if "hdr_Nonce h + 1 \<noteq> 0"
  proof -
    have "unat (hdr_Nonce h + 1) = Suc (unat (hdr_Nonce h))" using that by (metis add.commute unatSuc)
    with lt show ?thesis by (simp add: h'_def Suc_diff_Suc)
  qed
qed

lemma seal_counted_loop_seal: "map_prod id snd (seal_counted_loop n i m e t h) = seal_loop n e t h"
  by (induction n arbitrary: i h) (simp_all add: Let_def)

lemma seal_counted_loop_iff:
  "seal_counted_loop n i m e t h = (True, c, h') \<longleftrightarrow>
     (\<exists>k. first_nonce e t h (min n (2 ^ 32 - unat (hdr_Nonce h))) k \<and> c = i + of_nat k + 1 \<and> h' = at_nonce h k)"
proof (induction n arbitrary: i h)
  case 0
  show ?case by (simp add: first_nonce_def)
next
  case (Suc n)
  let ?h = "h\<lparr>hdr_Nonce := hdr_Nonce h + 1\<rparr>"
  have room: "0 < (2 :: nat) ^ 32 - unat (hdr_Nonce h)" using unsigned_less [of "hdr_Nonce h"] by simp
  show ?case
  proof (cases "meets e t h")
    case True
    with room show ?thesis by (auto simp: first_nonce_0 meets_def)
  next
    case False
    note step = first_nonce_Suc [OF False]
    show ?thesis
    proof (cases "hdr_Nonce h + 1 = 0")
      case True
      have "\<not> first_nonce e t h (Suc 0) k" for k using step [of 0] by (simp add: first_nonce_def)
      with True False nonce_room(1) [OF True] show ?thesis by (simp add: meets_def Let_def min_def)
    next
      case nz: False
      have m: "min (Suc n) (2 ^ 32 - unat (hdr_Nonce h)) = Suc (min n (2 ^ 32 - unat (hdr_Nonce ?h)))"
        unfolding nonce_room(2) [OF nz] by simp
      have "seal_counted_loop (Suc n) i m e t h = seal_counted_loop n (i + 1) m e t ?h"
        using False nz by (simp add: meets_def Let_def)
      then show ?thesis unfolding m step
        by (auto simp: Suc.IH at_nonce_step add.assoc add.left_commute)
    qed
  qed
qed

lemma mine_loop_seal:
  "mine_loop e t h = (let (found, h') = seal_loop (2 ^ 32 - unat (hdr_Nonce h)) e t h in if found then Some h' else None)"
proof (induction e t h rule: mine_loop.induct)
  case (1 e t h)
  let ?h = "h\<lparr>hdr_Nonce := hdr_Nonce h + 1\<rparr>"
  have "0 < (2 :: nat) ^ 32 - unat (hdr_Nonce h)" using unsigned_less [of "hdr_Nonce h"] by simp
  then obtain r where r: "2 ^ 32 - unat (hdr_Nonce h) = Suc r" using gr0_implies_Suc by blast
  show ?case
  proof (cases "Hash_LessOrEqual (eng_hasher e (BlockHeader_Serialize h)) t \<or> hdr_Nonce h + 1 = 0")
    case True
    then show ?thesis unfolding r by (subst mine_loop.simps) (auto simp: Let_def)
  next
    case False
    with nonce_room(2) [of h] r have "r = 2 ^ 32 - unat (hdr_Nonce ?h)" by simp
    with False 1 show ?thesis unfolding r by (subst mine_loop.simps) (simp add: Let_def)
  qed
qed

section \<open>Expected bits\<close>

lemma scan_back_keeps:
  "(\<And>h x. ga h = Some x \<Longrightarrow> P x) \<Longrightarrow> P s \<Longrightarrow> scan_back p ga h s = Some r \<Longrightarrow> P r"
proof (induction p ga h s rule: scan_back.induct)
  case (1 p ga h s)
  show ?case
  proof (cases "h > 0 \<and> h mod par_RetargetInterval p \<noteq> 0 \<and> hdr_Bits s = par_MinBits p")
    case True
    with "1.prems"(3) obtain x where x: "ga (h - 1) = Some x" "scan_back p ga (h - 1) x = Some r"
      by (subst (asm) scan_back.simps) (auto split: option.splits)
    show ?thesis by (rule "1.IH" [OF True x(1) "1.prems"(1) "1.prems"(1) [OF x(1)] x(2)])
  next
    case False
    with "1.prems"(2,3) show ?thesis by (subst (asm) scan_back.simps) auto
  qed
qed

text \<open>\<open>last_real p chain upper h\<close>: going down from \<open>upper\<close>, \<open>h\<close> is the first height that is 0, at a retarget
  boundary or not at minimum difficulty.\<close>

definition last_real :: "ChainParams \<Rightarrow> (u32 \<Rightarrow> BlockHeader) \<Rightarrow> u32 \<Rightarrow> u32 \<Rightarrow> bool" where
  "last_real p chain upper h \<longleftrightarrow> h \<le> upper
     \<and> (h = 0 \<or> h mod par_RetargetInterval p = 0 \<or> hdr_Bits (chain h) \<noteq> par_MinBits p)
     \<and> (\<forall>k. h < k \<and> k \<le> upper \<longrightarrow> k mod par_RetargetInterval p \<noteq> 0 \<and> hdr_Bits (chain k) = par_MinBits p)"

lemma last_real_self:
  "h = 0 \<or> h mod par_RetargetInterval p = 0 \<or> hdr_Bits (chain h) \<noteq> par_MinBits p \<Longrightarrow> last_real p chain h h"
  unfolding last_real_def by (metis leD order_refl)

lemma last_real_step:
  assumes "h \<noteq> 0" "h mod par_RetargetInterval p \<noteq> 0" "hdr_Bits (chain h) = par_MinBits p" "last_real p chain (h - 1) h'"
  shows "last_real p chain h h'"
proof -
  have le: "k \<le> h - 1 \<longleftrightarrow> k < h" for k
    using assms(1) unat_gt_0 [of h] by (auto simp: word_le_nat_alt word_less_nat_alt unat_minus_one)
  show ?thesis using assms(2-4) unfolding last_real_def le by (metis le_less)
qed

lemma scan_back_total:
  "\<exists>h'. scan_back p (\<lambda>h. Some (chain h)) h (chain h) = Some (chain h') \<and> last_real p chain h h'"
proof (induction "unat h" arbitrary: h)
  case 0
  then have "h = 0" by (simp add: unat_eq_zero)
  then show ?case by (subst scan_back.simps) (auto intro: last_real_self)
next
  case (Suc n)
  then have h0: "h \<noteq> 0" by auto
  with Suc(2) have n: "n = unat (h - 1)" by (simp add: unat_minus_one)
  show ?case
  proof (cases "h mod par_RetargetInterval p \<noteq> 0 \<and> hdr_Bits (chain h) = par_MinBits p")
    case True
    with Suc(1) [OF n] h0 show ?thesis
      by (subst scan_back.simps) (auto simp: word_gt_0 intro: last_real_step)
  next
    case False
    then have "last_real p chain h h" by (intro last_real_self) blast
    moreover from False have "scan_back p (\<lambda>h. Some (chain h)) h (chain h) = Some (chain h)"
      by (subst scan_back.simps) (rule if_not_P, blast)
    ultimately show ?thesis by blast
  qed
qed

text \<open>What the engine adds to the contract of its difficulty algorithm.\<close>

context retargeter
begin

lemma calcExpectedBits_ok:
  assumes "eng_retargeter e = calc" "params_ok p" "target_ok p (hdr_Bits parent)"
    and "\<And>h x. getAncestor h = Some x \<Longrightarrow> target_ok p (hdr_Bits x)"
  shows "\<exists>bits. calcExpectedBits e header parent height getAncestor p = Some bits \<and> target_ok p bits"
proof -
  have rt: "\<exists>bits. calc parent (height - 1) getAncestor p = Some bits \<and> target_ok p bits"
    using returns [OF assms(2)] keeps_target [OF assms(2,3)] by blast
  have min: "target_ok p (par_MinBits p)" using params_ok_max [OF assms(2)] by (simp add: target_ok_def)
  have scan: "target_ok p (hdr_Bits r)" if "scan_back p getAncestor (height - 1) parent = Some r" for r
    using scan_back_keeps [of getAncestor "\<lambda>x. target_ok p (hdr_Bits x)", OF assms(4) assms(3) that] .
  have "par_RetargetInterval p \<noteq> 0" using assms(2) by (auto simp: params_ok_def)
  then show ?thesis using rt min scan assms(1,3)
    by (auto simp: calcExpectedBits_def Let_def split: option.splits)
qed

end

lemma calcExpectedBits_header_time:
  "hdr_Timestamp h = hdr_Timestamp h' \<Longrightarrow>
     calcExpectedBits e h parent height ga p = calcExpectedBits e h' parent height ga p"
  unfolding calcExpectedBits_def by (rule arg_cong) simp

lemma SealHeader_found:
  assumes "SealHeader e header target n = (True, header')"
  shows "\<exists>k. header' = at_nonce header k \<and> meets e target header'"
proof -
  obtain f c h where w: "seal_counted_loop (unat n) 0 n e target header = (f, c, h)" by (metis surj_pair)
  with assms seal_counted_loop_seal [of "unat n" 0 n e target header]
  have "seal_counted_loop (unat n) 0 n e target header = (True, c, header')" by (simp add: SealHeader_def)
  then show ?thesis by (auto simp: seal_counted_loop_iff first_nonce_def)
qed

text \<open>A prepared header that names its parent validates as soon as its nonce meets the target.\<close>

lemma met_header_validates:
  assumes "PrepareHeader e header parent parentHeight getAncestor p = Some prepared"
    and "hdr_PrevBlock header = HashBlockHeader parent"
    and "meets e (CompactToHash (hdr_Bits prepared)) (at_nonce prepared k)"
  shows "ValidateHeader e (at_nonce prepared k) parent (parentHeight + 1) getAncestor p = Inr ()"
proof -
  from assms(1) obtain bits where bits:
    "calcExpectedBits e header parent (parentHeight + 1) getAncestor p = Some bits" "prepared = header\<lparr>hdr_Bits := bits\<rparr>"
    by (auto simp: PrepareHeader_def)
  let ?h = "at_nonce prepared k"
  have s: "hdr_PrevBlock ?h = HashBlockHeader parent" "hdr_Bits ?h = bits" "hdr_Timestamp ?h = hdr_Timestamp header"
    using bits assms(2) by (simp_all add: at_nonce_def)
  with bits assms(3) calcExpectedBits_header_time [OF s(3)] show ?thesis
    by (simp add: ValidateHeader_def ValidateProofOfWork_def meets_def)
qed

section \<open>Properties\<close>

text \<open>What the miner builds validates: a header that names its parent, is given its bits by
  \<^verbatim>\<open>PrepareHeader\<close> and is sealed against the target of those bits passes \<^verbatim>\<open>ValidateHeader\<close> one above the
  parent, whatever hash and difficulty algorithm the engine has.\<close>

theorem prepared_sealed_header_validates:
  assumes "PrepareHeader e header parent parentHeight getAncestor p = Some prepared"
    and "hdr_PrevBlock header = HashBlockHeader parent"
    and "SealHeader e prepared (CompactToHash (hdr_Bits prepared)) n = (True, sealed)"
  shows "ValidateHeader e sealed parent (parentHeight + 1) getAncestor p = Inr ()"
  using SealHeader_found [OF assms(3)] met_header_validates [OF assms(1,2)] by auto

definition demo_engine :: Engine where
  "demo_engine = \<lparr>eng_hasher = (\<lambda>_. ZeroHash), eng_retargeter = bitcoin_CalcNextBits\<rparr>"

definition demo_child :: BlockHeader where
  "demo_child = demo_tip\<lparr>hdr_PrevBlock := HashBlockHeader demo_tip, hdr_Nonce := 7\<rparr>"

lemma demo_meets: "meets demo_engine (CompactToHash bits) h"
  by (simp add: meets_def demo_engine_def Hash_LessOrEqual_nat hash_nat_ZeroHash)

theorem prepared_sealed_header_validates_witness:
  "ValidateHeader demo_engine demo_child demo_tip 11 (\<lambda>_. None) Mainnet = Inr ()"
proof -
  have b: "hdr_Bits demo_child = hdr_Bits demo_tip" by (simp add: demo_child_def)
  have "PrepareHeader demo_engine demo_child demo_tip 10 (\<lambda>_. None) Mainnet = Some demo_child"
    by (simp add: PrepareHeader_def calcExpectedBits_def demo_engine_def bitcoin_CalcNextBits_def Mainnet_def b [symmetric])
  moreover have "SealHeader demo_engine demo_child (CompactToHash (hdr_Bits demo_child)) 1 = (True, demo_child)"
    using demo_meets [of "hdr_Bits demo_child" demo_child] by (simp add: SealHeader_def meets_def)
  ultimately show ?thesis
    using prepared_sealed_header_validates [of demo_engine demo_child demo_tip 10 "\<lambda>_. None" Mainnet demo_child 1 demo_child]
    by (simp add: demo_child_def)
qed

text \<open>The nonce search is exact: \<^verbatim>\<open>SealHeaderCounted\<close> succeeds with a header exactly when that header is the
  first solution among the nonces it may try (at most \<^verbatim>\<open>maxIterations\<close>, and never past the wrap of the
  32-bit nonce), the hash count is the number of nonces tried, and \<^verbatim>\<open>SealHeader\<close> does the same search.\<close>

theorem seal_header_exact:
  "(SealHeaderCounted e h t n = (True, c, h') \<longleftrightarrow>
     (\<exists>k. first_nonce e t h (min (unat n) (2 ^ 32 - unat (hdr_Nonce h))) k \<and> c = of_nat k + 1 \<and> h' = at_nonce h k))
   \<and> SealHeader e h t n = map_prod id snd (SealHeaderCounted e h t n)"
  by (simp add: SealHeaderCounted_def SealHeader_def seal_counted_loop_iff seal_counted_loop_seal)

text \<open>\<^verbatim>\<open>MineGenesis\<close> ends: it fails exactly when no nonce from the block's own one up solves the block, and a
  block it returns has the Merkle root of its transactions, the given bits and transactions, and a proof of
  work that validates.\<close>

theorem mine_genesis_complete:
  assumes "start = (blk_Header block)\<lparr>hdr_MerkleRoot := ComputeMerkleRoot (blk_Transactions block)\<rparr>"
  shows "(\<forall>b. MineGenesis e block = Inr b \<longrightarrow>
       hdr_MerkleRoot (blk_Header b) = ComputeMerkleRoot (blk_Transactions b)
       \<and> blk_Transactions b = blk_Transactions block \<and> hdr_Bits (blk_Header b) = hdr_Bits (blk_Header block)
       \<and> ValidateProofOfWork (eng_hasher e (BlockHeader_Serialize (blk_Header b))) (hdr_Bits (blk_Header b)) = Inr ())
   \<and> ((\<exists>b. MineGenesis e block = Inr b) \<longleftrightarrow>
       (\<exists>k < 2 ^ 32 - unat (hdr_Nonce start). meets e (CompactToHash (hdr_Bits start)) (at_nonce start k)))"
proof -
  let ?t = "CompactToHash (hdr_Bits start)" and ?m = "2 ^ 32 - unat (hdr_Nonce start)"
  obtain f c h where w: "seal_counted_loop ?m 0 0 e ?t start = (f, c, h)" by (metis surj_pair)
  then have seal: "seal_loop ?m e ?t start = (f, h)" using seal_counted_loop_seal [of ?m 0 0 e ?t start] by simp
  then have mine: "MineGenesis e block =
      (if f then Inr (block\<lparr>blk_Header := h\<rparr>) else Inl ''nonce space exhausted without finding valid genesis'')"
    unfolding MineGenesis_def Let_def assms [symmetric] by (simp add: mine_loop_seal)
  have found: "f \<longleftrightarrow> (\<exists>k. first_nonce e ?t start ?m k)"
  proof
    assume f
    with w show "\<exists>k. first_nonce e ?t start ?m k" using seal_counted_loop_iff [of ?m 0 0 e ?t start c h] by auto
  next
    assume "\<exists>k. first_nonce e ?t start ?m k"
    then obtain k where "first_nonce e ?t start ?m k" by blast
    then have "seal_counted_loop ?m 0 0 e ?t start = (True, of_nat k + 1, at_nonce start k)"
      by (auto simp: seal_counted_loop_iff)
    with w show f by simp
  qed
  have sol: "\<exists>k. h = at_nonce start k \<and> meets e ?t h" if f
    using that w seal_counted_loop_iff [of ?m 0 0 e ?t start c h] by (auto simp: first_nonce_def)
  have ex: "(\<exists>k. first_nonce e ?t start ?m k) \<longleftrightarrow> (\<exists>k < ?m. meets e ?t (at_nonce start k))"
    by (auto simp: first_nonce_def elim: exists_least_lt)
  show ?thesis
  proof (intro conjI allI impI)
    fix b assume "MineGenesis e block = Inr b"
    with mine sol obtain k where b: "b = block\<lparr>blk_Header := h\<rparr>" "h = at_nonce start k" "meets e ?t h"
      by (auto split: if_splits)
    then show "hdr_MerkleRoot (blk_Header b) = ComputeMerkleRoot (blk_Transactions b)"
      "blk_Transactions b = blk_Transactions block" "hdr_Bits (blk_Header b) = hdr_Bits (blk_Header block)"
      "ValidateProofOfWork (eng_hasher e (BlockHeader_Serialize (blk_Header b))) (hdr_Bits (blk_Header b)) = Inr ()"
      by (simp_all add: at_nonce_def assms meets_def ValidateProofOfWork_def)
  next
    show "(\<exists>b. MineGenesis e block = Inr b) \<longleftrightarrow> (\<exists>k < ?m. meets e ?t (at_nonce start k))"
      unfolding mine using found ex by simp
  qed
qed

theorem mine_genesis_complete_witness:
  "\<exists>b. MineGenesis demo_engine zero_block = Inr b
     \<and> hdr_MerkleRoot (blk_Header b) = ComputeMerkleRoot (blk_Transactions zero_block)"
proof -
  let ?start = "(blk_Header zero_block)\<lparr>hdr_MerkleRoot := ComputeMerkleRoot (blk_Transactions zero_block)\<rparr>"
  have "(0 :: nat) < 2 ^ 32 - unat (hdr_Nonce ?start)" using unsigned_less [of "hdr_Nonce ?start"] by simp
  moreover have "meets demo_engine (CompactToHash (hdr_Bits ?start)) (at_nonce ?start 0)" by (rule demo_meets)
  ultimately obtain b where "MineGenesis demo_engine zero_block = Inr b"
    using mine_genesis_complete [OF refl, of demo_engine zero_block] by blast
  with mine_genesis_complete [OF refl, of demo_engine zero_block] show ?thesis by auto
qed

text \<open>C29. A header the engine accepts on a chain whose targets are within the network's limit is within it too, so
  its work counts positively and its proof-of-work hash is at most the easiest target, under each of
  the difficulty algorithms.\<close>

theorem validated_header_target:
  assumes "GetRetargeter name = Some (eng_retargeter e)" "params_ok p" "target_ok p (hdr_Bits parent)"
    and "\<forall>h x. getAncestor h = Some x \<longrightarrow> target_ok p (hdr_Bits x)"
    and "ValidateHeader e header parent height getAncestor p = Inr ()"
  shows "target_ok p (hdr_Bits header) \<and> 0 < CalcBlockWeight e header
     \<and> HashToBig (eng_hasher e (BlockHeader_Serialize header)) \<le> CompactToBig (par_MinBits p)"
proof -
  have r: "retargeter (eng_retargeter e)" by (rule GetRetargeter_cases [OF assms(1)])
  from retargeter.calcExpectedBits_ok [OF r refl assms(2,3)] assms(4) obtain bits where
    bits: "calcExpectedBits e header parent height getAncestor p = Some bits" "target_ok p bits" by blast
  with assms(5) have v: "hdr_Bits header = bits"
    "ValidateProofOfWork (eng_hasher e (BlockHeader_Serialize header)) bits = Inr ()"
    by (auto simp: ValidateHeader_def Let_def map_err_def split: if_splits sum.splits)
  then have "HashToBig (eng_hasher e (BlockHeader_Serialize header)) \<le> CompactToBig bits"
    by (simp add: pow_ok_iff)
  then show ?thesis using bits(2) v(1) by (auto simp: target_ok_def CalcBlockWeight_def CalcWork_pos_iff)
qed

theorem validated_header_target_witness:
  "target_ok Mainnet (hdr_Bits demo_child) \<and> 0 < CalcBlockWeight demo_engine demo_child"
proof -
  have ok: "target_ok Mainnet (hdr_Bits demo_tip)" by code_simp
  have "ValidateHeader demo_engine demo_child demo_tip 11 (\<lambda>_. None) Mainnet = Inr ()"
    using demo_meets [of "hdr_Bits demo_child" demo_child]
    by (simp add: ValidateHeader_def calcExpectedBits_def demo_engine_def bitcoin_CalcNextBits_def Mainnet_def
        demo_child_def meets_def ValidateProofOfWork_def)
  with ok show ?thesis
    using validated_header_target [of "''bitcoin''" demo_engine Mainnet demo_tip "\<lambda>_. None" demo_child 11]
    by (simp add: GetRetargeter_def demo_engine_def params_ok_networks)
qed

text \<open>Minimum-difficulty blocks leave no trace: where the rule is active, a block that comes in time and off
  the retarget boundary must use the bits of the last block below it that is at a retarget boundary, at
  height 0 or not at minimum difficulty.\<close>

theorem min_difficulty_recovery:
  assumes "par_AllowMinDifficultyBlocks p" "par_ActivationHeights p ''mindiffblocks'' = Some a" "a \<le> height"
    and "uint (hdr_Timestamp header) - uint (hdr_Timestamp parent) \<le> dur_secs (par_TargetBlockSpacing p) * 2"
    and "par_RetargetInterval p \<noteq> 0" "height mod par_RetargetInterval p \<noteq> 0"
    and "chain (height - 1) = parent"
  shows "\<exists>h. calcExpectedBits e header parent height (\<lambda>h. Some (chain h)) p = Some (hdr_Bits (chain h))
     \<and> last_real p chain (height - 1) h"
proof -
  obtain h where h: "scan_back p (\<lambda>h. Some (chain h)) (height - 1) (chain (height - 1)) = Some (chain h)"
    "last_real p chain (height - 1) h"
    using scan_back_total by blast
  moreover have "\<not> height < a" using assms(3) by simp
  ultimately show ?thesis using assms by (intro exI [of _ h]) (simp add: calcExpectedBits_def)
qed

theorem min_difficulty_recovery_witness:
  "\<exists>h. calcExpectedBits demo_engine demo_tip demo_tip 15003 (\<lambda>h. Some demo_tip) Testnet = Some (hdr_Bits demo_tip)
     \<and> last_real Testnet (\<lambda>h. demo_tip) 15002 h"
proof -
  have "par_AllowMinDifficultyBlocks Testnet" "par_ActivationHeights Testnet ''mindiffblocks'' = Some 15000"
    "(15000 :: u32) \<le> 15003" "par_RetargetInterval Testnet \<noteq> 0" "15003 mod par_RetargetInterval Testnet \<noteq> 0"
    "uint (hdr_Timestamp demo_tip) - uint (hdr_Timestamp demo_tip) \<le> dur_secs (par_TargetBlockSpacing Testnet) * 2"
    by (simp_all add: Testnet_def dur_secs_def signed_divide_int_def)
  from min_difficulty_recovery [OF this(1-3,6,4,5), of "\<lambda>_. demo_tip" demo_engine] show ?thesis by simp
qed

end
