(* ===== verification/HeaderIndex.thy ===== *)
theory HeaderIndex
  imports Pow "HOL-Library.AList"
begin

text \<open>
  The header tree of header-first synchronisation (\<^verbatim>\<open>internal/chain/headers.go\<close>). A \<^verbatim>\<open>*HeaderNode\<close> never
  changes after it is made, so a node is a value that contains its parent; comparing pointers is comparing
  nodes (a header that is pruned and added again gets a node of equal contents). The map \<^verbatim>\<open>byHash\<close> is an
  association list, of which the code only uses lookup, insertion, deletion and size; \<open>None\<close> in the height
  slice is a nil pointer.
\<close>

section \<open>State\<close>

datatype HeaderNode = HeaderNode (hn_Hash: hash) (hn_Height: u32) (hn_Header: BlockHeader) (hn_Work: int)
  (hn_Parent: "HeaderNode option")

abbreviation (input) maxRejectedHeaders :: nat where "maxRejectedHeaders \<equiv> 50000"
abbreviation (input) maxHeaderIndexSize :: nat where "maxHeaderIndexSize \<equiv> 200000"
abbreviation (input) maxForkDepth :: u32 where "maxForkDepth \<equiv> 2016"

record HeaderIndex =
  hi_params :: ChainParams
  hi_engine :: Engine
  hi_byHash :: "(hash \<times> HeaderNode) list"
  hi_bestHeader :: HeaderNode
  hi_genesis :: HeaderNode
  hi_rejected :: "hash set"
  hi_rejectedOrder :: "hash list"
  hi_bestChainByHeight :: "HeaderNode option list"

datatype index_error =
    ErrOrphanHeader
  | ErrDuplicateHeader
  | ErrRejectedHeader
  | ErrIndexCapacity
  | ErrHeaderValidation "engine_error header_error"

definition NewHeaderIndex :: "ChainParams \<Rightarrow> Engine \<Rightarrow> BlockHeader \<Rightarrow> HeaderIndex" where
  "NewHeaderIndex p engine genesisHeader =
     (let genesisHash = HashBlockHeader genesisHeader;
          genesisWork = CalcWork (hdr_Bits genesisHeader);
          node = HeaderNode genesisHash 0 genesisHeader genesisWork None
      in \<lparr>hi_params = p, hi_engine = engine, hi_byHash = [(genesisHash, node)], hi_bestHeader = node,
          hi_genesis = node, hi_rejected = {}, hi_rejectedOrder = [], hi_bestChainByHeight = [Some node]\<rparr>)"

section \<open>Walking the tree\<close>

text \<open>\<^verbatim>\<open>for node != nil && node.Height > height { node = node.Parent }\<close>\<close>

fun walk_down :: "u32 \<Rightarrow> HeaderNode \<Rightarrow> HeaderNode option" where
  "walk_down height (HeaderNode hs ht hr w p) =
     (if ht > height then (case p of None \<Rightarrow> None | Some q \<Rightarrow> walk_down height q)
      else Some (HeaderNode hs ht hr w p))"

text \<open>The lookup by height that \<^verbatim>\<open>getHeaderByHeightLocked\<close> and the closure below share.\<close>

definition best_at :: "HeaderIndex \<Rightarrow> u32 \<Rightarrow> HeaderNode option" where
  "best_at idx height =
     (if height < of_nat (length (hi_bestChainByHeight idx)) then hi_bestChainByHeight idx ! unat height else None)"

definition header_ancestors :: "HeaderIndex \<Rightarrow> HeaderNode \<Rightarrow> ancestors" where
  "header_ancestors idx parentNode =
     (let onBestChain = (hn_Height parentNode < of_nat (length (hi_bestChainByHeight idx))
            \<and> hi_bestChainByHeight idx ! unat (hn_Height parentNode) = Some parentNode)
      in (\<lambda>height.
         case (if onBestChain then best_at idx height else None) of
           Some node \<Rightarrow> Some (hn_Header node)
         | None \<Rightarrow> (case walk_down height parentNode of
             None \<Rightarrow> None
           | Some node \<Rightarrow> if hn_Height node = height then Some (hn_Header node) else None)))"

text \<open>\<^verbatim>\<open>for node != nil { index[node.Height] = node; node = node.Parent }\<close>\<close>

fun fill_index :: "HeaderNode \<Rightarrow> HeaderNode option list \<Rightarrow> HeaderNode option list" where
  "fill_index (HeaderNode hs ht hr w p) index =
     (let index = index[unat ht := Some (HeaderNode hs ht hr w p)]
      in (case p of None \<Rightarrow> index | Some q \<Rightarrow> fill_index q index))"

definition rebuildHeightIndex :: "HeaderIndex \<Rightarrow> HeaderIndex" where
  "rebuildHeightIndex idx =
     (let best = hi_bestHeader idx; height = hn_Height best; chain = hi_bestChainByHeight idx in
      if unat height = length chain \<and> height > 0 \<and> chain ! (unat height - 1) = hn_Parent best
      then idx\<lparr>hi_bestChainByHeight := chain @ [Some best]\<rparr>
      else idx\<lparr>hi_bestChainByHeight := fill_index best (replicate (unat (height + 1)) None)\<rparr>)"

text \<open>The two loops of \<^verbatim>\<open>pruneStaleForks\<close> together collect the hashes of the whole best chain.\<close>

fun chain_hashes :: "HeaderNode \<Rightarrow> hash set" where
  "chain_hashes (HeaderNode hs ht hr w p) =
     insert hs (case p of None \<Rightarrow> {} | Some q \<Rightarrow> chain_hashes q)"

definition pruneStaleForks :: "HeaderIndex \<Rightarrow> HeaderIndex" where
  "pruneStaleForks idx =
     (let bestHeight = hn_Height (hi_bestHeader idx) in
      if bestHeight < maxForkDepth then idx
      else let pruneBelow = bestHeight - maxForkDepth;
               bestChainHashes = chain_hashes (hi_bestHeader idx)
           in idx\<lparr>hi_byHash := filter (\<lambda>(h, n). hn_Height n > pruneBelow \<or> h \<in> bestChainHashes) (hi_byHash idx)\<rparr>)"

section \<open>Adding headers\<close>

fun evict_rejected :: "hash set \<Rightarrow> hash list \<Rightarrow> hash set \<times> hash list" where
  "evict_rejected rejected [] = (rejected, [])"
| "evict_rejected rejected (evict # order) =
     (if card rejected \<ge> maxRejectedHeaders then evict_rejected (rejected - {evict}) order
      else (rejected, evict # order))"

definition addRejectedLocked :: "hash \<Rightarrow> HeaderIndex \<Rightarrow> HeaderIndex" where
  "addRejectedLocked h idx =
     (if h \<in> hi_rejected idx then idx
      else let (rejected, order) = evict_rejected (hi_rejected idx) (hi_rejectedOrder idx)
           in idx\<lparr>hi_rejected := insert h rejected, hi_rejectedOrder := order @ [h]\<rparr>)"

definition InsertTrustedHeader :: "BlockHeader \<Rightarrow> HeaderIndex \<Rightarrow> (index_error + unit) \<times> HeaderIndex" where
  "InsertTrustedHeader header idx =
     (let headerHash = HashBlockHeader header in
      if map_of (hi_byHash idx) headerHash \<noteq> None then (Inr (), idx)
      else (case map_of (hi_byHash idx) (hdr_PrevBlock header) of
         None \<Rightarrow> (Inl ErrOrphanHeader, idx)
       | Some parentNode \<Rightarrow>
           let childHeight = hn_Height parentNode + 1;
               cumulativeWork = hn_Work parentNode + CalcWork (hdr_Bits header);
               node = HeaderNode headerHash childHeight header cumulativeWork (Some parentNode);
               idx = idx\<lparr>hi_byHash := AList.update headerHash node (hi_byHash idx)\<rparr>
           in (Inr (),
               if cumulativeWork > hn_Work (hi_bestHeader idx)
               then rebuildHeightIndex (idx\<lparr>hi_bestHeader := node\<rparr>) else idx)))"

definition addHeaderLocked :: "BlockHeader \<Rightarrow> u32 \<Rightarrow> HeaderIndex \<Rightarrow> (index_error + HeaderNode) \<times> HeaderIndex" where
  "addHeaderLocked header nowUnix idx =
     (let headerHash = HashBlockHeader header in
      if map_of (hi_byHash idx) headerHash \<noteq> None then (Inl ErrDuplicateHeader, idx)
      else if headerHash \<in> hi_rejected idx then (Inl ErrRejectedHeader, idx)
      else if hdr_PrevBlock header \<in> hi_rejected idx then (Inl ErrRejectedHeader, addRejectedLocked headerHash idx)
      else (case map_of (hi_byHash idx) (hdr_PrevBlock header) of
         None \<Rightarrow> (Inl ErrOrphanHeader, idx)
       | Some parentNode \<Rightarrow>
           if length (hi_byHash idx) \<ge> maxHeaderIndexSize
              \<and> hn_Work parentNode + CalcWork (hdr_Bits header) \<le> hn_Work (hi_bestHeader idx)
           then (Inl ErrIndexCapacity, idx)
           else let childHeight = hn_Height parentNode + 1;
                    ancestorFn = header_ancestors idx parentNode
           in (case FullValidateHeader (ValidateHeader (hi_engine idx)) header (hn_Header parentNode) childHeight ancestorFn
                      nowUnix (hn_Height parentNode) (hi_params idx) of
              Inl err \<Rightarrow> (Inl (ErrHeaderValidation err), addRejectedLocked headerHash idx)
            | Inr _ \<Rightarrow>
                let cumulativeWork = hn_Work parentNode + CalcWork (hdr_Bits header);
                    node = HeaderNode headerHash childHeight header cumulativeWork (Some parentNode);
                    idx = idx\<lparr>hi_byHash := AList.update headerHash node (hi_byHash idx)\<rparr>
                in (Inr node,
                    if cumulativeWork > hn_Work (hi_bestHeader idx) then
                      let idx = rebuildHeightIndex (idx\<lparr>hi_bestHeader := node\<rparr>)
                      in if childHeight mod 100 = 0 then pruneStaleForks idx else idx
                    else idx))))"

definition AddHeader :: "BlockHeader \<Rightarrow> u32 \<Rightarrow> HeaderIndex \<Rightarrow> (index_error + HeaderNode) \<times> HeaderIndex" where
  "AddHeader header nowUnix idx = addHeaderLocked header nowUnix idx"

primrec add_headers :: "nat \<Rightarrow> BlockHeader list \<Rightarrow> u32 \<Rightarrow> HeaderIndex \<Rightarrow> nat \<times> index_error option \<times> HeaderIndex" where
  "add_headers added [] nowUnix idx = (added, None, idx)"
| "add_headers added (h # hs) nowUnix idx =
     (case addHeaderLocked h nowUnix idx of
        (Inr node, idx) \<Rightarrow> add_headers (added + 1) hs nowUnix idx
      | (Inl err, idx) \<Rightarrow>
          if err = ErrDuplicateHeader \<or> err = ErrRejectedHeader then add_headers added hs nowUnix idx
          else (added, Some err, idx))"

definition AddHeaders :: "BlockHeader list \<Rightarrow> u32 \<Rightarrow> HeaderIndex \<Rightarrow> nat \<times> index_error option \<times> HeaderIndex" where
  "AddHeaders headers nowUnix idx = add_headers 0 headers nowUnix idx"

section \<open>Queries\<close>

definition HasHeader :: "HeaderIndex \<Rightarrow> hash \<Rightarrow> bool" where
  "HasHeader idx h \<longleftrightarrow> map_of (hi_byHash idx) h \<noteq> None"

definition BestHeaderHeight :: "HeaderIndex \<Rightarrow> u32" where
  "BestHeaderHeight idx = hn_Height (hi_bestHeader idx)"

definition GetHeader :: "HeaderIndex \<Rightarrow> hash \<Rightarrow> HeaderNode option" where
  "GetHeader idx h = map_of (hi_byHash idx) h"

definition HeaderIndex_Count :: "HeaderIndex \<Rightarrow> nat" where
  "HeaderIndex_Count idx = length (hi_byHash idx)"

definition GetHeaderByHeight :: "HeaderIndex \<Rightarrow> u32 \<Rightarrow> HeaderNode option" where
  "GetHeaderByHeight idx height = best_at idx height"

text \<open>\<^verbatim>\<open>for node.Parent != nil && node.Height > targetHeight { node = node.Parent }\<close>\<close>

fun walk_to_parent :: "u32 \<Rightarrow> HeaderNode \<Rightarrow> HeaderNode" where
  "walk_to_parent target (HeaderNode hs ht hr w p) =
     (case p of None \<Rightarrow> HeaderNode hs ht hr w p
      | Some q \<Rightarrow> if ht > target then walk_to_parent target q else HeaderNode hs ht hr w p)"

text \<open>
  The locator loop can only run on while the step is not zero, and the doubled step wraps at 32 bits, so the loop
  is written with a bound on its iterations; \<open>None\<close> is a loop that has not ended by then.
\<close>

primrec locator_loop :: "nat \<Rightarrow> HeaderNode \<Rightarrow> u32 \<Rightarrow> hash list \<Rightarrow> hash list option" where
  "locator_loop 0 node step locator = None"
| "locator_loop (Suc fuel) node step locator =
     (let locator = locator @ [hn_Hash node] in
      if hn_Height node = 0 then Some locator
      else let targetHeight = (if hn_Height node \<ge> step then hn_Height node - step else 0);
               node = walk_to_parent targetHeight node;
               step = (if length locator > 10 then step * 2 else step)
           in locator_loop fuel node step locator)"

definition HeaderLocator :: "nat \<Rightarrow> HeaderIndex \<Rightarrow> hash list option" where
  "HeaderLocator fuel idx = locator_loop fuel (hi_bestHeader idx) 1 []"

primrec fetch_loop :: "HeaderIndex \<Rightarrow> int \<Rightarrow> nat list \<Rightarrow> hash list \<Rightarrow> hash list" where
  "fetch_loop idx limit [] result = result"
| "fetch_loop idx limit (h # hs) result =
     (if int (length result) < limit then
        (case best_at idx (of_nat h) of
           Some node \<Rightarrow> fetch_loop idx limit hs (result @ [hn_Hash node])
         | None \<Rightarrow> fetch_loop idx limit hs result)
      else result)"

definition HeadersToFetch :: "HeaderIndex \<Rightarrow> u32 \<Rightarrow> int \<Rightarrow> hash list" where
  "HeadersToFetch idx startHeight limit =
     fetch_loop idx limit [unat startHeight ..< Suc (unat (hn_Height (hi_bestHeader idx)))] []"

section \<open>Well-formed nodes\<close>

fun node_ok :: "HeaderNode \<Rightarrow> bool" where
  "node_ok (HeaderNode hs ht hr w p) \<longleftrightarrow> hs = HashBlockHeader hr \<and>
     (case p of
        None \<Rightarrow> ht = 0 \<and> w = CalcWork (hdr_Bits hr)
      | Some q \<Rightarrow> node_ok q \<and> hdr_PrevBlock hr = hn_Hash q \<and> ht = hn_Height q + 1 \<and> ht \<noteq> 0
          \<and> w = hn_Work q + CalcWork (hdr_Bits hr))"

text \<open>The chain of a node, from the root to the node.\<close>

fun lineage :: "HeaderNode \<Rightarrow> HeaderNode list" where
  "lineage (HeaderNode hs ht hr w p) =
     (case p of None \<Rightarrow> [] | Some q \<Rightarrow> lineage q) @ [HeaderNode hs ht hr w p]"

lemma lineage_last [simp]: "lineage n \<noteq> []" "last (lineage n) = n"
  by (cases n; simp)+

lemma lineage_mem: "n \<in> set (lineage n)"
  by (metis last_in_set lineage_last)

lemma unat_height_step: "a = b + 1 \<Longrightarrow> a \<noteq> 0 \<Longrightarrow> unat a = Suc (unat b)" for a b :: u32
  by (metis add.commute unatSuc)

lemma unat_Suc_height: "b + 1 \<noteq> 0 \<Longrightarrow> unat (b + 1) = Suc (unat b)" for b :: u32
  by (metis add.commute unatSuc)

lemma drop_update_self: "n < length xs \<Longrightarrow> drop n (xs[n := v]) = v # drop (Suc n) xs"
  by (simp add: upd_conv_take_nth_drop)

lemma length_lineage: "node_ok n \<Longrightarrow> length (lineage n) = Suc (unat (hn_Height n))"
proof (induction n rule: lineage.induct)
  case (1 hs ht hr w p)
  then show ?case by (cases p) (auto simp: unat_Suc_height)
qed

lemma lineage_self: "node_ok n \<Longrightarrow> lineage n ! unat (hn_Height n) = n"
  using length_lineage [of n] by (metis diff_Suc_1 last_conv_nth lineage_last)

lemma lineage_ok: "node_ok n \<Longrightarrow> m \<in> set (lineage n) \<Longrightarrow> node_ok m"
proof (induction n rule: lineage.induct)
  case (1 hs ht hr w p)
  then show ?case by (cases p) auto
qed

lemma lineage_take: "node_ok n \<Longrightarrow> i < length (lineage n) \<Longrightarrow> take (Suc i) (lineage n) = lineage (lineage n ! i)"
proof (induction n rule: lineage.induct)
  case (1 hs ht hr w p)
  show ?case
  proof (cases p)
    case (Some q)
    show ?thesis
    proof (cases "i < length (lineage q)")
      case True
      with 1 Some show ?thesis by (simp add: nth_append)
    next
      case False
      with 1 Some show ?thesis by (simp add: nth_append)
    qed
  qed (use 1 in simp)
qed

lemma lineage_nth_height: "node_ok n \<Longrightarrow> i < length (lineage n) \<Longrightarrow> unat (hn_Height (lineage n ! i)) = i"
  using lineage_take [of n i] length_lineage [OF lineage_ok, of n "lineage n ! i"]
  by (metis Suc_inject Suc_leI length_take min.absorb2 nth_mem)

lemma lineage_of_mem:
  assumes "node_ok n" "m \<in> set (lineage n)"
  shows "unat (hn_Height m) < length (lineage n)" "lineage n ! unat (hn_Height m) = m"
  using assms lineage_nth_height [OF assms(1)] by (metis in_set_conv_nth)+

lemma lineage_parent: "lineage n = (case hn_Parent n of None \<Rightarrow> [] | Some q \<Rightarrow> lineage q) @ [n]"
  by (cases n) simp

lemma chain_hashes_lineage: "chain_hashes n = hn_Hash ` set (lineage n)"
  by (induction n rule: lineage.induct) (auto split: option.splits)

lemma walk_down_lineage:
  "node_ok n \<Longrightarrow> unat height \<le> unat (hn_Height n) \<Longrightarrow> walk_down height n = Some (lineage n ! unat height)"
proof (induction n rule: lineage.induct)
  case (1 hs ht hr w p)
  show ?case
  proof (cases "ht > height")
    case True
    then obtain q where q: "p = Some q" using 1 by (cases p) auto
    with 1 have "unat ht = Suc (unat (hn_Height q))" by (auto intro: unat_height_step)
    with True have le: "unat height \<le> unat (hn_Height q)" by (simp add: word_less_nat_alt)
    with 1 q length_lineage [of q] True show ?thesis by (simp add: nth_append)
  next
    case False
    with 1 have "unat height = unat ht" by (simp add: word_less_nat_alt)
    with False 1 length_lineage [of "HeaderNode hs ht hr w p"] show ?thesis
      by (cases p) (auto simp: nth_append)
  qed
qed

lemma walk_down_above: "unat (hn_Height n) < unat height \<Longrightarrow> walk_down height n = Some n"
  by (cases n) (simp add: word_less_nat_alt)

lemma fill_index_lineage:
  "node_ok n \<Longrightarrow> length xs > unat (hn_Height n) \<Longrightarrow>
     fill_index n xs = map Some (lineage n) @ drop (Suc (unat (hn_Height n))) xs"
proof (induction n arbitrary: xs rule: lineage.induct)
  case (1 hs ht hr w p)
  show ?case
  proof (cases p)
    case None
    with 1 show ?thesis by (cases xs) auto
  next
    case (Some q)
    with 1 have ht: "unat ht = Suc (unat (hn_Height q))" by (auto intro: unat_height_step)
    let ?n = "HeaderNode hs ht hr w p"
    have "fill_index ?n xs = fill_index q (xs[unat ht := Some ?n])" by (simp add: Some)
    also have "\<dots> = map Some (lineage q) @ drop (unat ht) (xs[unat ht := Some ?n])"
      using 1 Some ht by simp
    finally show ?thesis using 1(3) Some by (simp add: drop_update_self)
  qed
qed

section \<open>The invariant of the index\<close>

definition index_ok :: "HeaderIndex \<Rightarrow> bool" where
  "index_ok idx \<longleftrightarrow> distinct (map fst (hi_byHash idx))
     \<and> (\<forall>(h, n) \<in> set (hi_byHash idx). h = hn_Hash n \<and> node_ok n \<and> hd (lineage n) = hi_genesis idx
           \<and> hn_Work n \<le> hn_Work (hi_bestHeader idx))
     \<and> (hn_Hash (hi_bestHeader idx), hi_bestHeader idx) \<in> set (hi_byHash idx)
     \<and> hi_bestChainByHeight idx = map Some (lineage (hi_bestHeader idx))
     \<and> distinct (hi_rejectedOrder idx) \<and> set (hi_rejectedOrder idx) = hi_rejected idx
     \<and> card (hi_rejected idx) \<le> maxRejectedHeaders"

text \<open>Heights leave room for \<open>k\<close> more headers before they wrap around.\<close>

definition height_room :: "nat \<Rightarrow> HeaderIndex \<Rightarrow> bool" where
  "height_room k idx \<longleftrightarrow> (\<forall>(h, n) \<in> set (hi_byHash idx). unat (hn_Height n) + k < 2 ^ 32)"

lemma index_okD:
  assumes "index_ok idx" "map_of (hi_byHash idx) h = Some n"
  shows "h = hn_Hash n" "node_ok n" "hd (lineage n) = hi_genesis idx" "hn_Work n \<le> hn_Work (hi_bestHeader idx)"
  using assms map_of_SomeD [OF assms(2)] by (auto simp: index_ok_def)

lemma index_ok_best:
  assumes "index_ok idx"
  shows "node_ok (hi_bestHeader idx)" "hi_bestChainByHeight idx = map Some (lineage (hi_bestHeader idx))"
    "map_of (hi_byHash idx) (hn_Hash (hi_bestHeader idx)) = Some (hi_bestHeader idx)"
  using assms by (auto simp: index_ok_def)

lemma index_ok_New: "index_ok (NewHeaderIndex p e g)"
  by (simp add: NewHeaderIndex_def index_ok_def Let_def)

lemma rebuildHeightIndex_lineage:
  assumes "node_ok (hi_bestHeader idx)" "hi_bestChainByHeight idx = map Some (lineage old)" "node_ok old"
    and "unat (hn_Height (hi_bestHeader idx)) + 1 < 2 ^ 32"
  shows "rebuildHeightIndex idx = idx\<lparr>hi_bestChainByHeight := map Some (lineage (hi_bestHeader idx))\<rparr>"
proof -
  let ?b = "hi_bestHeader idx"
  show ?thesis
  proof (cases "unat (hn_Height ?b) = length (hi_bestChainByHeight idx) \<and> hn_Height ?b > 0
      \<and> hi_bestChainByHeight idx ! (unat (hn_Height ?b) - 1) = hn_Parent ?b")
    case True
    then have "unat (hn_Height ?b) - 1 = unat (hn_Height old)" using length_lineage [OF assms(3)] assms(2) by simp
    moreover have "lineage old ! unat (hn_Height old) = old"
      by (rule lineage_self [OF assms(3)])
    ultimately have "hn_Parent ?b = Some old"
      using True assms(2) length_lineage [OF assms(3)] by (metis lessI nth_map)
    then have "lineage ?b = lineage old @ [?b]" by (subst lineage_parent) simp
    then show ?thesis unfolding rebuildHeightIndex_def Let_def if_P [OF True] by (simp add: assms(2))
  next
    case False
    have u: "unat (hn_Height ?b + 1) = Suc (unat (hn_Height ?b))" using assms(4) by (simp add: unat_word_ariths)
    have "fill_index ?b (replicate (Suc (unat (hn_Height ?b))) None) = map Some (lineage ?b)"
      using fill_index_lineage [OF assms(1)] by simp
    then show ?thesis unfolding rebuildHeightIndex_def Let_def if_not_P [OF False] u by simp
  qed
qed

lemma evict_rejected_spec:
  "distinct order \<Longrightarrow> set order = rejected \<Longrightarrow> evict_rejected rejected order = (r, o') \<Longrightarrow>
     distinct o' \<and> set o' = r \<and> r \<subseteq> rejected \<and> card r < maxRejectedHeaders"
proof (induction rejected order rule: evict_rejected.induct)
  case (2 rejected evict order)
  show ?case
  proof (cases "card rejected \<ge> maxRejectedHeaders")
    case True
    have "set order = rejected - {evict}" using 2(2,3) by auto
    with 2(1) [OF True] 2(2,4) True show ?thesis by auto
  next
    case False
    with 2 show ?thesis by auto
  qed
qed auto

lemma addRejectedLocked_ok: "index_ok idx \<Longrightarrow> index_ok (addRejectedLocked h idx)"
proof (cases "h \<in> hi_rejected idx")
  case False
  assume ok: "index_ok idx"
  obtain r o' where e: "evict_rejected (hi_rejected idx) (hi_rejectedOrder idx) = (r, o')" by fastforce
  have d: "distinct (hi_rejectedOrder idx)" "set (hi_rejectedOrder idx) = hi_rejected idx" using ok by (auto simp: index_ok_def)
  from evict_rejected_spec [OF d e] have "distinct o'" "set o' = r" "r \<subseteq> hi_rejected idx" "card r < maxRejectedHeaders" by auto
  moreover from this False have "h \<notin> r" "finite r" by auto
  ultimately show ?thesis using ok False e by (auto simp: index_ok_def addRejectedLocked_def)
qed (simp add: addRejectedLocked_def)

lemma prune_subset:
  "x \<in> set (hi_byHash (pruneStaleForks idx)) \<Longrightarrow> x \<in> set (hi_byHash idx)"
  by (auto simp: pruneStaleForks_def Let_def split: if_splits)

lemma prune_params [simp]: "hi_params (pruneStaleForks idx) = hi_params idx"
  by (simp add: pruneStaleForks_def Let_def)

text \<open>Linking a new node under a known parent, as both ways of adding a header do.\<close>

definition link_node :: "BlockHeader \<Rightarrow> HeaderNode \<Rightarrow> HeaderIndex \<Rightarrow> HeaderIndex" where
  "link_node header parentNode idx =
     (let node = HeaderNode (HashBlockHeader header) (hn_Height parentNode + 1) header
            (hn_Work parentNode + CalcWork (hdr_Bits header)) (Some parentNode);
          idx = idx\<lparr>hi_byHash := AList.update (HashBlockHeader header) node (hi_byHash idx)\<rparr>
      in if hn_Work node > hn_Work (hi_bestHeader idx) then rebuildHeightIndex (idx\<lparr>hi_bestHeader := node\<rparr>) else idx)"

lemma update_fresh: "map_of al k = None \<Longrightarrow> AList.update k v al = al @ [(k, v)]"
  by (induction al) (auto split: if_splits)

lemma link_node_ok:
  assumes ok: "index_ok idx" and fresh: "map_of (hi_byHash idx) (HashBlockHeader header) = None"
    and parent: "map_of (hi_byHash idx) (hdr_PrevBlock header) = Some parentNode" and room: "height_room 2 idx"
  shows "index_ok (link_node header parentNode idx)"
    "set (hi_byHash (link_node header parentNode idx)) = insert (HashBlockHeader header,
       HeaderNode (HashBlockHeader header) (hn_Height parentNode + 1) header
            (hn_Work parentNode + CalcWork (hdr_Bits header)) (Some parentNode)) (set (hi_byHash idx))"
    "hi_genesis (link_node header parentNode idx) = hi_genesis idx"
proof -
  let ?node = "HeaderNode (HashBlockHeader header) (hn_Height parentNode + 1) header
            (hn_Work parentNode + CalcWork (hdr_Bits header)) (Some parentNode)"
  let ?idx = "idx\<lparr>hi_byHash := hi_byHash idx @ [(HashBlockHeader header, ?node)]\<rparr>"
  note p = index_okD [OF ok parent]
  have r: "unat (hn_Height parentNode) + 2 < 2 ^ 32"
    using room map_of_SomeD [OF parent] by (auto simp: height_room_def)
  then have u: "unat (hn_Height parentNode + 1) = Suc (unat (hn_Height parentNode))" by (simp add: unat_word_ariths)
  then have nz: "hn_Height parentNode + 1 \<noteq> 0" by (metis nat.simps(3) unat_0)
  have node: "node_ok ?node" using p nz by simp
  have gen: "hd (lineage ?node) = hi_genesis idx" using p(3) by (simp add: hd_append)
  have reb: "rebuildHeightIndex (?idx\<lparr>hi_bestHeader := ?node\<rparr>)
      = ?idx\<lparr>hi_bestHeader := ?node, hi_bestChainByHeight := map Some (lineage ?node)\<rparr>"
    using rebuildHeightIndex_lineage [of "?idx\<lparr>hi_bestHeader := ?node\<rparr>" "hi_bestHeader idx"]
      node index_ok_best [OF ok] u r by (simp del: lineage.simps)
  have lk: "link_node header parentNode idx = (if hn_Work ?node > hn_Work (hi_bestHeader idx)
      then ?idx\<lparr>hi_bestHeader := ?node, hi_bestChainByHeight := map Some (lineage ?node)\<rparr> else ?idx)"
    unfolding link_node_def Let_def update_fresh [OF fresh] using reb by simp
  have d: "HashBlockHeader header \<notin> fst ` set (hi_byHash idx)" using fresh by (simp add: map_of_eq_None_iff)
  show "set (hi_byHash (link_node header parentNode idx)) = insert (HashBlockHeader header, ?node) (set (hi_byHash idx))"
    "hi_genesis (link_node header parentNode idx) = hi_genesis idx"
    unfolding lk by auto
  show "index_ok (link_node header parentNode idx)"
  proof (cases "hn_Work ?node > hn_Work (hi_bestHeader idx)")
    case True
    then have "\<forall>(h, n) \<in> set (hi_byHash idx). hn_Work n \<le> hn_Work ?node"
      using ok by (auto simp: index_ok_def)
    with True ok node gen d show ?thesis unfolding lk by (auto simp: index_ok_def simp del: lineage.simps node_ok.simps)
  next
    case False
    with ok node gen d show ?thesis unfolding lk by (auto simp: index_ok_def simp del: lineage.simps node_ok.simps)
  qed
qed

lemma pruneStaleForks_ok: "index_ok idx \<Longrightarrow> index_ok (pruneStaleForks idx)"
proof -
  assume ok: "index_ok idx"
  have best: "hn_Hash (hi_bestHeader idx) \<in> chain_hashes (hi_bestHeader idx)" by (cases "hi_bestHeader idx") simp
  have "distinct (map fst (filter P (hi_byHash idx)))" for P
    using ok by (simp add: index_ok_def distinct_map_filter)
  with ok best show ?thesis by (auto simp: pruneStaleForks_def Let_def index_ok_def)
qed

lemma InsertTrustedHeader_cases:
  "snd (InsertTrustedHeader header idx) = idx \<or>
     (\<exists>q. map_of (hi_byHash idx) (HashBlockHeader header) = None \<and> map_of (hi_byHash idx) (hdr_PrevBlock header) = Some q
       \<and> snd (InsertTrustedHeader header idx) = link_node header q idx)"
  by (auto simp: InsertTrustedHeader_def link_node_def Let_def split: option.splits)

lemma addHeaderLocked_cases:
  assumes "addHeaderLocked header nowUnix idx = (r, idx')"
  obtains "idx' = idx" "\<exists>e. r = Inl e"
  | "idx' = addRejectedLocked (HashBlockHeader header) idx" "\<exists>e. r = Inl e"
  | q where "map_of (hi_byHash idx) (HashBlockHeader header) = None"
      "map_of (hi_byHash idx) (hdr_PrevBlock header) = Some q"
      "FullValidateHeader (ValidateHeader (hi_engine idx)) header (hn_Header q) (hn_Height q + 1) (header_ancestors idx q)
         nowUnix (hn_Height q) (hi_params idx) = Inr ()"
      "idx' = link_node header q idx \<or> idx' = pruneStaleForks (link_node header q idx)"
      "r = Inr (HeaderNode (HashBlockHeader header) (hn_Height q + 1) header
            (hn_Work q + CalcWork (hdr_Bits header)) (Some q))"
  using assms that unfolding addHeaderLocked_def link_node_def Let_def
  by (auto split: if_splits option.splits sum.splits)

text \<open>All ways to change the index, while heights do not wrap.\<close>

inductive index_reachable :: "ChainParams \<Rightarrow> Engine \<Rightarrow> BlockHeader \<Rightarrow> HeaderIndex \<Rightarrow> bool" for p e g where
  new: "index_reachable p e g (NewHeaderIndex p e g)"
| add: "index_reachable p e g idx \<Longrightarrow> height_room 2 idx \<Longrightarrow> index_reachable p e g (snd (AddHeader header nowUnix idx))"
| trusted: "index_reachable p e g idx \<Longrightarrow> height_room 2 idx \<Longrightarrow>
    index_reachable p e g (snd (InsertTrustedHeader header idx))"

lemma AddHeader_ok: "index_ok idx \<Longrightarrow> height_room 2 idx \<Longrightarrow> index_ok (snd (AddHeader header nowUnix idx))"
proof -
  assume ok: "index_ok idx" "height_room 2 idx"
  obtain r idx' where a: "addHeaderLocked header nowUnix idx = (r, idx')" by fastforce
  from a have "index_ok idx'"
    by (rule addHeaderLocked_cases) (use ok in \<open>auto intro: addRejectedLocked_ok link_node_ok(1) pruneStaleForks_ok\<close>)
  with a show ?thesis by (simp add: AddHeader_def)
qed

lemma index_reachable_ok: "index_reachable p e g idx \<Longrightarrow> index_ok idx"
proof (induction rule: index_reachable.induct)
  case (trusted idx header)
  then show ?case using InsertTrustedHeader_cases [of header idx] link_node_ok(1) [of idx header] by auto
qed (simp_all add: index_ok_New AddHeader_ok)

text \<open>A batch is a sequence of single additions.\<close>

lemma height_room_mono: "height_room k idx \<Longrightarrow> j \<le> k \<Longrightarrow> height_room j idx"
  by (force simp: height_room_def)

lemma link_node_room:
  assumes "index_ok idx" "map_of (hi_byHash idx) (HashBlockHeader header) = None"
    "map_of (hi_byHash idx) (hdr_PrevBlock header) = Some q" "height_room (Suc k) idx" "1 \<le> k"
  shows "height_room k (link_node header q idx)"
proof -
  have r: "height_room 2 idx" using assms(4,5) by (rule_tac height_room_mono) auto
  have q: "unat (hn_Height q) + Suc k < 2 ^ 32" using assms(4) map_of_SomeD [OF assms(3)] by (auto simp: height_room_def)
  then have "unat (hn_Height q + 1) = Suc (unat (hn_Height q))" by (simp add: unat_word_ariths)
  with q assms(4) show ?thesis
    unfolding height_room_def link_node_ok(2) [OF assms(1-3) r] by force
qed

lemma AddHeader_room: "index_ok idx \<Longrightarrow> height_room (Suc k) idx \<Longrightarrow> 1 \<le> k \<Longrightarrow> height_room k (snd (AddHeader header nowUnix idx))"
proof -
  assume a: "index_ok idx" "height_room (Suc k) idx" "1 \<le> k"
  have prune: "height_room k i \<Longrightarrow> height_room k (pruneStaleForks i)" for i
    by (auto simp: height_room_def pruneStaleForks_def Let_def)
  have rej: "height_room k i \<Longrightarrow> height_room k (addRejectedLocked h i)" for i h
    by (auto simp: height_room_def addRejectedLocked_def split: prod.splits)
  obtain r idx' where h: "addHeaderLocked header nowUnix idx = (r, idx')" by fastforce
  from h have "height_room k idx'"
    by (rule addHeaderLocked_cases)
      (use a height_room_mono [OF a(2), of k] link_node_room [OF a(1)] in \<open>auto intro: prune rej\<close>)
  with h show ?thesis by (simp add: AddHeader_def)
qed

lemma add_headers_reachable:
  "index_reachable p e g idx \<Longrightarrow> height_room (length hs + 2) idx \<Longrightarrow> add_headers n hs nowUnix idx = (m, err, idx') \<Longrightarrow>
     index_reachable p e g idx'"
proof (induction hs arbitrary: n idx)
  case (Cons h hs)
  obtain r idx1 where a: "addHeaderLocked h nowUnix idx = (r, idx1)" by fastforce
  have one: "idx1 = snd (AddHeader h nowUnix idx)" by (simp add: AddHeader_def a)
  have reach: "index_reachable p e g idx1"
    unfolding one using Cons.prems(1) height_room_mono [OF Cons.prems(2), of 2] by (auto intro: index_reachable.add)
  have room: "height_room (length hs + 2) idx1"
    unfolding one using AddHeader_room [OF index_reachable_ok [OF Cons.prems(1)], of "length hs + 2"] Cons.prems(2) by simp
  show ?case
    using Cons.prems(3) Cons.IH [OF reach room] reach by (auto simp: a split: sum.splits if_splits)
qed simp

section \<open>Ancestor lookup\<close>

lemma best_at_lineage:
  assumes "index_ok idx" "unat (hn_Height (hi_bestHeader idx)) + 1 < 2 ^ 32"
  shows "best_at idx height = (if unat height \<le> unat (hn_Height (hi_bestHeader idx))
    then Some (lineage (hi_bestHeader idx) ! unat height) else None)"
proof -
  let ?b = "hi_bestHeader idx"
  have len: "length (lineage ?b) = Suc (unat (hn_Height ?b))" using index_ok_best(1) [OF assms(1)] by (rule length_lineage)
  have "unat (of_nat (Suc (unat (hn_Height ?b))) :: u32) = Suc (unat (hn_Height ?b))"
    using assms(2) by (simp add: unat_word_ariths)
  then have "height < of_nat (length (lineage ?b)) \<longleftrightarrow> unat height \<le> unat (hn_Height ?b)"
    unfolding len word_less_nat_alt by (simp add: less_Suc_eq_le)
  with len show ?thesis by (simp add: best_at_def index_ok_best(2) [OF assms(1)])
qed

lemma header_ancestors_lineage:
  assumes ok: "index_ok idx" "height_room 1 idx" and q: "map_of (hi_byHash idx) h = Some q"
    and le: "height \<le> hn_Height q"
  shows "header_ancestors idx q height = Some (hn_Header (lineage q ! unat height))"
proof -
  let ?b = "hi_bestHeader idx"
  note b = index_ok_best [OF ok(1)]
  have room: "unat (hn_Height ?b) + 1 < 2 ^ 32" using ok(2) map_of_SomeD [OF b(3)] by (auto simp: height_room_def)
  note at = best_at_lineage [OF ok(1) room]
  have nq: "node_ok q" by (rule index_okD [OF ok(1) q])
  have le': "unat height \<le> unat (hn_Height q)" using le by (simp add: word_le_nat_alt)
  have walk: "walk_down height q = Some (lineage q ! unat height)" using walk_down_lineage [OF nq le'] .
  have ht: "hn_Height (lineage q ! unat height) = height"
    using lineage_nth_height [OF nq, of "unat height"] length_lineage [OF nq] le' by (simp add: word_unat_eq_iff)
  show ?thesis
  proof (cases "hn_Height q < of_nat (length (hi_bestChainByHeight idx))
      \<and> hi_bestChainByHeight idx ! unat (hn_Height q) = Some q")
    case True
    then have "best_at idx (hn_Height q) = Some q" by (simp add: best_at_def)
    then have on: "unat (hn_Height q) \<le> unat (hn_Height ?b)" "lineage ?b ! unat (hn_Height q) = q"
      unfolding at by (auto split: if_splits)
    have "take (Suc (unat (hn_Height q))) (lineage ?b) = lineage q"
      using lineage_take [OF b(1), of "unat (hn_Height q)"] on length_lineage [OF b(1)] by simp
    then have "lineage ?b ! unat height = lineage q ! unat height" using le' by (metis le_imp_less_Suc nth_take)
    moreover have "best_at idx height = Some (lineage ?b ! unat height)" unfolding at using on(1) le' by simp
    ultimately show ?thesis using True by (simp add: header_ancestors_def)
  next
    case False
    then show ?thesis unfolding header_ancestors_def Let_def using walk ht by auto
  qed
qed

lemma walk_down_mem: "walk_down height n = Some m \<Longrightarrow> m \<in> set (lineage n)"
  by (induction n rule: lineage.induct) (auto split: if_splits option.splits)

lemma header_ancestors_mem:
  assumes "index_ok idx" "header_ancestors idx q height = Some x"
  shows "\<exists>m \<in> set (lineage (hi_bestHeader idx)) \<union> set (lineage q). x = hn_Header m"
proof -
  have best: "m \<in> set (lineage (hi_bestHeader idx))" if "best_at idx height = Some m" for m
  proof -
    let ?c = "hi_bestChainByHeight idx"
    have "height < of_nat (length ?c)" "?c ! unat height = Some m" using that by (auto simp: best_at_def split: if_splits)
    moreover from this(1) have "unat height < length ?c"
      by (metis le_less_trans not_le unat_of_nat word_less_nat_alt mod_less_eq_dividend order_less_le_trans)
    ultimately show ?thesis using index_ok_best(2) [OF assms(1)] by (auto simp: nth_mem)
  qed
  show ?thesis
    using assms(2) best unfolding header_ancestors_def Let_def
    by (auto split: option.splits if_splits dest: walk_down_mem)
qed

section \<open>Locators\<close>

lemma walk_to_parent_lineage:
  "node_ok n \<Longrightarrow> target \<le> hn_Height n \<Longrightarrow> walk_to_parent target n = lineage n ! unat target"
proof (induction n rule: lineage.induct)
  case (1 hs ht hr w p)
  show ?case
  proof (cases "\<exists>q. p = Some q \<and> ht > target")
    case True
    then obtain q where q: "p = Some q" "ht > target" by blast
    with 1 have "unat ht = Suc (unat (hn_Height q))" by (auto intro: unat_height_step)
    with q(2) have "target \<le> hn_Height q" by (simp add: word_less_nat_alt word_le_nat_alt)
    moreover from this have "unat target < length (lineage q)" using 1(2) q(1) length_lineage [of q]
      by (simp add: word_le_nat_alt)
    ultimately show ?thesis using 1 q by (simp add: nth_append)
  next
    case False
    then have "target = ht" using 1(2,3) by (cases p) auto
    with 1(2) lineage_self [of "HeaderNode hs ht hr w p"] show ?thesis by (cases p) auto
  qed
qed

text \<open>What the locator loop appends: hashes of the node's chain at strictly decreasing heights down to the root.\<close>

definition locates :: "HeaderNode \<Rightarrow> nat list \<Rightarrow> nat \<Rightarrow> bool" where
  "locates n ks k \<longleftrightarrow> ks \<noteq> [] \<and> hd ks = unat (hn_Height n) \<and> last ks = 0 \<and> sorted_wrt (>) ks \<and> length ks \<le> k"

lemma locates_root: "hn_Height n = 0 \<Longrightarrow> 0 < k \<Longrightarrow> locates n [0] k"
  by (simp add: locates_def)

lemma locates_step:
  assumes "node_ok n" "t < unat (hn_Height n)" "locates (lineage n ! t) ks k"
  shows "locates n (unat (hn_Height n) # ks) (Suc k)"
    "map (\<lambda>i. hn_Hash (lineage (lineage n ! t) ! i)) ks = map (\<lambda>i. hn_Hash (lineage n ! i)) ks"
proof -
  have t: "t < length (lineage n)" using assms(1,2) length_lineage [of n] by simp
  have h: "hd ks = t" using assms(3) lineage_nth_height [OF assms(1) t] by (simp add: locates_def)
  have le: "i \<le> t" if "i \<in> set ks" for i
    using assms(3) h that by (cases "ks") (auto simp: locates_def less_imp_le)
  have lt: "i < unat (hn_Height n)" if "i \<in> set ks" for i using le [OF that] assms(2) by linarith
  then show "locates n (unat (hn_Height n) # ks) (Suc k)" using assms(3) by (auto simp: locates_def)
  show "map (\<lambda>i. hn_Hash (lineage (lineage n ! t) ! i)) ks = map (\<lambda>i. hn_Hash (lineage n ! i)) ks"
    using le by (auto simp: lineage_take [OF assms(1) t, symmetric] less_Suc_eq_le)
qed

lemma locator_loop_root: "hn_Height n = 0 \<Longrightarrow> 0 < fuel \<Longrightarrow> locator_loop fuel n step loc = Some (loc @ [hn_Hash n])"
  by (cases fuel) simp_all

lemma locator_loop_step:
  assumes "node_ok n" "hn_Height n \<noteq> 0" "step \<noteq> 0"
  defines "t \<equiv> unat (hn_Height n) - unat step"
  shows "locator_loop (Suc fuel) n step loc =
      locator_loop fuel (lineage n ! t) (if length loc \<ge> 10 then step * 2 else step) (loc @ [hn_Hash n])"
    "t < unat (hn_Height n)" "node_ok (lineage n ! t)" "unat (hn_Height (lineage n ! t)) = t"
proof -
  let ?target = "if hn_Height n \<ge> step then hn_Height n - step else 0"
  show t: "t < unat (hn_Height n)" using assms(2,3) by (simp add: t_def unat_gt_0 word_gt_0 diff_less)
  have u: "unat ?target = t" by (simp add: t_def word_le_nat_alt unat_sub)
  then have "?target \<le> hn_Height n" using t by (simp add: word_le_nat_alt)
  then have "walk_to_parent ?target n = lineage n ! t" using walk_to_parent_lineage [OF assms(1)] u by metis
  moreover have "length (loc @ [hn_Hash n]) > 10 \<longleftrightarrow> length loc \<ge> 10" by auto
  ultimately show "locator_loop (Suc fuel) n step loc =
      locator_loop fuel (lineage n ! t) (if length loc \<ge> 10 then step * 2 else step) (loc @ [hn_Hash n])"
    using assms(2) by (simp add: Let_def)
  have "t < length (lineage n)" using t length_lineage [OF assms(1)] by simp
  then show "node_ok (lineage n ! t)" "unat (hn_Height (lineage n ! t)) = t"
    using lineage_ok [OF assms(1)] lineage_nth_height [OF assms(1)] by auto
qed

lemma unat_exp_u32: "j < 32 \<Longrightarrow> unat (2 ^ j :: u32) = 2 ^ j"
proof -
  assume "j < 32"
  then have "(2 :: nat) ^ j < 2 ^ 32" by (intro power_strict_increasing) auto
  then have "unat (of_nat (2 ^ j) :: u32) = 2 ^ j" by (subst unat_of_nat) simp
  then show ?thesis by simp
qed

lemma locator_doubling:
  "node_ok n \<Longrightarrow> unat (hn_Height n) \<le> 2 ^ 32 - 2 ^ j \<Longrightarrow> j \<le> 32 \<Longrightarrow> 10 \<le> length loc \<Longrightarrow>
     \<exists>ks. locator_loop (33 - j) n (2 ^ j) loc = Some (loc @ map (\<lambda>i. hn_Hash (lineage n ! i)) ks) \<and> locates n ks (33 - j)"
proof (induction "32 - j" arbitrary: j n loc)
  case 0
  then have "hn_Height n = 0" "j = 32" by (simp_all add: unat_eq_zero)
  with 0(2) lineage_self [of n] locates_root [of n 1] show ?case by (intro exI [of _ "[0]"]) simp
next
  case (Suc d)
  have f: "33 - j = Suc (33 - Suc j)" using Suc(2) by simp
  show ?case
  proof (cases "hn_Height n = 0")
    case True
    with Suc(3) lineage_self [of n] locates_root [OF True, of "33 - j"] Suc(2) show ?thesis
      unfolding f by (intro exI [of _ "[0]"]) simp
  next
    case False
    have j: "j < 32" using Suc(2) by simp
    have w: "unat (2 ^ j :: u32) = 2 ^ j" using j by (rule_tac unat_exp_u32)
    then have nz: "(2 ^ j :: u32) \<noteq> 0" by (metis power_not_zero unat_0 zero_neq_numeral)
    define t where "t = unat (hn_Height n) - unat (2 ^ j :: u32)"
    note st = locator_loop_step [OF Suc(3) False nz, folded t_def]
    have "t \<le> 2 ^ 32 - 2 ^ Suc j" using Suc(4) by (simp add: t_def w)
    then obtain ks where ks_: "locator_loop (33 - Suc j) (lineage n ! t) (2 ^ Suc j) (loc @ [hn_Hash n])
        = Some ((loc @ [hn_Hash n]) @ map (\<lambda>i. hn_Hash (lineage (lineage n ! t) ! i)) ks)" "locates (lineage n ! t) ks (33 - Suc j)"
    proof -
      have "d = 32 - Suc j" using Suc(2) by linarith
      from Suc(1) [OF this st(3), of "loc @ [hn_Hash n]"] \<open>t \<le> _\<close> j Suc(6) st(4) show ?thesis using that by auto
    qed
    note ls = locates_step [OF Suc(3) st(2) ks_(2)]
    have "locator_loop (33 - j) n (2 ^ j) loc = Some (loc @ map (\<lambda>i. hn_Hash (lineage n ! i)) (unat (hn_Height n) # ks))"
      unfolding f st(1) using Suc(6) ks_(1) ls(2) lineage_self [OF Suc(3)] by (simp add: mult.commute)
    with ls(1) show ?thesis unfolding f by blast
  qed
qed

lemma locator_consecutive:
  "node_ok n \<Longrightarrow> d = 10 - length loc \<Longrightarrow>
     \<exists>ks. locator_loop (d + 33) n 1 loc = Some (loc @ map (\<lambda>i. hn_Hash (lineage n ! i)) ks) \<and> locates n ks (d + 33)"
proof (induction d arbitrary: n loc)
  case 0
  have "unat (hn_Height n) < 2 ^ LENGTH(32)" by (rule unsigned_less)
  then have "unat (hn_Height n) \<le> 2 ^ 32 - 2 ^ 0" by simp
  from locator_doubling [OF 0(1) this] 0(2) show ?case by (simp only: diff_zero add_0 power_0 zero_le le_diff_conv)
next
  case (Suc d)
  show ?case
  proof (cases "hn_Height n = 0")
    case True
    with Suc(2) lineage_self [of n] locates_root [OF True, of "Suc d + 33"] show ?thesis
      using locator_loop_root [OF True, of "Suc d + 33"] by (intro exI [of _ "[0]"]) simp
  next
    case False
    define t where "t = unat (hn_Height n) - unat (1 :: u32)"
    note st = locator_loop_step [OF Suc(2) False one_neq_zero, folded t_def]
    obtain ks where ks_: "locator_loop (d + 33) (lineage n ! t) 1 (loc @ [hn_Hash n])
        = Some ((loc @ [hn_Hash n]) @ map (\<lambda>i. hn_Hash (lineage (lineage n ! t) ! i)) ks)" "locates (lineage n ! t) ks (d + 33)"
    proof -
      have "d = 10 - length (loc @ [hn_Hash n])" using Suc(3) by simp
      from Suc(1) [OF st(3) this] show ?thesis using that by auto
    qed
    note ls = locates_step [OF Suc(2) st(2) ks_(2)]
    have "locator_loop (Suc d + 33) n 1 loc = Some (loc @ map (\<lambda>i. hn_Hash (lineage n ! i)) (unat (hn_Height n) # ks))"
    proof -
      have "\<not> 10 \<le> length loc" using Suc(3) by simp
      then show ?thesis unfolding add_Suc st(1) using ks_(1) ls(2) lineage_self [OF Suc(2)] by simp
    qed
    with ls(1) show ?thesis unfolding add_Suc by blast
  qed
qed

lemma locator_loop_mono:
  "locator_loop fuel n step loc = Some l \<Longrightarrow> fuel \<le> fuel' \<Longrightarrow> locator_loop fuel' n step loc = Some l"
proof (induction fuel arbitrary: fuel' n step loc)
  case (Suc fuel)
  then obtain f where f: "fuel' = Suc f" "fuel \<le> f" by (cases fuel') auto
  show ?case
  proof (cases "hn_Height n = 0")
    case True
    with Suc.prems(1) f(1) show ?thesis by (simp add: Let_def)
  next
    case False
    with Suc.prems(1) Suc.IH [OF _ f(2)] show ?thesis unfolding f(1) locator_loop.simps Let_def by (simp only: if_False)
  qed
qed simp

lemma length_le_sum_list: "\<forall>x \<in> set xs. 1 \<le> f x \<Longrightarrow> int (length xs) \<le> (\<Sum>x \<leftarrow> xs. f x)"
  by (induction xs) auto

section \<open>Validated indexes\<close>

lemma work_lineage: "node_ok n \<Longrightarrow> hn_Work n = (\<Sum>m \<leftarrow> lineage n. CalcWork (hdr_Bits (hn_Header m)))"
proof (induction n rule: lineage.induct)
  case (1 hs ht hr w p)
  then show ?case by (cases p) auto
qed

lemma index_reachable_genesis: "index_reachable p e g idx \<Longrightarrow> hn_Header (hi_genesis idx) = g"
proof (induction rule: index_reachable.induct)
  case new
  show ?case by (simp add: NewHeaderIndex_def Let_def)
next
  case (add idx header nowUnix)
  obtain r idx' where a: "addHeaderLocked header nowUnix idx = (r, idx')" by fastforce
  from a have "hi_genesis idx' = hi_genesis idx"
    by (rule addHeaderLocked_cases)
      (use link_node_ok(3) [OF index_reachable_ok [OF add(1)] _ _ add(2)] in
        \<open>auto simp: addRejectedLocked_def pruneStaleForks_def Let_def split: prod.splits\<close>)
  with add.IH a show ?case by (simp add: AddHeader_def)
next
  case (trusted idx header)
  then show ?case using InsertTrustedHeader_cases [of header idx] link_node_ok(3) [OF index_reachable_ok [OF trusted(1)] _ _ trusted(2)]
    by auto
qed

text \<open>Every header of the index, and every ancestor of one, has a target the network allows.\<close>

definition targets_ok :: "HeaderIndex \<Rightarrow> bool" where
  "targets_ok idx \<longleftrightarrow> (\<forall>(h, n) \<in> set (hi_byHash idx). \<forall>m \<in> set (lineage n). target_ok (hi_params idx) (hdr_Bits (hn_Header m)))"

lemma link_node_params [simp]:
  "hi_params (link_node header q idx) = hi_params idx" "hi_engine (link_node header q idx) = hi_engine idx"
  by (simp_all add: link_node_def rebuildHeightIndex_def Let_def)

lemma AddHeader_params [simp]:
  "hi_params (snd (AddHeader header now idx)) = hi_params idx" "hi_engine (snd (AddHeader header now idx)) = hi_engine idx"
proof -
  obtain r idx' where a: "addHeaderLocked header now idx = (r, idx')" by fastforce
  from a have "hi_params idx' = hi_params idx \<and> hi_engine idx' = hi_engine idx"
    by (rule addHeaderLocked_cases) (auto simp: addRejectedLocked_def pruneStaleForks_def Let_def split: prod.splits)
  with a show "hi_params (snd (AddHeader header now idx)) = hi_params idx" "hi_engine (snd (AddHeader header now idx)) = hi_engine idx"
    by (simp_all add: AddHeader_def)
qed

lemma FullValidateHeader_engine:
  "FullValidateHeader v header parent height ga now tip p = Inr () \<Longrightarrow> v header parent height ga p = Inr ()"
  unfolding FullValidateHeader_def by (cases "v header parent height ga p") (auto simp: rbind_def)

lemma AddHeader_targets:
  assumes rt: "GetRetargeter name = Some (eng_retargeter (hi_engine idx))" and p: "params_ok (hi_params idx)"
    and ok: "index_ok idx" "height_room 2 idx" "targets_ok idx"
  shows "targets_ok (snd (AddHeader header now idx))"
proof -
  have lin: "target_ok (hi_params idx) (hdr_Bits (hn_Header m))"
    if "map_of (hi_byHash idx) h = Some n" "m \<in> set (lineage n)" for h n m
    using ok(3) map_of_SomeD [OF that(1)] that(2) by (auto simp: targets_ok_def)
  obtain r idx' where a: "addHeaderLocked header now idx = (r, idx')" by fastforce
  from a have "targets_ok idx'"
  proof (rule addHeaderLocked_cases)
    assume "idx' = addRejectedLocked (HashBlockHeader header) idx"
    then show ?thesis using ok(3) by (auto simp: targets_ok_def addRejectedLocked_def split: prod.splits)
  next
    fix q
    assume q: "map_of (hi_byHash idx) (HashBlockHeader header) = None" "map_of (hi_byHash idx) (hdr_PrevBlock header) = Some q"
      and v: "FullValidateHeader (ValidateHeader (hi_engine idx)) header (hn_Header q) (hn_Height q + 1)
        (header_ancestors idx q) now (hn_Height q) (hi_params idx) = Inr ()"
      and idx': "idx' = link_node header q idx \<or> idx' = pruneStaleForks (link_node header q idx)"
    have qt: "target_ok (hi_params idx) (hdr_Bits (hn_Header q))" using lin [OF q(2) lineage_mem] .
    have anc: "target_ok (hi_params idx) (hdr_Bits x)" if "header_ancestors idx q h = Some x" for h x
      using header_ancestors_mem [OF ok(1) that] lin [OF q(2)] lin [OF index_ok_best(3) [OF ok(1)]] by auto
    obtain bits where bits: "calcExpectedBits (hi_engine idx) header (hn_Header q) (hn_Height q + 1) (header_ancestors idx q)
        (hi_params idx) = Some bits" "target_ok (hi_params idx) bits"
      using retargeter.calcExpectedBits_ok [OF GetRetargeter_cases [OF rt] refl p qt, of "header_ancestors idx q"] anc
      by blast
    with FullValidateHeader_engine [OF v] have "target_ok (hi_params idx) (hdr_Bits header)"
      by (auto simp: ValidateHeader_def Let_def split: if_splits)
    then have "targets_ok (link_node header q idx)"
      using ok(3) lin [OF q(2)] unfolding targets_ok_def link_node_ok(2) [OF ok(1) q ok(2)] by auto
    then show ?thesis using idx' by (auto simp: targets_ok_def dest!: prune_subset)
  qed (use ok(3) in simp)
  with a show ?thesis by (simp add: AddHeader_def)
qed

lemma add_headers_targets:
  "GetRetargeter name = Some (eng_retargeter (hi_engine idx)) \<Longrightarrow> params_ok (hi_params idx) \<Longrightarrow> index_ok idx \<Longrightarrow>
     height_room (length hs + 2) idx \<Longrightarrow> targets_ok idx \<Longrightarrow> add_headers n hs now idx = (m, err, idx') \<Longrightarrow>
     targets_ok idx' \<and> hi_params idx' = hi_params idx"
proof (induction hs arbitrary: n idx)
  case (Cons h hs)
  obtain r idx1 where a: "addHeaderLocked h now idx = (r, idx1)" by fastforce
  have one: "idx1 = snd (AddHeader h now idx)" by (simp add: AddHeader_def a)
  have r2: "height_room 2 idx" using Cons.prems(4) by (rule height_room_mono) simp
  have t: "targets_ok idx1" unfolding one using AddHeader_targets [OF Cons.prems(1-3) r2 Cons.prems(5)] .
  have ok: "index_ok idx1" unfolding one using AddHeader_ok [OF Cons.prems(3) r2] .
  have room: "height_room (length hs + 2) idx1"
    unfolding one using AddHeader_room [OF Cons.prems(3), of "length hs + 2"] Cons.prems(4) by simp
  have pe: "hi_params idx1 = hi_params idx" "hi_engine idx1 = hi_engine idx" unfolding one by simp_all
  show ?case
    using Cons.prems(6) Cons.IH [OF _ _ ok room t] Cons.prems(1,2) t pe by (auto simp: a split: sum.splits if_splits)
qed simp

section \<open>Properties\<close>

text \<open>C10. Fork choice of the header index: however headers are added, every header of the index is stored under its
  own hash, its work is the sum of the work of its ancestors, the best header has the most work of all, and
  the height slice that serves lookups is exactly the chain of the best header, from the
  genesis header on. The cache of rejected headers stays bounded.\<close>

theorem header_index_fork_choice:
  assumes "index_reachable p e g idx" "map_of (hi_byHash idx) h = Some n"
  shows "h = HashBlockHeader (hn_Header n) \<and> hn_Work n = (\<Sum>m \<leftarrow> lineage n. CalcWork (hdr_Bits (hn_Header m)))
     \<and> hn_Header (hd (lineage n)) = g \<and> hn_Work n \<le> hn_Work (hi_bestHeader idx)
     \<and> hi_bestChainByHeight idx = map Some (lineage (hi_bestHeader idx)) \<and> card (hi_rejected idx) \<le> 50000"
proof -
  note ok = index_reachable_ok [OF assms(1)]
  note n = index_okD [OF ok assms(2)]
  have "hn_Hash n = HashBlockHeader (hn_Header n)" using n(2) by (cases n) simp
  with n work_lineage [OF n(2)] index_reachable_genesis [OF assms(1)] ok show ?thesis by (auto simp: index_ok_def)
qed

theorem header_index_fork_choice_witness:
  "hi_bestChainByHeight (NewHeaderIndex Mainnet demo_engine demo_tip)
     = map Some (lineage (hi_bestHeader (NewHeaderIndex Mainnet demo_engine demo_tip)))"
proof -
  let ?idx = "NewHeaderIndex Mainnet demo_engine demo_tip"
  have "map_of (hi_byHash ?idx) (HashBlockHeader demo_tip) = Some (hi_bestHeader ?idx)"
    by (simp add: NewHeaderIndex_def Let_def)
  from header_index_fork_choice [OF index_reachable.new this] show ?thesis by blast
qed

text \<open>Ancestor lookup follows the header's own chain: below a header of the index, the lookup through the slice of
  the best chain gives the same header as walking the parent pointers, also on a fork.\<close>

theorem header_ancestors_own_chain:
  assumes "index_reachable p e g idx" "height_room 1 idx" "map_of (hi_byHash idx) h = Some n" "height \<le> hn_Height n"
  shows "header_ancestors idx n height = Some (hn_Header (lineage n ! unat height))"
  using header_ancestors_lineage [OF index_reachable_ok [OF assms(1)] assms(2,3,4)] .

theorem header_ancestors_own_chain_witness:
  "header_ancestors (NewHeaderIndex Mainnet demo_engine demo_tip)
     (hi_bestHeader (NewHeaderIndex Mainnet demo_engine demo_tip)) 0 = Some demo_tip"
proof -
  let ?idx = "NewHeaderIndex Mainnet demo_engine demo_tip"
  have "map_of (hi_byHash ?idx) (HashBlockHeader demo_tip) = Some (hi_bestHeader ?idx)" "height_room 1 ?idx"
    by (simp_all add: NewHeaderIndex_def Let_def height_room_def)
  from header_ancestors_own_chain [OF index_reachable.new this(2,1), of 0] show ?thesis
    by (simp add: NewHeaderIndex_def Let_def)
qed

text \<open>Headers taken in from peers: whatever batch is added to a fresh index, every header it then holds has a
  target the network allows, and the work of its chain is greater than its height.\<close>

theorem added_headers_work:
  assumes "GetRetargeter name = Some (eng_retargeter e)" "params_ok p" "target_ok p (hdr_Bits g)"
    and "length headers + 2 < 2 ^ 32" "AddHeaders headers nowUnix (NewHeaderIndex p e g) = (added, err, idx)"
    and "map_of (hi_byHash idx) h = Some n"
  shows "target_ok p (hdr_Bits (hn_Header n)) \<and> int (unat (hn_Height n)) < hn_Work n"
proof -
  let ?new = "NewHeaderIndex p e g"
  have new: "hi_params ?new = p" "hi_engine ?new = e" "targets_ok ?new" "height_room (length headers + 2) ?new"
    using assms(3,4) by (auto simp: NewHeaderIndex_def Let_def targets_ok_def height_room_def)
  have t: "targets_ok idx \<and> hi_params idx = p"
    using add_headers_targets [of name ?new headers 0 nowUnix] assms(1,2,5) new by (simp add: index_ok_New AddHeaders_def)
  have r: "index_reachable p e g idx"
    using add_headers_reachable [OF index_reachable.new new(4)] assms(5) by (simp add: AddHeaders_def)
  note n = index_okD [OF index_reachable_ok [OF r] assms(6)]
  have tn: "target_ok p (hdr_Bits (hn_Header m))" if "m \<in> set (lineage n)" for m
    using t map_of_SomeD [OF assms(6)] that by (auto simp: targets_ok_def)
  then have "\<forall>m \<in> set (lineage n). 1 \<le> CalcWork (hdr_Bits (hn_Header m))"
    using CalcWork_pos_iff by (force simp: target_ok_def)
  then have "int (length (lineage n)) \<le> (\<Sum>m \<leftarrow> lineage n. CalcWork (hdr_Bits (hn_Header m)))"
    by (rule length_le_sum_list)
  then show ?thesis using work_lineage [OF n(2)] length_lineage [OF n(2)] tn [OF lineage_mem] by simp
qed

theorem added_headers_work_witness:
  "target_ok Mainnet (hdr_Bits demo_tip) \<and>
     0 < hn_Work (hi_bestHeader (NewHeaderIndex Mainnet demo_engine demo_tip))"
proof -
  let ?idx = "NewHeaderIndex Mainnet demo_engine demo_tip"
  have "target_ok Mainnet (hdr_Bits demo_tip)" by code_simp
  moreover have "AddHeaders [] 0 ?idx = (0, None, ?idx)" by (simp add: AddHeaders_def)
  moreover have "map_of (hi_byHash ?idx) (HashBlockHeader demo_tip) = Some (hi_bestHeader ?idx)"
    by (simp add: NewHeaderIndex_def Let_def)
  moreover have "GetRetargeter ''bitcoin'' = Some (eng_retargeter demo_engine)"
    by (simp add: GetRetargeter_def demo_engine_def)
  ultimately show ?thesis
    using added_headers_work [of "''bitcoin''" demo_engine Mainnet demo_tip "[]" 0 0 None ?idx "HashBlockHeader demo_tip"]
      params_ok_networks(1) by (auto simp: NewHeaderIndex_def Let_def)
qed

text \<open>C32. The block locator loop ends within 43 iterations, although its doubling step is a 32-bit number that
  would wrap to zero: it lists hashes of the best chain at strictly decreasing heights, from the tip
  down to the genesis header.\<close>

theorem header_locator_complete:
  assumes "index_reachable p e g idx" "43 \<le> fuel"
  shows "\<exists>ks. HeaderLocator fuel idx = Some (map (\<lambda>i. hn_Hash (lineage (hi_bestHeader idx) ! i)) ks)
     \<and> hd ks = unat (hn_Height (hi_bestHeader idx)) \<and> last ks = 0 \<and> sorted_wrt (>) ks \<and> ks \<noteq> [] \<and> length ks \<le> 43"
proof -
  have ok: "node_ok (hi_bestHeader idx)" using index_ok_best(1) [OF index_reachable_ok [OF assms(1)]] .
  from locator_consecutive [OF ok, of 10 "[]"] obtain ks where
    ks: "locator_loop 43 (hi_bestHeader idx) 1 [] = Some (map (\<lambda>i. hn_Hash (lineage (hi_bestHeader idx) ! i)) ks)"
    "locates (hi_bestHeader idx) ks 43" by auto
  then have "HeaderLocator fuel idx = Some (map (\<lambda>i. hn_Hash (lineage (hi_bestHeader idx) ! i)) ks)"
    unfolding HeaderLocator_def using locator_loop_mono [OF ks(1) assms(2)] by simp
  with ks(2) show ?thesis by (auto simp: locates_def)
qed

theorem header_locator_complete_witness:
  "\<exists>ks. HeaderLocator 43 (NewHeaderIndex Mainnet demo_engine demo_tip)
     = Some (map (\<lambda>i. hn_Hash (lineage (hi_bestHeader (NewHeaderIndex Mainnet demo_engine demo_tip)) ! i)) ks) \<and> last ks = 0"
  using header_locator_complete [OF index_reachable.new, of 43 Mainnet demo_engine demo_tip] by auto

end
