(* ===== verification/BlockStore.thy ===== *)
theory BlockStore
  imports Utxo
begin

text \<open>
  The storage interface of the node (\<^verbatim>\<open>internal/store/store.go\<close>) and the record of the block index
  (\<^verbatim>\<open>blockindex.go\<close>). The interface is a record of operations over a type \<open>'s\<close> of storage states: a read is a
  function of the state, \<open>None\<close> being its error; a write returns the new state and \<open>None\<close> on an error. The methods
  that exist with and without \<^verbatim>\<open>fsync\<close> take the choice as their first argument (\<open>True\<close> is the synchronous method),
  and the callback iterations return what they would pass to the callback. The locale
  \<open>block_store\<close> states what the chain relies on, in terms of what a location of the block and undo
  files holds; theory Store discharges it for \<^verbatim>\<open>FileStore\<close>.
\<close>

section \<open>Index records and write batches\<close>

abbreviation (input) StatusValidHeader :: u32 where "StatusValidHeader \<equiv> 1"
abbreviation (input) StatusValidTx :: u32 where "StatusValidTx \<equiv> 4"
abbreviation (input) StatusHaveData :: u32 where "StatusHaveData \<equiv> 16"
abbreviation (input) StatusHaveUndo :: u32 where "StatusHaveUndo \<equiv> 32"

record DiskBlockIndex =
  dbi_Header :: BlockHeader
  dbi_Height :: u32
  dbi_Status :: u32
  dbi_TxCount :: u32
  dbi_FileNum :: u32
  dbi_DataPos :: u32
  dbi_DataSize :: u32
  dbi_UndoFile :: u32
  dbi_UndoPos :: u32
  dbi_UndoSize :: u32
  dbi_ChainWork :: int

datatype batch_op =
    PutUtxo hash u32 bytes
  | DeleteUtxo hash u32
  | PutBestBlock hash

section \<open>The interface\<close>

record 's BlockStore =
  bs_HasBlock :: "'s \<Rightarrow> hash \<Rightarrow> bool"
  bs_WriteBlock :: "bool \<Rightarrow> hash \<Rightarrow> Block \<Rightarrow> 's \<Rightarrow> (u32 \<times> u32 \<times> u32) option \<times> 's"
  bs_ReadBlock :: "'s \<Rightarrow> u32 \<Rightarrow> u32 \<Rightarrow> u32 \<Rightarrow> Block option"
  bs_WriteUndo :: "bool \<Rightarrow> u32 \<Rightarrow> bytes \<Rightarrow> 's \<Rightarrow> (u32 \<times> u32) option \<times> 's"
  bs_ReadUndo :: "'s \<Rightarrow> u32 \<Rightarrow> u32 \<Rightarrow> u32 \<Rightarrow> bytes option"
  bs_SyncBlockFiles :: "'s \<Rightarrow> unit option \<times> 's"
  bs_PutBlockIndex :: "bool \<Rightarrow> hash \<Rightarrow> DiskBlockIndex \<Rightarrow> 's \<Rightarrow> unit option \<times> 's"
  bs_FlushBlockIndex :: "'s \<Rightarrow> unit option \<times> 's"
  bs_GetBlockIndex :: "'s \<Rightarrow> hash \<Rightarrow> DiskBlockIndex option"
  bs_DeleteBlockIndex :: "hash \<Rightarrow> 's \<Rightarrow> unit option \<times> 's"
  bs_ForEachBlockIndex :: "'s \<Rightarrow> (hash \<times> DiskBlockIndex) list option"
  bs_GetChainTip :: "'s \<Rightarrow> (hash \<times> u32) option"
  bs_PutChainTip :: "bool \<Rightarrow> hash \<Rightarrow> u32 \<Rightarrow> 's \<Rightarrow> unit option \<times> 's"
  bs_FlushUtxoBatch :: "bool \<Rightarrow> batch_op list \<Rightarrow> 's \<Rightarrow> unit option \<times> 's"
  bs_GetBestBlock :: "'s \<Rightarrow> hash option"
  bs_ForEachUtxo :: "'s \<Rightarrow> (hash \<times> u32 \<times> bytes) list option"
  bs_GetBlock :: "'s \<Rightarrow> hash \<Rightarrow> Block option"
  bs_GetHeader :: "'s \<Rightarrow> hash \<Rightarrow> BlockHeader option"

section \<open>The contract\<close>

text \<open>
  \<open>block_at s f pos sz b\<close> says that the location holds block \<open>b\<close>, \<open>undo_at\<close> the same for undo data: a read there gives
  that value or fails. \<open>keeps\<close> says that an operation leaves all such values in place.
  \<open>healthy s\<close> says that no write has failed on the way to \<open>s\<close>, so the laws of an operation have it as a hypothesis on
  the state after it. Blocks are within the limits of the wire format, as blocks that were received are.
\<close>

definition keeps ::
  "('s \<Rightarrow> u32 \<Rightarrow> u32 \<Rightarrow> u32 \<Rightarrow> Block \<Rightarrow> bool) \<Rightarrow> ('s \<Rightarrow> u32 \<Rightarrow> u32 \<Rightarrow> u32 \<Rightarrow> bytes \<Rightarrow> bool) \<Rightarrow> 's \<Rightarrow> 's \<Rightarrow> bool" where
  "keeps block_at undo_at s s' \<longleftrightarrow>
     (\<forall>f pos sz b. block_at s f pos sz b \<longrightarrow> block_at s' f pos sz b)
     \<and> (\<forall>f pos sz u. undo_at s f pos sz u \<longrightarrow> undo_at s' f pos sz u)"

locale block_store =
  fixes B :: "'s BlockStore" and healthy :: "'s \<Rightarrow> bool"
    and block_at :: "'s \<Rightarrow> u32 \<Rightarrow> u32 \<Rightarrow> u32 \<Rightarrow> Block \<Rightarrow> bool"
    and undo_at :: "'s \<Rightarrow> u32 \<Rightarrow> u32 \<Rightarrow> u32 \<Rightarrow> bytes \<Rightarrow> bool"
  assumes GetHeader_index: "bs_GetHeader B s h = map_option dbi_Header (bs_GetBlockIndex B s h)"
    and GetBlock_index: "bs_GetBlock B s h = Some b \<Longrightarrow> HashBlockHeader (blk_Header b) = h
       \<and> (\<exists>rec. bs_GetBlockIndex B s h = Some rec \<and> bs_ReadBlock B s (dbi_FileNum rec) (dbi_DataPos rec) (dbi_DataSize rec) = Some b)"
    and ReadBlock_at: "block_at s f pos sz b \<Longrightarrow> bs_ReadBlock B s f pos sz = Some b' \<Longrightarrow> b' = b"
    and ReadUndo_at: "undo_at s f pos sz u \<Longrightarrow> bs_ReadUndo B s f pos sz = Some u' \<Longrightarrow> u' = u"
    and undo_at_length: "undo_at s f pos sz u \<Longrightarrow> length u < 2 ^ 32"
    and WriteBlock_law: "bs_WriteBlock B sync h b s = (rb, s') \<Longrightarrow> healthy s' \<Longrightarrow>
       healthy s \<and> keeps block_at undo_at s s' \<and> bs_GetBlockIndex B s' = bs_GetBlockIndex B s
       \<and> (\<exists>f pos sz. rb = Some (f, pos, sz) \<and> (Block_ok b \<longrightarrow> block_at s' f pos sz b))"
    and WriteUndo_law: "bs_WriteUndo B sync f u s = (ru, s') \<Longrightarrow> healthy s' \<Longrightarrow>
       healthy s \<and> keeps block_at undo_at s s' \<and> bs_GetBlockIndex B s' = bs_GetBlockIndex B s
       \<and> (\<exists>pos sz. ru = Some (pos, sz) \<and> undo_at s' f pos sz u)"
    and PutBlockIndex_law: "bs_PutBlockIndex B sync h rec s = (ri, s') \<Longrightarrow> healthy s' \<Longrightarrow>
       healthy s \<and> keeps block_at undo_at s s' \<and> bs_GetBlockIndex B s' = (bs_GetBlockIndex B s)(h \<mapsto> rec) \<and> ri = Some ()"
    and DeleteBlockIndex_law: "bs_DeleteBlockIndex B h s = (rd, s') \<Longrightarrow> healthy s' \<Longrightarrow>
       healthy s \<and> keeps block_at undo_at s s' \<and> bs_GetBlockIndex B s' = (bs_GetBlockIndex B s)(h := None)"
    and PutChainTip_law: "bs_PutChainTip B sync h n s = (rt, s') \<Longrightarrow> healthy s' \<Longrightarrow>
       healthy s \<and> keeps block_at undo_at s s' \<and> bs_GetBlockIndex B s' = bs_GetBlockIndex B s \<and> rt = Some ()"
    and FlushUtxoBatch_law: "bs_FlushUtxoBatch B sync ops s = (rf, s') \<Longrightarrow> healthy s' \<Longrightarrow>
       healthy s \<and> keeps block_at undo_at s s' \<and> bs_GetBlockIndex B s' = bs_GetBlockIndex B s \<and> rf = Some ()
       \<and> bs_GetBlock B s' = bs_GetBlock B s \<and> bs_ReadUndo B s' = bs_ReadUndo B s"
    and SyncBlockFiles_law: "bs_SyncBlockFiles B s = (r, s') \<Longrightarrow> healthy s' \<Longrightarrow>
       healthy s \<and> keeps block_at undo_at s s' \<and> bs_GetBlockIndex B s' = bs_GetBlockIndex B s"
    and FlushBlockIndex_law: "bs_FlushBlockIndex B s = (r, s') \<Longrightarrow> healthy s' \<Longrightarrow>
       healthy s \<and> keeps block_at undo_at s s' \<and> bs_GetBlockIndex B s' = bs_GetBlockIndex B s"
begin

lemma keeps_refl [simp]: "keeps block_at undo_at s s"
  by (simp add: keeps_def)

lemma keeps_trans: "keeps block_at undo_at s s' \<Longrightarrow> keeps block_at undo_at s' s'' \<Longrightarrow> keeps block_at undo_at s s''"
  by (simp add: keeps_def)

text \<open>What a read by hash returns is the block at the location the index names.\<close>

lemma GetBlock_at:
  assumes "bs_GetBlock B s h = Some b" "bs_GetBlockIndex B s h = Some rec"
    and "block_at s (dbi_FileNum rec) (dbi_DataPos rec) (dbi_DataSize rec) b'"
  shows "b = b'" "HashBlockHeader (blk_Header b) = h"
  using GetBlock_index [OF assms(1)] ReadBlock_at [OF assms(3)] assms(2) by auto

end

end
