(* ===== verification/Sem.thy ===== *)
theory Sem
  imports Prelude
begin

text \<open>
  Stateful Go code that can return an error. A computation maps a state to a result and a new state: \<open>Inl\<close> is the
  error, and the state changes made before it stay. The outer option is there for loops without a syntactic
  bound: \<open>None\<close> is a computation that does not end. \<open>triple P m Q R\<close> is the partial
  correctness triple with a postcondition \<open>Q\<close> for success and \<open>R\<close> for an error; \<open>terminates P m\<close> is termination.
\<close>

type_synonym ('c, 'e, 'a) sem = "'c \<Rightarrow> (('e + 'a) \<times> 'c) option"

section \<open>Operations\<close>

definition sret :: "'a \<Rightarrow> ('c, 'e, 'a) sem" where
  "sret x c = Some (Inr x, c)"

definition sfail :: "'e \<Rightarrow> ('c, 'e, 'a) sem" where
  "sfail e c = Some (Inl e, c)"

definition sbind :: "('c, 'e, 'a) sem \<Rightarrow> ('a \<Rightarrow> ('c, 'e, 'b) sem) \<Rightarrow> ('c, 'e, 'b) sem" where
  "sbind m f c = (case m c of
     None \<Rightarrow> None
   | Some (Inl e, c') \<Rightarrow> Some (Inl e, c')
   | Some (Inr x, c') \<Rightarrow> f x c')"

text \<open>\<open>swith\<close> reads the state, \<open>supd\<close> changes it, \<open>slift\<close> runs a fallible computation without effects.\<close>

definition swith :: "('c \<Rightarrow> ('c, 'e, 'a) sem) \<Rightarrow> ('c, 'e, 'a) sem" where
  "swith f c = f c c"

definition supd :: "('c \<Rightarrow> 'c) \<Rightarrow> ('c, 'e, unit) sem" where
  "supd f c = Some (Inr (), f c)"

definition slift :: "'e + 'a \<Rightarrow> ('c, 'e, 'a) sem" where
  "slift r c = Some (r, c)"

text \<open>\<open>on_error m f\<close> cleans up with \<open>f\<close> when \<open>m\<close> fails, and passes the error on.\<close>

definition on_error :: "('c, 'e, 'a) sem \<Rightarrow> ('e \<Rightarrow> 'c \<Rightarrow> 'c) \<Rightarrow> ('c, 'e, 'a) sem" where
  "on_error m f c = (case m c of
     None \<Rightarrow> None
   | Some (Inl e, c') \<Rightarrow> Some (Inl e, f e c')
   | Some (Inr x, c') \<Rightarrow> Some (Inr x, c'))"

definition opt_err :: "'e \<Rightarrow> 'a option \<Rightarrow> 'e + 'a" where
  "opt_err e r = (case r of None \<Rightarrow> Inl e | Some x \<Rightarrow> Inr x)"

lemma opt_err_iff [simp]: "opt_err e r = Inr x \<longleftrightarrow> r = Some x" "opt_err e r = Inl e' \<longleftrightarrow> r = None \<and> e' = e"
  by (auto simp: opt_err_def split: option.splits)

section \<open>Triples\<close>

definition triple :: "('c \<Rightarrow> bool) \<Rightarrow> ('c, 'e, 'a) sem \<Rightarrow> ('a \<Rightarrow> 'c \<Rightarrow> bool) \<Rightarrow> ('e \<Rightarrow> 'c \<Rightarrow> bool) \<Rightarrow> bool" where
  "triple P m Q R \<longleftrightarrow> (\<forall>c r c'. P c \<longrightarrow> m c = Some (r, c') \<longrightarrow> (case r of Inl e \<Rightarrow> R e c' | Inr x \<Rightarrow> Q x c'))"

lemma tripleI: "(\<And>c r c'. P c \<Longrightarrow> m c = Some (r, c') \<Longrightarrow> (case r of Inl e \<Rightarrow> R e c' | Inr x \<Rightarrow> Q x c')) \<Longrightarrow> triple P m Q R"
  by (simp add: triple_def)

lemma tripleD: "triple P m Q R \<Longrightarrow> P c \<Longrightarrow> m c = Some (r, c') \<Longrightarrow> (case r of Inl e \<Rightarrow> R e c' | Inr x \<Rightarrow> Q x c')"
  by (simp add: triple_def)

lemma tripleD_ok: "triple P m Q R \<Longrightarrow> P c \<Longrightarrow> m c = Some (Inr x, c') \<Longrightarrow> Q x c'"
  by (drule (2) tripleD) simp

lemma tripleD_err: "triple P m Q R \<Longrightarrow> P c \<Longrightarrow> m c = Some (Inl e, c') \<Longrightarrow> R e c'"
  by (drule (2) tripleD) simp

lemma triple_weaken:
  "triple P m Q R \<Longrightarrow> (\<And>c. P' c \<Longrightarrow> P c) \<Longrightarrow> (\<And>x c. Q x c \<Longrightarrow> Q' x c) \<Longrightarrow> (\<And>e c. R e c \<Longrightarrow> R' e c) \<Longrightarrow> triple P' m Q' R'"
  unfolding triple_def by (metis (mono_tags, lifting) sum.case sum.exhaust_sel)

lemma triple_pre: "(\<And>c. P' c \<Longrightarrow> P c) \<Longrightarrow> triple P m Q R \<Longrightarrow> triple P' m Q R"
  by (rule triple_weaken)

lemma triple_ret: "(\<And>c. P c \<Longrightarrow> Q x c) \<Longrightarrow> triple P (sret x) Q R"
  by (simp add: triple_def sret_def)

lemma triple_fail: "(\<And>c. P c \<Longrightarrow> R e c) \<Longrightarrow> triple P (sfail e) Q R"
  by (simp add: triple_def sfail_def)

lemma triple_bind:
  "triple P m Q R \<Longrightarrow> (\<And>x. triple (Q x) (f x) Q' R) \<Longrightarrow> triple P (sbind m f) Q' R"
  unfolding triple_def sbind_def by (fastforce split: option.splits sum.splits)

lemma triple_with: "(\<And>c. P c \<Longrightarrow> triple (\<lambda>c'. c' = c \<and> P c') (f c) Q R) \<Longrightarrow> triple P (swith f) Q R"
  unfolding triple_def swith_def by blast

lemma triple_mod: "(\<And>c. P c \<Longrightarrow> Q () (f c)) \<Longrightarrow> triple P (supd f) Q R"
  by (simp add: triple_def supd_def)

lemma triple_lift: "(\<And>c x. P c \<Longrightarrow> r = Inr x \<Longrightarrow> Q x c) \<Longrightarrow> (\<And>c e. P c \<Longrightarrow> r = Inl e \<Longrightarrow> R e c) \<Longrightarrow> triple P (slift r) Q R"
  by (auto simp: triple_def slift_def split: sum.splits)

lemma triple_on_error:
  "triple P m Q (\<lambda>e c. R e (f e c)) \<Longrightarrow> triple P (on_error m f) Q R"
  unfolding triple_def on_error_def by (fastforce split: option.splits sum.splits)

lemma triple_if: "(b \<Longrightarrow> triple P m Q R) \<Longrightarrow> (\<not> b \<Longrightarrow> triple P m' Q R) \<Longrightarrow> triple P (if b then m else m') Q R"
  by simp

section \<open>Termination\<close>

definition terminates :: "('c \<Rightarrow> bool) \<Rightarrow> ('c, 'e, 'a) sem \<Rightarrow> bool" where
  "terminates P m \<longleftrightarrow> (\<forall>c. P c \<longrightarrow> m c \<noteq> None)"

lemma terminates_simps [simp]: "terminates P (sret x)" "terminates P (sfail e)" "terminates P (supd f)" "terminates P (slift r)"
  by (simp_all add: terminates_def sret_def sfail_def supd_def slift_def)

lemma terminates_bind: "terminates P m \<Longrightarrow> triple P m Q R \<Longrightarrow> (\<And>x. terminates (Q x) (f x)) \<Longrightarrow> terminates P (sbind m f)"
  unfolding terminates_def triple_def sbind_def by (fastforce split: option.splits sum.splits)

lemma terminates_with: "(\<And>c. P c \<Longrightarrow> terminates (\<lambda>c'. c' = c \<and> P c') (f c)) \<Longrightarrow> terminates P (swith f)"
  unfolding terminates_def swith_def by blast

lemma terminates_on_error: "terminates P m \<Longrightarrow> terminates P (on_error m f)"
  unfolding terminates_def on_error_def by (fastforce split: option.splits sum.splits)

text \<open>Operations that return in every state.\<close>

lemma terminates_topD: "terminates (\<lambda>_. True) m \<Longrightarrow> m c \<noteq> None"
  by (simp add: terminates_def)

lemma terminates_top [simp]:
  "terminates (\<lambda>_. True) m \<Longrightarrow> \<forall>x. terminates (\<lambda>_. True) (f x) \<Longrightarrow> terminates (\<lambda>_. True) (sbind m f)"
  "\<forall>c. terminates (\<lambda>_. True) (g c) \<Longrightarrow> terminates (\<lambda>_. True) (swith g)"
  "terminates (\<lambda>_. True) m \<Longrightarrow> terminates (\<lambda>_. True) (on_error m h)"
  unfolding terminates_def sbind_def swith_def on_error_def by (fastforce split: option.splits sum.splits)+

section \<open>Invariants\<close>

text \<open>\<open>preserves I m\<close>: the computation keeps the invariant, also when it fails.\<close>

definition preserves :: "('c \<Rightarrow> bool) \<Rightarrow> ('c, 'e, 'a) sem \<Rightarrow> bool" where
  "preserves I m \<longleftrightarrow> triple I m (\<lambda>_. I) (\<lambda>_. I)"

named_theorems preserves_intro

lemma preserves_basic [preserves_intro]: "preserves I (sret x)" "preserves I (sfail e)" "preserves I (slift r)"
  by (auto simp: preserves_def triple_def sret_def sfail_def slift_def split: sum.splits)

lemma preserves_bind [preserves_intro]: "preserves I m \<Longrightarrow> (\<And>x. preserves I (f x)) \<Longrightarrow> preserves I (sbind m f)"
  unfolding preserves_def by (rule triple_bind)

lemma preserves_with [preserves_intro]: "(\<And>c. preserves I (f c)) \<Longrightarrow> preserves I (swith f)"
  by (auto simp: preserves_def triple_def swith_def)

lemma preserves_upd: "(\<And>c. I c \<Longrightarrow> I (f c)) \<Longrightarrow> preserves I (supd f)"
  by (simp add: preserves_def triple_def supd_def)

lemma preserves_if [preserves_intro]: "preserves I m \<Longrightarrow> preserves I m' \<Longrightarrow> preserves I (if b then m else m')"
  by simp

lemma preserves_option [preserves_intro]: "preserves I m \<Longrightarrow> (\<And>x. preserves I (f x)) \<Longrightarrow> preserves I (case r of None \<Rightarrow> m | Some x \<Rightarrow> f x)"
  by (cases r) simp_all

lemma preserves_Let [preserves_intro]: "(\<And>x. preserves I (f x)) \<Longrightarrow> preserves I (Let v f)"
  by simp

lemma preserves_prod [preserves_intro]: "(\<And>x y. preserves I (f x y)) \<Longrightarrow> preserves I (case p of (x, y) \<Rightarrow> f x y)"
  by (cases p) simp

lemma preserves_sum [preserves_intro]: "(\<And>x. preserves I (f x)) \<Longrightarrow> (\<And>x. preserves I (g x)) \<Longrightarrow> preserves I (case r of Inl x \<Rightarrow> f x | Inr x \<Rightarrow> g x)"
  by (cases r) simp_all

lemma preservesD: "preserves I m \<Longrightarrow> I c \<Longrightarrow> m c = Some (r, c') \<Longrightarrow> I c'"
  unfolding preserves_def triple_def by (cases r) fastforce+

end
