(* ===== verification/Chain.thy ===== *)
theory Chain
  imports Pow HeaderIndex BlockStore Sem "HOL-Library.List_Lexorder"
begin

text \<open>
  The chain state machine (\<^verbatim>\<open>internal/chain/chain.go\<close>): taking in blocks, extending the active chain,
  reorganisations, orphans, start-up and the queries. A Go map is a function into \<open>option\<close>, the orphan pool an
  association list in the order of its iteration. The parameters of a chain are in \<open>chain_env\<close>: network parameters,
  consensus engine, storage interface, the secp256k1 package and the iteration order of the
  UTXO map. The clock is read once per call, both as the network-adjusted Unix time and as wall-clock nanoseconds.
  Locking, logging and metrics are left out.
\<close>

section \<open>State\<close>

abbreviation (input) MaxOrphanBlocks :: nat where "MaxOrphanBlocks \<equiv> 100"
abbreviation (input) OrphanExpiry :: int where "OrphanExpiry \<equiv> 20 * 60 * Second"
abbreviation (input) ibdFlushInterval :: u32 where "ibdFlushInterval \<equiv> 500"

record orphanBlock =
  ob_block :: Block
  ob_addedAt :: int

record reorgRecord =
  rr_height :: u32
  rr_depth :: u32
  rr_timestamp :: int

record 's Chain =
  ch_store :: 's
  ch_tipHash :: hash
  ch_tipHeight :: u32
  ch_tipWork :: int
  ch_heightByHash :: "hash \<rightharpoonup> u32"
  ch_hashByHeight :: "u32 \<rightharpoonup> hash"
  ch_orphans :: "(hash \<times> orphanBlock) list"
  ch_utxoSet :: utxo_set
  ch_reorgHistory :: "reorgRecord list"
  ch_ibdMode :: bool
  ch_ibdBlocksSinceSync :: u32

record ('s, 'sig, 'pk, 'sk) chain_env =
  ce_params :: ChainParams
  ce_engine :: Engine
  ce_store :: "'s BlockStore"
  ce_lib :: "('sig, 'pk, 'sk) ecdsa_lib"
  ce_range :: "utxo_set \<Rightarrow> (bytes \<times> UtxoEntry) list"

record clock =
  clk_adjusted :: int
  clk_now :: int

definition NewChain :: "'s \<Rightarrow> 's Chain" where
  "NewChain s = \<lparr>ch_store = s, ch_tipHash = ZeroHash, ch_tipHeight = 0, ch_tipWork = 0,
     ch_heightByHash = Map.empty, ch_hashByHeight = Map.empty, ch_orphans = [], ch_utxoSet = NewSet,
     ch_reorgHistory = [], ch_ibdMode = False, ch_ibdBlocksSinceSync = 0\<rparr>"

datatype chain_error =
    ErrAlreadyInChain hash
  | ErrOrphanDuplicate hash
  | ErrOrphanBits u32
  | ErrOrphanPow pow_error
  | ErrOrphanBlock hash
  | ErrLoadParentHeader
  | ErrValidateHeader "engine_error header_error"
  | ErrValidateBlock block_error
  | ErrParentWork
  | ErrValidateInputs tx_error
  | ErrStoreBlock
  | ErrConnect utxo_error
  | ErrStoreUndo
  | ErrStoreIndex
  | ErrPersist
  | ErrStoreTip
  | ErrSideChain u32
  | ErrReorgTooDeep u32 u32
  | ErrReorg chain_error
  | ErrLoadBlock hash
  | ErrMissingHash u32
  | ErrLoadIndex
  | ErrNoUndo u32
  | ErrReadUndo u32
  | ErrDecodeUndo utxo_decode_error
  | ErrGenesisHash
  | ErrRebuildIndex
  | ErrNoBlockAtHeight u32
  | ErrLoadUtxo
  | PanicNilBlock

type_synonym ('s, 'a) chain_op = "('s Chain, chain_error, 'a) sem"

definition store_op :: "chain_error \<Rightarrow> ('s \<Rightarrow> 'a option \<times> 's) \<Rightarrow> ('s, 'a) chain_op" where
  "store_op err f c = (case f (ch_store c) of (r, s) \<Rightarrow> Some (opt_err err r, c\<lparr>ch_store := s\<rparr>))"

text \<open>A storage call whose error the code ignores or only logs.\<close>

definition store_try :: "('s \<Rightarrow> 'a option \<times> 's) \<Rightarrow> 's Chain \<Rightarrow> 's Chain" where
  "store_try f c = c\<lparr>ch_store := snd (f (ch_store c))\<rparr>"

section \<open>Lookups\<close>

definition getAncestorUnsafe :: "('s, 'sig, 'pk, 'sk) chain_env \<Rightarrow> 's Chain \<Rightarrow> ancestors" where
  "getAncestorUnsafe E c height =
     (case ch_hashByHeight c height of
        None \<Rightarrow> None
      | Some h \<Rightarrow> bs_GetHeader (ce_store E) (ch_store c) h)"

text \<open>
  The loop of \<^verbatim>\<open>buildAncestorLookup\<close>: it collects headers down to a block of the active chain.
\<close>

function collect_ancestors ::
  "('s, 'sig, 'pk, 'sk) chain_env \<Rightarrow> 's Chain \<Rightarrow> hash \<Rightarrow> u32 \<Rightarrow> (u32 \<rightharpoonup> BlockHeader) \<Rightarrow> (u32 \<rightharpoonup> BlockHeader)" where
  "collect_ancestors E c current h ancestors =
     (if ch_hashByHeight c h = Some current then ancestors
      else (case bs_GetHeader (ce_store E) (ch_store c) current of
         None \<Rightarrow> ancestors
       | Some header \<Rightarrow>
           let ancestors = ancestors(h \<mapsto> header) in
           if Hash_IsZero (hdr_PrevBlock header) then ancestors
           else if h = 0 then ancestors
           else collect_ancestors E c (hdr_PrevBlock header) (h - 1) ancestors))"
  by pat_completeness auto
termination
  by (relation "measure (\<lambda>(E, c, current, h, ancestors). unat h)") (auto simp: unat_minus_one unat_gt_0)

declare collect_ancestors.simps [simp del]

definition ancestor_fn :: "('s, 'sig, 'pk, 'sk) chain_env \<Rightarrow> (u32 \<rightharpoonup> BlockHeader) \<Rightarrow> 's Chain \<Rightarrow> ancestors" where
  "ancestor_fn E ancestors c height = (case ancestors height of Some hdr \<Rightarrow> Some hdr | None \<Rightarrow> getAncestorUnsafe E c height)"

definition buildAncestorLookup :: "('s, 'sig, 'pk, 'sk) chain_env \<Rightarrow> 's Chain \<Rightarrow> hash \<Rightarrow> u32 \<Rightarrow> ancestors" where
  "buildAncestorLookup E c parentHash parentHeight =
     ancestor_fn E (collect_ancestors E c parentHash parentHeight Map.empty) c"

definition workForParentChain :: "('s, 'sig, 'pk, 'sk) chain_env \<Rightarrow> 's Chain \<Rightarrow> hash \<Rightarrow> int option" where
  "workForParentChain E c blockHash = map_option dbi_ChainWork (bs_GetBlockIndex (ce_store E) (ch_store c) blockHash)"

section \<open>Persisting the UTXO changes of a block\<close>

definition put_outputs :: "utxo_set \<Rightarrow> Transaction \<Rightarrow> batch_op list" where
  "put_outputs U tx =
     (let txHash = HashTransaction tx
      in concat (map (\<lambda>i. case Set_Get U txHash (of_nat i) of
           None \<Rightarrow> []
         | Some entry \<Rightarrow> [PutUtxo txHash (of_nat i) (UtxoEntry_Serialize entry)]) [0..<length (tx_Outputs tx)]))"

definition persistUtxoChanges ::
  "('s, 'sig, 'pk, 'sk) chain_env \<Rightarrow> bool \<Rightarrow> Block \<Rightarrow> BlockUndoData \<Rightarrow> hash \<Rightarrow> ('s, unit) chain_op" where
  "persistUtxoChanges E sync block undoData blockHash = swith (\<lambda>c.
     store_op ErrPersist (bs_FlushUtxoBatch (ce_store E) sync
       (concat (map (put_outputs (ch_utxoSet c)) (blk_Transactions block))
        @ map (\<lambda>spent. DeleteUtxo (op_Hash (so_OutPoint spent)) (op_Index (so_OutPoint spent))) (undo_SpentOutputs undoData)
        @ [PutBestBlock blockHash])))"

definition persistUtxoDisconnect ::
  "('s, 'sig, 'pk, 'sk) chain_env \<Rightarrow> Block \<Rightarrow> BlockUndoData \<Rightarrow> hash \<Rightarrow> ('s, unit) chain_op" where
  "persistUtxoDisconnect E block undoData newBestHash =
     store_op ErrPersist (bs_FlushUtxoBatch (ce_store E) True
       (concat (map (\<lambda>tx. map (\<lambda>i. DeleteUtxo (HashTransaction tx) (of_nat i)) [0..<length (tx_Outputs tx)]) (blk_Transactions block))
        @ map (\<lambda>spent. PutUtxo (op_Hash (so_OutPoint spent)) (op_Index (so_OutPoint spent)) (UtxoEntry_Serialize (so_Entry spent)))
            (undo_SpentOutputs undoData)
        @ [PutBestBlock newBestHash]))"

section \<open>Extending the active chain\<close>

definition extendChain :: "('s, 'sig, 'pk, 'sk) chain_env \<Rightarrow> bool \<Rightarrow> hash \<Rightarrow> u32 \<Rightarrow> int \<Rightarrow> ('s, unit) chain_op" where
  "extendChain E sync h height work =
     sbind (store_op ErrStoreTip (bs_PutChainTip (ce_store E) sync h height)) (\<lambda>_.
     supd (\<lambda>c. c\<lparr>ch_heightByHash := (ch_heightByHash c)(h \<mapsto> height),
                 ch_hashByHeight := (ch_hashByHeight c)(height \<mapsto> h),
                 ch_tipHash := h, ch_tipHeight := height, ch_tipWork := work\<rparr>))"

definition connect_utxos :: "Block \<Rightarrow> u32 \<Rightarrow> ('s, BlockUndoData) chain_op" where
  "connect_utxos block height = swith (\<lambda>c.
     case ConnectBlock (ch_utxoSet c) block height None of
       Inl err \<Rightarrow> sfail (ErrConnect err)
     | Inr (undoData, U) \<Rightarrow> sbind (supd (\<lambda>c. c\<lparr>ch_utxoSet := U\<rparr>)) (\<lambda>_. sret undoData))"

definition rollback_utxos :: "Block \<Rightarrow> BlockUndoData \<Rightarrow> 's Chain \<Rightarrow> 's Chain" where
  "rollback_utxos block undoData c = c\<lparr>ch_utxoSet := DisconnectBlock (ch_utxoSet c) block undoData\<rparr>"

definition new_index :: "Block \<Rightarrow> u32 \<Rightarrow> u32 \<times> u32 \<times> u32 \<Rightarrow> int \<Rightarrow> DiskBlockIndex" where
  "new_index block height loc work = (case loc of (fileNum, offset, sz) \<Rightarrow>
     \<lparr>dbi_Header = blk_Header block, dbi_Height = height, dbi_Status = StatusHaveData OR StatusValidHeader,
      dbi_TxCount = of_nat (length (blk_Transactions block)), dbi_FileNum = fileNum, dbi_DataPos = offset,
      dbi_DataSize = sz, dbi_UndoFile = 0, dbi_UndoPos = 0, dbi_UndoSize = 0, dbi_ChainWork = work\<rparr>)"

definition with_undo :: "DiskBlockIndex \<Rightarrow> u32 \<times> u32 \<Rightarrow> DiskBlockIndex" where
  "with_undo rec loc = (case loc of (undoOffset, undoSize) \<Rightarrow>
     rec\<lparr>dbi_UndoFile := dbi_FileNum rec, dbi_UndoPos := undoOffset, dbi_UndoSize := undoSize,
         dbi_Status := dbi_Status rec OR StatusHaveUndo OR StatusValidTx\<rparr>)"

text \<open>
  From \<^verbatim>\<open>ConnectBlock\<close> to the new tip, as \<^verbatim>\<open>processBlock\<close> and \<^verbatim>\<open>processOrphans\<close> both do it: the UTXO set is rolled back
  when the undo data, the index or the chainstate cannot be written.
\<close>

definition connect_tip ::
  "('s, 'sig, 'pk, 'sk) chain_env \<Rightarrow> bool \<Rightarrow> hash \<Rightarrow> Block \<Rightarrow> u32 \<Rightarrow> int \<Rightarrow> DiskBlockIndex \<Rightarrow> ('s, unit) chain_op" where
  "connect_tip E sync blockHash block newHeight newWork rec =
     sbind (connect_utxos block newHeight) (\<lambda>undoData.
     sbind (on_error (store_op ErrStoreUndo (bs_WriteUndo (ce_store E) sync (dbi_FileNum rec) (SerializeUndoData undoData)))
              (\<lambda>_. rollback_utxos block undoData)) (\<lambda>loc.
     sbind (on_error (store_op ErrStoreIndex (bs_PutBlockIndex (ce_store E) sync blockHash (with_undo rec loc)))
              (\<lambda>_. rollback_utxos block undoData)) (\<lambda>_.
     sbind (on_error (persistUtxoChanges E sync block undoData blockHash) (\<lambda>_. rollback_utxos block undoData)) (\<lambda>_.
       extendChain E sync blockHash newHeight newWork))))"

definition ibdSyncFlush :: "('s, 'sig, 'pk, 'sk) chain_env \<Rightarrow> 's Chain \<Rightarrow> 's Chain" where
  "ibdSyncFlush E c =
     store_try (bs_PutChainTip (ce_store E) True (ch_tipHash c) (ch_tipHeight c))
       (store_try (bs_FlushUtxoBatch (ce_store E) True [PutBestBlock (ch_tipHash c)])
         (store_try (bs_FlushBlockIndex (ce_store E)) (store_try (bs_SyncBlockFiles (ce_store E)) c)))"

definition SetIBDMode :: "('s, 'sig, 'pk, 'sk) chain_env \<Rightarrow> bool \<Rightarrow> 's Chain \<Rightarrow> 's Chain" where
  "SetIBDMode E enabled c =
     (if ch_ibdMode c \<and> \<not> enabled then (ibdSyncFlush E c)\<lparr>ch_ibdBlocksSinceSync := 0\<rparr> else c)\<lparr>ch_ibdMode := enabled\<rparr>"

text \<open>The checkpoint after a block that was connected without \<^verbatim>\<open>fsync\<close>.\<close>

definition ibd_checkpoint :: "('s, 'sig, 'pk, 'sk) chain_env \<Rightarrow> 's Chain \<Rightarrow> 's Chain" where
  "ibd_checkpoint E c =
     (let c = c\<lparr>ch_ibdBlocksSinceSync := ch_ibdBlocksSinceSync c + 1\<rparr>
      in if ch_ibdBlocksSinceSync c \<ge> ibdFlushInterval then (ibdSyncFlush E c)\<lparr>ch_ibdBlocksSinceSync := 0\<rparr> else c)"

section \<open>Reorganisation\<close>

text \<open>Reading a Go map of hashes: a missing key gives the zero hash.\<close>

definition hash_at :: "(u32 \<rightharpoonup> hash) \<Rightarrow> u32 \<Rightarrow> hash" where
  "hash_at m h = (case m h of None \<Rightarrow> ZeroHash | Some x \<Rightarrow> x)"

definition on_main :: "'s Chain \<Rightarrow> hash \<Rightarrow> bool" where
  "on_main c h = (case ch_heightByHash c h of None \<Rightarrow> False | Some n \<Rightarrow> hash_at (ch_hashByHeight c) n = h)"

text \<open>Phase 0: the hashes from the new tip back to the block above the fork point.\<close>

partial_function (option) reorg_path ::
  "('s, 'sig, 'pk, 'sk) chain_env \<Rightarrow> 's Chain \<Rightarrow> hash \<Rightarrow> hash list \<Rightarrow> (chain_error + hash list) option" where
  "reorg_path E c current newChain =
     (case bs_GetBlock (ce_store E) (ch_store c) current of
        None \<Rightarrow> Some (Inl (ErrLoadBlock current))
      | Some block \<Rightarrow>
          if on_main c (hdr_PrevBlock (blk_Header block)) then Some (Inr newChain)
          else reorg_path E c (hdr_PrevBlock (blk_Header block)) (newChain @ [hdr_PrevBlock (blk_Header block)]))"

declare reorg_path.simps [code]

definition prune_history :: "int \<Rightarrow> reorgRecord list \<Rightarrow> reorgRecord list" where
  "prune_history now hist = filter (\<lambda>r. rr_timestamp r > now - 24 * 3600 * Second) hist"

definition check_reorg_depth :: "('s, 'sig, 'pk, 'sk) chain_env \<Rightarrow> clock \<Rightarrow> u32 \<Rightarrow> ('s, unit) chain_op" where
  "check_reorg_depth E clk reorgDepth =
     (let limit = par_MaxReorgDepth (ce_params E) in
      if limit > 0 \<and> reorgDepth > limit then sfail (ErrReorgTooDeep reorgDepth limit)
      else if limit > 0 then
        sbind (supd (\<lambda>c. c\<lparr>ch_reorgHistory := prune_history (clk_now clk) (ch_reorgHistory c)\<rparr>)) (\<lambda>_. swith (\<lambda>c.
          let cumulative = sum_list (map rr_depth (ch_reorgHistory c)) + reorgDepth in
          if cumulative > limit * 3 then sfail (ErrReorgTooDeep cumulative (limit * 3)) else sret ()))
      else sret ())"

text \<open>The heights above the fork point, up to the tip.\<close>

definition heights_above :: "u32 \<Rightarrow> u32 \<Rightarrow> u32 list" where
  "heights_above fork tip = map of_nat [Suc (unat fork)..<Suc (unat tip)]"

definition cloneUtxoSet :: "('s, 'sig, 'pk, 'sk) chain_env \<Rightarrow> utxo_set \<Rightarrow> utxo_set" where
  "cloneUtxoSet E src =
     foldl (\<lambda>dst (key, entry). Set_Add dst (hash_copy (take 32 key)) (get_le (drop 32 key)) entry) NewSet (ce_range E src)"

definition load_undo :: "('s, 'sig, 'pk, 'sk) chain_env \<Rightarrow> 's Chain \<Rightarrow> DiskBlockIndex \<Rightarrow> u32 \<Rightarrow> chain_error + BlockUndoData" where
  "load_undo E c rec h =
     rbind (opt_err (ErrReadUndo h) (bs_ReadUndo (ce_store E) (ch_store c) (dbi_UndoFile rec) (dbi_UndoPos rec) (dbi_UndoSize rec)))
       (\<lambda>undoBytes. map_err ErrDecodeUndo (DeserializeUndoData undoBytes))"

text \<open>Phase 1, on the clone: disconnect the old blocks, then validate and connect the new ones.\<close>

primrec trial_disconnect :: "('s, 'sig, 'pk, 'sk) chain_env \<Rightarrow> 's Chain \<Rightarrow> u32 list \<Rightarrow> utxo_set \<Rightarrow> chain_error + utxo_set" where
  "trial_disconnect E c [] U = Inr U"
| "trial_disconnect E c (h # hs) U =
     rbind (opt_err (ErrMissingHash h) (ch_hashByHeight c h)) (\<lambda>blockHash.
     rbind (opt_err (ErrLoadBlock blockHash) (bs_GetBlock (ce_store E) (ch_store c) blockHash)) (\<lambda>block.
     rbind (opt_err ErrLoadIndex (bs_GetBlockIndex (ce_store E) (ch_store c) blockHash)) (\<lambda>rec.
     if dbi_Status rec AND StatusHaveUndo = 0 then Inl (ErrNoUndo h)
     else rbind (load_undo E c rec h) (\<lambda>undoData. trial_disconnect E c hs (DisconnectBlock U block undoData)))))"

record trialResult =
  tr_hash :: hash
  tr_height :: u32
  tr_block :: Block

primrec trial_connect ::
  "('s, 'sig, 'pk, 'sk) chain_env \<Rightarrow> 's Chain \<Rightarrow> u32 \<Rightarrow> hash list \<Rightarrow> utxo_set \<Rightarrow> chain_error + trialResult list" where
  "trial_connect E c h [] U = Inr []"
| "trial_connect E c h (blockHash # bhs) U =
     rbind (opt_err (ErrLoadBlock blockHash) (bs_GetBlock (ce_store E) (ch_store c) blockHash)) (\<lambda>block.
     let trialGetAncestor = buildAncestorLookup E c (hdr_PrevBlock (blk_Header block)) (h - 1);
         trialMTP = CalcMedianTimePast (h - 1) trialGetAncestor in
     rbind (map_err ErrValidateInputs (ValidateTransactionInputs (ce_lib E) block U h (ce_params E) trialMTP None)) (\<lambda>_.
     rbind (map_err ErrConnect (ConnectBlock U block h None)) (\<lambda>(undoData, U).
     rbind (trial_connect E c (h + 1) bhs U) (\<lambda>rest.
       Inr (\<lparr>tr_hash = blockHash, tr_height = h, tr_block = block\<rparr> # rest)))))"

text \<open>Phase 2, on the live state.\<close>

primrec live_disconnect :: "('s, 'sig, 'pk, 'sk) chain_env \<Rightarrow> u32 list \<Rightarrow> ('s, unit) chain_op" where
  "live_disconnect E [] = sret ()"
| "live_disconnect E (h # hs) = swith (\<lambda>c.
     sbind (slift (opt_err (ErrMissingHash h) (ch_hashByHeight c h))) (\<lambda>blockHash.
     sbind (slift (opt_err (ErrLoadBlock blockHash) (bs_GetBlock (ce_store E) (ch_store c) blockHash))) (\<lambda>block.
     sbind (slift (opt_err ErrLoadIndex (bs_GetBlockIndex (ce_store E) (ch_store c) blockHash))) (\<lambda>rec.
     sbind (slift (load_undo E c rec h)) (\<lambda>undoData.
     sbind (supd (rollback_utxos block undoData)) (\<lambda>_.
     sbind (persistUtxoDisconnect E block undoData (hdr_PrevBlock (blk_Header block))) (\<lambda>_.
       live_disconnect E hs)))))))"

definition live_connect_block :: "('s, 'sig, 'pk, 'sk) chain_env \<Rightarrow> trialResult \<Rightarrow> ('s, unit) chain_op" where
  "live_connect_block E tr =
     sbind (connect_utxos (tr_block tr) (tr_height tr)) (\<lambda>liveUndo.
     sbind (persistUtxoChanges E True (tr_block tr) liveUndo (tr_hash tr)) (\<lambda>_. swith (\<lambda>c.
     sbind (slift (opt_err ErrLoadIndex (bs_GetBlockIndex (ce_store E) (ch_store c) (tr_hash tr)))) (\<lambda>rec.
     sbind (store_op ErrStoreUndo (bs_WriteUndo (ce_store E) True (dbi_FileNum rec) (SerializeUndoData liveUndo))) (\<lambda>loc.
     sbind (store_op ErrStoreIndex (bs_PutBlockIndex (ce_store E) True (tr_hash tr) (with_undo rec loc))) (\<lambda>_.
     supd (\<lambda>c. c\<lparr>ch_heightByHash := (ch_heightByHash c)(tr_hash tr \<mapsto> tr_height tr),
                  ch_hashByHeight := (ch_hashByHeight c)(tr_height tr \<mapsto> tr_hash tr)\<rparr>)))))))"

primrec live_connect :: "('s, 'sig, 'pk, 'sk) chain_env \<Rightarrow> trialResult list \<Rightarrow> ('s, unit) chain_op" where
  "live_connect E [] = sret ()"
| "live_connect E (tr # trs) = sbind (live_connect_block E tr) (\<lambda>_. live_connect E trs)"

definition old_hashes :: "'s Chain \<Rightarrow> u32 list \<Rightarrow> (u32 \<times> hash) list" where
  "old_hashes c hs = concat (map (\<lambda>h. case ch_hashByHeight c h of None \<Rightarrow> [] | Some x \<Rightarrow> [(h, x)]) hs)"

definition remove_old :: "(u32 \<times> hash) list \<Rightarrow> 's Chain \<Rightarrow> 's Chain" where
  "remove_old old c = foldl (\<lambda>c (h, oldHash).
     c\<lparr>ch_heightByHash := (ch_heightByHash c)(oldHash := None),
       ch_hashByHeight := (if hash_at (ch_hashByHeight c) h = oldHash then (ch_hashByHeight c)(h := None) else ch_hashByHeight c)\<rparr>) c old"

definition reorg_commit ::
  "('s, 'sig, 'pk, 'sk) chain_env \<Rightarrow> clock \<Rightarrow> hash \<Rightarrow> u32 \<Rightarrow> int \<Rightarrow> u32 \<Rightarrow> u32 list \<Rightarrow> trialResult list \<Rightarrow> ('s, unit) chain_op" where
  "reorg_commit E clk newTipHash newTipHeight newWork reorgDepth heights trialConnected =
     sbind (live_disconnect E (rev heights)) (\<lambda>_. swith (\<lambda>c.
     let oldChainHashes = old_hashes c heights in
     sbind (live_connect E trialConnected) (\<lambda>_.
     sbind (supd (remove_old oldChainHashes)) (\<lambda>_.
     sbind (store_op ErrStoreTip (bs_PutChainTip (ce_store E) True newTipHash newTipHeight)) (\<lambda>_.
     supd (\<lambda>c. c\<lparr>ch_tipHash := newTipHash, ch_tipHeight := newTipHeight, ch_tipWork := newWork,
       ch_reorgHistory := ch_reorgHistory c
         @ [\<lparr>rr_height = newTipHeight, rr_depth = reorgDepth, rr_timestamp = clk_now clk\<rparr>]\<rparr>))))))"

definition reorg :: "('s, 'sig, 'pk, 'sk) chain_env \<Rightarrow> clock \<Rightarrow> hash \<Rightarrow> u32 \<Rightarrow> int \<Rightarrow> ('s, unit) chain_op" where
  "reorg E clk newTipHash newTipHeight newWork = swith (\<lambda>c.
     case reorg_path E c newTipHash [newTipHash] of
       None \<Rightarrow> (\<lambda>_. None)
     | Some (Inl e) \<Rightarrow> sfail e
     | Some (Inr newChain) \<Rightarrow>
         (case bs_GetBlock (ce_store E) (ch_store c) (last newChain) of
            None \<Rightarrow> sfail PanicNilBlock
          | Some forkBlock \<Rightarrow>
              let forkParentHeight = (case ch_heightByHash c (hdr_PrevBlock (blk_Header forkBlock)) of None \<Rightarrow> 0 | Some h \<Rightarrow> h);
                  reorgDepth = ch_tipHeight c - forkParentHeight;
                  heights = heights_above forkParentHeight (ch_tipHeight c)
              in sbind (check_reorg_depth E clk reorgDepth) (\<lambda>_. swith (\<lambda>c.
                 sbind (slift (trial_disconnect E c (rev heights) (cloneUtxoSet E (ch_utxoSet c)))) (\<lambda>trialSet.
                 sbind (slift (trial_connect E c (forkParentHeight + 1) (rev newChain) trialSet)) (\<lambda>trialConnected.
                   reorg_commit E clk newTipHash newTipHeight newWork reorgDepth heights trialConnected))))))"

section \<open>The orphan pool\<close>

definition evictExpiredOrphans :: "clock \<Rightarrow> 's Chain \<Rightarrow> 's Chain" where
  "evictExpiredOrphans clk c =
     c\<lparr>ch_orphans := filter (\<lambda>(h, ob). \<not> clk_now clk - ob_addedAt ob > OrphanExpiry) (ch_orphans c)\<rparr>"

primrec oldest_orphan :: "(hash \<times> orphanBlock) list \<Rightarrow> (hash \<times> int) option \<Rightarrow> (hash \<times> int) option" where
  "oldest_orphan [] oldest = oldest"
| "oldest_orphan (x # xs) oldest =
     oldest_orphan xs (case oldest of
         None \<Rightarrow> Some (fst x, ob_addedAt (snd x))
       | Some (h, t) \<Rightarrow> if ob_addedAt (snd x) < t then Some (fst x, ob_addedAt (snd x)) else oldest)"

definition evictOldestOrphan :: "'s Chain \<Rightarrow> 's Chain" where
  "evictOldestOrphan c =
     (case oldest_orphan (ch_orphans c) None of
        None \<Rightarrow> c
      | Some (h, t) \<Rightarrow> c\<lparr>ch_orphans := filter (\<lambda>(h', ob). h' \<noteq> h) (ch_orphans c)\<rparr>)"

definition EvictExpiredOrphans :: "clock \<Rightarrow> 's Chain \<Rightarrow> nat \<times> 's Chain" where
  "EvictExpiredOrphans clk c =
     (let c' = evictExpiredOrphans clk c in (length (ch_orphans c) - length (ch_orphans c'), c'))"

definition OrphanCount :: "'s Chain \<Rightarrow> nat" where
  "OrphanCount c = length (ch_orphans c)"

definition add_orphan :: "clock \<Rightarrow> hash \<Rightarrow> Block \<Rightarrow> 's Chain \<Rightarrow> 's Chain" where
  "add_orphan clk blockHash block c =
     (let c = evictExpiredOrphans clk c;
          c = (if length (ch_orphans c) \<ge> MaxOrphanBlocks then evictOldestOrphan c else c)
      in c\<lparr>ch_orphans := ch_orphans c @ [(blockHash, \<lparr>ob_block = block, ob_addedAt = clk_now clk\<rparr>)]\<rparr>)"

text \<open>
  One resolved orphan: the body of the inner loop of \<^verbatim>\<open>processOrphans\<close>. An error is its \<^verbatim>\<open>continue\<close>.
\<close>

datatype resolved = Enqueue | Reorganised

definition is_too_deep :: "chain_error \<Rightarrow> bool" where
  "is_too_deep e = (case e of ErrReorgTooDeep d l \<Rightarrow> True | _ \<Rightarrow> False)"

definition add_side_block ::
  "('s, 'sig, 'pk, 'sk) chain_env \<Rightarrow> hash \<Rightarrow> u32 \<Rightarrow> DiskBlockIndex \<Rightarrow> 's Chain \<Rightarrow> 's Chain" where
  "add_side_block E blockHash newHeight rec c =
     (let c = store_try (bs_PutBlockIndex (ce_store E) True blockHash rec) c
      in c\<lparr>ch_heightByHash := (ch_heightByHash c)(blockHash \<mapsto> newHeight)\<rparr>)"

definition drop_side_block :: "('s, 'sig, 'pk, 'sk) chain_env \<Rightarrow> hash \<Rightarrow> chain_error \<Rightarrow> 's Chain \<Rightarrow> 's Chain" where
  "drop_side_block E blockHash err c =
     (if is_too_deep err then c
      else store_try (bs_DeleteBlockIndex (ce_store E) blockHash) (c\<lparr>ch_heightByHash := (ch_heightByHash c)(blockHash := None)\<rparr>))"

definition process_orphan ::
  "('s, 'sig, 'pk, 'sk) chain_env \<Rightarrow> clock \<Rightarrow> hash \<Rightarrow> Block \<Rightarrow> ('s, resolved) chain_op" where
  "process_orphan E clk blockHash orphan = swith (\<lambda>c.
     let p = ce_params E; eng = ce_engine E; hdr = blk_Header orphan; prev = hdr_PrevBlock hdr in
     sbind (slift (opt_err ErrLoadParentHeader (ch_heightByHash c prev))) (\<lambda>parentHeight.
     let newHeight = parentHeight + 1 in
     sbind (slift (opt_err ErrLoadParentHeader (bs_GetHeader (ce_store E) (ch_store c) prev))) (\<lambda>parentHeader.
     let ancestors = collect_ancestors E c prev parentHeight Map.empty in
     sbind (slift (map_err ErrValidateHeader (FullValidateHeader (ValidateHeader eng) hdr parentHeader newHeight
              (ancestor_fn E ancestors c) (of_int (clk_adjusted clk)) parentHeight p))) (\<lambda>_.
     sbind (slift (map_err ErrValidateBlock (ValidateBlock eng orphan newHeight p))) (\<lambda>_.
     sbind (slift (opt_err ErrParentWork (workForParentChain E c prev))) (\<lambda>parentWork.
     let newWork = parentWork + CalcBlockWeight eng hdr in
     sbind (store_op ErrStoreBlock (bs_WriteBlock (ce_store E) True blockHash orphan)) (\<lambda>loc. swith (\<lambda>c.
     let rec = new_index orphan newHeight loc newWork in
     if prev = ch_tipHash c then
       let orphanMTP = CalcMedianTimePast parentHeight (ancestor_fn E ancestors c) in
       sbind (slift (map_err ErrValidateInputs
                (ValidateTransactionInputs (ce_lib E) orphan (ch_utxoSet c) newHeight p orphanMTP None))) (\<lambda>_.
       sbind (connect_tip E True blockHash orphan newHeight newWork rec) (\<lambda>_. sret Enqueue))
     else if newWork > ch_tipWork c then
       sbind (supd (add_side_block E blockHash newHeight rec)) (\<lambda>_.
       sbind (on_error (reorg E clk blockHash newHeight newWork) (drop_side_block E blockHash)) (\<lambda>_. sret Reorganised))
     else
       sbind (supd (add_side_block E blockHash newHeight rec)) (\<lambda>_. sret Enqueue)))))))))"

text \<open>The inner loop with its queue, and the outer loop.\<close>

primrec resolve_orphans ::
  "('s, 'sig, 'pk, 'sk) chain_env \<Rightarrow> clock \<Rightarrow> (hash \<times> Block) list \<Rightarrow> hash list \<Rightarrow> 's Chain \<Rightarrow> (hash list \<times> 's Chain) option" where
  "resolve_orphans E clk [] queue c = Some (queue, c)"
| "resolve_orphans E clk (x # xs) queue c =
     (case process_orphan E clk (fst x) (snd x) c of
        None \<Rightarrow> None
      | Some (Inl err, c') \<Rightarrow> resolve_orphans E clk xs queue c'
      | Some (Inr Enqueue, c') \<Rightarrow> resolve_orphans E clk xs (queue @ [fst x]) c'
      | Some (Inr Reorganised, c') \<Rightarrow> Some ([fst x], c'))"

definition orphans_of :: "hash \<Rightarrow> (hash \<times> orphanBlock) list \<Rightarrow> (hash \<times> Block) list" where
  "orphans_of parent orphans =
     sort_key (\<lambda>x. hash_bytes (fst x))
       (map (\<lambda>(h, ob). (h, ob_block ob)) (filter (\<lambda>(h, ob). hdr_PrevBlock (blk_Header (ob_block ob)) = parent) orphans))"

definition remove_orphans_of :: "hash \<Rightarrow> 's Chain \<Rightarrow> 's Chain" where
  "remove_orphans_of parent c =
     c\<lparr>ch_orphans := filter (\<lambda>(h, ob). hdr_PrevBlock (blk_Header (ob_block ob)) \<noteq> parent) (ch_orphans c)\<rparr>"

partial_function (option) orphan_loop ::
  "('s, 'sig, 'pk, 'sk) chain_env \<Rightarrow> clock \<Rightarrow> hash list \<Rightarrow> 's Chain \<Rightarrow> 's Chain option" where
  "orphan_loop E clk queue c =
     (case queue of
        [] \<Rightarrow> Some c
      | parent # rest \<Rightarrow>
          Option.bind (resolve_orphans E clk (orphans_of parent (ch_orphans c)) rest (remove_orphans_of parent c))
            (\<lambda>(queue', c'). orphan_loop E clk queue' c'))"

declare orphan_loop.simps [code]

definition processOrphans :: "('s, 'sig, 'pk, 'sk) chain_env \<Rightarrow> clock \<Rightarrow> hash \<Rightarrow> ('s, unit) chain_op" where
  "processOrphans E clk parentHash c = map_option (\<lambda>c'. (Inr (), c')) (orphan_loop E clk [parentHash] c)"

section \<open>Processing a block\<close>

definition pruneSideChainIndex :: "'s Chain \<Rightarrow> 's Chain" where
  "pruneSideChainIndex c =
     (let cutoff = (if ch_tipHeight c > 1000 then ch_tipHeight c - 1000 else 0)
      in c\<lparr>ch_heightByHash := (\<lambda>h. case ch_heightByHash c h of
            None \<Rightarrow> None
          | Some height \<Rightarrow> if height \<ge> cutoff \<or> ch_hashByHeight c height = Some h then Some height else None)\<rparr>)"

text \<open>A block whose parent is unknown.\<close>

definition take_orphan ::
  "('s, 'sig, 'pk, 'sk) chain_env \<Rightarrow> clock \<Rightarrow> hash \<Rightarrow> Block \<Rightarrow> ('s, u32) chain_op" where
  "take_orphan E clk blockHash block =
     (let hdr = blk_Header block; p = ce_params E in
      if CompactToBig (hdr_Bits hdr) > CompactToBig (par_MinBits p) then sfail (ErrOrphanBits (hdr_Bits hdr))
      else sbind (slift (map_err ErrOrphanPow
             (ValidateProofOfWork (eng_hasher (ce_engine E) (BlockHeader_Serialize hdr)) (hdr_Bits hdr)))) (\<lambda>_.
           sbind (supd (add_orphan clk blockHash block)) (\<lambda>_. sfail (ErrOrphanBlock blockHash))))"

text \<open>The three branches for a block whose parent is known and whose header and structure are valid.\<close>

definition extend_tip ::
  "('s, 'sig, 'pk, 'sk) chain_env \<Rightarrow> hash \<Rightarrow> Block \<Rightarrow> u32 \<Rightarrow> int \<Rightarrow> u32 \<Rightarrow> ancestors \<Rightarrow> ('s, unit) chain_op" where
  "extend_tip E blockHash block newHeight newWork parentHeight getAncestor = swith (\<lambda>c.
     let mtp = CalcMedianTimePast parentHeight getAncestor; sync = (\<not> ch_ibdMode c) in
     sbind (slift (map_err ErrValidateInputs
              (ValidateTransactionInputs (ce_lib E) block (ch_utxoSet c) newHeight (ce_params E) mtp None))) (\<lambda>_.
     sbind (store_op ErrStoreBlock (bs_WriteBlock (ce_store E) sync blockHash block)) (\<lambda>loc.
     sbind (connect_tip E sync blockHash block newHeight newWork (new_index block newHeight loc newWork)) (\<lambda>_.
       supd (\<lambda>c. if sync then c else ibd_checkpoint E c)))))"

definition store_block_index ::
  "('s, 'sig, 'pk, 'sk) chain_env \<Rightarrow> hash \<Rightarrow> Block \<Rightarrow> u32 \<Rightarrow> int \<Rightarrow> ('s, unit) chain_op" where
  "store_block_index E blockHash block newHeight newWork =
     sbind (store_op ErrStoreBlock (bs_WriteBlock (ce_store E) True blockHash block)) (\<lambda>loc.
       store_op ErrStoreIndex (bs_PutBlockIndex (ce_store E) True blockHash (new_index block newHeight loc newWork)))"

definition add_known :: "hash \<Rightarrow> u32 \<Rightarrow> 's Chain \<Rightarrow> 's Chain" where
  "add_known blockHash newHeight c = c\<lparr>ch_heightByHash := (ch_heightByHash c)(blockHash \<mapsto> newHeight)\<rparr>"

definition reorg_to ::
  "('s, 'sig, 'pk, 'sk) chain_env \<Rightarrow> clock \<Rightarrow> hash \<Rightarrow> u32 \<Rightarrow> int \<Rightarrow> ('s, unit) chain_op" where
  "reorg_to E clk blockHash newHeight newWork c =
     (case reorg E clk blockHash newHeight newWork c of
        None \<Rightarrow> None
      | Some (Inr x, c') \<Rightarrow> Some (Inr x, c')
      | Some (Inl err, c') \<Rightarrow>
          if is_too_deep err then
            sbind (supd (add_known blockHash newHeight)) (\<lambda>_.
            sbind (processOrphans E clk blockHash) (\<lambda>_. sfail (ErrSideChain newHeight))) c'
          else sbind (supd (store_try (bs_DeleteBlockIndex (ce_store E) blockHash))) (\<lambda>_. sfail (ErrReorg err)) c')"

definition processBlock ::
  "('s, 'sig, 'pk, 'sk) chain_env \<Rightarrow> clock \<Rightarrow> bool \<Rightarrow> Block \<Rightarrow> ('s, u32) chain_op" where
  "processBlock E clk trustedHeader block = swith (\<lambda>c.
     let p = ce_params E; eng = ce_engine E; hdr = blk_Header block; prev = hdr_PrevBlock hdr;
         blockHash = HashBlockHeader hdr in
     if ch_heightByHash c blockHash \<noteq> None then sfail (ErrAlreadyInChain blockHash)
     else if map_of (ch_orphans c) blockHash \<noteq> None then sfail (ErrOrphanDuplicate blockHash)
     else (case ch_heightByHash c prev of
        None \<Rightarrow> take_orphan E clk blockHash block
      | Some parentHeight \<Rightarrow>
          let newHeight = parentHeight + 1 in
          sbind (slift (opt_err ErrLoadParentHeader (bs_GetHeader (ce_store E) (ch_store c) prev))) (\<lambda>parentHeader.
          let getAncestor = buildAncestorLookup E c prev parentHeight in
          sbind (if trustedHeader then sret ()
                 else slift (map_err ErrValidateHeader (FullValidateHeader (ValidateHeader eng) hdr parentHeader newHeight
                        getAncestor (of_int (clk_adjusted clk)) parentHeight p))) (\<lambda>_.
          sbind (slift (map_err ErrValidateBlock (ValidateBlock eng block newHeight p))) (\<lambda>_.
          sbind (slift (opt_err ErrParentWork (workForParentChain E c prev))) (\<lambda>parentWork.
          let newWork = parentWork + CalcBlockWeight eng hdr in
          if prev = ch_tipHash c then
            sbind (extend_tip E blockHash block newHeight newWork parentHeight getAncestor) (\<lambda>_.
            sbind (processOrphans E clk blockHash) (\<lambda>_.
            sbind (supd pruneSideChainIndex) (\<lambda>_. sret newHeight)))
          else if newWork > ch_tipWork c then
            sbind (store_block_index E blockHash block newHeight newWork) (\<lambda>_.
            sbind (reorg_to E clk blockHash newHeight newWork) (\<lambda>_.
            sbind (processOrphans E clk blockHash) (\<lambda>_.
            sbind (supd pruneSideChainIndex) (\<lambda>_. sret newHeight))))
          else
            sbind (store_block_index E blockHash block newHeight newWork) (\<lambda>_.
            sbind (supd (add_known blockHash newHeight)) (\<lambda>_.
            sbind (processOrphans E clk blockHash) (\<lambda>_. sfail (ErrSideChain newHeight))))))))))"

definition ProcessBlock :: "('s, 'sig, 'pk, 'sk) chain_env \<Rightarrow> clock \<Rightarrow> Block \<Rightarrow> ('s, u32) chain_op" where
  "ProcessBlock E clk block = processBlock E clk False block"

definition ProcessBlockTrustedHeader :: "('s, 'sig, 'pk, 'sk) chain_env \<Rightarrow> clock \<Rightarrow> Block \<Rightarrow> ('s, u32) chain_op" where
  "ProcessBlockTrustedHeader E clk block = processBlock E clk True block"

section \<open>Start-up\<close>

text \<open>\<^verbatim>\<open>Set.ForEach\<close>: the outpoint and the entry of each key, in the iteration order of the map.\<close>

definition ForEach :: "('s, 'sig, 'pk, 'sk) chain_env \<Rightarrow> utxo_set \<Rightarrow> (hash \<times> u32 \<times> UtxoEntry) list" where
  "ForEach E U = map (\<lambda>(key, entry). (hash_copy (take 32 key), get_le (drop 32 key), entry)) (ce_range E U)"

definition flushUtxoSetToChainstate :: "('s, 'sig, 'pk, 'sk) chain_env \<Rightarrow> ('s, unit) chain_op" where
  "flushUtxoSetToChainstate E = swith (\<lambda>c.
     store_op ErrPersist (bs_FlushUtxoBatch (ce_store E) True
       (map (\<lambda>(txHash, index, entry). PutUtxo txHash index (UtxoEntry_Serialize entry)) (ForEach E (ch_utxoSet c))
        @ [PutBestBlock (ch_tipHash c)])))"

primrec rebuild_blocks :: "('s, 'sig, 'pk, 'sk) chain_env \<Rightarrow> nat list \<Rightarrow> ('s, unit) chain_op" where
  "rebuild_blocks E [] = sret ()"
| "rebuild_blocks E (h # hs) = swith (\<lambda>c.
     sbind (slift (opt_err (ErrMissingHash (of_nat h)) (ch_hashByHeight c (of_nat h)))) (\<lambda>blockHash.
     sbind (slift (opt_err (ErrLoadBlock blockHash) (bs_GetBlock (ce_store E) (ch_store c) blockHash))) (\<lambda>block.
     sbind (if h = 0 then supd (\<lambda>c. c\<lparr>ch_utxoSet := ConnectGenesis (ch_utxoSet c) block\<rparr>)
            else sbind (connect_utxos block (of_nat h)) (\<lambda>_. sret ())) (\<lambda>_.
       rebuild_blocks E hs))))"

definition rebuildUtxoSet :: "('s, 'sig, 'pk, 'sk) chain_env \<Rightarrow> ('s, unit) chain_op" where
  "rebuildUtxoSet E = swith (\<lambda>c.
     sbind (rebuild_blocks E [0..<Suc (unat (ch_tipHeight c))]) (\<lambda>_. flushUtxoSetToChainstate E))"

definition RescanUTXOSet :: "('s, 'sig, 'pk, 'sk) chain_env \<Rightarrow> ('s, unit) chain_op" where
  "RescanUTXOSet E = sbind (supd (\<lambda>c. c\<lparr>ch_utxoSet := NewSet\<rparr>)) (\<lambda>_. rebuildUtxoSet E)"

text \<open>Loading adds the entries one by one and stops at the first that does not decode.\<close>

primrec load_entries :: "(hash \<times> u32 \<times> bytes) list \<Rightarrow> utxo_set \<Rightarrow> bool \<times> utxo_set" where
  "load_entries [] U = (True, U)"
| "load_entries (x # xs) U = (case x of (txHash, index, data) \<Rightarrow>
     (case DeserializeUtxoEntry data of
        Inl err \<Rightarrow> (False, U)
      | Inr entry \<Rightarrow> load_entries xs (Set_Add U txHash index entry)))"

definition loadUtxoSetFromChainstate :: "('s, 'sig, 'pk, 'sk) chain_env \<Rightarrow> ('s, unit) chain_op" where
  "loadUtxoSetFromChainstate E = swith (\<lambda>c.
     case bs_ForEachUtxo (ce_store E) (ch_store c) of
       None \<Rightarrow> sfail ErrLoadUtxo
     | Some xs \<Rightarrow> (case load_entries xs (ch_utxoSet c) of (ok, U) \<Rightarrow>
         sbind (supd (\<lambda>c. c\<lparr>ch_utxoSet := U\<rparr>)) (\<lambda>_. if ok then sret () else sfail ErrLoadUtxo)))"

definition load_or_rebuild :: "('s, 'sig, 'pk, 'sk) chain_env \<Rightarrow> ('s, unit) chain_op" where
  "load_or_rebuild E c =
     (case loadUtxoSetFromChainstate E c of
        None \<Rightarrow> None
      | Some (Inr x, c') \<Rightarrow> Some (Inr x, c')
      | Some (Inl err, c') \<Rightarrow> rebuildUtxoSet E c')"

definition initGenesis :: "('s, 'sig, 'pk, 'sk) chain_env \<Rightarrow> ('s, unit) chain_op" where
  "initGenesis E =
     (let p = ce_params E; genesis = par_GenesisBlock p; genesisHash = HashBlockHeader (blk_Header genesis);
          genesisWork = CalcBlockWeight (ce_engine E) (blk_Header genesis) in
      if \<not> Hash_IsZero (par_GenesisHash p) \<and> genesisHash \<noteq> par_GenesisHash p then sfail ErrGenesisHash
      else
        sbind (store_op ErrStoreBlock (bs_WriteBlock (ce_store E) True genesisHash genesis)) (\<lambda>loc.
        let rec = (new_index genesis 0 loc genesisWork)\<lparr>dbi_Status := StatusHaveData OR StatusValidHeader OR StatusValidTx\<rparr> in
        sbind (store_op ErrStoreIndex (bs_PutBlockIndex (ce_store E) True genesisHash rec)) (\<lambda>_.
        sbind (store_op ErrStoreTip (bs_PutChainTip (ce_store E) True genesisHash 0)) (\<lambda>_.
        sbind (supd (\<lambda>c. c\<lparr>ch_tipHash := genesisHash, ch_tipHeight := 0, ch_tipWork := genesisWork,
                          ch_heightByHash := (ch_heightByHash c)(genesisHash \<mapsto> 0),
                          ch_hashByHeight := (ch_hashByHeight c)(0 \<mapsto> genesisHash),
                          ch_utxoSet := ConnectGenesis (ch_utxoSet c) genesis\<rparr>)) (\<lambda>_.
          flushUtxoSetToChainstate E)))))"

text \<open>
  The walk from a tip at height \<open>n\<close> back to the genesis block, collecting \<^verbatim>\<open>hashByHeight\<close> and the work of the chain.
\<close>

primrec walk_chain ::
  "('s, 'sig, 'pk, 'sk) chain_env \<Rightarrow> 's \<Rightarrow> nat \<Rightarrow> hash \<Rightarrow> (u32 \<rightharpoonup> hash) \<Rightarrow> int \<Rightarrow> ((u32 \<rightharpoonup> hash) \<times> int) option" where
  "walk_chain E s 0 current m work =
     (case bs_GetBlockIndex (ce_store E) s current of
        None \<Rightarrow> None
      | Some rec \<Rightarrow> Some (m(0 \<mapsto> current), work + CalcBlockWeight (ce_engine E) (dbi_Header rec)))"
| "walk_chain E s (Suc n) current m work =
     (case bs_GetBlockIndex (ce_store E) s current of
        None \<Rightarrow> None
      | Some rec \<Rightarrow> walk_chain E s n (hdr_PrevBlock (dbi_Header rec)) (m(of_nat (Suc n) \<mapsto> current))
          (work + CalcBlockWeight (ce_engine E) (dbi_Header rec)))"

definition index_heights :: "(hash \<times> DiskBlockIndex) list \<Rightarrow> (hash \<rightharpoonup> u32) \<Rightarrow> (hash \<rightharpoonup> u32)" where
  "index_heights xs m = foldl (\<lambda>m (h, rec). if dbi_Status rec AND StatusHaveData \<noteq> 0 then m(h \<mapsto> dbi_Height rec) else m) m xs"

definition set_active :: "hash \<Rightarrow> u32 \<Rightarrow> (u32 \<rightharpoonup> hash) \<times> int \<Rightarrow> ('s, unit) chain_op" where
  "set_active tip height w =
     supd (\<lambda>c. c\<lparr>ch_tipHash := tip, ch_tipHeight := height, ch_hashByHeight := fst w, ch_tipWork := snd w\<rparr>)"

definition Init :: "('s, 'sig, 'pk, 'sk) chain_env \<Rightarrow> ('s, unit) chain_op" where
  "Init E = swith (\<lambda>c.
     case bs_GetChainTip (ce_store E) (ch_store c) of
       None \<Rightarrow> initGenesis E
     | Some (tipHash, tipHeight) \<Rightarrow>
         sbind (supd (\<lambda>c. c\<lparr>ch_tipHash := tipHash, ch_tipHeight := tipHeight, ch_tipWork := 0\<rparr>)) (\<lambda>_.
         sbind (slift (opt_err ErrRebuildIndex (bs_ForEachBlockIndex (ce_store E) (ch_store c)))) (\<lambda>recs.
         sbind (supd (\<lambda>c. c\<lparr>ch_heightByHash := index_heights recs (ch_heightByHash c)\<rparr>)) (\<lambda>_.
         sbind (slift (opt_err ErrLoadIndex (walk_chain E (ch_store c) (unat tipHeight) tipHash (ch_hashByHeight c) 0))) (\<lambda>w.
         sbind (set_active tipHash tipHeight w) (\<lambda>_. swith (\<lambda>c.
         case bs_GetBestBlock (ce_store E) (ch_store c) of
           None \<Rightarrow> rebuildUtxoSet E
         | Some bestBlock \<Rightarrow>
             if bestBlock = tipHash then load_or_rebuild E
             else (case ch_heightByHash c bestBlock of
                None \<Rightarrow> rebuildUtxoSet E
              | Some bestBlockHeight \<Rightarrow>
                  if bestBlockHeight > tipHeight then
                    sbind (slift (opt_err ErrLoadIndex
                             (walk_chain E (ch_store c) (unat bestBlockHeight) bestBlock Map.empty 0))) (\<lambda>w.
                    sbind (set_active bestBlock bestBlockHeight w) (\<lambda>_.
                    sbind (store_op ErrStoreTip (bs_PutChainTip (ce_store E) True bestBlock bestBlockHeight)) (\<lambda>_.
                      load_or_rebuild E)))
                  else rebuildUtxoSet E))))))))"

section \<open>Queries\<close>

definition Tip :: "'s Chain \<Rightarrow> hash \<times> u32" where
  "Tip c = (ch_tipHash c, ch_tipHeight c)"

definition TipHeader :: "('s, 'sig, 'pk, 'sk) chain_env \<Rightarrow> 's Chain \<Rightarrow> BlockHeader option" where
  "TipHeader E c = bs_GetHeader (ce_store E) (ch_store c) (ch_tipHash c)"

primrec insert_trusted :: "('s, 'sig, 'pk, 'sk) chain_env \<Rightarrow> 's Chain \<Rightarrow> nat list \<Rightarrow> HeaderIndex \<Rightarrow> HeaderIndex" where
  "insert_trusted E c [] idx = idx"
| "insert_trusted E c (h # hs) idx =
     (case getAncestorUnsafe E c (of_nat h) of
        None \<Rightarrow> idx
      | Some header \<Rightarrow> insert_trusted E c hs (snd (InsertTrustedHeader header idx)))"

definition Chain_NewHeaderIndex :: "('s, 'sig, 'pk, 'sk) chain_env \<Rightarrow> 's Chain \<Rightarrow> HeaderIndex" where
  "Chain_NewHeaderIndex E c =
     insert_trusted E c [1..<Suc (unat (ch_tipHeight c))]
       (NewHeaderIndex (ce_params E) (ce_engine E) (blk_Header (par_GenesisBlock (ce_params E))))"

definition Chain_GetHeaderByHeight :: "('s, 'sig, 'pk, 'sk) chain_env \<Rightarrow> 's Chain \<Rightarrow> u32 \<Rightarrow> BlockHeader option" where
  "Chain_GetHeaderByHeight E c height =
     (case ch_hashByHeight c height of None \<Rightarrow> None | Some h \<Rightarrow> bs_GetHeader (ce_store E) (ch_store c) h)"

definition GetBlockByHeight :: "('s, 'sig, 'pk, 'sk) chain_env \<Rightarrow> 's Chain \<Rightarrow> u32 \<Rightarrow> (Block \<times> hash) option" where
  "GetBlockByHeight E c height =
     (case ch_hashByHeight c height of
        None \<Rightarrow> None
      | Some h \<Rightarrow> map_option (\<lambda>b. (b, h)) (bs_GetBlock (ce_store E) (ch_store c) h))"

definition GetAncestor :: "('s, 'sig, 'pk, 'sk) chain_env \<Rightarrow> 's Chain \<Rightarrow> ancestors" where
  "GetAncestor E c height =
     (case ch_hashByHeight c height of None \<Rightarrow> None | Some h \<Rightarrow> bs_GetHeader (ce_store E) (ch_store c) h)"

definition GetBlockHeight :: "'s Chain \<Rightarrow> hash \<Rightarrow> u32 option" where
  "GetBlockHeight c h = ch_heightByHash c h"

definition FindMainChainHash :: "'s Chain \<Rightarrow> hash \<Rightarrow> u32 option" where
  "FindMainChainHash c h =
     (case ch_heightByHash c h of
        None \<Rightarrow> None
      | Some height \<Rightarrow> if ch_hashByHeight c height = Some h then Some height else None)"

definition Chain_HasBlock :: "('s, 'sig, 'pk, 'sk) chain_env \<Rightarrow> 's Chain \<Rightarrow> hash \<Rightarrow> bool" where
  "Chain_HasBlock E c h \<longleftrightarrow> ch_heightByHash c h \<noteq> None \<or> map_of (ch_orphans c) h \<noteq> None
     \<or> bs_HasBlock (ce_store E) (ch_store c) h"

definition HasBlockOnChain :: "'s Chain \<Rightarrow> hash \<Rightarrow> bool" where
  "HasBlockOnChain c h \<longleftrightarrow> ch_heightByHash c h \<noteq> None"

text \<open>The locator loop, with a bound on its iterations; \<open>None\<close> is a loop that has not ended by then.\<close>

primrec block_locator_loop :: "nat \<Rightarrow> 's Chain \<Rightarrow> u32 \<Rightarrow> u32 \<Rightarrow> hash list \<Rightarrow> hash list option" where
  "block_locator_loop 0 c height step locator = None"
| "block_locator_loop (Suc fuel) c height step locator =
     (case ch_hashByHeight c height of
        None \<Rightarrow> Some locator
      | Some h \<Rightarrow>
          let locator = locator @ [h] in
          if height = 0 then Some locator
          else block_locator_loop fuel c (if height < step then 0 else height - step)
                 (if length locator > 10 then step * 2 else step) locator)"

definition BlockLocator :: "nat \<Rightarrow> 's Chain \<Rightarrow> hash list option" where
  "BlockLocator fuel c = block_locator_loop fuel c (ch_tipHeight c) 1 []"

text \<open>\<^verbatim>\<open>GetChainInfo\<close> without its floating-point fields.\<close>

record ChainInfo =
  ci_Network :: string
  ci_Height :: u32
  ci_BestHash :: hash
  ci_GenesisHash :: hash
  ci_Bits :: u32
  ci_Chainwork :: int
  ci_MedianTimePast :: u32
  ci_RetargetEpoch :: u32
  ci_EpochProgress :: u32
  ci_EpochBlocksLeft :: u32
  ci_RetargetInterval :: u32

definition GetChainInfo :: "('s, 'sig, 'pk, 'sk) chain_env \<Rightarrow> 's Chain \<Rightarrow> ChainInfo" where
  "GetChainInfo E c =
     (let p = ce_params E; interval = par_RetargetInterval p;
          timestamps = collect_timestamps 11 0 (ch_tipHeight c) (getAncestorUnsafe E c)
      in \<lparr>ci_Network = par_Name p, ci_Height = ch_tipHeight c, ci_BestHash = ch_tipHash c, ci_GenesisHash = par_GenesisHash p,
          ci_Bits = (case bs_GetHeader (ce_store E) (ch_store c) (ch_tipHash c) of None \<Rightarrow> 0 | Some h \<Rightarrow> hdr_Bits h),
          ci_Chainwork = ch_tipWork c,
          ci_MedianTimePast = (if length timestamps > 0 then insertion_sort [] timestamps ! (length timestamps div 2) else 0),
          ci_RetargetEpoch = (if interval > 0 then ch_tipHeight c div interval else 0),
          ci_EpochProgress = (if interval > 0 then ch_tipHeight c mod interval else 0),
          ci_EpochBlocksLeft = (if interval > 0 then interval - ch_tipHeight c mod interval else 0),
          ci_RetargetInterval = interval\<rparr>)"

definition TxOutSetInfo :: "('s, 'sig, 'pk, 'sk) chain_env \<Rightarrow> 's Chain \<Rightarrow> u32 \<times> hash \<times> nat \<times> u64" where
  "TxOutSetInfo E c =
     (let es = ce_range E (ch_utxoSet c) in (ch_tipHeight c, ch_tipHash c, length es, Set_TotalValue (map snd es)))"

definition IsTipStale :: "('s, 'sig, 'pk, 'sk) chain_env \<Rightarrow> clock \<Rightarrow> 's Chain \<Rightarrow> bool" where
  "IsTipStale E clk c =
     (case bs_GetHeader (ce_store E) (ch_store c) (ch_tipHash c) of
        None \<Rightarrow> False
      | Some tipHeader \<Rightarrow>
          let threshold = 10 * dur_secs (par_TargetBlockSpacing (ce_params E));
              threshold = (if threshold < 60 then 60 else threshold);
              age = clk_adjusted clk - uint (hdr_Timestamp tipHeader)
          in age > threshold)"

end
