(* ===== verification/ErrorText.thy ===== *)
theory ErrorText
  imports Chain
begin

text \<open>
  The peer-to-peer manager decides by the text of an error whether a peer misbehaved. The text of an error is given as the
  list of the literal pieces of its format string, each wrapped error with its own pieces; between the pieces
  stand numbers and hexadecimal hashes. None of the words the manager searches for can reach over such a value, so a text contains
  a word exactly when one of its pieces does. Where one error value of the model stands for errors with different texts, the pieces of all of
  them are listed. \<open>io\<close> is the text of the storage error an error wraps.
\<close>

fun HasPrefix :: "string \<Rightarrow> string \<Rightarrow> bool" where
  "HasPrefix s [] = True"
| "HasPrefix [] (d # w) = False"
| "HasPrefix (c # s) (d # w) \<longleftrightarrow> c = d \<and> HasPrefix s w"

primrec Contains :: "string \<Rightarrow> string \<Rightarrow> bool" where
  "Contains [] w \<longleftrightarrow> w = []"
| "Contains (c # s) w \<longleftrightarrow> HasPrefix (c # s) w \<or> Contains s w"

primrec mentions :: "string list \<Rightarrow> string \<Rightarrow> bool" where
  "mentions [] word = False"
| "mentions (piece # pieces) word \<longleftrightarrow> Contains piece word \<or> mentions pieces word"

primrec script_error_text :: "script_error \<Rightarrow> string list" where
  "script_error_text ErrEmptyPkScript = [''empty pkScript'']"
| "script_error_text ErrOpReturnOutput = [''OP_RETURN output is unspendable'']"
| "script_error_text (ErrScriptSize n) = [''script size '', '' exceeds maximum '']"
| "script_error_text ErrOpCount = [''exceeded maximum opcode count ('', '')'']"
| "script_error_text (ErrPushTooShort op n) = [''push '', '' bytes: script too short at offset '', ''OP_PUSHDATA'', '': script too short'']"
| "script_error_text (ErrPushSize op n) = [''OP_PUSHDATA'', '': push size '', '' exceeds maximum element size '']"
| "script_error_text (ErrMissingLength op) = [''OP_PUSHDATA'', '': missing length bytes'']"
| "script_error_text (ErrUnderflow op) = [''OP_DUP OP_HASH160 OP_EQUAL OP_EQUALVERIFY OP_CHECKSIG: stack underflow'']"
| "script_error_text ErrNotEqual = [''OP_EQUALVERIFY: values not equal'']"
| "script_error_text ErrNullFail = [''OP_CHECKSIG: non-empty signature failed validation (NULLFAIL)'']"
| "script_error_text (ErrHashType t) = [''OP_CHECKSIG: unsupported hash type 0x'', '' (NULLFAIL)'']"
| "script_error_text ErrDERSignature = [''OP_CHECKSIG: invalid DER signature (NULLFAIL): '']"
| "script_error_text ErrPublicKey = [''OP_CHECKSIG: invalid public key (NULLFAIL): '']"
| "script_error_text (ErrSigHash e) = [''OP_CHECKSIG: sighash computation failed: '', ''input index '', '' out of range [0, '', '')'']"
| "script_error_text ErrVerification = [''OP_CHECKSIG: signature verification failed (NULLFAIL)'']"
| "script_error_text ErrOpReturn = [''OP_RETURN: script is unspendable'']"
| "script_error_text (ErrOpcode op) = [''unsupported opcode 0x'', '' at offset '']"
| "script_error_text (ErrStackOverflow n) = [''stack overflow: '', '' items'']"
| "script_error_text ErrEmptyStack = [''script evaluated to empty stack'']"
| "script_error_text ErrEvalFalse = [''script evaluated to false'']"
| "script_error_text (ErrCleanStack n) = [''cleanstack violation: '', '' items remain on stack (expected 1)'']"
| "script_error_text (ErrInSigScript e) = ''sigScript execution: '' # script_error_text e"
| "script_error_text (ErrInPkScript e) = ''pkScript execution: '' # script_error_text e"

primrec utxo_error_text :: "utxo_error \<Rightarrow> string list" where
  "utxo_error_text (ErrDuplicateInput h op) = [''tx '', '' has duplicate input '', '':'']"
| "utxo_error_text (ErrSpentInBlock h op) = [''tx '', '' input references already-spent outpoint '', '':'', '' within block'']"
| "utxo_error_text (ErrMissingUtxo h op) = [''tx '', '' input references missing UTXO '', '':'']"
| "utxo_error_text (PanicTxHashes n) = [''runtime error: index out of range'']"

primrec tx_error_text :: "tx_error \<Rightarrow> string list" where
  "tx_error_text (ErrLockTimeHeight l h) = [''tx '', '': transaction locktime '', '' not satisfied (block height '', '')'']"
| "tx_error_text (ErrLockTimeMedian l h) = [''tx '', '': transaction locktime '', '' not satisfied (median time '', '')'']"
| "tx_error_text (ErrSeqUtxoNotFound i) = [''tx '', '': tx input '', '': cannot verify relative locktime'', '' UTXO not found'']"
| "tx_error_text (ErrSeqTimeBased i) = [''tx '', '': tx input '', '': time-based relative locktimes (BIP68) are not yet supported'']"
| "tx_error_text (ErrSeqHeight i) = [''tx '', '': tx input '', '': block height '', '' < UTXO height '']"
| "tx_error_text (ErrSeqConfirmations i) = [''tx '', '': tx input '', '': relative locktime requires '', '' confirmations, have '', '' (UTXO at height '', '', block height '', '')'']"
| "tx_error_text (ErrCoinbaseZeroOutput i) = [''coinbase output '', '': zero value not allowed'']"
| "tx_error_text ErrNoInputs = [''tx '', '': non-coinbase transaction has no inputs'']"
| "tx_error_text ErrNoOutputs = [''tx '', '': transaction has no outputs'']"
| "tx_error_text (ErrTxTooLarge n) = [''tx '', '': serialized size '', '' exceeds maximum '', '' bytes'']"
| "tx_error_text (ErrTxDuplicateInput op) = [''tx '', '' input '', '': duplicate input within transaction (outpoint '', '':'', '')'']"
| "tx_error_text (ErrTxDoubleSpend op) = [''tx '', '' input '', '': double-spend within block (outpoint '', '':'', '')'']"
| "tx_error_text (ErrTxMissingUtxo op) = [''tx '', '' input '', '': references missing UTXO '', '':'']"
| "tx_error_text (ErrCoinbaseFuture op) = [''tx '', '' input '', '': coinbase at height '', '' cannot be spent at height '']"
| "tx_error_text (ErrCoinbaseImmature op) = [''tx '', '' input '', '': coinbase output at height '', '' not mature (need '', '' confirmations, have '', '')'']"
| "tx_error_text ErrInputOverflow = [''tx '', '': input value overflow at input '']"
| "tx_error_text ErrInputMaxMoney = [''tx '', '' input '', '': input value '', '' exceeds max money '']"
| "tx_error_text ErrInputsMaxMoney = [''tx '', '': cumulative input value '', '' exceeds max money '']"
| "tx_error_text (ErrOutputZero i) = [''tx '', '' output '', '': zero value not allowed'']"
| "tx_error_text (ErrOutputMaxMoney i) = [''tx '', '' output '', '': value '', '' exceeds max money '']"
| "tx_error_text (ErrOutputOverflow i) = [''tx '', '' output '', '': value overflow'']"
| "tx_error_text ErrOutputsMaxMoney = [''tx '', '': total output value '', '' exceeds max money '']"
| "tx_error_text (ErrInputsBelowOutputs x y) = [''tx '', '': input value '', '' < output value '']"
| "tx_error_text (ErrTxScript i e) = [''tx '', '' input '', '': script validation failed: ''] @ script_error_text e"
| "tx_error_text ErrFeesOverflow = [''total fees overflow at tx '']"
| "tx_error_text ErrSubsidyOverflow = [''subsidy + fees overflow (subsidy='', '', fees='', '')'']"
| "tx_error_text (ErrCoinbaseOverflow i) = [''coinbase output '', '': value accumulation overflow'']"
| "tx_error_text (ErrCoinbaseTooHigh x y) = [''coinbase value '', '' exceeds subsidy+fees '', '' (subsidy='', '', fees='', '')'']"
| "tx_error_text ErrIsCoinbase = [''coinbase transactions cannot be validated individually'']"
| "tx_error_text (ErrTxHashes e) = utxo_error_text e"
| "tx_error_text PanicNoTransactions = [''runtime error: index out of range'']"

primrec block_error_text :: "block_error \<Rightarrow> string list" where
  "block_error_text (ErrBlockVersion v) = [''unsupported block version '']"
| "block_error_text ErrNoTransactions = [''block has no transactions'']"
| "block_error_text ErrFirstNotCoinbase = [''first transaction is not coinbase'']"
| "block_error_text (ErrCoinbaseShort n) = [''coinbase scriptSig: '', ''too short: '', '' bytes (minimum 2)'']"
| "block_error_text (ErrCoinbaseLong n) = [''coinbase scriptSig: '', ''too long: '', '' bytes (maximum 100)'']"
| "block_error_text (ErrHeightPushLen n) = [''coinbase scriptSig: '', ''height push length '', '' out of range [1,4]'']"
| "block_error_text (ErrHeightPushShort n m) = [''coinbase scriptSig: '', ''scriptSig too short for height push (need '', '', have '', '')'']"
| "block_error_text (ErrHeightMismatch a b) = [''coinbase scriptSig: '', ''encoded height '', '' does not match block height '']"
| "block_error_text (ErrHeightNotMinimal a b) = [''coinbase scriptSig: '', ''non-minimal height encoding: used '', '' bytes, minimum is '']"
| "block_error_text (ErrUnexpectedCoinbase i) = [''transaction '', '' is an unexpected coinbase'']"
| "block_error_text (ErrBlockTxCount n) = [''block has '', '' transactions, max '']"
| "block_error_text (ErrDuplicateTxid h) = [''duplicate transaction ID '', '' at index '']"
| "block_error_text (ErrMerkleMismatch h h') = [''merkle root mismatch: header='', '' computed='']"
| "block_error_text (ErrBlockSize n) = [''block size '', '' exceeds max '']"
| "block_error_text ErrCoinbaseValueOverflow = [''coinbase output value overflow'']"
| "block_error_text (ErrTimestampFuture t n) = [''block timestamp '', '' too far in future (max '', '')'']"
| "block_error_text (ErrTimestampParent t u) = [''block timestamp '', '' must be > parent '']"
| "block_error_text (ErrTimestampMedian t u) = [''block timestamp '', '' must be > median time past '']"
| "block_error_text (ErrTimestampRule r) = [''unknown timestamp rule: '' @ r]"

primrec pow_error_text :: "pow_error \<Rightarrow> string list" where
  "pow_error_text (ErrHashExceedsTarget h t) = [''block hash '', '' exceeds target '']"

primrec engine_error_text :: "engine_error \<Rightarrow> string list" where
  "engine_error_text (ErrPrevBlockMismatch h h') = [''prev block hash mismatch: header='', '' expected='']"
| "engine_error_text (ErrIncorrectBits n b b') = [''incorrect difficulty bits at height '', '': got 0x'', '', expected 0x'']"
| "engine_error_text (ErrPow n e) = [''PoW validation failed at height '', '': ''] @ pow_error_text e"
| "engine_error_text ErrDividePanic = [''division by zero'']"

primrec header_error_text :: "engine_error header_error \<Rightarrow> string list" where
  "header_error_text (EngineError e) = engine_error_text e"
| "header_error_text (TimestampError e) = block_error_text e"

primrec index_error_text :: "index_error \<Rightarrow> string list" where
  "index_error_text ErrOrphanHeader = [''header parent not found in index'']"
| "index_error_text ErrDuplicateHeader = [''header already in index'']"
| "index_error_text ErrRejectedHeader = [''header descends from a rejected chain'']"
| "index_error_text ErrIndexCapacity = [''header index at capacity ('', ''), rejecting non-best-chain header'']"
| "index_error_text (ErrHeaderValidation e) = ''header validation: '' # header_error_text e"

primrec chain_error_text :: "string \<Rightarrow> chain_error \<Rightarrow> string list" where
  "chain_error_text io (ErrAlreadyInChain h) = [''block '', '' already in chain'']"
| "chain_error_text io (ErrOrphanDuplicate h) = [''orphan block: block '', '' already in orphan pool'']"
| "chain_error_text io (ErrOrphanBits b) = [''orphan declared difficulty too low: bits 0x'', '' easier than minimum 0x'']"
| "chain_error_text io (ErrOrphanPow e) = ''orphan PoW check failed: '' # pow_error_text e"
| "chain_error_text io (ErrOrphanBlock h) = [''orphan block: '', '' (parent '', '' unknown)'']"
| "chain_error_text io ErrLoadParentHeader = [''load parent header: '' @ io]"
| "chain_error_text io (ErrValidateHeader e) = [''validate header at height '', '': ''] @ header_error_text e"
| "chain_error_text io (ErrValidateBlock e) = [''validate block at height '', '': ''] @ block_error_text e"
| "chain_error_text io ErrParentWork = [''compute parent chain work: load block index for '', '': '' @ io, '' has nil ChainWork in index'']"
| "chain_error_text io (ErrValidateInputs e) = [''trial validate tx inputs at height '', '': ''] @ tx_error_text e"
| "chain_error_text io ErrStoreBlock = [''store block: '' @ io]"
| "chain_error_text io (ErrConnect e) = [''trial connect block UTXOs: '', '' UTXOs during reorg: ''] @ utxo_error_text e"
| "chain_error_text io ErrStoreUndo = [''store undo data: '' @ io, ''write undo data during reorg: '' @ io]"
| "chain_error_text io ErrStoreIndex = [''store block index: '' @ io, ''update block index during reorg: '' @ io]"
| "chain_error_text io ErrPersist = [''persist UTXO changes: '' @ io, ''persist UTXO connect during reorg at height '', '': '' @ io, ''persist disconnect at height '']"
| "chain_error_text io ErrStoreTip = [io]"
| "chain_error_text io (ErrSideChain n) = [''side chain block: block '', '' at height '', '' (insufficient work)'']"
| "chain_error_text io (ErrReorgTooDeep d l) = [''reorg exceeds maximum depth: depth '', '' exceeds limit '', '' (fork at height '', '')'', '': cumulative depth '', '' over 24h sliding window'']"
| "chain_error_text io (ErrReorg e) = [''reorg to '', '': ''] @ chain_error_text io e"
| "chain_error_text io (ErrLoadBlock h) = [''load block '', '' during reorg: '' @ io, ''load new chain block '', '' for trial: '' @ io, '' for disconnect: '' @ io]"
| "chain_error_text io (ErrMissingHash n) = [''invariant violation: missing hash at main-chain height '', '' during trial disconnect'', '' during live disconnect'']"
| "chain_error_text io ErrLoadIndex = [''load block index at height '', '' for trial: '' @ io, '' for live disconnect: '' @ io, ''get block index for '']"
| "chain_error_text io (ErrNoUndo n) = [''no undo data for block at height '']"
| "chain_error_text io (ErrReadUndo n) = [''read undo data at height '', '': '' @ io, '' for live disconnect: '' @ io]"
| "chain_error_text io (ErrDecodeUndo e) = [''deserialize undo data at height '', '': utxo entry too short: '', '' bytes'', '': utxo entry truncated'', '': undo data truncated at entry '', ''undo entry '', '' truncated'', ''read undo count: '', ''read entry length at '', ''read pkscript length: '', '' for live disconnect: '']"
| "chain_error_text io ErrGenesisHash = [''genesis hash mismatch: computed='', '' expected='']"
| "chain_error_text io ErrRebuildIndex = [''rebuild index from block index: '' @ io]"
| "chain_error_text io (ErrNoBlockAtHeight n) = [''missing hash at height '', '' during UTXO rebuild'']"
| "chain_error_text io ErrLoadUtxo = [''deserialize UTXO '', '':'', '': '' @ io]"
| "chain_error_text io PanicNilBlock = [''runtime error: invalid memory address or nil pointer dereference'']"

section \<open>Classification\<close>

text \<open>\<^verbatim>\<open>errors.Is\<close> for the two sentinel errors of the chain, through the errors that wrap them.\<close>

fun is_side_chain :: "chain_error \<Rightarrow> bool" where
  "is_side_chain (ErrSideChain n) = True"
| "is_side_chain (ErrReorg e) = is_side_chain e"
| "is_side_chain _ = False"

fun is_orphan :: "chain_error \<Rightarrow> bool" where
  "is_orphan (ErrOrphanBlock h) = True"
| "is_orphan (ErrOrphanDuplicate h) = True"
| "is_orphan (ErrReorg e) = is_orphan e"
| "is_orphan _ = False"

fun is_panic :: "chain_error \<Rightarrow> bool" where
  "is_panic PanicNilBlock = True"
| "is_panic (ErrValidateHeader (EngineError ErrDividePanic)) = True"
| "is_panic (ErrValidateInputs PanicNoTransactions) = True"
| "is_panic (ErrValidateInputs (ErrTxHashes (PanicTxHashes n))) = True"
| "is_panic (ErrConnect (PanicTxHashes n)) = True"
| "is_panic (ErrDecodeUndo PanicMakeSlice) = True"
| "is_panic (ErrDecodeUndo PanicSliceBounds) = True"
| "is_panic (ErrReorg e) = is_panic e"
| "is_panic _ = False"

definition says_known :: "string \<Rightarrow> chain_error \<Rightarrow> bool" where
  "says_known io e = mentions (chain_error_text io e) ''already in chain''"

text \<open>The test of \<^verbatim>\<open>handleBlock\<close> and \<^verbatim>\<open>handleBlockSyncTick\<close> for a block that only a malicious peer sends, the longer one of
  \<^verbatim>\<open>processIBDBlock\<close>, and the one of \<^verbatim>\<open>handleHeaders\<close>.\<close>

definition says_invalid :: "string \<Rightarrow> chain_error \<Rightarrow> bool" where
  "says_invalid io e \<longleftrightarrow>
     (let t = chain_error_text io e in mentions t ''proof of work'' \<or> mentions t ''merkle'' \<or> mentions t ''bits mismatch'')"

definition says_invalid_ibd :: "string \<Rightarrow> chain_error \<Rightarrow> bool" where
  "says_invalid_ibd io e \<longleftrightarrow>
     (let t = chain_error_text io e in mentions t ''proof of work'' \<or> mentions t ''merkle'' \<or> mentions t ''bits mismatch''
        \<or> mentions t ''exceeds target'' \<or> mentions t ''PoW check failed'')"

definition says_invalid_header :: "index_error \<Rightarrow> bool" where
  "says_invalid_header e \<longleftrightarrow>
     (let t = index_error_text e in mentions t ''proof of work'' \<or> mentions t ''bits mismatch'' \<or> mentions t ''difficulty'')"

section \<open>What the words reach\<close>

text \<open>A header whose hash misses its target is never reported in the words the handlers look for, nor is one with the wrong
  bits in a full block; only \<^verbatim>\<open>processIBDBlock\<close> looks for the words that are used.\<close>

lemma pow_failure_unrecognised:
  "\<not> says_invalid io (ErrValidateHeader (EngineError (ErrPow n e)))"
  "\<not> says_invalid io (ErrValidateHeader (EngineError (ErrIncorrectBits n b b')))"
  "\<not> says_invalid io (ErrOrphanPow e)"
  "\<not> says_invalid_header (ErrHeaderValidation (EngineError (ErrPow n e)))"
  by (cases e; simp add: says_invalid_def says_invalid_header_def Let_def)+

lemma pow_failure_recognised_ibd:
  "says_invalid_ibd io (ErrValidateHeader (EngineError (ErrPow n e)))" "says_invalid_ibd io (ErrOrphanPow e)"
  "says_invalid_header (ErrHeaderValidation (EngineError (ErrIncorrectBits n b b')))"
  "says_invalid io (ErrValidateBlock (ErrMerkleMismatch h h'))"
  by (cases e; simp add: says_invalid_def says_invalid_ibd_def says_invalid_header_def Let_def)+

end
