(* ===== verification/Scheduler.thy ===== *)
theory Scheduler
  imports HeaderIndex Difficulty
begin

text \<open>
  The block scheduler of header-first synchronisation (\<^verbatim>\<open>internal/p2p/scheduler.go\<close>): which blocks of the best header
  chain are still needed, which are requested and from whom, and which have arrived and wait for their turn. The maps
  \<^verbatim>\<open>inFlight\<close> and \<^verbatim>\<open>staging\<close> are association lists; where the code ranges over one, the order is an argument. The
  header index, the height of the chain tip and the clock, which the code reaches through pointers, are arguments of
  the operations that read them; times and latencies are nanoseconds. Each operation holds the lock for its whole body.
  \<^verbatim>\<open>SortPeersByScore\<close> only permutes the slice of peers its caller passes, by a floating-point score, and changes nothing
  of the state, so it is left out.
\<close>

section \<open>State\<close>

definition DefaultMaxInFlightPerPeer :: int where "DefaultMaxInFlightPerPeer = 16"
definition DefaultMaxGlobalInFlight :: int where "DefaultMaxGlobalInFlight = 512"
definition DefaultMaxStagingSize :: int where "DefaultMaxStagingSize = 1024"
definition DefaultRequestTimeout :: int where "DefaultRequestTimeout = 30 * Second"

record schedulerEntry =
  se_Hash :: hash
  se_Height :: u32

record inFlightEntry =
  if_Hash :: hash
  if_Height :: u32
  if_PeerAddr :: string
  if_RequestedAt :: int

record stagedBlock =
  sb_Block :: Block
  sb_PeerAddr :: string

record peerDownloadStats =
  pd_InFlight :: int
  pd_Completed :: int
  pd_Failed :: int
  pd_AvgLatency :: int
  pd_LastRequest :: int
  pd_BytesRecv :: u64

record BlockScheduler =
  sc_needed :: "schedulerEntry list"
  sc_inFlight :: "(hash \<times> inFlightEntry) list"
  sc_peerStats :: "string \<rightharpoonup> peerDownloadStats"
  sc_staging :: "(hash \<times> stagedBlock) list"
  sc_maxInFlightPerPeer :: int
  sc_maxGlobalInFlight :: int
  sc_maxStagingSize :: int
  sc_requestTimeout :: int
  sc_nextConnectHeight :: u32

record SchedulerStats =
  ss_Needed :: nat
  ss_InFlight :: nat
  ss_Staging :: nat
  ss_NextHeight :: u32

definition NewBlockScheduler :: "u32 \<Rightarrow> BlockScheduler" where
  "NewBlockScheduler tipHeight =
     \<lparr>sc_needed = [], sc_inFlight = [], sc_peerStats = Map.empty, sc_staging = [],
      sc_maxInFlightPerPeer = DefaultMaxInFlightPerPeer, sc_maxGlobalInFlight = DefaultMaxGlobalInFlight,
      sc_maxStagingSize = DefaultMaxStagingSize, sc_requestTimeout = DefaultRequestTimeout,
      sc_nextConnectHeight = tipHeight + 1\<rparr>"

definition new_stats :: peerDownloadStats where
  "new_stats = \<lparr>pd_InFlight = 0, pd_Completed = 0, pd_Failed = 0, pd_AvgLatency = 0, pd_LastRequest = 0, pd_BytesRecv = 0\<rparr>"

definition peer_stats :: "string \<Rightarrow> BlockScheduler \<Rightarrow> peerDownloadStats" where
  "peer_stats addr s = (case sc_peerStats s addr of Some st \<Rightarrow> st | None \<Rightarrow> new_stats)"

text \<open>\<^verbatim>\<open>getOrCreateStats\<close>, followed by a write \<open>f\<close> through the pointer it returns.\<close>

definition with_stats :: "string \<Rightarrow> (peerDownloadStats \<Rightarrow> peerDownloadStats) \<Rightarrow> BlockScheduler \<Rightarrow> BlockScheduler" where
  "with_stats addr f s = s\<lparr>sc_peerStats := (sc_peerStats s)(addr \<mapsto> f (peer_stats addr s))\<rparr>"

definition getOrCreateStats :: "string \<Rightarrow> BlockScheduler \<Rightarrow> peerDownloadStats \<times> BlockScheduler" where
  "getOrCreateStats addr s = (peer_stats addr s, with_stats addr (\<lambda>st. st) s)"

section \<open>Queueing\<close>

text \<open>The loop over the hashes to fetch; \<open>queued\<close> is the set of hashes in \<^verbatim>\<open>needed\<close> before the loop.\<close>

primrec queue_hashes :: "hash set \<Rightarrow> u32 \<Rightarrow> hash list \<Rightarrow> BlockScheduler \<Rightarrow> BlockScheduler" where
  "queue_hashes queued height [] s = s"
| "queue_hashes queued height (h # hs) s =
     queue_hashes queued (height + 1) hs
       (if h \<in> queued \<or> map_of (sc_inFlight s) h \<noteq> None \<or> map_of (sc_staging s) h \<noteq> None then s
        else s\<lparr>sc_needed := sc_needed s @ [\<lparr>se_Hash = h, se_Height = height\<rparr>]\<rparr>)"

definition populateLocked :: "HeaderIndex \<Rightarrow> u32 \<Rightarrow> BlockScheduler \<Rightarrow> BlockScheduler" where
  "populateLocked idx tipHeight s =
     (let s = s\<lparr>sc_nextConnectHeight := tipHeight + 1\<rparr>;
          bestHeaderHeight = BestHeaderHeight idx;
          alreadyQueued = set (map se_Hash (sc_needed s));
          hashes = HeadersToFetch idx (sc_nextConnectHeight s) (uint (bestHeaderHeight - tipHeight))
      in queue_hashes alreadyQueued (sc_nextConnectHeight s) hashes s)"

definition Populate :: "HeaderIndex \<Rightarrow> u32 \<Rightarrow> BlockScheduler \<Rightarrow> BlockScheduler" where
  "Populate idx tipHeight s = populateLocked idx tipHeight s"

definition Scheduler_Reset :: "HeaderIndex \<Rightarrow> u32 \<Rightarrow> BlockScheduler \<Rightarrow> BlockScheduler" where
  "Scheduler_Reset idx tipHeight s =
     populateLocked idx tipHeight (s\<lparr>sc_needed := [], sc_inFlight := [], sc_staging := [], sc_peerStats := Map.empty\<rparr>)"

section \<open>Requests\<close>

text \<open>The loop of \<^verbatim>\<open>AssignWork\<close> over the queue, with the hashes it has assigned and the entries it leaves.\<close>

primrec assign_loop :: "string \<Rightarrow> u32 \<Rightarrow> int \<Rightarrow> int \<Rightarrow> schedulerEntry list \<Rightarrow> hash list \<Rightarrow> schedulerEntry list \<Rightarrow>
    BlockScheduler \<Rightarrow> hash list \<times> BlockScheduler" where
  "assign_loop addr peerBestHeight now available [] assigned remaining s = (assigned, s\<lparr>sc_needed := remaining\<rparr>)"
| "assign_loop addr peerBestHeight now available (entry # es) assigned remaining s =
     (if int (length assigned) \<ge> available \<or> map_of (sc_inFlight s) (se_Hash entry) \<noteq> None \<or> se_Height entry > peerBestHeight
      then assign_loop addr peerBestHeight now available es assigned (remaining @ [entry]) s
      else assign_loop addr peerBestHeight now available es (assigned @ [se_Hash entry]) remaining
        (with_stats addr (\<lambda>st. st\<lparr>pd_InFlight := pd_InFlight st + 1, pd_LastRequest := now\<rparr>)
          (s\<lparr>sc_inFlight := AList.update (se_Hash entry)
               \<lparr>if_Hash = se_Hash entry, if_Height = se_Height entry, if_PeerAddr = addr, if_RequestedAt = now\<rparr>
               (sc_inFlight s)\<rparr>)))"

definition AssignWork :: "string \<Rightarrow> int \<Rightarrow> u32 \<Rightarrow> int \<Rightarrow> BlockScheduler \<Rightarrow> hash list \<times> BlockScheduler" where
  "AssignWork addr limit peerBestHeight now s =
     (let (stats, s) = getOrCreateStats addr s in
      if pd_InFlight stats \<ge> sc_maxInFlightPerPeer s then ([], s)
      else if int (length (sc_inFlight s)) \<ge> sc_maxGlobalInFlight s then ([], s)
      else if int (length (sc_staging s)) \<ge> sc_maxStagingSize s then ([], s)
      else let available = sc_maxInFlightPerPeer s - pd_InFlight stats;
          available = (if available > limit then limit else available);
          globalAvailable = sc_maxGlobalInFlight s - int (length (sc_inFlight s));
          available = (if available > globalAvailable then globalAvailable else available)
        in assign_loop addr peerBestHeight now available (sc_needed s) [] [] s)"

definition queue_entry :: "hash \<Rightarrow> u32 \<Rightarrow> BlockScheduler \<Rightarrow> BlockScheduler" where
  "queue_entry h height s = s\<lparr>sc_needed := sc_needed s @ [\<lparr>se_Hash = h, se_Height = height\<rparr>]\<rparr>"

text \<open>The running average of \<^verbatim>\<open>BlockReceived\<close>, in \<^verbatim>\<open>int64\<close> nanoseconds.\<close>

definition avg_latency :: "int \<Rightarrow> peerDownloadStats \<Rightarrow> int" where
  "avg_latency latency st =
     (if pd_Completed st = 0 then latency
      else i64 (i64 (pd_AvgLatency st * pd_Completed st) + latency) sdiv (pd_Completed st + 1))"

definition BlockReceived :: "hash \<Rightarrow> Block \<Rightarrow> string \<Rightarrow> int \<Rightarrow> BlockScheduler \<Rightarrow> bool \<times> BlockScheduler" where
  "BlockReceived h block addr now s =
     (case map_of (sc_inFlight s) h of
        None \<Rightarrow> (False, s)
      | Some entry \<Rightarrow>
          if HashBlockHeader (blk_Header block) \<noteq> h then
            (False, queue_entry h (if_Height entry)
               ((with_stats addr (\<lambda>st. st\<lparr>pd_InFlight := pd_InFlight st - 1, pd_Failed := pd_Failed st + 1\<rparr>) s)
                  \<lparr>sc_inFlight := AList.delete h (sc_inFlight s)\<rparr>))
          else
            (True, (with_stats addr
               (\<lambda>st. st\<lparr>pd_AvgLatency := avg_latency (now - if_RequestedAt entry) st, pd_Completed := pd_Completed st + 1,
                  pd_InFlight := pd_InFlight st - 1\<rparr>) s)
               \<lparr>sc_inFlight := AList.delete h (sc_inFlight s),
                sc_staging := AList.update h \<lparr>sb_Block = block, sb_PeerAddr = addr\<rparr> (sc_staging s)\<rparr>))"

section \<open>Delivery\<close>

text \<open>The staging pool is put back into the queue, in the order in which the code ranges over it.\<close>

definition flush_staging :: "hash list \<Rightarrow> BlockScheduler \<Rightarrow> BlockScheduler" where
  "flush_staging order s =
     fold (\<lambda>h s. (queue_entry h 0 s)\<lparr>sc_staging := AList.delete h (sc_staging s)\<rparr>) order s"

lemma length_delete: "map_of al k \<noteq> None \<Longrightarrow> length (AList.delete k al) < length al"
  by (induction al) (auto simp: AList.delete_eq le_imp_less_Suc)

text \<open>
  The unbounded loop of \<^verbatim>\<open>DrainReady\<close>: every round that goes on takes a block out of the staging pool. \<open>order\<close> is the
  order in which the staging pool is visited, should the loop end by flushing it.
\<close>

function drain_loop :: "HeaderIndex \<Rightarrow> (BlockScheduler \<Rightarrow> hash list) \<Rightarrow> stagedBlock list \<Rightarrow> BlockScheduler \<Rightarrow>
    stagedBlock list \<times> BlockScheduler" where
  "drain_loop idx order ready s =
     (case GetHeaderByHeight idx (sc_nextConnectHeight s) of
        None \<Rightarrow> (ready, s)
      | Some node \<Rightarrow>
          (case map_of (sc_staging s) (hn_Hash node) of
             None \<Rightarrow> (ready, if int (length (sc_staging s)) > sc_maxStagingSize s div 2 then flush_staging (order s) s else s)
           | Some staged \<Rightarrow>
               drain_loop idx order (ready @ [staged])
                 (s\<lparr>sc_staging := AList.delete (hn_Hash node) (sc_staging s),
                    sc_nextConnectHeight := sc_nextConnectHeight s + 1\<rparr>)))"
  by pat_completeness auto

termination
  by (relation "measure (\<lambda>(idx, order, ready, s). length (sc_staging s))") (auto intro: length_delete)

declare drain_loop.simps [simp del]

definition DrainReady :: "HeaderIndex \<Rightarrow> (BlockScheduler \<Rightarrow> hash list) \<Rightarrow> BlockScheduler \<Rightarrow> stagedBlock list \<times> BlockScheduler" where
  "DrainReady idx order s = drain_loop idx order [] s"

definition RequeueBlock :: "hash \<Rightarrow> u32 \<Rightarrow> BlockScheduler \<Rightarrow> BlockScheduler" where
  "RequeueBlock h height s = queue_entry h height (s\<lparr>sc_staging := AList.delete h (sc_staging s)\<rparr>)"

section \<open>Timeouts and lost peers\<close>

definition requeue_request :: "hash \<Rightarrow> inFlightEntry \<Rightarrow> BlockScheduler \<Rightarrow> BlockScheduler" where
  "requeue_request h entry s = (queue_entry h (if_Height entry) s)\<lparr>sc_inFlight := AList.delete h (sc_inFlight s)\<rparr>"

primrec timeout_loop :: "int \<Rightarrow> hash list \<Rightarrow> inFlightEntry list \<Rightarrow> BlockScheduler \<Rightarrow> inFlightEntry list \<times> BlockScheduler" where
  "timeout_loop now [] timedOut s = (timedOut, s)"
| "timeout_loop now (h # hs) timedOut s =
     (case map_of (sc_inFlight s) h of
        None \<Rightarrow> timeout_loop now hs timedOut s
      | Some entry \<Rightarrow>
          if now - if_RequestedAt entry > sc_requestTimeout s then
            timeout_loop now hs (timedOut @ [entry])
              (requeue_request h entry
                (with_stats (if_PeerAddr entry)
                  (\<lambda>st. st\<lparr>pd_InFlight := pd_InFlight st - 1, pd_Failed := pd_Failed st + 1\<rparr>) s))
          else timeout_loop now hs timedOut s)"

definition HandleTimeout :: "int \<Rightarrow> hash list \<Rightarrow> BlockScheduler \<Rightarrow> inFlightEntry list \<times> BlockScheduler" where
  "HandleTimeout now order s = timeout_loop now order [] s"

primrec remove_peer_loop :: "string \<Rightarrow> hash list \<Rightarrow> BlockScheduler \<Rightarrow> BlockScheduler" where
  "remove_peer_loop addr [] s = s"
| "remove_peer_loop addr (h # hs) s =
     (case map_of (sc_inFlight s) h of
        None \<Rightarrow> remove_peer_loop addr hs s
      | Some entry \<Rightarrow> remove_peer_loop addr hs (if if_PeerAddr entry = addr then requeue_request h entry s else s))"

definition RemovePeer :: "string \<Rightarrow> hash list \<Rightarrow> BlockScheduler \<Rightarrow> BlockScheduler" where
  "RemovePeer addr order s =
     (let s = remove_peer_loop addr order s in s\<lparr>sc_peerStats := (sc_peerStats s)(addr := None)\<rparr>)"

section \<open>Queries\<close>

definition IsInFlight :: "BlockScheduler \<Rightarrow> hash \<Rightarrow> bool" where
  "IsInFlight s h \<longleftrightarrow> map_of (sc_inFlight s) h \<noteq> None"

text \<open>The two maps are visited in the orders \<open>fs\<close> and \<open>gs\<close>.\<close>

definition ExpectedHashes :: "hash list \<Rightarrow> hash list \<Rightarrow> BlockScheduler \<Rightarrow> hash list" where
  "ExpectedHashes fs gs s = map se_Hash (sc_needed s) @ fs @ gs"

definition IsComplete :: "BlockScheduler \<Rightarrow> bool" where
  "IsComplete s \<longleftrightarrow> length (sc_needed s) = 0 \<and> length (sc_inFlight s) = 0 \<and> length (sc_staging s) = 0"

definition Scheduler_Stats :: "BlockScheduler \<Rightarrow> SchedulerStats" where
  "Scheduler_Stats s = \<lparr>ss_Needed = length (sc_needed s), ss_InFlight = length (sc_inFlight s),
     ss_Staging = length (sc_staging s), ss_NextHeight = sc_nextConnectHeight s\<rparr>"

definition NeedCount :: "BlockScheduler \<Rightarrow> nat" where
  "NeedCount s = length (sc_needed s)"

definition InFlightCount :: "BlockScheduler \<Rightarrow> nat" where
  "InFlightCount s = length (sc_inFlight s)"

definition StagingCount :: "BlockScheduler \<Rightarrow> nat" where
  "StagingCount s = length (sc_staging s)"

definition UpdateNextConnectHeight :: "u32 \<Rightarrow> BlockScheduler \<Rightarrow> BlockScheduler" where
  "UpdateNextConnectHeight height s =
     (if height \<ge> sc_nextConnectHeight s then s\<lparr>sc_nextConnectHeight := height + 1\<rparr> else s)"

definition hashBlock :: "Block \<Rightarrow> hash" where
  "hashBlock block = HashBlockHeader (blk_Header block)"

section \<open>What the scheduler keeps track of\<close>

text \<open>The keys of the two maps, and the hashes the scheduler knows of.\<close>

abbreviation in_flight :: "BlockScheduler \<Rightarrow> hash set" where
  "in_flight s \<equiv> fst ` set (sc_inFlight s)"

abbreviation staged :: "BlockScheduler \<Rightarrow> hash set" where
  "staged s \<equiv> fst ` set (sc_staging s)"

definition tracked :: "BlockScheduler \<Rightarrow> hash set" where
  "tracked s = se_Hash ` set (sc_needed s) \<union> in_flight s \<union> staged s"

lemma keys_update [simp]: "fst ` set (AList.update k v al) = insert k (fst ` set al)"
  by (induction al) auto

lemma keys_delete [simp]: "fst ` set (AList.delete k al) = fst ` set al - {k}"
  by (auto simp: AList.delete_eq)

lemma keys_filter [simp]: "fst ` set (filter (\<lambda>(k, v). P k) al) = {k \<in> fst ` set al. P k}"
  by force

lemma map_of_keys: "map_of al k = Some v \<Longrightarrow> k \<in> fst ` set al" "map_of al k = None \<longleftrightarrow> k \<notin> fst ` set al"
  by (simp_all add: map_of_eq_None_iff) (metis fst_conv image_eqI map_of_SomeD)

lemma with_stats_sel [simp]:
  "sc_needed (with_stats a f s) = sc_needed s" "sc_inFlight (with_stats a f s) = sc_inFlight s"
  "sc_staging (with_stats a f s) = sc_staging s" "sc_nextConnectHeight (with_stats a f s) = sc_nextConnectHeight s"
  "sc_maxInFlightPerPeer (with_stats a f s) = sc_maxInFlightPerPeer s"
  "sc_maxGlobalInFlight (with_stats a f s) = sc_maxGlobalInFlight s"
  "sc_maxStagingSize (with_stats a f s) = sc_maxStagingSize s" "sc_requestTimeout (with_stats a f s) = sc_requestTimeout s"
  by (simp_all add: with_stats_def)

lemma queue_entry_sel [simp]:
  "sc_inFlight (queue_entry h n s) = sc_inFlight s" "sc_staging (queue_entry h n s) = sc_staging s"
  "sc_peerStats (queue_entry h n s) = sc_peerStats s" "sc_nextConnectHeight (queue_entry h n s) = sc_nextConnectHeight s"
  "sc_needed (queue_entry h n s) = sc_needed s @ [\<lparr>se_Hash = h, se_Height = n\<rparr>]"
  "sc_maxInFlightPerPeer (queue_entry h n s) = sc_maxInFlightPerPeer s"
  "sc_maxGlobalInFlight (queue_entry h n s) = sc_maxGlobalInFlight s"
  "sc_maxStagingSize (queue_entry h n s) = sc_maxStagingSize s" "sc_requestTimeout (queue_entry h n s) = sc_requestTimeout s"
  by (simp_all add: queue_entry_def)

lemma tracked_queue_hashes:
  "queued \<subseteq> se_Hash ` set (sc_needed s) \<Longrightarrow> tracked (queue_hashes queued n hs s) = tracked s \<union> set hs"
proof (induction hs arbitrary: n s)
  case (Cons h hs)
  let ?s = "if h \<in> queued \<or> map_of (sc_inFlight s) h \<noteq> None \<or> map_of (sc_staging s) h \<noteq> None then s
    else s\<lparr>sc_needed := sc_needed s @ [\<lparr>se_Hash = h, se_Height = n\<rparr>]\<rparr>"
  have "queued \<subseteq> se_Hash ` set (sc_needed ?s)" using Cons.prems by auto
  moreover have "tracked ?s = insert h (tracked s)" using Cons.prems by (auto simp: tracked_def map_of_keys(2))
  ultimately show ?case using Cons.IH [of ?s] by simp
qed simp

lemma tracked_assign_loop:
  "tracked (snd (assign_loop a b now av es as rs s)) = se_Hash ` set rs \<union> se_Hash ` set es \<union> in_flight s \<union> staged s"
proof (induction es arbitrary: as rs s)
  case (Cons entry es)
  show ?case by (simp add: Cons.IH)
qed (simp add: tracked_def)

lemma AssignWork_cases:
  obtains (refused) "AssignWork a lim b now s = ([], with_stats a (\<lambda>st. st) s)"
  | (assigned) av where "AssignWork a lim b now s = assign_loop a b now av (sc_needed s) [] [] (with_stats a (\<lambda>st. st) s)"
      "av \<le> sc_maxInFlightPerPeer s - pd_InFlight (peer_stats a s)" "av \<le> sc_maxGlobalInFlight s - int (length (sc_inFlight s))"
      "int (length (sc_staging s)) < sc_maxStagingSize s" "int (length (sc_inFlight s)) < sc_maxGlobalInFlight s"
      "pd_InFlight (peer_stats a s) < sc_maxInFlightPerPeer s"
proof -
  let ?av = "min (min (sc_maxInFlightPerPeer s - pd_InFlight (peer_stats a s)) lim)
    (sc_maxGlobalInFlight s - int (length (sc_inFlight s)))"
  have "AssignWork a lim b now s = (if pd_InFlight (peer_stats a s) \<ge> sc_maxInFlightPerPeer s \<or>
      int (length (sc_inFlight s)) \<ge> sc_maxGlobalInFlight s \<or> int (length (sc_staging s)) \<ge> sc_maxStagingSize s
     then ([], with_stats a (\<lambda>st. st) s) else assign_loop a b now ?av (sc_needed s) [] [] (with_stats a (\<lambda>st. st) s))"
    by (auto simp: AssignWork_def getOrCreateStats_def Let_def min_def)
  then show ?thesis using refused assigned [of ?av] by (auto split: if_splits)
qed

lemma tracked_with_stats [simp]: "tracked (with_stats a f s) = tracked s"
  by (simp add: tracked_def)

lemma tracked_AssignWork [simp]: "tracked (snd (AssignWork a lim b now s)) = tracked s"
proof (cases rule: AssignWork_cases [of a lim b now s])
  case (assigned av)
  then show ?thesis by (simp add: tracked_assign_loop) (simp add: tracked_def)
qed simp

lemma tracked_BlockReceived [simp]: "tracked (snd (BlockReceived h block a now s)) = tracked s"
  by (auto simp: BlockReceived_def tracked_def split: option.splits dest: map_of_keys(1))

lemma tracked_requeue: "map_of (sc_inFlight s) h = Some entry \<Longrightarrow> tracked (requeue_request h entry s) = tracked s"
  by (auto simp: requeue_request_def tracked_def dest: map_of_keys(1))

lemma tracked_HandleTimeout [simp]: "tracked (snd (HandleTimeout now order s)) = tracked s"
proof -
  have "tracked (snd (timeout_loop now order out s)) = tracked s" for out
    by (induction order arbitrary: out s) (auto simp: tracked_requeue split: option.splits)
  then show ?thesis by (simp add: HandleTimeout_def)
qed

lemma tracked_RemovePeer [simp]: "tracked (RemovePeer a order s) = tracked s"
proof -
  have "tracked (remove_peer_loop a order s) = tracked s"
    by (induction order arbitrary: s) (auto simp: tracked_requeue split: option.splits)
  then show ?thesis by (simp add: RemovePeer_def tracked_def Let_def)
qed

lemma tracked_RequeueBlock: "tracked (RequeueBlock h n s) = insert h (tracked s)"
  by (auto simp: RequeueBlock_def tracked_def)

lemma flush_staging_sel [simp]:
  "sc_inFlight (flush_staging order s) = sc_inFlight s" "sc_peerStats (flush_staging order s) = sc_peerStats s"
  "sc_nextConnectHeight (flush_staging order s) = sc_nextConnectHeight s"
  "sc_maxInFlightPerPeer (flush_staging order s) = sc_maxInFlightPerPeer s"
  "sc_maxGlobalInFlight (flush_staging order s) = sc_maxGlobalInFlight s"
  "sc_maxStagingSize (flush_staging order s) = sc_maxStagingSize s" "sc_requestTimeout (flush_staging order s) = sc_requestTimeout s"
  "sc_staging (flush_staging order s) = filter (\<lambda>(h, b). h \<notin> set order) (sc_staging s)"
  "sc_needed (flush_staging order s) = sc_needed s @ map (\<lambda>h. \<lparr>se_Hash = h, se_Height = 0\<rparr>) order"
  unfolding flush_staging_def
  by (induction order arbitrary: s) (auto simp: AList.delete_eq intro!: filter_cong)

lemma tracked_flush: "set order = staged s \<Longrightarrow> tracked (flush_staging order s) = tracked s"
proof -
  assume order: "set order = staged s"
  have n: "se_Hash ` set (sc_needed (flush_staging order s)) = se_Hash ` set (sc_needed s) \<union> set order"
    by (simp add: image_Un image_image)
  have g: "staged (flush_staging order s) = {}" unfolding flush_staging_sel keys_filter order by simp
  show ?thesis by (simp only: tracked_def n g order flush_staging_sel(1) Un_empty_left Un_empty_right Un_ac)
qed

section \<open>The invariant\<close>

definition scheduler_ok :: "BlockScheduler \<Rightarrow> bool" where
  "scheduler_ok s \<longleftrightarrow> distinct (map fst (sc_inFlight s)) \<and> distinct (map fst (sc_staging s)) \<and>
     (\<forall>(h, e) \<in> set (sc_inFlight s). if_Hash e = h) \<and> (\<forall>(h, b) \<in> set (sc_staging s). hashBlock (sb_Block b) = h) \<and>
     int (length (sc_inFlight s)) \<le> 512 \<and> int (length (sc_staging s) + length (sc_inFlight s)) \<le> 1535 \<and>
     (\<forall>a. pd_InFlight (peer_stats a s) \<le> 16) \<and>
     sc_maxInFlightPerPeer s = 16 \<and> sc_maxGlobalInFlight s = 512 \<and> sc_maxStagingSize s = 1024 \<and>
     sc_requestTimeout s = 30 * Second"

text \<open>The requests a peer has not answered, and the count the scheduler keeps of them.\<close>

definition requests_of :: "string \<Rightarrow> BlockScheduler \<Rightarrow> nat" where
  "requests_of a s = length (filter (\<lambda>(h, e). if_PeerAddr e = a) (sc_inFlight s))"

definition counts_exact :: "BlockScheduler \<Rightarrow> bool" where
  "counts_exact s \<longleftrightarrow> (\<forall>a. pd_InFlight (peer_stats a s) = int (requests_of a s))"

lemma scheduler_ok_New: "scheduler_ok (NewBlockScheduler tip)" "counts_exact (NewBlockScheduler tip)"
  by (simp_all add: scheduler_ok_def counts_exact_def NewBlockScheduler_def peer_stats_def new_stats_def requests_of_def
      DefaultMaxInFlightPerPeer_def DefaultMaxGlobalInFlight_def DefaultMaxStagingSize_def DefaultRequestTimeout_def)

lemma queue_hashes_sel [simp]:
  "sc_inFlight (queue_hashes q n hs s) = sc_inFlight s" "sc_staging (queue_hashes q n hs s) = sc_staging s"
  "sc_peerStats (queue_hashes q n hs s) = sc_peerStats s" "sc_nextConnectHeight (queue_hashes q n hs s) = sc_nextConnectHeight s"
  "sc_maxInFlightPerPeer (queue_hashes q n hs s) = sc_maxInFlightPerPeer s"
  "sc_maxGlobalInFlight (queue_hashes q n hs s) = sc_maxGlobalInFlight s"
  "sc_maxStagingSize (queue_hashes q n hs s) = sc_maxStagingSize s" "sc_requestTimeout (queue_hashes q n hs s) = sc_requestTimeout s"
  by (induction hs arbitrary: n s) auto

text \<open>The invariant and the counts do not depend on the queue and the next height.\<close>

lemma scheduler_ok_cong:
  assumes "sc_inFlight s' = sc_inFlight s" "sc_staging s' = sc_staging s" "sc_peerStats s' = sc_peerStats s"
    "sc_maxInFlightPerPeer s' = sc_maxInFlightPerPeer s" "sc_maxGlobalInFlight s' = sc_maxGlobalInFlight s"
    "sc_maxStagingSize s' = sc_maxStagingSize s" "sc_requestTimeout s' = sc_requestTimeout s"
  shows "scheduler_ok s' = scheduler_ok s"
  using assms by (simp add: scheduler_ok_def peer_stats_def)

lemma counts_cong:
  assumes "sc_inFlight s' = sc_inFlight s" "sc_peerStats s' = sc_peerStats s"
  shows "counts_exact s' = counts_exact s"
  using assms by (simp add: counts_exact_def peer_stats_def requests_of_def)

lemma peer_stats_with [simp]: "peer_stats a (with_stats b f s) = (if a = b then f (peer_stats b s) else peer_stats a s)"
  by (simp add: with_stats_def peer_stats_def)

lemma peer_stats_upd [simp]:
  "peer_stats a (s\<lparr>sc_inFlight := x\<rparr>) = peer_stats a s" "peer_stats a (s\<lparr>sc_staging := y\<rparr>) = peer_stats a s"
  "peer_stats a (s\<lparr>sc_needed := z\<rparr>) = peer_stats a s" "peer_stats a (queue_entry h n s) = peer_stats a s"
  by (simp_all add: peer_stats_def queue_entry_def)

lemma filter_delete_length:
  assumes "distinct (map fst al)" "map_of al k = Some v"
  shows "length (filter P (AList.delete k al)) = length (filter P al) - (if P (k, v) then 1 else 0)"
    "P (k, v) \<Longrightarrow> 0 < length (filter P al)"
proof -
  show "length (filter P (AList.delete k al)) = length (filter P al) - (if P (k, v) then 1 else 0)"
    using assms
  proof (induction al)
    case (Cons x al)
    show ?case
    proof (cases "fst x = k")
      case True
      then have "AList.delete k (x # al) = al" using Cons.prems(1) by (force simp: AList.delete_eq filter_id_conv)
      moreover have "x = (k, v)" using True Cons.prems(2) by (cases x) simp
      ultimately show ?thesis by simp
    next
      case False
      then have "map_of al k = Some v" using Cons.prems(2) by (cases x) simp
      moreover from this have "P (k, v) \<Longrightarrow> filter P al \<noteq> []" by (auto simp: filter_empty_conv dest: map_of_SomeD)
      ultimately show ?thesis using False Cons by (cases x) (auto simp: AList.delete_eq Suc_diff_le Suc_leI)
    qed
  qed simp
  show "P (k, v) \<Longrightarrow> 0 < length (filter P al)" using assms(2) by (auto simp: filter_empty_conv dest: map_of_SomeD)
qed

lemma length_update_le: "length (AList.update k v al) \<le> Suc (length al)"
  by (induction al) auto

lemma set_update_subset: "set (AList.update k v al) \<subseteq> insert (k, v) (set al)"
  by (induction al) auto

lemma length_delete_key: "distinct (map fst al) \<Longrightarrow> map_of al k = Some v \<Longrightarrow> length (AList.delete k al) = length al - 1 \<and> 0 < length al"
  using filter_delete_length [of al k v "\<lambda>_. True"] by simp

section \<open>Requests\<close>

lemma assign_loop_sel [simp]:
  "sc_staging (snd (assign_loop a b now av es as rs s)) = sc_staging s"
  "sc_nextConnectHeight (snd (assign_loop a b now av es as rs s)) = sc_nextConnectHeight s"
  "sc_maxInFlightPerPeer (snd (assign_loop a b now av es as rs s)) = sc_maxInFlightPerPeer s"
  "sc_maxGlobalInFlight (snd (assign_loop a b now av es as rs s)) = sc_maxGlobalInFlight s"
  "sc_maxStagingSize (snd (assign_loop a b now av es as rs s)) = sc_maxStagingSize s"
  "sc_requestTimeout (snd (assign_loop a b now av es as rs s)) = sc_requestTimeout s"
  by (induction es arbitrary: as rs s) auto

text \<open>
  The loop adds one request, and one to the count of the peer, for every hash it assigns, and assigns no more than are
  available.
\<close>

lemma assign_loop_adds:
  "\<exists>new. fst (assign_loop a b now av es as rs s) = as @ map fst new \<and>
     sc_inFlight (snd (assign_loop a b now av es as rs s)) = sc_inFlight s @ new \<and>
     (distinct (map fst (sc_inFlight s)) \<longrightarrow> distinct (map fst (sc_inFlight s @ new))) \<and>
     (\<forall>(h, e) \<in> set new. if_Hash e = h \<and> if_PeerAddr e = a) \<and>
     (new \<noteq> [] \<longrightarrow> int (length as + length new) \<le> av) \<and>
     pd_InFlight (peer_stats a (snd (assign_loop a b now av es as rs s))) = pd_InFlight (peer_stats a s) + int (length new) \<and>
     (\<forall>c. c \<noteq> a \<longrightarrow> peer_stats c (snd (assign_loop a b now av es as rs s)) = peer_stats c s)"
proof (induction es arbitrary: as rs s)
  case (Cons entry es)
  show ?case
  proof (cases "int (length as) \<ge> av \<or> map_of (sc_inFlight s) (se_Hash entry) \<noteq> None \<or> se_Height entry > b")
    case True
    then show ?thesis using Cons.IH [of as "rs @ [entry]" s] by auto
  next
    case False
    let ?e = "\<lparr>if_Hash = se_Hash entry, if_Height = se_Height entry, if_PeerAddr = a, if_RequestedAt = now\<rparr>"
    let ?s = "with_stats a (\<lambda>st. st\<lparr>pd_InFlight := pd_InFlight st + 1, pd_LastRequest := now\<rparr>)
      (s\<lparr>sc_inFlight := sc_inFlight s @ [(se_Hash entry, ?e)]\<rparr>)"
    have fresh: "AList.update (se_Hash entry) ?e (sc_inFlight s) = sc_inFlight s @ [(se_Hash entry, ?e)]"
      using False by (intro update_fresh) simp
    have "se_Hash entry \<notin> fst ` set (sc_inFlight s)" using False by (simp add: map_of_keys(2))
    moreover have run: "assign_loop a b now av (entry # es) as rs s = assign_loop a b now av es (as @ [se_Hash entry]) rs ?s"
      using False by (simp add: fresh)
    obtain new where new: "fst (assign_loop a b now av es (as @ [se_Hash entry]) rs ?s) = (as @ [se_Hash entry]) @ map fst new"
      "sc_inFlight (snd (assign_loop a b now av es (as @ [se_Hash entry]) rs ?s)) = sc_inFlight ?s @ new"
      "distinct (map fst (sc_inFlight ?s)) \<longrightarrow> distinct (map fst (sc_inFlight ?s @ new))"
      "\<forall>(h, e) \<in> set new. if_Hash e = h \<and> if_PeerAddr e = a"
      "new \<noteq> [] \<longrightarrow> int (length (as @ [se_Hash entry]) + length new) \<le> av"
      "pd_InFlight (peer_stats a (snd (assign_loop a b now av es (as @ [se_Hash entry]) rs ?s))) = pd_InFlight (peer_stats a ?s) + int (length new)"
      "\<forall>c. c \<noteq> a \<longrightarrow> peer_stats c (snd (assign_loop a b now av es (as @ [se_Hash entry]) rs ?s)) = peer_stats c ?s"
      using Cons.IH [of "as @ [se_Hash entry]" rs ?s] by blast
    ultimately show ?thesis
      using False unfolding run by (intro exI [of _ "(se_Hash entry, ?e) # new"]) (cases new; auto)
  qed
qed simp

text \<open>What \<^verbatim>\<open>AssignWork\<close> does to the maps and the counts.\<close>

lemma AssignWork_adds:
  obtains new where "fst (AssignWork a lim b now s) = map fst new"
    "sc_inFlight (snd (AssignWork a lim b now s)) = sc_inFlight s @ new"
    "distinct (map fst (sc_inFlight s)) \<Longrightarrow> distinct (map fst (sc_inFlight s @ new))"
    "\<forall>(h, e) \<in> set new. if_Hash e = h \<and> if_PeerAddr e = a"
    "new \<noteq> [] \<Longrightarrow> int (length new) \<le> sc_maxInFlightPerPeer s - pd_InFlight (peer_stats a s) \<and>
       int (length new) \<le> sc_maxGlobalInFlight s - int (length (sc_inFlight s)) \<and> int (length (sc_staging s)) < sc_maxStagingSize s"
    "pd_InFlight (peer_stats a (snd (AssignWork a lim b now s))) = pd_InFlight (peer_stats a s) + int (length new)"
    "\<forall>c. c \<noteq> a \<longrightarrow> peer_stats c (snd (AssignWork a lim b now s)) = peer_stats c s"
proof (cases rule: AssignWork_cases [of a lim b now s])
  case refused
  show ?thesis by (rule that [of "[]"]) (simp_all add: refused)
next
  case (assigned av)
  show ?thesis
    using that assign_loop_adds [of a b now av "sc_needed s" "[]" "[]" "with_stats a (\<lambda>st. st) s"] assigned by fastforce
qed

lemma AssignWork_sel [simp]:
  "sc_staging (snd (AssignWork a lim b now s)) = sc_staging s"
  "sc_nextConnectHeight (snd (AssignWork a lim b now s)) = sc_nextConnectHeight s"
  "sc_maxInFlightPerPeer (snd (AssignWork a lim b now s)) = sc_maxInFlightPerPeer s"
  "sc_maxGlobalInFlight (snd (AssignWork a lim b now s)) = sc_maxGlobalInFlight s"
  "sc_maxStagingSize (snd (AssignWork a lim b now s)) = sc_maxStagingSize s"
  "sc_requestTimeout (snd (AssignWork a lim b now s)) = sc_requestTimeout s"
  by (cases rule: AssignWork_cases [of a lim b now s]; simp)+

lemma AssignWork_ok: "scheduler_ok s \<Longrightarrow> scheduler_ok (snd (AssignWork a lim b now s))"
proof (rule AssignWork_adds [of a lim b now s])
  fix new
  assume s: "scheduler_ok s" and inf: "sc_inFlight (snd (AssignWork a lim b now s)) = sc_inFlight s @ new"
    and d: "distinct (map fst (sc_inFlight s)) \<Longrightarrow> distinct (map fst (sc_inFlight s @ new))"
    and h: "\<forall>(h, e) \<in> set new. if_Hash e = h \<and> if_PeerAddr e = a"
    and bd: "new \<noteq> [] \<Longrightarrow> int (length new) \<le> sc_maxInFlightPerPeer s - pd_InFlight (peer_stats a s) \<and>
       int (length new) \<le> sc_maxGlobalInFlight s - int (length (sc_inFlight s)) \<and> int (length (sc_staging s)) < sc_maxStagingSize s"
    and pa: "pd_InFlight (peer_stats a (snd (AssignWork a lim b now s))) = pd_InFlight (peer_stats a s) + int (length new)"
    and pc: "\<forall>c. c \<noteq> a \<longrightarrow> peer_stats c (snd (AssignWork a lim b now s)) = peer_stats c s"
  have "pd_InFlight (peer_stats c (snd (AssignWork a lim b now s))) \<le> 16" for c
    using s bd pa pc by (cases "c = a"; cases "new = []") (auto simp: scheduler_ok_def)
  moreover have "int (length (sc_inFlight s @ new)) \<le> 512 \<and> int (length (sc_staging s) + length (sc_inFlight s @ new)) \<le> 1535"
    using s bd by (cases "new = []") (auto simp: scheduler_ok_def)
  ultimately show ?thesis using s d h unfolding scheduler_ok_def inf by auto
qed

lemma AssignWork_counts: "counts_exact s \<Longrightarrow> counts_exact (snd (AssignWork a lim b now s))"
proof (rule AssignWork_adds [of a lim b now s])
  fix new
  assume s: "counts_exact s" and inf: "sc_inFlight (snd (AssignWork a lim b now s)) = sc_inFlight s @ new"
    and h: "\<forall>(h, e) \<in> set new. if_Hash e = h \<and> if_PeerAddr e = a"
    and p: "pd_InFlight (peer_stats a (snd (AssignWork a lim b now s))) = pd_InFlight (peer_stats a s) + int (length new)"
      "\<forall>c. c \<noteq> a \<longrightarrow> peer_stats c (snd (AssignWork a lim b now s)) = peer_stats c s"
  have "filter (\<lambda>(h, e). if_PeerAddr e = c) new = (if c = a then new else [])" for c
    using h by (auto simp: filter_id_conv filter_empty_conv)
  then show ?thesis
    using s p unfolding counts_exact_def requests_of_def inf filter_append by (metis add.right_neutral length_append list.size(3) of_nat_add)
qed

text \<open>A request that ends, by an answer, a timeout or the loss of its peer.\<close>

lemma delete_request_ok:
  assumes "scheduler_ok s" "map_of (sc_inFlight s) h = Some e" "\<And>st. pd_InFlight (f st) \<le> pd_InFlight st"
  shows "scheduler_ok ((with_stats a f s)\<lparr>sc_inFlight := AList.delete h (sc_inFlight s)\<rparr>)"
proof -
  have "pd_InFlight (peer_stats c (with_stats a f s)) \<le> 16" for c
    using assms(1) assms(3) [of "peer_stats a s"] by (auto simp: scheduler_ok_def intro: order_trans)
  moreover have "length (AList.delete h (sc_inFlight s)) = length (sc_inFlight s) - 1 \<and> 0 < length (sc_inFlight s)"
    using assms(1,2) by (intro length_delete_key) (auto simp: scheduler_ok_def)
  ultimately show ?thesis
    using assms(1) by (auto simp: scheduler_ok_def distinct_delete AList.delete_eq distinct_map_filter)
qed

lemma delete_request_counts:
  assumes "counts_exact s" "distinct (map fst (sc_inFlight s))" "map_of (sc_inFlight s) h = Some e"
    "\<And>st. pd_InFlight (f st) = pd_InFlight st - 1"
  shows "counts_exact ((with_stats (if_PeerAddr e) f s)\<lparr>sc_inFlight := AList.delete h (sc_inFlight s)\<rparr>)"
  unfolding counts_exact_def
proof
  fix c
  note len = filter_delete_length [OF assms(2,3), of "\<lambda>(h, e). if_PeerAddr e = c"]
  have "pd_InFlight (peer_stats c s) = int (requests_of c s)" using assms(1) by (simp add: counts_exact_def)
  then show "pd_InFlight (peer_stats c ((with_stats (if_PeerAddr e) f s)\<lparr>sc_inFlight := AList.delete h (sc_inFlight s)\<rparr>)) =
     int (requests_of c ((with_stats (if_PeerAddr e) f s)\<lparr>sc_inFlight := AList.delete h (sc_inFlight s)\<rparr>))"
    using len assms(4) by (cases "c = if_PeerAddr e") (auto simp: requests_of_def of_nat_diff Suc_le_eq)
qed

lemma queue_entry_ok [simp]: "scheduler_ok (queue_entry h n s) = scheduler_ok s" "counts_exact (queue_entry h n s) = counts_exact s"
  by (rule scheduler_ok_cong; simp) (rule counts_cong; simp)

lemma BlockReceived_sel [simp]:
  "sc_nextConnectHeight (snd (BlockReceived h block a now s)) = sc_nextConnectHeight s"
  by (auto simp: BlockReceived_def split: option.splits)

lemma BlockReceived_ok:
  assumes "scheduler_ok s"
  shows "scheduler_ok (snd (BlockReceived h block a now s))"
proof (cases "map_of (sc_inFlight s) h")
  case (Some e)
  show ?thesis
  proof (cases "HashBlockHeader (blk_Header block) = h")
    case True
    let ?f = "\<lambda>st. st\<lparr>pd_AvgLatency := avg_latency (now - if_RequestedAt e) st, pd_Completed := pd_Completed st + 1,
                  pd_InFlight := pd_InFlight st - 1\<rparr>"
    let ?s = "(with_stats a ?f s)\<lparr>sc_inFlight := AList.delete h (sc_inFlight s)\<rparr>"
    let ?b = "\<lparr>sb_Block = block, sb_PeerAddr = a\<rparr>"
    have ok: "scheduler_ok ?s" by (rule delete_request_ok [OF assms Some]) simp
    have "length (AList.delete h (sc_inFlight s)) = length (sc_inFlight s) - 1 \<and> 0 < length (sc_inFlight s)"
      using assms Some by (intro length_delete_key) (auto simp: scheduler_ok_def)
    moreover have "length (sc_staging s) + length (sc_inFlight s) \<le> 1535" using assms by (simp add: scheduler_ok_def)
    ultimately have "int (length (AList.update h ?b (sc_staging s)) + length (AList.delete h (sc_inFlight s))) \<le> 1535"
      using length_update_le [of h ?b "sc_staging s"] by linarith
    moreover have "snd (BlockReceived h block a now s) = ?s\<lparr>sc_staging := AList.update h ?b (sc_staging s)\<rparr>"
      using Some True by (simp add: BlockReceived_def)
    ultimately show ?thesis
      using ok assms True set_update_subset [of h ?b "sc_staging s"]
      by (auto simp: scheduler_ok_def distinct_update hashBlock_def)
  next
    case False
    then show ?thesis using delete_request_ok [OF assms Some] Some by (simp add: BlockReceived_def)
  qed
qed (simp add: BlockReceived_def assms)

lemma BlockReceived_counts:
  assumes "counts_exact s" "scheduler_ok s" "\<And>e. map_of (sc_inFlight s) h = Some e \<Longrightarrow> if_PeerAddr e = a"
  shows "counts_exact (snd (BlockReceived h block a now s))"
proof (cases "map_of (sc_inFlight s) h")
  case (Some e)
  have d: "distinct (map fst (sc_inFlight s))" using assms(2) by (simp add: scheduler_ok_def)
  have staging: "counts_exact (s'\<lparr>sc_inFlight := y, sc_staging := x\<rparr>) = counts_exact (s'\<lparr>sc_inFlight := y\<rparr>)" for s' x y by (rule counts_cong) simp_all
  show ?thesis
    using delete_request_counts [OF assms(1) d Some] assms(3) [OF Some] Some by (simp add: BlockReceived_def staging)
qed (simp add: BlockReceived_def assms)

lemma requeue_request_alt:
  "requeue_request h e s = queue_entry h (if_Height e) (s\<lparr>sc_inFlight := AList.delete h (sc_inFlight s)\<rparr>)"
  by (simp add: requeue_request_def queue_entry_def)

lemma HandleTimeout_ok: "scheduler_ok s \<Longrightarrow> scheduler_ok (snd (HandleTimeout now order s))"
    "scheduler_ok s \<Longrightarrow> counts_exact s \<Longrightarrow> counts_exact (snd (HandleTimeout now order s))"
    "sc_nextConnectHeight (snd (HandleTimeout now order s)) = sc_nextConnectHeight s"
proof -
  have "scheduler_ok (snd (timeout_loop now order out s)) \<and> (counts_exact s \<longrightarrow> counts_exact (snd (timeout_loop now order out s)))"
    if "scheduler_ok s" for out s
    using that
  proof (induction order arbitrary: out s)
    case (Cons h hs)
    show ?case
    proof (cases "map_of (sc_inFlight s) h")
      case (Some e)
      let ?f = "\<lambda>st. st\<lparr>pd_InFlight := pd_InFlight st - 1, pd_Failed := pd_Failed st + 1\<rparr>"
      let ?s = "requeue_request h e (with_stats (if_PeerAddr e) ?f s)"
      have "distinct (map fst (sc_inFlight s))" using Cons.prems by (simp add: scheduler_ok_def)
      then have "counts_exact s \<Longrightarrow> counts_exact ?s"
        using delete_request_counts [OF _ _ Some, of ?f] by (simp add: requeue_request_alt)
      moreover have "scheduler_ok ?s"
        using delete_request_ok [OF Cons.prems Some, of ?f "if_PeerAddr e"] by (simp add: requeue_request_alt)
      ultimately show ?thesis using Some Cons.IH [of ?s "out @ [e]"] Cons.IH [OF Cons.prems, of out] by simp
    qed (use Cons in simp)
  qed simp
  then show "scheduler_ok s \<Longrightarrow> scheduler_ok (snd (HandleTimeout now order s))"
      "scheduler_ok s \<Longrightarrow> counts_exact s \<Longrightarrow> counts_exact (snd (HandleTimeout now order s))"
    by (simp_all add: HandleTimeout_def)
  have "sc_nextConnectHeight (snd (timeout_loop now order out s)) = sc_nextConnectHeight s" for out s
    by (induction order arbitrary: out s) (auto simp: requeue_request_def split: option.splits)
  then show "sc_nextConnectHeight (snd (HandleTimeout now order s)) = sc_nextConnectHeight s" by (simp add: HandleTimeout_def)
qed

lemma remove_peer_loop_sel:
  "sc_staging (remove_peer_loop a order s) = sc_staging s" "sc_peerStats (remove_peer_loop a order s) = sc_peerStats s"
  "sc_nextConnectHeight (remove_peer_loop a order s) = sc_nextConnectHeight s"
  "sc_maxInFlightPerPeer (remove_peer_loop a order s) = sc_maxInFlightPerPeer s"
  "sc_maxGlobalInFlight (remove_peer_loop a order s) = sc_maxGlobalInFlight s"
  "sc_maxStagingSize (remove_peer_loop a order s) = sc_maxStagingSize s"
  "sc_requestTimeout (remove_peer_loop a order s) = sc_requestTimeout s"
  by (induction order arbitrary: s; simp add: requeue_request_def split: option.split)+

lemma remove_peer_loop_inFlight:
  "distinct (map fst (sc_inFlight s)) \<Longrightarrow>
     sc_inFlight (remove_peer_loop a order s) = filter (\<lambda>(h, e). \<not> (h \<in> set order \<and> if_PeerAddr e = a)) (sc_inFlight s)"
proof (induction order arbitrary: s)
  case (Cons h hs)
  have e: "map_of (sc_inFlight s) h = Some e" if "(h, e) \<in> set (sc_inFlight s)" for e
    using Cons.prems that by (rule map_of_is_SomeI)
  show ?case
  proof (cases "map_of (sc_inFlight s) h")
    case None
    then have "(h, e) \<notin> set (sc_inFlight s)" for e using e by fastforce
    then show ?thesis using None Cons by (auto intro!: filter_cong)
  next
    case (Some e')
    let ?s = "if if_PeerAddr e' = a then requeue_request h e' s else s"
    have "distinct (map fst (sc_inFlight ?s))" using Cons.prems by (simp add: requeue_request_def distinct_delete)
    then show ?thesis
      using Some Cons.IH [of ?s] e by (auto simp: requeue_request_def AList.delete_eq intro!: filter_cong)
  qed
qed (simp add: case_prod_beta')

lemma RemovePeer_ok:
  assumes "scheduler_ok s"
  shows "scheduler_ok (RemovePeer a order s)" "sc_nextConnectHeight (RemovePeer a order s) = sc_nextConnectHeight s"
    "counts_exact s \<Longrightarrow> set order = in_flight s \<Longrightarrow> counts_exact (RemovePeer a order s)"
proof -
  note loop = remove_peer_loop_sel [of a order s] remove_peer_loop_inFlight [of s a order]
  show "sc_nextConnectHeight (RemovePeer a order s) = sc_nextConnectHeight s" by (simp add: RemovePeer_def loop)
  have d: "distinct (map fst (sc_inFlight s))" using assms by (simp add: scheduler_ok_def)
  have st: "pd_InFlight (peer_stats c (RemovePeer a order s)) = (if c = a then 0 else pd_InFlight (peer_stats c s))" for c
    by (simp add: RemovePeer_def Let_def peer_stats_def new_stats_def loop)
  have inf: "sc_inFlight (RemovePeer a order s) = filter (\<lambda>(h, e). \<not> (h \<in> set order \<and> if_PeerAddr e = a)) (sc_inFlight s)"
    by (simp add: RemovePeer_def loop d)
  have "length (sc_inFlight (RemovePeer a order s)) \<le> length (sc_inFlight s)" unfolding inf by (rule length_filter_le)
  moreover have "distinct (map fst (sc_inFlight (RemovePeer a order s)))"
      "set (sc_inFlight (RemovePeer a order s)) \<subseteq> set (sc_inFlight s)"
    unfolding inf using d by (auto simp: distinct_map_filter)
  moreover have "sc_staging (RemovePeer a order s) = sc_staging s"
      "sc_maxInFlightPerPeer (RemovePeer a order s) = sc_maxInFlightPerPeer s"
      "sc_maxGlobalInFlight (RemovePeer a order s) = sc_maxGlobalInFlight s"
      "sc_maxStagingSize (RemovePeer a order s) = sc_maxStagingSize s" "sc_requestTimeout (RemovePeer a order s) = sc_requestTimeout s"
    by (simp_all add: RemovePeer_def loop Let_def)
  ultimately show "scheduler_ok (RemovePeer a order s)"
    using assms st unfolding scheduler_ok_def by auto
  assume c: "counts_exact s" and o: "set order = in_flight s"
  have "sc_inFlight (RemovePeer a order s) = filter (\<lambda>(h, e). if_PeerAddr e \<noteq> a) (sc_inFlight s)"
    unfolding inf o by (rule filter_cong) force+
  then have "requests_of c (RemovePeer a order s) = (if c = a then 0 else requests_of c s)" for c
    by (auto simp: requests_of_def case_prod_beta' intro!: arg_cong [where f = length] filter_cong)
  then show "counts_exact (RemovePeer a order s)" using c st by (simp add: counts_exact_def)
qed

section \<open>Delivery\<close>

definition staging_ok :: "BlockScheduler \<Rightarrow> bool" where
  "staging_ok s \<longleftrightarrow> distinct (map fst (sc_staging s)) \<and> (\<forall>(h, b) \<in> set (sc_staging s). hashBlock (sb_Block b) = h)"

text \<open>The state after the blocks \<open>bs\<close> have been taken out of the staging pool.\<close>

definition take_out :: "stagedBlock list \<Rightarrow> BlockScheduler \<Rightarrow> BlockScheduler" where
  "take_out bs s = s\<lparr>sc_staging := filter (\<lambda>(h, b). h \<notin> set (map (hashBlock \<circ> sb_Block) bs)) (sc_staging s),
     sc_nextConnectHeight := sc_nextConnectHeight s + of_nat (length bs)\<rparr>"

definition delivers :: "HeaderIndex \<Rightarrow> BlockScheduler \<Rightarrow> stagedBlock list \<Rightarrow> bool" where
  "delivers idx s bs \<longleftrightarrow> (\<forall>i < length bs. \<exists>node. GetHeaderByHeight idx (sc_nextConnectHeight s + of_nat i) = Some node \<and>
     hashBlock (sb_Block (bs ! i)) = hn_Hash node \<and> (hn_Hash node, bs ! i) \<in> set (sc_staging s)) \<and>
     (\<forall>node. GetHeaderByHeight idx (sc_nextConnectHeight s + of_nat (length bs)) = Some node \<longrightarrow>
        hn_Hash node \<notin> staged (take_out bs s))"

lemma delivers_Cons:
  assumes "GetHeaderByHeight idx (sc_nextConnectHeight s) = Some node" "map_of (sc_staging s) (hn_Hash node) = Some b"
    "hashBlock (sb_Block b) = hn_Hash node"
    "delivers idx (take_out [b] s) bs"
  shows "delivers idx s (b # bs)" "take_out bs (take_out [b] s) = take_out (b # bs) s"
proof -
  show t: "take_out bs (take_out [b] s) = take_out (b # bs) s"
    by (simp add: take_out_def add_ac case_prod_beta')
  have "(hn_Hash node, b) \<in> set (sc_staging s)" using assms(2) by (rule map_of_SomeD)
  then show "delivers idx s (b # bs)"
    using assms t by (auto simp: delivers_def less_Suc_eq_0_disj take_out_def add_ac)
qed

lemma drain_loop_spec:
  "staging_ok s \<Longrightarrow> \<exists>bs. fst (drain_loop idx order ready s) = ready @ bs \<and> delivers idx s bs \<and>
     (snd (drain_loop idx order ready s) = take_out bs s \<or>
      snd (drain_loop idx order ready s) = flush_staging (order (take_out bs s)) (take_out bs s))"
proof (induction idx order ready s rule: drain_loop.induct)
  case (1 idx order ready s)
  have nil: "take_out [] s = s" by (simp add: take_out_def case_prod_beta')
  show ?case
  proof (cases "GetHeaderByHeight idx (sc_nextConnectHeight s)")
    case None
    then show ?thesis by (intro exI [of _ "[]"]) (simp add: drain_loop.simps delivers_def nil)
  next
    case node: (Some node)
    show ?thesis
    proof (cases "map_of (sc_staging s) (hn_Hash node)")
      case None
      then have "hn_Hash node \<notin> staged s" by (simp only: map_of_keys(2) not_not not_False_eq_True)
      then show ?thesis using node None by (intro exI [of _ "[]"]) (simp add: drain_loop.simps delivers_def nil)
    next
      case (Some b)
      let ?s = "s\<lparr>sc_staging := AList.delete (hn_Hash node) (sc_staging s), sc_nextConnectHeight := sc_nextConnectHeight s + 1\<rparr>"
      have b: "hashBlock (sb_Block b) = hn_Hash node" using 1(2) map_of_SomeD [OF Some] by (auto simp: staging_ok_def)
      then have s: "?s = take_out [b] s" by (simp add: take_out_def AList.delete_eq case_prod_beta' eq_commute)
      have "staging_ok ?s" using 1(2) by (auto simp: staging_ok_def AList.delete_eq distinct_map_filter)
      from 1(1) [OF node Some this] obtain bs where bs:
        "fst (drain_loop idx order (ready @ [b]) ?s) = (ready @ [b]) @ bs" "delivers idx ?s bs"
        "snd (drain_loop idx order (ready @ [b]) ?s) = take_out bs ?s \<or>
          snd (drain_loop idx order (ready @ [b]) ?s) = flush_staging (order (take_out bs ?s)) (take_out bs ?s)" by blast
      have run: "drain_loop idx order ready s = drain_loop idx order (ready @ [b]) ?s"
        using node Some by (simp add: drain_loop.simps [of idx order ready s])
      note step = delivers_Cons [OF node Some b, of bs]
      show ?thesis using bs step unfolding run s by (intro exI [of _ "b # bs"]) simp
    qed
  qed
qed

lemma DrainReady_spec:
  assumes "scheduler_ok s"
  obtains bs where "fst (DrainReady idx order s) = bs" "delivers idx s bs"
    "snd (DrainReady idx order s) = take_out bs s \<or>
      snd (DrainReady idx order s) = flush_staging (order (take_out bs s)) (take_out bs s)"
  using drain_loop_spec [of s idx order "[]"] assms that unfolding DrainReady_def scheduler_ok_def staging_ok_def by auto

lemma take_out_sel [simp]:
  "sc_inFlight (take_out bs s) = sc_inFlight s" "sc_peerStats (take_out bs s) = sc_peerStats s" "sc_needed (take_out bs s) = sc_needed s"
  "sc_nextConnectHeight (take_out bs s) = sc_nextConnectHeight s + of_nat (length bs)"
  "sc_maxInFlightPerPeer (take_out bs s) = sc_maxInFlightPerPeer s"
  "sc_maxGlobalInFlight (take_out bs s) = sc_maxGlobalInFlight s"
  "sc_maxStagingSize (take_out bs s) = sc_maxStagingSize s" "sc_requestTimeout (take_out bs s) = sc_requestTimeout s"
  by (simp_all add: take_out_def)

text \<open>Taking blocks out of the staging pool keeps the invariant.\<close>

lemma shrink_staging_ok:
  assumes "scheduler_ok s" "sc_staging s' = filter P (sc_staging s)" "sc_inFlight s' = sc_inFlight s" "sc_peerStats s' = sc_peerStats s"
    "sc_maxInFlightPerPeer s' = sc_maxInFlightPerPeer s" "sc_maxGlobalInFlight s' = sc_maxGlobalInFlight s"
    "sc_maxStagingSize s' = sc_maxStagingSize s" "sc_requestTimeout s' = sc_requestTimeout s"
  shows "scheduler_ok s'"
proof -
  have "length (sc_staging s') \<le> length (sc_staging s)" "set (sc_staging s') \<subseteq> set (sc_staging s)"
    "distinct (map fst (sc_staging s'))"
    using assms(1) unfolding assms(2) by (auto simp: scheduler_ok_def distinct_map_filter)
  then show ?thesis using assms(1,3-8) by (auto simp: scheduler_ok_def peer_stats_def)
qed

lemma DrainReady_ok:
  assumes "scheduler_ok s"
  shows "scheduler_ok (snd (DrainReady idx order s))" "counts_exact (snd (DrainReady idx order s)) = counts_exact s"
proof -
  obtain bs where bs: "snd (DrainReady idx order s) = take_out bs s \<or>
      snd (DrainReady idx order s) = flush_staging (order (take_out bs s)) (take_out bs s)"
    using DrainReady_spec [OF assms] by metis
  have ok: "scheduler_ok (take_out bs s)"
    by (rule shrink_staging_ok [OF assms, where P = "\<lambda>(h, b). h \<notin> set (map (hashBlock \<circ> sb_Block) bs)"]) (simp_all add: take_out_def)
  have "scheduler_ok (flush_staging (order (take_out bs s)) (take_out bs s))"
    by (rule shrink_staging_ok [OF ok, where P = "\<lambda>(h, b). h \<notin> set (order (take_out bs s))"]) simp_all
  with ok bs show "scheduler_ok (snd (DrainReady idx order s))" by auto
  show "counts_exact (snd (DrainReady idx order s)) = counts_exact s" using bs by (auto intro!: counts_cong)
qed

section \<open>The header chain as the scheduler sees it\<close>

text \<open>
  What the scheduler relies on: every height up to the best one has a header and none above it has, and the hashes to
  fetch are those of consecutive heights, up to a limit.
\<close>

locale header_source =
  fixes ok :: "'i \<Rightarrow> bool" and best :: "'i \<Rightarrow> u32" and header_at :: "'i \<Rightarrow> u32 \<Rightarrow> 'n option" and hash_of :: "'n \<Rightarrow> hash"
    and fetch :: "'i \<Rightarrow> u32 \<Rightarrow> int \<Rightarrow> hash list"
  assumes best_room: "ok i \<Longrightarrow> best i + 1 \<noteq> 0"
    and header_at_iff: "ok i \<Longrightarrow> header_at i h \<noteq> None \<longleftrightarrow> h \<le> best i"
    and fetch_at: "ok i \<Longrightarrow> fetch i start limit =
      map (\<lambda>h. hash_of (the (header_at i (of_nat h)))) (take (nat limit) [unat start ..< Suc (unat (best i))])"
begin

lemma fetch_covers:
  assumes "ok i" "tip + 1 \<le> h" "h \<le> best i"
  shows "hash_of (the (header_at i h)) \<in> set (fetch i (tip + 1) (uint (best i - tip)))"
proof -
  have "unat (best i + 1) = Suc (unat (best i))" using best_room [OF assms(1)] by (simp add: unat_Suc_height)
  moreover from this have "tip + 1 \<le> best i + 1" using assms(2,3) by (simp add: word_le_nat_alt)
  then have "unat (best i - tip) = unat (best i + 1) - unat (tip + 1)" using unat_sub [of "tip + 1" "best i + 1"] by simp
  ultimately have "unat h - unat (tip + 1) < unat (best i - tip)" using assms(2,3) by (simp add: word_le_nat_alt)
  then have "unat h \<in> set (take (unat (best i - tip)) [unat (tip + 1) ..< Suc (unat (best i))])"
    using assms(2,3) unfolding in_set_conv_nth
    by (intro exI [of _ "unat h - unat (tip + 1)"]) (simp add: word_le_nat_alt del: upt_Suc)
  then show ?thesis unfolding fetch_at [OF assms(1)] by (auto intro!: image_eqI [of _ _ "unat h"] simp del: upt_Suc)
qed

lemma above_best: "ok i \<Longrightarrow> header_at i (best i + 1) = None"
  using header_at_iff [of i "best i + 1"] best_room [of i] unat_Suc_height [of "best i"] by (auto simp: word_le_nat_alt)

end

definition index_serves :: "HeaderIndex \<Rightarrow> bool" where
  "index_serves idx \<longleftrightarrow> index_ok idx \<and> height_room 1 idx \<and> distinct (map hn_Hash (lineage (hi_bestHeader idx)))"

lemma index_serves_at:
  assumes "index_serves idx"
  shows "GetHeaderByHeight idx h = (if h \<le> BestHeaderHeight idx then Some (lineage (hi_bestHeader idx) ! unat h) else None)"
    "unat (BestHeaderHeight idx) + 1 < 2 ^ 32"
proof -
  have "(hn_Hash (hi_bestHeader idx), hi_bestHeader idx) \<in> set (hi_byHash idx)"
    using assms by (auto simp: index_serves_def index_ok_def)
  then show room: "unat (BestHeaderHeight idx) + 1 < 2 ^ 32"
    using assms by (auto simp: index_serves_def height_room_def BestHeaderHeight_def)
  then show "GetHeaderByHeight idx h = (if h \<le> BestHeaderHeight idx then Some (lineage (hi_bestHeader idx) ! unat h) else None)"
    using assms by (simp add: GetHeaderByHeight_def best_at_lineage index_serves_def BestHeaderHeight_def word_le_nat_alt)
qed

lemma fetch_loop_at:
  "(\<And>h. h \<in> set hs \<Longrightarrow> best_at idx (of_nat h) \<noteq> None) \<Longrightarrow> fetch_loop idx limit hs result =
     result @ map (\<lambda>h. hn_Hash (the (best_at idx (of_nat h)))) (take (nat (limit - int (length result))) hs)"
proof (induction hs arbitrary: result)
  case (Cons h hs)
  obtain node where "best_at idx (of_nat h) = Some node" using Cons.prems [of h] by auto
  moreover have "nat (limit - int (length result)) = Suc (nat (limit - int (length result) - 1))"
    if "int (length result) < limit" using that by simp
  ultimately show ?case using Cons by (auto simp: diff_diff_eq add.commute)
qed simp

interpretation hs: header_source index_serves BestHeaderHeight GetHeaderByHeight hn_Hash HeadersToFetch
proof
  fix i and h start :: u32 and limit
  assume ok: "index_serves i"
  show "GetHeaderByHeight i h \<noteq> None \<longleftrightarrow> h \<le> BestHeaderHeight i" by (simp add: index_serves_at [OF ok])
  have "unat (BestHeaderHeight i + 1) = Suc (unat (BestHeaderHeight i))"
    using index_serves_at(2) [OF ok] by (simp add: unat_word_ariths)
  then show "BestHeaderHeight i + 1 \<noteq> 0" by force
  have present: "best_at i (of_nat h) \<noteq> None" if "h \<in> set [unat start ..< Suc (unat (BestHeaderHeight i))]" for h
    using that index_serves_at(1) [OF ok, of "of_nat h"] by (auto simp: GetHeaderByHeight_def word_le_nat_alt unat_of_nat)
  show "HeadersToFetch i start limit =
      map (\<lambda>h. hn_Hash (the (GetHeaderByHeight i (of_nat h)))) (take (nat limit) [unat start ..< Suc (unat (BestHeaderHeight i))])"
    using fetch_loop_at [of "[unat start ..< Suc (unat (BestHeaderHeight i))]" i limit "[]"] present
    by (simp add: HeadersToFetch_def BestHeaderHeight_def GetHeaderByHeight_def del: upt_Suc)
qed

section \<open>Runs of the scheduler\<close>

text \<open>
  The hashes of the header chain that are still to be connected: from the next height up to the height \<open>B\<close> that the
  header chain had when the queue was last filled.
\<close>

definition covers :: "HeaderIndex \<Rightarrow> u32 \<Rightarrow> BlockScheduler \<Rightarrow> bool" where
  "covers idx B s \<longleftrightarrow> (\<forall>h. sc_nextConnectHeight s \<le> h \<and> h \<le> B \<longrightarrow> hn_Hash (the (GetHeaderByHeight idx h)) \<in> tracked s)"

text \<open>
  All ways in which the peer-to-peer manager calls the scheduler. With \<open>own\<close>, blocks come from the peers they were asked
  from. The header chain may grow between the calls; the queue is filled again when the manager asks for it.
\<close>

inductive scheduler_runs :: "bool \<Rightarrow> HeaderIndex \<Rightarrow> u32 \<Rightarrow> BlockScheduler \<Rightarrow> bool" for own where
  start: "index_serves idx \<Longrightarrow> scheduler_runs own idx (BestHeaderHeight idx) (Populate idx tip (NewBlockScheduler tip))"
| populate: "scheduler_runs own idx B s \<Longrightarrow> scheduler_runs own idx (BestHeaderHeight idx) (Populate idx tip s)"
| reset: "scheduler_runs own idx B s \<Longrightarrow> scheduler_runs own idx (BestHeaderHeight idx) (Scheduler_Reset idx tip s)"
| assign: "scheduler_runs own idx B s \<Longrightarrow> scheduler_runs own idx B (snd (AssignWork a lim best now s))"
| receive: "scheduler_runs own idx B s \<Longrightarrow> own \<longrightarrow> (\<forall>e. map_of (sc_inFlight s) h = Some e \<longrightarrow> if_PeerAddr e = a) \<Longrightarrow>
    scheduler_runs own idx B (snd (BlockReceived h block a now s))"
| drain: "scheduler_runs own idx B s \<Longrightarrow> (\<And>t. set (order t) = staged t) \<Longrightarrow> scheduler_runs own idx B (snd (DrainReady idx order s))"
| requeue: "scheduler_runs own idx B s \<Longrightarrow> scheduler_runs own idx B (RequeueBlock h height s)"
| timeout: "scheduler_runs own idx B s \<Longrightarrow> set order = in_flight s \<Longrightarrow> scheduler_runs own idx B (snd (HandleTimeout now order s))"
| remove: "scheduler_runs own idx B s \<Longrightarrow> set order = in_flight s \<Longrightarrow> scheduler_runs own idx B (RemovePeer a order s)"
| advance: "scheduler_runs own idx B s \<Longrightarrow> height + 1 \<noteq> 0 \<Longrightarrow> scheduler_runs own idx B (UpdateNextConnectHeight height s)"
| headers: "scheduler_runs own idx B s \<Longrightarrow> index_serves idx' \<Longrightarrow> B \<le> BestHeaderHeight idx' \<Longrightarrow>
    \<forall>h \<le> B. GetHeaderByHeight idx' h = GetHeaderByHeight idx h \<Longrightarrow> scheduler_runs own idx' B s"

lemma Populate_ok:
  assumes "index_serves idx"
  shows "scheduler_ok (Populate idx tip s) = scheduler_ok s" "counts_exact (Populate idx tip s) = counts_exact s"
    "covers idx (BestHeaderHeight idx) (Populate idx tip s)"
proof -
  let ?hs = "HeadersToFetch idx (tip + 1) (uint (BestHeaderHeight idx - tip))"
  have p: "Populate idx tip s = queue_hashes (set (map se_Hash (sc_needed s))) (tip + 1) ?hs (s\<lparr>sc_nextConnectHeight := tip + 1\<rparr>)"
    by (simp add: Populate_def populateLocked_def Let_def)
  show "scheduler_ok (Populate idx tip s) = scheduler_ok s" unfolding p by (rule scheduler_ok_cong) simp_all
  show "counts_exact (Populate idx tip s) = counts_exact s" unfolding p by (rule counts_cong) simp_all
  have "set ?hs \<subseteq> tracked (Populate idx tip s)"
    unfolding p using tracked_queue_hashes [of _ "s\<lparr>sc_nextConnectHeight := tip + 1\<rparr>"] by simp
  then show "covers idx (BestHeaderHeight idx) (Populate idx tip s)"
    using hs.fetch_covers [OF assms] unfolding covers_def by (auto simp: p)
qed

lemma Reset_ok:
  assumes "index_serves idx" "scheduler_ok s"
  shows "scheduler_ok (Scheduler_Reset idx tip s)" "counts_exact (Scheduler_Reset idx tip s)"
    "covers idx (BestHeaderHeight idx) (Scheduler_Reset idx tip s)"
proof -
  let ?s = "s\<lparr>sc_needed := [], sc_inFlight := [], sc_staging := [], sc_peerStats := Map.empty\<rparr>"
  have r: "Scheduler_Reset idx tip s = Populate idx tip ?s" by (simp add: Scheduler_Reset_def Populate_def)
  have "scheduler_ok ?s" "counts_exact ?s"
    using assms(2) by (auto simp: scheduler_ok_def counts_exact_def requests_of_def peer_stats_def new_stats_def)
  then show "scheduler_ok (Scheduler_Reset idx tip s)" "counts_exact (Scheduler_Reset idx tip s)"
      "covers idx (BestHeaderHeight idx) (Scheduler_Reset idx tip s)"
    unfolding r using Populate_ok [OF assms(1)] by simp_all
qed

text \<open>Blocks that are delivered lie below the next height, and no other block of the header chain has their hash.\<close>

lemma delivers_bound:
  assumes "index_serves idx" "delivers idx s bs"
  shows "bs = [] \<or> unat (sc_nextConnectHeight s) + length bs \<le> Suc (unat (BestHeaderHeight idx))"
    "unat (sc_nextConnectHeight s + of_nat (length bs)) = unat (sc_nextConnectHeight s) + length bs"
    "h \<le> BestHeaderHeight idx \<Longrightarrow> sc_nextConnectHeight s + of_nat (length bs) \<le> h \<Longrightarrow>
       hn_Hash (the (GetHeaderByHeight idx h)) \<notin> set (map (hashBlock \<circ> sb_Block) bs)"
proof -
  let ?n = "sc_nextConnectHeight s" and ?L = "lineage (hi_bestHeader idx)"
  note at = index_serves_at [OF assms(1)]
  have in_range: "?n + of_nat i \<le> BestHeaderHeight idx" "hashBlock (sb_Block (bs ! i)) = hn_Hash (?L ! unat (?n + of_nat i))"
    if "i < length bs" for i
    using assms(2) that unfolding delivers_def by (auto simp: at(1) split: if_splits)
  have step: "i \<le> length bs \<Longrightarrow> unat (?n + of_nat i) = unat ?n + i" for i
  proof (induction i)
    case (Suc i)
    then have i: "unat (?n + of_nat i) = unat ?n + i" by auto
    have "unat (?n + of_nat i) \<le> unat (BestHeaderHeight idx)" using in_range(1) [of i] Suc.prems by (simp add: word_le_nat_alt)
    then have "unat (?n + of_nat i + 1) = Suc (unat (?n + of_nat i))" using at(2) by (simp add: unat_word_ariths)
    then show ?case using i by (simp add: add_ac)
  qed simp
  then show "unat (?n + of_nat (length bs)) = unat ?n + length bs" by simp
  show "bs = [] \<or> unat ?n + length bs \<le> Suc (unat (BestHeaderHeight idx))"
    using step [of "length bs - 1"] in_range(1) [of "length bs - 1"] by (cases bs) (auto simp: word_le_nat_alt)
  assume h: "h \<le> BestHeaderHeight idx" "?n + of_nat (length bs) \<le> h"
  have len: "length ?L = Suc (unat (BestHeaderHeight idx))"
    using length_lineage index_ok_best(1) assms(1) by (auto simp: index_serves_def BestHeaderHeight_def)
  have "hn_Hash (?L ! unat h) \<noteq> hn_Hash (?L ! unat (?n + of_nat i))" if "i < length bs" for i
  proof -
    have "unat (?n + of_nat i) < unat h"
      using step [of i] step [of "length bs"] that h(2) by (simp add: word_le_nat_alt)
    moreover have "unat h < length ?L" using h(1) len by (simp add: word_le_nat_alt)
    ultimately show ?thesis
      using assms(1) nth_eq_iff_index_eq [of "map hn_Hash ?L" "unat h" "unat (?n + of_nat i)"] by (auto simp: index_serves_def)
  qed
  then show "hn_Hash (the (GetHeaderByHeight idx h)) \<notin> set (map (hashBlock \<circ> sb_Block) bs)"
    using in_range(2) h(1) by (auto simp: at(1) in_set_conv_nth) metis
qed

lemma DrainReady_covers:
  assumes "index_serves idx" "scheduler_ok s" "covers idx B s" "B \<le> BestHeaderHeight idx" "\<And>t. set (order t) = staged t"
  shows "covers idx B (snd (DrainReady idx order s))"
proof -
  obtain bs where bs: "delivers idx s bs" "snd (DrainReady idx order s) = take_out bs s \<or>
      snd (DrainReady idx order s) = flush_staging (order (take_out bs s)) (take_out bs s)"
    using DrainReady_spec [OF assms(2)] by metis
  note bound = delivers_bound [OF assms(1) bs(1)]
  have n: "sc_nextConnectHeight s \<le> sc_nextConnectHeight s + of_nat (length bs)" using bound(2) by (simp add: word_le_nat_alt)
  have "staged s - set (map (hashBlock \<circ> sb_Block) bs) \<subseteq> staged (take_out bs s)"
    unfolding take_out_def by force
  then have "tracked s - set (map (hashBlock \<circ> sb_Block) bs) \<subseteq> tracked (take_out bs s)"
    unfolding tracked_def take_out_sel by blast
  then have "covers idx B (take_out bs s)"
    using assms(3,4) bound(3) n unfolding covers_def take_out_sel by (meson DiffI order_trans subsetD)
  moreover have "tracked (flush_staging (order (take_out bs s)) (take_out bs s)) = tracked (take_out bs s)"
    by (rule tracked_flush [OF assms(5)])
  ultimately show ?thesis using bs(2) by (auto simp: covers_def)
qed

lemma RequeueBlock_ok:
  "scheduler_ok s \<Longrightarrow> scheduler_ok (RequeueBlock h n s)" "counts_exact (RequeueBlock h n s) = counts_exact s"
  "sc_nextConnectHeight (RequeueBlock h n s) = sc_nextConnectHeight s"
proof -
  have "scheduler_ok s \<Longrightarrow> scheduler_ok (s\<lparr>sc_staging := AList.delete h (sc_staging s)\<rparr>)"
    by (rule shrink_staging_ok [where P = "\<lambda>(k, v). h \<noteq> k"], assumption) (simp_all add: AList.delete_eq)
  then show "scheduler_ok s \<Longrightarrow> scheduler_ok (RequeueBlock h n s)" by (simp add: RequeueBlock_def)
  show "counts_exact (RequeueBlock h n s) = counts_exact s" by (rule counts_cong) (simp_all add: RequeueBlock_def)
qed (simp add: RequeueBlock_def)

lemma scheduler_runs_inv:
  "scheduler_runs own idx B s \<Longrightarrow> index_serves idx \<and> B \<le> BestHeaderHeight idx \<and> scheduler_ok s \<and> covers idx B s \<and> (own \<longrightarrow> counts_exact s)"
proof (induction rule: scheduler_runs.induct)
  case (start idx tip)
  then show ?case using Populate_ok [of idx tip] scheduler_ok_New [of tip] by simp
next
  case (populate idx B s tip)
  then show ?case using Populate_ok [of idx tip s] by simp
next
  case (reset idx B s tip)
  then show ?case using Reset_ok [of idx s tip] by simp
next
  case (assign idx B s a lim best now)
  then show ?case using AssignWork_ok [of s a lim best now] AssignWork_counts [of s a lim best now] by (simp add: covers_def)
next
  case (receive idx B s h a block now)
  then show ?case using BlockReceived_ok [of s h block a now] BlockReceived_counts [of s h a block now] by (simp add: covers_def)
next
  case (drain idx B s order)
  then show ?case using DrainReady_ok [of s idx order] DrainReady_covers [of idx s B order] by blast
next
  case (requeue idx B s h height)
  then show ?case using RequeueBlock_ok [where s = s and h = h and n = height] tracked_RequeueBlock [of h height s] by (simp add: covers_def)
next
  case (timeout idx B s order now)
  then show ?case using HandleTimeout_ok [where s = s and now = now and order = order] by (simp add: covers_def)
next
  case (remove idx B s order a)
  then show ?case using RemovePeer_ok [where s = s and a = a and order = order] by (simp add: covers_def)
next
  case (advance idx B s height)
  let ?s = "UpdateNextConnectHeight height s"
  have "scheduler_ok ?s = scheduler_ok s" by (rule scheduler_ok_cong) (simp_all add: UpdateNextConnectHeight_def)
  moreover have "counts_exact ?s = counts_exact s" by (rule counts_cong) (simp_all add: UpdateNextConnectHeight_def)
  moreover have "tracked ?s = tracked s" by (simp add: UpdateNextConnectHeight_def tracked_def)
  moreover have "sc_nextConnectHeight s \<le> sc_nextConnectHeight ?s"
    using advance(2) unat_Suc_height [of height] by (auto simp: UpdateNextConnectHeight_def word_le_nat_alt)
  ultimately show ?case using advance by (auto simp: covers_def)
next
  case (headers idx B s idx')
  then show ?case by (simp add: covers_def)
qed

section \<open>Properties\<close>


definition demo_index :: HeaderIndex where
  "demo_index = NewHeaderIndex Mainnet demo_engine demo_tip"

lemma demo_index_serves: "index_serves demo_index" "BestHeaderHeight demo_index = 0"
    "GetHeaderByHeight demo_index 0 = Some (hi_bestHeader demo_index)"
  using index_ok_New [of Mainnet demo_engine demo_tip]
  by (simp_all add: index_serves_def demo_index_def NewHeaderIndex_def Let_def height_room_def BestHeaderHeight_def
      GetHeaderByHeight_def best_at_def)

text \<open>The tip height at which the next height wraps to zero makes the scheduler ask for the only header of this index.\<close>

definition demo_scheduler :: BlockScheduler where
  "demo_scheduler = Populate demo_index (-1) (NewBlockScheduler (-1))"

lemma demo_scheduler_runs: "scheduler_runs True demo_index 0 demo_scheduler"
  using scheduler_runs.start [OF demo_index_serves(1), of True "-1"] by (simp add: demo_scheduler_def demo_index_serves(2))

lemma demo_scheduler_sel: "sc_inFlight demo_scheduler = []" "sc_staging demo_scheduler = []" "sc_nextConnectHeight demo_scheduler = 0"
  by (simp_all add: demo_scheduler_def Populate_def populateLocked_def NewBlockScheduler_def Let_def)


text \<open>Blocks are delivered in the order of the header chain: the blocks that are drained are exactly the staged
  blocks of consecutive heights from the next height on, each with the hash of the header at its height, up to the
  first height whose block is not staged; the next height advances by their number, without wrapping, and they leave
  the staging pool.\<close>

theorem scheduler_drains_in_order:
  assumes "scheduler_runs own idx B s" "DrainReady idx order s = (bs, s')"
  shows "sc_nextConnectHeight s' = sc_nextConnectHeight s + of_nat (length bs) \<and>
    unat (sc_nextConnectHeight s') = unat (sc_nextConnectHeight s) + length bs \<and>
    (\<forall>i < length bs. \<exists>node. GetHeaderByHeight idx (sc_nextConnectHeight s + of_nat i) = Some node \<and>
       hashBlock (sb_Block (bs ! i)) = hn_Hash node \<and> map_of (sc_staging s) (hn_Hash node) = Some (bs ! i) \<and>
       map_of (sc_staging s') (hn_Hash node) = None) \<and>
    (\<forall>node. GetHeaderByHeight idx (sc_nextConnectHeight s') = Some node \<longrightarrow> map_of (sc_staging s) (hn_Hash node) = None)"
proof -
  note inv = scheduler_runs_inv [OF assms(1), THEN conjunct1]
    scheduler_runs_inv [OF assms(1), THEN conjunct2, THEN conjunct2, THEN conjunct1]
  obtain bs' where "fst (DrainReady idx order s) = bs'" "delivers idx s bs'"
      "snd (DrainReady idx order s) = take_out bs' s \<or>
       snd (DrainReady idx order s) = flush_staging (order (take_out bs' s)) (take_out bs' s)"
    using DrainReady_spec [OF inv(2)] .
  then have d: "delivers idx s bs" and s': "s' = take_out bs s \<or> s' = flush_staging (order (take_out bs s)) (take_out bs s)"
    using assms(2) by simp_all
  have next': "sc_nextConnectHeight s' = sc_nextConnectHeight s + of_nat (length bs)" using s' by auto
  have sub: "staged s' \<subseteq> staged s - set (map (hashBlock \<circ> sb_Block) bs)"
    using s' by (auto simp: take_out_def simp del: keys_filter)
  have dist: "distinct (map fst (sc_staging s))" using inv(2) by (simp add: scheduler_ok_def)
  have blocks: "\<exists>node. GetHeaderByHeight idx (sc_nextConnectHeight s + of_nat i) = Some node \<and>
      hashBlock (sb_Block (bs ! i)) = hn_Hash node \<and> map_of (sc_staging s) (hn_Hash node) = Some (bs ! i) \<and>
      map_of (sc_staging s') (hn_Hash node) = None" if i: "i < length bs" for i
  proof -
    obtain node where node: "GetHeaderByHeight idx (sc_nextConnectHeight s + of_nat i) = Some node"
        "hashBlock (sb_Block (bs ! i)) = hn_Hash node" "(hn_Hash node, bs ! i) \<in> set (sc_staging s)"
      using d i unfolding delivers_def by blast
    have "hn_Hash node \<in> set (map (hashBlock \<circ> sb_Block) bs)" using node(2) i by (force simp: in_set_conv_nth)
    then show ?thesis using node map_of_is_SomeI [OF dist node(3)] sub unfolding map_of_keys(2) by blast
  qed
  have "map_of (sc_staging s) (hn_Hash node) = None" if "GetHeaderByHeight idx (sc_nextConnectHeight s') = Some node" for node
  proof -
    have "hn_Hash node \<notin> staged (take_out bs s)" using that d unfolding next' delivers_def by blast
    moreover have "sc_nextConnectHeight s' \<le> BestHeaderHeight idx" using that index_serves_at(1) [OF inv(1)] by (simp split: if_splits)
    then have "hn_Hash node \<notin> set (map (hashBlock \<circ> sb_Block) bs)"
      using delivers_bound(3) [OF inv(1) d, of "sc_nextConnectHeight s'"] that next' by simp
    ultimately show ?thesis unfolding map_of_keys(2) take_out_def by force
  qed
  with next' delivers_bound(2) [OF inv(1) d] blocks show ?thesis by simp
qed

definition demo_drain :: BlockScheduler where
  "demo_drain = snd (BlockReceived (HashBlockHeader demo_tip) \<lparr>blk_Header = demo_tip, blk_Transactions = []\<rparr> ''a'' 1
     (snd (AssignWork ''a'' 16 0 0 demo_scheduler)))"

lemma demo_scheduler_needed: "sc_needed demo_scheduler = [\<lparr>se_Hash = HashBlockHeader demo_tip, se_Height = 0\<rparr>]"
    "sc_maxInFlightPerPeer demo_scheduler = 16" "sc_maxGlobalInFlight demo_scheduler = 512" "sc_maxStagingSize demo_scheduler = 1024"
    "peer_stats a demo_scheduler = new_stats"
  by (simp_all add: demo_scheduler_def Populate_def populateLocked_def NewBlockScheduler_def Let_def HeadersToFetch_def
      demo_index_def NewHeaderIndex_def BestHeaderHeight_def best_at_def peer_stats_def
      DefaultMaxInFlightPerPeer_def DefaultMaxGlobalInFlight_def DefaultMaxStagingSize_def)

lemma demo_assigned: "sc_inFlight (snd (AssignWork ''a'' 16 0 0 demo_scheduler)) = [(HashBlockHeader demo_tip,
    \<lparr>if_Hash = HashBlockHeader demo_tip, if_Height = 0, if_PeerAddr = ''a'', if_RequestedAt = 0\<rparr>)]"
  by (simp add: AssignWork_def getOrCreateStats_def Let_def demo_scheduler_needed demo_scheduler_sel new_stats_def)

lemma demo_drain_runs: "scheduler_runs True demo_index 0 demo_drain"
  unfolding demo_drain_def
  by (intro scheduler_runs.receive scheduler_runs.assign demo_scheduler_runs) (simp add: demo_assigned)

lemma demo_drain_staging: "map_of (sc_staging demo_drain) (hn_Hash (hi_bestHeader demo_index)) \<noteq> None" "sc_nextConnectHeight demo_drain = 0"
  by (simp_all add: demo_drain_def BlockReceived_def demo_assigned demo_scheduler_sel demo_index_def NewHeaderIndex_def Let_def)

theorem scheduler_drains_in_order_witness:
  "fst (DrainReady demo_index (\<lambda>s. map fst (sc_staging s)) demo_drain) \<noteq> []"
proof
  let ?d = "DrainReady demo_index (\<lambda>s. map fst (sc_staging s)) demo_drain"
  assume nil: "fst ?d = []"
  have d: "?d = (fst ?d, snd ?d)" by simp
  have "sc_nextConnectHeight (snd ?d) = 0 \<and> (\<forall>node. GetHeaderByHeight demo_index (sc_nextConnectHeight (snd ?d)) = Some node \<longrightarrow>
      map_of (sc_staging demo_drain) (hn_Hash node) = None)"
    using scheduler_drains_in_order [OF demo_drain_runs d] by (simp add: nil demo_drain_staging(2))
  then show False using demo_index_serves(3) demo_drain_staging(1) by simp
qed

text \<open>C37. The download limits hold in every reachable state: at most 512 requests are open, at most 1535 blocks are
  requested or staged together, no peer has more than 16 requests on its count, and a staged block has the hash it is
  stored under. Where blocks come from the peers they were asked from, the count of each peer is the number of
  its open requests, which is at most 16.\<close>

theorem scheduler_limits:
  assumes "scheduler_runs own idx B s"
  shows "InFlightCount s \<le> 512 \<and> InFlightCount s + StagingCount s \<le> 1535 \<and> (\<forall>a. pd_InFlight (peer_stats a s) \<le> 16) \<and>
    (\<forall>h b. map_of (sc_staging s) h = Some b \<longrightarrow> hashBlock (sb_Block b) = h) \<and>
    (own \<longrightarrow> (\<forall>a. pd_InFlight (peer_stats a s) = int (requests_of a s) \<and> requests_of a s \<le> 16))"
proof -
  have ok: "scheduler_ok s" "own \<longrightarrow> counts_exact s" using scheduler_runs_inv [OF assms] by simp_all
  have "hashBlock (sb_Block b) = h" if "map_of (sc_staging s) h = Some b" for h b
    using ok(1) map_of_SomeD [OF that] by (auto simp: scheduler_ok_def)
  moreover have "requests_of a s \<le> 16" if "counts_exact s" for a
    using ok(1) that by (simp add: scheduler_ok_def counts_exact_def)
  ultimately show ?thesis using ok by (auto simp: scheduler_ok_def counts_exact_def InFlightCount_def StagingCount_def)
qed

theorem scheduler_limits_witness:
  "InFlightCount demo_drain + StagingCount demo_drain \<le> 1535 \<and> requests_of ''a'' demo_drain \<le> 16"
  using scheduler_limits [OF demo_drain_runs] by blast

end
