(* ===== verification/GoHeap.thy ===== *)
theory GoHeap
  imports Prelude "HOL-Library.Multiset"
begin

text \<open>
  The parts of Go's standard library that carry the ordering of the mempool: \<^verbatim>\<open>sort.Slice\<close> and the binary heap of
  \<^verbatim>\<open>container/heap\<close>, on which the fee order runs. The Go
  interface \<^verbatim>\<open>heap.Interface\<close> is the record \<open>heap_Interface\<close>, and its functions work through that record alone. The
  contract of an implementation is the locale \<open>go_heap\<close>: the laws of \<^verbatim>\<open>Len\<close>, \<^verbatim>\<open>Less\<close>, \<^verbatim>\<open>Swap\<close>, \<^verbatim>\<open>Push\<close> and
  \<^verbatim>\<open>Pop\<close> over the list of elements and their keys. Under it every operation keeps the heap order and \<open>heap_Pop\<close>
  takes out an element with the least key.
\<close>

section \<open>The library functions\<close>

record ('h, 'x) heap_Interface =
  hi_Len :: "'h \<Rightarrow> nat"
  hi_Less :: "'h \<Rightarrow> nat \<Rightarrow> nat \<Rightarrow> bool"
  hi_Swap :: "'h \<Rightarrow> nat \<Rightarrow> nat \<Rightarrow> 'h"
  hi_Push :: "'h \<Rightarrow> 'x \<Rightarrow> 'h"
  hi_Pop :: "'h \<Rightarrow> 'x \<times> 'h"

text \<open>The parent of a node; at the root Go's truncating division gives the root itself.\<close>

definition hparent :: "nat \<Rightarrow> nat" where
  "hparent j = (j - 1) div 2"

lemma hparent_less [simp]: "0 < j \<Longrightarrow> hparent j < j"
  by (simp add: hparent_def)

lemma hparent_bound [simp]: "0 < j \<Longrightarrow> j < n \<Longrightarrow> hparent j < n"
  by (simp add: hparent_def)

lemma hparent_not_above [simp]: "\<not> k < hparent k"
  by (simp add: hparent_def)

lemma hparent_eq_iff [simp]: "hparent j = j \<longleftrightarrow> j = 0"
  by (cases "j = 0") (auto simp: hparent_def)

function heap_up :: "('h, 'x) heap_Interface \<Rightarrow> 'h \<Rightarrow> nat \<Rightarrow> 'h" where
  "heap_up I h j =
     (let i = hparent j in
      if i = j \<or> \<not> hi_Less I h j i then h else heap_up I (hi_Swap I h i j) i)"
  by pat_completeness auto
termination
  by (relation "measure (\<lambda>(I, h, j). j)") (auto simp: hparent_def)

definition smaller_child :: "('h, 'x) heap_Interface \<Rightarrow> 'h \<Rightarrow> nat \<Rightarrow> nat \<Rightarrow> nat" where
  "smaller_child I h i n =
     (let j1 = 2 * i + 1; j2 = j1 + 1 in if j2 < n \<and> hi_Less I h j2 j1 then j2 else j1)"

lemma smaller_child_bounds: "i < smaller_child I h i n"
  by (simp add: smaller_child_def Let_def)

text \<open>The position at which the element comes to rest is returned with the heap.\<close>

function heap_down :: "('h, 'x) heap_Interface \<Rightarrow> 'h \<Rightarrow> nat \<Rightarrow> nat \<Rightarrow> 'h \<times> nat" where
  "heap_down I h i n =
     (if 2 * i + 1 \<ge> n then (h, i)
      else let j = smaller_child I h i n in
        if \<not> hi_Less I h j i then (h, i) else heap_down I (hi_Swap I h i j) j n)"
  by pat_completeness auto
termination
proof (relation "measure (\<lambda>(I, h, i, n). n - i)", goal_cases)
  case (2 I h i n j)
  then show ?case using smaller_child_bounds [of i I h n] by simp
qed simp

declare heap_up.simps [simp del] heap_down.simps [simp del]

primrec heap_Init_loop :: "('h, 'x) heap_Interface \<Rightarrow> nat \<Rightarrow> nat \<Rightarrow> 'h \<Rightarrow> 'h" where
  "heap_Init_loop I n 0 h = h"
| "heap_Init_loop I n (Suc i) h = heap_Init_loop I n i (fst (heap_down I h i n))"

definition heap_Init :: "('h, 'x) heap_Interface \<Rightarrow> 'h \<Rightarrow> 'h" where
  "heap_Init I h = heap_Init_loop I (hi_Len I h) (hi_Len I h div 2) h"

definition heap_Push :: "('h, 'x) heap_Interface \<Rightarrow> 'h \<Rightarrow> 'x \<Rightarrow> 'h" where
  "heap_Push I h x = (let h' = hi_Push I h x in heap_up I h' (hi_Len I h' - 1))"

definition heap_Pop :: "('h, 'x) heap_Interface \<Rightarrow> 'h \<Rightarrow> 'x \<times> 'h" where
  "heap_Pop I h =
     (let n = hi_Len I h - 1; h' = hi_Swap I h 0 n in hi_Pop I (fst (heap_down I h' 0 n)))"

definition heap_Remove :: "('h, 'x) heap_Interface \<Rightarrow> 'h \<Rightarrow> nat \<Rightarrow> 'x \<times> 'h" where
  "heap_Remove I h i =
     (let n = hi_Len I h - 1;
          h = (if n \<noteq> i then
                 (case heap_down I (hi_Swap I h i n) i n of (h, j) \<Rightarrow> if j > i then h else heap_up I h i)
               else h)
      in hi_Pop I h)"

section \<open>Heap order on lists of keys\<close>

definition lswap :: "'a list \<Rightarrow> nat \<Rightarrow> nat \<Rightarrow> 'a list" where
  "lswap xs i j = xs[i := xs ! j, j := xs ! i]"

lemma length_lswap [simp]: "length (lswap xs i j) = length xs"
  by (simp add: lswap_def)

lemma nth_lswap: "i < length xs \<Longrightarrow> j < length xs \<Longrightarrow> k < length xs \<Longrightarrow>
    lswap xs i j ! k = (if k = j then xs ! i else if k = i then xs ! j else xs ! k)"
  by (simp add: lswap_def nth_list_update)

lemma mset_lswap [simp]: "i < length xs \<Longrightarrow> j < length xs \<Longrightarrow> mset (lswap xs i j) = mset xs"
  by (simp add: lswap_def mset_swap)

lemma map_lswap: "i < length xs \<Longrightarrow> j < length xs \<Longrightarrow> map f (lswap xs i j) = lswap (map f xs) i j"
  by (simp add: lswap_def map_update)

text \<open>
  The first \<open>n\<close> keys are heap-ordered; they are so except around the node \<open>i\<close>, whose children are still not below its
  parent; the edges to the children and to the parent of \<open>i\<close>.
\<close>

definition heap_upto :: "'k::linorder list \<Rightarrow> nat \<Rightarrow> bool" where
  "heap_upto ks n \<longleftrightarrow> (\<forall>k<n. 0 < k \<longrightarrow> ks ! hparent k \<le> ks ! k)"

definition near_heap :: "'k::linorder list \<Rightarrow> nat \<Rightarrow> nat \<Rightarrow> bool" where
  "near_heap ks n i \<longleftrightarrow>
     (\<forall>k<n. 0 < k \<longrightarrow> k \<noteq> i \<longrightarrow> hparent k \<noteq> i \<longrightarrow> ks ! hparent k \<le> ks ! k) \<and>
     (\<forall>k<n. 0 < k \<longrightarrow> hparent k = i \<longrightarrow> 0 < i \<longrightarrow> ks ! hparent i \<le> ks ! k)"

definition below_ok :: "'k::linorder list \<Rightarrow> nat \<Rightarrow> nat \<Rightarrow> bool" where
  "below_ok ks n i \<longleftrightarrow> (\<forall>k<n. 0 < k \<longrightarrow> hparent k = i \<longrightarrow> ks ! i \<le> ks ! k)"

definition above_ok :: "'k::linorder list \<Rightarrow> nat \<Rightarrow> bool" where
  "above_ok ks i \<longleftrightarrow> (0 < i \<longrightarrow> ks ! hparent i \<le> ks ! i)"

lemma heap_uptoI:
  assumes "near_heap ks n i" "below_ok ks n i" "above_ok ks i"
  shows "heap_upto ks n"
  using assms unfolding heap_upto_def near_heap_def below_ok_def above_ok_def by metis

lemma heap_upto_near: "heap_upto ks n \<Longrightarrow> i < n \<Longrightarrow> near_heap ks n i"
proof -
  assume h: "heap_upto ks n" and i: "i < n"
  have "ks ! hparent i \<le> ks ! k" if "k < n" "0 < k" "hparent k = i" "0 < i" for k
    using h i that unfolding heap_upto_def by (metis order_trans)
  then show ?thesis using h unfolding heap_upto_def near_heap_def by blast
qed

lemma heap_upto_root: "heap_upto ks n \<Longrightarrow> k < n \<Longrightarrow> ks ! 0 \<le> ks ! k"
proof (induction k rule: less_induct)
  case (less k)
  show ?case
  proof (cases "k = 0")
    case False
    then have "ks ! 0 \<le> ks ! hparent k" using less.IH [of "hparent k"] less.prems by simp
    also have "\<dots> \<le> ks ! k" using less.prems False by (simp add: heap_upto_def)
    finally show ?thesis .
  qed simp
qed

lemma heap_upto_cong: "heap_upto ks n \<Longrightarrow> (\<And>k. k < n \<Longrightarrow> ks' ! k = ks ! k) \<Longrightarrow> heap_upto ks' n"
  by (auto simp: heap_upto_def)

text \<open>One step of \<open>heap_up\<close> and one step of \<open>heap_down\<close>.\<close>

lemma swap_up:
  fixes ks :: "'k::linorder list"
  assumes "near_heap ks n j" "below_ok ks n j" "0 < j" "j < n" "n \<le> length ks" "ks ! j < ks ! hparent j"
  defines "ks' \<equiv> lswap ks (hparent j) j"
  shows "near_heap ks' n (hparent j) \<and> below_ok ks' n (hparent j)"
proof -
  let ?i = "hparent j"
  have i: "?i < j" "?i < length ks" "j < length ks" using assms(3-5) by simp_all
  have nth: "ks' ! k = (if k = j then ks ! ?i else if k = ?i then ks ! j else ks ! k)" if "k < n" for k
    using that i assms(5) by (simp add: ks'_def nth_lswap)
  have hp: "hparent k < n" if "k < n" "0 < k" for k using that by simp
  have edge: "ks ! hparent k \<le> ks ! k" if "k < n" "0 < k" "k \<noteq> j" "hparent k \<noteq> j" for k
    using assms(1) that unfolding near_heap_def by blast
  have kids: "ks ! ?i \<le> ks ! k" if "k < n" "0 < k" "hparent k = j" for k
    using assms(1,3) that unfolding near_heap_def by blast
  have below: "ks' ! ?i \<le> ks' ! k" if "k < n" "0 < k" "hparent k = ?i" for k
  proof (cases "k = j")
    case False
    have "k \<noteq> ?i" using that by (metis hparent_eq_iff less_irrefl)
    moreover have "ks ! ?i \<le> ks ! k" using edge [of k] that False i by auto
    ultimately show ?thesis using nth [OF that(1)] nth [of ?i] i assms(4,6) False by simp
  qed (use nth [of j] nth [of ?i] i assms(4,6) in simp)
  have other: "ks' ! hparent k \<le> ks' ! k" if k: "k < n" "0 < k" "k \<noteq> ?i" "hparent k \<noteq> ?i" for k
  proof -
    have "k \<noteq> j" using k by blast
    then show ?thesis using edge [of k] kids [of k] k nth [OF k(1)] nth [OF hp [OF k(1,2)]] by auto
  qed
  have grand: "ks' ! hparent ?i \<le> ks' ! k" if k: "k < n" "0 < k" "hparent k = ?i" "0 < ?i" for k
  proof -
    have gi: "hparent ?i < ?i" "hparent ?i < j" using k(4) i by auto
    then have "hparent ?i \<noteq> j" by simp
    note gi = gi this
    have g: "ks ! hparent ?i \<le> ks ! ?i" using edge [of ?i] k(4) i gi assms(4) by simp
    have "ks' ! hparent ?i = ks ! hparent ?i" using nth [of "hparent ?i"] gi i assms(4) by simp
    moreover have "ks ! ?i \<le> ks' ! k"
    proof (cases "k = j")
      case False
      have "k \<noteq> ?i" using k by (metis hparent_eq_iff less_irrefl)
      moreover have "ks ! ?i \<le> ks ! k" using edge [of k] k False i by auto
      ultimately show ?thesis using nth [OF k(1)] False by simp
    qed (use nth [of j] assms(4) in simp)
    ultimately show ?thesis using g by simp
  qed
  show ?thesis unfolding near_heap_def below_ok_def using below other grand by blast
qed

lemma swap_down:
  fixes ks :: "'k::linorder list"
  assumes "near_heap ks n i" "i < c" "c < n" "n \<le> length ks" "hparent c = i" "ks ! c < ks ! i"
    and least: "\<And>k. k < n \<Longrightarrow> 0 < k \<Longrightarrow> hparent k = i \<Longrightarrow> ks ! c \<le> ks ! k"
  defines "ks' \<equiv> lswap ks i c"
  shows "near_heap ks' n c \<and> above_ok ks' c"
proof -
  have l: "i < length ks" "c < length ks" "i < n" using assms(2-4) by simp_all
  have nth: "ks' ! k = (if k = c then ks ! i else if k = i then ks ! c else ks ! k)" if "k < n" for k
    using that l assms(4) by (simp add: ks'_def nth_lswap)
  have hp: "hparent k < n" if "k < n" "0 < k" for k using that by simp
  have edge: "ks ! hparent k \<le> ks ! k" if "k < n" "0 < k" "k \<noteq> i" "hparent k \<noteq> i" for k
    using assms(1) that unfolding near_heap_def by blast
  have above_i: "ks ! hparent i \<le> ks ! c" if "0 < i"
    using assms(1-3,5) that unfolding near_heap_def by (metis gr_zeroI not_less_zero)
  have other: "ks' ! hparent k \<le> ks' ! k" if k: "k < n" "0 < k" "k \<noteq> c" "hparent k \<noteq> c" for k
  proof (cases "k = i")
    case True
    then have "hparent i \<noteq> i" using k by simp
    then show ?thesis using above_i True k nth [OF k(1)] nth [OF hp [OF k(1,2)]] by simp
  next
    case False
    show ?thesis
    proof (cases "hparent k = i")
      case True
      then show ?thesis using least [OF k(1,2)] False k nth [OF k(1)] nth [OF l(3)] assms(2) by simp
    qed (use edge [OF k(1,2)] False k nth [OF k(1)] nth [OF hp [OF k(1,2)]] in simp)
  qed
  have grand: "ks' ! hparent c \<le> ks' ! k" if k: "k < n" "0 < k" "hparent k = c" for k
  proof -
    have "c < k" using hparent_less [OF k(2)] k(3) by simp
    then have "ks ! c \<le> ks ! k" using edge [of k] k assms(2) by auto
    then show ?thesis using nth [OF k(1)] nth [OF l(3)] \<open>c < k\<close> assms(2,5) by auto
  qed
  have "ks' ! hparent c \<le> ks' ! c" using nth [OF assms(3)] nth [OF l(3)] assms(2,5,6) by simp
  then show ?thesis unfolding near_heap_def above_ok_def using other grand by blast
qed

lemma near_root_leaf: "heap_upto ks (n - 1) \<Longrightarrow> near_heap ks n (n - 1) \<and> below_ok ks n (n - 1)"
proof -
  assume h: "heap_upto ks (n - 1)"
  have no_child: "hparent k \<noteq> n - 1" if "k < n" "0 < k" for k using that by (auto simp: hparent_def)
  have "ks ! hparent k \<le> ks ! k" if "k < n" "0 < k" "k \<noteq> n - 1" for k
    using h that unfolding heap_upto_def by auto
  then show ?thesis using no_child unfolding near_heap_def below_ok_def by blast
qed

text \<open>The last key moved to position \<open>i\<close>.\<close>

lemma heap_swap_last:
  assumes "heap_upto ks (Suc n)" "length ks = Suc n" "i \<le> n"
  shows "near_heap (lswap ks i n) n i"
proof -
  have order: "ks ! hparent k \<le> ks ! k" if "k < Suc n" "0 < k" for k
    using assms(1) that by (simp add: heap_upto_def)
  have grand: "ks ! hparent (hparent k) \<le> ks ! k" if "k < Suc n" "0 < k" "0 < hparent k" for k
    using order [of k] order [of "hparent k"] that by (meson hparent_bound order_trans)
  have last: "hparent k \<noteq> n" if "k < n" for k using that by (auto simp: hparent_def)
  show ?thesis
    unfolding near_heap_def using assms(2,3) order grand last by (auto simp: nth_lswap)
qed

section \<open>Implementations of the interface\<close>

text \<open>
  \<open>elems\<close> lists the elements in heap positions; \<open>frame\<close> is the rest of the state, which no operation of the heap
  changes, and \<open>key\<close> reads from it the key \<^verbatim>\<open>Less\<close> compares; \<open>okh\<close> is the representation
  invariant and \<open>fresh\<close> says that an element may be pushed.
\<close>

locale go_heap =
  fixes I :: "('h, 'x) heap_Interface"
    and elems :: "'h \<Rightarrow> 'x list"
    and frame :: "'h \<Rightarrow> 'f"
    and key :: "'f \<Rightarrow> 'x \<Rightarrow> 'k::linorder"
    and okh :: "'h \<Rightarrow> bool"
    and fresh :: "'h \<Rightarrow> 'x \<Rightarrow> bool"
  assumes Len: "hi_Len I h = length (elems h)"
    and Less: "\<And>i j. okh h \<Longrightarrow> i < length (elems h) \<Longrightarrow> j < length (elems h) \<Longrightarrow>
          hi_Less I h i j \<longleftrightarrow> key (frame h) (elems h ! i) < key (frame h) (elems h ! j)"
    and Swap: "\<And>i j. okh h \<Longrightarrow> i < length (elems h) \<Longrightarrow> j < length (elems h) \<Longrightarrow>
          okh (hi_Swap I h i j) \<and> elems (hi_Swap I h i j) = lswap (elems h) i j \<and> frame (hi_Swap I h i j) = frame h"
    and Push: "okh h \<Longrightarrow> fresh h x \<Longrightarrow>
          okh (hi_Push I h x) \<and> elems (hi_Push I h x) = elems h @ [x] \<and> frame (hi_Push I h x) = frame h"
    and Pop: "okh h \<Longrightarrow> elems h \<noteq> [] \<Longrightarrow>
          fst (hi_Pop I h) = last (elems h) \<and> okh (snd (hi_Pop I h)) \<and>
          elems (snd (hi_Pop I h)) = butlast (elems h) \<and> frame (snd (hi_Pop I h)) = frame h"
begin

definition ks :: "'h \<Rightarrow> 'k list" where
  "ks h = map (key (frame h)) (elems h)"

lemma length_ks [simp]: "length (ks h) = length (elems h)"
  by (simp add: ks_def)

abbreviation heap_ok :: "'h \<Rightarrow> bool" where
  "heap_ok h \<equiv> okh h \<and> heap_upto (ks h) (length (elems h))"

text \<open>What every rearrangement of the first \<open>n\<close> positions keeps.\<close>

definition rearranged :: "nat \<Rightarrow> 'h \<Rightarrow> 'h \<Rightarrow> bool" where
  "rearranged n h h' \<longleftrightarrow> okh h' \<and> frame h' = frame h \<and> mset (elems h') = mset (elems h) \<and>
     (\<forall>k. n \<le> k \<longrightarrow> k < length (elems h) \<longrightarrow> elems h' ! k = elems h ! k)"

lemma rearranged_refl: "okh h \<Longrightarrow> rearranged n h h"
  by (simp add: rearranged_def)

lemma rearranged_length: "rearranged n h h' \<Longrightarrow> length (elems h') = length (elems h)"
  by (auto simp: rearranged_def dest: mset_eq_length)

lemma rearranged_trans: "rearranged n h h' \<Longrightarrow> rearranged n h' h'' \<Longrightarrow> rearranged n h h''"
  using rearranged_length [of n h h'] by (auto simp: rearranged_def)

lemma rearranged_Swap:
  assumes "okh h" "i < n" "j < n" "n \<le> length (elems h)"
  shows "rearranged n h (hi_Swap I h i j) \<and> ks (hi_Swap I h i j) = lswap (ks h) i j"
  using Swap [of h i j] assms by (auto simp: rearranged_def ks_def map_lswap nth_lswap)

lemma Less_ks: "okh h \<Longrightarrow> i < length (elems h) \<Longrightarrow> j < length (elems h) \<Longrightarrow> hi_Less I h i j \<longleftrightarrow> ks h ! i < ks h ! j"
  by (simp add: Less ks_def)

lemma up_ok:
  assumes "okh h" "j < n" "n \<le> length (elems h)" "near_heap (ks h) n j" "below_ok (ks h) n j"
  shows "rearranged n h (heap_up I h j) \<and> heap_upto (ks (heap_up I h j)) n"
  using assms
proof (induction j arbitrary: h rule: less_induct)
  case (less j)
  show ?case
  proof (cases "0 < j \<and> ks h ! j < ks h ! hparent j")
    case True
    let ?h = "hi_Swap I h (hparent j) j"
    have sw: "rearranged n h ?h" "ks ?h = lswap (ks h) (hparent j) j"
      using rearranged_Swap [of h "hparent j" n j] less.prems True by simp_all
    have "near_heap (ks ?h) n (hparent j) \<and> below_ok (ks ?h) n (hparent j)"
      unfolding sw(2) using less.prems True by (intro swap_up) simp_all
    then have "rearranged n ?h (heap_up I ?h (hparent j)) \<and> heap_upto (ks (heap_up I ?h (hparent j))) n"
      using less.IH [of "hparent j" ?h] less.prems True sw(1) rearranged_length [OF sw(1)]
      by (simp add: rearranged_def)
    moreover have "heap_up I h j = heap_up I ?h (hparent j)"
      using True less.prems Less_ks [of h j "hparent j"] by (subst heap_up.simps) (simp add: Let_def)
    ultimately show ?thesis using rearranged_trans [OF sw(1)] by simp
  next
    case False
    then have "heap_up I h j = h"
      using less.prems Less_ks [of h j "hparent j"] by (subst heap_up.simps) (auto simp: Let_def)
    moreover have "above_ok (ks h) j" using False by (auto simp: above_ok_def)
    ultimately show ?thesis using less.prems heap_uptoI rearranged_refl by auto
  qed
qed

lemma smaller_child_least:
  assumes "okh h" "2 * i + 1 < n" "n \<le> length (elems h)"
  defines "c \<equiv> smaller_child I h i n"
  shows "i < c \<and> c < n \<and> hparent c = i \<and> (\<forall>k<n. 0 < k \<longrightarrow> hparent k = i \<longrightarrow> ks h ! c \<le> ks h ! k)"
proof -
  have kids: "k = 2 * i + 1 \<or> k = 2 * i + 2" if "0 < k" "hparent k = i" for k
    using that unfolding hparent_def by linarith
  have less: "hi_Less I h (2 * i + 2) (2 * i + 1) \<longleftrightarrow> ks h ! (2 * i + 2) < ks h ! (2 * i + 1)" if "2 * i + 2 < n"
    using Less_ks [of h "2 * i + 2" "2 * i + 1"] assms that by simp
  have "ks h ! c \<le> ks h ! k" if "k < n" "0 < k" "hparent k = i" for k
    using kids [OF that(2,3)] less that(1) by (auto simp: c_def smaller_child_def Let_def)
  then show ?thesis using assms(2) by (auto simp: c_def smaller_child_def Let_def hparent_def)
qed

lemma down_ok:
  assumes "okh h" "i < n" "n \<le> length (elems h)" "near_heap (ks h) n i" "heap_down I h i n = (h', j)"
  shows "rearranged n h h' \<and> near_heap (ks h') n j \<and> below_ok (ks h') n j \<and>
    i \<le> j \<and> j < n \<and> (if i < j then above_ok (ks h') j else h' = h)"
  using assms
proof (induction "n - i" arbitrary: h i rule: less_induct)
  case less
  show ?case
  proof (cases "2 * i + 1 < n \<and> hi_Less I h (smaller_child I h i n) i")
    case False
    then have h: "h' = h" "j = i" using less.prems(5) by (subst (asm) heap_down.simps, auto simp: Let_def split: if_splits)+
    have "below_ok (ks h) n i"
    proof (cases "2 * i + 1 < n")
      case True
      let ?c = "smaller_child I h i n"
      have c: "?c < n" "\<forall>k<n. 0 < k \<longrightarrow> hparent k = i \<longrightarrow> ks h ! ?c \<le> ks h ! k"
        using smaller_child_least [of h i n] True less.prems by simp_all
      have "ks h ! i \<le> ks h ! ?c" using False True Less_ks [of h ?c i] c(1) less.prems by simp
      then show ?thesis using c(2) unfolding below_ok_def by (auto intro: order_trans [of "ks h ! i"])
    qed (auto simp: below_ok_def hparent_def)
    then show ?thesis using h less.prems rearranged_refl by simp
  next
    case True
    let ?c = "smaller_child I h i n"
    let ?h = "hi_Swap I h i ?c"
    have c: "i < ?c" "?c < n" "hparent ?c = i" "\<forall>k<n. 0 < k \<longrightarrow> hparent k = i \<longrightarrow> ks h ! ?c \<le> ks h ! k"
      using smaller_child_least [of h i n] True less.prems by simp_all
    have lt: "ks h ! ?c < ks h ! i" using True Less_ks [of h ?c i] c(1,2) less.prems by simp
    have sw: "rearranged n h ?h" "ks ?h = lswap (ks h) i ?c"
      using rearranged_Swap [of h i n ?c] less.prems c by simp_all
    have near: "near_heap (ks ?h) n ?c \<and> above_ok (ks ?h) ?c"
      unfolding sw(2) using less.prems c lt by (intro swap_down) simp_all
    have step: "heap_down I ?h ?c n = (h', j)"
      using less.prems(5) True by (subst (asm) heap_down.simps) (simp add: Let_def)
    have "rearranged n ?h h' \<and> near_heap (ks h') n j \<and> below_ok (ks h') n j \<and>
        ?c \<le> j \<and> j < n \<and> (if ?c < j then above_ok (ks h') j else h' = ?h)"
      using less.hyps [of ?c ?h] c less.prems sw(1) near step rearranged_length [OF sw(1)]
      by (simp add: rearranged_def)
    then show ?thesis using rearranged_trans [OF sw(1)] near c(1) by (auto split: if_splits)
  qed
qed

lemma down_root_ok:
  assumes "okh h" "n \<le> length (elems h)" "near_heap (ks h) n 0"
  shows "rearranged n h (fst (heap_down I h 0 n)) \<and> heap_upto (ks (fst (heap_down I h 0 n))) n"
proof (cases "0 < n")
  case True
  obtain h' j where d: "heap_down I h 0 n = (h', j)" by fastforce
  have "rearranged n h h'" "near_heap (ks h') n j" "below_ok (ks h') n j" "above_ok (ks h') j"
    using down_ok [OF assms(1) True assms(2,3) d] by (auto split: if_splits simp: above_ok_def)
  then show ?thesis using heap_uptoI d by simp
next
  case False
  then show ?thesis using assms(1) rearranged_refl by (subst heap_down.simps) (simp add: heap_upto_def)
qed

theorem Push_ok:
  assumes "heap_ok h" "fresh h x"
  shows "heap_ok (heap_Push I h x) \<and> mset (elems (heap_Push I h x)) = add_mset x (mset (elems h)) \<and>
    frame (heap_Push I h x) = frame h"
proof -
  let ?h = "hi_Push I h x" and ?n = "length (elems h)"
  have p: "okh ?h" "elems ?h = elems h @ [x]" "frame ?h = frame h" using Push assms by blast+
  have "heap_upto (ks ?h) ?n"
    by (rule heap_upto_cong [OF conjunct2 [OF assms(1)]]) (simp add: ks_def p nth_append)
  then have "rearranged (Suc ?n) ?h (heap_up I ?h ?n) \<and> heap_upto (ks (heap_up I ?h ?n)) (Suc ?n)"
    using near_root_leaf [of "ks ?h" "Suc ?n"] p by (intro up_ok) simp_all
  moreover have "heap_Push I h x = heap_up I ?h ?n" by (simp add: heap_Push_def Let_def Len p)
  ultimately show ?thesis using p rearranged_length [of "Suc ?n" ?h "heap_up I ?h ?n"] by (simp add: rearranged_def)
qed

text \<open>What is left after the last of \<open>Suc n\<close> positions is popped.\<close>

lemma Pop_last:
  assumes "rearranged n h h'" "length (elems h) = Suc n" "heap_upto (ks h') n"
  shows "heap_ok (snd (hi_Pop I h')) \<and> fst (hi_Pop I h') = elems h ! n \<and>
    add_mset (elems h ! n) (mset (elems (snd (hi_Pop I h')))) = mset (elems h) \<and> frame (snd (hi_Pop I h')) = frame h"
proof -
  have len: "length (elems h') = Suc n" using rearranged_length [OF assms(1)] assms(2) by simp
  then have ne: "elems h' \<noteq> []" by auto
  have l: "last (elems h') = elems h ! n"
    using assms(1,2) len ne by (simp add: rearranged_def last_conv_nth)
  have p: "fst (hi_Pop I h') = last (elems h')" "okh (snd (hi_Pop I h'))"
      "elems (snd (hi_Pop I h')) = butlast (elems h')" "frame (snd (hi_Pop I h')) = frame h'"
    using Pop [OF _ ne] assms(1) by (simp_all add: rearranged_def)
  have "heap_upto (ks (snd (hi_Pop I h'))) n"
    by (rule heap_upto_cong [OF assms(3)]) (simp add: ks_def p len nth_butlast)
  moreover have "add_mset (last (elems h')) (mset (butlast (elems h'))) = mset (elems h')"
    using ne by (metis add_mset_add_single append_butlast_last_id mset.simps(2) mset_append mset.simps(1))
  ultimately show ?thesis using p l len assms(1) by (simp add: rearranged_def)
qed

theorem Pop_ok:
  assumes "heap_ok h" "elems h \<noteq> []"
  shows "heap_ok (snd (heap_Pop I h)) \<and>
    add_mset (fst (heap_Pop I h)) (mset (elems (snd (heap_Pop I h)))) = mset (elems h) \<and>
    (\<forall>x\<in>set (elems h). key (frame h) (fst (heap_Pop I h)) \<le> key (frame h) x) \<and> frame (snd (heap_Pop I h)) = frame h"
proof -
  obtain n where n: "length (elems h) = Suc n" using assms(2) by (cases "elems h") auto
  let ?h = "hi_Swap I h 0 n"
  have sw: "rearranged (Suc n) h ?h" "ks ?h = lswap (ks h) 0 n" "elems ?h = lswap (elems h) 0 n"
    using rearranged_Swap [of h 0 "Suc n" n] Swap [of h 0 n] assms(1) n by simp_all
  have len: "length (elems ?h) = Suc n" using rearranged_length [OF sw(1)] n by simp
  have "near_heap (ks ?h) n 0" unfolding sw(2) using assms(1) n by (intro heap_swap_last) simp_all
  then have d: "rearranged n ?h (fst (heap_down I ?h 0 n))" "heap_upto (ks (fst (heap_down I ?h 0 n))) n"
    using down_root_ok [of ?h n] sw(1) len by (simp_all add: rearranged_def)
  have pop: "heap_Pop I h = hi_Pop I (fst (heap_down I ?h 0 n))" by (simp add: heap_Pop_def Len n)
  have first: "elems ?h ! n = elems h ! 0" using n sw(3) by (simp add: nth_lswap)
  have "key (frame h) (elems h ! 0) \<le> key (frame h) x" if x: "x \<in> set (elems h)" for x
  proof -
    obtain k where "k < Suc n" "x = elems h ! k" using x n by (auto simp: in_set_conv_nth)
    then show ?thesis using heap_upto_root [of "ks h" "Suc n" k] assms n by (simp add: ks_def)
  qed
  then show ?thesis
    using Pop_last [OF d(1) len d(2)] sw(1) first unfolding pop by (simp add: rearranged_def)
qed

theorem Remove_ok:
  assumes "heap_ok h" "i < length (elems h)"
  shows "heap_ok (snd (heap_Remove I h i)) \<and> fst (heap_Remove I h i) = elems h ! i \<and>
    add_mset (elems h ! i) (mset (elems (snd (heap_Remove I h i)))) = mset (elems h) \<and>
    frame (snd (heap_Remove I h i)) = frame h"
proof -
  obtain n where n: "length (elems h) = Suc n" using assms(2) by (cases "elems h") auto
  show ?thesis
  proof (cases "i = n")
    case True
    have "heap_upto (ks h) n" using assms(1) n by (simp add: heap_upto_def)
    then show ?thesis
      using Pop_last [OF rearranged_refl n] True assms(1) by (simp add: heap_Remove_def Len n)
  next
    case False
    then have i: "i < n" using assms(2) n by simp
    let ?h = "hi_Swap I h i n"
    have sw: "rearranged (Suc n) h ?h" "ks ?h = lswap (ks h) i n" "elems ?h = lswap (elems h) i n"
      using rearranged_Swap [of h i "Suc n" n] Swap [of h i n] assms n by simp_all
    have len: "length (elems ?h) = Suc n" using rearranged_length [OF sw(1)] n by simp
    have "near_heap (ks ?h) n i" unfolding sw(2) using assms(1) n i by (intro heap_swap_last) simp_all
    moreover obtain h' j where d: "heap_down I ?h i n = (h', j)" by fastforce
    ultimately have d': "rearranged n ?h h'" "near_heap (ks h') n j" "below_ok (ks h') n j" "i \<le> j" "j < n"
        "if i < j then above_ok (ks h') j else h' = ?h"
      using down_ok [of ?h i n h' j] sw(1) len i by (simp_all add: rearranged_def)
    let ?r = "if j > i then h' else heap_up I h' i"
    have "rearranged n ?h ?r \<and> heap_upto (ks ?r) n"
    proof (cases "i < j")
      case True
      then show ?thesis using d' heap_uptoI by simp
    next
      case False
      then have "rearranged n h' (heap_up I h' i) \<and> heap_upto (ks (heap_up I h' i)) n"
        using d' rearranged_length [OF d'(1)] len by (intro up_ok) (simp_all add: rearranged_def)
      then show ?thesis using False rearranged_trans [OF d'(1)] by simp
    qed
    then have r: "rearranged n ?h ?r" "heap_upto (ks ?r) n" by simp_all
    have rem: "heap_Remove I h i = hi_Pop I ?r" using False d by (simp add: heap_Remove_def Len n)
    have "elems ?h ! n = elems h ! i" using n i sw(3) by (simp add: nth_lswap)
    then show ?thesis using Pop_last [OF r(1) len r(2)] sw(1) unfolding rem by (simp add: rearranged_def)
  qed
qed

end

section \<open>Go's \<^verbatim>\<open>sort.Slice\<close>\<close>

text \<open>
  The library function promises an order, not an algorithm; where the comparison is a strict weak order without ties, as in
  every use here, there is only one result.
\<close>

primrec insert_by :: "('a \<Rightarrow> 'a \<Rightarrow> bool) \<Rightarrow> 'a \<Rightarrow> 'a list \<Rightarrow> 'a list" where
  "insert_by lt x [] = [x]"
| "insert_by lt x (y # ys) = (if lt x y then x # y # ys else y # insert_by lt x ys)"

definition sort_slice :: "('a \<Rightarrow> 'a \<Rightarrow> bool) \<Rightarrow> 'a list \<Rightarrow> 'a list" where
  "sort_slice lt xs = foldr (insert_by lt) xs []"

lemma sort_slice_Nil [simp]: "sort_slice lt [] = []"
  by (simp add: sort_slice_def)

lemma set_insert_by [simp]: "set (insert_by lt x xs) = insert x (set xs)"
  by (induction xs) auto

lemma mset_insert_by [simp]: "mset (insert_by lt x xs) = add_mset x (mset xs)"
  by (induction xs) simp_all

lemma mset_sort_slice [simp]: "mset (sort_slice lt xs) = mset xs"
  unfolding sort_slice_def by (induction xs) simp_all

lemma set_sort_slice [simp]: "set (sort_slice lt xs) = set xs"
  by (metis mset_sort_slice set_mset_mset)

lemma length_sort_slice [simp]: "length (sort_slice lt xs) = length xs"
  by (metis mset_sort_slice size_mset)

lemma sorted_sort_slice:
  assumes asym: "\<And>a b. lt a b \<Longrightarrow> \<not> lt b a"
    and weak: "\<And>a b c. \<not> lt b a \<Longrightarrow> \<not> lt c b \<Longrightarrow> \<not> lt c a"
  shows "sorted_wrt (\<lambda>a b. \<not> lt b a) (sort_slice lt xs)"
proof -
  have ins: "sorted_wrt (\<lambda>a b. \<not> lt b a) (insert_by lt x ys)" if "sorted_wrt (\<lambda>a b. \<not> lt b a) ys" for x ys
    using that
  proof (induction ys)
    case (Cons y ys)
    have tl: "\<forall>z\<in>set ys. \<not> lt z y" using Cons.prems by simp
    show ?case
    proof (cases "lt x y")
      case True
      then have "\<not> lt y x" by (rule asym)
      then have "\<forall>z\<in>set ys. \<not> lt z x" using tl weak by blast
      then show ?thesis using True \<open>\<not> lt y x\<close> Cons.prems by simp
    qed (use Cons in simp)
  qed simp
  show ?thesis unfolding sort_slice_def by (induction xs) (simp_all add: ins)
qed

end
