(* ===== verification/Mempool.thy ===== *)
theory Mempool
  imports GoHeap TxValidation "HOL-Library.AList" "HOL-Library.Product_Lexorder"
begin

text \<open>
  The mempool (\<^verbatim>\<open>internal/mempool/mempool.go\<close>): admission, removal, eviction by fee rate, expiry, the block template and
  the dump. An entry is shared between the map \<^verbatim>\<open>txs\<close> and the fee heap by pointer and carries its own heap position, so
  entries live in the list \<open>mp_store\<close> and a pointer is a position in it. The map \<^verbatim>\<open>txs\<close> is an association list; where
  the code ranges over it, the order is an argument. The UTXO set, the tip height and the clock readings, which the code
  reaches through pointers and functions, are arguments of the operations that read them. Locking is left out: each
  operation holds the lock for its whole body.
\<close>

section \<open>State\<close>

type_synonym ptr = nat

record TxEntry =
  te_Tx :: Transaction
  te_Hash :: hash
  te_Fee :: u64
  te_FeeRate :: u64
  te_Size :: nat
  te_AddedAt :: int
  te_heapIdx :: int

record Mempool =
  mp_txs :: "(hash \<times> ptr) list"
  mp_spentOutpoints :: "bytes \<rightharpoonup> hash"
  mp_totalBytes :: int
  mp_feeOrder :: "ptr list"
  mp_store :: "TxEntry list"

definition maxMempoolBytes :: int where
  "maxMempoolBytes = 300 * 1024 * 1024"

datatype mempool_error =
    ErrPoolCoinbase
  | ErrPoolNoInputs
  | ErrPoolNoOutputs
  | ErrInMempool hash
  | ErrPoolDoubleSpend hash OutPoint hash
  | ErrPoolValidation tx_error
  | ErrFeeBelowMinimum u64 u64
  | ErrFeeRateBelowMinimum u64 u64

section \<open>The fee heap\<close>

definition hashLess :: "hash \<Rightarrow> hash \<Rightarrow> bool" where
  "hashLess a b = hash_less_at HashSize (hash_bytes a) (hash_bytes b)"

abbreviation set_heapIdx :: "ptr \<Rightarrow> int \<Rightarrow> TxEntry list \<Rightarrow> TxEntry list" where
  "set_heapIdx p i es \<equiv> es[p := (es ! p)\<lparr>te_heapIdx := i\<rparr>]"

definition feeHeap_Len :: "Mempool \<Rightarrow> nat" where
  "feeHeap_Len m = length (mp_feeOrder m)"

definition feeHeap_Less :: "Mempool \<Rightarrow> nat \<Rightarrow> nat \<Rightarrow> bool" where
  "feeHeap_Less m i j =
     (let a = mp_store m ! (mp_feeOrder m ! i); b = mp_store m ! (mp_feeOrder m ! j) in
      if te_FeeRate a \<noteq> te_FeeRate b then te_FeeRate a < te_FeeRate b else hashLess (te_Hash a) (te_Hash b))"

definition feeHeap_Swap :: "Mempool \<Rightarrow> nat \<Rightarrow> nat \<Rightarrow> Mempool" where
  "feeHeap_Swap m i j =
     (let h = mp_feeOrder m; h = h[i := h ! j, j := h ! i]
      in m\<lparr>mp_feeOrder := h,
           mp_store := set_heapIdx (h ! j) (int j) (set_heapIdx (h ! i) (int i) (mp_store m))\<rparr>)"

definition feeHeap_Push :: "Mempool \<Rightarrow> ptr \<Rightarrow> Mempool" where
  "feeHeap_Push m entry =
     m\<lparr>mp_store := set_heapIdx entry (int (length (mp_feeOrder m))) (mp_store m),
       mp_feeOrder := mp_feeOrder m @ [entry]\<rparr>"

definition feeHeap_Pop :: "Mempool \<Rightarrow> ptr \<times> Mempool" where
  "feeHeap_Pop m =
     (let entry = last (mp_feeOrder m)
      in (entry, m\<lparr>mp_store := set_heapIdx entry (-1) (mp_store m), mp_feeOrder := butlast (mp_feeOrder m)\<rparr>))"

definition feeHeap :: "(Mempool, ptr) heap_Interface" where
  "feeHeap = \<lparr>hi_Len = feeHeap_Len, hi_Less = feeHeap_Less, hi_Swap = feeHeap_Swap, hi_Push = feeHeap_Push,
              hi_Pop = feeHeap_Pop\<rparr>"

section \<open>Removal and eviction\<close>

definition input_keys :: "Transaction \<Rightarrow> bytes list" where
  "input_keys tx = map in_key (tx_Inputs tx)"

definition NewMempool :: Mempool where
  "NewMempool = heap_Init feeHeap
     \<lparr>mp_txs = [], mp_spentOutpoints = Map.empty, mp_totalBytes = 0, mp_feeOrder = [], mp_store = []\<rparr>"

definition remove_from_heap :: "ptr \<Rightarrow> Mempool \<Rightarrow> Mempool" where
  "remove_from_heap p m =
     (let i = te_heapIdx (mp_store m ! p) in
      if i \<ge> 0 \<and> i < int (feeHeap_Len m) \<and> mp_feeOrder m ! nat i = p then snd (heap_Remove feeHeap m (nat i)) else m)"

definition removeTxUnsafe :: "hash \<Rightarrow> Mempool \<Rightarrow> Mempool" where
  "removeTxUnsafe h m =
     (case map_of (mp_txs m) h of
        None \<Rightarrow> m
      | Some p \<Rightarrow>
          let entry = mp_store m ! p;
              m = remove_from_heap p (m\<lparr>mp_totalBytes := mp_totalBytes m - int (te_Size entry)\<rparr>)
          in m\<lparr>mp_spentOutpoints := fold (\<lambda>k s. s(k := None)) (input_keys (te_Tx entry)) (mp_spentOutpoints m),
               mp_txs := AList.delete h (mp_txs m)\<rparr>)"

definition RemoveTx :: "hash \<Rightarrow> Mempool \<Rightarrow> Mempool" where
  "RemoveTx h m = removeTxUnsafe h m"

definition RemoveTxs :: "hash list \<Rightarrow> Mempool \<Rightarrow> Mempool" where
  "RemoveTxs hashes m = fold removeTxUnsafe hashes m"

text \<open>The pops of the eviction loop shorten the heap whatever the state.\<close>

lemma length_heap_down: "length (mp_feeOrder (fst (heap_down feeHeap m i n))) = length (mp_feeOrder m)"
proof (induction "n - i" arbitrary: m i rule: less_induct)
  case less
  show ?case
    using less [of "smaller_child feeHeap m i n" "feeHeap_Swap m i (smaller_child feeHeap m i n)"]
      smaller_child_bounds [of i feeHeap m n]
    by (subst heap_down.simps) (auto simp: Let_def feeHeap_def feeHeap_Swap_def)
qed

lemma length_heap_Pop: "length (mp_feeOrder (snd (heap_Pop feeHeap m))) = length (mp_feeOrder m) - 1"
proof -
  have "snd (heap_Pop feeHeap m) = snd (feeHeap_Pop (fst (heap_down feeHeap
      (feeHeap_Swap m 0 (length (mp_feeOrder m) - 1)) 0 (length (mp_feeOrder m) - 1))))"
    by (simp add: heap_Pop_def feeHeap_def feeHeap_Len_def Let_def)
  moreover have "length (mp_feeOrder (feeHeap_Swap m i j)) = length (mp_feeOrder m)" for i j
    by (simp add: feeHeap_Swap_def Let_def)
  ultimately show ?thesis by (simp add: feeHeap_Pop_def Let_def length_heap_down)
qed

function evictLowestFeeRateUnsafe :: "Mempool \<Rightarrow> Mempool" where
  "evictLowestFeeRateUnsafe m =
     (if feeHeap_Len m > 0 then
        let (p, m') = heap_Pop feeHeap m; h = te_Hash (mp_store m' ! p) in
        if map_of (mp_txs m') h \<noteq> None then removeTxUnsafe h m' else evictLowestFeeRateUnsafe m'
      else m)"
  by pat_completeness auto
termination
proof (relation "measure (\<lambda>m. length (mp_feeOrder m))", goal_cases)
  case (2 m x p m' h)
  then show ?case using length_heap_Pop [of m] by (cases "heap_Pop feeHeap m") (simp add: feeHeap_Len_def)
qed simp

declare evictLowestFeeRateUnsafe.simps [simp del]

definition EvictLowestFeeRate :: "Mempool \<Rightarrow> bool \<times> Mempool" where
  "EvictLowestFeeRate m = (if length (mp_txs m) = 0 then (False, m) else (True, evictLowestFeeRateUnsafe m))"

text \<open>The two eviction loops of \<^verbatim>\<open>AddTx\<close>.\<close>

partial_function (option) evict_while :: "(Mempool \<Rightarrow> bool) \<Rightarrow> Mempool \<Rightarrow> Mempool option" where
  "evict_while full m =
     (if full m \<and> length (mp_txs m) > 0 then evict_while full (evictLowestFeeRateUnsafe m) else Some m)"

declare evict_while.simps [code]

definition too_many :: "ChainParams \<Rightarrow> Mempool \<Rightarrow> bool" where
  "too_many p m \<longleftrightarrow> (of_nat (length (mp_txs m)) :: u32) \<ge> par_MaxMempoolSize p"

definition too_large :: "nat \<Rightarrow> Mempool \<Rightarrow> bool" where
  "too_large txSize m \<longleftrightarrow> mp_totalBytes m + int txSize > maxMempoolBytes"

section \<open>Admission\<close>

text \<open>What an admission reads of the rest of the node.\<close>

record pool_env =
  pe_utxoSet :: utxo_set
  pe_tipHeight :: u32
  pe_nowUnix :: u32
  pe_now :: int

fun find_conflict :: "(bytes \<rightharpoonup> hash) \<Rightarrow> TxInput list \<Rightarrow> (OutPoint \<times> hash) option" where
  "find_conflict spent [] = None"
| "find_conflict spent (i # ins) =
     (case spent (in_key i) of Some h \<Rightarrow> Some (in_PreviousOutPoint i, h) | None \<Rightarrow> find_conflict spent ins)"

definition parent_output :: "pool_env \<Rightarrow> Mempool \<Rightarrow> TxInput \<Rightarrow> UtxoEntry option" where
  "parent_output e m i =
     (let op = in_PreviousOutPoint i in
      if Set_Has (pe_utxoSet e) (op_Hash op) (op_Index op) then None
      else (case map_of (mp_txs m) (op_Hash op) of
              None \<Rightarrow> None
            | Some p \<Rightarrow>
                let outs = tx_Outputs (te_Tx (mp_store m ! p)); idx = unat (op_Index op) in
                if idx \<ge> length outs then None
                else if mp_spentOutpoints m (in_key i) \<noteq> None then None
                else Some \<lparr>ue_Value = out_Value (outs ! idx), ue_PkScript = out_PkScript (outs ! idx), ue_Height = 0,
                           ue_IsCoinbase = False\<rparr>))"

fun add_supplemental :: "pool_env \<Rightarrow> Mempool \<Rightarrow> TxInput list \<Rightarrow> (bytes \<rightharpoonup> UtxoEntry) option \<Rightarrow> (bytes \<rightharpoonup> UtxoEntry) option" where
  "add_supplemental e m [] acc = acc"
| "add_supplemental e m (i # ins) acc =
     (case parent_output e m i of
        None \<Rightarrow> add_supplemental e m ins acc
      | Some entry \<Rightarrow>
          add_supplemental e m ins (Some ((case acc of None \<Rightarrow> Map.empty | Some s \<Rightarrow> s)(in_key i \<mapsto> entry))))"

definition check_relay_fee :: "ChainParams \<Rightarrow> u64 \<Rightarrow> nat \<Rightarrow> mempool_error + unit" where
  "check_relay_fee p fee txSize =
     (if par_MinRelayTxFee p > 0 \<and> fee < par_MinRelayTxFee p then Inl (ErrFeeBelowMinimum fee (par_MinRelayTxFee p))
      else if par_MinRelayTxFeeRate p > 0 \<and> fee div of_nat txSize < par_MinRelayTxFeeRate p
      then Inl (ErrFeeRateBelowMinimum (fee div of_nat txSize) (par_MinRelayTxFeeRate p))
      else Inr ())"

text \<open>The new entry, its place in the map and the heap, and the outpoints it spends.\<close>

definition insert_entry :: "TxEntry \<Rightarrow> Mempool \<Rightarrow> Mempool" where
  "insert_entry entry m =
     (let p = length (mp_store m);
          m = m\<lparr>mp_store := mp_store m @ [entry], mp_txs := AList.update (te_Hash entry) p (mp_txs m),
                mp_totalBytes := mp_totalBytes m + int (te_Size entry)\<rparr>;
          m = heap_Push feeHeap m p
      in m\<lparr>mp_spentOutpoints := fold (\<lambda>k s. s(k \<mapsto> te_Hash entry)) (input_keys (te_Tx entry)) (mp_spentOutpoints m)\<rparr>)"

definition new_entry :: "Transaction \<Rightarrow> u64 \<Rightarrow> nat \<Rightarrow> int \<Rightarrow> TxEntry" where
  "new_entry tx fee txSize now =
     \<lparr>te_Tx = tx, te_Hash = HashTransaction tx, te_Fee = fee, te_FeeRate = fee div of_nat txSize, te_Size = txSize,
      te_AddedAt = now, te_heapIdx = 0\<rparr>"

definition admit :: "ChainParams \<Rightarrow> TxEntry \<Rightarrow> Mempool \<Rightarrow> Mempool option" where
  "admit p entry m =
     Option.bind (evict_while (too_many p) m) (\<lambda>m.
     Option.bind (evict_while (too_large (te_Size entry)) m) (\<lambda>m. Some (insert_entry entry m)))"

text \<open>The checks before anything is changed, with the entry they give.\<close>

definition check_tx ::
  "('sig, 'pk, 'sk) ecdsa_lib \<Rightarrow> ChainParams \<Rightarrow> pool_env \<Rightarrow> Transaction \<Rightarrow> Mempool \<Rightarrow> mempool_error + TxEntry" where
  "check_tx L p e tx m =
     (if Transaction_IsCoinbase tx then Inl ErrPoolCoinbase
      else if length (tx_Inputs tx) = 0 then Inl ErrPoolNoInputs
      else if length (tx_Outputs tx) = 0 then Inl ErrPoolNoOutputs
      else let txHash = HashTransaction tx in
        if map_of (mp_txs m) txHash \<noteq> None then Inl (ErrInMempool txHash)
        else let txSize = (if Transaction_SerializeSize tx = 0 then 1 else Transaction_SerializeSize tx) in
          (case find_conflict (mp_spentOutpoints m) (tx_Inputs tx) of
             Some (op, conflictTx) \<Rightarrow> Inl (ErrPoolDoubleSpend txHash op conflictTx)
           | None \<Rightarrow>
               let supplemental = add_supplemental e m (tx_Inputs tx) None in
               rbind (map_err ErrPoolValidation
                        (ValidateSingleTransaction L (pe_nowUnix e) tx (pe_utxoSet e) (pe_tipHeight e) p supplemental)) (\<lambda>fee.
               rbind (check_relay_fee p fee txSize) (\<lambda>_.
                 Inr (new_entry tx fee txSize (pe_now e))))))"

definition AddTx ::
  "('sig, 'pk, 'sk) ecdsa_lib \<Rightarrow> ChainParams \<Rightarrow> pool_env \<Rightarrow> Transaction \<Rightarrow> Mempool \<Rightarrow> ((mempool_error + hash) \<times> Mempool) option" where
  "AddTx L p e tx m =
     (case check_tx L p e tx m of
        Inl err \<Rightarrow> Some (Inl err, m)
      | Inr entry \<Rightarrow> map_option (\<lambda>m'. (Inr (te_Hash entry), m')) (admit p entry m))"

section \<open>Queries\<close>

definition GetTxEntry :: "Mempool \<Rightarrow> hash \<Rightarrow> TxEntry option" where
  "GetTxEntry m h = map_option (\<lambda>p. mp_store m ! p) (map_of (mp_txs m) h)"

definition GetTx :: "Mempool \<Rightarrow> hash \<Rightarrow> Transaction option" where
  "GetTx m h = map_option te_Tx (GetTxEntry m h)"

definition HasTx :: "Mempool \<Rightarrow> hash \<Rightarrow> bool" where
  "HasTx m h \<longleftrightarrow> map_of (mp_txs m) h \<noteq> None"

definition mempool_Count :: "Mempool \<Rightarrow> nat" where
  "mempool_Count m = length (mp_txs m)"

definition IsOutpointSpent :: "Mempool \<Rightarrow> hash \<Rightarrow> u32 \<Rightarrow> bool" where
  "IsOutpointSpent m txHash index \<longleftrightarrow> mp_spentOutpoints m (OutpointKey txHash index) \<noteq> None"

definition TotalFees :: "Mempool \<Rightarrow> u64" where
  "TotalFees m = sum_list (map (\<lambda>(h, p). te_Fee (mp_store m ! p)) (mp_txs m))"

definition TotalSize :: "Mempool \<Rightarrow> int" where
  "TotalSize m = sum_list (map (\<lambda>(h, p). int (te_Size (mp_store m ! p))) (mp_txs m))"

text \<open>\<^verbatim>\<open>ExpireOldTxs\<close>; \<open>order\<close> is the order in which the code ranges over the map.\<close>

definition ExpireOldTxs :: "ChainParams \<Rightarrow> int \<Rightarrow> (hash \<times> ptr) list \<Rightarrow> Mempool \<Rightarrow> nat \<times> Mempool" where
  "ExpireOldTxs p now order m =
     (let expiry = par_MempoolExpiry p in
      if expiry \<le> 0 then (0, m)
      else let expired = map fst (filter (\<lambda>(h, q). te_AddedAt (mp_store m ! q) < now - expiry) order)
        in (length expired, fold removeTxUnsafe expired m))"

section \<open>The block template\<close>

text \<open>The order of the template: higher fee rate first, ties by hash.\<close>

definition entry_before :: "TxEntry \<Rightarrow> TxEntry \<Rightarrow> bool" where
  "entry_before a b = (if te_FeeRate a \<noteq> te_FeeRate b then te_FeeRate a > te_FeeRate b else hashLess (te_Hash a) (te_Hash b))"

definition GetAllEntries :: "(hash \<times> ptr) list \<Rightarrow> Mempool \<Rightarrow> TxEntry list" where
  "GetAllEntries order m = sort_slice entry_before (map (\<lambda>(h, p). mp_store m ! p) order)"

record BlockTemplateTx =
  btt_Tx :: Transaction
  btt_TxID :: hash
  btt_Fee :: u64
  btt_Size :: nat

record BlockTemplateResult =
  bt_Transactions :: "Transaction list"
  bt_Entries :: "BlockTemplateTx list"
  bt_TotalFees :: u64

text \<open>The entries are taken while their fees add up without wrapping around.\<close>

primrec template_fees :: "TxEntry list \<Rightarrow> u64 \<Rightarrow> TxEntry list \<times> u64" where
  "template_fees [] totalFees = ([], totalFees)"
| "template_fees (e # es) totalFees =
     (if totalFees + te_Fee e < totalFees then ([], totalFees)
      else case template_fees es (totalFees + te_Fee e) of (taken, fees) \<Rightarrow> (e # taken, fees))"

definition BlockTemplate :: "(hash \<times> ptr) list \<Rightarrow> Mempool \<Rightarrow> BlockTemplateResult" where
  "BlockTemplate order m =
     (case template_fees (GetAllEntries order m) 0 of (taken, totalFees) \<Rightarrow>
        \<lparr>bt_Transactions = map te_Tx taken,
         bt_Entries = map (\<lambda>e. \<lparr>btt_Tx = te_Tx e, btt_TxID = te_Hash e, btt_Fee = te_Fee e, btt_Size = te_Size e\<rparr>) taken,
         bt_TotalFees = totalFees\<rparr>)"

definition GetAll :: "(hash \<times> ptr) list \<Rightarrow> Mempool \<Rightarrow> Transaction list" where
  "GetAll order m = bt_Transactions (BlockTemplate order m)"

definition GetTxHashes :: "(hash \<times> ptr) list \<Rightarrow> hash list" where
  "GetTxHashes order = sort_slice hashLess (map fst order)"

section \<open>Dump and reload\<close>

definition mempoolDumpV1Marker :: byte where
  "mempoolDumpV1Marker = 0xFF"

definition dump_entry :: "TxEntry \<Rightarrow> bytes" where
  "dump_entry e = put_le 8 (of_int (te_AddedAt e div Second) :: u64) @ Transaction_Serialize (te_Tx e)"

definition DumpToBytes :: "(hash \<times> ptr) list \<Rightarrow> Mempool \<Rightarrow> bytes" where
  "DumpToBytes order m =
     (if length (mp_txs m) = 0 then []
      else mempoolDumpV1Marker # PutVarInt (of_nat (length order))
        @ concat (map (\<lambda>(h, p). dump_entry (mp_store m ! p)) order))"

definition load_limit :: "ChainParams \<Rightarrow> u64 \<Rightarrow> nat" where
  "load_limit p n =
     (let maxCount = (if par_MaxMempoolSize p = 0 then 50000 else ucast (par_MaxMempoolSize p) :: u64)
      in unat (if n > maxCount then maxCount else n))"

primrec loadV0_loop ::
  "('sig, 'pk, 'sk) ecdsa_lib \<Rightarrow> ChainParams \<Rightarrow> pool_env \<Rightarrow> nat \<Rightarrow> bytes \<Rightarrow> nat \<Rightarrow> Mempool \<Rightarrow> (nat \<times> Mempool) option" where
  "loadV0_loop L p e 0 data loaded m = Some (loaded, m)"
| "loadV0_loop L p e (Suc n) data loaded m =
     (if data = [] then Some (loaded, m)
      else case Transaction_Deserialize data of
        Inl err \<Rightarrow> Some (loaded, m)
      | Inr (tx, data') \<Rightarrow>
          Option.bind (AddTx L p e tx m) (\<lambda>(r, m).
            loadV0_loop L p e n data' (case r of Inl err \<Rightarrow> loaded | Inr h \<Rightarrow> loaded + 1) m))"

definition loadV0 :: "('sig, 'pk, 'sk) ecdsa_lib \<Rightarrow> ChainParams \<Rightarrow> pool_env \<Rightarrow> bytes \<Rightarrow> Mempool \<Rightarrow> (nat \<times> Mempool) option" where
  "loadV0 L p e data m =
     (case ReadVarIntFromBytes data of
        Inl err \<Rightarrow> Some (0, m)
      | Inr n \<Rightarrow> loadV0_loop L p e (load_limit p n) (drop (VarIntSize n) data) 0 m)"

definition set_AddedAt :: "hash \<Rightarrow> int \<Rightarrow> Mempool \<Rightarrow> Mempool" where
  "set_AddedAt h t m =
     (case map_of (mp_txs m) h of
        None \<Rightarrow> m
      | Some p \<Rightarrow> m\<lparr>mp_store := (mp_store m)[p := (mp_store m ! p)\<lparr>te_AddedAt := t\<rparr>]\<rparr>)"

text \<open>One transaction of a dump: skipped when it has expired, else offered to \<^verbatim>\<open>AddTx\<close> and given its old time.\<close>

definition load_tx ::
  "('sig, 'pk, 'sk) ecdsa_lib \<Rightarrow> ChainParams \<Rightarrow> pool_env \<Rightarrow> int \<Rightarrow> Transaction \<Rightarrow> nat \<times> Mempool \<Rightarrow> (nat \<times> Mempool) option" where
  "load_tx L p e addedAt tx lm =
     (case lm of (loaded, m) \<Rightarrow>
        if par_MempoolExpiry p > 0 \<and> pe_now e - addedAt > par_MempoolExpiry p then Some (loaded, m)
        else map_option (\<lambda>(r, m). case r of Inl err \<Rightarrow> (loaded, m) | Inr h \<Rightarrow> (loaded + 1, set_AddedAt h addedAt m))
               (AddTx L p e tx m))"

primrec loadV1_loop ::
  "('sig, 'pk, 'sk) ecdsa_lib \<Rightarrow> ChainParams \<Rightarrow> pool_env \<Rightarrow> nat \<Rightarrow> bytes \<Rightarrow> nat \<times> Mempool \<Rightarrow> (nat \<times> Mempool) option" where
  "loadV1_loop L p e 0 data lm = Some lm"
| "loadV1_loop L p e (Suc n) data lm =
     (if length data < 8 then Some lm
      else let addedAt = sint (get_le (take 8 data) :: u64) * Second; data = drop 8 data in
        if data = [] then Some lm
        else case Transaction_Deserialize data of
          Inl err \<Rightarrow> Some lm
        | Inr (tx, data') \<Rightarrow> Option.bind (load_tx L p e addedAt tx lm) (\<lambda>lm. loadV1_loop L p e n data' lm))"

definition loadV1 :: "('sig, 'pk, 'sk) ecdsa_lib \<Rightarrow> ChainParams \<Rightarrow> pool_env \<Rightarrow> bytes \<Rightarrow> Mempool \<Rightarrow> (nat \<times> Mempool) option" where
  "loadV1 L p e data m =
     (if data = [] then Some (0, m)
      else case ReadVarIntFromBytes data of
        Inl err \<Rightarrow> Some (0, m)
      | Inr n \<Rightarrow> loadV1_loop L p e (load_limit p n) (drop (VarIntSize n) data) (0, m))"

definition LoadFromBytes ::
  "('sig, 'pk, 'sk) ecdsa_lib \<Rightarrow> ChainParams \<Rightarrow> pool_env \<Rightarrow> bytes \<Rightarrow> Mempool \<Rightarrow> (nat \<times> Mempool) option" where
  "LoadFromBytes L p e data m =
     (case data of
        [] \<Rightarrow> Some (0, m)
      | b # rest \<Rightarrow> if b = mempoolDumpV1Marker then loadV1 L p e rest m else loadV0 L p e data m)"

section \<open>The fee heap implements the interface\<close>

text \<open>The part of the state that the heap operations leave alone: everything but the order and the heap positions.\<close>

definition strip_entry :: "TxEntry \<Rightarrow> TxEntry" where
  "strip_entry e = e\<lparr>te_heapIdx := 0\<rparr>"

definition pool_frame :: "Mempool \<Rightarrow> Mempool" where
  "pool_frame m = m\<lparr>mp_feeOrder := [], mp_store := map strip_entry (mp_store m)\<rparr>"

definition fee_key :: "Mempool \<Rightarrow> ptr \<Rightarrow> u64 \<times> hash" where
  "fee_key f p = (te_FeeRate (mp_store f ! p), te_Hash (mp_store f ! p))"

definition heap_idx_ok :: "Mempool \<Rightarrow> bool" where
  "heap_idx_ok m \<longleftrightarrow> (\<forall>i<length (mp_feeOrder m). mp_feeOrder m ! i < length (mp_store m) \<and>
     te_heapIdx (mp_store m ! (mp_feeOrder m ! i)) = int i)"

definition heap_new :: "Mempool \<Rightarrow> ptr \<Rightarrow> bool" where
  "heap_new m p \<longleftrightarrow> p < length (mp_store m) \<and> p \<notin> set (mp_feeOrder m)"

lemma strip_entry_sel [simp]:
  "te_Tx (strip_entry e) = te_Tx e" "te_Hash (strip_entry e) = te_Hash e" "te_Fee (strip_entry e) = te_Fee e"
  "te_FeeRate (strip_entry e) = te_FeeRate e" "te_Size (strip_entry e) = te_Size e"
  "te_AddedAt (strip_entry e) = te_AddedAt e" "strip_entry (e\<lparr>te_heapIdx := i\<rparr>) = strip_entry e"
  "strip_entry (strip_entry e) = strip_entry e"
  by (simp_all add: strip_entry_def)

lemma strip_set_heapIdx [simp]: "map strip_entry (set_heapIdx p i es) = map strip_entry es"
  by (cases "p < length es") (simp_all add: map_update list_update_same_conv list_update_beyond)

lemma pool_frame_sel [simp]:
  "mp_txs (pool_frame m) = mp_txs m" "mp_spentOutpoints (pool_frame m) = mp_spentOutpoints m"
  "mp_totalBytes (pool_frame m) = mp_totalBytes m" "mp_store (pool_frame m) = map strip_entry (mp_store m)"
  "mp_feeOrder (pool_frame m) = []"
  by (simp_all add: pool_frame_def)

lemma pool_frame_eqD:
  assumes "pool_frame a = pool_frame b"
  shows "mp_txs a = mp_txs b" "mp_spentOutpoints a = mp_spentOutpoints b" "mp_totalBytes a = mp_totalBytes b"
    "map strip_entry (mp_store a) = map strip_entry (mp_store b)"
  using arg_cong [OF assms, of mp_txs] arg_cong [OF assms, of mp_spentOutpoints] arg_cong [OF assms, of mp_totalBytes]
    arg_cong [OF assms, of mp_store]
  by simp_all

lemma heap_idx_inj:
  assumes "heap_idx_ok m" "i < length (mp_feeOrder m)" "j < length (mp_feeOrder m)"
  shows "mp_feeOrder m ! i = mp_feeOrder m ! j \<longleftrightarrow> i = j"
  using assms unfolding heap_idx_ok_def by (metis of_nat_eq_iff)

lemma distinct_feeOrder: "heap_idx_ok m \<Longrightarrow> distinct (mp_feeOrder m)"
  by (simp add: distinct_conv_nth heap_idx_inj)

lemma feeHeap_Less_key:
  assumes "heap_idx_ok m" "i < length (mp_feeOrder m)" "j < length (mp_feeOrder m)"
  shows "feeHeap_Less m i j \<longleftrightarrow> fee_key (pool_frame m) (mp_feeOrder m ! i) < fee_key (pool_frame m) (mp_feeOrder m ! j)"
  using assms by (auto simp: feeHeap_Less_def fee_key_def heap_idx_ok_def Let_def less_prod_def' hashLess_def
      less_hash_def Hash_Less_def)

lemma feeHeap_Swap_ok:
  assumes "heap_idx_ok m" "i < length (mp_feeOrder m)" "j < length (mp_feeOrder m)"
  shows "heap_idx_ok (feeHeap_Swap m i j) \<and> mp_feeOrder (feeHeap_Swap m i j) = lswap (mp_feeOrder m) i j \<and>
    pool_frame (feeHeap_Swap m i j) = pool_frame m"
proof -
  let ?h = "mp_feeOrder m" and ?s = "mp_store m"
  have l: "?h ! i < length ?s" "?h ! j < length ?s" using assms unfolding heap_idx_ok_def by blast+
  have "heap_idx_ok (feeHeap_Swap m i j)"
    unfolding heap_idx_ok_def
  proof (intro allI impI)
    fix k
    assume "k < length (mp_feeOrder (feeHeap_Swap m i j))"
    then have k: "k < length ?h" by (simp add: feeHeap_Swap_def Let_def)
    have "?h ! k < length ?s \<and> te_heapIdx (?s ! (?h ! k)) = int k" using assms(1) k unfolding heap_idx_ok_def by blast
    then show "mp_feeOrder (feeHeap_Swap m i j) ! k < length (mp_store (feeHeap_Swap m i j)) \<and>
        te_heapIdx (mp_store (feeHeap_Swap m i j) ! (mp_feeOrder (feeHeap_Swap m i j) ! k)) = int k"
      using k l assms heap_idx_inj [OF assms(1)]
      by (auto simp: feeHeap_Swap_def Let_def nth_list_update)
  qed
  then show ?thesis by (simp add: feeHeap_Swap_def Let_def lswap_def pool_frame_def)
qed

interpretation fh: go_heap feeHeap mp_feeOrder pool_frame fee_key heap_idx_ok heap_new
proof (unfold_locales, goal_cases)
  case (1 h)
  show ?case by (simp add: feeHeap_def feeHeap_Len_def)
next
  case (2 h i j)
  then show ?case using feeHeap_Less_key by (simp add: feeHeap_def)
next
  case (3 h i j)
  then show ?case using feeHeap_Swap_ok by (simp add: feeHeap_def)
next
  case (4 h x)
  then show ?case
    by (auto simp: feeHeap_def feeHeap_Push_def heap_idx_ok_def heap_new_def pool_frame_def nth_append nth_list_update
        in_set_conv_nth less_Suc_eq)
next
  case (5 h)
  then have "last (mp_feeOrder h) = mp_feeOrder h ! (length (mp_feeOrder h) - 1)" by (simp add: last_conv_nth)
  then show ?case using 5 heap_idx_inj [OF 5(1)]
    by (auto simp: feeHeap_def feeHeap_Pop_def heap_idx_ok_def pool_frame_def nth_butlast nth_list_update Let_def)
qed

section \<open>The invariant\<close>

definition pool_size :: "Transaction \<Rightarrow> nat" where
  "pool_size tx = (if Transaction_SerializeSize tx = 0 then 1 else Transaction_SerializeSize tx)"

definition entry_ok :: "hash \<Rightarrow> TxEntry \<Rightarrow> bool" where
  "entry_ok h e \<longleftrightarrow> te_Hash e = h \<and> HashTransaction (te_Tx e) = h \<and> te_Size e = pool_size (te_Tx e) \<and>
     te_FeeRate e = te_Fee e div of_nat (te_Size e)"

text \<open>
  The indices agree with the entries: hashes, sizes and fee rates are those of the transactions, \<^verbatim>\<open>spentOutpoints\<close> holds
  exactly the outpoints the entries spend, each under the one transaction that spends it, and \<^verbatim>\<open>totalBytes\<close> is the sum of
  the sizes.
\<close>

definition index_exact :: "Mempool \<Rightarrow> bool" where
  "index_exact f \<longleftrightarrow> distinct (map fst (mp_txs f)) \<and>
     (\<forall>(h, p) \<in> set (mp_txs f). p < length (mp_store f) \<and> entry_ok h (mp_store f ! p)) \<and>
     (\<forall>k h. mp_spentOutpoints f k = Some h \<longleftrightarrow>
        (\<exists>p. (h, p) \<in> set (mp_txs f) \<and> k \<in> set (input_keys (te_Tx (mp_store f ! p))))) \<and>
     mp_totalBytes f = (\<Sum>(h, p)\<leftarrow>mp_txs f. int (te_Size (mp_store f ! p)))"

text \<open>The heap is ordered and holds the entries of the pool, up to one that was just popped.\<close>

definition heap_holds :: "ptr set \<Rightarrow> Mempool \<Rightarrow> bool" where
  "heap_holds X m \<longleftrightarrow> fh.heap_ok m \<and> set (mp_feeOrder m) = snd ` set (mp_txs m) - X"

definition pool_ok :: "Mempool \<Rightarrow> bool" where
  "pool_ok m \<longleftrightarrow> index_exact (pool_frame m) \<and> heap_holds {} m"

lemma pool_ok_NewMempool: "pool_ok NewMempool"
  by (simp add: NewMempool_def heap_Init_def feeHeap_def feeHeap_Len_def pool_ok_def index_exact_def heap_holds_def
      heap_idx_ok_def heap_upto_def)

lemma index_exactD:
  assumes "index_exact f" "(h, p) \<in> set (mp_txs f)"
  shows "p < length (mp_store f)" "entry_ok h (mp_store f ! p)" "map_of (mp_txs f) h = Some p"
  using assms unfolding index_exact_def by auto

text \<open>A pointer stands for one transaction only, and an outpoint is spent by one transaction only.\<close>

lemma index_exact_inj:
  assumes "index_exact f" "(h, p) \<in> set (mp_txs f)" "(h', p') \<in> set (mp_txs f)"
  shows "p = p' \<Longrightarrow> h = h'"
    and "k \<in> set (input_keys (te_Tx (mp_store f ! p))) \<Longrightarrow> k \<in> set (input_keys (te_Tx (mp_store f ! p'))) \<Longrightarrow> h = h'"
proof -
  show "h = h'" if "p = p'"
    using that index_exactD(2) [OF assms(1,2)] index_exactD(2) [OF assms(1,3)] by (simp add: entry_ok_def)
  show "h = h'" if "k \<in> set (input_keys (te_Tx (mp_store f ! p)))" "k \<in> set (input_keys (te_Tx (mp_store f ! p')))"
  proof -
    have "mp_spentOutpoints f k = Some h" "mp_spentOutpoints f k = Some h'"
      using assms that unfolding index_exact_def by blast+
    then show ?thesis by simp
  qed
qed

lemma fold_delete: "fold (\<lambda>k s. s(k := None)) ks s = (\<lambda>k. if k \<in> set ks then None else s k)"
  by (induction ks arbitrary: s) auto

lemma fold_insert: "fold (\<lambda>k s. s(k \<mapsto> v)) ks s = (\<lambda>k. if k \<in> set ks then Some v else s k)"
  by (induction ks arbitrary: s) auto

subsection \<open>Removal\<close>

definition forget_tx :: "hash \<Rightarrow> ptr \<Rightarrow> Mempool \<Rightarrow> Mempool" where
  "forget_tx h p f =
     f\<lparr>mp_totalBytes := mp_totalBytes f - int (te_Size (mp_store f ! p)),
       mp_spentOutpoints := fold (\<lambda>k s. s(k := None)) (input_keys (te_Tx (mp_store f ! p))) (mp_spentOutpoints f),
       mp_txs := AList.delete h (mp_txs f)\<rparr>"

lemma set_delete_key: "set (AList.delete h xs) = {x \<in> set xs. fst x \<noteq> h}"
  by (auto simp: AList.delete_eq)

lemma sum_delete_key:
  "distinct (map fst xs) \<Longrightarrow> (h, p) \<in> set xs \<Longrightarrow>
   (\<Sum>(h, p)\<leftarrow>AList.delete h xs. g p :: int) = (\<Sum>(h, p)\<leftarrow>xs. g p) - g p"
proof (induction xs)
  case (Cons x xs)
  show ?case
  proof (cases "fst x = h")
    case True
    then have "h \<notin> fst ` set xs" using Cons.prems by auto
    then have "AList.delete h xs = xs" "x = (h, p)" using Cons.prems True by (auto simp: delete_idem image_iff)
    then show ?thesis by simp
  qed (use Cons in \<open>auto simp: split_beta\<close>)
qed simp

lemma index_exact_forget:
  assumes "index_exact f" "(h, p) \<in> set (mp_txs f)"
  shows "index_exact (forget_tx h p f)"
proof -
  let ?txs = "AList.delete h (mp_txs f)"
  have d: "distinct (map fst (mp_txs f))" using assms(1) by (simp add: index_exact_def)
  have "mp_spentOutpoints (forget_tx h p f) k = Some h' \<longleftrightarrow>
      (\<exists>p'. (h', p') \<in> set ?txs \<and> k \<in> set (input_keys (te_Tx (mp_store f ! p'))))" for k h'
  proof (cases "k \<in> set (input_keys (te_Tx (mp_store f ! p)))")
    case True
    have "h' = h" if "(h', p') \<in> set (mp_txs f)" "k \<in> set (input_keys (te_Tx (mp_store f ! p')))" for p'
      using index_exact_inj(2) [OF assms(1) that(1) assms(2) that(2) True] .
    then show ?thesis using True by (auto simp: forget_tx_def fold_delete set_delete_key)
  next
    case False
    have "p' = p" if "(h, p') \<in> set (mp_txs f)" for p'
      using d that assms(2) by (metis eq_key_imp_eq_value)
    moreover have "mp_spentOutpoints f k = Some h' \<longleftrightarrow>
        (\<exists>p'. (h', p') \<in> set (mp_txs f) \<and> k \<in> set (input_keys (te_Tx (mp_store f ! p'))))"
      using assms(1) unfolding index_exact_def by blast
    ultimately show ?thesis using False by (auto simp: forget_tx_def fold_delete set_delete_key)
  qed
  moreover have "distinct (map fst ?txs)" using d by (simp add: distinct_delete)
  moreover have "(\<Sum>(h, p)\<leftarrow>?txs. int (te_Size (mp_store f ! p))) = mp_totalBytes f - int (te_Size (mp_store f ! p))"
    using sum_delete_key [OF d assms(2), of "\<lambda>p. int (te_Size (mp_store f ! p))"] assms(1)
    by (simp add: index_exact_def)
  moreover have "\<forall>(h', p') \<in> set ?txs. p' < length (mp_store f) \<and> entry_ok h' (mp_store f ! p')"
    using index_exactD [OF assms(1)] by (auto simp: set_delete_key)
  ultimately show ?thesis unfolding index_exact_def by (simp add: forget_tx_def)
qed

lemma heap_okD: "fh.heap_ok m \<Longrightarrow> heap_idx_ok m"
  by simp

lemma remove_from_heap_ok:
  assumes "fh.heap_ok m"
  shows "fh.heap_ok (remove_from_heap p m) \<and> set (mp_feeOrder (remove_from_heap p m)) = set (mp_feeOrder m) - {p} \<and>
    pool_frame (remove_from_heap p m) = pool_frame m"
proof (cases "p \<in> set (mp_feeOrder m)")
  case True
  then obtain i where i: "i < length (mp_feeOrder m)" "mp_feeOrder m ! i = p" by (auto simp: in_set_conv_nth)
  then have "te_heapIdx (mp_store m ! p) = int i" using heap_okD [OF assms] unfolding heap_idx_ok_def by blast
  then have r: "remove_from_heap p m = snd (heap_Remove feeHeap m i)"
    using i by (simp add: remove_from_heap_def feeHeap_Len_def)
  have "mset (mp_feeOrder (snd (heap_Remove feeHeap m i))) = mset (mp_feeOrder m) - {#p#}"
    using fh.Remove_ok [OF assms i(1)] i(2) by (metis add_mset_diff_bothsides diff_empty)
  then have "set (mp_feeOrder (snd (heap_Remove feeHeap m i))) = set (mp_feeOrder m) - {p}"
    using distinct_feeOrder [OF heap_okD [OF assms]] by (metis mset_remove1 set_mset_mset set_remove1_eq)
  then show ?thesis using fh.Remove_ok [OF assms i(1)] r by simp
next
  case False
  then have "\<not> (te_heapIdx (mp_store m ! p) \<ge> 0 \<and> te_heapIdx (mp_store m ! p) < int (feeHeap_Len m) \<and>
      mp_feeOrder m ! nat (te_heapIdx (mp_store m ! p)) = p)"
    by (auto simp: feeHeap_Len_def nat_less_iff in_set_conv_nth)
  then have "remove_from_heap p m = m" unfolding remove_from_heap_def Let_def by (rule if_not_P)
  then show ?thesis using assms False by simp
qed

lemma heap_ok_cong:
  "mp_feeOrder m' = mp_feeOrder m \<Longrightarrow> mp_store m' = mp_store m \<Longrightarrow> fh.heap_ok m' \<longleftrightarrow> fh.heap_ok m"
  by (simp add: heap_idx_ok_def fh.ks_def fee_key_def cong: map_cong)

lemma removeTxUnsafe_ok:
  assumes "index_exact (pool_frame m)" "heap_holds X m" "(h, p) \<in> set (mp_txs m)" "X \<subseteq> {p}"
  shows "pool_frame (removeTxUnsafe h m) = forget_tx h p (pool_frame m) \<and> heap_holds {} (removeTxUnsafe h m)"
proof -
  let ?f = "pool_frame m" and ?m = "m\<lparr>mp_totalBytes := mp_totalBytes m - int (te_Size (mp_store m ! p))\<rparr>"
  let ?r = "remove_from_heap p ?m"
  have p: "p < length (mp_store m)" "map_of (mp_txs m) h = Some p"
    using index_exactD [OF assms(1), of h p] assms(3) by simp_all
  have rm: "removeTxUnsafe h m = ?r\<lparr>mp_spentOutpoints := fold (\<lambda>k s. s(k := None)) (input_keys (te_Tx (mp_store m ! p)))
      (mp_spentOutpoints ?r), mp_txs := AList.delete h (mp_txs ?r)\<rparr>"
    using p(2) by (simp add: removeTxUnsafe_def Let_def)
  have "fh.heap_ok ?m" using assms(2) heap_ok_cong [of ?m m] by (simp add: heap_holds_def)
  from remove_from_heap_ok [OF this, of p]
  have r: "fh.heap_ok ?r" "set (mp_feeOrder ?r) = set (mp_feeOrder m) - {p}" "pool_frame ?r = pool_frame ?m" by simp_all
  note fr = pool_frame_eqD [OF r(3)]
  have "pool_frame (removeTxUnsafe h m) = forget_tx h p ?f"
    unfolding rm forget_tx_def using p(1) fr by (simp add: pool_frame_def)
  moreover have "fh.heap_ok (removeTxUnsafe h m)" using r(1) heap_ok_cong [of "removeTxUnsafe h m" ?r] unfolding rm by simp
  moreover have "snd ` set (AList.delete h (mp_txs m)) = snd ` set (mp_txs m) - {p}"
  proof -
    have "h' = h" if "(h', p) \<in> set (mp_txs m)" for h'
      using index_exact_inj(1) [OF assms(1), of h' p h p] that assms(3) by simp
    moreover have "p' = p" if "(h, p') \<in> set (mp_txs m)" for p'
      using index_exactD(3) [OF assms(1), of h p'] that p(2) by simp
    ultimately have "{x \<in> set (mp_txs m). fst x \<noteq> h} = {x \<in> set (mp_txs m). snd x \<noteq> p}"
      using assms(3) by (intro Collect_cong conj_cong refl) (metis prod.collapse)
    then show ?thesis unfolding set_delete_key by auto
  qed
  ultimately show ?thesis using assms(2,4) r(2) fr unfolding heap_holds_def rm by auto
qed

text \<open>The entries of the pool by hash, without their heap positions.\<close>

definition pool_of :: "Mempool \<Rightarrow> hash \<rightharpoonup> TxEntry" where
  "pool_of m h = map_option strip_entry (GetTxEntry m h)"

lemma pool_of_frame: "index_exact (pool_frame m) \<Longrightarrow> pool_of m h = map_option (\<lambda>p. mp_store (pool_frame m) ! p) (map_of (mp_txs m) h)"
  using index_exactD(1) [of "pool_frame m"]
  by (auto simp: pool_of_def GetTxEntry_def option.map_comp comp_def dest: map_of_SomeD intro!: option.map_cong0)

lemma dom_pool_of: "dom (pool_of m) = fst ` set (mp_txs m)"
  by (auto simp: pool_of_def GetTxEntry_def dom_map_of_conv_image_fst [symmetric])

lemma pool_of_forget:
  assumes "pool_frame m' = forget_tx h p (pool_frame m)" "index_exact (pool_frame m)" "(h, p) \<in> set (mp_txs m)"
  shows "pool_of m' = (pool_of m)(h := None)"
proof -
  have "index_exact (pool_frame m')" using index_exact_forget assms by simp
  moreover have "mp_txs m' = AList.delete h (mp_txs m)" "mp_store (pool_frame m') = mp_store (pool_frame m)"
    using arg_cong [OF assms(1), of mp_txs] arg_cong [OF assms(1), of mp_store] by (simp_all add: forget_tx_def)
  ultimately show ?thesis
    using pool_of_frame assms(2) by (auto simp: delete_conv fun_eq_iff)
qed

lemma removeTxUnsafe_absent: "map_of (mp_txs m) h = None \<Longrightarrow> removeTxUnsafe h m = m"
  by (simp add: removeTxUnsafe_def)

lemma removeTxUnsafe_pool:
  assumes "pool_ok m"
  shows "pool_ok (removeTxUnsafe h m) \<and> pool_of (removeTxUnsafe h m) = (pool_of m)(h := None) \<and>
    length (mp_txs (removeTxUnsafe h m)) \<le> length (mp_txs m) \<and> mp_totalBytes (removeTxUnsafe h m) \<le> mp_totalBytes m"
proof (cases "map_of (mp_txs m) h")
  case None
  then have "pool_of m h = None" by (simp add: pool_of_def GetTxEntry_def)
  then show ?thesis using assms None by (auto simp: removeTxUnsafe_absent)
next
  case (Some p)
  then have p: "(h, p) \<in> set (mp_txs m)" by (rule map_of_SomeD)
  have m: "index_exact (pool_frame m)" "heap_holds {} m" using assms by (simp_all add: pool_ok_def)
  let ?m = "removeTxUnsafe h m"
  have r: "pool_frame ?m = forget_tx h p (pool_frame m)" "heap_holds {} ?m" using removeTxUnsafe_ok [OF m p] by simp_all
  have "mp_txs ?m = AList.delete h (mp_txs m)" "mp_totalBytes ?m = mp_totalBytes m - int (te_Size (mp_store (pool_frame m) ! p))"
    using arg_cong [OF r(1), of mp_txs] arg_cong [OF r(1), of mp_totalBytes] by (simp_all add: forget_tx_def)
  then show ?thesis
    using pool_of_forget [OF r(1) m(1) p] index_exact_forget [OF m(1), of h p] p r by (simp add: pool_ok_def length_delete_le)
qed

lemma evictLowestFeeRateUnsafe_ok:
  assumes "pool_ok m" "mp_txs m \<noteq> []"
  shows "\<exists>h p. (h, p) \<in> set (mp_txs m) \<and> pool_ok (evictLowestFeeRateUnsafe m) \<and>
    pool_frame (evictLowestFeeRateUnsafe m) = forget_tx h p (pool_frame m) \<and>
    (\<forall>(h', p') \<in> set (mp_txs m). fee_key (pool_frame m) p \<le> fee_key (pool_frame m) p')"
proof -
  have m: "index_exact (pool_frame m)" "fh.heap_ok m" "set (mp_feeOrder m) = snd ` set (mp_txs m)"
    using assms(1) by (simp_all add: pool_ok_def heap_holds_def)
  then have ne: "mp_feeOrder m \<noteq> []" using assms(2) by auto
  obtain p m' where pop: "heap_Pop feeHeap m = (p, m')" by fastforce
  have P: "fh.heap_ok m'" "add_mset p (mset (mp_feeOrder m')) = mset (mp_feeOrder m)" "pool_frame m' = pool_frame m"
      "\<forall>x\<in>set (mp_feeOrder m). fee_key (pool_frame m) p \<le> fee_key (pool_frame m) x"
    using fh.Pop_ok [OF m(2) ne] pop by simp_all
  have "p \<in> set (mp_feeOrder m)" using P(2) by (metis set_mset_mset union_single_eq_member)
  then obtain h where h: "(h, p) \<in> set (mp_txs m)" using m(3) by auto
  have "mset (mp_feeOrder m') = mset (remove1 p (mp_feeOrder m))" using P(2) by (metis add_mset_remove_trivial mset_remove1)
  then have "set (mp_feeOrder m') = set (mp_feeOrder m) - {p}"
    using distinct_feeOrder [OF heap_okD [OF m(2)]] by (metis set_mset_mset set_remove1_eq)
  then have hold: "heap_holds {p} m'" using P(1) m(3) pool_frame_eqD(1) [OF P(3)] by (simp add: heap_holds_def)
  have exact: "index_exact (pool_frame m')" "(h, p) \<in> set (mp_txs m')" using m(1) h P(3) pool_frame_eqD(1) [OF P(3)] by simp_all
  have "p < length (mp_store m')" "te_Hash (mp_store m' ! p) = h"
    using index_exactD [OF exact(1), of h p] exact(2) by (simp_all add: entry_ok_def)
  moreover have "map_of (mp_txs m') h = Some p" using index_exactD(3) [OF exact(1)] exact(2) by simp
  ultimately have ev: "evictLowestFeeRateUnsafe m = removeTxUnsafe h m'"
    using pop ne by (subst evictLowestFeeRateUnsafe.simps) (simp add: feeHeap_Len_def Let_def)
  have "pool_frame (removeTxUnsafe h m') = forget_tx h p (pool_frame m)" "heap_holds {} (removeTxUnsafe h m')"
    using removeTxUnsafe_ok [OF exact(1) hold exact(2)] P(3) by simp_all
  moreover have "index_exact (forget_tx h p (pool_frame m))" using index_exact_forget [OF m(1)] h by simp
  moreover have "\<forall>(h', p') \<in> set (mp_txs m). fee_key (pool_frame m) p \<le> fee_key (pool_frame m) p'"
    using P(4) m(3) by force
  ultimately show ?thesis using h ev by (intro exI [of _ h] exI [of _ p]) (simp add: pool_ok_def)
qed

end
