(* ===== verification/TimeAdjust.thy ===== *)
theory TimeAdjust
  imports GoHeap Difficulty
begin

text \<open>
  The network-adjusted clock (\<^verbatim>\<open>internal/timeadjust/timeadjust.go\<close>), which header validation compares timestamps with: a
  window of peer clock offsets, one per address, and their median. The local clock reading is an argument; offsets are
  \<^verbatim>\<open>int64\<close> values and wrap.
\<close>

definition MaxAllowedOffset :: int where
  "MaxAllowedOffset = 70 * 60 * Second"

definition MinSamples :: nat where "MinSamples = 5"
definition MaxSamples :: nat where "MaxSamples = 200"

record AdjustedClock =
  ac_offsets :: "int list"
  ac_known :: "string set"
  ac_median :: int
  ac_warned :: bool

definition NewAdjustedClock :: AdjustedClock where
  "NewAdjustedClock = \<lparr>ac_offsets = [0], ac_known = {}, ac_median = 0, ac_warned = False\<rparr>"

text \<open>\<^verbatim>\<open>int64(MaxAllowedOffset.Seconds())\<close>\<close>

definition max_offset_secs :: int where
  "max_offset_secs = MaxAllowedOffset div Second"

definition recalcMedian :: "AdjustedClock \<Rightarrow> AdjustedClock" where
  "recalcMedian c =
     (let sorted = sort_slice (<) (ac_offsets c); med = sorted ! (length sorted div 2) in
      if length (ac_offsets c) \<ge> MinSamples then
        if med > max_offset_secs \<or> med < - max_offset_secs then c\<lparr>ac_median := 0, ac_warned := True\<rparr>
        else c\<lparr>ac_median := med\<rparr>
      else c)"

definition AddSample :: "string \<Rightarrow> int \<Rightarrow> int \<Rightarrow> AdjustedClock \<Rightarrow> AdjustedClock" where
  "AddSample addr peerTime now c =
     (if addr \<in> ac_known c then c
      else let offset = i64 (peerTime - now);
          offsets = (if length (ac_offsets c) \<ge> MaxSamples then drop 1 (ac_offsets c) else ac_offsets c)
        in recalcMedian (c\<lparr>ac_known := insert addr (ac_known c), ac_offsets := offsets @ [offset]\<rparr>))"

definition Now :: "int \<Rightarrow> AdjustedClock \<Rightarrow> int" where
  "Now now c = i64 (now + ac_median c)"

definition Offset :: "AdjustedClock \<Rightarrow> int" where
  "Offset c = ac_median c"

definition SampleCount :: "AdjustedClock \<Rightarrow> nat" where
  "SampleCount c = length (ac_offsets c)"

section \<open>The median of a majority\<close>

lemma median_majority:
  fixes xs :: "int list"
  assumes "length xs < 2 * length (filter (\<lambda>x. a \<le> x \<and> x \<le> b) xs)"
  shows "a \<le> sort_slice (<) xs ! (length xs div 2) \<and> sort_slice (<) xs ! (length xs div 2) \<le> b"
proof -
  let ?ys = "sort_slice (<) xs" and ?k = "length xs div 2" and ?P = "\<lambda>x. a \<le> x \<and> x \<le> b"
  have "sorted_wrt (\<lambda>a b. \<not> b < a) ?ys" by (rule sorted_sort_slice) auto
  then have srt: "sorted ?ys" by (simp add: not_less)
  have cnt: "length xs < 2 * length (filter ?P ?ys)"
    using assms by (metis (no_types, lifting) mset_filter mset_sort_slice size_mset)
  have k: "?k < length ?ys" using assms by (cases xs) auto
  have split: "length (filter ?P ?ys) = length (filter ?P (take j ?ys)) + length (filter ?P (drop j ?ys))" for j
    by (metis append_take_drop_id filter_append length_append)
  have "a \<le> ?ys ! ?k"
  proof (rule ccontr)
    assume "\<not> a \<le> ?ys ! ?k"
    then have "\<forall>x\<in>set (take (Suc ?k) ?ys). \<not> ?P x"
      using srt k by (auto simp: in_set_conv_nth sorted_iff_nth_mono less_Suc_eq_le) (meson le_less_trans not_less)
    then have "filter ?P (take (Suc ?k) ?ys) = []" by (simp add: filter_empty_conv)
    moreover have "length (filter ?P (drop (Suc ?k) ?ys)) \<le> length xs - Suc ?k"
      using length_filter_le [of ?P "drop (Suc ?k) ?ys"] by simp
    ultimately show False using cnt split [of "Suc ?k"] by simp
  qed
  moreover have "?ys ! ?k \<le> b"
  proof (rule ccontr)
    assume "\<not> ?ys ! ?k \<le> b"
    moreover have "sorted (drop ?k ?ys)" using srt by (rule sorted_wrt_drop)
    then have "\<forall>x\<in>set (drop ?k ?ys). ?ys ! ?k \<le> x" using Cons_nth_drop_Suc [OF k] by (metis order_refl set_ConsD sorted_simps(2))
    ultimately have "\<forall>x\<in>set (drop ?k ?ys). \<not> ?P x" by fastforce
    then have "filter ?P (drop ?k ?ys) = []" by (simp add: filter_empty_conv)
    moreover have "length (filter ?P (take ?k ?ys)) \<le> ?k"
      using length_filter_le [of ?P "take ?k ?ys"] by simp
    ultimately show False using cnt split [of ?k] by simp
  qed
  ultimately show ?thesis ..
qed

section \<open>Properties\<close>

inductive clock_runs :: "AdjustedClock \<Rightarrow> bool" where
  start: "clock_runs NewAdjustedClock"
| add: "clock_runs c \<Longrightarrow> clock_runs (AddSample addr peerTime now c)"

definition clock_ok :: "AdjustedClock \<Rightarrow> bool" where
  "clock_ok c \<longleftrightarrow> \<bar>ac_median c\<bar> \<le> 4200 \<and> 1 \<le> length (ac_offsets c) \<and> length (ac_offsets c) \<le> MaxSamples \<and>
     (length (ac_offsets c) < MinSamples \<longrightarrow> ac_median c = 0)"

lemma recalcMedian_sel: "ac_offsets (recalcMedian c) = ac_offsets c" "\<bar>ac_median c\<bar> \<le> 4200 \<Longrightarrow> \<bar>ac_median (recalcMedian c)\<bar> \<le> 4200"
    "length (ac_offsets c) < MinSamples \<Longrightarrow> ac_median (recalcMedian c) = ac_median c"
  by (auto simp: recalcMedian_def Let_def max_offset_secs_def MaxAllowedOffset_def)

lemma clock_runs_ok: "clock_runs c \<Longrightarrow> clock_ok c"
proof (induction rule: clock_runs.induct)
  case (add c addr peerTime now)
  then show ?case
    by (auto simp: clock_ok_def AddSample_def Let_def recalcMedian_sel MaxSamples_def MinSamples_def)
qed (simp add: clock_ok_def NewAdjustedClock_def MaxSamples_def)

text \<open>C36. Peers cannot move the node's clock far, and a majority of honest peers pins it down: in every reachable state
  the adjustment is at most 70 minutes either way, the window holds between 1 and 200 samples and nothing is adjusted below
  5 samples; and after a new sample is taken, if the window has at least 5 samples and more than half of them lie in an
  interval within those 70 minutes, the adjustment lies in that interval, whatever the other samples are.\<close>

theorem clock_majority:
  assumes "clock_runs c"
  shows "\<bar>Offset c\<bar> \<le> 4200 \<and> 1 \<le> SampleCount c \<and> SampleCount c \<le> 200 \<and> (SampleCount c < 5 \<longrightarrow> Offset c = 0) \<and>
    (\<forall>addr peerTime now a b. addr \<notin> ac_known c \<longrightarrow> -4200 \<le> a \<longrightarrow> b \<le> 4200 \<longrightarrow>
       5 \<le> SampleCount (AddSample addr peerTime now c) \<longrightarrow>
       SampleCount (AddSample addr peerTime now c) <
         2 * length (filter (\<lambda>x. a \<le> x \<and> x \<le> b) (ac_offsets (AddSample addr peerTime now c))) \<longrightarrow>
       a \<le> Offset (AddSample addr peerTime now c) \<and> Offset (AddSample addr peerTime now c) \<le> b)"
proof -
  have "a \<le> Offset (recalcMedian c') \<and> Offset (recalcMedian c') \<le> b"
    if "-4200 \<le> a" "b \<le> 4200" "5 \<le> length (ac_offsets c')"
      "length (ac_offsets c') < 2 * length (filter (\<lambda>x. a \<le> x \<and> x \<le> b) (ac_offsets c'))" for c' a b
    using median_majority [OF that(4)] that(1-3)
    by (auto simp: recalcMedian_def Let_def Offset_def MinSamples_def max_offset_secs_def MaxAllowedOffset_def)
  then show ?thesis
    using clock_runs_ok [OF assms]
    by (auto simp: clock_ok_def Offset_def SampleCount_def MaxSamples_def MinSamples_def AddSample_def Let_def recalcMedian_sel)
qed

definition demo_clock :: AdjustedClock where
  "demo_clock = AddSample ''c'' 17 10 (AddSample ''b'' 17 10 (AddSample ''a'' 17 10 NewAdjustedClock))"

theorem clock_majority_witness:
  "7 \<le> Offset (AddSample ''d'' 1000000 10 demo_clock) \<and> Offset (AddSample ''d'' 1000000 10 demo_clock) \<le> 7"
proof -
  have runs: "clock_runs demo_clock" unfolding demo_clock_def by (intro clock_runs.intros)
  have c: "ac_offsets (AddSample ''d'' 1000000 10 demo_clock) = [0, 7, 7, 7, 999990]" "''d'' \<notin> ac_known demo_clock"
    by (simp_all add: demo_clock_def AddSample_def NewAdjustedClock_def recalcMedian_def MaxSamples_def MinSamples_def i64_def Let_def)
  note majority = clock_majority [OF runs, THEN conjunct2, THEN conjunct2, THEN conjunct2, THEN conjunct2]
  from majority [THEN spec, of "''d''", THEN spec, of 1000000, THEN spec, of 10, THEN spec, of 7, THEN spec, of 7]
  show ?thesis using c by (simp add: SampleCount_def)
qed

end
