(* ===== verification/Manager.thy ===== *)
theory Manager
  imports Peer ErrorText Scheduler Mempool TimeAdjust
begin

text \<open>
  The peer-to-peer manager (\<^verbatim>\<open>internal/p2p/manager.go\<close>): its state, bans and backoff, connections and handshakes, and the
  handlers of all messages, which call the chain, the mempool, the header index, the scheduler and the adjusted clock. Peers
  are objects behind pointers, shared between the map of peers and the goroutine of each connection: \<open>mg_objs\<close> is the
  store of objects, a pointer is a position in it, and the map holds pointers. The bodies of the goroutines are operations on
  the state; a handler runs as one step. What a step reads from outside is a \<open>moment\<close>: the
  clock, the orders in which maps are ranged over, random numbers, the outcome of writes, and the choices of \<^verbatim>\<open>select\<close>. A
  computation that returns \<open>None\<close> waits for room in the block queue or is in a loop that does not end.
\<close>

section \<open>State\<close>

type_synonym pptr = nat

datatype SyncState = SyncStateInitial | SyncStateHeaderSync | SyncStateBlockSync | SyncStateSynced

record 'p PeerStore =
  ps_GetPeers :: "'p \<Rightarrow> string list option"
  ps_PutPeer :: "string \<Rightarrow> 'p \<Rightarrow> 'p"
  ps_RemovePeer :: "string \<Rightarrow> 'p \<Rightarrow> 'p"

record ('s, 'p) Manager =
  mg_chain :: "'s Chain"
  mg_mempool :: Mempool
  mg_peerStore :: 'p
  mg_timeSampler :: "AdjustedClock option"
  mg_objs :: "Peer list"
  mg_peers :: "(string \<times> pptr) list"
  mg_bestPeerHeight :: u32
  mg_banned :: "string \<rightharpoonup> int"
  mg_backoff :: "string \<rightharpoonup> int"
  mg_backoffN :: "string \<rightharpoonup> int"
  mg_nextPeerID :: "32 word"
  mg_manualPeers :: "string set"
  mg_seenBlocks :: boundedHashSet
  mg_seenTxs :: boundedHashSet
  mg_lastSyncReqPerPeer :: "string \<rightharpoonup> int"
  mg_addrCountPerPeer :: "string \<rightharpoonup> int"
  mg_syncPeerAddr :: string
  mg_syncPeerSince :: int
  mg_lastSyncHeight :: u32
  mg_ibdBlockQueue :: "(Block \<times> pptr) list"
  mg_syncState :: SyncState
  mg_headerSyncPeerAddr :: string
  mg_headerSyncSince :: int
  mg_lastHeaderHeight :: u32
  mg_headerSyncStalls :: int
  mg_headerSyncCaughtUp :: bool
  mg_headerIndex :: HeaderIndex
  mg_blockScheduler :: "BlockScheduler option"
  mg_blockSyncLastProgress :: int
  mg_blockSyncLastHeight :: u32
  mg_fastSyncPeer :: string
  mg_fastSyncNextHeight :: u32
  mg_fastSyncInFlight :: int
  mg_fastSyncLastRecv :: int
  mg_fastSyncFallback :: bool
  mg_finishedIBD :: bool
  mg_wasIBD :: bool

text \<open>The configuration of the node.\<close>

record ('s, 'p, 'sig, 'pk, 'sk) mgr_env =
  me_chain :: "('s, 'sig, 'pk, 'sk) chain_env"
  me_peerStore :: "'p PeerStore"
  me_listenAddr :: string
  me_maxInbound :: int
  me_maxOutbound :: int
  me_seedPeers :: "string list"
  me_SeedNodes :: "string list"
  me_connectOnly :: "string list"
  me_noSeedNodes :: bool
  me_localNonce :: u64
  me_userAgent :: bytes

record moment =
  at_clk :: clock
  at_range :: "(string \<times> pptr) list \<Rightarrow> (string \<times> pptr) list"
  at_hashes :: "hash list \<Rightarrow> hash list"
  at_rand :: "nat \<Rightarrow> u64"
  at_pick :: "string \<Rightarrow> Peer \<Rightarrow> bool"
  at_freed :: "Peer \<Rightarrow> nat"
  at_write :: "string \<Rightarrow> bool"
  at_io :: string
  at_lookup :: "string \<Rightarrow> ip list"

abbreviation (input) at_now :: "moment \<Rightarrow> int" where "at_now A \<equiv> clk_now (at_clk A)"

abbreviation (input) maxSeenBlocks :: nat where "maxSeenBlocks \<equiv> 10000"
abbreviation (input) maxSeenTxs :: nat where "maxSeenTxs \<equiv> 50000"
abbreviation (input) ibdQueueSize :: nat where "ibdQueueSize \<equiv> 1024"
abbreviation (input) InvTypeBlock :: u32 where "InvTypeBlock \<equiv> 1"
abbreviation (input) InvTypeTx :: u32 where "InvTypeTx \<equiv> 2"
abbreviation (input) ProtocolVersion :: u32 where "ProtocolVersion \<equiv> 4"

definition NewManager ::
  "('s, 'p, 'sig, 'pk, 'sk) mgr_env \<Rightarrow> 's Chain \<Rightarrow> Mempool \<Rightarrow> 'p \<Rightarrow> AdjustedClock option \<Rightarrow> ('s, 'p) Manager" where
  "NewManager M c mp ps ts =
     \<lparr>mg_chain = c, mg_mempool = mp, mg_peerStore = ps, mg_timeSampler = ts, mg_objs = [], mg_peers = [], mg_bestPeerHeight = 0,
      mg_banned = Map.empty, mg_backoff = Map.empty, mg_backoffN = Map.empty, mg_nextPeerID = 0, mg_manualPeers = {},
      mg_seenBlocks = newBoundedHashSet maxSeenBlocks, mg_seenTxs = newBoundedHashSet maxSeenTxs,
      mg_lastSyncReqPerPeer = Map.empty, mg_addrCountPerPeer = Map.empty,
      mg_syncPeerAddr = [], mg_syncPeerSince = zero_time, mg_lastSyncHeight = 0, mg_ibdBlockQueue = [],
      mg_syncState = SyncStateInitial, mg_headerSyncPeerAddr = [], mg_headerSyncSince = zero_time, mg_lastHeaderHeight = 0,
      mg_headerSyncStalls = 0, mg_headerSyncCaughtUp = False, mg_headerIndex = Chain_NewHeaderIndex (me_chain M) c,
      mg_blockScheduler = None, mg_blockSyncLastProgress = zero_time, mg_blockSyncLastHeight = 0, mg_fastSyncPeer = [],
      mg_fastSyncNextHeight = 0, mg_fastSyncInFlight = 0, mg_fastSyncLastRecv = zero_time, mg_fastSyncFallback = False,
      mg_finishedIBD = False, mg_wasIBD = False\<rparr>"

text \<open>Reading and changing the object behind a pointer; sending through it.\<close>

definition peer_at :: "('s, 'p) Manager \<Rightarrow> pptr \<Rightarrow> Peer" where
  "peer_at m p = mg_objs m ! p"

definition upd_peer :: "pptr \<Rightarrow> (Peer \<Rightarrow> Peer) \<Rightarrow> ('s, 'p) Manager \<Rightarrow> ('s, 'p) Manager" where
  "upd_peer p f m = m\<lparr>mg_objs := (mg_objs m)[p := f (peer_at m p)]\<rparr>"

definition send :: "moment \<Rightarrow> pptr \<Rightarrow> string \<Rightarrow> bytes \<Rightarrow> ('s, 'p) Manager \<Rightarrow> ('s, 'p) Manager" where
  "send A p cmd payload = upd_peer p (\<lambda>pr. SendMessage (at_pick A cmd pr) cmd payload pr)"

definition request_blocks_inv :: "hash list \<Rightarrow> bytes" where
  "request_blocks_inv hs = GetDataMsg_Encode \<lparr>gd_Inventory = map (\<lambda>h. \<lparr>iv_Type = InvTypeBlock, iv_Hash = h\<rparr>) hs\<rparr>"

datatype mgr_error = HandlerPanic

type_synonym ('s, 'p, 'a) mgr_op = "(('s, 'p) Manager, mgr_error, 'a) sem"

text \<open>A call of the chain: its error is a value the caller looks at; a panic leaves the handler.\<close>

definition on_chain :: "('s, 'a) chain_op \<Rightarrow> ('s, 'p, chain_error + 'a) mgr_op" where
  "on_chain f m =
     (case f (mg_chain m) of
        None \<Rightarrow> None
      | Some (Inl e, c) \<Rightarrow> Some (if is_panic e then Inl HandlerPanic else Inr (Inl e), m\<lparr>mg_chain := c\<rparr>)
      | Some (Inr x, c) \<Rightarrow> Some (Inr (Inr x), m\<lparr>mg_chain := c\<rparr>))"

definition no_return :: "('c, 'e, 'a) sem" where
  "no_return c = None"

primrec for_each :: "('a \<Rightarrow> ('c, 'e, unit) sem) \<Rightarrow> 'a list \<Rightarrow> ('c, 'e, unit) sem" where
  "for_each f [] = sret ()"
| "for_each f (x # xs) = sbind (f x) (\<lambda>_. for_each f xs)"

section \<open>Queries\<close>

definition PeerCount :: "('s, 'p) Manager \<Rightarrow> nat" where
  "PeerCount m = length (mg_peers m)"

definition IsSyncing :: "('s, 'p) Manager \<Rightarrow> bool" where
  "IsSyncing m \<longleftrightarrow> mg_syncState m = SyncStateHeaderSync \<or> mg_syncState m = SyncStateBlockSync"

definition peerSupportsHeaders :: "Peer \<Rightarrow> bool" where
  "peerSupportsHeaders pr = (case pr_version pr of None \<Rightarrow> False | Some v \<Rightarrow> vm_Version v \<ge> 2)"

definition best_height :: "(Peer \<Rightarrow> bool) \<Rightarrow> ('s, 'p) Manager \<Rightarrow> u32" where
  "best_height ok m =
     fold (\<lambda>(addr, p) best. if ok (peer_at m p) \<and> BestHeight (peer_at m p) > best then BestHeight (peer_at m p) else best)
       (mg_peers m) 0"

definition peerBestHeightV2 :: "('s, 'p) Manager \<Rightarrow> u32" where
  "peerBestHeightV2 m = best_height peerSupportsHeaders m"

definition ShouldMine :: "('s, 'p) Manager \<Rightarrow> bool" where
  "ShouldMine m =
     (case mg_syncState m of
        SyncStateHeaderSync \<Rightarrow> False
      | SyncStateBlockSync \<Rightarrow> False
      | SyncStateSynced \<Rightarrow> True
      | SyncStateInitial \<Rightarrow>
          let ourHeight = snd (Tip (mg_chain m)); bestPeerHeight = best_height peerSupportsHeaders m in
          if length (mg_peers m) = 0 then False else bestPeerHeight \<le> ourHeight)"

definition SyncState_String :: "SyncState \<Rightarrow> string" where
  "SyncState_String s =
     (case s of SyncStateInitial \<Rightarrow> ''INITIAL'' | SyncStateHeaderSync \<Rightarrow> ''HEADER_SYNC'' | SyncStateBlockSync \<Rightarrow> ''BLOCK_SYNC''
      | SyncStateSynced \<Rightarrow> ''SYNCED'')"

definition GetSyncState :: "('s, 'p) Manager \<Rightarrow> string" where
  "GetSyncState m = SyncState_String (mg_syncState m)"

definition HeaderSyncHeight :: "('s, 'p) Manager \<Rightarrow> u32" where
  "HeaderSyncHeight m = BestHeaderHeight (mg_headerIndex m)"

definition NotifyBlockAccepted :: "BlockHeader \<Rightarrow> ('s, 'p) Manager \<Rightarrow> ('s, 'p) Manager" where
  "NotifyBlockAccepted header m = m\<lparr>mg_headerIndex := snd (InsertTrustedHeader header (mg_headerIndex m))\<rparr>"

definition BestPeerHeight :: "('s, 'p) Manager \<Rightarrow> u32" where
  "BestPeerHeight m = (let best = best_height peerSupportsHeaders m in if best = 0 then mg_bestPeerHeight m else best)"

definition PeerAddrs :: "moment \<Rightarrow> ('s, 'p) Manager \<Rightarrow> string list" where
  "PeerAddrs A m = map fst (at_range A (mg_peers m))"

definition PeerInfos :: "moment \<Rightarrow> ('s, 'p) Manager \<Rightarrow> PeerInfo list" where
  "PeerInfos A m = map (\<lambda>(addr, p). Info (peer_at m p)) (at_range A (mg_peers m))"

definition inbound_count :: "('s, 'p) Manager \<Rightarrow> nat" where
  "inbound_count m = length (filter (\<lambda>(addr, p). pr_inbound (peer_at m p)) (mg_peers m))"

definition outboundCount :: "('s, 'p) Manager \<Rightarrow> nat" where
  "outboundCount m = length (filter (\<lambda>(addr, p). \<not> pr_inbound (peer_at m p)) (mg_peers m))"

definition ConnectionCounts :: "('s, 'p) Manager \<Rightarrow> nat \<times> nat" where
  "ConnectionCounts m = (inbound_count m, outboundCount m)"

definition outboundSubnetCount :: "string \<Rightarrow> ('s, 'p) Manager \<Rightarrow> nat" where
  "outboundSubnetCount sn m =
     (if sn = [] then 0
      else length (filter (\<lambda>(addr, p). \<not> pr_inbound (peer_at m p) \<and> subnetKey (pr_addr (peer_at m p)) = sn) (mg_peers m)))"

section \<open>Bans and backoff\<close>

definition BanPeer :: "moment \<Rightarrow> string \<Rightarrow> ('s, 'p) Manager \<Rightarrow> ('s, 'p) Manager" where
  "BanPeer A addr m = m\<lparr>mg_banned := (mg_banned m)(extractIP addr \<mapsto> at_now A + BanDuration)\<rparr>"

definition IsBanned :: "moment \<Rightarrow> string \<Rightarrow> ('s, 'p) Manager \<Rightarrow> bool \<times> ('s, 'p) Manager" where
  "IsBanned A addr m =
     (let a = extractIP addr in
      case mg_banned m a of
        None \<Rightarrow> (False, m)
      | Some expiry \<Rightarrow> if at_now A > expiry then (False, m\<lparr>mg_banned := (mg_banned m)(a := None)\<rparr>) else (True, m))"

definition addMisbehavior ::
  "('s, 'p, 'sig, 'pk, 'sk) mgr_env \<Rightarrow> moment \<Rightarrow> pptr \<Rightarrow> 32 word \<Rightarrow> ('s, 'p) Manager \<Rightarrow> ('s, 'p) Manager" where
  "addMisbehavior M A p score m =
     (if pr_addr (peer_at m p) \<in> set (me_connectOnly M) then m
      else let (newScore, pr) = AddBanScore score (peer_at m p); m = upd_peer p (\<lambda>_. pr) m in
        if BanThreshold \<le>s newScore then upd_peer p Peer_Close (BanPeer A (pr_addr pr) m) else m)"

definition canReconnect :: "moment \<Rightarrow> string \<Rightarrow> ('s, 'p) Manager \<Rightarrow> bool" where
  "canReconnect A addr m = (case mg_backoff m addr of None \<Rightarrow> True | Some next \<Rightarrow> at_now A > next)"

abbreviation (input) backoffBase :: int where "backoffBase \<equiv> 5 * Second"
abbreviation (input) backoffMax :: int where "backoffMax \<equiv> 600 * Second"

definition recordConnectFailure :: "moment \<Rightarrow> string \<Rightarrow> ('s, 'p) Manager \<Rightarrow> ('s, 'p) Manager" where
  "recordConnectFailure A addr m =
     (let n = (case mg_backoffN m addr of None \<Rightarrow> 0 | Some n \<Rightarrow> n) + 1;
          delay = backoffBase * 2 ^ nat (min n 10);
          delay = (if delay > backoffMax then backoffMax else delay)
      in m\<lparr>mg_backoffN := (mg_backoffN m)(addr \<mapsto> n), mg_backoff := (mg_backoff m)(addr \<mapsto> at_now A + delay)\<rparr>)"

definition recordConnectSuccess :: "string \<Rightarrow> ('s, 'p) Manager \<Rightarrow> ('s, 'p) Manager" where
  "recordConnectSuccess addr m = m\<lparr>mg_backoff := (mg_backoff m)(addr := None), mg_backoffN := (mg_backoffN m)(addr := None)\<rparr>"

text \<open>\<^verbatim>\<open>livenessLoop\<close>, one round: peers whose pong is overdue are closed, expired bans dropped.\<close>

definition liveness_tick :: "moment \<Rightarrow> ('s, 'p) Manager \<Rightarrow> ('s, 'p) Manager" where
  "liveness_tick A m =
     (let m = fold (\<lambda>(addr, p) m. if PongOverdue (at_now A) (peer_at m p) then upd_peer p Peer_Close m else m)
                (at_range A (mg_peers m)) m
      in m\<lparr>mg_banned := (\<lambda>a. case mg_banned m a of None \<Rightarrow> None | Some expiry \<Rightarrow> if at_now A > expiry then None else Some expiry)\<rparr>)"

text \<open>\<^verbatim>\<open>pingLoop\<close>, one round; the peer at position \<open>i\<close> of the range gets the \<open>i\<close>-th random number.\<close>

definition randomNonce :: "moment \<Rightarrow> nat \<Rightarrow> u64" where
  "randomNonce A i = at_rand A i"

definition ping_tick :: "moment \<Rightarrow> ('s, 'p) Manager \<Rightarrow> ('s, 'p) Manager" where
  "ping_tick A m =
     fold (\<lambda>(i, addr, p) m.
         let nonce = randomNonce A i in
         send A p ''ping'' (PingMsg_Encode \<lparr>ping_Nonce = nonce\<rparr>) (upd_peer p (SetPingNonce nonce (at_now A)) m))
       (enumerate 0 (at_range A (mg_peers m))) m"

section \<open>Shuffling and gossip\<close>

definition swap_at :: "nat \<Rightarrow> nat \<Rightarrow> 'a list \<Rightarrow> 'a list" where
  "swap_at i j xs = xs[i := xs ! j, j := xs ! i]"

primrec shuffle_loop :: "(nat \<Rightarrow> u64) \<Rightarrow> nat \<Rightarrow> 'a list \<Rightarrow> 'a list" where
  "shuffle_loop rnd 0 xs = xs"
| "shuffle_loop rnd (Suc i) xs =
     (let j = unat (rnd (Suc i) mod of_nat (Suc i + 1)) in shuffle_loop rnd i (swap_at (Suc i) j xs))"

definition shufflePeers :: "(nat \<Rightarrow> u64) \<Rightarrow> pptr list \<Rightarrow> pptr list" where
  "shufflePeers rnd peers = shuffle_loop rnd (length peers - 1) peers"

definition shuffleStrings :: "(nat \<Rightarrow> u64) \<Rightarrow> string list \<Rightarrow> string list" where
  "shuffleStrings rnd s = shuffle_loop rnd (length s - 1) s"

primrec gather :: "string \<Rightarrow> nat \<Rightarrow> string list \<Rightarrow> string list \<Rightarrow> string list" where
  "gather listenAddr limit [] addrs = addrs"
| "gather listenAddr limit (a # as) addrs =
     (if a = listenAddr \<or> a \<in> set addrs then gather listenAddr limit as addrs
      else if length (addrs @ [a]) \<ge> limit then addrs @ [a]
      else gather listenAddr limit as (addrs @ [a]))"

definition bytes_str :: "bytes \<Rightarrow> string" where
  "bytes_str bs = map (\<lambda>b. char_of (unat b)) bs"

definition gossip_addr :: "Peer \<Rightarrow> string" where
  "gossip_addr pr =
     (case pr_version pr of None \<Rightarrow> pr_addr pr | Some v \<Rightarrow> if vm_AddrFrom v \<noteq> [] then bytes_str (vm_AddrFrom v) else pr_addr pr)"

definition gatherAddresses :: "('s, 'p, 'sig, 'pk, 'sk) mgr_env \<Rightarrow> moment \<Rightarrow> nat \<Rightarrow> ('s, 'p) Manager \<Rightarrow> string list" where
  "gatherAddresses M A limit m =
     (let connected = map (\<lambda>(addr, p). gossip_addr (peer_at m p)) (at_range A (mg_peers m));
          stored = (case ps_GetPeers (me_peerStore M) (mg_peerStore m) of None \<Rightarrow> [] | Some as \<Rightarrow> as);
          addrs = gather (me_listenAddr M) limit connected []
      in shuffleStrings (at_rand A)
           (if length addrs \<ge> limit then addrs else gather (me_listenAddr M) limit stored addrs))"

definition addr_payload :: "string list \<Rightarrow> bytes" where
  "addr_payload addrs = AddrMsg_Encode \<lparr>addr_Addresses = map str_bytes addrs\<rparr>"

definition handleGetAddr :: "('s, 'p, 'sig, 'pk, 'sk) mgr_env \<Rightarrow> moment \<Rightarrow> pptr \<Rightarrow> ('s, 'p) Manager \<Rightarrow> ('s, 'p) Manager" where
  "handleGetAddr M A p m =
     (let (first, pr) = MarkGetAddrResponded (peer_at m p); m = upd_peer p (\<lambda>_. pr) m in
      if \<not> first then m
      else let addrs = gatherAddresses M A 1000 m in
        if addrs = [] then m else send A p ''addr'' (addr_payload addrs) m)"

text \<open>\<^verbatim>\<open>addrBroadcastLoop\<close>, one round.\<close>

definition addr_broadcast_tick :: "('s, 'p, 'sig, 'pk, 'sk) mgr_env \<Rightarrow> moment \<Rightarrow> ('s, 'p) Manager \<Rightarrow> ('s, 'p) Manager" where
  "addr_broadcast_tick M A m =
     (let addrs = gatherAddresses M A 10 m in
      if addrs = [] then m
      else fold (\<lambda>p. upd_peer p (\<lambda>pr. SendLowPriority (at_pick A ''addr'' pr) ''addr'' (addr_payload addrs) pr))
             (take 2 (shufflePeers (at_rand A) (map snd (at_range A (mg_peers m))))) m)"

section \<open>Relay\<close>

definition inv_payload :: "u32 \<Rightarrow> hash \<Rightarrow> bytes" where
  "inv_payload t h = InvMsg_Encode \<lparr>inv_Inventory = [\<lparr>iv_Type = t, iv_Hash = h\<rparr>]\<rparr>"

definition announce_block :: "moment \<Rightarrow> hash \<Rightarrow> Block \<Rightarrow> nat \<Rightarrow> Peer \<Rightarrow> Peer" where
  "announce_block A h block i pr =
     (let pr = AddKnownInventory h pr; crit = (\<lambda>cmd payload. SendCritical (at_pick A cmd pr) (at_freed A pr) cmd payload pr) in
      if i < 3 then crit ''block'' (Block_Serialize block)
      else if pr_prefersHeaders pr then crit ''headers'' (HeadersMsg_Encode \<lparr>hm_Headers = [blk_Header block]\<rparr>)
      else crit ''inv'' (inv_payload InvTypeBlock h))"

definition BroadcastBlock :: "moment \<Rightarrow> hash \<Rightarrow> Block \<Rightarrow> ('s, 'p) Manager \<Rightarrow> ('s, 'p) Manager" where
  "BroadcastBlock A h block m =
     (let m = m\<lparr>mg_seenBlocks := hashset_Add h (mg_seenBlocks m)\<rparr>;
          eligible = filter (\<lambda>p. \<not> HasKnownInventory (peer_at m p) h) (map snd (at_range A (mg_peers m)))
      in fold (\<lambda>(i, p). upd_peer p (announce_block A h block i)) (enumerate 0 (shufflePeers (at_rand A) eligible)) m)"

definition BroadcastTx :: "moment \<Rightarrow> hash \<Rightarrow> ('s, 'p) Manager \<Rightarrow> ('s, 'p) Manager" where
  "BroadcastTx A h m =
     fold (\<lambda>(addr, p) m.
         if HasKnownInventory (peer_at m p) h then m
         else send A p ''inv'' (inv_payload InvTypeTx h) (upd_peer p (AddKnownInventory h) m))
       (at_range A (mg_peers m)) (m\<lparr>mg_seenTxs := hashset_Add h (mg_seenTxs m)\<rparr>)"

section \<open>Requests\<close>

text \<open>A message goes to the preferred peer, and to the first other one with room when its queue is full.\<close>

primrec try_each :: "moment \<Rightarrow> string \<Rightarrow> bytes \<Rightarrow> pptr list \<Rightarrow> ('s, 'p) Manager \<Rightarrow> ('s, 'p) Manager" where
  "try_each A cmd payload [] m = m"
| "try_each A cmd payload (p # ps) m =
     (let (sent, pr) = TrySendMessage (at_pick A cmd (peer_at m p)) cmd payload (peer_at m p) in
      if sent then upd_peer p (\<lambda>_. pr) m else try_each A cmd payload ps m)"

definition send_or_other :: "moment \<Rightarrow> pptr \<Rightarrow> string \<Rightarrow> bytes \<Rightarrow> ('s, 'p) Manager \<Rightarrow> ('s, 'p) Manager" where
  "send_or_other A p cmd payload m =
     try_each A cmd payload (p # shufflePeers (at_rand A) (filter (\<lambda>q. q \<noteq> p) (map snd (at_range A (mg_peers m))))) m"

abbreviation (input) locator_bound :: nat where "locator_bound \<equiv> 43"

definition requestBlocks :: "moment \<Rightarrow> pptr \<Rightarrow> ('s, 'p, unit) mgr_op" where
  "requestBlocks A p = swith (\<lambda>m.
     let addr = pr_addr (peer_at m p); last = (case mg_lastSyncReqPerPeer m addr of None \<Rightarrow> zero_time | Some t \<Rightarrow> t) in
     if \<not> IsSyncing m \<and> time_sub (at_now A) last < 500000000 then sret ()
     else sbind (supd (\<lambda>m. m\<lparr>mg_lastSyncReqPerPeer := (mg_lastSyncReqPerPeer m)(addr \<mapsto> at_now A)\<rparr>)) (\<lambda>_.
       (case BlockLocator locator_bound (mg_chain m) of
          None \<Rightarrow> no_return
        | Some locator \<Rightarrow>
            if locator = [] then sret ()
            else supd (send_or_other A p ''getblocks''
              (GetBlocksMsg_Encode \<lparr>gb_Version = ProtocolVersion, gb_BlockLocatorHashes = locator, gb_HashStop = ZeroHash\<rparr>)))))"

definition requestOrphanParent :: "moment \<Rightarrow> pptr \<Rightarrow> hash \<Rightarrow> ('s, 'p) Manager \<Rightarrow> ('s, 'p) Manager" where
  "requestOrphanParent A p parentHash = send_or_other A p ''getdata'' (request_blocks_inv [parentHash])"

definition requestHeaders :: "moment \<Rightarrow> pptr \<Rightarrow> ('s, 'p, unit) mgr_op" where
  "requestHeaders A p = swith (\<lambda>m.
     (case HeaderLocator locator_bound (mg_headerIndex m) of
        None \<Rightarrow> no_return
      | Some locator \<Rightarrow>
          if locator = [] then sret ()
          else supd (send A p ''getheaders''
            (GetHeadersMsg_Encode \<lparr>gh_Version = ProtocolVersion, gh_BlockLocatorHashes = locator, gh_HashStop = ZeroHash\<rparr>))))"

end
