(* ===== verification/Handlers.thy ===== *)
theory Handlers
  imports Manager
begin

text \<open>
  The message handlers of the peer-to-peer manager (\<^verbatim>\<open>handleMessage\<close> and the handlers it calls), the block queue of the legacy
  initial download, and the life of a connection: acceptance, dialling, handshake, one round of its read loop and its end.
\<close>

section \<open>Inventory\<close>

definition handleInv :: "moment \<Rightarrow> pptr \<Rightarrow> InvMsg \<Rightarrow> ('s, 'p) Manager \<Rightarrow> ('s, 'p) Manager" where
  "handleInv A p msg m =
     (if IsSyncing m then m
      else let m = upd_peer p (fold (\<lambda>iv. AddKnownInventory (iv_Hash iv)) (inv_Inventory msg)) m;
          needed = filter (\<lambda>iv. iv_Type iv = InvTypeBlock \<and> \<not> HasBlockOnChain (mg_chain m) (iv_Hash iv)
                      \<or> iv_Type iv = InvTypeTx \<and> \<not> HasTx (mg_mempool m) (iv_Hash iv)) (inv_Inventory msg)
        in if needed \<noteq> [] then send A p ''getdata'' (GetDataMsg_Encode \<lparr>gd_Inventory = needed\<rparr>) m else m)"

text \<open>The replies to a \<^verbatim>\<open>getdata\<close>, at most 500 of them blocks. Sending does not change what the loop reads.\<close>

abbreviation (input) maxGetDataBlockResponses :: nat where "maxGetDataBlockResponses \<equiv> 500"

primrec getdata_replies ::
  "('s, 'sig, 'pk, 'sk) chain_env \<Rightarrow> 's Chain \<Rightarrow> Mempool \<Rightarrow> nat \<Rightarrow> InvVector list \<Rightarrow> outMsg list" where
  "getdata_replies E c mp sentBlocks [] = []"
| "getdata_replies E c mp sentBlocks (iv # ivs) =
     (if iv_Type iv = InvTypeBlock then
        if sentBlocks \<ge> maxGetDataBlockResponses then getdata_replies E c mp sentBlocks ivs
        else (case bs_GetBlock (ce_store E) (ch_store c) (iv_Hash iv) of
                None \<Rightarrow> getdata_replies E c mp sentBlocks ivs
              | Some block \<Rightarrow> (''block'', Block_Serialize block) # getdata_replies E c mp (sentBlocks + 1) ivs)
      else if iv_Type iv = InvTypeTx then
        (case GetTx mp (iv_Hash iv) of
           None \<Rightarrow> getdata_replies E c mp sentBlocks ivs
         | Some tx \<Rightarrow> (''tx'', Transaction_Serialize tx) # getdata_replies E c mp sentBlocks ivs)
      else getdata_replies E c mp sentBlocks ivs)"

definition handleGetData ::
  "('s, 'p, 'sig, 'pk, 'sk) mgr_env \<Rightarrow> moment \<Rightarrow> pptr \<Rightarrow> GetDataMsg \<Rightarrow> ('s, 'p) Manager \<Rightarrow> ('s, 'p) Manager" where
  "handleGetData M A p getData m =
     fold (\<lambda>(cmd, payload). send A p cmd payload) (getdata_replies (me_chain M) (mg_chain m) (mg_mempool m) 0 (gd_Inventory getData)) m"

section \<open>Serving the chain\<close>

primrec resolve_locator :: "'s Chain \<Rightarrow> hash list \<Rightarrow> u32" where
  "resolve_locator c [] = 0"
| "resolve_locator c (h # hs) = (case FindMainChainHash c h of Some height \<Rightarrow> height | None \<Rightarrow> resolve_locator c hs)"

text \<open>The headers of the main chain from \<open>height\<close> on, up to a count, the tip, a missing header or the stop hash. The loop of the code
  counts up in 32 bits; the bound on the count is the recursion.\<close>

primrec serve_headers ::
  "('s, 'sig, 'pk, 'sk) chain_env \<Rightarrow> 's Chain \<Rightarrow> hash \<Rightarrow> nat \<Rightarrow> u32 \<Rightarrow> BlockHeader list" where
  "serve_headers E c stop 0 height = []"
| "serve_headers E c stop (Suc n) height =
     (if height > ch_tipHeight c then []
      else (case Chain_GetHeaderByHeight E c height of
              None \<Rightarrow> []
            | Some header \<Rightarrow>
                header # (if HashBlockHeader header = stop then [] else serve_headers E c stop n (height + 1))))"

definition handleGetBlocks ::
  "('s, 'p, 'sig, 'pk, 'sk) mgr_env \<Rightarrow> moment \<Rightarrow> pptr \<Rightarrow> GetBlocksMsg \<Rightarrow> ('s, 'p) Manager \<Rightarrow> ('s, 'p) Manager" where
  "handleGetBlocks M A p msg m =
     (let (go, m) = (if IsSyncing m then
                       let (ok, pr) = CheckGetBlocksThrottle (at_now A) (peer_at m p) in (ok, upd_peer p (\<lambda>_. pr) m)
                     else (True, m)) in
      if \<not> go then m
      else let startHeight = resolve_locator (mg_chain m) (gb_BlockLocatorHashes msg);
          hashes = map HashBlockHeader (serve_headers (me_chain M) (mg_chain m) (gb_HashStop msg) 500 (startHeight + 1));
          m = upd_peer p (fold AddKnownInventory hashes) m
        in if hashes \<noteq> [] then
             send A p ''inv'' (InvMsg_Encode \<lparr>inv_Inventory = map (\<lambda>h. \<lparr>iv_Type = InvTypeBlock, iv_Hash = h\<rparr>) hashes\<rparr>) m
           else m)"

definition handleGetHeaders ::
  "('s, 'p, 'sig, 'pk, 'sk) mgr_env \<Rightarrow> moment \<Rightarrow> pptr \<Rightarrow> GetHeadersMsg \<Rightarrow> ('s, 'p) Manager \<Rightarrow> ('s, 'p) Manager" where
  "handleGetHeaders M A p msg m =
     (let (go, m) = (if IsSyncing m then (True, m)
                     else let (ok, pr) = CheckGetHeadersThrottle (at_now A) (peer_at m p) in (ok, upd_peer p (\<lambda>_. pr) m)) in
      if \<not> go then m
      else if gh_Version msg < 2 then addMisbehavior M A p 10 m
      else let startHeight = resolve_locator (mg_chain m) (gh_BlockLocatorHashes msg);
          headers = serve_headers (me_chain M) (mg_chain m) (gh_HashStop msg) 2000 (startHeight + 1)
        in if headers \<noteq> [] then send A p ''headers'' (HeadersMsg_Encode \<lparr>hm_Headers = headers\<rparr>) m else m)"

section \<open>Headers\<close>

fun in_sequence :: "BlockHeader list \<Rightarrow> bool" where
  "in_sequence (h # h' # hs) \<longleftrightarrow> hdr_PrevBlock h' = HashBlockHeader h \<and> in_sequence (h' # hs)"
| "in_sequence _ \<longleftrightarrow> True"

abbreviation (input) maxHeadersPerPeer :: "32 word" where "maxHeadersPerPeer \<equiv> 100000"

definition fetch_next :: "moment \<Rightarrow> pptr \<Rightarrow> BlockHeader list \<Rightarrow> ('s, 'p) Manager \<Rightarrow> ('s, 'p) Manager" where
  "fetch_next A p headers m =
     (let tipHeight = snd (Tip (mg_chain m)) in
      fold (\<lambda>hdr m.
          case GetHeader (mg_headerIndex m) (HashBlockHeader hdr) of
            None \<Rightarrow> m
          | Some node \<Rightarrow> if hn_Height node = tipHeight + 1 then send A p ''getdata'' (request_blocks_inv [HashBlockHeader hdr]) m else m)
        headers m)"

definition headers_added :: "moment \<Rightarrow> pptr \<Rightarrow> BlockHeader list \<Rightarrow> ('s, 'p, unit) mgr_op" where
  "headers_added A p headers =
     sbind (supd (\<lambda>m. upd_peer p (SetSyncedHeaders (BestHeaderHeight (mg_headerIndex m))) m)) (\<lambda>_.
     sbind (if length headers = 2000 then requestHeaders A p
            else supd (\<lambda>m. if pr_addr (peer_at m p) = mg_headerSyncPeerAddr m then m\<lparr>mg_headerSyncCaughtUp := True\<rparr> else m)) (\<lambda>_.
       supd (\<lambda>m. if mg_syncState m = SyncStateSynced then fetch_next A p headers m else m)))"

definition handleHeaders ::
  "('s, 'p, 'sig, 'pk, 'sk) mgr_env \<Rightarrow> moment \<Rightarrow> pptr \<Rightarrow> HeadersMsg \<Rightarrow> ('s, 'p, unit) mgr_op" where
  "handleHeaders M A p msg = swith (\<lambda>m.
     let headers = hm_Headers msg; punish = supd (addMisbehavior M A p 100) in
     if headers = [] then sret ()
     else if length headers > 2000 then punish
     else let (received, pr) = AddHeadersReceived (of_nat (length headers)) (peer_at m p) in
       sbind (supd (upd_peer p (\<lambda>_. pr))) (\<lambda>_.
       if \<not> (received \<le>s maxHeadersPerPeer) then punish
       else if \<not> HasHeader (mg_headerIndex m) (hdr_PrevBlock (headers ! 0)) then sret ()
       else if \<not> in_sequence headers then punish
       else let (added, err, idx) = AddHeaders headers (of_int (unix_time (at_now A))) (mg_headerIndex m) in
         sbind (supd (\<lambda>m. m\<lparr>mg_headerIndex := idx\<rparr>)) (\<lambda>_.
         sbind (case err of
                  None \<Rightarrow> sret ()
                | Some e \<Rightarrow> if added = 0 \<and> says_invalid_header e then punish else sret ()) (\<lambda>_.
           if added > 0 then headers_added A p headers else sret ()))))"

section \<open>Blocks\<close>

definition remove_confirmed :: "Block \<Rightarrow> ('s, 'p) Manager \<Rightarrow> ('s, 'p) Manager" where
  "remove_confirmed block m = m\<lparr>mg_mempool := RemoveTxs (map HashTransaction (blk_Transactions block)) (mg_mempool m)\<rparr>"

text \<open>The bookkeeping after a block that extended the chain.\<close>

definition block_accepted :: "moment \<Rightarrow> pptr \<Rightarrow> Block \<Rightarrow> u32 \<Rightarrow> ('s, 'p) Manager \<Rightarrow> ('s, 'p) Manager" where
  "block_accepted A p block height m =
     (let m = remove_confirmed block (NotifyBlockAccepted (blk_Header block) m);
          m = upd_peer p (\<lambda>pr. SetSyncedHeaders height (SetSyncedBlocks height (StampLastBlock (at_now A) (SetStartHeightIfGreater height pr)))) m
      in if height > mg_bestPeerHeight m then m\<lparr>mg_bestPeerHeight := height\<rparr> else m)"

definition new_scheduler :: "('s, 'p) Manager \<Rightarrow> BlockScheduler" where
  "new_scheduler m = (let tip = snd (Tip (mg_chain m)) in Populate (mg_headerIndex m) tip (NewBlockScheduler tip))"

definition expected_hashes :: "moment \<Rightarrow> BlockScheduler \<Rightarrow> hash list" where
  "expected_hashes A s = ExpectedHashes (at_hashes A (map fst (sc_inFlight s))) (at_hashes A (map fst (sc_staging s))) s"

definition scrub_seen :: "hash list \<Rightarrow> ('s, 'p) Manager \<Rightarrow> ('s, 'p) Manager" where
  "scrub_seen hs m = m\<lparr>mg_seenBlocks := fold hashset_Remove hs (mg_seenBlocks m)\<rparr>"

text \<open>The fast-sync peer delivered a bad block: back to the parallel scheduler.\<close>

definition fast_sync_failed :: "moment \<Rightarrow> ('s, 'p) Manager \<Rightarrow> ('s, 'p) Manager" where
  "fast_sync_failed A m =
     (let s = new_scheduler m;
          m = m\<lparr>mg_fastSyncPeer := [], mg_fastSyncFallback := True, mg_blockScheduler := Some s,
                mg_blockSyncLastProgress := at_now A, mg_blockSyncLastHeight := snd (Tip (mg_chain m))\<rparr>
      in scrub_seen (expected_hashes A s) m)"

definition fast_sync_block ::
  "('s, 'p, 'sig, 'pk, 'sk) mgr_env \<Rightarrow> moment \<Rightarrow> pptr \<Rightarrow> Block \<Rightarrow> ('s, 'p, unit) mgr_op" where
  "fast_sync_block M A p block = swith (\<lambda>m.
     if pr_addr (peer_at m p) \<noteq> mg_fastSyncPeer m then sret ()
     else sbind (on_chain (ProcessBlockTrustedHeader (me_chain M) (at_clk A) block)) (\<lambda>r.
       case r of
         Inl e \<Rightarrow>
           if is_side_chain e \<or> says_known (at_io A) e
           then supd (\<lambda>m. m\<lparr>mg_fastSyncInFlight := mg_fastSyncInFlight m - 1\<rparr>)
           else sbind (if says_invalid (at_io A) e then supd (addMisbehavior M A p 100) else sret ()) (\<lambda>_.
                  supd (fast_sync_failed A))
       | Inr height \<Rightarrow>
           supd (\<lambda>m. remove_confirmed block
             (m\<lparr>mg_fastSyncInFlight := mg_fastSyncInFlight m - 1, mg_fastSyncLastRecv := at_now A\<rparr>))))"

text \<open>Work for the peer that delivered a block.\<close>

definition assign_to :: "moment \<Rightarrow> pptr \<Rightarrow> ('s, 'p) Manager \<Rightarrow> ('s, 'p) Manager" where
  "assign_to A p m =
     (case mg_blockScheduler m of
        None \<Rightarrow> m
      | Some s \<Rightarrow>
          let (hashes, s) = AssignWork (pr_addr (peer_at m p)) DefaultMaxInFlightPerPeer (BestHeight (peer_at m p)) (at_now A) s;
              m = m\<lparr>mg_blockScheduler := Some s\<rparr>
          in if hashes \<noteq> [] then send A p ''getdata'' (request_blocks_inv hashes) m else m)"

definition relay_block ::
  "('s, 'p, 'sig, 'pk, 'sk) mgr_env \<Rightarrow> moment \<Rightarrow> pptr \<Rightarrow> Block \<Rightarrow> ('s, 'p, unit) mgr_op" where
  "relay_block M A p block =
     (let blockHash = HashBlockHeader (blk_Header block) in
      sbind (on_chain (ProcessBlock (me_chain M) (at_clk A) block)) (\<lambda>r.
        case r of
          Inl e \<Rightarrow>
            if is_side_chain e then sret ()
            else sbind (supd (\<lambda>m. m\<lparr>mg_seenBlocks := hashset_Remove blockHash (mg_seenBlocks m)\<rparr>)) (\<lambda>_.
              if is_orphan e then
                sbind (supd (requestOrphanParent A p (hdr_PrevBlock (blk_Header block)))) (\<lambda>_. requestBlocks A p)
              else if says_known (at_io A) e then sret ()
              else if says_invalid (at_io A) e then supd (addMisbehavior M A p 100)
              else swith (\<lambda>m. if \<not> IsSyncing m then supd (addMisbehavior M A p 10) else sret ()))
        | Inr height \<Rightarrow>
            sbind (supd (\<lambda>m. BroadcastBlock A blockHash block (block_accepted A p block height m))) (\<lambda>_.
            swith (\<lambda>m. if BestHeight (peer_at m p) > height then requestBlocks A p else sret ()))))"

definition enqueue_ibd :: "Block \<Rightarrow> pptr \<Rightarrow> ('s, 'p, unit) mgr_op" where
  "enqueue_ibd block p = swith (\<lambda>m.
     if length (mg_ibdBlockQueue m) \<ge> ibdQueueSize then no_return
     else supd (\<lambda>m. m\<lparr>mg_ibdBlockQueue := mg_ibdBlockQueue m @ [(block, p)]\<rparr>))"

text \<open>The routing after the duplicate check, by the state of the synchronisation.\<close>

definition route_block ::
  "('s, 'p, 'sig, 'pk, 'sk) mgr_env \<Rightarrow> moment \<Rightarrow> pptr \<Rightarrow> Block \<Rightarrow> ('s, 'p, unit) mgr_op" where
  "route_block M A p block = swith (\<lambda>m.
     let blockHash = HashBlockHeader (blk_Header block); state = mg_syncState m in
     if state = SyncStateBlockSync \<and> mg_fastSyncPeer m \<noteq> [] then fast_sync_block M A p block
     else let (taken, sch) = (case (state, mg_blockScheduler m) of
              (SyncStateBlockSync, Some s) \<Rightarrow>
                (let (ok, s) = BlockReceived blockHash block (pr_addr (peer_at m p)) (at_now A) s in (ok, Some s))
            | (_, s) \<Rightarrow> (False, s)) in
       sbind (supd (\<lambda>m. m\<lparr>mg_blockScheduler := sch\<rparr>)) (\<lambda>_.
       if taken then supd (assign_to A p)
       else if state = SyncStateHeaderSync then sret ()
       else if IsSyncing m \<and> mg_blockScheduler m = None then
         sbind (enqueue_ibd block p) (\<lambda>_. if BestHeight (peer_at m p) > 0 then requestBlocks A p else sret ())
       else relay_block M A p block))"

definition handleBlock ::
  "('s, 'p, 'sig, 'pk, 'sk) mgr_env \<Rightarrow> moment \<Rightarrow> pptr \<Rightarrow> Block \<Rightarrow> ('s, 'p, unit) mgr_op" where
  "handleBlock M A p block =
     (let blockHash = HashBlockHeader (blk_Header block) in
      sbind (supd (upd_peer p (AddKnownInventory blockHash))) (\<lambda>_. swith (\<lambda>m.
        let (seen, s) = hashset_AddOrHas blockHash (mg_seenBlocks m);
            wanted = (case mg_blockScheduler m of None \<Rightarrow> False | Some sch \<Rightarrow> IsInFlight sch blockHash) in
        if seen \<and> \<not> wanted then sret ()
        else sbind (supd (\<lambda>m. m\<lparr>mg_seenBlocks := (if seen then hashset_Remove blockHash s else s)\<rparr>)) (\<lambda>_.
          route_block M A p block))))"

definition processIBDBlock ::
  "('s, 'p, 'sig, 'pk, 'sk) mgr_env \<Rightarrow> moment \<Rightarrow> Block \<times> pptr \<Rightarrow> ('s, 'p, unit) mgr_op" where
  "processIBDBlock M A item =
     (let (block, p) = item; blockHash = HashBlockHeader (blk_Header block) in
      sbind (on_chain (ProcessBlock (me_chain M) (at_clk A) block)) (\<lambda>r.
        case r of
          Inl e \<Rightarrow>
            if is_side_chain e then sret ()
            else if is_orphan e then
              sbind (supd (requestOrphanParent A p (hdr_PrevBlock (blk_Header block)))) (\<lambda>_. requestBlocks A p)
            else sbind (supd (\<lambda>m. m\<lparr>mg_seenBlocks := hashset_Remove blockHash (mg_seenBlocks m)\<rparr>)) (\<lambda>_.
              if says_known (at_io A) e then sret ()
              else if says_invalid_ibd (at_io A) e then supd (addMisbehavior M A p 100) else sret ())
        | Inr height \<Rightarrow> supd (block_accepted A p block height)))"

definition ibd_step :: "('s, 'p, 'sig, 'pk, 'sk) mgr_env \<Rightarrow> moment \<Rightarrow> ('s, 'p, unit) mgr_op" where
  "ibd_step M A = swith (\<lambda>m.
     case mg_ibdBlockQueue m of
       [] \<Rightarrow> sret ()
     | item # q \<Rightarrow> sbind (supd (\<lambda>m. m\<lparr>mg_ibdBlockQueue := q\<rparr>)) (\<lambda>_. processIBDBlock M A item))"

text \<open>Nothing the loop does adds to the queue, so it ends after as many rounds as there are items.\<close>

definition drainIBDQueue :: "('s, 'p, 'sig, 'pk, 'sk) mgr_env \<Rightarrow> moment \<Rightarrow> ('s, 'p, unit) mgr_op" where
  "drainIBDQueue M A = swith (\<lambda>m. for_each (\<lambda>_. ibd_step M A) (mg_ibdBlockQueue m))"

section \<open>Transactions\<close>

definition pool_now :: "moment \<Rightarrow> 's Chain \<Rightarrow> pool_env" where
  "pool_now A c = \<lparr>pe_utxoSet = ch_utxoSet c, pe_tipHeight = ch_tipHeight c, pe_nowUnix = of_int (unix_time (at_now A)), pe_now = at_now A\<rparr>"

definition handleTx ::
  "('s, 'p, 'sig, 'pk, 'sk) mgr_env \<Rightarrow> moment \<Rightarrow> pptr \<Rightarrow> Transaction \<Rightarrow> ('s, 'p, unit) mgr_op" where
  "handleTx M A p tx =
     (let txHash = HashTransaction tx in
      sbind (supd (upd_peer p (AddKnownInventory txHash))) (\<lambda>_. swith (\<lambda>m.
        let (seen, s) = hashset_AddOrHas txHash (mg_seenTxs m) in
        if seen then sret ()
        else sbind (supd (\<lambda>m. m\<lparr>mg_seenTxs := s\<rparr>)) (\<lambda>_.
          (case AddTx (ce_lib (me_chain M)) (ce_params (me_chain M)) (pool_now A (mg_chain m)) tx (mg_mempool m) of
             None \<Rightarrow> no_return
           | Some (r, mp) \<Rightarrow>
               sbind (supd (\<lambda>m. m\<lparr>mg_mempool := mp\<rparr>)) (\<lambda>_.
                 case r of
                   Inl e \<Rightarrow> sret ()
                 | Inr h \<Rightarrow> supd (\<lambda>m. BroadcastTx A txHash (upd_peer p (StampLastTx (at_now A)) m))))))))"

section \<open>Addresses\<close>

definition isLocalLoopback :: "('s, 'p, 'sig, 'pk, 'sk) mgr_env \<Rightarrow> bool" where
  "isLocalLoopback M = listens_on_loopback (me_listenAddr M)"

definition store_addr ::
  "('s, 'p, 'sig, 'pk, 'sk) mgr_env \<Rightarrow> moment \<Rightarrow> string \<Rightarrow> ('s, 'p) Manager \<Rightarrow> ('s, 'p) Manager" where
  "store_addr M A a m =
     (let (banned, m) = IsBanned A a m in
      if \<not> banned \<and> a \<noteq> me_listenAddr M \<and> validateGossipAddress a (isLocalLoopback M) = Inr ()
      then m\<lparr>mg_peerStore := ps_PutPeer (me_peerStore M) a (mg_peerStore m)\<rparr> else m)"

definition handleAddr ::
  "('s, 'p, 'sig, 'pk, 'sk) mgr_env \<Rightarrow> moment \<Rightarrow> pptr \<Rightarrow> AddrMsg \<Rightarrow> ('s, 'p) Manager \<Rightarrow> ('s, 'p) Manager" where
  "handleAddr M A p msg m =
     (let peerAddr = pr_addr (peer_at m p);
          received = (case mg_addrCountPerPeer m peerAddr of None \<Rightarrow> 0 | Some n \<Rightarrow> n);
          remaining = 1000 - received
      in if remaining \<le> 0 then m
         else let addrs = map bytes_str (addr_Addresses msg);
             addrs = (if int (length addrs) > remaining then take (nat remaining) addrs else addrs);
             m = m\<lparr>mg_addrCountPerPeer := (mg_addrCountPerPeer m)(peerAddr \<mapsto> received + int (length addrs))\<rparr>
           in fold (store_addr M A) addrs m)"

section \<open>Dispatch\<close>

text \<open>Decode the payload and go on with the message, or punish the peer for a malformed one; bytes after the message are ignored.\<close>

definition with_payload ::
  "('s, 'p, 'sig, 'pk, 'sk) mgr_env \<Rightarrow> moment \<Rightarrow> pptr \<Rightarrow> 32 word \<Rightarrow> ('e, 'a) reader \<Rightarrow> bytes \<Rightarrow>
   ('a \<Rightarrow> ('s, 'p, unit) mgr_op) \<Rightarrow> ('s, 'p, unit) mgr_op" where
  "with_payload M A p score dec payload f =
     (case dec payload of Inl e \<Rightarrow> supd (addMisbehavior M A p score) | Inr (msg, rest) \<Rightarrow> f msg)"

definition if_v2 ::
  "('s, 'p, 'sig, 'pk, 'sk) mgr_env \<Rightarrow> moment \<Rightarrow> pptr \<Rightarrow> ('s, 'p, unit) mgr_op \<Rightarrow> ('s, 'p, unit) mgr_op" where
  "if_v2 M A p f = swith (\<lambda>m. if peerSupportsHeaders (peer_at m p) then f else supd (addMisbehavior M A p 10))"

definition handlePong ::
  "('s, 'p, 'sig, 'pk, 'sk) mgr_env \<Rightarrow> moment \<Rightarrow> pptr \<Rightarrow> u64 \<Rightarrow> ('s, 'p) Manager \<Rightarrow> ('s, 'p) Manager" where
  "handlePong M A p nonce m =
     (let (ok, pr) = HandlePong nonce (at_now A) (peer_at m p); m = upd_peer p (\<lambda>_. pr) m in
      if ok then m else addMisbehavior M A p 1 m)"

definition handleMessage ::
  "('s, 'p, 'sig, 'pk, 'sk) mgr_env \<Rightarrow> moment \<Rightarrow> pptr \<Rightarrow> bytes \<Rightarrow> bytes \<Rightarrow> ('s, 'p, unit) mgr_op" where
  "handleMessage M A p cmd payload =
     (if cmd = str_bytes ''ping'' then with_payload M A p 1 PingMsg_Decode payload (\<lambda>ping.
        supd (send A p ''pong'' (PongMsg_Encode \<lparr>pong_Nonce = ping_Nonce ping\<rparr>)))
      else if cmd = str_bytes ''pong'' then with_payload M A p 1 PongMsg_Decode payload (\<lambda>pong.
        supd (handlePong M A p (pong_Nonce pong)))
      else if cmd = str_bytes ''inv'' then with_payload M A p 20 InvMsg_Decode payload (\<lambda>msg. supd (handleInv A p msg))
      else if cmd = str_bytes ''getdata'' then with_payload M A p 20 GetDataMsg_Decode payload (\<lambda>gd. supd (handleGetData M A p gd))
      else if cmd = str_bytes ''block'' then with_payload M A p 20 Block_Deserialize payload (handleBlock M A p)
      else if cmd = str_bytes ''tx'' then with_payload M A p 10 Transaction_Deserialize payload (handleTx M A p)
      else if cmd = str_bytes ''getblocks'' then with_payload M A p 10 GetBlocksMsg_Decode payload (\<lambda>gb. supd (handleGetBlocks M A p gb))
      else if cmd = str_bytes ''getheaders'' then
        if_v2 M A p (with_payload M A p 10 GetHeadersMsg_Decode payload (\<lambda>gh. supd (handleGetHeaders M A p gh)))
      else if cmd = str_bytes ''headers'' then
        if_v2 M A p (with_payload M A p 20 HeadersMsg_Decode payload (handleHeaders M A p))
      else if cmd = str_bytes ''sendheaders'' then supd (upd_peer p (SetPrefersHeaders True))
      else if cmd = str_bytes ''addr'' then with_payload M A p 10 AddrMsg_Decode payload (\<lambda>am. supd (handleAddr M A p am))
      else if cmd = str_bytes ''getaddr'' then supd (handleGetAddr M A p)
      else sret ())"

section \<open>The end of a connection\<close>

definition disconnect ::
  "('s, 'p, 'sig, 'pk, 'sk) mgr_env \<Rightarrow> moment \<Rightarrow> pptr \<Rightarrow> ('s, 'p) Manager \<Rightarrow> ('s, 'p) Manager" where
  "disconnect M A p m =
     (let m = upd_peer p Peer_Close m; addr = pr_addr (peer_at m p);
          m = m\<lparr>mg_peers := AList.delete addr (mg_peers m), mg_addrCountPerPeer := (mg_addrCountPerPeer m)(addr := None),
                mg_lastSyncReqPerPeer := (mg_lastSyncReqPerPeer m)(addr := None),
                mg_blockScheduler := map_option (\<lambda>s. RemovePeer addr (at_hashes A (map fst (sc_inFlight s))) s) (mg_blockScheduler m),
                mg_fastSyncPeer := (if mg_fastSyncPeer m = addr then [] else mg_fastSyncPeer m)\<rparr>
      in m\<lparr>mg_bestPeerHeight := best_height (\<lambda>_. True) m\<rparr>)"

definition Stop :: "moment \<Rightarrow> ('s, 'p) Manager \<Rightarrow> ('s, 'p) Manager" where
  "Stop A m = fold (\<lambda>(addr, p). upd_peer p Peer_Close) (at_range A (mg_peers m)) m"

datatype node_error = ErrInvalidAddress addr_error | ErrNodeBanned | ErrAlreadyConnected | ErrPeerNotFound

definition DisconnectNode :: "string \<Rightarrow> ('s, 'p) Manager \<Rightarrow> (node_error + unit) \<times> ('s, 'p) Manager" where
  "DisconnectNode addr m =
     (case map_of (mg_peers m) addr of None \<Rightarrow> (Inl ErrPeerNotFound, m) | Some p \<Rightarrow> (Inr (), upd_peer p Peer_Close m))"

text \<open>\<^verbatim>\<open>AddNode\<close> up to the start of \<^verbatim>\<open>connectPeer\<close>, which is a step of its own.\<close>

definition AddNode ::
  "moment \<Rightarrow> string \<Rightarrow> ('s, 'p) Manager \<Rightarrow> (node_error + unit) \<times> ('s, 'p) Manager" where
  "AddNode A addr m =
     (case validatePeerAddress (at_lookup A) addr of
        Inl e \<Rightarrow> (Inl (ErrInvalidAddress e), m)
      | Inr _ \<Rightarrow>
          let (banned, m) = IsBanned A addr m in
          if banned then (Inl ErrNodeBanned, m)
          else if map_of (mg_peers m) addr \<noteq> None then (Inl ErrAlreadyConnected, m)
          else (Inr (), m\<lparr>mg_manualPeers := insert addr (mg_manualPeers m)\<rparr>))"

section \<open>New connections\<close>

definition new_conn ::
  "('s, 'p, 'sig, 'pk, 'sk) mgr_env \<Rightarrow> moment \<Rightarrow> string \<Rightarrow> bool \<Rightarrow> ('s, 'p) Manager \<Rightarrow> pptr \<times> ('s, 'p) Manager" where
  "new_conn M A remoteAddr inbound m =
     (length (mg_objs m),
      m\<lparr>mg_objs := mg_objs m @ [NewPeer remoteAddr inbound (par_NetworkMagic (ce_params (me_chain M))) (at_now A)]\<rparr>)"

text \<open>The slowest inbound peer is closed when all inbound slots are taken. \<^verbatim>\<open>inbound[0]\<close> of an empty slice, with no inbound
  slots configured, is a panic.\<close>

definition maybeEvictInbound ::
  "('s, 'p, 'sig, 'pk, 'sk) mgr_env \<Rightarrow> moment \<Rightarrow> ('s, 'p) Manager \<Rightarrow> ('s, 'p) Manager option" where
  "maybeEvictInbound M A m =
     (let inbound = filter (\<lambda>p. pr_inbound (peer_at m p)) (map snd (at_range A (mg_peers m))) in
      if int (length inbound) < me_maxInbound M then Some m
      else case sort_slice (\<lambda>p q. pr_pingLatency (peer_at m p) > pr_pingLatency (peer_at m q)) inbound of
        [] \<Rightarrow> None
      | victim # _ \<Rightarrow> Some (upd_peer victim Peer_Close m))"

text \<open>\<^verbatim>\<open>acceptLoop\<close> for one connection: what happens at once, and what happens after the pause that follows an eviction. The
  result is the new peer, if the connection is kept, and whether the pause is still to come.\<close>

definition accept_conn ::
  "('s, 'p, 'sig, 'pk, 'sk) mgr_env \<Rightarrow> moment \<Rightarrow> string \<Rightarrow> ('s, 'p) Manager \<Rightarrow> (pptr option \<times> bool \<times> ('s, 'p) Manager) option" where
  "accept_conn M A remoteAddr m =
     (let (banned, m) = IsBanned A remoteAddr m in
      if banned then Some (None, False, m)
      else if int (inbound_count m) \<ge> me_maxInbound M then map_option (\<lambda>m. (None, True, m)) (maybeEvictInbound M A m)
      else let (p, m) = new_conn M A remoteAddr True m in Some (Some p, False, m))"

definition accept_after_pause ::
  "('s, 'p, 'sig, 'pk, 'sk) mgr_env \<Rightarrow> moment \<Rightarrow> string \<Rightarrow> ('s, 'p) Manager \<Rightarrow> pptr option \<times> ('s, 'p) Manager" where
  "accept_after_pause M A remoteAddr m =
     (if int (inbound_count m) \<ge> me_maxInbound M then (None, m)
      else let (p, m) = new_conn M A remoteAddr True m in (Some p, m))"

text \<open>\<^verbatim>\<open>connectPeer\<close>; \<open>dial\<close> is the remote address of the connection the dial gives, or \<open>None\<close> when it fails.\<close>

abbreviation (input) maxOutboundPerSubnet :: nat where "maxOutboundPerSubnet \<equiv> 2"

definition listens_at :: "string \<Rightarrow> Peer \<Rightarrow> bool" where
  "listens_at addr pr = (case pr_version pr of None \<Rightarrow> False | Some v \<Rightarrow> bytes_str (vm_AddrFrom v) = addr)"

definition is_loopback_addr :: "string \<Rightarrow> bool" where
  "is_loopback_addr addr =
     (case ParseIP (case SplitHostPort addr of None \<Rightarrow> [] | Some (host, _) \<Rightarrow> host) of None \<Rightarrow> False | Some a \<Rightarrow> IsLoopback a)"

definition connectPeer ::
  "('s, 'p, 'sig, 'pk, 'sk) mgr_env \<Rightarrow> moment \<Rightarrow> (string \<Rightarrow> string option) \<Rightarrow> string \<Rightarrow> ('s, 'p) Manager \<Rightarrow>
   pptr option \<times> ('s, 'p) Manager" where
  "connectPeer M A dial addr m =
     (if addr = me_listenAddr M then (None, m)
      else if map_of (mg_peers m) addr \<noteq> None then (None, m)
      else if list_ex (\<lambda>(a, p). listens_at addr (peer_at m p)) (mg_peers m) then (None, m)
      else if \<not> is_loopback_addr addr \<and> subnetKey addr \<noteq> [] \<and> outboundSubnetCount (subnetKey addr) m \<ge> maxOutboundPerSubnet
      then (None, m)
      else let (banned, m) = IsBanned A addr m in
        if banned then (None, m)
        else (case dial addr of
                None \<Rightarrow> (None, recordConnectFailure A addr m)
              | Some remoteAddr \<Rightarrow> let (p, m) = new_conn M A remoteAddr False m in (Some p, m)))"

definition opt_list :: "'a option \<Rightarrow> 'a list" where
  "opt_list r = (case r of None \<Rightarrow> [] | Some x \<Rightarrow> [x])"

definition seed_targets :: "('s, 'p, 'sig, 'pk, 'sk) mgr_env \<Rightarrow> string list" where
  "seed_targets M = me_seedPeers M @ (if me_noSeedNodes M then [] else me_SeedNodes M)"

primrec dial_all ::
  "('s, 'p, 'sig, 'pk, 'sk) mgr_env \<Rightarrow> moment \<Rightarrow> (string \<Rightarrow> string option) \<Rightarrow> string list \<Rightarrow> ('s, 'p) Manager \<Rightarrow>
   pptr list \<times> ('s, 'p) Manager" where
  "dial_all M A dial [] m = ([], m)"
| "dial_all M A dial (a # as) m =
     (let (r, m) = connectPeer M A dial a m; (ps, m) = dial_all M A dial as m in (opt_list r @ ps, m))"

definition connectSeeds ::
  "('s, 'p, 'sig, 'pk, 'sk) mgr_env \<Rightarrow> moment \<Rightarrow> (string \<Rightarrow> string option) \<Rightarrow> ('s, 'p) Manager \<Rightarrow> pptr list \<times> ('s, 'p) Manager" where
  "connectSeeds M A dial m =
     (if me_connectOnly M \<noteq> [] then dial_all M A dial (me_connectOnly M) m
      else dial_all M A dial
        (seed_targets M @ (case ps_GetPeers (me_peerStore M) (mg_peerStore m) of None \<Rightarrow> [] | Some as \<Rightarrow> as)) m)"

definition known_addrs :: "('s, 'p) Manager \<Rightarrow> string set" where
  "known_addrs m = set (map fst (mg_peers m))
     \<union> set (concat (map (\<lambda>(a, p). case pr_version (peer_at m p) of None \<Rightarrow> []
                          | Some v \<Rightarrow> if vm_AddrFrom v \<noteq> [] then [bytes_str (vm_AddrFrom v)] else []) (mg_peers m)))"

text \<open>The guard \<^verbatim>\<open>!connected[addr] && !m.IsBanned(addr) && m.canReconnect(addr)\<close>.\<close>

definition may_connect :: "moment \<Rightarrow> string set \<Rightarrow> string \<Rightarrow> ('s, 'p) Manager \<Rightarrow> bool \<times> ('s, 'p) Manager" where
  "may_connect A connected addr m =
     (if addr \<in> connected then (False, m)
      else let (banned, m) = IsBanned A addr m in (\<not> banned \<and> canReconnect A addr m, m))"

text \<open>A loop of \<^verbatim>\<open>reconnectLoop\<close> over candidates: \<open>slots\<close> bounds the attempts, \<open>skip\<close> is an address it leaves out.\<close>

primrec reconnect_list ::
  "('s, 'p, 'sig, 'pk, 'sk) mgr_env \<Rightarrow> moment \<Rightarrow> (string \<Rightarrow> string option) \<Rightarrow> (string \<Rightarrow> bool) \<Rightarrow> string list \<Rightarrow> int option \<Rightarrow> string set \<Rightarrow>
   ('s, 'p) Manager \<Rightarrow> pptr list \<times> string set \<times> ('s, 'p) Manager" where
  "reconnect_list M A dial skip [] slots connected m = ([], connected, m)"
| "reconnect_list M A dial skip (a # as) slots connected m =
     (if slots \<noteq> None \<and> the slots \<le> 0 then ([], connected, m)
      else let (ok, m) = may_connect A connected a m in
        if ok \<and> \<not> skip a then
          let (r, m) = connectPeer M A dial a m;
              (ps, connected, m) = reconnect_list M A dial skip as (map_option (\<lambda>n. n - 1) slots) (insert a connected) m
          in (opt_list r @ ps, connected, m)
        else reconnect_list M A dial skip as slots connected m)"

definition reconnect_tick ::
  "('s, 'p, 'sig, 'pk, 'sk) mgr_env \<Rightarrow> moment \<Rightarrow> (string \<Rightarrow> string option) \<Rightarrow> ('s, 'p) Manager \<Rightarrow> pptr list \<times> ('s, 'p) Manager" where
  "reconnect_tick M A dial m =
     (let connected = known_addrs m; none = (\<lambda>_. False);
          stored = (\<lambda>m. case ps_GetPeers (me_peerStore M) (mg_peerStore m) of None \<Rightarrow> [] | Some as \<Rightarrow> as) in
      if me_connectOnly M \<noteq> [] then
        let (ps, connected, m) = reconnect_list M A dial none (me_connectOnly M) None connected m;
            (qs, connected, m) = reconnect_list M A dial (\<lambda>a. a = me_listenAddr M) (stored m)
              (Some (me_maxOutbound M - int (outboundCount m))) connected m
        in (ps @ qs, m)
      else if int (outboundCount m) \<ge> me_maxOutbound M then ([], m)
      else let (ps, connected, m) = reconnect_list M A dial none (seed_targets M) None connected m;
          (qs, connected, m) = reconnect_list M A dial none (stored m) (Some 1) connected m
        in (ps @ qs, m))"

section \<open>The handshake\<close>

datatype handshake_error =
    ErrSendVersion
  | ErrReadVersion read_error
  | ErrExpectedVersion bytes
  | ErrDecodeVersion decode_error
  | ErrSelfConnection
  | ErrProtoVersion u32
  | ErrStartHeight u32
  | ErrReadVerack read_error
  | ErrExpectedVerack bytes
  | ErrSendVerack

type_synonym ('s, 'p, 'a) handshake_op = "(('s, 'p) Manager, handshake_error, 'a) sem"

definition wire :: "bytes \<Rightarrow> string \<Rightarrow> bytes \<Rightarrow> bytes" where
  "wire magic cmd payload = EncodeMessageHeader magic (str_bytes cmd) payload @ payload"

definition version_msg :: "('s, 'p, 'sig, 'pk, 'sk) mgr_env \<Rightarrow> moment \<Rightarrow> pptr \<Rightarrow> ('s, 'p) Manager \<Rightarrow> VersionMsg" where
  "version_msg M A p m =
     \<lparr>vm_Version = ProtocolVersion, vm_Services = 1, vm_Timestamp = of_int (unix_time (at_now A)),
      vm_AddrRecv = str_bytes (pr_addr (peer_at m p)), vm_AddrFrom = str_bytes (me_listenAddr M), vm_Nonce = me_localNonce M,
      vm_UserAgent = me_userAgent M, vm_StartHeight = snd (Tip (mg_chain m))\<rparr>"

text \<open>The bytes that are written.\<close>

definition sendVersion ::
  "('s, 'p, 'sig, 'pk, 'sk) mgr_env \<Rightarrow> moment \<Rightarrow> pptr \<Rightarrow> ('s, 'p, bytes) handshake_op" where
  "sendVersion M A p = swith (\<lambda>m.
     if at_write A ''version''
     then sret (wire (par_NetworkMagic (ce_params (me_chain M))) ''version'' (VersionMsg_Encode (version_msg M A p m)))
     else sfail ErrSendVersion)"

definition sendVerack :: "('s, 'p, 'sig, 'pk, 'sk) mgr_env \<Rightarrow> moment \<Rightarrow> ('s, 'p, bytes) handshake_op" where
  "sendVerack M A =
     (if at_write A ''verack'' then sret (wire (par_NetworkMagic (ce_params (me_chain M))) ''verack'' []) else sfail ErrSendVerack)"

definition read_from ::
  "moment \<Rightarrow> pptr \<Rightarrow> (read_error \<Rightarrow> 'e) \<Rightarrow> bytes \<Rightarrow> (('s, 'p) Manager, 'e, bytes \<times> bytes \<times> bytes) sem" where
  "read_from A p err bs = swith (\<lambda>m.
     case ReadMessage (at_now A) bs (peer_at m p) of
       Inl e \<Rightarrow> sfail (err e)
     | Inr (hdr, payload, rest, pr) \<Rightarrow> sbind (supd (upd_peer p (\<lambda>_. pr))) (\<lambda>_. sret (CommandString hdr, payload, rest)))"

definition readAndProcessVersion ::
  "('s, 'p, 'sig, 'pk, 'sk) mgr_env \<Rightarrow> moment \<Rightarrow> pptr \<Rightarrow> bytes \<Rightarrow> ('s, 'p, bytes) handshake_op" where
  "readAndProcessVersion M A p bs =
     sbind (read_from A p ErrReadVersion bs) (\<lambda>(cmd, payload, rest).
     if cmd \<noteq> str_bytes ''version'' then sfail (ErrExpectedVersion cmd)
     else (case VersionMsg_Decode payload of
             Inl e \<Rightarrow> sfail (ErrDecodeVersion e)
           | Inr (theirVersion, _) \<Rightarrow>
               if vm_Nonce theirVersion = me_localNonce M then sfail ErrSelfConnection
               else if vm_Version theirVersion < MinPeerProtoVersion then sfail (ErrProtoVersion (vm_Version theirVersion))
               else if vm_StartHeight theirVersion > MaxPeerStartHeight then sfail (ErrStartHeight (vm_StartHeight theirVersion))
               else sbind (supd (upd_peer p (SetVersion (Some theirVersion)))) (\<lambda>_.
                 sbind (supd (\<lambda>m.
                   if vm_Timestamp theirVersion = 0 then m
                   else m\<lparr>mg_timeSampler := map_option
                     (AddSample (pr_addr (peer_at m p)) (sint (vm_Timestamp theirVersion)) (unix_time (at_now A))) (mg_timeSampler m)\<rparr>)) (\<lambda>_.
                   sret rest))))"

definition read_verack :: "moment \<Rightarrow> pptr \<Rightarrow> bytes \<Rightarrow> ('s, 'p, bytes) handshake_op" where
  "read_verack A p bs =
     sbind (read_from A p ErrReadVerack bs) (\<lambda>(cmd, payload, rest).
       if cmd \<noteq> str_bytes ''verack'' then sfail (ErrExpectedVerack cmd) else sret rest)"

text \<open>The bytes that are left to read, and the bytes that were written.\<close>

definition handshakeOutbound ::
  "('s, 'p, 'sig, 'pk, 'sk) mgr_env \<Rightarrow> moment \<Rightarrow> pptr \<Rightarrow> bytes \<Rightarrow> ('s, 'p, bytes \<times> bytes) handshake_op" where
  "handshakeOutbound M A p bs =
     sbind (sendVersion M A p) (\<lambda>w1.
     sbind (readAndProcessVersion M A p bs) (\<lambda>bs.
     sbind (read_verack A p bs) (\<lambda>bs.
     sbind (sendVerack M A) (\<lambda>w2. sret (bs, w1 @ w2)))))"

definition handshakeInbound ::
  "('s, 'p, 'sig, 'pk, 'sk) mgr_env \<Rightarrow> moment \<Rightarrow> pptr \<Rightarrow> bytes \<Rightarrow> ('s, 'p, bytes \<times> bytes) handshake_op" where
  "handshakeInbound M A p bs =
     sbind (readAndProcessVersion M A p bs) (\<lambda>bs.
     sbind (sendVersion M A p) (\<lambda>w1.
     sbind (sendVerack M A) (\<lambda>w2.
     sbind (read_verack A p bs) (\<lambda>bs. sret (bs, w1 @ w2)))))"

definition handshake ::
  "('s, 'p, 'sig, 'pk, 'sk) mgr_env \<Rightarrow> moment \<Rightarrow> pptr \<Rightarrow> bytes \<Rightarrow> ('s, 'p, bytes \<times> bytes) handshake_op" where
  "handshake M A p bs = swith (\<lambda>m. if pr_inbound (peer_at m p) then handshakeInbound M A p bs else handshakeOutbound M A p bs)"

section \<open>The life of a connection\<close>

text \<open>Registration after the handshake. The version is there, since the handshake set it.\<close>

definition register_peer ::
  "('s, 'p, 'sig, 'pk, 'sk) mgr_env \<Rightarrow> moment \<Rightarrow> pptr \<Rightarrow> ('s, 'p) Manager \<Rightarrow> ('s, 'p) Manager" where
  "register_peer M A p m =
     (let addr = pr_addr (peer_at m p); m = recordConnectSuccess addr m;
          m = m\<lparr>mg_nextPeerID := mg_nextPeerID m + 1\<rparr>;
          m = upd_peer p (SetID (mg_nextPeerID m)) m;
          m = (if addr \<in> mg_manualPeers m then upd_peer p (SetConnType ''manual'') m else m);
          m = m\<lparr>mg_peers := AList.update addr p (mg_peers m)\<rparr>;
          h = BestHeight (peer_at m p);
          m = (if h > mg_bestPeerHeight m then m\<lparr>mg_bestPeerHeight := h\<rparr> else m);
          listenAddr = (case pr_version (peer_at m p) of None \<Rightarrow> [] | Some v \<Rightarrow> bytes_str (vm_AddrFrom v));
          put = (\<lambda>a m. m\<lparr>mg_peerStore := ps_PutPeer (me_peerStore M) a (mg_peerStore m)\<rparr>);
          m = (if listenAddr \<noteq> [] \<and> listenAddr \<noteq> me_listenAddr M \<and> validateGossipAddress listenAddr (isLocalLoopback M) = Inr ()
               then put listenAddr m
               else if addr \<noteq> me_listenAddr M then put addr m else m);
          m = (if peerSupportsHeaders (peer_at m p) then send A p ''sendheaders'' [] m else m)
      in send A p ''getaddr'' [] m)"

text \<open>\<^verbatim>\<open>handlePeer\<close> up to its loop: the bytes left to read and those written, or \<open>None\<close> when the connection has ended.\<close>

definition handlePeer_start ::
  "('s, 'p, 'sig, 'pk, 'sk) mgr_env \<Rightarrow> moment \<Rightarrow> pptr \<Rightarrow> bytes \<Rightarrow> ('s, 'p, (bytes \<times> bytes) option) mgr_op" where
  "handlePeer_start M A p bs m =
     (case handshake M A p bs m of
        None \<Rightarrow> None
      | Some (Inl e, m) \<Rightarrow>
          let m = (if pr_inbound (peer_at m p) then m else recordConnectFailure A (pr_addr (peer_at m p)) m)
          in Some (Inr None, disconnect M A p m)
      | Some (Inr r, m) \<Rightarrow> Some (Inr (Some r), register_peer M A p m))"

definition rate_exempt :: "bytes set" where
  "rate_exempt = str_bytes ` {''block'', ''headers'', ''getheaders'', ''getdata'', ''getblocks'', ''ping'', ''pong''}"

definition rate_limit ::
  "('s, 'p, 'sig, 'pk, 'sk) mgr_env \<Rightarrow> moment \<Rightarrow> pptr \<Rightarrow> bytes \<Rightarrow> ('s, 'p) Manager \<Rightarrow> bool \<times> ('s, 'p) Manager" where
  "rate_limit M A p cmd m =
     (let (ok, pr) = CheckRateLimit (at_now A) (peer_at m p); m = upd_peer p (\<lambda>_. pr) m in
      if ok \<or> cmd \<in> rate_exempt then (True, m)
      else let m = addMisbehavior M A p 10 m in (\<not> (BanThreshold \<le>s pr_banScore (peer_at m p)), m))"

text \<open>A panic of the handler is recovered: the peer is punished and disconnected.\<close>

definition recovered ::
  "('s, 'p, 'sig, 'pk, 'sk) mgr_env \<Rightarrow> moment \<Rightarrow> pptr \<Rightarrow> ('s, 'p, 'a option) mgr_op \<Rightarrow> ('s, 'p, 'a option) mgr_op" where
  "recovered M A p f m =
     (case f m of
        None \<Rightarrow> None
      | Some (Inl HandlerPanic, m) \<Rightarrow> Some (Inr None, disconnect M A p (addMisbehavior M A p 100 m))
      | Some (Inr r, m) \<Rightarrow> Some (Inr r, m))"

text \<open>One round of the loop of \<^verbatim>\<open>handlePeer\<close>: the bytes that are left, or \<open>None\<close> when the connection has ended.\<close>

definition handlePeer_round ::
  "('s, 'p, 'sig, 'pk, 'sk) mgr_env \<Rightarrow> moment \<Rightarrow> pptr \<Rightarrow> bytes \<Rightarrow> ('s, 'p, bytes option) mgr_op" where
  "handlePeer_round M A p bs = recovered M A p (swith (\<lambda>m.
     let ended = sbind (supd (disconnect M A p)) (\<lambda>_. sret None) in
     if pr_done (peer_at m p) then ended
     else (case ReadMessage (at_now A) bs (peer_at m p) of
             Inl e \<Rightarrow> ended
           | Inr (hdr, payload, rest, pr) \<Rightarrow>
               let (go, m') = rate_limit M A p (CommandString hdr) (upd_peer p (\<lambda>_. pr) m) in
               sbind (supd (\<lambda>_. m')) (\<lambda>_.
               if \<not> go then ended
               else sbind (handleMessage M A p (CommandString hdr) payload) (\<lambda>_. sret (Some rest))))))"

end
