(* ===== verification/Sync.thy ===== *)
theory Sync
  imports Handlers
begin

text \<open>
  The synchronisation state machine of the peer-to-peer manager (\<^verbatim>\<open>syncLoop\<close> and the ticks it calls): initial, headers,
  blocks (fast from one peer, in parallel through the scheduler, or by the legacy requests), synced, and back.
\<close>

section \<open>Selection of peers\<close>

definition transitionSyncState :: "SyncState \<Rightarrow> ('s, 'p) Manager \<Rightarrow> ('s, 'p) Manager" where
  "transitionSyncState newState m = m\<lparr>mg_syncState := newState\<rparr>"

definition isInitialBlockDownload ::
  "('s, 'p, 'sig, 'pk, 'sk) mgr_env \<Rightarrow> moment \<Rightarrow> ('s, 'p) Manager \<Rightarrow> bool \<times> ('s, 'p) Manager" where
  "isInitialBlockDownload M A m =
     (if mg_finishedIBD m then (False, m)
      else let ourHeight = snd (Tip (mg_chain m)) in
        if IsTipStale (me_chain M) (at_clk A) (mg_chain m) \<or> peerBestHeightV2 m > ourHeight + 2 then (True, m)
        else (False, m\<lparr>mg_finishedIBD := True\<rparr>))"

text \<open>The first peer of the range with the greatest height among those with a height above \<open>floor\<close>.\<close>

definition tallest_peer ::
  "moment \<Rightarrow> (Peer \<Rightarrow> bool) \<Rightarrow> u32 \<Rightarrow> ('s, 'p) Manager \<Rightarrow> pptr option" where
  "tallest_peer A ok floor m =
     fst (fold (\<lambda>(addr, p) (best, bestHeight).
         let ph = BestHeight (peer_at m p) in
         if ok (peer_at m p) \<and> ph > floor \<and> ph > bestHeight then (Some p, ph) else (best, bestHeight))
       (at_range A (mg_peers m)) (None, 0))"

definition selectHeaderSyncPeer :: "moment \<Rightarrow> ('s, 'p) Manager \<Rightarrow> pptr option" where
  "selectHeaderSyncPeer A m = tallest_peer A peerSupportsHeaders (snd (Tip (mg_chain m))) m"

definition selectLegacySyncPeer :: "moment \<Rightarrow> ('s, 'p) Manager \<Rightarrow> pptr option" where
  "selectLegacySyncPeer A m = tallest_peer A (\<lambda>_. True) (snd (Tip (mg_chain m))) m"

definition selectFastSyncPeer :: "moment \<Rightarrow> ('s, 'p) Manager \<Rightarrow> pptr option" where
  "selectFastSyncPeer A m =
     (let headerHeight = BestHeaderHeight (mg_headerIndex m) in
      fst (fold (\<lambda>(addr, p) (best, bestHeight, bestPing).
          let pr = peer_at m p; h = BestHeight pr; ping = (if pr_pingLatency pr = 0 then 500000000 else pr_pingLatency pr) in
          if \<not> peerSupportsHeaders pr \<or> h > headerHeight + 500 then (best, bestHeight, bestPing)
          else if h > bestHeight \<or> h = bestHeight \<and> ping < bestPing then (Some p, h, ping)
          else (best, bestHeight, bestPing))
        (at_range A (mg_peers m)) (None, 0, 0)))"

definition start_header_sync :: "moment \<Rightarrow> pptr \<Rightarrow> ('s, 'p) Manager \<Rightarrow> ('s, 'p) Manager" where
  "start_header_sync A p m =
     m\<lparr>mg_headerSyncPeerAddr := pr_addr (peer_at m p), mg_headerSyncSince := at_now A,
       mg_lastHeaderHeight := BestHeaderHeight (mg_headerIndex m), mg_headerSyncStalls := 0, mg_headerSyncCaughtUp := False,
       mg_syncPeerAddr := pr_addr (peer_at m p), mg_syncPeerSince := at_now A\<rparr>"

definition request_all :: "moment \<Rightarrow> ('s, 'p, unit) mgr_op" where
  "request_all A = swith (\<lambda>m. for_each (requestBlocks A) (map snd (at_range A (mg_peers m))))"

section \<open>The initial state\<close>

definition handleSyncInitial :: "('s, 'p, 'sig, 'pk, 'sk) mgr_env \<Rightarrow> moment \<Rightarrow> ('s, 'p, unit) mgr_op" where
  "handleSyncInitial M A = swith (\<lambda>m.
     let ourHeight = snd (Tip (mg_chain m)); bestHeight = peerBestHeightV2 m in
     if length (mg_peers m) = 0 then sret ()
     else let (ibd, m') = isInitialBlockDownload M A m in
       sbind (supd (\<lambda>_. m')) (\<lambda>_.
       if \<not> ibd then supd (transitionSyncState SyncStateSynced)
       else if bestHeight \<le> ourHeight then
         if IsTipStale (me_chain M) (at_clk A) (mg_chain m) then request_all A
         else supd (transitionSyncState SyncStateSynced)
       else sbind (supd (\<lambda>m. m\<lparr>mg_bestPeerHeight := bestHeight\<rparr>)) (\<lambda>_.
         case selectHeaderSyncPeer A m of
           Some p \<Rightarrow>
             sbind (supd (\<lambda>m. transitionSyncState SyncStateHeaderSync (start_header_sync A p m))) (\<lambda>_. requestHeaders A p)
         | None \<Rightarrow>
             (case selectLegacySyncPeer A m of
                Some p \<Rightarrow>
                  sbind (supd (\<lambda>m. transitionSyncState SyncStateBlockSync
                    (m\<lparr>mg_syncPeerAddr := pr_addr (peer_at m p), mg_syncPeerSince := at_now A, mg_lastSyncHeight := ourHeight\<rparr>))) (\<lambda>_.
                    requestBlocks A p)
              | None \<Rightarrow> sret ()))))"

section \<open>Headers\<close>

abbreviation (input) headerSyncStallTimeout :: int where "headerSyncStallTimeout \<equiv> 30 * Second"
abbreviation (input) blockSyncStallTimeout :: int where "blockSyncStallTimeout \<equiv> 15 * Second"
abbreviation (input) fastSyncStallTimeout :: int where "fastSyncStallTimeout \<equiv> 15 * Second"
abbreviation (input) maxStallsBeforeRotate :: int where "maxStallsBeforeRotate \<equiv> 3"
abbreviation (input) maxStallsBeforeBan :: int where "maxStallsBeforeBan \<equiv> 10"
abbreviation (input) fastSyncBatchSize :: u32 where "fastSyncBatchSize \<equiv> 500"
abbreviation (input) fastSyncMaxInFlight :: int where "fastSyncMaxInFlight \<equiv> 1000"

definition pick_header_peer :: "moment \<Rightarrow> ('s, 'p, unit) mgr_op" where
  "pick_header_peer A = swith (\<lambda>m.
     case selectHeaderSyncPeer A m of
       None \<Rightarrow>
         (case selectLegacySyncPeer A m of
            None \<Rightarrow> sret ()
          | Some p \<Rightarrow> sbind (supd (transitionSyncState SyncStateBlockSync)) (\<lambda>_. requestBlocks A p))
     | Some p \<Rightarrow> sbind (supd (start_header_sync A p)) (\<lambda>_. requestHeaders A p))"

definition header_stall :: "moment \<Rightarrow> pptr \<Rightarrow> ('s, 'p, unit) mgr_op" where
  "header_stall A p =
     sbind (supd (\<lambda>m. m\<lparr>mg_headerSyncStalls := mg_headerSyncStalls m + 1, mg_headerSyncSince := at_now A\<rparr>)) (\<lambda>_. swith (\<lambda>m.
       if mg_headerSyncStalls m \<ge> maxStallsBeforeBan then supd (\<lambda>m. (upd_peer p Peer_Close m)\<lparr>mg_headerSyncPeerAddr := []\<rparr>)
       else if mg_headerSyncStalls m \<ge> maxStallsBeforeRotate then supd (\<lambda>m. m\<lparr>mg_headerSyncPeerAddr := []\<rparr>)
       else requestHeaders A p))"

definition use_scheduler :: "('s, 'p) Manager \<Rightarrow> ('s, 'p) Manager" where
  "use_scheduler m = m\<lparr>mg_blockScheduler := Some (new_scheduler m)\<rparr>"

definition start_block_sync :: "moment \<Rightarrow> ('s, 'p) Manager \<Rightarrow> ('s, 'p) Manager" where
  "start_block_sync A m =
     (let tipH = snd (Tip (mg_chain m)); m = m\<lparr>mg_blockSyncLastProgress := at_now A, mg_blockSyncLastHeight := tipH\<rparr>;
          m = (if mg_fastSyncFallback m then use_scheduler m
               else (case selectFastSyncPeer A m of
                       Some p \<Rightarrow> m\<lparr>mg_fastSyncPeer := pr_addr (peer_at m p), mg_fastSyncNextHeight := tipH + 1, mg_fastSyncInFlight := 0,
                                   mg_fastSyncLastRecv := at_now A\<rparr>
                     | None \<Rightarrow> (use_scheduler m)\<lparr>mg_fastSyncFallback := True\<rparr>))
      in transitionSyncState SyncStateBlockSync m)"

definition headers_done :: "pptr \<Rightarrow> ('s, 'p) Manager \<Rightarrow> bool" where
  "headers_done p m \<longleftrightarrow>
     (let currentHeight = BestHeaderHeight (mg_headerIndex m) in
      currentHeight \<ge> peerBestHeightV2 m \<or> currentHeight \<ge> BestHeight (peer_at m p) \<or> mg_headerSyncCaughtUp m \<and> currentHeight > 0)"

definition handleHeaderSyncTick :: "moment \<Rightarrow> ('s, 'p, unit) mgr_op" where
  "handleHeaderSyncTick A = swith (\<lambda>m.
     case (if mg_headerSyncPeerAddr m \<noteq> [] then map_of (mg_peers m) (mg_headerSyncPeerAddr m) else None) of
       None \<Rightarrow> sbind (supd (\<lambda>m. m\<lparr>mg_headerSyncPeerAddr := []\<rparr>)) (\<lambda>_. pick_header_peer A)
     | Some p \<Rightarrow>
         let currentHeight = BestHeaderHeight (mg_headerIndex m) in
         if \<not> currentHeight > mg_lastHeaderHeight m \<and> time_sub (at_now A) (mg_headerSyncSince m) > headerSyncStallTimeout
         then header_stall A p
         else sbind (supd (\<lambda>m.
                if currentHeight > mg_lastHeaderHeight m
                then m\<lparr>mg_lastHeaderHeight := currentHeight, mg_headerSyncSince := at_now A, mg_headerSyncStalls := 0\<rparr> else m)) (\<lambda>_.
              supd (\<lambda>m. if headers_done p m then start_block_sync A m else m)))"

section \<open>Blocks\<close>

definition to_parallel :: "moment \<Rightarrow> ('s, 'p) Manager \<Rightarrow> ('s, 'p) Manager" where
  "to_parallel A m =
     (use_scheduler m)\<lparr>mg_fastSyncPeer := [], mg_fastSyncFallback := True, mg_blockSyncLastProgress := at_now A,
       mg_blockSyncLastHeight := snd (Tip (mg_chain m))\<rparr>"

text \<open>The requests of the fast path. A batch is at least one block, and the loop stops at a thousand in flight, so as many rounds
  as there is room in the pipeline are enough.\<close>

definition fast_batch :: "('s, 'p) Manager \<Rightarrow> hash list" where
  "fast_batch m =
     (let best = BestHeaderHeight (mg_headerIndex m); next = mg_fastSyncNextHeight m in
      if mg_fastSyncInFlight m < fastSyncMaxInFlight \<and> next \<le> best then
        let batchEnd = next + fastSyncBatchSize - 1;
            batchEnd = (if batchEnd > best then best else batchEnd)
        in HeadersToFetch (mg_headerIndex m) next (uint (batchEnd - next + 1))
      else [])"

primrec fast_requests :: "nat \<Rightarrow> moment \<Rightarrow> pptr \<Rightarrow> ('s, 'p) Manager \<Rightarrow> ('s, 'p) Manager option" where
  "fast_requests 0 A p m = None"
| "fast_requests (Suc n) A p m =
     (let hashes = fast_batch m in
      if hashes = [] then Some m
      else fast_requests n A p
        ((send A p ''getdata'' (request_blocks_inv hashes) m)
           \<lparr>mg_fastSyncInFlight := mg_fastSyncInFlight m + int (length hashes),
            mg_fastSyncNextHeight := mg_fastSyncNextHeight m + of_nat (length hashes)\<rparr>))"

definition handleFastSyncTick :: "moment \<Rightarrow> ('s, 'p, unit) mgr_op" where
  "handleFastSyncTick A = swith (\<lambda>m.
     let best = BestHeaderHeight (mg_headerIndex m); tipHeight = snd (Tip (mg_chain m)) in
     if tipHeight \<ge> best then supd (\<lambda>m. transitionSyncState SyncStateSynced (m\<lparr>mg_fastSyncPeer := []\<rparr>))
     else (case map_of (mg_peers m) (mg_fastSyncPeer m) of
             None \<Rightarrow> supd (to_parallel A)
           | Some p \<Rightarrow>
               if mg_fastSyncInFlight m > 0 \<and> time_sub (at_now A) (mg_fastSyncLastRecv m) > fastSyncStallTimeout
               then supd (to_parallel A)
               else (case fast_requests (nat (fastSyncMaxInFlight - mg_fastSyncInFlight m) + 1) A p m of
                       None \<Rightarrow> no_return
                     | Some m' \<Rightarrow> sbind (supd (\<lambda>_. m')) (\<lambda>_. supd (\<lambda>m.
                         if tipHeight > mg_blockSyncLastHeight m
                         then m\<lparr>mg_blockSyncLastHeight := tipHeight, mg_blockSyncLastProgress := at_now A\<rparr> else m)))))"

definition handleLegacyBlockSync :: "moment \<Rightarrow> ('s, 'p, unit) mgr_op" where
  "handleLegacyBlockSync A = swith (\<lambda>m.
     let ourHeight = snd (Tip (mg_chain m)) in
     case tallest_peer A (\<lambda>_. True) 0 m of
       None \<Rightarrow> supd (transitionSyncState SyncStateSynced)
     | Some p \<Rightarrow>
         if BestHeight (peer_at m p) \<le> ourHeight then supd (transitionSyncState SyncStateSynced)
         else sbind (supd (\<lambda>m.
             let addr = pr_addr (peer_at m p) in
             if mg_syncPeerAddr m = [] \<or> mg_syncPeerAddr m \<noteq> addr
             then m\<lparr>mg_syncPeerAddr := addr, mg_syncPeerSince := at_now A, mg_lastSyncHeight := ourHeight\<rparr>
             else if time_sub (at_now A) (mg_syncPeerSince m) > 30 * Second \<and> ourHeight = mg_lastSyncHeight m
             then m\<lparr>mg_syncPeerAddr := addr, mg_syncPeerSince := at_now A\<rparr> else m)) (\<lambda>_. requestBlocks A p))"

definition on_scheduler :: "(BlockScheduler \<Rightarrow> BlockScheduler) \<Rightarrow> ('s, 'p) Manager \<Rightarrow> ('s, 'p) Manager" where
  "on_scheduler f m = m\<lparr>mg_blockScheduler := map_option f (mg_blockScheduler m)\<rparr>"

text \<open>One block from the staging pool.\<close>

definition connect_staged ::
  "('s, 'p, 'sig, 'pk, 'sk) mgr_env \<Rightarrow> moment \<Rightarrow> stagedBlock \<Rightarrow> ('s, 'p, unit) mgr_op" where
  "connect_staged M A st =
     (let block = sb_Block st; blockHash = HashBlockHeader (blk_Header block) in
      sbind (on_chain (ProcessBlock (me_chain M) (at_clk A) block)) (\<lambda>r.
        case r of
          Inl e \<Rightarrow>
            if is_side_chain e then sret ()
            else if says_known (at_io A) e then sret ()
            else sbind (supd (\<lambda>m. (on_scheduler (RequeueBlock blockHash 0) m)\<lparr>mg_seenBlocks := hashset_Remove blockHash (mg_seenBlocks m)\<rparr>)) (\<lambda>_.
              swith (\<lambda>m. case map_of (mg_peers m) (sb_PeerAddr st) of
                  None \<Rightarrow> sret ()
                | Some p \<Rightarrow> if says_invalid (at_io A) e then supd (addMisbehavior M A p 100) else sret ()))
        | Inr height \<Rightarrow>
            supd (\<lambda>m. remove_confirmed block (on_scheduler (UpdateNextConnectHeight height) (NotifyBlockAccepted (blk_Header block) m)))))"

definition block_progress :: "moment \<Rightarrow> ('s, 'p) Manager \<Rightarrow> ('s, 'p) Manager" where
  "block_progress A m =
     (let tipHeight = snd (Tip (mg_chain m)) in
      if tipHeight > mg_blockSyncLastHeight m then m\<lparr>mg_blockSyncLastHeight := tipHeight, mg_blockSyncLastProgress := at_now A\<rparr>
      else if time_sub (at_now A) (mg_blockSyncLastProgress m) > blockSyncStallTimeout then
        let m = on_scheduler (Scheduler_Reset (mg_headerIndex m) tipHeight) m;
            m = (case mg_blockScheduler m of None \<Rightarrow> m | Some s \<Rightarrow> scrub_seen (expected_hashes A s) m)
        in m\<lparr>mg_blockSyncLastProgress := at_now A\<rparr>
      else m)"

text \<open>\<open>order\<close> is the order into which \<^verbatim>\<open>SortPeersByScore\<close> brings the peers.\<close>

definition handleBlockSyncTick ::
  "('s, 'p, 'sig, 'pk, 'sk) mgr_env \<Rightarrow> moment \<Rightarrow> (pptr list \<Rightarrow> pptr list) \<Rightarrow> ('s, 'p, unit) mgr_op" where
  "handleBlockSyncTick M A order = swith (\<lambda>m.
     if mg_fastSyncPeer m \<noteq> [] then handleFastSyncTick A
     else (case mg_blockScheduler m of
             None \<Rightarrow> handleLegacyBlockSync A
           | Some s \<Rightarrow>
               let (timedOut, s) = HandleTimeout (at_now A) (at_hashes A (map fst (sc_inFlight s))) s;
                   (ready, s) = DrainReady (mg_headerIndex m) (\<lambda>s. at_hashes A (map fst (sc_staging s))) s
               in sbind (supd (\<lambda>m. m\<lparr>mg_blockScheduler := Some s\<rparr>)) (\<lambda>_.
                  sbind (for_each (connect_staged M A) ready) (\<lambda>_.
                  sbind (supd (block_progress A)) (\<lambda>_.
                  sbind (supd (\<lambda>m. fold (assign_to A) (order (map snd (at_range A (mg_peers m)))) m)) (\<lambda>_.
                    supd (\<lambda>m. case mg_blockScheduler m of
                        None \<Rightarrow> m
                      | Some s \<Rightarrow> if IsComplete s then transitionSyncState SyncStateSynced m else m)))))))"

section \<open>Synced\<close>

definition handleSyncedTick :: "('s, 'p, 'sig, 'pk, 'sk) mgr_env \<Rightarrow> moment \<Rightarrow> ('s, 'p, unit) mgr_op" where
  "handleSyncedTick M A = swith (\<lambda>m.
     let ourHeight = snd (Tip (mg_chain m)); bestHeight = peerBestHeightV2 m;
         tipStale = IsTipStale (me_chain M) (at_clk A) (mg_chain m);
         gap = (if bestHeight > ourHeight then bestHeight - ourHeight else 0);
         reSync = (tipStale \<and> bestHeight > ourHeight + 2 \<or> gap \<ge> 3) in
     if reSync then supd (\<lambda>m. transitionSyncState SyncStateInitial
       (m\<lparr>mg_bestPeerHeight := bestHeight, mg_finishedIBD := False, mg_fastSyncPeer := [], mg_fastSyncFallback := False,
          mg_fastSyncInFlight := 0, mg_blockScheduler := None\<rparr>))
     else if tipStale then request_all A
     else sret ())"

section \<open>The loop\<close>

text \<open>One tick of \<^verbatim>\<open>syncLoop\<close>. The state is read once, before the handler runs.\<close>

definition sync_tick ::
  "('s, 'p, 'sig, 'pk, 'sk) mgr_env \<Rightarrow> moment \<Rightarrow> (pptr list \<Rightarrow> pptr list) \<Rightarrow> ('s, 'p, unit) mgr_op" where
  "sync_tick M A order = swith (\<lambda>m.
     let state = mg_syncState m; isIBD = IsSyncing m; wasIBD = mg_wasIBD m;
         set_ibd = (\<lambda>b. supd (\<lambda>m. m\<lparr>mg_chain := SetIBDMode (me_chain M) b (mg_chain m)\<rparr>)) in
     sbind (case state of
              SyncStateInitial \<Rightarrow> handleSyncInitial M A
            | SyncStateHeaderSync \<Rightarrow> handleHeaderSyncTick A
            | SyncStateBlockSync \<Rightarrow> handleBlockSyncTick M A order
            | SyncStateSynced \<Rightarrow> handleSyncedTick M A) (\<lambda>_.
     sbind (if isIBD \<and> \<not> wasIBD then set_ibd True
            else if \<not> isIBD \<and> wasIBD then sbind (drainIBDQueue M A) (\<lambda>_. set_ibd False)
            else sret ()) (\<lambda>_.
       supd (\<lambda>m. m\<lparr>mg_wasIBD := isIBD\<rparr>))))"

text \<open>One round each of \<^verbatim>\<open>orphanEvictionLoop\<close> and \<^verbatim>\<open>mempoolExpiryLoop\<close>.\<close>

definition orphan_eviction_tick :: "moment \<Rightarrow> ('s, 'p) Manager \<Rightarrow> ('s, 'p) Manager" where
  "orphan_eviction_tick A m = m\<lparr>mg_chain := snd (EvictExpiredOrphans (at_clk A) (mg_chain m))\<rparr>"

definition mempool_expiry_tick ::
  "('s, 'p, 'sig, 'pk, 'sk) mgr_env \<Rightarrow> moment \<Rightarrow> ((hash \<times> ptr) list \<Rightarrow> (hash \<times> ptr) list) \<Rightarrow> ('s, 'p) Manager \<Rightarrow> ('s, 'p) Manager" where
  "mempool_expiry_tick M A order m =
     m\<lparr>mg_mempool := snd (ExpireOldTxs (ce_params (me_chain M)) (at_now A) (order (mp_txs (mg_mempool m))) (mg_mempool m))\<rparr>"

end
