(* ===== verification/Ledger.thy ===== *)
theory Ledger
  imports Validation
begin

text \<open>
  The ledger: what a chain of blocks means. \<open>ledger L p bs U\<close> holds when \<open>bs\<close> is a chain from the genesis block
  of the network on, every later block links to the one before, passes the structure rules at its height and
  the input rules against the outputs that were unspent then, and \<open>U\<close> is the set of unspent outputs that
  connecting them leaves. It is the abstract specification of the chain component. The theory
  shows that the supply is bounded and that no transaction can occur twice in a
  chain, so that the outputs of a block are always new. That is what disconnecting a block relies on.
\<close>

section \<open>Chains of valid blocks\<close>

inductive ledger ::
  "('sig, 'pk, 'sk) ecdsa_lib \<Rightarrow> ChainParams \<Rightarrow> Block list \<Rightarrow> utxo_set \<Rightarrow> bool" for L p where
  genesis: "ledger L p [par_GenesisBlock p] (ConnectGenesis NewSet (par_GenesisBlock p))"
| extend: "ledger L p bs U \<Longrightarrow> length bs < 2 ^ 32 \<Longrightarrow>
     hdr_PrevBlock (blk_Header b) = HashBlockHeader (blk_Header (last bs)) \<Longrightarrow>
     ValidateBlockStructure b (of_nat (length bs)) p None None = Inr () \<Longrightarrow>
     ValidateTransactionInputs L b U (of_nat (length bs)) p mtp None = Inr fees \<Longrightarrow>
     ConnectBlock U b (of_nat (length bs)) None = Inr (undo, U') \<Longrightarrow> ledger L p (bs @ [b]) U'"

inductive_cases ledger_snocE: "ledger L p (bs @ [b]) U"

text \<open>The replay of a chain, as a function.\<close>

primrec connect_all :: "nat \<Rightarrow> Block list \<Rightarrow> utxo_set \<Rightarrow> utxo_set option" where
  "connect_all n [] U = Some U"
| "connect_all n (b # bs) U = (case ConnectBlock U b (of_nat n) None of
     Inl e \<Rightarrow> None | Inr (undo, U') \<Rightarrow> connect_all (Suc n) bs U')"

definition replay :: "Block list \<Rightarrow> utxo_set option" where
  "replay bs = (case bs of [] \<Rightarrow> None | g # bs \<Rightarrow> connect_all 1 bs (ConnectGenesis NewSet g))"

lemma connect_all_snoc:
  "connect_all n (bs @ [b]) U = (case connect_all n bs U of None \<Rightarrow> None
     | Some U' \<Rightarrow> (case ConnectBlock U' b (of_nat (n + length bs)) None of Inl e \<Rightarrow> None | Inr (undo, U'') \<Rightarrow> Some U''))"
proof (induction bs arbitrary: n U)
  case (Cons a bs)
  have "(of_nat (Suc n + length bs) :: u32) = of_nat (n + length (a # bs))" by simp
  then show ?case by (simp only: append_Cons connect_all.simps Cons.IH) (auto split: sum.split)
qed (auto split: sum.split)

lemma ledger_nonempty: "ledger L p bs U \<Longrightarrow> bs \<noteq> []"
  by (induction rule: ledger.induct) auto

lemma ledger_hd: "ledger L p bs U \<Longrightarrow> hd bs = par_GenesisBlock p"
  by (induction rule: ledger.induct) (auto dest: ledger_nonempty)

lemma ledger_replay: "ledger L p bs U \<Longrightarrow> replay bs = Some U"
proof (induction rule: ledger.induct)
  case (extend bs U b mtp fees undo U')
  from ledger_nonempty [OF extend(1)] obtain g bs' where "bs = g # bs'" by (cases bs) auto
  with extend show ?case by (simp add: replay_def connect_all_snoc)
qed (simp add: replay_def)

lemma ledger_functional: "ledger L p bs U \<Longrightarrow> ledger L p bs U' \<Longrightarrow> U = U'"
  using ledger_replay [of L p bs U] ledger_replay [of L p bs U'] by simp

lemma ledger_length: "ledger L p bs U \<Longrightarrow> length bs \<le> 2 ^ 32"
  by (induction rule: ledger.induct) auto

lemma ledger_take:
  "ledger L p bs U \<Longrightarrow> 0 < n \<Longrightarrow> n \<le> length bs \<Longrightarrow> \<exists>U'. ledger L p (take n bs) U'"
proof (induction rule: ledger.induct)
  case genesis
  then show ?case using ledger.genesis by (cases n) auto
next
  case (extend bs U b mtp fees undo U')
  show ?case
  proof (cases "n \<le> length bs")
    case True
    then show ?thesis using extend.IH extend.prems by simp
  next
    case False
    then have "take n (bs @ [b]) = bs @ [b]" using extend.prems by simp
    then show ?thesis using ledger.extend [OF extend.hyps(1-6)] by metis
  qed
qed

lemma ledger_linked:
  "ledger L p bs U \<Longrightarrow> Suc i < length bs \<Longrightarrow>
     hdr_PrevBlock (blk_Header (bs ! Suc i)) = HashBlockHeader (blk_Header (bs ! i))"
proof (induction arbitrary: i rule: ledger.induct)
  case (extend bs U b mtp fees undo U')
  then show ?case
  proof (cases "Suc i = length bs")
    case True
    then have "last bs = bs ! i" using ledger_nonempty [OF extend.hyps(1)] by (simp add: last_conv_nth flip: True)
    with True extend.hyps(3) show ?thesis by (simp add: nth_append flip: True)
  qed (use extend in \<open>simp add: nth_append\<close>)
qed simp

section \<open>The supply\<close>

lemma genesis_outputs_total:
  "finite (dom s) \<Longrightarrow> finite (dom (genesis_outputs h cb n outs s))
     \<and> utxo_total (genesis_outputs h cb n outs s)
       \<le> utxo_total s + sum_list (map (\<lambda>out. unat (out_Value out)) (filter (\<lambda>out. \<not> isLegacyPlaceholder (out_PkScript out)) outs))"
proof (induction outs arbitrary: n s)
  case (Cons out outs)
  show ?case
  proof (cases "isLegacyPlaceholder (out_PkScript out)")
    case False
    let ?s = "Set_Add s h (of_nat n) (out_entry out 0 cb)"
    have "finite (dom ?s)" "utxo_total ?s \<le> utxo_total s + unat (out_Value out)"
      using Cons.prems utxo_total_add_le [OF Cons.prems, of _ "out_entry out 0 cb"] by (simp_all add: Set_Add_def out_entry_def)
    with False Cons.IH [of ?s "Suc n"] show ?thesis by (auto simp: algebra_simps)
  qed (use Cons in simp)
qed simp

definition genesis_supply :: "Block \<Rightarrow> nat" where
  "genesis_supply b = (\<Sum>tx \<leftarrow> blk_Transactions b.
     sum_list (map (\<lambda>out. unat (out_Value out)) (filter (\<lambda>out. \<not> isLegacyPlaceholder (out_PkScript out)) (tx_Outputs tx))))"

lemma ConnectGenesis_total:
  "finite (dom (ConnectGenesis NewSet b)) \<and> utxo_total (ConnectGenesis NewSet b) \<le> genesis_supply b"
proof -
  let ?f = "\<lambda>s tx. genesis_outputs (HashTransaction tx) (Transaction_IsCoinbase tx) 0 (tx_Outputs tx) s"
  let ?v = "\<lambda>tx. sum_list (map (\<lambda>out. unat (out_Value out)) (filter (\<lambda>out. \<not> isLegacyPlaceholder (out_PkScript out)) (tx_Outputs tx)))"
  have "finite (dom (foldl ?f s txs)) \<and> utxo_total (foldl ?f s txs) \<le> utxo_total s + sum_list (map ?v txs)"
    if "finite (dom s)" for s txs
    using that
  proof (induction txs arbitrary: s)
    case (Cons tx txs)
    from genesis_outputs_total [OF Cons.prems, of "HashTransaction tx" "Transaction_IsCoinbase tx" 0 "tx_Outputs tx"]
      Cons.IH [of "?f s tx"] show ?case by auto
  qed simp
  from this [of NewSet "blk_Transactions b"] show ?thesis
    by (simp add: ConnectGenesis_def genesis_supply_def NewSet_def utxo_total_def)
qed

lemma ledger_supply:
  "ledger L p bs U \<Longrightarrow> finite (dom U) \<and>
     utxo_total U \<le> genesis_supply (par_GenesisBlock p) + (\<Sum>h < length bs. unat (CalcSubsidy p (of_nat h)))"
proof (induction rule: ledger.induct)
  case genesis
  show ?case using ConnectGenesis_total [of "par_GenesisBlock p"] by simp
next
  case (extend bs U b mtp fees undo U')
  from validated_block_supply [OF extend.hyps(4,5)] extend.IH extend.hyps(6) show ?case by auto
qed

lemma ledger_supply_era:
  assumes "ledger L p bs U" "par_SubsidyHalvingInterval p \<noteq> 0"
  shows "utxo_total U \<le> genesis_supply (par_GenesisBlock p) + era_sum p"
  using ledger_supply [OF assms(1)] subsidy_sum_le [OF assms(2) ledger_length [OF assms(1)]] by linarith

section \<open>No transaction occurs twice\<close>

text \<open>The outputs of a list of transactions.\<close>

definition okeys :: "Transaction list \<Rightarrow> bytes set" where
  "okeys txs = set (block_out_keys txs)"

lemma okeys_simps [simp]:
  "okeys [] = {}" "okeys (tx # txs) = set (tx_out_keys (HashTransaction tx) tx) \<union> okeys txs"
  "okeys (txs @ txs') = okeys txs \<union> okeys txs'"
  by (auto simp: okeys_def block_out_keys_def)

lemma okeys_iff:
  "k \<in> okeys txs \<longleftrightarrow> (\<exists>tx j. tx \<in> set txs \<and> j < length (tx_Outputs tx) \<and> k = OutpointKey (HashTransaction tx) (of_nat j))"
  by (auto simp: okeys_def block_out_keys_def set_tx_out_keys)

text \<open>A new transaction has new outputs, when no two transactions of the history collide.\<close>

lemma okeys_fresh:
  assumes "inj_on HashTransaction (set (tx # txs))" "tx \<notin> set txs" "k \<in> set (tx_out_keys (HashTransaction tx) tx)"
  shows "k \<notin> okeys txs"
proof
  assume "k \<in> okeys txs"
  then obtain tx' j where "tx' \<in> set txs" "k = OutpointKey (HashTransaction tx') (of_nat j)" by (auto simp: okeys_iff)
  moreover from assms(3) obtain i where "k = OutpointKey (HashTransaction tx) (of_nat i)" by (auto simp: set_tx_out_keys)
  ultimately have "HashTransaction tx' = HashTransaction tx" "tx' \<in> set txs" by simp_all
  with assms(1,2) show False by (auto simp: inj_on_def)
qed

definition coinbase_script :: "Transaction \<Rightarrow> bytes" where
  "coinbase_script tx = in_SignatureScript (tx_Inputs tx ! 0)"

text \<open>
  The invariant of a ledger at height \<open>n\<close> with history \<open>txs\<close> and unspent outputs \<open>v\<close>: unspent outputs
  come from the history, what a transaction has spent was an output of the history and stays spent, and
  no coinbase of the history could be one at height \<open>n\<close> or above.
\<close>

definition history_ok :: "nat \<Rightarrow> Transaction list \<Rightarrow> utxo_set \<Rightarrow> bool" where
  "history_ok n txs v \<longleftrightarrow> dom v \<subseteq> okeys txs
     \<and> (\<forall>tx \<in> set txs. \<not> Transaction_IsCoinbase tx \<longrightarrow>
          tx_Inputs tx \<noteq> [] \<and> (\<forall>i \<in> set (tx_Inputs tx). in_key i \<in> okeys txs \<and> v (in_key i) = None))
     \<and> (\<forall>tx \<in> set txs. Transaction_IsCoinbase tx \<longrightarrow>
          (\<forall>k. n \<le> k \<longrightarrow> k < 2 ^ 32 \<longrightarrow> validateCoinbaseScriptSig (coinbase_script tx) (of_nat k) \<noteq> Inr ()))"

lemma history_okD:
  assumes "history_ok n txs v" "tx \<in> set txs" "\<not> Transaction_IsCoinbase tx"
  shows "tx_Inputs tx \<noteq> []" "\<And>i. i \<in> set (tx_Inputs tx) \<Longrightarrow> in_key i \<in> okeys txs"
    "\<And>i. i \<in> set (tx_Inputs tx) \<Longrightarrow> v (in_key i) = None"
  using assms unfolding history_ok_def by auto

lemma coinbase_script_height:
  "validateCoinbaseScriptSig s h = Inr () \<Longrightarrow> validateCoinbaseScriptSig s h' = Inr () \<Longrightarrow> h = h'"
  by (auto simp: validateCoinbaseScriptSig_def Let_def split: if_splits)

text \<open>Inputs that connect were unspent in the view, and are spent afterwards.\<close>

lemma connect_inputs_view:
  "connect_inputs s h ins seen st = Inr st' \<Longrightarrow>
     (\<forall>i \<in> set ins. conn_view s st (in_key i) \<noteq> None)
     \<and> conn_view s st' = (\<lambda>k. if k \<in> in_key ` set ins then None else conn_view s st k)
     \<and> cn_spentInBlock st' = cn_spentInBlock st \<union> in_key ` set ins"
proof (induction ins arbitrary: seen st)
  case (Cons i ins)
  from Cons.prems obtain e where e: "conn_view s st (in_key i) = Some e"
    and rest: "connect_inputs s h ins (insert (in_key i) seen) (spend_key s i e st) = Inr st'"
    by (auto simp: connect_input_iff)
  from Cons.IH [OF rest] e show ?case by (auto simp: conn_view_spend fun_eq_iff split: if_splits)
qed simp

lemma connect_outputs_view:
  assumes "set (tx_out_keys h tx) \<inter> cn_spentInBlock st = {}"
  shows "dom (conn_view s (connect_outputs h height cb 0 (tx_Outputs tx) st)) = dom (conn_view s st) \<union> set (tx_out_keys h tx)
     \<and> (\<forall>k. k \<notin> set (tx_out_keys h tx) \<longrightarrow> conn_view s (connect_outputs h height cb 0 (tx_Outputs tx) st) k = conn_view s st k)
     \<and> cn_spentInBlock (connect_outputs h height cb 0 (tx_Outputs tx) st) = cn_spentInBlock st"
proof -
  have nk: "OutpointKey h (of_nat (0 + j)) \<notin> cn_spentInBlock st" if "j < length (tx_Outputs tx)" for j
    using assms that by (auto simp: set_tx_out_keys)
  have "apply_outputs h height cb n outs v k = v k" if "k \<notin> (\<lambda>j. OutpointKey h (of_nat (n + j))) ` {..<length outs}" for n outs v k
    using that
  proof (induction outs arbitrary: n v)
    case (Cons out outs)
    have nk: "k \<notin> (\<lambda>j. OutpointKey h (of_nat (Suc n + j))) ` {..<length outs}"
    proof
      assume "k \<in> (\<lambda>j. OutpointKey h (of_nat (Suc n + j))) ` {..<length outs}"
      then obtain j where "j < length outs" "k = OutpointKey h (of_nat (Suc n + j))" by auto
      then have "k = OutpointKey h (of_nat (n + Suc j))" "Suc j < length (out # outs)" by simp_all
      with Cons.prems show False by blast
    qed
    have "k \<noteq> OutpointKey h (of_nat n)" using Cons.prems by force
    then show ?case using Cons.IH [OF nk] by simp
  qed simp
  with connect_outputs_apply [of "tx_Outputs tx" h 0 st s height cb, OF nk] show ?thesis
    by (simp add: dom_apply_outputs set_tx_out_keys)
qed

lemma history_ok_tx:
  assumes ok: "history_ok n txs (conn_view s st)" and spent: "cn_spentInBlock st \<subseteq> okeys txs"
    and tx: "connect_tx s height (HashTransaction tx) tx st = Inr st'"
    and inj: "inj_on HashTransaction (set (tx # txs))"
    and cb: "Transaction_IsCoinbase tx \<Longrightarrow> tx \<notin> set txs
       \<and> (\<forall>k. m \<le> k \<longrightarrow> k < 2 ^ 32 \<longrightarrow> validateCoinbaseScriptSig (coinbase_script tx) (of_nat k) \<noteq> Inr ())"
    and m: "n \<le> m" and ins: "\<not> Transaction_IsCoinbase tx \<Longrightarrow> tx_Inputs tx \<noteq> []"
  shows "tx \<notin> set txs" "history_ok m (tx # txs) (conn_view s st')" "cn_spentInBlock st' \<subseteq> okeys (tx # txs)"
proof -
  let ?h = "HashTransaction tx" and ?cb = "Transaction_IsCoinbase tx"
  from tx obtain st1 where st1: "(if \<not> ?cb then connect_inputs s ?h (tx_Inputs tx) {} st else Inr st) = Inr st1"
    and st': "st' = connect_outputs ?h height ?cb 0 (tx_Outputs tx) st1"
    by (auto simp: connect_tx_def)
  show new: "tx \<notin> set txs"
  proof
    assume mem: "tx \<in> set txs"
    with cb have ncb: "\<not> ?cb" by blast
    with st1 connect_inputs_view have "\<forall>i \<in> set (tx_Inputs tx). conn_view s st (in_key i) \<noteq> None" by fastforce
    with history_okD [OF ok mem ncb] show False by (metis list.set_sel(1))
  qed
  let ?I = "if ?cb then {} else in_key ` set (tx_Inputs tx)"
  have v1: "conn_view s st1 = (\<lambda>k. if k \<in> ?I then None else conn_view s st k)"
    "cn_spentInBlock st1 = cn_spentInBlock st \<union> ?I" and present: "?I \<subseteq> dom (conn_view s st)"
    using st1 connect_inputs_view [of s ?h "tx_Inputs tx" "{}" st st1] by (auto split: if_splits)
  have dom: "dom (conn_view s st) \<subseteq> okeys txs" using ok by (simp add: history_ok_def)
  have fresh: "set (tx_out_keys ?h tx) \<inter> okeys txs = {}" using okeys_fresh [OF inj new] by blast
  have sp1: "cn_spentInBlock st1 \<subseteq> okeys txs" unfolding v1(2) using spent present dom by blast
  with fresh have "set (tx_out_keys ?h tx) \<inter> cn_spentInBlock st1 = {}" by blast
  note v' = connect_outputs_view [OF this, of s height ?cb, folded st']
  show "cn_spentInBlock st' \<subseteq> okeys (tx # txs)"
    using v' sp1 by auto
  have same: "conn_view s st' k = (if k \<in> ?I then None else conn_view s st k)" if "k \<in> okeys txs" for k
  proof -
    have "k \<notin> set (tx_out_keys ?h tx)" using fresh that by blast
    then show ?thesis using v' v1(1) by simp
  qed
  have "dom (conn_view s st1) \<subseteq> dom (conn_view s st)" unfolding v1(1) by (auto split: if_splits)
  then have "dom (conn_view s st') \<subseteq> okeys (tx # txs)" using v' dom by auto
  moreover have "tx_Inputs t \<noteq> [] \<and> (\<forall>i \<in> set (tx_Inputs t). in_key i \<in> okeys (tx # txs) \<and> conn_view s st' (in_key i) = None)"
    if t: "t \<in> set (tx # txs)" "\<not> Transaction_IsCoinbase t" for t
  proof (cases "t = tx")
    case True
    have "in_key i \<in> okeys txs \<and> in_key i \<in> ?I" if "i \<in> set (tx_Inputs tx)" for i
      using present dom True t(2) that by auto
    with same ins t(2) show ?thesis unfolding True by auto
  next
    case False
    with t have mem: "t \<in> set txs" by simp
    show ?thesis using history_okD [OF ok mem t(2)] same by auto
  qed
  moreover have "validateCoinbaseScriptSig (coinbase_script t) (of_nat k) \<noteq> Inr ()"
    if "t \<in> set (tx # txs)" "Transaction_IsCoinbase t" "m \<le> k" "k < 2 ^ 32" for t k
    using that cb ok m unfolding history_ok_def by (cases "t = tx") auto
  ultimately show "history_ok m (tx # txs) (conn_view s st')" unfolding history_ok_def by blast
qed

lemma history_ok_txs:
  assumes "connect_txs s height None i ts st = Inr st'" "history_ok n txs (conn_view s st)" "cn_spentInBlock st \<subseteq> okeys txs"
    and "inj_on HashTransaction (set ts \<union> set txs)"
    and "\<forall>t \<in> set ts. \<not> Transaction_IsCoinbase t \<and> tx_Inputs t \<noteq> []"
  shows "history_ok n (rev ts @ txs) (conn_view s st') \<and> distinct ts \<and> set ts \<inter> set txs = {}"
  using assms
proof (induction ts arbitrary: i st txs)
  case (Cons t ts)
  from Cons.prems(1) obtain st1 where st1: "connect_tx s height (HashTransaction t) t st = Inr st1"
    and rest: "connect_txs s height None (Suc i) ts st1 = Inr st'" by (auto simp: tx_hash_at_def)
  have inj: "inj_on HashTransaction (set (t # txs))" using Cons.prems(4) by (rule inj_on_subset) auto
  note one = history_ok_tx [OF Cons.prems(2,3) st1 inj, of n]
  have one': "t \<notin> set txs" "history_ok n (t # txs) (conn_view s st1)" "cn_spentInBlock st1 \<subseteq> okeys (t # txs)"
    using one Cons.prems(5) by auto
  have "inj_on HashTransaction (set ts \<union> set (t # txs))" using Cons.prems(4) by (rule inj_on_subset) auto
  from Cons.IH [OF rest one'(2,3) this] Cons.prems(5) one'(1) show ?case by auto
qed simp

lemma ValidateTransactionInputs_nonempty:
  assumes "ValidateTransactionInputs L b s height p mt hs = Inr fees" "t \<in> set (blk_Transactions b)" "\<not> Transaction_IsCoinbase t"
  shows "tx_Inputs t \<noteq> []"
proof -
  have "tx_Inputs t \<noteq> []" if "validate_txs L s p height mt hs n txs st f = Inr r" "t \<in> set txs" for n txs st f r
    using that assms(3)
  proof (induction txs arbitrary: n st f)
    case (Cons t' txs)
    then show ?case by (cases "t = t'") (auto simp: validate_tx_def split: if_splits)
  qed simp
  with assms(1,2) show ?thesis by (auto simp: ValidateTransactionInputs_def)
qed

lemma history_ok_block:
  assumes ok: "history_ok n txs s" and n: "n < 2 ^ 32"
    and str: "ValidateBlockStructure b (of_nat n) p None None = Inr ()" and pos: "0 < n"
    and inp: "ValidateTransactionInputs L b s (of_nat n) p mt None = Inr fees"
    and con: "ConnectBlock s b (of_nat n) None = Inr (undo, s')"
    and inj: "inj_on HashTransaction (set (blk_Transactions b) \<union> set txs)"
  shows "history_ok (Suc n) (rev (blk_Transactions b) @ txs) s' \<and> distinct (blk_Transactions b)
     \<and> set (blk_Transactions b) \<inter> set txs = {}"
proof -
  from ValidateBlockStructure_ok(1) [OF str] obtain cb ts where
    b: "blk_Transactions b = cb # ts" "Transaction_IsCoinbase cb" "list_all (\<lambda>tx. \<not> Transaction_IsCoinbase tx) ts" by blast
  have "(of_nat n :: u32) > 0" using n pos by (simp add: word_less_nat_alt unat_of_nat)
  then have pin: "validateCoinbaseScriptSig (coinbase_script cb) (of_nat n) = Inr ()"
    using str b(1) unfolding coinbase_script_def
    by (cases "validateCoinbaseScriptSig (in_SignatureScript (tx_Inputs cb ! 0)) (of_nat n)")
      (auto simp: ValidateBlockStructure_def rbind_def split: if_splits)
  have new: "cb \<notin> set txs" using ok n pin b(2) unfolding history_ok_def by blast
  have later: "validateCoinbaseScriptSig (coinbase_script cb) (of_nat k) \<noteq> Inr ()" if "Suc n \<le> k" "k < 2 ^ 32" for k
  proof
    assume "validateCoinbaseScriptSig (coinbase_script cb) (of_nat k) = Inr ()"
    from arg_cong [OF coinbase_script_height [OF pin this], of unat] that show False by (simp add: unat_of_nat)
  qed
  from con obtain st where st: "connect_txs s (of_nat n) None 0 (cb # ts) conn_init = Inr st" "s' = conn_view s st"
    by (auto simp: ConnectBlock_None b(1))
  from st(1) obtain st1 where st1: "connect_tx s (of_nat n) (HashTransaction cb) cb conn_init = Inr st1"
    and rest: "connect_txs s (of_nat n) None (Suc 0) ts st1 = Inr st" by (auto simp: tx_hash_at_def)
  have "inj_on HashTransaction (set (cb # txs))" using inj by (rule inj_on_subset) (auto simp: b(1))
  moreover have "cn_spentInBlock conn_init = {}" by (simp add: conn_init_def)
  ultimately have one: "history_ok (Suc n) (cb # txs) (conn_view s st1)" "cn_spentInBlock st1 \<subseteq> okeys (cb # txs)"
    using history_ok_tx [of n txs s conn_init "of_nat n" cb st1 "Suc n"] st1 ok new later b(2) by auto
  have "inj_on HashTransaction (set ts \<union> set (cb # txs))" using inj by (rule inj_on_subset) (auto simp: b(1))
  moreover have "\<forall>t \<in> set ts. \<not> Transaction_IsCoinbase t \<and> tx_Inputs t \<noteq> []"
    using b ValidateTransactionInputs_nonempty [OF inp] by (auto simp: list_all_iff)
  ultimately show ?thesis
    using history_ok_txs [OF rest one] new b(1) st(2) by auto
qed

text \<open>
  The genesis blocks of the networks: distinct coinbases whose scripts do not start with the push of a height.
\<close>

definition genesis_ok :: "ChainParams \<Rightarrow> bool" where
  "genesis_ok p \<longleftrightarrow> distinct (blk_Transactions (par_GenesisBlock p))
     \<and> (\<forall>tx \<in> set (blk_Transactions (par_GenesisBlock p)). Transaction_IsCoinbase tx
         \<and> (case coinbase_script tx of [] \<Rightarrow> True | x # _ \<Rightarrow> x = 0 \<or> 4 < x))"

lemma genesis_ok_networks: "genesis_ok Mainnet" "genesis_ok Testnet" "genesis_ok Regtest"
  by (simp_all add: genesis_ok_def Mainnet_def Testnet_def Regtest_def zero_block_def coinbase_script_def genesis_coinbase_def
      str_bytes_def Transaction_IsCoinbase_def TxInput_IsCoinbase_def CoinbaseOutPoint_def Hash_IsZero_def)

lemma coinbase_script_first:
  "case s of [] \<Rightarrow> True | x # _ \<Rightarrow> x = 0 \<or> 4 < (x :: byte) \<Longrightarrow> validateCoinbaseScriptSig s h \<noteq> Inr ()"
  by (cases s) (auto simp: validateCoinbaseScriptSig_def Let_def word_less_nat_alt split: if_splits)

lemma dom_genesis_outputs:
  "dom (genesis_outputs h cb n outs s) \<subseteq> dom s \<union> (\<lambda>j. OutpointKey h (of_nat (n + j))) ` {..<length outs}"
proof (induction outs arbitrary: n s)
  case (Cons out outs)
  let ?s = "if isLegacyPlaceholder (out_PkScript out) then s else Set_Add s h (of_nat n) (out_entry out 0 cb)"
  have "dom ?s \<subseteq> insert (OutpointKey h (of_nat (n + 0))) (dom s)" by (auto simp: Set_Add_def)
  moreover have "(\<lambda>j. OutpointKey h (of_nat (Suc n + j))) ` {..<length outs} \<subseteq> (\<lambda>j. OutpointKey h (of_nat (n + j))) ` {..<length (out # outs)}"
  proof (rule image_subsetI)
    fix j
    assume "j \<in> {..<length outs}"
    then show "OutpointKey h (of_nat (Suc n + j)) \<in> (\<lambda>j. OutpointKey h (of_nat (n + j))) ` {..<length (out # outs)}"
      by (intro image_eqI [of _ _ "Suc j"]) auto
  qed
  moreover have "OutpointKey h (of_nat (n + 0)) \<in> (\<lambda>j. OutpointKey h (of_nat (n + j))) ` {..<length (out # outs)}"
    by (rule image_eqI [of _ _ 0]) simp_all
  ultimately have "dom ?s \<union> (\<lambda>j. OutpointKey h (of_nat (Suc n + j))) ` {..<length outs}
      \<subseteq> dom s \<union> (\<lambda>j. OutpointKey h (of_nat (n + j))) ` {..<length (out # outs)}" by blast
  from subset_trans [OF Cons.IH [of "Suc n" ?s] this] show ?case by (simp only: genesis_outputs.simps)
qed simp

lemma dom_ConnectGenesis: "dom (ConnectGenesis NewSet b) \<subseteq> okeys (blk_Transactions b)"
proof -
  let ?f = "\<lambda>s tx. genesis_outputs (HashTransaction tx) (Transaction_IsCoinbase tx) 0 (tx_Outputs tx) s"
  have "dom (foldl ?f s txs) \<subseteq> dom s \<union> okeys txs" for s txs
  proof (induction txs arbitrary: s)
    case (Cons tx txs)
    from Cons.IH [of "?f s tx"] dom_genesis_outputs [of "HashTransaction tx" "Transaction_IsCoinbase tx" 0 "tx_Outputs tx" s]
    show ?case by (auto simp: set_tx_out_keys)
  qed simp
  from this [of NewSet "blk_Transactions b"] show ?thesis by (simp add: ConnectGenesis_def NewSet_def)
qed

definition history :: "Block list \<Rightarrow> Transaction list" where
  "history bs = concat (map blk_Transactions bs)"

lemma history_simps [simp]: "history [] = []" "history (b # bs) = blk_Transactions b @ history bs"
  "history (bs @ bs') = history bs @ history bs'"
  by (simp_all add: history_def)

lemma history_ok_cong: "set txs = set txs' \<Longrightarrow> history_ok n txs v = history_ok n txs' v"
  by (simp add: history_ok_def subset_iff okeys_iff)

lemma ledger_history:
  assumes "ledger L p bs U" "genesis_ok p" "inj_on HashTransaction (set (history bs))"
  shows "history_ok (length bs) (history bs) U \<and> distinct (history bs)"
  using assms
proof (induction rule: ledger.induct)
  case genesis
  then show ?case
    using dom_ConnectGenesis [of "par_GenesisBlock p"] coinbase_script_first by (auto simp: genesis_ok_def history_ok_def)
next
  case (extend bs U b mtp fees undo U')
  have "inj_on HashTransaction (set (history bs))" using extend.prems(2) by (rule inj_on_subset) auto
  with extend have ih: "history_ok (length bs) (history bs) U" "distinct (history bs)" by simp_all
  have inj: "inj_on HashTransaction (set (blk_Transactions b) \<union> set (history bs))"
    using extend.prems(2) by (rule inj_on_subset) auto
  have "0 < length bs" using ledger_nonempty [OF extend.hyps(1)] by simp
  from history_ok_block [OF ih(1) extend.hyps(2,4) this extend.hyps(5,6) inj] ih(2)
    history_ok_cong [of "rev (blk_Transactions b) @ history bs" "history (bs @ [b])" "Suc (length bs)" U']
  show ?case by auto
qed

text \<open>The outputs of a block that extends a ledger are new, so disconnecting it restores the ledger below.\<close>

lemma ledger_extend_fresh:
  assumes "ledger L p (bs @ [b]) U" "bs \<noteq> []" "ledger L p bs V" "genesis_ok p" "inj_on HashTransaction (set (history (bs @ [b])))"
  shows "\<forall>k \<in> set (block_out_keys (blk_Transactions b)). V k = None"
proof
  fix k
  assume "k \<in> set (block_out_keys (blk_Transactions b))"
  then obtain t where t: "t \<in> set (blk_Transactions b)" "k \<in> set (tx_out_keys (HashTransaction t) t)"
    by (auto simp: block_out_keys_def)
  have d: "distinct (history (bs @ [b]))" using ledger_history [OF assms(1,4,5)] by simp
  have inj: "inj_on HashTransaction (set (t # history bs))" using assms(5) by (rule inj_on_subset) (use t in auto)
  have "t \<notin> set (history bs)" using d t(1) by auto
  from okeys_fresh [OF inj this t(2)] have "k \<notin> okeys (history bs)" .
  moreover have "inj_on HashTransaction (set (history bs))" using assms(5) by (rule inj_on_subset) auto
  then have "dom V \<subseteq> okeys (history bs)" using ledger_history [OF assms(3,4)] by (auto simp: history_ok_def)
  ultimately show "V k = None" by blast
qed

lemma ledger_snocD:
  assumes "ledger L p (bs @ [b]) U" "bs \<noteq> []"
  obtains V mtp fees undo where "ledger L p bs V" "length bs < 2 ^ 32"
    "hdr_PrevBlock (blk_Header b) = HashBlockHeader (blk_Header (last bs))"
    "ValidateBlockStructure b (of_nat (length bs)) p None None = Inr ()"
    "ValidateTransactionInputs L b V (of_nat (length bs)) p mtp None = Inr fees"
    "ConnectBlock V b (of_nat (length bs)) None = Inr (undo, U)"
  using assms by (auto elim: ledger_snocE)

lemma ledger_disconnect:
  assumes "ledger L p (bs @ [b]) U" "bs \<noteq> []" "genesis_ok p" "inj_on HashTransaction (set (history (bs @ [b])))"
    and "ledger L p bs V" "ConnectBlock V b (of_nat (length bs)) None = Inr (undo, U)"
  shows "DisconnectBlock U b undo = V"
  using disconnect_connect [OF assms(6) ledger_extend_fresh [OF assms(1,2,5,3,4)]] .

section \<open>Properties\<close>

text \<open>A genesis block with one block on top, for the witnesses.\<close>

definition demo_cb1 :: Transaction where
  "demo_cb1 = \<lparr>tx_Version = 1,
     tx_Inputs = [\<lparr>in_PreviousOutPoint = CoinbaseOutPoint, in_SignatureScript = [1, 1], in_Sequence = 0xFFFFFFFF\<rparr>],
     tx_Outputs = [\<lparr>out_Value = 5000000000, out_PkScript = [0x51]\<rparr>], tx_LockTime = 0\<rparr>"

definition demo_block1 :: "ChainParams \<Rightarrow> Block" where
  "demo_block1 p = \<lparr>blk_Header = \<lparr>hdr_Version = 1, hdr_PrevBlock = HashBlockHeader (blk_Header (par_GenesisBlock p)),
       hdr_MerkleRoot = MerkleRoot [HashTransaction demo_cb1], hdr_Timestamp = 1774175636, hdr_Bits = par_InitialBits p, hdr_Nonce = 0\<rparr>,
     blk_Transactions = [demo_cb1]\<rparr>"

lemma demo_cb1_coinbase: "Transaction_IsCoinbase demo_cb1"
  by (simp add: Transaction_IsCoinbase_def TxInput_IsCoinbase_def demo_cb1_def CoinbaseOutPoint_def Hash_IsZero_def)

lemma demo_block1_structure:
  assumes "p \<in> {Mainnet, Regtest}"
  shows "ValidateBlockStructure (demo_block1 p) 1 p None None = Inr ()"
proof -
  have len: "length (Block_Serialize (demo_block1 p)) = 80 + (1 + Transaction_SerializeSize demo_cb1)"
    by (simp add: Block_Serialize_def demo_block1_def enc_counted_def PutVarInt_def tx_size_length)
  have size: "Transaction_SerializeSize demo_cb1 = 63"
    by (simp add: demo_cb1_def Transaction_SerializeSize_def TxInput_SerializeSize_def TxOutput_SerializeSize_def VarIntSize_def)
  have c: "validateCoinbaseScriptSig (in_SignatureScript (tx_Inputs demo_cb1 ! 0)) 1 = Inr ()"
    by (simp add: validateCoinbaseScriptSig_def demo_cb1_def minimalPushLen_def)
  have o: "\<not> coinbase_overflows 0 (tx_Outputs demo_cb1)" by (simp add: demo_cb1_def)
  have "\<not> par_MaxBlockTxCount p < 1" "\<not> par_MaxBlockSize p < 144" using assms by (auto simp: Mainnet_def Regtest_def)
  then show ?thesis
    using len size c o by (simp add: ValidateBlockStructure_def demo_block1_def demo_cb1_coinbase)
qed

lemma demo_block1_inputs:
  assumes "p \<in> {Mainnet, Regtest}"
  shows "ValidateTransactionInputs L (demo_block1 p) U 1 p t None = Inr 0"
proof -
  have "check_coinbase_outputs 0 (tx_Outputs demo_cb1) = Inr ()" "coinbase_value 0 (tx_Outputs demo_cb1) 0 = Inr 5000000000"
    by (simp_all add: demo_cb1_def)
  moreover have "CalcSubsidy p 1 = 5000000000" using assms by (auto simp: CalcSubsidy_def Mainnet_def Regtest_def)
  ultimately show ?thesis
    by (simp add: ValidateTransactionInputs_def demo_block1_def validate_tx_def demo_cb1_coinbase tx_hash_at_def)
qed

lemma demo_block1_connect: "\<exists>undo U'. ConnectBlock U (demo_block1 p) 1 None = Inr (undo, U')"
  by (simp add: ConnectBlock_def demo_block1_def connect_tx_def demo_cb1_coinbase tx_hash_at_def)

lemma demo_ledger:
  assumes "p \<in> {Mainnet, Regtest}"
  shows "\<exists>U. ledger L p ([par_GenesisBlock p] @ [demo_block1 p]) U"
proof -
  obtain undo U' where c: "ConnectBlock (ConnectGenesis NewSet (par_GenesisBlock p)) (demo_block1 p) 1 None = Inr (undo, U')"
    using demo_block1_connect by blast
  have "ledger L p ([par_GenesisBlock p] @ [demo_block1 p]) U'"
    by (rule ledger.extend [OF ledger.genesis, where mtp = 0])
      (use c demo_block1_structure [OF assms] demo_block1_inputs [OF assms] in \<open>simp_all add: demo_block1_def\<close>)
  then show ?thesis by blast
qed

text \<open>The supply cap: on mainnet, whatever valid chain of blocks is replayed, the unspent outputs never add up to more
  than \<^verbatim>\<open>MaxMoneyValue\<close>.\<close>

theorem mainnet_supply_cap:
  assumes "ledger L Mainnet bs U"
  shows "finite (dom U) \<and> utxo_total U \<le> unat MaxMoneyValue"
proof -
  have "genesis_supply (par_GenesisBlock Mainnet) = 0" "par_SubsidyHalvingInterval Mainnet \<noteq> 0"
    by (simp_all add: genesis_supply_def Mainnet_def genesis_coinbase_def isLegacyPlaceholder_def)
  with ledger_supply [OF assms] ledger_supply_era [OF assms] era_sum_networks(1) show ?thesis by simp
qed

theorem mainnet_supply_cap_witness:
  "\<exists>U. ledger demo_lib Mainnet ([par_GenesisBlock Mainnet] @ [demo_block1 Mainnet]) U \<and> utxo_total U \<le> unat MaxMoneyValue"
  using demo_ledger [of Mainnet demo_lib] mainnet_supply_cap by blast

text \<open>C4. No transaction occurs twice in a valid chain and the outputs of its last block were not in the set before it:
  coinbases differ by the height their script commits to, other transactions by what they spend. So
  disconnecting the last block with the undo data of its connection restores exactly the unspent
  outputs of the shorter chain. The hypothesis is that no two transactions of the chain collide.\<close>

theorem chain_disconnect_tip:
  assumes "ledger L p (bs @ [b]) U" "bs \<noteq> []" "genesis_ok p" "inj_on HashTransaction (set (history (bs @ [b])))"
  shows "distinct (history (bs @ [b])) \<and> (\<exists>V undo. ledger L p bs V \<and> ConnectBlock V b (of_nat (length bs)) None = Inr (undo, U)
     \<and> (\<forall>k \<in> set (block_out_keys (blk_Transactions b)). V k = None) \<and> DisconnectBlock U b undo = V)"
proof -
  from ledger_snocD [OF assms(1,2)] obtain V mtp fees undo where v: "ledger L p bs V"
    "ConnectBlock V b (of_nat (length bs)) None = Inr (undo, U)" by blast
  with ledger_disconnect [OF assms v] ledger_extend_fresh [OF assms(1,2) v(1) assms(3,4)] ledger_history [OF assms(1,3,4)]
  show ?thesis by blast
qed

theorem chain_disconnect_tip_witness:
  "\<exists>U V undo. ledger demo_lib Regtest [zero_block] V \<and> ConnectBlock V (demo_block1 Regtest) 1 None = Inr (undo, U)
     \<and> DisconnectBlock U (demo_block1 Regtest) undo = V"
proof -
  have g: "par_GenesisBlock Regtest = zero_block" by (simp add: Regtest_def)
  obtain U where u: "ledger demo_lib Regtest ([zero_block] @ [demo_block1 Regtest]) U"
    using demo_ledger [of Regtest demo_lib] unfolding g by auto
  have inj: "inj_on HashTransaction (set (history ([zero_block] @ [demo_block1 Regtest])))"
    by (simp add: zero_block_def demo_block1_def)
  from chain_disconnect_tip [OF u _ genesis_ok_networks(3) inj] show ?thesis by auto
qed

end
