(* ===== verification/ChainSafety.thy ===== *)
theory ChainSafety
  imports Chain Ledger
begin

text \<open>
  The chain keeps a ledger: in every state the chain component reaches while its storage works, the blocks named by
  \<^verbatim>\<open>hashByHeight\<close> form a valid chain from the genesis block, the in-memory UTXO set is its replay, and the tip, its work, the
  stored blocks and the undo data belong to it. The locale \<open>chain_world\<close> fixes the blocks \<open>W\<close> that ever occur and
  what collision freedom of the hash functions gives for them: a hash determines the header, its depth \<open>d\<close> below the
  genesis block and the work \<open>wk\<close> of its chain.
\<close>

abbreviation (input) bhash :: "Block \<Rightarrow> hash" where "bhash b \<equiv> HashBlockHeader (blk_Header b)"

text \<open>The path from a new tip down to the fork, and the same path upwards from the block \<open>p\<close> below it.\<close>

fun path_ok :: "('s, 'sig, 'pk, 'sk) chain_env \<Rightarrow> 's Chain \<Rightarrow> hash list \<Rightarrow> bool" where
  "path_ok E c [] = False"
| "path_ok E c [x] = (\<exists>b. bs_GetBlock (ce_store E) (ch_store c) x = Some b \<and> on_main c (hdr_PrevBlock (blk_Header b)))"
| "path_ok E c (x # y # ys) = ((\<exists>b. bs_GetBlock (ce_store E) (ch_store c) x = Some b \<and> hdr_PrevBlock (blk_Header b) = y)
     \<and> \<not> on_main c y \<and> path_ok E c (y # ys))"

primrec asc_path :: "('s, 'sig, 'pk, 'sk) chain_env \<Rightarrow> 's Chain \<Rightarrow> hash \<Rightarrow> hash list \<Rightarrow> bool" where
  "asc_path E c p [] = True"
| "asc_path E c p (y # ys) = ((\<exists>b. bs_GetBlock (ce_store E) (ch_store c) y = Some b \<and> hdr_PrevBlock (blk_Header b) = p)
     \<and> asc_path E c y ys)"

lemma reorg_path_ok:
  fixes E :: "('a, 'b, 'c, 'd) chain_env"
  assumes "reorg_path E c cur acc = Some (Inr newChain)"
  shows "\<exists>xs. newChain = acc @ xs \<and> path_ok E c (cur # xs)"
proof -
  have "(Inr newChain :: chain_error + hash list) = Inr nc \<longrightarrow> (\<exists>xs. nc = acc @ xs \<and> path_ok E c (cur # xs))" for nc
  proof (rule reorg_path.raw_induct [of "\<lambda>E c cur acc r. r = Inr nc \<longrightarrow> (\<exists>xs. nc = acc @ xs \<and> path_ok E c (cur # xs))",
        OF _ assms])
    fix rp :: "('a, 'b, 'c, 'd) chain_env \<Rightarrow> 'a Chain \<Rightarrow> hash \<Rightarrow> hash list \<Rightarrow> (chain_error + hash list) option"
      and E :: "('a, 'b, 'c, 'd) chain_env" and c cur acc r
    assume ih: "\<And>E c cur acc r. rp E c cur acc = Some r \<Longrightarrow>
        r = Inr nc \<longrightarrow> (\<exists>xs. nc = acc @ xs \<and> path_ok E c (cur # xs))"
      and eq: "(case bs_GetBlock (ce_store E) (ch_store c) cur of
        None \<Rightarrow> Some (Inl (ErrLoadBlock cur))
      | Some block \<Rightarrow>
          if on_main c (hdr_PrevBlock (blk_Header block)) then Some (Inr acc)
          else rp E c (hdr_PrevBlock (blk_Header block)) (acc @ [hdr_PrevBlock (blk_Header block)])) = Some r"
    show "r = Inr nc \<longrightarrow> (\<exists>xs. nc = acc @ xs \<and> path_ok E c (cur # xs))"
    proof
      assume r: "r = Inr nc"
      from eq r obtain b where b: "bs_GetBlock (ce_store E) (ch_store c) cur = Some b" by (auto split: option.splits)
      let ?p = "hdr_PrevBlock (blk_Header b)"
      show "\<exists>xs. nc = acc @ xs \<and> path_ok E c (cur # xs)"
      proof (cases "on_main c ?p")
        case True
        with eq b r show ?thesis by auto
      next
        case False
        with eq b have "rp E c ?p (acc @ [?p]) = Some r" by simp
        from ih [OF this] r obtain xs where "nc = (acc @ [?p]) @ xs" "path_ok E c (?p # xs)" by auto
        with b False show ?thesis by (intro exI [of _ "?p # xs"]) auto
      qed
    qed
  qed
  then show ?thesis by blast
qed

lemma asc_path_append:
  "asc_path E c p (ys @ [x]) \<longleftrightarrow> asc_path E c p ys
     \<and> (\<exists>b. bs_GetBlock (ce_store E) (ch_store c) x = Some b \<and> hdr_PrevBlock (blk_Header b) = (if ys = [] then p else last ys))"
  by (induction ys arbitrary: p) auto

lemma path_ok_asc:
  "path_ok E c xs \<Longrightarrow> \<exists>p b. on_main c p \<and> bs_GetBlock (ce_store E) (ch_store c) (last xs) = Some b
     \<and> hdr_PrevBlock (blk_Header b) = p \<and> asc_path E c p (rev xs) \<and> (\<forall>x \<in> set (tl xs). \<not> on_main c x)"
proof (induction E c xs rule: path_ok.induct)
  case (3 E c x y ys)
  then show ?case using asc_path_append [of E c _ "rev (y # ys)" x] by (auto simp: last_rev)
qed auto

lemma upd_swap: "c\<lparr>ch_utxoSet := U, ch_store := s\<rparr> = c\<lparr>ch_store := s, ch_utxoSet := U\<rparr>"
  by (cases c) simp

locale chain_world = block_store "ce_store E" healthy block_at undo_at
  for E :: "('s, 'sig, 'pk, 'sk) chain_env" and healthy :: "'s \<Rightarrow> bool"
    and block_at :: "'s \<Rightarrow> u32 \<Rightarrow> u32 \<Rightarrow> u32 \<Rightarrow> Block \<Rightarrow> bool"
    and undo_at :: "'s \<Rightarrow> u32 \<Rightarrow> u32 \<Rightarrow> u32 \<Rightarrow> bytes \<Rightarrow> bool" +
  fixes W :: "Block set" and d :: "hash \<Rightarrow> nat" and wk :: "hash \<Rightarrow> int"
  assumes genesis_fine: "genesis_ok (ce_params E)" "par_GenesisBlock (ce_params E) \<in> W"
    and depth_genesis: "d (bhash (par_GenesisBlock (ce_params E))) = 0"
      "wk (bhash (par_GenesisBlock (ce_params E))) = CalcBlockWeight (ce_engine E) (blk_Header (par_GenesisBlock (ce_params E)))"
    and depth: "b \<in> W \<Longrightarrow> b \<noteq> par_GenesisBlock (ce_params E) \<Longrightarrow>
       d (bhash b) = Suc (d (hdr_PrevBlock (blk_Header b))) \<and> d (bhash b) < 2 ^ 32
       \<and> wk (bhash b) = wk (hdr_PrevBlock (blk_Header b)) + CalcBlockWeight (ce_engine E) (blk_Header b)"
    and headers_inj: "inj_on HashBlockHeader (blk_Header ` W)"
    and hash_nonzero: "b \<in> W \<Longrightarrow> b \<noteq> par_GenesisBlock (ce_params E) \<Longrightarrow> bhash b \<noteq> ZeroHash"
    and txs_inj: "inj_on HashTransaction (\<Union>b \<in> W. set (blk_Transactions b))"
    and blocks_ok: "b \<in> W \<Longrightarrow> Block_ok b"
    and range_ok: "finite (dom U) \<Longrightarrow> map_of (ce_range E U) = U \<and> distinct (map fst (ce_range E U))"
begin

abbreviation (input) gen :: Block where "gen \<equiv> par_GenesisBlock (ce_params E)"
abbreviation (input) led :: "Block list \<Rightarrow> utxo_set \<Rightarrow> bool" where "led \<equiv> ledger (ce_lib E) (ce_params E)"
abbreviation (input) idx :: "'s \<Rightarrow> hash \<rightharpoonup> DiskBlockIndex" where "idx \<equiv> bs_GetBlockIndex (ce_store E)"
abbreviation (input) data_at :: "'s \<Rightarrow> DiskBlockIndex \<Rightarrow> Block \<Rightarrow> bool" where
  "data_at s rec b \<equiv> block_at s (dbi_FileNum rec) (dbi_DataPos rec) (dbi_DataSize rec) b"

definition known_block :: "Block \<Rightarrow> bool" where
  "known_block b \<longleftrightarrow> b \<in> W \<and> b \<noteq> gen"

text \<open>A chain of blocks of the world.\<close>

definition chain_of :: "Block list \<Rightarrow> utxo_set \<Rightarrow> bool" where
  "chain_of bs U \<longleftrightarrow> led bs U \<and> set bs \<subseteq> W \<and> (\<forall>n < length bs. 0 < n \<longrightarrow> bs ! n \<noteq> gen)"

lemma chain_of_nonempty: "chain_of bs U \<Longrightarrow> bs \<noteq> []"
  by (auto simp: chain_of_def dest: ledger_nonempty)

lemma chain_of_depth: "chain_of bs U \<Longrightarrow> n < length bs \<Longrightarrow> d (bhash (bs ! n)) = n"
proof (induction n)
  case 0
  then have "bs ! 0 = gen" using ledger_hd [of "ce_lib E" "ce_params E" bs U] chain_of_nonempty [OF 0(1)]
    by (simp add: chain_of_def hd_conv_nth)
  then show ?case using depth_genesis by simp
next
  case (Suc n)
  have "bs ! Suc n \<in> W" "bs ! Suc n \<noteq> gen" using Suc.prems by (auto simp: chain_of_def)
  moreover have "hdr_PrevBlock (blk_Header (bs ! Suc n)) = bhash (bs ! n)"
    using Suc.prems ledger_linked by (auto simp: chain_of_def)
  ultimately show ?case using depth [of "bs ! Suc n"] Suc by simp
qed

lemma chain_of_unique:
  assumes "chain_of bs U" "n < length bs" "m < length bs" "bhash (bs ! n) = bhash (bs ! m)"
  shows "n = m"
  using chain_of_depth [OF assms(1,2)] chain_of_depth [OF assms(1,3)] assms(4) by metis

lemma chain_of_height: "chain_of bs U \<Longrightarrow> length bs \<le> 2 ^ 32"
  using ledger_length by (auto simp: chain_of_def)

lemma chain_of_take: "chain_of bs U \<Longrightarrow> 0 < n \<Longrightarrow> n \<le> length bs \<Longrightarrow> \<exists>V. chain_of (take n bs) V"
  using ledger_take [of "ce_lib E" "ce_params E" bs U n] by (fastforce simp: chain_of_def dest: in_set_takeD)

lemma chain_of_history: "chain_of bs U \<Longrightarrow> inj_on HashTransaction (set (history bs))"
  using txs_inj by (rule inj_on_subset) (auto simp: chain_of_def history_def)

lemma chain_of_fun: "chain_of bs U \<Longrightarrow> chain_of bs V \<Longrightarrow> U = V"
  using ledger_functional by (auto simp: chain_of_def)

text \<open>A location of undo data that belongs to the last block of a chain.\<close>

definition undo_for :: "'s \<Rightarrow> DiskBlockIndex \<Rightarrow> Block list \<Rightarrow> Block \<Rightarrow> bool" where
  "undo_for s rec bs b \<longleftrightarrow> (\<exists>V undo U. chain_of bs V \<and> ConnectBlock V b (of_nat (length bs)) None = Inr (undo, U)
     \<and> undo_at s (dbi_UndoFile rec) (dbi_UndoPos rec) (dbi_UndoSize rec) (SerializeUndoData undo))"

lemma undo_for_read:
  assumes "undo_for s rec bs b" "bs_ReadUndo (ce_store E) s (dbi_UndoFile rec) (dbi_UndoPos rec) (dbi_UndoSize rec) = Some u"
    and "DeserializeUndoData u = Inr undo" "chain_of (bs @ [b]) U" "bs \<noteq> []"
  shows "chain_of bs (DisconnectBlock U b undo)"
proof -
  from assms(1) obtain V undo' U' where v: "chain_of bs V" "ConnectBlock V b (of_nat (length bs)) None = Inr (undo', U')"
    and u: "undo_at s (dbi_UndoFile rec) (dbi_UndoPos rec) (dbi_UndoSize rec) (SerializeUndoData undo')"
    by (auto simp: undo_for_def)
  have "u = SerializeUndoData undo'" using ReadUndo_at [OF u assms(2)] .
  moreover have "length (SerializeUndoData undo') < 2 ^ 63" using undo_at_length [OF u] by simp
  ultimately have un: "undo = undo'" using assms(3) DeserializeUndoData_Serialize by simp
  from assms(4) have l: "led (bs @ [b]) U" by (simp add: chain_of_def)
  from ledger_snocD [OF l assms(5)] obtain V2 mtp fees undo2 where v2: "led bs V2"
    "ConnectBlock V2 b (of_nat (length bs)) None = Inr (undo2, U)" by blast
  have "V2 = V" using v(1) v2(1) ledger_functional by (auto simp: chain_of_def)
  with v(2) v2(2) have "undo2 = undo'" "U' = U" by simp_all
  with v2 \<open>V2 = V\<close> have "DisconnectBlock U b undo' = V"
    using ledger_disconnect [OF l assms(5) genesis_fine(1) chain_of_history [OF assms(4)]] by simp
  with v(1) un show ?thesis by simp
qed

section \<open>The invariant\<close>

definition rec_ok :: "'s \<Rightarrow> hash \<Rightarrow> DiskBlockIndex \<Rightarrow> bool" where
  "rec_ok s h rec \<longleftrightarrow> HashBlockHeader (dbi_Header rec) = h \<and> unat (dbi_Height rec) = d h \<and> dbi_ChainWork rec = wk h
     \<and> (\<exists>b \<in> W. blk_Header b = dbi_Header rec \<and> data_at s rec b
         \<and> (b = gen \<or> ValidateBlockStructure b (dbi_Height rec) (ce_params E) None None = Inr ()))"

definition index_fine :: "'s \<Rightarrow> bool" where
  "index_fine s \<longleftrightarrow> (\<forall>h rec. idx s h = Some rec \<longrightarrow> rec_ok s h rec)"

definition stored :: "'s \<Rightarrow> Block list \<Rightarrow> bool" where
  "stored s bs \<longleftrightarrow> (\<forall>n < length bs. \<forall>rec. idx s (bhash (bs ! n)) = Some rec \<longrightarrow>
     data_at s rec (bs ! n) \<and> (0 < n \<longrightarrow> undo_for s rec (take n bs) (bs ! n)))"

text \<open>
  \<open>mid c base pre\<close>: the state in the middle of a reorganisation, when the UTXO set belongs to the chain \<open>pre\<close> and the
  maps still hold the entries of the old chain \<open>base\<close> above it.
\<close>

definition height_map :: "Block list \<Rightarrow> Block list \<Rightarrow> nat \<Rightarrow> hash option" where
  "height_map pre base n =
     (if n < length pre then Some (bhash (pre ! n)) else if n < length base then Some (bhash (base ! n)) else None)"

definition maps_ok :: "'s Chain \<Rightarrow> Block list \<Rightarrow> Block list \<Rightarrow> bool" where
  "maps_ok c base pre \<longleftrightarrow> (\<forall>n. ch_hashByHeight c n = height_map pre base (unat n))
     \<and> (\<forall>n < length pre. ch_heightByHash c (bhash (pre ! n)) = Some (of_nat n))
     \<and> (\<forall>h n. ch_heightByHash c h = Some n \<longrightarrow> unat n = d h \<and> h \<in> bhash ` W)"

definition mid :: "'s Chain \<Rightarrow> Block list \<Rightarrow> Block list \<Rightarrow> bool" where
  "mid c base pre \<longleftrightarrow> index_fine (ch_store c) \<and> stored (ch_store c) pre \<and> chain_of pre (ch_utxoSet c) \<and> maps_ok c base pre"

definition orphans_ok :: "'s Chain \<Rightarrow> bool" where
  "orphans_ok c \<longleftrightarrow> distinct (map fst (ch_orphans c))
     \<and> (\<forall>(h, ob) \<in> set (ch_orphans c). h = bhash (ob_block ob) \<and> known_block (ob_block ob))"

definition chain_ok :: "'s Chain \<Rightarrow> Block list \<Rightarrow> bool" where
  "chain_ok c bs \<longleftrightarrow> mid c bs bs \<and> ch_tipHash c = bhash (last bs) \<and> Suc (unat (ch_tipHeight c)) = length bs
     \<and> ch_tipWork c = wk (ch_tipHash c) \<and> orphans_ok c"

definition main_hash :: "Block list \<Rightarrow> hash \<Rightarrow> bool" where
  "main_hash bs h \<longleftrightarrow> (\<exists>n < length bs. bhash (bs ! n) = h)"

lemma unat_of_nat_height: "chain_of bs U \<Longrightarrow> n < length bs \<Longrightarrow> unat (of_nat n :: u32) = n"
  using chain_of_height [of bs U] by (simp add: unat_of_nat)

lemma gen_main: "chain_of bs U \<Longrightarrow> main_hash bs (bhash gen)"
  using ledger_hd [of "ce_lib E" "ce_params E" bs U] chain_of_nonempty [of bs U]
  by (auto simp: main_hash_def chain_of_def hd_conv_nth intro!: exI [of _ 0])

lemma on_main_iff:
  assumes "maps_ok c bs bs" "chain_of bs U"
  shows "on_main c h \<longleftrightarrow> main_hash bs h"
proof
  assume "on_main c h"
  then obtain n where n: "ch_heightByHash c h = Some n" "hash_at (ch_hashByHeight c) n = h"
    by (auto simp: on_main_def split: option.splits)
  with assms(1) have "h \<in> bhash ` W" by (auto simp: maps_ok_def)
  then obtain b where b: "h = bhash b" "b \<in> W" by auto
  show "main_hash bs h"
  proof (cases "b = gen")
    case True
    with gen_main [OF assms(2)] b show ?thesis by simp
  next
    case False
    with b hash_nonzero have "h \<noteq> ZeroHash" by auto
    with n(2) have "ch_hashByHeight c n = Some h" by (auto simp: hash_at_def split: option.splits)
    with assms(1) show ?thesis by (auto simp: maps_ok_def height_map_def main_hash_def split: if_splits)
  qed
next
  assume "main_hash bs h"
  then obtain n where n: "n < length bs" "bhash (bs ! n) = h" by (auto simp: main_hash_def)
  then have "ch_heightByHash c h = Some (of_nat n)" "ch_hashByHeight c (of_nat n) = Some h"
    using assms(1) unat_of_nat_height [OF assms(2) n(1)] by (auto simp: maps_ok_def height_map_def)
  then show "on_main c h" by (simp add: on_main_def hash_at_def)
qed

text \<open>What the store returns for a hash.\<close>

lemma GetBlock_fine:
  assumes "index_fine s" "bs_GetBlock (ce_store E) s h = Some b"
  obtains rec where "idx s h = Some rec" "data_at s rec b" "b \<in> W" "bhash b = h" "unat (dbi_Height rec) = d h"
    "b = gen \<or> ValidateBlockStructure b (dbi_Height rec) (ce_params E) None None = Inr ()"
proof -
  from GetBlock_index [OF assms(2)] obtain rec where rec: "idx s h = Some rec" by blast
  with assms(1) have ok: "rec_ok s h rec" by (auto simp: index_fine_def)
  then obtain b' where b': "b' \<in> W" "data_at s rec b'" "b' = gen \<or> ValidateBlockStructure b' (dbi_Height rec) (ce_params E) None None = Inr ()"
    by (auto simp: rec_ok_def)
  from GetBlock_at [OF assms(2) rec b'(2)] b' rec ok that show ?thesis by (auto simp: rec_ok_def)
qed

section \<open>The trial\<close>

lemma set_block_at:
  assumes "mid c bs bs" "m < length bs" "bs_GetBlock (ce_store E) (ch_store c) (bhash (bs ! m)) = Some b"
    and "idx (ch_store c) (bhash (bs ! m)) = Some rec"
  shows "b = bs ! m" "0 < m \<Longrightarrow> undo_for (ch_store c) rec (take m bs) b"
proof -
  from assms(1,2,4) have "data_at (ch_store c) rec (bs ! m)" "0 < m \<Longrightarrow> undo_for (ch_store c) rec (take m bs) (bs ! m)"
    unfolding mid_def stored_def by blast+
  with GetBlock_at(1) [OF assms(3,4)] show "b = bs ! m" "0 < m \<Longrightarrow> undo_for (ch_store c) rec (take m bs) b" by auto
qed

lemma trial_disconnect_chain:
  assumes "mid c bs bs" "0 < k" "k \<le> m" "m \<le> length bs" "chain_of (take m bs) U"
    and "trial_disconnect E c (rev (map of_nat [k..<m])) U = Inr V"
  shows "chain_of (take k bs) V"
  using assms(3-6)
proof (induction m arbitrary: U)
  case (Suc m)
  show ?case
  proof (cases "k = Suc m")
    case False
    then have k: "k \<le> m" using Suc.prems(1) by simp
    let ?h = "bhash (bs ! m)"
    have m: "m < length bs" using Suc.prems(2) by simp
    have U: "chain_of bs (ch_utxoSet c)" using assms(1) by (simp add: mid_def)
    have "ch_hashByHeight c (of_nat m) = Some ?h"
      using assms(1) m unat_of_nat_height [OF U m] by (simp add: mid_def maps_ok_def height_map_def)
    with Suc.prems(4) k obtain b rec undo where
      b: "bs_GetBlock (ce_store E) (ch_store c) ?h = Some b" "idx (ch_store c) ?h = Some rec"
      and undo: "load_undo E c rec (of_nat m) = Inr undo"
      and rest: "trial_disconnect E c (rev (map of_nat [k..<m])) (DisconnectBlock U b undo) = Inr V"
      by (auto split: if_splits)
    from undo obtain u where u: "bs_ReadUndo (ce_store E) (ch_store c) (dbi_UndoFile rec) (dbi_UndoPos rec) (dbi_UndoSize rec) = Some u"
      "DeserializeUndoData u = Inr undo" by (auto simp: load_undo_def)
    note bm = set_block_at [OF assms(1) m b]
    have "0 < m" using assms(2) k by simp
    have ne: "take m bs \<noteq> []" using m \<open>0 < m\<close> by auto
    have "chain_of (take m bs @ [b]) U" using Suc.prems(3) m bm(1) by (simp add: take_Suc_conv_app_nth)
    from undo_for_read [OF bm(2) [OF \<open>0 < m\<close>] u this ne] have "chain_of (take m bs) (DisconnectBlock U b undo)" .
    from Suc.IH [OF k _ this rest] m show ?thesis by simp
  qed (use Suc.prems in simp)
qed simp

lemma trial_connect_chain:
  assumes "index_fine (ch_store c)" "chain_of pre V" "asc_path E c (bhash (last pre)) ys" "bhash gen \<notin> set ys"
    and "trial_connect E c (of_nat (length pre)) ys V = Inr trs"
  shows "\<exists>U. chain_of (pre @ map tr_block trs) U \<and> map tr_hash trs = ys
     \<and> map tr_height trs = map of_nat [length pre..<length pre + length trs]
     \<and> (\<forall>tr \<in> set trs. bs_GetBlock (ce_store E) (ch_store c) (tr_hash tr) = Some (tr_block tr) \<and> tr_block tr \<noteq> gen)"
  using assms(2-5)
proof (induction ys arbitrary: pre V trs)
  case (Cons y ys)
  from Cons.prems(4) obtain b mtp fees undo U' rest where
    b: "bs_GetBlock (ce_store E) (ch_store c) y = Some b"
    and inp: "ValidateTransactionInputs (ce_lib E) b V (of_nat (length pre)) (ce_params E) mtp None = Inr fees"
    and con: "ConnectBlock V b (of_nat (length pre)) None = Inr (undo, U')"
    and rest: "trial_connect E c (of_nat (length pre) + 1) ys U' = Inr rest"
    and trs: "trs = \<lparr>tr_hash = y, tr_height = of_nat (length pre), tr_block = b\<rparr> # rest"
    by (auto simp: Let_def)
  obtain rec where "idx (ch_store c) y = Some rec" "data_at (ch_store c) rec b"
    and rec: "b \<in> W" "bhash b = y" "unat (dbi_Height rec) = d y"
      "b = gen \<or> ValidateBlockStructure b (dbi_Height rec) (ce_params E) None None = Inr ()"
    by (rule GetBlock_fine [OF assms(1) b])
  have ng: "b \<noteq> gen" using rec(2) Cons.prems(3) by auto
  have prev: "hdr_PrevBlock (blk_Header b) = bhash (last pre)" and asc: "asc_path E c y ys" using Cons.prems(2) b by auto
  have ne: "pre \<noteq> []" using chain_of_nonempty [OF Cons.prems(1)] .
  have "d (bhash (last pre)) = length pre - 1"
    using chain_of_depth [OF Cons.prems(1), of "length pre - 1"] ne by (simp add: last_conv_nth)
  with depth [OF rec(1) ng] prev ne have dy: "d y = length pre" "length pre < 2 ^ 32" by (auto simp: rec(2))
  then have ht: "dbi_Height rec = of_nat (length pre)" using rec(3) by (simp add: word_unat_eq_iff unat_of_nat)
  have "led (pre @ [b]) U'"
    using Cons.prems(1) dy(2) prev rec(4) ng inp con unfolding ht chain_of_def by (intro ledger.extend) auto
  then have ch: "chain_of (pre @ [b]) U'"
    using Cons.prems(1) rec(1) ng by (auto simp: chain_of_def nth_append less_Suc_eq)
  have "(of_nat (length pre) :: u32) + 1 = of_nat (length (pre @ [b]))" by simp
  from Cons.IH [OF ch _ _ rest [unfolded this]] asc rec(2) Cons.prems(3) obtain U where
    "chain_of ((pre @ [b]) @ map tr_block rest) U" "map tr_hash rest = ys"
    "map tr_height rest = map of_nat [length (pre @ [b])..<length (pre @ [b]) + length rest]"
    "\<forall>tr \<in> set rest. bs_GetBlock (ce_store E) (ch_store c) (tr_hash tr) = Some (tr_block tr) \<and> tr_block tr \<noteq> gen" by auto
  moreover have "[length pre..<length pre + length trs] = length pre # [length (pre @ [b])..<length (pre @ [b]) + length rest]"
    by (simp add: trs upt_rec)
  ultimately show ?case using b ng by (auto simp: trs)
qed auto

section \<open>The clone\<close>

lemma chain_of_keys: "chain_of bs U \<Longrightarrow> U k = Some e \<Longrightarrow> \<exists>h i. k = OutpointKey h i"
proof -
  assume c: "chain_of bs U" and k: "U k = Some e"
  then have "dom U \<subseteq> okeys (history bs)"
    using ledger_history [of "ce_lib E" "ce_params E" bs U] genesis_fine(1) chain_of_history [OF c]
    by (simp add: history_ok_def chain_of_def)
  with k have "k \<in> okeys (history bs)" by blast
  then show ?thesis by (auto simp: okeys_iff)
qed

lemma chain_of_finite: "chain_of bs U \<Longrightarrow> finite (dom U)"
  using ledger_supply by (auto simp: chain_of_def)

lemma clone_same:
  assumes "chain_of bs U"
  shows "cloneUtxoSet E U = U"
proof -
  let ?f = "\<lambda>dst (key, entry). Set_Add dst (hash_copy (take 32 key)) (get_le (drop 32 key)) entry"
  have add: "Set_Add dst (hash_copy (take 32 k)) (get_le (drop 32 k)) e = dst(k \<mapsto> e)" if "\<exists>h i. k = OutpointKey h i" for dst k e
    using that by (auto simp: Set_Add_def OutpointKey_def hash_copy_hash_bytes)
  have fold: "foldl ?f dst es = dst ++ map_of es"
    if "\<forall>(k, e) \<in> set es. \<exists>h i. k = OutpointKey h i" "distinct (map fst es)" for dst es
    using that
  proof (induction es arbitrary: dst)
    case (Cons x es)
    obtain k e where x: "x = (k, e)" by fastforce
    have "map_of es k = None" using Cons.prems(2) x by (simp add: map_of_eq_None_iff)
    with Cons add x show ?case by (auto simp: map_add_def fun_eq_iff split: option.splits)
  qed simp
  note r = range_ok [OF chain_of_finite [OF assms]]
  have "\<forall>(k, e) \<in> set (ce_range E U). \<exists>h i. k = OutpointKey h i"
    using r chain_of_keys [OF assms] by (metis (mono_tags, lifting) case_prodI2 map_of_is_SomeI)
  with fold [of "ce_range E U" NewSet] r show ?thesis by (simp add: cloneUtxoSet_def NewSet_def)
qed

section \<open>The commit\<close>

lemma keeps_data: "keeps block_at undo_at s s' \<Longrightarrow> data_at s rec b \<Longrightarrow> data_at s' rec b"
  by (auto simp: keeps_def)

lemma keeps_undo_for: "keeps block_at undo_at s s' \<Longrightarrow> undo_for s rec bs b \<Longrightarrow> undo_for s' rec bs b"
  unfolding undo_for_def keeps_def by blast

lemma keeps_rec_ok: "keeps block_at undo_at s s' \<Longrightarrow> rec_ok s h rec \<Longrightarrow> rec_ok s' h rec"
  unfolding rec_ok_def using keeps_data by blast

text \<open>An operation that does not touch the index keeps the invariant of the store.\<close>

lemma keeps_store:
  assumes "keeps block_at undo_at s s'" "idx s' = idx s"
  shows "index_fine s \<Longrightarrow> index_fine s'" "stored s bs \<Longrightarrow> stored s' bs"
  using assms keeps_rec_ok keeps_data keeps_undo_for unfolding index_fine_def stored_def by metis+

lemma put_index_fine:
  assumes "keeps block_at undo_at s s'" "idx s' = (idx s)(h \<mapsto> rec)" "index_fine s" "rec_ok s h rec"
  shows "index_fine s'"
  using assms keeps_rec_ok unfolding index_fine_def by (metis fun_upd_apply option.inject)

lemma put_index_stored:
  assumes "keeps block_at undo_at s s'" "idx s' = (idx s)(h := x)" "stored s bs" "\<not> main_hash bs h"
  shows "stored s' bs"
  unfolding stored_def
proof (intro allI impI)
  fix n rec
  assume n: "n < length bs" "idx s' (bhash (bs ! n)) = Some rec"
  with assms(2,4) have "idx s (bhash (bs ! n)) = Some rec" by (auto simp: main_hash_def split: if_splits)
  with assms(3) n(1) have "data_at s rec (bs ! n) \<and> (0 < n \<longrightarrow> undo_for s rec (take n bs) (bs ! n))" unfolding stored_def by blast
  then show "data_at s' rec (bs ! n) \<and> (0 < n \<longrightarrow> undo_for s' rec (take n bs) (bs ! n))"
    using keeps_data [OF assms(1)] keeps_undo_for [OF assms(1)] by blast
qed

text \<open>A failed write stays visible: when the state after an operation is healthy, the state before was.\<close>

definition hback :: "('s, 'a) chain_op \<Rightarrow> bool" where
  "hback m \<longleftrightarrow> (\<forall>c r c'. m c = Some (r, c') \<longrightarrow> healthy (ch_store c') \<longrightarrow> healthy (ch_store c))"

lemma backD: "hback m \<Longrightarrow> m c = Some (r, c') \<Longrightarrow> healthy (ch_store c') \<Longrightarrow> healthy (ch_store c)"
  by (auto simp: hback_def)

lemma back_basic [simp]: "hback (sret x)" "hback (sfail e)" "hback (slift r)"
  by (simp_all add: hback_def sret_def sfail_def slift_def)

lemma back_upd [simp]: "\<forall>c. healthy (ch_store (f c)) \<longrightarrow> healthy (ch_store c) \<Longrightarrow> hback (supd f)"
  by (simp add: hback_def supd_def)

lemma back_bind [simp]: "hback m \<Longrightarrow> \<forall>x. hback (f x) \<Longrightarrow> hback (sbind m f)"
  unfolding hback_def sbind_def by (fastforce split: option.splits sum.splits)

lemma back_with [simp]: "\<forall>c. hback (f c) \<Longrightarrow> hback (swith f)"
  by (auto simp: hback_def swith_def)

lemma back_on_error [simp]:
  "hback m \<Longrightarrow> \<forall>e c. healthy (ch_store (f e c)) \<longrightarrow> healthy (ch_store c) \<Longrightarrow> hback (on_error m f)"
  unfolding hback_def on_error_def by (fastforce split: option.splits sum.splits)

lemma back_store_op: "(\<And>s r s'. f s = (r, s') \<Longrightarrow> healthy s' \<Longrightarrow> healthy s) \<Longrightarrow> hback (store_op e f)"
  by (auto simp: hback_def store_op_def split: prod.splits)

lemma back_store [simp]:
  "hback (store_op e (bs_WriteBlock (ce_store E) sync h b))"
  "hback (store_op e (bs_WriteUndo (ce_store E) sync f u))"
  "hback (store_op e (bs_PutBlockIndex (ce_store E) sync h rec))"
  "hback (store_op e (bs_PutChainTip (ce_store E) sync h n))"
  "hback (store_op e (bs_FlushUtxoBatch (ce_store E) sync ops))"
  by (rule back_store_op, drule (1) WriteBlock_law, simp)
    (rule back_store_op, drule (1) WriteUndo_law, simp,
     rule back_store_op, drule (1) PutBlockIndex_law, simp,
     rule back_store_op, drule (1) PutChainTip_law, simp,
     rule back_store_op, drule (1) FlushUtxoBatch_law, simp)

lemma back_persist [simp]: "hback (persistUtxoChanges E sync b undo h)" "hback (persistUtxoDisconnect E b undo h)"
  by (simp_all add: persistUtxoChanges_def persistUtxoDisconnect_def)

lemma back_rollback [simp]: "hback (supd (rollback_utxos b undo))"
  by (simp add: rollback_utxos_def)

lemma back_connect_utxos [simp]: "hback (connect_utxos b h)"
  by (auto simp: connect_utxos_def split: sum.split)

lemma back_live_disconnect [simp]: "hback (live_disconnect E hs)"
  by (induction hs) simp_all

lemma back_live_connect [simp]: "hback (live_connect_block E tr)" "hback (live_connect E trs)"
proof -
  show one: "hback (live_connect_block E tr)" for tr by (simp add: live_connect_block_def)
  show "hback (live_connect E trs)" by (induction trs) (simp_all add: one)
qed

text \<open>Disconnecting on the live state follows the trial.\<close>

lemma load_undo_frame:
  "bs_ReadUndo (ce_store E) (ch_store c') = bs_ReadUndo (ce_store E) (ch_store c) \<Longrightarrow> load_undo E c' rec h = load_undo E c rec h"
  by (simp add: load_undo_def)

lemma trial_disconnect_frame:
  assumes "idx (ch_store c') = idx (ch_store c)" "bs_GetBlock (ce_store E) (ch_store c') = bs_GetBlock (ce_store E) (ch_store c)"
    "bs_ReadUndo (ce_store E) (ch_store c') = bs_ReadUndo (ce_store E) (ch_store c)" "ch_hashByHeight c' = ch_hashByHeight c"
  shows "trial_disconnect E c' hs U = trial_disconnect E c hs U"
  using load_undo_frame [OF assms(3)] by (induction hs arbitrary: U) (simp_all add: assms cong: if_cong)

lemma live_disconnect_follows:
  assumes "trial_disconnect E c hs (ch_utxoSet c) = Inr V" "live_disconnect E hs c = Some (r, c')" "healthy (ch_store c')"
  shows "r = Inr () \<and> (\<exists>s'. c' = c\<lparr>ch_store := s', ch_utxoSet := V\<rparr>
     \<and> keeps block_at undo_at (ch_store c) s' \<and> idx s' = idx (ch_store c)
     \<and> bs_GetBlock (ce_store E) s' = bs_GetBlock (ce_store E) (ch_store c))"
  using assms
proof (induction hs arbitrary: c)
  case Nil
  then show ?case by (intro conjI exI [of _ "ch_store c"]) (auto simp: sret_def)
next
  case (Cons h hs)
  let ?s = "ch_store c"
  from Cons.prems(1) obtain blockHash b rec undo where
    rd: "ch_hashByHeight c h = Some blockHash" "bs_GetBlock (ce_store E) ?s blockHash = Some b" "idx ?s blockHash = Some rec"
      "load_undo E c rec h = Inr undo"
    and rest: "trial_disconnect E c hs (DisconnectBlock (ch_utxoSet c) b undo) = Inr V"
    by (auto split: if_splits)
  let ?U = "DisconnectBlock (ch_utxoSet c) b undo"
  obtain ops where ops: "persistUtxoDisconnect E b undo (hdr_PrevBlock (blk_Header b))
      = store_op ErrPersist (bs_FlushUtxoBatch (ce_store E) True ops)"
    unfolding persistUtxoDisconnect_def by blast
  obtain r1 s1 where fl: "bs_FlushUtxoBatch (ce_store E) True ops ?s = (r1, s1)" by fastforce
  let ?c1 = "c\<lparr>ch_store := s1, ch_utxoSet := ?U\<rparr>"
  have step: "live_disconnect E (h # hs) c = (case r1 of None \<Rightarrow> Some (Inl ErrPersist, ?c1) | Some _ \<Rightarrow> live_disconnect E hs ?c1)"
    using rd fl by (simp add: swith_def sbind_def slift_def supd_def rollback_utxos_def ops store_op_def opt_err_def
        upd_swap split: option.splits)
  have "healthy s1"
  proof (cases r1)
    case (Some u)
    with step Cons.prems(2) have "live_disconnect E hs ?c1 = Some (r, c')" by simp
    from backD [OF back_live_disconnect this Cons.prems(3)] show ?thesis by simp
  qed (use step Cons.prems(2,3) in auto)
  note law = FlushUtxoBatch_law [OF fl this]
  then have "live_disconnect E hs ?c1 = Some (r, c')" using step Cons.prems(2) by simp
  moreover have "trial_disconnect E ?c1 hs (ch_utxoSet ?c1) = Inr V"
    using trial_disconnect_frame [of ?c1 c hs] law rest by simp
  ultimately obtain s' where "r = Inr ()" "c' = ?c1\<lparr>ch_store := s', ch_utxoSet := V\<rparr>" "keeps block_at undo_at s1 s'" "idx s' = idx s1"
    "bs_GetBlock (ce_store E) s' = bs_GetBlock (ce_store E) s1" using Cons.IH [of ?c1] Cons.prems(3) by auto
  with law keeps_trans show ?case by (intro conjI exI [of _ s']) (auto simp: upd_swap)
qed

text \<open>Running a storage operation as the first step: it succeeds, and its law holds for the state the rest starts from.\<close>

lemma bind_store:
  assumes run: "sbind (store_op e g) f c = Some (r, c')" and h: "healthy (ch_store c')" and f: "\<forall>x. hback (f x)"
    and law: "\<And>x s'. g (ch_store c) = (x, s') \<Longrightarrow> healthy s' \<Longrightarrow> x \<noteq> None \<and> P (the x) s'"
  shows "\<exists>x s'. f x (c\<lparr>ch_store := s'\<rparr>) = Some (r, c') \<and> healthy s' \<and> P x s'"
proof -
  obtain x s1 where g: "g (ch_store c) = (x, s1)" by fastforce
  show ?thesis
  proof (cases x)
    case None
    with g run have "c' = c\<lparr>ch_store := s1\<rparr>" by (simp add: sbind_def store_op_def opt_err_def)
    with h law [OF g] None show ?thesis by simp
  next
    case (Some y)
    with g run have y: "f y (c\<lparr>ch_store := s1\<rparr>) = Some (r, c')" by (simp add: sbind_def store_op_def opt_err_def)
    from backD [OF f [rule_format] this h] have "healthy s1" by simp
    with law [OF g] Some y show ?thesis by auto
  qed
qed

lemma bind_store_unit:
  fixes f :: "unit \<Rightarrow> ('s, 'a) chain_op"
  assumes "sbind (store_op e g) f c = Some (r, c')" "healthy (ch_store c')" "\<forall>x. hback (f x)"
    and "\<And>x s'. g (ch_store c) = (x, s') \<Longrightarrow> healthy s' \<Longrightarrow> x = Some () \<and> P s'"
  shows "\<exists>s'. f () (c\<lparr>ch_store := s'\<rparr>) = Some (r, c') \<and> healthy s' \<and> P s'"
  using bind_store [OF assms(1-3), of "\<lambda>_. P"] assms(4) by force

lemma bind_WriteBlock:
  assumes "sbind (store_op e (bs_WriteBlock (ce_store E) sync h b)) f c = Some (r, c')" "healthy (ch_store c')" "\<forall>x. hback (f x)"
  shows "\<exists>loc s'. f loc (c\<lparr>ch_store := s'\<rparr>) = Some (r, c') \<and> healthy s' \<and> keeps block_at undo_at (ch_store c) s'
     \<and> idx s' = idx (ch_store c) \<and> (Block_ok b \<longrightarrow> block_at s' (fst loc) (fst (snd loc)) (snd (snd loc)) b)"
  by (rule bind_store [OF assms, of "\<lambda>loc s'. keeps block_at undo_at (ch_store c) s' \<and> idx s' = idx (ch_store c)
      \<and> (Block_ok b \<longrightarrow> block_at s' (fst loc) (fst (snd loc)) (snd (snd loc)) b)"], drule (1) WriteBlock_law) auto

lemma bind_WriteUndo:
  assumes "sbind (store_op e (bs_WriteUndo (ce_store E) sync f u)) g c = Some (r, c')" "healthy (ch_store c')" "\<forall>x. hback (g x)"
  shows "\<exists>loc s'. g loc (c\<lparr>ch_store := s'\<rparr>) = Some (r, c') \<and> healthy s' \<and> keeps block_at undo_at (ch_store c) s'
     \<and> idx s' = idx (ch_store c) \<and> undo_at s' f (fst loc) (snd loc) u"
  by (rule bind_store [OF assms, of "\<lambda>loc s'. keeps block_at undo_at (ch_store c) s' \<and> idx s' = idx (ch_store c)
      \<and> undo_at s' f (fst loc) (snd loc) u"], drule (1) WriteUndo_law) auto

lemma bind_PutBlockIndex:
  assumes "sbind (store_op e (bs_PutBlockIndex (ce_store E) sync h rec)) g c = Some (r, c')" "healthy (ch_store c')" "\<forall>x. hback (g x)"
  shows "\<exists>s'. g () (c\<lparr>ch_store := s'\<rparr>) = Some (r, c') \<and> healthy s' \<and> keeps block_at undo_at (ch_store c) s'
     \<and> idx s' = (idx (ch_store c))(h \<mapsto> rec)"
  by (rule bind_store_unit [OF assms, of "\<lambda>s'. keeps block_at undo_at (ch_store c) s' \<and> idx s' = (idx (ch_store c))(h \<mapsto> rec)"],
      drule (1) PutBlockIndex_law) simp

lemma bind_PutChainTip:
  assumes "sbind (store_op e (bs_PutChainTip (ce_store E) sync h n)) g c = Some (r, c')" "healthy (ch_store c')" "\<forall>x. hback (g x)"
  shows "\<exists>s'. g () (c\<lparr>ch_store := s'\<rparr>) = Some (r, c') \<and> healthy s' \<and> keeps block_at undo_at (ch_store c) s' \<and> idx s' = idx (ch_store c)"
  by (rule bind_store_unit [OF assms, of "\<lambda>s'. keeps block_at undo_at (ch_store c) s' \<and> idx s' = idx (ch_store c)"],
      drule (1) PutChainTip_law) simp

lemma bind_persist:
  assumes "sbind (persistUtxoChanges E sync b undo h) g c = Some (r, c')" "healthy (ch_store c')" "\<forall>x. hback (g x)"
  shows "\<exists>s'. g () (c\<lparr>ch_store := s'\<rparr>) = Some (r, c') \<and> healthy s' \<and> keeps block_at undo_at (ch_store c) s' \<and> idx s' = idx (ch_store c)"
proof -
  obtain ops where "persistUtxoChanges E sync b undo h c = store_op ErrPersist (bs_FlushUtxoBatch (ce_store E) sync ops) c"
    by (auto simp: persistUtxoChanges_def swith_def)
  with assms(1) have "sbind (store_op ErrPersist (bs_FlushUtxoBatch (ce_store E) sync ops)) g c = Some (r, c')"
    by (simp add: sbind_def)
  then show ?thesis
    by (rule bind_store_unit [where P = "\<lambda>s'. keeps block_at undo_at (ch_store c) s' \<and> idx s' = idx (ch_store c)", OF _ assms(2,3)])
      (drule (1) FlushUtxoBatch_law, simp)
qed

section \<open>Connecting the new chain\<close>

text \<open>The part of the state that connecting and disconnecting blocks leaves alone.\<close>

definition same_rest :: "'s Chain \<Rightarrow> 's Chain \<Rightarrow> bool" where
  "same_rest c c' \<longleftrightarrow> ch_tipHash c' = ch_tipHash c \<and> ch_tipHeight c' = ch_tipHeight c \<and> ch_tipWork c' = ch_tipWork c
     \<and> ch_orphans c' = ch_orphans c \<and> ch_ibdMode c' = ch_ibdMode c"

lemma height_map_snoc:
  "height_map (pre @ [b]) base n = (if n = length pre then Some (bhash b) else height_map pre base n)"
  by (auto simp: height_map_def nth_append)

lemma chain_of_snocD:
  assumes "chain_of (pre @ [b]) U" "chain_of pre V"
  shows "\<exists>undo. ConnectBlock V b (of_nat (length pre)) None = Inr (undo, U)" "b \<in> W" "b \<noteq> gen" "length pre < 2 ^ 32"
proof -
  have ne: "pre \<noteq> []" using chain_of_nonempty [OF assms(2)] .
  from assms(1) have l: "led (pre @ [b]) U" by (simp add: chain_of_def)
  from ledger_snocD [OF l ne] obtain V2 mtp fees undo where v: "led pre V2" "length pre < 2 ^ 32"
    "ConnectBlock V2 b (of_nat (length pre)) None = Inr (undo, U)" by blast
  moreover have "V2 = V" using v(1) assms(2) ledger_functional by (auto simp: chain_of_def)
  ultimately show "\<exists>undo. ConnectBlock V b (of_nat (length pre)) None = Inr (undo, U)" "length pre < 2 ^ 32" by auto
  show "b \<in> W" using assms(1) by (auto simp: chain_of_def)
  have "(pre @ [b]) ! length pre \<noteq> gen" using assms(1) ne unfolding chain_of_def by (metis length_append_singleton length_greater_0_conv lessI)
  then show "b \<noteq> gen" by simp
qed

lemma maps_ok_extend:
  assumes "maps_ok c base pre" "chain_of (pre @ [b]) U" "length pre < 2 ^ 32"
    and "ch_hashByHeight c' = (ch_hashByHeight c)(of_nat (length pre) \<mapsto> bhash b)"
    and "ch_heightByHash c' = (ch_heightByHash c)(bhash b \<mapsto> of_nat (length pre))"
  shows "maps_ok c' base (pre @ [b])"
proof -
  have len: "unat (of_nat (length pre) :: u32) = length pre" using assms(3) by (simp add: unat_of_nat)
  have d: "d (bhash b) = length pre" using chain_of_depth [OF assms(2), of "length pre"] by simp
  have "ch_hashByHeight c' n = height_map (pre @ [b]) base (unat n)" for n
    using assms(1,4) len by (auto simp: height_map_snoc maps_ok_def word_unat_eq_iff)
  moreover have "ch_heightByHash c' (bhash ((pre @ [b]) ! n)) = Some (of_nat n)" if n: "n < length (pre @ [b])" for n
  proof (cases "n = length pre")
    case False
    then have n': "n < length pre" using n by simp
    have "bhash ((pre @ [b]) ! n) \<noteq> bhash b"
      using chain_of_depth [OF assms(2) n] d False by auto
    with n' assms(1,5) show ?thesis by (simp add: maps_ok_def nth_append)
  qed (use assms(5) in simp)
  moreover have "unat n = d h \<and> h \<in> bhash ` W" if "ch_heightByHash c' h = Some n" for h n
    using that assms(1,2,5) d len by (auto simp: maps_ok_def chain_of_def split: if_splits)
  ultimately show ?thesis unfolding maps_ok_def by blast
qed

lemma stored_snoc:
  assumes "stored s pre" "chain_of pre V" "chain_of (pre @ [b]) U" "ConnectBlock V b (of_nat (length pre)) None = Inr (undo, U)"
    and "keeps block_at undo_at s s'" "idx s' = (idx s)(bhash b \<mapsto> rec)" "data_at s' rec b"
    and "undo_at s' (dbi_UndoFile rec) (dbi_UndoPos rec) (dbi_UndoSize rec) (SerializeUndoData undo)"
  shows "stored s' (pre @ [b])"
proof -
  have ne: "\<not> main_hash pre (bhash b)"
  proof
    assume "main_hash pre (bhash b)"
    then obtain n where n: "n < length pre" "bhash (pre ! n) = bhash b" by (auto simp: main_hash_def)
    then have "bhash ((pre @ [b]) ! n) = bhash ((pre @ [b]) ! length pre)" by (simp add: nth_append)
    from chain_of_unique [OF assms(3) _ _ this] n(1) show False by simp
  qed
  have old: "stored s' pre" using put_index_stored [OF assms(5,6,1) ne] .
  have "undo_for s' rec pre b" using assms(2,4,8) by (auto simp: undo_for_def)
  with old assms(6,7) show ?thesis
    unfolding stored_def by (auto simp: nth_append less_Suc_eq)
qed

lemma rec_ok_with_undo: "rec_ok s h rec \<Longrightarrow> rec_ok s h (with_undo rec loc)"
  by (auto simp: rec_ok_def with_undo_def split: prod.splits)

lemma with_undo_sel [simp]:
  "dbi_FileNum (with_undo rec loc) = dbi_FileNum rec" "dbi_DataPos (with_undo rec loc) = dbi_DataPos rec"
  "dbi_DataSize (with_undo rec loc) = dbi_DataSize rec" "dbi_UndoFile (with_undo rec loc) = dbi_FileNum rec"
  "dbi_UndoPos (with_undo rec loc) = fst loc" "dbi_UndoSize (with_undo rec loc) = snd loc"
  by (simp_all add: with_undo_def split: prod.splits)

lemma connect_utxos_run:
  assumes "ConnectBlock (ch_utxoSet c) b h None = Inr (undo, U)"
  shows "sbind (connect_utxos b h) f c = f undo (c\<lparr>ch_utxoSet := U\<rparr>)"
  using assms by (simp add: connect_utxos_def sbind_def swith_def supd_def sret_def)

lemma with_load:
  "idx (ch_store c) h = Some rec \<Longrightarrow> swith (\<lambda>c. sbind (slift (opt_err e (idx (ch_store c) h))) f) c = f rec c"
  by (simp add: swith_def sbind_def slift_def opt_err_def)

lemma live_connect_block_mid:
  assumes mid: "mid c base pre" and U1: "chain_of (pre @ [tr_block tr]) U"
    and ht: "tr_height tr = of_nat (length pre)" and hb: "bhash (tr_block tr) = tr_hash tr"
    and rec: "idx (ch_store c) (tr_hash tr) = Some rec" "data_at (ch_store c) rec (tr_block tr)"
    and run: "live_connect_block E tr c = Some (r, c')" and h: "healthy (ch_store c')"
  shows "r = Inr () \<and> mid c' base (pre @ [tr_block tr]) \<and> same_rest c c' \<and> keeps block_at undo_at (ch_store c) (ch_store c')
     \<and> (\<exists>loc. idx (ch_store c') = (idx (ch_store c))(tr_hash tr \<mapsto> with_undo rec loc))"
proof -
  let ?b = "tr_block tr" and ?h = "tr_hash tr" and ?n = "of_nat (length pre) :: u32"
  have ch: "chain_of pre (ch_utxoSet c)" using mid by (simp add: mid_def)
  obtain undo where con: "ConnectBlock (ch_utxoSet c) ?b ?n None = Inr (undo, U)" using chain_of_snocD(1) [OF U1 ch] by blast
  let ?c1 = "c\<lparr>ch_utxoSet := U\<rparr>"
  let ?fin = "\<lambda>c. c\<lparr>ch_heightByHash := (ch_heightByHash c)(?h \<mapsto> ?n), ch_hashByHeight := (ch_hashByHeight c)(?n \<mapsto> ?h)\<rparr>"
  note run1 = run [unfolded live_connect_block_def ht, unfolded connect_utxos_run [OF con]]
  from bind_persist [OF run1 h] obtain s1 where
    s1: "keeps block_at undo_at (ch_store c) s1" "idx s1 = idx (ch_store c)"
    and run2: "sbind (store_op ErrStoreUndo (bs_WriteUndo (ce_store E) True (dbi_FileNum rec) (SerializeUndoData undo))) (\<lambda>loc.
       sbind (store_op ErrStoreIndex (bs_PutBlockIndex (ce_store E) True ?h (with_undo rec loc))) (\<lambda>_. supd ?fin))
       (?c1\<lparr>ch_store := s1\<rparr>) = Some (r, c')"
    using rec(1) by (auto simp: with_load)
  from bind_WriteUndo [OF run2 h] obtain loc s2 where
    s2: "keeps block_at undo_at s1 s2" "idx s2 = idx s1" "undo_at s2 (dbi_FileNum rec) (fst loc) (snd loc) (SerializeUndoData undo)"
    and run3: "sbind (store_op ErrStoreIndex (bs_PutBlockIndex (ce_store E) True ?h (with_undo rec loc))) (\<lambda>_. supd ?fin)
       (?c1\<lparr>ch_store := s2\<rparr>) = Some (r, c')" by auto
  from bind_PutBlockIndex [OF run3 h] obtain s3 where
    s3: "keeps block_at undo_at s2 s3" "idx s3 = (idx s2)(?h \<mapsto> with_undo rec loc)"
    and c': "r = Inr ()" "c' = ?fin (?c1\<lparr>ch_store := s3\<rparr>)" by (auto simp: supd_def)
  have k3: "keeps block_at undo_at (ch_store c) s3" using s1(1) s2(1) s3(1) keeps_trans by blast
  have i3: "idx s3 = (idx (ch_store c))(?h \<mapsto> with_undo rec loc)" using s1(2) s2(2) s3(2) by simp
  have fine: "index_fine (ch_store c)" "stored (ch_store c) pre" "maps_ok c base pre" using mid by (simp_all add: mid_def)
  have "rec_ok (ch_store c) ?h rec" using fine(1) rec(1) by (auto simp: index_fine_def)
  then have f3: "index_fine s3" using put_index_fine [OF k3 i3 fine(1)] rec_ok_with_undo by blast
  have "undo_at s3 (dbi_FileNum rec) (fst loc) (snd loc) (SerializeUndoData undo)" using s2(3) s3(1) by (auto simp: keeps_def)
  then have st3: "stored s3 (pre @ [?b])"
    using stored_snoc [OF fine(2) ch U1 con k3 i3 [folded hb]] keeps_data [OF k3 rec(2)] by simp
  have "maps_ok c' base (pre @ [?b])"
    by (rule maps_ok_extend [OF fine(3) U1 chain_of_snocD(4) [OF U1 ch]]) (simp_all add: hb c'(2))
  moreover have "\<exists>loc. idx (ch_store c') = (idx (ch_store c))(?h \<mapsto> with_undo rec loc)"
    using i3 c'(2) by (intro exI [of _ loc]) simp
  ultimately show ?thesis using f3 st3 U1 k3 c' by (simp add: mid_def same_rest_def)
qed

lemma live_connect_mid:
  assumes "mid c base pre" "chain_of (pre @ map tr_block trs) U"
    and "map tr_height trs = map of_nat [length pre..<length pre + length trs]"
    and "\<forall>tr \<in> set trs. bhash (tr_block tr) = tr_hash tr
       \<and> (\<exists>rec. idx (ch_store c) (tr_hash tr) = Some rec \<and> data_at (ch_store c) rec (tr_block tr))"
    and "live_connect E trs c = Some (r, c')" "healthy (ch_store c')"
  shows "r = Inr () \<and> mid c' base (pre @ map tr_block trs) \<and> same_rest c c'"
  using assms
proof (induction trs arbitrary: c pre)
  case Nil
  then show ?case by (simp add: sret_def same_rest_def)
next
  case (Cons tr trs)
  obtain r1 c1 where one: "live_connect_block E tr c = Some (r1, c1)"
    and more: "case r1 of Inl e \<Rightarrow> r = Inl e \<and> c' = c1 | Inr _ \<Rightarrow> live_connect E trs c1 = Some (r, c')"
    using Cons.prems(5) by (auto simp: sbind_def split: option.splits sum.splits)
  have h1: "healthy (ch_store c1)"
    using more Cons.prems(6) backD [OF back_live_connect(2)] by (auto split: sum.splits)
  obtain U1 where U1: "chain_of (pre @ [tr_block tr]) U1"
    using chain_of_take [OF Cons.prems(2), of "Suc (length pre)"] by auto
  have ht: "tr_height tr = of_nat (length pre)"
    "map tr_height trs = map of_nat [length (pre @ [tr_block tr])..<length (pre @ [tr_block tr]) + length trs]"
    using Cons.prems(3) by (simp_all add: upt_rec)
  from Cons.prems(4) obtain rec where rec: "bhash (tr_block tr) = tr_hash tr" "idx (ch_store c) (tr_hash tr) = Some rec"
    "data_at (ch_store c) rec (tr_block tr)" by auto
  from live_connect_block_mid [OF Cons.prems(1) U1 ht(1) rec one h1] obtain loc where
    l: "r1 = Inr ()" "mid c1 base (pre @ [tr_block tr])" "same_rest c c1" "keeps block_at undo_at (ch_store c) (ch_store c1)"
    "idx (ch_store c1) = (idx (ch_store c))(tr_hash tr \<mapsto> with_undo rec loc)" by auto
  have tr': "\<forall>t \<in> set trs. bhash (tr_block t) = tr_hash t
       \<and> (\<exists>rec. idx (ch_store c1) (tr_hash t) = Some rec \<and> data_at (ch_store c1) rec (tr_block t))"
  proof
    fix t
    assume t: "t \<in> set trs"
    with Cons.prems(4) obtain rec' where r': "idx (ch_store c) (tr_hash t) = Some rec'" "data_at (ch_store c) rec' (tr_block t)" by auto
    have "tr_hash t = tr_hash tr \<Longrightarrow> rec' = rec" using r'(1) rec(2) by simp
    then have "\<exists>rec. idx (ch_store c1) (tr_hash t) = Some rec \<and> data_at (ch_store c1) rec (tr_block t)"
      using r' keeps_data [OF l(4)] l(5) by (cases "tr_hash t = tr_hash tr") auto
    with t Cons.prems(4) show "bhash (tr_block t) = tr_hash t
       \<and> (\<exists>rec. idx (ch_store c1) (tr_hash t) = Some rec \<and> data_at (ch_store c1) rec (tr_block t))" by simp
  qed
  have "chain_of ((pre @ [tr_block tr]) @ map tr_block trs) U" using Cons.prems(2) by simp
  moreover have "live_connect E trs c1 = Some (r, c')" using more l(1) by simp
  ultimately show ?case using Cons.IH [OF l(2) _ ht(2) tr' _ Cons.prems(6)] l(3) by (auto simp: same_rest_def)
qed

section \<open>Removing the old chain\<close>

lemma remove_old_maps:
  "ch_heightByHash (remove_old old c) h = (if h \<in> snd ` set old then None else ch_heightByHash c h)"
  "ch_store (remove_old old c) = ch_store c" "ch_utxoSet (remove_old old c) = ch_utxoSet c" "same_rest c (remove_old old c)"
  unfolding remove_old_def by (induction old arbitrary: c) (auto simp: same_rest_def)

lemma remove_old_heights:
  assumes "distinct (map fst old)"
  shows "ch_hashByHeight (remove_old old c) n = (if (n, hash_at (ch_hashByHeight c) n) \<in> set old then None else ch_hashByHeight c n)"
  using assms
proof (induction old arbitrary: c)
  case Nil
  then show ?case by (simp add: remove_old_def)
next
  case (Cons p old)
  obtain a b where p: "p = (a, b)" by fastforce
  let ?c = "c\<lparr>ch_heightByHash := (ch_heightByHash c)(b := None),
     ch_hashByHeight := (if hash_at (ch_hashByHeight c) a = b then (ch_hashByHeight c)(a := None) else ch_hashByHeight c)\<rparr>"
  have step: "remove_old (p # old) c = remove_old old ?c" by (simp add: remove_old_def p)
  have ih: "ch_hashByHeight (remove_old old ?c) n = (if (n, hash_at (ch_hashByHeight ?c) n) \<in> set old then None else ch_hashByHeight ?c n)"
    using Cons by simp
  show ?case
  proof (cases "n = a")
    case True
    then have "(n, x) \<notin> set old" for x using Cons.prems p by (metis distinct.simps(2) fst_conv image_eqI list.simps(9) set_map)
    with True show ?thesis unfolding step ih by (simp add: p)
  next
    case False
    then have "ch_hashByHeight ?c n = ch_hashByHeight c n" by simp
    with False show ?thesis unfolding step ih by (simp add: p hash_at_def)
  qed
qed

lemma old_hashes_base:
  assumes "maps_ok c base base" "chain_of base U"
  shows "old_hashes c (map of_nat [k..<length base]) = map (\<lambda>n. (of_nat n, bhash (base ! n))) [k..<length base]"
proof -
  have "ch_hashByHeight c (of_nat n) = Some (bhash (base ! n))" if "n < length base" for n
    using assms(1) that unat_of_nat_height [OF assms(2) that] by (simp add: maps_ok_def height_map_def)
  then have "map (\<lambda>h. case ch_hashByHeight c h of None \<Rightarrow> [] | Some x \<Rightarrow> [(h, x)]) (map of_nat [k..<length base])
      = map (\<lambda>n. [(of_nat n, bhash (base ! n))]) [k..<length base]" by auto
  then show ?thesis by (simp add: old_hashes_def concat_map_singleton del: map_map)
qed

lemma remove_old_mid:
  assumes mid: "mid c base pre" and base: "chain_of base U" and k: "k \<le> length pre" "k \<le> length base" "take k pre = take k base"
    and new: "\<And>n. k \<le> n \<Longrightarrow> n < length pre \<Longrightarrow> \<not> main_hash base (bhash (pre ! n))"
  shows "mid (remove_old (map (\<lambda>n. (of_nat n, bhash (base ! n))) [k..<length base]) c) pre pre"
proof -
  let ?old = "map (\<lambda>n. (of_nat n :: u32, bhash (base ! n))) [k..<length base]"
  let ?c = "remove_old ?old c"
  have un: "unat (of_nat n :: u32) = n" if "n < length base" for n using unat_of_nat_height [OF base that] .
  have "inj_on (of_nat :: nat \<Rightarrow> u32) {k..<length base}" by (rule inj_on_inverseI [of _ unat]) (simp add: un)
  then have dist: "distinct (map fst ?old)" by (simp add: distinct_map o_def)
  note rm = remove_old_maps(1) [of ?old c] remove_old_heights [OF dist, of c] remove_old_maps(2,3) [of ?old c]
  have m: "maps_ok c base pre" and pre: "chain_of pre (ch_utxoSet c)" using mid by (simp_all add: mid_def)
  have old: "h \<in> snd ` set ?old \<longleftrightarrow> (\<exists>n. k \<le> n \<and> n < length base \<and> h = bhash (base ! n))" for h by (auto simp: image_image)
  have eq: "pre ! n = base ! n" if "n < k" for n using k(3) that by (metis nth_take)
  have fresh: "bhash (pre ! n) \<notin> snd ` set ?old" if n: "n < length pre" for n
  proof (cases "n < k")
    case True
    then have "bhash (pre ! n) \<noteq> bhash (base ! m)" if "k \<le> m" "m < length base" for m
      using chain_of_unique [OF base, of n m] that eq [OF True] k(2) by auto
    then show ?thesis unfolding old by blast
  next
    case False
    then show ?thesis using new [of n] n unfolding old main_hash_def by force
  qed
  have hm: "ch_hashByHeight c n = height_map pre base (unat n)" for n using m by (simp add: maps_ok_def)
  have "ch_hashByHeight ?c n = height_map pre pre (unat n)" for n
  proof (cases "unat n < length pre")
    case True
    then have "hash_at (ch_hashByHeight c) n = bhash (pre ! unat n)" by (simp add: hash_at_def hm height_map_def)
    then have "(n, hash_at (ch_hashByHeight c) n) \<notin> set ?old"
      using fresh [OF True] by (metis (no_types, lifting) image_eqI snd_conv)
    with True show ?thesis by (simp add: rm(2) hm height_map_def)
  next
    case False
    show ?thesis
    proof (cases "unat n < length base")
      case True
      then have "hash_at (ch_hashByHeight c) n = bhash (base ! unat n)" using False by (simp add: hash_at_def hm height_map_def)
      moreover have "k \<le> unat n" using False k(1) by simp
      ultimately have "(n, hash_at (ch_hashByHeight c) n) \<in> set ?old" using True by (auto intro!: image_eqI [of _ _ "unat n"])
      with False show ?thesis by (simp add: rm(2) height_map_def)
    qed (use False in \<open>simp add: rm(2) hm height_map_def\<close>)
  qed
  moreover have "ch_heightByHash ?c (bhash (pre ! n)) = Some (of_nat n)" if "n < length pre" for n
    using fresh [OF that] m that unfolding rm(1) maps_ok_def by (simp only: if_False)
  moreover have "unat n = d h \<and> h \<in> bhash ` W" if "ch_heightByHash ?c h = Some n" for h n
    using that m unfolding rm(1) maps_ok_def by (auto split: if_splits)
  ultimately have "maps_ok ?c pre pre" unfolding maps_ok_def by blast
  with mid rm(3,4) show ?thesis by (simp add: mid_def)
qed

section \<open>Reorganisation\<close>

lemma chain_ok_history [simp]: "chain_ok (c\<lparr>ch_reorgHistory := x\<rparr>) bs = chain_ok c bs"
  by (simp add: chain_ok_def mid_def maps_ok_def orphans_ok_def)

lemma check_reorg_depth_run:
  assumes "check_reorg_depth E clk n c = Some (r, c')"
  shows "(\<exists>hist. c' = c\<lparr>ch_reorgHistory := hist\<rparr>) \<and> (\<forall>e. r = Inl e \<longrightarrow> is_too_deep e)"
proof (intro conjI)
  show "\<exists>hist. c' = c\<lparr>ch_reorgHistory := hist\<rparr>"
    using assms unfolding check_reorg_depth_def Let_def
    by (intro exI [of _ "ch_reorgHistory c'"]) (auto simp: sfail_def sret_def sbind_def supd_def swith_def split: if_splits)
  show "\<forall>e. r = Inl e \<longrightarrow> is_too_deep e"
    using assms unfolding check_reorg_depth_def Let_def
    by (auto simp: sfail_def sret_def sbind_def supd_def swith_def is_too_deep_def split: if_splits)
qed

lemma asc_path_frame: "ch_store c' = ch_store c \<Longrightarrow> asc_path E c' p ys = asc_path E c p ys"
  by (induction ys arbitrary: p) simp_all

lemma reorg_commit_ok:
  assumes ok: "chain_ok c bs" and k: "0 < k" "k \<le> length bs"
    and hs: "heights = map of_nat [k..<length bs]"
    and trial: "trial_disconnect E c (rev heights) (ch_utxoSet c) = Inr V"
    and tc: "chain_of (take k bs @ map tr_block trs) U" "trs \<noteq> []"
      "map tr_height trs = map of_nat [k..<k + length trs]"
    and trs: "\<forall>tr \<in> set trs. bs_GetBlock (ce_store E) (ch_store c) (tr_hash tr) = Some (tr_block tr) \<and> \<not> main_hash bs (tr_hash tr)"
    and tip: "tr_hash (last trs) = T" "unat newHeight = d T" "newWork = wk T"
    and run: "reorg_commit E clk T newHeight newWork rd heights trs c = Some (r, c')" and h: "healthy (ch_store c')"
  shows "r = Inr () \<and> chain_ok c' (take k bs @ map tr_block trs) \<and> ch_orphans c' = ch_orphans c \<and> ch_ibdMode c' = ch_ibdMode c
     \<and> ch_tipHash c' = T"
proof -
  let ?pre = "take k bs" and ?new = "take k bs @ map tr_block trs"
  have mid: "mid c bs bs" and bs: "chain_of bs (ch_utxoSet c)" using ok by (auto simp: chain_ok_def mid_def)
  let ?fin = "\<lambda>c. c\<lparr>ch_tipHash := T, ch_tipHeight := newHeight, ch_tipWork := newWork,
       ch_reorgHistory := ch_reorgHistory c @ [\<lparr>rr_height = newHeight, rr_depth = rd, rr_timestamp = clk_now clk\<rparr>]\<rparr>"
  let ?rest = "\<lambda>old. sbind (live_connect E trs) (\<lambda>_. sbind (supd (remove_old old)) (\<lambda>_.
     sbind (store_op ErrStoreTip (bs_PutChainTip (ce_store E) True T newHeight)) (\<lambda>_. supd ?fin)))"
  have b4: "hback (sbind (supd (remove_old old)) (\<lambda>_. sbind (store_op ErrStoreTip (bs_PutChainTip (ce_store E) True T newHeight)) (\<lambda>_. supd ?fin)))" for old
    by (simp add: remove_old_maps(2))
  \<comment> \<open>disconnecting\<close>
  obtain r1 c1 where r1: "live_disconnect E (rev heights) c = Some (r1, c1)"
    using run by (auto simp: reorg_commit_def sbind_def [of "live_disconnect E (rev heights)"] split: option.splits)
  have "healthy (ch_store c1)"
  proof (cases r1)
    case (Inl e)
    with r1 run h show ?thesis by (auto simp: reorg_commit_def sbind_def)
  next
    case (Inr x)
    with r1 run have "swith (\<lambda>c. ?rest (old_hashes c heights)) c1 = Some (r, c')"
      by (simp add: reorg_commit_def sbind_def [of "live_disconnect E (rev heights)"] Let_def)
    then have "?rest (old_hashes c1 heights) c1 = Some (r, c')" by (simp add: swith_def)
    moreover have "hback (?rest (old_hashes c1 heights))" using b4 by simp
    ultimately show ?thesis using backD h by blast
  qed
  from live_disconnect_follows [OF trial r1 this] obtain s1 where
    c1: "r1 = Inr ()" "c1 = c\<lparr>ch_store := s1, ch_utxoSet := V\<rparr>" "keeps block_at undo_at (ch_store c) s1" "idx s1 = idx (ch_store c)" by blast
  have m1: "maps_ok c1 bs bs" using mid c1(2) by (simp add: mid_def maps_ok_def)
  have old: "old_hashes c1 heights = map (\<lambda>n. (of_nat n, bhash (bs ! n))) [k..<length bs]"
    unfolding hs by (rule old_hashes_base [OF m1 bs])
  have run2: "?rest (old_hashes c1 heights) c1 = Some (r, c')"
    using run r1 c1(1) by (simp add: reorg_commit_def sbind_def [of "live_disconnect E (rev heights)"] swith_def Let_def)
  \<comment> \<open>the state below the fork\<close>
  have V: "chain_of ?pre V" using trial_disconnect_chain [OF mid k order.refl, of "ch_utxoSet c" V] bs trial hs by simp
  have fine1: "index_fine s1" using keeps_store(1) [OF c1(3,4)] mid by (simp add: mid_def)
  have "stored (ch_store c) ?pre" using mid k(2) by (auto simp: mid_def stored_def min_def)
  then have st1: "stored s1 ?pre" using keeps_store(2) [OF c1(3,4)] by blast
  have "height_map ?pre bs n = height_map bs bs n" for n by (simp add: height_map_def)
  then have "maps_ok c1 bs ?pre" using m1 k(2) by (simp add: maps_ok_def)
  with fine1 st1 V have mid1: "mid c1 bs ?pre" by (simp add: mid_def c1(2))
  \<comment> \<open>connecting\<close>
  obtain r2 c2 where r2: "live_connect E trs c1 = Some (r2, c2)"
    using run2 by (auto simp: sbind_def [of "live_connect E trs"] split: option.splits)
  have h2: "healthy (ch_store c2)"
  proof (cases r2)
    case (Inl e)
    with r2 run2 h show ?thesis by (simp add: sbind_def)
  next
    case (Inr x)
    with r2 run2 have "(sbind (supd (remove_old (old_hashes c1 heights))) (\<lambda>_.
      sbind (store_op ErrStoreTip (bs_PutChainTip (ce_store E) True T newHeight)) (\<lambda>_. supd ?fin))) c2 = Some (r, c')"
      by (simp add: sbind_def [of "live_connect E trs"])
    from backD [OF b4 this h] show ?thesis .
  qed
  have ht: "map tr_height trs = map of_nat [length ?pre..<length ?pre + length trs]" using tc(3) k(2) by (simp add: min_def)
  have "\<forall>tr \<in> set trs. bhash (tr_block tr) = tr_hash tr
       \<and> (\<exists>rec. idx (ch_store c1) (tr_hash tr) = Some rec \<and> data_at (ch_store c1) rec (tr_block tr))"
  proof
    fix tr
    assume "tr \<in> set trs"
    with trs have gb: "bs_GetBlock (ce_store E) (ch_store c) (tr_hash tr) = Some (tr_block tr)" by blast
    have fi: "index_fine (ch_store c)" using mid by (simp add: mid_def)
    obtain rec where rec: "idx (ch_store c) (tr_hash tr) = Some rec" "data_at (ch_store c) rec (tr_block tr)" "bhash (tr_block tr) = tr_hash tr"
      using GetBlock_fine [OF fi gb] by blast
    with keeps_data [OF c1(3) rec(2)] c1(2,4) show "bhash (tr_block tr) = tr_hash tr
       \<and> (\<exists>rec. idx (ch_store c1) (tr_hash tr) = Some rec \<and> data_at (ch_store c1) rec (tr_block tr))" by simp
  qed
  note hb = bspec [OF this]
  from live_connect_mid [OF mid1 tc(1) ht ballI [OF hb] r2 h2] have
    c2: "r2 = Inr ()" "mid c2 bs ?new" "same_rest c1 c2" by simp_all
  \<comment> \<open>cleaning up\<close>
  let ?c3 = "remove_old (old_hashes c1 heights) c2"
  have new: "\<not> main_hash bs (bhash (?new ! n))" if "k \<le> n" "n < length ?new" for n
  proof -
    have "?new ! n = tr_block (trs ! (n - k))" "n - k < length trs" using that k(2) by (auto simp: nth_append min_def split: if_splits)
    then show ?thesis using trs hb by (metis nth_mem)
  qed
  have mid3: "mid ?c3 ?new ?new"
    unfolding old by (rule remove_old_mid [OF c2(2) bs _ k(2) _ new]) (use k(2) in \<open>simp_all add: min_def\<close>)
  have "sbind (store_op ErrStoreTip (bs_PutChainTip (ce_store E) True T newHeight)) (\<lambda>_. supd ?fin) ?c3 = Some (r, c')"
    using run2 r2 c2(1) by (simp add: sbind_def [of "live_connect E trs"] sbind_def [of "supd _"] supd_def [of "remove_old _"])
  from bind_PutChainTip [OF this h] obtain s4 where s4: "keeps block_at undo_at (ch_store ?c3) s4" "idx s4 = idx (ch_store ?c3)"
    and c': "r = Inr ()" "c' = ?fin (?c3\<lparr>ch_store := s4\<rparr>)" by (auto simp: supd_def)
  have "mid c' ?new ?new"
    using mid3 keeps_store [OF s4] unfolding c'(2) mid_def by (simp add: maps_ok_def)
  moreover have "same_rest c ?c3" using c2(3) remove_old_maps(4) [of c2 "old_hashes c1 heights"] by (simp add: same_rest_def c1(2))
  moreover have "last ?new = tr_block (last trs)" using tc(2) by (simp add: last_map)
  then have tT: "bhash (last ?new) = T" using hb [of "last trs"] tip(1) tc(2) by simp
  have "d T = length ?new - 1" using chain_of_depth [OF tc(1), of "length ?new - 1"] tT tc(2) by (simp add: last_conv_nth)
  then have "Suc (unat newHeight) = length ?new" using tip(2) tc(2) by (cases trs) auto
  ultimately show ?thesis using ok tT tip(3) c' by (auto simp: chain_ok_def same_rest_def orphans_ok_def)
qed

end

end
