(* ===== verification/ChainRun.thy ===== *)
theory ChainRun
  imports ChainSafety
begin

text \<open>
  The handlers of the chain keep the invariant of theory ChainSafety: a reorganisation, the extension of the tip, a new
  side chain, the orphan queue and \<^verbatim>\<open>ProcessBlock\<close> as a whole; and they end.
\<close>

context chain_world
begin

section \<open>Reorganisation\<close>

lemma chain_okD:
  assumes "chain_ok c bs"
  shows "mid c bs bs" "chain_of bs (ch_utxoSet c)" "maps_ok c bs bs" "index_fine (ch_store c)" "stored (ch_store c) bs"
    "orphans_ok c" "bs \<noteq> []"
  using assms chain_of_nonempty by (auto simp: chain_ok_def mid_def)

lemma reorg_ok:
  assumes ok: "chain_ok c bs" and T: "\<not> main_hash bs T" and tip: "unat newHeight = d T" "newWork = wk T"
    and run: "reorg E clk T newHeight newWork c = Some (r, c')" and h: "healthy (ch_store c')"
  shows "case r of Inl e \<Rightarrow> (\<exists>hist. c' = c\<lparr>ch_reorgHistory := hist\<rparr>)
     | Inr _ \<Rightarrow> (\<exists>bs'. chain_ok c' bs' \<and> ch_tipHash c' = T \<and> ch_orphans c' = ch_orphans c \<and> ch_ibdMode c' = ch_ibdMode c)"
proof -
  note D = chain_okD [OF ok]
  have same: "\<exists>hist. c = c\<lparr>ch_reorgHistory := hist\<rparr>" by (intro exI [of _ "ch_reorgHistory c"]) simp
  obtain res where res: "reorg_path E c T [T] = Some res" using run by (auto simp: reorg_def swith_def split: option.splits)
  show ?thesis
  proof (cases res)
    case (Inl e)
    with run res same show ?thesis by (auto simp: reorg_def swith_def sfail_def)
  next
    case (Inr newChain)
    from reorg_path_ok [OF res [unfolded Inr]] obtain xs where nc: "newChain = T # xs" "path_ok E c (T # xs)" by auto
    from path_ok_asc [OF nc(2)] obtain p b where p: "on_main c p" "bs_GetBlock (ce_store E) (ch_store c) (last newChain) = Some b"
      "hdr_PrevBlock (blk_Header b) = p" "asc_path E c p (rev newChain)" "\<forall>x \<in> set xs. \<not> on_main c x" by (auto simp: nc(1))
    note main = on_main_iff [OF D(3,2)]
    from p(1) obtain m where m: "m < length bs" "bhash (bs ! m) = p" by (auto simp: main main_hash_def)
    have hp: "ch_heightByHash c p = Some (of_nat m)" using D(3) m by (auto simp: maps_ok_def)
    have um: "unat (of_nat m :: u32) = m" using unat_of_nat_height [OF D(2) m(1)] .
    let ?k = "Suc m" and ?hs = "heights_above (of_nat m) (ch_tipHeight c)" and ?rd = "ch_tipHeight c - of_nat m"
    have hs: "?hs = map of_nat [?k..<length bs]" using ok um by (simp add: heights_above_def chain_ok_def)
    let ?run = "\<lambda>c0. sbind (slift (trial_disconnect E c0 (rev ?hs) (cloneUtxoSet E (ch_utxoSet c0)))) (\<lambda>trialSet.
        sbind (slift (trial_connect E c0 (of_nat m + 1) (rev newChain) trialSet)) (\<lambda>trialConnected.
        reorg_commit E clk T newHeight newWork ?rd ?hs trialConnected))"
    have run1: "sbind (check_reorg_depth E clk ?rd) (\<lambda>_. swith ?run) c = Some (r, c')"
      using run res Inr p(2,3) hp by (simp add: reorg_def swith_def Let_def)
    obtain rc c0 where rc: "check_reorg_depth E clk ?rd c = Some (rc, c0)"
      using run1 by (auto simp: sbind_def [of "check_reorg_depth E clk ?rd"] split: option.splits)
    from check_reorg_depth_run [OF rc] obtain hist where c0: "c0 = c\<lparr>ch_reorgHistory := hist\<rparr>" by blast
    show ?thesis
    proof (cases rc)
      case (Inl e)
      with run1 rc c0 show ?thesis by (auto simp: sbind_def)
    next
      case (Inr u)
      with run1 rc have run2: "?run c0 c0 = Some (r, c')" by (simp add: sbind_def [of "check_reorg_depth E clk ?rd"] swith_def)
      have ok0: "chain_ok c0 bs" using ok by (simp add: c0)
      note D0 = chain_okD [OF ok0]
      have clone: "cloneUtxoSet E (ch_utxoSet c0) = ch_utxoSet c0" using clone_same [OF D0(2)] .
      note run3 = run2 [unfolded clone]
      show ?thesis
      proof (cases "trial_disconnect E c0 (rev ?hs) (ch_utxoSet c0)")
        case (Inl e)
        with run3 have "r = Inl e" "c' = c0" by (simp_all add: sbind_def slift_def)
        with c0 show ?thesis by auto
      next
        case (Inr V)
        note V = this
        have cV: "chain_of (take ?k bs) V"
          using trial_disconnect_chain [OF D0(1) zero_less_Suc _ order.refl _ V [unfolded hs]] m(1) D0(2) by simp
        have len: "length (take ?k bs) = ?k" and lst: "bhash (last (take ?k bs)) = p" using m by (simp_all add: take_Suc_conv_app_nth)
        have asc: "asc_path E c0 (bhash (last (take ?k bs))) (rev newChain)"
          using p(4) asc_path_frame [of c0 c] by (simp add: lst c0)
        have notmain: "\<not> main_hash bs x" if "x \<in> set newChain" for x using that T p(5) by (auto simp: nc(1) main)
        then have gn: "bhash gen \<notin> set (rev newChain)" using gen_main [OF D(2)] by auto
        show ?thesis
        proof (cases "trial_connect E c0 (of_nat m + 1) (rev newChain) V")
          case (Inl e)
          with run3 V have "r = Inl e" "c' = c0" by (simp_all add: sbind_def slift_def)
          with c0 show ?thesis by auto
        next
          case (Inr trs)
          have "(of_nat m :: u32) + 1 = of_nat (length (take ?k bs))" unfolding len by simp
          from trial_connect_chain [OF D0(4) cV asc gn Inr [unfolded this], unfolded len] obtain U where
            t: "chain_of (take ?k bs @ map tr_block trs) U" "map tr_hash trs = rev newChain"
              "map tr_height trs = map of_nat [?k..<?k + length trs]"
              "\<forall>tr \<in> set trs. bs_GetBlock (ce_store E) (ch_store c0) (tr_hash tr) = Some (tr_block tr)" by blast
          have ne: "trs \<noteq> []" using t(2) nc(1) by auto
          have "tr_hash (last trs) = last (rev newChain)" using t(2) ne by (metis last_map)
          then have l: "tr_hash (last trs) = T" by (simp add: nc(1))
          have "tr_hash tr \<in> set newChain" if "tr \<in> set trs" for tr using t(2) that by (metis image_eqI set_map set_rev)
          with t(4) notmain have tn: "\<forall>tr \<in> set trs. bs_GetBlock (ce_store E) (ch_store c0) (tr_hash tr) = Some (tr_block tr)
              \<and> \<not> main_hash bs (tr_hash tr)" by blast
          have "reorg_commit E clk T newHeight newWork ?rd ?hs trs c0 = Some (r, c')"
            using run3 V Inr by (simp add: sbind_def slift_def)
          from reorg_commit_ok [OF ok0 zero_less_Suc _ hs V t(1) ne t(3) tn l tip this h] m(1) show ?thesis by (auto simp: c0)
        qed
      qed
    qed
  qed
qed

section \<open>Termination of a reorganisation\<close>

lemma reorg_path_total:
  assumes "chain_ok c bs" "\<not> main_hash bs cur"
  shows "\<exists>res. reorg_path E c cur acc = Some res"
  using assms(2)
proof (induction "d cur" arbitrary: cur acc rule: less_induct)
  case less
  note D = chain_okD [OF assms(1)]
  show ?case
  proof (cases "bs_GetBlock (ce_store E) (ch_store c) cur")
    case None
    then show ?thesis by (subst reorg_path.simps) simp
  next
    case (Some b)
    from GetBlock_fine [OF D(4) Some] have b: "b \<in> W" "bhash b = cur" by blast+
    with less.prems gen_main [OF D(2)] have "b \<noteq> gen" by auto
    from depth [OF b(1) this] b(2) have "d (hdr_PrevBlock (blk_Header b)) < d cur" by simp
    from less.hyps [OF this] on_main_iff [OF D(3,2)] show ?thesis
      by (subst reorg_path.simps) (auto simp: Some)
  qed
qed

section \<open>Extending the tip\<close>

lemma chain_ok_store:
  assumes "chain_ok c bs" "keeps block_at undo_at (ch_store c) s" "idx s = idx (ch_store c)"
  shows "chain_ok (c\<lparr>ch_store := s\<rparr>) bs"
  using assms keeps_store [OF assms(2,3)] by (auto simp: chain_ok_def mid_def maps_ok_def orphans_ok_def)

lemma last_depth: "chain_of bs U \<Longrightarrow> d (bhash (last bs)) = length bs - 1"
  using chain_of_depth [of bs U "length bs - 1"] chain_of_nonempty [of bs U] by (simp add: last_conv_nth)

lemma next_height:
  assumes "chain_of bs U" "b \<in> W" "b \<noteq> gen" "hdr_PrevBlock (blk_Header b) = bhash (last bs)"
  shows "d (bhash b) = length bs" "length bs < 2 ^ 32"
  using depth [OF assms(2,3)] last_depth [OF assms(1)] chain_of_nonempty [OF assms(1)] assms(4) by auto

text \<open>A clean-up that does not run because the storage is healthy afterwards.\<close>

lemma on_error_drop:
  assumes "sbind (on_error m k) f c = Some (r, c')" "healthy (ch_store c')"
    and "m c = store_op e g c" "\<And>e c. ch_store (k e c) = ch_store c"
    and "\<And>x s'. g (ch_store c) = (x, s') \<Longrightarrow> healthy s' \<Longrightarrow> x \<noteq> None"
  shows "sbind m f c = Some (r, c')"
proof -
  obtain x s1 where g: "g (ch_store c) = (x, s1)" by fastforce
  with assms show ?thesis
    by (cases x) (auto simp: sbind_def on_error_def store_op_def opt_err_def)
qed

lemma rollback_store [simp]: "ch_store (rollback_utxos b undo c) = ch_store c"
  by (simp add: rollback_utxos_def)

lemma back_extendChain [simp]: "hback (extendChain E sync h n w)"
  by (simp add: extendChain_def)

lemma new_index_data: "data_at s (new_index b n loc w) b \<longleftrightarrow> block_at s (fst loc) (fst (snd loc)) (snd (snd loc)) b"
  by (auto simp: new_index_def split: prod.splits)

lemma new_index_ok:
  assumes "block_at s (fst loc) (fst (snd loc)) (snd (snd loc)) b" "b \<in> W" "unat n = d (bhash b)" "w = wk (bhash b)"
    and "ValidateBlockStructure b n (ce_params E) None None = Inr ()"
  shows "rec_ok s (bhash b) (new_index b n loc w)"
  using assms by (auto simp: rec_ok_def new_index_def split: prod.splits)

lemma connect_tip_ok:
  assumes ok: "chain_ok c bs" and b: "b \<in> W" "b \<noteq> gen" "hdr_PrevBlock (blk_Header b) = ch_tipHash c"
    and n: "unat newHeight = d (bhash b)" and w: "newWork = wk (bhash b)"
    and str: "ValidateBlockStructure b newHeight (ce_params E) None None = Inr ()"
    and inp: "ValidateTransactionInputs (ce_lib E) b (ch_utxoSet c) newHeight (ce_params E) mtp None = Inr fees"
    and data: "block_at (ch_store c) (fst loc) (fst (snd loc)) (snd (snd loc)) b"
    and run: "connect_tip E sync (bhash b) b newHeight newWork (new_index b newHeight loc newWork) c = Some (r, c')"
    and h: "healthy (ch_store c')"
  shows "case r of Inl e \<Rightarrow> c' = c
     | Inr _ \<Rightarrow> chain_ok c' (bs @ [b]) \<and> ch_tipHash c' = bhash b \<and> ch_orphans c' = ch_orphans c \<and> ch_ibdMode c' = ch_ibdMode c"
proof (cases "ConnectBlock (ch_utxoSet c) b newHeight None")
  case (Inl e)
  then have "r = Inl (ErrConnect e)" "c' = c"
    using run by (simp_all add: connect_tip_def connect_utxos_def sbind_def swith_def sfail_def)
  then show ?thesis by simp
next
  case (Inr res)
  obtain undo U where con: "ConnectBlock (ch_utxoSet c) b newHeight None = Inr (undo, U)" using Inr by (cases res) auto
  note D = chain_okD [OF ok]
  have prev: "hdr_PrevBlock (blk_Header b) = bhash (last bs)" using b(3) ok by (simp add: chain_ok_def)
  note nh = next_height [OF D(2) b(1,2) prev]
  have nH: "newHeight = of_nat (length bs)" using n nh by (simp add: word_unat_eq_iff unat_of_nat)
  have "led (bs @ [b]) U" using D(2) nh(2) prev str inp con unfolding nH chain_of_def by (intro ledger.extend) auto
  then have ch: "chain_of (bs @ [b]) U" using D(2) b by (auto simp: chain_of_def nth_append less_Suc_eq)
  let ?rec = "new_index b newHeight loc newWork" and ?c1 = "c\<lparr>ch_utxoSet := U\<rparr>"
  note run1 = run [unfolded connect_tip_def connect_utxos_run [OF con]]
  have run1': "sbind (store_op ErrStoreUndo (bs_WriteUndo (ce_store E) sync (dbi_FileNum ?rec) (SerializeUndoData undo))) (\<lambda>loc.
     sbind (on_error (store_op ErrStoreIndex (bs_PutBlockIndex (ce_store E) sync (bhash b) (with_undo ?rec loc))) (\<lambda>_. rollback_utxos b undo)) (\<lambda>_.
     sbind (on_error (persistUtxoChanges E sync b undo (bhash b)) (\<lambda>_. rollback_utxos b undo)) (\<lambda>_.
       extendChain E sync (bhash b) newHeight newWork))) ?c1 = Some (r, c')"
    by (rule on_error_drop [OF run1 h refl]) (auto dest: WriteUndo_law)
  from bind_WriteUndo [OF run1' h] obtain uloc s1 where
    s1: "keeps block_at undo_at (ch_store c) s1" "idx s1 = idx (ch_store c)"
      "undo_at s1 (dbi_FileNum ?rec) (fst uloc) (snd uloc) (SerializeUndoData undo)"
    and run2: "sbind (on_error (store_op ErrStoreIndex (bs_PutBlockIndex (ce_store E) sync (bhash b) (with_undo ?rec uloc))) (\<lambda>_. rollback_utxos b undo)) (\<lambda>_.
     sbind (on_error (persistUtxoChanges E sync b undo (bhash b)) (\<lambda>_. rollback_utxos b undo)) (\<lambda>_.
       extendChain E sync (bhash b) newHeight newWork)) (?c1\<lparr>ch_store := s1\<rparr>) = Some (r, c')" by auto
  have run2': "sbind (store_op ErrStoreIndex (bs_PutBlockIndex (ce_store E) sync (bhash b) (with_undo ?rec uloc))) (\<lambda>_.
     sbind (on_error (persistUtxoChanges E sync b undo (bhash b)) (\<lambda>_. rollback_utxos b undo)) (\<lambda>_.
       extendChain E sync (bhash b) newHeight newWork)) (?c1\<lparr>ch_store := s1\<rparr>) = Some (r, c')"
    by (rule on_error_drop [OF run2 h refl]) (auto dest: PutBlockIndex_law)
  from bind_PutBlockIndex [OF run2' h] obtain s2 where
    s2: "keeps block_at undo_at s1 s2" "idx s2 = (idx s1)(bhash b \<mapsto> with_undo ?rec uloc)"
    and run3: "sbind (on_error (persistUtxoChanges E sync b undo (bhash b)) (\<lambda>_. rollback_utxos b undo)) (\<lambda>_.
       extendChain E sync (bhash b) newHeight newWork) (?c1\<lparr>ch_store := s2\<rparr>) = Some (r, c')" by auto
  obtain ops where pops: "persistUtxoChanges E sync b undo (bhash b) (?c1\<lparr>ch_store := s2\<rparr>)
      = store_op ErrPersist (bs_FlushUtxoBatch (ce_store E) sync ops) (?c1\<lparr>ch_store := s2\<rparr>)"
    by (auto simp: persistUtxoChanges_def swith_def)
  have run3': "sbind (persistUtxoChanges E sync b undo (bhash b)) (\<lambda>_. extendChain E sync (bhash b) newHeight newWork)
      (?c1\<lparr>ch_store := s2\<rparr>) = Some (r, c')"
    by (rule on_error_drop [OF run3 h pops]) (auto dest: FlushUtxoBatch_law)
  from bind_persist [OF run3' h] obtain s3 where s3: "keeps block_at undo_at s2 s3" "idx s3 = idx s2"
    and run4: "extendChain E sync (bhash b) newHeight newWork (?c1\<lparr>ch_store := s3\<rparr>) = Some (r, c')" by auto
  from bind_PutChainTip [OF run4 [unfolded extendChain_def] h] obtain s4 where s4: "keeps block_at undo_at s3 s4" "idx s4 = idx s3"
    and c': "r = Inr ()" "c' = (?c1\<lparr>ch_store := s4\<rparr>)\<lparr>ch_heightByHash := (ch_heightByHash c)(bhash b \<mapsto> newHeight),
       ch_hashByHeight := (ch_hashByHeight c)(newHeight \<mapsto> bhash b), ch_tipHash := bhash b, ch_tipHeight := newHeight,
       ch_tipWork := newWork\<rparr>" by (auto simp: supd_def)
  have k: "keeps block_at undo_at s1 s4" "keeps block_at undo_at (ch_store c) s4"
    using keeps_trans s1(1) s2(1) s3(1) s4(1) by blast+
  have i: "idx s4 = (idx (ch_store c))(bhash b \<mapsto> with_undo ?rec uloc)" using s1(2) s2(2) s3(2) s4(2) by simp
  have dat: "data_at (ch_store c) ?rec b" using data by (simp add: new_index_data)
  have "rec_ok (ch_store c) (bhash b) ?rec" by (rule new_index_ok [OF data b(1) n w str])
  then have "index_fine s4" using put_index_fine [OF k(2) i D(4)] rec_ok_with_undo by blast
  moreover have "undo_at s4 (dbi_FileNum ?rec) (fst uloc) (snd uloc) (SerializeUndoData undo)" using k(1) s1(3) by (auto simp: keeps_def)
  then have "stored s4 (bs @ [b])"
    using stored_snoc [OF D(5,2) ch con [unfolded nH] k(2) i] keeps_data [OF k(2) dat] by simp
  moreover have "maps_ok c' (bs @ [b]) (bs @ [b])"
    using maps_ok_extend [OF D(3) ch nh(2), of c'] c'(2) nH unfolding maps_ok_def by (auto simp: height_map_def)
  moreover have "Suc (unat newHeight) = length (bs @ [b])" using n nh by simp
  moreover have "orphans_ok c'" using D(6) by (simp add: orphans_ok_def c'(2))
  ultimately show ?thesis using ch c' w by (simp add: chain_ok_def mid_def)
qed

section \<open>Side chains\<close>

lemma maps_ok_known:
  assumes "maps_ok c bs bs" "chain_of bs U" "unat n = d h" "h \<in> bhash ` W"
    and "ch_heightByHash c' = (ch_heightByHash c)(h \<mapsto> n)" "ch_hashByHeight c' = ch_hashByHeight c"
  shows "maps_ok c' bs bs"
proof -
  have "ch_heightByHash c' (bhash (bs ! m)) = Some (of_nat m)" if m: "m < length bs" for m
  proof (cases "bhash (bs ! m) = h")
    case True
    then have "unat n = m" using chain_of_depth [OF assms(2) m] assms(3) by simp
    then have "n = of_nat m" by auto
    with True assms(5) show ?thesis by simp
  qed (use assms(1,5) m in \<open>simp add: maps_ok_def\<close>)
  then show ?thesis using assms by (auto simp: maps_ok_def)
qed

lemma chain_ok_known:
  assumes "chain_ok c bs" "unat n = d h" "h \<in> bhash ` W"
  shows "chain_ok (c\<lparr>ch_heightByHash := (ch_heightByHash c)(h \<mapsto> n)\<rparr>) bs"
proof -
  note D = chain_okD [OF assms(1)]
  have "maps_ok (c\<lparr>ch_heightByHash := (ch_heightByHash c)(h \<mapsto> n)\<rparr>) bs bs" by (rule maps_ok_known [OF D(3,2) assms(2,3)]) simp_all
  with assms(1) show ?thesis by (simp add: chain_ok_def mid_def orphans_ok_def)
qed

lemma chain_ok_put_index:
  assumes "chain_ok c bs" "\<not> main_hash bs h" "keeps block_at undo_at (ch_store c) s" "idx s = (idx (ch_store c))(h \<mapsto> rec)"
    and "rec_ok (ch_store c) h rec"
  shows "chain_ok (c\<lparr>ch_store := s\<rparr>) bs"
  using assms put_index_fine [OF assms(3,4) chain_okD(4) [OF assms(1)] assms(5)]
    put_index_stored [OF assms(3,4) chain_okD(5) [OF assms(1)] assms(2)]
  by (simp add: chain_ok_def mid_def maps_ok_def orphans_ok_def)

lemma chain_ok_delete_index:
  assumes "chain_ok c bs" "\<not> main_hash bs h" "keeps block_at undo_at (ch_store c) s" "idx s = (idx (ch_store c))(h := None)"
  shows "chain_ok (c\<lparr>ch_store := s\<rparr>) bs"
proof -
  have "index_fine s" using chain_okD(4) [OF assms(1)] assms(3,4) keeps_rec_ok unfolding index_fine_def
    by (metis fun_upd_apply option.distinct(1))
  with assms put_index_stored [OF assms(3,4) chain_okD(5) [OF assms(1)] assms(2)] show ?thesis
    by (simp add: chain_ok_def mid_def maps_ok_def orphans_ok_def)
qed

lemma chain_ok_forget:
  assumes "chain_ok c bs" "\<not> main_hash bs h"
  shows "chain_ok (c\<lparr>ch_heightByHash := (ch_heightByHash c)(h := None)\<rparr>) bs"
  using assms by (auto simp: chain_ok_def mid_def maps_ok_def orphans_ok_def main_hash_def)

lemma add_side_block_ok:
  assumes "chain_ok c bs" "\<not> main_hash bs (bhash b)" "b \<in> W" "unat n = d (bhash b)" "w = wk (bhash b)"
    and "ValidateBlockStructure b n (ce_params E) None None = Inr ()"
    and "block_at (ch_store c) (fst loc) (fst (snd loc)) (snd (snd loc)) b"
    and "healthy (ch_store (add_side_block E (bhash b) n (new_index b n loc w) c))"
  shows "chain_ok (add_side_block E (bhash b) n (new_index b n loc w) c) bs"
proof -
  obtain x s where p: "bs_PutBlockIndex (ce_store E) True (bhash b) (new_index b n loc w) (ch_store c) = (x, s)" by fastforce
  have eq: "add_side_block E (bhash b) n (new_index b n loc w) c
      = (c\<lparr>ch_store := s\<rparr>)\<lparr>ch_heightByHash := (ch_heightByHash (c\<lparr>ch_store := s\<rparr>))(bhash b \<mapsto> n)\<rparr>"
    by (simp add: add_side_block_def store_try_def p)
  with assms(8) have "healthy s" by simp
  note law = PutBlockIndex_law [OF p this]
  have "chain_ok (c\<lparr>ch_store := s\<rparr>) bs"
    using chain_ok_put_index [OF assms(1,2) _ _ new_index_ok [OF assms(7,3-6)]] law by blast
  from chain_ok_known [OF this assms(4)] assms(3) show ?thesis by (simp add: eq)
qed

lemma add_side_block_rest [simp]:
  "ch_orphans (add_side_block E h n rec c) = ch_orphans c" "ch_ibdMode (add_side_block E h n rec c) = ch_ibdMode c"
  "ch_tipHash (add_side_block E h n rec c) = ch_tipHash c" "ch_tipWork (add_side_block E h n rec c) = ch_tipWork c"
  by (simp_all add: add_side_block_def store_try_def)

lemma drop_side_block_ok:
  assumes "chain_ok c bs" "\<not> main_hash bs h" "healthy (ch_store (drop_side_block E h e c))"
  shows "chain_ok (drop_side_block E h e c) bs"
proof (cases "is_too_deep e")
  case False
  let ?c = "c\<lparr>ch_heightByHash := (ch_heightByHash c)(h := None)\<rparr>"
  obtain x s where p: "bs_DeleteBlockIndex (ce_store E) h (ch_store ?c) = (x, s)" by fastforce
  have eq: "drop_side_block E h e c = ?c\<lparr>ch_store := s\<rparr>" using False p by (simp add: drop_side_block_def store_try_def)
  with assms(3) have "healthy s" by simp
  note law = DeleteBlockIndex_law [OF p this]
  show ?thesis unfolding eq
    by (rule chain_ok_delete_index [OF chain_ok_forget [OF assms(1,2)] assms(2)]) (use law in auto)
qed (use assms in \<open>simp add: drop_side_block_def\<close>)

lemma drop_side_block_rest [simp]:
  "ch_orphans (drop_side_block E h e c) = ch_orphans c" "ch_ibdMode (drop_side_block E h e c) = ch_ibdMode c"
  "ch_tipHash (drop_side_block E h e c) = ch_tipHash c" "ch_tipWork (drop_side_block E h e c) = ch_tipWork c"
  by (simp_all add: drop_side_block_def store_try_def)

section \<open>Health goes back through every handler\<close>

lemma healthy_try:
  "healthy (snd (bs_PutBlockIndex (ce_store E) sync h rec s)) \<Longrightarrow> healthy s"
  "healthy (snd (bs_DeleteBlockIndex (ce_store E) h s)) \<Longrightarrow> healthy s"
  "healthy (snd (bs_PutChainTip (ce_store E) sync h n s)) \<Longrightarrow> healthy s"
  "healthy (snd (bs_FlushUtxoBatch (ce_store E) sync ops s)) \<Longrightarrow> healthy s"
  "healthy (snd (bs_SyncBlockFiles (ce_store E) s)) \<Longrightarrow> healthy s"
  "healthy (snd (bs_FlushBlockIndex (ce_store E) s)) \<Longrightarrow> healthy s"
  using PutBlockIndex_law DeleteBlockIndex_law PutChainTip_law FlushUtxoBatch_law SyncBlockFiles_law FlushBlockIndex_law
  by (metis prod.collapse)+

lemma healthy_side:
  "healthy (ch_store (add_side_block E h n rec c)) \<Longrightarrow> healthy (ch_store c)"
  "healthy (ch_store (drop_side_block E h e c)) \<Longrightarrow> healthy (ch_store c)"
  by (auto simp: add_side_block_def drop_side_block_def store_try_def dest: healthy_try split: if_splits)

lemma back_reorg_commit [simp]: "hback (reorg_commit E clk T n w rd hs trs)"
  by (simp add: reorg_commit_def Let_def remove_old_maps(2))

lemma back_check_depth [simp]: "hback (check_reorg_depth E clk rd)"
  by (simp add: check_reorg_depth_def Let_def)

lemma back_reorg [simp]: "hback (reorg E clk T n w)"
  unfolding reorg_def
  by (intro back_with [rule_format]) (auto simp: hback_def [of "\<lambda>_. None"] Let_def split: option.split sum.split)

lemma back_connect_tip [simp]: "hback (connect_tip E sync h b n w rec)"
  by (simp add: connect_tip_def)

lemma back_side [simp]: "hback (supd (add_side_block E h n rec))"
  "hback (on_error (reorg E clk h n w) (drop_side_block E h))"
  by (rule back_upd, use healthy_side(1) in blast) (rule back_on_error, simp, use healthy_side(2) in blast)

lemma back_process_orphan [simp]: "hback (process_orphan E clk h b)"
  by (simp add: process_orphan_def Let_def)

section \<open>Orphans\<close>

lemma bind_slift:
  "sbind (slift x) f c = Some (r, c') \<longleftrightarrow>
     (\<exists>e. x = Inl e \<and> r = Inl e \<and> c' = c) \<or> (\<exists>y. x = Inr y \<and> f y c = Some (r, c'))"
  by (auto simp: sbind_def slift_def split: sum.splits)

lemma parent_facts:
  assumes ok: "chain_ok c bs" and b: "b \<in> W" "b \<noteq> gen"
    and p: "ch_heightByHash c (hdr_PrevBlock (blk_Header b)) = Some ph" "workForParentChain E c (hdr_PrevBlock (blk_Header b)) = Some pw"
  shows "unat (ph + 1) = d (bhash b)" "pw + CalcBlockWeight (ce_engine E) (blk_Header b) = wk (bhash b)"
proof -
  let ?p = "hdr_PrevBlock (blk_Header b)"
  note D = chain_okD [OF ok] and dep = depth [OF b]
  have ph: "unat ph = d ?p" using D(3) p(1) by (auto simp: maps_ok_def)
  then show "unat (ph + 1) = d (bhash b)" using dep by (simp add: unat_word_ariths)
  from p(2) obtain rec where "idx (ch_store c) ?p = Some rec" "pw = dbi_ChainWork rec" by (auto simp: workForParentChain_def)
  with D(4) have "pw = wk ?p" by (auto simp: index_fine_def rec_ok_def)
  with dep show "pw + CalcBlockWeight (ce_engine E) (blk_Header b) = wk (bhash b)" by simp
qed

definition grows :: "'s Chain \<Rightarrow> 's Chain \<Rightarrow> bool" where
  "grows c c' \<longleftrightarrow> ch_tipWork c \<le> ch_tipWork c' \<and> ch_ibdMode c' = ch_ibdMode c"

lemma grows_refl [simp]: "grows c c"
  by (simp add: grows_def)

lemma grows_trans: "grows c c1 \<Longrightarrow> grows c1 c' \<Longrightarrow> grows c c'"
  by (simp add: grows_def)

lemma extend_grows:
  assumes "chain_ok c bs" "chain_ok c' (bs @ [b])" "hdr_PrevBlock (blk_Header b) = ch_tipHash c" "ch_ibdMode c' = ch_ibdMode c"
  shows "grows c c'"
proof -
  have "b \<in> W" "b \<noteq> gen" using chain_of_snocD [OF chain_okD(2) [OF assms(2)] chain_okD(2) [OF assms(1)]] by auto
  from depth [OF this] assms CalcWork_nonneg [of "hdr_Bits (blk_Header b)"] show ?thesis
    by (simp add: grows_def chain_ok_def CalcBlockWeight_def)
qed

text \<open>What processing one block does to the chain: nothing, an extension by that block, or a new chain with it as its tip.\<close>

definition orphan_result :: "Block list \<Rightarrow> Block \<Rightarrow> 's Chain \<Rightarrow> chain_error + resolved \<Rightarrow> 's Chain \<Rightarrow> bool" where
  "orphan_result bs b c r c' \<longleftrightarrow> ch_orphans c' = ch_orphans c \<and> grows c c' \<and> (\<exists>bs'. chain_ok c' bs'
     \<and> (case r of Inl _ \<Rightarrow> bs' = bs | Inr Enqueue \<Rightarrow> bs' = bs \<or> bs' = bs @ [b] | Inr Reorganised \<Rightarrow> ch_tipHash c' = bhash b))"

lemma side_reorg_ok:
  assumes ok: "chain_ok c bs" and nm: "\<not> main_hash bs (bhash b)" and n: "unat n = d (bhash b)" and w: "w = wk (bhash b)" "ch_tipWork c < w"
    and run: "sbind (on_error (reorg E clk (bhash b) n w) (drop_side_block E (bhash b))) (\<lambda>_. sret Reorganised) c = Some (r, c')"
    and h: "healthy (ch_store c')"
  shows "orphan_result bs b c r c'"
proof -
  obtain r1 c1 where r1: "reorg E clk (bhash b) n w c = Some (r1, c1)"
    using run by (auto simp: sbind_def on_error_def split: option.splits)
  show ?thesis
  proof (cases r1)
    case (Inl e)
    with r1 run have c': "r = Inl e" "c' = drop_side_block E (bhash b) e c1" by (simp_all add: sbind_def on_error_def)
    with h healthy_side(2) have "healthy (ch_store c1)" by blast
    from reorg_ok [OF ok nm n w(1) r1 this] Inl obtain hist where c1: "c1 = c\<lparr>ch_reorgHistory := hist\<rparr>" by auto
    with ok have "chain_ok c1 bs" by simp
    from drop_side_block_ok [OF this nm] h c' have "chain_ok c' bs" by simp
    then show ?thesis using c' c1 by (auto simp: orphan_result_def grows_def)
  next
    case (Inr u)
    with r1 run have c': "r = Inr Reorganised" "c' = c1" by (simp_all add: sbind_def on_error_def sret_def)
    from reorg_ok [OF ok nm n w(1) r1] Inr h c'(2) obtain bs' where "chain_ok c' bs'" "ch_tipHash c' = bhash b"
      "ch_orphans c' = ch_orphans c" "ch_ibdMode c' = ch_ibdMode c" by auto
    moreover from this w have "ch_tipWork c \<le> ch_tipWork c'" by (simp add: chain_ok_def)
    ultimately show ?thesis using c'(1) by (auto simp: orphan_result_def grows_def)
  qed
qed

lemma process_orphan_ok:
  assumes ok: "chain_ok c bs" and b: "b \<in> W" "b \<noteq> gen" and nm: "\<not> main_hash bs (bhash b)"
    and run: "process_orphan E clk (bhash b) b c = Some (r, c')" and h: "healthy (ch_store c')"
  shows "orphan_result bs b c r c'"
proof (cases "(\<exists>e. r = Inl e) \<and> c' = c")
  case True
  with ok show ?thesis by (auto simp: orphan_result_def)
next
  case False
  let ?p = "hdr_PrevBlock (blk_Header b)"
  let ?tail = "\<lambda>ph w anc loc. swith (\<lambda>c. if ?p = ch_tipHash c then
       sbind (slift (map_err ErrValidateInputs (ValidateTransactionInputs (ce_lib E) b (ch_utxoSet c) (ph + 1) (ce_params E)
          (CalcMedianTimePast ph (ancestor_fn E anc c)) None))) (\<lambda>_.
       sbind (connect_tip E True (bhash b) b (ph + 1) w (new_index b (ph + 1) loc w)) (\<lambda>_. sret Enqueue))
     else if w > ch_tipWork c then
       sbind (supd (add_side_block E (bhash b) (ph + 1) (new_index b (ph + 1) loc w))) (\<lambda>_.
       sbind (on_error (reorg E clk (bhash b) (ph + 1) w) (drop_side_block E (bhash b))) (\<lambda>_. sret Reorganised))
     else sbind (supd (add_side_block E (bhash b) (ph + 1) (new_index b (ph + 1) loc w))) (\<lambda>_. sret Enqueue))"
  from run [unfolded process_orphan_def Let_def] False obtain ph pw anc where p: "ch_heightByHash c ?p = Some ph" "workForParentChain E c ?p = Some pw"
    and str: "ValidateBlockStructure b (ph + 1) (ce_params E) None None = Inr ()"
    and run1: "sbind (store_op ErrStoreBlock (bs_WriteBlock (ce_store E) True (bhash b) b))
       (?tail ph (pw + CalcBlockWeight (ce_engine E) (blk_Header b)) anc) c = Some (r, c')"
    by (auto simp: swith_def [of _ c] bind_slift ValidateBlock_def)
  note pf = parent_facts [OF ok b p]
  have bk: "\<forall>x. hback (?tail ph (wk (bhash b)) anc x)" by simp
  from bind_WriteBlock [OF run1 [unfolded pf(2)] h bk] obtain loc s where s: "keeps block_at undo_at (ch_store c) s" "idx s = idx (ch_store c)"
    "block_at s (fst loc) (fst (snd loc)) (snd (snd loc)) b"
    and run2: "?tail ph (wk (bhash b)) anc loc (c\<lparr>ch_store := s\<rparr>) = Some (r, c')" using blocks_ok [OF b(1)] by blast
  let ?c = "c\<lparr>ch_store := s\<rparr>" and ?n = "ph + 1" and ?w = "wk (bhash b)"
  let ?side = "add_side_block E (bhash b) ?n (new_index b ?n loc ?w) ?c"
  have ok1: "chain_ok ?c bs" using chain_ok_store [OF ok s(1,2)] .
  have dat: "block_at (ch_store ?c) (fst loc) (fst (snd loc)) (snd (snd loc)) b" using s(3) by simp
  note side = add_side_block_ok [OF ok1 nm b(1) pf(1) refl str dat]
  have ext: "orphan_result bs b c r c' = orphan_result bs b ?c r c'" by (simp add: orphan_result_def grows_def)
  consider "?p = ch_tipHash c" | "?p \<noteq> ch_tipHash c" "?w > ch_tipWork c" | "?p \<noteq> ch_tipHash c" "\<not> ?w > ch_tipWork c" by blast
  then show ?thesis
  proof cases
    case 1
    from run2 1 consider e where "r = Inl e" "c' = ?c"
      | mtp fees where "ValidateTransactionInputs (ce_lib E) b (ch_utxoSet ?c) ?n (ce_params E) mtp None = Inr fees"
          "sbind (connect_tip E True (bhash b) b ?n ?w (new_index b ?n loc ?w)) (\<lambda>_. sret Enqueue) ?c = Some (r, c')"
      by (auto simp: swith_def bind_slift)
    then show ?thesis
    proof cases
      case 1
      with ok1 show ?thesis unfolding ext by (auto simp: orphan_result_def)
    next
      case 2
      from 2(2) obtain r1 where r1: "connect_tip E True (bhash b) b ?n ?w (new_index b ?n loc ?w) ?c = Some (r1, c')"
        "r = (case r1 of Inl e \<Rightarrow> Inl e | Inr _ \<Rightarrow> Inr Enqueue)"
        by (auto simp: sbind_def sret_def split: option.splits sum.splits)
      have "hdr_PrevBlock (blk_Header b) = ch_tipHash ?c" using 1 by simp
      from connect_tip_ok [OF ok1 b this pf(1) refl str 2(1) dat r1(1) h] r1(2) ok1 extend_grows [OF ok1 _ this]
      show ?thesis unfolding ext by (cases r1) (auto simp: orphan_result_def)
    qed
  next
    case 2
    let ?m = "sbind (on_error (reorg E clk (bhash b) ?n ?w) (drop_side_block E (bhash b))) (\<lambda>_. sret Reorganised)"
    have run3: "?m ?side = Some (r, c')" using 2 run2 by (simp add: swith_def sbind_def [of "supd _"] supd_def)
    have "hback ?m" by simp
    then have "healthy (ch_store ?side)" using run3 h by (rule backD)
    with side_reorg_ok [OF side nm pf(1) refl _ run3 h] 2(2) have "orphan_result bs b ?side r c'" by simp
    then show ?thesis by (simp add: orphan_result_def grows_def)
  next
    case 3
    with run2 have "r = Inr Enqueue" "c' = ?side" by (simp_all add: swith_def sbind_def supd_def sret_def)
    with side h show ?thesis by (auto simp: orphan_result_def grows_def)
  qed
qed

text \<open>
  An orphan that comes up for processing is not on the active chain: its parent is in the queue, and the child that a
  block of the queue has on the active chain is not in the orphan pool.
\<close>

definition childless :: "Block list \<Rightarrow> hash set \<Rightarrow> hash set \<Rightarrow> bool" where
  "childless bs Q K \<longleftrightarrow> (\<forall>n. Suc n < length bs \<longrightarrow> bhash (bs ! n) \<in> Q \<longrightarrow> bhash (bs ! Suc n) \<notin> K)"

lemma childless_mono: "childless bs Q K \<Longrightarrow> Q' \<subseteq> Q \<Longrightarrow> K' \<subseteq> K \<Longrightarrow> childless bs Q' K'"
  by (auto simp: childless_def)

lemma childless_side: "\<not> main_hash bs h \<Longrightarrow> childless bs Q K \<Longrightarrow> childless bs (insert h Q) K"
  by (auto simp: childless_def main_hash_def)

lemma childless_tip: "chain_of bs U \<Longrightarrow> childless bs {bhash (last bs)} K"
  unfolding childless_def
proof (intro allI impI)
  fix n
  assume a: "chain_of bs U" "Suc n < length bs" "bhash (bs ! n) \<in> {bhash (last bs)}"
  then have "bhash (bs ! n) = bhash (bs ! (length bs - 1))" by (simp add: last_conv_nth chain_of_nonempty)
  from chain_of_unique [OF a(1) _ _ this] a(2) have False by linarith
  then show "bhash (bs ! Suc n) \<notin> K" ..
qed

lemma childless_snoc:
  assumes "chain_of (bs @ [b]) U" "childless bs Q K" "bhash b \<notin> K"
  shows "childless (bs @ [b]) (insert (bhash b) Q) K"
  unfolding childless_def
proof (intro allI impI)
  fix n
  assume n: "Suc n < length (bs @ [b])" "bhash ((bs @ [b]) ! n) \<in> insert (bhash b) Q"
  then have "bhash ((bs @ [b]) ! n) \<noteq> bhash b"
    using chain_of_unique [OF assms(1), of n "length bs"] by auto
  with n have q: "bhash (bs ! n) \<in> Q" by (auto simp: nth_append split: if_splits)
  show "bhash ((bs @ [b]) ! Suc n) \<notin> K"
  proof (cases "Suc n < length bs")
    case True
    with q assms(2) show ?thesis by (auto simp: childless_def nth_append)
  next
    case False
    with n(1) have "Suc n = length bs" by simp
    with assms(3) show ?thesis by simp
  qed
qed

lemma childless_not_main:
  assumes "chain_of bs U" "b \<in> W" "b \<noteq> gen" "childless bs Q K" "hdr_PrevBlock (blk_Header b) \<in> Q" "bhash b \<in> K"
  shows "\<not> main_hash bs (bhash b)"
proof
  assume "main_hash bs (bhash b)"
  then obtain m where m: "m < length bs" "bhash (bs ! m) = bhash b" by (auto simp: main_hash_def)
  have mW: "bs ! m \<in> W" using assms(1) m(1) by (auto simp: chain_of_def)
  have hd: "blk_Header (bs ! m) = blk_Header b"
    using headers_inj m(2) mW assms(2) by (auto simp: inj_on_def)
  have "d (bhash b) = m" using chain_of_depth [OF assms(1) m(1)] m(2) by simp
  with depth [OF assms(2,3)] obtain n where n: "m = Suc n" by auto
  have "hdr_PrevBlock (blk_Header (bs ! Suc n)) = bhash (bs ! n)" using assms(1) m(1) n ledger_linked by (auto simp: chain_of_def)
  with hd n assms(5) have "bhash (bs ! n) \<in> Q" by simp
  with assms(4,6) m n show False unfolding childless_def by metis
qed

lemma resolve_back: "resolve_orphans E clk xs q c = Some (q', c') \<Longrightarrow> healthy (ch_store c') \<Longrightarrow> healthy (ch_store c)"
proof (induction xs arbitrary: q c)
  case (Cons x xs)
  from Cons.prems(1) obtain r c1 where r: "process_orphan E clk (fst x) (snd x) c = Some (r, c1)" by (auto split: option.splits)
  have "healthy (ch_store c1)"
    using Cons.prems r Cons.IH by (auto split: sum.splits resolved.splits)
  with backD [OF back_process_orphan r] show ?case by blast
qed simp

definition entries_ok :: "hash \<Rightarrow> (hash \<times> Block) list \<Rightarrow> bool" where
  "entries_ok P xs \<longleftrightarrow> distinct (map fst xs)
     \<and> (\<forall>x \<in> set xs. fst x = bhash (snd x) \<and> snd x \<in> W \<and> snd x \<noteq> gen \<and> hdr_PrevBlock (blk_Header (snd x)) = P)"

lemma resolve_orphans_ok:
  assumes "chain_ok c bs" "entries_ok P xs" "fst ` set xs \<inter> fst ` set (ch_orphans c) = {}"
    and "childless bs (insert P (set q)) (fst ` set xs \<union> fst ` set (ch_orphans c))"
    and "resolve_orphans E clk xs q c = Some (q', c')" "healthy (ch_store c')"
  shows "\<exists>bs'. chain_ok c' bs' \<and> ch_orphans c' = ch_orphans c \<and> grows c c' \<and> childless bs' (set q') (fst ` set (ch_orphans c))"
  using assms
proof (induction xs arbitrary: q c bs)
  case Nil
  then show ?case by (auto intro: childless_mono)
next
  case (Cons x xs)
  obtain h b where x: "x = (h, b)" by fastforce
  have b: "b \<in> W" "b \<noteq> gen" "h = bhash b" "hdr_PrevBlock (blk_Header b) = P" and xs: "entries_ok P xs"
    using Cons.prems(2) by (simp_all add: entries_ok_def x)
  have hx: "h \<notin> fst ` set xs" using conjunct1 [OF Cons.prems(2) [unfolded entries_ok_def]] by (simp add: x)
  note U = chain_okD(2) [OF Cons.prems(1)]
  have nm: "\<not> main_hash bs (bhash b)"
    by (rule childless_not_main [OF U b(1,2) Cons.prems(4)]) (simp_all add: b(4) x b(3) [symmetric])
  from Cons.prems(5) x obtain r c1 where r: "process_orphan E clk (bhash b) b c = Some (r, c1)" by (auto simp: b(3) split: option.splits)
  let ?K = "fst ` set (ch_orphans c)"
  have hK: "h \<notin> fst ` set xs \<union> ?K" using hx Cons.prems(3) x by auto
  have "healthy (ch_store c1)"
    using Cons.prems(5,6) r resolve_back x by (auto simp: b(3) split: sum.splits resolved.splits)
  from process_orphan_ok [OF Cons.prems(1) b(1,2) nm r this] obtain bs1 where
    o: "ch_orphans c1 = ch_orphans c" "grows c c1" "chain_ok c1 bs1"
      "case r of Inl _ \<Rightarrow> bs1 = bs | Inr Enqueue \<Rightarrow> bs1 = bs \<or> bs1 = bs @ [b] | Inr Reorganised \<Rightarrow> ch_tipHash c1 = bhash b"
    by (auto simp: orphan_result_def)
  have cl: "childless bs (insert P (set q)) (fst ` set xs \<union> ?K)" by (rule childless_mono [OF Cons.prems(4)]) auto
  have disj: "fst ` set xs \<inter> fst ` set (ch_orphans c1) = {}" using Cons.prems(3) o(1) x by auto
  have ih: ?case if q2: "resolve_orphans E clk xs q2 c1 = Some (q', c')" "childless bs1 (insert P (set q2)) (fst ` set xs \<union> ?K)" for q2
  proof -
    from Cons.IH [OF o(3) xs disj _ q2(1) Cons.prems(6)] q2(2) o(1) obtain bs' where
      "chain_ok c' bs'" "ch_orphans c' = ch_orphans c" "grows c1 c'" "childless bs' (set q') ?K" by auto
    with grows_trans [OF o(2)] show ?thesis by blast
  qed
  show ?case
  proof (cases r)
    case (Inl e)
    show ?thesis by (rule ih [of q]) (use Cons.prems(5) r x b(3) o(4) Inl cl in auto)
  next
    case (Inr e)
    show ?thesis
    proof (cases e)
      case Enqueue
      have "childless bs1 (insert h (insert P (set q))) (fst ` set xs \<union> ?K)"
      proof (cases "bs1 = bs")
        case True
        with childless_side [OF nm cl] show ?thesis by (simp add: b(3))
      next
        case False
        with o(4) Inr Enqueue have "bs1 = bs @ [b]" by simp
        with childless_snoc [OF _ cl, of b] chain_okD(2) [OF o(3)] hK b(3) show ?thesis by auto
      qed
      then show ?thesis using Cons.prems(5) r x b(3) Inr Enqueue by (intro ih [of "q @ [h]"]) (auto simp: insert_commute)
    next
      case Reorganised
      then have "q' = [h]" "c' = c1" using Cons.prems(5) r x b(3) Inr by auto
      moreover have "childless bs1 {h} ?K" using childless_tip [OF chain_okD(2) [OF o(3)]] o(3,4) Inr Reorganised b(3)
        by (simp add: chain_ok_def)
      ultimately show ?thesis using o by auto
    qed
  qed
qed

lemma orphans_of_entries:
  assumes "orphans_ok c"
  shows "entries_ok P (orphans_of P (ch_orphans c))"
    "fst ` set (orphans_of P (ch_orphans c)) \<inter> fst ` set (ch_orphans (remove_orphans_of P c)) = {}"
    "fst ` set (orphans_of P (ch_orphans c)) \<union> fst ` set (ch_orphans (remove_orphans_of P c)) \<subseteq> fst ` set (ch_orphans c)"
proof -
  let ?g = "\<lambda>(h, ob). (h, ob_block ob)"
  have dist: "distinct (map fst (ch_orphans c))" using assms by (simp add: orphans_ok_def)
  have "map fst (map ?g ys) = map fst ys" for ys :: "(hash \<times> orphanBlock) list" by auto
  moreover have "distinct (map fst (filter Q (ch_orphans c)))" for Q using dist by (rule distinct_map_filter)
  moreover have "mset (map fst (orphans_of P (ch_orphans c)))
      = mset (map fst (map ?g (filter (\<lambda>(h, ob). hdr_PrevBlock (blk_Header (ob_block ob)) = P) (ch_orphans c))))"
    by (simp add: orphans_of_def multiset.map_comp)
  ultimately have "distinct (map fst (orphans_of P (ch_orphans c)))" by (metis mset_eq_imp_distinct_iff)
  then show "entries_ok P (orphans_of P (ch_orphans c))"
    using assms by (auto simp: entries_ok_def orphans_of_def orphans_ok_def known_block_def)
  show "fst ` set (orphans_of P (ch_orphans c)) \<inter> fst ` set (ch_orphans (remove_orphans_of P c)) = {}"
    using dist by (auto simp: orphans_of_def remove_orphans_of_def dest: eq_key_imp_eq_value)
  show "fst ` set (orphans_of P (ch_orphans c)) \<union> fst ` set (ch_orphans (remove_orphans_of P c)) \<subseteq> fst ` set (ch_orphans c)"
    by (force simp: orphans_of_def remove_orphans_of_def)
qed

lemma chain_ok_orphans: "chain_ok c bs \<Longrightarrow> orphans_ok (c\<lparr>ch_orphans := os\<rparr>) \<Longrightarrow> chain_ok (c\<lparr>ch_orphans := os\<rparr>) bs"
  by (simp add: chain_ok_def mid_def maps_ok_def)

lemma orphans_ok_filter: "orphans_ok c \<Longrightarrow> orphans_ok (c\<lparr>ch_orphans := filter Q (ch_orphans c)\<rparr>)"
  by (auto simp: orphans_ok_def distinct_map_filter)

lemma remove_orphans_ok: "chain_ok c bs \<Longrightarrow> chain_ok (remove_orphans_of P c) bs"
  unfolding remove_orphans_of_def by (intro chain_ok_orphans orphans_ok_filter) (auto dest: chain_okD)

lemma orphan_loop_ok:
  assumes "orphan_loop E clk q c = Some c'"
  shows "healthy (ch_store c') \<longrightarrow> healthy (ch_store c)
     \<and> (\<forall>bs. chain_ok c bs \<longrightarrow> childless bs (set q) (fst ` set (ch_orphans c)) \<longrightarrow> (\<exists>bs'. chain_ok c' bs' \<and> grows c c'))"
proof -
  let ?P = "\<lambda>c q c'. healthy (ch_store c') \<longrightarrow> healthy (ch_store c)
     \<and> (\<forall>bs. chain_ok c bs \<longrightarrow> childless bs (set q) (fst ` set (ch_orphans c)) \<longrightarrow> (\<exists>bs'. chain_ok c' bs' \<and> grows c c'))"
  have "E = E \<longrightarrow> ?P c q c'"
  proof (rule orphan_loop.raw_induct [of "\<lambda>E' clk q c c'. E' = E \<longrightarrow> ?P c q c'", OF _ assms])
    fix ol clk q c c' and E' :: "('s, 'sig, 'pk, 'sk) chain_env"
    assume ih: "\<And>E' clk q c c'. ol E' clk q c = Some c' \<Longrightarrow> E' = E \<longrightarrow> ?P c q c'"
      and eq: "(case q of [] \<Rightarrow> Some c | parent # rest \<Rightarrow>
          Option.bind (resolve_orphans E' clk (orphans_of parent (ch_orphans c)) rest (remove_orphans_of parent c))
            (\<lambda>(queue', c'). ol E' clk queue' c')) = Some c'"
    show "E' = E \<longrightarrow> ?P c q c'"
    proof (intro impI)
      assume E: "E' = E" and h: "healthy (ch_store c')"
      show "healthy (ch_store c)
         \<and> (\<forall>bs. chain_ok c bs \<longrightarrow> childless bs (set q) (fst ` set (ch_orphans c)) \<longrightarrow> (\<exists>bs'. chain_ok c' bs' \<and> grows c c'))"
      proof (cases q)
        case Nil
        with eq h show ?thesis by auto
      next
        case (Cons P rest)
        let ?r = "remove_orphans_of P c"
        from eq Cons obtain q1 c1 where r: "resolve_orphans E clk (orphans_of P (ch_orphans c)) rest ?r = Some (q1, c1)"
          and l: "ol E clk q1 c1 = Some c'" by (auto simp: E split: bind_splits)
        from ih [OF l] h have h1: "healthy (ch_store c1)"
          and go: "\<And>bs. chain_ok c1 bs \<Longrightarrow> childless bs (set q1) (fst ` set (ch_orphans c1)) \<Longrightarrow> \<exists>bs'. chain_ok c' bs' \<and> grows c1 c'" by auto
        from resolve_back [OF r h1] have "healthy (ch_store c)" by (simp add: remove_orphans_of_def)
        moreover have "\<exists>bs'. chain_ok c' bs' \<and> grows c c'"
          if ok: "chain_ok c bs" and cl: "childless bs (set q) (fst ` set (ch_orphans c))" for bs
        proof -
          note en = orphans_of_entries [OF chain_okD(6) [OF ok], of P]
          have "childless bs (insert P (set rest)) (fst ` set (orphans_of P (ch_orphans c)) \<union> fst ` set (ch_orphans ?r))"
            by (rule childless_mono [OF cl _ en(3)]) (simp add: Cons)
          from resolve_orphans_ok [OF remove_orphans_ok [OF ok] en(1,2) this r h1] obtain bs1 where
            b1: "chain_ok c1 bs1" "ch_orphans c1 = ch_orphans ?r" "grows ?r c1" "childless bs1 (set q1) (fst ` set (ch_orphans ?r))" by blast
          from go [OF b1(1)] b1(2,4) grows_trans [OF b1(3)] show ?thesis by (auto simp: grows_def remove_orphans_of_def)
        qed
        ultimately show ?thesis by blast
      qed
    qed
  qed
  then show ?thesis by simp
qed

lemma back_processOrphans [simp]: "hback (processOrphans E clk h)"
  using orphan_loop_ok by (auto simp: hback_def processOrphans_def)

lemma processOrphans_ok:
  assumes "chain_ok c bs" "childless bs {h} (fst ` set (ch_orphans c))" "processOrphans E clk h c = Some (r, c')" "healthy (ch_store c')"
  shows "r = Inr ()" "\<exists>bs'. chain_ok c' bs' \<and> grows c c'"
proof -
  from assms(3) have l: "orphan_loop E clk [h] c = Some c'" and r: "r = Inr ()" by (auto simp: processOrphans_def)
  from orphan_loop_ok [OF l] assms show "r = Inr ()" "\<exists>bs'. chain_ok c' bs' \<and> grows c c'" using r by auto
qed

section \<open>Processing a block\<close>

lemma prune_ok: "chain_ok c bs \<Longrightarrow> chain_ok (pruneSideChainIndex c) bs"
proof -
  assume ok: "chain_ok c bs"
  note D = chain_okD [OF ok]
  have un: "unat (of_nat n :: u32) = n" if "n < length bs" for n using unat_of_nat_height [OF D(2) that] .
  have "maps_ok (pruneSideChainIndex c) bs bs"
    using D(3) un unfolding maps_ok_def by (auto simp: pruneSideChainIndex_def Let_def height_map_def split: option.splits if_splits)
  with ok show ?thesis by (simp add: chain_ok_def mid_def orphans_ok_def pruneSideChainIndex_def Let_def)
qed

lemma prune_rest [simp]: "ch_store (pruneSideChainIndex c) = ch_store c" "ch_tipWork (pruneSideChainIndex c) = ch_tipWork c"
  "ch_ibdMode (pruneSideChainIndex c) = ch_ibdMode c"
  by (simp_all add: pruneSideChainIndex_def Let_def)

lemma chain_ok_try:
  assumes "chain_ok c bs" "keeps block_at undo_at (ch_store c) (snd (f (ch_store c))) \<and> idx (snd (f (ch_store c))) = idx (ch_store c)"
  shows "chain_ok (store_try f c) bs"
  using chain_ok_store [OF assms(1)] assms(2) by (simp add: store_try_def)

lemma try_laws:
  "healthy (snd (bs_PutChainTip (ce_store E) sync h n s)) \<Longrightarrow> keeps block_at undo_at s (snd (bs_PutChainTip (ce_store E) sync h n s))
     \<and> idx (snd (bs_PutChainTip (ce_store E) sync h n s)) = idx s"
  "healthy (snd (bs_FlushUtxoBatch (ce_store E) sync ops s)) \<Longrightarrow> keeps block_at undo_at s (snd (bs_FlushUtxoBatch (ce_store E) sync ops s))
     \<and> idx (snd (bs_FlushUtxoBatch (ce_store E) sync ops s)) = idx s"
  "healthy (snd (bs_SyncBlockFiles (ce_store E) s)) \<Longrightarrow> keeps block_at undo_at s (snd (bs_SyncBlockFiles (ce_store E) s))
     \<and> idx (snd (bs_SyncBlockFiles (ce_store E) s)) = idx s"
  "healthy (snd (bs_FlushBlockIndex (ce_store E) s)) \<Longrightarrow> keeps block_at undo_at s (snd (bs_FlushBlockIndex (ce_store E) s))
     \<and> idx (snd (bs_FlushBlockIndex (ce_store E) s)) = idx s"
  using PutChainTip_law FlushUtxoBatch_law SyncBlockFiles_law FlushBlockIndex_law by (metis prod.collapse)+

lemma ibdSyncFlush_ok:
  assumes "chain_ok c bs" "healthy (ch_store (ibdSyncFlush E c))"
  shows "chain_ok (ibdSyncFlush E c) bs" "healthy (ch_store c)"
proof -
  let ?c1 = "store_try (bs_SyncBlockFiles (ce_store E)) c"
  let ?c2 = "store_try (bs_FlushBlockIndex (ce_store E)) ?c1"
  let ?c3 = "store_try (bs_FlushUtxoBatch (ce_store E) True [PutBestBlock (ch_tipHash c)]) ?c2"
  have h4: "healthy (snd (bs_PutChainTip (ce_store E) True (ch_tipHash c) (ch_tipHeight c) (ch_store ?c3)))"
    using assms(2) by (simp add: ibdSyncFlush_def store_try_def)
  from healthy_try(3) [OF h4] have h3: "healthy (snd (bs_FlushUtxoBatch (ce_store E) True [PutBestBlock (ch_tipHash c)] (ch_store ?c2)))"
    by (simp add: store_try_def)
  from healthy_try(4) [OF h3] have h2: "healthy (snd (bs_FlushBlockIndex (ce_store E) (ch_store ?c1)))" by (simp add: store_try_def)
  from healthy_try(6) [OF h2] have h1: "healthy (snd (bs_SyncBlockFiles (ce_store E) (ch_store c)))" by (simp add: store_try_def)
  show "healthy (ch_store c)" using healthy_try(5) [OF h1] .
  from assms(1) try_laws(3) [OF h1] have "chain_ok ?c1 bs" by (rule chain_ok_try)
  then have "chain_ok ?c2 bs" using try_laws(4) [OF h2] by (rule chain_ok_try)
  then have "chain_ok ?c3 bs" using try_laws(2) [OF h3] by (rule chain_ok_try)
  then show "chain_ok (ibdSyncFlush E c) bs" unfolding ibdSyncFlush_def using try_laws(1) [OF h4] by (rule chain_ok_try)
qed

lemma ibdSyncFlush_rest [simp]: "ch_tipWork (ibdSyncFlush E c) = ch_tipWork c" "ch_ibdMode (ibdSyncFlush E c) = ch_ibdMode c"
  "ch_tipHash (ibdSyncFlush E c) = ch_tipHash c" "ch_orphans (ibdSyncFlush E c) = ch_orphans c"
  by (simp_all add: ibdSyncFlush_def store_try_def)

lemma chain_ok_ibd [simp]: "chain_ok (c\<lparr>ch_ibdBlocksSinceSync := n\<rparr>) bs = chain_ok c bs" "chain_ok (c\<lparr>ch_ibdMode := m\<rparr>) bs = chain_ok c bs"
  by (simp_all add: chain_ok_def mid_def maps_ok_def orphans_ok_def)

lemma ibd_checkpoint_ok:
  assumes "chain_ok c bs" "healthy (ch_store (ibd_checkpoint E c))"
  shows "chain_ok (ibd_checkpoint E c) bs" "healthy (ch_store c)"
  using assms ibdSyncFlush_ok [of "c\<lparr>ch_ibdBlocksSinceSync := ch_ibdBlocksSinceSync c + 1\<rparr>" bs]
  by (auto simp: ibd_checkpoint_def Let_def split: if_splits)

lemma ibd_checkpoint_rest [simp]: "ch_tipWork (ibd_checkpoint E c) = ch_tipWork c" "ch_ibdMode (ibd_checkpoint E c) = ch_ibdMode c"
  "ch_tipHash (ibd_checkpoint E c) = ch_tipHash c" "ch_orphans (ibd_checkpoint E c) = ch_orphans c"
  by (simp_all add: ibd_checkpoint_def Let_def)

lemma back_checkpoint [simp]: "hback (supd (\<lambda>c. if sync then c else ibd_checkpoint E c))"
  by (rule back_upd)
    (auto simp: ibd_checkpoint_def ibdSyncFlush_def store_try_def Let_def dest!: healthy_try)

lemma extend_tip_ok:
  assumes ok: "chain_ok c bs" and b: "b \<in> W" "b \<noteq> gen" "hdr_PrevBlock (blk_Header b) = ch_tipHash c"
    and n: "unat n = d (bhash b)" and w: "w = wk (bhash b)"
    and str: "ValidateBlockStructure b n (ce_params E) None None = Inr ()"
    and run: "extend_tip E (bhash b) b n w ph anc c = Some (r, c')" and h: "healthy (ch_store c')"
  shows "case r of Inl e \<Rightarrow> chain_ok c' bs \<and> grows c c'
     | Inr _ \<Rightarrow> chain_ok c' (bs @ [b]) \<and> grows c c' \<and> ch_tipHash c' = bhash b \<and> ch_orphans c' = ch_orphans c"
proof (cases "(\<exists>e. r = Inl e) \<and> c' = c")
  case True
  with ok show ?thesis by auto
next
  case False
  let ?sync = "\<not> ch_ibdMode c" and ?fin = "\<lambda>c1. if \<not> ch_ibdMode c then c1 else ibd_checkpoint E c1"
  let ?tail = "\<lambda>loc. sbind (connect_tip E ?sync (bhash b) b n w (new_index b n loc w)) (\<lambda>_. supd ?fin)"
  have fin: "hback (supd ?fin)" by (rule back_checkpoint)
  from run False obtain mtp fees where inp: "ValidateTransactionInputs (ce_lib E) b (ch_utxoSet c) n (ce_params E) mtp None = Inr fees"
    and run1: "sbind (store_op ErrStoreBlock (bs_WriteBlock (ce_store E) ?sync (bhash b) b)) ?tail c = Some (r, c')"
    unfolding extend_tip_def Let_def swith_def bind_slift by auto
  from bind_WriteBlock [OF run1 h] fin obtain loc s where s: "keeps block_at undo_at (ch_store c) s" "idx s = idx (ch_store c)"
    "block_at s (fst loc) (fst (snd loc)) (snd (snd loc)) b" and run2: "?tail loc (c\<lparr>ch_store := s\<rparr>) = Some (r, c')"
    using blocks_ok [OF b(1)] by auto
  let ?c = "c\<lparr>ch_store := s\<rparr>"
  have ok1: "chain_ok ?c bs" using chain_ok_store [OF ok s(1,2)] .
  obtain r1 c1 where r1: "connect_tip E ?sync (bhash b) b n w (new_index b n loc w) ?c = Some (r1, c1)"
    using run2 by (auto simp: sbind_def split: option.splits)
  have r: "c' = (case r1 of Inl e \<Rightarrow> c1 | Inr _ \<Rightarrow> ?fin c1)" "r = (case r1 of Inl e \<Rightarrow> Inl e | Inr _ \<Rightarrow> Inr ())"
    using run2 r1 by (auto simp: sbind_def supd_def split: sum.splits)
  have h1: "healthy (ch_store c1)"
  proof (cases r1)
    case (Inr u)
    with r have "supd ?fin c1 = Some (r, c')" by (simp add: supd_def)
    from backD [OF fin this h] show ?thesis .
  qed (use r h in simp)
  have prev: "hdr_PrevBlock (blk_Header b) = ch_tipHash ?c" using b(3) by simp
  have inp1: "ValidateTransactionInputs (ce_lib E) b (ch_utxoSet ?c) n (ce_params E) mtp None = Inr fees" using inp by simp
  have dat: "block_at (ch_store ?c) (fst loc) (fst (snd loc)) (snd (snd loc)) b" using s(3) by simp
  note ct = connect_tip_ok [OF ok1 b(1,2) prev n w str inp1 dat r1 h1]
  show ?thesis
  proof (cases r1)
    case (Inl e)
    with r ct ok1 show ?thesis by (simp add: grows_def)
  next
    case (Inr u)
    with ct have c1: "chain_ok c1 (bs @ [b])" "ch_tipHash c1 = bhash b" "ch_orphans c1 = ch_orphans c" "ch_ibdMode c1 = ch_ibdMode c" by simp_all
    have "chain_ok c' (bs @ [b])" using c1(1) ibd_checkpoint_ok(1) [OF c1(1)] h r(1) Inr by auto
    with r Inr c1 extend_grows [OF ok1 c1(1) prev] show ?thesis by (auto simp: grows_def)
  qed
qed

lemma orphans_ok_evict:
  "orphans_ok c \<Longrightarrow> orphans_ok (evictExpiredOrphans clk c)" "orphans_ok c \<Longrightarrow> orphans_ok (evictOldestOrphan c)"
  by (auto simp: evictExpiredOrphans_def evictOldestOrphan_def orphans_ok_filter split: option.splits)

lemma evict_keys:
  "fst ` set (ch_orphans (evictExpiredOrphans clk c)) \<subseteq> fst ` set (ch_orphans c)"
  "fst ` set (ch_orphans (evictOldestOrphan c)) \<subseteq> fst ` set (ch_orphans c)"
  by (auto simp: evictExpiredOrphans_def evictOldestOrphan_def split: option.splits)

lemma evict_frame: "\<exists>os. evictExpiredOrphans clk c = c\<lparr>ch_orphans := os\<rparr>" "\<exists>os. evictOldestOrphan c = c\<lparr>ch_orphans := os\<rparr>"
  by (auto simp: evictExpiredOrphans_def)
    (rule exI [of _ "ch_orphans (evictOldestOrphan c)"], simp add: evictOldestOrphan_def split: option.splits)

lemma add_orphan_frame: "\<exists>os. add_orphan clk h b c = c\<lparr>ch_orphans := os\<rparr>"
proof -
  obtain os1 where 1: "evictExpiredOrphans clk c = c\<lparr>ch_orphans := os1\<rparr>" using evict_frame(1) by blast
  obtain os2 where 2: "evictOldestOrphan (c\<lparr>ch_orphans := os1\<rparr>) = c\<lparr>ch_orphans := os1\<rparr>\<lparr>ch_orphans := os2\<rparr>" using evict_frame(2) by blast
  show ?thesis by (auto simp: add_orphan_def Let_def 1 2)
qed

lemma add_orphan_ok:
  assumes "chain_ok c bs" "known_block b" "bhash b \<notin> fst ` set (ch_orphans c)"
  shows "chain_ok (add_orphan clk (bhash b) b c) bs"
proof -
  let ?c1 = "evictExpiredOrphans clk c"
  let ?c2 = "if length (ch_orphans ?c1) \<ge> MaxOrphanBlocks then evictOldestOrphan ?c1 else ?c1"
  have "orphans_ok ?c2" using chain_okD(6) [OF assms(1)] orphans_ok_evict by simp
  moreover have "fst ` set (ch_orphans ?c2) \<subseteq> fst ` set (ch_orphans c)"
    by (cases "length (ch_orphans ?c1) \<ge> MaxOrphanBlocks")
      (use order.trans [OF evict_keys(2) evict_keys(1)] evict_keys(1) in \<open>simp_all only: if_True if_False\<close>)
  then have "bhash b \<notin> fst ` set (ch_orphans ?c2)" using assms(3) by blast
  ultimately have "orphans_ok (add_orphan clk (bhash b) b c)"
    using assms(2) unfolding add_orphan_def Let_def by (auto simp: orphans_ok_def)
  with assms(1) add_orphan_frame [of clk "bhash b" b c] chain_ok_orphans show ?thesis by auto
qed

lemma back_extend_tip [simp]: "hback (extend_tip E h b n w ph anc)"
  unfolding extend_tip_def Let_def by (intro back_with [rule_format] back_bind back_store back_basic back_connect_tip back_checkpoint allI)

lemma back_store_block_index [simp]: "hback (store_block_index E h b n w)"
  by (simp add: store_block_index_def)

lemma store_block_index_ok:
  assumes ok: "chain_ok c bs" and nm: "\<not> main_hash bs (bhash b)" and b: "b \<in> W" and n: "unat n = d (bhash b)" and w: "w = wk (bhash b)"
    and str: "ValidateBlockStructure b n (ce_params E) None None = Inr ()"
    and run: "store_block_index E (bhash b) b n w c = Some (r, c')" and h: "healthy (ch_store c')"
  shows "r = Inr () \<and> chain_ok c' bs \<and> (\<exists>s. c' = c\<lparr>ch_store := s\<rparr>)"
proof -
  let ?put = "\<lambda>loc. store_op ErrStoreIndex (bs_PutBlockIndex (ce_store E) True (bhash b) (new_index b n loc w))"
  have ret: "m = sbind m (\<lambda>_. sret ())" for m :: "('s, unit) chain_op"
    by (auto simp: fun_eq_iff sbind_def sret_def split: option.splits sum.splits)
  from bind_WriteBlock [OF run [unfolded store_block_index_def] h] obtain loc s1 where
    s1: "keeps block_at undo_at (ch_store c) s1" "idx s1 = idx (ch_store c)" "block_at s1 (fst loc) (fst (snd loc)) (snd (snd loc)) b"
    and run1: "?put loc (c\<lparr>ch_store := s1\<rparr>) = Some (r, c')" using blocks_ok [OF b] by auto
  have "sbind (?put loc) (\<lambda>_. sret ()) (c\<lparr>ch_store := s1\<rparr>) = Some (r, c')" using run1 ret by metis
  from bind_PutBlockIndex [OF this h] obtain s2 where s2: "keeps block_at undo_at s1 s2" "idx s2 = (idx s1)(bhash b \<mapsto> new_index b n loc w)"
    and c': "r = Inr ()" "c' = c\<lparr>ch_store := s2\<rparr>" by (auto simp: sret_def)
  have ok1: "chain_ok (c\<lparr>ch_store := s1\<rparr>) bs" using chain_ok_store [OF ok s1(1,2)] .
  have "chain_ok (c\<lparr>ch_store := s1, ch_store := s2\<rparr>) bs"
    by (rule chain_ok_put_index [OF ok1 nm, where rec = "new_index b n loc w"])
      (use s2 new_index_ok [OF s1(3) b n w str] in simp_all)
  with c' show ?thesis by auto
qed

lemma back_reorg_to [simp]: "hback (reorg_to E clk h n w)"
proof -
  let ?a = "sbind (supd (add_known h n)) (\<lambda>_. sbind (processOrphans E clk h) (\<lambda>_. sfail (ErrSideChain n))) :: ('s, unit) chain_op"
  let ?b = "\<lambda>e. sbind (supd (store_try (bs_DeleteBlockIndex (ce_store E) h))) (\<lambda>_. sfail (ErrReorg e)) :: ('s, unit) chain_op"
  have a: "hback ?a" by (simp add: add_known_def)
  have b: "hback (?b e)" for e
    by (rule back_bind, rule back_upd) (auto simp: store_try_def dest: healthy_try(2))
  show ?thesis
    unfolding hback_def [of "reorg_to E clk h n w"]
  proof (intro allI impI)
    fix c r c'
    assume run: "reorg_to E clk h n w c = Some (r, c')" and h: "healthy (ch_store c')"
    obtain r1 c1 where r1: "reorg E clk h n w c = Some (r1, c1)" using run by (auto simp: reorg_to_def split: option.splits)
    have "healthy (ch_store c1)"
    proof (cases r1)
      case (Inl e)
      show ?thesis
      proof (cases "is_too_deep e")
        case True
        with run r1 Inl have "?a c1 = Some (r, c')" by (simp add: reorg_to_def)
        from backD [OF a this h] show ?thesis .
      next
        case False
        with run r1 Inl have "?b e c1 = Some (r, c')" by (simp add: reorg_to_def)
        from backD [OF b this h] show ?thesis .
      qed
    qed (use run r1 h in \<open>simp add: reorg_to_def\<close>)
    with backD [OF back_reorg r1] show "healthy (ch_store c)" by blast
  qed
qed

text \<open>An error other than \<^verbatim>\<open>ErrSideChain\<close> leaves the active chain as it was.\<close>

definition outcome :: "Block list \<Rightarrow> chain_error + 'a \<Rightarrow> Block list \<Rightarrow> bool" where
  "outcome bs r bs' \<longleftrightarrow> (\<forall>e. r = Inl e \<longrightarrow> (\<forall>n. e \<noteq> ErrSideChain n) \<longrightarrow> bs' = bs)"

lemma outcome_simps [simp]: "outcome bs (Inr x) bs'" "outcome bs r bs" "outcome bs (Inl (ErrSideChain n)) bs'"
  by (simp_all add: outcome_def)

lemma reorg_to_ok:
  assumes ok: "chain_ok c bs" and nm: "\<not> main_hash bs (bhash b)" and b: "b \<in> W" and n: "unat n = d (bhash b)" and w: "w = wk (bhash b)" "ch_tipWork c < w"
    and run: "reorg_to E clk (bhash b) n w c = Some (r, c')" and h: "healthy (ch_store c')"
  shows "\<exists>bs'. chain_ok c' bs' \<and> grows c c' \<and> (r = Inr () \<longrightarrow> ch_tipHash c' = bhash b) \<and> outcome bs r bs'"
proof -
  obtain r1 c1 where r1: "reorg E clk (bhash b) n w c = Some (r1, c1)" using run by (auto simp: reorg_to_def split: option.splits)
  show ?thesis
  proof (cases r1)
    case (Inr u)
    with run r1 have c': "c' = c1" "r = Inr ()" by (simp_all add: reorg_to_def)
    with reorg_ok [OF ok nm n w(1) r1] h Inr obtain bs' where "chain_ok c' bs'" "ch_tipHash c' = bhash b" "ch_ibdMode c' = ch_ibdMode c" by auto
    then show ?thesis using w c'(2) by (auto simp: grows_def chain_ok_def)
  next
    case (Inl e)
    let ?k = "add_known (bhash b) n c1"
    have err: "chain_ok c1 bs \<and> grows c c1" if "healthy (ch_store c1)"
      using reorg_ok [OF ok nm n w(1) r1 that] Inl ok by (auto simp: grows_def)
    show ?thesis
    proof (cases "is_too_deep e")
      case True
      with run r1 Inl have run1: "sbind (processOrphans E clk (bhash b)) (\<lambda>_. sfail (ErrSideChain n)) ?k = Some (r, c')"
        by (simp add: reorg_to_def sbind_def [of "supd _"] supd_def)
      then have po: "processOrphans E clk (bhash b) ?k = Some (Inr (), c')" and r: "r = Inl (ErrSideChain n)"
        by (auto simp: sbind_def sfail_def processOrphans_def split: option.splits)
      have hk: "healthy (ch_store c1)" using backD [OF back_processOrphans po h] by (simp add: add_known_def)
      have okk: "chain_ok ?k bs" unfolding add_known_def using err [OF hk] b n by (intro chain_ok_known) auto
      have "childless bs {bhash b} (fst ` set (ch_orphans ?k))" by (rule childless_side [OF nm]) (simp add: childless_def)
      from processOrphans_ok(2) [OF okk this po h] obtain bs' where "chain_ok c' bs'" "grows ?k c'" by blast
      with err [OF hk] r show ?thesis by (auto simp: grows_def add_known_def)
    next
      case False
      with run r1 Inl have c': "r = Inl (ErrReorg e)" "c' = c1\<lparr>ch_store := snd (bs_DeleteBlockIndex (ce_store E) (bhash b) (ch_store c1))\<rparr>"
        by (simp_all add: reorg_to_def sbind_def supd_def sfail_def store_try_def)
      obtain x s where p: "bs_DeleteBlockIndex (ce_store E) (bhash b) (ch_store c1) = (x, s)" by fastforce
      with c' h have "healthy s" by simp
      note law = DeleteBlockIndex_law [OF p this]
      from err law have e1: "chain_ok c1 bs" "grows c c1" by auto
      have "chain_ok c' bs" using chain_ok_delete_index [OF e1(1) nm] law c' p by simp
      with e1 c' show ?thesis by (auto simp: grows_def)
    qed
  qed
qed

lemma orphans_then:
  assumes ok: "chain_ok c bs" and h: "h = ch_tipHash c" and run: "sbind (processOrphans E clk h) (\<lambda>_. sbind (supd pruneSideChainIndex) (\<lambda>_. sret n)) c = Some (r, c')"
    and hl: "healthy (ch_store c')"
  shows "r = Inr n \<and> (\<exists>bs'. chain_ok c' bs' \<and> grows c c')"
proof -
  from run obtain c1 where po: "processOrphans E clk h c = Some (Inr (), c1)" and c': "c' = pruneSideChainIndex c1" and r: "r = Inr n"
    by (auto simp: sbind_def supd_def sret_def processOrphans_def split: option.splits)
  have "childless bs {h} (fst ` set (ch_orphans c))" using childless_tip [OF chain_okD(2) [OF ok]] h ok by (simp add: chain_ok_def)
  from processOrphans_ok(2) [OF ok this po] hl c' obtain bs' where "chain_ok c1 bs'" "grows c c1" by auto
  with prune_ok c' r show ?thesis by (auto simp: grows_def)
qed

lemma back_tail: "hback (sbind (processOrphans E clk h) (\<lambda>_. sbind (supd pruneSideChainIndex) (\<lambda>_. sret n)))"
  by simp

lemma sbindE:
  assumes "sbind m f c = Some (r, c')"
  obtains (err) e where "m c = Some (Inl e, c')" "r = Inl e" | (ok) x c1 where "m c = Some (Inr x, c1)" "f x c1 = Some (r, c')"
  using assms by (auto simp: sbind_def split: option.splits sum.splits)

text \<open>The three branches for a block with a known parent.\<close>

lemma process_extend:
  assumes ok: "chain_ok c bs" and b: "b \<in> W" "b \<noteq> gen" "hdr_PrevBlock (blk_Header b) = ch_tipHash c"
    and n: "unat n = d (bhash b)" and w: "w = wk (bhash b)" and str: "ValidateBlockStructure b n (ce_params E) None None = Inr ()"
    and run: "sbind (extend_tip E (bhash b) b n w ph anc) (\<lambda>_. sbind (processOrphans E clk (bhash b)) (\<lambda>_.
       sbind (supd pruneSideChainIndex) (\<lambda>_. sret n))) c = Some (r, c')" and h: "healthy (ch_store c')"
  shows "\<exists>bs'. chain_ok c' bs' \<and> grows c c' \<and> outcome bs r bs'"
  using run
proof (cases rule: sbindE)
  case (err e)
  from extend_tip_ok [OF ok b n w str err(1) h] show ?thesis by auto
next
  case (ok x c1)
  have "healthy (ch_store c1)" using backD [OF back_tail ok(2) h] .
  from extend_tip_ok [OF assms(1) b n w str ok(1) this] have c1: "chain_ok c1 (bs @ [b])" "grows c c1" "bhash b = ch_tipHash c1" by auto
  from orphans_then [OF c1(1,3) ok(2) h] grows_trans [OF c1(2)] show ?thesis by auto
qed

lemma process_reorg:
  assumes ok: "chain_ok c bs" and b: "b \<in> W" and nm: "\<not> main_hash bs (bhash b)"
    and n: "unat n = d (bhash b)" and w: "w = wk (bhash b)" "ch_tipWork c < w" and str: "ValidateBlockStructure b n (ce_params E) None None = Inr ()"
    and run: "sbind (store_block_index E (bhash b) b n w) (\<lambda>_. sbind (reorg_to E clk (bhash b) n w) (\<lambda>_.
       sbind (processOrphans E clk (bhash b)) (\<lambda>_. sbind (supd pruneSideChainIndex) (\<lambda>_. sret n)))) c = Some (r, c')"
    and h: "healthy (ch_store c')"
  shows "\<exists>bs'. chain_ok c' bs' \<and> grows c c' \<and> outcome bs r bs'"
  using run
proof (cases rule: sbindE)
  case (err e)
  from store_block_index_ok [OF ok nm b n w(1) str err(1) h] show ?thesis by auto
next
  case (ok x c1)
  have rest: "hback (sbind (reorg_to E clk (bhash b) n w) (\<lambda>_. sbind (processOrphans E clk (bhash b)) (\<lambda>_. sbind (supd pruneSideChainIndex) (\<lambda>_. sret n))))"
    by simp
  have "healthy (ch_store c1)" using backD [OF rest ok(2) h] .
  from store_block_index_ok [OF assms(1) nm b n w(1) str ok(1) this] obtain s where c1: "chain_ok c1 bs" "c1 = c\<lparr>ch_store := s\<rparr>" by blast
  have w1: "ch_tipWork c1 < w" and g: "grows c1 c2 \<longleftrightarrow> grows c c2" for c2 using w(2) c1(2) by (simp_all add: grows_def)
  from ok(2) show ?thesis
  proof (cases rule: sbindE)
    case (err e)
    from reorg_to_ok [OF c1(1) nm b n w(1) w1 err(1) h] g err(2) show ?thesis by (auto simp: outcome_def)
  next
    case (ok y c2)
    have "healthy (ch_store c2)" using backD [OF back_tail ok(2) h] .
    from reorg_to_ok [OF c1(1) nm b n w(1) w1 ok(1) this] g obtain bs2 where c2: "chain_ok c2 bs2" "grows c c2" "bhash b = ch_tipHash c2" by auto
    from orphans_then [OF c2(1,3) ok(2) h] grows_trans [OF c2(2)] show ?thesis by auto
  qed
qed

lemma process_side:
  assumes ok: "chain_ok c bs" and b: "b \<in> W" and nm: "\<not> main_hash bs (bhash b)"
    and n: "unat n = d (bhash b)" and w: "w = wk (bhash b)" and str: "ValidateBlockStructure b n (ce_params E) None None = Inr ()"
    and run: "sbind (store_block_index E (bhash b) b n w) (\<lambda>_. sbind (supd (add_known (bhash b) n)) (\<lambda>_.
       sbind (processOrphans E clk (bhash b)) (\<lambda>_. sfail (ErrSideChain n)))) c = Some (r, c')"
    and h: "healthy (ch_store c')"
  shows "\<exists>bs'. chain_ok c' bs' \<and> grows c c' \<and> outcome bs r bs'"
  using run
proof (cases rule: sbindE)
  case (err e)
  from store_block_index_ok [OF ok nm b n w(1) str err(1) h] show ?thesis by auto
next
  case (ok x c1)
  let ?k = "add_known (bhash b) n c1"
  from ok(2) have po: "processOrphans E clk (bhash b) ?k = Some (Inr (), c')" and r: "r = Inl (ErrSideChain n)"
    by (auto simp: sbind_def supd_def sfail_def processOrphans_def split: option.splits)
  have "healthy (ch_store c1)" using backD [OF back_processOrphans po h] by (simp add: add_known_def)
  from store_block_index_ok [OF assms(1) nm b n w(1) str ok(1) this] obtain s where c1: "chain_ok c1 bs" "c1 = c\<lparr>ch_store := s\<rparr>" by blast
  have okk: "chain_ok ?k bs" unfolding add_known_def using c1(1) b n by (intro chain_ok_known) auto
  have "childless bs {bhash b} (fst ` set (ch_orphans ?k))" by (rule childless_side [OF nm]) (simp add: childless_def)
  from processOrphans_ok(2) [OF okk this po h] show ?thesis by (auto simp: grows_def add_known_def c1(2) r)
qed

lemma if_slift: "(if t then sret () else slift x) = slift (if t then Inr () else x)"
  by (simp add: sret_def slift_def fun_eq_iff)

theorem processBlock_ok:
  assumes ok: "chain_ok c bs" and bW: "b \<in> W" and run: "processBlock E clk trusted b c = Some (r, c')" and h: "healthy (ch_store c')"
  shows "\<exists>bs'. chain_ok c' bs' \<and> grows c c' \<and> outcome bs r bs'"
proof (cases "ch_heightByHash c (bhash b) \<noteq> None \<or> map_of (ch_orphans c) (bhash b) \<noteq> None")
  case True
  with run have "c' = c" by (auto simp: processBlock_def swith_def sfail_def Let_def split: if_splits)
  with ok show ?thesis by auto
next
  case False
  note D = chain_okD [OF ok]
  have notin: "ch_heightByHash c (bhash b) = None" "map_of (ch_orphans c) (bhash b) = None" using False by auto
  have nm: "\<not> main_hash bs (bhash b)" using D(3) False by (auto simp: maps_ok_def main_hash_def)
  with gen_main [OF D(2)] have ng: "b \<noteq> gen" by auto
  let ?p = "hdr_PrevBlock (blk_Header b)"
  show ?thesis
  proof (cases "ch_heightByHash c ?p")
    case None
    with run False have t: "take_orphan E clk (bhash b) b c = Some (r, c')" by (simp add: processBlock_def swith_def Let_def)
    then have "c' = c \<or> c' = add_orphan clk (bhash b) b c"
      by (auto simp: take_orphan_def Let_def sfail_def sbind_def slift_def supd_def split: if_splits sum.splits)
    moreover have "bhash b \<notin> fst ` set (ch_orphans c)" using False by (simp add: map_of_eq_None_iff)
    with add_orphan_ok [OF ok] bW ng have "chain_ok (add_orphan clk (bhash b) b c) bs" by (simp add: known_block_def)
    moreover have "grows c (add_orphan clk (bhash b) b c)" using add_orphan_frame [of clk "bhash b" b c] by (auto simp: grows_def)
    ultimately show ?thesis using ok by auto
  next
    case (Some ph)
    show ?thesis
    proof (cases "c' = c")
      case False
      let ?w = "\<lambda>pw. pw + CalcBlockWeight (ce_engine E) (blk_Header b)"
      from run [unfolded processBlock_def Let_def swith_def if_slift] Some notin False obtain pw anc where
        pw: "workForParentChain E c ?p = Some pw" and str: "ValidateBlockStructure b (ph + 1) (ce_params E) None None = Inr ()"
        and br: "(if ?p = ch_tipHash c then
            sbind (extend_tip E (bhash b) b (ph + 1) (?w pw) ph anc) (\<lambda>_. sbind (processOrphans E clk (bhash b)) (\<lambda>_.
              sbind (supd pruneSideChainIndex) (\<lambda>_. sret (ph + 1))))
          else if ?w pw > ch_tipWork c then
            sbind (store_block_index E (bhash b) b (ph + 1) (?w pw)) (\<lambda>_. sbind (reorg_to E clk (bhash b) (ph + 1) (?w pw)) (\<lambda>_.
              sbind (processOrphans E clk (bhash b)) (\<lambda>_. sbind (supd pruneSideChainIndex) (\<lambda>_. sret (ph + 1)))))
          else
            sbind (store_block_index E (bhash b) b (ph + 1) (?w pw)) (\<lambda>_. sbind (supd (add_known (bhash b) (ph + 1))) (\<lambda>_.
              sbind (processOrphans E clk (bhash b)) (\<lambda>_. sfail (ErrSideChain (ph + 1)))))) c = Some (r, c')"
        by (auto simp: bind_slift ValidateBlock_def simp del: if_split split del: if_split)
      note pf = parent_facts [OF ok bW ng Some pw]
      note br1 = br [unfolded pf(2)]
      consider "?p = ch_tipHash c" | "?p \<noteq> ch_tipHash c" "wk (bhash b) > ch_tipWork c" | "?p \<noteq> ch_tipHash c" "\<not> wk (bhash b) > ch_tipWork c" by blast
      then show ?thesis
      proof cases
        case 1
        show ?thesis by (rule process_extend [OF ok bW ng 1 pf(1) refl str _ h]) (use br1 1 in simp)
      next
        case 2
        show ?thesis by (rule process_reorg [OF ok bW nm pf(1) refl 2(2) str _ h]) (use br1 2 in simp)
      next
        case 3
        show ?thesis by (rule process_side [OF ok bW nm pf(1) refl str _ h]) (use br1 3 in simp)
      qed
    qed (use ok in auto)
  qed
qed

lemma add_orphan_store [simp]: "ch_store (add_orphan clk h b c) = ch_store c"
  using add_orphan_frame [of clk h b c] by auto

lemma back_take_orphan [simp]: "hback (take_orphan E clk h b)"
  by (simp add: take_orphan_def Let_def)

lemma back_processBlock: "hback (processBlock E clk trusted b)"
  unfolding processBlock_def Let_def if_slift
  by (rule back_with [rule_format]) (auto split: option.split simp: add_known_def)

section \<open>Start-up\<close>

lemma chain_of_genesis: "chain_of [gen] (ConnectGenesis NewSet gen)"
  using genesis_fine ledger.genesis [of "ce_lib E" "ce_params E"] by (auto simp: chain_of_def)

lemma initGenesis_ok:
  assumes fine: "index_fine s" and run: "initGenesis E (NewChain s) = Some (Inr (), c')" and h: "healthy (ch_store c')"
  shows "chain_ok c' [gen]"
proof -
  let ?gh = "bhash gen" and ?w = "CalcBlockWeight (ce_engine E) (blk_Header gen)"
  let ?rec = "\<lambda>loc. (new_index gen 0 loc ?w)\<lparr>dbi_Status := StatusHaveData OR StatusValidHeader OR StatusValidTx\<rparr>"
  let ?fin = "\<lambda>c. c\<lparr>ch_tipHash := ?gh, ch_tipHeight := 0, ch_tipWork := ?w, ch_heightByHash := (ch_heightByHash c)(?gh \<mapsto> 0),
      ch_hashByHeight := (ch_hashByHeight c)(0 \<mapsto> ?gh), ch_utxoSet := ConnectGenesis (ch_utxoSet c) gen\<rparr>"
  let ?flush = "flushUtxoSetToChainstate E :: ('s, unit) chain_op"
  have bf: "hback ?flush" by (simp add: flushUtxoSetToChainstate_def)
  have b1: "hback (sbind (supd ?fin) (\<lambda>_. ?flush))" using bf by simp
  from run have run1: "sbind (store_op ErrStoreBlock (bs_WriteBlock (ce_store E) True ?gh gen)) (\<lambda>loc.
     sbind (store_op ErrStoreIndex (bs_PutBlockIndex (ce_store E) True ?gh (?rec loc))) (\<lambda>_.
     sbind (store_op ErrStoreTip (bs_PutChainTip (ce_store E) True ?gh 0)) (\<lambda>_. sbind (supd ?fin) (\<lambda>_. ?flush)))) (NewChain s) = Some (Inr (), c')"
    unfolding initGenesis_def Let_def by (auto simp: sfail_def split: if_split_asm)
  from bind_WriteBlock [OF run1 h] b1 obtain loc s1 where s1: "keeps block_at undo_at s s1" "idx s1 = idx s"
    "block_at s1 (fst loc) (fst (snd loc)) (snd (snd loc)) gen"
    and run2: "sbind (store_op ErrStoreIndex (bs_PutBlockIndex (ce_store E) True ?gh (?rec loc))) (\<lambda>_.
     sbind (store_op ErrStoreTip (bs_PutChainTip (ce_store E) True ?gh 0)) (\<lambda>_. sbind (supd ?fin) (\<lambda>_. ?flush))) (NewChain s1) = Some (Inr (), c')"
    using blocks_ok [OF genesis_fine(2)] by (auto simp: NewChain_def)
  from bind_PutBlockIndex [OF run2 h] b1 obtain s2 where s2: "keeps block_at undo_at s1 s2" "idx s2 = (idx s1)(?gh \<mapsto> ?rec loc)"
    and run3: "sbind (store_op ErrStoreTip (bs_PutChainTip (ce_store E) True ?gh 0)) (\<lambda>_. sbind (supd ?fin) (\<lambda>_. ?flush)) (NewChain s2) = Some (Inr (), c')"
    by (auto simp: NewChain_def)
  from bind_PutChainTip [OF run3 h] b1 obtain s3 where s3: "keeps block_at undo_at s2 s3" "idx s3 = idx s2"
    and run4: "sbind (supd ?fin) (\<lambda>_. ?flush) (NewChain s3) = Some (Inr (), c')" by (auto simp: NewChain_def)
  from run4 have run5: "?flush (?fin (NewChain s3)) = Some (Inr (), c')" by (simp add: sbind_def supd_def)
  let ?c = "?fin (NewChain s3)"
  obtain ops where "?flush ?c = store_op ErrPersist (bs_FlushUtxoBatch (ce_store E) True ops) ?c"
    by (auto simp: flushUtxoSetToChainstate_def swith_def)
  with run5 obtain x s4 where f: "bs_FlushUtxoBatch (ce_store E) True ops (ch_store ?c) = (x, s4)" "c' = ?c\<lparr>ch_store := s4\<rparr>"
    by (auto simp: store_op_def split: prod.splits)
  from f h have "healthy s4" by simp
  note law = FlushUtxoBatch_law [OF f(1) this]
  have "rec_ok s1 ?gh (?rec loc)" using s1(3) genesis_fine(2) depth_genesis by (auto simp: rec_ok_def new_index_def split: prod.splits)
  moreover have "index_fine s1" using keeps_store(1) [OF s1(1,2) fine] .
  ultimately have "index_fine s2" using put_index_fine [OF s2] by blast
  then have fine3: "index_fine s3" using keeps_store(1) [OF s3] by blast
  have "data_at s3 (?rec loc) gen" using s1(3) s2(1) s3(1) by (auto simp: new_index_def keeps_def split: prod.splits)
  then have "stored s3 [gen]" using s2(2) s3(2) by (simp add: stored_def)
  moreover have "maps_ok ?c [gen] [gen]"
    using depth_genesis genesis_fine(2) by (auto simp: maps_ok_def height_map_def NewChain_def unat_eq_zero split: if_splits)
  ultimately have "chain_ok ?c [gen]" using fine3 chain_of_genesis depth_genesis
    by (simp add: chain_ok_def mid_def NewChain_def orphans_ok_def)
  from chain_ok_store [OF this] law f(2) show ?thesis by simp
qed

end

end
