(* ===== verification/Store.thy ===== *)
theory Store
  imports BlockStore Sem "HOL-Library.AList"
begin

text \<open>
  The storage of the node (\<^verbatim>\<open>internal/store\<close>): the append-only block and undo files (\<^verbatim>\<open>blockfile.go\<close>), the block
  index (\<^verbatim>\<open>blockindex.go\<close>), the chainstate (\<^verbatim>\<open>chainstate.go\<close>) and their composition \<^verbatim>\<open>FileStore\<close>
  (\<^verbatim>\<open>filestore.go\<close>), which is shown to keep the contract \<open>block_store\<close>. The numbered files are maps from file numbers
  to contents. Every call that writes a file takes the next event of \<open>bf_io\<close>, which says whether and where it fails;
  reads fail only on what the files hold. LevelDB is a parameter with the contract \<open>leveldb_contract\<close>. The fields
  \<open>bf_exact\<close> and \<open>fs_in_range\<close> are ghosts: no operation reads them, they record whether every write so far
  succeeded at the position it reported and within the range of its format.
\<close>

section \<open>The block and undo files\<close>

abbreviation (input) maxBlockFileSize :: nat where "maxBlockFileSize \<equiv> 128 * 1024 * 1024"

datatype io_event =
    IoOk
  | OpenFails
  | SeekFails
  | WriteFails nat bool
  | SyncFails bool

type_synonym byte4 = "byte \<times> byte \<times> byte \<times> byte"

definition byte4_list :: "byte4 \<Rightarrow> bytes" where
  "byte4_list m = (case m of (a, b, c, d) \<Rightarrow> [a, b, c, d])"

lemma length_byte4 [simp]: "length (byte4_list m) = 4"
  by (simp add: byte4_list_def split: prod.split)

record BlockFileManager =
  bf_magic :: byte4
  bf_curFile :: u32
  bf_curSize :: int
  bf_blk :: "u32 \<rightharpoonup> bytes"
  bf_rev :: "u32 \<rightharpoonup> bytes"
  bf_io :: "nat \<Rightarrow> io_event"
  bf_calls :: nat
  bf_exact :: bool

definition contents :: "bytes option \<Rightarrow> bytes" where
  "contents file = (case file of None \<Rightarrow> [] | Some bs \<Rightarrow> bs)"

text \<open>
  Opening a file for appending, writing a record at its end and syncing it. After a failed write or sync the code truncates
  the file; the flag of the event says whether that worked, and the number how many bytes had been written.
\<close>

definition append_record :: "bool \<Rightarrow> io_event \<Rightarrow> bytes option \<Rightarrow> bytes \<Rightarrow> bool \<times> bytes option" where
  "append_record sync ev file record =
     (let old = contents file in
      case ev of
        IoOk \<Rightarrow> (True, Some (old @ record))
      | OpenFails \<Rightarrow> (False, file)
      | SeekFails \<Rightarrow> (False, Some old)
      | WriteFails n truncated \<Rightarrow> (False, Some (if truncated then old else old @ take n record))
      | SyncFails truncated \<Rightarrow>
          if sync then (False, Some (if truncated then old else old @ record)) else (True, Some (old @ record)))"

definition rotate_file :: "nat \<Rightarrow> BlockFileManager \<Rightarrow> BlockFileManager" where
  "rotate_file frameSize bf =
     (if bf_curSize bf > 0 \<and> bf_curSize bf + int frameSize > int maxBlockFileSize
      then bf\<lparr>bf_curFile := bf_curFile bf + 1, bf_curSize := 0\<rparr> else bf)"

definition WriteBlockRaw :: "bool \<Rightarrow> bytes \<Rightarrow> BlockFileManager \<Rightarrow> (u32 \<times> u32 \<times> u32) option \<times> BlockFileManager" where
  "WriteBlockRaw sync data bf0 =
     (let frameSize = 8 + length data;
          bf = rotate_file frameSize bf0;
          fileNum = bf_curFile bf; offset = of_int (bf_curSize bf); sz = of_nat (length data);
          record = byte4_list (bf_magic bf) @ put_le 4 (sz :: u32) @ data
      in case append_record sync (bf_io bf (bf_calls bf)) (bf_blk bf fileNum) record of (ok, file) \<Rightarrow>
         let bf' = bf\<lparr>bf_blk := (bf_blk bf)(fileNum := file), bf_calls := Suc (bf_calls bf)\<rparr> in
         if ok then (Some (fileNum, offset, sz),
           bf'\<lparr>bf_curSize := bf_curSize bf + int frameSize,
               bf_exact := (bf_exact bf \<and> bf_curSize bf = int (length (contents (bf_blk bf fileNum)))
                 \<and> length (contents (bf_blk bf fileNum)) < 2 ^ 32 \<and> length data < 2 ^ 32)\<rparr>)
         else (None, bf'\<lparr>bf_exact := False\<rparr>))"

definition BFM_WriteBlock :: "bool \<Rightarrow> Block \<Rightarrow> BlockFileManager \<Rightarrow> (u32 \<times> u32 \<times> u32) option \<times> BlockFileManager" where
  "BFM_WriteBlock sync block = WriteBlockRaw sync (Block_Serialize block)"

definition BFM_WriteUndo :: "bool \<Rightarrow> u32 \<Rightarrow> bytes \<Rightarrow> BlockFileManager \<Rightarrow> (u32 \<times> u32) option \<times> BlockFileManager" where
  "BFM_WriteUndo sync fileNum undoData bf =
     (let preWritePos = length (contents (bf_rev bf fileNum)); sz = of_nat (length undoData);
          record = byte4_list (bf_magic bf) @ put_le 4 (sz :: u32) @ undoData @ hash_bytes (DoubleSHA256 undoData)
      in case append_record sync (bf_io bf (bf_calls bf)) (bf_rev bf fileNum) record of (ok, file) \<Rightarrow>
         let bf' = bf\<lparr>bf_rev := (bf_rev bf)(fileNum := file), bf_calls := Suc (bf_calls bf)\<rparr> in
         if ok then (Some (of_nat preWritePos, sz),
           bf'\<lparr>bf_exact := (bf_exact bf \<and> preWritePos < 2 ^ 32 \<and> length undoData < 2 ^ 32)\<rparr>)
         else (None, bf'\<lparr>bf_exact := False\<rparr>))"

definition SyncAll :: "BlockFileManager \<Rightarrow> unit option \<times> BlockFileManager" where
  "SyncAll bf =
     (let bf' = bf\<lparr>bf_calls := Suc (bf_calls bf)\<rparr> in
      case bf_io bf (bf_calls bf) of SyncFails _ \<Rightarrow> (None, bf'\<lparr>bf_exact := False\<rparr>) | _ \<Rightarrow> (Some (), bf'))"

text \<open>The frame in front of a record: the magic, the size the index gave, and the limit.\<close>

definition read_frame :: "BlockFileManager \<Rightarrow> u32 \<Rightarrow> bytes \<Rightarrow> (bytes \<times> bytes) option" where
  "read_frame bf sz bs =
     (if length bs < 8 then None
      else if take 4 bs \<noteq> byte4_list (bf_magic bf) then None
      else let dataSize = (get_le (take 4 (drop 4 bs)) :: u32) in
        if sz > 0 \<and> dataSize \<noteq> sz then None
        else if unat dataSize > maxBlockFileSize then None
        else if length (drop 8 bs) < unat dataSize then None
        else Some (take (unat dataSize) (drop 8 bs), drop (unat dataSize) (drop 8 bs)))"

definition BFM_ReadBlock :: "BlockFileManager \<Rightarrow> u32 \<Rightarrow> u32 \<Rightarrow> u32 \<Rightarrow> Block option" where
  "BFM_ReadBlock bf fileNum offset sz =
     Option.bind (bf_blk bf fileNum) (\<lambda>file.
     Option.bind (read_frame bf sz (drop (unat offset) file)) (\<lambda>(data, rest).
       case Block_Deserialize data of Inl err \<Rightarrow> None | Inr (block, _) \<Rightarrow> Some block))"

definition BFM_ReadUndo :: "BlockFileManager \<Rightarrow> u32 \<Rightarrow> u32 \<Rightarrow> u32 \<Rightarrow> bytes option" where
  "BFM_ReadUndo bf fileNum offset sz =
     Option.bind (bf_rev bf fileNum) (\<lambda>file.
     Option.bind (read_frame bf sz (drop (unat offset) file)) (\<lambda>(data, rest).
       if length rest < 32 then None
       else if take 32 rest \<noteq> hash_bytes (DoubleSHA256 data) then None else Some data))"

definition CurrentFile :: "BlockFileManager \<Rightarrow> u32" where
  "CurrentFile bf = bf_curFile bf"

text \<open>Opening the files: the loop looks for the first number without a file.\<close>

partial_function (option) find_files :: "(u32 \<rightharpoonup> bytes) \<Rightarrow> u32 \<Rightarrow> u32 \<times> int \<Rightarrow> (u32 \<times> int) option" where
  "find_files blk i found =
     (case blk i of None \<Rightarrow> Some found | Some bs \<Rightarrow> find_files blk (i + 1) (i, int (length bs)))"

declare find_files.simps [code]

definition NewBlockFileManager :: "byte4 \<Rightarrow> (u32 \<rightharpoonup> bytes) \<Rightarrow> (u32 \<rightharpoonup> bytes) \<Rightarrow> (nat \<Rightarrow> io_event) \<Rightarrow> BlockFileManager option" where
  "NewBlockFileManager magic blk rev_files io =
     map_option (\<lambda>(n, size). \<lparr>bf_magic = magic, bf_curFile = n, bf_curSize = size, bf_blk = blk, bf_rev = rev_files,
        bf_io = io, bf_calls = 0, bf_exact = True\<rparr>) (find_files blk 0 (0, 0))"

section \<open>Index records\<close>

text \<open>\<^verbatim>\<open>big.Int.Bytes\<close>: the absolute value, big-endian, without leading zeros; and \<^verbatim>\<open>SetBytes\<close>.\<close>

fun big_Bytes :: "nat \<Rightarrow> bytes" where
  "big_Bytes n = (if n = 0 then [] else big_Bytes (n div 256) @ [of_nat n])"

declare big_Bytes.simps [simp del]

definition SetBytes :: "bytes \<Rightarrow> int" where
  "SetBytes bs = int (le_nat (rev bs))"

text \<open>\<open>None\<close> is the panic of the slice expression \<^verbatim>\<open>workBytes[32-len(b):]\<close>.\<close>

definition DiskBlockIndex_Serialize :: "DiskBlockIndex \<Rightarrow> bytes option" where
  "DiskBlockIndex_Serialize d =
     (let b = big_Bytes (nat \<bar>dbi_ChainWork d\<bar>) in
      if length b > 32 then None
      else Some (concat (map (put_le 4) [dbi_Height d, dbi_Status d, dbi_TxCount d, dbi_FileNum d, dbi_DataPos d, dbi_DataSize d,
             dbi_UndoFile d, dbi_UndoPos d, dbi_UndoSize d])
           @ BlockHeader_Serialize (dbi_Header d) @ replicate (32 - length b) 0 @ b))"

definition DeserializeDiskBlockIndex :: "bytes \<Rightarrow> DiskBlockIndex option" where
  "DeserializeDiskBlockIndex data =
     (if length data < 36 + 80 + 32 then None
      else case read_n 9 read_u32 data of
          Inl err \<Rightarrow> None
        | Inr (xs, r) \<Rightarrow> (case BlockHeader_Deserialize r of
            Inl err \<Rightarrow> None
          | Inr (header, r) \<Rightarrow>
              Some \<lparr>dbi_Header = header, dbi_Height = xs ! 0, dbi_Status = xs ! 1, dbi_TxCount = xs ! 2, dbi_FileNum = xs ! 3,
                dbi_DataPos = xs ! 4, dbi_DataSize = xs ! 5, dbi_UndoFile = xs ! 6, dbi_UndoPos = xs ! 7, dbi_UndoSize = xs ! 8,
                dbi_ChainWork = SetBytes (take 32 r)\<rparr>))"

lemma le_nat_big_Bytes: "le_nat (rev (big_Bytes n)) = n"
proof (induction n rule: big_Bytes.induct)
  case (1 n)
  show ?case
  proof (cases "n = 0")
    case False
    with 1 show ?thesis by (subst big_Bytes.simps) (simp add: unat_of_nat)
  qed (simp add: big_Bytes.simps)
qed

lemma length_big_Bytes: "n < 256 ^ k \<Longrightarrow> length (big_Bytes n) \<le> k"
proof (induction n arbitrary: k rule: big_Bytes.induct)
  case (1 n)
  show ?case
  proof (cases "n = 0")
    case False
    with "1.prems" obtain k' where k: "k = Suc k'" by (cases k) auto
    with "1.prems" have "n div 256 < 256 ^ k'" by (simp add: less_mult_imp_div_less mult.commute)
    from "1.IH" [OF False this] False k show ?thesis by (subst big_Bytes.simps) simp
  qed (simp add: big_Bytes.simps)
qed

definition index_in_range :: "DiskBlockIndex \<Rightarrow> bool" where
  "index_in_range d \<longleftrightarrow> 0 \<le> dbi_ChainWork d \<and> dbi_ChainWork d < 2 ^ 256"

lemma index_codec:
  assumes "index_in_range d"
  shows "\<exists>bs. DiskBlockIndex_Serialize d = Some bs \<and> DeserializeDiskBlockIndex bs = Some d"
proof -
  let ?b = "big_Bytes (nat \<bar>dbi_ChainWork d\<bar>)"
  have "nat \<bar>dbi_ChainWork d\<bar> < 256 ^ 32" using assms by (simp add: index_in_range_def nat_less_iff)
  then have len: "length ?b \<le> 32" by (rule length_big_Bytes)
  let ?xs = "[dbi_Height d, dbi_Status d, dbi_TxCount d, dbi_FileNum d, dbi_DataPos d, dbi_DataSize d,
             dbi_UndoFile d, dbi_UndoPos d, dbi_UndoSize d]"
  let ?w = "replicate (32 - length ?b) 0 @ ?b"
  have "le_nat (rev ?w) = nat \<bar>dbi_ChainWork d\<bar>" by (simp add: le_nat_zeros le_nat_big_Bytes)
  then have w: "SetBytes ?w = dbi_ChainWork d" using assms by (simp add: SetBytes_def index_in_range_def)
  have "read_n 9 read_u32 (concat (map (put_le 4) ?xs) @ BlockHeader_Serialize (dbi_Header d) @ ?w)
      = Inr (?xs, BlockHeader_Serialize (dbi_Header d) @ ?w)"
    by (subst u32_codec.read_n_iff) simp
  then have "DeserializeDiskBlockIndex (concat (map (put_le 4) ?xs) @ BlockHeader_Serialize (dbi_Header d) @ ?w) = Some d"
    unfolding DeserializeDiskBlockIndex_def using len w by (simp add: header_codec.dec_enc)
  with len show ?thesis by (auto simp: DiskBlockIndex_Serialize_def Let_def)
qed

section \<open>LevelDB\<close>

datatype db_op = DbPut bytes bytes | DbDelete bytes

record 'db LevelDB =
  ldb_Get :: "'db \<Rightarrow> bytes \<Rightarrow> bytes option"
  ldb_Put :: "bool \<Rightarrow> bytes \<Rightarrow> bytes \<Rightarrow> 'db \<Rightarrow> unit option \<times> 'db"
  ldb_Delete :: "bool \<Rightarrow> bytes \<Rightarrow> 'db \<Rightarrow> unit option \<times> 'db"
  ldb_Write :: "bool \<Rightarrow> db_op list \<Rightarrow> 'db \<Rightarrow> unit option \<times> 'db"
  ldb_CompactRange :: "bytes \<Rightarrow> 'db \<Rightarrow> unit option \<times> 'db"
  ldb_Iter :: "'db \<Rightarrow> bytes \<Rightarrow> (bytes \<times> bytes) list \<times> bool"

definition apply_op :: "db_op \<Rightarrow> (bytes \<rightharpoonup> bytes) \<Rightarrow> (bytes \<rightharpoonup> bytes)" where
  "apply_op p m = (case p of DbPut k v \<Rightarrow> m(k \<mapsto> v) | DbDelete k \<Rightarrow> m(k := None))"

text \<open>
  The documented behaviour of LevelDB: a key-value map, batches applied in order, iterators over a prefix. \<open>db_ok\<close> says
  that no write to the database has failed so far.
\<close>

locale leveldb_contract =
  fixes D :: "'db LevelDB" and db_ok :: "'db \<Rightarrow> bool"
  assumes Put_law: "ldb_Put D sync k v db = (r, db') \<Longrightarrow> db_ok db' \<Longrightarrow> db_ok db \<and> r = Some () \<and> ldb_Get D db' = (ldb_Get D db)(k \<mapsto> v)"
    and Delete_law: "ldb_Delete D sync k db = (r, db') \<Longrightarrow> db_ok db' \<Longrightarrow> db_ok db \<and> r = Some () \<and> ldb_Get D db' = (ldb_Get D db)(k := None)"
    and Write_law: "ldb_Write D sync ops db = (r, db') \<Longrightarrow> db_ok db' \<Longrightarrow>
       db_ok db \<and> r = Some () \<and> ldb_Get D db' = fold apply_op ops (ldb_Get D db)"
    and CompactRange_law: "ldb_CompactRange D start db = (r, db') \<Longrightarrow> db_ok db' \<Longrightarrow> db_ok db \<and> ldb_Get D db' = ldb_Get D db"
    and Iter_law: "ldb_Iter D db p = (kvs, True) \<Longrightarrow> distinct (map fst kvs)
       \<and> (\<forall>k v. (k, v) \<in> set kvs \<longleftrightarrow> take (length p) k = p \<and> ldb_Get D db k = Some v)"

section \<open>FileStore\<close>

record 'db FileStore =
  fs_files :: BlockFileManager
  fs_index :: 'db
  fs_chainstate :: 'db
  fs_in_range :: bool

abbreviation (input) prefixBlock :: byte where "prefixBlock \<equiv> 0x62"
abbreviation (input) prefixUTXO :: byte where "prefixUTXO \<equiv> 0x43"
abbreviation (input) keyBestBlock :: bytes where "keyBestBlock \<equiv> [0x42]"
abbreviation (input) keyChainTip :: bytes where "keyChainTip \<equiv> [0x54]"

definition blockIndexKey :: "hash \<Rightarrow> bytes" where
  "blockIndexKey h = prefixBlock # hash_bytes h"

definition utxoKey :: "hash \<Rightarrow> u32 \<Rightarrow> bytes" where
  "utxoKey txHash index = prefixUTXO # hash_bytes txHash @ put_le 4 index"

text \<open>Operations on the files, lifted to the store; the block hash argument of \<^verbatim>\<open>WriteBlock\<close> is not used.\<close>

definition FS_WriteBlock :: "bool \<Rightarrow> hash \<Rightarrow> Block \<Rightarrow> 'db FileStore \<Rightarrow> (u32 \<times> u32 \<times> u32) option \<times> 'db FileStore" where
  "FS_WriteBlock sync h block fs = (case BFM_WriteBlock sync block (fs_files fs) of (r, bf) \<Rightarrow> (r, fs\<lparr>fs_files := bf\<rparr>))"

definition FS_ReadBlock :: "'db FileStore \<Rightarrow> u32 \<Rightarrow> u32 \<Rightarrow> u32 \<Rightarrow> Block option" where
  "FS_ReadBlock fs = BFM_ReadBlock (fs_files fs)"

definition FS_WriteUndo :: "bool \<Rightarrow> u32 \<Rightarrow> bytes \<Rightarrow> 'db FileStore \<Rightarrow> (u32 \<times> u32) option \<times> 'db FileStore" where
  "FS_WriteUndo sync fileNum data fs = (case BFM_WriteUndo sync fileNum data (fs_files fs) of (r, bf) \<Rightarrow> (r, fs\<lparr>fs_files := bf\<rparr>))"

definition FS_ReadUndo :: "'db FileStore \<Rightarrow> u32 \<Rightarrow> u32 \<Rightarrow> u32 \<Rightarrow> bytes option" where
  "FS_ReadUndo fs = BFM_ReadUndo (fs_files fs)"

definition FS_SyncBlockFiles :: "'db FileStore \<Rightarrow> unit option \<times> 'db FileStore" where
  "FS_SyncBlockFiles fs = (case SyncAll (fs_files fs) of (r, bf) \<Rightarrow> (r, fs\<lparr>fs_files := bf\<rparr>))"

text \<open>The block index.\<close>

definition FS_PutBlockIndex :: "'db LevelDB \<Rightarrow> bool \<Rightarrow> hash \<Rightarrow> DiskBlockIndex \<Rightarrow> 'db FileStore \<Rightarrow> unit option \<times> 'db FileStore" where
  "FS_PutBlockIndex D sync h rec fs =
     (case DiskBlockIndex_Serialize rec of
        None \<Rightarrow> (None, fs\<lparr>fs_in_range := False\<rparr>)
      | Some data \<Rightarrow> (case ldb_Put D sync (blockIndexKey h) data (fs_index fs) of (r, db) \<Rightarrow>
          (r, fs\<lparr>fs_index := db, fs_in_range := (fs_in_range fs \<and> index_in_range rec)\<rparr>)))"

definition FS_FlushBlockIndex :: "'db LevelDB \<Rightarrow> 'db FileStore \<Rightarrow> unit option \<times> 'db FileStore" where
  "FS_FlushBlockIndex D fs = (case ldb_CompactRange D [prefixBlock] (fs_index fs) of (r, db) \<Rightarrow> (r, fs\<lparr>fs_index := db\<rparr>))"

definition FS_GetBlockIndex :: "'db LevelDB \<Rightarrow> 'db FileStore \<Rightarrow> hash \<Rightarrow> DiskBlockIndex option" where
  "FS_GetBlockIndex D fs h = Option.bind (ldb_Get D (fs_index fs) (blockIndexKey h)) DeserializeDiskBlockIndex"

definition FS_HasBlock :: "'db LevelDB \<Rightarrow> 'db FileStore \<Rightarrow> hash \<Rightarrow> bool" where
  "FS_HasBlock D fs h \<longleftrightarrow> ldb_Get D (fs_index fs) (blockIndexKey h) \<noteq> None"

definition FS_DeleteBlockIndex :: "'db LevelDB \<Rightarrow> hash \<Rightarrow> 'db FileStore \<Rightarrow> unit option \<times> 'db FileStore" where
  "FS_DeleteBlockIndex D h fs = (case ldb_Delete D True (blockIndexKey h) (fs_index fs) of (r, db) \<Rightarrow> (r, fs\<lparr>fs_index := db\<rparr>))"

primrec decode_index :: "(bytes \<times> bytes) list \<Rightarrow> (hash \<times> DiskBlockIndex) list option" where
  "decode_index [] = Some []"
| "decode_index (kv # kvs) =
     (if length (fst kv) \<noteq> 33 then decode_index kvs
      else Option.bind (DeserializeDiskBlockIndex (snd kv)) (\<lambda>rec.
           map_option (\<lambda>rest. (hash_copy (tl (fst kv)), rec) # rest) (decode_index kvs)))"

definition FS_ForEachBlockIndex :: "'db LevelDB \<Rightarrow> 'db FileStore \<Rightarrow> (hash \<times> DiskBlockIndex) list option" where
  "FS_ForEachBlockIndex D fs =
     (case ldb_Iter D (fs_index fs) [prefixBlock] of (kvs, ok) \<Rightarrow> if ok then decode_index kvs else None)"

definition FS_GetChainTip :: "'db LevelDB \<Rightarrow> 'db FileStore \<Rightarrow> (hash \<times> u32) option" where
  "FS_GetChainTip D fs = Option.bind (ldb_Get D (fs_index fs) keyChainTip) (\<lambda>data.
     if length data \<noteq> 36 then None else Some (hash_copy (take 32 data), get_le (rev (drop 32 data))))"

definition FS_PutChainTip :: "'db LevelDB \<Rightarrow> bool \<Rightarrow> hash \<Rightarrow> u32 \<Rightarrow> 'db FileStore \<Rightarrow> unit option \<times> 'db FileStore" where
  "FS_PutChainTip D sync h height fs =
     (case ldb_Put D sync keyChainTip (hash_bytes h @ rev (put_le 4 height)) (fs_index fs) of (r, db) \<Rightarrow> (r, fs\<lparr>fs_index := db\<rparr>))"

definition PutLastFile :: "'db LevelDB \<Rightarrow> u32 \<Rightarrow> 'db FileStore \<Rightarrow> unit option \<times> 'db FileStore" where
  "PutLastFile D fileNum fs = (case ldb_Put D True [0x6C] (put_le 4 fileNum) (fs_index fs) of (r, db) \<Rightarrow> (r, fs\<lparr>fs_index := db\<rparr>))"

definition GetLastFile :: "'db LevelDB \<Rightarrow> 'db FileStore \<Rightarrow> u32 option" where
  "GetLastFile D fs = Option.bind (ldb_Get D (fs_index fs) [0x6C]) (\<lambda>data. if length data < 4 then None else Some (get_le (take 4 data)))"

text \<open>The chainstate.\<close>

definition FS_PutUtxo :: "'db LevelDB \<Rightarrow> hash \<Rightarrow> u32 \<Rightarrow> bytes \<Rightarrow> 'db FileStore \<Rightarrow> unit option \<times> 'db FileStore" where
  "FS_PutUtxo D txHash index data fs =
     (case ldb_Put D False (utxoKey txHash index) data (fs_chainstate fs) of (r, db) \<Rightarrow> (r, fs\<lparr>fs_chainstate := db\<rparr>))"

definition FS_DeleteUtxo :: "'db LevelDB \<Rightarrow> hash \<Rightarrow> u32 \<Rightarrow> 'db FileStore \<Rightarrow> unit option \<times> 'db FileStore" where
  "FS_DeleteUtxo D txHash index fs =
     (case ldb_Delete D False (utxoKey txHash index) (fs_chainstate fs) of (r, db) \<Rightarrow> (r, fs\<lparr>fs_chainstate := db\<rparr>))"

definition FS_PutBestBlock :: "'db LevelDB \<Rightarrow> hash \<Rightarrow> 'db FileStore \<Rightarrow> unit option \<times> 'db FileStore" where
  "FS_PutBestBlock D h fs = (case ldb_Put D True keyBestBlock (hash_bytes h) (fs_chainstate fs) of (r, db) \<Rightarrow> (r, fs\<lparr>fs_chainstate := db\<rparr>))"

definition batch_entry :: "batch_op \<Rightarrow> db_op" where
  "batch_entry p = (case p of
     PutUtxo txHash index data \<Rightarrow> DbPut (utxoKey txHash index) data
   | DeleteUtxo txHash index \<Rightarrow> DbDelete (utxoKey txHash index)
   | PutBestBlock h \<Rightarrow> DbPut keyBestBlock (hash_bytes h))"

definition FS_FlushUtxoBatch :: "'db LevelDB \<Rightarrow> bool \<Rightarrow> batch_op list \<Rightarrow> 'db FileStore \<Rightarrow> unit option \<times> 'db FileStore" where
  "FS_FlushUtxoBatch D sync ops fs =
     (case ldb_Write D sync (map batch_entry ops) (fs_chainstate fs) of (r, db) \<Rightarrow> (r, fs\<lparr>fs_chainstate := db\<rparr>))"

definition FS_GetUtxo :: "'db LevelDB \<Rightarrow> 'db FileStore \<Rightarrow> hash \<Rightarrow> u32 \<Rightarrow> bytes option" where
  "FS_GetUtxo D fs txHash index = ldb_Get D (fs_chainstate fs) (utxoKey txHash index)"

definition FS_HasUtxo :: "'db LevelDB \<Rightarrow> 'db FileStore \<Rightarrow> hash \<Rightarrow> u32 \<Rightarrow> bool" where
  "FS_HasUtxo D fs txHash index \<longleftrightarrow> ldb_Get D (fs_chainstate fs) (utxoKey txHash index) \<noteq> None"

definition FS_GetBestBlock :: "'db LevelDB \<Rightarrow> 'db FileStore \<Rightarrow> hash option" where
  "FS_GetBestBlock D fs = Option.bind (ldb_Get D (fs_chainstate fs) keyBestBlock) (\<lambda>data.
     if length data \<noteq> 32 then None else Some (hash_copy data))"

definition utxo_entries :: "(bytes \<times> bytes) list \<Rightarrow> (hash \<times> u32 \<times> bytes) list" where
  "utxo_entries kvs = map (\<lambda>(k, v). (hash_copy (take 32 (tl k)), get_le (drop 32 (tl k)), v)) (filter (\<lambda>(k, v). length k = 37) kvs)"

definition FS_ForEachUtxo :: "'db LevelDB \<Rightarrow> 'db FileStore \<Rightarrow> (hash \<times> u32 \<times> bytes) list option" where
  "FS_ForEachUtxo D fs =
     (case ldb_Iter D (fs_chainstate fs) [prefixUTXO] of (kvs, ok) \<Rightarrow> if ok then Some (utxo_entries kvs) else None)"

definition FS_UtxoCount :: "'db LevelDB \<Rightarrow> 'db FileStore \<Rightarrow> nat option" where
  "FS_UtxoCount D fs =
     (case ldb_Iter D (fs_chainstate fs) [] of (kvs, ok) \<Rightarrow>
        if ok then Some (length (filter (\<lambda>(k, v). k \<noteq> [] \<and> hd k = prefixUTXO) kvs)) else None)"

definition FS_GetBlock :: "'db LevelDB \<Rightarrow> 'db FileStore \<Rightarrow> hash \<Rightarrow> Block option" where
  "FS_GetBlock D fs h = Option.bind (FS_GetBlockIndex D fs h) (\<lambda>rec.
     if dbi_Status rec AND StatusHaveData = 0 then None
     else Option.bind (FS_ReadBlock fs (dbi_FileNum rec) (dbi_DataPos rec) (dbi_DataSize rec)) (\<lambda>block.
       if HashBlockHeader (blk_Header block) \<noteq> h then None else Some block))"

definition FS_GetHeader :: "'db LevelDB \<Rightarrow> 'db FileStore \<Rightarrow> hash \<Rightarrow> BlockHeader option" where
  "FS_GetHeader D fs h = map_option dbi_Header (FS_GetBlockIndex D fs h)"

definition FileStore_ops :: "'db LevelDB \<Rightarrow> 'db FileStore BlockStore" where
  "FileStore_ops D = \<lparr>bs_HasBlock = FS_HasBlock D, bs_WriteBlock = FS_WriteBlock, bs_ReadBlock = FS_ReadBlock,
     bs_WriteUndo = FS_WriteUndo, bs_ReadUndo = FS_ReadUndo, bs_SyncBlockFiles = FS_SyncBlockFiles,
     bs_PutBlockIndex = FS_PutBlockIndex D, bs_FlushBlockIndex = FS_FlushBlockIndex D, bs_GetBlockIndex = FS_GetBlockIndex D,
     bs_DeleteBlockIndex = FS_DeleteBlockIndex D, bs_ForEachBlockIndex = FS_ForEachBlockIndex D,
     bs_GetChainTip = FS_GetChainTip D, bs_PutChainTip = FS_PutChainTip D, bs_FlushUtxoBatch = FS_FlushUtxoBatch D,
     bs_GetBestBlock = FS_GetBestBlock D, bs_ForEachUtxo = FS_ForEachUtxo D, bs_GetBlock = FS_GetBlock D,
     bs_GetHeader = FS_GetHeader D\<rparr>"

section \<open>Records in files\<close>

definition frame_at :: "BlockFileManager \<Rightarrow> bytes option \<Rightarrow> u32 \<Rightarrow> u32 \<Rightarrow> bytes \<Rightarrow> bytes \<Rightarrow> bool" where
  "frame_at bf file pos sz data rest \<longleftrightarrow> (\<exists>pre. file = Some (pre @ byte4_list (bf_magic bf) @ put_le 4 sz @ data @ rest)
     \<and> length pre = unat pos \<and> unat sz = length data)"

definition blk_at :: "BlockFileManager \<Rightarrow> u32 \<Rightarrow> u32 \<Rightarrow> u32 \<Rightarrow> Block \<Rightarrow> bool" where
  "blk_at bf f pos sz b \<longleftrightarrow> Block_ok b \<and> (\<exists>rest. frame_at bf (bf_blk bf f) pos sz (Block_Serialize b) rest)"

definition rev_at :: "BlockFileManager \<Rightarrow> u32 \<Rightarrow> u32 \<Rightarrow> u32 \<Rightarrow> bytes \<Rightarrow> bool" where
  "rev_at bf f pos sz u \<longleftrightarrow> (\<exists>rest. frame_at bf (bf_rev bf f) pos sz u (hash_bytes (DoubleSHA256 u) @ rest))"

lemma read_frame_at:
  assumes "frame_at bf file pos sz data rest"
  shows "\<exists>bs. file = Some bs \<and> read_frame bf sz (drop (unat pos) bs) = (if length data > maxBlockFileSize then None else Some (data, rest))"
proof -
  from assms obtain pre where f: "file = Some (pre @ byte4_list (bf_magic bf) @ put_le 4 sz @ data @ rest)"
    "length pre = unat pos" "unat sz = length data" by (auto simp: frame_at_def)
  then show ?thesis by (simp add: read_frame_def Let_def)
qed

lemma frame_at_append: "frame_at bf (Some file) pos sz data rest \<Longrightarrow> frame_at bf (Some (file @ extra)) pos sz data (rest @ extra)"
  unfolding frame_at_def by (metis append_assoc option.inject)

lemma frame_at_end:
  assumes "length bs < 2 ^ 32" "length data < 2 ^ 32"
  shows "frame_at bf (Some (bs @ byte4_list (bf_magic bf) @ put_le 4 (of_nat (length data) :: u32) @ data @ rest))
    (of_nat (length bs)) (of_nat (length data)) data rest"
  using assms unfolding frame_at_def by (intro exI [of _ bs]) (simp add: unat_of_nat)

lemma frame_at_magic: "bf_magic bf' = bf_magic bf \<Longrightarrow> frame_at bf' = frame_at bf"
  by (simp add: frame_at_def fun_eq_iff)

lemma ReadBlock_blk_at:
  assumes "blk_at bf f pos sz b"
  shows "BFM_ReadBlock bf f pos sz = (if length (Block_Serialize b) > maxBlockFileSize then None else Some b)"
proof -
  from assms obtain rest where "Block_ok b" "frame_at bf (bf_blk bf f) pos sz (Block_Serialize b) rest" by (auto simp: blk_at_def)
  from this(1) read_frame_at [OF this(2)] show ?thesis by (auto simp: BFM_ReadBlock_def block_codec.dec_whole)
qed

lemma ReadUndo_rev_at:
  assumes "rev_at bf f pos sz u"
  shows "BFM_ReadUndo bf f pos sz = (if length u > maxBlockFileSize then None else Some u)"
proof -
  from assms obtain rest where "frame_at bf (bf_rev bf f) pos sz u (hash_bytes (DoubleSHA256 u) @ rest)" by (auto simp: rev_at_def)
  from read_frame_at [OF this] show ?thesis by (auto simp: BFM_ReadUndo_def)
qed

lemma append_record_ok: "append_record sync ev file record = (True, file') \<Longrightarrow> file' = Some (contents file @ record)"
  by (auto simp: append_record_def Let_def split: io_event.splits if_splits)

text \<open>A later write leaves the records of both files in place.\<close>

lemma frame_at_grow:
  assumes "frame_at bf file pos sz data rest"
  shows "\<exists>rest'. frame_at bf (Some (contents file @ extra)) pos sz data (rest @ rest')"
proof -
  from assms obtain bs where "file = Some bs" by (auto simp: frame_at_def)
  with assms show ?thesis by (auto simp: contents_def intro: frame_at_append)
qed

definition files_keep :: "BlockFileManager \<Rightarrow> BlockFileManager \<Rightarrow> bool" where
  "files_keep bf bf' \<longleftrightarrow> bf_magic bf' = bf_magic bf
     \<and> (\<forall>f. \<exists>extra. bf_blk bf' f = bf_blk bf f \<or> bf_blk bf' f = Some (contents (bf_blk bf f) @ extra))
     \<and> (\<forall>f. \<exists>extra. bf_rev bf' f = bf_rev bf f \<or> bf_rev bf' f = Some (contents (bf_rev bf f) @ extra))"

lemma files_keep_at:
  assumes "files_keep bf bf'"
  shows "blk_at bf f pos sz b \<Longrightarrow> blk_at bf' f pos sz b" "rev_at bf f pos sz u \<Longrightarrow> rev_at bf' f pos sz u"
proof -
  have "bf_magic bf' = bf_magic bf" using assms by (simp add: files_keep_def)
  then have m: "frame_at bf' = frame_at bf" by (rule frame_at_magic)
  show "blk_at bf' f pos sz b" if b: "blk_at bf f pos sz b"
  proof -
    from b obtain rest where fr: "frame_at bf (bf_blk bf f) pos sz (Block_Serialize b) rest" by (auto simp: blk_at_def)
    from assms obtain extra where "bf_blk bf' f = bf_blk bf f \<or> bf_blk bf' f = Some (contents (bf_blk bf f) @ extra)"
      by (auto simp: files_keep_def)
    then show ?thesis using b fr frame_at_grow [OF fr, of extra] unfolding blk_at_def m by auto
  qed
  show "rev_at bf' f pos sz u" if r: "rev_at bf f pos sz u"
  proof -
    from r obtain rest where fr: "frame_at bf (bf_rev bf f) pos sz u (hash_bytes (DoubleSHA256 u) @ rest)" by (auto simp: rev_at_def)
    from assms obtain extra where "bf_rev bf' f = bf_rev bf f \<or> bf_rev bf' f = Some (contents (bf_rev bf f) @ extra)"
      by (auto simp: files_keep_def)
    then show ?thesis using fr frame_at_grow [OF fr, of extra] unfolding rev_at_def m by auto
  qed
qed

lemma rotate_file_simps [simp]: "bf_blk (rotate_file n bf) = bf_blk bf" "bf_rev (rotate_file n bf) = bf_rev bf"
  "bf_magic (rotate_file n bf) = bf_magic bf" "bf_exact (rotate_file n bf) = bf_exact bf" "bf_io (rotate_file n bf) = bf_io bf"
  "bf_calls (rotate_file n bf) = bf_calls bf"
  by (simp_all add: rotate_file_def)

lemma WriteBlockRaw_exact:
  assumes "WriteBlockRaw sync data bf = (r, bf')" "bf_exact bf'"
  shows "bf_exact bf \<and> files_keep bf bf' \<and> (\<exists>f pos sz. r = Some (f, pos, sz) \<and> frame_at bf' (bf_blk bf' f) pos sz data [])"
proof -
  let ?bf = "rotate_file (8 + length data) bf"
  let ?f = "bf_curFile ?bf"
  obtain ok fc where a: "append_record sync (bf_io bf (bf_calls bf)) (bf_blk bf ?f) (byte4_list (bf_magic bf) @ put_le 4 (of_nat (length data) :: u32) @ data) = (ok, fc)"
    by fastforce
  with assms have ok: "ok" by (auto simp: WriteBlockRaw_def Let_def split: if_splits)
  have fl: "fc = Some (contents (bf_blk bf ?f) @ byte4_list (bf_magic bf) @ put_le 4 (of_nat (length data) :: u32) @ data)"
    by (rule append_record_ok) (use a ok in simp)
  let ?new = "?bf\<lparr>bf_blk := (bf_blk bf)(?f := fc), bf_calls := Suc (bf_calls bf), bf_curSize := bf_curSize ?bf + int (8 + length data),
      bf_exact := (bf_exact bf \<and> bf_curSize ?bf = int (length (contents (bf_blk bf ?f)))
                 \<and> length (contents (bf_blk bf ?f)) < 2 ^ 32 \<and> length data < 2 ^ 32)\<rparr>"
  have res: "r = Some (?f, of_int (bf_curSize ?bf), of_nat (length data))" "bf' = ?new"
    using assms(1) a ok by (auto simp: WriteBlockRaw_def Let_def)
  with assms(2) have ex: "bf_exact bf" "bf_curSize ?bf = int (length (contents (bf_blk bf ?f)))"
    "length (contents (bf_blk bf ?f)) < 2 ^ 32" "length data < 2 ^ 32" by simp_all
  have "frame_at bf' (bf_blk bf' ?f) (of_nat (length (contents (bf_blk bf ?f)))) (of_nat (length data)) data []"
    using frame_at_end [OF ex(3,4), of bf' "[]"] by (simp add: res(2) fl)
  moreover have "files_keep bf bf'" by (auto simp: files_keep_def res(2) fl)
  ultimately show ?thesis using ex(1,2) res(1) by simp
qed

lemma BFM_WriteUndo_exact:
  assumes "BFM_WriteUndo sync f u bf = (r, bf')" "bf_exact bf'"
  shows "bf_exact bf \<and> files_keep bf bf' \<and> (\<exists>pos sz. r = Some (pos, sz) \<and> rev_at bf' f pos sz u)"
proof -
  let ?rec = "byte4_list (bf_magic bf) @ put_le 4 (of_nat (length u) :: u32) @ u @ hash_bytes (DoubleSHA256 u)"
  let ?pos = "length (contents (bf_rev bf f))"
  obtain ok fc where a: "append_record sync (bf_io bf (bf_calls bf)) (bf_rev bf f) ?rec = (ok, fc)" by fastforce
  with assms have ok: "ok" by (auto simp: BFM_WriteUndo_def Let_def split: if_splits)
  have fl: "fc = Some (contents (bf_rev bf f) @ ?rec)" by (rule append_record_ok) (use a ok in simp)
  have res: "r = Some (of_nat ?pos, of_nat (length u))"
    "bf' = bf\<lparr>bf_rev := (bf_rev bf)(f := fc), bf_calls := Suc (bf_calls bf), bf_exact := (bf_exact bf \<and> ?pos < 2 ^ 32 \<and> length u < 2 ^ 32)\<rparr>"
    using assms(1) a ok by (auto simp: BFM_WriteUndo_def Let_def)
  with assms(2) have ex: "bf_exact bf" "?pos < 2 ^ 32" "length u < 2 ^ 32" by simp_all
  have "frame_at bf' (bf_rev bf' f) (of_nat ?pos) (of_nat (length u)) u (hash_bytes (DoubleSHA256 u) @ [])"
    using frame_at_end [OF ex(2,3), of bf' "hash_bytes (DoubleSHA256 u) @ []"] by (simp add: res(2) fl)
  then have "rev_at bf' f (of_nat ?pos) (of_nat (length u)) u" unfolding rev_at_def by blast
  moreover have "files_keep bf bf'" by (auto simp: files_keep_def res(2) fl)
  ultimately show ?thesis using ex(1) res(1) by simp
qed

section \<open>FileStore keeps the contract of the storage interface\<close>

definition fs_healthy :: "('db \<Rightarrow> bool) \<Rightarrow> 'db FileStore \<Rightarrow> bool" where
  "fs_healthy db_ok s \<longleftrightarrow> bf_exact (fs_files s) \<and> fs_in_range s \<and> db_ok (fs_index s) \<and> db_ok (fs_chainstate s)"

definition fs_block_at :: "'db FileStore \<Rightarrow> u32 \<Rightarrow> u32 \<Rightarrow> u32 \<Rightarrow> Block \<Rightarrow> bool" where
  "fs_block_at s = blk_at (fs_files s)"

definition fs_undo_at :: "'db FileStore \<Rightarrow> u32 \<Rightarrow> u32 \<Rightarrow> u32 \<Rightarrow> bytes \<Rightarrow> bool" where
  "fs_undo_at s = rev_at (fs_files s)"

lemma blockIndexKey_inject [simp]: "blockIndexKey h = blockIndexKey k \<longleftrightarrow> h = k"
  by (simp add: blockIndexKey_def hash_eq_iff)

lemma blockIndexKey_tip [simp]: "blockIndexKey h \<noteq> keyChainTip" "keyChainTip \<noteq> blockIndexKey h"
  by (simp_all add: blockIndexKey_def)

lemma rev_at_length: "rev_at bf f pos sz u \<Longrightarrow> length u < 2 ^ 32"
proof -
  assume "rev_at bf f pos sz u"
  then have "length u = unat sz" by (auto simp: rev_at_def frame_at_def)
  moreover have "unat sz < 2 ^ 32" using unsigned_less [of sz] by simp
  ultimately show ?thesis by simp
qed

lemma fs_keeps: "files_keep (fs_files s) (fs_files s') \<Longrightarrow> keeps fs_block_at fs_undo_at s s'"
  by (auto simp: keeps_def fs_block_at_def fs_undo_at_def files_keep_at)

lemma files_keep_refl [simp]: "files_keep bf bf"
  by (simp add: files_keep_def)

lemma fs_keeps_same: "fs_files s' = fs_files s \<Longrightarrow> keeps fs_block_at fs_undo_at s s'"
  by (simp add: keeps_def fs_block_at_def fs_undo_at_def)

lemma SyncAll_keep: "SyncAll bf = (r, bf') \<Longrightarrow> (bf_exact bf' \<longrightarrow> bf_exact bf) \<and> files_keep bf bf'"
  by (auto simp: SyncAll_def Let_def files_keep_def split: io_event.splits)

lemma GetBlockIndex_cong: "fs_index s' = fs_index s \<Longrightarrow> FS_GetBlockIndex D s' = FS_GetBlockIndex D s"
  by (simp add: FS_GetBlockIndex_def fun_eq_iff)

sublocale leveldb_contract \<subseteq> file_store: block_store "FileStore_ops D" "fs_healthy db_ok" fs_block_at fs_undo_at
proof
  fix s :: "'db FileStore" and h
  show "bs_GetHeader (FileStore_ops D) s h = map_option dbi_Header (bs_GetBlockIndex (FileStore_ops D) s h)"
    by (simp add: FileStore_ops_def FS_GetHeader_def)
next
  fix s :: "'db FileStore" and h b
  assume "bs_GetBlock (FileStore_ops D) s h = Some b"
  then show "HashBlockHeader (blk_Header b) = h \<and> (\<exists>rec. bs_GetBlockIndex (FileStore_ops D) s h = Some rec
      \<and> bs_ReadBlock (FileStore_ops D) s (dbi_FileNum rec) (dbi_DataPos rec) (dbi_DataSize rec) = Some b)"
    by (auto simp: FileStore_ops_def FS_GetBlock_def split: bind_splits if_splits)
next
  fix s :: "'db FileStore" and f pos sz b b'
  assume "fs_block_at s f pos sz b" "bs_ReadBlock (FileStore_ops D) s f pos sz = Some b'"
  then show "b' = b"
    using ReadBlock_blk_at by (auto simp: FileStore_ops_def fs_block_at_def FS_ReadBlock_def split: if_splits)
next
  fix s :: "'db FileStore" and f pos sz u u'
  assume "fs_undo_at s f pos sz u" "bs_ReadUndo (FileStore_ops D) s f pos sz = Some u'"
  then show "u' = u"
    using ReadUndo_rev_at by (auto simp: FileStore_ops_def fs_undo_at_def FS_ReadUndo_def split: if_splits)
next
  fix s :: "'db FileStore" and f pos sz u
  assume "fs_undo_at s f pos sz u"
  then show "length u < 2 ^ 32" using rev_at_length by (auto simp: fs_undo_at_def)
next
  fix sync h b rb and s s' :: "'db FileStore"
  assume w: "bs_WriteBlock (FileStore_ops D) sync h b s = (rb, s')" and h: "fs_healthy db_ok s'"
  from w obtain bf' where bf: "WriteBlockRaw sync (Block_Serialize b) (fs_files s) = (rb, bf')" "s' = s\<lparr>fs_files := bf'\<rparr>"
    by (auto simp: FileStore_ops_def FS_WriteBlock_def BFM_WriteBlock_def split: prod.splits)
  from h bf have "bf_exact bf'" by (simp add: fs_healthy_def)
  from WriteBlockRaw_exact [OF bf(1) this] obtain f pos sz where x: "bf_exact (fs_files s)" "files_keep (fs_files s) bf'"
    "rb = Some (f, pos, sz)" "frame_at bf' (bf_blk bf' f) pos sz (Block_Serialize b) []" by blast
  then show "fs_healthy db_ok s \<and> keeps fs_block_at fs_undo_at s s' \<and> bs_GetBlockIndex (FileStore_ops D) s' = bs_GetBlockIndex (FileStore_ops D) s
      \<and> (\<exists>f pos sz. rb = Some (f, pos, sz) \<and> (Block_ok b \<longrightarrow> fs_block_at s' f pos sz b))"
    using h bf(2) fs_keeps [of s s'] GetBlockIndex_cong [of s' s]
    by (auto simp: fs_healthy_def FileStore_ops_def fs_block_at_def blk_at_def)
next
  fix sync f u ru and s s' :: "'db FileStore"
  assume w: "bs_WriteUndo (FileStore_ops D) sync f u s = (ru, s')" and h: "fs_healthy db_ok s'"
  from w obtain bf' where bf: "BFM_WriteUndo sync f u (fs_files s) = (ru, bf')" "s' = s\<lparr>fs_files := bf'\<rparr>"
    by (auto simp: FileStore_ops_def FS_WriteUndo_def split: prod.splits)
  from h bf have "bf_exact bf'" by (simp add: fs_healthy_def)
  from BFM_WriteUndo_exact [OF bf(1) this]
  show "fs_healthy db_ok s \<and> keeps fs_block_at fs_undo_at s s' \<and> bs_GetBlockIndex (FileStore_ops D) s' = bs_GetBlockIndex (FileStore_ops D) s
      \<and> (\<exists>pos sz. ru = Some (pos, sz) \<and> fs_undo_at s' f pos sz u)"
    using h bf(2) fs_keeps [of s s'] GetBlockIndex_cong [of s' s]
    by (auto simp: fs_healthy_def FileStore_ops_def fs_undo_at_def)
next
  fix sync h rec ri and s s' :: "'db FileStore"
  assume w: "bs_PutBlockIndex (FileStore_ops D) sync h rec s = (ri, s')" and h: "fs_healthy db_ok s'"
  from w h obtain data db where d: "DiskBlockIndex_Serialize rec = Some data" "ldb_Put D sync (blockIndexKey h) data (fs_index s) = (ri, db)"
    "s' = s\<lparr>fs_index := db, fs_in_range := (fs_in_range s \<and> index_in_range rec)\<rparr>"
    by (auto simp: FileStore_ops_def FS_PutBlockIndex_def fs_healthy_def split: option.splits prod.splits)
  from h d have "db_ok db" "index_in_range rec" by (auto simp: fs_healthy_def)
  with Put_law [OF d(2)] index_codec [of rec] d(1) have
    x: "db_ok (fs_index s)" "ri = Some ()" "ldb_Get D db = (ldb_Get D (fs_index s))(blockIndexKey h \<mapsto> data)" "DeserializeDiskBlockIndex data = Some rec" by auto
  show "fs_healthy db_ok s \<and> keeps fs_block_at fs_undo_at s s'
      \<and> bs_GetBlockIndex (FileStore_ops D) s' = (bs_GetBlockIndex (FileStore_ops D) s)(h \<mapsto> rec) \<and> ri = Some ()"
    using x h d(3) fs_keeps_same [of s' s] by (auto simp: fs_healthy_def FileStore_ops_def FS_GetBlockIndex_def fun_eq_iff)
next
  fix h rd and s s' :: "'db FileStore"
  assume w: "bs_DeleteBlockIndex (FileStore_ops D) h s = (rd, s')" and h: "fs_healthy db_ok s'"
  from w obtain db where d: "ldb_Delete D True (blockIndexKey h) (fs_index s) = (rd, db)" "s' = s\<lparr>fs_index := db\<rparr>"
    by (auto simp: FileStore_ops_def FS_DeleteBlockIndex_def split: prod.splits)
  with Delete_law [OF d(1)] h show "fs_healthy db_ok s \<and> keeps fs_block_at fs_undo_at s s'
      \<and> bs_GetBlockIndex (FileStore_ops D) s' = (bs_GetBlockIndex (FileStore_ops D) s)(h := None)"
    using fs_keeps_same [of s' s] by (auto simp: fs_healthy_def FileStore_ops_def FS_GetBlockIndex_def fun_eq_iff)
next
  fix sync h n rt and s s' :: "'db FileStore"
  assume w: "bs_PutChainTip (FileStore_ops D) sync h n s = (rt, s')" and h: "fs_healthy db_ok s'"
  from w obtain db where d: "ldb_Put D sync keyChainTip (hash_bytes h @ rev (put_le 4 n)) (fs_index s) = (rt, db)" "s' = s\<lparr>fs_index := db\<rparr>"
    by (auto simp: FileStore_ops_def FS_PutChainTip_def split: prod.splits)
  with Put_law [OF d(1)] h show "fs_healthy db_ok s \<and> keeps fs_block_at fs_undo_at s s'
      \<and> bs_GetBlockIndex (FileStore_ops D) s' = bs_GetBlockIndex (FileStore_ops D) s \<and> rt = Some ()"
    using fs_keeps_same [of s' s] by (auto simp: fs_healthy_def FileStore_ops_def FS_GetBlockIndex_def fun_eq_iff)
next
  fix sync ops rf and s s' :: "'db FileStore"
  assume w: "bs_FlushUtxoBatch (FileStore_ops D) sync ops s = (rf, s')" and h: "fs_healthy db_ok s'"
  from w obtain db where d: "ldb_Write D sync (map batch_entry ops) (fs_chainstate s) = (rf, db)" "s' = s\<lparr>fs_chainstate := db\<rparr>"
    by (auto simp: FileStore_ops_def FS_FlushUtxoBatch_def split: prod.splits)
  with Write_law [OF d(1)] h show "fs_healthy db_ok s \<and> keeps fs_block_at fs_undo_at s s'
      \<and> bs_GetBlockIndex (FileStore_ops D) s' = bs_GetBlockIndex (FileStore_ops D) s \<and> rf = Some ()
      \<and> bs_GetBlock (FileStore_ops D) s' = bs_GetBlock (FileStore_ops D) s \<and> bs_ReadUndo (FileStore_ops D) s' = bs_ReadUndo (FileStore_ops D) s"
    using fs_keeps_same [of s' s]
    by (auto simp: fs_healthy_def FileStore_ops_def FS_GetBlockIndex_def FS_GetBlock_def FS_ReadBlock_def FS_ReadUndo_def fun_eq_iff
        cong: if_cong)
next
  fix r and s s' :: "'db FileStore"
  assume w: "bs_SyncBlockFiles (FileStore_ops D) s = (r, s')" and h: "fs_healthy db_ok s'"
  from w obtain bf' where bf: "SyncAll (fs_files s) = (r, bf')" "s' = s\<lparr>fs_files := bf'\<rparr>"
    by (auto simp: FileStore_ops_def FS_SyncBlockFiles_def split: prod.splits)
  with SyncAll_keep [OF bf(1)] h show "fs_healthy db_ok s \<and> keeps fs_block_at fs_undo_at s s'
      \<and> bs_GetBlockIndex (FileStore_ops D) s' = bs_GetBlockIndex (FileStore_ops D) s"
    using fs_keeps [of s s'] GetBlockIndex_cong [of s' s] by (auto simp: fs_healthy_def FileStore_ops_def)
next
  fix r and s s' :: "'db FileStore"
  assume w: "bs_FlushBlockIndex (FileStore_ops D) s = (r, s')" and h: "fs_healthy db_ok s'"
  from w obtain db where d: "ldb_CompactRange D [prefixBlock] (fs_index s) = (r, db)" "s' = s\<lparr>fs_index := db\<rparr>"
    by (auto simp: FileStore_ops_def FS_FlushBlockIndex_def split: prod.splits)
  with CompactRange_law [OF d(1)] h show "fs_healthy db_ok s \<and> keeps fs_block_at fs_undo_at s s'
      \<and> bs_GetBlockIndex (FileStore_ops D) s' = bs_GetBlockIndex (FileStore_ops D) s"
    using fs_keeps_same [of s' s] by (auto simp: fs_healthy_def FileStore_ops_def FS_GetBlockIndex_def fun_eq_iff)
qed

section \<open>An in-memory database\<close>

text \<open>A database that never fails keeps the contract; \<^verbatim>\<open>FileStore\<close> over it is the instance the witnesses use.\<close>

definition mem_op :: "db_op \<Rightarrow> (bytes \<times> bytes) list \<Rightarrow> (bytes \<times> bytes) list" where
  "mem_op p db = (case p of DbPut k v \<Rightarrow> AList.update k v db | DbDelete k \<Rightarrow> AList.delete k db)"

definition mem_db :: "(bytes \<times> bytes) list LevelDB" where
  "mem_db = \<lparr>ldb_Get = map_of, ldb_Put = \<lambda>sync k v db. (Some (), AList.update k v db),
     ldb_Delete = \<lambda>sync k db. (Some (), AList.delete k db), ldb_Write = \<lambda>sync ops db. (Some (), fold mem_op ops db),
     ldb_CompactRange = \<lambda>start db. (Some (), db),
     ldb_Iter = \<lambda>db p. (filter (\<lambda>kv. take (length p) (fst kv) = p) (AList.clearjunk db), True)\<rparr>"

lemma map_of_mem_op: "map_of (mem_op p db) = apply_op p (map_of db)"
  by (cases p) (auto simp: mem_op_def apply_op_def update_conv' delete_conv')

lemma map_of_mem_ops: "map_of (fold mem_op ops db) = fold apply_op ops (map_of db)"
  by (induction ops arbitrary: db) (simp_all add: map_of_mem_op)

interpretation mem: leveldb_contract mem_db "\<lambda>_. True"
proof
  fix db p kvs
  assume "ldb_Iter mem_db db p = (kvs, True)"
  then have kvs: "kvs = filter (\<lambda>kv. take (length p) (fst kv) = p) (AList.clearjunk db)" by (simp add: mem_db_def)
  have "distinct (map fst kvs)" unfolding kvs by (rule distinct_map_filter) simp
  moreover have "(k, v) \<in> set (AList.clearjunk db) \<longleftrightarrow> map_of db k = Some v" for k v
    by (metis distinct_clearjunk map_of_clearjunk map_of_eq_Some_iff)
  ultimately show "distinct (map fst kvs) \<and> (\<forall>k v. (k, v) \<in> set kvs \<longleftrightarrow> take (length p) k = p \<and> ldb_Get mem_db db k = Some v)"
    by (auto simp: kvs mem_db_def)
qed (auto simp: mem_db_def update_conv' delete_conv' map_of_mem_ops)

section \<open>Positions and restarts\<close>

definition empty_files :: BlockFileManager where
  "empty_files = \<lparr>bf_magic = (0xFA, 0x1C, 0xC0, 0xFF), bf_curFile = 0, bf_curSize = 0, bf_blk = Map.empty, bf_rev = Map.empty,
     bf_io = (\<lambda>_. IoOk), bf_calls = 0, bf_exact = True\<rparr>"

definition empty_block :: Block where
  "empty_block = \<lparr>blk_Header = \<lparr>hdr_Version = 1, hdr_PrevBlock = ZeroHash, hdr_MerkleRoot = ZeroHash, hdr_Timestamp = 0,
     hdr_Bits = 0x207fffff, hdr_Nonce = 0\<rparr>, blk_Transactions = []\<rparr>"

text \<open>
  \<open>files_ok\<close>: the block files are numbered without gaps up to the current one, and \<^verbatim>\<open>curSize\<close> is its size.
\<close>

definition files_ok :: "BlockFileManager \<Rightarrow> bool" where
  "files_ok bf \<longleftrightarrow> (\<forall>i. bf_blk bf i \<noteq> None \<longrightarrow> i \<le> bf_curFile bf) \<and> (\<forall>i < bf_curFile bf. bf_blk bf i \<noteq> None)
     \<and> (bf_blk bf (bf_curFile bf) = None \<longrightarrow> bf_curFile bf = 0)
     \<and> bf_curSize bf = int (length (contents (bf_blk bf (bf_curFile bf))))"

lemma rotate_ok:
  assumes "files_ok bf" "unat (bf_curFile bf) + 1 < 2 ^ 32"
  shows "bf_curSize (rotate_file n bf) = int (length (contents (bf_blk bf (bf_curFile (rotate_file n bf)))))"
    "length (contents (bf_blk bf (bf_curFile (rotate_file n bf)))) \<le> maxBlockFileSize"
    "\<forall>i. bf_blk bf i \<noteq> None \<longrightarrow> i \<le> bf_curFile (rotate_file n bf)" "\<forall>i < bf_curFile (rotate_file n bf). bf_blk bf i \<noteq> None"
proof -
  have suc: "unat (bf_curFile bf + 1) = Suc (unat (bf_curFile bf))" using assms(2) by (simp add: unat_word_ariths)
  have new: "bf_blk bf (bf_curFile bf + 1) = None"
  proof (rule ccontr)
    assume "bf_blk bf (bf_curFile bf + 1) \<noteq> None"
    with assms(1) have "bf_curFile bf + 1 \<le> bf_curFile bf" unfolding files_ok_def by blast
    with suc show False by (simp add: word_le_nat_alt)
  qed
  show "bf_curSize (rotate_file n bf) = int (length (contents (bf_blk bf (bf_curFile (rotate_file n bf)))))"
    "length (contents (bf_blk bf (bf_curFile (rotate_file n bf)))) \<le> maxBlockFileSize"
    using assms(1) new by (auto simp: rotate_file_def files_ok_def contents_def)
  have "i \<le> bf_curFile bf \<Longrightarrow> i \<le> bf_curFile bf + 1" for i using suc by (simp add: word_le_nat_alt)
  then show "\<forall>i. bf_blk bf i \<noteq> None \<longrightarrow> i \<le> bf_curFile (rotate_file n bf)"
    using assms(1) unfolding rotate_file_def files_ok_def by auto
  have "i < bf_curFile bf \<or> i = bf_curFile bf" if "i < bf_curFile bf + 1" for i
    using that suc by (auto simp: word_less_nat_alt word_unat_eq_iff)
  then show "\<forall>i < bf_curFile (rotate_file n bf). bf_blk bf i \<noteq> None"
    using assms(1) by (auto simp: rotate_file_def files_ok_def contents_def split: option.splits)
qed

lemma WriteBlockRaw_tracks:
  assumes "files_ok bf" "unat (bf_curFile bf) + 1 < 2 ^ 32" "bf_io bf (bf_calls bf) = IoOk" "length data < 2 ^ 32"
  shows "\<exists>f pos sz bf'. WriteBlockRaw sync data bf = (Some (f, pos, sz), bf') \<and> files_ok bf' \<and> bf_exact bf' = bf_exact bf
     \<and> frame_at bf' (bf_blk bf' f) pos sz data [] \<and> files_keep bf bf'"
proof -
  let ?bf = "rotate_file (8 + length data) bf" and ?bfx = "bf\<lparr>bf_exact := True\<rparr>"
  note r = rotate_ok [OF assms(1,2), of "8 + length data"]
  let ?f = "bf_curFile ?bf"
  let ?file = "contents (bf_blk bf ?f) @ byte4_list (bf_magic bf) @ put_le 4 (of_nat (length data) :: u32) @ data"
  let ?new = "\<lambda>ex. ?bf\<lparr>bf_blk := (bf_blk bf)(?f := Some ?file), bf_calls := Suc (bf_calls bf), bf_curSize := bf_curSize ?bf + int (8 + length data),
      bf_exact := ex\<rparr>"
  have res: "WriteBlockRaw sync data bf = (Some (?f, of_int (bf_curSize ?bf), of_nat (length data)), ?new (bf_exact bf))"
    using r(1,2) assms(3,4) by (simp add: WriteBlockRaw_def Let_def append_record_def)
  have fl: "length (contents (bf_blk bf ?f)) < 2 ^ 32" using r(2) by simp
  have "files_ok (?new (bf_exact bf))" using r(1,3,4) by (auto simp: files_ok_def contents_def)
  moreover have "frame_at (?new (bf_exact bf)) (Some ?file) (of_nat (length (contents (bf_blk bf ?f)))) (of_nat (length data)) data []"
    using frame_at_end [OF fl assms(4), of "?new (bf_exact bf)" "[]"] by simp
  moreover have "files_keep bf (?new (bf_exact bf))" by (auto simp: files_keep_def)
  ultimately show ?thesis unfolding res using r(1) by (intro exI conjI) auto
qed



text \<open>A restart finds the files as they were left: scanning the directory gives back the current file and its size.
\<close>

theorem block_files_reopen:
  assumes "files_ok bf" "unat (bf_curFile bf) + 1 < 2 ^ 32"
  shows "\<exists>bf'. NewBlockFileManager (bf_magic bf) (bf_blk bf) (bf_rev bf) io = Some bf' \<and> files_ok bf'
     \<and> bf_curFile bf' = bf_curFile bf \<and> bf_curSize bf' = bf_curSize bf"
proof -
  let ?cur = "bf_curFile bf"
  have none: "bf_blk bf (?cur + 1) = None"
  proof (rule ccontr)
    assume "bf_blk bf (?cur + 1) \<noteq> None"
    with assms(1) have "?cur + 1 \<le> ?cur" unfolding files_ok_def by blast
    with assms(2) show False by (simp add: word_le_nat_alt unat_word_ariths)
  qed
  have go: "find_files (bf_blk bf) i found = Some (?cur, bf_curSize bf)"
    if "i \<le> ?cur" "bf_blk bf ?cur \<noteq> None" for i found
    using that(1)
  proof (induction "unat ?cur - unat i" arbitrary: i found)
    case 0
    then have "i = ?cur" by (simp add: word_le_nat_alt word_unat_eq_iff)
    with that(2) none assms(1) show ?case
      by (subst find_files.simps, subst find_files.simps) (auto simp: files_ok_def contents_def)
  next
    case (Suc n)
    then have lt: "unat i < unat ?cur" by simp
    then have u: "unat (i + 1) = Suc (unat i)" using assms(2) by (simp add: unat_word_ariths)
    from lt assms(1) obtain bs where "bf_blk bf i = Some bs" by (auto simp: files_ok_def word_less_nat_alt)
    moreover have "find_files (bf_blk bf) (i + 1) fd = Some (?cur, bf_curSize bf)" for fd
      using Suc.hyps(1) [of "i + 1"] Suc.hyps(2) u lt by (simp add: word_le_nat_alt)
    ultimately show ?case by (subst find_files.simps) simp
  qed
  have "find_files (bf_blk bf) 0 (0, 0) = Some (?cur, bf_curSize bf)"
  proof (cases "bf_blk bf ?cur")
    case None
    with assms(1) have "?cur = 0" "bf_curSize bf = 0" by (auto simp: files_ok_def contents_def)
    with None show ?thesis by (subst find_files.simps) simp
  qed (use go in auto)
  with assms(1) show ?thesis by (auto simp: NewBlockFileManager_def files_ok_def)
qed

theorem block_files_reopen_witness:
  "files_ok empty_files \<and> (\<exists>bf'. NewBlockFileManager (bf_magic empty_files) (bf_blk empty_files) (bf_rev empty_files) (\<lambda>_. IoOk) = Some bf'
     \<and> bf_curSize bf' = bf_curSize empty_files)"
proof -
  have "files_ok empty_files" by (simp add: files_ok_def empty_files_def contents_def)
  with block_files_reopen [of empty_files "\<lambda>_. IoOk"] show ?thesis by (auto simp: empty_files_def)
qed

text \<open>An index record is read back as it was written whenever its chain work fits in 256 bits; a larger chain work makes
  \<^verbatim>\<open>Serialize\<close> panic.
\<close>

theorem index_record_roundtrip:
  "(0 \<le> dbi_ChainWork d \<and> dbi_ChainWork d < 2 ^ 256 \<longrightarrow> (\<exists>bs. DiskBlockIndex_Serialize d = Some bs \<and> DeserializeDiskBlockIndex bs = Some d))
   \<and> (dbi_ChainWork d \<ge> 2 ^ 256 \<longrightarrow> DiskBlockIndex_Serialize d = None)"
proof (intro conjI impI)
  assume "0 \<le> dbi_ChainWork d \<and> dbi_ChainWork d < 2 ^ 256"
  then show "\<exists>bs. DiskBlockIndex_Serialize d = Some bs \<and> DeserializeDiskBlockIndex bs = Some d"
    by (intro index_codec) (simp add: index_in_range_def)
next
  assume w: "dbi_ChainWork d \<ge> 2 ^ 256"
  have "nat \<bar>dbi_ChainWork d\<bar> < 256 ^ length (big_Bytes (nat \<bar>dbi_ChainWork d\<bar>))"
    using le_nat_less [of "rev (big_Bytes (nat \<bar>dbi_ChainWork d\<bar>))"] by (simp add: le_nat_big_Bytes)
  moreover have "(256 :: nat) ^ 32 \<le> nat \<bar>dbi_ChainWork d\<bar>" using w by (simp add: le_nat_iff)
  ultimately have "(256 :: nat) ^ 32 < 256 ^ length (big_Bytes (nat \<bar>dbi_ChainWork d\<bar>))" by (rule order.strict_trans1 [rotated])
  then have "32 < length (big_Bytes (nat \<bar>dbi_ChainWork d\<bar>))" by (rule power_less_imp_less_exp [rotated]) simp
  then show "DiskBlockIndex_Serialize d = None" by (simp add: DiskBlockIndex_Serialize_def)
qed

theorem index_record_roundtrip_witness:
  "\<exists>bs. DiskBlockIndex_Serialize \<lparr>dbi_Header = blk_Header empty_block, dbi_Height = 7, dbi_Status = 49, dbi_TxCount = 1, dbi_FileNum = 2,
     dbi_DataPos = 100, dbi_DataSize = 81, dbi_UndoFile = 2, dbi_UndoPos = 0, dbi_UndoSize = 1, dbi_ChainWork = 12345\<rparr> = Some bs"
  using index_record_roundtrip [of "\<lparr>dbi_Header = blk_Header empty_block, dbi_Height = 7, dbi_Status = 49, dbi_TxCount = 1, dbi_FileNum = 2,
     dbi_DataPos = 100, dbi_DataSize = 81, dbi_UndoFile = 2, dbi_UndoPos = 0, dbi_UndoSize = 1, dbi_ChainWork = 12345\<rparr>"] by auto

text \<open>The position of undo data wraps in a file of 4 GiB, which the 128 MiB limit of the block files does not prevent.\<close>

lemma undo_offset_wraps:
  assumes "length (contents (bf_rev bf f)) = 2 ^ 32" "bf_io bf (bf_calls bf) = IoOk"
  shows "\<exists>bf'. BFM_WriteUndo sync f u bf = (Some (0, of_nat (length u)), bf')"
  using assms by (simp add: BFM_WriteUndo_def Let_def append_record_def)

end
