(* ===== verification/ChainProps.thy ===== *)
theory ChainProps
  imports ChainRun Store
begin

text \<open>
  The properties of the chain component. \<open>chain_runs\<close> is the transition system of the node's chain: it starts on an
  empty storage and takes in blocks, in any order and any number of times, switches initial-download mode and expires orphans.
\<close>

inductive chain_runs :: "('s, 'sig, 'pk, 'sk) chain_env \<Rightarrow> Block set \<Rightarrow> 's \<Rightarrow> 's Chain \<Rightarrow> bool" for E W s0 where
  start: "bs_GetChainTip (ce_store E) s0 = None \<Longrightarrow> Init E (NewChain s0) = Some (Inr (), c) \<Longrightarrow> chain_runs E W s0 c"
| block: "chain_runs E W s0 c \<Longrightarrow> b \<in> W \<Longrightarrow> processBlock E clk trusted b c = Some (r, c') \<Longrightarrow> chain_runs E W s0 c'"
| ibd: "chain_runs E W s0 c \<Longrightarrow> chain_runs E W s0 (SetIBDMode E enabled c)"
| evict: "chain_runs E W s0 c \<Longrightarrow> chain_runs E W s0 (snd (EvictExpiredOrphans clk c))"

section \<open>Operations that always return\<close>

lemma total_store_op [simp]: "terminates (\<lambda>_. True) (store_op e f)"
  by (simp add: terminates_def store_op_def split: prod.splits)

lemma total_ops [simp]:
  "terminates (\<lambda>_. True) (persistUtxoChanges E sync b undo h)" "terminates (\<lambda>_. True) (persistUtxoDisconnect E b undo h)"
  "terminates (\<lambda>_. True) (connect_utxos b n)" "terminates (\<lambda>_. True) (check_reorg_depth E clk rd)"
  "terminates (\<lambda>_. True) (extendChain E sync h n w)"
  by (auto simp: persistUtxoChanges_def persistUtxoDisconnect_def connect_utxos_def check_reorg_depth_def extendChain_def Let_def
      split: sum.split prod.split)

lemma total_live_disconnect [simp]: "terminates (\<lambda>_. True) (live_disconnect E hs)"
  by (induction hs) simp_all

lemma total_live_connect [simp]: "terminates (\<lambda>_. True) (live_connect E trs)"
  by (induction trs) (simp_all add: live_connect_block_def)

lemma total_reorg_commit [simp]: "terminates (\<lambda>_. True) (reorg_commit E clk T n w rd hs trs)"
  by (simp add: reorg_commit_def Let_def)

lemma reorg_returns_if: "reorg_path E c T [T] = Some res \<Longrightarrow> reorg E clk T n w c \<noteq> None"
  by (cases res)
    (auto simp: reorg_def swith_def [of _ c] sfail_def Let_def simp del: not_None_eq intro!: terminates_topD [of "sbind m f" for m f]
      split: option.split)

context chain_world
begin

lemma SetIBDMode_ok:
  assumes "healthy (ch_store (SetIBDMode E enabled c))"
  shows "healthy (ch_store c)" "chain_ok c bs \<Longrightarrow> chain_ok (SetIBDMode E enabled c) bs"
proof -
  show "healthy (ch_store c)"
    using assms by (auto simp: SetIBDMode_def ibdSyncFlush_def store_try_def split: if_splits dest!: healthy_try)
  show "chain_ok (SetIBDMode E enabled c) bs" if "chain_ok c bs"
    using that assms ibdSyncFlush_ok [OF that] by (auto simp: SetIBDMode_def split: if_splits)
qed

lemma runs_ok:
  assumes "chain_runs E W s0 c" "idx s0 = Map.empty" "healthy (ch_store c)"
  shows "\<exists>bs. chain_ok c bs"
  using assms
proof (induction rule: chain_runs.induct)
  case (start c)
  have "index_fine s0" using start by (simp add: index_fine_def)
  moreover have "initGenesis E (NewChain s0) = Some (Inr (), c)" using start by (simp add: Init_def swith_def NewChain_def)
  ultimately show ?case using initGenesis_ok start by blast
next
  case (block c b clk trusted r c')
  have "healthy (ch_store c)" using backD [OF back_processBlock block.hyps(3)] block.prems(2) .
  with block.IH block.prems(1) obtain bs where "chain_ok c bs" by blast
  from processBlock_ok [OF this block.hyps(2,3) block.prems(2)] show ?case by blast
next
  case (ibd c enabled)
  with SetIBDMode_ok show ?case by blast
next
  case (evict c clk)
  let ?c = "evictExpiredOrphans clk c"
  have eq: "snd (EvictExpiredOrphans clk c) = ?c" by (simp add: EvictExpiredOrphans_def Let_def)
  have "ch_store ?c = ch_store c" by (simp add: evictExpiredOrphans_def)
  with evict eq obtain bs where ok: "chain_ok c bs" by auto
  have "chain_ok ?c bs" unfolding evictExpiredOrphans_def
    using ok chain_okD(6) [OF ok] by (intro chain_ok_orphans orphans_ok_filter)
  then show ?case unfolding eq by blast
qed

lemma chain_of_work:
  "chain_of bs U \<Longrightarrow> n < length bs \<Longrightarrow> wk (bhash (bs ! n)) = sum_list (map (\<lambda>b. CalcBlockWeight (ce_engine E) (blk_Header b)) (take (Suc n) bs))"
proof (induction n)
  case 0
  then have "bs ! 0 = gen" using ledger_hd [of "ce_lib E" "ce_params E" bs U] chain_of_nonempty [OF 0(1)]
    by (simp add: chain_of_def hd_conv_nth)
  then show ?case using depth_genesis(2) 0 by (simp add: take_Suc_conv_app_nth)
next
  case (Suc n)
  have "bs ! Suc n \<in> W" "bs ! Suc n \<noteq> gen" using Suc.prems by (auto simp: chain_of_def)
  moreover have "hdr_PrevBlock (blk_Header (bs ! Suc n)) = bhash (bs ! n)" using Suc.prems ledger_linked by (auto simp: chain_of_def)
  ultimately show ?case using depth [of "bs ! Suc n"] Suc by (simp add: take_Suc_conv_app_nth [of "Suc n"])
qed

lemma chain_ok_summary:
  assumes "chain_ok c bs"
  shows "ledger (ce_lib E) (ce_params E) bs (ch_utxoSet c)" "ch_tipHash c = bhash (last bs)" "Suc (unat (ch_tipHeight c)) = length bs"
    "ch_tipWork c = sum_list (map (\<lambda>b. CalcBlockWeight (ce_engine E) (blk_Header b)) bs)"
    "ch_hashByHeight c n = (if unat n < length bs then Some (bhash (bs ! unat n)) else None)"
proof -
  note D = chain_okD [OF assms]
  show "ledger (ce_lib E) (ce_params E) bs (ch_utxoSet c)" using D(2) by (simp add: chain_of_def)
  show "ch_tipHash c = bhash (last bs)" "Suc (unat (ch_tipHeight c)) = length bs" using assms by (simp_all add: chain_ok_def)
  show "ch_tipWork c = sum_list (map (\<lambda>b. CalcBlockWeight (ce_engine E) (blk_Header b)) bs)"
    using chain_of_work [OF D(2), of "length bs - 1"] assms D(7) by (simp add: chain_ok_def last_conv_nth)
  show "ch_hashByHeight c n = (if unat n < length bs then Some (bhash (bs ! unat n)) else None)"
    using D(3) by (simp add: maps_ok_def height_map_def)
qed

section \<open>Rejected blocks\<close>

lemma chain_ok_determines:
  assumes "chain_ok c bs" "chain_ok c' bs"
  shows "ch_utxoSet c' = ch_utxoSet c \<and> ch_tipHash c' = ch_tipHash c \<and> ch_tipHeight c' = ch_tipHeight c
     \<and> ch_tipWork c' = ch_tipWork c \<and> ch_hashByHeight c' = ch_hashByHeight c"
proof -
  have "ch_utxoSet c' = ch_utxoSet c" using chain_of_fun chain_okD(2) assms by blast
  moreover have "unat (ch_tipHeight c') = unat (ch_tipHeight c)" using assms by (simp add: chain_ok_def)
  moreover have "ch_hashByHeight c' = ch_hashByHeight c" using chain_okD(3) [OF assms(1)] chain_okD(3) [OF assms(2)] by (simp add: maps_ok_def fun_eq_iff)
  ultimately show ?thesis using assms by (simp add: chain_ok_def word_unat_eq_iff)
qed

section \<open>Rebuilding the UTXO set\<close>

lemma rebuild_step:
  assumes ok: "chain_ok c bs" and n: "n < length bs"
    and run: "rebuild_blocks E (n # hs) (c\<lparr>ch_utxoSet := V\<rparr>) = Some (Inr (), c')"
  shows "sbind (if n = 0 then supd (\<lambda>c. c\<lparr>ch_utxoSet := ConnectGenesis (ch_utxoSet c) (bs ! n)\<rparr>)
            else sbind (connect_utxos (bs ! n) (of_nat n)) (\<lambda>_. sret ())) (\<lambda>_. rebuild_blocks E hs) (c\<lparr>ch_utxoSet := V\<rparr>) = Some (Inr (), c')"
proof -
  note D = chain_okD [OF ok]
  have "ch_hashByHeight c (of_nat n) = Some (bhash (bs ! n))"
    using D(3) n unat_of_nat_height [OF D(2) n] by (simp add: maps_ok_def height_map_def)
  with run obtain b where b: "bs_GetBlock (ce_store E) (ch_store c) (bhash (bs ! n)) = Some b"
    and rest: "sbind (if n = 0 then supd (\<lambda>c. c\<lparr>ch_utxoSet := ConnectGenesis (ch_utxoSet c) b\<rparr>)
            else sbind (connect_utxos b (of_nat n)) (\<lambda>_. sret ())) (\<lambda>_. rebuild_blocks E hs) (c\<lparr>ch_utxoSet := V\<rparr>) = Some (Inr (), c')"
    by (auto simp: swith_def bind_slift)
  from GetBlock_index [OF b] obtain rec where rec: "idx (ch_store c) (bhash (bs ! n)) = Some rec" by blast
  from rest show ?thesis unfolding set_block_at(1) [OF D(1) n b rec] .
qed

lemma rebuild_from:
  assumes ok: "chain_ok c bs"
  shows "0 < k \<Longrightarrow> k \<le> length bs \<Longrightarrow> chain_of (take k bs) V \<Longrightarrow>
    rebuild_blocks E [k..<length bs] (c\<lparr>ch_utxoSet := V\<rparr>) = Some (Inr (), c') \<Longrightarrow> c' = c"
proof (induction "length bs - k" arbitrary: k V)
  case 0
  then have "chain_of bs V" by simp
  then have "V = ch_utxoSet c" using chain_of_fun chain_okD(2) [OF ok] by blast
  with 0 show ?case by (simp add: sret_def)
next
  case (Suc m)
  then have k: "k < length bs" by simp
  obtain V' where V': "chain_of (take (Suc k) bs) V'" using chain_of_take [OF chain_okD(2) [OF ok], of "Suc k"] k by auto
  then have "chain_of (take k bs @ [bs ! k]) V'" using k by (simp add: take_Suc_conv_app_nth)
  from chain_of_snocD(1) [OF this Suc.prems(3)] k obtain undo where
    con: "ConnectBlock V (bs ! k) (of_nat k) None = Inr (undo, V')" by (auto simp: min_def)
  from Suc.prems(4) k have "rebuild_blocks E (k # [Suc k..<length bs]) (c\<lparr>ch_utxoSet := V\<rparr>) = Some (Inr (), c')" by (simp add: upt_conv_Cons)
  from rebuild_step [OF ok k this] Suc.prems(1) con
  have "rebuild_blocks E [Suc k..<length bs] (c\<lparr>ch_utxoSet := V'\<rparr>) = Some (Inr (), c')"
    by (simp add: connect_utxos_def sbind_def swith_def supd_def sret_def)
  from Suc.hyps(1) [OF _ _ _ V' this] Suc.hyps(2) k show ?case by simp
qed

lemma rescan_ok:
  assumes ok: "chain_ok c bs" and run: "RescanUTXOSet E c = Some (Inr (), c')"
  shows "c' = c\<lparr>ch_store := ch_store c'\<rparr>"
proof -
  note D = chain_okD [OF ok]
  let ?c0 = "c\<lparr>ch_utxoSet := NewSet\<rparr>"
  have len: "Suc (unat (ch_tipHeight c)) = length bs" using ok by (simp add: chain_ok_def)
  from run len have "sbind (rebuild_blocks E [0..<length bs]) (\<lambda>_. flushUtxoSetToChainstate E) ?c0 = Some (Inr (), c')"
    by (simp add: RescanUTXOSet_def rebuildUtxoSet_def sbind_def [of "supd _"] supd_def swith_def del: upt_Suc)
  then obtain c1 where r1: "rebuild_blocks E [0..<length bs] ?c0 = Some (Inr (), c1)" and f: "flushUtxoSetToChainstate E c1 = Some (Inr (), c')"
    by (auto elim!: sbindE)
  have l0: "0 < length bs" using D(7) by simp
  have g: "bs ! 0 = gen" using ledger_hd [of "ce_lib E" "ce_params E" bs "ch_utxoSet c"] D(2,7) by (simp add: chain_of_def hd_conv_nth)
  from r1 l0 have "rebuild_blocks E (0 # [1..<length bs]) ?c0 = Some (Inr (), c1)" by (simp add: upt_conv_Cons)
  from rebuild_step [OF ok l0 this] g have r2: "rebuild_blocks E [1..<length bs] (c\<lparr>ch_utxoSet := ConnectGenesis NewSet gen\<rparr>) = Some (Inr (), c1)"
    by (simp add: sbind_def supd_def)
  have "take 1 bs = [gen]" using g l0 by (simp add: take_Suc_conv_app_nth)
  then have "chain_of (take 1 bs) (ConnectGenesis NewSet gen)" using chain_of_genesis by simp
  from rebuild_from [OF ok _ _ this r2] l0 have "c1 = c" by simp
  with f show ?thesis by (auto simp: flushUtxoSetToChainstate_def swith_def store_op_def split: prod.splits)
qed

section \<open>Termination of a reorganisation\<close>

lemma reorg_total:
  assumes "chain_ok c bs" "\<not> main_hash bs T"
  shows "\<exists>r c'. reorg E clk T n w c = Some (r, c')"
proof -
  from reorg_path_total [OF assms] obtain res where "reorg_path E c T [T] = Some res" by blast
  then have "reorg E clk T n w c \<noteq> None" by (rule reorg_returns_if)
  then show ?thesis by auto
qed

end

section \<open>The orphan loop ends\<close>

definition same_orphans :: "('s, 'a) chain_op \<Rightarrow> bool" where
  "same_orphans m \<longleftrightarrow> (\<forall>c r c'. m c = Some (r, c') \<longrightarrow> ch_orphans c' = ch_orphans c)"

lemma same_orphans_sem [simp]:
  "same_orphans (sret x)" "same_orphans (sfail e)" "same_orphans (slift r)"
  "\<forall>c. ch_orphans (f c) = ch_orphans c \<Longrightarrow> same_orphans (supd f)"
  "same_orphans m \<Longrightarrow> \<forall>x. same_orphans (g x) \<Longrightarrow> same_orphans (sbind m g)"
  "\<forall>c. same_orphans (k c) \<Longrightarrow> same_orphans (swith k)"
  "same_orphans m \<Longrightarrow> \<forall>e c. ch_orphans (cl e c) = ch_orphans c \<Longrightarrow> same_orphans (on_error m cl)"
  "same_orphans (store_op er op)"
  unfolding same_orphans_def sret_def sfail_def slift_def supd_def sbind_def swith_def on_error_def store_op_def
  by (auto split: option.splits sum.splits prod.splits)

lemma same_orphans_ops [simp]:
  "same_orphans (persistUtxoChanges E sync b undo h)" "same_orphans (persistUtxoDisconnect E b undo h)"
  "same_orphans (connect_utxos b n)" "same_orphans (check_reorg_depth E clk rd)" "same_orphans (extendChain E sync h n w)"
  by (auto simp: persistUtxoChanges_def persistUtxoDisconnect_def connect_utxos_def check_reorg_depth_def extendChain_def Let_def
      split: sum.split prod.split)

lemma same_orphans_live [simp]: "same_orphans (live_disconnect E hs)" "same_orphans (live_connect E trs)"
proof -
  show "same_orphans (live_disconnect E hs)" by (induction hs) (simp_all add: rollback_utxos_def)
  show "same_orphans (live_connect E trs)" by (induction trs) (simp_all add: live_connect_block_def)
qed

lemma remove_old_orphans [simp]: "ch_orphans (remove_old old c) = ch_orphans c"
  unfolding remove_old_def by (induction old arbitrary: c) auto

lemma same_orphans_reorg [simp]: "same_orphans (reorg E clk T n w)"
proof -
  have "same_orphans (\<lambda>_. None)" by (simp add: same_orphans_def)
  then show ?thesis
    by (auto simp: reorg_def reorg_commit_def Let_def split: option.split sum.split intro!: same_orphans_sem(6))
qed

lemma same_orphans_process [simp]: "same_orphans (process_orphan E clk h b)"
  by (simp add: process_orphan_def connect_tip_def Let_def add_side_block_def drop_side_block_def store_try_def rollback_utxos_def)

lemma resolve_orphans_measure:
  assumes "resolve_orphans E clk xs q c = Some (q', c')"
  shows "length q' \<le> length q + length xs \<and> ch_orphans c' = ch_orphans c"
  using assms
proof (induction xs arbitrary: q c)
  case (Cons x xs)
  from Cons.prems obtain r c1 where r: "process_orphan E clk (fst x) (snd x) c = Some (r, c1)" by (auto split: option.splits)
  have "ch_orphans c1 = ch_orphans c" using same_orphans_process r unfolding same_orphans_def by blast
  with Cons.prems r Cons.IH show ?case by (auto split: sum.splits resolved.splits) fastforce+
qed simp

lemma resolve_orphans_total:
  assumes "\<forall>clk h n w c. reorg E clk h n w c \<noteq> None"
  shows "resolve_orphans E clk xs q c \<noteq> None"
proof -
  have "terminates (\<lambda>_. True) (reorg E clk h n w)" for clk h n w using assms by (simp add: terminates_def)
  then have p: "process_orphan E clk h b c \<noteq> None" for h b c
    by (intro terminates_topD) (simp add: process_orphan_def connect_tip_def Let_def)
  show ?thesis by (induction xs arbitrary: q c) (use p in \<open>auto split: option.splits sum.splits resolved.splits\<close>)
qed

lemma orphan_loop_total:
  assumes "\<forall>clk h n w c. reorg E clk h n w c \<noteq> None"
  shows "\<exists>c'. orphan_loop E clk q c = Some c'"
proof (induction "length q + length (ch_orphans c)" arbitrary: q c rule: less_induct)
  case less
  show ?case
  proof (cases q)
    case Nil
    then show ?thesis by (subst orphan_loop.simps) simp
  next
    case (Cons P rest)
    let ?xs = "orphans_of P (ch_orphans c)" and ?c = "remove_orphans_of P c"
    from resolve_orphans_total [OF assms] obtain q1 c1 where r: "resolve_orphans E clk ?xs rest ?c = Some (q1, c1)" by fastforce
    have "length ?xs + length (ch_orphans ?c) = length (ch_orphans c)"
      using sum_length_filter_compl [of "\<lambda>(h, ob). hdr_PrevBlock (blk_Header (ob_block ob)) = P" "ch_orphans c"]
      by (simp add: orphans_of_def remove_orphans_of_def case_prod_unfold)
    with resolve_orphans_measure [OF r] Cons have "length q1 + length (ch_orphans c1) < length q + length (ch_orphans c)" by simp
    from less.hyps [OF this] obtain c' where "orphan_loop E clk q1 c1 = Some c'" by blast
    with r show ?thesis by (subst orphan_loop.simps) (simp add: Cons)
  qed
qed

section \<open>The node on the file store\<close>

text \<open>The iteration order of a Go map is unspecified: any list of the entries.\<close>

definition some_range :: "utxo_set \<Rightarrow> (bytes \<times> UtxoEntry) list" where
  "some_range U = (SOME es. map_of es = U \<and> distinct (map fst es))"

lemma some_range_ok:
  assumes "finite (dom U)"
  shows "map_of (some_range U) = U \<and> distinct (map fst (some_range U))"
proof -
  obtain ks where ks: "set ks = dom U" "distinct ks" using finite_distinct_list [OF assms] by blast
  have "map_of (map (\<lambda>k. (k, the (U k))) ks) = U"
    by (auto simp: map_of_map_restrict ks(1) fun_eq_iff restrict_map_def domIff)
  with ks(2) have "map_of (map (\<lambda>k. (k, the (U k))) ks) = U \<and> distinct (map fst (map (\<lambda>k. (k, the (U k))) ks))" by (simp add: o_def)
  then show ?thesis unfolding some_range_def by (rule someI [where P = "\<lambda>es. map_of es = U \<and> distinct (map fst es)"])
qed

type_synonym mem_store = "(bytes \<times> bytes) list FileStore"

definition fs_env :: "(mem_store, bytes, bytes, bytes) chain_env" where
  "fs_env = \<lparr>ce_params = Regtest, ce_engine = demo_engine, ce_store = FileStore_ops mem_db, ce_lib = demo_lib, ce_range = some_range\<rparr>"

definition fs_new :: mem_store where
  "fs_new = \<lparr>fs_files = empty_files, fs_index = [], fs_chainstate = [], fs_in_range = True\<rparr>"

abbreviation (input) regtest_work :: int where "regtest_work \<equiv> CalcBlockWeight demo_engine (blk_Header zero_block)"

lemma fs_env_sel [simp]: "ce_params fs_env = Regtest" "ce_engine fs_env = demo_engine" "ce_store fs_env = FileStore_ops mem_db"
  "ce_lib fs_env = demo_lib" "ce_range fs_env = some_range"
  by (simp_all add: fs_env_def)

lemma Regtest_genesis [simp]: "par_GenesisBlock Regtest = zero_block" "par_GenesisHash Regtest = ZeroHash"
  by (simp_all add: Regtest_def)

interpretation fs_chain: chain_world fs_env "fs_healthy (\<lambda>_. True)" fs_block_at fs_undo_at "{zero_block}" "\<lambda>_. 0" "\<lambda>_. regtest_work"
proof (rule chain_world.intro)
  show "block_store (ce_store fs_env) (fs_healthy (\<lambda>_. True)) fs_block_at fs_undo_at"
    unfolding fs_env_sel by (rule mem.file_store.block_store_axioms)
  show "chain_world_axioms fs_env {zero_block} (\<lambda>_. 0) (\<lambda>_. regtest_work)"
    by unfold_locales (auto simp: genesis_ok_networks some_range_ok zero_block_def Block_ok_def)
qed

lemma fs_new_index: "bs_GetBlockIndex (ce_store fs_env) fs_new = Map.empty" "bs_GetChainTip (ce_store fs_env) fs_new = None"
  by (simp_all add: FileStore_ops_def FS_GetBlockIndex_def FS_GetChainTip_def fs_new_def mem_db_def fun_eq_iff)

lemma regtest_work_range: "0 \<le> regtest_work" "regtest_work < 2 ^ 256"
proof -
  show "0 \<le> regtest_work" by (simp add: CalcBlockWeight_def CalcWork_nonneg)
  show "regtest_work < 2 ^ 256" unfolding CalcBlockWeight_def zero_block_def by code_simp
qed

text \<open>Starting on an empty file store works, and so does a rescan after it.\<close>

definition fs_genesis_rec :: DiskBlockIndex where
  "fs_genesis_rec = (new_index zero_block 0 (0, 0, 81) regtest_work)\<lparr>dbi_Status := StatusHaveData OR StatusValidHeader OR StatusValidTx\<rparr>"

lemma fs_genesis_data: "\<exists>data. DiskBlockIndex_Serialize fs_genesis_rec = Some data \<and> DeserializeDiskBlockIndex data = Some fs_genesis_rec"
  "index_in_range fs_genesis_rec"
proof -
  show rng: "index_in_range fs_genesis_rec" using regtest_work_range by (simp add: index_in_range_def new_index_def fs_genesis_rec_def)
  show "\<exists>data. DiskBlockIndex_Serialize fs_genesis_rec = Some data \<and> DeserializeDiskBlockIndex data = Some fs_genesis_rec"
    using index_codec [OF rng] .
qed

lemma zero_block_length: "length (Block_Serialize zero_block) = 81"
  by (simp add: Block_Serialize_def zero_block_def enc_counted_def PutVarInt_def)

definition fs_genesis_file :: bytes where
  "fs_genesis_file = byte4_list (bf_magic empty_files) @ put_le 4 (81 :: u32) @ Block_Serialize zero_block"

definition fs_genesis_store :: "bytes \<Rightarrow> mem_store" where
  "fs_genesis_store data =
     (let h = HashBlockHeader (blk_Header zero_block) in
      fs_new\<lparr>fs_files := empty_files\<lparr>bf_blk := [0 \<mapsto> fs_genesis_file], bf_calls := 1, bf_curSize := 89\<rparr>,
         fs_index := AList.update keyChainTip (hash_bytes h @ rev (put_le 4 (0 :: u32))) (AList.update (blockIndexKey h) data [])\<rparr>)"

lemma fs_genesis_run:
  assumes "DiskBlockIndex_Serialize fs_genesis_rec = Some data"
  shows "\<exists>db. Init fs_env (NewChain fs_new) = Some (Inr (), (NewChain (fs_genesis_store data\<lparr>fs_chainstate := db\<rparr>))\<lparr>
     ch_tipHash := HashBlockHeader (blk_Header zero_block), ch_tipWork := regtest_work,
     ch_heightByHash := [HashBlockHeader (blk_Header zero_block) \<mapsto> 0], ch_hashByHeight := [0 \<mapsto> HashBlockHeader (blk_Header zero_block)],
     ch_utxoSet := ConnectGenesis NewSet zero_block\<rparr>)"
proof -
  have "Init fs_env (NewChain fs_new) = initGenesis fs_env (NewChain fs_new)"
    using fs_new_index(2) by (simp add: Init_def swith_def NewChain_def)
  then show ?thesis
    using assms [unfolded fs_genesis_rec_def] fs_genesis_data(2) [unfolded fs_genesis_rec_def] zero_block_length
    by (simp add: initGenesis_def Let_def sbind_def supd_def store_op_def opt_err_def Hash_IsZero_def NewChain_def fs_new_def
        FileStore_ops_def FS_WriteBlock_def BFM_WriteBlock_def WriteBlockRaw_def rotate_file_def empty_files_def append_record_def
        contents_def FS_PutBlockIndex_def FS_PutChainTip_def mem_db_def flushUtxoSetToChainstate_def swith_def FS_FlushUtxoBatch_def
        fs_genesis_store_def fs_genesis_file_def)
qed

lemma fs_genesis_read:
  assumes "DeserializeDiskBlockIndex data = Some fs_genesis_rec"
  shows "FS_GetBlock mem_db (fs_genesis_store data\<lparr>fs_chainstate := db\<rparr>) (HashBlockHeader (blk_Header zero_block)) = Some zero_block"
proof -
  let ?bf = "empty_files\<lparr>bf_blk := [0 \<mapsto> fs_genesis_file], bf_calls := 1, bf_curSize := 89\<rparr>"
  have "frame_at ?bf (Some fs_genesis_file) 0 81 (Block_Serialize zero_block) []"
    by (simp add: frame_at_def fs_genesis_file_def zero_block_length)
  then have "blk_at ?bf 0 0 81 zero_block" by (auto simp: blk_at_def Block_ok_def zero_block_def)
  from ReadBlock_blk_at [OF this] have "BFM_ReadBlock ?bf 0 0 81 = Some zero_block" by (simp add: zero_block_length)
  then show ?thesis
    using assms by (simp add: FS_GetBlock_def FS_GetBlockIndex_def fs_genesis_store_def Let_def mem_db_def update_conv' FS_ReadBlock_def
        fs_genesis_rec_def new_index_def)
qed

lemma fs_start: "\<exists>c c'. chain_runs fs_env {zero_block} fs_new c \<and> fs_healthy (\<lambda>_. True) (ch_store c) \<and> RescanUTXOSet fs_env c = Some (Inr (), c')"
proof -
  obtain data where data: "DiskBlockIndex_Serialize fs_genesis_rec = Some data" "DeserializeDiskBlockIndex data = Some fs_genesis_rec"
    using fs_genesis_data(1) by blast
  from fs_genesis_run [OF data(1)] obtain db c where c: "Init fs_env (NewChain fs_new) = Some (Inr (), c)"
    "ch_store c = fs_genesis_store data\<lparr>fs_chainstate := db\<rparr>" "ch_tipHeight c = 0" "ch_hashByHeight c = [0 \<mapsto> HashBlockHeader (blk_Header zero_block)]"
    by (auto simp: NewChain_def)
  have "chain_runs fs_env {zero_block} fs_new c" using c(1) fs_new_index(2) by (rule chain_runs.start [rotated])
  moreover have "fs_healthy (\<lambda>_. True) (ch_store c)"
    by (simp add: c(2) fs_healthy_def fs_genesis_store_def Let_def fs_new_def empty_files_def)
  moreover have "\<exists>c'. RescanUTXOSet fs_env c = Some (Inr (), c')"
    using fs_genesis_read [OF data(2), of db] c(2-4)
    by (simp add: RescanUTXOSet_def rebuildUtxoSet_def sbind_def supd_def swith_def slift_def opt_err_def sret_def FileStore_ops_def
        flushUtxoSetToChainstate_def store_op_def FS_FlushUtxoBatch_def mem_db_def)
  ultimately show ?thesis by blast
qed

section \<open>Properties\<close>

text \<open>C1. The node keeps a valid ledger. In every state the chain reaches from an empty storage, whatever blocks arrive in
  whatever order, as long as no write has failed: there is a valid chain of blocks from the genesis block whose replay is the UTXO set,
  its last block is the tip, its length the height, the sum of its work the tip work, and \<^verbatim>\<open>hashByHeight\<close> lists its hashes.
  The hypothesis \<open>chain_world\<close> says that the storage keeps its contract and that no two of the blocks and transactions in play collide.
\<close>

theorem node_keeps_ledger:
  assumes "chain_world E healthy block_at undo_at W d wk" "bs_GetBlockIndex (ce_store E) s0 = Map.empty"
    and "chain_runs E W s0 c" "healthy (ch_store c)"
  shows "\<exists>bs. ledger (ce_lib E) (ce_params E) bs (ch_utxoSet c) \<and> ch_tipHash c = HashBlockHeader (blk_Header (last bs))
     \<and> Suc (unat (ch_tipHeight c)) = length bs
     \<and> ch_tipWork c = sum_list (map (\<lambda>b. CalcBlockWeight (ce_engine E) (blk_Header b)) bs)
     \<and> (\<forall>n. ch_hashByHeight c n = (if unat n < length bs then Some (HashBlockHeader (blk_Header (bs ! unat n))) else None))"
proof -
  from chain_world.runs_ok [OF assms(1,3,2,4)] obtain bs where ok: "chain_world.chain_ok E block_at undo_at W d wk c bs" by blast
  show ?thesis using chain_world.chain_ok_summary [OF assms(1) ok] by blast
qed

theorem node_keeps_ledger_witness:
  "\<exists>c bs. chain_runs fs_env {zero_block} fs_new c \<and> ledger demo_lib Regtest bs (ch_utxoSet c) \<and> Suc (unat (ch_tipHeight c)) = length bs"
proof -
  obtain c where "chain_runs fs_env {zero_block} fs_new c" "fs_healthy (\<lambda>_. True) (ch_store c)" using fs_start by blast
  with node_keeps_ledger [OF fs_chain.chain_world_axioms fs_new_index(1), of c] show ?thesis by auto
qed

text \<open>C3. The supply cap holds in the running node: on mainnet, in every state the chain reaches while its storage works, the
  unspent outputs add up to at most \<^verbatim>\<open>MaxMoneyValue\<close>.
\<close>

theorem node_supply_cap:
  assumes "chain_world E healthy block_at undo_at W d wk" "bs_GetBlockIndex (ce_store E) s0 = Map.empty"
    and "chain_runs E W s0 c" "healthy (ch_store c)" "par_SubsidyHalvingInterval (ce_params E) \<noteq> 0"
  shows "finite (dom (ch_utxoSet c))
     \<and> utxo_total (ch_utxoSet c) \<le> genesis_supply (par_GenesisBlock (ce_params E)) + era_sum (ce_params E)
     \<and> (ce_params E = Mainnet \<longrightarrow> utxo_total (ch_utxoSet c) \<le> unat MaxMoneyValue)"
proof -
  from chain_world.runs_ok [OF assms(1,3,2,4)] obtain bs where ok: "chain_world.chain_ok E block_at undo_at W d wk c bs" by blast
  note l = chain_world.chain_ok_summary(1) [OF assms(1) ok]
  have "genesis_supply (par_GenesisBlock Mainnet) = 0"
    by (simp add: genesis_supply_def Mainnet_def genesis_coinbase_def isLegacyPlaceholder_def)
  with ledger_supply [OF l] ledger_supply_era [OF l assms(5)] era_sum_networks(1) show ?thesis by auto
qed

theorem node_supply_cap_witness:
  "\<exists>c. chain_runs fs_env {zero_block} fs_new c \<and> finite (dom (ch_utxoSet c))"
proof -
  obtain c where "chain_runs fs_env {zero_block} fs_new c" "fs_healthy (\<lambda>_. True) (ch_store c)" using fs_start by blast
  moreover have "par_SubsidyHalvingInterval (ce_params fs_env) \<noteq> 0" by (simp add: Regtest_def)
  ultimately show ?thesis using node_supply_cap [OF fs_chain.chain_world_axioms fs_new_index(1), of c] by blast
qed



text \<open>C7. Rescanning is a no-op on a correct node: in every reachable state, \<^verbatim>\<open>RescanUTXOSet\<close>, which drops the UTXO set and replays
  every stored block of the active chain, changes nothing but the storage when it succeeds.
\<close>

theorem rescan_rebuilds_utxo_set:
  assumes "chain_world E healthy block_at undo_at W d wk" "bs_GetBlockIndex (ce_store E) s0 = Map.empty"
    and "chain_runs E W s0 c" "healthy (ch_store c)" "RescanUTXOSet E c = Some (Inr (), c')"
  shows "c' = c\<lparr>ch_store := ch_store c'\<rparr>"
proof -
  from chain_world.runs_ok [OF assms(1,3,2,4)] obtain bs where ok: "chain_world.chain_ok E block_at undo_at W d wk c bs" by blast
  from chain_world.rescan_ok [OF assms(1) ok assms(5)] show ?thesis .
qed

theorem rescan_rebuilds_utxo_set_witness:
  "\<exists>c c'. chain_runs fs_env {zero_block} fs_new c \<and> RescanUTXOSet fs_env c = Some (Inr (), c') \<and> ch_utxoSet c' = ch_utxoSet c"
proof -
  obtain c c' where c: "chain_runs fs_env {zero_block} fs_new c" "fs_healthy (\<lambda>_. True) (ch_store c)" "RescanUTXOSet fs_env c = Some (Inr (), c')"
    using fs_start by blast
  from rescan_rebuilds_utxo_set [OF fs_chain.chain_world_axioms fs_new_index(1) c] have "ch_utxoSet c' = ch_utxoSet (c\<lparr>ch_store := ch_store c'\<rparr>)"
    by (rule arg_cong)
  then have "ch_utxoSet c' = ch_utxoSet c" by simp
  with c show ?thesis by blast
qed

text \<open>C33. A reorganisation always returns: walking back from a block outside the active chain reaches the active chain or a block that
  cannot be loaded, in every reachable state.
\<close>

theorem reorg_returns:
  assumes "chain_world E healthy block_at undo_at W d wk" "bs_GetBlockIndex (ce_store E) s0 = Map.empty"
    and "chain_runs E W s0 c" "healthy (ch_store c)" "\<not> on_main c T"
  shows "\<exists>r c'. reorg E clk T n w c = Some (r, c')"
proof -
  from chain_world.runs_ok [OF assms(1,3,2,4)] obtain bs where ok: "chain_world.chain_ok E block_at undo_at W d wk c bs" by blast
  note D = chain_world.chain_okD [OF assms(1) ok]
  have "\<not> chain_world.main_hash bs T" using chain_world.on_main_iff [OF assms(1) D(3,2)] assms(5) by simp
  from chain_world.reorg_total [OF assms(1) ok this] show ?thesis .
qed

theorem reorg_returns_witness:
  "\<exists>c T r c'. chain_runs fs_env {zero_block} fs_new c \<and> \<not> on_main c T
     \<and> reorg fs_env \<lparr>clk_adjusted = 0, clk_now = 0\<rparr> T 1 2 c = Some (r, c')"
proof -
  obtain c where c: "chain_runs fs_env {zero_block} fs_new c" "fs_healthy (\<lambda>_. True) (ch_store c)" using fs_start by blast
  from fs_chain.runs_ok [OF c(1) fs_new_index(1) c(2)] obtain bs where ok: "fs_chain.chain_ok c bs" by blast
  note D = fs_chain.chain_okD [OF ok]
  have "ZeroHash \<noteq> hash_copy [1]" by (simp add: ZeroHash_def hash_eq_iff hash_bytes_copy numeral_eq_Suc)
  then obtain T where "T \<noteq> HashBlockHeader (blk_Header zero_block)" by metis
  moreover have "set bs \<subseteq> {zero_block}" using D(2) by (simp add: fs_chain.chain_of_def)
  ultimately have "\<not> fs_chain.main_hash bs T" by (auto simp: fs_chain.main_hash_def dest!: nth_mem)
  then have "\<not> on_main c T" using fs_chain.on_main_iff [OF D(3,2)] by simp
  from this c(1) reorg_returns [OF fs_chain.chain_world_axioms fs_new_index(1) c this] show ?thesis by blast
qed



text \<open>The exception: when the tip cannot be stored, the UTXO set stays connected while the tip stays behind.\<close>

lemma tip_failure_keeps_utxo:
  assumes "connect_tip E sync h b n w rec c = Some (Inl ErrStoreTip, c')"
  shows "ch_tipHash c' = ch_tipHash c \<and> (\<exists>undo. ConnectBlock (ch_utxoSet c) b n None = Inr (undo, ch_utxoSet c'))"
proof (cases "ConnectBlock (ch_utxoSet c) b n None")
  case (Inl err)
  with assms show ?thesis by (auto simp: connect_tip_def connect_utxos_def sbind_def swith_def sfail_def)
next
  case (Inr res)
  obtain undo U where res: "res = (undo, U)" by fastforce
  show ?thesis
    using assms Inr
    by (auto simp: connect_tip_def connect_utxos_def res sbind_def swith_def supd_def sret_def on_error_def store_op_def opt_err_def
        rollback_utxos_def persistUtxoChanges_def extendChain_def split: option.splits prod.splits)
qed

end
