(* ===== verification/MempoolProps.thy ===== *)
theory MempoolProps
  imports Mempool
begin

text \<open>
  Properties of the mempool: every operation keeps the invariant of \<open>Mempool\<close>, the eviction loops of \<^verbatim>\<open>AddTx\<close> end and
  take out the cheapest entries, the block template is ordered by fee rate with an exact total, and a dump is read back.
\<close>

section \<open>Eviction\<close>

definition entry_key :: "TxEntry \<Rightarrow> u64 \<times> hash" where
  "entry_key e = (te_FeeRate e, te_Hash e)"

text \<open>\<open>m'\<close> is \<open>m\<close> without some entries, none of which ranks above an entry that stays.\<close>

definition cheapest_out :: "Mempool \<Rightarrow> Mempool \<Rightarrow> bool" where
  "cheapest_out m m' \<longleftrightarrow> pool_of m' \<subseteq>\<^sub>m pool_of m \<and>
     (\<forall>h e h' e'. pool_of m h = Some e \<longrightarrow> pool_of m' h = None \<longrightarrow> pool_of m' h' = Some e' \<longrightarrow> entry_key e \<le> entry_key e')"

lemma cheapest_out_refl: "cheapest_out m m"
  by (simp add: cheapest_out_def)

lemma cheapest_out_trans:
  assumes "cheapest_out m m'" "cheapest_out m' m''"
  shows "cheapest_out m m''"
proof -
  have sub: "pool_of m'' \<subseteq>\<^sub>m pool_of m'" "pool_of m' \<subseteq>\<^sub>m pool_of m" using assms by (simp_all add: cheapest_out_def)
  have "entry_key e \<le> entry_key e'"
    if e: "pool_of m h = Some e" "pool_of m'' h = None" "pool_of m'' h' = Some e'" for h e h' e'
  proof (cases "pool_of m' h")
    case None
    have "pool_of m' h' = Some e'" using sub(1) e(3) by (auto simp: map_le_def dom_def)
    then show ?thesis using assms(1) e(1) None unfolding cheapest_out_def by blast
  next
    case (Some x)
    then have "x = e" using sub(2) e(1) by (force simp: map_le_def dom_def)
    then show ?thesis using assms(2) Some e(2,3) unfolding cheapest_out_def by blast
  qed
  then show ?thesis using map_le_trans [OF sub] by (simp add: cheapest_out_def)
qed

lemma pool_of_entry:
  assumes "index_exact (pool_frame m)" "(h, p) \<in> set (mp_txs m)"
  shows "pool_of m h = Some (mp_store (pool_frame m) ! p)"
  using pool_of_frame [OF assms(1), of h] index_exactD(3) [OF assms(1), of h p] assms(2) by simp

lemma pool_of_SomeD:
  assumes "index_exact (pool_frame m)" "pool_of m h = Some e"
  obtains p where "(h, p) \<in> set (mp_txs m)" "e = mp_store (pool_frame m) ! p"
  using assms pool_of_frame [OF assms(1), of h] by (auto dest: map_of_SomeD)

lemma pool_of_entry_ok: "pool_ok m \<Longrightarrow> pool_of m h = Some e \<Longrightarrow> entry_ok h e"
  by (metis index_exactD(2) pool_frame_sel(1) pool_ok_def pool_of_SomeD)

lemma evict_one:
  assumes "pool_ok m" "mp_txs m \<noteq> []"
  shows "\<exists>h e. pool_of m h = Some e \<and> pool_of (evictLowestFeeRateUnsafe m) = (pool_of m)(h := None) \<and>
    (\<forall>h' e'. pool_of m h' = Some e' \<longrightarrow> entry_key e \<le> entry_key e') \<and>
    pool_ok (evictLowestFeeRateUnsafe m) \<and> length (mp_txs (evictLowestFeeRateUnsafe m)) < length (mp_txs m) \<and>
    mp_totalBytes (evictLowestFeeRateUnsafe m) \<le> mp_totalBytes m"
proof -
  let ?m = "evictLowestFeeRateUnsafe m" and ?f = "pool_frame m"
  have exact: "index_exact ?f" using assms(1) by (simp add: pool_ok_def)
  obtain h p where hp: "(h, p) \<in> set (mp_txs m)" "pool_ok ?m" "pool_frame ?m = forget_tx h p ?f"
    and least: "\<forall>(h', p') \<in> set (mp_txs m). fee_key ?f p \<le> fee_key ?f p'"
    using evictLowestFeeRateUnsafe_ok [OF assms] by blast
  have "mp_txs ?m = AList.delete h (mp_txs m)" "mp_totalBytes ?m = mp_totalBytes m - int (te_Size (mp_store ?f ! p))"
    using arg_cong [OF hp(3), of mp_txs] arg_cong [OF hp(3), of mp_totalBytes] by (simp_all add: forget_tx_def)
  moreover have "length (AList.delete h (mp_txs m)) < length (mp_txs m)"
    using hp(1) unfolding AList.delete_eq by (intro length_filter_less [of "(h, p)"]) auto
  moreover have "entry_key (mp_store ?f ! p) \<le> entry_key e'" if e': "pool_of m h' = Some e'" for h' e'
  proof -
    obtain p' where "(h', p') \<in> set (mp_txs m)" "e' = mp_store ?f ! p'" using pool_of_SomeD [OF exact e'] .
    then show ?thesis using least by (auto simp: fee_key_def entry_key_def)
  qed
  ultimately show ?thesis
    using pool_of_entry [OF exact hp(1)] pool_of_forget [OF hp(3) exact hp(1)] hp(2)
    by (intro exI [of _ h] exI [of _ "mp_store ?f ! p"]) simp
qed

lemma evict_while_ok:
  assumes "pool_ok m"
  shows "\<exists>m'. evict_while full m = Some m' \<and> pool_ok m' \<and> cheapest_out m m' \<and> (full m' \<longrightarrow> mp_txs m' = []) \<and>
    length (mp_txs m') \<le> length (mp_txs m) \<and> mp_totalBytes m' \<le> mp_totalBytes m"
  using assms
proof (induction "length (mp_txs m)" arbitrary: m rule: less_induct)
  case less
  show ?case
  proof (cases "full m \<and> mp_txs m \<noteq> []")
    case True
    let ?m = "evictLowestFeeRateUnsafe m"
    obtain h e where e: "pool_of m h = Some e" "pool_of ?m = (pool_of m)(h := None)"
        "\<forall>h' e'. pool_of m h' = Some e' \<longrightarrow> entry_key e \<le> entry_key e'" "pool_ok ?m"
        "length (mp_txs ?m) < length (mp_txs m)" "mp_totalBytes ?m \<le> mp_totalBytes m"
      using evict_one [OF less.prems] True by blast
    have "cheapest_out m ?m" using e(1-3) by (auto simp: cheapest_out_def map_le_def split: if_splits)
    moreover obtain m' where m': "evict_while full ?m = Some m'" "pool_ok m'" "cheapest_out ?m m'"
        "full m' \<longrightarrow> mp_txs m' = []" "length (mp_txs m') \<le> length (mp_txs ?m)" "mp_totalBytes m' \<le> mp_totalBytes ?m"
      using less.hyps [OF e(5,4)] by blast
    moreover have "evict_while full m = evict_while full ?m" using True by (subst evict_while.simps) simp
    ultimately show ?thesis using cheapest_out_trans e(5,6) by (intro exI [of _ m']) auto
  next
    case False
    then have "evict_while full m = Some m" by (subst evict_while.simps) auto
    then show ?thesis using False less.prems cheapest_out_refl by auto
  qed
qed

section \<open>Admission\<close>

lemma spent_pool:
  assumes "pool_ok m"
  shows "mp_spentOutpoints m k = Some h \<longleftrightarrow> (\<exists>e. pool_of m h = Some e \<and> k \<in> set (input_keys (te_Tx e)))"
proof -
  have exact: "index_exact (pool_frame m)" using assms by (simp add: pool_ok_def)
  have "mp_spentOutpoints m k = Some h \<longleftrightarrow>
      (\<exists>p. (h, p) \<in> set (mp_txs m) \<and> k \<in> set (input_keys (te_Tx (mp_store (pool_frame m) ! p))))"
    using exact unfolding index_exact_def by simp
  also have "\<dots> \<longleftrightarrow> (\<exists>e. pool_of m h = Some e \<and> k \<in> set (input_keys (te_Tx e)))"
    using pool_of_entry [OF exact] pool_of_SomeD [OF exact] by metis
  finally show ?thesis .
qed

lemma alist_update_new: "k \<notin> fst ` set xs \<Longrightarrow> AList.update k v xs = xs @ [(k, v)]"
  by (induction xs) auto

lemma find_conflict_None: "find_conflict spent ins = None \<longleftrightarrow> (\<forall>i\<in>set ins. spent (in_key i) = None)"
  by (induction ins) (auto split: option.splits)

definition record_tx :: "TxEntry \<Rightarrow> Mempool \<Rightarrow> Mempool" where
  "record_tx e f =
     f\<lparr>mp_store := mp_store f @ [e], mp_txs := mp_txs f @ [(te_Hash e, length (mp_store f))],
       mp_totalBytes := mp_totalBytes f + int (te_Size e),
       mp_spentOutpoints := (\<lambda>k. if k \<in> set (input_keys (te_Tx e)) then Some (te_Hash e) else mp_spentOutpoints f k)\<rparr>"

lemma index_exact_record:
  assumes "index_exact f" "te_Hash e \<notin> fst ` set (mp_txs f)" "entry_ok (te_Hash e) e"
    and free: "\<forall>k\<in>set (input_keys (te_Tx e)). mp_spentOutpoints f k = None"
  shows "index_exact (record_tx e f)"
proof -
  let ?f = "record_tx e f"
  have old: "mp_store ?f ! p = mp_store f ! p" "p < length (mp_store f)" if "(h, p) \<in> set (mp_txs f)" for h p
    using index_exactD(1) [OF assms(1) that] by (simp_all add: record_tx_def nth_append)
  have new: "mp_store ?f ! length (mp_store f) = e" by (simp add: record_tx_def)
  have sp: "mp_spentOutpoints f k = Some h \<longleftrightarrow>
      (\<exists>p. (h, p) \<in> set (mp_txs f) \<and> k \<in> set (input_keys (te_Tx (mp_store f ! p))))" for k h
    using assms(1) unfolding index_exact_def by blast
  have old_keys: "k \<in> set (input_keys (te_Tx (mp_store ?f ! p))) \<longleftrightarrow> k \<in> set (input_keys (te_Tx (mp_store f ! p)))"
    if "(h, p) \<in> set (mp_txs f)" for k h p using old(1) [OF that] by simp
  have "mp_spentOutpoints ?f k = Some h \<longleftrightarrow>
      (\<exists>p. (h, p) \<in> set (mp_txs ?f) \<and> k \<in> set (input_keys (te_Tx (mp_store ?f ! p))))" for k h
  proof (cases "k \<in> set (input_keys (te_Tx e))")
    case True
    then have "\<not> (\<exists>p. (h, p) \<in> set (mp_txs f) \<and> k \<in> set (input_keys (te_Tx (mp_store ?f ! p))))"
      using free sp [of k h] old_keys by auto
    then show ?thesis using True new by (auto simp: record_tx_def)
  next
    case False
    then show ?thesis using sp [of k h] old_keys new by (auto simp: record_tx_def)
  qed
  moreover have "(\<Sum>(h, p)\<leftarrow>mp_txs f. int (te_Size (mp_store ?f ! p))) = mp_totalBytes f"
    using assms(1) old(1) unfolding index_exact_def by (auto intro!: arg_cong [of _ _ sum_list])
  moreover have "\<forall>(h, p) \<in> set (mp_txs ?f). p < length (mp_store ?f) \<and> entry_ok h (mp_store ?f ! p)"
    using index_exactD(2) [OF assms(1)] old new assms(3) by (fastforce simp: record_tx_def)
  moreover have "distinct (map fst (mp_txs ?f))"
    using assms(1,2) by (simp add: record_tx_def index_exact_def)
  ultimately show ?thesis using new unfolding index_exact_def by (simp add: record_tx_def)
qed

lemma heap_ok_grow: "fh.heap_ok m \<Longrightarrow> mp_feeOrder m' = mp_feeOrder m \<Longrightarrow> mp_store m' = mp_store m @ es \<Longrightarrow> fh.heap_ok m'"
proof -
  assume a: "fh.heap_ok m" "mp_feeOrder m' = mp_feeOrder m" "mp_store m' = mp_store m @ es"
  then have "p < length (mp_store m)" if "p \<in> set (mp_feeOrder m)" for p
    using that unfolding heap_idx_ok_def by (auto simp: in_set_conv_nth)
  then have "fh.ks m' = fh.ks m" using a(2,3) by (auto simp: fh.ks_def fee_key_def nth_append)
  moreover have "heap_idx_ok m'" using a unfolding heap_idx_ok_def by (auto simp: nth_append)
  ultimately show ?thesis using a by simp
qed

lemma insert_entry_ok:
  assumes "pool_ok m" "pool_of m (te_Hash e) = None" "entry_ok (te_Hash e) e"
    and free: "\<forall>k\<in>set (input_keys (te_Tx e)). mp_spentOutpoints m k = None"
  shows "pool_ok (insert_entry e m) \<and> pool_of (insert_entry e m) = (pool_of m)(te_Hash e \<mapsto> strip_entry e) \<and>
    length (mp_txs (insert_entry e m)) = Suc (length (mp_txs m)) \<and>
    mp_totalBytes (insert_entry e m) = mp_totalBytes m + int (te_Size e)"
proof -
  let ?h = "te_Hash e" and ?p = "length (mp_store m)"
  let ?m1 = "m\<lparr>mp_store := mp_store m @ [e], mp_txs := AList.update ?h ?p (mp_txs m),
      mp_totalBytes := mp_totalBytes m + int (te_Size e)\<rparr>"
  let ?m2 = "heap_Push feeHeap ?m1 ?p" and ?m3 = "insert_entry e m"
  have m: "index_exact (pool_frame m)" "fh.heap_ok m" "set (mp_feeOrder m) = snd ` set (mp_txs m)"
    using assms(1) by (simp_all add: pool_ok_def heap_holds_def)
  have hnew: "?h \<notin> fst ` set (mp_txs m)" using assms(2) dom_pool_of [of m] by auto
  have below: "p < ?p" if "p \<in> snd ` set (mp_txs m)" for p using that index_exactD(1) [OF m(1)] by auto
  have "fh.heap_ok ?m1" using heap_ok_grow [OF m(2), of ?m1 "[e]"] by simp
  moreover have "heap_new ?m1 ?p" using m(3) below by (auto simp: heap_new_def)
  ultimately have P: "fh.heap_ok ?m2" "mset (mp_feeOrder ?m2) = add_mset ?p (mset (mp_feeOrder m))" "pool_frame ?m2 = pool_frame ?m1"
    using fh.Push_ok [of ?m1 ?p] by simp_all
  have m3: "?m3 = ?m2\<lparr>mp_spentOutpoints := fold (\<lambda>k s. s(k \<mapsto> ?h)) (input_keys (te_Tx e)) (mp_spentOutpoints ?m2)\<rparr>"
    by (simp add: insert_entry_def Let_def)
  note fr = pool_frame_eqD [OF P(3)]
  have frame: "pool_frame ?m3 = record_tx (strip_entry e) (pool_frame m)"
    unfolding m3
    by (rule Mempool.Mempool.equality) (use fr hnew in \<open>simp_all add: record_tx_def fold_insert alist_update_new cong: if_cong\<close>)
  have exact: "index_exact (pool_frame ?m3)"
    unfolding frame using m(1) hnew assms(3) free by (intro index_exact_record) (simp_all add: entry_ok_def)
  have "set (mp_feeOrder ?m2) = insert ?p (set (mp_feeOrder m))" using P(2) by (metis set_mset_add_mset_insert set_mset_mset)
  then have "heap_holds {} ?m3"
    using P(1) heap_ok_cong [of ?m3 ?m2] m(3) fr(1) hnew unfolding heap_holds_def m3 by (auto simp: alist_update_new)
  moreover have txs: "mp_txs ?m3 = mp_txs m @ [(?h, ?p)]" "mp_totalBytes ?m3 = mp_totalBytes m + int (te_Size e)"
    using arg_cong [OF frame, of mp_txs] arg_cong [OF frame, of mp_totalBytes] by (simp_all add: record_tx_def)
  moreover have "pool_of ?m3 h = ((pool_of m)(?h \<mapsto> strip_entry e)) h" for h
  proof -
    have "map_of (mp_txs ?m3) h = (if h = ?h then Some ?p else map_of (mp_txs m) h)"
      using hnew unfolding txs by (auto simp: map_add_def image_iff split: option.splits dest!: map_of_SomeD)
    moreover have "mp_store (pool_frame ?m3) = mp_store (pool_frame m) @ [strip_entry e]" unfolding frame by (simp add: record_tx_def)
    ultimately show ?thesis
      using below unfolding pool_of_frame [OF exact] pool_of_frame [OF m(1)]
      by (auto simp: nth_append option.map_comp comp_def intro!: map_option_cong dest: map_of_SomeD)
        (metis (no_types) below image_eqI map_of_SomeD snd_conv)+
  qed
  ultimately show ?thesis using exact by (auto simp: pool_ok_def)
qed

text \<open>What an admitted transaction passed.\<close>

lemma check_relay_fee_ok:
  assumes "check_relay_fee p fee n = Inr ()"
  shows "fee \<ge> par_MinRelayTxFee p" "fee div of_nat n \<ge> par_MinRelayTxFeeRate p"
proof -
  have "x \<le> y" if "\<not> (0 < x \<and> y < x)" for x y :: u64 using that by (metis not_less word_gt_0 word_zero_le)
  then show "fee \<ge> par_MinRelayTxFee p" "fee div of_nat n \<ge> par_MinRelayTxFeeRate p"
    using assms unfolding check_relay_fee_def by (meson Inl_Inr_False)+
qed

lemma check_tx_ok:
  assumes "check_tx L p env tx m = Inr e"
  shows "entry_ok (te_Hash e) e" "te_Tx e = tx" "te_Hash e = HashTransaction tx" "map_of (mp_txs m) (te_Hash e) = None"
    "\<forall>k\<in>set (input_keys tx). mp_spentOutpoints m k = None" "te_Size e \<le> MaxTxSize" "te_AddedAt e = pe_now env"
    "te_Fee e \<ge> par_MinRelayTxFee p" "te_FeeRate e \<ge> par_MinRelayTxFeeRate p"
    "ValidateSingleTransaction L (pe_nowUnix env) tx (pe_utxoSet env) (pe_tipHeight env) p
       (add_supplemental env m (tx_Inputs tx) None) = Inr (te_Fee e)"
proof -
  let ?n = "pool_size tx"
  have ok: "map_of (mp_txs m) (HashTransaction tx) = None" "find_conflict (mp_spentOutpoints m) (tx_Inputs tx) = None"
      "check_relay_fee p (te_Fee e) ?n = Inr ()" "e = new_entry tx (te_Fee e) ?n (pe_now env)"
      "ValidateSingleTransaction L (pe_nowUnix env) tx (pe_utxoSet env) (pe_tipHeight env) p
         (add_supplemental env m (tx_Inputs tx) None) = Inr (te_Fee e)"
    using assms by (auto simp: check_tx_def pool_size_def Let_def new_entry_def split: if_splits option.splits)
  have e: "te_Tx e = tx" "te_Hash e = HashTransaction tx" "te_Size e = ?n" "te_FeeRate e = te_Fee e div of_nat ?n" "te_AddedAt e = pe_now env"
    by (subst ok(4), simp add: new_entry_def)+
  show "te_Tx e = tx" "te_Hash e = HashTransaction tx" "te_AddedAt e = pe_now env" by (rule e)+
  show "entry_ok (te_Hash e) e" using e by (simp add: entry_ok_def)
  show "map_of (mp_txs m) (te_Hash e) = None" using ok(1) e by simp
  show "\<forall>k\<in>set (input_keys tx). mp_spentOutpoints m k = None" using ok(2) by (simp add: find_conflict_None input_keys_def)
  show "te_Size e \<le> MaxTxSize"
    using ok(5) e(3) by (auto simp: ValidateSingleTransaction_def pool_size_def MaxTxSize_def split: if_splits)
  show "te_Fee e \<ge> par_MinRelayTxFee p" "te_FeeRate e \<ge> par_MinRelayTxFeeRate p" using check_relay_fee_ok [OF ok(3)] e(4) by simp_all
  show "ValidateSingleTransaction L (pe_nowUnix env) tx (pe_utxoSet env) (pe_tipHeight env) p
      (add_supplemental env m (tx_Inputs tx) None) = Inr (te_Fee e)" by (rule ok(5))
qed

lemma pool_of_None: "pool_of m h = None \<longleftrightarrow> map_of (mp_txs m) h = None"
  by (simp add: pool_of_def GetTxEntry_def)

lemma admit_ok:
  assumes "pool_ok m" "check_tx L p env tx m = Inr e" "length (mp_txs m) < 2 ^ 32"
  shows "\<exists>m0 m'. admit p e m = Some m' \<and> cheapest_out m m0 \<and> pool_ok m0 \<and> pool_ok m' \<and>
    pool_of m' = (pool_of m0)(te_Hash e \<mapsto> strip_entry e) \<and>
    length (mp_txs m') \<le> max 1 (unat (par_MaxMempoolSize p)) \<and> mp_totalBytes m' \<le> maxMempoolBytes"
proof -
  note e = check_tx_ok [OF assms(2)]
  obtain m1 where m1: "evict_while (too_many p) m = Some m1" "pool_ok m1" "cheapest_out m m1"
      "too_many p m1 \<longrightarrow> mp_txs m1 = []" "length (mp_txs m1) \<le> length (mp_txs m)"
    using evict_while_ok [OF assms(1), of "too_many p"] by blast
  obtain m2 where m2: "evict_while (too_large (te_Size e)) m1 = Some m2" "pool_ok m2" "cheapest_out m1 m2"
      "too_large (te_Size e) m2 \<longrightarrow> mp_txs m2 = []" "length (mp_txs m2) \<le> length (mp_txs m1)"
    using evict_while_ok [OF m1(2), of "too_large (te_Size e)"] by blast
  have out: "cheapest_out m m2" using cheapest_out_trans m1(3) m2(3) .
  have low: "pool_of m h = None \<Longrightarrow> pool_of m2 h = None" for h
    using out unfolding cheapest_out_def map_le_def by (metis domIff)
  have "mp_spentOutpoints m2 k = None" if k: "k \<in> set (input_keys (te_Tx e))" for k
  proof (rule ccontr)
    assume "mp_spentOutpoints m2 k \<noteq> None"
    then obtain h x where "pool_of m2 h = Some x" "k \<in> set (input_keys (te_Tx x))" using spent_pool [OF m2(2)] by blast
    then have "mp_spentOutpoints m k = Some h"
      using out spent_pool [OF assms(1), of k h] unfolding cheapest_out_def map_le_def by (metis domI)
    then show False using e(2,5) k by simp
  qed
  then have ins: "pool_ok (insert_entry e m2)" "pool_of (insert_entry e m2) = (pool_of m2)(te_Hash e \<mapsto> strip_entry e)"
      "length (mp_txs (insert_entry e m2)) = Suc (length (mp_txs m2))"
      "mp_totalBytes (insert_entry e m2) = mp_totalBytes m2 + int (te_Size e)"
    using insert_entry_ok [OF m2(2) _ e(1)] low e(4) by (simp_all add: pool_of_None)
  have "Suc (length (mp_txs m2)) \<le> max 1 (unat (par_MaxMempoolSize p))"
  proof (cases "mp_txs m1 = []")
    case False
    then have lt: "(of_nat (length (mp_txs m1)) :: u32) < par_MaxMempoolSize p" using m1(4) by (auto simp: too_many_def)
    have "length (mp_txs m1) < 2 ^ 32" using m1(5) assms(3) by simp
    then have "length (mp_txs m1) < unat (par_MaxMempoolSize p)" using lt by (simp add: word_less_nat_alt unat_of_nat)
    then show ?thesis using m2(5) by simp
  qed (use m2(5) in simp)
  moreover have "mp_totalBytes m2 + int (te_Size e) \<le> maxMempoolBytes"
  proof (cases "too_large (te_Size e) m2")
    case True
    then have "mp_totalBytes m2 = 0" using m2(2,4) by (simp add: pool_ok_def index_exact_def)
    then show ?thesis using e(6) by (simp add: maxMempoolBytes_def MaxTxSize_def)
  qed (simp add: too_large_def)
  ultimately show ?thesis
    using out m1(1) m2(1,2) ins by (intro exI [of _ m2] exI [of _ "insert_entry e m2"]) (simp add: admit_def)
qed

section \<open>Every operation keeps the invariant\<close>

definition ordinary :: "Mempool \<Rightarrow> bool" where
  "ordinary m \<longleftrightarrow> (\<forall>e \<in> ran (pool_of m). \<not> Transaction_IsCoinbase (te_Tx e))"

lemma ordinary_sub: "ordinary m \<Longrightarrow> pool_of m' \<subseteq>\<^sub>m pool_of m \<Longrightarrow> ordinary m'"
  by (auto simp: ordinary_def map_le_def ran_def) (metis domI)

lemma ordinary_add: "ordinary m \<Longrightarrow> pool_of m' = (pool_of m)(h \<mapsto> e) \<Longrightarrow> \<not> Transaction_IsCoinbase (te_Tx e) \<Longrightarrow> ordinary m'"
  by (auto simp: ordinary_def ran_def split: if_splits)

lemma ordinary_empty: "mp_txs m = [] \<Longrightarrow> ordinary m"
  by (simp add: ordinary_def ran_def pool_of_None [THEN iffD2])

definition pool_inv :: "ChainParams \<Rightarrow> Mempool \<Rightarrow> bool" where
  "pool_inv p m \<longleftrightarrow> pool_ok m \<and> length (mp_txs m) \<le> max 1 (unat (par_MaxMempoolSize p)) \<and>
     mp_totalBytes m \<le> maxMempoolBytes \<and> ordinary m"

lemma pool_inv_small: "pool_inv p m \<Longrightarrow> length (mp_txs m) < 2 ^ 32"
  using unsigned_less [of "par_MaxMempoolSize p", where ?'a = nat] by (auto simp: pool_inv_def)

lemma check_tx_ordinary: "check_tx L p env tx m = Inr e \<Longrightarrow> \<not> Transaction_IsCoinbase tx"
proof
  assume "check_tx L p env tx m = Inr e" "Transaction_IsCoinbase tx"
  moreover from this(2) have "check_tx L p env tx m = Inl ErrPoolCoinbase" by (simp only: check_tx_def if_True)
  ultimately show False by simp
qed

lemma AddTx_ok:
  assumes "pool_inv p m"
  shows "(\<exists>err. check_tx L p env tx m = Inl err \<and> AddTx L p env tx m = Some (Inl err, m)) \<or>
    (\<exists>e m0 m'. check_tx L p env tx m = Inr e \<and> AddTx L p env tx m = Some (Inr (te_Hash e), m') \<and> cheapest_out m m0 \<and>
       pool_of m' = (pool_of m0)(te_Hash e \<mapsto> strip_entry e) \<and> pool_inv p m')"
proof (cases "check_tx L p env tx m")
  case (Inr e)
  have "pool_ok m" using assms by (simp add: pool_inv_def)
  then obtain m0 m' where m': "admit p e m = Some m'" "cheapest_out m m0" "pool_of m' = (pool_of m0)(te_Hash e \<mapsto> strip_entry e)"
      "pool_ok m'" "length (mp_txs m') \<le> max 1 (unat (par_MaxMempoolSize p))" "mp_totalBytes m' \<le> maxMempoolBytes"
    using admit_ok [OF _ Inr pool_inv_small [OF assms]] by blast
  have "ordinary m0" using assms m'(2) ordinary_sub [of m m0] by (simp add: pool_inv_def cheapest_out_def)
  moreover have "\<not> Transaction_IsCoinbase (te_Tx e)" using check_tx_ordinary [OF Inr] unfolding check_tx_ok(2) [OF Inr] .
  ultimately have "ordinary m'" using ordinary_add [OF _ m'(3)] by simp
  with m' have "pool_inv p m'" by (simp add: pool_inv_def)
  then show ?thesis using Inr m'(1-3) by (auto simp: AddTx_def)
qed (simp add: AddTx_def)

lemma pool_inv_remove: "pool_inv p m \<Longrightarrow> pool_inv p (removeTxUnsafe h m)"
  using removeTxUnsafe_pool [of m h] ordinary_sub [of m "removeTxUnsafe h m"] by (auto simp: pool_inv_def map_le_def)

lemma pool_inv_removes: "pool_inv p m \<Longrightarrow> pool_inv p (fold removeTxUnsafe hs m)"
  by (induction hs arbitrary: m) (simp_all add: pool_inv_remove)

lemma fold_remove_pool: "pool_ok m \<Longrightarrow> pool_ok (fold removeTxUnsafe hs m) \<and> pool_of (fold removeTxUnsafe hs m) = pool_of m |` (- set hs)"
proof (induction hs arbitrary: m)
  case (Cons h hs)
  have "pool_ok (removeTxUnsafe h m)" "pool_of (removeTxUnsafe h m) = (pool_of m)(h := None)"
    using removeTxUnsafe_pool [OF Cons.prems] by simp_all
  then show ?case using Cons.IH [of "removeTxUnsafe h m"] by (auto simp: restrict_map_def fun_eq_iff)
qed (simp add: restrict_map_def)

lemma pool_inv_evict: "pool_inv p m \<Longrightarrow> pool_inv p (snd (EvictLowestFeeRate m))"
  using evict_one [of m] ordinary_sub [of m "evictLowestFeeRateUnsafe m"]
  by (fastforce simp: pool_inv_def EvictLowestFeeRate_def map_le_def)

lemma pool_inv_expire: "pool_inv p m \<Longrightarrow> pool_inv p (snd (ExpireOldTxs p now order m))"
  by (simp add: ExpireOldTxs_def Let_def pool_inv_removes)

lemma index_exact_cong:
  assumes "index_exact f" "mp_txs f' = mp_txs f" "mp_spentOutpoints f' = mp_spentOutpoints f" "mp_totalBytes f' = mp_totalBytes f"
    and len: "length (mp_store f') = length (mp_store f)"
    and sel: "\<And>i. i < length (mp_store f) \<Longrightarrow> te_Tx (mp_store f' ! i) = te_Tx (mp_store f ! i)"
      "\<And>i. i < length (mp_store f) \<Longrightarrow> te_Size (mp_store f' ! i) = te_Size (mp_store f ! i)"
      "\<And>i k. i < length (mp_store f) \<Longrightarrow> entry_ok k (mp_store f' ! i) = entry_ok k (mp_store f ! i)"
  shows "index_exact f'"
proof -
  have in_st: "i < length (mp_store f)" if "(k, i) \<in> set (mp_txs f)" for k i using index_exactD(1) [OF assms(1) that] .
  have "(\<Sum>(k, i)\<leftarrow>mp_txs f. int (te_Size (mp_store f' ! i))) = (\<Sum>(k, i)\<leftarrow>mp_txs f. int (te_Size (mp_store f ! i)))"
    by (rule arg_cong [of _ _ sum_list]) (use in_st sel(2) in \<open>auto intro!: map_cong\<close>)
  moreover have "(\<exists>i. (k', i) \<in> set (mp_txs f) \<and> k \<in> set (input_keys (te_Tx (mp_store f' ! i)))) \<longleftrightarrow>
      (\<exists>i. (k', i) \<in> set (mp_txs f) \<and> k \<in> set (input_keys (te_Tx (mp_store f ! i))))" for k k'
    using in_st sel(1) by metis
  moreover have "\<forall>(k, i) \<in> set (mp_txs f). i < length (mp_store f') \<and> entry_ok k (mp_store f' ! i)"
    using in_st sel(3) index_exactD(2) [OF assms(1)] len by fastforce
  ultimately show ?thesis using assms(1-4) unfolding index_exact_def by simp
qed

lemma nth_update_sel: "(\<And>x. f (g x) = f x) \<Longrightarrow> f (xs[q := g (xs ! q)] ! i) = f (xs ! i)"
  by (cases "i = q"; cases "q < length xs") (simp_all add: list_update_beyond)

lemma set_AddedAt_ok:
  assumes "pool_ok m" "pool_of m h = Some e"
  shows "pool_ok (set_AddedAt h t m)" "pool_of (set_AddedAt h t m) = (pool_of m)(h \<mapsto> e\<lparr>te_AddedAt := t\<rparr>)"
    "mp_txs (set_AddedAt h t m) = mp_txs m" "mp_totalBytes (set_AddedAt h t m) = mp_totalBytes m"
proof -
  have exact: "index_exact (pool_frame m)" using assms(1) by (simp add: pool_ok_def)
  obtain q where q: "(h, q) \<in> set (mp_txs m)" "e = mp_store (pool_frame m) ! q" using pool_of_SomeD [OF exact assms(2)] .
  have mq: "map_of (mp_txs m) h = Some q" "q < length (mp_store m)" using index_exactD [OF exact, of h q] q(1) by simp_all
  let ?m = "m\<lparr>mp_store := (mp_store m)[q := (mp_store m ! q)\<lparr>te_AddedAt := t\<rparr>]\<rparr>"
  have m': "set_AddedAt h t m = ?m" using mq by (simp add: set_AddedAt_def)
  show "mp_txs (set_AddedAt h t m) = mp_txs m" "mp_totalBytes (set_AddedAt h t m) = mp_totalBytes m" unfolding m' by simp_all
  let ?st = "mp_store (pool_frame m)" and ?st' = "mp_store (pool_frame ?m)"
  have len: "length ?st' = length ?st" by simp
  have st: "?st' ! i = (if i = q then (?st ! i)\<lparr>te_AddedAt := t\<rparr> else ?st ! i)" if "i < length ?st" for i
    using that by (simp add: nth_list_update strip_entry_def)
  have sel: "te_Tx (?st' ! i) = te_Tx (?st ! i)" "te_Size (?st' ! i) = te_Size (?st ! i)" "entry_ok k (?st' ! i) = entry_ok k (?st ! i)"
    if "i < length ?st" for i k using st [OF that] by (simp_all add: entry_ok_def)
  have "index_exact (pool_frame ?m)"
    using index_exact_cong [OF exact, of "pool_frame ?m"] sel by simp
  moreover have "heap_idx_ok ?m \<and> fh.ks ?m = fh.ks m" if "fh.heap_ok m"
  proof
    have "te_heapIdx (mp_store ?m ! i) = te_heapIdx (mp_store m ! i)" for i
      using nth_update_sel [of te_heapIdx "te_AddedAt_update (\<lambda>_. t)"] by simp
    then show "heap_idx_ok ?m" using that unfolding heap_idx_ok_def by simp
    have "i < length (mp_store m)" if "i \<in> set (mp_feeOrder m)" for i
      using \<open>fh.heap_ok m\<close> that unfolding heap_idx_ok_def by (auto simp: in_set_conv_nth)
    then show "fh.ks ?m = fh.ks m"
      using nth_update_sel [of te_FeeRate "te_AddedAt_update (\<lambda>_. t)"] nth_update_sel [of te_Hash "te_AddedAt_update (\<lambda>_. t)"]
      by (auto simp: fh.ks_def fee_key_def)
  qed
  ultimately show "pool_ok (set_AddedAt h t m)" using assms(1) unfolding m' pool_ok_def heap_holds_def by simp
  show "pool_of (set_AddedAt h t m) = (pool_of m)(h \<mapsto> e\<lparr>te_AddedAt := t\<rparr>)"
  proof
    fix k
    show "pool_of (set_AddedAt h t m) k = ((pool_of m)(h \<mapsto> e\<lparr>te_AddedAt := t\<rparr>)) k"
    proof (cases "map_of (mp_txs m) k")
      case None
      then have "pool_of m k = None" "pool_of ?m k = None" "k \<noteq> h" using mq by (auto simp: pool_of_None)
      then show ?thesis unfolding m' by simp
    next
      case (Some i)
      then have i: "(k, i) \<in> set (mp_txs m)" by (rule map_of_SomeD)
      then have "i < length ?st" "i = q \<longleftrightarrow> k = h"
        using index_exactD(1) [OF exact, of k i] index_exact_inj(1) [OF exact, of k i h q] q(1) Some mq by auto
      moreover have "pool_of ?m k = Some (?st' ! i)" "pool_of m k = Some (?st ! i)"
        using pool_of_entry [OF \<open>index_exact (pool_frame ?m)\<close>, of k i] pool_of_entry [OF exact, of k i] i by simp_all
      ultimately show ?thesis using st [of i] q(2) unfolding m' by (auto simp del: pool_frame_sel)
    qed
  qed
qed

text \<open>Loading a dump.\<close>

lemma load_tx_ok:
  assumes "pool_inv p m"
  shows "\<exists>n' m'. load_tx L p env t tx (n, m) = Some (n', m') \<and> pool_inv p m'"
proof (cases "par_MempoolExpiry p > 0 \<and> pe_now env - t > par_MempoolExpiry p")
  case False
  then have load: "load_tx L p env t tx (n, m) =
      map_option (\<lambda>(r, m). case r of Inl err \<Rightarrow> (n, m) | Inr h \<Rightarrow> (n + 1, set_AddedAt h t m)) (AddTx L p env tx m)"
    by (auto simp: load_tx_def)
  from AddTx_ok [OF assms, of L env tx] show ?thesis
  proof (elim disjE exE conjE)
    fix e m0 m'
    assume a: "AddTx L p env tx m = Some (Inr (te_Hash e), m')" "pool_of m' = (pool_of m0)(te_Hash e \<mapsto> strip_entry e)" "pool_inv p m'"
    have "pool_of m' (te_Hash e) = Some (strip_entry e)" using a(2) by simp
    moreover from this have "\<not> Transaction_IsCoinbase (te_Tx (strip_entry e))" using a(3) by (auto simp: pool_inv_def ordinary_def ran_def)
    ultimately have "pool_inv p (set_AddedAt (te_Hash e) t m')"
      using set_AddedAt_ok [of m' "te_Hash e" "strip_entry e" t] a(3)
        ordinary_add [of m' "set_AddedAt (te_Hash e) t m'" "te_Hash e" "(strip_entry e)\<lparr>te_AddedAt := t\<rparr>"]
      by (simp add: pool_inv_def)
    then show ?thesis unfolding load using a(1) by simp
  qed (use assms load in simp)
qed (use assms in \<open>simp add: load_tx_def\<close>)

lemma loadV1_loop_ok: "pool_inv p (snd lm) \<Longrightarrow> \<exists>lm'. loadV1_loop L p env n data lm = Some lm' \<and> pool_inv p (snd lm')"
proof (induction n arbitrary: data lm)
  case (Suc n)
  have step: "\<exists>lm'. Option.bind (load_tx L p env t tx lm) (loadV1_loop L p env n rest) = Some lm' \<and> pool_inv p (snd lm')" for t tx rest
  proof -
    obtain n' m' where "load_tx L p env t tx (fst lm, snd lm) = Some (n', m')" "pool_inv p m'"
      using load_tx_ok [OF Suc.prems] by blast
    then show ?thesis using Suc.IH [of "(n', m')" rest] by simp
  qed
  show ?case
  proof (cases "length data < 8 \<or> drop 8 data = []")
    case False
    then show ?thesis
      using Suc.prems step by (cases "Transaction_Deserialize (drop 8 data)") (auto simp: Let_def)
  qed (use Suc.prems in \<open>cases lm, auto\<close>)
qed simp

lemma loadV0_loop_ok: "pool_inv p m \<Longrightarrow> \<exists>n' m'. loadV0_loop L p env n data loaded m = Some (n', m') \<and> pool_inv p m'"
proof (induction n arbitrary: data loaded m)
  case (Suc n)
  show ?case
  proof (cases "data = [] \<or> (\<exists>err. Transaction_Deserialize data = Inl err)")
    case False
    then obtain tx rest where d: "data \<noteq> []" "Transaction_Deserialize data = Inr (tx, rest)"
      by (cases "Transaction_Deserialize data") auto
    obtain r m' where "AddTx L p env tx m = Some (r, m')" "pool_inv p m'"
      using AddTx_ok [OF Suc.prems, of L env tx] Suc.prems by blast
    then show ?thesis using Suc.IH [of m' rest] d by simp
  qed (use Suc.prems in auto)
qed simp

lemma LoadFromBytes_ok: "pool_inv p m \<Longrightarrow> \<exists>n m'. LoadFromBytes L p env data m = Some (n, m') \<and> pool_inv p m'"
  using loadV0_loop_ok loadV1_loop_ok [of p "(0, m)"]
  by (fastforce simp: LoadFromBytes_def loadV0_def loadV1_def split: list.splits sum.splits)

section \<open>The states of a running mempool\<close>

inductive mempool_runs :: "('sig, 'pk, 'sk) ecdsa_lib \<Rightarrow> ChainParams \<Rightarrow> Mempool \<Rightarrow> bool" for L p where
  start: "mempool_runs L p NewMempool"
| add: "mempool_runs L p m \<Longrightarrow> AddTx L p env tx m = Some (r, m') \<Longrightarrow> mempool_runs L p m'"
| remove: "mempool_runs L p m \<Longrightarrow> mempool_runs L p (RemoveTx h m)"
| removes: "mempool_runs L p m \<Longrightarrow> mempool_runs L p (RemoveTxs hs m)"
| evict: "mempool_runs L p m \<Longrightarrow> mempool_runs L p (snd (EvictLowestFeeRate m))"
| expire: "mempool_runs L p m \<Longrightarrow> mempool_runs L p (snd (ExpireOldTxs p now order m))"
| load: "mempool_runs L p m \<Longrightarrow> LoadFromBytes L p env data m = Some (n, m') \<Longrightarrow> mempool_runs L p m'"

lemma pool_inv_New: "pool_inv p NewMempool"
  using pool_ok_NewMempool
  by (simp add: pool_inv_def)
    (simp add: NewMempool_def heap_Init_def feeHeap_def feeHeap_Len_def maxMempoolBytes_def ordinary_empty)

lemma mempool_runs_inv: "mempool_runs L p m \<Longrightarrow> pool_inv p m"
proof (induction rule: mempool_runs.induct)
  case (add m env tx r m')
  then show ?case using AddTx_ok [OF add.IH, of L env tx] by auto
next
  case (load m env data n m')
  then show ?case using LoadFromBytes_ok [OF load.IH, of L env data] by auto
qed (simp_all add: pool_inv_New pool_inv_remove pool_inv_removes pool_inv_evict pool_inv_expire RemoveTx_def RemoveTxs_def)

section \<open>The block template\<close>

definition template_key :: "TxEntry \<Rightarrow> nat \<times> hash" where
  "template_key e = (2 ^ 64 - unat (te_FeeRate e), te_Hash e)"

lemma entry_before_key: "entry_before a b \<longleftrightarrow> template_key a < template_key b"
proof -
  have lt: "unat (te_FeeRate e) < 2 ^ 64" for e using unsigned_less [of "te_FeeRate e", where ?'a = nat] by simp
  have "2 ^ 64 - unat (te_FeeRate a) < 2 ^ 64 - unat (te_FeeRate b) \<longleftrightarrow> te_FeeRate b < te_FeeRate a"
      "2 ^ 64 - unat (te_FeeRate a) = 2 ^ 64 - unat (te_FeeRate b) \<longleftrightarrow> te_FeeRate a = te_FeeRate b"
    using lt [of a] lt [of b] unfolding word_less_nat_alt word_unat_eq_iff by linarith+
  then show ?thesis
    by (auto simp: entry_before_def template_key_def less_prod_def' hashLess_def less_hash_def Hash_Less_def)
qed

lemma GetAllEntries_sorted: "sorted (map template_key (GetAllEntries order m))"
proof -
  have "sorted_wrt (\<lambda>a b. \<not> entry_before b a) (GetAllEntries order m)"
    unfolding GetAllEntries_def by (rule sorted_sort_slice) (auto simp: entry_before_key)
  then show ?thesis by (simp add: sorted_map entry_before_key not_less)
qed

lemma template_fees_exact:
  assumes "template_fees es t = (taken, fees)"
  shows "\<exists>n. taken = take n es \<and> unat fees = unat t + (\<Sum>e\<leftarrow>taken. unat (te_Fee e)) \<and>
    (n < length es \<longrightarrow> unat t + (\<Sum>e\<leftarrow>es. unat (te_Fee e)) \<ge> 2 ^ 64)"
  using assms
proof (induction es arbitrary: t taken fees)
  case (Cons e es)
  show ?case
  proof (cases "t + te_Fee e < t")
    case True
    then have "unat t + unat (te_Fee e) \<ge> 2 ^ 64"
      using unat_plus_simple [of t "te_Fee e"] no_olen_add_nat [of t "te_Fee e"] by (simp add: not_le [symmetric])
    then show ?thesis using Cons.prems True by (intro exI [of _ 0]) simp
  next
    case False
    obtain r f where r: "template_fees es (t + te_Fee e) = (r, f)" by fastforce
    have "unat (t + te_Fee e) = unat t + unat (te_Fee e)" using False by (simp add: unat_plus_simple [symmetric] not_less)
    moreover obtain n where "r = take n es" "unat f = unat (t + te_Fee e) + (\<Sum>e\<leftarrow>r. unat (te_Fee e))"
        "n < length es \<longrightarrow> unat (t + te_Fee e) + (\<Sum>e\<leftarrow>es. unat (te_Fee e)) \<ge> 2 ^ 64"
      using Cons.IH [OF r] by blast
    ultimately show ?thesis using Cons.prems False r by (intro exI [of _ "Suc n"]) (auto simp: add.assoc)
  qed
qed simp

lemma entries_of_pool:
  assumes "pool_ok m" "mset order = mset (mp_txs m)"
  shows "strip_entry ` set (GetAllEntries order m) = ran (pool_of m)" "distinct (map te_Hash (GetAllEntries order m))"
proof -
  let ?es = "map (\<lambda>(h, q). mp_store m ! q) order"
  have exact: "index_exact (pool_frame m)" using assms(1) by (simp add: pool_ok_def)
  have set: "set order = set (mp_txs m)" using assms(2) by (metis set_mset_mset)
  have st: "mp_store (pool_frame m) ! q = strip_entry (mp_store m ! q)" "te_Hash (mp_store m ! q) = h"
    if "(h, q) \<in> set order" for h q
    using index_exactD [OF exact, of h q] that set by (simp_all add: entry_ok_def)
  have "strip_entry ` set ?es = ran (pool_of m)"
  proof (intro set_eqI iffI)
    fix x
    assume "x \<in> strip_entry ` set ?es"
    then obtain h q where "(h, q) \<in> set order" "x = strip_entry (mp_store m ! q)" by auto
    then show "x \<in> ran (pool_of m)" using pool_of_entry [OF exact, of h q] st set by (auto intro: ranI)
  next
    fix x
    assume "x \<in> ran (pool_of m)"
    then obtain h where "pool_of m h = Some x" by (auto simp: ran_def)
    then obtain q where "(h, q) \<in> set order" "x = mp_store (pool_frame m) ! q" using pool_of_SomeD [OF exact] set by metis
    then show "x \<in> strip_entry ` set ?es" using st by force
  qed
  then show "strip_entry ` set (GetAllEntries order m) = ran (pool_of m)" by (simp add: GetAllEntries_def)
  have "map te_Hash ?es = map fst order" using st(2) by auto
  moreover have "distinct (map fst order) = distinct (map fst (mp_txs m))"
    by (rule mset_eq_imp_distinct_iff) (simp add: assms(2))
  moreover have "distinct (map fst (mp_txs m))" using exact by (simp add: index_exact_def)
  ultimately have "distinct (map te_Hash ?es)" by (simp only:)
  moreover have "distinct (map te_Hash (GetAllEntries order m)) = distinct (map te_Hash ?es)"
    by (rule mset_eq_imp_distinct_iff) (simp only: GetAllEntries_def mset_map mset_sort_slice)
  ultimately show "distinct (map te_Hash (GetAllEntries order m))" by simp
qed

lemma listed_entry:
  assumes "pool_ok m" "mset order = mset (mp_txs m)" "e \<in> set (GetAllEntries order m)"
  shows "pool_of m (te_Hash e) = Some (strip_entry e) \<and> te_FeeRate e = te_Fee e div of_nat (te_Size e)"
proof -
  have "strip_entry e \<in> ran (pool_of m)" using entries_of_pool(1) [OF assms(1,2)] assms(3) by blast
  then obtain h where "pool_of m h = Some (strip_entry e)" by (auto simp: ran_def)
  then show ?thesis using pool_of_entry_ok [OF assms(1), of h "strip_entry e"] by (simp add: entry_ok_def)
qed

lemma dom_listed:
  assumes "pool_ok m" "mset order = mset (mp_txs m)"
  shows "dom (pool_of m) = te_Hash ` set (GetAllEntries order m)"
proof -
  have "h \<in> te_Hash ` set (GetAllEntries order m)" if "pool_of m h = Some e" for h e
  proof -
    have "e \<in> strip_entry ` set (GetAllEntries order m)" unfolding entries_of_pool(1) [OF assms] using that by (rule ranI)
    then show ?thesis using pool_of_entry_ok [OF assms(1) that] by (auto simp: entry_ok_def)
  qed
  then show ?thesis using listed_entry [OF assms] by auto
qed

lemma GetAllEntries_order:
  assumes "pool_ok m" "mset order = mset (mp_txs m)" "mset order' = mset (mp_txs m)"
  shows "GetAllEntries order m = GetAllEntries order' m"
proof (rule map_sorted_distinct_set_unique [where f = template_key])
  let ?es = "GetAllEntries order m" and ?es' = "GetAllEntries order' m"
  have d: "distinct (map te_Hash ?es)" "distinct (map te_Hash ?es')" using entries_of_pool(2) assms by blast+
  have set: "set ?es = set ?es'"
    using assms(2,3) by (simp add: GetAllEntries_def) (metis set_mset_mset)
  then show "set ?es = set ?es'" .
  have "inj_on te_Hash (set ?es)" using d(1) by (simp add: distinct_map)
  then show "inj_on template_key (set ?es \<union> set ?es')"
    using set by (auto simp: inj_on_def template_key_def)
  show "sorted (map template_key ?es)" "sorted (map template_key ?es')" by (rule GetAllEntries_sorted)+
  show "distinct (map template_key ?es)" "distinct (map template_key ?es')"
    using d by (auto simp: distinct_map inj_on_def template_key_def)
qed

section \<open>Reloading a dump\<close>

definition dump_time :: "TxEntry \<Rightarrow> int" where
  "dump_time e = te_AddedAt e div Second * Second"

primrec load_all ::
  "('sig, 'pk, 'sk) ecdsa_lib \<Rightarrow> ChainParams \<Rightarrow> pool_env \<Rightarrow> TxEntry list \<Rightarrow> nat \<times> Mempool \<Rightarrow> (nat \<times> Mempool) option" where
  "load_all L p env [] lm = Some lm"
| "load_all L p env (e # es) lm = Option.bind (load_tx L p env (dump_time e) (te_Tx e) lm) (load_all L p env es)"

definition dumpable :: "TxEntry \<Rightarrow> bool" where
  "dumpable e \<longleftrightarrow> Transaction_ok (te_Tx e) \<and> - (2 ^ 63) \<le> te_AddedAt e div Second \<and> te_AddedAt e div Second < 2 ^ 63"

lemma loadV1_loop_dump:
  "\<forall>e\<in>set es. dumpable e \<Longrightarrow>
   loadV1_loop L p env (length es) (concat (map dump_entry es)) lm = load_all L p env es lm"
proof (induction es arbitrary: lm)
  case (Cons e es)
  let ?rest = "concat (map dump_entry es)" and ?t = "of_int (te_AddedAt e div Second) :: u64"
  have e: "Transaction_ok (te_Tx e)" "sint ?t = te_AddedAt e div Second"
    using Cons.prems by (auto simp: dumpable_def signed_of_int intro!: signed_take_bit_int_eq_self)
  have data: "concat (map dump_entry (e # es)) = put_le 8 ?t @ Transaction_Serialize (te_Tx e) @ ?rest"
    by (simp add: dump_entry_def)
  have "Transaction_Serialize (te_Tx e) \<noteq> []"
    by (simp add: Transaction_Serialize_def put_le_eq_Nil)
  then have "loadV1_loop L p env (length (e # es)) (concat (map dump_entry (e # es))) lm =
      Option.bind (load_tx L p env (dump_time e) (te_Tx e) lm) (\<lambda>lm. loadV1_loop L p env (length es) ?rest lm)"
    unfolding data using tx_codec.dec_enc [OF e(1), of ?rest] e(2)
    by (simp add: Let_def get_le_put_le dump_time_def)
  then show ?case using Cons.IH Cons.prems by (simp cong: bind_option_cong)
qed simp

text \<open>The entry passes the checks by itself: it is valid, pays enough, has not expired, and spends confirmed outputs.\<close>

definition reloadable :: "('sig, 'pk, 'sk) ecdsa_lib \<Rightarrow> ChainParams \<Rightarrow> pool_env \<Rightarrow> TxEntry \<Rightarrow> bool" where
  "reloadable L p env e \<longleftrightarrow>
     ValidateSingleTransaction L (pe_nowUnix env) (te_Tx e) (pe_utxoSet env) (pe_tipHeight env) p None = Inr (te_Fee e) \<and>
     (\<forall>i\<in>set (tx_Inputs (te_Tx e)). Set_Has (pe_utxoSet env) (op_Hash (in_PreviousOutPoint i)) (op_Index (in_PreviousOutPoint i))) \<and>
     check_relay_fee p (te_Fee e) (te_Size e) = Inr () \<and>
     \<not> (par_MempoolExpiry p > 0 \<and> pe_now env - dump_time e > par_MempoolExpiry p)"

lemma add_supplemental_confirmed:
  "\<forall>i\<in>set ins. Set_Has (pe_utxoSet env) (op_Hash (in_PreviousOutPoint i)) (op_Index (in_PreviousOutPoint i)) \<Longrightarrow>
   add_supplemental env m ins acc = acc"
  by (induction ins) (simp_all add: parent_output_def Let_def)

lemma check_tx_reload:
  assumes "reloadable L p env e" "entry_ok (te_Hash e) e" "map_of (mp_txs m) (te_Hash e) = None"
    and "\<forall>k\<in>set (input_keys (te_Tx e)). mp_spentOutpoints m k = None"
  shows "check_tx L p env (te_Tx e) m = Inr ((strip_entry e)\<lparr>te_AddedAt := pe_now env\<rparr>)"
proof -
  have e: "te_Hash e = HashTransaction (te_Tx e)" "te_Size e = pool_size (te_Tx e)" "te_FeeRate e = te_Fee e div of_nat (te_Size e)"
    using assms(2) by (simp_all add: entry_ok_def)
  have valid: "\<not> Transaction_IsCoinbase (te_Tx e)" "tx_Inputs (te_Tx e) \<noteq> []" "tx_Outputs (te_Tx e) \<noteq> []"
    using assms(1) by (auto simp: reloadable_def ValidateSingleTransaction_def split: if_splits)
  have "find_conflict (mp_spentOutpoints m) (tx_Inputs (te_Tx e)) = None"
    using assms(4) by (simp add: find_conflict_None input_keys_def)
  moreover have "new_entry (te_Tx e) (te_Fee e) (pool_size (te_Tx e)) (pe_now env) = (strip_entry e)\<lparr>te_AddedAt := pe_now env\<rparr>"
    using e by (simp add: new_entry_def strip_entry_def)
  ultimately show ?thesis
    using assms(1,3) valid e unfolding reloadable_def check_tx_def pool_size_def [symmetric]
    by (simp add: add_supplemental_confirmed Let_def)
qed

lemma admit_room:
  assumes "pool_ok m" "length (mp_txs m) < unat (par_MaxMempoolSize p)" "mp_totalBytes m + int (te_Size e) \<le> maxMempoolBytes"
  shows "admit p e m = Some (insert_entry e m)"
proof -
  have "unat (of_nat (length (mp_txs m)) :: u32) = length (mp_txs m)"
    using assms(2) unsigned_less [of "par_MaxMempoolSize p", where ?'a = nat] by (simp add: unat_of_nat)
  then have "\<not> too_many p m" "\<not> too_large (te_Size e) m"
    using assms(2,3) by (simp_all add: too_many_def too_large_def word_le_nat_alt)
  then have "evict_while (too_many p) m = Some m" "evict_while (too_large (te_Size e)) m = Some m"
    by (subst evict_while.simps, simp)+
  then show ?thesis by (simp add: admit_def)
qed

definition restored :: "TxEntry \<Rightarrow> TxEntry" where
  "restored e = (strip_entry e)\<lparr>te_AddedAt := dump_time e\<rparr>"

lemma load_tx_reload:
  assumes "pool_ok m" "reloadable L p env e" "entry_ok (te_Hash e) e" "pool_of m (te_Hash e) = None"
    and "\<forall>k\<in>set (input_keys (te_Tx e)). mp_spentOutpoints m k = None"
    and "length (mp_txs m) < unat (par_MaxMempoolSize p)" "mp_totalBytes m + int (te_Size e) \<le> maxMempoolBytes"
  shows "\<exists>m'. load_tx L p env (dump_time e) (te_Tx e) (n, m) = Some (Suc n, m') \<and> pool_ok m' \<and>
    pool_of m' = (pool_of m)(te_Hash e \<mapsto> restored e) \<and> length (mp_txs m') = Suc (length (mp_txs m)) \<and>
    mp_totalBytes m' = mp_totalBytes m + int (te_Size e)"
proof -
  let ?e = "(strip_entry e)\<lparr>te_AddedAt := pe_now env\<rparr>"
  let ?m = "insert_entry ?e m" and ?h = "te_Hash e"
  have "check_tx L p env (te_Tx e) m = Inr ?e" using check_tx_reload assms by (simp add: pool_of_None)
  moreover have "admit p ?e m = Some ?m" using admit_room [of m p ?e] assms by simp
  ultimately have add: "AddTx L p env (te_Tx e) m = Some (Inr ?h, ?m)" by (simp add: AddTx_def)
  have "entry_ok (te_Hash ?e) ?e" using assms(3) by (simp add: entry_ok_def)
  then have ins: "pool_ok ?m" "pool_of ?m = (pool_of m)(?h \<mapsto> strip_entry ?e)" "length (mp_txs ?m) = Suc (length (mp_txs m))"
      "mp_totalBytes ?m = mp_totalBytes m + int (te_Size e)"
    using insert_entry_ok [of m ?e] assms by simp_all
  have set: "pool_ok (set_AddedAt ?h (dump_time e) ?m)"
      "pool_of (set_AddedAt ?h (dump_time e) ?m) = (pool_of ?m)(?h \<mapsto> (strip_entry ?e)\<lparr>te_AddedAt := dump_time e\<rparr>)"
      "mp_txs (set_AddedAt ?h (dump_time e) ?m) = mp_txs ?m" "mp_totalBytes (set_AddedAt ?h (dump_time e) ?m) = mp_totalBytes ?m"
    using set_AddedAt_ok [OF ins(1), of ?h "strip_entry ?e" "dump_time e"] ins(2) by simp_all
  have "(strip_entry ?e)\<lparr>te_AddedAt := dump_time e\<rparr> = restored e" by (simp add: restored_def strip_entry_def)
  then show ?thesis
    using add set ins assms(2) by (simp add: load_tx_def reloadable_def)
qed

lemma load_all_reload:
  assumes "pool_ok m" "\<forall>e\<in>set es. reloadable L p env e \<and> entry_ok (te_Hash e) e \<and> pool_of m (te_Hash e) = None"
    and "distinct (map te_Hash es)" "\<forall>e\<in>set es. \<forall>k\<in>set (input_keys (te_Tx e)). mp_spentOutpoints m k = None"
    and "\<forall>e\<in>set es. \<forall>e'\<in>set es. te_Hash e \<noteq> te_Hash e' \<longrightarrow> set (input_keys (te_Tx e)) \<inter> set (input_keys (te_Tx e')) = {}"
    and "length (mp_txs m) + length es \<le> unat (par_MaxMempoolSize p)"
    and "mp_totalBytes m + (\<Sum>e\<leftarrow>es. int (te_Size e)) \<le> maxMempoolBytes"
  shows "\<exists>m'. load_all L p env es (n, m) = Some (n + length es, m') \<and>
    pool_of m' = pool_of m ++ map_of (map (\<lambda>e. (te_Hash e, restored e)) es)"
  using assms
proof (induction es arbitrary: m n)
  case (Cons e es)
  have "0 \<le> (\<Sum>e\<leftarrow>es. int (te_Size e))" by (induction es) simp_all
  then obtain m' where m': "load_tx L p env (dump_time e) (te_Tx e) (n, m) = Some (Suc n, m')" "pool_ok m'"
      "pool_of m' = (pool_of m)(te_Hash e \<mapsto> restored e)" "length (mp_txs m') = Suc (length (mp_txs m))"
      "mp_totalBytes m' = mp_totalBytes m + int (te_Size e)"
    using load_tx_reload [of m L p env e n] Cons.prems by auto
  have "mp_spentOutpoints m' k = None" if e': "e' \<in> set es" and k: "k \<in> set (input_keys (te_Tx e'))" for e' k
  proof (rule ccontr)
    assume "mp_spentOutpoints m' k \<noteq> None"
    then obtain h x where x: "pool_of m' h = Some x" "k \<in> set (input_keys (te_Tx x))" using spent_pool [OF m'(2)] by blast
    have "te_Hash e' \<noteq> te_Hash e" using Cons.prems(3) e' by (auto simp: image_iff)
    then have "k \<notin> set (input_keys (te_Tx e))" using Cons.prems(5) e' k by auto
    then have "pool_of m h = Some x" using x m'(3) by (auto simp: restored_def split: if_splits)
    then have "mp_spentOutpoints m k = Some h" using spent_pool [OF Cons.prems(1)] x(2) by blast
    then show False using Cons.prems(4) e' k by auto
  qed
  moreover have "pool_of m' (te_Hash e') = None" if "e' \<in> set es" for e'
    using Cons.prems(2,3) that m'(3) by (auto simp: image_iff)
  ultimately obtain m'' where m'': "load_all L p env es (Suc n, m') = Some (Suc n + length es, m'')"
      "pool_of m'' = pool_of m' ++ map_of (map (\<lambda>e. (te_Hash e, restored e)) es)"
    using Cons.IH [OF m'(2), of "Suc n"] Cons.prems m'(4,5) by auto
  have "te_Hash e \<notin> dom (map_of (map (\<lambda>e. (te_Hash e, restored e)) es))"
    using Cons.prems(3) by (auto simp: dom_map_of_conv_image_fst image_iff)
  then have eq: "pool_of m'' = pool_of m ++ map_of (map (\<lambda>e. (te_Hash e, restored e)) (e # es))"
    using m''(2) m'(3) by (simp add: map_add_upd_left)
  have "load_all L p env (e # es) (n, m) = Some (n + length (e # es), m'')" using m'(1) m''(1) by simp
  then show ?case using eq by blast
qed simp

lemma load_dump_bytes:
  assumes "\<forall>e\<in>set es. dumpable e" "es \<noteq> []" "length es \<le> unat (par_MaxMempoolSize p)"
  shows "LoadFromBytes L p env (mempoolDumpV1Marker # PutVarInt (of_nat (length es)) @ concat (map dump_entry es)) m =
    load_all L p env es (0, m)"
proof -
  let ?n = "of_nat (length es) :: u64" and ?max = "par_MaxMempoolSize p"
  have n: "unat ?n = length es" "unat (ucast ?max :: u64) = unat ?max"
    using assms(3) unsigned_less [of ?max, where ?'a = nat]
    by (simp_all add: unat_of_nat unsigned_ucast_eq take_bit_nat_eq_self)
  have "?max \<noteq> 0" using assms(2,3) by auto
  then have "load_limit p ?n = length es"
    using assms(3) n by (auto simp: load_limit_def Let_def word_less_nat_alt)
  moreover have "ReadVarIntFromBytes (PutVarInt ?n @ concat (map dump_entry es)) = Inr ?n" by (simp add: ReadVarIntFromBytes_iff)
  moreover have "drop (VarIntSize ?n) (PutVarInt ?n @ concat (map dump_entry es)) = concat (map dump_entry es)"
    by (simp add: VarIntSize_length)
  ultimately show ?thesis
    using loadV1_loop_dump [OF assms(1)] PutVarInt_nonempty [of ?n] by (simp add: LoadFromBytes_def loadV1_def)
qed

lemma NewMempool_sel: "mp_txs NewMempool = []" "mp_spentOutpoints NewMempool = Map.empty" "mp_totalBytes NewMempool = 0"
  by (simp_all add: NewMempool_def heap_Init_def feeHeap_def feeHeap_Len_def)

lemma pool_of_New: "pool_of NewMempool = Map.empty"
  by (simp add: fun_eq_iff pool_of_None NewMempool_sel)

text \<open>The entries of a dump, in its order.\<close>

definition dumped :: "(hash \<times> ptr) list \<Rightarrow> Mempool \<Rightarrow> TxEntry list" where
  "dumped order m = map (\<lambda>(h, q). mp_store (pool_frame m) ! q) order"

lemma dumped_entries:
  assumes "pool_ok m" "mset order = mset (mp_txs m)"
  shows "\<And>e. e \<in> set (dumped order m) \<Longrightarrow> pool_of m (te_Hash e) = Some e" "distinct (map te_Hash (dumped order m))"
    "(\<Sum>e\<leftarrow>dumped order m. int (te_Size e)) = mp_totalBytes m"
    "\<And>h. map_of (map (\<lambda>e. (te_Hash e, restored e)) (dumped order m)) h = map_option restored (pool_of m h)"
    "\<And>e e' k. e \<in> set (dumped order m) \<Longrightarrow> e' \<in> set (dumped order m) \<Longrightarrow> k \<in> set (input_keys (te_Tx e)) \<Longrightarrow>
       k \<in> set (input_keys (te_Tx e')) \<Longrightarrow> te_Hash e = te_Hash e'"
    "map (\<lambda>(h, q). dump_entry (mp_store m ! q)) order = map dump_entry (dumped order m)"
proof -
  let ?es = "dumped order m" and ?st = "mp_store (pool_frame m)"
  have exact: "index_exact (pool_frame m)" and d: "distinct (map fst (mp_txs m))"
    using assms(1) by (simp_all add: pool_ok_def index_exact_def)
  have ord: "set order = set (mp_txs m)" using assms(2) by (metis set_mset_mset)
  have dist: "distinct (map fst order)"
    using d mset_eq_imp_distinct_iff [of "map fst order" "map fst (mp_txs m)"] assms(2) by simp
  have entry: "pool_of m h = Some (?st ! q)" "q < length (mp_store m)" "te_Hash (?st ! q) = h" if "(h, q) \<in> set order" for h q
    using that ord pool_of_entry [OF exact, of h q] index_exactD [OF exact, of h q] by (simp_all add: entry_ok_def)
  show in_es: "pool_of m (te_Hash e) = Some e" if "e \<in> set ?es" for e using that entry by (auto simp: dumped_def)
  have "map te_Hash ?es = map fst order" using entry(3) by (auto simp: dumped_def)
  then show "distinct (map te_Hash ?es)" using dist by simp
  have "map (\<lambda>e. int (te_Size e)) ?es = map (\<lambda>(h, q). int (te_Size (?st ! q))) order" by (auto simp: dumped_def)
  moreover have "sum_mset (mset (map (\<lambda>(h, q). int (te_Size (?st ! q))) order)) =
      sum_mset (mset (map (\<lambda>(h, q). int (te_Size (?st ! q))) (mp_txs m)))"
    using assms(2) by (simp del: sum_mset_sum_list)
  ultimately have "(\<Sum>e\<leftarrow>?es. int (te_Size e)) = (\<Sum>(h, q)\<leftarrow>mp_txs m. int (te_Size (?st ! q)))"
    by (simp only: sum_mset_sum_list)
  then show "(\<Sum>e\<leftarrow>?es. int (te_Size e)) = mp_totalBytes m" using exact by (simp add: index_exact_def)
  show "te_Hash e = te_Hash e'" if "e \<in> set ?es" "e' \<in> set ?es" "k \<in> set (input_keys (te_Tx e))" "k \<in> set (input_keys (te_Tx e'))" for e e' k
  proof -
    have "mp_spentOutpoints m k = Some (te_Hash e)" "mp_spentOutpoints m k = Some (te_Hash e')"
      using spent_pool [OF assms(1), of k] in_es that by blast+
    then show ?thesis by simp
  qed
  show "map (\<lambda>(h, q). dump_entry (mp_store m ! q)) order = map dump_entry ?es"
    using entry(2) by (auto simp: dumped_def dump_entry_def)
  have "map (\<lambda>e. (te_Hash e, restored e)) ?es = map (\<lambda>(h, q). (h, restored (?st ! q))) order"
    using entry(3) by (auto simp: dumped_def)
  moreover have "map_of order = map_of (mp_txs m)" using dist d ord map_of_inject_set [of order "mp_txs m"] by simp
  ultimately show "map_of (map (\<lambda>e. (te_Hash e, restored e)) ?es) h = map_option restored (pool_of m h)" for h
    unfolding pool_of_frame [OF exact] map_of_map by (simp add: map_of_map option.map_comp comp_def del: pool_frame_sel)
qed

section \<open>Properties\<close>

text \<open>A concrete pool for the witnesses: the transaction of the UTXO theory, admitted on regtest.\<close>

definition demo_env :: pool_env where
  "demo_env = \<lparr>pe_utxoSet = demo_set, pe_tipHeight = 9, pe_nowUnix = 0, pe_now = 0\<rparr>"

definition demo_pool_entry :: TxEntry where
  "demo_pool_entry = new_entry demo_spend 10 (pool_size demo_spend) 0"

definition demo_pool :: Mempool where
  "demo_pool = insert_entry demo_pool_entry NewMempool"

lemma demo_pool_entry_sel:
  "te_Tx demo_pool_entry = demo_spend" "te_Hash demo_pool_entry = HashTransaction demo_spend" "te_Fee demo_pool_entry = 10"
  "te_AddedAt demo_pool_entry = 0" "strip_entry demo_pool_entry = demo_pool_entry" "entry_ok (te_Hash demo_pool_entry) demo_pool_entry"
  "restored demo_pool_entry = demo_pool_entry" "te_Size demo_pool_entry = pool_size demo_spend"
  by (simp_all add: demo_pool_entry_def new_entry_def strip_entry_def entry_ok_def restored_def dump_time_def)

lemma demo_single_regtest: "ValidateSingleTransaction demo_lib 0 demo_spend demo_set 9 Regtest None = Inr 10"
  by (simp add: ValidateSingleTransaction_def demo_not_coinbase)
    (simp add: demo_spend_def demo_set_def demo_outpoint_def demo_entry_def Let_def in_key_def Set_Get_def
      check_maturity_def add_input_value_def check_outputs_def MaxMoneyValue_def MaxTxSize_def
      Transaction_SerializeSize_def TxInput_SerializeSize_def TxOutput_SerializeSize_def VarIntSize_def
      IsLegacyUnvalidatedScript_def demo_verify [of _ 0, simplified] check_locks_def Regtest_def
      CheckTransactionFinality_def CheckSequenceLocks_def check_sequence_lock_def)

lemma demo_reloadable: "reloadable demo_lib Regtest demo_env demo_pool_entry"
proof -
  have "par_MinRelayTxFee Regtest = 0" "par_MinRelayTxFeeRate Regtest = 0" "par_MempoolExpiry Regtest = 3600 * Second"
    by (simp_all add: Regtest_def)
  moreover have "\<forall>i\<in>set (tx_Inputs demo_spend). Set_Has demo_set (op_Hash (in_PreviousOutPoint i)) (op_Index (in_PreviousOutPoint i))"
    by (simp add: demo_spend_def demo_set_def demo_outpoint_def Set_Has_def Set_Get_def)
  ultimately show ?thesis
    by (simp add: reloadable_def demo_env_def demo_pool_entry_sel demo_single_regtest check_relay_fee_def dump_time_def)
qed

lemma demo_pool_size: "pool_size demo_spend \<le> MaxTxSize"
  using demo_single_regtest by (auto simp: ValidateSingleTransaction_def pool_size_def MaxTxSize_def split: if_splits)

lemma demo_AddTx: "AddTx demo_lib Regtest demo_env demo_spend NewMempool = Some (Inr (HashTransaction demo_spend), demo_pool)"
proof -
  have "(strip_entry demo_pool_entry)\<lparr>te_AddedAt := pe_now demo_env\<rparr> = demo_pool_entry"
    by (simp add: demo_pool_entry_def new_entry_def strip_entry_def demo_env_def)
  moreover have "check_tx demo_lib Regtest demo_env (te_Tx demo_pool_entry) NewMempool =
      Inr ((strip_entry demo_pool_entry)\<lparr>te_AddedAt := pe_now demo_env\<rparr>)"
    by (rule check_tx_reload [OF demo_reloadable demo_pool_entry_sel(6)]) (simp_all add: NewMempool_sel)
  ultimately have "check_tx demo_lib Regtest demo_env demo_spend NewMempool = Inr demo_pool_entry"
    by (simp only: demo_pool_entry_sel(1))
  moreover have "admit Regtest demo_pool_entry NewMempool = Some demo_pool"
    using admit_room [OF pool_ok_NewMempool, of Regtest demo_pool_entry] demo_pool_size
    by (simp add: NewMempool_sel demo_pool_def demo_pool_entry_sel Regtest_def maxMempoolBytes_def MaxTxSize_def)
  ultimately show ?thesis by (simp add: AddTx_def demo_pool_entry_sel)
qed

lemma demo_runs: "mempool_runs demo_lib Regtest demo_pool"
  using mempool_runs.add [OF mempool_runs.start demo_AddTx] .

lemma demo_pool_of: "pool_of demo_pool = [HashTransaction demo_spend \<mapsto> demo_pool_entry]" "length (mp_txs demo_pool) = 1"
  using insert_entry_ok [OF pool_ok_NewMempool, of demo_pool_entry] demo_pool_entry_sel
  by (simp_all add: demo_pool_def NewMempool_sel pool_of_New)


text \<open>C12. The mempool is consistent in every state it reaches, through any sequence of admissions, removals,
  evictions, expiries and reloads: an outpoint is marked as spent exactly when a transaction of the pool spends it, so no
  two of its transactions spend the same output; every transaction stands under its own hash; the byte counter is the size
  of what is held; the fee heap holds exactly the entries of the pool; and neither the transaction limit nor the byte limit
  is exceeded.\<close>

theorem mempool_consistent:
  assumes "mempool_runs L p m"
  shows "(\<forall>k h. mp_spentOutpoints m k = Some h \<longleftrightarrow> (\<exists>tx. GetTx m h = Some tx \<and> k \<in> set (input_keys tx))) \<and>
    (\<forall>h tx. GetTx m h = Some tx \<longrightarrow> HashTransaction tx = h) \<and>
    mp_totalBytes m = TotalSize m \<and> TotalSize m \<le> maxMempoolBytes \<and>
    mempool_Count m \<le> max 1 (unat (par_MaxMempoolSize p)) \<and>
    set (mp_feeOrder m) = snd ` set (mp_txs m) \<and> distinct (mp_feeOrder m)"
proof -
  have inv: "pool_inv p m" using mempool_runs_inv [OF assms] .
  then have ok: "pool_ok m" and exact: "index_exact (pool_frame m)" by (simp_all add: pool_inv_def pool_ok_def)
  have get: "GetTx m h = Some tx \<longleftrightarrow> (\<exists>e. pool_of m h = Some e \<and> te_Tx e = tx)" for h tx
    by (auto simp: GetTx_def pool_of_def)
  have "TotalSize m = (\<Sum>(h, q)\<leftarrow>mp_txs m. int (te_Size (mp_store (pool_frame m) ! q)))"
    unfolding TotalSize_def by (rule arg_cong [of _ _ sum_list])
      (use index_exactD(1) [OF exact] in \<open>auto intro!: map_cong\<close>)
  then have "mp_totalBytes m = TotalSize m" using exact by (simp add: index_exact_def)
  moreover have "HashTransaction (te_Tx e) = h" if "pool_of m h = Some e" for h e
    using pool_of_entry_ok [OF ok that] by (simp add: entry_ok_def)
  ultimately show ?thesis
    using inv ok spent_pool [OF ok] distinct_feeOrder [OF heap_okD] unfolding get
    by (auto simp: pool_inv_def pool_ok_def heap_holds_def mempool_Count_def)
qed

theorem mempool_consistent_witness:
  "mp_totalBytes demo_pool = TotalSize demo_pool \<and> distinct (mp_feeOrder demo_pool) \<and>
   (\<forall>k h. mp_spentOutpoints demo_pool k = Some h \<longleftrightarrow> (\<exists>tx. GetTx demo_pool h = Some tx \<and> k \<in> set (input_keys tx)))"
  using mempool_consistent [OF demo_runs] by blast

text \<open>C25. Admission always answers: in every reachable state \<^verbatim>\<open>AddTx\<close> returns, although its eviction loops run until
  there is room. A refused transaction changes nothing. An admitted one is in the pool under its hash with a fee and a fee
  rate of at least the relay minimum; it spends nothing the pool already spent; and every entry that had to make room ranks,
  by fee rate and then hash, no higher than any older entry that stayed.\<close>

theorem add_tx_returns:
  assumes "mempool_runs L p m"
  shows "(\<exists>err. AddTx L p env tx m = Some (Inl err, m)) \<or>
    (\<exists>m' e. AddTx L p env tx m = Some (Inr (HashTransaction tx), m') \<and>
       pool_of m' (HashTransaction tx) = Some e \<and> te_Tx e = tx \<and>
       te_Fee e \<ge> par_MinRelayTxFee p \<and> te_FeeRate e \<ge> par_MinRelayTxFeeRate p \<and>
       (\<forall>i\<in>set (tx_Inputs tx). \<not> IsOutpointSpent m (op_Hash (in_PreviousOutPoint i)) (op_Index (in_PreviousOutPoint i))) \<and>
       (\<forall>h x. h \<noteq> HashTransaction tx \<longrightarrow> pool_of m' h = Some x \<longrightarrow> pool_of m h = Some x) \<and>
       (\<forall>h x h' x'. pool_of m h = Some x \<longrightarrow> pool_of m' h = None \<longrightarrow> h' \<noteq> HashTransaction tx \<longrightarrow>
          pool_of m' h' = Some x' \<longrightarrow> entry_key x \<le> entry_key x'))"
  using AddTx_ok [OF mempool_runs_inv [OF assms], of L env tx]
proof (elim disjE exE conjE)
  fix e m0 m'
  assume a: "check_tx L p env tx m = Inr e" "AddTx L p env tx m = Some (Inr (te_Hash e), m')" "cheapest_out m m0"
    "pool_of m' = (pool_of m0)(te_Hash e \<mapsto> strip_entry e)"
  note e = check_tx_ok [OF a(1)]
  have "pool_of m0 h = Some x \<Longrightarrow> pool_of m h = Some x" for h x
    using a(3) unfolding cheapest_out_def map_le_def by (metis domI)
  moreover have "entry_key x \<le> entry_key x'"
    if "pool_of m h = Some x" "pool_of m0 h = None" "pool_of m0 h' = Some x'" for h x h' x'
    using a(3) that unfolding cheapest_out_def by blast
  moreover have "\<not> IsOutpointSpent m (op_Hash (in_PreviousOutPoint i)) (op_Index (in_PreviousOutPoint i))"
    if "i \<in> set (tx_Inputs tx)" for i using e(5) that by (simp add: IsOutpointSpent_def input_keys_def in_key_def)
  ultimately show ?thesis
    using a(2,4) e by (intro disjI2 exI [of _ m'] exI [of _ "strip_entry e"]) (auto split: if_splits)
qed blast

theorem add_tx_returns_witness:
  "\<exists>m' e. AddTx demo_lib Regtest demo_env demo_spend NewMempool = Some (Inr (HashTransaction demo_spend), m') \<and>
     pool_of m' (HashTransaction demo_spend) = Some e \<and> te_Tx e = demo_spend"
  using add_tx_returns [OF mempool_runs.start, of demo_lib Regtest demo_env demo_spend] demo_AddTx by auto

text \<open>C23. The block template is a faithful snapshot: whatever the order in which the code ranges over its map, the
  template is the same; its transactions are those of its entries, listed by falling fee rate, each once and each with its
  own hash and fee; the total is the sum of their fees with no wrap-around; and unless the fees of the whole pool exceed 64
  bits, every transaction of the pool is in it.\<close>

theorem block_template_exact:
  assumes "mempool_runs L p m" "mset order = mset (mp_txs m)"
  shows "(\<forall>order'. mset order' = mset (mp_txs m) \<longrightarrow> BlockTemplate order' m = BlockTemplate order m) \<and>
    bt_Transactions (BlockTemplate order m) = map btt_Tx (bt_Entries (BlockTemplate order m)) \<and>
    sorted_wrt (\<lambda>a b. btt_Fee a div of_nat (btt_Size a) \<ge> btt_Fee b div of_nat (btt_Size b)) (bt_Entries (BlockTemplate order m)) \<and>
    distinct (map btt_TxID (bt_Entries (BlockTemplate order m))) \<and>
    (\<forall>x\<in>set (bt_Entries (BlockTemplate order m)).
       \<exists>e. pool_of m (btt_TxID x) = Some e \<and> btt_Tx x = te_Tx e \<and> btt_Fee x = te_Fee e \<and> btt_Size x = te_Size e) \<and>
    unat (bt_TotalFees (BlockTemplate order m)) = (\<Sum>x\<leftarrow>bt_Entries (BlockTemplate order m). unat (btt_Fee x)) \<and>
    ((\<Sum>e\<leftarrow>GetAllEntries order m. unat (te_Fee e)) < 2 ^ 64 \<longrightarrow>
       set (map btt_TxID (bt_Entries (BlockTemplate order m))) = dom (pool_of m))"
proof -
  let ?es = "GetAllEntries order m"
  obtain taken fees where t: "template_fees ?es 0 = (taken, fees)" by fastforce
  obtain n where n: "taken = take n ?es" "unat fees = (\<Sum>e\<leftarrow>taken. unat (te_Fee e))"
      "n < length ?es \<longrightarrow> (\<Sum>e\<leftarrow>?es. unat (te_Fee e)) \<ge> 2 ^ 64"
    using template_fees_exact [OF t] by auto
  have ok: "pool_ok m" using mempool_runs_inv [OF assms(1)] by (simp add: pool_inv_def)
  note es = entries_of_pool [OF ok assms(2)] and entry = listed_entry [OF ok assms(2)]
  have sub: "set taken \<subseteq> set ?es" using n(1) by (simp add: set_take_subset)
  have "sorted_wrt (\<lambda>a b. te_FeeRate a \<ge> te_FeeRate b) ?es"
    using GetAllEntries_sorted [of order m]
    by (auto simp: sorted_map entry_before_key [symmetric] not_less [symmetric] entry_before_def
        elim!: sorted_wrt_mono_rel [rotated] split: if_splits)
  then have "sorted_wrt (\<lambda>a b. te_FeeRate a \<ge> te_FeeRate b) taken" unfolding n(1) by (rule sorted_wrt_take)
  then have srt: "sorted_wrt (\<lambda>a b. te_Fee a div of_nat (te_Size a) \<ge> te_Fee b div of_nat (te_Size b)) taken"
  proof (rule sorted_wrt_mono_rel [rotated])
    fix a b
    assume ab: "a \<in> set taken" "b \<in> set taken" and le: "te_FeeRate a \<ge> te_FeeRate b"
    have rate: "te_FeeRate a = te_Fee a div of_nat (te_Size a)" "te_FeeRate b = te_Fee b div of_nat (te_Size b)"
      using entry sub ab by blast+
    show "te_Fee a div of_nat (te_Size a) \<ge> te_Fee b div of_nat (te_Size b)" using le unfolding rate .
  qed
  have "dom (pool_of m) = te_Hash ` set ?es" by (rule dom_listed [OF ok assms(2)])
  moreover have "set taken = set ?es" if "(\<Sum>e\<leftarrow>?es. unat (te_Fee e)) < 2 ^ 64" using n that by auto
  moreover have "distinct (map te_Hash taken)" using es(2) unfolding n(1) by (simp add: take_map [symmetric])
  moreover have "BlockTemplate order' m = BlockTemplate order m" if "mset order' = mset (mp_txs m)" for order'
    using GetAllEntries_order [OF ok that assms(2)] by (simp add: BlockTemplate_def)
  ultimately show ?thesis
    using t n(2) srt entry sub by (auto simp: BlockTemplate_def sorted_wrt_map comp_def subset_iff)
qed

theorem block_template_exact_witness:
  "set (map btt_TxID (bt_Entries (BlockTemplate (mp_txs demo_pool) demo_pool))) = {HashTransaction demo_spend}"
proof -
  have "length (GetAllEntries (mp_txs demo_pool) demo_pool) = 1"
    using demo_pool_of(2) by (simp add: GetAllEntries_def)
  then obtain e where e: "GetAllEntries (mp_txs demo_pool) demo_pool = [e]" by (metis One_nat_def length_0_conv length_Suc_conv)
  have "(\<Sum>e\<leftarrow>GetAllEntries (mp_txs demo_pool) demo_pool. unat (te_Fee e)) < 2 ^ 64"
    using unsigned_less [of "te_Fee e", where ?'a = nat] by (simp add: e)
  then have "set (map btt_TxID (bt_Entries (BlockTemplate (mp_txs demo_pool) demo_pool))) = dom (pool_of demo_pool)"
    using block_template_exact [OF demo_runs refl] by blast
  then show ?thesis by (simp only: demo_pool_of(1)) simp
qed



end
