(* ===== verification/NetInv.thy ===== *)
theory NetInv
  imports Sync ChainProps MempoolProps
begin

text \<open>
  The invariant of the peer-to-peer manager. \<open>mgr_ok\<close> says of a state of the manager that each component it drives (chain, mempool,
  clock) is in a state the component reaches by itself, and that the state of the manager itself is well-formed and bounded. Each
  handler of a message and each change of the set of connections keeps it; the clock-driven steps and the transition
  system of the whole node follow in \<open>NetRun\<close>.
\<close>

section \<open>Invariants from a given state\<close>

text \<open>\<open>preserves_from I c m\<close>: run from \<open>c\<close>, the computation ends in a state with \<open>I\<close>, if it ends.\<close>

definition preserves_from :: "('c \<Rightarrow> bool) \<Rightarrow> 'c \<Rightarrow> ('c, 'e, 'a) sem \<Rightarrow> bool" where
  "preserves_from I c m \<longleftrightarrow> (\<forall>r c'. m c = Some (r, c') \<longrightarrow> I c')"

named_theorems pf_intro

lemma preservesI: "(\<And>c. I c \<Longrightarrow> preserves_from I c m) \<Longrightarrow> preserves I m"
  by (auto simp: preserves_def triple_def preserves_from_def split: sum.splits)

lemma pf_run: "preserves I m \<Longrightarrow> I c \<Longrightarrow> preserves_from I c m"
  using preservesD [of I m c] by (auto simp: preserves_from_def)

lemma pf_basic [pf_intro]: "I c \<Longrightarrow> preserves_from I c (sret x)" "I c \<Longrightarrow> preserves_from I c (sfail e)" "preserves_from I c no_return"
  by (auto simp: preserves_from_def sret_def sfail_def no_return_def)

lemma pf_upd [pf_intro]: "I (f c) \<Longrightarrow> preserves_from I c (supd f)"
  by (auto simp: preserves_from_def supd_def)

lemma pf_bind_upd [pf_intro]: "preserves_from I (f c) (k ()) \<Longrightarrow> preserves_from I c (sbind (supd f) k)"
  by (auto simp: preserves_from_def supd_def sbind_def)

lemma pf_bind_ret [pf_intro]: "preserves_from I c (k x) \<Longrightarrow> preserves_from I c (sbind (sret x) k)"
  by (auto simp: preserves_from_def sret_def sbind_def)

lemma pf_bind_if [pf_intro]:
  "(b \<Longrightarrow> preserves_from I c (sbind m k)) \<Longrightarrow> (\<not> b \<Longrightarrow> preserves_from I c (sbind m' k)) \<Longrightarrow>
   preserves_from I c (sbind (if b then m else m') k)"
  by simp

lemma pf_bind_option [pf_intro]:
  "(r = None \<Longrightarrow> preserves_from I c (sbind m k)) \<Longrightarrow> (\<And>x. r = Some x \<Longrightarrow> preserves_from I c (sbind (f x) k)) \<Longrightarrow>
   preserves_from I c (sbind (case r of None \<Rightarrow> m | Some x \<Rightarrow> f x) k)"
  by (cases r) simp_all

lemma pf_bind: "preserves_from I c m \<Longrightarrow> (\<And>x. preserves I (k x)) \<Longrightarrow> preserves_from I c (sbind m k)"
  unfolding preserves_from_def sbind_def
  by (auto split: option.splits sum.splits dest: preservesD)

lemma pf_with [pf_intro]: "preserves_from I c (f c) \<Longrightarrow> preserves_from I c (swith f)"
  by (auto simp: preserves_from_def swith_def)

lemma pf_if [pf_intro]: "(b \<Longrightarrow> preserves_from I c m) \<Longrightarrow> (\<not> b \<Longrightarrow> preserves_from I c m') \<Longrightarrow> preserves_from I c (if b then m else m')"
  by simp

lemma pf_Let [pf_intro]: "preserves_from I c (f v) \<Longrightarrow> preserves_from I c (Let v f)"
  by simp

lemma pf_prod [pf_intro]: "(\<And>x y. p = (x, y) \<Longrightarrow> preserves_from I c (f x y)) \<Longrightarrow> preserves_from I c (case p of (x, y) \<Rightarrow> f x y)"
  by (cases p) simp

lemma pf_option [pf_intro]:
  "(r = None \<Longrightarrow> preserves_from I c m) \<Longrightarrow> (\<And>x. r = Some x \<Longrightarrow> preserves_from I c (f x)) \<Longrightarrow>
   preserves_from I c (case r of None \<Rightarrow> m | Some x \<Rightarrow> f x)"
  by (cases r) simp_all

lemma pf_sum [pf_intro]:
  "(\<And>x. r = Inl x \<Longrightarrow> preserves_from I c (f x)) \<Longrightarrow> (\<And>x. r = Inr x \<Longrightarrow> preserves_from I c (g x)) \<Longrightarrow>
   preserves_from I c (case r of Inl x \<Rightarrow> f x | Inr x \<Rightarrow> g x)"
  by (cases r) simp_all

lemma preserves_for_each: "(\<And>x. x \<in> set xs \<Longrightarrow> preserves I (f x)) \<Longrightarrow> preserves I (for_each f xs)"
  by (induction xs) (auto intro!: preserves_intro)

section \<open>The invariant\<close>

definition peers_ok :: "('s, 'p) Manager \<Rightarrow> bool" where
  "peers_ok m \<longleftrightarrow> (\<forall>pr \<in> set (mg_objs m). peer_ok pr) \<and> distinct (map fst (mg_peers m)) \<and>
     (\<forall>(a, p) \<in> set (mg_peers m). p < length (mg_objs m) \<and> pr_addr (peer_at m p) = a \<and> pr_version (peer_at m p) \<noteq> None)"

definition bounds_ok :: "('s, 'p) Manager \<Rightarrow> bool" where
  "bounds_ok m \<longleftrightarrow> hs_ok maxSeenBlocks (mg_seenBlocks m) \<and> hs_ok maxSeenTxs (mg_seenTxs m) \<and> length (mg_ibdBlockQueue m) \<le> ibdQueueSize \<and>
     (\<forall>a n. mg_addrCountPerPeer m a = Some n \<longrightarrow> 0 \<le> n \<and> n \<le> 1000)"

definition blocks_ok :: "Block set \<Rightarrow> ('s, 'p) Manager \<Rightarrow> bool" where
  "blocks_ok W m \<longleftrightarrow> fst ` set (mg_ibdBlockQueue m) \<subseteq> W \<and>
     (\<forall>s. mg_blockScheduler m = Some s \<longrightarrow> scheduler_ok s \<and> (\<forall>h st. (h, st) \<in> set (sc_staging s) \<longrightarrow> sb_Block st \<in> W))"

definition parts_ok :: "('s, 'p, 'sig, 'pk, 'sk) mgr_env \<Rightarrow> Block set \<Rightarrow> 's \<Rightarrow> ('s, 'p) Manager \<Rightarrow> bool" where
  "parts_ok M W s0 m \<longleftrightarrow> chain_runs (me_chain M) W s0 (mg_chain m)
     \<and> mempool_runs (ce_lib (me_chain M)) (ce_params (me_chain M)) (mg_mempool m)
     \<and> (\<forall>c. mg_timeSampler m = Some c \<longrightarrow> clock_runs c)"

definition mgr_ok :: "('s, 'p, 'sig, 'pk, 'sk) mgr_env \<Rightarrow> Block set \<Rightarrow> 's \<Rightarrow> ('s, 'p) Manager \<Rightarrow> bool" where
  "mgr_ok M W s0 m \<longleftrightarrow> peers_ok m \<and> bounds_ok m \<and> blocks_ok W m \<and> parts_ok M W s0 m"

lemmas mgr_parts = peers_ok_def bounds_ok_def blocks_ok_def parts_ok_def peer_at_def

named_theorems mgr_step "state changes that keep the invariant"

text \<open>Fields the invariant does not speak of.\<close>

lemma mgr_ok_free [simp]:
  "mgr_ok M W s0 (m\<lparr>mg_peerStore := v1\<rparr>) = mgr_ok M W s0 m"
  "mgr_ok M W s0 (m\<lparr>mg_bestPeerHeight := v2\<rparr>) = mgr_ok M W s0 m"
  "mgr_ok M W s0 (m\<lparr>mg_banned := v3\<rparr>) = mgr_ok M W s0 m"
  "mgr_ok M W s0 (m\<lparr>mg_backoff := v4\<rparr>) = mgr_ok M W s0 m"
  "mgr_ok M W s0 (m\<lparr>mg_backoffN := v5\<rparr>) = mgr_ok M W s0 m"
  "mgr_ok M W s0 (m\<lparr>mg_nextPeerID := v6\<rparr>) = mgr_ok M W s0 m"
  "mgr_ok M W s0 (m\<lparr>mg_manualPeers := v7\<rparr>) = mgr_ok M W s0 m"
  "mgr_ok M W s0 (m\<lparr>mg_lastSyncReqPerPeer := v8\<rparr>) = mgr_ok M W s0 m"
  "mgr_ok M W s0 (m\<lparr>mg_syncPeerAddr := v9\<rparr>) = mgr_ok M W s0 m"
  "mgr_ok M W s0 (m\<lparr>mg_syncPeerSince := v10\<rparr>) = mgr_ok M W s0 m"
  "mgr_ok M W s0 (m\<lparr>mg_lastSyncHeight := v11\<rparr>) = mgr_ok M W s0 m"
  "mgr_ok M W s0 (m\<lparr>mg_syncState := v12\<rparr>) = mgr_ok M W s0 m"
  "mgr_ok M W s0 (m\<lparr>mg_headerSyncPeerAddr := v13\<rparr>) = mgr_ok M W s0 m"
  "mgr_ok M W s0 (m\<lparr>mg_headerSyncSince := v14\<rparr>) = mgr_ok M W s0 m"
  "mgr_ok M W s0 (m\<lparr>mg_lastHeaderHeight := v15\<rparr>) = mgr_ok M W s0 m"
  "mgr_ok M W s0 (m\<lparr>mg_headerSyncStalls := v16\<rparr>) = mgr_ok M W s0 m"
  "mgr_ok M W s0 (m\<lparr>mg_headerSyncCaughtUp := v17\<rparr>) = mgr_ok M W s0 m"
  "mgr_ok M W s0 (m\<lparr>mg_headerIndex := v18\<rparr>) = mgr_ok M W s0 m"
  "mgr_ok M W s0 (m\<lparr>mg_blockSyncLastProgress := v19\<rparr>) = mgr_ok M W s0 m"
  "mgr_ok M W s0 (m\<lparr>mg_blockSyncLastHeight := v20\<rparr>) = mgr_ok M W s0 m"
  "mgr_ok M W s0 (m\<lparr>mg_fastSyncPeer := v21\<rparr>) = mgr_ok M W s0 m"
  "mgr_ok M W s0 (m\<lparr>mg_fastSyncNextHeight := v22\<rparr>) = mgr_ok M W s0 m"
  "mgr_ok M W s0 (m\<lparr>mg_fastSyncInFlight := v23\<rparr>) = mgr_ok M W s0 m"
  "mgr_ok M W s0 (m\<lparr>mg_fastSyncLastRecv := v24\<rparr>) = mgr_ok M W s0 m"
  "mgr_ok M W s0 (m\<lparr>mg_fastSyncFallback := v25\<rparr>) = mgr_ok M W s0 m"
  "mgr_ok M W s0 (m\<lparr>mg_finishedIBD := v26\<rparr>) = mgr_ok M W s0 m"
  "mgr_ok M W s0 (m\<lparr>mg_wasIBD := v27\<rparr>) = mgr_ok M W s0 m"
  by (simp_all add: mgr_ok_def mgr_parts)

text \<open>A change of one peer that keeps it well-formed.\<close>

lemma mgr_upd_peer:
  assumes "mgr_ok M W s0 m" "p < length (mg_objs m) \<Longrightarrow> peer_ok (peer_at m p) \<Longrightarrow> peer_ok (f (peer_at m p))
      \<and> pr_addr (f (peer_at m p)) = pr_addr (peer_at m p) \<and> (pr_version (peer_at m p) \<noteq> None \<longrightarrow> pr_version (f (peer_at m p)) \<noteq> None)"
  shows "mgr_ok M W s0 (upd_peer p f m)"
proof (cases "p < length (mg_objs m)")
  case True
  then have "peer_ok (peer_at m p)" using assms(1) by (simp add: mgr_ok_def mgr_parts)
  note f = assms(2) [OF True this]
  have "peers_ok (upd_peer p f m)"
    using assms(1) f True unfolding mgr_ok_def peers_ok_def upd_peer_def
    by (auto simp: peer_at_def set_update_subsetI nth_list_update split: prod.splits dest!: set_update_subset_insert [THEN subsetD])
  then show ?thesis using assms(1) by (simp add: mgr_ok_def mgr_parts upd_peer_def)
next
  case False
  then have "upd_peer p f m = m" by (simp add: upd_peer_def list_update_beyond)
  then show ?thesis using assms(1) by simp
qed

lemma mgr_harmless [mgr_step]: "mgr_ok M W s0 m \<Longrightarrow> harmless f \<Longrightarrow> mgr_ok M W s0 (upd_peer p f m)"
  by (rule mgr_upd_peer) (auto simp: harmless_def)

lemma mgr_send [mgr_step]: "mgr_ok M W s0 m \<Longrightarrow> mgr_ok M W s0 (send A p cmd payload m)"
  unfolding send_def by (rule mgr_harmless) simp_all

lemma mgr_result:
  assumes "mgr_ok M W s0 m" "p < length (mg_objs m) \<Longrightarrow> peer_ok (peer_at m p) \<Longrightarrow>
    peer_ok q \<and> pr_addr q = pr_addr (peer_at m p) \<and> pr_version q = pr_version (peer_at m p)"
  shows "mgr_ok M W s0 (upd_peer p (\<lambda>_. q) m)"
  by (rule mgr_upd_peer [OF assms(1)]) (use assms(2) in auto)

lemma fold_ok:
  "(\<And>x m. x \<in> set xs \<Longrightarrow> mgr_ok M W s0 m \<Longrightarrow> mgr_ok M W s0 (f x m)) \<Longrightarrow> mgr_ok M W s0 m \<Longrightarrow> mgr_ok M W s0 (fold f xs m)"
  by (induction xs arbitrary: m) auto

lemma mgr_seen [mgr_step]:
  "mgr_ok M W s0 m \<Longrightarrow> hs_ok maxSeenBlocks s \<Longrightarrow> mgr_ok M W s0 (m\<lparr>mg_seenBlocks := s\<rparr>)"
  "mgr_ok M W s0 m \<Longrightarrow> hs_ok maxSeenTxs s \<Longrightarrow> mgr_ok M W s0 (m\<lparr>mg_seenTxs := s\<rparr>)"
  by (simp_all add: mgr_ok_def mgr_parts)

lemma mgr_seen_ok: "mgr_ok M W s0 m \<Longrightarrow> hs_ok maxSeenBlocks (mg_seenBlocks m)" "mgr_ok M W s0 m \<Longrightarrow> hs_ok maxSeenTxs (mg_seenTxs m)"
  by (simp_all add: mgr_ok_def mgr_parts)

lemma mgr_seen_ops [mgr_step]:
  assumes "mgr_ok M W s0 m"
  shows "mgr_ok M W s0 (m\<lparr>mg_seenBlocks := hashset_Add h (mg_seenBlocks m)\<rparr>)" "mgr_ok M W s0 (m\<lparr>mg_seenTxs := hashset_Add h (mg_seenTxs m)\<rparr>)"
    "mgr_ok M W s0 (m\<lparr>mg_seenBlocks := hashset_Remove h (mg_seenBlocks m)\<rparr>)" "mgr_ok M W s0 (scrub_seen hs m)"
  unfolding scrub_seen_def using assms mgr_seen_ok [OF assms] by (auto intro!: mgr_seen hashset_Remove_list_ok)

text \<open>The components the manager drives.\<close>

lemma mgr_chain:
  assumes "mgr_ok M W s0 m" "chain_runs (me_chain M) W s0 c"
  shows "mgr_ok M W s0 (m\<lparr>mg_chain := c\<rparr>)"
  using assms by (simp add: mgr_ok_def mgr_parts)

lemma mgr_chain_ok: "mgr_ok M W s0 m \<Longrightarrow> chain_runs (me_chain M) W s0 (mg_chain m)"
  by (simp add: mgr_ok_def parts_ok_def)

lemma mgr_pool:
  assumes "mgr_ok M W s0 m" "mempool_runs (ce_lib (me_chain M)) (ce_params (me_chain M)) mp"
  shows "mgr_ok M W s0 (m\<lparr>mg_mempool := mp\<rparr>)"
  using assms by (simp add: mgr_ok_def mgr_parts)

lemma mgr_pool_ok: "mgr_ok M W s0 m \<Longrightarrow> mempool_runs (ce_lib (me_chain M)) (ce_params (me_chain M)) (mg_mempool m)"
  by (simp add: mgr_ok_def parts_ok_def)

definition sched_ok :: "Block set \<Rightarrow> BlockScheduler \<Rightarrow> bool" where
  "sched_ok W s \<longleftrightarrow> scheduler_ok s \<and> (\<forall>h st. (h, st) \<in> set (sc_staging s) \<longrightarrow> sb_Block st \<in> W)"

lemma mgr_sched:
  assumes "mgr_ok M W s0 m" "\<And>s. r = Some s \<Longrightarrow> sched_ok W s"
  shows "mgr_ok M W s0 (m\<lparr>mg_blockScheduler := r\<rparr>)"
  using assms by (simp add: mgr_ok_def mgr_parts sched_ok_def)

lemma mgr_sched_ok: "mgr_ok M W s0 m \<Longrightarrow> mg_blockScheduler m = Some s \<Longrightarrow> sched_ok W s"
  by (simp add: mgr_ok_def blocks_ok_def sched_ok_def)

lemma on_chain_block:
  assumes "b \<in> W"
  shows "preserves (mgr_ok M W s0) (on_chain (processBlock (me_chain M) clk trusted b))"
proof (rule preservesI)
  fix m :: "('a, 'b) Manager"
  assume ok: "mgr_ok M W s0 m"
  have "mgr_ok M W s0 (m\<lparr>mg_chain := c\<rparr>)" if "processBlock (me_chain M) clk trusted b (mg_chain m) = Some (r, c)" for r c
    using chain_runs.block [OF mgr_chain_ok [OF ok] assms that] by (rule mgr_chain [OF ok])
  then show "preserves_from (mgr_ok M W s0) m (on_chain (processBlock (me_chain M) clk trusted b))"
    unfolding preserves_from_def on_chain_def by (auto split: option.splits sum.splits prod.splits)
qed

lemma on_chain_process:
  "b \<in> W \<Longrightarrow> preserves (mgr_ok M W s0) (on_chain (ProcessBlock (me_chain M) clk b))"
  "b \<in> W \<Longrightarrow> preserves (mgr_ok M W s0) (on_chain (ProcessBlockTrustedHeader (me_chain M) clk b))"
  unfolding ProcessBlock_def ProcessBlockTrustedHeader_def by (rule on_chain_block, assumption)+

lemma remove_confirmed_ok [mgr_step]: "mgr_ok M W s0 m \<Longrightarrow> mgr_ok M W s0 (remove_confirmed b m)"
  unfolding remove_confirmed_def by (rule mgr_pool) (auto intro: mempool_runs.removes mgr_pool_ok)

lemma NotifyBlockAccepted_ok [simp]: "mgr_ok M W s0 (NotifyBlockAccepted hdr m) = mgr_ok M W s0 m"
  by (simp add: NotifyBlockAccepted_def)

section \<open>State changes\<close>

lemma BanPeer_ok [simp]: "mgr_ok M W s0 (BanPeer A a m) = mgr_ok M W s0 m"
  by (simp add: BanPeer_def)

lemma upd_peer_sel [simp]:
  "mg_chain (upd_peer p f m) = mg_chain m" "mg_mempool (upd_peer p f m) = mg_mempool m" "mg_peers (upd_peer p f m) = mg_peers m"
  "mg_seenBlocks (upd_peer p f m) = mg_seenBlocks m" "mg_seenTxs (upd_peer p f m) = mg_seenTxs m"
  "mg_blockScheduler (upd_peer p f m) = mg_blockScheduler m" "mg_headerIndex (upd_peer p f m) = mg_headerIndex m"
  "mg_syncState (upd_peer p f m) = mg_syncState m" "mg_fastSyncPeer (upd_peer p f m) = mg_fastSyncPeer m"
  "mg_banned (upd_peer p f m) = mg_banned m" "mg_ibdBlockQueue (upd_peer p f m) = mg_ibdBlockQueue m"
  by (simp_all add: upd_peer_def)

lemma peer_at_upd [simp]: "p < length (mg_objs m) \<Longrightarrow> peer_at (upd_peer p f m) p = f (peer_at m p)"
  by (simp add: peer_at_def upd_peer_def)

lemma length_objs_upd [simp]: "length (mg_objs (upd_peer p f m)) = length (mg_objs m)"
  by (simp add: upd_peer_def)

lemma IsBanned_ok: "mgr_ok M W s0 m \<Longrightarrow> IsBanned A a m = (b, m') \<Longrightarrow> mgr_ok M W s0 m'"
  by (auto simp: IsBanned_def Let_def split: option.splits if_splits)

lemma addMisbehavior_ok [mgr_step]:
  assumes ok: "mgr_ok M W s0 m"
  shows "mgr_ok M W s0 (addMisbehavior M' A p score m)"
proof -
  obtain w q where q: "AddBanScore score (peer_at m p) = (w, q)" by fastforce
  have "mgr_ok M W s0 (upd_peer p (\<lambda>_. q) m)"
    by (rule mgr_result [OF ok]) (use q harmless_results(2) in blast)
  then show ?thesis using ok by (auto simp: addMisbehavior_def q Let_def intro!: mgr_step)
qed

lemma backoff_ok [simp]:
  "mgr_ok M W s0 (recordConnectFailure A a m) = mgr_ok M W s0 m" "mgr_ok M W s0 (recordConnectSuccess a m) = mgr_ok M W s0 m"
  by (simp_all add: recordConnectFailure_def recordConnectSuccess_def Let_def)

lemma ticks_ok:
  assumes "mgr_ok M W s0 m"
  shows "mgr_ok M W s0 (liveness_tick A m)" "mgr_ok M W s0 (ping_tick A m)" "mgr_ok M W s0 (addr_broadcast_tick M' A m)"
proof -
  show "mgr_ok M W s0 (liveness_tick A m)" unfolding liveness_tick_def Let_def mgr_ok_free
    by (rule fold_ok [OF _ assms]) (auto intro!: mgr_step)
  show "mgr_ok M W s0 (ping_tick A m)" unfolding ping_tick_def
    by (rule fold_ok [OF _ assms]) (auto simp: Let_def intro!: mgr_step)
  show "mgr_ok M W s0 (addr_broadcast_tick M' A m)" unfolding addr_broadcast_tick_def Let_def
    by (auto intro!: fold_ok assms mgr_step)
qed

lemma handleGetAddr_ok [mgr_step]:
  assumes ok: "mgr_ok M W s0 m"
  shows "mgr_ok M W s0 (handleGetAddr M' A p m)"
proof -
  obtain b q where q: "MarkGetAddrResponded (peer_at m p) = (b, q)" by fastforce
  have "mgr_ok M W s0 (upd_peer p (\<lambda>_. q) m)" by (rule mgr_result [OF ok]) (use q harmless_results(5) in blast)
  then show ?thesis by (simp add: handleGetAddr_def q Let_def mgr_step)
qed

lemma announce_harmless: "harmless (announce_block A h b i)"
proof -
  have "harmless (\<lambda>pr. SendCritical (pick (AddKnownInventory h pr)) (freed (AddKnownInventory h pr)) cmd payload (AddKnownInventory h pr))"
    for pick freed cmd payload
    by (rule harmless_comp [OF harmless_send(3) harmless_ops(10)])
  then show ?thesis unfolding harmless_def announce_block_def Let_def by auto
qed

lemma broadcast_ok [mgr_step]:
  assumes "mgr_ok M W s0 m"
  shows "mgr_ok M W s0 (BroadcastBlock A h b m)" "mgr_ok M W s0 (BroadcastTx A h m)"
proof -
  show "mgr_ok M W s0 (BroadcastBlock A h b m)" unfolding BroadcastBlock_def Let_def
    by (rule fold_ok) (auto intro!: mgr_step assms announce_harmless)
  show "mgr_ok M W s0 (BroadcastTx A h m)" unfolding BroadcastTx_def
    by (rule fold_ok) (auto intro!: mgr_step assms)
qed

lemma try_each_ok: "mgr_ok M W s0 m \<Longrightarrow> mgr_ok M W s0 (try_each A cmd payload ps m)"
proof (induction ps arbitrary: m)
  case (Cons p ps)
  obtain b q where q: "TrySendMessage (at_pick A cmd (peer_at m p)) cmd payload (peer_at m p) = (b, q)" by fastforce
  have "mgr_ok M W s0 (upd_peer p (\<lambda>_. q) m)" by (rule mgr_result [OF Cons.prems]) (use q harmless_results(1) in blast)
  then show ?case using Cons by (simp add: q)
qed simp

lemma requests_ok [mgr_step]:
  "mgr_ok M W s0 m \<Longrightarrow> mgr_ok M W s0 (send_or_other A p cmd payload m)"
  "mgr_ok M W s0 m \<Longrightarrow> mgr_ok M W s0 (requestOrphanParent A p h m)"
  by (simp_all add: send_or_other_def requestOrphanParent_def try_each_ok del: try_each.simps)

lemma requestBlocks_ok: "preserves (mgr_ok M W s0) (requestBlocks A p)"
  unfolding requestBlocks_def by (rule preservesI) (auto intro!: pf_intro mgr_step)

lemma requestHeaders_ok: "preserves (mgr_ok M W s0) (requestHeaders A p)"
  unfolding requestHeaders_def by (rule preservesI) (auto intro!: pf_intro mgr_step)

section \<open>Handlers\<close>

lemma harmless_id [simp]: "harmless id"
  by (simp add: harmless_def)

lemma harmless_known: "harmless (fold (\<lambda>x. AddKnownInventory (f x)) xs)"
  by (rule harmless_fold) simp

lemma handleInv_ok [mgr_step]: "mgr_ok M W s0 m \<Longrightarrow> mgr_ok M W s0 (handleInv A p msg m)"
  unfolding handleInv_def Let_def by (auto intro!: mgr_step harmless_known)

lemma handleGetData_ok [mgr_step]: "mgr_ok M W s0 m \<Longrightarrow> mgr_ok M W s0 (handleGetData M' A p gd m)"
  unfolding handleGetData_def by (rule fold_ok) (auto intro!: mgr_step)

lemma throttle_ok:
  assumes "mgr_ok M W s0 m"
  shows "CheckGetHeadersThrottle now (peer_at m p) = (b, q) \<Longrightarrow> mgr_ok M W s0 (upd_peer p (\<lambda>_. q) m)"
    "CheckGetBlocksThrottle now (peer_at m p) = (b, q) \<Longrightarrow> mgr_ok M W s0 (upd_peer p (\<lambda>_. q) m)"
    "HandlePong n now (peer_at m p) = (b, q) \<Longrightarrow> mgr_ok M W s0 (upd_peer p (\<lambda>_. q) m)"
    "CheckRateLimit now (peer_at m p) = (b, q) \<Longrightarrow> mgr_ok M W s0 (upd_peer p (\<lambda>_. q) m)"
    "AddHeadersReceived d (peer_at m p) = (w, q) \<Longrightarrow> mgr_ok M W s0 (upd_peer p (\<lambda>_. q) m)"
    "ReadMessage now bs (peer_at m p) = Inr (hdr, payload, rest, q) \<Longrightarrow> mgr_ok M W s0 (upd_peer p (\<lambda>_. q) m)"
  by (auto intro!: mgr_result [OF assms] dest: harmless_results)

lemma handleGetBlocks_ok [mgr_step]:
  assumes "mgr_ok M W s0 m"
  shows "mgr_ok M W s0 (handleGetBlocks M' A p msg m)"
proof -
  obtain b q where q: "CheckGetBlocksThrottle (at_now A) (peer_at m p) = (b, q)" by fastforce
  note ok = throttle_ok(2) [OF assms q] assms
  show ?thesis using ok harmless_known [of "\<lambda>x. x"]
    by (auto simp: handleGetBlocks_def Let_def q intro!: mgr_step split: if_splits)
qed

lemma handleGetHeaders_ok [mgr_step]:
  assumes "mgr_ok M W s0 m"
  shows "mgr_ok M W s0 (handleGetHeaders M' A p msg m)"
proof -
  obtain b q where q: "CheckGetHeadersThrottle (at_now A) (peer_at m p) = (b, q)" by fastforce
  note ok = throttle_ok(1) [OF assms q] assms
  show ?thesis using ok by (auto simp: handleGetHeaders_def Let_def q intro!: mgr_step split: if_splits)
qed

lemma fetch_next_ok [mgr_step]: "mgr_ok M W s0 m \<Longrightarrow> mgr_ok M W s0 (fetch_next A p hs m)"
  unfolding fetch_next_def Let_def by (rule fold_ok) (auto intro!: mgr_step split: option.splits)

lemma headers_added_ok: "preserves (mgr_ok M W s0) (headers_added A p hs)"
  unfolding headers_added_def
  by (rule preservesI) (auto intro!: pf_intro mgr_step pf_bind [OF pf_run [OF requestHeaders_ok]] preserves_upd)

lemma handleHeaders_ok: "preserves (mgr_ok M W s0) (handleHeaders M' A p msg)"
proof (rule preservesI)
  fix m :: "('a, 'b) Manager"
  assume ok: "mgr_ok M W s0 m"
  obtain w q where q: "AddHeadersReceived (of_nat (length (hm_Headers msg))) (peer_at m p) = (w, q)" by fastforce
  note ok' = throttle_ok(5) [OF ok q]
  show "preserves_from (mgr_ok M W s0) m (handleHeaders M' A p msg)"
    unfolding handleHeaders_def Let_def
    by (intro pf_intro pf_run [OF headers_added_ok]) (use ok ok' q in \<open>auto intro!: addMisbehavior_ok\<close>)
qed

lemma harmless_accepted: "harmless (\<lambda>pr. SetSyncedHeaders a (SetSyncedBlocks b (StampLastBlock t (SetStartHeightIfGreater h pr))))"
  by (rule harmless_comp [OF harmless_ops(7) harmless_comp [OF harmless_ops(8) harmless_comp [OF harmless_ops(5,1)]]])

lemma block_accepted_ok [mgr_step]: "mgr_ok M W s0 m \<Longrightarrow> mgr_ok M W s0 (block_accepted A p b h m)"
  unfolding block_accepted_def Let_def by (auto intro!: mgr_harmless harmless_accepted remove_confirmed_ok)

section \<open>The scheduler within the manager\<close>

lemma sched_ok_new: "sched_ok W (new_scheduler m)"
proof -
  have "scheduler_ok (queue_hashes q n hs (NewBlockScheduler t\<lparr>sc_nextConnectHeight := k\<rparr>)) = scheduler_ok (NewBlockScheduler t)" for q n hs t k
    by (rule scheduler_ok_cong) simp_all
  then show ?thesis
    by (simp add: sched_ok_def new_scheduler_def Populate_def populateLocked_def Let_def scheduler_ok_New)
      (simp add: NewBlockScheduler_def)
qed

lemma sched_ok_reset:
  assumes "sched_ok W s"
  shows "sched_ok W (Scheduler_Reset idx tip s)"
proof -
  let ?s = "\<lambda>k. s\<lparr>sc_needed := [], sc_inFlight := [], sc_staging := [], sc_peerStats := Map.empty, sc_nextConnectHeight := k\<rparr>"
  have "scheduler_ok (?s k)" for k using assms by (auto simp: sched_ok_def scheduler_ok_def peer_stats_def new_stats_def)
  moreover have "scheduler_ok (queue_hashes q n hs (?s k)) = scheduler_ok (?s k)" for q n hs k by (rule scheduler_ok_cong) simp_all
  ultimately show ?thesis by (simp add: sched_ok_def Scheduler_Reset_def populateLocked_def Let_def)
qed

lemma sched_ok_assign: "sched_ok W s \<Longrightarrow> AssignWork a lim b now s = (hs, s') \<Longrightarrow> sched_ok W s'"
  using AssignWork_ok [of s a lim b now] AssignWork_sel(1) [of a lim b now s] by (simp add: sched_ok_def)

lemma sched_ok_received: "sched_ok W s \<Longrightarrow> b \<in> W \<Longrightarrow> BlockReceived h b a now s = (r, s') \<Longrightarrow> sched_ok W s'"
  using BlockReceived_ok [of s h b a now] set_update_subset [of h "\<lparr>sb_Block = b, sb_PeerAddr = a\<rparr>" "sc_staging s"]
  by (fastforce simp: sched_ok_def BlockReceived_def split: option.splits if_splits)

lemma sched_ok_requeue: "sched_ok W s \<Longrightarrow> sched_ok W (RequeueBlock h n s)"
  using RequeueBlock_ok(1) [of s h n] by (auto simp: sched_ok_def RequeueBlock_def AList.delete_eq)

lemma sched_ok_advance: "sched_ok W s \<Longrightarrow> sched_ok W (UpdateNextConnectHeight h s)"
  using scheduler_ok_cong [of "UpdateNextConnectHeight h s" s] by (auto simp: sched_ok_def UpdateNextConnectHeight_def)

lemma timeout_staging: "sc_staging (snd (timeout_loop now order acc s)) = sc_staging s"
  by (induction order arbitrary: acc s) (simp_all add: requeue_request_def split: option.split)

lemma sched_ok_timeout: "sched_ok W s \<Longrightarrow> HandleTimeout now order s = (r, s') \<Longrightarrow> sched_ok W s'"
  using HandleTimeout_ok(1) [of s now order] timeout_staging [of now order "[]" s] by (simp add: sched_ok_def HandleTimeout_def)

lemma remove_staging: "sc_staging (remove_peer_loop a order s) = sc_staging s"
  by (induction order arbitrary: s) (simp_all add: requeue_request_def split: option.split)

lemma sched_ok_remove: "sched_ok W s \<Longrightarrow> sched_ok W (RemovePeer a order s)"
  using RemovePeer_ok(1) [of s a order] by (simp add: sched_ok_def) (simp add: RemovePeer_def remove_staging Let_def)

lemma drain_staging:
  "drain_loop idx order ready s = (ready', s') \<Longrightarrow> \<forall>h st. (h, st) \<in> set (sc_staging s) \<longrightarrow> sb_Block st \<in> W \<Longrightarrow> \<forall>st \<in> set ready. sb_Block st \<in> W \<Longrightarrow>
   (\<forall>h st. (h, st) \<in> set (sc_staging s') \<longrightarrow> sb_Block st \<in> W) \<and> (\<forall>st \<in> set ready'. sb_Block st \<in> W)"
proof (induction idx order ready s rule: drain_loop.induct)
  case (1 idx order ready s)
  show ?case
  proof (cases "GetHeaderByHeight idx (sc_nextConnectHeight s)")
    case None
    then show ?thesis using 1 by (simp add: drain_loop.simps [of idx order ready s])
  next
    case (Some node)
    show ?thesis
    proof (cases "map_of (sc_staging s) (hn_Hash node)")
      case None
      then show ?thesis using 1(2-4) Some by (auto simp: drain_loop.simps [of idx order ready s] split: if_splits)
    next
      case st: (Some b)
      let ?s = "s\<lparr>sc_staging := AList.delete (hn_Hash node) (sc_staging s), sc_nextConnectHeight := sc_nextConnectHeight s + 1\<rparr>"
      have eq: "drain_loop idx order ready s = drain_loop idx order (ready @ [b]) ?s"
        by (subst drain_loop.simps) (simp add: Some st)
      have pre: "\<forall>h st. (h, st) \<in> set (sc_staging ?s) \<longrightarrow> sb_Block st \<in> W" using 1(3) by (auto simp: AList.delete_eq)
      have "\<forall>st \<in> set (ready @ [b]). sb_Block st \<in> W" using map_of_SomeD [OF st] 1(3,4) by auto
      from 1(1) [OF Some st _ pre this] 1(2) eq show ?thesis by simp
    qed
  qed
qed

lemma sched_ok_drain:
  assumes "sched_ok W s" "DrainReady idx order s = (ready, s')"
  shows "sched_ok W s'" "\<forall>st \<in> set ready. sb_Block st \<in> W"
  using assms DrainReady_ok(1) [of s idx order] drain_staging [of idx order "[]" s ready s' W] by (simp_all add: sched_ok_def DrainReady_def)

section \<open>Blocks and transactions\<close>

lemma fast_sync_failed_ok [mgr_step]: "mgr_ok M W s0 m \<Longrightarrow> mgr_ok M W s0 (fast_sync_failed A m)"
  by (auto simp: fast_sync_failed_def Let_def intro!: mgr_step mgr_sched sched_ok_new)

lemma fast_sync_block_ok:
  assumes "b \<in> W"
  shows "preserves (mgr_ok M W s0) (fast_sync_block M A p b)"
proof -
  have tail: "preserves (mgr_ok M W s0) (case r of Inl e \<Rightarrow>
      if is_side_chain e \<or> says_known (at_io A) e then supd (\<lambda>m. m\<lparr>mg_fastSyncInFlight := mg_fastSyncInFlight m - 1\<rparr>)
      else sbind (if says_invalid (at_io A) e then supd (addMisbehavior M A p 100) else sret ()) (\<lambda>_. supd (fast_sync_failed A))
    | Inr (height :: u32) \<Rightarrow> supd (\<lambda>m. remove_confirmed b
        (m\<lparr>mg_fastSyncInFlight := mg_fastSyncInFlight m - 1, mg_fastSyncLastRecv := at_now A\<rparr>)))" for r
    by (rule preservesI, intro pf_intro) (auto intro!: mgr_step)
  show ?thesis unfolding fast_sync_block_def
    by (rule preservesI, intro pf_intro pf_bind pf_run [OF on_chain_process(2) [OF assms]] tail)
qed

lemma assign_to_ok [mgr_step]: "mgr_ok M W s0 m \<Longrightarrow> mgr_ok M W s0 (assign_to A p m)"
  unfolding assign_to_def Let_def
  by (auto intro!: mgr_send mgr_sched dest: sched_ok_assign [OF mgr_sched_ok] split: option.splits prod.splits)

lemma relay_block_ok:
  assumes "b \<in> W"
  shows "preserves (mgr_ok M W s0) (relay_block M A p b)"
  unfolding relay_block_def Let_def
proof (rule preserves_bind [OF on_chain_process(1) [OF assms]])
  fix r :: "chain_error + u32"
  let ?h = "HashBlockHeader (blk_Header b)"
  show "preserves (mgr_ok M W s0) (case r of
      Inl e \<Rightarrow>
        if is_side_chain e then sret ()
        else sbind (supd (\<lambda>m. m\<lparr>mg_seenBlocks := hashset_Remove ?h (mg_seenBlocks m)\<rparr>)) (\<lambda>_.
          if is_orphan e then sbind (supd (requestOrphanParent A p (hdr_PrevBlock (blk_Header b)))) (\<lambda>_. requestBlocks A p)
          else if says_known (at_io A) e then sret ()
          else if says_invalid (at_io A) e then supd (addMisbehavior M A p 100)
          else swith (\<lambda>m. if \<not> IsSyncing m then supd (addMisbehavior M A p 10) else sret ()))
    | Inr height \<Rightarrow>
        sbind (supd (\<lambda>m. BroadcastBlock A ?h b (block_accepted A p b height m))) (\<lambda>_.
        swith (\<lambda>m. if BestHeight (peer_at m p) > height then requestBlocks A p else sret ())))"
    by (rule preservesI, intro pf_intro pf_run [OF requestBlocks_ok]) (auto intro!: mgr_step)
qed

lemma enqueue_ibd_ok: "b \<in> W \<Longrightarrow> preserves (mgr_ok M W s0) (enqueue_ibd b p)"
  unfolding enqueue_ibd_def
  by (rule preservesI, intro pf_intro) (auto simp: mgr_ok_def mgr_parts)

lemma route_block_ok:
  assumes "b \<in> W"
  shows "preserves (mgr_ok M W s0) (route_block M A p b)"
proof (rule preservesI)
  fix m :: "('a, 'b) Manager"
  assume ok: "mgr_ok M W s0 m"
  let ?h = "HashBlockHeader (blk_Header b)"
  obtain taken sch where t: "(case (mg_syncState m, mg_blockScheduler m) of
      (SyncStateBlockSync, Some s) \<Rightarrow>
        (let (ok, s) = BlockReceived ?h b (pr_addr (peer_at m p)) (at_now A) s in (ok, Some s))
    | (_, s) \<Rightarrow> (False, s)) = (taken, sch)" by fastforce
  have "sched_ok W s" if "sch = Some s" for s
    using t that mgr_sched_ok [OF ok] sched_ok_received [OF mgr_sched_ok [OF ok] assms]
    by (auto split: SyncState.splits option.splits prod.splits)
  then have ok': "mgr_ok M W s0 (m\<lparr>mg_blockScheduler := sch\<rparr>)" by (rule mgr_sched [OF ok])
  show "preserves_from (mgr_ok M W s0) m (route_block M A p b)"
    unfolding route_block_def Let_def
    by (rule pf_with, unfold t [unfolded Let_def], intro pf_intro pf_run [OF fast_sync_block_ok [OF assms]] pf_run [OF relay_block_ok [OF assms]] pf_bind
        pf_run [OF enqueue_ibd_ok [OF assms]] preserves_intro requestBlocks_ok)
      (use ok ok' in \<open>auto intro!: mgr_step\<close>)
qed

lemma handleBlock_ok:
  assumes "b \<in> W"
  shows "preserves (mgr_ok M W s0) (handleBlock M A p b)"
proof (rule preservesI)
  fix m :: "('a, 'b) Manager"
  assume ok: "mgr_ok M W s0 m"
  show "preserves_from (mgr_ok M W s0) m (handleBlock M A p b)"
    unfolding handleBlock_def Let_def
    by (intro pf_intro pf_run [OF route_block_ok [OF assms]])
      (use ok in \<open>auto simp: hashset_AddOrHas_def hashset_insert_ok intro!: mgr_step hashset_ok mgr_seen_ok hashset_insert_ok split: if_splits\<close>)
qed

lemma processIBDBlock_ok:
  assumes "fst item \<in> W"
  shows "preserves (mgr_ok M W s0) (processIBDBlock M A item)"
proof -
  obtain b p where item: "item = (b, p)" by fastforce
  let ?h = "HashBlockHeader (blk_Header b)"
  have "preserves (mgr_ok M W s0) (case r of
      Inl e \<Rightarrow>
        if is_side_chain e then sret ()
        else if is_orphan e then sbind (supd (requestOrphanParent A p (hdr_PrevBlock (blk_Header b)))) (\<lambda>_. requestBlocks A p)
        else sbind (supd (\<lambda>m. m\<lparr>mg_seenBlocks := hashset_Remove ?h (mg_seenBlocks m)\<rparr>)) (\<lambda>_.
          if says_known (at_io A) e then sret ()
          else if says_invalid_ibd (at_io A) e then supd (addMisbehavior M A p 100) else sret ())
    | Inr height \<Rightarrow> supd (block_accepted A p b height))" for r
    by (rule preservesI, intro pf_intro pf_run [OF requestBlocks_ok]) (auto intro!: mgr_step)
  then show ?thesis using assms unfolding processIBDBlock_def item Let_def prod.case
    by (intro preserves_bind on_chain_process) auto
qed

lemma ibd_step_ok: "preserves (mgr_ok M W s0) (ibd_step M A)"
proof (rule preservesI)
  fix m :: "('a, 'b) Manager"
  assume ok: "mgr_ok M W s0 m"
  show "preserves_from (mgr_ok M W s0) m (ibd_step M A)"
  proof (cases "mg_ibdBlockQueue m")
    case Nil
    then show ?thesis using ok by (auto simp: ibd_step_def intro!: pf_intro)
  next
    case (Cons item q)
    then have "fst item \<in> W" "mgr_ok M W s0 (m\<lparr>mg_ibdBlockQueue := q\<rparr>)" using ok by (auto simp: mgr_ok_def mgr_parts)
    then show ?thesis unfolding ibd_step_def by (intro pf_intro) (auto simp: Cons intro!: pf_intro pf_run [OF processIBDBlock_ok])
  qed
qed

lemma drainIBDQueue_ok: "preserves (mgr_ok M W s0) (drainIBDQueue M A)"
  unfolding drainIBDQueue_def by (intro preserves_intro preserves_for_each ibd_step_ok)

lemma handleTx_ok: "preserves (mgr_ok M W s0) (handleTx M A p tx)"
proof (rule preservesI)
  fix m :: "('a, 'b) Manager"
  assume ok: "mgr_ok M W s0 m"
  show "preserves_from (mgr_ok M W s0) m (handleTx M A p tx)"
    unfolding handleTx_def Let_def
    by (intro pf_intro)
      (use ok in \<open>auto simp: hashset_AddOrHas_def intro!: mgr_step mgr_pool hashset_insert_ok mgr_seen_ok mempool_runs.add [OF mgr_pool_ok] split: if_splits\<close>)
qed

section \<open>Messages\<close>

lemma store_addr_ok: "mgr_ok M W s0 m \<Longrightarrow> mgr_ok M W s0 (store_addr M' A a m)"
  by (auto simp: store_addr_def Let_def dest: IsBanned_ok split: prod.splits)

lemma handleAddr_ok [mgr_step]:
  assumes ok: "mgr_ok M W s0 m"
  shows "mgr_ok M W s0 (handleAddr M' A p msg m)"
proof -
  let ?a = "pr_addr (peer_at m p)"
  let ?r = "case mg_addrCountPerPeer m ?a of None \<Rightarrow> 0 | Some n \<Rightarrow> n"
  let ?as = "map bytes_str (addr_Addresses msg)"
  let ?bs = "if int (length ?as) > 1000 - ?r then take (nat (1000 - ?r)) ?as else ?as"
  have "0 \<le> ?r" using ok by (auto simp: mgr_ok_def bounds_ok_def split: option.splits)
  then have "mgr_ok M W s0 (m\<lparr>mg_addrCountPerPeer := (mg_addrCountPerPeer m)(?a \<mapsto> ?r + int (length ?bs))\<rparr>)"
    if "\<not> 1000 - ?r \<le> 0"
    using ok that by (auto simp: mgr_ok_def mgr_parts)
  then show ?thesis using ok
    unfolding handleAddr_def Let_def by (cases "1000 - ?r \<le> 0") (auto intro!: fold_ok store_addr_ok)
qed

lemma handlePong_ok [mgr_step]:
  assumes "mgr_ok M W s0 m"
  shows "mgr_ok M W s0 (handlePong M' A p n m)"
proof -
  obtain b q where q: "HandlePong n (at_now A) (peer_at m p) = (b, q)" by fastforce
  show ?thesis using throttle_ok(3) [OF assms q] by (simp add: handlePong_def q Let_def addMisbehavior_ok)
qed

text \<open>The blocks a payload can hold.\<close>

definition payload_in :: "Block set \<Rightarrow> bytes \<Rightarrow> bool" where
  "payload_in W payload \<longleftrightarrow> (\<forall>b rest. Block_Deserialize payload = Inr (b, rest) \<longrightarrow> b \<in> W)"

lemma with_payload_ok:
  assumes "\<And>msg rest. dec payload = Inr (msg, rest) \<Longrightarrow> preserves (mgr_ok M W s0) (f msg)"
  shows "preserves (mgr_ok M W s0) (with_payload M' A p score dec payload f)"
  unfolding with_payload_def
  by (cases "dec payload") (auto intro!: preserves_upd addMisbehavior_ok assms)

lemma if_v2_ok: "preserves (mgr_ok M W s0) f \<Longrightarrow> preserves (mgr_ok M W s0) (if_v2 M' A p f)"
  unfolding if_v2_def by (intro preserves_intro preserves_upd addMisbehavior_ok)

lemma handleMessage_ok:
  assumes "payload_in W payload"
  shows "preserves (mgr_ok M W s0) (handleMessage M A p cmd payload)"
  unfolding handleMessage_def
  using assms unfolding payload_in_def
  by (intro preserves_if) (auto intro!: with_payload_ok if_v2_ok preserves_upd preserves_intro mgr_step handleBlock_ok handleTx_ok handleHeaders_ok)

section \<open>Connections\<close>

lemma mgr_objs_app: "mgr_ok M W s0 m \<Longrightarrow> peer_ok pr \<Longrightarrow> mgr_ok M W s0 (m\<lparr>mg_objs := mg_objs m @ [pr]\<rparr>)"
  by (auto simp: mgr_ok_def mgr_parts nth_append split: prod.splits)

lemma new_conn_ok: "mgr_ok M W s0 m \<Longrightarrow> new_conn M' A a inb m = (p, m') \<Longrightarrow> mgr_ok M W s0 m'"
  by (auto simp: new_conn_def intro!: mgr_objs_app peer_ok_new)

lemma accept_conn_ok: "mgr_ok M W s0 m \<Longrightarrow> accept_conn M' A a m = Some (r, b, m') \<Longrightarrow> mgr_ok M W s0 m'"
  by (auto simp: accept_conn_def maybeEvictInbound_def Let_def intro!: mgr_step
      dest: IsBanned_ok new_conn_ok split: prod.splits if_splits list.splits)

lemma accept_after_pause_ok: "mgr_ok M W s0 m \<Longrightarrow> accept_after_pause M' A a m = (r, m') \<Longrightarrow> mgr_ok M W s0 m'"
  by (auto simp: accept_after_pause_def dest: new_conn_ok split: prod.splits if_splits)

lemma connectPeer_ok: "mgr_ok M W s0 m \<Longrightarrow> connectPeer M' A dial a m = (r, m') \<Longrightarrow> mgr_ok M W s0 m'"
  by (auto simp: connectPeer_def Let_def dest: IsBanned_ok new_conn_ok split: prod.splits if_splits option.splits)

lemma dial_all_ok: "mgr_ok M W s0 m \<Longrightarrow> dial_all M' A dial as m = (r, m') \<Longrightarrow> mgr_ok M W s0 m'"
  by (induction as arbitrary: m r) (auto simp: Let_def dest: connectPeer_ok split: prod.splits)

lemma may_connect_ok: "mgr_ok M W s0 m \<Longrightarrow> may_connect A conn a m = (r, m') \<Longrightarrow> mgr_ok M W s0 m'"
  by (auto simp: may_connect_def Let_def dest: IsBanned_ok split: prod.splits if_splits)

lemma reconnect_list_ok: "mgr_ok M W s0 m \<Longrightarrow> reconnect_list M' A dial skip as n conn m = (r, conn', m') \<Longrightarrow> mgr_ok M W s0 m'"
proof (induction as arbitrary: m r n conn)
  case (Cons a as)
  obtain b m1 where b: "may_connect A conn a m = (b, m1)" by fastforce
  obtain q m2 where q: "connectPeer M' A dial a m1 = (q, m2)" by fastforce
  have ok: "mgr_ok M W s0 m1" "mgr_ok M W s0 m2"
    using may_connect_ok [OF Cons.prems(1) b] connectPeer_ok [OF _ q] by blast+
  show ?case using Cons.prems Cons.IH [OF ok(1)] Cons.IH [OF ok(2)]
    by (simp add: b q Let_def split: if_splits prod.splits)
qed simp

lemma seeds_ok:
  assumes "mgr_ok M W s0 m"
  shows "connectSeeds M' A dial m = (r, m') \<Longrightarrow> mgr_ok M W s0 m'" "reconnect_tick M' A dial m = (r, m') \<Longrightarrow> mgr_ok M W s0 m'"
    "AddNode A a m = (r', m') \<Longrightarrow> mgr_ok M W s0 m'" "DisconnectNode a m = (r', m') \<Longrightarrow> mgr_ok M W s0 m'" "mgr_ok M W s0 (Stop A m)"
  using assms
  by (auto simp: connectSeeds_def reconnect_tick_def AddNode_def DisconnectNode_def Stop_def Let_def
      dest: dial_all_ok reconnect_list_ok IsBanned_ok intro!: mgr_step fold_ok split: prod.splits if_splits option.splits sum.splits)

lemma disconnect_ok [mgr_step]:
  assumes "mgr_ok M W s0 m"
  shows "mgr_ok M W s0 (disconnect M' A p m)"
proof -
  let ?m = "upd_peer p Peer_Close m"
  have ok: "mgr_ok M W s0 ?m" using assms by (auto intro: mgr_step)
  have "sched_ok W (RemovePeer a hs s)" if "mg_blockScheduler ?m = Some s" for a hs s
    using mgr_sched_ok [OF ok that] by (rule sched_ok_remove)
  with ok show ?thesis
    by (auto simp: disconnect_def Let_def mgr_ok_def mgr_parts sched_ok_def AList.delete_eq distinct_map_filter split: if_splits)
qed

lemma mgr_ok_if: "mgr_ok M W s0 m \<Longrightarrow> mgr_ok M W s0 m' \<Longrightarrow> mgr_ok M W s0 (if b then m else m')"
  by simp

lemma peers_update_ok:
  assumes "mgr_ok M W s0 m" "p < length (mg_objs m)" "pr_version (peer_at m p) \<noteq> None" "pr_addr (peer_at m p) = a"
  shows "mgr_ok M W s0 (m\<lparr>mg_peers := AList.update a p (mg_peers m)\<rparr>)"
  using assms set_update_subset [of a p "mg_peers m"]
  by (auto simp: mgr_ok_def mgr_parts distinct_update split: prod.splits)

lemma register_ok:
  assumes ok: "mgr_ok M W s0 m" and p: "p < length (mg_objs m)" "pr_version (peer_at m p) \<noteq> None"
  shows "mgr_ok M W s0 (register_peer M' A p m)"
proof -
  let ?a = "pr_addr (peer_at m p)"
  define m1 where "m1 = (recordConnectSuccess ?a m)\<lparr>mg_nextPeerID := mg_nextPeerID (recordConnectSuccess ?a m) + 1\<rparr>"
  define m2 where "m2 = upd_peer p (SetID (mg_nextPeerID m1)) m1"
  define m3 where "m3 = (if ?a \<in> mg_manualPeers m2 then upd_peer p (SetConnType ''manual'') m2 else m2)"
  have m1: "mgr_ok M W s0 m1" "mg_objs m1 = mg_objs m" using ok by (simp_all add: m1_def recordConnectSuccess_def)
  have m2: "mgr_ok M W s0 m2" "length (mg_objs m2) = length (mg_objs m)" "peer_at m2 p = SetID (mg_nextPeerID m1) (peer_at m p)"
    using m1 p mgr_harmless [OF m1(1), of "SetID (mg_nextPeerID m1)" p] by (simp_all add: m2_def) (simp add: peer_at_def)
  have m3: "mgr_ok M W s0 m3" "length (mg_objs m3) = length (mg_objs m)"
    "pr_version (peer_at m3 p) = pr_version (peer_at m p)" "pr_addr (peer_at m3 p) = ?a"
    using m2 p by (auto simp: m3_def SetID_def SetConnType_def intro!: mgr_harmless)
  have m4: "mgr_ok M W s0 (m3\<lparr>mg_peers := AList.update ?a p (mg_peers m3)\<rparr>)"
    by (rule peers_update_ok) (use m3 p in simp_all)
  show ?thesis
    unfolding register_peer_def Let_def m1_def [symmetric] m2_def [symmetric] m3_def [symmetric]
    by (simp only: mgr_ok_free mgr_ok_if mgr_send m4)
qed

end
