(* ===== verification/NetRun.thy ===== *)
theory NetRun
  imports NetInv
begin

text \<open>
  The running node. The connections of the manager from handshake to end and the rounds of the synchronisation loop keep the
  invariant of \<open>NetInv\<close>. \<open>net_runs\<close> is the transition system of the manager together with the chain, the mempool, the
  header index, the scheduler and the clock it drives: its steps are the rounds of all goroutines of the manager, in any
  order, on any bytes from the network, and the calls from the miner and the RPC server.
\<close>

section \<open>The handshake\<close>

definition mgr_at :: "('s, 'p, 'sig, 'pk, 'sk) mgr_env \<Rightarrow> Block set \<Rightarrow> 's \<Rightarrow> pptr \<Rightarrow> ('s, 'p) Manager \<Rightarrow> bool" where
  "mgr_at M W s0 p m \<longleftrightarrow> mgr_ok M W s0 m \<and> p < length (mg_objs m)"

definition mgr_met :: "('s, 'p, 'sig, 'pk, 'sk) mgr_env \<Rightarrow> Block set \<Rightarrow> 's \<Rightarrow> pptr \<Rightarrow> ('s, 'p) Manager \<Rightarrow> bool" where
  "mgr_met M W s0 p m \<longleftrightarrow> mgr_at M W s0 p m \<and> pr_version (peer_at m p) \<noteq> None"

lemma read_from_ok:
  "preserves (mgr_at M W s0 p) (read_from A p err bs)" "preserves (mgr_met M W s0 p) (read_from A p err bs)"
proof -
  have keep: "pr_version q = pr_version (peer_at m p)"
    if "mgr_at M W s0 p m" "ReadMessage now bs (peer_at m p) = Inr (hdr, payload, rest, q)" for m now hdr payload rest q
    using that harmless_results(9) [of "peer_at m p" now bs hdr payload rest q]
    by (auto simp: mgr_at_def mgr_ok_def mgr_parts)
  have 1: "preserves_from (mgr_at M W s0 p) m (read_from A p err bs)" if "mgr_at M W s0 p m" for m
    unfolding read_from_def using that by (intro pf_intro) (auto simp: mgr_at_def intro: throttle_ok(6))
  show "preserves (mgr_at M W s0 p) (read_from A p err bs)" by (rule preservesI) (rule 1)
  have 2: "preserves_from (mgr_met M W s0 p) m (read_from A p err bs)" if "mgr_met M W s0 p m" for m
    unfolding read_from_def using that
    by (intro pf_intro) (auto simp: mgr_met_def keep mgr_at_def intro: throttle_ok(6))
  show "preserves (mgr_met M W s0 p) (read_from A p err bs)" by (rule preservesI) (rule 2)
qed

lemma add_sample_ok: "mgr_ok M W s0 m \<Longrightarrow> mgr_ok M W s0 (m\<lparr>mg_timeSampler := map_option (AddSample a t n) (mg_timeSampler m)\<rparr>)"
  by (auto simp: mgr_ok_def mgr_parts intro: clock_runs.add)

lemma mgr_met_version: "mgr_at M W s0 p m \<Longrightarrow> mgr_met M W s0 p (upd_peer p (SetVersion (Some v)) m)"
  using mgr_harmless [of M W s0 m "SetVersion (Some v)" p] by (simp add: mgr_met_def mgr_at_def) (simp add: SetVersion_def)

lemma mgr_met_sample: "mgr_met M W s0 p m \<Longrightarrow> mgr_met M W s0 p (m\<lparr>mg_timeSampler := map_option (AddSample a t n) (mg_timeSampler m)\<rparr>)"
  by (auto simp: mgr_met_def mgr_at_def add_sample_ok peer_at_def)

lemma mgr_met_at: "mgr_met M W s0 p m \<Longrightarrow> mgr_at M W s0 p m"
  by (simp add: mgr_met_def)

lemma version_exchange:
  "triple (mgr_at M W s0 p) (readAndProcessVersion M' A p bs) (\<lambda>_. mgr_met M W s0 p) (\<lambda>_. mgr_at M W s0 p)"
  unfolding readAndProcessVersion_def
proof (rule triple_bind [OF read_from_ok(1) [unfolded preserves_def]])
  fix x :: "bytes \<times> bytes \<times> bytes"
  obtain cmd payload rest where x: "x = (cmd, payload, rest)" using prod_cases3 by blast
  have set_version: "triple (mgr_at M W s0 p) (sbind (supd (upd_peer p (SetVersion (Some v)))) (\<lambda>_.
      sbind (supd (\<lambda>m. if vm_Timestamp v = 0 then m
         else m\<lparr>mg_timeSampler := map_option (AddSample (pr_addr (peer_at m p)) (sint (vm_Timestamp v)) (unix_time (at_now A))) (mg_timeSampler m)\<rparr>))
       (\<lambda>_. sret rest))) (\<lambda>_. mgr_met M W s0 p) (\<lambda>_. mgr_at M W s0 p)" for v
    by (rule triple_bind [where Q = "\<lambda>_. mgr_met M W s0 p"], rule triple_mod, erule mgr_met_version,
        rule triple_bind [where Q = "\<lambda>_. mgr_met M W s0 p"], rule triple_mod) (auto intro: mgr_met_sample triple_ret)
  show "triple (mgr_at M W s0 p) (case x of (cmd, payload, rest) \<Rightarrow>
      if cmd \<noteq> str_bytes ''version'' then sfail (ErrExpectedVersion cmd)
      else (case VersionMsg_Decode payload of
             Inl e \<Rightarrow> sfail (ErrDecodeVersion e)
           | Inr (theirVersion, _) \<Rightarrow>
               if vm_Nonce theirVersion = me_localNonce M' then sfail ErrSelfConnection
               else if vm_Version theirVersion < MinPeerProtoVersion then sfail (ErrProtoVersion (vm_Version theirVersion))
               else if vm_StartHeight theirVersion > MaxPeerStartHeight then sfail (ErrStartHeight (vm_StartHeight theirVersion))
               else sbind (supd (upd_peer p (SetVersion (Some theirVersion)))) (\<lambda>_.
                 sbind (supd (\<lambda>m.
                   if vm_Timestamp theirVersion = 0 then m
                   else m\<lparr>mg_timeSampler := map_option
                     (AddSample (pr_addr (peer_at m p)) (sint (vm_Timestamp theirVersion)) (unix_time (at_now A))) (mg_timeSampler m)\<rparr>)) (\<lambda>_.
                   sret rest))))
    (\<lambda>_. mgr_met M W s0 p) (\<lambda>_. mgr_at M W s0 p)"
    unfolding x by (auto intro: triple_fail set_version split: sum.split)
qed

lemma read_verack_ok: "preserves (mgr_met M W s0 p) (read_verack A p bs)"
  unfolding read_verack_def by (intro preserves_intro read_from_ok)

lemma send_ok: "preserves I (sendVersion M A p)" "preserves I (sendVerack M A)"
  unfolding sendVersion_def sendVerack_def by (intro preserves_intro)+

lemma preserves_ignore: "preserves I m \<Longrightarrow> (\<And>c. I c \<Longrightarrow> J c) \<Longrightarrow> triple I m (\<lambda>_. I) (\<lambda>_. J)"
  unfolding preserves_def by (rule triple_weaken)

lemma handshake_ok: "triple (mgr_at M W s0 p) (handshake M' A p bs) (\<lambda>_. mgr_met M W s0 p) (\<lambda>_. mgr_at M W s0 p)"
proof -
  note met = preserves_ignore [OF _ mgr_met_at]
  have i: "triple (mgr_at M W s0 p) (handshakeInbound M' A p bs) (\<lambda>_. mgr_met M W s0 p) (\<lambda>_. mgr_at M W s0 p)"
    unfolding handshakeInbound_def
    by (intro triple_bind [OF version_exchange] triple_bind [OF met [OF send_ok(1)]] triple_bind [OF met [OF send_ok(2)]]
        triple_bind [OF met [OF read_verack_ok]] triple_ret)
  have o: "triple (mgr_at M W s0 p) (handshakeOutbound M' A p bs) (\<lambda>_. mgr_met M W s0 p) (\<lambda>_. mgr_at M W s0 p)"
    unfolding handshakeOutbound_def
    by (intro triple_bind [OF send_ok(1) [unfolded preserves_def]] triple_bind [OF version_exchange] triple_bind [OF met [OF read_verack_ok]]
        triple_bind [OF met [OF send_ok(2)]] triple_ret)
  show ?thesis unfolding handshake_def
    by (rule triple_with) (auto intro: triple_pre [OF _ i] triple_pre [OF _ o])
qed

section \<open>Connections\<close>

lemma handlePeer_start_ok:
  assumes "mgr_at M W s0 p m" "handlePeer_start M' A p bs m = Some (r, m')"
  shows "mgr_ok M W s0 m'"
proof (cases "handshake M' A p bs m")
  case (Some r1)
  then obtain o1 m1 where h: "handshake M' A p bs m = Some (o1, m1)" by (cases r1) auto
  note t = tripleD [OF handshake_ok assms(1) h]
  show ?thesis
  proof (cases o1)
    case (Inl e)
    then show ?thesis using t assms(2) by (auto simp: handlePeer_start_def h mgr_at_def Let_def intro!: disconnect_ok mgr_ok_if)
  next
    case (Inr x)
    then show ?thesis using t assms(2) by (auto simp: handlePeer_start_def h mgr_met_def mgr_at_def intro!: register_ok)
  qed
qed (use assms(2) in \<open>simp add: handlePeer_start_def\<close>)

lemma rate_limit_ok:
  assumes "mgr_ok M W s0 m" "rate_limit M' A p cmd m = (go, m')"
  shows "mgr_ok M W s0 m'"
proof -
  obtain b q where q: "CheckRateLimit (at_now A) (peer_at m p) = (b, q)" by fastforce
  show ?thesis using assms(2) throttle_ok(4) [OF assms(1) q]
    by (auto simp: rate_limit_def q Let_def intro: addMisbehavior_ok split: if_splits)
qed

lemma recovered_ok: "preserves_from (mgr_ok M W s0) m f \<Longrightarrow> preserves_from (mgr_ok M W s0) m (recovered M' A p f)"
  unfolding preserves_from_def recovered_def
  by (auto split: option.splits sum.splits mgr_error.splits intro!: disconnect_ok addMisbehavior_ok)

text \<open>A round of the loop of \<^verbatim>\<open>handlePeer\<close> on a message whose payload, when it holds a block, holds one of \<open>W\<close>.\<close>

definition stream_in :: "Block set \<Rightarrow> bytes \<Rightarrow> bool" where
  "stream_in W bs \<longleftrightarrow> (\<forall>now pr hdr payload rest pr'. ReadMessage now bs pr = Inr (hdr, payload, rest, pr') \<longrightarrow> payload_in W payload)"

lemma handlePeer_round_ok:
  assumes ok: "mgr_ok M W s0 m" and bs: "stream_in W bs"
  shows "preserves_from (mgr_ok M W s0) m (handlePeer_round M A p bs)"
proof -
  have ended: "preserves_from (mgr_ok M W s0) m' (sbind (supd (disconnect M A p)) (\<lambda>_. sret None))"
    if "mgr_ok M W s0 m'" for m' and A using that by (intro pf_intro disconnect_ok)
  have "preserves_from (mgr_ok M W s0) m (let (go, m') = rate_limit M A p (CommandString hdr) (upd_peer p (\<lambda>_. pr) m) in
      sbind (supd (\<lambda>_. m')) (\<lambda>_. if \<not> go then sbind (supd (disconnect M A p)) (\<lambda>_. sret None)
        else sbind (handleMessage M A p (CommandString hdr) payload) (\<lambda>_. sret (Some rest))))"
    if r: "ReadMessage (at_now A) bs (peer_at m p) = Inr (hdr, payload, rest, pr)" for hdr payload rest pr
  proof -
    have pay: "payload_in W payload" using bs r unfolding stream_in_def by blast
    note ok' = rate_limit_ok [OF throttle_ok(6) [OF ok r]]
    show ?thesis
      by (intro pf_Let pf_prod pf_bind_upd pf_if ended pf_bind [OF pf_run [OF handleMessage_ok [OF pay]]] preserves_basic)
        (auto dest: ok')
  qed
  then show ?thesis unfolding handlePeer_round_def Let_def
    by (intro recovered_ok pf_with pf_if ended pf_sum pf_prod) (auto simp: ok intro: ended)
qed

section \<open>The synchronisation loop\<close>

lemma transition_ok [simp]: "mgr_ok M W s0 (transitionSyncState st m) = mgr_ok M W s0 m"
  by (simp add: transitionSyncState_def)

lemma start_header_sync_ok [simp]: "mgr_ok M W s0 (start_header_sync A p m) = mgr_ok M W s0 m"
  by (simp add: start_header_sync_def)

lemma IBD_ok: "mgr_ok M W s0 m \<Longrightarrow> isInitialBlockDownload M' A m = (b, m') \<Longrightarrow> mgr_ok M W s0 m'"
  by (auto simp: isInitialBlockDownload_def Let_def split: if_splits)

lemma use_scheduler_ok [mgr_step]:
  "mgr_ok M W s0 m \<Longrightarrow> mgr_ok M W s0 (use_scheduler m)" "mgr_ok M W s0 m \<Longrightarrow> mgr_ok M W s0 (to_parallel A m)"
  unfolding to_parallel_def use_scheduler_def by (auto intro!: mgr_sched sched_ok_new)

lemma start_block_sync_ok [mgr_step]: "mgr_ok M W s0 m \<Longrightarrow> mgr_ok M W s0 (start_block_sync A m)"
  unfolding start_block_sync_def Let_def by (auto intro!: mgr_step split: option.split)

lemma request_all_ok: "preserves (mgr_ok M W s0) (request_all A)"
  unfolding request_all_def by (intro preserves_with preserves_for_each requestBlocks_ok)

lemmas requests_pf = pf_run [OF requestBlocks_ok] pf_run [OF requestHeaders_ok] pf_run [OF request_all_ok]

lemma sync_initial_ok: "preserves (mgr_ok M W s0) (handleSyncInitial M A)"
  unfolding handleSyncInitial_def Let_def
  by (rule preservesI, intro pf_intro requests_pf) (auto dest: IBD_ok)

lemma header_tick_ok: "preserves (mgr_ok M W s0) (handleHeaderSyncTick A)"
proof -
  have pick: "preserves (mgr_ok M W s0) (pick_header_peer A)"
    unfolding pick_header_peer_def by (rule preservesI, intro pf_intro requests_pf) simp_all
  have stall: "preserves (mgr_ok M W s0) (header_stall A p)" for p
    unfolding header_stall_def by (rule preservesI, intro pf_intro requests_pf) (auto intro!: mgr_step)
  show ?thesis unfolding handleHeaderSyncTick_def Let_def
    by (rule preservesI, intro pf_intro pf_run [OF pick] pf_run [OF stall]) (auto intro!: mgr_step)
qed

lemma fast_requests_ok: "mgr_ok M W s0 m \<Longrightarrow> fast_requests n A p m = Some m' \<Longrightarrow> mgr_ok M W s0 m'"
proof (induction n arbitrary: m)
  case (Suc n)
  then show ?case by (auto simp: Let_def mgr_send split: if_splits elim!: Suc.IH [rotated])
qed simp

lemma fast_batch_room: "fast_batch m \<noteq> [] \<Longrightarrow> mg_fastSyncInFlight m < 1000"
  by (auto simp: fast_batch_def Let_def split: if_splits)

text \<open>The fuel of the fast path is enough.\<close>

lemma fast_requests_return: "nat (1000 - mg_fastSyncInFlight m) < n \<Longrightarrow> \<exists>m'. fast_requests n A p m = Some m'"
proof (induction n arbitrary: m)
  case (Suc n)
  show ?case
  proof (cases "fast_batch m = []")
    case False
    then have "1 \<le> length (fast_batch m)" by (cases "fast_batch m") simp_all
    with fast_batch_room [OF False] Suc.prems have "nat (1000 - (mg_fastSyncInFlight m + int (length (fast_batch m)))) < n" by linarith
    with False show ?thesis by (simp add: Let_def Suc.IH)
  qed simp
qed simp

lemma fast_tick_ok: "preserves (mgr_ok M W s0) (handleFastSyncTick A)"
  unfolding handleFastSyncTick_def Let_def
  by (rule preservesI, intro pf_intro) (auto intro!: mgr_step dest: fast_requests_ok simp del: fast_requests.simps)

lemma legacy_ok: "preserves (mgr_ok M W s0) (handleLegacyBlockSync A)"
  unfolding handleLegacyBlockSync_def Let_def
  by (rule preservesI, intro pf_intro requests_pf) simp_all

lemma on_scheduler_ok:
  "mgr_ok M W s0 m \<Longrightarrow> (\<And>s. sched_ok W s \<Longrightarrow> sched_ok W (f s)) \<Longrightarrow> mgr_ok M W s0 (on_scheduler f m)"
  unfolding on_scheduler_def by (rule mgr_sched) (auto dest: mgr_sched_ok)

lemma connect_staged_ok:
  assumes "sb_Block st \<in> W"
  shows "preserves (mgr_ok M W s0) (connect_staged M A st)"
  unfolding connect_staged_def Let_def
proof (rule preserves_bind [OF on_chain_process(1) [OF assms]])
  fix r :: "chain_error + u32"
  let ?b = "sb_Block st"
  let ?h = "HashBlockHeader (blk_Header ?b)"
  have requeue: "mgr_ok M W s0 ((on_scheduler (RequeueBlock ?h 0) m)\<lparr>mg_seenBlocks := hashset_Remove ?h (mg_seenBlocks m)\<rparr>)"
    if ok: "mgr_ok M W s0 m" for m
    using on_scheduler_ok [OF ok sched_ok_requeue] mgr_seen_ok(1) [OF ok] by (auto intro!: mgr_seen)
  show "preserves (mgr_ok M W s0) (case r of
          Inl e \<Rightarrow>
            if is_side_chain e then sret ()
            else if says_known (at_io A) e then sret ()
            else sbind (supd (\<lambda>m. (on_scheduler (RequeueBlock ?h 0) m)\<lparr>mg_seenBlocks := hashset_Remove ?h (mg_seenBlocks m)\<rparr>)) (\<lambda>_.
              swith (\<lambda>m. case map_of (mg_peers m) (sb_PeerAddr st) of
                  None \<Rightarrow> sret ()
                | Some p \<Rightarrow> if says_invalid (at_io A) e then supd (addMisbehavior M A p 100) else sret ()))
        | Inr height \<Rightarrow>
            supd (\<lambda>m. remove_confirmed ?b (on_scheduler (UpdateNextConnectHeight height) (NotifyBlockAccepted (blk_Header ?b) m))))"
    by (rule preservesI, intro pf_intro) (auto intro!: requeue mgr_step on_scheduler_ok sched_ok_advance)
qed

lemma block_progress_ok [mgr_step]: "mgr_ok M W s0 m \<Longrightarrow> mgr_ok M W s0 (block_progress A m)"
  unfolding block_progress_def Let_def
  by (auto intro!: mgr_step on_scheduler_ok sched_ok_reset split: option.split)

lemma block_tick_ok: "preserves (mgr_ok M W s0) (handleBlockSyncTick M A order)"
proof (rule preservesI)
  fix m :: "('a, 'b) Manager"
  assume ok: "mgr_ok M W s0 m"
  let ?drain = "\<lambda>s. DrainReady (mg_headerIndex m) (\<lambda>s. at_hashes A (map fst (sc_staging s))) s"
  have run: "preserves_from (mgr_ok M W s0) m
     (sbind (supd (\<lambda>m. m\<lparr>mg_blockScheduler := Some s2\<rparr>)) (\<lambda>_.
      sbind (for_each (connect_staged M A) ready) (\<lambda>_.
      sbind (supd (block_progress A)) (\<lambda>_.
      sbind (supd (\<lambda>m. fold (assign_to A) (order (map snd (at_range A (mg_peers m)))) m)) (\<lambda>_.
        supd (\<lambda>m. case mg_blockScheduler m of None \<Rightarrow> m | Some s \<Rightarrow> if IsComplete s then transitionSyncState SyncStateSynced m else m))))))"
    if s: "mg_blockScheduler m = Some s" and t: "HandleTimeout (at_now A) (at_hashes A (map fst (sc_inFlight s))) s = (timedOut, s1)"
      and d: "?drain s1 = (ready, s2)" for s timedOut s1 ready s2
  proof -
    note s1 = sched_ok_timeout [OF mgr_sched_ok [OF ok s] t]
    note s2 = sched_ok_drain [OF s1 d]
    have "preserves (mgr_ok M W s0) (for_each (connect_staged M A) ready)"
      by (rule preserves_for_each, rule connect_staged_ok) (use s2(2) in blast)
    then show ?thesis
      by (intro pf_bind_upd pf_bind [OF pf_run] preserves_intro preserves_upd mgr_sched [OF ok])
        (auto intro!: s2(1) mgr_step fold_ok split: option.split)
  qed
  show "preserves_from (mgr_ok M W s0) m (handleBlockSyncTick M A order)"
    unfolding handleBlockSyncTick_def Let_def
    by (intro pf_with pf_if pf_option pf_prod run pf_run [OF fast_tick_ok] pf_run [OF legacy_ok] ok)
qed

lemma synced_tick_ok: "preserves (mgr_ok M W s0) (handleSyncedTick M' A)"
proof -
  have "mgr_ok M W s0 (m\<lparr>mg_blockScheduler := None\<rparr>)" if "mgr_ok M W s0 m" for m using that by (rule mgr_sched) simp
  then show ?thesis unfolding handleSyncedTick_def Let_def
    by (intro preserves_intro preserves_upd request_all_ok) auto
qed

lemma sync_tick_ok: "preserves (mgr_ok M W s0) (sync_tick M A order)"
proof -
  have ibd: "preserves (mgr_ok M W s0) (supd (\<lambda>m. m\<lparr>mg_chain := SetIBDMode (me_chain M) b (mg_chain m)\<rparr>))" for b
    by (rule preserves_upd) (auto intro: mgr_chain chain_runs.ibd mgr_chain_ok)
  have tick: "preserves (mgr_ok M W s0) (case st of
              SyncStateInitial \<Rightarrow> handleSyncInitial M A
            | SyncStateHeaderSync \<Rightarrow> handleHeaderSyncTick A
            | SyncStateBlockSync \<Rightarrow> handleBlockSyncTick M A order
            | SyncStateSynced \<Rightarrow> handleSyncedTick M A)" for st
    by (cases st) (simp_all add: sync_initial_ok header_tick_ok block_tick_ok synced_tick_ok)
  show ?thesis unfolding sync_tick_def Let_def
    by (intro preserves_intro tick ibd drainIBDQueue_ok preserves_upd) simp
qed

lemma expiry_ok [mgr_step]:
  "mgr_ok M W s0 m \<Longrightarrow> mgr_ok M W s0 (orphan_eviction_tick A m)" "mgr_ok M W s0 m \<Longrightarrow> mgr_ok M W s0 (mempool_expiry_tick M A order m)"
  unfolding orphan_eviction_tick_def mempool_expiry_tick_def
  by (auto intro: mgr_chain mgr_pool chain_runs.evict mempool_runs.expire mgr_chain_ok mgr_pool_ok)

section \<open>The transition system\<close>

text \<open>Each rule is one round of a goroutine, or one call from the miner or the RPC server. \<open>start\<close>: the node begins on a
  chain and a mempool that ran by themselves. \<open>handshake\<close> and \<open>message\<close>: a connection delivers any bytes. The set \<open>W\<close> holds the blocks in
  play; with all blocks for \<open>W\<close> it restricts nothing.\<close>

inductive net_runs :: "('s, 'p, 'sig, 'pk, 'sk) mgr_env \<Rightarrow> Block set \<Rightarrow> 's \<Rightarrow> ('s, 'p) Manager \<Rightarrow> bool" for M W s0 where
  start: "chain_runs (me_chain M) W s0 c \<Longrightarrow> mempool_runs (ce_lib (me_chain M)) (ce_params (me_chain M)) mp \<Longrightarrow>
    (\<forall>t. ts = Some t \<longrightarrow> clock_runs t) \<Longrightarrow> net_runs M W s0 (NewManager M c mp ps ts)"
| accept: "net_runs M W s0 m \<Longrightarrow> accept_conn M A remote m = Some (r, pause, m') \<Longrightarrow> net_runs M W s0 m'"
| accept_later: "net_runs M W s0 m \<Longrightarrow> accept_after_pause M A remote m = (r, m') \<Longrightarrow> net_runs M W s0 m'"
| connect: "net_runs M W s0 m \<Longrightarrow> connectPeer M A dial addr m = (r, m') \<Longrightarrow> net_runs M W s0 m'"
| seeds: "net_runs M W s0 m \<Longrightarrow> connectSeeds M A dial m = (ps, m') \<Longrightarrow> net_runs M W s0 m'"
| reconnect: "net_runs M W s0 m \<Longrightarrow> reconnect_tick M A dial m = (ps, m') \<Longrightarrow> net_runs M W s0 m'"
| handshake: "net_runs M W s0 m \<Longrightarrow> p < length (mg_objs m) \<Longrightarrow> handlePeer_start M A p bs m = Some (x, m') \<Longrightarrow> net_runs M W s0 m'"
| message: "net_runs M W s0 m \<Longrightarrow> stream_in W bs \<Longrightarrow> handlePeer_round M A p bs m = Some (x', m') \<Longrightarrow> net_runs M W s0 m'"
| send_out: "net_runs M W s0 m \<Longrightarrow> net_runs M W s0 (upd_peer p (\<lambda>pr. snd (WriteLoop_round ok (at_now A) pr)) m)"
| liveness: "net_runs M W s0 m \<Longrightarrow> net_runs M W s0 (liveness_tick A m)"
| ping: "net_runs M W s0 m \<Longrightarrow> net_runs M W s0 (ping_tick A m)"
| gossip: "net_runs M W s0 m \<Longrightarrow> net_runs M W s0 (addr_broadcast_tick M A m)"
| sync: "net_runs M W s0 m \<Longrightarrow> sync_tick M A order m = Some (y, m') \<Longrightarrow> net_runs M W s0 m'"
| ibd_worker: "net_runs M W s0 m \<Longrightarrow> ibd_step M A m = Some (y, m') \<Longrightarrow> net_runs M W s0 m'"
| evict_orphans: "net_runs M W s0 m \<Longrightarrow> net_runs M W s0 (orphan_eviction_tick A m)"
| expire_txs: "net_runs M W s0 m \<Longrightarrow> net_runs M W s0 (mempool_expiry_tick M A rng m)"
| add_node: "net_runs M W s0 m \<Longrightarrow> AddNode A addr m = (e, m') \<Longrightarrow> net_runs M W s0 m'"
| disconnect_node: "net_runs M W s0 m \<Longrightarrow> DisconnectNode addr m = (e, m') \<Longrightarrow> net_runs M W s0 m'"
| stop: "net_runs M W s0 m \<Longrightarrow> net_runs M W s0 (Stop A m)"
| local_block: "net_runs M W s0 m \<Longrightarrow> b \<in> W \<Longrightarrow> on_chain (ProcessBlock (me_chain M) clk b) m = Some (z, m') \<Longrightarrow> net_runs M W s0 m'"
| local_tx: "net_runs M W s0 m \<Longrightarrow> AddTx (ce_lib (me_chain M)) (ce_params (me_chain M)) env tx (mg_mempool m) = Some (t, mp') \<Longrightarrow>
    net_runs M W s0 (m\<lparr>mg_mempool := mp'\<rparr>)"
| confirmed: "net_runs M W s0 m \<Longrightarrow> net_runs M W s0 (remove_confirmed b m)"
| announce: "net_runs M W s0 m \<Longrightarrow> net_runs M W s0 (BroadcastBlock A h b m)"
| announce_tx: "net_runs M W s0 m \<Longrightarrow> net_runs M W s0 (BroadcastTx A h m)"
| accepted: "net_runs M W s0 m \<Longrightarrow> net_runs M W s0 (NotifyBlockAccepted hdr m)"

lemma mgr_ok_new:
  assumes "chain_runs (me_chain M) W s0 c" "mempool_runs (ce_lib (me_chain M)) (ce_params (me_chain M)) mp" "\<forall>t. ts = Some t \<longrightarrow> clock_runs t"
  shows "mgr_ok M W s0 (NewManager M c mp ps ts)"
  using assms by (simp add: mgr_ok_def mgr_parts NewManager_def hs_ok_new)

lemma harmless_write: "harmless (\<lambda>pr. snd (WriteLoop_round ok now pr))"
  by (auto simp: harmless_def peer_ok_def WriteLoop_round_def Peer_Close_def stampSend_def Let_def split: list.splits prod.splits)

lemma net_runs_ok: "net_runs M W s0 m \<Longrightarrow> mgr_ok M W s0 m"
proof (induction rule: net_runs.induct)
  case (handshake m p A bs x m')
  then show ?case using handlePeer_start_ok [of M W s0 p m M A bs x m'] by (simp add: mgr_at_def)
next
  case (message m bs A p x' m')
  then show ?case using handlePeer_round_ok [of M W s0 m bs A p] by (auto simp: preserves_from_def)
next
  case (local_tx m env tx t mp')
  then show ?case by (auto intro: mgr_pool mempool_runs.add mgr_pool_ok)
qed (auto intro: mgr_ok_new mgr_step harmless_write ticks_ok accept_conn_ok accept_after_pause_ok connectPeer_ok seeds_ok
    preservesD [OF sync_tick_ok] preservesD [OF ibd_step_ok] preservesD [OF on_chain_process(1)])

end
