(* ===== verification/Discovery.thy ===== *)
theory Discovery
  imports Manager
begin

text \<open>
  Peer discovery (\<^verbatim>\<open>internal/p2p/discovery/discovery.go\<close>): the addresses to connect to first, from the seeds and the peer store.
\<close>

record 'p Discovery =
  di_peerStore :: 'p
  di_seeds :: "string list"

definition Discovery_New :: "'p \<Rightarrow> string list \<Rightarrow> 'p Discovery" where
  "Discovery_New ps seeds = \<lparr>di_peerStore = ps, di_seeds = seeds\<rparr>"

primrec dedup_loop :: "string set \<Rightarrow> string list \<Rightarrow> string list \<Rightarrow> string list" where
  "dedup_loop seen result [] = result"
| "dedup_loop seen result (a # as) =
     (if a \<in> seen then dedup_loop seen result as else dedup_loop (insert a seen) (result @ [a]) as)"

definition deduplicate :: "string list \<Rightarrow> string list" where
  "deduplicate addrs = dedup_loop {} [] addrs"

definition Bootstrap :: "'p PeerStore \<Rightarrow> 'p Discovery \<Rightarrow> string list" where
  "Bootstrap P d =
     deduplicate (di_seeds d @ (case ps_GetPeers P (di_peerStore d) of None \<Rightarrow> [] | Some stored \<Rightarrow> stored))"

definition Discovery_AddPeer :: "'p PeerStore \<Rightarrow> string \<Rightarrow> 'p Discovery \<Rightarrow> 'p Discovery" where
  "Discovery_AddPeer P addr d = d\<lparr>di_peerStore := ps_PutPeer P addr (di_peerStore d)\<rparr>"

definition Discovery_RemovePeer :: "'p PeerStore \<Rightarrow> string \<Rightarrow> 'p Discovery \<Rightarrow> 'p Discovery" where
  "Discovery_RemovePeer P addr d = d\<lparr>di_peerStore := ps_RemovePeer P addr (di_peerStore d)\<rparr>"

lemma dedup_loop_spec:
  "distinct result \<Longrightarrow> set result = seen \<Longrightarrow>
   distinct (dedup_loop seen result as) \<and> set (dedup_loop seen result as) = seen \<union> set as"
proof (induction as arbitrary: seen result)
  case (Cons a as)
  then show ?case using Cons.IH [of result seen] Cons.IH [of "result @ [a]" "insert a seen"] by auto
qed simp

text \<open>The first addresses are those of the seeds and the store, each of them once; when the store cannot be read, those of the seeds.\<close>

lemma bootstrap_exact:
  "distinct (Bootstrap P d)"
  "set (Bootstrap P d) = set (di_seeds d) \<union> (case ps_GetPeers P (di_peerStore d) of None \<Rightarrow> {} | Some stored \<Rightarrow> set stored)"
  using dedup_loop_spec [of "[]" "{}"] by (auto simp: Bootstrap_def deduplicate_def split: option.split)

end
