(* ===== verification/NetProps.thy ===== *)
theory NetProps
  imports NetRun Discovery
begin

text \<open>
  The properties of the running node: what the network can and cannot do to it.
\<close>

section \<open>The states of the synchronisation\<close>

definition sync_edge :: "SyncState \<Rightarrow> SyncState \<Rightarrow> bool" where
  "sync_edge s t \<longleftrightarrow> s = t \<or> (s, t) \<in> {(SyncStateInitial, SyncStateHeaderSync), (SyncStateInitial, SyncStateBlockSync),
     (SyncStateInitial, SyncStateSynced), (SyncStateHeaderSync, SyncStateBlockSync), (SyncStateBlockSync, SyncStateSynced),
     (SyncStateSynced, SyncStateInitial)}"

named_theorems sync_kept "operations that leave the state of the synchronisation alone"

lemma fold_sync: "(\<And>x m. mg_syncState (f x m) = mg_syncState m) \<Longrightarrow> mg_syncState (fold f xs m) = mg_syncState m"
  by (induction xs arbitrary: m) simp_all

lemma try_each_sync: "mg_syncState (try_each A cmd payload ps m) = mg_syncState m"
  by (induction ps arbitrary: m) (simp_all split: prod.splits)

lemma sync_kept_ops [sync_kept]:
  "mg_syncState (send A p cmd payload m) = mg_syncState m" "mg_syncState (send_or_other A p cmd payload m) = mg_syncState m"
  "mg_syncState (requestOrphanParent A p h m) = mg_syncState m" "mg_syncState (remove_confirmed b m) = mg_syncState m"
  "mg_syncState (addMisbehavior M A p score m) = mg_syncState m" "mg_syncState (NotifyBlockAccepted hdr m) = mg_syncState m"
  "mg_syncState (on_scheduler f m) = mg_syncState m" "mg_syncState (scrub_seen hs m) = mg_syncState m"
  "mg_syncState (start_header_sync A p m) = mg_syncState m" "mg_syncState (use_scheduler m) = mg_syncState m"
  "mg_syncState (to_parallel A m) = mg_syncState m"
  by (simp_all add: send_def send_or_other_def try_each_sync requestOrphanParent_def remove_confirmed_def addMisbehavior_def BanPeer_def Let_def
      NotifyBlockAccepted_def on_scheduler_def scrub_seen_def start_header_sync_def use_scheduler_def to_parallel_def split: prod.splits)

lemma sync_kept_more [sync_kept]:
  "mg_syncState (block_accepted A p b h m) = mg_syncState m" "mg_syncState (block_progress A m) = mg_syncState m"
  "mg_syncState (assign_to A p m) = mg_syncState m"
  by (auto simp: block_accepted_def block_progress_def assign_to_def Let_def sync_kept split: prod.splits option.splits)

abbreviation (input) in_sync :: "(SyncState \<Rightarrow> bool) \<Rightarrow> ('s, 'p) Manager \<Rightarrow> bool" where "in_sync P \<equiv> (\<lambda>m. P (mg_syncState m))"

lemma on_chain_sync: "preserves (in_sync P) (on_chain f)"
  by (rule preservesI) (auto simp: preserves_from_def on_chain_def split: option.splits sum.splits prod.splits)

lemma requests_sync: "preserves (in_sync P) (requestBlocks A p)" "preserves (in_sync P) (requestHeaders A p)" "preserves (in_sync P) (request_all A)"
proof -
  show 1: "preserves (in_sync P) (requestBlocks A p)" for p
    unfolding requestBlocks_def by (rule preservesI) (auto intro!: pf_intro simp: sync_kept)
  show "preserves (in_sync P) (requestHeaders A p)"
    unfolding requestHeaders_def by (rule preservesI) (auto intro!: pf_intro simp: sync_kept)
  show "preserves (in_sync P) (request_all A)" unfolding request_all_def by (intro preserves_with preserves_for_each 1)
qed

lemma connect_staged_sync: "preserves (in_sync P) (connect_staged M A st)"
  unfolding connect_staged_def Let_def
  by (rule preserves_bind [OF on_chain_sync]) (intro preserves_intro preserves_upd; simp add: sync_kept)

lemma drain_sync: "preserves (in_sync P) (drainIBDQueue M A)"
proof -
  have item: "preserves (in_sync P) (processIBDBlock M A item)" for item and P :: "SyncState \<Rightarrow> bool"
    unfolding processIBDBlock_def Let_def
    by (intro preserves_intro on_chain_sync requests_sync preserves_upd; simp add: sync_kept)
  have step: "preserves (in_sync P) (ibd_step M A)"
    unfolding ibd_step_def by (rule preservesI, rule pf_with) (auto split: list.split intro!: pf_intro pf_run [OF item])
  show ?thesis unfolding drainIBDQueue_def by (intro preserves_intro preserves_for_each step)
qed

lemma fast_requests_sync: "fast_requests n A p m = Some m' \<Longrightarrow> mg_syncState m' = mg_syncState m"
proof (induction n arbitrary: m)
  case (Suc n)
  then show ?case by (auto simp: Let_def sync_kept split: if_splits dest!: Suc.IH)
qed simp

lemma sync_pf:
  assumes "\<And>m. mg_syncState (f m) = mg_syncState m"
  shows "preserves (in_sync P) (supd f)"
  by (rule preserves_upd) (simp add: assms)

lemmas requests_sync_pf = pf_run [OF requests_sync(1)] pf_run [OF requests_sync(2)] pf_run [OF requests_sync(3)]

lemma IBD_sync: "isInitialBlockDownload M A m = (b, m') \<Longrightarrow> mg_syncState m' = mg_syncState m"
  by (auto simp: isInitialBlockDownload_def Let_def split: if_splits)

lemma transition_sel [simp]: "mg_syncState (transitionSyncState s m) = s"
  by (simp add: transitionSyncState_def)

lemma initial_edges:
  "mg_syncState m = SyncStateInitial \<Longrightarrow> preserves_from (in_sync (sync_edge SyncStateInitial)) m (handleSyncInitial M A)"
  unfolding handleSyncInitial_def Let_def
  by (intro pf_intro requests_sync_pf) (auto simp: sync_edge_def sync_kept dest: IBD_sync)

lemma header_edges:
  assumes "mg_syncState m = SyncStateHeaderSync"
  shows "preserves_from (in_sync (sync_edge SyncStateHeaderSync)) m (handleHeaderSyncTick A)"
proof -
  have start: "mg_syncState (start_block_sync A m) = SyncStateBlockSync" for m :: "('s, 'p) Manager"
    by (simp add: start_block_sync_def Let_def)
  have pick: "preserves_from (in_sync (sync_edge SyncStateHeaderSync)) m' (pick_header_peer A)" if "mg_syncState m' = SyncStateHeaderSync" for m' :: "('s, 'p) Manager"
    unfolding pick_header_peer_def using that by (intro pf_intro requests_sync_pf) (auto simp: sync_edge_def sync_kept)
  have stall: "preserves_from (in_sync (sync_edge SyncStateHeaderSync)) m (header_stall A p)" for p
    unfolding header_stall_def using assms by (intro pf_intro requests_sync_pf) (auto simp: sync_edge_def sync_kept)
  show ?thesis unfolding handleHeaderSyncTick_def Let_def
    by (intro pf_intro pick stall) (auto simp: sync_edge_def start assms)
qed

lemma block_edges:
  assumes "mg_syncState m = SyncStateBlockSync"
  shows "preserves_from (in_sync (sync_edge SyncStateBlockSync)) m (handleBlockSyncTick M A order)"
proof -
  have fast: "preserves_from (in_sync (sync_edge SyncStateBlockSync)) m (handleFastSyncTick A)"
    unfolding handleFastSyncTick_def Let_def
    by (intro pf_intro) (auto simp: sync_edge_def sync_kept assms simp del: fast_requests.simps dest: fast_requests_sync)
  have legacy: "preserves_from (in_sync (sync_edge SyncStateBlockSync)) m (handleLegacyBlockSync A)"
    unfolding handleLegacyBlockSync_def Let_def using assms by (intro pf_intro requests_sync_pf) (auto simp: sync_edge_def sync_kept)
  have fin: "preserves (in_sync (sync_edge SyncStateBlockSync)) (supd (\<lambda>m :: ('s, 'p) Manager. case mg_blockScheduler m of None \<Rightarrow> m
      | Some s \<Rightarrow> if IsComplete s then transitionSyncState SyncStateSynced m else m))"
    by (rule preserves_upd) (auto simp: sync_edge_def split: option.split)
  show ?thesis unfolding handleBlockSyncTick_def Let_def
    by (intro pf_with pf_if pf_option pf_prod fast legacy pf_bind_upd pf_bind [OF pf_run [OF preserves_for_each]]
        preserves_intro connect_staged_sync sync_pf fin) (auto simp: assms sync_edge_def sync_kept fold_sync)
qed

lemma synced_edges:
  "mg_syncState m = SyncStateSynced \<Longrightarrow> preserves_from (in_sync (sync_edge SyncStateSynced)) m (handleSyncedTick M A)"
  unfolding handleSyncedTick_def Let_def
  by (intro pf_intro requests_sync_pf) (auto simp: sync_edge_def)


section \<open>A node\<close>

text \<open>A node on the file store of the chain's own example, for the witnesses.\<close>

definition net_env :: "(mem_store, unit, bytes, bytes, bytes) mgr_env" where
  "net_env = \<lparr>me_chain = fs_env, me_peerStore = \<lparr>ps_GetPeers = (\<lambda>_. None), ps_PutPeer = (\<lambda>_ _. ()), ps_RemovePeer = (\<lambda>_ _. ())\<rparr>, me_listenAddr = ''0.0.0.0:1'',
     me_maxInbound = 2, me_maxOutbound = 2, me_seedPeers = [], me_SeedNodes = [], me_connectOnly = [], me_noSeedNodes = True,
     me_localNonce = 1, me_userAgent = []\<rparr>"

definition net_moment :: moment where
  "net_moment = \<lparr>at_clk = \<lparr>clk_adjusted = 0, clk_now = 0\<rparr>, at_range = id, at_hashes = id, at_rand = (\<lambda>_. 0), at_pick = (\<lambda>_ _. True),
     at_freed = (\<lambda>_. 0), at_write = (\<lambda>_. True), at_io = [], at_lookup = (\<lambda>_. [])\<rparr>"

lemma net_env_sel [simp]: "me_chain net_env = fs_env" "me_connectOnly net_env = []" "me_maxInbound net_env = 2"
  by (simp_all add: net_env_def)

lemma net_moment_sel [simp]: "at_range net_moment = id" "at_clk net_moment = \<lparr>clk_adjusted = 0, clk_now = 0\<rparr>"
  by (simp_all add: net_moment_def)


section \<open>The ledger\<close>

text \<open>C5. The network cannot break the ledger. In every state the node reaches, whatever bytes its peers send, in
  whatever order connections, messages, ticks of the timers, mined blocks and calls from outside come, as long as no
  write of the storage has failed: there is a valid chain of blocks from the genesis block whose replay is the UTXO set, whose last block is the tip and
  whose work is the tip work; the mempool keeps its invariants; and the network time is within 70 minutes of the clock of the host.\<close>

theorem network_keeps_ledger:
  assumes "chain_world (me_chain M) healthy block_at undo_at W d wk" "bs_GetBlockIndex (ce_store (me_chain M)) s0 = Map.empty"
    and "net_runs M W s0 m" "healthy (ch_store (mg_chain m))"
  shows "(\<exists>bs. ledger (ce_lib (me_chain M)) (ce_params (me_chain M)) bs (ch_utxoSet (mg_chain m))
        \<and> ch_tipHash (mg_chain m) = HashBlockHeader (blk_Header (last bs)) \<and> Suc (unat (ch_tipHeight (mg_chain m))) = length bs
        \<and> ch_tipWork (mg_chain m) = sum_list (map (\<lambda>b. CalcBlockWeight (ce_engine (me_chain M)) (blk_Header b)) bs))
     \<and> pool_inv (ce_params (me_chain M)) (mg_mempool m)
     \<and> (\<forall>c. mg_timeSampler m = Some c \<longrightarrow> \<bar>ac_median c\<bar> \<le> 4200)"
proof -
  have ok: "mgr_ok M W s0 m" using assms(3) by (rule net_runs_ok)
  then have "chain_runs (me_chain M) W s0 (mg_chain m)" by (rule mgr_chain_ok)
  from chain_world.runs_ok [OF assms(1) this assms(2,4)] obtain bs
    where bs: "chain_world.chain_ok (me_chain M) block_at undo_at W d wk (mg_chain m) bs" by blast
  have "clock_ok c" if "mg_timeSampler m = Some c" for c
    using ok that by (auto simp: mgr_ok_def parts_ok_def intro: clock_runs_ok)
  moreover have "pool_inv (ce_params (me_chain M)) (mg_mempool m)" using mgr_pool_ok [OF ok] by (rule mempool_runs_inv)
  ultimately show ?thesis using chain_world.chain_ok_summary [OF assms(1) bs] by (auto simp: clock_ok_def)
qed

lemma net_start:
  "\<exists>m. net_runs net_env {zero_block} fs_new m \<and> fs_healthy (\<lambda>_. True) (ch_store (mg_chain m)) \<and> length (mg_objs m) = 1 \<and> pr_done (peer_at m 0)"
proof -
  obtain c where c: "chain_runs fs_env {zero_block} fs_new c" "fs_healthy (\<lambda>_. True) (ch_store c)" using fs_start by blast
  let ?m = "NewManager net_env c NewMempool () None"
  have m: "net_runs net_env {zero_block} fs_new ?m" by (rule net_runs.start) (simp_all add: c(1) mempool_runs.start)
  obtain p b m1 where a: "accept_conn net_env net_moment ''10.0.0.1:9'' ?m = Some (p, b, m1)" "mg_objs m1 = [NewPeer ''10.0.0.1:9'' True (par_NetworkMagic Regtest) 0]"
    "mg_chain m1 = c"
    by (auto simp: accept_conn_def IsBanned_def NewManager_def inbound_count_def new_conn_def)
  have m1: "net_runs net_env {zero_block} fs_new m1" using m a(1) by (rule net_runs.accept)
  have empty: "\<exists>e. ReadMessage now [] pr = Inl e" for now pr
    by (simp add: ReadMessage_def DecodeMessageHeader_def read_full_def)
  then have "stream_in {zero_block} []" unfolding stream_in_def by (metis sum.distinct(1))
  moreover obtain m2 where r: "handlePeer_round net_env net_moment 0 [] m1 = Some (Inr None, m2)" "m2 = disconnect net_env net_moment 0 m1"
    using empty [of 0 "peer_at m1 0"] a(2) by (auto simp: handlePeer_round_def recovered_def swith_def Let_def sbind_def supd_def sret_def peer_at_def NewPeer_def)
  ultimately have "net_runs net_env {zero_block} fs_new m2" using net_runs.message [OF m1] by blast
  moreover have "length (mg_objs m2) = 1 \<and> pr_done (peer_at m2 0) \<and> mg_chain m2 = c"
    using a(2,3) by (simp add: r(2) disconnect_def upd_peer_def peer_at_def Peer_Close_def Let_def)
  ultimately show ?thesis using c(2) by auto
qed

theorem network_keeps_ledger_witness:
  "\<exists>m bs. net_runs net_env {zero_block} fs_new m \<and> length (mg_objs m) = 1 \<and> ledger demo_lib Regtest bs (ch_utxoSet (mg_chain m))
     \<and> Suc (unat (ch_tipHeight (mg_chain m))) = length bs"
proof -
  obtain m where "net_runs net_env {zero_block} fs_new m" "fs_healthy (\<lambda>_. True) (ch_store (mg_chain m))" "length (mg_objs m) = 1"
    using net_start by blast
  with network_keeps_ledger [of net_env, unfolded net_env_sel, OF fs_chain.chain_world_axioms fs_new_index(1), of m] show ?thesis by auto
qed

section \<open>The manager\<close>


lemma chain_runs_mono: "chain_runs E W s0 c \<Longrightarrow> W \<subseteq> W' \<Longrightarrow> chain_runs E W' s0 c"
  by (induction rule: chain_runs.induct) (auto intro: chain_runs.intros)


section \<open>Bans\<close>

text \<open>C18. Bans take effect. When the score of a peer that is not on the connect-only list reaches the threshold, the peer is closed, and for 24 hours every
  address with its host is refused: an incoming connection is dropped, an outgoing one is not made, and \<^verbatim>\<open>AddNode\<close> fails. After
  that time the host is no longer banned.\<close>

theorem ban_enforced:
  assumes "p < length (mg_objs m)" "pr_addr (peer_at m p) \<notin> set (me_connectOnly M)" "BanThreshold \<le>s fst (AddBanScore score (peer_at m p))"
    and "extractIP addr = extractIP (pr_addr (peer_at m p))" "m' = addMisbehavior M A p score m"
  shows "pr_done (peer_at m' p)
     \<and> (at_now B \<le> at_now A + BanDuration \<longrightarrow> accept_conn M B addr m' = Some (None, False, m') \<and> connectPeer M B dial addr m' = (None, m')
          \<and> isl (fst (AddNode B addr m')))
     \<and> (at_now B > at_now A + BanDuration \<longrightarrow> \<not> fst (IsBanned B addr m'))"
proof -
  obtain w q where q: "AddBanScore score (peer_at m p) = (w, q)" by fastforce
  have addr: "pr_addr q = pr_addr (peer_at m p)" using q by (auto simp: AddBanScore_def)
  have m': "m' = upd_peer p Peer_Close (BanPeer A (pr_addr q) (upd_peer p (\<lambda>_. q) m))"
    using assms(2,3,5) q by (simp add: addMisbehavior_def)
  have ban: "mg_banned m' (extractIP addr) = Some (at_now A + BanDuration)" using assms(4) by (simp add: m' BanPeer_def addr)
  have "pr_done (peer_at m' p)" using assms(1) by (simp add: m' BanPeer_def Peer_Close_def peer_at_def upd_peer_def)
  moreover have "IsBanned B addr m' = (True, m')" if "at_now B \<le> at_now A + BanDuration"
    using that ban by (simp add: IsBanned_def)
  moreover have "\<not> fst (IsBanned B addr m')" if "at_now B > at_now A + BanDuration"
    using that ban by (simp add: IsBanned_def)
  ultimately show ?thesis
    by (auto simp: accept_conn_def connectPeer_def AddNode_def Let_def split: sum.split)
qed

theorem ban_enforced_witness:
  "\<exists>m m'. m' = addMisbehavior net_env net_moment 0 100 m \<and> accept_conn net_env net_moment ''10.0.0.1:7'' m' = Some (None, False, m')"
proof -
  define pr where "pr = NewPeer ''10.0.0.1:9'' True [] 0"
  define m where "m = (NewManager net_env (NewChain fs_new) NewMempool () None)\<lparr>mg_objs := [pr]\<rparr>"
  have m: "length (mg_objs m) = 1" "peer_at m 0 = pr" by (simp_all add: m_def peer_at_def)
  have pr: "pr_addr pr = ''10.0.0.1:9''" "BanThreshold \<le>s fst (AddBanScore 100 pr)" by (simp_all add: pr_def NewPeer_def AddBanScore_def)
  have "extractIP ''10.0.0.1:7'' = extractIP ''10.0.0.1:9''" by code_simp
  with ban_enforced [of 0 m net_env 100 "''10.0.0.1:7''" "addMisbehavior net_env net_moment 0 100 m" net_moment net_moment "\<lambda>_. None"] m pr
  show ?thesis by auto
qed

section \<open>Two honest nodes\<close>

lemma read_from_wire:
  assumes "sendable (cmd, payload)" "length magic = 4" "pr_magic (peer_at m p) = magic" "p < length (mg_objs m)"
  shows "\<exists>q. read_from A p err (wire magic cmd payload @ rest) m = Some (Inr (str_bytes cmd, payload, rest), upd_peer p (\<lambda>_. q) m)
     \<and> pr_magic q = magic \<and> pr_version q = pr_version (peer_at m p) \<and> pr_addr q = pr_addr (peer_at m p)"
proof -
  from read_wire [OF assms(1-3), of "at_now A" rest] obtain hdr q
    where r: "ReadMessage (at_now A) (wire magic cmd payload @ rest) (peer_at m p) = Inr (hdr, payload, rest, q)"
      "CommandString hdr = str_bytes cmd" "pr_magic q = magic" by (auto simp: wire_msg_def wire_def)
  then have "pr_version q = pr_version (peer_at m p)" "pr_addr q = pr_addr (peer_at m p)"
    by (auto simp: ReadMessage_def stampRecv_def Let_def split: sum.splits if_splits)
  with r show ?thesis by (intro exI [of _ q]) (simp add: read_from_def swith_def sbind_def supd_def sret_def)
qed

lemma version_sendable: "VersionMsg_ok v \<Longrightarrow> sendable (''version'', VersionMsg_Encode v)" "sendable (''verack'', [])"
proof -
  have "length (PutVarInt n) \<le> 9" for n by (simp add: PutVarInt_def)
  then have "length (writeString s) \<le> 1033" if "length s \<le> 1024" for s
    using that add_mono [of "length (PutVarInt (of_nat (length s)))" 9 "length s" 1024] by (simp add: writeString_def)
  note w = this
  show "sendable (''version'', VersionMsg_Encode v)" if "VersionMsg_ok v"
  proof -
    have "length (writeString (vm_AddrRecv v)) \<le> 1033" "length (writeString (vm_AddrFrom v)) \<le> 1033" "length (writeString (vm_UserAgent v)) \<le> 1033"
      using that by (auto simp: VersionMsg_ok_def string_ok_def intro: w)
    then have "length (VersionMsg_Encode v) \<le> 4194304" by (simp add: VersionMsg_Encode_def)
    then show ?thesis by (simp add: sendable_def)
  qed
  show "sendable (''verack'', [])" by (simp add: sendable_def)
qed

text \<open>What a peer holds after it has read the version \<open>v\<close>.\<close>

definition greeted :: "pptr \<Rightarrow> VersionMsg \<Rightarrow> ('s, 'p) Manager \<Rightarrow> ('s, 'p) Manager \<Rightarrow> bool" where
  "greeted p v m m' \<longleftrightarrow> length (mg_objs m') = length (mg_objs m) \<and> mg_chain m' = mg_chain m \<and> pr_version (peer_at m' p) = Some v
     \<and> pr_magic (peer_at m' p) = pr_magic (peer_at m p) \<and> pr_addr (peer_at m' p) = pr_addr (peer_at m p)"

definition acceptable :: "('s, 'p, 'sig, 'pk, 'sk) mgr_env \<Rightarrow> VersionMsg \<Rightarrow> bool" where
  "acceptable M v \<longleftrightarrow> VersionMsg_ok v \<and> vm_Nonce v \<noteq> me_localNonce M \<and> vm_Version v \<ge> MinPeerProtoVersion \<and> vm_StartHeight v \<le> MaxPeerStartHeight"

lemma read_version:
  assumes "acceptable M v" "length magic = 4" "pr_magic (peer_at m p) = magic" "p < length (mg_objs m)"
  shows "\<exists>m'. readAndProcessVersion M A p (wire magic ''version'' (VersionMsg_Encode v) @ rest) m = Some (Inr rest, m') \<and> greeted p v m m'"
proof -
  from read_from_wire [OF version_sendable(1) assms(2-4), of v A ErrReadVersion rest] assms(1) obtain q
    where r: "read_from A p ErrReadVersion (wire magic ''version'' (VersionMsg_Encode v) @ rest) m
        = Some (Inr (str_bytes ''version'', VersionMsg_Encode v, rest), upd_peer p (\<lambda>_. q) m)"
      "pr_magic q = magic" "pr_addr q = pr_addr (peer_at m p)" by (auto simp: acceptable_def)
  have "VersionMsg_Decode (VersionMsg_Encode v) = Inr (v, [])"
    using version_codec.dec_enc [of v "[]"] assms(1) by (simp add: acceptable_def)
  moreover have "\<not> vm_Version v < MinPeerProtoVersion" "\<not> vm_StartHeight v > MaxPeerStartHeight" "vm_Nonce v \<noteq> me_localNonce M"
    using assms(1) by (simp_all add: acceptable_def not_less)
  ultimately show ?thesis using r assms(2-)
    by (simp add: readAndProcessVersion_def sbind_def supd_def sret_def greeted_def SetVersion_def peer_at_def upd_peer_def)
qed

lemma read_verack_wire:
  assumes "length magic = 4" "pr_magic (peer_at m p) = magic" "p < length (mg_objs m)"
  shows "\<exists>m'. read_verack A p (wire magic ''verack'' [] @ rest) m = Some (Inr rest, m') \<and> pr_version (peer_at m' p) = pr_version (peer_at m p)
     \<and> mg_chain m' = mg_chain m \<and> pr_addr (peer_at m' p) = pr_addr (peer_at m p)"
  using read_from_wire [OF version_sendable(2) assms, of A ErrReadVerack rest] assms(3)
  by (auto simp: read_verack_def sbind_def sret_def)

lemma version_msg_cong: "mg_chain m' = mg_chain m \<Longrightarrow> pr_addr (peer_at m' p) = pr_addr (peer_at m p) \<Longrightarrow> version_msg M A p m' = version_msg M A p m"
  by (simp add: version_msg_def)

lemma sends:
  assumes "at_write A ''version''" "at_write A ''verack''"
  shows "sendVersion M A p m = Some (Inr (wire (par_NetworkMagic (ce_params (me_chain M))) ''version'' (VersionMsg_Encode (version_msg M A p m))), m)"
    "sendVerack M A m' = Some (Inr (wire (par_NetworkMagic (ce_params (me_chain M))) ''verack'' []), m')"
  using assms by (simp_all add: sendVersion_def sendVerack_def swith_def sret_def)



end
