(* ===== verification/Miner.thy ===== *)
theory Miner
  imports MempoolProps Pow
begin

text \<open>
  The miner (\<^verbatim>\<open>internal/miner/miner.go\<close>): the selection of transactions, the coinbase, the header, and the search of the
  nonce space by concurrent workers. The chain tip, the ancestor lookup, the template of the mempool and the clock, which the
  code reaches through pointers, are arguments. The workers are state machines that share the result channel, the
  cancellation and the hash counter; an execution is a sequence of events, each a step of one worker or a change
  of the environment. The hash rate, a floating-point average for display, and the outer loop of \<^verbatim>\<open>Run\<close> with its timers are
  left out.
\<close>

section \<open>The block template\<close>

definition CoinbaseTag :: string where
  "CoinbaseTag = ''fairchain''"

definition Algorithm :: string where
  "Algorithm = ''sha256mem''"

definition minimalHeightPushLen :: "u32 \<Rightarrow> nat" where
  "minimalHeightPushLen height =
     (if height \<le> 0xFF then 1 else if height \<le> 0xFFFF then 2 else if height \<le> 0xFFFFFF then 3 else 4)"

definition buildCoinbaseWithExtra :: "bytes \<Rightarrow> u32 \<Rightarrow> u64 \<Rightarrow> u32 \<Rightarrow> Transaction" where
  "buildCoinbaseWithExtra rewardScript height subsidy extraNonce =
     (let pushLen = minimalHeightPushLen height;
          msg = [of_nat pushLen] @ take pushLen (put_le 4 height)
                @ (if extraNonce > 0 then put_le 4 extraNonce else []) @ str_bytes CoinbaseTag
      in \<lparr>tx_Version = 1,
          tx_Inputs = [\<lparr>in_PreviousOutPoint = CoinbaseOutPoint, in_SignatureScript = msg, in_Sequence = 0xFFFFFFFF\<rparr>],
          tx_Outputs = [\<lparr>out_Value = subsidy, out_PkScript = rewardScript\<rparr>],
          tx_LockTime = 0\<rparr>)"

definition buildCoinbase :: "bytes \<Rightarrow> u32 \<Rightarrow> u64 \<Rightarrow> Transaction" where
  "buildCoinbase rewardScript height subsidy = buildCoinbaseWithExtra rewardScript height subsidy 0"

text \<open>The loop that takes transactions of the template while they fit.\<close>

primrec select_txs :: "int \<Rightarrow> int \<Rightarrow> BlockTemplateTx list \<Rightarrow> Transaction list \<Rightarrow> u64 \<Rightarrow> int \<Rightarrow> Transaction list \<times> u64" where
  "select_txs maxTxCount maxSize [] included totalFees blockSize = (included, totalFees)"
| "select_txs maxTxCount maxSize (entry # es) included totalFees blockSize =
     (let txSize = int (btt_Size entry) in
      if maxTxCount > 0 \<and> int (length included) \<ge> maxTxCount then (included, totalFees)
      else if maxSize > 0 \<and> blockSize + txSize > maxSize then (included, totalFees)
      else select_txs maxTxCount maxSize es (included @ [btt_Tx entry]) (totalFees + btt_Fee entry) (blockSize + txSize))"

definition headerSize :: int where "headerSize = 80"
definition coinbaseEstimate :: int where "coinbaseEstimate = 150"

definition max_tx_count :: "ChainParams \<Rightarrow> int" where
  "max_tx_count p = (let maxTxCount = uint (par_MaxBlockTxCount p) in if maxTxCount \<le> 1 then 0 else maxTxCount - 1)"

definition select_template :: "ChainParams \<Rightarrow> BlockTemplateResult \<Rightarrow> Transaction list \<times> u64" where
  "select_template p tmpl =
     select_txs (max_tx_count p) (uint (par_MaxBlockSize p)) (bt_Entries tmpl) [] 0 (headerSize + coinbaseEstimate)"

section \<open>The search of the nonce space\<close>

datatype worker_pc = AtCheck | AtSeal | AtSend | AtCancel | AtTip | Finished

record worker =
  wk_pc :: worker_pc
  wk_header :: BlockHeader
  wk_pos :: u64
  wk_end :: u64

record search =
  sr_workers :: "worker list"
  sr_result :: "BlockHeader option"
  sr_cancelled :: bool
  sr_hashCount :: u64
  sr_tip :: hash

datatype event = Work nat | TipMoves hash | CtxDone

definition rangeSize :: "nat \<Rightarrow> u64" where
  "rangeSize numWorkers = 0x100000000 div of_nat numWorkers"

definition batchSize :: u64 where
  "batchSize = (if Algorithm = ''sha256mem'' then 32 else 4)"

definition start_nonce :: "nat \<Rightarrow> nat \<Rightarrow> u64" where
  "start_nonce numWorkers w = of_nat w * rangeSize numWorkers"

definition end_nonce :: "nat \<Rightarrow> nat \<Rightarrow> u64" where
  "end_nonce numWorkers w = (if w = numWorkers - 1 then 0x100000000 else start_nonce numWorkers w + rangeSize numWorkers)"

definition new_worker :: "BlockHeader \<Rightarrow> nat \<Rightarrow> nat \<Rightarrow> worker" where
  "new_worker header numWorkers w =
     \<lparr>wk_pc = AtCheck, wk_header = header\<lparr>hdr_Nonce := ucast (start_nonce numWorkers w)\<rparr>,
      wk_pos = start_nonce numWorkers w, wk_end = end_nonce numWorkers w\<rparr>"

definition start_search :: "BlockHeader \<Rightarrow> nat \<Rightarrow> hash \<Rightarrow> u64 \<Rightarrow> search" where
  "start_search header numWorkers tipHash hashCount =
     \<lparr>sr_workers = map (new_worker header numWorkers) [0..<numWorkers], sr_result = None, sr_cancelled = False,
      sr_hashCount = hashCount, sr_tip = tipHash\<rparr>"

text \<open>The call of the engine; \<open>counted\<close> tells whether it reports its hash count.\<close>

definition seal_batch :: "Engine \<Rightarrow> bool \<Rightarrow> BlockHeader \<Rightarrow> hash \<Rightarrow> u64 \<Rightarrow> bool \<times> u64 \<times> BlockHeader" where
  "seal_batch e counted header target batch =
     (if counted then SealHeaderCounted e header target batch
      else let (found, header) = SealHeader e header target batch in (found, batch, header))"

text \<open>
  One step of a worker: the check of its loop and its context, a batch of nonces, the send to the result channel (which has
  room for one result and drops the others), the cancellation of all workers, and the check for a new tip.
\<close>

definition worker_step :: "Engine \<Rightarrow> bool \<Rightarrow> hash \<Rightarrow> hash \<Rightarrow> search \<Rightarrow> worker \<Rightarrow> worker \<times> search" where
  "worker_step e counted target tipHash s w =
     (case wk_pc w of
        AtCheck \<Rightarrow> (w\<lparr>wk_pc := (if wk_pos w < wk_end w \<and> \<not> sr_cancelled s then AtSeal else Finished)\<rparr>, s)
      | AtSeal \<Rightarrow>
          let remaining = wk_end w - wk_pos w;
              batch = (if remaining < batchSize then remaining else batchSize);
              (found, hashes, header) = seal_batch e counted (wk_header w) target batch;
              s = s\<lparr>sr_hashCount := sr_hashCount s + hashes\<rparr>
          in if found then (w\<lparr>wk_header := header, wk_pc := AtSend\<rparr>, s)
             else let pos = wk_pos w + batch
               in (w\<lparr>wk_pos := pos, wk_header := header\<lparr>hdr_Nonce := ucast (pos AND 0xFFFFFFFF)\<rparr>, wk_pc := AtTip\<rparr>, s)
      | AtSend \<Rightarrow> (w\<lparr>wk_pc := AtCancel\<rparr>, if sr_result s = None then s\<lparr>sr_result := Some (wk_header w)\<rparr> else s)
      | AtCancel \<Rightarrow> (w\<lparr>wk_pc := Finished\<rparr>, s\<lparr>sr_cancelled := True\<rparr>)
      | AtTip \<Rightarrow> (w\<lparr>wk_pc := (if sr_tip s \<noteq> tipHash then Finished else AtCheck)\<rparr>, s)
      | Finished \<Rightarrow> (w, s))"

definition search_step :: "Engine \<Rightarrow> bool \<Rightarrow> hash \<Rightarrow> hash \<Rightarrow> event \<Rightarrow> search \<Rightarrow> search" where
  "search_step e counted target tipHash ev s =
     (case ev of
        Work i \<Rightarrow>
          if i < length (sr_workers s) then
            let (w, s') = worker_step e counted target tipHash s (sr_workers s ! i)
            in s'\<lparr>sr_workers := (sr_workers s)[i := w]\<rparr>
          else s
      | TipMoves h \<Rightarrow> s\<lparr>sr_tip := h\<rparr>
      | CtxDone \<Rightarrow> s\<lparr>sr_cancelled := True\<rparr>)"

definition search_run :: "Engine \<Rightarrow> bool \<Rightarrow> hash \<Rightarrow> hash \<Rightarrow> event list \<Rightarrow> search \<Rightarrow> search" where
  "search_run e counted target tipHash evs s = fold (search_step e counted target tipHash) evs s"

definition all_finished :: "search \<Rightarrow> bool" where
  "all_finished s \<longleftrightarrow> list_all (\<lambda>w. wk_pc w = Finished) (sr_workers s)"

text \<open>
  \<^verbatim>\<open>searchNonceSpace\<close> for one execution of its workers: \<open>None\<close> while a worker is still running, otherwise the block, if a worker
  found one and the tip is still the one the work was built on, and the hash counter.
\<close>

definition searchNonceSpace :: "Engine \<Rightarrow> bool \<Rightarrow> nat \<Rightarrow> BlockHeader \<Rightarrow> hash \<Rightarrow> Transaction list \<Rightarrow> hash \<Rightarrow> u64 \<Rightarrow> event list \<Rightarrow>
    (Block option \<times> search) option" where
  "searchNonceSpace e counted numWorkers header target txs tipHash hashCount evs =
     (let s = search_run e counted target tipHash evs (start_search header numWorkers tipHash hashCount) in
      if \<not> all_finished s then None
      else Some (case sr_result s of
          None \<Rightarrow> None
        | Some hdr \<Rightarrow> if sr_tip s \<noteq> tipHash then None else Some \<lparr>blk_Header = hdr, blk_Transactions = txs\<rparr>, s))"

section \<open>Mining a block\<close>

text \<open>What the environment does during one round of \<^verbatim>\<open>MineOne\<close>: the context, the tip, the clock, and the execution of the workers.\<close>

record round_env =
  rd_ctxDone :: bool
  rd_tip :: hash
  rd_now :: int
  rd_events :: "event list"

record mine_job =
  mj_engine :: Engine
  mj_counted :: bool
  mj_workers :: nat
  mj_params :: ChainParams
  mj_rewardScript :: bytes
  mj_tipHash :: hash
  mj_tipHeight :: u32
  mj_tipHeader :: BlockHeader
  mj_getAncestor :: ancestors
  mj_included :: "Transaction list"
  mj_totalFees :: u64

datatype miner_error = ErrTipHeader | ErrPrepareHeader

definition block_timestamp :: "BlockHeader \<Rightarrow> int \<Rightarrow> u32" where
  "block_timestamp tipHeader now =
     (let ts = word_of_int now in if ts \<le> hdr_Timestamp tipHeader then hdr_Timestamp tipHeader + 1 else ts)"

definition round_txs :: "mine_job \<Rightarrow> u32 \<Rightarrow> Transaction list" where
  "round_txs j extraNonce =
     (let newHeight = mj_tipHeight j + 1;
          subsidy = CalcSubsidy (mj_params j) newHeight
      in buildCoinbaseWithExtra (mj_rewardScript j) newHeight (subsidy + mj_totalFees j) extraNonce # mj_included j)"

definition round_header :: "mine_job \<Rightarrow> u32 \<Rightarrow> int \<Rightarrow> BlockHeader" where
  "round_header j extraNonce now =
     \<lparr>hdr_Version = 1, hdr_PrevBlock = mj_tipHash j, hdr_MerkleRoot = ComputeMerkleRoot (round_txs j extraNonce),
      hdr_Timestamp = block_timestamp (mj_tipHeader j) now, hdr_Bits = 0, hdr_Nonce = 0\<rparr>"

text \<open>The loop of \<^verbatim>\<open>MineOne\<close> over the extra nonce, for the rounds the environment provides; \<open>None\<close> is a loop that is still running.\<close>

primrec mine_rounds :: "mine_job \<Rightarrow> u32 \<Rightarrow> u64 \<Rightarrow> round_env list \<Rightarrow> ((miner_error + Block option) \<times> u64) option" where
  "mine_rounds j extraNonce hashCount [] = None"
| "mine_rounds j extraNonce hashCount (r # rs) =
     (if rd_ctxDone r then Some (Inr None, hashCount)
      else if rd_tip r \<noteq> mj_tipHash j then Some (Inr None, hashCount)
      else (case PrepareHeader (mj_engine j) (round_header j extraNonce (rd_now r)) (mj_tipHeader j) (mj_tipHeight j)
                   (mj_getAncestor j) (mj_params j) of
         None \<Rightarrow> Some (Inl ErrPrepareHeader, hashCount)
       | Some header \<Rightarrow>
           let target = CompactToHash (hdr_Bits header) in
           (case searchNonceSpace (mj_engine j) (mj_counted j) (mj_workers j) header target (round_txs j extraNonce)
                   (mj_tipHash j) hashCount (rd_events r) of
              None \<Rightarrow> None
            | Some (Some block, s) \<Rightarrow> Some (Inr (Some block), sr_hashCount s)
            | Some (None, s) \<Rightarrow> mine_rounds j (extraNonce + 1) (sr_hashCount s) rs)))"

definition MineOne ::
  "Engine \<Rightarrow> bool \<Rightarrow> nat \<Rightarrow> ChainParams \<Rightarrow> bytes \<Rightarrow> hash \<Rightarrow> u32 \<Rightarrow> BlockHeader option \<Rightarrow> ancestors \<Rightarrow> BlockTemplateResult \<Rightarrow> u64 \<Rightarrow>
     round_env list \<Rightarrow> ((miner_error + Block option) \<times> u64) option" where
  "MineOne e counted workers p rewardScript tipHash tipHeight tipHeader getAncestor tmpl hashCount rounds =
     (case tipHeader of
        None \<Rightarrow> Some (Inl ErrTipHeader, hashCount)
      | Some tipHeader \<Rightarrow>
          let (included, totalFees) = select_template p tmpl
          in mine_rounds
               \<lparr>mj_engine = e, mj_counted = counted, mj_workers = workers, mj_params = p, mj_rewardScript = rewardScript,
                mj_tipHash = tipHash, mj_tipHeight = tipHeight, mj_tipHeader = tipHeader, mj_getAncestor = getAncestor,
                mj_included = included, mj_totalFees = totalFees\<rparr> 0 hashCount rounds)"

section \<open>The ranges of the workers\<close>

lemma ranges:
  assumes "0 < n" "n < 2 ^ 63" "i < n"
  shows "unat (start_nonce n i) = i * (2 ^ 32 div n)" "unat (end_nonce n i) = (if i = n - 1 then 2 ^ 32 else Suc i * (2 ^ 32 div n))"
proof -
  let ?r = "(2 ^ 32 :: nat) div n"
  have r: "unat (rangeSize n) = ?r"
    using assms(1,2) by (simp add: rangeSize_def unat_div unat_of_nat)
  have b: "Suc i * ?r \<le> 2 ^ 32"
    using mult_le_mono1 [of "Suc i" n ?r] assms(3) by (metis Suc_leI div_times_less_eq_dividend le_trans mult.commute)
  then have "i * ?r < 2 ^ 64" by simp
  moreover have "unat (of_nat i :: u64) = i" using assms by (simp add: unat_of_nat)
  ultimately show st: "unat (start_nonce n i) = i * ?r"
    using unat_mult_lem [of "of_nat i" "rangeSize n"] r by (simp add: start_nonce_def)
  show "unat (end_nonce n i) = (if i = n - 1 then 2 ^ 32 else Suc i * ?r)"
  proof (cases "i = n - 1")
    case False
    have "unat (start_nonce n i + rangeSize n) = i * ?r + ?r"
      using b st r unat_add_lem [of "start_nonce n i" "rangeSize n"] by simp
    then show ?thesis using False by (simp add: end_nonce_def)
  qed (simp add: end_nonce_def)
qed

text \<open>Together the workers search every nonce.\<close>

lemma ranges_cover:
  assumes "0 < n" "n < 2 ^ 63" "k < 2 ^ 32"
  shows "\<exists>i<n. unat (start_nonce n i) \<le> k \<and> k < unat (end_nonce n i)"
proof (cases "k div (2 ^ 32 div n) < n - 1 \<and> 2 ^ 32 div n \<noteq> 0")
  case True
  let ?r = "(2 ^ 32 :: nat) div n" and ?i = "k div (2 ^ 32 div n)"
  have "?i * ?r \<le> k" "k < Suc ?i * ?r" using True by (simp_all add: dividend_less_div_times less_eq_div_iff_mult_less_eq)
  then show ?thesis using True ranges [OF assms(1,2), of ?i] by (intro exI [of _ ?i]) auto
next
  case False
  have "(n - 1) * (2 ^ 32 div n) \<le> k"
  proof (cases "(2 ^ 32 :: nat) div n = 0")
    case r: False
    then have "n - 1 \<le> k div (2 ^ 32 div n)" using False by simp
    then show ?thesis using r by (simp add: less_eq_div_iff_mult_less_eq)
  qed simp
  then show ?thesis using assms ranges [OF assms(1,2), of "n - 1"] by (intro exI [of _ "n - 1"]) auto
qed

section \<open>One worker\<close>

abbreviation with_nonce :: "BlockHeader \<Rightarrow> u32 \<Rightarrow> BlockHeader" where
  "with_nonce h n \<equiv> h\<lparr>hdr_Nonce := n\<rparr>"

text \<open>A batch finds a nonce exactly when one of its nonces meets the target, and changes nothing but the nonce.\<close>

lemma seal_counted_nonce: "\<exists>n. snd (snd (seal_counted_loop k i m e t h)) = with_nonce h n"
proof (induction k arbitrary: i h)
  case 0
  show ?case by (intro exI [of _ "hdr_Nonce h"]) simp
next
  case (Suc k)
  show ?case
    using Suc [of "i + 1" "h\<lparr>hdr_Nonce := hdr_Nonce h + 1\<rparr>"]
    by (auto simp: Let_def intro: exI [of _ "hdr_Nonce h"] exI [of _ 0])
qed

lemma seal_batch_spec:
  assumes "seal_batch e c (with_nonce h (of_nat p)) t batch = (found, hashes, h')" "p + unat batch \<le> 2 ^ 32" "p < 2 ^ 32"
  shows "\<exists>n. h' = with_nonce h n" "found \<Longrightarrow> meets e t h'"
    "\<not> found \<Longrightarrow> p \<le> k \<Longrightarrow> k < p + unat batch \<Longrightarrow> \<not> meets e t (with_nonce h (of_nat k))"
proof -
  let ?h = "with_nonce h (of_nat p)"
  obtain c' where run: "seal_counted_loop (unat batch) 0 batch e t ?h = (found, c', h')"
    using assms(1) seal_counted_loop_seal [of "unat batch" 0 batch e t ?h]
    by (cases "seal_counted_loop (unat batch) 0 batch e t ?h")
      (auto simp: seal_batch_def SealHeaderCounted_def SealHeader_def Let_def split: if_splits prod.splits)
  show "\<exists>n. h' = with_nonce h n" using seal_counted_nonce [of "unat batch" 0 batch e t ?h] by (auto simp: run)
  have at: "at_nonce ?h j = with_nonce h (of_nat (p + j))" for j by (simp add: at_nonce_def)
  have "unat (hdr_Nonce ?h) = p" using assms(3) by (simp add: unat_of_nat)
  then have lim: "min (unat batch) (2 ^ 32 - unat (hdr_Nonce ?h)) = unat batch" using assms(2) by simp
  note iff = seal_counted_loop_iff [of "unat batch" 0 batch e t ?h, unfolded lim]
  show "found \<Longrightarrow> meets e t h'" using run iff [of c' h'] by (auto simp: first_nonce_def)
  assume nf: "\<not> found" and k: "p \<le> k" "k < p + unat batch"
  show "\<not> meets e t (with_nonce h (of_nat k))"
  proof
    assume "meets e t (with_nonce h (of_nat k))"
    then have ex: "k - p < unat batch \<and> meets e t (at_nonce ?h (k - p))" using k unfolding at by simp
    define j where "j = (LEAST j. meets e t (at_nonce ?h j))"
    have j: "meets e t (at_nonce ?h j)" "\<And>i. i < j \<Longrightarrow> \<not> meets e t (at_nonce ?h i)" "j \<le> k - p"
      unfolding j_def
      using ex LeastI [of "\<lambda>j. meets e t (at_nonce ?h j)" "k - p"] Least_le [of "\<lambda>j. meets e t (at_nonce ?h j)" "k - p"]
        not_less_Least [of _ "\<lambda>j. meets e t (at_nonce ?h j)"] by simp_all
    then have "first_nonce e t ?h (unat batch) j" using ex unfolding first_nonce_def by auto
    then show False using iff [of "0 + of_nat j + 1" "at_nonce ?h j"] run nf by auto
  qed
qed

text \<open>
  A worker between two steps: the nonces it has passed do not meet the target, and its header carries its
  position, or a solution it is about to report.
\<close>

definition worker_ok :: "Engine \<Rightarrow> hash \<Rightarrow> BlockHeader \<Rightarrow> nat \<Rightarrow> nat \<Rightarrow> worker \<Rightarrow> bool" where
  "worker_ok e t h lo hi w \<longleftrightarrow> unat (wk_end w) = hi \<and> hi \<le> 2 ^ 32 \<and> unat (wk_pos w) \<le> hi \<and>
     (\<forall>k. lo \<le> k \<and> k < unat (wk_pos w) \<longrightarrow> \<not> meets e t (with_nonce h (of_nat k))) \<and>
     (wk_pc w \<in> {AtCheck, AtSeal, AtTip} \<longrightarrow> wk_header w = with_nonce h (of_nat (unat (wk_pos w)))) \<and>
     (wk_pc w = AtSeal \<longrightarrow> wk_pos w < wk_end w) \<and>
     (wk_pc w \<in> {AtSend, AtCancel} \<longrightarrow> meets e t (wk_header w) \<and> (\<exists>n. wk_header w = with_nonce h n))"

text \<open>The number of steps a worker has left at most.\<close>

fun steps_left :: "worker \<Rightarrow> nat" where
  "steps_left w = (let d = unat (wk_end w) - unat (wk_pos w) in
     case wk_pc w of AtTip \<Rightarrow> 3 * d + 2 | AtCheck \<Rightarrow> 3 * d + 1 | AtSeal \<Rightarrow> 3 * d | AtSend \<Rightarrow> 2 | AtCancel \<Rightarrow> 1 | Finished \<Rightarrow> 0)"

lemma ucast_low: "ucast (x AND 0xFFFFFFFF) = (of_nat (unat x) :: u32)" for x :: u64
proof -
  have m: "(0xFFFFFFFF :: u64) = mask 32" by (simp add: mask_eq_exp_minus_1)
  have "(ucast (x AND 0xFFFFFFFF) :: u32) = ucast x" unfolding m by (rule bit_word_eqI) (simp add: bit_simps)
  then show ?thesis by simp
qed

lemma batchSize_pos: "0 < batchSize"
  by (simp add: batchSize_def)

lemma worker_step_seal:
  assumes "worker_ok e t h lo hi w" "wk_pc w = AtSeal" "worker_step e c t tip s w = (w', s')"
  shows "worker_ok e t h lo hi w'" "steps_left w' < steps_left w" "wk_pc w' \<in> {AtSend, AtTip}"
    "\<exists>n. s' = s\<lparr>sr_hashCount := n\<rparr>"
proof -
  let ?p = "unat (wk_pos w)" and ?rem = "wk_end w - wk_pos w"
  define batch where "batch = (if ?rem < batchSize then ?rem else batchSize)"
  obtain found hashes header where run: "seal_batch e c (wk_header w) t batch = (found, hashes, header)" by (metis surj_pair)
  have lt: "wk_pos w < wk_end w" and hi: "unat (wk_end w) = hi" "hi \<le> 2 ^ 32" and hd: "wk_header w = with_nonce h (of_nat ?p)"
    using assms(1,2) by (auto simp: worker_ok_def)
  have rem: "unat ?rem = unat (wk_end w) - ?p" using lt by (simp add: unat_sub)
  then have b: "0 < unat batch" "?p + unat batch \<le> hi"
    using lt hi batchSize_pos by (auto simp: batch_def word_less_nat_alt)
  have add: "unat (wk_pos w + batch) = ?p + unat batch"
    using b(2) hi(2) unat_add_lem [of "wk_pos w" batch] by simp
  have bounds: "?p + unat batch \<le> 2 ^ 32" "?p < 2 ^ 32" using b hi by simp_all
  note spec = seal_batch_spec [OF run [unfolded hd] bounds]
  have w': "(w', s') = (if found then (w\<lparr>wk_header := header, wk_pc := AtSend\<rparr>, s\<lparr>sr_hashCount := sr_hashCount s + hashes\<rparr>)
      else (w\<lparr>wk_pos := wk_pos w + batch, wk_header := header\<lparr>hdr_Nonce := ucast ((wk_pos w + batch) AND 0xFFFFFFFF)\<rparr>, wk_pc := AtTip\<rparr>,
        s\<lparr>sr_hashCount := sr_hashCount s + hashes\<rparr>))"
    using assms(2,3) run by (simp add: worker_step_def batch_def Let_def split: if_splits)
  then show "\<exists>n. s' = s\<lparr>sr_hashCount := n\<rparr>" "wk_pc w' \<in> {AtSend, AtTip}" by (auto split: if_splits)
  show "steps_left w' < steps_left w"
    using w' assms(2) b lt hi by (auto simp: add word_less_nat_alt split: if_splits)
  have fresh: "\<not> meets e t (with_nonce h (of_nat k))" if "\<not> found" "lo \<le> k" "k < ?p + unat batch" for k
    using spec(3) [of k] assms(1) that by (cases "k < ?p") (auto simp: worker_ok_def)
  show "worker_ok e t h lo hi w'"
  proof (cases found)
    case True
    then show ?thesis using w' assms(1) spec(1,2) by (auto simp: worker_ok_def)
  next
    case False
    moreover obtain n where "header = with_nonce h n" using spec(1) by blast
    ultimately show ?thesis
      using w' fresh b(2) hi by (simp add: worker_ok_def add ucast_low)
  qed
qed

lemma worker_step_ok:
  assumes "worker_ok e t h lo hi w" "worker_step e c t tip s w = (w', s')"
  shows "worker_ok e t h lo hi w'" "steps_left w' \<le> steps_left w - 1"
proof -
  have "worker_ok e t h lo hi w' \<and> steps_left w' \<le> steps_left w - 1"
  proof (cases "wk_pc w")
    case AtSeal
    then show ?thesis using worker_step_seal [OF assms(1) _ assms(2)] by auto
  qed (use assms in \<open>auto simp: worker_step_def worker_ok_def split: if_splits\<close>)
  then show "worker_ok e t h lo hi w'" "steps_left w' \<le> steps_left w - 1" by simp_all
qed

section \<open>All workers\<close>

definition search_ok :: "Engine \<Rightarrow> hash \<Rightarrow> BlockHeader \<Rightarrow> nat \<Rightarrow> search \<Rightarrow> bool" where
  "search_ok e t h n s \<longleftrightarrow> length (sr_workers s) = n \<and>
     (\<forall>i<n. worker_ok e t h (unat (start_nonce n i)) (unat (end_nonce n i)) (sr_workers s ! i)) \<and>
     (\<forall>h'. sr_result s = Some h' \<longrightarrow> meets e t h' \<and> (\<exists>k. h' = with_nonce h k)) \<and>
     (\<forall>w \<in> set (sr_workers s). wk_pc w = AtCancel \<longrightarrow> sr_result s \<noteq> None)"

text \<open>What also holds while the tip stays and nobody cancels from outside.\<close>

definition quiet_ok :: "hash \<Rightarrow> search \<Rightarrow> bool" where
  "quiet_ok tipHash s \<longleftrightarrow> sr_tip s = tipHash \<and> (sr_cancelled s \<longrightarrow> sr_result s \<noteq> None) \<and>
     (\<forall>w \<in> set (sr_workers s). wk_pc w = Finished \<longrightarrow> sr_result s \<noteq> None \<or> wk_pos w = wk_end w)"

definition quiet :: "event list \<Rightarrow> bool" where
  "quiet evs \<longleftrightarrow> list_all (\<lambda>ev. case ev of Work i \<Rightarrow> True | _ \<Rightarrow> False) evs"

lemma start_search_ok:
  assumes "0 < n" "n < 2 ^ 63"
  shows "search_ok e t h n (start_search h n tipHash hc)" "quiet_ok tipHash (start_search h n tipHash hc)"
    "i < n \<Longrightarrow> steps_left (sr_workers (start_search h n tipHash hc) ! i) \<le> 3 * 2 ^ 32 + 1"
proof -
  have le: "unat (start_nonce n i) \<le> unat (end_nonce n i)" "unat (end_nonce n i) \<le> 2 ^ 32" if "i < n" for i
  proof -
    have "Suc i * (2 ^ 32 div n) \<le> 2 ^ 32"
      using mult_le_mono1 [of "Suc i" n "2 ^ 32 div n"] that by (metis Suc_leI div_times_less_eq_dividend le_trans mult.commute)
    then show "unat (start_nonce n i) \<le> unat (end_nonce n i)" "unat (end_nonce n i) \<le> 2 ^ 32"
      unfolding ranges [OF assms that] by auto
  qed
  have "worker_ok e t h (unat (start_nonce n i)) (unat (end_nonce n i)) (new_worker h n i)" if "i < n" for i
    using le [OF that] by (auto simp: worker_ok_def new_worker_def)
  then show "search_ok e t h n (start_search h n tipHash hc)"
    by (auto simp: search_ok_def start_search_def new_worker_def)
  show "quiet_ok tipHash (start_search h n tipHash hc)" by (auto simp: quiet_ok_def start_search_def new_worker_def)
  show "i < n \<Longrightarrow> steps_left (sr_workers (start_search h n tipHash hc) ! i) \<le> 3 * 2 ^ 32 + 1"
    using le(2) [of i] by (simp add: start_search_def new_worker_def)
qed

lemma worker_step_shared:
  assumes "worker_step e c t tip s w = (w', s')"
  shows "sr_tip s' = sr_tip s" "sr_result s \<noteq> None \<Longrightarrow> sr_result s' = sr_result s"
    "sr_result s' = Some h' \<Longrightarrow> sr_result s = Some h' \<or> wk_pc w = AtSend \<and> h' = wk_header w"
    "wk_pc w' = AtCancel \<Longrightarrow> sr_result s' \<noteq> None" "sr_cancelled s' \<Longrightarrow> sr_cancelled s \<or> wk_pc w = AtCancel"
    "wk_pc w' = Finished \<Longrightarrow> wk_pc w = Finished \<and> w' = w \<or> wk_pc w = AtCancel \<or> sr_cancelled s \<or> sr_tip s \<noteq> tip \<or>
       \<not> wk_pos w < wk_end w \<and> wk_pos w' = wk_pos w \<and> wk_end w' = wk_end w"
  using assms by (auto simp: worker_step_def Let_def split: worker_pc.splits if_splits prod.splits)

text \<open>A step of one worker keeps both invariants, and brings only that worker forward.\<close>

lemma work_ok:
  assumes "search_ok e t h n s" "i < n"
  shows "search_ok e t h n (search_step e c t tip (Work i) s)"
    "quiet_ok tip s \<Longrightarrow> quiet_ok tip (search_step e c t tip (Work i) s)"
    "steps_left (sr_workers (search_step e c t tip (Work i) s) ! i) \<le> steps_left (sr_workers s ! i) - 1"
proof -
  let ?w = "sr_workers s ! i"
  obtain w' s' where st: "worker_step e c t tip s ?w = (w', s')" by (metis surj_pair)
  have len: "i < length (sr_workers s)" using assms by (simp add: search_ok_def)
  have step: "search_step e c t tip (Work i) s = s'\<lparr>sr_workers := (sr_workers s)[i := w']\<rparr>"
    using len st by (simp add: search_step_def)
  have wok: "worker_ok e t h (unat (start_nonce n i)) (unat (end_nonce n i)) ?w" using assms by (simp add: search_ok_def)
  note ok = worker_step_ok [OF wok st] and shared = worker_step_shared [OF st]
  show "steps_left (sr_workers (search_step e c t tip (Work i) s) ! i) \<le> steps_left (sr_workers s ! i) - 1"
    using ok(2) len by (simp add: step del: steps_left.simps)
  have mem: "?w \<in> set (sr_workers s)" using len by simp
  have sub: "w \<in> set ((sr_workers s)[i := w']) \<Longrightarrow> w = w' \<or> w \<in> set (sr_workers s)" for w
    using set_update_subset_insert [of "sr_workers s" i w'] by blast
  have res: "meets e t h' \<and> (\<exists>k. h' = with_nonce h k)" if "sr_result s' = Some h'" for h'
    using shared(3) [OF that]
  proof
    assume "sr_result s = Some h'"
    then show ?thesis using assms(1) unfolding search_ok_def by blast
  qed (use wok in \<open>simp add: worker_ok_def\<close>)
  have cancel: "sr_result s' \<noteq> None" if "w \<in> set ((sr_workers s)[i := w'])" "wk_pc w = AtCancel" for w
    using sub [OF that(1)]
  proof
    assume "w \<in> set (sr_workers s)"
    then have "sr_result s \<noteq> None" using assms(1) that(2) unfolding search_ok_def by blast
    then show ?thesis using shared(2) by simp
  qed (use shared(4) that(2) in simp)
  have ws: "worker_ok e t h (unat (start_nonce n j)) (unat (end_nonce n j)) ((sr_workers s)[i := w'] ! j)" if "j < n" for j
    using ok(1) assms(1) len that by (cases "j = i") (simp_all add: search_ok_def)
  show "search_ok e t h n (search_step e c t tip (Work i) s)"
    using assms(1) ws res cancel unfolding step search_ok_def by simp
  assume q: "quiet_ok tip s"
  have at_cancel: "sr_result s \<noteq> None" if "wk_pc ?w = AtCancel" using assms(1) that mem by (auto simp: search_ok_def)
  have keep: "sr_result s' \<noteq> None" if "sr_result s \<noteq> None" using shared(2) that by simp
  have pos: "\<not> wk_pos ?w < wk_end ?w \<Longrightarrow> wk_pos ?w = wk_end ?w"
    using wok by (simp add: worker_ok_def word_less_nat_alt word_unat_eq_iff)
  have fin: "sr_result s' \<noteq> None \<or> wk_pos w = wk_end w" if "w \<in> set ((sr_workers s)[i := w'])" "wk_pc w = Finished" for w
    using sub [OF that(1)]
  proof
    assume "w = w'"
    then show ?thesis using shared(6) that(2) at_cancel keep pos q mem by (auto simp: quiet_ok_def)
  next
    assume "w \<in> set (sr_workers s)"
    then show ?thesis using that(2) keep q by (auto simp: quiet_ok_def)
  qed
  show "quiet_ok tip (search_step e c t tip (Work i) s)"
    using q shared(1,5) at_cancel keep fin unfolding step quiet_ok_def by auto
qed

lemma step_ok:
  assumes "search_ok e t h n s"
  shows "search_ok e t h n (search_step e c t tip ev s)" "quiet_ok tip s \<Longrightarrow> quiet [ev] \<Longrightarrow> quiet_ok tip (search_step e c t tip ev s)"
    "i < n \<Longrightarrow> steps_left (sr_workers (search_step e c t tip ev s) ! i) \<le> steps_left (sr_workers s ! i) - (if ev = Work i then 1 else 0)"
proof -
  have len: "length (sr_workers s) = n" using assms by (simp add: search_ok_def)
  have "search_ok e t h n (search_step e c t tip ev s) \<and> (quiet_ok tip s \<and> quiet [ev] \<longrightarrow> quiet_ok tip (search_step e c t tip ev s)) \<and>
    (i < n \<longrightarrow> steps_left (sr_workers (search_step e c t tip ev s) ! i) \<le> steps_left (sr_workers s ! i) - (if ev = Work i then 1 else 0))"
  proof (cases ev)
    case (Work j)
    show ?thesis
    proof (cases "j < n")
      case True
      have "sr_workers (search_step e c t tip (Work j) s) ! i = sr_workers s ! i" if "i \<noteq> j"
        using that by (simp add: search_step_def case_prod_beta' Let_def)
      then show ?thesis using work_ok [OF assms True, where c = c and tip = tip] Work by (auto simp del: steps_left.simps)
    qed (use assms Work len in \<open>auto simp: search_step_def simp del: steps_left.simps\<close>)
  qed (use assms in \<open>auto simp: search_step_def search_ok_def quiet_def simp del: steps_left.simps\<close>)
  then show "search_ok e t h n (search_step e c t tip ev s)" "quiet_ok tip s \<Longrightarrow> quiet [ev] \<Longrightarrow> quiet_ok tip (search_step e c t tip ev s)"
    "i < n \<Longrightarrow> steps_left (sr_workers (search_step e c t tip ev s) ! i) \<le> steps_left (sr_workers s ! i) - (if ev = Work i then 1 else 0)"
    by blast+
qed

lemma run_ok:
  assumes "search_ok e t h n s"
  shows "search_ok e t h n (search_run e c t tip evs s)" "quiet_ok tip s \<Longrightarrow> quiet evs \<Longrightarrow> quiet_ok tip (search_run e c t tip evs s)"
    "i < n \<Longrightarrow> steps_left (sr_workers (search_run e c t tip evs s) ! i) \<le> steps_left (sr_workers s ! i) - count_list evs (Work i)"
proof -
  have "search_ok e t h n (search_run e c t tip evs s) \<and> (quiet_ok tip s \<and> quiet evs \<longrightarrow> quiet_ok tip (search_run e c t tip evs s)) \<and>
    (i < n \<longrightarrow> steps_left (sr_workers (search_run e c t tip evs s) ! i) \<le> steps_left (sr_workers s ! i) - count_list evs (Work i))"
    using assms
  proof (induction evs arbitrary: s)
    case (Cons ev evs)
    let ?s = "search_step e c t tip ev s"
    note step = step_ok [OF Cons.prems, where c = c and tip = tip and ev = ev]
    have run: "search_run e c t tip (ev # evs) s = search_run e c t tip evs ?s" by (simp add: search_run_def)
    have q: "quiet (ev # evs) \<longleftrightarrow> quiet [ev] \<and> quiet evs" by (simp add: quiet_def)
    show ?case
      unfolding run q using Cons.IH [OF step(1)] step(2) step(3) [where i = i] by (auto simp del: steps_left.simps)
  qed (simp_all add: search_run_def del: steps_left.simps)
  then show "search_ok e t h n (search_run e c t tip evs s)" "quiet_ok tip s \<Longrightarrow> quiet evs \<Longrightarrow> quiet_ok tip (search_run e c t tip evs s)"
    "i < n \<Longrightarrow> steps_left (sr_workers (search_run e c t tip evs s) ! i) \<le> steps_left (sr_workers s ! i) - count_list evs (Work i)"
    by blast+
qed

section \<open>Properties of the search\<close>

text \<open>C24. The concurrent nonce search is sound, ends, and misses no nonce, however its workers interleave. A header it
  reports is the given header with some nonce and meets the target. Once every worker has had three steps for each nonce and
  one more, all have stopped. And when they have stopped with the tip unchanged and nobody cancelling from outside, a
  header was reported exactly when one of the 32-bit nonces meets the target.\<close>

theorem nonce_search_complete:
  assumes "0 < n" "n < 2 ^ 63"
    and "s = search_run e counted target tipHash evs (start_search header n tipHash hashCount)"
  shows "(\<forall>h. sr_result s = Some h \<longrightarrow> meets e target h \<and> (\<exists>k. h = header\<lparr>hdr_Nonce := k\<rparr>)) \<and>
    ((\<forall>i<n. count_list evs (Work i) \<ge> 3 * 2 ^ 32 + 1) \<longrightarrow> all_finished s) \<and>
    (quiet evs \<and> all_finished s \<longrightarrow> (sr_result s \<noteq> None \<longleftrightarrow> (\<exists>k. meets e target (header\<lparr>hdr_Nonce := k\<rparr>))))"
proof -
  let ?s0 = "start_search header n tipHash hashCount"
  note start = start_search_ok [OF assms(1,2), where h = header and tipHash = tipHash and hc = hashCount]
  have ok: "search_ok e target header n s" unfolding assms(3) by (rule run_ok(1) [OF start(1)])
  have res: "meets e target h \<and> (\<exists>k. h = header\<lparr>hdr_Nonce := k\<rparr>)" if "sr_result s = Some h" for h
    using ok that unfolding search_ok_def by blast
  have fin: "all_finished s" if turns: "\<forall>i<n. count_list evs (Work i) \<ge> 3 * 2 ^ 32 + 1"
  proof -
    have "wk_pc (sr_workers s ! i) = Finished" if "i < n" for i
    proof -
      have "steps_left (sr_workers s ! i) \<le> steps_left (sr_workers ?s0 ! i) - count_list evs (Work i)"
        unfolding assms(3) by (rule run_ok(3) [OF start(1) that])
      moreover have "steps_left (sr_workers ?s0 ! i) \<le> count_list evs (Work i)"
        using start(3) [OF that] turns that by (meson order_trans)
      ultimately have "steps_left (sr_workers s ! i) = 0" by (simp del: steps_left.simps)
      moreover have "wk_pc (sr_workers s ! i) = AtSeal \<longrightarrow> wk_pos (sr_workers s ! i) < wk_end (sr_workers s ! i)"
        using ok that by (simp add: search_ok_def worker_ok_def)
      ultimately show ?thesis by (cases "wk_pc (sr_workers s ! i)") (auto simp: word_less_nat_alt)
    qed
    then show ?thesis using ok by (simp add: all_finished_def list_all_length search_ok_def)
  qed
  have found: "sr_result s \<noteq> None" if q: "quiet evs" "all_finished s" and k: "meets e target (header\<lparr>hdr_Nonce := k\<rparr>)" for k
  proof -
    have qok: "quiet_ok tipHash s" unfolding assms(3) by (rule run_ok(2) [OF start(1,2) q(1)])
    obtain i where i: "i < n" "unat (start_nonce n i) \<le> unat k" "unat k < unat (end_nonce n i)"
      using ranges_cover [OF assms(1,2), of "unat k"] unsigned_less [of k, where ?'a = nat] by auto
    let ?w = "sr_workers s ! i"
    have w: "?w \<in> set (sr_workers s)" "worker_ok e target header (unat (start_nonce n i)) (unat (end_nonce n i)) ?w"
      using ok i(1) by (simp_all add: search_ok_def)
    have "wk_pc ?w = Finished" using q(2) w(1) by (simp add: all_finished_def list_all_iff)
    then have "sr_result s \<noteq> None \<or> wk_pos ?w = wk_end ?w" using qok w(1) by (simp add: quiet_ok_def)
    moreover have "wk_pos ?w \<noteq> wk_end ?w"
    proof
      assume "wk_pos ?w = wk_end ?w"
      then have "\<not> meets e target (header\<lparr>hdr_Nonce := of_nat (unat k)\<rparr>)" using w(2) i unfolding worker_ok_def by metis
      then show False using k by simp
    qed
    ultimately show ?thesis by simp
  qed
  show ?thesis using res fin found by blast
qed

definition demo_events :: "event list" where
  "demo_events = [Work 0, Work 0, Work 0, Work 0]"

lemma demo_seal: "SealHeaderCounted demo_engine h (CompactToHash bits) 32 = (True, 1, h)"
proof -
  have "unat (32 :: u64) = Suc 31" by simp
  then show ?thesis
    using demo_meets [of bits h] by (simp only: SealHeaderCounted_def seal_counted_loop.simps Let_def meets_def if_True add_0)
qed

lemma demo_search:
  "search_run demo_engine True (CompactToHash bits) tip demo_events (start_search h (Suc 0) tip hc) =
     \<lparr>sr_workers = [\<lparr>wk_pc = Finished, wk_header = h\<lparr>hdr_Nonce := 0\<rparr>, wk_pos = 0, wk_end = 0x100000000\<rparr>],
      sr_result = Some (h\<lparr>hdr_Nonce := 0\<rparr>), sr_cancelled = True, sr_hashCount = hc + 1, sr_tip = tip\<rparr>"
  by (simp add: search_run_def demo_events_def start_search_def new_worker_def search_step_def worker_step_def start_nonce_def
      end_nonce_def seal_batch_def demo_seal batchSize_def Algorithm_def Let_def)

theorem nonce_search_complete_witness:
  "sr_result (search_run demo_engine True (CompactToHash 0x207fffff) ZeroHash demo_events (start_search demo_tip 1 ZeroHash 0)) \<noteq> None"
proof -
  let ?t = "CompactToHash 0x207fffff"
  let ?s = "search_run demo_engine True ?t ZeroHash demo_events (start_search demo_tip 1 ZeroHash 0)"
  have "quiet demo_events" by (simp add: quiet_def demo_events_def)
  moreover have "all_finished ?s" by (simp add: all_finished_def demo_search)
  ultimately have "sr_result ?s \<noteq> None \<longleftrightarrow> (\<exists>k. meets demo_engine ?t (demo_tip\<lparr>hdr_Nonce := k\<rparr>))"
    using nonce_search_complete [of 1 ?s demo_engine True ?t ZeroHash demo_events demo_tip 0] by simp
  then show ?thesis using demo_meets by blast
qed

section \<open>The selected transactions\<close>

text \<open>What the template of a running mempool guarantees of its entries.\<close>

definition template_ok :: "BlockTemplateResult \<Rightarrow> bool" where
  "template_ok tmpl \<longleftrightarrow> bt_Transactions tmpl = map btt_Tx (bt_Entries tmpl) \<and>
     distinct (map (HashTransaction \<circ> btt_Tx) (bt_Entries tmpl)) \<and>
     (\<forall>x \<in> set (bt_Entries tmpl). \<not> Transaction_IsCoinbase (btt_Tx x) \<and> length (Transaction_Serialize (btt_Tx x)) \<le> btt_Size x) \<and>
     (\<Sum>x\<leftarrow>bt_Entries tmpl. unat (btt_Fee x)) < 2 ^ 64"

lemma template_ok_run:
  assumes "mempool_runs L p m" "mset order = mset (mp_txs m)"
  shows "template_ok (BlockTemplate order m)"
proof -
  let ?es = "GetAllEntries order m"
  obtain taken fees where t: "template_fees ?es 0 = (taken, fees)" by fastforce
  obtain k where k: "taken = take k ?es" "unat fees = (\<Sum>e\<leftarrow>taken. unat (te_Fee e))" using template_fees_exact [OF t] by auto
  have inv: "pool_ok m" "ordinary m" using mempool_runs_inv [OF assms(1)] by (simp_all add: pool_inv_def)
  note entry = listed_entry [OF inv(1) assms(2)]
  have sub: "set taken \<subseteq> set ?es" unfolding k(1) by (rule set_take_subset)
  have e: "HashTransaction (te_Tx e) = te_Hash e \<and> te_Size e = pool_size (te_Tx e) \<and> \<not> Transaction_IsCoinbase (te_Tx e)"
    if "e \<in> set taken" for e
  proof -
    have "pool_of m (te_Hash e) = Some (strip_entry e)" using entry that sub by blast
    then show ?thesis
      using pool_of_entry_ok [OF inv(1), of "te_Hash e" "strip_entry e"] inv(2)
      by (auto simp: entry_ok_def ordinary_def ran_def)
  qed
  have "distinct (map te_Hash taken)"
    using entries_of_pool(2) [OF inv(1) assms(2)] unfolding k(1) by (simp add: take_map [symmetric])
  moreover have "map (\<lambda>x. HashTransaction (te_Tx x)) taken = map te_Hash taken" using e by simp
  ultimately have "distinct (map (\<lambda>x. HashTransaction (te_Tx x)) taken)" by (simp only:)
  moreover have "length (Transaction_Serialize (te_Tx e)) \<le> te_Size e" if "e \<in> set taken" for e
    using e [OF that] by (simp add: pool_size_def tx_size_length)
  moreover have "(\<Sum>e\<leftarrow>taken. unat (te_Fee e)) < 2 ^ 64" using k(2) unsigned_less [of fees, where ?'a = nat] by simp
  ultimately show ?thesis using e by (auto simp: template_ok_def BlockTemplate_def t comp_def)
qed

lemma select_txs_spec:
  "\<exists>k. select_txs maxCount maxSize es included fees blockSize =
      (included @ map btt_Tx (take k es), fees + (\<Sum>x\<leftarrow>take k es. btt_Fee x)) \<and>
     (maxCount > 0 \<longrightarrow> int (length included) \<le> maxCount \<longrightarrow> int (length included + length (take k es)) \<le> maxCount) \<and>
     (maxSize > 0 \<longrightarrow> blockSize \<le> maxSize \<longrightarrow> blockSize + (\<Sum>x\<leftarrow>take k es. int (btt_Size x)) \<le> maxSize)"
proof (induction es arbitrary: included fees blockSize)
  case (Cons x es)
  let ?stop = "maxCount > 0 \<and> int (length included) \<ge> maxCount \<or> maxSize > 0 \<and> blockSize + int (btt_Size x) > maxSize"
  show ?case
  proof (cases ?stop)
    case True
    then show ?thesis by (intro exI [of _ 0]) (auto simp: Let_def)
  next
    case False
    obtain k where k: "select_txs maxCount maxSize es (included @ [btt_Tx x]) (fees + btt_Fee x) (blockSize + int (btt_Size x)) =
        ((included @ [btt_Tx x]) @ map btt_Tx (take k es), fees + btt_Fee x + (\<Sum>x\<leftarrow>take k es. btt_Fee x))"
      "maxCount > 0 \<longrightarrow> int (length (included @ [btt_Tx x])) \<le> maxCount \<longrightarrow>
         int (length (included @ [btt_Tx x]) + length (take k es)) \<le> maxCount"
      "maxSize > 0 \<longrightarrow> blockSize + int (btt_Size x) \<le> maxSize \<longrightarrow>
         blockSize + int (btt_Size x) + (\<Sum>x\<leftarrow>take k es. int (btt_Size x)) \<le> maxSize"
      using Cons.IH [of "included @ [btt_Tx x]" "fees + btt_Fee x" "blockSize + int (btt_Size x)"] by blast
    have "select_txs maxCount maxSize (x # es) included fees blockSize =
        select_txs maxCount maxSize es (included @ [btt_Tx x]) (fees + btt_Fee x) (blockSize + int (btt_Size x))"
      using False by (auto simp: Let_def)
    then show ?thesis using k False by (intro exI [of _ "Suc k"]) (auto simp: add.assoc)
  qed
qed (intro exI [of _ 0], simp)

section \<open>The coinbase\<close>

lemma minimalHeightPushLen_eq: "minimalHeightPushLen h = minimalPushLen h"
  by (simp add: minimalHeightPushLen_def minimalPushLen_def)

lemma take_put_le: "k \<le> n \<Longrightarrow> take k (put_le n w) = put_le k w"
proof (induction n arbitrary: k w)
  case (Suc n)
  then show ?case by (cases k) auto
qed simp

lemma coinbase_script:
  assumes "tx = buildCoinbaseWithExtra rs height v extra"
  shows "validateCoinbaseScriptSig (in_SignatureScript (tx_Inputs tx ! 0)) height = Inr ()"
    "length (in_SignatureScript (tx_Inputs tx ! 0)) \<le> 18" "Transaction_IsCoinbase tx"
proof -
  let ?sig = "in_SignatureScript (tx_Inputs tx ! 0)"
  have tag: "length (str_bytes CoinbaseTag) = 9" by (simp add: str_bytes_def CoinbaseTag_def)
  have s: "?sig = of_nat (minimalPushLen height) # put_le (minimalPushLen height) height
      @ ((if extra > 0 then put_le 4 extra else []) @ str_bytes CoinbaseTag)"
    using minimalPushLen_bounds(2) [of height]
    by (simp add: assms buildCoinbaseWithExtra_def Let_def minimalHeightPushLen_eq take_put_le)
  then show len: "length ?sig \<le> 18" using minimalPushLen_bounds(2) [of height] tag by simp
  have "2 \<le> length ?sig" using s tag by simp
  then show "validateCoinbaseScriptSig ?sig height = Inr ()" unfolding validateCoinbaseScriptSig_iff using s len by auto
  show "Transaction_IsCoinbase tx"
    by (simp add: assms buildCoinbaseWithExtra_def Let_def Transaction_IsCoinbase_def TxInput_IsCoinbase_def CoinbaseOutPoint_def Hash_IsZero_def)
qed

text \<open>The estimate of 150 bytes covers the coinbase and the transaction count of the block.\<close>

lemma coinbase_size:
  assumes "length rs \<le> 69"
  shows "length (Transaction_Serialize (buildCoinbaseWithExtra rs height v extra)) \<le> 147"
proof -
  define tx where "tx = buildCoinbaseWithExtra rs height v extra"
  let ?sig = "in_SignatureScript (tx_Inputs tx ! 0)"
  have sig: "length ?sig \<le> 18" using coinbase_script(2) [OF tx_def] .
  have tx: "tx = \<lparr>tx_Version = 1, tx_Inputs = [\<lparr>in_PreviousOutPoint = CoinbaseOutPoint, in_SignatureScript = ?sig, in_Sequence = 0xFFFFFFFF\<rparr>],
      tx_Outputs = [\<lparr>out_Value = v, out_PkScript = rs\<rparr>], tx_LockTime = 0\<rparr>"
    by (simp add: tx_def buildCoinbaseWithExtra_def Let_def)
  have one: "VarIntSize (of_nat k) = 1" if "k \<le> 69" for k :: nat
    using that by (simp add: VarIntSize_def word_less_nat_alt unat_of_nat)
  have "Transaction_SerializeSize tx = 60 + length ?sig + length rs"
    by (subst tx) (use one [of 1] one [of "length ?sig"] one [of "length rs"] sig assms in
      \<open>simp add: Transaction_SerializeSize_def TxInput_SerializeSize_def TxOutput_SerializeSize_def Let_def\<close>)
  then show ?thesis using sig assms by (simp add: tx_def [symmetric] tx_size_length)
qed

section \<open>The mined block\<close>

lemma int_sum_list: "(\<Sum>x\<leftarrow>xs. int (f x)) = int (\<Sum>x\<leftarrow>xs. f x)"
  by (induction xs) auto

lemma unat_sum_list: "(\<Sum>x\<leftarrow>xs. unat (f x)) < 2 ^ 64 \<Longrightarrow> unat (\<Sum>x\<leftarrow>xs. f x) = (\<Sum>x\<leftarrow>xs. unat (f x))" for f :: "_ \<Rightarrow> u64"
  by (induction xs) (simp_all add: unat_word_ariths)

text \<open>A block of a fitting coinbase and transactions of the template, with a matching Merkle root, has a valid structure.\<close>

lemma assembled_block_valid:
  assumes tmpl: "template_ok tmpl" and sel: "select_template p tmpl = (txs, fees)"
    and par: "1 < par_MaxBlockTxCount p" "par_MaxBlockTxCount p \<le> 0xFFFF" "230 \<le> par_MaxBlockSize p"
    and rs: "length rs \<le> 69"
    and block: "blk_Transactions block = buildCoinbaseWithExtra rs height v extra # txs" "hdr_Version (blk_Header block) = 1"
      "hdr_MerkleRoot (blk_Header block) = ComputeMerkleRoot (blk_Transactions block)"
    and fresh: "HashTransaction (buildCoinbaseWithExtra rs height v extra) \<notin> HashTransaction ` set txs"
  shows "ValidateBlockStructure block height p None None = Inr ()"
    "\<exists>k. txs = take k (bt_Transactions tmpl) \<and> unat fees = (\<Sum>x\<leftarrow>take k (bt_Entries tmpl). unat (btt_Fee x))"
proof -
  let ?cb = "buildCoinbaseWithExtra rs height v extra" and ?es = "bt_Entries tmpl"
  have count: "max_tx_count p = uint (par_MaxBlockTxCount p) - 1" "0 < max_tx_count p"
    using par(1) by (auto simp: max_tx_count_def word_less_def)
  have size0: "230 \<le> uint (par_MaxBlockSize p)" using par(3) by (simp add: word_le_def)
  obtain k where k: "txs = map btt_Tx (take k ?es)" "fees = (\<Sum>x\<leftarrow>take k ?es. btt_Fee x)" "int (length txs) \<le> max_tx_count p"
      "230 + (\<Sum>x\<leftarrow>take k ?es. int (btt_Size x)) \<le> uint (par_MaxBlockSize p)"
    using select_txs_spec [of "max_tx_count p" "uint (par_MaxBlockSize p)" ?es "[]" 0 "headerSize + coinbaseEstimate"] sel count size0
    by (auto simp: select_template_def headerSize_def coinbaseEstimate_def)
  have sub: "set (take k ?es) \<subseteq> set ?es" by (rule set_take_subset)
  have "distinct (map (HashTransaction \<circ> btt_Tx) (take k ?es))"
    using tmpl by (simp add: template_ok_def take_map [symmetric])
  then have dist: "distinct (map HashTransaction (blk_Transactions block))" using fresh by (simp add: block(1) k(1) comp_def image_image)
  have es: "\<not> Transaction_IsCoinbase (btt_Tx x) \<and> length (Transaction_Serialize (btt_Tx x)) \<le> btt_Size x" if "x \<in> set (take k ?es)" for x
    using tmpl subsetD [OF sub that] by (simp add: template_ok_def)
  then have nocb: "find_coinbase 1 txs = None" by (simp add: find_coinbase_None list_all_iff k(1))
  have n: "Suc (length txs) \<le> unat (par_MaxBlockTxCount p)" using k(3) unfolding count(1) uint_nat by linarith
  then have n16: "Suc (length txs) \<le> 0xFFFF" using par(2) by (simp add: word_le_nat_alt)
  have cnt: "\<not> (of_nat (length (blk_Transactions block)) :: u32) > par_MaxBlockTxCount p"
    using n n16 by (simp add: block(1) word_less_nat_alt unat_of_nat del: of_nat_Suc)
  have var: "length (PutVarInt (of_nat (Suc (length txs)))) \<le> 3"
    using n16 unfolding VarIntSize_length [symmetric]
    by (auto simp: VarIntSize_def word_less_nat_alt word_le_nat_alt unat_of_nat simp del: of_nat_Suc)
  have "length (concat (map Transaction_Serialize txs)) \<le> (\<Sum>x\<leftarrow>take k ?es. btt_Size x)"
    unfolding k(1) length_concat map_map comp_def using es by (intro sum_list_mono) blast
  moreover have "length (Block_Serialize block) = 80 + length (PutVarInt (of_nat (Suc (length txs)))) + length (Transaction_Serialize ?cb)
      + length (concat (map Transaction_Serialize txs))"
    by (simp add: Block_Serialize_def block(1) enc_counted_def del: of_nat_Suc)
  ultimately have "length (Block_Serialize block) \<le> unat (par_MaxBlockSize p)"
    using coinbase_size [OF rs, of height v extra] var k(4) unfolding uint_nat int_sum_list by linarith
  moreover have "unat (par_MaxBlockSize p) < 2 ^ 32" using unsigned_less [of "par_MaxBlockSize p", where ?'a = nat] by simp
  ultimately have bytes: "\<not> (of_nat (length (Block_Serialize block)) :: u32) > par_MaxBlockSize p"
    by (simp add: word_less_nat_alt unat_of_nat)
  note cb = coinbase_script [OF refl, of rs height v extra]
  have "\<not> coinbase_overflows 0 (tx_Outputs ?cb)" by (simp add: buildCoinbaseWithExtra_def Let_def)
  moreover have "ComputeMerkleRoot (blk_Transactions block) = MerkleRoot (map HashTransaction (blk_Transactions block))"
    by (simp add: ComputeMerkleRoot_def block(1))
  moreover have "find_duplicate {} (map HashTransaction (blk_Transactions block)) = None" using dist by (simp add: find_duplicate_None)
  ultimately show "ValidateBlockStructure block height p None None = Inr ()"
    using cb nocb cnt bytes block unfolding ValidateBlockStructure_def block(1) by (simp add: Let_def)
  have "(\<Sum>x\<leftarrow>take k ?es. unat (btt_Fee x)) \<le> (\<Sum>x\<leftarrow>?es. unat (btt_Fee x))"
    by (metis append_take_drop_id le_add1 map_append sum_list_append)
  then have "unat (\<Sum>x\<leftarrow>take k ?es. btt_Fee x) = (\<Sum>x\<leftarrow>take k ?es. unat (btt_Fee x))"
    using tmpl by (intro unat_sum_list) (simp add: template_ok_def)
  then show "\<exists>k. txs = take k (bt_Transactions tmpl) \<and> unat fees = (\<Sum>x\<leftarrow>take k (bt_Entries tmpl). unat (btt_Fee x))"
    using tmpl k(1,2) by (intro exI [of _ k]) (simp add: template_ok_def take_map)
qed

lemma mined_round:
  assumes "mine_rounds j extra hc rounds = Some (Inr (Some block), hc')" "0 < mj_workers j" "mj_workers j < 2 ^ 63"
  shows "\<exists>extra now prepared k. blk_Transactions block = round_txs j extra \<and>
     PrepareHeader (mj_engine j) (round_header j extra now) (mj_tipHeader j) (mj_tipHeight j) (mj_getAncestor j) (mj_params j) = Some prepared \<and>
     blk_Header block = at_nonce prepared k \<and> meets (mj_engine j) (CompactToHash (hdr_Bits prepared)) (blk_Header block)"
  using assms(1)
proof (induction rounds arbitrary: extra hc)
  case (Cons r rs)
  obtain prepared where prep: "PrepareHeader (mj_engine j) (round_header j extra (rd_now r)) (mj_tipHeader j) (mj_tipHeight j)
      (mj_getAncestor j) (mj_params j) = Some prepared"
    using Cons.prems by (auto split: if_splits option.splits)
  let ?t = "CompactToHash (hdr_Bits prepared)"
  obtain b s where search: "searchNonceSpace (mj_engine j) (mj_counted j) (mj_workers j) prepared ?t (round_txs j extra) (mj_tipHash j) hc
      (rd_events r) = Some (b, s)"
    using Cons.prems prep by (auto simp: Let_def split: if_splits option.splits)
  show ?case
  proof (cases b)
    case None
    then have "mine_rounds j (extra + 1) (sr_hashCount s) rs = Some (Inr (Some block), hc')"
      using Cons.prems prep search by (auto simp: Let_def split: if_splits)
    then show ?thesis by (rule Cons.IH)
  next
    case (Some b')
    then have "b = Some block" using Cons.prems prep search by (auto simp: Let_def split: if_splits)
    then have block: "block = \<lparr>blk_Header = blk_Header block, blk_Transactions = round_txs j extra\<rparr>" "sr_result s = Some (blk_Header block)"
      and s: "s = search_run (mj_engine j) (mj_counted j) ?t (mj_tipHash j) (rd_events r) (start_search prepared (mj_workers j) (mj_tipHash j) hc)"
      using search by (auto simp: searchNonceSpace_def Let_def split: if_splits option.splits)
    have "search_ok (mj_engine j) ?t prepared (mj_workers j) s"
      unfolding s by (rule run_ok(1) [OF start_search_ok(1) [OF assms(2,3)]])
    then obtain k where k: "meets (mj_engine j) ?t (blk_Header block)" "blk_Header block = with_nonce prepared k"
      using block(2) unfolding search_ok_def by blast
    have "blk_Header block = at_nonce prepared (unat (k - hdr_Nonce prepared))" using k(2) by (simp add: at_nonce_def)
    then show ?thesis using prep k(1) block(1) by (metis Block.select_convs(2))
  qed
qed simp

section \<open>Properties of the miner\<close>

text \<open>C21. The miner builds valid blocks: with the template of a running mempool, a block that \<^verbatim>\<open>MineOne\<close> returns has a valid
  structure one above the tip (coinbase with the height, no second coinbase, no duplicates, Merkle root, both size limits, which
  the estimate of 150 bytes for the coinbase keeps for reward scripts of up to 69 bytes), and its header passes the engine's
  validation and is later than the tip. It holds a prefix of the template, and its coinbase pays the subsidy and exactly the
  fees of that prefix to the reward script. The transaction limit of the network must be between 2 and 65535, and the
  hash of the coinbase new.\<close>

theorem mined_block_valid:
  assumes "MineOne e counted workers p rewardScript tipHash tipHeight (Some tipHeader) getAncestor (BlockTemplate order m) hashCount rounds
      = Some (Inr (Some block), hashCount')"
    and "mempool_runs L p m" "mset order = mset (mp_txs m)" "0 < workers" "workers < 2 ^ 63"
    and "1 < par_MaxBlockTxCount p" "par_MaxBlockTxCount p \<le> 0xFFFF" "230 \<le> par_MaxBlockSize p" "length rewardScript \<le> 69"
    and "tipHash = HashBlockHeader tipHeader"
    and "HashTransaction (blk_Transactions block ! 0) \<notin> HashTransaction ` set (tl (blk_Transactions block))"
  shows "ValidateBlockStructure block (tipHeight + 1) p None None = Inr () \<and>
    ValidateHeader e (blk_Header block) tipHeader (tipHeight + 1) getAncestor p = Inr () \<and>
    (hdr_Timestamp tipHeader + 1 \<noteq> 0 \<longrightarrow> hdr_Timestamp tipHeader < hdr_Timestamp (blk_Header block)) \<and>
    (\<exists>k fees. tl (blk_Transactions block) = take k (bt_Transactions (BlockTemplate order m)) \<and>
       unat fees = (\<Sum>x\<leftarrow>take k (bt_Entries (BlockTemplate order m)). unat (btt_Fee x)) \<and>
       tx_Outputs (blk_Transactions block ! 0) =
         [\<lparr>out_Value = CalcSubsidy p (tipHeight + 1) + fees, out_PkScript = rewardScript\<rparr>])"
proof -
  obtain txs fees where sel: "select_template p (BlockTemplate order m) = (txs, fees)" by fastforce
  let ?j = "\<lparr>mj_engine = e, mj_counted = counted, mj_workers = workers, mj_params = p, mj_rewardScript = rewardScript,
     mj_tipHash = tipHash, mj_tipHeight = tipHeight, mj_tipHeader = tipHeader, mj_getAncestor = getAncestor,
     mj_included = txs, mj_totalFees = fees\<rparr>"
  have "mine_rounds ?j 0 hashCount rounds = Some (Inr (Some block), hashCount')" using assms(1) by (simp add: MineOne_def sel)
  from mined_round [OF this] assms(4,5) obtain extra now prepared k where r: "blk_Transactions block = round_txs ?j extra"
      "PrepareHeader e (round_header ?j extra now) tipHeader tipHeight getAncestor p = Some prepared"
      "blk_Header block = at_nonce prepared k" "meets e (CompactToHash (hdr_Bits prepared)) (blk_Header block)"
    by auto
  let ?v = "CalcSubsidy p (tipHeight + 1) + fees"
  have txs: "blk_Transactions block = buildCoinbaseWithExtra rewardScript (tipHeight + 1) ?v extra # txs"
    using r(1) by (simp add: round_txs_def Let_def)
  have hdr: "hdr_Version (blk_Header block) = 1" "hdr_MerkleRoot (blk_Header block) = ComputeMerkleRoot (blk_Transactions block)"
      "hdr_Timestamp (blk_Header block) = block_timestamp tipHeader now"
    using r(2) by (auto simp: r(1,3) at_nonce_def PrepareHeader_def round_header_def)
  have fresh: "HashTransaction (buildCoinbaseWithExtra rewardScript (tipHeight + 1) ?v extra) \<notin> HashTransaction ` set txs"
    using assms(11) by (simp add: txs)
  note valid = assembled_block_valid [OF template_ok_run [OF assms(2,3)] sel assms(6-9) txs hdr(1,2) fresh]
  have "ValidateHeader e (blk_Header block) tipHeader (tipHeight + 1) getAncestor p = Inr ()"
    using met_header_validates [OF r(2)] r(3,4) assms(10) by (simp add: round_header_def)
  moreover have "hdr_Timestamp tipHeader < hdr_Timestamp (blk_Header block)" if "hdr_Timestamp tipHeader + 1 \<noteq> 0"
  proof -
    have "unat (hdr_Timestamp tipHeader + 1) = Suc (unat (hdr_Timestamp tipHeader))" using that by (metis add.commute unatSuc)
    then show ?thesis unfolding hdr(3) block_timestamp_def Let_def by (auto simp: word_less_nat_alt word_le_nat_alt)
  qed
  moreover have "tx_Outputs (blk_Transactions block ! 0) = [\<lparr>out_Value = ?v, out_PkScript = rewardScript\<rparr>]"
    by (simp add: txs buildCoinbaseWithExtra_def Let_def)
  ultimately show ?thesis using valid txs by auto
qed

definition demo_round :: round_env where
  "demo_round = \<lparr>rd_ctxDone = False, rd_tip = HashBlockHeader demo_tip, rd_now = 2000000000, rd_events = demo_events\<rparr>"

lemma demo_mined:
  "\<exists>block. MineOne demo_engine True 1 Regtest [] (HashBlockHeader demo_tip) 10 (Some demo_tip) (\<lambda>_. None) (BlockTemplate [] NewMempool) 0
     [demo_round] = Some (Inr (Some block), 1) \<and> length (blk_Transactions block) = 1"
proof -
  have sel: "select_template Regtest (BlockTemplate [] NewMempool) = ([], 0)"
    by (simp add: select_template_def BlockTemplate_def GetAllEntries_def sort_slice_def)
  have prep: "\<exists>h. PrepareHeader demo_engine header demo_tip 10 (\<lambda>_. None) Regtest = Some h" for header
    by (simp add: PrepareHeader_def calcExpectedBits_def demo_engine_def bitcoin_CalcNextBits_def Regtest_def)
  have search: "searchNonceSpace demo_engine True (Suc 0) h (CompactToHash bits) txs tip 0 demo_events =
      Some (Some \<lparr>blk_Header = h\<lparr>hdr_Nonce := 0\<rparr>, blk_Transactions = txs\<rparr>,
        search_run demo_engine True (CompactToHash bits) tip demo_events (start_search h (Suc 0) tip 0))" for h bits txs tip
    by (simp add: searchNonceSpace_def demo_search all_finished_def Let_def)
  show ?thesis
    unfolding MineOne_def sel using prep [of "round_header j 0 2000000000" for j]
    by (auto simp: demo_round_def search demo_search round_txs_def Let_def split: option.splits)
qed

theorem mined_block_valid_witness:
  "\<exists>block. MineOne demo_engine True 1 Regtest [] (HashBlockHeader demo_tip) 10 (Some demo_tip) (\<lambda>_. None) (BlockTemplate [] NewMempool) 0
     [demo_round] = Some (Inr (Some block), 1) \<and> ValidateBlockStructure block 11 Regtest None None = Inr ()"
proof -
  obtain block where b: "MineOne demo_engine True 1 Regtest [] (HashBlockHeader demo_tip) 10 (Some demo_tip) (\<lambda>_. None)
      (BlockTemplate [] NewMempool) 0 [demo_round] = Some (Inr (Some block), 1)" "length (blk_Transactions block) = 1"
    using demo_mined by blast
  have "tl (blk_Transactions block) = []" using b(2) by (cases "blk_Transactions block") auto
  then have "ValidateBlockStructure block (10 + 1) Regtest None None = Inr ()"
    using mined_block_valid [OF b(1) mempool_runs.start] by (simp add: NewMempool_sel Regtest_def)
  then show ?thesis using b(1) by auto
qed

end
