(* ===== verification/Aes.thy ===== *)
theory Aes
  imports Prelude
begin

unbundle bit_operations_syntax

text \<open>
  The encryption of the wallet file (\<^verbatim>\<open>aesEncrypt\<close>, \<^verbatim>\<open>aesDecrypt\<close>, \<^verbatim>\<open>pkcs7Pad\<close> and \<^verbatim>\<open>pkcs7Unpad\<close> of
  \<^verbatim>\<open>internal/wallet/hdwallet.go\<close>), over AES (FIPS 197, the \<^verbatim>\<open>crypto/aes\<close> of Go's standard library) and the CBC mode of
  \<^verbatim>\<open>crypto/cipher\<close>. The initialisation vector that \<^verbatim>\<open>rand.Read\<close> draws is an argument, absent when the read fails.
  CBC is shown to be inverted for every block cipher; AES is shown to be one.
\<close>

section \<open>AES\<close>

definition sbox :: "byte list list" where
  "sbox = [
     [0x63, 0x7c, 0x77, 0x7b, 0xf2, 0x6b, 0x6f, 0xc5, 0x30, 0x01, 0x67, 0x2b, 0xfe, 0xd7, 0xab, 0x76],
     [0xca, 0x82, 0xc9, 0x7d, 0xfa, 0x59, 0x47, 0xf0, 0xad, 0xd4, 0xa2, 0xaf, 0x9c, 0xa4, 0x72, 0xc0],
     [0xb7, 0xfd, 0x93, 0x26, 0x36, 0x3f, 0xf7, 0xcc, 0x34, 0xa5, 0xe5, 0xf1, 0x71, 0xd8, 0x31, 0x15],
     [0x04, 0xc7, 0x23, 0xc3, 0x18, 0x96, 0x05, 0x9a, 0x07, 0x12, 0x80, 0xe2, 0xeb, 0x27, 0xb2, 0x75],
     [0x09, 0x83, 0x2c, 0x1a, 0x1b, 0x6e, 0x5a, 0xa0, 0x52, 0x3b, 0xd6, 0xb3, 0x29, 0xe3, 0x2f, 0x84],
     [0x53, 0xd1, 0x00, 0xed, 0x20, 0xfc, 0xb1, 0x5b, 0x6a, 0xcb, 0xbe, 0x39, 0x4a, 0x4c, 0x58, 0xcf],
     [0xd0, 0xef, 0xaa, 0xfb, 0x43, 0x4d, 0x33, 0x85, 0x45, 0xf9, 0x02, 0x7f, 0x50, 0x3c, 0x9f, 0xa8],
     [0x51, 0xa3, 0x40, 0x8f, 0x92, 0x9d, 0x38, 0xf5, 0xbc, 0xb6, 0xda, 0x21, 0x10, 0xff, 0xf3, 0xd2],
     [0xcd, 0x0c, 0x13, 0xec, 0x5f, 0x97, 0x44, 0x17, 0xc4, 0xa7, 0x7e, 0x3d, 0x64, 0x5d, 0x19, 0x73],
     [0x60, 0x81, 0x4f, 0xdc, 0x22, 0x2a, 0x90, 0x88, 0x46, 0xee, 0xb8, 0x14, 0xde, 0x5e, 0x0b, 0xdb],
     [0xe0, 0x32, 0x3a, 0x0a, 0x49, 0x06, 0x24, 0x5c, 0xc2, 0xd3, 0xac, 0x62, 0x91, 0x95, 0xe4, 0x79],
     [0xe7, 0xc8, 0x37, 0x6d, 0x8d, 0xd5, 0x4e, 0xa9, 0x6c, 0x56, 0xf4, 0xea, 0x65, 0x7a, 0xae, 0x08],
     [0xba, 0x78, 0x25, 0x2e, 0x1c, 0xa6, 0xb4, 0xc6, 0xe8, 0xdd, 0x74, 0x1f, 0x4b, 0xbd, 0x8b, 0x8a],
     [0x70, 0x3e, 0xb5, 0x66, 0x48, 0x03, 0xf6, 0x0e, 0x61, 0x35, 0x57, 0xb9, 0x86, 0xc1, 0x1d, 0x9e],
     [0xe1, 0xf8, 0x98, 0x11, 0x69, 0xd9, 0x8e, 0x94, 0x9b, 0x1e, 0x87, 0xe9, 0xce, 0x55, 0x28, 0xdf],
     [0x8c, 0xa1, 0x89, 0x0d, 0xbf, 0xe6, 0x42, 0x68, 0x41, 0x99, 0x2d, 0x0f, 0xb0, 0x54, 0xbb, 0x16]]"

definition inv_sbox :: "byte list list" where
  "inv_sbox = [
     [0x52, 0x09, 0x6a, 0xd5, 0x30, 0x36, 0xa5, 0x38, 0xbf, 0x40, 0xa3, 0x9e, 0x81, 0xf3, 0xd7, 0xfb],
     [0x7c, 0xe3, 0x39, 0x82, 0x9b, 0x2f, 0xff, 0x87, 0x34, 0x8e, 0x43, 0x44, 0xc4, 0xde, 0xe9, 0xcb],
     [0x54, 0x7b, 0x94, 0x32, 0xa6, 0xc2, 0x23, 0x3d, 0xee, 0x4c, 0x95, 0x0b, 0x42, 0xfa, 0xc3, 0x4e],
     [0x08, 0x2e, 0xa1, 0x66, 0x28, 0xd9, 0x24, 0xb2, 0x76, 0x5b, 0xa2, 0x49, 0x6d, 0x8b, 0xd1, 0x25],
     [0x72, 0xf8, 0xf6, 0x64, 0x86, 0x68, 0x98, 0x16, 0xd4, 0xa4, 0x5c, 0xcc, 0x5d, 0x65, 0xb6, 0x92],
     [0x6c, 0x70, 0x48, 0x50, 0xfd, 0xed, 0xb9, 0xda, 0x5e, 0x15, 0x46, 0x57, 0xa7, 0x8d, 0x9d, 0x84],
     [0x90, 0xd8, 0xab, 0x00, 0x8c, 0xbc, 0xd3, 0x0a, 0xf7, 0xe4, 0x58, 0x05, 0xb8, 0xb3, 0x45, 0x06],
     [0xd0, 0x2c, 0x1e, 0x8f, 0xca, 0x3f, 0x0f, 0x02, 0xc1, 0xaf, 0xbd, 0x03, 0x01, 0x13, 0x8a, 0x6b],
     [0x3a, 0x91, 0x11, 0x41, 0x4f, 0x67, 0xdc, 0xea, 0x97, 0xf2, 0xcf, 0xce, 0xf0, 0xb4, 0xe6, 0x73],
     [0x96, 0xac, 0x74, 0x22, 0xe7, 0xad, 0x35, 0x85, 0xe2, 0xf9, 0x37, 0xe8, 0x1c, 0x75, 0xdf, 0x6e],
     [0x47, 0xf1, 0x1a, 0x71, 0x1d, 0x29, 0xc5, 0x89, 0x6f, 0xb7, 0x62, 0x0e, 0xaa, 0x18, 0xbe, 0x1b],
     [0xfc, 0x56, 0x3e, 0x4b, 0xc6, 0xd2, 0x79, 0x20, 0x9a, 0xdb, 0xc0, 0xfe, 0x78, 0xcd, 0x5a, 0xf4],
     [0x1f, 0xdd, 0xa8, 0x33, 0x88, 0x07, 0xc7, 0x31, 0xb1, 0x12, 0x10, 0x59, 0x27, 0x80, 0xec, 0x5f],
     [0x60, 0x51, 0x7f, 0xa9, 0x19, 0xb5, 0x4a, 0x0d, 0x2d, 0xe5, 0x7a, 0x9f, 0x93, 0xc9, 0x9c, 0xef],
     [0xa0, 0xe0, 0x3b, 0x4d, 0xae, 0x2a, 0xf5, 0xb0, 0xc8, 0xeb, 0xbb, 0x3c, 0x83, 0x53, 0x99, 0x61],
     [0x17, 0x2b, 0x04, 0x7e, 0xba, 0x77, 0xd6, 0x26, 0xe1, 0x69, 0x14, 0x63, 0x55, 0x21, 0x0c, 0x7d]]"

definition SubByte :: "byte \<Rightarrow> byte" where
  "SubByte b = sbox ! (unat b div 16) ! (unat b mod 16)"

definition InvSubByte :: "byte \<Rightarrow> byte" where
  "InvSubByte b = inv_sbox ! (unat b div 16) ! (unat b mod 16)"

definition xor_bytes :: "bytes \<Rightarrow> bytes \<Rightarrow> bytes" where
  "xor_bytes a b = map2 (XOR) a b"

text \<open>The state is 16 bytes, column by column.\<close>

definition ShiftRows :: "bytes \<Rightarrow> bytes" where
  "ShiftRows s = map (\<lambda>i. s ! i) [0, 5, 10, 15, 4, 9, 14, 3, 8, 13, 2, 7, 12, 1, 6, 11]"

definition InvShiftRows :: "bytes \<Rightarrow> bytes" where
  "InvShiftRows s = map (\<lambda>i. s ! i) [0, 13, 10, 7, 4, 1, 14, 11, 8, 5, 2, 15, 12, 9, 6, 3]"

definition xtime :: "byte \<Rightarrow> byte" where
  "xtime b = push_bit 1 b XOR (if bit b 7 then 0x1b else 0)"

fun MixColumns :: "bytes \<Rightarrow> bytes" where
  "MixColumns (a # b # c # d # s) =
     (xtime a XOR xtime b XOR b XOR c XOR d) # (a XOR xtime b XOR xtime c XOR c XOR d)
     # (a XOR b XOR xtime c XOR xtime d XOR d) # (xtime a XOR a XOR b XOR c XOR xtime d) # MixColumns s"
| "MixColumns s = s"

definition mul9 :: "byte \<Rightarrow> byte" where "mul9 x = xtime (xtime (xtime x)) XOR x"
definition mul11 :: "byte \<Rightarrow> byte" where "mul11 x = xtime (xtime (xtime x)) XOR xtime x XOR x"
definition mul13 :: "byte \<Rightarrow> byte" where "mul13 x = xtime (xtime (xtime x)) XOR xtime (xtime x) XOR x"
definition mul14 :: "byte \<Rightarrow> byte" where "mul14 x = xtime (xtime (xtime x)) XOR xtime (xtime x) XOR xtime x"

fun InvMixColumns :: "bytes \<Rightarrow> bytes" where
  "InvMixColumns (a # b # c # d # s) =
     (mul14 a XOR mul11 b XOR mul13 c XOR mul9 d) # (mul9 a XOR mul14 b XOR mul11 c XOR mul13 d)
     # (mul13 a XOR mul9 b XOR mul14 c XOR mul11 d) # (mul11 a XOR mul13 b XOR mul9 c XOR mul14 d) # InvMixColumns s"
| "InvMixColumns s = s"

text \<open>
  The key schedule: from the words so far, last first, the next word. The round constants are the powers of x.
\<close>

definition Rcon :: "nat \<Rightarrow> byte" where
  "Rcon n = (xtime ^^ (n - 1)) 1"

definition next_word :: "nat \<Rightarrow> nat \<Rightarrow> bytes list \<Rightarrow> bytes" where
  "next_word nk i ws =
     (let temp = ws ! 0;
          temp' = (if i mod nk = 0 then xor_bytes (map SubByte (rotate1 temp)) [Rcon (i div nk), 0, 0, 0]
                   else if 6 < nk \<and> i mod nk = 4 then map SubByte temp else temp)
      in xor_bytes (ws ! (nk - 1)) temp')"

primrec expand_words :: "nat \<Rightarrow> nat \<Rightarrow> nat \<Rightarrow> bytes list \<Rightarrow> bytes list" where
  "expand_words nk i 0 ws = ws"
| "expand_words nk i (Suc n) ws = expand_words nk (Suc i) n (next_word nk i ws # ws)"

fun group4 :: "'a list \<Rightarrow> 'a list list" where
  "group4 (a # b # c # d # s) = [a, b, c, d] # group4 s"
| "group4 _ = []"

definition KeyExpansion :: "bytes \<Rightarrow> bytes list" where
  "KeyExpansion key =
     (let nk = length key div 4
      in map concat (group4 (rev (expand_words nk nk (4 * (nk + 7) - nk) (rev (group4 key))))))"

definition aes_round :: "bytes \<Rightarrow> bytes \<Rightarrow> bytes" where
  "aes_round k s = xor_bytes (MixColumns (ShiftRows (map SubByte s))) k"

definition aes_inv_round :: "bytes \<Rightarrow> bytes \<Rightarrow> bytes" where
  "aes_inv_round k s = map InvSubByte (InvShiftRows (InvMixColumns (xor_bytes s k)))"

definition aes_Encrypt :: "bytes \<Rightarrow> bytes \<Rightarrow> bytes" where
  "aes_Encrypt key s =
     (let ks = KeyExpansion key; s = fold aes_round (butlast (tl ks)) (xor_bytes s (ks ! 0))
      in xor_bytes (ShiftRows (map SubByte s)) (last ks))"

definition aes_Decrypt :: "bytes \<Rightarrow> bytes \<Rightarrow> bytes" where
  "aes_Decrypt key s =
     (let ks = KeyExpansion key; s = map InvSubByte (InvShiftRows (xor_bytes s (last ks)))
      in xor_bytes (fold aes_inv_round (rev (butlast (tl ks))) s) (ks ! 0))"

definition aes_KeyOk :: "bytes \<Rightarrow> bool" where
  "aes_KeyOk key \<longleftrightarrow> length key = 16 \<or> length key = 24 \<or> length key = 32"

section \<open>Cipher block chaining\<close>

fun cbc_encrypt :: "(bytes \<Rightarrow> bytes) \<Rightarrow> bytes \<Rightarrow> bytes \<Rightarrow> bytes" where
  "cbc_encrypt E iv p =
     (if p = [] then [] else let c = E (xor_bytes (take 16 p) iv) in c @ cbc_encrypt E c (drop 16 p))"

fun cbc_decrypt :: "(bytes \<Rightarrow> bytes) \<Rightarrow> bytes \<Rightarrow> bytes \<Rightarrow> bytes" where
  "cbc_decrypt D iv c =
     (if c = [] then [] else xor_bytes (D (take 16 c)) iv @ cbc_decrypt D (take 16 c) (drop 16 c))"

declare cbc_encrypt.simps [simp del] cbc_decrypt.simps [simp del]

section \<open>Padding, encryption and decryption\<close>

datatype aes_error =
    ErrAesKeySize nat
  | ErrRand
  | ErrNotBlockAligned
  | ErrInvalidPadding
  | PanicIVLength

definition pkcs7Pad :: "bytes \<Rightarrow> nat \<Rightarrow> bytes" where
  "pkcs7Pad data blockSize =
     (let padding = blockSize - length data mod blockSize in data @ replicate padding (of_nat padding))"

definition pkcs7Unpad :: "bytes \<Rightarrow> nat \<Rightarrow> aes_error + bytes" where
  "pkcs7Unpad data blockSize =
     (if length data = 0 \<or> length data mod blockSize \<noteq> 0 then Inl ErrInvalidPadding
      else let padLen = unat (data ! (length data - 1)) in
        if padLen = 0 \<or> padLen > blockSize then Inl ErrInvalidPadding
        else if list_ex (\<lambda>i. data ! i \<noteq> of_nat padLen) [length data - padLen ..< length data] then Inl ErrInvalidPadding
        else Inr (take (length data - padLen) data))"

definition aesEncrypt :: "bytes option \<Rightarrow> bytes \<Rightarrow> bytes \<Rightarrow> aes_error + bytes \<times> bytes" where
  "aesEncrypt rand key plaintext =
     (if \<not> aes_KeyOk key then Inl (ErrAesKeySize (length key))
      else case rand of None \<Rightarrow> Inl ErrRand
      | Some iv \<Rightarrow> Inr (cbc_encrypt (aes_Encrypt key) iv (pkcs7Pad plaintext 16), iv))"

text \<open>\<^verbatim>\<open>cipher.NewCBCDecrypter\<close> panics on an initialisation vector that is not one block long.\<close>

definition aesDecrypt :: "bytes \<Rightarrow> bytes \<Rightarrow> bytes \<Rightarrow> aes_error + bytes" where
  "aesDecrypt key iv ciphertext =
     (if \<not> aes_KeyOk key then Inl (ErrAesKeySize (length key))
      else if length ciphertext mod 16 \<noteq> 0 then Inl ErrNotBlockAligned
      else if length iv \<noteq> 16 then Inl PanicIVLength
      else pkcs7Unpad (cbc_decrypt (aes_Decrypt key) iv ciphertext) 16)"

section \<open>AES is a block cipher\<close>

lemma sbox_rows: "map (map InvSubByte) sbox = map (\<lambda>i. map (\<lambda>j. of_nat (16 * i + j)) [0..<16]) [0..<16]"
  by code_simp

lemma sbox_row: "i < 16 \<Longrightarrow> j < 16 \<Longrightarrow> InvSubByte (sbox ! i ! j) = of_nat (16 * i + j)"
proof -
  assume i: "i < 16" and j: "j < 16"
  have l: "length sbox = 16" "\<forall>r\<in>set sbox. length r = 16" by (simp_all add: sbox_def)
  have "map (map InvSubByte) sbox ! i ! j = of_nat (16 * i + j)"
    unfolding sbox_rows using i j by simp
  with l i j show ?thesis by simp
qed

lemma InvSubByte_SubByte [simp]: "InvSubByte (SubByte b) = b"
proof -
  have "unat b div 16 < 16" using byte_less [of b] by (simp add: less_mult_imp_div_less)
  then have "InvSubByte (SubByte b) = of_nat (16 * (unat b div 16) + unat b mod 16)"
    by (simp add: SubByte_def sbox_row del: of_nat_add of_nat_mult)
  then show ?thesis by (simp del: of_nat_add of_nat_mult)
qed

lemma length_xor_bytes [simp]: "length (xor_bytes a b) = min (length a) (length b)"
  by (simp add: xor_bytes_def)

lemma xor_bytes_cancel [simp]: "length a = length b \<Longrightarrow> xor_bytes (xor_bytes a b) b = a"
  by (rule nth_equalityI) (simp_all add: xor_bytes_def xor.assoc)

lemma length_16: "length s = 16 \<longleftrightarrow> (\<exists>a0 a1 a2 a3 a4 a5 a6 a7 a8 a9 a10 a11 a12 a13 a14 a15.
    s = [a0, a1, a2, a3, a4, a5, a6, a7, a8, a9, a10, a11, a12, a13, a14, a15])"
  by (auto simp: numeral_eq_Suc length_Suc_conv)

lemma InvShiftRows_ShiftRows [simp]: "length s = 16 \<Longrightarrow> InvShiftRows (ShiftRows s) = s"
  by (auto simp: length_16 ShiftRows_def InvShiftRows_def)

lemma length_ShiftRows [simp]: "length (ShiftRows s) = 16" "length (InvShiftRows s) = 16"
  by (simp_all add: ShiftRows_def InvShiftRows_def)

lemma xtime_xor: "xtime (a XOR b) = xtime a XOR xtime b"
  by (rule bit_eqI) (auto simp: xtime_def bit_simps)

lemma xor_left_self: "a XOR (a XOR b) = b" for a b :: byte
  by (simp flip: xor.assoc)

lemmas xor_norm = xor.assoc xor.commute xor.left_commute xor_left_self

lemma InvMixColumns_MixColumns [simp]: "InvMixColumns (MixColumns s) = s"
  by (induction s rule: MixColumns.induct)
     (simp_all only: MixColumns.simps InvMixColumns.simps mul9_def mul11_def mul13_def mul14_def xtime_xor xor_norm
        xor_self_eq xor.right_neutral xor.left_neutral)

lemma length_MixColumns [simp]: "length (MixColumns s) = length s"
  by (induction s rule: MixColumns.induct) simp_all

lemma length_InvMixColumns [simp]: "length (InvMixColumns s) = length s"
  by (induction s rule: InvMixColumns.induct) simp_all

lemma aes_inv_round_round: "length s = 16 \<Longrightarrow> length k = 16 \<Longrightarrow> aes_inv_round k (aes_round k s) = s"
  by (simp add: aes_inv_round_def aes_round_def o_def)

lemma length_aes_round [simp]: "length k = 16 \<Longrightarrow> length (aes_round k s) = 16"
  by (simp add: aes_round_def)

lemma fold_aes_rounds:
  "\<forall>k\<in>set ks. length k = 16 \<Longrightarrow> length s = 16 \<Longrightarrow>
     length (fold aes_round ks s) = 16 \<and> fold aes_inv_round (rev ks) (fold aes_round ks s) = s"
  by (induction ks arbitrary: s) (simp_all add: aes_inv_round_round)

text \<open>The key schedule yields round keys of 16 bytes, \<open>nk + 7\<close> of them.\<close>

lemma group4_append: "length xs = 4 \<Longrightarrow> group4 (xs @ ys) = xs # group4 ys"
  by (auto simp: numeral_eq_Suc length_Suc_conv)

lemma group4_lengths: "xs \<in> set (group4 s) \<Longrightarrow> length xs = 4 \<and> set xs \<subseteq> set s"
  by (induction s rule: group4.induct) auto

lemma length_group4: "length (group4 s) = length s div 4"
  by (induction s rule: group4.induct) (simp_all add: div_add_self1)

lemma length_next_word:
  assumes "\<forall>w\<in>set ws. length w = 4" "nk \<le> length ws" "0 < nk"
  shows "length (next_word nk i ws) = 4"
proof -
  have "length (ws ! 0) = 4" "length (ws ! (nk - 1)) = 4" using assms by (auto intro!: nth_mem)
  then show ?thesis by (simp add: next_word_def Let_def)
qed

lemma expand_words_shape:
  assumes "\<forall>w\<in>set ws. length w = 4" "nk \<le> length ws" "0 < nk"
  shows "length (expand_words nk i n ws) = length ws + n \<and> (\<forall>w\<in>set (expand_words nk i n ws). length w = 4)"
  using assms
proof (induction n arbitrary: i ws)
  case (Suc n)
  have "length (expand_words nk (Suc i) n (next_word nk i ws # ws)) = length (next_word nk i ws # ws) + n
      \<and> (\<forall>w\<in>set (expand_words nk (Suc i) n (next_word nk i ws # ws)). length w = 4)"
    using Suc.prems length_next_word [OF Suc.prems, of i] by (intro Suc.IH) (simp_all only: set_simps ball_simps list.size, linarith?)
  then show ?case by (simp only: expand_words.simps list.size) linarith
qed simp

lemma length_concat4: "length xs = 4 \<Longrightarrow> \<forall>w\<in>set xs. length w = 4 \<Longrightarrow> length (concat xs) = 16"
  by (auto simp: numeral_eq_Suc length_Suc_conv)

lemma KeyExpansion_shape:
  assumes "aes_KeyOk key"
  shows "length (KeyExpansion key) = length key div 4 + 7" "k \<in> set (KeyExpansion key) \<Longrightarrow> length k = 16"
proof -
  let ?nk = "length key div 4"
  define ws where "ws = expand_words ?nk ?nk (4 * (?nk + 7) - ?nk) (rev (group4 key))"
  have nk: "0 < ?nk" using assms by (auto simp: aes_KeyOk_def)
  have w0: "\<forall>w\<in>set (rev (group4 key)). length w = 4" using group4_lengths [of _ key] by simp
  have "length ws = ?nk + (4 * (?nk + 7) - ?nk)" "\<forall>w\<in>set ws. length w = 4"
    using expand_words_shape [OF w0 _ nk, of ?nk "4 * (?nk + 7) - ?nk"] unfolding ws_def length_rev length_group4
    by blast+
  then have ws: "length ws = 4 * (?nk + 7)" "\<forall>w\<in>set ws. length w = 4" by simp_all
  have e: "KeyExpansion key = map concat (group4 (rev ws))" by (simp add: KeyExpansion_def Let_def ws_def)
  show "length (KeyExpansion key) = ?nk + 7" by (simp add: e length_group4 ws(1))
  show "length k = 16" if k: "k \<in> set (KeyExpansion key)"
  proof -
    from k obtain g where g: "g \<in> set (group4 (rev ws))" "k = concat g" by (auto simp: e)
    with group4_lengths [OF g(1)] ws(2) show ?thesis by (simp add: length_concat4 subset_iff)
  qed
qed

lemma KeyExpansion_keys:
  assumes "aes_KeyOk key"
  obtains k0 ks kl where "KeyExpansion key = k0 # ks @ [kl]" "length k0 = 16" "length kl = 16" "\<forall>k\<in>set ks. length k = 16"
proof -
  note shape = KeyExpansion_shape [OF assms]
  obtain k0 r where r: "KeyExpansion key = k0 # r" using shape(1) by (cases "KeyExpansion key") simp_all
  with shape(1) have "r \<noteq> []" by auto
  then have r': "KeyExpansion key = k0 # butlast r @ [last r]" using r by simp
  have "\<forall>k\<in>set (butlast r). length k = 16" using shape(2) by (simp add: r')
  moreover have "length k0 = 16" "length (last r) = 16" using shape(2) by (simp_all add: r')
  ultimately show thesis using r' that by blast
qed

lemma aes_Decrypt_Encrypt:
  assumes "aes_KeyOk key" "length s = 16"
  shows "length (aes_Encrypt key s) = 16 \<and> aes_Decrypt key (aes_Encrypt key s) = s"
proof -
  obtain k0 ks kl where k: "KeyExpansion key = k0 # ks @ [kl]" "length k0 = 16" "length kl = 16" "\<forall>k\<in>set ks. length k = 16"
    using assms(1) by (rule KeyExpansion_keys)
  show ?thesis
    using fold_aes_rounds [OF k(4), of "xor_bytes s k0"] k(2,3) assms(2)
    by (simp add: aes_Encrypt_def aes_Decrypt_def k(1) Let_def butlast_append o_def)
qed

section \<open>Chaining inverts every block cipher\<close>

locale block_cipher =
  fixes E D :: "'k \<Rightarrow> bytes \<Rightarrow> bytes" and ok :: "'k \<Rightarrow> bool"
  assumes length_E: "ok k \<Longrightarrow> length b = 16 \<Longrightarrow> length (E k b) = 16"
    and D_E: "ok k \<Longrightarrow> length b = 16 \<Longrightarrow> D k (E k b) = b"
begin

lemma cbc_inverse:
  assumes "ok k" "length iv = 16" "length p mod 16 = 0"
  shows "length (cbc_encrypt (E k) iv p) = length p \<and> cbc_decrypt (D k) iv (cbc_encrypt (E k) iv p) = p"
  using assms(2,3)
proof (induction "E k" iv p rule: cbc_encrypt.induct)
  case (1 iv p)
  show ?case
  proof (cases "p = []")
    case False
    let ?c = "E k (xor_bytes (take 16 p) iv)"
    have l: "16 \<le> length p" using False 1(3) by (metis dvd_imp_le length_greater_0_conv mod_0_imp_dvd)
    have t: "length (xor_bytes (take 16 p) iv) = 16" using l 1(2) by simp
    have c: "length ?c = 16" "D k ?c = xor_bytes (take 16 p) iv" using length_E [OF assms(1) t] D_E [OF assms(1) t] by auto
    have m: "length (drop 16 p) mod 16 = 0" using 1(3) l by (simp add: mod_if)
    have ih: "length (cbc_encrypt (E k) ?c (drop 16 p)) = length (drop 16 p)"
      "cbc_decrypt (D k) ?c (cbc_encrypt (E k) ?c (drop 16 p)) = drop 16 p"
      using 1(1) [OF False refl c(1) m] by auto
    have e: "cbc_encrypt (E k) iv p = ?c @ cbc_encrypt (E k) ?c (drop 16 p)"
      using False by (simp add: cbc_encrypt.simps [of _ iv p] Let_def)
    have "cbc_decrypt (D k) iv (cbc_encrypt (E k) iv p)
        = xor_bytes (D k ?c) iv @ cbc_decrypt (D k) ?c (cbc_encrypt (E k) ?c (drop 16 p))"
      unfolding e using c(1) by (subst cbc_decrypt.simps) auto
    with ih c l 1(2) show ?thesis by (simp add: e)
  qed (simp add: cbc_encrypt.simps cbc_decrypt.simps)
qed

end

interpretation aes: block_cipher aes_Encrypt aes_Decrypt aes_KeyOk
  using aes_Decrypt_Encrypt by unfold_locales blast+

section \<open>Padding\<close>

lemma length_pkcs7Pad: "length (pkcs7Pad data 16) mod 16 = 0"
proof -
  have "length (pkcs7Pad data 16) = 16 * (length data div 16 + 1)"
    unfolding pkcs7Pad_def Let_def length_append length_replicate by presburger
  then show ?thesis by simp
qed

lemma pkcs7Unpad_Pad: "pkcs7Unpad (pkcs7Pad data 16) 16 = Inr data"
proof -
  define n where "n = 16 - length data mod 16"
  have n: "0 < n" "n \<le> 16" by (simp_all add: n_def less_diff_conv)
  then have u: "unat (of_nat n :: byte) = n" by (simp add: unat_of_nat)
  have p: "pkcs7Pad data 16 = data @ replicate n (of_nat n)" by (simp add: pkcs7Pad_def n_def)
  have nth: "(data @ replicate n (of_nat n)) ! (length data + n - 1) = (of_nat n :: byte)"
    using n by (subst nth_append_right) simp_all
  have fill: "(data @ replicate n (of_nat n)) ! i = (of_nat n :: byte)" if "i \<in> {length data..<length data + n}" for i
    using that by (subst nth_append_right) auto
  show ?thesis
    using length_pkcs7Pad [of data] n nth fill
    unfolding pkcs7Unpad_def p by (simp add: u Let_def list_ex_iff)
qed

lemma aesDecrypt_Encrypt:
  assumes "aes_KeyOk key" "length iv = 16"
  shows "\<exists>ciphertext. aesEncrypt (Some iv) key plaintext = Inr (ciphertext, iv)
     \<and> aesDecrypt key iv ciphertext = Inr plaintext"
proof -
  note inv = aes.cbc_inverse [OF assms length_pkcs7Pad [of plaintext]]
  then show ?thesis
    using assms length_pkcs7Pad [of plaintext] by (simp add: aesEncrypt_def aesDecrypt_def pkcs7Unpad_Pad)
qed

section \<open>Properties\<close>

text \<open>The encryption of the wallet file is inverted by its decryption: for every AES key (16, 24 or 32 bytes), every
  initialisation vector of one block and every plaintext, \<^verbatim>\<open>aesEncrypt\<close> succeeds, and \<^verbatim>\<open>aesDecrypt\<close> of its ciphertext
  with the same key returns the plaintext.\<close>

theorem aes_roundtrip:
  assumes "aes_KeyOk key" "length iv = 16"
  shows "\<exists>ciphertext. aesEncrypt (Some iv) key plaintext = Inr (ciphertext, iv)
     \<and> aesDecrypt key iv ciphertext = Inr plaintext"
  using assms by (rule aesDecrypt_Encrypt)

theorem aes_roundtrip_witness:
  "\<exists>ciphertext. aesEncrypt (Some (replicate 16 1)) (replicate 32 7) [1, 2, 3] = Inr (ciphertext, replicate 16 1)
     \<and> aesDecrypt (replicate 32 7) (replicate 16 1) ciphertext = Inr [1, 2, 3]"
  by (rule aes_roundtrip) (simp_all add: aes_KeyOk_def)

lemma aes256_fips197:
  "aes_Encrypt (map of_nat [0..<32]) [0x00, 0x11, 0x22, 0x33, 0x44, 0x55, 0x66, 0x77, 0x88, 0x99, 0xaa, 0xbb, 0xcc, 0xdd, 0xee, 0xff]
   = [0x8e, 0xa2, 0xb7, 0xca, 0x51, 0x67, 0x45, 0xbf, 0xea, 0xfc, 0x49, 0x90, 0x4b, 0x49, 0x60, 0x89]"
  by code_simp

end
