(* ===== verification/Base58.thy ===== *)
theory Base58
  imports Target
begin

text \<open>
  The text encodings of addresses and private keys (\<^verbatim>\<open>internal/crypto/base58.go\<close>): Base58, Base58Check with its
  double-SHA-256 checksum, addresses and the wallet import format. Strings are lists of characters. The encodings are
  shown to be canonical: a string decodes to a value exactly when it is the encoding of that value.
\<close>

section \<open>Base58\<close>

definition base58Alphabet :: string where
  "base58Alphabet = ''123456789ABCDEFGHJKLMNPQRSTUVWXYZabcdefghijkmnopqrstuvwxyz''"

datatype base58_error =
    ErrBase58Character
  | ErrBase58TooShort
  | ErrBase58Checksum
  | ErrAddressLength
  | ErrWIFVersion byte
  | ErrWIFCompression byte
  | ErrWIFLength nat

text \<open>The digits in the order in which the loop appends them, least significant first.\<close>

fun base58_loop :: "nat \<Rightarrow> string" where
  "base58_loop x = (if x = 0 then [] else base58Alphabet ! (x mod 58) # base58_loop (x div 58))"

declare base58_loop.simps [simp del]

definition Base58Encode :: "bytes \<Rightarrow> string" where
  "Base58Encode b =
     rev (base58_loop (nat (big_SetBytes b)) @ replicate (length (takeWhile (\<lambda>x. x = 0) b)) (base58Alphabet ! 0))"

primrec alphabet_index :: "nat \<Rightarrow> string \<Rightarrow> char \<Rightarrow> int" where
  "alphabet_index i [] c = -1"
| "alphabet_index i (a # as) c = (if a = c then int i else alphabet_index (Suc i) as c)"

definition base58AlphabetIndex :: "char \<Rightarrow> int" where
  "base58AlphabetIndex c = alphabet_index 0 base58Alphabet c"

primrec base58_value :: "string \<Rightarrow> int \<Rightarrow> base58_error + int" where
  "base58_value [] result = Inr result"
| "base58_value (c # s) result =
     (let idx = base58AlphabetIndex c in
      if idx < 0 then Inl ErrBase58Character else base58_value s (result * 58 + idx))"

definition Base58Decode :: "string \<Rightarrow> base58_error + bytes" where
  "Base58Decode s =
     rbind (base58_value s 0) (\<lambda>result.
       let numLeadingZeros = length (takeWhile (\<lambda>c. c = base58Alphabet ! 0) s)
       in Inr (replicate numLeadingZeros 0 @ big_Bytes result))"

definition base58Checksum :: "bytes \<Rightarrow> bytes" where
  "base58Checksum payload = take 4 (Sum256 (Sum256 payload))"

definition Base58CheckEncode :: "byte \<Rightarrow> bytes \<Rightarrow> string" where
  "Base58CheckEncode version payload =
     (let versioned = version # payload in Base58Encode (versioned @ base58Checksum versioned))"

definition Base58CheckDecode :: "string \<Rightarrow> base58_error + byte \<times> bytes" where
  "Base58CheckDecode address =
     rbind (Base58Decode address) (\<lambda>decoded.
       if length decoded < 5 then Inl ErrBase58TooShort
       else let body = take (length decoded - 4) decoded in
         if base58Checksum body \<noteq> drop (length decoded - 4) decoded then Inl ErrBase58Checksum
         else Inr (decoded ! 0, drop 1 body))"

section \<open>Addresses and private keys\<close>

definition PubKeyHashToAddress :: "bytes \<Rightarrow> byte \<Rightarrow> string" where
  "PubKeyHashToAddress pubKeyHash version = Base58CheckEncode version pubKeyHash"

definition AddressToPubKeyHash :: "string \<Rightarrow> base58_error + byte \<times> bytes" where
  "AddressToPubKeyHash address =
     rbind (Base58CheckDecode address) (\<lambda>(ver, payload).
       if length payload \<noteq> 20 then Inl ErrAddressLength else Inr (ver, payload))"

definition WIFVersionMainnet :: byte where "WIFVersionMainnet = 0x80"
definition WIFVersionTestnet :: byte where "WIFVersionTestnet = 0xEF"

definition EncodeWIF :: "bytes \<Rightarrow> byte \<Rightarrow> string" where
  "EncodeWIF privKey addrVersion =
     (let wifVersion = (if addrVersion \<noteq> 0 then WIFVersionTestnet else WIFVersionMainnet);
          payload = (take 33 (privKey @ replicate 33 0))[32 := 1]
      in Base58CheckEncode wifVersion payload)"

definition DecodeWIF :: "string \<Rightarrow> base58_error + bytes \<times> bool \<times> byte" where
  "DecodeWIF wif =
     rbind (Base58CheckDecode wif) (\<lambda>(ver, payload).
       if ver \<noteq> WIFVersionMainnet \<and> ver \<noteq> WIFVersionTestnet then Inl (ErrWIFVersion ver)
       else if length payload = 33 then
         if payload ! 32 \<noteq> 1 then Inl (ErrWIFCompression (payload ! 32)) else Inr (take 32 payload, True, ver)
       else if length payload = 32 then Inr (payload, False, ver)
       else Inl (ErrWIFLength (length payload)))"

definition WIFVersionForAddress :: "byte \<Rightarrow> byte" where
  "WIFVersionForAddress addrVersion = (if addrVersion = 0 then WIFVersionMainnet else WIFVersionTestnet)"

section \<open>The alphabet\<close>

lemma alphabet_index_bounds: "alphabet_index i as c = -1 \<or>
    (\<exists>k<length as. alphabet_index i as c = int (i + k) \<and> as ! k = c)"
proof (induction as arbitrary: i)
  case (Cons a as)
  show ?case
  proof (cases "a = c")
    case False
    then show ?thesis using Cons [of "Suc i"] by (metis Suc_less_eq add_Suc_shift alphabet_index.simps(2) length_Cons nth_Cons_Suc)
  qed auto
qed simp

lemma alphabet_index_nth: "distinct as \<Longrightarrow> k < length as \<Longrightarrow> alphabet_index i as (as ! k) = int (i + k)"
proof (induction as arbitrary: i k)
  case (Cons a as)
  then show ?case by (cases k) auto
qed simp

lemma base58Alphabet_ok [simp]: "length base58Alphabet = 58" "distinct base58Alphabet"
  by (simp_all add: base58Alphabet_def)

lemma base58AlphabetIndex_nth [simp]: "d < 58 \<Longrightarrow> base58AlphabetIndex (base58Alphabet ! d) = int d"
  by (simp add: base58AlphabetIndex_def alphabet_index_nth)

lemma base58AlphabetIndex_ok: "\<not> base58AlphabetIndex c < 0 \<Longrightarrow> \<exists>d<58. c = base58Alphabet ! d"
  using alphabet_index_bounds [of 0 base58Alphabet c] by (auto simp: base58AlphabetIndex_def)

lemma base58Alphabet_inj [simp]: "d < 58 \<Longrightarrow> e < 58 \<Longrightarrow> base58Alphabet ! d = base58Alphabet ! e \<longleftrightarrow> d = e"
  by (simp add: nth_eq_iff_index_eq)

section \<open>Digits\<close>

lemma base58_value_append: "base58_value (s @ t) r = rbind (base58_value s r) (base58_value t)"
  by (induction s arbitrary: r) (simp_all add: Let_def)

lemma base58_value_zeros: "base58_value (replicate z (base58Alphabet ! 0) @ s) 0 = base58_value s 0"
  by (induction z) (simp_all add: Let_def)

lemma base58_value_loop: "base58_value (rev (base58_loop x)) 0 = Inr (int x)"
proof (induction x rule: base58_loop.induct)
  case (1 x)
  show ?case
  proof (cases "x = 0")
    case False
    have "int (x div 58) * 58 + int (x mod 58) = int x" by (metis div_mult_mod_eq of_nat_add of_nat_mult of_nat_numeral)
    then show ?thesis using 1 [OF False] False by (subst base58_loop.simps) (simp add: base58_value_append Let_def)
  qed (simp add: base58_loop.simps)
qed

text \<open>The most significant digit is not zero.\<close>

lemma base58_loop_lead: "x \<noteq> 0 \<Longrightarrow> base58_loop x \<noteq> [] \<and> last (base58_loop x) \<noteq> base58Alphabet ! 0"
proof (induction x rule: base58_loop.induct)
  case (1 x)
  show ?case
  proof (cases "x div 58 = 0")
    case True
    then have "x mod 58 = x" "base58_loop (x div 58) = []" "x < 58" using base58_loop.simps [of 0] by (simp_all add: div_eq_0_iff)
    then show ?thesis using 1(2) by (subst (1 2) base58_loop.simps) simp
  next
    case False
    then show ?thesis using 1 by (subst (1 2) base58_loop.simps) simp
  qed
qed

lemma base58_unique:
  "base58_value t 0 = Inr x \<Longrightarrow> t = [] \<or> t ! 0 \<noteq> base58Alphabet ! 0 \<Longrightarrow> 0 \<le> x \<and> t = rev (base58_loop (nat x))"
proof (induction t arbitrary: x rule: rev_induct)
  case Nil
  then show ?case by (simp add: base58_loop.simps)
next
  case (snoc c u)
  obtain y where y: "base58_value u 0 = Inr y" "\<not> base58AlphabetIndex c < 0" "x = y * 58 + base58AlphabetIndex c"
    using snoc.prems(1) by (auto simp: base58_value_append Let_def split: if_splits)
  obtain d where d: "d < 58" "c = base58Alphabet ! d" using base58AlphabetIndex_ok [OF y(2)] by blast
  have u: "u = [] \<or> u ! 0 \<noteq> base58Alphabet ! 0" using snoc.prems(2) by (cases u) auto
  have IH: "0 \<le> y" "u = rev (base58_loop (nat y))" using snoc.IH [OF y(1) u] by simp_all
  have x: "x = int (nat y * 58 + d)" using y(3) d IH(1) by simp
  have "nat x \<noteq> 0"
  proof
    assume "nat x = 0"
    then have "nat y * 58 + d = 0" unfolding x nat_int .
    then have "nat y = 0" "d = 0" by simp_all
    then show False using snoc.prems(2) IH(2) d by (simp add: base58_loop.simps)
  qed
  moreover have "nat x div 58 = nat y" "nat x mod 58 = d" unfolding x nat_int using d(1) by simp_all
  ultimately show ?case using x d IH(2) by (subst base58_loop.simps) simp
qed

section \<open>Bytes\<close>

lemma le_bytes_le_nat: "c = [] \<or> last c \<noteq> 0 \<Longrightarrow> le_bytes (le_nat c) = c"
proof (induction c)
  case (Cons x c)
  have x: "unat x < 256" using unsigned_less [of x, where ?'a = nat] by simp
  have "le_nat (x # c) \<noteq> 0"
  proof
    assume "le_nat (x # c) = 0"
    then have "le_nat c = 0" "x = 0" by (simp_all add: unat_eq_zero)
    moreover have "c \<noteq> []" using Cons.prems \<open>x = 0\<close> by auto
    ultimately show False using Cons by (auto simp: le_bytes.simps)
  qed
  moreover have "le_nat (x # c) mod 256 = unat x" "le_nat (x # c) div 256 = le_nat c" using x by simp_all
  moreover have "le_bytes (le_nat c) = c" using Cons by (cases c) auto
  ultimately show ?case by (subst le_bytes.simps) (simp del: le_nat.simps)
qed (simp add: le_bytes.simps)

lemma big_Bytes_lead: "big_Bytes x = [] \<or> big_Bytes x ! 0 \<noteq> 0"
proof -
  have "le_bytes n = [] \<or> last (le_bytes n) \<noteq> 0" for n
  proof (induction n rule: le_bytes.induct)
    case (1 n)
    show ?case
    proof (cases "n div 256 = 0")
      case True
      then have "n < 256" "le_bytes (n div 256) = []" by (simp_all add: div_eq_0_iff le_bytes.simps)
      then have "(of_nat n :: byte) = 0 \<longleftrightarrow> n = 0" by (simp add: word_unat_eq_iff unat_of_nat)
      then show ?thesis using \<open>le_bytes (n div 256) = []\<close> \<open>n < 256\<close> by (subst (1 2) le_bytes.simps) simp
    next
      case False
      then have "le_bytes (n div 256) \<noteq> []" by (subst le_bytes.simps) simp
      then show ?thesis using 1 False by (subst (1 2) le_bytes.simps) auto
    qed
  qed
  then show ?thesis unfolding big_Bytes_def by (metis hd_conv_nth hd_rev rev_is_Nil_conv)
qed

lemma takeWhile_lead: "t = [] \<or> t ! 0 \<noteq> a \<Longrightarrow> takeWhile (\<lambda>x. x = a) (replicate z a @ t) = replicate z a"
  by (induction z) (cases t; simp)+

lemma split_lead: "\<exists>t. s = replicate (length (takeWhile (\<lambda>x. x = a) s)) a @ t \<and> (t = [] \<or> t ! 0 \<noteq> a)"
proof (induction s)
  case (Cons c s)
  then show ?case by (cases "c = a") auto
qed simp

lemma big_SetBytes_zeros: "big_SetBytes (replicate z 0 @ t) = big_SetBytes t"
  by (simp add: big_SetBytes_def)

lemma big_SetBytes_Bytes: "0 \<le> x \<Longrightarrow> big_SetBytes (big_Bytes x) = x"
  by (simp add: big_SetBytes_def big_Bytes_def)

lemma big_Bytes_SetBytes: "t = [] \<or> t ! 0 \<noteq> 0 \<Longrightarrow> big_Bytes (big_SetBytes t) = t"
  using le_bytes_le_nat [of "rev t"] by (cases t) (auto simp: big_SetBytes_def big_Bytes_def)

section \<open>Canonicity\<close>

lemma Base58Encode_form:
  assumes "t = [] \<or> t ! 0 \<noteq> 0"
  shows "Base58Encode (replicate z 0 @ t) = replicate z (base58Alphabet ! 0) @ rev (base58_loop (nat (big_SetBytes t)))"
  using assms by (simp add: Base58Encode_def big_SetBytes_zeros takeWhile_lead)

lemma loop_lead: "rev (base58_loop x) = [] \<or> rev (base58_loop x) ! 0 \<noteq> base58Alphabet ! 0"
  using base58_loop_lead [of x] by (cases "x = 0") (auto simp: base58_loop.simps hd_rev [symmetric] hd_conv_nth)

lemma Base58Decode_Encode: "Base58Decode (Base58Encode b) = Inr b"
proof -
  obtain z t where b: "b = replicate z 0 @ t" "t = [] \<or> t ! 0 \<noteq> 0" using split_lead [of b 0] by blast
  have "0 \<le> big_SetBytes t" by (simp add: big_SetBytes_def)
  then show ?thesis
    unfolding b(1) Base58Encode_form [OF b(2)]
    by (simp add: Base58Decode_def base58_value_zeros base58_value_loop takeWhile_lead [OF loop_lead] big_Bytes_SetBytes [OF b(2)])
qed

lemma Base58Encode_Decode:
  assumes "Base58Decode s = Inr b"
  shows "s = Base58Encode b"
proof -
  let ?z = "length (takeWhile (\<lambda>c. c = base58Alphabet ! 0) s)"
  obtain t where s: "s = replicate ?z (base58Alphabet ! 0) @ t" "t = [] \<or> t ! 0 \<noteq> base58Alphabet ! 0"
    using split_lead [of s "base58Alphabet ! 0"] by blast
  obtain x where x: "base58_value s 0 = Inr x" "b = replicate ?z 0 @ big_Bytes x"
    using assms by (auto simp: Base58Decode_def Let_def)
  have "base58_value t 0 = Inr x" using x(1) by (subst (asm) s(1)) (simp only: base58_value_zeros)
  then have t: "0 \<le> x" "t = rev (base58_loop (nat x))" using base58_unique [OF _ s(2)] by simp_all
  have "Base58Encode b = replicate ?z (base58Alphabet ! 0) @ t"
    unfolding x(2) Base58Encode_form [OF big_Bytes_lead] big_SetBytes_Bytes [OF t(1)] t(2) ..
  then show ?thesis using s(1) by simp
qed

lemma base58_iff: "Base58Decode s = Inr b \<longleftrightarrow> s = Base58Encode b"
  using Base58Decode_Encode Base58Encode_Decode by blast

lemma length_base58Checksum [simp]: "length (base58Checksum x) = 4"
  by (simp add: base58Checksum_def)

lemma base58check_iff: "Base58CheckDecode s = Inr (v, p) \<longleftrightarrow> s = Base58CheckEncode v p"
proof
  assume "Base58CheckDecode s = Inr (v, p)"
  then obtain d where d: "Base58Decode s = Inr d" "5 \<le> length d"
      "base58Checksum (take (length d - 4) d) = drop (length d - 4) d" "v = d ! 0" "p = drop 1 (take (length d - 4) d)"
    by (auto simp: Base58CheckDecode_def Let_def split: if_splits)
  have "take (length d - 4) d = v # p" using d(2,4,5) by (cases d) (auto simp: take_Cons')
  then have "d = (v # p) @ base58Checksum (v # p)" using d(3) by (metis append_take_drop_id)
  then show "s = Base58CheckEncode v p" using d(1) by (simp add: base58_iff Base58CheckEncode_def)
next
  assume "s = Base58CheckEncode v p"
  then have "Base58Decode s = Inr ((v # p) @ base58Checksum (v # p))" by (simp add: base58_iff Base58CheckEncode_def)
  then show "Base58CheckDecode s = Inr (v, p)" by (simp add: Base58CheckDecode_def)
qed

lemma address_iff:
  "AddressToPubKeyHash s = Inr (version, h) \<longleftrightarrow> length h = 20 \<and> s = PubKeyHashToAddress h version"
  using base58check_iff [of s] by (auto simp: AddressToPubKeyHash_def PubKeyHashToAddress_def split: if_splits)

section \<open>Properties\<close>

text \<open>C35. Addresses are canonical: a string is accepted as an address, with a version and a public key hash, exactly when
  it is the Base58Check encoding of that version and hash and the hash has 20 bytes. So every hash round-trips, every
  address has one spelling only, and any other string is refused.\<close>

theorem address_canonical:
  "AddressToPubKeyHash s = Inr (version, h) \<longleftrightarrow> length h = 20 \<and> s = PubKeyHashToAddress h version"
  by (rule address_iff)

text \<open>A private key of 32 bytes survives the wallet import format, with its compression flag and the version byte
  that belongs to the address version.\<close>

theorem wif_roundtrip:
  assumes "length k = 32"
  shows "DecodeWIF (EncodeWIF k addrVersion) = Inr (k, True, WIFVersionForAddress addrVersion)"
proof -
  have p: "(take 33 (k @ replicate 33 0))[32 := 1] = k @ [1]" using assms by (simp add: list_update_append)
  have "Base58CheckDecode (EncodeWIF k addrVersion) = Inr (WIFVersionForAddress addrVersion, k @ [1])"
    unfolding base58check_iff EncodeWIF_def Let_def p by (simp add: WIFVersionForAddress_def)
  then show ?thesis using assms by (simp add: DecodeWIF_def WIFVersionForAddress_def nth_append)
qed

theorem wif_roundtrip_witness:
  "DecodeWIF (EncodeWIF (replicate 32 7) 0) = Inr (replicate 32 7, True, 0x80)"
  using wif_roundtrip [of "replicate 32 7" 0] by (simp add: WIFVersionForAddress_def WIFVersionMainnet_def)

end
