(* ===== verification/Wallet.thy ===== *)
theory Wallet
  imports Aes Base58 Script Params Sem
begin

text \<open>
  The hierarchical deterministic wallet and the mining key store (\<^verbatim>\<open>internal/wallet/hdwallet.go\<close>,
  \<^verbatim>\<open>internal/wallet/keystore.go\<close>, with the key functions of \<^verbatim>\<open>internal/crypto/keys.go\<close> that they call). A wallet operation
  is a computation over the wallet's fields and its file. The packages outside the repository, BIP32 derivation
  (\<^verbatim>\<open>hdkeychain\<close>), BIP39 phrases, scrypt and secp256k1, are the argument \<open>W\<close> (and \<open>L\<close> for signatures); the values that
  \<^verbatim>\<open>crypto/rand\<close> draws and the time that \<^verbatim>\<open>time.Now\<close> reads, in nanoseconds, are arguments of the operations that use them.
  The wallet file holds a \<^verbatim>\<open>WalletData\<close> (its JSON text is not modelled), text that does not parse, nothing, or cannot be
  read; a write may succeed, fail, or fail after the file was truncated, and \<open>w_writes\<close> says which for the writes to come.
\<close>

section \<open>Keys (\<^verbatim>\<open>internal/crypto/keys.go\<close>)\<close>

record ('xk, 'sk) wallet_lib =
  NewMaster :: "bytes \<Rightarrow> 'xk option"
  Derive :: "'xk \<Rightarrow> u32 \<Rightarrow> 'xk option"
  ECPrivKey :: "'xk \<Rightarrow> bytes option"
  secp_PrivKeyFromBytes :: "bytes \<Rightarrow> 'sk"
  sk_Serialize :: "'sk \<Rightarrow> bytes"
  NewMnemonic :: "bytes \<Rightarrow> string option"
  IsMnemonicValid :: "string \<Rightarrow> bool"
  NewSeed :: "string \<Rightarrow> string \<Rightarrow> bytes"
  scrypt_Key :: "bytes \<Rightarrow> bytes \<Rightarrow> int \<Rightarrow> int \<Rightarrow> int \<Rightarrow> nat \<Rightarrow> bytes option"

datatype wallet_error =
    ErrEntropy
  | ErrNewMnemonic
  | ErrInvalidMnemonic
  | ErrDecodeSeed
  | ErrDeriveKey
  | PanicNilKey
  | ErrECPrivKey
  | ErrWriteWallet
  | ErrReadWallet
  | ErrParseWallet
  | ErrWalletLocked
  | ErrAddressNotFound string
  | ErrInvalidPrivKey
  | ErrPrivKeyLength nat
  | ErrPubKeyLength nat
  | ErrPubKeyParse
  | ErrRandomBytes
  | ErrAlreadyEncrypted
  | ErrNotEncrypted
  | ErrEmptyPassphrase
  | ErrSalt
  | ErrScrypt
  | ErrEncrypt aes_error
  | ErrDecodeSalt
  | ErrDecodeIV
  | ErrDecodeCiphertext
  | PanicIV
  | ErrIncorrectPassphrase
  | ErrGenerateKey
  | ErrDecodePrivKey
  | ErrAmountZero
  | ErrDestination base58_error
  | ErrAddressVersion byte byte
  | ErrNoSpendable
  | ErrInsufficientFunds
  | ErrChangeAddress base58_error
  | ErrNoKeyForInput nat
  | ErrSignInput nat sighash_error

definition PrivKeyFromBytes :: "('xk, 'sk) wallet_lib \<Rightarrow> bytes \<Rightarrow> wallet_error + 'sk" where
  "PrivKeyFromBytes W b = (if length b \<noteq> 32 then Inl (ErrPrivKeyLength (length b)) else Inr (secp_PrivKeyFromBytes W b))"

definition PubKeyHash :: "('sig, 'pk, 'sk) ecdsa_lib \<Rightarrow> bytes \<Rightarrow> bytes" where
  "PubKeyHash L compressedPubKey = Hash160 L compressedPubKey"

definition GenerateKeyPair :: "('xk, 'sk) wallet_lib \<Rightarrow> ('sig, 'pk, 'sk) ecdsa_lib \<Rightarrow> 'sk option \<Rightarrow>
    wallet_error + bytes \<times> bytes" where
  "GenerateKeyPair W L generated =
     rbind (opt_err ErrGenerateKey generated) (\<lambda>key. Inr (sk_Serialize W key, PubKey_SerializeCompressed L key))"

definition PubKeyFromBytes :: "('sig, 'pk, 'sk) ecdsa_lib \<Rightarrow> bytes \<Rightarrow> wallet_error + 'pk" where
  "PubKeyFromBytes L b =
     (if length b \<noteq> 33 then Inl (ErrPubKeyLength (length b)) else opt_err ErrPubKeyParse (ParsePubKey L b))"

text \<open>\<open>rand\<close> is what \<^verbatim>\<open>rand.Read\<close> fills the buffer with, absent when it fails.\<close>

definition GenerateRandomBytes :: "(nat \<Rightarrow> bytes option) \<Rightarrow> nat \<Rightarrow> wallet_error + bytes" where
  "GenerateRandomBytes rand n = opt_err ErrRandomBytes (rand n)"

section \<open>Text\<close>

definition bytes_str :: "bytes \<Rightarrow> string" where
  "bytes_str b = map (\<lambda>x. char_of (unat x)) b"

lemma bytes_str_bytes [simp]: "bytes_str (str_bytes s) = s"
proof -
  have "unat (of_char c :: byte) = of_char c" for c
    using unat_of_nat [of "of_char c", where 'a = 8] by (simp add: of_nat_of_char)
  then show ?thesis by (simp add: bytes_str_def str_bytes_def o_def)
qed

definition byte_cont :: "byte \<Rightarrow> bool" where
  "byte_cont b \<longleftrightarrow> 0x80 \<le> b \<and> b \<le> 0xBF"

text \<open>The length of the UTF-8 sequence at the head of a string, or 0 when there is none.\<close>

definition rune_len :: "bytes \<Rightarrow> nat" where
  "rune_len s =
     (let b0 = s ! 0 in
      if b0 < 0x80 then 1
      else if 0xC2 \<le> b0 \<and> b0 \<le> 0xDF \<and> 2 \<le> length s \<and> byte_cont (s ! 1) then 2
      else if 0xE0 \<le> b0 \<and> b0 \<le> 0xEF \<and> 3 \<le> length s
          \<and> (if b0 = 0xE0 then 0xA0 else 0x80) \<le> s ! 1 \<and> s ! 1 \<le> (if b0 = 0xED then 0x9F else 0xBF) \<and> byte_cont (s ! 2) then 3
      else if 0xF0 \<le> b0 \<and> b0 \<le> 0xF4 \<and> 4 \<le> length s
          \<and> (if b0 = 0xF0 then 0x90 else 0x80) \<le> s ! 1 \<and> s ! 1 \<le> (if b0 = 0xF4 then 0x8F else 0xBF)
          \<and> byte_cont (s ! 2) \<and> byte_cont (s ! 3) then 4
      else 0)"

text \<open>
  A \<^verbatim>\<open>range\<close> loop over a string visits its runes; a byte that starts none is visited as U+FFFD, which \<^verbatim>\<open>string(c)\<close> writes
  as three bytes.
\<close>

function split_loop :: "bytes \<Rightarrow> bytes list \<Rightarrow> bytes \<Rightarrow> bytes list" where
  "split_loop s parts current =
     (if s = [] then (if current \<noteq> [] then parts @ [current] else parts)
      else if s ! 0 = 10 then split_loop (drop 1 s) (parts @ [current]) []
      else if rune_len s = 0 then split_loop (drop 1 s) parts (current @ [0xEF, 0xBF, 0xBD])
      else split_loop (drop (rune_len s) s) parts (current @ take (rune_len s) s))"
  by pat_completeness auto
termination by (relation "measure (\<lambda>(s, _, _). length s)") auto

declare split_loop.simps [simp del]

definition splitOnNewline :: "bytes \<Rightarrow> bytes list" where
  "splitOnNewline s = split_loop s [] []"

fun decimal :: "nat \<Rightarrow> string" where
  "decimal n = (if n < 10 then [char_of (48 + n)] else decimal (n div 10) @ [char_of (48 + n mod 10)])"

declare decimal.simps [simp del]

section \<open>Wallet state\<close>

record WalletData =
  wd_Mnemonic :: string
  wd_Seed :: string
  wd_NextExternalIdx :: u32
  wd_NextChangeIdx :: u32
  wd_Encrypted :: bool
  wd_EncryptedData :: string
  wd_Salt :: string
  wd_IV :: string
  wd_ScryptN :: int
  wd_ScryptR :: int
  wd_ScryptP :: int

record 'sk DerivedKey =
  dk_PrivKey :: 'sk
  dk_PubKey :: bytes
  dk_PubKeyHash :: bytes
  dk_Path :: string
  dk_IsChange :: bool
  dk_Index :: u32

datatype wallet_file = FileUnreadable | FileEmpty | FileGarbage | FileWallet WalletData

datatype write_outcome = WriteOk | WriteRefused | WriteTorn

record ('xk, 'sk) HDWallet =
  w_mnemonic :: string
  w_seed :: bytes
  w_accountKey :: "'xk option"
  w_externalKey :: "'xk option"
  w_changeKey :: "'xk option"
  w_externalKeys :: "'sk DerivedKey list"
  w_changeKeys :: "'sk DerivedKey list"
  w_nextExternalIdx :: u32
  w_nextChangeIdx :: u32
  w_keysByHash :: "bytes \<rightharpoonup> 'sk DerivedKey"
  w_keysByAddress :: "string \<rightharpoonup> 'sk DerivedKey"
  w_addrVersion :: byte
  w_encrypted :: bool
  w_locked :: bool
  w_unlockUntil :: "int option"
  w_encKey :: bytes
  w_file :: wallet_file
  w_writes :: "write_outcome list"

type_synonym ('xk, 'sk, 'a) wallet_op = "(('xk, 'sk) HDWallet, wallet_error, 'a) sem"

definition new_wallet :: "byte \<Rightarrow> wallet_file \<Rightarrow> write_outcome list \<Rightarrow> ('xk, 'sk) HDWallet" where
  "new_wallet addrVersion disk writes =
     \<lparr>w_mnemonic = [], w_seed = [], w_accountKey = None, w_externalKey = None, w_changeKey = None,
      w_externalKeys = [], w_changeKeys = [], w_nextExternalIdx = 0, w_nextChangeIdx = 0,
      w_keysByHash = Map.empty, w_keysByAddress = Map.empty, w_addrVersion = addrVersion,
      w_encrypted = False, w_locked = False, w_unlockUntil = None, w_encKey = [],
      w_file = disk, w_writes = writes\<rparr>"

section \<open>The wallet file\<close>

definition write_wallet :: "WalletData \<Rightarrow> ('xk, 'sk, unit) wallet_op" where
  "write_wallet wd = swith (\<lambda>w.
     let rest = w\<lparr>w_writes := drop 1 (w_writes w)\<rparr> in
     case (if w_writes w = [] then WriteOk else w_writes w ! 0) of
       WriteOk \<Rightarrow> supd (\<lambda>_. rest\<lparr>w_file := FileWallet wd\<rparr>)
     | WriteRefused \<Rightarrow> sbind (supd (\<lambda>_. rest)) (\<lambda>_. sfail ErrWriteWallet)
     | WriteTorn \<Rightarrow> sbind (supd (\<lambda>_. rest\<lparr>w_file := FileGarbage\<rparr>)) (\<lambda>_. sfail ErrWriteWallet))"

definition read_wallet :: "('xk, 'sk, WalletData) wallet_op" where
  "read_wallet = swith (\<lambda>w. case w_file w of
       FileUnreadable \<Rightarrow> sfail ErrReadWallet
     | FileWallet wd \<Rightarrow> sret wd
     | _ \<Rightarrow> sfail ErrParseWallet)"

text \<open>\<^verbatim>\<open>savePreservingEncryption\<close> changes only the two counters of the file.\<close>

definition savePreservingEncryption :: "('xk, 'sk, unit) wallet_op" where
  "savePreservingEncryption =
     sbind read_wallet (\<lambda>wd. swith (\<lambda>w.
       write_wallet (wd\<lparr>wd_NextExternalIdx := w_nextExternalIdx w, wd_NextChangeIdx := w_nextChangeIdx w\<rparr>)))"

definition wallet_save :: "('xk, 'sk, unit) wallet_op" where
  "wallet_save = swith (\<lambda>w.
     if w_encrypted w then savePreservingEncryption
     else write_wallet \<lparr>wd_Mnemonic = w_mnemonic w, wd_Seed = hex_encode (w_seed w),
            wd_NextExternalIdx = w_nextExternalIdx w, wd_NextChangeIdx = w_nextChangeIdx w,
            wd_Encrypted = False, wd_EncryptedData = [], wd_Salt = [], wd_IV = [],
            wd_ScryptN = 0, wd_ScryptR = 0, wd_ScryptP = 0\<rparr>)"

abbreviation (input) scryptN :: int where "scryptN \<equiv> 32768"
abbreviation (input) scryptR :: int where "scryptR \<equiv> 8"
abbreviation (input) scryptP :: int where "scryptP \<equiv> 1"
abbreviation (input) keyLen :: nat where "keyLen \<equiv> 32"

definition saveEncrypted :: "bytes \<Rightarrow> bytes \<Rightarrow> bytes \<Rightarrow> ('xk, 'sk, unit) wallet_op" where
  "saveEncrypted ciphertext salt iv = swith (\<lambda>w.
     write_wallet \<lparr>wd_Mnemonic = [], wd_Seed = [],
       wd_NextExternalIdx = w_nextExternalIdx w, wd_NextChangeIdx = w_nextChangeIdx w,
       wd_Encrypted = True, wd_EncryptedData = hex_encode ciphertext, wd_Salt = hex_encode salt, wd_IV = hex_encode iv,
       wd_ScryptN = scryptN, wd_ScryptR = scryptR, wd_ScryptP = scryptP\<rparr>)"

definition BackupWallet :: "write_outcome \<Rightarrow> wallet_file \<Rightarrow> ('xk, 'sk) HDWallet \<Rightarrow> (wallet_error + unit) \<times> wallet_file" where
  "BackupWallet outcome dest w =
     (case w_file w of FileUnreadable \<Rightarrow> (Inl ErrReadWallet, dest)
      | data \<Rightarrow> (case outcome of WriteOk \<Rightarrow> (Inr (), data)
               | WriteRefused \<Rightarrow> (Inl ErrWriteWallet, dest) | WriteTorn \<Rightarrow> (Inl ErrWriteWallet, FileGarbage)))"

section \<open>Key derivation\<close>

definition derive_child :: "('xk, 'sk) wallet_lib \<Rightarrow> 'xk option \<Rightarrow> u32 \<Rightarrow> wallet_error + 'xk" where
  "derive_child W key index =
     (case key of None \<Rightarrow> Inl PanicNilKey | Some k \<Rightarrow> opt_err ErrDeriveKey (Derive W k index))"

abbreviation (input) HardenedKeyStart :: u32 where "HardenedKeyStart \<equiv> 0x80000000"
abbreviation (input) bip44Purpose :: u32 where "bip44Purpose \<equiv> 44"
abbreviation (input) bip44CoinType :: u32 where "bip44CoinType \<equiv> 0"

definition deriveAccountKeys :: "('xk, 'sk) wallet_lib \<Rightarrow> ('xk, 'sk, unit) wallet_op" where
  "deriveAccountKeys W = swith (\<lambda>w.
     sbind (slift (opt_err ErrDeriveKey (NewMaster W (w_seed w)))) (\<lambda>masterKey.
     sbind (slift (opt_err ErrDeriveKey (Derive W masterKey (HardenedKeyStart + bip44Purpose)))) (\<lambda>purpose.
     sbind (slift (opt_err ErrDeriveKey (Derive W purpose (HardenedKeyStart + bip44CoinType)))) (\<lambda>coinType.
     sbind (slift (opt_err ErrDeriveKey (Derive W coinType (HardenedKeyStart + 0)))) (\<lambda>account.
     sbind (supd (\<lambda>w. w\<lparr>w_accountKey := Some account\<rparr>)) (\<lambda>_.
     sbind (slift (opt_err ErrDeriveKey (Derive W account 0))) (\<lambda>external.
     sbind (supd (\<lambda>w. w\<lparr>w_externalKey := Some external\<rparr>)) (\<lambda>_.
     sbind (slift (opt_err ErrDeriveKey (Derive W account 1))) (\<lambda>change.
     supd (\<lambda>w. w\<lparr>w_changeKey := Some change\<rparr>))))))))))"

definition derived_key :: "('xk, 'sk) wallet_lib \<Rightarrow> ('sig, 'pk, 'sk) ecdsa_lib \<Rightarrow> bytes \<Rightarrow> bool \<Rightarrow> u32 \<Rightarrow> 'sk DerivedKey" where
  "derived_key W L ecPrivKey isChange index =
     (let privKey = secp_PrivKeyFromBytes W ecPrivKey; pubKey = PubKey_SerializeCompressed L privKey;
          chainIdx = (if isChange then 1 else 0)
      in \<lparr>dk_PrivKey = privKey, dk_PubKey = pubKey, dk_PubKeyHash = PubKeyHash L pubKey,
          dk_Path = ''m/44'' @ [char_of (39 :: nat)] @ ''/0'' @ [char_of (39 :: nat)] @ ''/0'' @ [char_of (39 :: nat)]
            @ ''/'' @ decimal chainIdx @ ''/'' @ decimal (unat index),
          dk_IsChange = isChange, dk_Index = index\<rparr>)"

definition add_key :: "'sk DerivedKey \<Rightarrow> ('xk, 'sk) HDWallet \<Rightarrow> ('xk, 'sk) HDWallet" where
  "add_key dk w =
     (if dk_IsChange dk then w\<lparr>w_changeKeys := w_changeKeys w @ [dk]\<rparr>
      else w\<lparr>w_externalKeys := w_externalKeys w @ [dk]\<rparr>)
     \<lparr>w_keysByHash := (w_keysByHash w)(dk_PubKeyHash dk \<mapsto> dk),
      w_keysByAddress := (w_keysByAddress w)(PubKeyHashToAddress (dk_PubKeyHash dk) (w_addrVersion w) \<mapsto> dk)\<rparr>"

definition registerKey :: "('xk, 'sk) wallet_lib \<Rightarrow> ('sig, 'pk, 'sk) ecdsa_lib \<Rightarrow> 'xk \<Rightarrow> bool \<Rightarrow> u32 \<Rightarrow>
    ('xk, 'sk, 'sk DerivedKey) wallet_op" where
  "registerKey W L extKey isChange index =
     sbind (slift (opt_err ErrECPrivKey (ECPrivKey W extKey))) (\<lambda>ecPrivKey.
       let dk = derived_key W L ecPrivKey isChange index
       in sbind (supd (add_key dk)) (\<lambda>_. sret dk))"

definition deriveExternal :: "('xk, 'sk) wallet_lib \<Rightarrow> ('sig, 'pk, 'sk) ecdsa_lib \<Rightarrow> u32 \<Rightarrow>
    ('xk, 'sk, 'sk DerivedKey) wallet_op" where
  "deriveExternal W L index = swith (\<lambda>w.
     sbind (slift (derive_child W (w_externalKey w) index)) (\<lambda>child. registerKey W L child False index))"

definition deriveChange :: "('xk, 'sk) wallet_lib \<Rightarrow> ('sig, 'pk, 'sk) ecdsa_lib \<Rightarrow> u32 \<Rightarrow>
    ('xk, 'sk, 'sk DerivedKey) wallet_op" where
  "deriveChange W L index = swith (\<lambda>w.
     sbind (slift (derive_child W (w_changeKey w) index)) (\<lambda>child. registerKey W L child True index))"

definition DeriveNextExternal :: "('xk, 'sk) wallet_lib \<Rightarrow> ('sig, 'pk, 'sk) ecdsa_lib \<Rightarrow>
    ('xk, 'sk, 'sk DerivedKey) wallet_op" where
  "DeriveNextExternal W L = swith (\<lambda>w.
     sbind (deriveExternal W L (w_nextExternalIdx w)) (\<lambda>dk.
     sbind (supd (\<lambda>w. w\<lparr>w_nextExternalIdx := w_nextExternalIdx w + 1\<rparr>)) (\<lambda>_.
     sbind wallet_save (\<lambda>_. sret dk))))"

definition DeriveNextChange :: "('xk, 'sk) wallet_lib \<Rightarrow> ('sig, 'pk, 'sk) ecdsa_lib \<Rightarrow>
    ('xk, 'sk, 'sk DerivedKey) wallet_op" where
  "DeriveNextChange W L = swith (\<lambda>w.
     sbind (deriveChange W L (w_nextChangeIdx w)) (\<lambda>dk.
     sbind (supd (\<lambda>w. w\<lparr>w_nextChangeIdx := w_nextChangeIdx w + 1\<rparr>)) (\<lambda>_.
     sbind wallet_save (\<lambda>_. sret dk))))"

definition key_address :: "('xk, 'sk) HDWallet \<Rightarrow> 'sk DerivedKey \<Rightarrow> string" where
  "key_address w dk = PubKeyHashToAddress (dk_PubKeyHash dk) (w_addrVersion w)"

definition GetNewAddress :: "('xk, 'sk) wallet_lib \<Rightarrow> ('sig, 'pk, 'sk) ecdsa_lib \<Rightarrow> ('xk, 'sk, string) wallet_op" where
  "GetNewAddress W L = sbind (DeriveNextExternal W L) (\<lambda>dk. swith (\<lambda>w. sret (key_address w dk)))"

definition GetChangeAddress :: "('xk, 'sk) wallet_lib \<Rightarrow> ('sig, 'pk, 'sk) ecdsa_lib \<Rightarrow> ('xk, 'sk, string) wallet_op" where
  "GetChangeAddress W L = sbind (DeriveNextChange W L) (\<lambda>dk. swith (\<lambda>w. sret (key_address w dk)))"

definition GetCurrentChangeAddress :: "('xk, 'sk) wallet_lib \<Rightarrow> ('sig, 'pk, 'sk) ecdsa_lib \<Rightarrow>
    ('xk, 'sk, string) wallet_op" where
  "GetCurrentChangeAddress W L = swith (\<lambda>w.
     if length (w_changeKeys w) > 0 then sret (key_address w (w_changeKeys w ! (length (w_changeKeys w) - 1)))
     else GetChangeAddress W L)"

section \<open>Creating and loading a wallet\<close>

definition createNew :: "('xk, 'sk) wallet_lib \<Rightarrow> ('sig, 'pk, 'sk) ecdsa_lib \<Rightarrow> bytes option \<Rightarrow> string \<Rightarrow>
    ('xk, 'sk, unit) wallet_op" where
  "createNew W L entropy mnemonic =
     sbind (slift (if mnemonic = [] then rbind (opt_err ErrEntropy entropy) (\<lambda>e. opt_err ErrNewMnemonic (NewMnemonic W e))
                   else Inr mnemonic)) (\<lambda>mnemonic.
     if \<not> IsMnemonicValid W mnemonic then sfail ErrInvalidMnemonic
     else sbind (supd (\<lambda>w. w\<lparr>w_mnemonic := mnemonic, w_seed := NewSeed W mnemonic []\<rparr>)) (\<lambda>_.
          sbind (deriveAccountKeys W) (\<lambda>_.
          sbind (DeriveNextExternal W L) (\<lambda>_.
          wallet_save))))"

primrec derive_list :: "(u32 \<Rightarrow> ('xk, 'sk, 'sk DerivedKey) wallet_op) \<Rightarrow> u32 list \<Rightarrow> ('xk, 'sk, unit) wallet_op" where
  "derive_list derive [] = sret ()"
| "derive_list derive (i # is') = sbind (derive i) (\<lambda>_. derive_list derive is')"

definition indices :: "u32 \<Rightarrow> u32 list" where
  "indices n = map of_nat [0..<unat n]"

definition loadSeedAndDerive :: "('xk, 'sk) wallet_lib \<Rightarrow> ('sig, 'pk, 'sk) ecdsa_lib \<Rightarrow> string \<Rightarrow> string \<Rightarrow>
    ('xk, 'sk, unit) wallet_op" where
  "loadSeedAndDerive W L mnemonic seedHex =
     sbind (slift (opt_err ErrDecodeSeed (hex_decode seedHex))) (\<lambda>seedBytes.
     sbind (supd (\<lambda>w. w\<lparr>w_mnemonic := mnemonic, w_seed := seedBytes\<rparr>)) (\<lambda>_.
     sbind (deriveAccountKeys W) (\<lambda>_. swith (\<lambda>w.
     sbind (derive_list (deriveExternal W L) (indices (w_nextExternalIdx w))) (\<lambda>_.
     derive_list (deriveChange W L) (indices (w_nextChangeIdx w)))))))"

definition loadFromJSON :: "('xk, 'sk) wallet_lib \<Rightarrow> ('sig, 'pk, 'sk) ecdsa_lib \<Rightarrow> ('xk, 'sk, unit) wallet_op" where
  "loadFromJSON W L =
     sbind read_wallet (\<lambda>wd.
     sbind (supd (\<lambda>w. w\<lparr>w_nextExternalIdx := wd_NextExternalIdx wd, w_nextChangeIdx := wd_NextChangeIdx wd\<rparr>)) (\<lambda>_.
     if wd_Encrypted wd then
       sbind (supd (\<lambda>w. w\<lparr>w_encrypted := True, w_locked := True\<rparr>)) (\<lambda>_.
       if wd_Seed wd \<noteq> [] \<and> wd_Mnemonic wd \<noteq> [] then loadSeedAndDerive W L (wd_Mnemonic wd) (wd_Seed wd)
       else sret ())
     else loadSeedAndDerive W L (wd_Mnemonic wd) (wd_Seed wd)))"

definition NewHDWallet :: "('xk, 'sk) wallet_lib \<Rightarrow> ('sig, 'pk, 'sk) ecdsa_lib \<Rightarrow> bytes option \<Rightarrow> byte \<Rightarrow>
    wallet_file \<Rightarrow> write_outcome list \<Rightarrow> ((wallet_error + unit) \<times> ('xk, 'sk) HDWallet) option" where
  "NewHDWallet W L entropy addrVersion disk writes =
     (let w = new_wallet addrVersion disk writes in
      if disk \<noteq> FileUnreadable \<and> disk \<noteq> FileEmpty then loadFromJSON W L w else createNew W L entropy [] w)"

definition NewHDWalletFromMnemonic :: "('xk, 'sk) wallet_lib \<Rightarrow> ('sig, 'pk, 'sk) ecdsa_lib \<Rightarrow> bytes option \<Rightarrow> byte \<Rightarrow>
    wallet_file \<Rightarrow> write_outcome list \<Rightarrow> string \<Rightarrow> ((wallet_error + unit) \<times> ('xk, 'sk) HDWallet) option" where
  "NewHDWalletFromMnemonic W L entropy addrVersion disk writes mnemonic =
     createNew W L entropy mnemonic (new_wallet addrVersion disk writes)"

section \<open>Looking keys up\<close>

definition GetKeyForAddress :: "('xk, 'sk) HDWallet \<Rightarrow> string \<Rightarrow> 'sk DerivedKey option" where
  "GetKeyForAddress w address = w_keysByAddress w address"

definition GetKeyForPubKeyHash :: "('xk, 'sk) HDWallet \<Rightarrow> bytes \<Rightarrow> 'sk DerivedKey option" where
  "GetKeyForPubKeyHash w h = w_keysByHash w h"

definition KeyForScript :: "('xk, 'sk) HDWallet \<Rightarrow> bytes \<Rightarrow> 'sk DerivedKey option" where
  "KeyForScript w pkScript =
     (case ExtractP2PKHHash pkScript of None \<Rightarrow> None | Some hashBytes \<Rightarrow> w_keysByHash w hashBytes)"

definition IsOurScript :: "('xk, 'sk) HDWallet \<Rightarrow> bytes \<Rightarrow> bool" where
  "IsOurScript w pkScript =
     (case ExtractP2PKHHash pkScript of None \<Rightarrow> False | Some hashBytes \<Rightarrow> w_keysByHash w hashBytes \<noteq> None)"

definition ExternalAddresses :: "('xk, 'sk) HDWallet \<Rightarrow> string list" where
  "ExternalAddresses w = map (key_address w) (w_externalKeys w)"

definition AllAddresses :: "('xk, 'sk) HDWallet \<Rightarrow> string list" where
  "AllAddresses w = map (key_address w) (w_externalKeys w) @ map (key_address w) (w_changeKeys w)"

definition GetDefaultAddress :: "('xk, 'sk) HDWallet \<Rightarrow> string" where
  "GetDefaultAddress w = (if length (w_externalKeys w) = 0 then [] else key_address w (w_externalKeys w ! 0))"

definition GetDefaultP2PKHScript :: "('xk, 'sk) HDWallet \<Rightarrow> bytes" where
  "GetDefaultP2PKHScript w =
     (if length (w_externalKeys w) = 0 then [] else MakeP2PKHScript (dk_PubKeyHash (w_externalKeys w ! 0)))"

definition MiningKeyCompat :: "('xk, 'sk) HDWallet \<Rightarrow> bytes \<times> bytes" where
  "MiningKeyCompat w =
     (if length (w_externalKeys w) = 0 then ([], replicate 20 0)
      else let dk = w_externalKeys w ! 0 in (MakeP2PKHScript (dk_PubKeyHash dk), dk_PubKeyHash dk))"

definition KeyCount :: "('xk, 'sk) HDWallet \<Rightarrow> nat" where
  "KeyCount w = length (w_externalKeys w) + length (w_changeKeys w)"

section \<open>Encryption and locking\<close>

definition wipe_secrets :: "('xk, 'sk) HDWallet \<Rightarrow> ('xk, 'sk) HDWallet" where
  "wipe_secrets w =
     w\<lparr>w_locked := True, w_encKey := [], w_seed := map (\<lambda>_. 0) (w_seed w), w_mnemonic := [], w_unlockUntil := None\<rparr>"

definition IsEncrypted :: "('xk, 'sk) HDWallet \<Rightarrow> bool" where
  "IsEncrypted w = w_encrypted w"

definition unlock_expired :: "int \<Rightarrow> ('xk, 'sk) HDWallet \<Rightarrow> bool" where
  "unlock_expired now w = (case w_unlockUntil w of None \<Rightarrow> False | Some until \<Rightarrow> until < now)"

definition IsLocked :: "int \<Rightarrow> ('xk, 'sk, bool) wallet_op" where
  "IsLocked now = swith (\<lambda>w.
     if \<not> w_encrypted w then sret False
     else if w_locked w then sret True
     else if unlock_expired now w then sbind (supd wipe_secrets) (\<lambda>_. sret True)
     else sret False)"

definition RequireUnlocked :: "int \<Rightarrow> ('xk, 'sk, unit) wallet_op" where
  "RequireUnlocked now = swith (\<lambda>w.
     if \<not> IsEncrypted w then sret ()
     else sbind (IsLocked now) (\<lambda>locked. if locked then sfail ErrWalletLocked else sret ()))"

definition Mnemonic :: "int \<Rightarrow> ('xk, 'sk, string) wallet_op" where
  "Mnemonic now = sbind (IsLocked now) (\<lambda>locked. swith (\<lambda>w. sret (if locked then [] else w_mnemonic w)))"

definition EncryptWallet :: "('xk, 'sk) wallet_lib \<Rightarrow> bytes option \<Rightarrow> bytes option \<Rightarrow> string \<Rightarrow>
    ('xk, 'sk, unit) wallet_op" where
  "EncryptWallet W randSalt randIV passphrase = swith (\<lambda>w.
     if w_encrypted w then sfail ErrAlreadyEncrypted
     else if passphrase = [] then sfail ErrEmptyPassphrase
     else sbind (slift (opt_err ErrSalt randSalt)) (\<lambda>salt.
          sbind (slift (opt_err ErrScrypt (scrypt_Key W (str_bytes passphrase) salt scryptN scryptR scryptP keyLen))) (\<lambda>aesKey.
          let plaintext = str_bytes (w_mnemonic w @ [char_of (10 :: nat)] @ hex_encode (w_seed w)) in
          sbind (slift (map_err ErrEncrypt (aesEncrypt randIV aesKey plaintext))) (\<lambda>(ciphertext, iv).
          sbind (supd (\<lambda>w. w\<lparr>w_encrypted := True, w_locked := True, w_encKey := []\<rparr>)) (\<lambda>_.
          saveEncrypted ciphertext salt iv)))))"

text \<open>
  \<^verbatim>\<open>time.Duration(timeoutSecs) * time.Second\<close> is a product of 64-bit integers, which wraps around.
\<close>

definition unlock_duration :: "int \<Rightarrow> int" where
  "unlock_duration timeoutSecs = sint (of_int timeoutSecs * 1000000000 :: 64 word)"

definition decrypt_wallet :: "('xk, 'sk) wallet_lib \<Rightarrow> WalletData \<Rightarrow> string \<Rightarrow> wallet_error + bytes \<times> string \<times> string" where
  "decrypt_wallet W wd passphrase =
     rbind (opt_err ErrDecodeSalt (hex_decode (wd_Salt wd))) (\<lambda>salt.
     rbind (opt_err ErrDecodeIV (hex_decode (wd_IV wd))) (\<lambda>iv.
     rbind (opt_err ErrDecodeCiphertext (hex_decode (wd_EncryptedData wd))) (\<lambda>ciphertext.
     let n = (if wd_ScryptN wd = 0 then scryptN else wd_ScryptN wd);
         r = (if wd_ScryptR wd = 0 then scryptR else wd_ScryptR wd);
         p = (if wd_ScryptP wd = 0 then scryptP else wd_ScryptP wd) in
     rbind (opt_err ErrScrypt (scrypt_Key W (str_bytes passphrase) salt n r p keyLen)) (\<lambda>aesKey.
     rbind (map_err (\<lambda>e. if e = PanicIVLength then PanicIV else ErrIncorrectPassphrase) (aesDecrypt aesKey iv ciphertext))
       (\<lambda>plaintext.
     let parts = splitOnNewline plaintext in
     if length parts < 2 then Inl ErrIncorrectPassphrase
     else if \<not> IsMnemonicValid W (bytes_str (parts ! 0)) then Inl ErrIncorrectPassphrase
     else Inr (aesKey, bytes_str (parts ! 0), bytes_str (parts ! 1)))))))"

definition WalletPassphrase :: "('xk, 'sk) wallet_lib \<Rightarrow> ('sig, 'pk, 'sk) ecdsa_lib \<Rightarrow> int \<Rightarrow> string \<Rightarrow> int \<Rightarrow>
    ('xk, 'sk, unit) wallet_op" where
  "WalletPassphrase W L now passphrase timeoutSecs = swith (\<lambda>w.
     if \<not> w_encrypted w then sfail ErrNotEncrypted
     else sbind read_wallet (\<lambda>wd.
          sbind (slift (decrypt_wallet W wd passphrase)) (\<lambda>(aesKey, mnemonic, seedHex).
          sbind (if w_seed w = [] then loadSeedAndDerive W L mnemonic seedHex else sret ()) (\<lambda>_.
          supd (\<lambda>w. w\<lparr>w_locked := False, w_encKey := aesKey,
                        w_unlockUntil := (if timeoutSecs > 0 then Some (now + unlock_duration timeoutSecs) else None)\<rparr>)))))"

definition WalletLock :: "('xk, 'sk, unit) wallet_op" where
  "WalletLock = swith (\<lambda>w. if \<not> w_encrypted w then sfail ErrNotEncrypted else supd wipe_secrets)"

section \<open>Exporting and importing keys\<close>

definition DumpPrivKey :: "('xk, 'sk) wallet_lib \<Rightarrow> int \<Rightarrow> string \<Rightarrow> ('xk, 'sk, string) wallet_op" where
  "DumpPrivKey W now address =
     sbind (RequireUnlocked now) (\<lambda>_. swith (\<lambda>w.
       case w_keysByAddress w address of
         None \<Rightarrow> sfail (ErrAddressNotFound address)
       | Some dk \<Rightarrow> sret (EncodeWIF (sk_Serialize W (dk_PrivKey dk)) (w_addrVersion w))))"

definition imported_key :: "('sig, 'pk, 'sk) ecdsa_lib \<Rightarrow> 'sk \<Rightarrow> 'sk DerivedKey" where
  "imported_key L privKey =
     (let pubKey = PubKey_SerializeCompressed L privKey
      in \<lparr>dk_PrivKey = privKey, dk_PubKey = pubKey, dk_PubKeyHash = PubKeyHash L pubKey,
          dk_Path = ''imported'', dk_IsChange = False, dk_Index = 0\<rparr>)"

definition ImportPrivKey :: "('xk, 'sk) wallet_lib \<Rightarrow> ('sig, 'pk, 'sk) ecdsa_lib \<Rightarrow> string \<Rightarrow> ('xk, 'sk, string) wallet_op" where
  "ImportPrivKey W L privKeyStr =
     sbind (slift (case DecodeWIF privKeyStr of
         Inr (wifKey, _, _) \<Rightarrow> Inr wifKey
       | Inl _ \<Rightarrow> opt_err ErrInvalidPrivKey (hex_decode privKeyStr))) (\<lambda>privBytes.
     sbind (slift (PrivKeyFromBytes W privBytes)) (\<lambda>privKey. swith (\<lambda>w.
       let dk = imported_key L privKey in
       if w_keysByHash w (dk_PubKeyHash dk) \<noteq> None then sret (key_address w dk)
       else sbind (supd (add_key dk)) (\<lambda>_. sret (key_address w dk)))))"

section \<open>Coins and signatures\<close>

record UnspentOutput =
  u_TxHash :: hash
  u_Index :: u32
  u_Value :: u64
  u_Height :: u32
  u_Confirmations :: u32
  u_Address :: string
  u_PkScript :: bytes
  u_IsCoinbase :: bool

text \<open>
  The calls that the iterator over the UTXO set makes are the list of their arguments: transaction, index, value,
  script, height and whether the output is a coinbase output.
\<close>

type_synonym utxo_call = "hash \<times> u32 \<times> u64 \<times> bytes \<times> u32 \<times> bool"

definition confirmations :: "u32 \<Rightarrow> u32 \<Rightarrow> u32" where
  "confirmations tipHeight height = (if tipHeight \<ge> height then tipHeight - height + 1 else 0)"

primrec FindUnspent :: "('xk, 'sk) HDWallet \<Rightarrow> utxo_call list \<Rightarrow> u32 \<Rightarrow> UnspentOutput list" where
  "FindUnspent w [] tipHeight = []"
| "FindUnspent w (c # cs) tipHeight =
     (case c of (txHash, index, val, pkScript, height, isCoinbase) \<Rightarrow>
      case ExtractP2PKHHash pkScript of
        None \<Rightarrow> FindUnspent w cs tipHeight
      | Some h \<Rightarrow>
          if w_keysByHash w h = None then FindUnspent w cs tipHeight
          else \<lparr>u_TxHash = txHash, u_Index = index, u_Value = val, u_Height = height,
                u_Confirmations = confirmations tipHeight height, u_Address = PubKeyHashToAddress h (w_addrVersion w),
                u_PkScript = pkScript, u_IsCoinbase = isCoinbase\<rparr> # FindUnspent w cs tipHeight)"

definition balance_step :: "('xk, 'sk) HDWallet \<Rightarrow> u32 \<Rightarrow> u32 \<Rightarrow> u32 \<Rightarrow> utxo_call \<Rightarrow> u64 \<Rightarrow> u64" where
  "balance_step w tipHeight minConf coinbaseMaturity c tot =
     (case c of (txHash, index, val, pkScript, height, isCoinbase) \<Rightarrow>
      case ExtractP2PKHHash pkScript of
        None \<Rightarrow> tot
      | Some h \<Rightarrow>
          if w_keysByHash w h = None then tot
          else let confs = confirmations tipHeight height in
            if confs < minConf then tot
            else if isCoinbase \<and> confs < coinbaseMaturity then tot
            else tot + val)"

definition GetBalance :: "('xk, 'sk) HDWallet \<Rightarrow> utxo_call list \<Rightarrow> u32 \<Rightarrow> u32 \<Rightarrow> u32 \<Rightarrow> u64" where
  "GetBalance w cs tipHeight minConf coinbaseMaturity = fold (balance_step w tipHeight minConf coinbaseMaturity) cs 0"

definition set_sigscript :: "Transaction \<Rightarrow> nat \<Rightarrow> bytes \<Rightarrow> Transaction" where
  "set_sigscript tx i sigScript =
     tx\<lparr>tx_Inputs := (tx_Inputs tx)[i := (tx_Inputs tx ! i)\<lparr>in_SignatureScript := sigScript\<rparr>]\<rparr>"

text \<open>
  The loop over the inputs, from index \<open>i\<close> on with \<open>n\<close> of them left, with the transaction that it fills in.
\<close>

primrec sign_raw_loop :: "('sig, 'pk, 'sk) ecdsa_lib \<Rightarrow> ('xk, 'sk) HDWallet \<Rightarrow> (hash \<Rightarrow> u32 \<Rightarrow> bytes option) \<Rightarrow> nat \<Rightarrow> nat \<Rightarrow>
    Transaction \<Rightarrow> nat \<Rightarrow> (wallet_error + nat) \<times> Transaction" where
  "sign_raw_loop L w getPrevScript i 0 tx nsigned = (Inr nsigned, tx)"
| "sign_raw_loop L w getPrevScript i (Suc n) tx nsigned =
     (let inp = tx_Inputs tx ! i; op = in_PreviousOutPoint inp; skip = sign_raw_loop L w getPrevScript (Suc i) n tx nsigned in
      if length (in_SignatureScript inp) > 0 then sign_raw_loop L w getPrevScript (Suc i) n tx (nsigned + 1)
      else case getPrevScript (op_Hash op) (op_Index op) of
        None \<Rightarrow> skip
      | Some prevScript \<Rightarrow> (case KeyForScript w prevScript of
          None \<Rightarrow> skip
        | Some dk \<Rightarrow> (case SignInput L tx (int i) prevScript (dk_PrivKey dk) of
            Inl e \<Rightarrow> (Inl (ErrSignInput i e), tx)
          | Inr sigScript \<Rightarrow> sign_raw_loop L w getPrevScript (Suc i) n (set_sigscript tx i sigScript) (nsigned + 1))))"

definition SignRawTransaction :: "('sig, 'pk, 'sk) ecdsa_lib \<Rightarrow> int \<Rightarrow> Transaction \<Rightarrow> (hash \<Rightarrow> u32 \<Rightarrow> bytes option) \<Rightarrow>
    ('xk, 'sk, nat \<times> bool \<times> Transaction) wallet_op" where
  "SignRawTransaction L now tx getPrevScript =
     sbind (RequireUnlocked now) (\<lambda>_. swith (\<lambda>w.
       case sign_raw_loop L w getPrevScript 0 (length (tx_Inputs tx)) tx 0 of
         (Inl e, _) \<Rightarrow> sfail e
       | (Inr nsigned, tx') \<Rightarrow> sret (nsigned, nsigned = length (tx_Inputs tx), tx')))"

definition OutpointFromKey :: "bytes \<Rightarrow> hash \<times> u32" where
  "OutpointFromKey key = (hash_copy (take 32 key), get_le (drop 32 key))"

section \<open>The mining key (\<^verbatim>\<open>keystore.go\<close>)\<close>

record 'sk KeyStore =
  ks_privKey :: "'sk option"
  ks_pubKey :: bytes

text \<open>The UTF-8 encodings of the white space that \<^verbatim>\<open>strings.TrimSpace\<close> removes.\<close>

definition space_runes :: "bytes list" where
  "space_runes = [[9], [10], [11], [12], [13], [32], [0xC2, 0x85], [0xC2, 0xA0], [0xE1, 0x9A, 0x80]]
     @ map (\<lambda>b. [0xE2, 0x80, b]) [0x80, 0x81, 0x82, 0x83, 0x84, 0x85, 0x86, 0x87, 0x88, 0x89, 0x8A, 0xA8, 0xA9, 0xAF]
     @ [[0xE2, 0x81, 0x9F], [0xE3, 0x80, 0x80]]"

definition prefix_len :: "bytes list \<Rightarrow> bytes \<Rightarrow> nat" where
  "prefix_len ps s = (case find (\<lambda>p. p \<noteq> [] \<and> take (length p) s = p) ps of None \<Rightarrow> 0 | Some p \<Rightarrow> length p)"

function trim_left :: "bytes list \<Rightarrow> bytes \<Rightarrow> bytes" where
  "trim_left ps s = (if s = [] \<or> prefix_len ps s = 0 then s else trim_left ps (drop (prefix_len ps s) s))"
  by pat_completeness auto
termination by (relation "measure (\<lambda>(_, s). length s)") auto

declare trim_left.simps [simp del]

definition TrimSpace :: "bytes \<Rightarrow> bytes" where
  "TrimSpace s = rev (trim_left (map rev space_runes) (rev (trim_left space_runes s)))"

text \<open>\<open>data\<close> is the text of the key file, absent when it cannot be read; the result has the text of the file afterwards.\<close>

definition LoadOrCreate :: "('xk, 'sk) wallet_lib \<Rightarrow> ('sig, 'pk, 'sk) ecdsa_lib \<Rightarrow> 'sk option \<Rightarrow> write_outcome \<Rightarrow> bytes option \<Rightarrow>
    (wallet_error + 'sk KeyStore) \<times> bytes option" where
  "LoadOrCreate W L generated outcome data =
     (if data \<noteq> None \<and> data \<noteq> Some [] then
        (rbind (opt_err ErrDecodePrivKey (hex_decode (bytes_str (TrimSpace (the data))))) (\<lambda>privBytes.
         rbind (PrivKeyFromBytes W privBytes) (\<lambda>priv.
         Inr \<lparr>ks_privKey = Some priv, ks_pubKey = PubKey_SerializeCompressed L priv\<rparr>)), data)
      else case GenerateKeyPair W L generated of
        Inl e \<Rightarrow> (Inl e, data)
      | Inr (privBytes, pubBytes) \<Rightarrow> (case outcome of
            WriteRefused \<Rightarrow> (Inl ErrWriteWallet, data)
          | WriteTorn \<Rightarrow> (Inl ErrWriteWallet, Some [])
          | WriteOk \<Rightarrow> (Inr \<lparr>ks_privKey = (case PrivKeyFromBytes W privBytes of Inl _ \<Rightarrow> None | Inr priv \<Rightarrow> Some priv),
                             ks_pubKey = pubBytes\<rparr>,
                        Some (str_bytes (hex_encode privBytes)))))"

definition P2PKHScript :: "('sig, 'pk, 'sk) ecdsa_lib \<Rightarrow> 'sk KeyStore \<Rightarrow> bytes" where
  "P2PKHScript L ks = MakeP2PKHScript (PubKeyHash L (ks_pubKey ks))"

end
