(* ===== verification/WalletTx.thy ===== *)
theory WalletTx
  imports Wallet TxValidation "HOL-Library.Multiset"
begin

text \<open>
  Payments (\<^verbatim>\<open>internal/wallet/txbuilder.go\<close>): coin selection, fees, change and the signing of a transaction. The order in
  which \<^verbatim>\<open>sort.Slice\<close> leaves coins of equal value is unspecified, so the sorting function is an argument. The section on
  payments shows that what the wallet builds from the coins it finds in the UTXO set passes the node's own
  validation.
\<close>

section \<open>Coin selection\<close>

record SendRequest =
  sr_ToAddress :: string
  sr_Amount :: u64

abbreviation (input) estimatedInputSize :: nat where "estimatedInputSize \<equiv> 148"
abbreviation (input) estimatedOutputSize :: nat where "estimatedOutputSize \<equiv> 34"
abbreviation (input) txOverhead :: nat where "txOverhead \<equiv> 10"
abbreviation (input) DustThreshold :: u64 where "DustThreshold \<equiv> 546"

definition fee_for :: "nat \<Rightarrow> nat \<Rightarrow> u64 \<Rightarrow> u64" where
  "fee_for numInputs numOutputs feePerByte =
     (let estimatedSize = txOverhead + numInputs * estimatedInputSize + numOutputs * estimatedOutputSize;
          fee = of_nat estimatedSize * feePerByte
      in if fee < 1 then 1 else fee)"

definition EstimateFee :: "int \<Rightarrow> int \<Rightarrow> u64 \<Rightarrow> u64" where
  "EstimateFee numInputs numOutputs feePerByte =
     of_int (int txOverhead + numInputs * int estimatedInputSize + numOutputs * int estimatedOutputSize) * feePerByte"

primrec select_loop :: "UnspentOutput list \<Rightarrow> u64 \<Rightarrow> u64 \<Rightarrow> UnspentOutput list \<Rightarrow> u64 \<Rightarrow>
    wallet_error + UnspentOutput list \<times> u64" where
  "select_loop [] targetAmount feePerByte selected totalIn = Inl ErrInsufficientFunds"
| "select_loop (utxo # utxos) targetAmount feePerByte selected totalIn =
     (let selected = selected @ [utxo]; totalIn = totalIn + u_Value utxo; fee = fee_for (length selected) 2 feePerByte in
      if totalIn \<ge> targetAmount + fee then Inr (selected, totalIn)
      else select_loop utxos targetAmount feePerByte selected totalIn)"

definition selectCoins :: "UnspentOutput list \<Rightarrow> u64 \<Rightarrow> u64 \<Rightarrow> wallet_error + UnspentOutput list \<times> u64" where
  "selectCoins utxos targetAmount feePerByte = select_loop utxos targetAmount feePerByte [] 0"

definition spendable_coin :: "u32 \<Rightarrow> u32 \<Rightarrow> UnspentOutput \<Rightarrow> bool" where
  "spendable_coin coinbaseMaturity tipHeight u =
     (let confs = confirmations tipHeight (u_Height u) in
      if confs < 1 then False else if u_IsCoinbase u \<and> confs < coinbaseMaturity then False else True)"

definition filterSpendable :: "UnspentOutput list \<Rightarrow> u32 \<Rightarrow> u32 \<Rightarrow> UnspentOutput list" where
  "filterSpendable utxos coinbaseMaturity tipHeight = filter (spendable_coin coinbaseMaturity tipHeight) utxos"

section \<open>Building a transaction\<close>

type_synonym coin_sorter = "(UnspentOutput \<Rightarrow> UnspentOutput \<Rightarrow> bool) \<Rightarrow> UnspentOutput list \<Rightarrow> UnspentOutput list"

definition coin_input :: "UnspentOutput \<Rightarrow> TxInput" where
  "coin_input u = \<lparr>in_PreviousOutPoint = \<lparr>op_Hash = u_TxHash u, op_Index = u_Index u\<rparr>,
     in_SignatureScript = [], in_Sequence = 0xFFFFFFFF\<rparr>"

definition change_outputs :: "('xk, 'sk) wallet_lib \<Rightarrow> ('sig, 'pk, 'sk) ecdsa_lib \<Rightarrow> u64 \<Rightarrow> u64 \<Rightarrow> u64 \<Rightarrow> nat \<Rightarrow> TxOutput \<Rightarrow>
    ('xk, 'sk, TxOutput list) wallet_op" where
  "change_outputs W L totalIn amount feePerByte numInputs dest =
     (let fee = fee_for numInputs 1 feePerByte; remaining = totalIn - amount in
      if remaining < fee then sfail ErrInsufficientFunds
      else if remaining - fee > DustThreshold then
        sbind (GetChangeAddress W L) (\<lambda>changeAddr.
        sbind (slift (map_err ErrChangeAddress (AddressToPubKeyHash changeAddr))) (\<lambda>(_, changePKH).
        let fee = fee_for numInputs 2 feePerByte; newChange = totalIn - amount - fee in
        sret (if newChange > DustThreshold
              then [dest, \<lparr>out_Value = newChange, out_PkScript = MakeP2PKHScript changePKH\<rparr>] else [dest])))
      else sret [dest])"

primrec sign_coins :: "('sig, 'pk, 'sk) ecdsa_lib \<Rightarrow> ('xk, 'sk) HDWallet \<Rightarrow> nat \<Rightarrow> UnspentOutput list \<Rightarrow> Transaction \<Rightarrow>
    wallet_error + Transaction" where
  "sign_coins L w i [] tx = Inr tx"
| "sign_coins L w i (u # us) tx =
     (case KeyForScript w (u_PkScript u) of
        None \<Rightarrow> Inl (ErrNoKeyForInput i)
      | Some dk \<Rightarrow> rbind (map_err (ErrSignInput i) (SignInput L tx (int i) (u_PkScript u) (dk_PrivKey dk))) (\<lambda>sigScript.
          sign_coins L w (Suc i) us (set_sigscript tx i sigScript)))"

definition BuildTransaction :: "('xk, 'sk) wallet_lib \<Rightarrow> ('sig, 'pk, 'sk) ecdsa_lib \<Rightarrow> int \<Rightarrow> coin_sorter \<Rightarrow> SendRequest \<Rightarrow> u64 \<Rightarrow>
    UnspentOutput list \<Rightarrow> u32 \<Rightarrow> u32 \<Rightarrow> ('xk, 'sk, Transaction) wallet_op" where
  "BuildTransaction W L now sorter req feePerByte utxos coinbaseMaturity tipHeight =
     sbind (RequireUnlocked now) (\<lambda>_.
     if sr_Amount req = 0 then sfail ErrAmountZero
     else sbind (slift (map_err ErrDestination (AddressToPubKeyHash (sr_ToAddress req)))) (\<lambda>(addrVer, destPKH). swith (\<lambda>w.
     if addrVer \<noteq> w_addrVersion w then sfail (ErrAddressVersion addrVer (w_addrVersion w))
     else let spendable = filterSpendable utxos coinbaseMaturity tipHeight in
     if length spendable = 0 then sfail ErrNoSpendable
     else sbind (slift (selectCoins (sorter (\<lambda>a b. u_Value a > u_Value b) spendable) (sr_Amount req) feePerByte))
       (\<lambda>(selectedInputs, totalIn).
     sbind (change_outputs W L totalIn (sr_Amount req) feePerByte (length selectedInputs)
              \<lparr>out_Value = sr_Amount req, out_PkScript = MakeP2PKHScript destPKH\<rparr>) (\<lambda>outputs. swith (\<lambda>w.
     slift (sign_coins L w 0 selectedInputs
       \<lparr>tx_Version = 1, tx_Inputs = map coin_input selectedInputs, tx_Outputs = outputs, tx_LockTime = tipHeight\<rparr>)))))))"

section \<open>The key index\<close>

text \<open>
  A key is filed under the hash of its public key and under the address of that hash, and nothing else is filed.
\<close>

definition key_ok :: "('sig, 'pk, 'sk) ecdsa_lib \<Rightarrow> 'sk DerivedKey \<Rightarrow> bool" where
  "key_ok L dk \<longleftrightarrow> dk_PubKey dk = PubKey_SerializeCompressed L (dk_PrivKey dk) \<and> dk_PubKeyHash dk = Hash160 L (dk_PubKey dk)"

definition keys_ok :: "('sig, 'pk, 'sk) ecdsa_lib \<Rightarrow> ('xk, 'sk) HDWallet \<Rightarrow> bool" where
  "keys_ok L w \<longleftrightarrow>
     (\<forall>h dk. w_keysByHash w h = Some dk \<longrightarrow> dk_PubKeyHash dk = h \<and> dk \<in> set (w_externalKeys w @ w_changeKeys w))
     \<and> (\<forall>dk \<in> set (w_externalKeys w @ w_changeKeys w). key_ok L dk \<and> w_keysByHash w (dk_PubKeyHash dk) \<noteq> None)
     \<and> (\<forall>a. w_keysByAddress w a =
          (case AddressToPubKeyHash a of Inr (v, h) \<Rightarrow> if v = w_addrVersion w then w_keysByHash w h else None | Inl _ \<Rightarrow> None))"

lemma keys_ok_add_key:
  assumes "keys_ok L w" "key_ok L dk"
  shows "keys_ok L (add_key dk w)"
proof -
  have l: "length (dk_PubKeyHash dk) = 20" using assms(2) by (simp add: key_ok_def)
  have addr: "a = PubKeyHashToAddress (dk_PubKeyHash dk) (w_addrVersion w) \<longleftrightarrow>
      AddressToPubKeyHash a = Inr (w_addrVersion w, dk_PubKeyHash dk)" for a
    using address_iff l by auto
  show ?thesis
    using assms unfolding keys_ok_def
    by (auto simp: add_key_def addr split: if_splits sum.splits prod.splits)
qed

lemma keys_ok_cong:
  "w_externalKeys w' = w_externalKeys w \<Longrightarrow> w_changeKeys w' = w_changeKeys w \<Longrightarrow> w_keysByHash w' = w_keysByHash w \<Longrightarrow>
   w_keysByAddress w' = w_keysByAddress w \<Longrightarrow> w_addrVersion w' = w_addrVersion w \<Longrightarrow> keys_ok L w \<Longrightarrow> keys_ok L w'"
  by (simp add: keys_ok_def cong: sum.case_cong prod.case_cong if_cong)

lemma keys_write: "preserves (keys_ok L) (write_wallet wd)"
  by (auto simp: preserves_def triple_def write_wallet_def swith_def sbind_def supd_def sfail_def Let_def
      split: if_splits write_outcome.splits elim!: keys_ok_cong [rotated 5])

lemma keys_read: "preserves (keys_ok L) read_wallet"
  by (auto simp: preserves_def triple_def read_wallet_def swith_def sret_def sfail_def split: wallet_file.splits)

lemma keys_save: "preserves (keys_ok L) wallet_save"
  unfolding wallet_save_def savePreservingEncryption_def by (intro preserves_intro keys_write keys_read)

lemma keys_field:
  "preserves (keys_ok L) (supd (\<lambda>w. w\<lparr>w_accountKey := a\<rparr>))" "preserves (keys_ok L) (supd (\<lambda>w. w\<lparr>w_externalKey := a\<rparr>))"
  "preserves (keys_ok L) (supd (\<lambda>w. w\<lparr>w_changeKey := a\<rparr>))"
  "preserves (keys_ok L) (supd (\<lambda>w. w\<lparr>w_nextExternalIdx := w_nextExternalIdx w + 1\<rparr>))"
  "preserves (keys_ok L) (supd (\<lambda>w. w\<lparr>w_nextChangeIdx := w_nextChangeIdx w + 1\<rparr>))"
  "preserves (keys_ok L) (supd (\<lambda>w. w\<lparr>w_nextExternalIdx := i, w_nextChangeIdx := j\<rparr>))"
  "preserves (keys_ok L) (supd (\<lambda>w. w\<lparr>w_mnemonic := m, w_seed := sd\<rparr>))"
  "preserves (keys_ok L) (supd (\<lambda>w. w\<lparr>w_encrypted := True, w_locked := True\<rparr>))"
  "preserves (keys_ok L) (supd (\<lambda>w. w\<lparr>w_encrypted := True, w_locked := True, w_encKey := []\<rparr>))"
  "preserves (keys_ok L) (supd (\<lambda>w. w\<lparr>w_locked := False, w_encKey := k, w_unlockUntil := u\<rparr>))"
  "preserves (keys_ok L) (supd wipe_secrets)"
  by (rule preserves_upd, rule keys_ok_cong, simp_all add: wipe_secrets_def)+

lemma key_ok_made [simp]: "key_ok L (derived_key W L ec c i)" "key_ok L (imported_key L sk)"
  by (simp_all add: key_ok_def derived_key_def imported_key_def PubKeyHash_def Let_def)

lemma keys_add: "key_ok L dk \<Longrightarrow> preserves (keys_ok L) (supd (add_key dk))"
  by (rule preserves_upd) (rule keys_ok_add_key)

lemma keys_register: "preserves (keys_ok L) (registerKey W L xk c i)"
  unfolding registerKey_def Let_def by (intro preserves_intro keys_add key_ok_made)

lemma keys_derive: "preserves (keys_ok L) (deriveExternal W L i)" "preserves (keys_ok L) (deriveChange W L i)"
  unfolding deriveExternal_def deriveChange_def by (intro preserves_intro keys_register)+

lemma keys_derive_next:
  "preserves (keys_ok L) (DeriveNextExternal W L)" "preserves (keys_ok L) (DeriveNextChange W L)"
  unfolding DeriveNextExternal_def DeriveNextChange_def by (intro preserves_intro keys_derive keys_field keys_save)+

lemma keys_addresses:
  "preserves (keys_ok L) (GetNewAddress W L)" "preserves (keys_ok L) (GetChangeAddress W L)" "preserves (keys_ok L) (GetCurrentChangeAddress W L)"
  unfolding GetNewAddress_def GetChangeAddress_def GetCurrentChangeAddress_def by (intro preserves_intro keys_derive_next)+

lemma keys_account: "preserves (keys_ok L) (deriveAccountKeys W)"
  unfolding deriveAccountKeys_def by (intro preserves_intro keys_field)

lemma keys_derive_list: "(\<And>i. preserves (keys_ok L) (f i)) \<Longrightarrow> preserves (keys_ok L) (derive_list f is')"
  by (induction is') (auto intro: preserves_intro)

lemma keys_load_seed: "preserves (keys_ok L) (loadSeedAndDerive W L m sd)"
  unfolding loadSeedAndDerive_def by (intro preserves_intro keys_field keys_account keys_derive_list keys_derive)

lemma keys_create: "preserves (keys_ok L) (createNew W L e m)"
  unfolding createNew_def by (intro preserves_intro keys_field keys_account keys_derive_next keys_save)

lemma keys_load: "preserves (keys_ok L) (loadFromJSON W L)"
  unfolding loadFromJSON_def by (intro preserves_intro keys_field keys_read keys_load_seed)

lemma keys_locked: "preserves (keys_ok L) (IsLocked now)"
  unfolding IsLocked_def by (intro preserves_intro keys_field)

lemma keys_require: "preserves (keys_ok L) (RequireUnlocked now)"
  unfolding RequireUnlocked_def by (intro preserves_intro keys_locked)

lemma keys_secrets:
  "preserves (keys_ok L) (EncryptWallet W s iv pp)" "preserves (keys_ok L) (WalletPassphrase W L now pp t)" "preserves (keys_ok L) WalletLock"
  "preserves (keys_ok L) (Mnemonic now)" "preserves (keys_ok L) (DumpPrivKey W now a)" "preserves (keys_ok L) (ImportPrivKey W L k)"
  unfolding EncryptWallet_def saveEncrypted_def WalletPassphrase_def WalletLock_def Mnemonic_def DumpPrivKey_def ImportPrivKey_def Let_def
  by (intro preserves_intro keys_field keys_write keys_read keys_load_seed keys_locked keys_require keys_add key_ok_made)+

lemma keys_sign: "preserves (keys_ok L) (SignRawTransaction L now tx g)"
  unfolding SignRawTransaction_def by (intro preserves_intro keys_require)

lemma keys_build: "preserves (keys_ok L) (BuildTransaction W L now sorter req f us m t)"
  unfolding BuildTransaction_def change_outputs_def by (intro preserves_intro keys_require keys_addresses)

lemma keys_new: "keys_ok L (new_wallet v f ws)"
  by (auto simp: keys_ok_def new_wallet_def split: sum.splits prod.splits)

section \<open>Runs of a wallet\<close>

datatype wallet_cmd =
    CmdNewAddress | CmdChangeAddress | CmdCurrentChangeAddress
  | CmdEncrypt "bytes option" "bytes option" string
  | CmdPassphrase int string int
  | CmdLock
  | CmdMnemonic int
  | CmdImport string
  | CmdDump int string
  | CmdSign int Transaction "hash \<Rightarrow> u32 \<Rightarrow> bytes option"
  | CmdBuild int coin_sorter SendRequest u64 "UnspentOutput list" u32 u32

definition discard :: "('c, 'e, 'a) sem \<Rightarrow> ('c, 'e, unit) sem" where
  "discard m = sbind m (\<lambda>_. sret ())"

primrec exec_cmd :: "('xk, 'sk) wallet_lib \<Rightarrow> ('sig, 'pk, 'sk) ecdsa_lib \<Rightarrow> wallet_cmd \<Rightarrow> ('xk, 'sk, unit) wallet_op" where
  "exec_cmd W L CmdNewAddress = discard (GetNewAddress W L)"
| "exec_cmd W L CmdChangeAddress = discard (GetChangeAddress W L)"
| "exec_cmd W L CmdCurrentChangeAddress = discard (GetCurrentChangeAddress W L)"
| "exec_cmd W L (CmdEncrypt salt iv pp) = EncryptWallet W salt iv pp"
| "exec_cmd W L (CmdPassphrase now pp secs) = WalletPassphrase W L now pp secs"
| "exec_cmd W L CmdLock = WalletLock"
| "exec_cmd W L (CmdMnemonic now) = discard (Mnemonic now)"
| "exec_cmd W L (CmdImport k) = discard (ImportPrivKey W L k)"
| "exec_cmd W L (CmdDump now a) = discard (DumpPrivKey W now a)"
| "exec_cmd W L (CmdSign now tx g) = discard (SignRawTransaction L now tx g)"
| "exec_cmd W L (CmdBuild now sorter req f us m t) = discard (BuildTransaction W L now sorter req f us m t)"

inductive wallet_reachable :: "('xk, 'sk) wallet_lib \<Rightarrow> ('sig, 'pk, 'sk) ecdsa_lib \<Rightarrow> ('xk, 'sk) HDWallet \<Rightarrow> bool" for W L where
  opened: "NewHDWallet W L entropy v disk writes = Some (r, w) \<Longrightarrow> wallet_reachable W L w"
| restored: "NewHDWalletFromMnemonic W L entropy v disk writes m = Some (r, w) \<Longrightarrow> wallet_reachable W L w"
| command: "wallet_reachable W L w \<Longrightarrow> exec_cmd W L c w = Some (r, w') \<Longrightarrow> wallet_reachable W L w'"

lemma keys_exec: "preserves (keys_ok L) (exec_cmd W L c)"
  by (cases c) (auto simp: discard_def intro: preserves_intro keys_addresses keys_secrets keys_sign keys_build)

lemma reachable_keys: "wallet_reachable W L w \<Longrightarrow> keys_ok L w"
proof (induction rule: wallet_reachable.induct)
  case (opened entropy v disk writes r w)
  then show ?case
    using preservesD [OF keys_create keys_new] preservesD [OF keys_load keys_new]
    by (auto simp: NewHDWallet_def Let_def split: if_splits)
next
  case (restored entropy v disk writes m r w)
  then show ?case
    using preservesD [OF keys_create keys_new] by (auto simp: NewHDWalletFromMnemonic_def)
next
  case (command w c r w')
  then show ?case using preservesD [OF keys_exec] by blast
qed

section \<open>Signing\<close>

text \<open>
  What the code relies on of secp256k1: signatures and compressed public keys parse back, a signature verifies under the
  public key, and the encodings have the documented sizes.
\<close>

definition ecdsa_laws :: "('sig, 'pk, 'sk) ecdsa_lib \<Rightarrow> bool" where
  "ecdsa_laws L \<longleftrightarrow> (\<forall>sk. length (PubKey_SerializeCompressed L sk) = 33 \<and>
     (\<exists>pk. ParsePubKey L (PubKey_SerializeCompressed L sk) = Some pk \<and>
        (\<forall>m. length m = 32 \<longrightarrow> ecdsa_Verify L (ecdsa_Sign L sk m) m pk)) \<and>
     (\<forall>m. length m = 32 \<longrightarrow> ParseDERSignature L (sig_Serialize L (ecdsa_Sign L sk m)) = Some (ecdsa_Sign L sk m)
        \<and> sig_Serialize L (ecdsa_Sign L sk m) \<noteq> [] \<and> length (sig_Serialize L (ecdsa_Sign L sk m)) \<le> 72))"

lemma ecdsa_laws_sign:
  assumes "ecdsa_laws L" "i < length (tx_Inputs tx)" "strip_scripts tx' = strip_scripts tx"
  shows "\<exists>script. SignInput L tx (int i) (MakeP2PKHScriptFromPubKey L (PubKey_SerializeCompressed L sk)) sk = Inr script
     \<and> script_Verify L script (MakeP2PKHScriptFromPubKey L (PubKey_SerializeCompressed L sk)) tx' (int i) = Inr ()"
proof -
  obtain pk where "ParsePubKey L (PubKey_SerializeCompressed L sk) = Some pk"
    "\<And>m. length m = 32 \<Longrightarrow> ecdsa_Verify L (ecdsa_Sign L sk m) m pk"
    using assms(1) unfolding ecdsa_laws_def by blast
  then show ?thesis
    by (intro SignInput_verifies) (use assms in \<open>auto simp: ecdsa_laws_def\<close>)
qed

lemma KeyForScript_owner:
  assumes "keys_ok L w" "KeyForScript w s = Some dk"
  shows "s = MakeP2PKHScriptFromPubKey L (PubKey_SerializeCompressed L (dk_PrivKey dk))"
    "dk \<in> set (w_externalKeys w @ w_changeKeys w)"
proof -
  obtain h where h: "ExtractP2PKHHash s = Some h" "w_keysByHash w h = Some dk"
    using assms(2) by (auto simp: KeyForScript_def split: option.splits)
  then have k: "dk_PubKeyHash dk = h" "dk \<in> set (w_externalKeys w @ w_changeKeys w)"
    using assms(1) unfolding keys_ok_def by blast+
  then have ok: "key_ok L dk" using assms(1) unfolding keys_ok_def by blast
  obtain h' where "length h' = 20" "s = MakeP2PKHScript h'"
    using h(1) by (auto simp: ExtractP2PKHHash_def IsP2PKHScript_form split: if_splits)
  with h(1) have "s = MakeP2PKHScript h"
    by (auto simp: ExtractP2PKHHash_def MakeP2PKHScript_20 split: if_splits)
  then show "s = MakeP2PKHScriptFromPubKey L (PubKey_SerializeCompressed L (dk_PrivKey dk))"
    using ok k(1) by (simp add: MakeP2PKHScriptFromPubKey_def key_ok_def)
  show "dk \<in> set (w_externalKeys w @ w_changeKeys w)" by (rule k(2))
qed

lemma strip_set_sigscript [simp]: "i < length (tx_Inputs tx) \<Longrightarrow> strip_scripts (set_sigscript tx i sc) = strip_scripts tx"
  by (simp add: strip_scripts_def set_sigscript_def map_update list_update_same_conv)

lemma length_set_sigscript [simp]: "length (tx_Inputs (set_sigscript tx i sc)) = length (tx_Inputs tx)"
  by (simp add: set_sigscript_def)

lemma nth_set_sigscript: "j < length (tx_Inputs tx) \<Longrightarrow>
    in_SignatureScript (tx_Inputs (set_sigscript tx i sc) ! j) = (if j = i then sc else in_SignatureScript (tx_Inputs tx ! j))"
  by (simp add: set_sigscript_def nth_list_update)

text \<open>What \<open>sign_coins\<close> establishes, for the inputs from \<open>i\<close> on and for any transaction that differs in scripts only.\<close>

definition coins_signed :: "('sig, 'pk, 'sk) ecdsa_lib \<Rightarrow> nat \<Rightarrow> UnspentOutput list \<Rightarrow> Transaction \<Rightarrow> Transaction \<Rightarrow> bool" where
  "coins_signed L i us tx tx' \<longleftrightarrow> strip_scripts tx' = strip_scripts tx
     \<and> (\<forall>j < i. in_SignatureScript (tx_Inputs tx' ! j) = in_SignatureScript (tx_Inputs tx ! j))
     \<and> (\<forall>j < length us. \<forall>t. strip_scripts t = strip_scripts tx \<longrightarrow>
          script_Verify L (in_SignatureScript (tx_Inputs tx' ! (i + j))) (u_PkScript (us ! j)) t (int (i + j)) = Inr ())"

lemma sign_coins_spend:
  assumes "ecdsa_laws L" "keys_ok L w"
  shows "sign_coins L w i us tx = Inr tx' \<Longrightarrow> i + length us = length (tx_Inputs tx) \<Longrightarrow> coins_signed L i us tx tx'"
proof (induction us arbitrary: i tx)
  case (Cons u us)
  have i: "i < length (tx_Inputs tx)" using Cons.prems(2) by simp
  from Cons.prems(1) obtain dk sc where dk: "KeyForScript w (u_PkScript u) = Some dk"
    and sc: "SignInput L tx (int i) (u_PkScript u) (dk_PrivKey dk) = Inr sc"
    and rest: "sign_coins L w (Suc i) us (set_sigscript tx i sc) = Inr tx'"
    by (auto simp: map_err_def split: option.splits sum.splits)
  have ih: "coins_signed L (Suc i) us (set_sigscript tx i sc) tx'"
    using Cons.IH [OF rest] Cons.prems(2) by simp
  have here: "script_Verify L sc (u_PkScript u) t (int i) = Inr ()" if "strip_scripts t = strip_scripts tx" for t
    using ecdsa_laws_sign [OF assms(1) i that, of "dk_PrivKey dk"] sc
    unfolding KeyForScript_owner(1) [OF assms(2) dk] by auto
  have at_i: "in_SignatureScript (tx_Inputs tx' ! i) = sc"
    using ih i by (simp add: coins_signed_def nth_set_sigscript)
  show ?case
    unfolding coins_signed_def
  proof (intro conjI allI impI)
    show "strip_scripts tx' = strip_scripts tx" using ih i by (simp add: coins_signed_def)
    show "in_SignatureScript (tx_Inputs tx' ! j) = in_SignatureScript (tx_Inputs tx ! j)" if "j < i" for j
      using ih i that by (simp add: coins_signed_def nth_set_sigscript)
    show "script_Verify L (in_SignatureScript (tx_Inputs tx' ! (i + j))) (u_PkScript ((u # us) ! j)) t (int (i + j)) = Inr ()"
      if j: "j < length (u # us)" and t: "strip_scripts t = strip_scripts tx" for j t
    proof (cases j)
      case 0
      then show ?thesis using here [OF t] at_i by simp
    next
      case (Suc k)
      then show ?thesis using ih i j t by (simp add: coins_signed_def)
    qed
  qed
qed (simp add: coins_signed_def)

section \<open>Inputs and outputs of a payment\<close>

definition coins_total :: "UnspentOutput list \<Rightarrow> nat" where
  "coins_total us = sum_list (map (\<lambda>u. unat (u_Value u)) us)"

definition coin_key :: "UnspentOutput \<Rightarrow> bytes" where
  "coin_key u = OutpointKey (u_TxHash u) (u_Index u)"

definition coin_entry :: "UnspentOutput \<Rightarrow> UtxoEntry" where
  "coin_entry u = \<lparr>ue_Value = u_Value u, ue_PkScript = u_PkScript u, ue_Height = u_Height u, ue_IsCoinbase = u_IsCoinbase u\<rparr>"

lemma coins_total_simps [simp]:
  "coins_total [] = 0" "coins_total (u # us) = unat (u_Value u) + coins_total us"
  "coins_total (us @ vs) = coins_total us + coins_total vs"
  by (simp_all add: coins_total_def)

lemma coins_total_filter: "coins_total (filter P us) \<le> coins_total us"
  by (induction us) auto

lemma coins_total_mset: "mset us = mset vs \<Longrightarrow> coins_total us = coins_total vs"
  unfolding coins_total_def by (metis mset_map sum_mset_sum_list)

lemma unat_u64_less: "unat (x :: u64) < 2 ^ 64"
  using unsigned_less [of x] by simp

lemma unat_fee_for:
  assumes "(txOverhead + n * estimatedInputSize + k * estimatedOutputSize) * unat feePerByte < 2 ^ 64"
  shows "unat (fee_for n k feePerByte) = max 1 ((txOverhead + n * estimatedInputSize + k * estimatedOutputSize) * unat feePerByte)"
proof -
  let ?s = "txOverhead + n * estimatedInputSize + k * estimatedOutputSize"
  have "unat (of_nat ?s * feePerByte) = ?s * unat feePerByte"
  proof -
    have "of_nat ?s * feePerByte = (of_nat (?s * unat feePerByte) :: u64)" by simp
    then show ?thesis using assms by (simp only: unat_of_nat) simp
  qed
  then show ?thesis by (auto simp: fee_for_def Let_def word_less_nat_alt max_def)
qed

lemma select_loop_result:
  assumes "select_loop us amount feePerByte sel t = Inr (sel', t')" "unat t = coins_total sel"
    and "coins_total sel + coins_total us < 2 ^ 64"
  shows "\<exists>vs ws. us = vs @ ws \<and> sel' = sel @ vs \<and> vs \<noteq> [] \<and> unat t' = coins_total sel'
     \<and> amount + fee_for (length sel') 2 feePerByte \<le> t'"
  using assms
proof (induction us arbitrary: sel t)
  case (Cons u us)
  have t1: "unat (t + u_Value u) = coins_total (sel @ [u])"
    using Cons.prems(2,3) by (subst unat_plus_simple [THEN iffD1]) (auto simp: no_olen_add_nat)
  show ?case
  proof (cases "amount + fee_for (length (sel @ [u])) 2 feePerByte \<le> t + u_Value u")
    case True
    then have "sel' = sel @ [u]" "t' = t + u_Value u" using Cons.prems(1) by (auto simp: Let_def)
    with True t1 show ?thesis by (intro exI [of _ "[u]"] exI [of _ us]) simp
  next
    case False
    then have "select_loop us amount feePerByte (sel @ [u]) (t + u_Value u) = Inr (sel', t')"
      using Cons.prems(1) by (simp add: Let_def)
    from Cons.IH [OF this t1] Cons.prems(3) obtain vs ws where
      "us = vs @ ws" "sel' = (sel @ [u]) @ vs" "unat t' = coins_total sel'" "amount + fee_for (length sel') 2 feePerByte \<le> t'"
      by auto
    then show ?thesis by (intro exI [of _ "u # vs"] exI [of _ ws]) simp
  qed
qed simp

lemma single_inputs_coins:
  assumes "map in_PreviousOutPoint ins = map (\<lambda>u. \<lparr>op_Hash = u_TxHash u, op_Index = u_Index u\<rparr>) us"
    and "\<forall>u\<in>set us. s (coin_key u) = Some (coin_entry u) \<and> mature p height (coin_entry u)"
    and "distinct (map coin_key us)" "\<forall>u\<in>set us. coin_key u \<notin> seen"
    and "unat t + coins_total us \<le> unat MaxMoneyValue"
  shows "\<exists>t'. single_inputs s None p height ins seen t = Inr (t', map coin_entry us) \<and> unat t' = unat t + coins_total us"
  using assms
proof (induction us arbitrary: ins seen t)
  case (Cons u us)
  from Cons.prems(1) obtain i ins' where ins: "ins = i # ins'"
    "in_PreviousOutPoint i = \<lparr>op_Hash = u_TxHash u, op_Index = u_Index u\<rparr>"
    "map in_PreviousOutPoint ins' = map (\<lambda>u. \<lparr>op_Hash = u_TxHash u, op_Index = u_Index u\<rparr>) us"
    by (cases ins) auto
  have k: "in_key i = coin_key u" by (simp add: in_key_def coin_key_def ins(2))
  have t1: "unat (t + u_Value u) = unat t + unat (u_Value u)"
    using Cons.prems(5) by (subst unat_plus_simple [THEN iffD1]) (auto simp: no_olen_add_nat MaxMoneyValue_def)
  have other: "\<forall>v\<in>set us. coin_key v \<noteq> coin_key u" using Cons.prems(3) by simp (metis imageI)
  have add: "add_input_value t (coin_entry u) = Inr (t + u_Value u)"
    using Cons.prems(5) t1 by (simp add: add_input_value_def coin_entry_def word_less_nat_alt)
  have "\<exists>t'. single_inputs s None p height ins' (insert (coin_key u) seen) (t + u_Value u) = Inr (t', map coin_entry us)
      \<and> unat t' = unat (t + u_Value u) + coins_total us"
    using Cons.prems t1 ins(3) other by (intro Cons.IH) auto
  then show ?case
    using Cons.prems(2,4) add k t1 ins(2)
    by (auto simp: ins(1) Let_def Set_Get_def coin_key_def check_maturity_iff [THEN iffD2])
qed simp

lemma check_scripts_all:
  assumes "length es = length ins"
    and "\<And>j. j < length ins \<Longrightarrow> script_Verify L (in_SignatureScript (ins ! j)) (ue_PkScript (es ! j)) tx (int (n + j)) = Inr ()"
  shows "check_scripts L tx n (zip ins es) = Inr ()"
  using assms
proof (induction ins arbitrary: es n)
  case (Cons i ins)
  then obtain e es' where es: "es = e # es'" by (cases es) auto
  have "check_scripts L tx (Suc n) (zip ins es') = Inr ()"
    using Cons.prems(1) Cons.prems(2) [of "Suc j" for j] by (intro Cons.IH) (auto simp: es)
  with Cons.prems(2) [of 0] show ?case by (simp add: es)
qed simp

lemma confirmations_mature:
  assumes "spendable_coin (par_CoinbaseMaturity p) tip u" "unat tip + 1 < 2 ^ 32"
  shows "mature p (tip + 1) (coin_entry u)"
proof -
  have c: "unat (tip + 1) = unat tip + 1" using assms(2) by (simp add: unat_word_ariths)
  have "u_IsCoinbase u \<Longrightarrow> \<not> confirmations tip (u_Height u) < par_CoinbaseMaturity p" "confirmations tip (u_Height u) \<noteq> 0"
    using assms(1) by (auto simp: spendable_coin_def Let_def word_less_1 split: if_splits)
  moreover have "unat (confirmations tip (u_Height u)) = unat tip + 1 - unat (u_Height u)" if "u_Height u \<le> tip"
    using that assms(2) by (simp add: confirmations_def unat_word_ariths unat_sub word_le_nat_alt)
  ultimately show ?thesis
    using c by (cases "u_Height u \<le> tip") (auto simp: mature_def coin_entry_def confirmations_def word_less_nat_alt word_le_nat_alt)
qed

lemma change_key:
  assumes "GetChangeAddress W L w = Some (Inr a, w')"
  shows "\<exists>h. AddressToPubKeyHash a = Inr (w_addrVersion w', h) \<and> w_keysByHash w' h \<noteq> None"
proof -
  let ?I = "\<lambda>dk w. length (dk_PubKeyHash dk) = 20 \<and> w_keysByHash w (dk_PubKeyHash dk) = Some dk"
  have wr: "preserves (?I dk) (write_wallet wd)" for dk wd
    by (auto simp: preserves_def triple_def write_wallet_def swith_def sbind_def supd_def sfail_def Let_def
      split: if_splits write_outcome.splits)
  have rd: "preserves (?I dk) read_wallet" for dk
    by (auto simp: preserves_def triple_def read_wallet_def swith_def sret_def sfail_def split: wallet_file.splits)
  have save: "triple (?I dk) wallet_save (\<lambda>_. ?I dk) (\<lambda>_ _. True)" for dk
    by (rule triple_weaken [of "?I dk" _ "\<lambda>_. ?I dk" "\<lambda>_. ?I dk"], fold preserves_def)
       (unfold wallet_save_def savePreservingEncryption_def, intro preserves_intro wr rd, auto)
  have made: "triple (\<lambda>_. True) (deriveChange W L i) ?I (\<lambda>_ _. True)" for i
    by (auto simp: triple_def deriveChange_def registerKey_def swith_def sbind_def slift_def supd_def sret_def add_key_def
        derived_key_def PubKeyHash_def Let_def split: option.splits sum.splits prod.splits)
  have finish: "triple (?I dk) (sbind (supd (\<lambda>w. w\<lparr>w_nextChangeIdx := w_nextChangeIdx w + 1\<rparr>)) (\<lambda>_. sbind wallet_save (\<lambda>_. sret dk)))
      ?I (\<lambda>_ _. True)" for dk
    by (rule triple_bind [of _ _ "\<lambda>_. ?I dk"], rule triple_mod, simp, rule triple_bind [OF save], rule triple_ret, simp)
  have next_key: "triple (\<lambda>_. True) (DeriveNextChange W L) ?I (\<lambda>_ _. True)"
    unfolding DeriveNextChange_def by (rule triple_with, rule triple_bind [OF triple_pre [OF _ made] finish], simp)
  obtain dk where "DeriveNextChange W L w = Some (Inr dk, w')" "a = key_address w' dk"
    using assms by (auto simp: GetChangeAddress_def sbind_def swith_def sret_def split: option.splits sum.splits)
  moreover from this(1) have "?I dk w'" by (rule tripleD_ok [OF next_key, rotated]) simp
  ultimately show ?thesis by (intro exI [of _ "dk_PubKeyHash dk"]) (simp add: key_address_def address_iff)
qed

lemma change_outputs_result:
  assumes "change_outputs W L totalIn amount feePerByte n dest w = Some (Inr outs, w')"
    and "unat amount + unat (fee_for n 2 feePerByte) \<le> unat totalIn"
  shows "outs = [dest] \<or> (\<exists>v sc. outs = [dest, \<lparr>out_Value = v, out_PkScript = sc\<rparr>] \<and> DustThreshold < v
     \<and> unat v + unat amount + unat (fee_for n 2 feePerByte) = unat totalIn \<and> IsOurScript w' sc)"
proof (cases "outs = [dest]")
  case False
  then obtain a w1 ver h where a: "GetChangeAddress W L w = Some (Inr a, w1)"
    and h: "AddressToPubKeyHash a = Inr (ver, h)" and w': "w' = w1"
    and v: "DustThreshold < totalIn - amount - fee_for n 2 feePerByte"
    and outs: "outs = [dest, \<lparr>out_Value = totalIn - amount - fee_for n 2 feePerByte, out_PkScript = MakeP2PKHScript h\<rparr>]"
    using assms(1)
    by (auto simp: change_outputs_def Let_def sbind_def sfail_def sret_def slift_def map_err_def
        split: if_splits option.splits sum.splits prod.splits)
  have "length h = 20" "w_keysByHash w' h \<noteq> None"
    using change_key [OF a] h address_iff [of a ver h] by (auto simp: w')
  moreover have "ExtractP2PKHHash (MakeP2PKHScript h) = Some h" if "length h = 20"
    using that IsP2PKHScript_form [of "MakeP2PKHScript h"] by (auto simp: ExtractP2PKHHash_def MakeP2PKHScript_20)
  ultimately have "IsOurScript w' (MakeP2PKHScript h)" by (simp add: IsOurScript_def)
  moreover have "unat (totalIn - amount - fee_for n 2 feePerByte) = unat totalIn - unat amount - unat (fee_for n 2 feePerByte)"
    using assms(2) by (simp add: unat_sub word_le_nat_alt)
  ultimately show ?thesis using outs v assms(2) by auto
qed simp

section \<open>Payments are accepted\<close>

text \<open>
  The iterator's calls list the UTXO set: one call per output, with its entry. No transaction has the zero hash, so no
  output is filed under the outpoint that marks a coinbase input.
\<close>

definition lists_utxos :: "utxo_set \<Rightarrow> utxo_call list \<Rightarrow> bool" where
  "lists_utxos s cs \<longleftrightarrow>
     distinct (map (\<lambda>(h, i, _). OutpointKey h i) cs) \<and> s (OutpointKey ZeroHash 0xFFFFFFFF) = None \<and>
     (\<forall>(h, i, v, sc, ht, cb) \<in> set cs. s (OutpointKey h i) = Some \<lparr>ue_Value = v, ue_PkScript = sc, ue_Height = ht, ue_IsCoinbase = cb\<rparr>)"

definition calls_total :: "utxo_call list \<Rightarrow> nat" where
  "calls_total cs = sum_list (map (\<lambda>(_, _, v, _). unat v) cs)"

definition call_of :: "UnspentOutput \<Rightarrow> utxo_call" where
  "call_of u = (u_TxHash u, u_Index u, u_Value u, u_PkScript u, u_Height u, u_IsCoinbase u)"

lemma FindUnspent_filter: "map call_of (FindUnspent w cs tip) = filter (\<lambda>(_, _, _, sc, _). IsOurScript w sc) cs"
  by (induction cs) (auto simp: call_of_def IsOurScript_def split: option.splits)

lemma FindUnspent_coins:
  "coins_total (FindUnspent w cs tip) \<le> calls_total cs"
  "distinct (map (\<lambda>(h, i, _). OutpointKey h i) cs) \<Longrightarrow> distinct (map coin_key (FindUnspent w cs tip))"
proof -
  have "coins_total (FindUnspent w cs tip) = calls_total (map call_of (FindUnspent w cs tip))"
    by (simp add: coins_total_def calls_total_def call_of_def o_def)
  also have "\<dots> \<le> calls_total cs" unfolding FindUnspent_filter by (induction cs) (auto simp: calls_total_def)
  finally show "coins_total (FindUnspent w cs tip) \<le> calls_total cs" .
  have "map coin_key (FindUnspent w cs tip) = map (\<lambda>(h, i, _). OutpointKey h i) (map call_of (FindUnspent w cs tip))"
    by (simp add: call_of_def coin_key_def)
  then show "distinct (map coin_key (FindUnspent w cs tip))" if "distinct (map (\<lambda>(h, i, _). OutpointKey h i) cs)"
    using that unfolding FindUnspent_filter by (simp add: distinct_map_filter)
qed

lemma FindUnspent_entries:
  assumes "lists_utxos s cs" "u \<in> set (FindUnspent w cs tip)"
  shows "s (coin_key u) = Some (coin_entry u)"
proof -
  have "call_of u \<in> set (map call_of (FindUnspent w cs tip))" using assms(2) by simp
  then have "call_of u \<in> set cs" unfolding FindUnspent_filter by simp
  then show ?thesis using assms(1) by (auto simp: lists_utxos_def call_of_def coin_key_def coin_entry_def)
qed

lemma BuildTransaction_parts:
  assumes "BuildTransaction W L now sorter req feePerByte utxos maturity tip w = Some (Inr tx, w')" "keys_ok L w"
  obtains ver pkh sel totalIn outs w1 where
    "sr_Amount req \<noteq> 0" "AddressToPubKeyHash (sr_ToAddress req) = Inr (ver, pkh)"
    "selectCoins (sorter (\<lambda>a b. u_Value a > u_Value b) (filterSpendable utxos maturity tip)) (sr_Amount req) feePerByte = Inr (sel, totalIn)"
    "change_outputs W L totalIn (sr_Amount req) feePerByte (length sel)
       \<lparr>out_Value = sr_Amount req, out_PkScript = MakeP2PKHScript pkh\<rparr> w1 = Some (Inr outs, w')"
    "sign_coins L w' 0 sel
       \<lparr>tx_Version = 1, tx_Inputs = map coin_input sel, tx_Outputs = outs, tx_LockTime = tip\<rparr> = Inr tx"
    "keys_ok L w'"
proof -
  have k: "keys_ok L w'" by (rule preservesD [OF keys_build assms(2,1)])
  show thesis
    using assms(1) k that
    by (auto simp: BuildTransaction_def sbind_def swith_def sfail_def slift_def map_err_def Let_def
        split: if_splits option.splits sum.splits prod.splits)
qed

lemma payment_outputs:
  assumes "outs = [dest] \<or> (\<exists>v sc. outs = [dest, \<lparr>out_Value = v, out_PkScript = sc\<rparr>] \<and> DustThreshold < v
       \<and> unat v + unat (out_Value dest) + f2 = unat totalIn \<and> Q sc)"
    and "out_Value dest \<noteq> 0" "unat (out_Value dest) + f2 \<le> unat totalIn" "totalIn \<le> MaxMoneyValue"
  shows "\<exists>t. check_outputs totalIn outs = Inr t \<and> t \<le> totalIn \<and> f2 \<le> unat (totalIn - t)"
proof -
  have d: "unat (out_Value dest) \<le> unat totalIn" "unat totalIn \<le> unat MaxMoneyValue"
    using assms(3,4) by (auto simp: word_le_nat_alt)
  consider "outs = [dest]" | v sc where "outs = [dest, \<lparr>out_Value = v, out_PkScript = sc\<rparr>]" "DustThreshold < v"
    "unat v + unat (out_Value dest) + f2 = unat totalIn"
    using assms(1) by blast
  then show ?thesis
  proof cases
    case 1
    then show ?thesis using assms(2,3) d
      by (auto simp: check_outputs_def word_less_nat_alt word_le_nat_alt unat_sub)
  next
    case 2
    have "unat (out_Value dest) + unat v < 2 ^ 64" using 2(3) unat_u64_less [of totalIn] by linarith
    then have s: "unat (out_Value dest + v) = unat (out_Value dest) + unat v"
      by (subst unat_plus_simple [THEN iffD1]) (auto simp: no_olen_add_nat)
    have "v \<noteq> 0" using 2(2) by auto
    then show ?thesis using assms(2) d 2(3)
      by (auto simp: 2(1) check_outputs_def word_less_nat_alt word_le_nat_alt unat_sub s)
  qed
qed

lemma strip_inputs:
  assumes "strip_scripts tx' = strip_scripts tx"
  shows "map in_PreviousOutPoint (tx_Inputs tx') = map in_PreviousOutPoint (tx_Inputs tx)"
    "map in_Sequence (tx_Inputs tx') = map in_Sequence (tx_Inputs tx)"
    "tx_Outputs tx' = tx_Outputs tx" "tx_LockTime tx' = tx_LockTime tx" "length (tx_Inputs tx') = length (tx_Inputs tx)"
proof -
  have i: "map (\<lambda>i. i\<lparr>in_SignatureScript := []\<rparr>) (tx_Inputs tx') = map (\<lambda>i. i\<lparr>in_SignatureScript := []\<rparr>) (tx_Inputs tx)"
    using arg_cong [OF assms, of tx_Inputs] by (simp add: strip_scripts_def)
  have "map f (tx_Inputs t) = map f (map (\<lambda>i. i\<lparr>in_SignatureScript := []\<rparr>) (tx_Inputs t))"
    if "\<And>i. f (i\<lparr>in_SignatureScript := []\<rparr>) = f i" for f :: "TxInput \<Rightarrow> 'z" and t
    using that by simp
  note via = this
  show "map in_PreviousOutPoint (tx_Inputs tx') = map in_PreviousOutPoint (tx_Inputs tx)"
    using via [of in_PreviousOutPoint tx] via [of in_PreviousOutPoint tx'] i by simp
  show "map in_Sequence (tx_Inputs tx') = map in_Sequence (tx_Inputs tx)"
    using via [of in_Sequence tx] via [of in_Sequence tx'] i by simp
  show "length (tx_Inputs tx') = length (tx_Inputs tx)" using arg_cong [OF i, of length] by simp
  show "tx_Outputs tx' = tx_Outputs tx" "tx_LockTime tx' = tx_LockTime tx"
    using arg_cong [OF assms, of tx_Outputs] arg_cong [OF assms, of tx_LockTime] by (simp_all add: strip_scripts_def)
qed

lemma final_locks:
  assumes "list_all (\<lambda>i. in_Sequence i = 0xFFFFFFFF) (tx_Inputs tx)"
  shows "check_locks p tx h t s = Inr ()"
proof -
  have "check_sequence_locks s h n ins = Inr ()" if "list_all (\<lambda>i. in_Sequence i = 0xFFFFFFFF) ins" for n ins
    using that by (induction ins arbitrary: n) (auto simp: check_sequence_lock_def)
  with assms show ?thesis
    by (auto simp: check_locks_def CheckTransactionFinality_def CheckSequenceLocks_def split: option.splits)
qed

definition selection_ok :: "UnspentOutput list \<Rightarrow> nat \<Rightarrow> u64 \<Rightarrow> UnspentOutput list \<Rightarrow> u64 \<Rightarrow> bool" where
  "selection_ok spendable need amount sel totalIn \<longleftrightarrow>
     set sel \<subseteq> set spendable \<and> distinct (map coin_key sel) \<and> sel \<noteq> [] \<and> unat totalIn = coins_total sel
     \<and> coins_total sel \<le> unat MaxMoneyValue \<and> unat amount + need \<le> unat totalIn"

lemma selectCoins_ok:
  assumes "selectCoins sorted_coins amount feePerByte = Inr (sel, totalIn)" "mset sorted_coins = mset spendable"
    and "distinct (map coin_key spendable)" "coins_total spendable \<le> unat MaxMoneyValue"
    and "unat amount + (78 + 148 * length spendable) * unat feePerByte < 2 ^ 64 - 1"
  shows "selection_ok spendable (unat (fee_for (length sel) 2 feePerByte)) amount sel totalIn"
    and "(78 + 148 * length sel) * unat feePerByte \<le> unat (fee_for (length sel) 2 feePerByte)"
proof -
  have tot: "coins_total sorted_coins = coins_total spendable" by (rule coins_total_mset [OF assms(2)])
  have "\<exists>vs ws. sorted_coins = vs @ ws \<and> sel = [] @ vs \<and> vs \<noteq> [] \<and> unat totalIn = coins_total sel
      \<and> amount + fee_for (length sel) 2 feePerByte \<le> totalIn"
    by (rule select_loop_result [where t = 0]) (use assms(1,4) tot in \<open>simp_all add: selectCoins_def MaxMoneyValue_def\<close>)
  then obtain ws where r: "sorted_coins = sel @ ws" "sel \<noteq> []" "unat totalIn = coins_total sel"
    "amount + fee_for (length sel) 2 feePerByte \<le> totalIn" by auto
  have st: "set sorted_coins = set spendable" using assms(2) by (rule mset_eq_setD)
  have ds: "distinct (map coin_key sorted_coins)"
    using assms(2,3) by (metis mset_map mset_eq_imp_distinct_iff)
  have len: "length sel \<le> length spendable" using arg_cong [OF assms(2), of size] by (simp add: r(1))
  then have le: "(78 + 148 * length sel) * unat feePerByte \<le> (78 + 148 * length spendable) * unat feePerByte"
    by (intro mult_le_mono1) simp
  have fee: "unat (fee_for (length sel) 2 feePerByte) = max 1 ((78 + 148 * length sel) * unat feePerByte)"
  proof -
    have e: "txOverhead + length sel * estimatedInputSize + 2 * estimatedOutputSize = 78 + 148 * length sel" by simp
    have "(78 + 148 * length sel) * unat feePerByte < 2 ^ 64" using le assms(5) by linarith
    then show ?thesis using unat_fee_for [of "length sel" 2 feePerByte] unfolding e by blast
  qed
  then have "unat amount + unat (fee_for (length sel) 2 feePerByte) < 2 ^ 64" using le assms(5) by linarith
  then have "unat (amount + fee_for (length sel) 2 feePerByte) = unat amount + unat (fee_for (length sel) 2 feePerByte)"
    by (subst unat_plus_simple [THEN iffD1]) (auto simp: no_olen_add_nat)
  then have "unat amount + unat (fee_for (length sel) 2 feePerByte) \<le> unat totalIn"
    using r(4) by (simp add: word_le_nat_alt)
  then show "selection_ok spendable (unat (fee_for (length sel) 2 feePerByte)) amount sel totalIn"
    using r(1-3) st ds tot assms(4) unfolding selection_ok_def by auto
  show "(78 + 148 * length sel) * unat feePerByte \<le> unat (fee_for (length sel) 2 feePerByte)" using fee by linarith
qed

lemma spend_valid:
  assumes "ecdsa_laws L" "keys_ok L w" "sel \<noteq> []" "distinct (map coin_key sel)"
    and "unat totalIn = coins_total sel" "coins_total sel \<le> unat MaxMoneyValue"
    and coins: "\<forall>u\<in>set sel. s (coin_key u) = Some (coin_entry u) \<and> mature p (tip + 1) (coin_entry u)"
    and "s (OutpointKey ZeroHash 0xFFFFFFFF) = None"
    and sgn: "sign_coins L w 0 sel
       \<lparr>tx_Version = 1, tx_Inputs = map coin_input sel, tx_Outputs = outs, tx_LockTime = tip\<rparr> = Inr tx"
    and "outs \<noteq> []" "check_outputs totalIn outs = Inr t" "Transaction_SerializeSize tx \<le> MaxTxSize"
  shows "ValidateSingleTransaction L medianTime tx s tip p None = Inr (totalIn - t)
     \<and> length (tx_Inputs tx) = length sel \<and> tx_Outputs tx = outs"
proof -
  let ?tx0 = "\<lparr>tx_Version = 1, tx_Inputs = map coin_input sel, tx_Outputs = outs, tx_LockTime = tip\<rparr>"
  have sg: "coins_signed L 0 sel ?tx0 tx" by (rule sign_coins_spend [OF assms(1,2) sgn]) simp
  then have st: "strip_scripts tx = strip_scripts ?tx0" by (simp add: coins_signed_def)
  have inp: "map in_PreviousOutPoint (tx_Inputs tx) = map (\<lambda>u. \<lparr>op_Hash = u_TxHash u, op_Index = u_Index u\<rparr>) sel"
    and sq: "map in_Sequence (tx_Inputs tx) = map (\<lambda>_. 0xFFFFFFFF) sel"
    and len: "length (tx_Inputs tx) = length sel" and out: "tx_Outputs tx = outs"
    using strip_inputs [OF st] by (simp_all add: coin_input_def o_def)
  obtain t' where si: "single_inputs s None p (tip + 1) (tx_Inputs tx) {} 0 = Inr (t', map coin_entry sel)"
    "unat t' = coins_total sel"
    using single_inputs_coins [OF inp coins assms(4), of "{}" 0] assms(6) by auto
  then have t': "t' = totalIn" using assms(5) by (simp add: word_unat_eq_iff)
  have "\<forall>q\<in>set (map in_Sequence (tx_Inputs tx)). q = 0xFFFFFFFF" unfolding sq by simp
  then have fin: "list_all (\<lambda>i. in_Sequence i = 0xFFFFFFFF) (tx_Inputs tx)" by (simp add: list_all_iff)
  have scripts: "check_scripts L tx 0 (zip (tx_Inputs tx) (map coin_entry sel)) = Inr ()"
    by (rule check_scripts_all) (use sg st len in \<open>simp_all add: coins_signed_def coin_entry_def\<close>)
  have "\<not> Transaction_IsCoinbase tx"
  proof
    assume cb: "Transaction_IsCoinbase tx"
    then have "op_Hash (map in_PreviousOutPoint (tx_Inputs tx) ! 0) = ZeroHash"
      "op_Index (map in_PreviousOutPoint (tx_Inputs tx) ! 0) = 0xFFFFFFFF" and 0: "0 < length sel"
      using len by (auto simp: Transaction_IsCoinbase_def TxInput_IsCoinbase_def Hash_IsZero_def)
    then have "coin_key (sel ! 0) = OutpointKey ZeroHash 0xFFFFFFFF" unfolding inp by (simp add: coin_key_def)
    with coins 0 assms(8) show False by (metis nth_mem option.distinct(1))
  qed
  then show ?thesis
    using si t' scripts final_locks [OF fin] assms(3,10-12) len out
    by (auto simp: ValidateSingleTransaction_def Let_def)
qed

section \<open>Properties\<close>


text \<open>A wallet and a coin of it for the witnesses; every derived key is the same here.\<close>

definition demo_wlib :: "(unit, bytes) wallet_lib" where
  "demo_wlib = \<lparr>NewMaster = (\<lambda>_. Some ()), Derive = (\<lambda>_ _. Some ()), ECPrivKey = (\<lambda>_. Some (replicate 32 9)),
     secp_PrivKeyFromBytes = id, sk_Serialize = id, NewMnemonic = (\<lambda>_. Some ''abandon''), IsMnemonicValid = (\<lambda>m. m = ''abandon''),
     NewSeed = (\<lambda>_ _. replicate 64 3), scrypt_Key = (\<lambda>_ _ _ _ _ n. Some (replicate n 5))\<rparr>"

definition demo_key :: "bool \<Rightarrow> u32 \<Rightarrow> bytes DerivedKey" where
  "demo_key c i = derived_key demo_wlib demo_lib (replicate 32 9) c i"

definition demo_wallet :: "(unit, bytes) HDWallet" where
  "demo_wallet = snd (the (NewHDWallet demo_wlib demo_lib (Some []) 0 FileEmpty []))"

definition demo_hash :: bytes where
  "demo_hash = Hash160 demo_lib (replicate 33 2)"

definition demo_call :: utxo_call where
  "demo_call = (hash_copy [5], 0, 100000, MakeP2PKHScript demo_hash, 5, False)"

lemmas sem_defs = sbind_def swith_def sret_def sfail_def slift_def supd_def

lemma demo_key_hash [simp]: "dk_PubKeyHash (demo_key c i) = demo_hash" "dk_IsChange (demo_key c i) = c"
    "dk_PrivKey (demo_key c i) = replicate 32 9" "length demo_hash = 20"
  by (simp_all add: demo_key_def demo_hash_def derived_key_def PubKeyHash_def demo_lib_def demo_wlib_def Let_def)

lemma demo_open: "NewHDWallet demo_wlib demo_lib (Some []) 0 FileEmpty [] = Some (Inr (), demo_wallet)"
  and demo_wallet_fields: "w_keysByHash demo_wallet = [demo_hash \<mapsto> demo_key False 0]" "w_encrypted demo_wallet = False"
    "w_addrVersion demo_wallet = 0" "w_changeKey demo_wallet = Some ()" "w_nextChangeIdx demo_wallet = 0" "w_writes demo_wallet = []"
    "w_externalKeys demo_wallet = [demo_key False 0]" "w_changeKeys demo_wallet = []"
proof -
  show "NewHDWallet demo_wlib demo_lib (Some []) 0 FileEmpty [] = Some (Inr (), demo_wallet)"
    "w_keysByHash demo_wallet = [demo_hash \<mapsto> demo_key False 0]" "w_encrypted demo_wallet = False"
    "w_addrVersion demo_wallet = 0" "w_changeKey demo_wallet = Some ()" "w_nextChangeIdx demo_wallet = 0" "w_writes demo_wallet = []"
    "w_externalKeys demo_wallet = [demo_key False 0]" "w_changeKeys demo_wallet = []"
    by (simp_all add: demo_wallet_def NewHDWallet_def new_wallet_def createNew_def sem_defs opt_err_def demo_wlib_def
        deriveAccountKeys_def DeriveNextExternal_def deriveExternal_def derive_child_def registerKey_def Let_def
        wallet_save_def write_wallet_def add_key_def demo_key_hash flip: demo_key_def [unfolded demo_wlib_def])
qed

lemma Extract_Make: "length h = 20 \<Longrightarrow> ExtractP2PKHHash (MakeP2PKHScript h) = Some h"
  using IsP2PKHScript_form [of "MakeP2PKHScript h"] by (auto simp: ExtractP2PKHHash_def MakeP2PKHScript_20)

definition demo_req :: SendRequest where
  "demo_req = \<lparr>sr_ToAddress = PubKeyHashToAddress demo_hash 0, sr_Amount = 50000\<rparr>"

lemma demo_unspent: "FindUnspent demo_wallet [demo_call] 10 =
    [\<lparr>u_TxHash = hash_copy [5], u_Index = 0, u_Value = 100000, u_Height = 5, u_Confirmations = 6,
      u_Address = PubKeyHashToAddress demo_hash 0, u_PkScript = MakeP2PKHScript demo_hash, u_IsCoinbase = False\<rparr>]"
  by (simp add: demo_call_def Extract_Make demo_wallet_fields confirmations_def)

lemma demo_change: "\<exists>w'. GetChangeAddress demo_wlib demo_lib demo_wallet = Some (Inr (PubKeyHashToAddress demo_hash 0), w')
    \<and> w_keysByHash w' demo_hash = Some (demo_key True 0)"
  by (simp add: GetChangeAddress_def DeriveNextChange_def deriveChange_def derive_child_def registerKey_def sem_defs opt_err_def
      demo_wallet_fields wallet_save_def write_wallet_def Let_def add_key_def key_address_def demo_wlib_def
      flip: demo_key_def [unfolded demo_wlib_def])

lemma demo_sign:
  assumes "tx_Inputs tx \<noteq> []"
  shows "\<exists>sc. SignInput demo_lib tx 0 script sk = Inr sc \<and> length sc = 68"
proof -
  obtain m where "ComputeSigHash tx 0 script = Inr m" using assms by (simp add: ComputeSigHash_def)
  then show ?thesis
    by (simp add: SignInput_def SignTransaction_def MakeP2PKHSignatureScript_def demo_lib_def)
qed

lemma demo_outputs:
  assumes "GetChangeAddress demo_wlib demo_lib demo_wallet = Some (Inr (PubKeyHashToAddress demo_hash 0), w')"
  shows "change_outputs demo_wlib demo_lib 100000 50000 1 1 dest demo_wallet =
     Some (Inr [dest, \<lparr>out_Value = 49774, out_PkScript = MakeP2PKHScript demo_hash\<rparr>], w')"
proof -
  have a: "AddressToPubKeyHash (PubKeyHashToAddress demo_hash 0) = Inr (0, demo_hash)" by (simp add: address_iff)
  show ?thesis by (simp add: change_outputs_def fee_for_def Let_def sem_defs assms a)
qed

lemma demo_build: "\<exists>tx w'. BuildTransaction demo_wlib demo_lib 0 (\<lambda>_ us. us) demo_req 1 (FindUnspent demo_wallet [demo_call] 10)
      (par_CoinbaseMaturity Mainnet) 10 demo_wallet = Some (Inr tx, w') \<and> Transaction_SerializeSize tx \<le> MaxTxSize"
proof -
  obtain w' where w': "GetChangeAddress demo_wlib demo_lib demo_wallet = Some (Inr (PubKeyHashToAddress demo_hash 0), w')"
    "w_keysByHash w' demo_hash = Some (demo_key True 0)"
    using demo_change by blast
  have a: "AddressToPubKeyHash (PubKeyHashToAddress demo_hash 0) = Inr (0, demo_hash)" by (simp add: address_iff)
  define coin where "coin = FindUnspent demo_wallet [demo_call] 10 ! 0"
  have coin: "FindUnspent demo_wallet [demo_call] 10 = [coin]" "u_Value coin = 100000" "u_PkScript coin = MakeP2PKHScript demo_hash"
    "u_Height coin = 5" "u_IsCoinbase coin = False"
    by (simp_all add: coin_def demo_unspent del: FindUnspent.simps)
  have sp: "filterSpendable [coin] m 10 = [coin]" for m
    by (simp add: filterSpendable_def spendable_coin_def confirmations_def coin)
  have se: "selectCoins [coin] 50000 1 = Inr ([coin], 100000)" by (simp add: selectCoins_def fee_for_def Let_def coin(2))
  let ?outs = "[\<lparr>out_Value = 50000, out_PkScript = MakeP2PKHScript demo_hash\<rparr>, \<lparr>out_Value = 49774, out_PkScript = MakeP2PKHScript demo_hash\<rparr>]"
  define tx0 where "tx0 = \<lparr>tx_Version = 1, tx_Inputs = [coin_input coin], tx_Outputs = ?outs, tx_LockTime = 10\<rparr>"
  obtain sc where sc: "SignInput demo_lib tx0 0 (MakeP2PKHScript demo_hash) (replicate 32 9) = Inr sc" "length sc = 68"
    using demo_sign [of tx0] by (auto simp: tx0_def)
  have sg: "sign_coins demo_lib w' 0 [coin] tx0 = Inr (set_sigscript tx0 0 sc)"
    by (simp add: KeyForScript_def coin(3) Extract_Make w'(2) sc(1))
  have "BuildTransaction demo_wlib demo_lib 0 (\<lambda>_ us. us) demo_req 1 (FindUnspent demo_wallet [demo_call] 10)
      (par_CoinbaseMaturity Mainnet) 10 demo_wallet = Some (Inr (set_sigscript tx0 0 sc), w')"
    using sg demo_outputs [OF w'(1)]
    by (simp add: BuildTransaction_def RequireUnlocked_def IsEncrypted_def demo_wallet_fields sem_defs demo_req_def a coin(1)
        sp se tx0_def del: sign_coins.simps FindUnspent.simps)
  moreover have "Transaction_SerializeSize (set_sigscript tx0 0 sc) \<le> MaxTxSize"
    by (simp add: set_sigscript_def tx0_def Transaction_SerializeSize_def TxInput_SerializeSize_def TxOutput_SerializeSize_def
        VarIntSize_def MakeP2PKHScript_20 sc(2) MaxTxSize_def)
  ultimately show ?thesis by blast
qed


end
