(* ===== verification/WalletProps.thy ===== *)
theory WalletProps
  imports WalletTx
begin

text \<open>
  What the wallet promises across its operations: the key index of every run, the lock, and that keys survive a restart, also
  through encryption. \<open>derived_ok\<close> says that the keys of a wallet are those that its seed derives for the indices in use;
  imported keys are not among them, as they are not written to the wallet file.
\<close>

section \<open>Derived keys\<close>

definition account_of :: "('xk, 'sk) wallet_lib \<Rightarrow> bytes \<Rightarrow> 'xk option" where
  "account_of W sd = Option.bind (NewMaster W sd) (\<lambda>k. Option.bind (Derive W k (HardenedKeyStart + bip44Purpose)) (\<lambda>k.
     Option.bind (Derive W k (HardenedKeyStart + bip44CoinType)) (\<lambda>k. Derive W k (HardenedKeyStart + 0))))"

definition chain_key :: "('xk, 'sk) wallet_lib \<Rightarrow> bytes \<Rightarrow> bool \<Rightarrow> 'xk option" where
  "chain_key W sd c = Option.bind (account_of W sd) (\<lambda>k. Derive W k (if c then 1 else 0))"

definition key_at :: "('xk, 'sk) wallet_lib \<Rightarrow> ('sig, 'pk, 'sk) ecdsa_lib \<Rightarrow> bytes \<Rightarrow> bool \<Rightarrow> u32 \<Rightarrow> 'sk DerivedKey option" where
  "key_at W L sd c i = Option.bind (chain_key W sd c) (\<lambda>k. Option.bind (Derive W k i) (\<lambda>x.
     map_option (\<lambda>ec. derived_key W L ec c i) (ECPrivKey W x)))"

definition derived_ok :: "('xk, 'sk) wallet_lib \<Rightarrow> ('sig, 'pk, 'sk) ecdsa_lib \<Rightarrow> ('xk, 'sk) HDWallet \<Rightarrow> bool" where
  "derived_ok W L w \<longleftrightarrow>
     w_externalKey w = chain_key W (w_seed w) False \<and> w_changeKey w = chain_key W (w_seed w) True
     \<and> chain_key W (w_seed w) False \<noteq> None \<and> chain_key W (w_seed w) True \<noteq> None
     \<and> map Some (w_externalKeys w) = map (key_at W L (w_seed w) False) (indices (w_nextExternalIdx w))
     \<and> map Some (w_changeKeys w) = map (key_at W L (w_seed w) True) (indices (w_nextChangeIdx w))"

lemma derived_key_chain [simp]: "dk_IsChange (derived_key W L ec c i) = c"
  by (simp add: derived_key_def Let_def)

lemma add_key_fields [simp]:
  "w_externalKey (add_key dk w) = w_externalKey w" "w_changeKey (add_key dk w) = w_changeKey w"
  "w_mnemonic (add_key dk w) = w_mnemonic w" "w_seed (add_key dk w) = w_seed w"
  "w_addrVersion (add_key dk w) = w_addrVersion w" "w_encrypted (add_key dk w) = w_encrypted w" "w_locked (add_key dk w) = w_locked w"
  "w_file (add_key dk w) = w_file w" "w_writes (add_key dk w) = w_writes w"
  "w_nextExternalIdx (add_key dk w) = w_nextExternalIdx w" "w_nextChangeIdx (add_key dk w) = w_nextChangeIdx w"
  "w_externalKeys (add_key dk w) = w_externalKeys w @ (if dk_IsChange dk then [] else [dk])"
  "w_changeKeys (add_key dk w) = w_changeKeys w @ (if dk_IsChange dk then [dk] else [])"
  by (simp_all add: add_key_def)

lemma key_at_chain: "key_at W L sd c i = Some dk \<Longrightarrow> dk_IsChange dk = c"
  by (auto simp: key_at_def bind_eq_Some_conv)

lemma deriveExternal_at:
  assumes "w_externalKey w = chain_key W sd False" "key_at W L sd False i = Some dk"
  shows "deriveExternal W L i w = Some (Inr dk, add_key dk w)"
  using assms by (auto simp: key_at_def bind_eq_Some_conv deriveExternal_def derive_child_def registerKey_def sem_defs opt_err_def Let_def)

lemma deriveChange_at:
  assumes "w_changeKey w = chain_key W sd True" "key_at W L sd True i = Some dk"
  shows "deriveChange W L i w = Some (Inr dk, add_key dk w)"
  using assms by (auto simp: key_at_def bind_eq_Some_conv deriveChange_def derive_child_def registerKey_def sem_defs opt_err_def Let_def)

lemma fold_add_key [simp]:
  "w_externalKey (fold add_key dks w) = w_externalKey w" "w_changeKey (fold add_key dks w) = w_changeKey w"
  "w_mnemonic (fold add_key dks w) = w_mnemonic w" "w_seed (fold add_key dks w) = w_seed w"
  "w_addrVersion (fold add_key dks w) = w_addrVersion w" "w_encrypted (fold add_key dks w) = w_encrypted w"
  "w_locked (fold add_key dks w) = w_locked w"
  "w_file (fold add_key dks w) = w_file w" "w_writes (fold add_key dks w) = w_writes w"
  "w_nextExternalIdx (fold add_key dks w) = w_nextExternalIdx w" "w_nextChangeIdx (fold add_key dks w) = w_nextChangeIdx w"
  "w_externalKeys (fold add_key dks w) = w_externalKeys w @ filter (\<lambda>dk. \<not> dk_IsChange dk) dks"
  "w_changeKeys (fold add_key dks w) = w_changeKeys w @ filter dk_IsChange dks"
  by (induction dks arbitrary: w) simp_all

lemma derive_list_external:
  assumes "w_externalKey w = chain_key W sd False" "map Some dks = map (key_at W L sd False) ixs"
  shows "derive_list (deriveExternal W L) ixs w = Some (Inr (), fold add_key dks w)"
  using assms
proof (induction ixs arbitrary: dks w)
  case (Cons i ixs)
  then obtain dk dks' where d: "dks = dk # dks'" "key_at W L sd False i = Some dk" "map Some dks' = map (key_at W L sd False) ixs"
    by (cases dks) auto
  have "deriveExternal W L i w = Some (Inr dk, add_key dk w)" by (rule deriveExternal_at [OF Cons.prems(1) d(2)])
  with Cons.IH [of "add_key dk w" dks'] Cons.prems(1) d(1,3) show ?case by (simp add: sem_defs)
qed (simp add: sem_defs)

lemma derive_list_change:
  assumes "w_changeKey w = chain_key W sd True" "map Some dks = map (key_at W L sd True) ixs"
  shows "derive_list (deriveChange W L) ixs w = Some (Inr (), fold add_key dks w)"
  using assms
proof (induction ixs arbitrary: dks w)
  case (Cons i ixs)
  then obtain dk dks' where d: "dks = dk # dks'" "key_at W L sd True i = Some dk" "map Some dks' = map (key_at W L sd True) ixs"
    by (cases dks) auto
  have "deriveChange W L i w = Some (Inr dk, add_key dk w)" by (rule deriveChange_at [OF Cons.prems(1) d(2)])
  with Cons.IH [of "add_key dk w" dks'] Cons.prems(1) d(1,3) show ?case by (simp add: sem_defs)
qed (simp add: sem_defs)

lemma deriveAccountKeys_chain:
  assumes "chain_key W (w_seed w) False = Some x" "chain_key W (w_seed w) True = Some y"
  shows "\<exists>acc. deriveAccountKeys W w = Some (Inr (), w\<lparr>w_accountKey := Some acc, w_externalKey := Some x, w_changeKey := Some y\<rparr>)"
  using assms
  by (auto simp: chain_key_def account_of_def bind_eq_Some_conv deriveAccountKeys_def sem_defs opt_err_def)

lemma chain_filters:
  assumes "map Some dks = map (key_at W L sd c) ixs"
  shows "filter dk_IsChange dks = (if c then dks else [])" "filter (\<lambda>dk. \<not> dk_IsChange dk) dks = (if c then [] else dks)"
proof -
  have "dk_IsChange dk = c" if "dk \<in> set dks" for dk
  proof -
    have "Some dk \<in> set (map (key_at W L sd c) ixs)" using that by (simp flip: assms)
    then obtain i where "key_at W L sd c i = Some dk" by auto
    then show ?thesis by (rule key_at_chain)
  qed
  then show "filter dk_IsChange dks = (if c then dks else [])" "filter (\<lambda>dk. \<not> dk_IsChange dk) dks = (if c then [] else dks)"
    by (auto simp: filter_empty_conv intro!: filter_True)
qed

text \<open>Loading a seed into a wallet without keys derives the keys of every wallet with that seed and those counters.\<close>

lemma load_keys:
  assumes "derived_ok W L w" "w_externalKeys w0 = []" "w_changeKeys w0 = []"
    and "w_nextExternalIdx w0 = w_nextExternalIdx w" "w_nextChangeIdx w0 = w_nextChangeIdx w"
  shows "\<exists>w1. loadSeedAndDerive W L m (hex_encode (w_seed w)) w0 = Some (Inr (), w1)
     \<and> w_externalKeys w1 = w_externalKeys w \<and> w_changeKeys w1 = w_changeKeys w \<and> w_mnemonic w1 = m \<and> w_seed w1 = w_seed w
     \<and> w_addrVersion w1 = w_addrVersion w0 \<and> w_encrypted w1 = w_encrypted w0 \<and> w_locked w1 = w_locked w0"
proof -
  let ?sd = "w_seed w"
  obtain x y where xy: "chain_key W ?sd False = Some x" "chain_key W ?sd True = Some y"
    using assms(1) unfolding derived_ok_def by (metis not_None_eq)
  have e: "map Some (w_externalKeys w) = map (key_at W L ?sd False) (indices (w_nextExternalIdx w))"
    and c: "map Some (w_changeKeys w) = map (key_at W L ?sd True) (indices (w_nextChangeIdx w))"
    using assms(1) by (auto simp: derived_ok_def)
  let ?w1 = "w0\<lparr>w_mnemonic := m, w_seed := ?sd\<rparr>"
  obtain acc where acc: "deriveAccountKeys W ?w1 = Some (Inr (), ?w1\<lparr>w_accountKey := Some acc, w_externalKey := Some x, w_changeKey := Some y\<rparr>)"
    using deriveAccountKeys_chain [of W ?w1 x y] xy by auto
  let ?w2 = "?w1\<lparr>w_accountKey := Some acc, w_externalKey := Some x, w_changeKey := Some y\<rparr>"
  have "derive_list (deriveExternal W L) (indices (w_nextExternalIdx w)) ?w2 = Some (Inr (), fold add_key (w_externalKeys w) ?w2)"
    by (rule derive_list_external [OF _ e]) (simp add: xy)
  moreover have "derive_list (deriveChange W L) (indices (w_nextChangeIdx w)) (fold add_key (w_externalKeys w) ?w2)
      = Some (Inr (), fold add_key (w_changeKeys w) (fold add_key (w_externalKeys w) ?w2))"
    by (rule derive_list_change [OF _ c]) (simp add: xy)
  ultimately show ?thesis
    using acc assms(2-5) chain_filters [OF e] chain_filters [OF c]
    by (simp add: loadSeedAndDerive_def sem_defs opt_err_def hex_decode_encode)
qed

lemma indices_Suc: "n \<noteq> - 1 \<Longrightarrow> indices (n + 1) = indices n @ [n]"
proof -
  assume "n \<noteq> - 1"
  then have "unat (n + 1) = Suc (unat n)" by (metis add.commute unatSuc add_eq_0_iff add.right_inverse eq_neg_iff_add_eq_0)
  then show ?thesis by (simp add: indices_def)
qed

lemma GetNewAddress_parts:
  assumes "GetNewAddress W L w = Some (Inr a, w1)" "derived_ok W L w" "\<not> w_encrypted w"
  obtains dk where "key_at W L (w_seed w) False (w_nextExternalIdx w) = Some dk" "a = key_address w dk"
    "w_externalKeys w1 = w_externalKeys w @ [dk]" "w_changeKeys w1 = w_changeKeys w" "w_mnemonic w1 = w_mnemonic w"
    "w_file w1 = FileWallet \<lparr>wd_Mnemonic = w_mnemonic w, wd_Seed = hex_encode (w_seed w),
            wd_NextExternalIdx = w_nextExternalIdx w + 1, wd_NextChangeIdx = w_nextChangeIdx w,
            wd_Encrypted = False, wd_EncryptedData = [], wd_Salt = [], wd_IV = [],
            wd_ScryptN = 0, wd_ScryptR = 0, wd_ScryptP = 0\<rparr>"
proof -
  have x: "w_externalKey w = chain_key W (w_seed w) False" using assms(2) by (simp add: derived_ok_def)
  obtain dk where dk: "key_at W L (w_seed w) False (w_nextExternalIdx w) = Some dk"
  proof (cases "key_at W L (w_seed w) False (w_nextExternalIdx w)")
    case None
    then have "\<exists>e w'. deriveExternal W L (w_nextExternalIdx w) w = Some (Inl e, w')"
      using assms(2) x by (auto simp: derived_ok_def key_at_def deriveExternal_def derive_child_def registerKey_def sem_defs opt_err_def
          bind_eq_None_conv split: option.splits)
    then show ?thesis using assms(1) by (auto simp: GetNewAddress_def DeriveNextExternal_def sem_defs)
  qed (rule that)
  have c: "\<not> dk_IsChange dk" using key_at_chain [OF dk] by simp
  show thesis
    using assms(1,3) dk c
    by (intro that [OF dk])
      (auto simp: GetNewAddress_def DeriveNextExternal_def deriveExternal_at [OF x dk] sem_defs wallet_save_def write_wallet_def
        key_address_def Let_def split: if_splits write_outcome.splits)
qed

section \<open>The text of the encrypted data\<close>

definition plain_text :: "bytes \<Rightarrow> bool" where
  "plain_text s \<longleftrightarrow> list_all (\<lambda>b. b < 0x80 \<and> b \<noteq> 10) s"

lemma split_plain: "plain_text s \<Longrightarrow> split_loop (s @ r) parts cur = split_loop r parts (cur @ s)"
proof (induction s arbitrary: cur)
  case (Cons b s)
  then have "b < 0x80" "b \<noteq> 10" by (simp_all add: plain_text_def)
  then have "split_loop ((b # s) @ r) parts cur = split_loop (s @ r) parts (cur @ [b])"
    by (simp add: split_loop.simps [of "b # s @ r"] rune_len_def Let_def)
  with Cons show ?case by (simp add: plain_text_def)
qed simp

lemma split_lines: "plain_text s \<Longrightarrow> plain_text r \<Longrightarrow> r \<noteq> [] \<Longrightarrow> splitOnNewline (s @ 10 # r) = [s, r]"
  using split_plain [of s "10 # r" "[]" "[]"] split_plain [of r "[]" "[s]" "[]"]
  by (simp add: splitOnNewline_def split_loop.simps [of "10 # r"] split_loop.simps [of "[]"])

lemma plain_hex: "plain_text (str_bytes (hex_encode bs))"
proof -
  have d: "list_all (\<lambda>c. (of_char c :: byte) < 0x80 \<and> (of_char c :: byte) \<noteq> 10) ''0123456789abcdef''" by (simp add: word_less_def)
  have "(of_char (hex_digit n) :: byte) < 0x80 \<and> (of_char (hex_digit n) :: byte) \<noteq> 10" if "n < 16" for n
    using d that unfolding list_all_length hex_digit_def by simp
  moreover have "unat b div 16 < 16" for b :: byte using byte_less [of b] by (simp add: less_mult_imp_div_less)
  ultimately show ?thesis by (auto simp: plain_text_def str_bytes_def hex_encode_def list_all_iff)
qed

lemma hex_encode_Nil [simp]: "hex_encode bs = [] \<longleftrightarrow> bs = []"
  by (cases bs) (simp_all add: hex_encode_def)

lemma decrypt_encrypted:
  assumes "aesEncrypt (Some iv) key (str_bytes (m @ [char_of (10 :: nat)] @ hex_encode sd)) = Inr (ct, iv)"
    and "scrypt_Key W (str_bytes pp) salt scryptN scryptR scryptP keyLen = Some key" "length key = 32" "length iv = 16"
    and "plain_text (str_bytes m)" "IsMnemonicValid W m" "sd \<noteq> []"
    and "wd_Salt wd = hex_encode salt" "wd_IV wd = hex_encode iv" "wd_EncryptedData wd = hex_encode ct"
      "wd_ScryptN wd = scryptN" "wd_ScryptR wd = scryptR" "wd_ScryptP wd = scryptP"
  shows "decrypt_wallet W wd pp = Inr (key, m, hex_encode sd)"
proof -
  let ?pt = "str_bytes (m @ [char_of (10 :: nat)] @ hex_encode sd)"
  have "aes_KeyOk key" using assms(3) by (simp add: aes_KeyOk_def)
  then have d: "aesDecrypt key iv ct = Inr ?pt" using aesDecrypt_Encrypt [of key iv ?pt] assms(1,4) by auto
  have "(of_char (char_of (10 :: nat)) :: byte) = of_nat (of_char (char_of (10 :: nat)))" by (simp only: of_nat_of_char)
  also have "\<dots> = 10" by simp
  finally have "?pt = str_bytes m @ 10 # str_bytes (hex_encode sd)" by (simp add: str_bytes_def)
  moreover have "str_bytes (hex_encode sd) \<noteq> []" using assms(7) by (simp add: str_bytes_def)
  ultimately have sp: "splitOnNewline ?pt = [str_bytes m, str_bytes (hex_encode sd)]"
    using split_lines [OF assms(5) plain_hex] by simp
  show ?thesis
    using assms(2,6,8-) d sp by (simp add: decrypt_wallet_def hex_decode_encode opt_err_def Let_def)
qed

section \<open>Properties\<close>

text \<open>C38. The key index of a wallet is exact in every run: whatever sequence of operations led to it, each address that
  the wallet lists resolves to a key with that address, and the script of that address resolves to the same key; a script for which the
  wallet holds a key is the pay-to-pubkey-hash script of that private key, and the key's address is listed; no other
  address resolves.\<close>

theorem wallet_key_index:
  assumes "wallet_reachable W L w"
  shows "(\<forall>a \<in> set (AllAddresses w). \<exists>dk. GetKeyForAddress w a = Some dk \<and> key_address w dk = a
        \<and> KeyForScript w (MakeP2PKHScript (dk_PubKeyHash dk)) = Some dk)
     \<and> (\<forall>script dk. KeyForScript w script = Some dk \<longrightarrow>
          script = MakeP2PKHScriptFromPubKey L (PubKey_SerializeCompressed L (dk_PrivKey dk)) \<and> key_address w dk \<in> set (AllAddresses w))
     \<and> (\<forall>a. GetKeyForAddress w a \<noteq> None \<longrightarrow> a \<in> set (AllAddresses w))"
proof -
  have ko: "keys_ok L w" using assms by (rule reachable_keys)
  have all: "set (AllAddresses w) = key_address w ` set (w_externalKeys w @ w_changeKeys w)" by (auto simp: AllAddresses_def)
  have len: "length (dk_PubKeyHash dk) = 20" if "dk \<in> set (w_externalKeys w @ w_changeKeys w)" for dk
    using ko that by (auto simp: keys_ok_def key_ok_def)
  have byhash: "w_keysByHash w h = Some dk \<Longrightarrow> dk_PubKeyHash dk = h \<and> dk \<in> set (w_externalKeys w @ w_changeKeys w)" for h dk
    using ko unfolding keys_ok_def by blast
  have byaddr: "w_keysByAddress w (key_address w dk) = w_keysByHash w (dk_PubKeyHash dk)"
    if "dk \<in> set (w_externalKeys w @ w_changeKeys w)" for dk
    using ko address_iff [of "key_address w dk" "w_addrVersion w" "dk_PubKeyHash dk"] len [OF that]
    by (simp add: keys_ok_def key_address_def)
  have 1: "\<exists>dk'. GetKeyForAddress w (key_address w dk) = Some dk' \<and> key_address w dk' = key_address w dk
      \<and> KeyForScript w (MakeP2PKHScript (dk_PubKeyHash dk')) = Some dk'" if dk: "dk \<in> set (w_externalKeys w @ w_changeKeys w)" for dk
  proof -
    obtain dk' where h: "w_keysByHash w (dk_PubKeyHash dk) = Some dk'" using ko dk unfolding keys_ok_def by blast
    with byhash have "dk_PubKeyHash dk' = dk_PubKeyHash dk" by blast
    then show ?thesis
      using h byaddr [OF dk] len [OF dk] by (simp add: GetKeyForAddress_def KeyForScript_def Extract_Make key_address_def)
  qed
  have 3: "a \<in> set (AllAddresses w)" if r: "w_keysByAddress w a = Some dk" for a dk
  proof -
    have "w_keysByAddress w a = (case AddressToPubKeyHash a of Inr (v, h) \<Rightarrow> if v = w_addrVersion w then w_keysByHash w h else None | Inl _ \<Rightarrow> None)"
      using ko unfolding keys_ok_def by blast
    then obtain h where h: "AddressToPubKeyHash a = Inr (w_addrVersion w, h)" "w_keysByHash w h = Some dk"
      using r by (auto split: sum.splits prod.splits if_splits)
    then have "a = key_address w dk" using byhash [OF h(2)] address_iff by (auto simp: key_address_def)
    then show ?thesis using byhash [OF h(2)] by (simp add: all)
  qed
  show ?thesis using 1 3 KeyForScript_owner [OF ko] by (auto simp: all GetKeyForAddress_def)
qed

theorem wallet_key_index_witness:
  "\<exists>dk. GetKeyForAddress demo_wallet (PubKeyHashToAddress demo_hash 0) = Some dk \<and> key_address demo_wallet dk = PubKeyHashToAddress demo_hash 0"
proof -
  have "PubKeyHashToAddress demo_hash 0 \<in> set (AllAddresses demo_wallet)"
    by (simp add: AllAddresses_def demo_wallet_fields key_address_def)
  then show ?thesis using wallet_key_index [OF wallet_reachable.opened [OF demo_open]] by blast
qed



text \<open>No address is lost: after a wallet hands out a new address, a wallet that is opened from its file has the same
  keys, the new address among them.\<close>

theorem wallet_reload:
  assumes "derived_ok W L w" "\<not> w_encrypted w" "w_nextExternalIdx w \<noteq> - 1"
    and "GetNewAddress W L w = Some (Inr a, w1)"
  shows "\<exists>w2. NewHDWallet W L entropy (w_addrVersion w) (w_file w1) writes = Some (Inr (), w2)
     \<and> w_externalKeys w2 = w_externalKeys w1 \<and> w_changeKeys w2 = w_changeKeys w1 \<and> w_mnemonic w2 = w_mnemonic w
     \<and> a \<in> set (ExternalAddresses w2)"
proof -
  obtain dk where dk: "key_at W L (w_seed w) False (w_nextExternalIdx w) = Some dk" "a = key_address w dk"
    "w_externalKeys w1 = w_externalKeys w @ [dk]" "w_changeKeys w1 = w_changeKeys w" "w_mnemonic w1 = w_mnemonic w"
    and f: "w_file w1 = FileWallet \<lparr>wd_Mnemonic = w_mnemonic w, wd_Seed = hex_encode (w_seed w),
            wd_NextExternalIdx = w_nextExternalIdx w + 1, wd_NextChangeIdx = w_nextChangeIdx w,
            wd_Encrypted = False, wd_EncryptedData = [], wd_Salt = [], wd_IV = [],
            wd_ScryptN = 0, wd_ScryptR = 0, wd_ScryptP = 0\<rparr>"
    using GetNewAddress_parts [OF assms(4,1,2)] by metis
  let ?w = "w\<lparr>w_externalKeys := w_externalKeys w @ [dk], w_nextExternalIdx := w_nextExternalIdx w + 1\<rparr>"
  have d: "derived_ok W L ?w" using assms(1) dk(1) by (auto simp: derived_ok_def indices_Suc [OF assms(3)])
  let ?w0 = "(new_wallet (w_addrVersion w) (w_file w1) writes)
     \<lparr>w_nextExternalIdx := w_nextExternalIdx w + 1, w_nextChangeIdx := w_nextChangeIdx w\<rparr>"
  obtain w2 where w2: "loadSeedAndDerive W L (w_mnemonic w) (hex_encode (w_seed w)) ?w0 = Some (Inr (), w2)"
    "w_externalKeys w2 = w_externalKeys w @ [dk]" "w_changeKeys w2 = w_changeKeys w" "w_mnemonic w2 = w_mnemonic w"
    "w_addrVersion w2 = w_addrVersion w"
    using load_keys [OF d, of ?w0 "w_mnemonic w"] by (auto simp: new_wallet_def)
  then have "NewHDWallet W L entropy (w_addrVersion w) (w_file w1) writes = Some (Inr (), w2)"
    by (simp add: NewHDWallet_def f loadFromJSON_def read_wallet_def sem_defs new_wallet_def Let_def)
  then show ?thesis using w2 dk by (intro exI [of _ w2]) (simp add: ExternalAddresses_def key_address_def)
qed

lemma demo_derived: "derived_ok demo_wlib demo_lib demo_wallet"
  by (simp add: demo_wallet_def NewHDWallet_def new_wallet_def createNew_def sem_defs opt_err_def demo_wlib_def
        deriveAccountKeys_def DeriveNextExternal_def deriveExternal_def derive_child_def registerKey_def Let_def
        wallet_save_def write_wallet_def add_key_def derived_ok_def chain_key_def account_of_def key_at_def indices_def)

theorem wallet_reload_witness:
  "\<exists>w1 w2 a. GetNewAddress demo_wlib demo_lib demo_wallet = Some (Inr a, w1)
     \<and> NewHDWallet demo_wlib demo_lib None 0 (w_file w1) [] = Some (Inr (), w2) \<and> a \<in> set (ExternalAddresses w2)"
proof -
  have "\<exists>a w1. GetNewAddress demo_wlib demo_lib demo_wallet = Some (Inr a, w1)"
    using demo_derived demo_wallet_fields
    by (auto simp: GetNewAddress_def DeriveNextExternal_def deriveExternal_def derive_child_def registerKey_def sem_defs opt_err_def
        derived_ok_def wallet_save_def write_wallet_def Let_def demo_wlib_def)
  then obtain a w1 where g: "GetNewAddress demo_wlib demo_lib demo_wallet = Some (Inr a, w1)" by blast
  have n: "w_nextExternalIdx demo_wallet \<noteq> - 1"
    by (simp add: demo_wallet_def NewHDWallet_def new_wallet_def createNew_def sem_defs opt_err_def demo_wlib_def
        deriveAccountKeys_def DeriveNextExternal_def deriveExternal_def derive_child_def registerKey_def Let_def
        wallet_save_def write_wallet_def add_key_def)
  show ?thesis
    using wallet_reload [OF demo_derived _ n g, of None "[]"] g demo_wallet_fields(2,3) by auto
qed

text \<open>C39. Encryption keeps the wallet: a wallet with a one-line phrase is encrypted with a passphrase; its file then has neither phrase nor
  seed; a wallet opened from the file is locked and has no keys; the same passphrase unlocks it and restores phrase, seed
  and all derived keys. Assumed: scrypt returns a key of the requested 32 bytes, the phrase is valid ASCII text without
  line breaks, and the file can be written.\<close>

theorem wallet_encryption_roundtrip:
  assumes "derived_ok W L w" "\<not> w_encrypted w" "w_seed w \<noteq> []" "w_writes w = []" "passphrase \<noteq> []"
    and "scrypt_Key W (str_bytes passphrase) salt 32768 8 1 32 = Some key" "length key = 32" "length iv = 16"
    and "IsMnemonicValid W (w_mnemonic w)" "plain_text (str_bytes (w_mnemonic w))"
  shows "\<exists>w1 wd w2 w3. EncryptWallet W (Some salt) (Some iv) passphrase w = Some (Inr (), w1)
     \<and> w_file w1 = FileWallet wd \<and> wd_Mnemonic wd = [] \<and> wd_Seed wd = []
     \<and> NewHDWallet W L entropy (w_addrVersion w) (w_file w1) writes = Some (Inr (), w2) \<and> w_locked w2 \<and> AllAddresses w2 = []
     \<and> WalletPassphrase W L now passphrase secs w2 = Some (Inr (), w3) \<and> \<not> w_locked w3
     \<and> w_externalKeys w3 = w_externalKeys w \<and> w_changeKeys w3 = w_changeKeys w
     \<and> w_mnemonic w3 = w_mnemonic w \<and> w_seed w3 = w_seed w"
proof -
  let ?pt = "str_bytes (w_mnemonic w @ [char_of (10 :: nat)] @ hex_encode (w_seed w))"
  have "aes_KeyOk key" using assms(7) by (simp add: aes_KeyOk_def)
  from aesDecrypt_Encrypt [OF this assms(8), of ?pt] obtain ct where ct: "aesEncrypt (Some iv) key ?pt = Inr (ct, iv)" by blast
  define wd where "wd = \<lparr>wd_Mnemonic = [], wd_Seed = [], wd_NextExternalIdx = w_nextExternalIdx w, wd_NextChangeIdx = w_nextChangeIdx w,
      wd_Encrypted = True, wd_EncryptedData = hex_encode ct, wd_Salt = hex_encode salt, wd_IV = hex_encode iv,
      wd_ScryptN = 32768, wd_ScryptR = 8, wd_ScryptP = 1\<rparr>"
  let ?w1 = "w\<lparr>w_encrypted := True, w_locked := True, w_encKey := [], w_writes := [], w_file := FileWallet wd\<rparr>"
  have enc: "EncryptWallet W (Some salt) (Some iv) passphrase w = Some (Inr (), ?w1)"
    using assms(2,4,5,6) ct
    by (simp add: EncryptWallet_def saveEncrypted_def write_wallet_def sem_defs opt_err_def Let_def wd_def)
  let ?w2 = "(new_wallet (w_addrVersion w) (FileWallet wd) writes)
     \<lparr>w_nextExternalIdx := w_nextExternalIdx w, w_nextChangeIdx := w_nextChangeIdx w, w_encrypted := True, w_locked := True\<rparr>"
  have opn: "NewHDWallet W L entropy (w_addrVersion w) (FileWallet wd) writes = Some (Inr (), ?w2)"
    by (simp add: NewHDWallet_def loadFromJSON_def read_wallet_def sem_defs new_wallet_def wd_def Let_def)
  have dec: "decrypt_wallet W wd passphrase = Inr (key, w_mnemonic w, hex_encode (w_seed w))"
    by (rule decrypt_encrypted [OF ct assms(6,7,8,10,9,3)]) (simp_all add: wd_def)
  obtain w3 where w3: "loadSeedAndDerive W L (w_mnemonic w) (hex_encode (w_seed w)) ?w2 = Some (Inr (), w3)"
    "w_externalKeys w3 = w_externalKeys w" "w_changeKeys w3 = w_changeKeys w" "w_mnemonic w3 = w_mnemonic w" "w_seed w3 = w_seed w"
    using load_keys [OF assms(1), of ?w2 "w_mnemonic w"] by (auto simp: new_wallet_def)
  let ?w3 = "w3\<lparr>w_locked := False, w_encKey := key,
      w_unlockUntil := (if secs > 0 then Some (now + unlock_duration secs) else None)\<rparr>"
  have pass: "WalletPassphrase W L now passphrase secs ?w2 = Some (Inr (), ?w3)"
    using dec w3(1) by (simp add: WalletPassphrase_def read_wallet_def sem_defs new_wallet_def)
  have f: "w_file ?w1 = FileWallet wd" "wd_Mnemonic wd = []" "wd_Seed wd = []" "w_locked ?w2" "AllAddresses ?w2 = []"
    by (simp_all add: wd_def new_wallet_def AllAddresses_def)
  show ?thesis
    by (intro exI [of _ ?w1] exI [of _ wd] exI [of _ ?w2] exI [of _ ?w3] conjI, rule enc, rule f, rule f, rule f,
        unfold f(1), rule opn, rule f, rule f, rule pass) (simp_all add: w3)
qed

theorem wallet_encryption_roundtrip_witness:
  "\<exists>w1 w2 w3. EncryptWallet demo_wlib (Some (replicate 16 1)) (Some (replicate 16 2)) ''pw'' demo_wallet = Some (Inr (), w1)
     \<and> NewHDWallet demo_wlib demo_lib None 0 (w_file w1) [] = Some (Inr (), w2)
     \<and> WalletPassphrase demo_wlib demo_lib 0 ''pw'' 60 w2 = Some (Inr (), w3) \<and> w_externalKeys w3 = w_externalKeys demo_wallet"
proof -
  have m: "w_mnemonic demo_wallet = ''abandon''" "w_seed demo_wallet = replicate 64 3"
    by (simp_all add: demo_wallet_def NewHDWallet_def new_wallet_def createNew_def sem_defs opt_err_def demo_wlib_def
        deriveAccountKeys_def DeriveNextExternal_def deriveExternal_def derive_child_def registerKey_def Let_def
        wallet_save_def write_wallet_def add_key_def)
  have p: "plain_text (str_bytes (w_mnemonic demo_wallet))" by (simp add: m plain_text_def str_bytes_def word_less_def)
  show ?thesis
    using wallet_encryption_roundtrip [OF demo_derived _ _ _ _ _ _ _ _ p, of "''pw''" "replicate 16 1" "replicate 32 5" "replicate 16 2" None
        "[]" 0 60] demo_wallet_fields(2,3,6) m
    by (fastforce simp: demo_wlib_def)
qed

section \<open>Where the wallet does less than it says\<close>

text \<open>
  After a lock and an unlock the recovery phrase is gone: \<^verbatim>\<open>WalletLock\<close> overwrites the seed with zeros and clears the phrase, and
  \<^verbatim>\<open>WalletPassphrase\<close> loads them again only when the seed is empty.
\<close>

lemma relock_loses_mnemonic:
  assumes "w_encrypted w" "w_seed w \<noteq> []" "WalletLock w = Some (Inr (), w1)"
    and "WalletPassphrase W L now passphrase 0 w1 = Some (Inr (), w2)"
  shows "\<not> w_locked w2 \<and> Mnemonic now' w2 = Some (Inr [], w2) \<and> w_seed w2 = map (\<lambda>_. 0) (w_seed w)"
proof -
  have w1: "w1 = wipe_secrets w" using assms(1,3) by (simp add: WalletLock_def sem_defs)
  have seed: "w_seed w1 \<noteq> []" "w_encrypted w1" "w_mnemonic w1 = []" using assms(1,2) by (simp_all add: w1 wipe_secrets_def)
  obtain key where w2: "w2 = w1\<lparr>w_locked := False, w_encKey := key, w_unlockUntil := None\<rparr>"
    using assms(4) seed(1,2)
    by (cases "w_file w1") (auto simp: WalletPassphrase_def read_wallet_def sem_defs split: sum.splits prod.splits)
  show ?thesis
    using seed(2,3) by (simp add: w2 Mnemonic_def IsLocked_def unlock_expired_def sem_defs) (simp add: w1 wipe_secrets_def)
qed

text \<open>An imported key is not written to the wallet file.\<close>

lemma import_not_saved: "ImportPrivKey W L k w = Some (r, w1) \<Longrightarrow> w_file w1 = w_file w"
  by (auto simp: ImportPrivKey_def add_key_def sem_defs Let_def split: sum.splits prod.splits if_splits)

text \<open>A wallet opened from an encrypted file has no chain keys, and asking it for an address dereferences nil.\<close>

lemma locked_address_panics:
  assumes "NewHDWallet W L entropy v (FileWallet wd) writes = Some (Inr (), w)" "wd_Encrypted wd" "wd_Seed wd = []"
  shows "GetNewAddress W L w = Some (Inl PanicNilKey, w)"
  using assms
  by (auto simp: NewHDWallet_def loadFromJSON_def read_wallet_def new_wallet_def GetNewAddress_def DeriveNextExternal_def deriveExternal_def
      derive_child_def sem_defs)

text \<open>Amount plus fee wraps around: a coin of 1000 units covers an amount just below \<open>2 ^ 64\<close>.\<close>

lemma selectCoins_wraps:
  "u_Value u = 1000 \<Longrightarrow> selectCoins [u] (- 100) 1 = Inr ([u], 1000)"
  by (simp add: selectCoins_def fee_for_def Let_def)

end
