(* ===== verification/Algorithms.thy ===== *)
theory Algorithms
  imports Crypto
begin

text \<open>
  The proof-of-work hash algorithms (\<^verbatim>\<open>internal/algorithms\<close>). \<^verbatim>\<open>sha256d\<close> and \<^verbatim>\<open>sha256mem\<close> are written out
  over the SHA-256 of this development; \<^verbatim>\<open>argon2.IDKey\<close> and \<^verbatim>\<open>scrypt.Key\<close> belong to
  \<^verbatim>\<open>golang.org/x/crypto\<close> and are arguments. \<^verbatim>\<open>sha256mem\<close> takes its scratch memory from a pool, so its
  first argument is whatever memory an earlier call left behind.
\<close>

section \<open>sha256d\<close>

definition sha256d_PoWHash :: "bytes \<Rightarrow> hash_error + hash" where
  "sha256d_PoWHash data = (let first = Sum256 data; second = Sum256 first in HashFromBytes second)"

section \<open>sha256mem\<close>

definition Slots :: nat where "Slots = 2097152"

definition HardenInterval :: nat where "HardenInterval = 128"

definition MixRounds :: nat where "MixRounds = 32768"

text \<open>\<^verbatim>\<open>binary.LittleEndian.Uint32(b[off:])\<close>.\<close>

definition word_at :: "nat \<Rightarrow> hash \<Rightarrow> u32" where
  "word_at off h = get_le (take 4 (drop off (hash_bytes h)))"

definition arxFill_word :: "hash \<Rightarrow> u32 \<Rightarrow> nat \<Rightarrow> bytes" where
  "arxFill_word src index w =
     (let v = word_at (w * 4) src;
          v = v XOR (index + of_nat w);
          v = push_bit 13 v OR drop_bit 19 v;
          v = v + word_at (w * 4) src
      in put_le 4 v)"

definition arxFill :: "hash \<Rightarrow> u32 \<Rightarrow> hash" where
  "arxFill src index = hash_copy (concat (map (arxFill_word src index) [0..<8]))"

definition fill_slot :: "hash list \<Rightarrow> nat \<Rightarrow> hash list" where
  "fill_slot mem i =
     mem[i := (if i mod HardenInterval = 0 then hash_copy (Sum256 (hash_bytes (mem ! (i - 1))))
               else arxFill (mem ! (i - 1)) (of_nat i))]"

definition fill_mem :: "hash \<Rightarrow> hash list \<Rightarrow> hash list" where
  "fill_mem seed mem = foldl fill_slot (mem[0 := seed]) [1..<Slots]"

definition mix_index :: "nat \<Rightarrow> hash \<Rightarrow> nat" where
  "mix_index off acc = unat (word_at off acc mod of_nat Slots)"

definition mixPassA :: "hash \<Rightarrow> hash list \<Rightarrow> hash" where
  "mixPassA acc m =
     foldl (\<lambda>acc i. hash_copy (Sum256 (hash_bytes acc @ hash_bytes (m ! mix_index 0 acc)))) acc [0..<MixRounds]"

definition mixPassB :: "hash \<Rightarrow> hash list \<Rightarrow> hash" where
  "mixPassB acc m =
     foldl (\<lambda>acc i. let off = (i mod 7) * 4
                    in hash_copy (Sum256 (hash_bytes acc @ hash_bytes (m ! mix_index off acc)))) acc [0..<MixRounds]"

definition sha256mem_PoWHash :: "hash list \<Rightarrow> bytes \<Rightarrow> hash" where
  "sha256mem_PoWHash pooled data =
     (let seed = hash_copy (Sum256 data);
          mem = fill_mem seed pooled;
          acc = mem ! (Slots - 1);
          acc = mixPassA acc mem;
          acc = mixPassB acc mem
      in hash_copy (Sum256 (hash_bytes acc)))"

section \<open>argon2id, scrypt and the registry\<close>

definition argon2id_PoWHash :: "(bytes \<Rightarrow> bytes \<Rightarrow> u32 \<Rightarrow> u32 \<Rightarrow> 8 word \<Rightarrow> u32 \<Rightarrow> bytes) \<Rightarrow> bytes \<Rightarrow> hash_error + hash" where
  "argon2id_PoWHash IDKey data = HashFromBytes (IDKey data data 1 256 1 32)"

text \<open>\<open>None\<close> from \<^verbatim>\<open>scrypt.Key\<close> is its error, on which the hasher panics (\<open>Inl\<close> here).\<close>

definition scrypt_PoWHash ::
  "(bytes \<Rightarrow> bytes \<Rightarrow> int \<Rightarrow> int \<Rightarrow> int \<Rightarrow> int \<Rightarrow> bytes option) \<Rightarrow> bytes \<Rightarrow> hash_error option + hash" where
  "scrypt_PoWHash Key data =
     (case Key data data 1024 1 1 32 of None \<Rightarrow> Inl None | Some out \<Rightarrow> map_err Some (HashFromBytes out))"

definition GetHasher ::
  "(bytes \<Rightarrow> bytes \<Rightarrow> u32 \<Rightarrow> u32 \<Rightarrow> 8 word \<Rightarrow> u32 \<Rightarrow> bytes) \<Rightarrow>
   (bytes \<Rightarrow> bytes \<Rightarrow> int \<Rightarrow> int \<Rightarrow> int \<Rightarrow> int \<Rightarrow> bytes option) \<Rightarrow>
   hash list \<Rightarrow> string \<Rightarrow> (bytes \<Rightarrow> hash_error option + hash) option" where
  "GetHasher IDKey Key pooled name =
     (if name = ''sha256d'' then Some (\<lambda>data. map_err Some (sha256d_PoWHash data))
      else if name = ''argon2id'' then Some (\<lambda>data. map_err Some (argon2id_PoWHash IDKey data))
      else if name = ''scrypt'' then Some (scrypt_PoWHash Key)
      else if name = ''sha256mem'' then Some (\<lambda>data. Inr (sha256mem_PoWHash pooled data))
      else None)"

section \<open>The scratch memory\<close>

lemma length_fill_slot [simp]: "length (fill_slot mem i) = length mem"
  by (simp add: fill_slot_def)

lemma length_foldl_fill [simp]: "length (foldl fill_slot mem is) = length mem"
  by (induction "is" arbitrary: mem) simp_all

text \<open>After the loop has reached slot \<open>n\<close>, the slots below it depend on the seed only.\<close>

lemma fill_prefix:
  assumes "length a = length b" "n \<le> length a" "1 \<le> n"
  shows "take n (foldl fill_slot (a[0 := s]) [1..<n]) = take n (foldl fill_slot (b[0 := s]) [1..<n])"
  using assms(3,2)
proof (induction n rule: dec_induct)
  case base
  with assms(1) show ?case by (cases a; cases b) auto
next
  case (step n)
  let ?A = "foldl fill_slot (a[0 := s]) [1..<n]" and ?B = "foldl fill_slot (b[0 := s]) [1..<n]"
  have ih: "take n ?A = take n ?B" using step by simp
  have len: "n < length ?A" "n < length ?B" using step assms(1) by simp_all
  have prev: "?A ! (n - 1) = ?B ! (n - 1)"
    using ih step(1) by (metis diff_less less_numeral_extra(1) nth_take order_less_le_trans)
  have "take (Suc n) (fill_slot ?A n) = take (Suc n) (fill_slot ?B n)"
    using len ih prev by (simp add: take_Suc_conv_app_nth fill_slot_def)
  with step(1) show ?case by (simp add: upt_Suc_append)
qed

lemma fill_mem_pool:
  assumes "length a = Slots" "length b = Slots"
  shows "fill_mem s a = fill_mem s b"
  using fill_prefix [of a b Slots s] assms by (simp add: fill_mem_def Slots_def)

lemma mix_index_bound: "mix_index off acc < Slots"
proof -
  have "word_at off acc mod of_nat Slots < (of_nat Slots :: u32)"
    by (rule word_mod_less_divisor) (simp add: Slots_def)
  then show ?thesis by (simp add: mix_index_def Slots_def word_less_nat_alt)
qed

lemma sha256d_total: "sha256d_PoWHash data = Inr (DoubleSHA256 data)"
  by (simp add: sha256d_PoWHash_def DoubleSHA256_no_panic)

section \<open>Properties\<close>

text \<open>The memory-hard hash does not depend on the recycled scratch memory: whatever an earlier call left in a
  pooled buffer, the result is that of a zeroed buffer, and no memory access of the fill or mixing
  passes is out of range.\<close>

theorem sha256mem_pool_independent:
  assumes "length pooled = Slots"
  shows "sha256mem_PoWHash pooled data = sha256mem_PoWHash (replicate Slots ZeroHash) data
     \<and> length (fill_mem seed pooled) = Slots \<and> mix_index off acc < length (fill_mem seed pooled)"
  using fill_mem_pool [OF assms, of "replicate Slots ZeroHash"] assms mix_index_bound
  by (simp add: sha256mem_PoWHash_def) (simp add: fill_mem_def)

theorem sha256mem_pool_independent_witness:
  "sha256mem_PoWHash (replicate Slots (DoubleSHA256 [])) [1, 2] = sha256mem_PoWHash (replicate Slots ZeroHash) [1, 2]"
  using sha256mem_pool_independent [of "replicate Slots (DoubleSHA256 [])"] by simp

end
