(* ===== verification/Spec2Isabelle.thy ===== *)
theory Spec2Isabelle
  imports NetProps Miner WalletProps Base58 Algorithms
begin

text \<open>
  \<^bold>\<open>Fairchain.\<close> A proof-of-work node in Go, modelled after Bitcoin. This development models its consensus core, its
  storage, its mempool, its miner, its wallet and its peer-to-peer node.

  \<^bold>\<open>The program.\<close> Bytes from peers are decoded by \<^verbatim>\<open>internal/types\<close> and \<^verbatim>\<open>internal/protocol\<close>. Headers go into the header
  index (\<^verbatim>\<open>internal/chain/headers.go\<close>), which validates them with the consensus engine (\<^verbatim>\<open>internal/consensus/pow\<close>), its
  difficulty algorithm (\<^verbatim>\<open>internal/difficulty\<close>), its hash algorithm (\<^verbatim>\<open>internal/algorithms\<close>) and the network-adjusted clock
  (\<^verbatim>\<open>internal/timeadjust\<close>). The block scheduler (\<^verbatim>\<open>internal/p2p/scheduler.go\<close>) asks peers for the blocks of the best header
  chain and hands them, in order, to the chain (\<^verbatim>\<open>internal/chain/chain.go\<close>). The chain checks structure and inputs
  (\<^verbatim>\<open>internal/consensus\<close>, \<^verbatim>\<open>internal/script\<close>), connects blocks to the UTXO set (\<^verbatim>\<open>internal/utxo\<close>), switches branches by
  work, and writes blocks, undo data, index and chainstate to the store (\<^verbatim>\<open>internal/store\<close>). Unconfirmed transactions live in
  the mempool (\<^verbatim>\<open>internal/mempool\<close>), from which the miner (\<^verbatim>\<open>internal/miner\<close>) builds blocks. The peer-to-peer manager
  (\<^verbatim>\<open>internal/p2p/manager.go\<close>) drives all of these: it holds the connections (\<^verbatim>\<open>peer.go\<close>), handles every message and runs the
  synchronisation state machine. The wallet (\<^verbatim>\<open>internal/wallet\<close>) derives keys, finds its coins in the UTXO set and builds
  transactions.

  \<^bold>\<open>How Go is modelled.\<close> Machine integers are words and wrap; \<^verbatim>\<open>int64\<close> and \<^verbatim>\<open>int\<close> values that can wrap are wrapped
  explicitly; \<^verbatim>\<open>big.Int\<close> is \<open>int\<close>. Structures are records, errors are values of a sum type, a panic is its own
  error value or \<open>None\<close>. State is passed explicitly; the chain uses the small state monad of \<open>Sem\<close>, whose outer option is a
  loop that does not return. Maps are partial functions, or association lists where their size or iteration matters, and
  the order in which the code ranges over a map is an argument. What an operation reaches through pointers (clock, tip, UTXO
  set, header index) is an argument of its definition. Locks are left out: each modelled operation holds its lock for its
  whole body. Goroutines of the manager are transition systems: a round of a goroutine is one step, and steps of all goroutines
  interleave in any order. Objects shared by pointer (mempool entries, peers) live in an explicit store. What a step reads from
  outside (clock, random numbers, map orders, choices of \<^verbatim>\<open>select\<close>, outcomes of reads and writes) is an argument. Logging and
  metrics are left out.

  \<^bold>\<open>Code outside the repository\<close> is a parameter: the secp256k1 and RIPEMD-160 packages are the record \<open>ecdsa_lib\<close>, LevelDB a
  record of operations with its documented contract as hypothesis (\<open>Store\<close>), the argon2 and scrypt packages functions
  (\<open>Algorithms\<close>), BIP32 and BIP39 a record of the wallet (\<open>Wallet\<close>). SHA-256, AES, \<^verbatim>\<open>container/heap\<close>, \<^verbatim>\<open>sort.Slice\<close>, \<^verbatim>\<open>math/big\<close> and the address functions
  of \<^verbatim>\<open>net\<close> belong to the standard library and are defined.
  No property assumes that hashes do not collide unless its statement says so.

  \<^bold>\<open>Theories, in the order of their imports.\<close>

  \<^item> \<open>Prelude\<close>, \<open>Codec\<close>: machine types, results, byte order, readers; the contract of a wire format as a locale, with its
    lemmas proved once and interpreted for every format.
  \<^item> \<open>VarInt\<close>, \<open>Types\<close>: variable-length integers, hashes, transactions, blocks. Decoders accept exactly the canonical encoding.
  \<^item> \<open>Sha256\<close>, \<open>Crypto\<close>, \<open>Target\<close>, \<open>Base58\<close>: SHA-256, identity hashes, Merkle roots, script templates and signature hashes,
    compact targets and work, addresses and WIF keys. Merkle roots bind their lists; compact targets lose at most one part in
    32768; addresses have one spelling.
  \<^item> \<open>Script\<close>: the script engine and transaction signing. A P2PKH output is spent exactly by a valid signature of its key, and
    what \<^verbatim>\<open>SignInput\<close> builds is accepted.
  \<^item> \<open>Params\<close>, \<open>Utxo\<close>, \<open>TxValidation\<close>, \<open>Validation\<close>: networks and subsidy, the UTXO set with undo data, transaction and
    block rules, median time past. Connecting a block refines applying its transactions in sequence; a block adds at most its
    subsidy; a header commits to its transactions.
  \<^item> \<open>Difficulty\<close>, \<open>Pow\<close>, \<open>Algorithms\<close>: the four difficulty algorithms, the engine and its nonce loops, the hash algorithms.
    Expected bits always denote a target within the network limit.
  \<^item> \<open>HeaderIndex\<close>: the header tree. Its best header has the most work, and its height slice is the chain of that header.
  \<^item> \<open>Ledger\<close>: the specification of the chain, an inductive predicate on lists of blocks and the UTXO set they build.
  \<^item> \<open>BlockStore\<close>, \<open>Store\<close>, \<open>Sem\<close>: the storage interface and its implementation over files and LevelDB, with I/O faults; the
    state monad.
  \<^item> \<open>Chain\<close>, \<open>ChainSafety\<close>, \<open>ChainRun\<close>, \<open>ChainProps\<close>: all of \<^verbatim>\<open>chain.go\<close> over the storage interface. While storage works, every
    reachable state is that of one valid ledger; processing never lowers the work of the tip; refused blocks change nothing;
    storage failures roll back; reorganisations return; a rescan rebuilds the same UTXO set.
  \<^item> \<open>GoHeap\<close>: \<^verbatim>\<open>container/heap\<close> as a locale over its interface, and \<^verbatim>\<open>sort.Slice\<close>.
  \<^item> \<open>Mempool\<close>, \<open>MempoolProps\<close>: all of \<^verbatim>\<open>mempool.go\<close>, with its entries shared by pointer between map and heap. The indices agree
    with the entries in every reachable state, admission returns, the block template is exact, a dump reloads.
  \<^item> \<open>Miner\<close>: selection, coinbase, header, and the nonce search as an interleaving of worker steps. Mined blocks are valid; the
    search misses no nonce under any interleaving.
  \<^item> \<open>Scheduler\<close>: the download scheduler over the header index, whose promise is the locale \<open>header_source\<close>. No block is
    lost, blocks are delivered in order, limits hold.
  \<^item> \<open>TimeAdjust\<close>: the adjusted clock. A majority of samples pins it down.
  \<^item> \<open>Aes\<close>, \<open>Wallet\<close>, \<open>WalletTx\<close>, \<open>WalletProps\<close>: all of the wallet. AES with CBC and padding decrypts what it encrypts; the key
    index is exact in every run; a payment the wallet builds is accepted by validation and pays what was asked; an encrypted wallet
    file holds no secret and opens again with its passphrase; a locked wallet refuses.
  \<^item> \<open>Protocol\<close>, \<open>NetAddr\<close>, \<open>Peer\<close>: the wire messages; addresses; a connection with its queues, counters and bounded sets.
    Messages have one encoding, and what one node queues the other reads, in order.
  \<^item> \<open>ErrorText\<close>: the texts of errors, by which the manager tells malicious peers from unlucky ones.
  \<^item> \<open>Manager\<close>, \<open>Discovery\<close>, \<open>Handlers\<close>, \<open>Sync\<close>: all of \<^verbatim>\<open>manager.go\<close> and \<^verbatim>\<open>discovery.go\<close>: state, bans, gossip and relay; message handlers and the life of a
    connection; the synchronisation loop.
  \<^item> \<open>NetInv\<close>, \<open>NetRun\<close>, \<open>NetProps\<close>: the invariant of the manager, the transition system of the running node, and its properties.
    Whatever peers send, the node keeps a valid ledger and its state stays well-formed and bounded; two honest nodes shake
    hands; bans take effect; the synchronisation follows its state diagram.

  \<^bold>\<open>Termination and fuel.\<close> Loops are recursive functions with termination proofs where they end by themselves. Loops that
  depend on data that could make them run on return an option, and the properties prove that they return: the reorganisation
  path (\<open>reorg_returns\<close>), the eviction loops of the mempool (\<open>add_tx_returns\<close>), the requests of the fast download
  (\<open>fast_requests_return\<close>: as many rounds as there is room for blocks in flight). The header locator takes a bound on its
  iterations, and 43 are proved to be enough, since its step doubles after ten of 32-bit heights. The nonce search runs as long
  as its schedule, and a schedule that gives each worker three turns per nonce is proved to finish it.

  \<^bold>\<open>Not modelled.\<close> Sockets, and interleaving inside one round of a goroutine of the manager; the table dump of \<^verbatim>\<open>topologyLoop\<close>;
  the JSON-RPC server and the JSON text of the wallet file; start-up, configuration, logging,
  metrics and the command-line programs; the older bolt store; the floating-point fields of \<^verbatim>\<open>GetChainInfo\<close>, the hash rate of
  the miner and the peer score of the scheduler, which are for display or ordering only (the order the score gives is an
  argument).
\<close>

end
